(* ===== verification/Prelude.thy ===== *)
theory Prelude
  imports Main "HOL-Library.Word"
begin

text \<open>
  Shared vocabulary of the development: the C integer casts that occur all over the
  sources, C strings, the events a routine that writes assembler text produces, and the
  rule collections (\<open>c_arith\<close>, \<open>rtl_simps\<close>, \<open>frame_simps\<close>, \<open>set_simps\<close>) that the
  component theories extend and that carry their proofs.
\<close>

named_theorems c_arith "C integer casts and ranges"
named_theorems rtl_simps "projections of RTL expressions"
named_theorems frame_simps "stack frame layout"
named_theorems set_simps "bitmaps as sets of bit numbers"

unbundle bit_operations_syntax

section \<open>Integer casts\<close>

text \<open>The development is for the hosts the README names (32-bit Linux and Cygwin):
  \<open>int\<close>, \<open>long\<close> and \<open>HOST_WIDE_INT\<close> are 32 bits wide there.\<close>

abbreviation (input) HOST_BITS_PER_WIDE_INT :: nat where
  "HOST_BITS_PER_WIDE_INT \<equiv> 32"

definition to_unsigned :: "int \<Rightarrow> int" where
  "to_unsigned v = v mod 2 ^ HOST_BITS_PER_WIDE_INT"

definition in_hwi :: "int \<Rightarrow> bool" where
  "in_hwi v \<longleftrightarrow> - (2 ^ (HOST_BITS_PER_WIDE_INT - 1)) \<le> v \<and> v < 2 ^ (HOST_BITS_PER_WIDE_INT - 1)"

lemma to_unsigned_nonneg [simp]: "0 \<le> to_unsigned v"
  by (simp add: to_unsigned_def)

lemma to_unsigned_small [c_arith]: "0 \<le> v \<Longrightarrow> v < 2 ^ 32 \<Longrightarrow> to_unsigned v = v"
  by (simp add: to_unsigned_def)

text \<open>The idiom \<open>(unsigned) (v + a) < b\<close> is a signed range check.\<close>

lemma unsigned_range_check [c_arith]:
  assumes "in_hwi v" "0 \<le> a" "a \<le> 2 ^ 31" "0 \<le> b" "b \<le> 2 ^ 31"
  shows "to_unsigned (v + a) < b \<longleftrightarrow> - a \<le> v \<and> v + a < b"
proof (cases "0 \<le> v + a")
  case True
  then have "to_unsigned (v + a) = v + a"
    using assms by (intro to_unsigned_small) (auto simp: in_hwi_def)
  with True show ?thesis by auto
next
  case False
  have "to_unsigned (v + a) = to_unsigned (v + a + 2 ^ 32)"
    by (simp add: to_unsigned_def)
  also have "\<dots> = v + a + 2 ^ 32"
    using False assms by (intro to_unsigned_small) (auto simp: in_hwi_def)
  finally show ?thesis using False assms by (auto simp: in_hwi_def)
qed

text \<open>The value of a \<open>HOST_WIDE_INT\<close> expression: two's complement at the host's width.\<close>

definition hwi :: "int \<Rightarrow> int" where
  "hwi v = sint (word_of_int v :: 32 word)"

lemma word_of_hwi [simp]: "(word_of_int (hwi v) :: 32 word) = word_of_int v"
  by (simp add: hwi_def)

lemma hwi_small [c_arith]: "in_hwi v \<Longrightarrow> hwi v = v"
  by (simp add: hwi_def in_hwi_def sint_sbintrunc' signed_take_bit_int_eq_self)

lemma hwi_0 [simp]: "hwi 0 = 0"
  by (simp add: hwi_def)

text \<open>Rounding a size up to whole units, the idiom \<open>(n + u - 1) / u\<close>.\<close>

definition ceil_div :: "nat \<Rightarrow> nat \<Rightarrow> nat" where
  "ceil_div n u = (n + u - 1) div u"

lemma ceil_div_bounds:
  assumes "0 < u"
  shows "n \<le> ceil_div n u * u" and "ceil_div n u * u < n + u"
proof -
  let ?q = "(n + u - 1) div u"
  have "?q * u + (n + u - 1) mod u = n + u - 1"
    by (rule div_mult_mod_eq)
  moreover have "(n + u - 1) mod u < u" using assms by simp
  ultimately show "n \<le> ceil_div n u * u" and "ceil_div n u * u < n + u"
    using assms unfolding ceil_div_def by linarith+
qed

lemma ceil_div_0 [simp]: "0 < u \<Longrightarrow> ceil_div 0 u = 0"
  by (simp add: ceil_div_def)

section \<open>C strings\<close>

text \<open>A C string is the list of its characters before the terminating zero. \<open>strcasecmp\<close>
  returns the difference of the first pair of lower-cased characters that differ; the
  terminating zero compares below every character.\<close>

definition tolower :: "char \<Rightarrow> nat" where
  "tolower c = (let n = of_char c :: nat in if 65 \<le> n \<and> n \<le> 90 then n + 32 else n)"

fun strcasecmp :: "string \<Rightarrow> string \<Rightarrow> int" where
  "strcasecmp [] [] = 0"
| "strcasecmp [] (b # bs) = - int (tolower b)"
| "strcasecmp (a # as) [] = int (tolower a)"
| "strcasecmp (a # as) (b # bs) =
     (if tolower a = tolower b then strcasecmp as bs else int (tolower a) - int (tolower b))"

section \<open>Lists\<close>

lemma nth_list_update_neq' [simp]: "i \<noteq> j \<Longrightarrow> xs[i := x] ! j = xs ! j"
  by simp

lemma fold_invariant:
  assumes "P s" "\<And>x s. x \<in> set xs \<Longrightarrow> P s \<Longrightarrow> P (f x s)"
  shows "P (fold f xs s)"
  using assms by (induction xs arbitrary: s) auto

end
