(* ===== verification/Attribs.thy ===== *)
theory Attribs
  imports Prelude
begin

text \<open>
  Attribute lists of declarations, \<open>gcc/tree.c\<close>: \<open>is_attribute_p\<close>, \<open>lookup_attribute\<close> and
  \<open>remove_attribute\<close>. An attribute is the identifier in \<open>TREE_PURPOSE\<close> with a value; a list
  of attributes is a list linked by \<open>TREE_CHAIN\<close>. A failing \<open>gcc_assert\<close> is \<open>None\<close>.
\<close>

type_synonym 'v attribute = "string \<times> 'v"

text \<open>\<open>attr\<close> with its length against an identifier; both \<open>text\<close> and \<open>__text__\<close> are
  accepted. The comparison \<open>strncmp (a, b, n) = 0\<close> of strings at least \<open>n\<close> long is equality of
  their first \<open>n\<close> characters.\<close>

definition us :: char where "us = CHR 0x5F"

definition is_attribute_p :: "string \<Rightarrow> string \<Rightarrow> bool option" where
  "is_attribute_p attr p =
    (let ident_len = length p; attr_len = length attr
     in if ident_len = attr_len \<and> attr = p then Some True
        else if attr_len > 0 \<and> attr ! 0 = us then
          (if attr_len \<ge> 2 \<and> attr ! 1 = us \<and> attr ! (attr_len - 2) = us \<and> attr ! (attr_len - 1) = us
           then Some (ident_len + 4 = attr_len \<and> take (attr_len - 4) (drop 2 attr) = take (attr_len - 4) p)
           else None)
        else
          Some (ident_len = attr_len + 4 \<and> p ! 0 = us \<and> p ! 1 = us
                \<and> p ! (ident_len - 2) = us \<and> p ! (ident_len - 1) = us
                \<and> take attr_len attr = take attr_len (drop 2 p)))"

text \<open>The list from the first attribute with that name on; \<open>Some []\<close> is \<open>NULL_TREE\<close>.\<close>

fun lookup_attribute :: "string \<Rightarrow> 'v attribute list \<Rightarrow> 'v attribute list option" where
  "lookup_attribute attr_name [] = Some []"
| "lookup_attribute attr_name (l # ls) =
    (case is_attribute_p attr_name (fst l) of
       None \<Rightarrow> None
     | Some found \<Rightarrow> if found then Some (l # ls) else lookup_attribute attr_name ls)"

fun remove_attribute :: "string \<Rightarrow> 'v attribute list \<Rightarrow> 'v attribute list option" where
  "remove_attribute attr_name [] = Some []"
| "remove_attribute attr_name (l # ls) =
    (case is_attribute_p attr_name (fst l) of
       None \<Rightarrow> None
     | Some found \<Rightarrow>
         map_option (\<lambda>r. if found then r else l # r) (remove_attribute attr_name ls))"

section \<open>Lemmas\<close>

text \<open>The two spellings of a name.\<close>

definition spells :: "string \<Rightarrow> string \<Rightarrow> bool" where
  "spells attr p \<longleftrightarrow> p = attr \<or> p = [us, us] @ attr @ [us, us]"

lemma wrapped_iff:
  assumes "length p = n + 4"
  shows "p = [us, us] @ a @ [us, us] \<longleftrightarrow> p ! 0 = us \<and> p ! 1 = us \<and> p ! (length p - 2) = us
    \<and> p ! (length p - 1) = us \<and> take n (drop 2 p) = a"
proof -
  obtain b c m where p: "p = b # c # m" "length m = n + 2"
    using assms by (cases p; cases "tl p") auto
  obtain d e where m: "m = take n m @ [d, e]"
  proof -
    have "length (drop n m) = Suc (Suc 0)" using p(2) by simp
    then obtain d e where "drop n m = [d, e]" by (metis length_0_conv length_Suc_conv)
    then show ?thesis using that [of d e] append_take_drop_id [of n m] by metis
  qed
  define t where "t = take n m"
  have t: "length t = n" using p(2) by (simp add: t_def)
  have pm: "p = b # c # t @ [d, e]" using p(1) m by (simp add: t_def)
  show ?thesis using t unfolding pm by (auto simp: nth_Cons' nth_append)
qed

lemma is_attribute_plain:
  assumes "attr = [] \<or> hd attr \<noteq> us"
  shows "is_attribute_p attr p = Some (spells attr p)"
proof -
  have u: "\<not> (length attr > 0 \<and> attr ! 0 = us)" using assms by (auto simp: hd_conv_nth)
  show ?thesis
  proof (cases "p = attr")
    case True
    then show ?thesis by (simp add: is_attribute_p_def spells_def)
  next
    case ne: False
    show ?thesis
    proof (cases "length p = length attr + 4")
      case True
      from wrapped_iff [OF this, of attr] show ?thesis using u ne True
        by (auto simp: is_attribute_p_def spells_def Let_def simp del: append_Cons)
    next
      case False
      then show ?thesis using u ne by (auto simp: is_attribute_p_def spells_def Let_def)
    qed
  qed
qed

lemma lookup_attribute_plain:
  assumes "attr = [] \<or> hd attr \<noteq> us"
  shows "lookup_attribute attr ls = Some (dropWhile (\<lambda>l. \<not> spells attr (fst l)) ls)"
  using assms by (induction ls) (simp_all add: is_attribute_plain)

lemma remove_attribute_plain:
  assumes "attr = [] \<or> hd attr \<noteq> us"
  shows "remove_attribute attr ls = Some (filter (\<lambda>l. \<not> spells attr (fst l)) ls)"
  using assms by (induction ls) (simp_all add: is_attribute_plain)

section \<open>Properties\<close>

text \<open>A lookup after a removal finds nothing, whatever spelling the declarations used,
  and a removal leaves every other attribute where it was, in order.\<close>

theorem lookup_after_remove:
  assumes "attr \<noteq> []" "hd attr \<noteq> us"
  shows "\<exists>rest. remove_attribute attr ls = Some rest \<and> lookup_attribute attr rest = Some []
    \<and> rest = filter (\<lambda>l. fst l \<noteq> attr \<and> fst l \<noteq> [us, us] @ attr @ [us, us]) ls"
proof -
  let ?rest = "filter (\<lambda>l. \<not> spells attr (fst l)) ls"
  have "lookup_attribute attr ?rest = Some []"
    using assms by (simp add: lookup_attribute_plain)
  then show ?thesis using assms by (simp add: remove_attribute_plain spells_def)
qed

lemma lookup_after_remove_witness:
  "\<exists>rest. remove_attribute ''fpga'' [(''__fpga__'', 1 :: int), (''call_hw'', 2), (''fpga'', 3)] = Some rest
     \<and> lookup_attribute ''fpga'' rest = Some [] \<and> rest = [(''call_hw'', 2)]"
  using lookup_after_remove [of "''fpga''" "[(''__fpga__'', 1 :: int), (''call_hw'', 2), (''fpga'', 3)]"]
  by (auto simp: us_def)

end
