(* ===== verification/Machmode.thy ===== *)
theory Machmode
  imports Prelude
begin

text \<open>
  The machine modes of \<open>gcc/machmode.def\<close> (the target adds none of its own, there is no
  \<open>microblaze-modes.def\<close>) with their sizes in bytes and their classes, and the reading
  of a mode as a number of 4-byte words.
\<close>

datatype mode_class =
    MODE_RANDOM | MODE_CC | MODE_INT | MODE_PARTIAL_INT | MODE_FRACT | MODE_UFRACT
  | MODE_ACCUM | MODE_UACCUM | MODE_FLOAT | MODE_DECIMAL_FLOAT
  | MODE_COMPLEX_INT | MODE_COMPLEX_FLOAT
  | MODE_VECTOR_INT | MODE_VECTOR_FRACT | MODE_VECTOR_UFRACT
  | MODE_VECTOR_ACCUM | MODE_VECTOR_UACCUM | MODE_VECTOR_FLOAT

datatype machine_mode =
    VOIDmode | BLKmode | CCmode
  | BImode | QImode | HImode | SImode | DImode | TImode
  | QQmode | HQmode | SQmode | DQmode | TQmode
  | UQQmode | UHQmode | USQmode | UDQmode | UTQmode
  | HAmode | SAmode | DAmode | TAmode
  | UHAmode | USAmode | UDAmode | UTAmode
  | SFmode | DFmode | SDmode | DDmode | TDmode
  | CQImode | CHImode | CSImode | CDImode | CTImode | SCmode | DCmode

definition all_modes :: "machine_mode list" where
  "all_modes =
     [VOIDmode, BLKmode, CCmode, BImode, QImode, HImode, SImode, DImode, TImode,
      QQmode, HQmode, SQmode, DQmode, TQmode, UQQmode, UHQmode, USQmode, UDQmode, UTQmode,
      HAmode, SAmode, DAmode, TAmode, UHAmode, USAmode, UDAmode, UTAmode,
      SFmode, DFmode, SDmode, DDmode, TDmode,
      CQImode, CHImode, CSImode, CDImode, CTImode, SCmode, DCmode]"

lemma all_modes [simp]: "m \<in> set all_modes"
  by (cases m) (simp_all add: all_modes_def)

text \<open>Size in bytes. The random modes \<open>VOID\<close> and \<open>BLK\<close> have size 0; a \<open>CC_MODE\<close> is four
  bytes wide; a complex mode is twice its component.\<close>

fun GET_MODE_SIZE :: "machine_mode \<Rightarrow> nat" where
  "GET_MODE_SIZE VOIDmode = 0" | "GET_MODE_SIZE BLKmode = 0" | "GET_MODE_SIZE CCmode = 4"
| "GET_MODE_SIZE BImode = 1" | "GET_MODE_SIZE QImode = 1" | "GET_MODE_SIZE HImode = 2"
| "GET_MODE_SIZE SImode = 4" | "GET_MODE_SIZE DImode = 8" | "GET_MODE_SIZE TImode = 16"
| "GET_MODE_SIZE QQmode = 1" | "GET_MODE_SIZE HQmode = 2" | "GET_MODE_SIZE SQmode = 4"
| "GET_MODE_SIZE DQmode = 8" | "GET_MODE_SIZE TQmode = 16"
| "GET_MODE_SIZE UQQmode = 1" | "GET_MODE_SIZE UHQmode = 2" | "GET_MODE_SIZE USQmode = 4"
| "GET_MODE_SIZE UDQmode = 8" | "GET_MODE_SIZE UTQmode = 16"
| "GET_MODE_SIZE HAmode = 2" | "GET_MODE_SIZE SAmode = 4" | "GET_MODE_SIZE DAmode = 8"
| "GET_MODE_SIZE TAmode = 16"
| "GET_MODE_SIZE UHAmode = 2" | "GET_MODE_SIZE USAmode = 4" | "GET_MODE_SIZE UDAmode = 8"
| "GET_MODE_SIZE UTAmode = 16"
| "GET_MODE_SIZE SFmode = 4" | "GET_MODE_SIZE DFmode = 8"
| "GET_MODE_SIZE SDmode = 4" | "GET_MODE_SIZE DDmode = 8" | "GET_MODE_SIZE TDmode = 16"
| "GET_MODE_SIZE CQImode = 2" | "GET_MODE_SIZE CHImode = 4" | "GET_MODE_SIZE CSImode = 8"
| "GET_MODE_SIZE CDImode = 16" | "GET_MODE_SIZE CTImode = 32"
| "GET_MODE_SIZE SCmode = 8" | "GET_MODE_SIZE DCmode = 16"

fun GET_MODE_CLASS :: "machine_mode \<Rightarrow> mode_class" where
  "GET_MODE_CLASS VOIDmode = MODE_RANDOM" | "GET_MODE_CLASS BLKmode = MODE_RANDOM"
| "GET_MODE_CLASS CCmode = MODE_CC"
| "GET_MODE_CLASS BImode = MODE_INT" | "GET_MODE_CLASS QImode = MODE_INT"
| "GET_MODE_CLASS HImode = MODE_INT" | "GET_MODE_CLASS SImode = MODE_INT"
| "GET_MODE_CLASS DImode = MODE_INT" | "GET_MODE_CLASS TImode = MODE_INT"
| "GET_MODE_CLASS QQmode = MODE_FRACT" | "GET_MODE_CLASS HQmode = MODE_FRACT"
| "GET_MODE_CLASS SQmode = MODE_FRACT" | "GET_MODE_CLASS DQmode = MODE_FRACT"
| "GET_MODE_CLASS TQmode = MODE_FRACT"
| "GET_MODE_CLASS UQQmode = MODE_UFRACT" | "GET_MODE_CLASS UHQmode = MODE_UFRACT"
| "GET_MODE_CLASS USQmode = MODE_UFRACT" | "GET_MODE_CLASS UDQmode = MODE_UFRACT"
| "GET_MODE_CLASS UTQmode = MODE_UFRACT"
| "GET_MODE_CLASS HAmode = MODE_ACCUM" | "GET_MODE_CLASS SAmode = MODE_ACCUM"
| "GET_MODE_CLASS DAmode = MODE_ACCUM" | "GET_MODE_CLASS TAmode = MODE_ACCUM"
| "GET_MODE_CLASS UHAmode = MODE_UACCUM" | "GET_MODE_CLASS USAmode = MODE_UACCUM"
| "GET_MODE_CLASS UDAmode = MODE_UACCUM" | "GET_MODE_CLASS UTAmode = MODE_UACCUM"
| "GET_MODE_CLASS SFmode = MODE_FLOAT" | "GET_MODE_CLASS DFmode = MODE_FLOAT"
| "GET_MODE_CLASS SDmode = MODE_DECIMAL_FLOAT" | "GET_MODE_CLASS DDmode = MODE_DECIMAL_FLOAT"
| "GET_MODE_CLASS TDmode = MODE_DECIMAL_FLOAT"
| "GET_MODE_CLASS CQImode = MODE_COMPLEX_INT" | "GET_MODE_CLASS CHImode = MODE_COMPLEX_INT"
| "GET_MODE_CLASS CSImode = MODE_COMPLEX_INT" | "GET_MODE_CLASS CDImode = MODE_COMPLEX_INT"
| "GET_MODE_CLASS CTImode = MODE_COMPLEX_INT"
| "GET_MODE_CLASS SCmode = MODE_COMPLEX_FLOAT" | "GET_MODE_CLASS DCmode = MODE_COMPLEX_FLOAT"

text \<open>The target's word: \<open>BITS_PER_UNIT\<close>, \<open>UNITS_PER_WORD\<close> and what follows from them.\<close>

abbreviation (input) BITS_PER_UNIT :: nat where "BITS_PER_UNIT \<equiv> 8"
abbreviation (input) UNITS_PER_WORD :: nat where "UNITS_PER_WORD \<equiv> 4"
abbreviation (input) BITS_PER_WORD :: nat where "BITS_PER_WORD \<equiv> 32"
abbreviation (input) POINTER_SIZE :: nat where "POINTER_SIZE \<equiv> 32"
abbreviation (input) Pmode :: machine_mode where "Pmode \<equiv> SImode"

definition CLASS_UNITS :: "machine_mode \<Rightarrow> nat \<Rightarrow> nat" where
  "CLASS_UNITS mode sz = (GET_MODE_SIZE mode + sz - 1) div sz"

definition HARD_REGNO_NREGS :: "nat \<Rightarrow> machine_mode \<Rightarrow> nat" where
  "HARD_REGNO_NREGS regno mode = (GET_MODE_SIZE mode + UNITS_PER_WORD - 1) div UNITS_PER_WORD"

lemma HARD_REGNO_NREGS_ceil [c_arith]:
  "HARD_REGNO_NREGS r m = ceil_div (GET_MODE_SIZE m) UNITS_PER_WORD"
  by (simp add: HARD_REGNO_NREGS_def ceil_div_def)

lemma GET_MODE_SIZE_le: "GET_MODE_SIZE m \<le> 32"
  by (cases m) simp_all

lemma complex_mode_size:
  "GET_MODE_CLASS m \<in> {MODE_COMPLEX_INT, MODE_COMPLEX_FLOAT} \<Longrightarrow> even (GET_MODE_SIZE m)"
  by (cases m) simp_all

end
