(* ===== verification/Rtl.thy ===== *)
theory Rtl
  imports Machmode
begin

text \<open>
  The part of GCC's register transfer language that the MicroBlaze back end builds and
  inspects, the register file and register classes of \<open>gcc/config/microblaze/microblaze.h\<close>,
  and the constant-range macros of that header. An expression that the code reaches with
  \<open>XEXP (x, i)\<close> is a constructor argument here; \<open>GET_CODE\<close> and \<open>GET_MODE\<close> read the
  expression's head. Register numbers are \<open>nat\<close> inside expressions (\<open>REGNO\<close> is unsigned) and
  \<open>int\<close> where the C variable is an \<open>int\<close> that may be negative.
\<close>

section \<open>Expressions\<close>

datatype rtx_code =
    REG | SUBREG | MEM | CONST_INT | CONST_DOUBLE | CONST_CODE | SYMBOL_REF | LABEL_REF | CODE_LABEL
  | UNSPEC | PC | PLUS | MINUS | MULT | DIV | UDIV | AND_CODE | IOR | XOR_CODE
  | ASHIFT | ASHIFTRT | LSHIFTRT | NOT_CODE | NEG | SIGN_EXTEND | ZERO_EXTEND
  | EQ | NE | GT | GE | LT | LE | GTU | GEU | LTU | LEU
  | IF_THEN_ELSE | SET | CLOBBER | USE | PARALLEL
  | UNSPEC_VOLATILE | RETURN

text \<open>What \<open>get_base_reg\<close> asks of a symbol: its name, \<open>SYMBOL_REF_SMALL_P\<close>, and
  \<open>SYMBOL_REF_DECL\<close> (\<open>None\<close> for a null declaration, otherwise \<open>TREE_READONLY\<close>).\<close>

record symbol =
  sym_name :: string
  sym_small :: bool
  sym_decl :: "bool option"

text \<open>The value of a \<open>CONST_DOUBLE\<close>: a double-word integer (high, low), or a float given by
  the words the target stores for it, as \<open>REAL_VALUE_TO_TARGET_SINGLE\<close> and
  \<open>REAL_VALUE_TO_TARGET_DOUBLE\<close> compute them.\<close>

datatype const_value =
    CInt int int
  | CSingle "32 word"
  | CDouble "32 word" "32 word"

datatype rtx =
    Reg machine_mode nat
  | Subreg machine_mode rtx nat
  | Mem machine_mode rtx
  | ConstInt int
  | ConstDouble machine_mode const_value
  | Const rtx
  | SymbolRef symbol
  | LabelRef nat
  | CodeLabel nat
  | Unspec machine_mode "rtx list" int
  | Pc
  | Unary rtx_code machine_mode rtx
  | Binary rtx_code machine_mode rtx rtx
  | IfThenElse machine_mode rtx rtx rtx
  | SetX rtx rtx
  | Clobber rtx
  | Use rtx
  | Parallel "rtx list"
  | UnspecVolatile "rtx list" int
  | Return

fun GET_CODE :: "rtx \<Rightarrow> rtx_code" where
  "GET_CODE (Reg m r) = REG"
| "GET_CODE (Subreg m x b) = SUBREG"
| "GET_CODE (Mem m a) = MEM"
| "GET_CODE (ConstInt i) = CONST_INT"
| "GET_CODE (ConstDouble m v) = CONST_DOUBLE"
| "GET_CODE (Const x) = CONST_CODE"
| "GET_CODE (SymbolRef s) = SYMBOL_REF"
| "GET_CODE (LabelRef l) = LABEL_REF"
| "GET_CODE (CodeLabel l) = CODE_LABEL"
| "GET_CODE (Unspec m xs i) = UNSPEC"
| "GET_CODE Pc = PC"
| "GET_CODE (Unary c m x) = c"
| "GET_CODE (Binary c m x y) = c"
| "GET_CODE (IfThenElse m c x y) = IF_THEN_ELSE"
| "GET_CODE (SetX d s) = SET"
| "GET_CODE (Clobber x) = CLOBBER"
| "GET_CODE (Use x) = USE"
| "GET_CODE (Parallel xs) = PARALLEL"
| "GET_CODE (UnspecVolatile xs n) = UNSPEC_VOLATILE"
| "GET_CODE Return = RETURN"

text \<open>Constants and symbols are modeless in the expressions the back end builds
  (\<open>VOIDmode\<close> for constants, \<open>Pmode\<close> for symbols, labels and \<open>CONST_CODE\<close>).\<close>

fun GET_MODE :: "rtx \<Rightarrow> machine_mode" where
  "GET_MODE (Reg m r) = m"
| "GET_MODE (Subreg m x b) = m"
| "GET_MODE (Mem m a) = m"
| "GET_MODE (ConstInt i) = VOIDmode"
| "GET_MODE (ConstDouble m v) = m"
| "GET_MODE (Const x) = Pmode"
| "GET_MODE (SymbolRef s) = Pmode"
| "GET_MODE (LabelRef l) = Pmode"
| "GET_MODE (CodeLabel l) = VOIDmode"
| "GET_MODE (Unspec m xs i) = m"
| "GET_MODE Pc = VOIDmode"
| "GET_MODE (Unary c m x) = m"
| "GET_MODE (Binary c m x y) = m"
| "GET_MODE (IfThenElse m c x y) = m"
| "GET_MODE (SetX d s) = VOIDmode"
| "GET_MODE (Clobber x) = VOIDmode"
| "GET_MODE (Use x) = VOIDmode"
| "GET_MODE (Parallel xs) = VOIDmode"
| "GET_MODE (UnspecVolatile xs n) = VOIDmode"
| "GET_MODE Return = VOIDmode"

fun INTVAL :: "rtx \<Rightarrow> int" where
  "INTVAL (ConstInt i) = i"
| "INTVAL _ = 0"

abbreviation Plus :: "rtx \<Rightarrow> rtx \<Rightarrow> rtx" where "Plus \<equiv> Binary PLUS Pmode"
abbreviation Minus :: "rtx \<Rightarrow> rtx \<Rightarrow> rtx" where "Minus \<equiv> Binary MINUS Pmode"
abbreviation const0_rtx :: rtx where "const0_rtx \<equiv> ConstInt 0"

text \<open>Well-formed heads: a unary or binary node carries an operator code, so that
  \<open>GET_CODE\<close> identifies the leaf constructors.\<close>

definition unary_codes :: "rtx_code set" where
  "unary_codes = {NOT_CODE, NEG, SIGN_EXTEND, ZERO_EXTEND}"

definition binary_codes :: "rtx_code set" where
  "binary_codes = {PLUS, MINUS, MULT, DIV, UDIV, AND_CODE, IOR, XOR_CODE, ASHIFT, ASHIFTRT, LSHIFTRT,
     EQ, NE, GT, GE, LT, LE, GTU, GEU, LTU, LEU}"

fun wf_rtx :: "rtx \<Rightarrow> bool" where
  "wf_rtx (Subreg m x b) = wf_rtx x"
| "wf_rtx (Mem m a) = wf_rtx a"
| "wf_rtx (Const x) = wf_rtx x"
| "wf_rtx (Unspec m xs i) = (xs \<noteq> [] \<and> (\<forall>x \<in> set xs. wf_rtx x))"
| "wf_rtx (Unary c m x) = (c \<in> unary_codes \<and> wf_rtx x)"
| "wf_rtx (Binary c m x y) = (c \<in> binary_codes \<and> wf_rtx x \<and> wf_rtx y)"
| "wf_rtx (IfThenElse m c x y) = (wf_rtx c \<and> wf_rtx x \<and> wf_rtx y)"
| "wf_rtx (SetX d s) = (wf_rtx d \<and> wf_rtx s)"
| "wf_rtx (Clobber x) = wf_rtx x"
| "wf_rtx (Use x) = wf_rtx x"
| "wf_rtx (Parallel xs) = (\<forall>x \<in> set xs. wf_rtx x)"
| "wf_rtx _ = True"

text \<open>The unspecs of \<open>microblaze.md\<close>.\<close>

definition UNSPEC_SET_GOT :: int where "UNSPEC_SET_GOT = 101"
definition UNSPEC_GOTOFF :: int where "UNSPEC_GOTOFF = 102"
definition UNSPEC_PLT :: int where "UNSPEC_PLT = 103"

section \<open>Registers\<close>

text \<open>\<open>fixed registers\<close> and the fake registers of the header, by number.\<close>

abbreviation (input) FIRST_PSEUDO_REGISTER :: nat where "FIRST_PSEUDO_REGISTER \<equiv> 46"
abbreviation (input) MB_ABI_BASE_REGNUM :: nat where "MB_ABI_BASE_REGNUM \<equiv> 0"
abbreviation (input) MB_ABI_GPRO_REGNUM :: nat where "MB_ABI_GPRO_REGNUM \<equiv> 2"
abbreviation (input) MB_ABI_GPRW_REGNUM :: nat where "MB_ABI_GPRW_REGNUM \<equiv> 13"
abbreviation (input) MB_ABI_SUB_RETURN_ADDR_REGNUM :: nat where "MB_ABI_SUB_RETURN_ADDR_REGNUM \<equiv> 15"
abbreviation (input) MB_ABI_EXCEPTION_RETURN_ADDR_REGNUM :: nat where "MB_ABI_EXCEPTION_RETURN_ADDR_REGNUM \<equiv> 17"
abbreviation (input) MB_ABI_ASM_TEMP_REGNUM :: nat where "MB_ABI_ASM_TEMP_REGNUM \<equiv> 18"
abbreviation (input) MB_ABI_PIC_ADDR_REGNUM :: nat where "MB_ABI_PIC_ADDR_REGNUM \<equiv> 20"
abbreviation (input) MB_ABI_MSR_SAVE_REG :: nat where "MB_ABI_MSR_SAVE_REG \<equiv> 11"
abbreviation (input) MB_ABI_INT_RETURN_VAL_REGNUM :: nat where "MB_ABI_INT_RETURN_VAL_REGNUM \<equiv> 3"
abbreviation (input) STACK_POINTER_REGNUM :: nat where "STACK_POINTER_REGNUM \<equiv> 1"
abbreviation (input) HARD_FRAME_POINTER_REGNUM :: nat where "HARD_FRAME_POINTER_REGNUM \<equiv> 19"
abbreviation (input) GP_REG_FIRST :: nat where "GP_REG_FIRST \<equiv> 0"
abbreviation (input) GP_REG_LAST :: nat where "GP_REG_LAST \<equiv> 31"
abbreviation (input) GP_REG_NUM :: nat where "GP_REG_NUM \<equiv> 32"
abbreviation (input) MD_REG_FIRST :: nat where "MD_REG_FIRST \<equiv> 32"
abbreviation (input) MD_REG_NUM :: nat where "MD_REG_NUM \<equiv> 3"
abbreviation (input) ST_REG_FIRST :: nat where "ST_REG_FIRST \<equiv> 35"
abbreviation (input) ST_REG_NUM :: nat where "ST_REG_NUM \<equiv> 8"
abbreviation (input) ARG_POINTER_REGNUM :: nat where "ARG_POINTER_REGNUM \<equiv> 43"
abbreviation (input) RETURN_ADDRESS_POINTER_REGNUM :: nat where "RETURN_ADDRESS_POINTER_REGNUM \<equiv> 44"
abbreviation (input) FRAME_POINTER_REGNUM :: nat where "FRAME_POINTER_REGNUM \<equiv> 45"
abbreviation (input) GP_ARG_FIRST :: nat where "GP_ARG_FIRST \<equiv> 5"
abbreviation (input) GP_ARG_LAST :: nat where "GP_ARG_LAST \<equiv> 10"
abbreviation (input) MAX_ARGS_IN_REGISTERS :: nat where "MAX_ARGS_IN_REGISTERS \<equiv> 6"

definition stack_pointer_rtx :: rtx where "stack_pointer_rtx = Reg Pmode STACK_POINTER_REGNUM"
definition hard_frame_pointer_rtx :: rtx where
  "hard_frame_pointer_rtx = Reg Pmode HARD_FRAME_POINTER_REGNUM"
definition frame_pointer_rtx :: rtx where "frame_pointer_rtx = Reg Pmode FRAME_POINTER_REGNUM"

definition GP_REG_P :: "int \<Rightarrow> bool" where
  "GP_REG_P regno \<longleftrightarrow> to_unsigned (regno - int GP_REG_FIRST) < int GP_REG_NUM"

definition MD_REG_P :: "int \<Rightarrow> bool" where
  "MD_REG_P regno \<longleftrightarrow> to_unsigned (regno - int MD_REG_FIRST) < int MD_REG_NUM"

definition ST_REG_P :: "int \<Rightarrow> bool" where
  "ST_REG_P regno \<longleftrightarrow> to_unsigned (regno - int ST_REG_FIRST) < int ST_REG_NUM"

definition FIXED_REGISTERS :: "bool list" where
  "FIXED_REGISTERS = map (\<lambda>i. i = (1 :: nat))
    [1, 1, 1, 0, 0, 0, 0, 0, 0, 0, 0, 0, 0, 1, 1, 1,
     1, 1, 1, 0, 1, 1, 0, 0, 0, 0, 0, 0, 0, 0, 0, 0,
     1, 1, 1, 1, 1, 1, 1, 1, 1, 1, 1, 1, 1, 1]"

definition CALL_USED_REGISTERS :: "bool list" where
  "CALL_USED_REGISTERS = map (\<lambda>i. i = (1 :: nat))
    [1, 1, 1, 1, 1, 1, 1, 1, 1, 1, 1, 1, 1, 1, 1, 1,
     1, 1, 1, 0, 1, 1, 0, 0, 0, 0, 0, 0, 0, 0, 0, 0,
     1, 1, 1, 1, 1, 1, 1, 1, 1, 1, 1, 1, 1, 1]"

definition reg_names :: "string list" where
  "reg_names =
    [''r0'', ''r1'', ''r2'', ''r3'', ''r4'', ''r5'', ''r6'', ''r7'',
     ''r8'', ''r9'', ''r10'', ''r11'', ''r12'', ''r13'', ''r14'', ''r15'',
     ''r16'', ''r17'', ''r18'', ''r19'', ''r20'', ''r21'', ''r22'', ''r23'',
     ''r24'', ''r25'', ''r26'', ''r27'', ''r28'', ''r29'', ''r30'', ''r31'',
     ''hi'', ''lo'', ''accum'', ''rmsr'', ''$fcc1'', ''$fcc2'', ''$fcc3'', ''$fcc4'',
     ''$fcc5'', ''$fcc6'', ''$fcc7'', ''$ap'', ''$rap'', ''$frp'']"

section \<open>Register classes\<close>

datatype reg_class =
    NO_REGS | GR_REGS | HI_REG | LO_REG | HILO_REG | MD_REGS
  | HI_AND_GR_REGS | LO_AND_GR_REGS | HILO_AND_GR_REGS | ST_REGS | ALL_REGS

text \<open>\<open>REG_CLASS_CONTENTS\<close>: two 32-bit mask words per class.\<close>

fun REG_CLASS_CONTENTS :: "reg_class \<Rightarrow> 32 word \<times> 32 word" where
  "REG_CLASS_CONTENTS NO_REGS = (0x00000000, 0x00000000)"
| "REG_CLASS_CONTENTS GR_REGS = (0xffffffff, 0x00000000)"
| "REG_CLASS_CONTENTS HI_REG = (0x00000000, 0x00000001)"
| "REG_CLASS_CONTENTS LO_REG = (0x00000000, 0x00000002)"
| "REG_CLASS_CONTENTS HILO_REG = (0x00000000, 0x00000004)"
| "REG_CLASS_CONTENTS MD_REGS = (0x00000000, 0x00000003)"
| "REG_CLASS_CONTENTS HI_AND_GR_REGS = (0xffffffff, 0x00000001)"
| "REG_CLASS_CONTENTS LO_AND_GR_REGS = (0xffffffff, 0x00000002)"
| "REG_CLASS_CONTENTS HILO_AND_GR_REGS = (0xffffffff, 0x00000004)"
| "REG_CLASS_CONTENTS ST_REGS = (0x00000000, 0x000007f8)"
| "REG_CLASS_CONTENTS ALL_REGS = (0xffffffff, 0x000007ff)"

definition in_class :: "nat \<Rightarrow> reg_class \<Rightarrow> bool" where
  "in_class r c = (case REG_CLASS_CONTENTS c of (w0, w1) \<Rightarrow>
     if r < 32 then bit w0 r else bit w1 (r - 32))"

definition microblaze_regno_to_class :: "reg_class list" where
  "microblaze_regno_to_class =
    [GR_REGS, GR_REGS, GR_REGS, GR_REGS, GR_REGS, GR_REGS, GR_REGS, GR_REGS,
     GR_REGS, GR_REGS, GR_REGS, GR_REGS, GR_REGS, GR_REGS, GR_REGS, GR_REGS,
     GR_REGS, GR_REGS, GR_REGS, GR_REGS, GR_REGS, GR_REGS, GR_REGS, GR_REGS,
     GR_REGS, GR_REGS, GR_REGS, GR_REGS, GR_REGS, GR_REGS, GR_REGS, GR_REGS,
     HI_REG, LO_REG, HILO_REG, ST_REGS, ST_REGS, ST_REGS, ST_REGS, ST_REGS,
     ST_REGS, ST_REGS, ST_REGS, GR_REGS, GR_REGS, GR_REGS]"

section \<open>Constant ranges\<close>

definition SMALL_INT :: "int \<Rightarrow> bool" where
  "SMALL_INT v \<longleftrightarrow> to_unsigned (v + 0x8000) < 0x10000"

definition SMALL_INT_UNSIGNED :: "int \<Rightarrow> bool" where
  "SMALL_INT_UNSIGNED v \<longleftrightarrow> to_unsigned v < 0x10000"

definition CONST_OK_FOR_LETTER_P :: "int \<Rightarrow> char \<Rightarrow> bool" where
  "CONST_OK_FOR_LETTER_P v c =
    (if c = CHR ''I'' then to_unsigned (v + 0x8000) < 0x10000
     else if c = CHR ''J'' then v = 0
     else if c = CHR ''K'' then v > 0
     else if c = CHR ''L'' then v < 0
     else if c = CHR ''M'' then
       v AND NOT 0xffff \<noteq> 0 \<and> v AND NOT 0xffff \<noteq> NOT 0xffff
       \<and> (v AND 0xffff \<noteq> 0
          \<or> (v AND NOT 2147483647 \<noteq> 0 \<and> v AND NOT 2147483647 \<noteq> NOT 2147483647))
     else if c = CHR ''N'' then to_unsigned (v + 0xffff) < 0xffff
     else if c = CHR ''O'' then to_unsigned (v + 0x4000) < 0x8000
     else if c = CHR ''P'' then v \<noteq> 0 \<and> v AND NOT 0xffff = 0
     else False)"

section \<open>Lemmas\<close>

lemma GP_REG_P_range [c_arith]: "in_hwi r \<Longrightarrow> GP_REG_P r \<longleftrightarrow> 0 \<le> r \<and> r < 32"
  using unsigned_range_check [of r 0 32] by (simp add: GP_REG_P_def)

lemma GP_REG_P_nat [simp]: "n < 2 ^ 32 \<Longrightarrow> GP_REG_P (int n) \<longleftrightarrow> n < 32"
  by (simp add: GP_REG_P_def to_unsigned_def)

lemma SMALL_INT_range [c_arith]: "in_hwi v \<Longrightarrow> SMALL_INT v \<longleftrightarrow> - 0x8000 \<le> v \<and> v < 0x8000"
  using unsigned_range_check [of v "0x8000" "0x10000"] by (auto simp: SMALL_INT_def)

lemma GET_CODE_leaf [rtl_simps]:
  assumes "wf_rtx x"
  shows "GET_CODE x = REG \<longleftrightarrow> (\<exists>m r. x = Reg m r)"
    and "GET_CODE x = SUBREG \<longleftrightarrow> (\<exists>m y b. x = Subreg m y b)"
    and "GET_CODE x = CONST_INT \<longleftrightarrow> (\<exists>i. x = ConstInt i)"
    and "GET_CODE x = PLUS \<longleftrightarrow> (\<exists>m a b. x = Binary PLUS m a b)"
  using assms by (cases x; auto simp: unary_codes_def binary_codes_def)+

end
