(* ===== verification/RtlSem.thy ===== *)
theory RtlSem
  imports Rtl
begin

text \<open>
  What the instructions that the back end emits do to a machine: 32-bit registers and a
  byte-addressed big-endian memory (\<open>BYTES_BIG_ENDIAN\<close> is 1). This is the specification
  side of the development: the frame, addressing and block-move properties execute the
  emitted \<open>SET\<close>s here. An expression outside the subset these routines emit has no value.
\<close>

section \<open>Memory\<close>

type_synonym memory = "32 word \<Rightarrow> 8 word"

definition byte_of :: "nat \<Rightarrow> 32 word \<Rightarrow> 8 word" where
  "byte_of k w = ucast (drop_bit (24 - 8 * k) w)"

definition load32 :: "memory \<Rightarrow> 32 word \<Rightarrow> 32 word" where
  "load32 m a = push_bit 24 (ucast (m a)) OR push_bit 16 (ucast (m (a + 1)))
     OR push_bit 8 (ucast (m (a + 2))) OR ucast (m (a + 3))"

definition store32 :: "memory \<Rightarrow> 32 word \<Rightarrow> 32 word \<Rightarrow> memory" where
  "store32 m a w = m(a := byte_of 0 w, a + 1 := byte_of 1 w, a + 2 := byte_of 2 w,
     a + 3 := byte_of 3 w)"

lemma bytes_join:
  "push_bit 24 (ucast (byte_of 0 w)) OR push_bit 16 (ucast (byte_of 1 w))
     OR push_bit 8 (ucast (byte_of 2 w)) OR ucast (byte_of 3 w) = (w :: 32 word)"
proof (rule bit_word_eqI)
  fix n assume "n < LENGTH(32)"
  then consider "n < 8" | "8 \<le> n" "n < 16" | "16 \<le> n" "n < 24" | "24 \<le> n" "n < 32"
    by force
  then show "bit (push_bit 24 (ucast (byte_of 0 w)) OR push_bit 16 (ucast (byte_of 1 w))
     OR push_bit 8 (ucast (byte_of 2 w)) OR ucast (byte_of 3 w) :: 32 word) n = bit w n"
    by cases (auto simp: byte_of_def bit_simps)
qed

lemma load32_store32_same [simp]: "load32 (store32 m a w) a = w"
proof -
  have "a + 1 \<noteq> a" "a + 2 \<noteq> a" "a + 3 \<noteq> a" "a + 2 \<noteq> a + 1" "a + 3 \<noteq> a + 1" "a + 3 \<noteq> a + 2"
    by simp_all
  then show ?thesis using bytes_join [of w] by (simp add: load32_def store32_def)
qed

text \<open>Two words in memory are apart when no byte of one is a byte of the other.\<close>

definition apart :: "32 word \<Rightarrow> 32 word \<Rightarrow> bool" where
  "apart a b \<longleftrightarrow> (\<forall>i < 4. \<forall>j < 4. a + of_nat i \<noteq> b + of_nat j)"

lemma store32_other:
  assumes "\<And>i. i < 4 \<Longrightarrow> a + of_nat i \<noteq> p"
  shows "store32 m a w p = m p"
  using assms [of 0] assms [of 1] assms [of 2] assms [of 3] by (auto simp: store32_def)

lemma load32_store32_apart [simp]:
  assumes "apart a b"
  shows "load32 (store32 m a w) b = load32 m b"
proof -
  have other: "store32 m a w (b + of_nat j) = m (b + of_nat j)" if "j < 4" for j
    using that assms unfolding apart_def by (intro store32_other) blast
  from other [of 0] other [of 1] other [of 2] other [of 3] show ?thesis
    by (simp add: load32_def)
qed

lemma apart_offsets:
  assumes "o1 + 4 \<le> o2 \<or> o2 + 4 \<le> o1" "o1 + 4 \<le> 2 ^ 32" "o2 + 4 \<le> 2 ^ 32"
  shows "apart (sp + of_nat o1) (sp + of_nat o2)"
proof -
  have *: "sp + of_nat o1 + of_nat i \<noteq> sp + of_nat o2 + (of_nat j :: 32 word)"
    if "i < 4" "j < 4" for i j
  proof
    assume "sp + of_nat o1 + of_nat i = sp + of_nat o2 + (of_nat j :: 32 word)"
    then have "(of_nat (o1 + i) :: 32 word) = of_nat (o2 + j)" by simp
    then have "unat (of_nat (o1 + i) :: 32 word) = unat (of_nat (o2 + j) :: 32 word)" by simp
    then have "o1 + i = o2 + j" using that assms by (simp add: unat_of_nat del: of_nat_add)
    with that assms show False by auto
  qed
  then show ?thesis unfolding apart_def by blast
qed

text \<open>Loads and stores by mode: a byte or a half word is loaded zero-extended
  (\<open>LOAD_EXTEND_OP\<close> is \<open>ZERO_EXTEND\<close>) and stored from the low end of the register.\<close>

definition load_mode :: "machine_mode \<Rightarrow> memory \<Rightarrow> 32 word \<Rightarrow> 32 word" where
  "load_mode mode m a =
     (if mode = QImode then ucast (m a)
      else if mode = HImode then push_bit 8 (ucast (m a)) OR ucast (m (a + 1))
      else load32 m a)"

definition store_mode :: "machine_mode \<Rightarrow> memory \<Rightarrow> 32 word \<Rightarrow> 32 word \<Rightarrow> memory" where
  "store_mode mode m a w =
     (if mode = QImode then m(a := byte_of 3 w)
      else if mode = HImode then m(a := byte_of 2 w, a + 1 := byte_of 3 w)
      else store32 m a w)"

lemma word_mode_access [simp]:
  "load_mode SImode = load32" "store_mode SImode = store32"
  by (simp_all add: load_mode_def store_mode_def fun_eq_iff)

section \<open>Machine states and instructions\<close>

text \<open>\<open>got_base\<close> is the address of the global offset table, which the two instructions of
  \<open>set_got\<close> load. \<open>blockage\<close> and the \<open>use\<close> expressions do nothing; the return jump at the
  end of an epilogue leaves registers and memory as they are.\<close>

record mstate =
  regs :: "nat \<Rightarrow> 32 word"
  mem :: memory
  got_base :: "32 word"

fun rtl_val :: "mstate \<Rightarrow> rtx \<Rightarrow> 32 word option" where
  "rtl_val s (Reg m r) = Some (regs s r)"
| "rtl_val s (ConstInt i) = Some (word_of_int i)"
| "rtl_val s (Mem m a) = map_option (load_mode m (mem s)) (rtl_val s a)"
| "rtl_val s (Binary c m x y) =
     (case (rtl_val s x, rtl_val s y) of
        (Some v, Some w) \<Rightarrow>
          (if c = PLUS then Some (v + w) else if c = MINUS then Some (v - w) else None)
      | _ \<Rightarrow> None)"
| "rtl_val s (Unspec m xs n) = (if n = UNSPEC_SET_GOT then Some (got_base s) else None)"
| "rtl_val s _ = None"

fun rtl_exec :: "rtx \<Rightarrow> mstate \<Rightarrow> mstate option" where
  "rtl_exec (SetX (Reg m r) src) s =
     map_option (\<lambda>v. s\<lparr>regs := (regs s)(r := v)\<rparr>) (rtl_val s src)"
| "rtl_exec (SetX (Mem m a) src) s =
     (case (rtl_val s a, rtl_val s src) of
        (Some p, Some v) \<Rightarrow> Some (s\<lparr>mem := store_mode m (mem s) p v\<rparr>)
      | _ \<Rightarrow> None)"
| "rtl_exec (Use x) s = Some s"
| "rtl_exec (UnspecVolatile xs n) s = Some s"
| "rtl_exec (Parallel [Use x, Return]) s = Some s"
| "rtl_exec _ s = None"

fun rtl_run :: "rtx list \<Rightarrow> mstate \<Rightarrow> mstate option" where
  "rtl_run [] s = Some s"
| "rtl_run (i # is) s = (case rtl_exec i s of None \<Rightarrow> None | Some s' \<Rightarrow> rtl_run is s')"

lemma rtl_run_append:
  "rtl_run (xs @ ys) s = (case rtl_run xs s of None \<Rightarrow> None | Some s' \<Rightarrow> rtl_run ys s')"
  by (induction xs arbitrary: s) (auto split: option.splits)

section \<open>What a routine that emits instructions keeps\<close>

text \<open>The emission context: the next free pseudo register (\<open>gen_reg_rtx\<close>), the
  instructions emitted so far, and the registers marked with
  \<open>df_set_regs_ever_live (r, true)\<close>.\<close>

record emit_state =
  next_pseudo :: nat
  emitted :: "rtx list"
  live_marks :: "nat list"

definition gen_reg_rtx :: "machine_mode \<Rightarrow> 'a emit_state_scheme \<Rightarrow> rtx \<times> 'a emit_state_scheme" where
  "gen_reg_rtx m st = (Reg m (next_pseudo st), st\<lparr>next_pseudo := Suc (next_pseudo st)\<rparr>)"

definition emit_insn :: "rtx \<Rightarrow> 'a emit_state_scheme \<Rightarrow> 'a emit_state_scheme" where
  "emit_insn i st = st\<lparr>emitted := emitted st @ [i]\<rparr>"

definition emit_move_insn :: "rtx \<Rightarrow> rtx \<Rightarrow> 'a emit_state_scheme \<Rightarrow> 'a emit_state_scheme" where
  "emit_move_insn d s st = emit_insn (SetX d s) st"

definition mark_live :: "nat \<Rightarrow> 'a emit_state_scheme \<Rightarrow> 'a emit_state_scheme" where
  "mark_live r st = st\<lparr>live_marks := live_marks st @ [r]\<rparr>"

lemmas emit_defs = gen_reg_rtx_def emit_insn_def emit_move_insn_def mark_live_def

end
