(* ===== verification/Args.thy ===== *)
theory Args
  imports RtlSem
begin

text \<open>
  Argument passing, \<open>gcc/config/microblaze/microblaze.c\<close>: \<open>CUMULATIVE_ARGS\<close>,
  \<open>init_cumulative_args\<close>, \<open>function_arg_advance\<close>, \<open>function_arg\<close> and
  \<open>function_arg_partial_bytes\<close>; the value-return macros of \<open>microblaze.h\<close>; and the layout
  that a caller which follows the protocol of \<open>calls.c\<close> gets for a list of arguments.
  The traces of \<open>-mdebuge\<close> on \<open>stderr\<close> are not modelled, and with them the parameter
  \<open>named\<close>, which only the traces read.
\<close>

section \<open>Types as the calling convention sees them\<close>

text \<open>\<open>TYPE_MODE\<close>, \<open>int_size_in_bytes\<close> (\<open>-1\<close> when the size is not constant),
  \<open>TREE_ADDRESSABLE\<close>, and whether the type is \<open>void_type_node\<close>.\<close>

record ctype =
  type_mode :: machine_mode
  type_size :: int
  type_addressable :: bool
  type_void :: bool

definition void_type_node :: ctype where
  "void_type_node = \<lparr>type_mode = VOIDmode, type_size = 0, type_addressable = False, type_void = True\<rparr>"

definition build_pointer_type :: "ctype \<Rightarrow> ctype" where
  "build_pointer_type t =
     \<lparr>type_mode = Pmode, type_size = int (POINTER_SIZE div BITS_PER_UNIT),
      type_addressable = False, type_void = False\<rparr>"

section \<open>The cumulative state\<close>

record CUMULATIVE_ARGS =
  gp_reg_found :: bool
  arg_number :: int
  arg_words :: int
  fp_arg_words :: int
  last_arg_fp :: int
  fp_code :: int
  adjust :: "rtx list"

definition zero_cum :: CUMULATIVE_ARGS where
  "zero_cum = \<lparr>gp_reg_found = False, arg_number = 0, arg_words = 0, fp_arg_words = 0,
     last_arg_fp = 0, fp_code = 0, adjust = []\<rparr>"

text \<open>\<open>TYPE_ARG_TYPES\<close> ends in \<open>void_type_node\<close> unless the function takes variable
  arguments; the empty list is an unprototyped function (or no \<open>fntype\<close>).\<close>

definition stdarg_types :: "ctype list \<Rightarrow> bool" where
  "stdarg_types ts \<longleftrightarrow> ts \<noteq> [] \<and> \<not> type_void (last ts)"

fun scan_params :: "ctype list \<Rightarrow> CUMULATIVE_ARGS \<Rightarrow> CUMULATIVE_ARGS" where
  "scan_params [] cum = cum"
| "scan_params (param # next_param) cum =
     (let cum = (if next_param = [] \<and> \<not> type_void param then cum\<lparr>gp_reg_found := True\<rparr> else cum)
      in scan_params next_param cum)"

definition init_cumulative_args :: "ctype list \<Rightarrow> CUMULATIVE_ARGS" where
  "init_cumulative_args arg_types = scan_params arg_types zero_cum"

definition complex_mode :: "machine_mode \<Rightarrow> bool" where
  "complex_mode mode \<longleftrightarrow>
     \<not> (GET_MODE_CLASS mode \<noteq> MODE_COMPLEX_INT \<and> GET_MODE_CLASS mode \<noteq> MODE_COMPLEX_FLOAT)"

definition TARGET_SINGLE_FLOAT :: bool where "TARGET_SINGLE_FLOAT = False"

text \<open>\<open>function_arg_advance\<close>; \<open>None\<close> is the \<open>abort ()\<close> of the \<open>default\<close> case.\<close>

definition function_arg_advance ::
  "CUMULATIVE_ARGS \<Rightarrow> machine_mode \<Rightarrow> int \<Rightarrow> CUMULATIVE_ARGS option" where
  "function_arg_advance cum0 mode bytes =
    (let cum = cum0\<lparr>arg_number := arg_number cum0 + 1\<rparr>
     in if mode = VOIDmode then Some cum
        else if mode = BLKmode then
          Some (cum\<lparr>gp_reg_found := True,
                    arg_words := arg_words cum + (bytes + int UNITS_PER_WORD - 1) div int UNITS_PER_WORD\<rparr>)
        else if mode = SFmode then
          (let cum = cum\<lparr>arg_words := arg_words cum + 1\<rparr>
           in Some (if \<not> gp_reg_found cum \<and> arg_number cum \<le> 2
                    then cum\<lparr>fp_code := fp_code cum + push_bit (nat ((arg_number cum - 1) * 2)) 1\<rparr>
                    else cum))
        else if mode = DFmode then
          (let cum = cum\<lparr>arg_words := arg_words cum + 2\<rparr>
           in Some (if \<not> gp_reg_found cum \<and> \<not> TARGET_SINGLE_FLOAT \<and> arg_number cum \<le> 2
                    then cum\<lparr>fp_code := fp_code cum + push_bit (nat ((arg_number cum - 1) * 2)) 2\<rparr>
                    else cum))
        else if mode = DImode then
          Some (cum\<lparr>gp_reg_found := True, arg_words := arg_words cum + 2\<rparr>)
        else if mode = QImode \<or> mode = HImode \<or> mode = SImode \<or> mode = TImode then
          Some (cum\<lparr>gp_reg_found := True, arg_words := arg_words cum + 1\<rparr>)
        else if \<not> complex_mode mode then None
        else
          Some (cum\<lparr>gp_reg_found := True,
                    arg_words := arg_words cum
                      + (int (GET_MODE_SIZE mode) + int UNITS_PER_WORD - 1) div int UNITS_PER_WORD\<rparr>))"

text \<open>\<open>function_arg\<close>: the register, or \<open>None\<close> in the second component when the argument is on
  the stack. The mode of the \<open>PARALLEL\<close> of adjustments is not represented.\<close>

definition passable :: "machine_mode \<Rightarrow> bool" where
  "passable mode \<longleftrightarrow>
     mode \<in> {SFmode, DFmode, VOIDmode, QImode, HImode, SImode, DImode, TImode, BLKmode}
     \<or> complex_mode mode"

definition function_arg ::
  "CUMULATIVE_ARGS \<Rightarrow> machine_mode \<Rightarrow> (CUMULATIVE_ARGS \<times> rtx option) option" where
  "function_arg cum0 mode =
    (let cum = cum0\<lparr>last_arg_fp := 0\<rparr>
     in if \<not> passable mode then None
        else
          let ret = (if arg_words cum \<ge> int MAX_ARGS_IN_REGISTERS then None
                     else Some (Reg mode (nat (int GP_ARG_FIRST + arg_words cum))));
              ret = (if mode = VOIDmode \<and> length (adjust cum) > 0 then Some (Parallel (adjust cum)) else ret)
          in Some (cum, ret))"

definition function_arg_partial_bytes :: "CUMULATIVE_ARGS \<Rightarrow> machine_mode \<Rightarrow> int \<Rightarrow> int" where
  "function_arg_partial_bytes cum mode bytes =
    (if (mode = BLKmode \<or> GET_MODE_CLASS mode \<noteq> MODE_COMPLEX_INT
         \<or> GET_MODE_CLASS mode \<noteq> MODE_COMPLEX_FLOAT)
        \<and> arg_words cum < int MAX_ARGS_IN_REGISTERS
     then
       let words = (if mode = BLKmode
                    then (bytes + int UNITS_PER_WORD - 1) div int UNITS_PER_WORD
                    else (int (GET_MODE_SIZE mode) + int UNITS_PER_WORD - 1) div int UNITS_PER_WORD)
       in if words + arg_words cum \<le> int MAX_ARGS_IN_REGISTERS then 0
          else (int MAX_ARGS_IN_REGISTERS - arg_words cum) * int UNITS_PER_WORD
     else if mode = DImode \<and> arg_words cum = int MAX_ARGS_IN_REGISTERS - 1
     then int UNITS_PER_WORD
     else 0)"

section \<open>Return values\<close>

definition LIBCALL_VALUE :: "machine_mode \<Rightarrow> rtx" where
  "LIBCALL_VALUE mode =
     Reg (if GET_MODE_CLASS mode \<noteq> MODE_INT \<or> GET_MODE_SIZE mode \<ge> 4 then mode else SImode)
       MB_ABI_INT_RETURN_VAL_REGNUM"

definition RETURN_IN_MEMORY :: "ctype \<Rightarrow> bool" where
  "RETURN_IN_MEMORY t \<longleftrightarrow> type_mode t = BLKmode"

definition FUNCTION_ARG_REGNO_P :: "nat \<Rightarrow> bool" where
  "FUNCTION_ARG_REGNO_P n \<longleftrightarrow> n \<ge> GP_ARG_FIRST \<and> n \<le> GP_ARG_LAST"

section \<open>The layout a caller gets\<close>

text \<open>The words an argument occupies, and the caller's loop: ask for the register, ask how
  much of the argument it takes, advance.\<close>

definition words_of :: "machine_mode \<times> int \<Rightarrow> int" where
  "words_of a = (case a of (mode, bytes) \<Rightarrow>
     ((if mode = BLKmode then bytes else int (GET_MODE_SIZE mode)) + 3) div 4)"

fun pass_args :: "CUMULATIVE_ARGS \<Rightarrow> (machine_mode \<times> int) list \<Rightarrow> (rtx option \<times> int) list option" where
  "pass_args cum [] = Some []"
| "pass_args cum ((mode, bytes) # as) =
    (case function_arg cum mode of
       None \<Rightarrow> None
     | Some (cum, ret) \<Rightarrow>
         let partial = (if ret = None then 0 else function_arg_partial_bytes cum mode bytes)
         in case function_arg_advance cum mode bytes of
              None \<Rightarrow> None
            | Some cum \<Rightarrow> map_option (Cons (ret, partial)) (pass_args cum as))"

text \<open>An argument of one of the modes of C: a scalar, a complex number or an aggregate of
  constant size.\<close>

definition c_argument :: "machine_mode \<times> int \<Rightarrow> bool" where
  "c_argument a = (case a of (mode, bytes) \<Rightarrow>
     passable mode \<and> mode \<noteq> VOIDmode \<and> mode \<noteq> TImode \<and> 0 \<le> bytes)"

text \<open>Where the convention puts an argument whose first word is word \<open>w\<close> of the argument
  area: word \<open>w < 6\<close> is register \<open>r5 + w\<close>, any other is in the caller's frame.\<close>

definition convention :: "int \<Rightarrow> machine_mode \<times> int \<Rightarrow> rtx option \<times> int" where
  "convention w a =
     (if w < 6 then (Some (Reg (fst a) (nat (5 + w))), if w + words_of a \<le> 6 then 0 else 4 * (6 - w))
      else (None, 0))"

fun layout :: "int \<Rightarrow> (machine_mode \<times> int) list \<Rightarrow> (rtx option \<times> int) list" where
  "layout w [] = []"
| "layout w (a # as) = convention w a # layout (w + words_of a) as"

section \<open>Lemmas\<close>

lemma not_both_complex: "GET_MODE_CLASS mode \<noteq> MODE_COMPLEX_INT \<or> GET_MODE_CLASS mode \<noteq> MODE_COMPLEX_FLOAT"
  by simp

lemma function_arg_passable:
  assumes "passable mode" "mode \<noteq> VOIDmode"
  shows "function_arg cum mode =
    Some (cum\<lparr>last_arg_fp := 0\<rparr>,
          if arg_words cum < 6 then Some (Reg mode (nat (5 + arg_words cum))) else None)"
  using assms by (simp add: function_arg_def Let_def)

lemma partial_bytes_eq:
  "function_arg_partial_bytes cum mode bytes =
     (if arg_words cum < 6 \<and> arg_words cum + words_of (mode, bytes) > 6
      then 4 * (6 - arg_words cum) else 0)"
proof (cases "arg_words cum < 6")
  case True
  then show ?thesis using not_both_complex [of mode]
    by (auto simp: function_arg_partial_bytes_def words_of_def Let_def add.commute)
next
  case False
  then show ?thesis by (simp add: function_arg_partial_bytes_def)
qed

lemma advance_words:
  assumes "c_argument (mode, bytes)"
  shows "\<exists>cum'. function_arg_advance cum mode bytes = Some cum'
    \<and> arg_words cum' = arg_words cum + words_of (mode, bytes)"
proof -
  from assms have "passable mode" "mode \<noteq> VOIDmode" "mode \<noteq> TImode" by (auto simp: c_argument_def)
  then have "mode \<in> {SFmode, DFmode, QImode, HImode, SImode, DImode, BLKmode}
      \<or> mode \<notin> {SFmode, DFmode, QImode, HImode, SImode, DImode, BLKmode, VOIDmode, TImode} \<and> complex_mode mode"
    by (auto simp: passable_def)
  then show ?thesis
    by (elim disjE insertE emptyE conjE)
      (simp_all add: function_arg_advance_def words_of_def Let_def)
qed

lemma words_of_nonneg: "c_argument a \<Longrightarrow> 0 \<le> words_of a"
  by (cases a) (auto simp: c_argument_def words_of_def)

lemma scan_params_words: "arg_words (scan_params ts cum) = arg_words cum"
  by (induction ts arbitrary: cum) (simp_all add: Let_def)

lemma scan_params_found:
  "gp_reg_found (scan_params ts cum) \<longleftrightarrow> gp_reg_found cum \<or> stdarg_types ts"
  by (induction ts arbitrary: cum) (auto simp: Let_def stdarg_types_def)

lemma pass_args_layout_gen:
  "list_all c_argument as \<Longrightarrow> pass_args cum as = Some (layout (arg_words cum) as)"
proof (induction as arbitrary: cum)
  case (Cons a as)
  obtain mode bytes where a: "a = (mode, bytes)" by (cases a)
  with Cons.prems have c: "c_argument (mode, bytes)" and p: "passable mode" "mode \<noteq> VOIDmode"
    by (auto simp: c_argument_def)
  obtain cum' where adv: "function_arg_advance (cum\<lparr>last_arg_fp := 0\<rparr>) mode bytes = Some cum'"
      "arg_words cum' = arg_words cum + words_of (mode, bytes)"
    using advance_words [OF c, of "cum\<lparr>last_arg_fp := 0\<rparr>"] by auto
  have "pass_args cum' as = Some (layout (arg_words cum + words_of (mode, bytes)) as)"
    using Cons.IH [of cum'] Cons.prems adv(2) by simp
  then show ?case
    by (simp add: a function_arg_passable [OF p] adv(1) partial_bytes_eq convention_def)
qed simp

section \<open>Properties\<close>

text \<open>C7. For any list of C arguments, the registers that \<open>function_arg\<close> hands out, the
  split of an argument between registers and the stack that \<open>function_arg_partial_bytes\<close>
  reports, and the advance between them are the calling convention: the arguments are laid
  out one after another in words, the first six words of the layout are \<open>r5\<close> to \<open>r10\<close>, and
  an argument that begins in registers and ends beyond word 6 is split there.\<close>

theorem pass_args_layout:
  assumes "list_all c_argument as"
  shows "pass_args (init_cumulative_args fntype) as = Some (layout 0 as)"
  using pass_args_layout_gen [OF assms, of "init_cumulative_args fntype"]
  by (simp add: init_cumulative_args_def scan_params_words zero_cum_def)

lemma pass_args_layout_witness:
  "pass_args (init_cumulative_args [])
      [(SImode, 4), (DImode, 8), (BLKmode, 14), (DFmode, 8)] =
     Some [(Some (Reg SImode 5), 0), (Some (Reg DImode 6), 0), (Some (Reg BLKmode 8), 12), (None, 0)]"
  using pass_args_layout [of "[(SImode, 4), (DImode, 8), (BLKmode, 14), (DFmode, 8)]" "[]"]
  by (simp add: c_argument_def passable_def convention_def words_of_def)

text \<open>A 16-byte \<open>TImode\<close> argument advances the layout by a single word: a second one is
  passed in \<open>r6\<close>, inside the four registers \<open>r5\<close> to \<open>r8\<close> of the first, although
  \<open>function_arg_partial_bytes\<close> counts the mode as four words.\<close>

theorem timode_arguments_overlap:
  "pass_args zero_cum [(TImode, 16), (TImode, 16)] = Some [(Some (Reg TImode 5), 0), (Some (Reg TImode 6), 0)]
   \<and> HARD_REGNO_NREGS 5 TImode = 4
   \<and> function_arg_partial_bytes (zero_cum\<lparr>arg_words := 3\<rparr>) TImode 16 = 12"
  by (simp add: zero_cum_def function_arg_def function_arg_advance_def passable_def
      function_arg_partial_bytes_def Let_def HARD_REGNO_NREGS_def)

end
