(* ===== verification/Printf.thy ===== *)
theory Printf
  imports Prelude
begin

text \<open>
  The conversions of the C library's \<open>printf\<close> that the assembler output routines use:
  \<open>%d\<close>, \<open>%x\<close>, \<open>%03o\<close> and \<open>%08x\<close>. Each is the digit string of a number in its base,
  and each can be read back, which is what the round-trip properties rest on.
\<close>

section \<open>Digit strings\<close>

definition digit_char :: "nat \<Rightarrow> char" where
  "digit_char d = char_of (if d < 10 then 48 + d else 87 + d)"

definition digit_val :: "char \<Rightarrow> nat" where
  "digit_val c = (let n = of_char c :: nat in if n < 58 then n - 48 else n - 87)"

fun digits :: "nat \<Rightarrow> nat \<Rightarrow> string" where
  "digits b n = (if n < b \<or> b < 2 then [digit_char n] else digits b (n div b) @ [digit_char (n mod b)])"

declare digits.simps [simp del]

definition undigits :: "nat \<Rightarrow> string \<Rightarrow> nat" where
  "undigits b s = foldl (\<lambda>v c. v * b + digit_val c) 0 s"

definition dec :: "int \<Rightarrow> string" where
  "dec i = (if i < 0 then CHR ''-'' # digits 10 (nat (- i)) else digits 10 (nat i))"

definition hex :: "nat \<Rightarrow> string" where
  "hex n = digits 16 n"

definition zero_pad :: "nat \<Rightarrow> string \<Rightarrow> string" where
  "zero_pad w s = replicate (w - length s) (CHR ''0'') @ s"

text \<open>The digits, for evaluation.\<close>

lemma digit_char_numerals [simp]:
  "digit_char 0 = CHR ''0''" "digit_char (Suc 0) = CHR ''1''" "digit_char 1 = CHR ''1''"
  "digit_char 2 = CHR ''2''" "digit_char 3 = CHR ''3''" "digit_char 4 = CHR ''4''"
  "digit_char 5 = CHR ''5''" "digit_char 6 = CHR ''6''" "digit_char 7 = CHR ''7''"
  "digit_char 8 = CHR ''8''" "digit_char 9 = CHR ''9''" "digit_char 10 = CHR ''a''"
  "digit_char 11 = CHR ''b''" "digit_char 12 = CHR ''c''" "digit_char 13 = CHR ''d''"
  "digit_char 14 = CHR ''e''" "digit_char 15 = CHR ''f''"
  by (simp_all add: digit_char_def char_of_def bit_0)

section \<open>Reading digits back\<close>

lemma digit_val_char [simp]: "d < 36 \<Longrightarrow> digit_val (digit_char d) = d"
  by (simp add: digit_val_def digit_char_def Let_def of_char_of)

lemma digit_char_not_minus: "d < 36 \<Longrightarrow> digit_char d \<noteq> CHR ''-''"
proof
  assume "d < 36" "digit_char d = CHR ''-''"
  then have "(of_char (digit_char d) :: nat) = 45" by simp
  with \<open>d < 36\<close> show False by (simp add: digit_char_def of_char_of split: if_splits)
qed

lemma undigits_append: "undigits b (s @ [c]) = undigits b s * b + digit_val c"
  by (simp add: undigits_def)

lemma undigits_digits:
  assumes "2 \<le> b" "b \<le> 36"
  shows "undigits b (digits b n) = n"
proof (induction n rule: less_induct)
  case (less n)
  show ?case
  proof (cases "n < b")
    case True
    with assms show ?thesis by (simp add: digits.simps [of b n] undigits_def)
  next
    case False
    moreover have "n div b < n" using False assms by simp
    ultimately show ?thesis
      using assms less.IH [of "n div b"]
      by (simp add: digits.simps [of b n] undigits_append mod_less_divisor
          digit_val_char [OF order.strict_trans2 [OF mod_less_divisor]])
  qed
qed

lemma undigits_zeros [simp]: "undigits b (replicate k (CHR ''0'') @ s) = undigits b s"
  by (induction k) (simp_all add: undigits_def digit_val_def)

lemma undigits_zero_pad [simp]: "undigits b (zero_pad w s) = undigits b s"
  by (simp add: zero_pad_def)

lemma digits_nonempty [simp]: "digits b n \<noteq> []"
  by (subst digits.simps) simp

lemma set_digits:
  assumes "2 \<le> b"
  shows "set (digits b n) \<subseteq> digit_char ` {..< b}"
proof (induction n rule: less_induct)
  case (less n)
  show ?case
  proof (cases "n < b")
    case True
    with assms show ?thesis by (simp add: digits.simps [of b n])
  next
    case False
    with assms less.IH [of "n div b"] show ?thesis
      by (auto simp: digits.simps [of b n])
  qed
qed

lemma length_digits_le: "2 \<le> b \<Longrightarrow> n < b ^ k \<Longrightarrow> 0 < k \<Longrightarrow> length (digits b n) \<le> k"
proof (induction k arbitrary: n)
  case (Suc k)
  show ?case
  proof (cases "n < b \<or> k = 0")
    case True
    with Suc.prems show ?thesis by (auto simp: digits.simps [of b n])
  next
    case False
    with Suc.prems have "n div b < b ^ k"
      by (simp add: less_mult_imp_div_less mult.commute)
    with Suc.IH [of "n div b"] False Suc.prems show ?thesis
      by (simp add: digits.simps [of b n])
  qed
qed simp

lemma length_zero_pad [simp]: "length s \<le> w \<Longrightarrow> length (zero_pad w s) = w"
  by (simp add: zero_pad_def)

text \<open>\<open>%d\<close> is injective: two integers print the same only when they are equal.\<close>

definition undec :: "string \<Rightarrow> int" where
  "undec s = (case s of [] \<Rightarrow> 0
     | c # cs \<Rightarrow> if c = CHR ''-'' then - int (undigits 10 cs) else int (undigits 10 s))"

lemma hd_digits_not_minus: "2 \<le> b \<Longrightarrow> b \<le> 36 \<Longrightarrow> hd (digits b n) \<noteq> CHR ''-''"
proof -
  assume b: "2 \<le> b" "b \<le> 36"
  have "hd (digits b n) \<in> set (digits b n)" by simp
  then have "hd (digits b n) \<in> digit_char ` {..< b}" using set_digits [OF b(1), of n] by blast
  then obtain d where "d < b" "hd (digits b n) = digit_char d" by blast
  with b digit_char_not_minus [of d] show ?thesis by simp
qed

lemma undec_dec [simp]: "undec (dec i) = i"
proof (cases "i < 0")
  case True
  then show ?thesis by (simp add: dec_def undec_def undigits_digits)
next
  case False
  obtain c cs where d: "digits 10 (nat i) = c # cs" by (cases "digits 10 (nat i)") simp_all
  have "c \<noteq> CHR ''-''" using hd_digits_not_minus [of 10 "nat i"] d by simp
  moreover have "undigits 10 (c # cs) = nat i" using undigits_digits [of 10 "nat i"] d by simp
  ultimately show ?thesis using False d by (simp add: dec_def undec_def)
qed

lemma dec_inject [simp]: "dec i = dec j \<longleftrightarrow> i = j"
  by (metis undec_dec)

end
