(* ===== verification/Ascii.thy ===== *)
theory Ascii
  imports Printf
begin

text \<open>
  String constants as assembler text: \<open>output_ascii\<close> of
  \<open>gcc/config/microblaze/microblaze.c\<close>, and the reading of \<open>.ascii\<close> directives by the
  assembler as its specification.
\<close>

abbreviation (input) TAB :: char where "TAB \<equiv> CHR 0x09"
abbreviation (input) NL :: char where "NL \<equiv> CHR 0x0A"
abbreviation (input) QUOTE :: char where "QUOTE \<equiv> CHR 0x22"
abbreviation (input) BACKSLASH :: char where "BACKSLASH \<equiv> CHR 0x5C"

section \<open>The writer\<close>

text \<open>The text written for the character \<open>c\<close>, with the rest of the string for the
  look-ahead after a newline, and the value of \<open>cur_pos\<close> afterwards. The comparison of the
  next character is on a plain \<open>char\<close>; a character above \<open>'~'\<close> fails it whether \<open>char\<close> is
  signed or not.\<close>

definition ascii_char :: "nat \<Rightarrow> char \<Rightarrow> string \<Rightarrow> string \<times> nat" where
  "ascii_char cur_pos c rest =
    (let n = of_char c :: nat in
     if c = QUOTE \<or> c = BACKSLASH then ([BACKSLASH, c], cur_pos + 2)
     else if c = NL then
       ([BACKSLASH, CHR ''n''],
        if rest \<noteq> []
           \<and> (((of_char (hd rest) :: nat) \<ge> 32 \<and> (of_char (hd rest) :: nat) \<le> 126) \<or> hd rest = TAB)
        then 32767 else cur_pos + 2)
     else if c = TAB then ([BACKSLASH, CHR ''t''], cur_pos + 2)
     else if c = CHR 0x0C then ([BACKSLASH, CHR ''f''], cur_pos + 2)
     else if c = CHR 0x08 then ([BACKSLASH, CHR ''b''], cur_pos + 2)
     else if c = CHR 0x0D then ([BACKSLASH, CHR ''r''], cur_pos + 2)
     else if n \<ge> 32 \<and> n < 127 then ([c], cur_pos + 1)
     else (BACKSLASH # zero_pad 3 (digits 8 n), cur_pos + 4))"

definition ascii_start :: string where
  "ascii_start = [TAB] @ ''.ascii'' @ [TAB, QUOTE]"

fun ascii_loop :: "nat \<Rightarrow> string \<Rightarrow> string" where
  "ascii_loop cur_pos [] = []"
| "ascii_loop cur_pos (c # cs) =
    (case ascii_char cur_pos c cs of
       (out, cur_pos) \<Rightarrow>
         out @ (if cur_pos > 72 \<and> cs \<noteq> [] then [QUOTE, NL] @ ascii_start @ ascii_loop 17 cs
                else ascii_loop cur_pos cs))"

definition output_ascii :: "string \<Rightarrow> string" where
  "output_ascii s = ascii_start @ ascii_loop 17 s @ [QUOTE, NL]"

section \<open>The reader\<close>

text \<open>The assembler's \<open>.ascii\<close>: a quoted string with the escapes of C, an octal escape
  taking up to three octal digits; consecutive directives append.\<close>

definition octal_digit :: "char \<Rightarrow> bool" where
  "octal_digit c \<longleftrightarrow> (let n = of_char c :: nat in 48 \<le> n \<and> n < 56)"

definition escape_char :: "char \<Rightarrow> char option" where
  "escape_char d =
    (if d = QUOTE \<or> d = BACKSLASH then Some d
     else if d = CHR ''n'' then Some NL
     else if d = CHR ''t'' then Some TAB
     else if d = CHR ''f'' then Some (CHR 0x0C)
     else if d = CHR ''b'' then Some (CHR 0x08)
     else if d = CHR ''r'' then Some (CHR 0x0D)
     else None)"

definition octal_run :: "string \<Rightarrow> string" where
  "octal_run s = takeWhile octal_digit (take 3 s)"

function (sequential) read_body :: "string \<Rightarrow> string option" where
  "read_body [] = None"
| "read_body (c # cs) =
    (if c = QUOTE then
       (if cs = [NL] then Some []
        else if cs \<noteq> [] \<and> hd cs = NL \<and> take 9 (tl cs) = ascii_start then read_body (drop 9 (tl cs))
        else None)
     else if c = BACKSLASH then
       (if cs = [] then None
        else if octal_digit (hd cs) then
          map_option (Cons (char_of (undigits 8 (octal_run cs)))) (read_body (drop (length (octal_run cs)) cs))
        else
          (case escape_char (hd cs) of
             None \<Rightarrow> None
           | Some x \<Rightarrow> map_option (Cons x) (read_body (tl cs))))
     else map_option (Cons c) (read_body cs))"
  by pat_completeness auto
termination
  by (relation "measure length") (auto simp: less_Suc_eq_le)

declare read_body.simps(2) [simp del]

definition read_ascii :: "string \<Rightarrow> string option" where
  "read_ascii t = (if take 9 t = ascii_start then read_body (drop 9 t) else None)"

section \<open>Round trip\<close>

lemma length_ascii_start [simp]: "length ascii_start = 9"
  by (simp add: ascii_start_def)

lemma take_ascii_start [simp]: "take 9 (ascii_start @ t) = ascii_start" "drop 9 (ascii_start @ t) = t"
  by simp_all

lemma read_break [simp]: "read_body (QUOTE # NL # ascii_start @ t) = read_body t"
  by (subst read_body.simps) (simp add: ascii_start_def)

lemma read_end [simp]: "read_body [QUOTE, NL] = Some []"
  by (subst read_body.simps) simp

lemma read_escape:
  assumes "escape_char d = Some x" "\<not> octal_digit d"
  shows "read_body (BACKSLASH # d # t) = map_option (Cons x) (read_body t)"
  using assms by (subst read_body.simps) simp

lemma read_plain:
  assumes "c \<noteq> QUOTE" "c \<noteq> BACKSLASH"
  shows "read_body (c # t) = map_option (Cons c) (read_body t)"
  using assms by (subst read_body.simps) simp

lemma octal_digit_char: "d < 8 \<Longrightarrow> octal_digit (digit_char d)"
  by (simp add: octal_digit_def digit_char_def of_char_of)

lemma octal_text:
  assumes "n < 256"
  shows "length (zero_pad 3 (digits 8 n)) = 3" "\<forall>c \<in> set (zero_pad 3 (digits 8 n)). octal_digit c"
proof -
  have "length (digits 8 n) \<le> 3" using assms by (intro length_digits_le) simp_all
  then show "length (zero_pad 3 (digits 8 n)) = 3" by simp
  have "octal_digit (CHR ''0'')" using octal_digit_char [of 0] by simp
  moreover have "\<forall>c \<in> set (digits 8 n). octal_digit c"
    using set_digits [of 8 n] octal_digit_char by auto
  ultimately show "\<forall>c \<in> set (zero_pad 3 (digits 8 n)). octal_digit c"
    by (auto simp: zero_pad_def)
qed

lemma read_octal:
  assumes "n < 256"
  shows "read_body (BACKSLASH # zero_pad 3 (digits 8 n) @ t) = map_option (Cons (char_of n)) (read_body t)"
proof -
  let ?o = "zero_pad 3 (digits 8 n)"
  note o = octal_text [OF assms]
  have run: "octal_run (?o @ t) = ?o" using o by (simp add: octal_run_def takeWhile_eq_all_conv)
  have ne: "?o \<noteq> []" using o(1) by (metis list.size(3) zero_neq_numeral)
  then have "octal_digit (hd ?o)" using o(2) hd_in_set by blast
  moreover note ne
  moreover have "undigits 8 ?o = n" by (simp add: undigits_digits)
  ultimately show ?thesis
    by (subst read_body.simps) (simp add: run o(1) hd_append)
qed

lemma read_ascii_char:
  "ascii_char p c rest = (out, p') \<Longrightarrow> read_body (out @ t) = map_option (Cons c) (read_body t)"
  by (auto simp: ascii_char_def Let_def read_octal read_plain read_escape escape_char_def
      octal_digit_def split: if_splits)

lemma read_ascii_loop: "read_body (ascii_loop p s @ [QUOTE, NL]) = Some s"
proof (induction p s rule: ascii_loop.induct)
  case (2 p c cs)
  obtain out p' where o: "ascii_char p c cs = (out, p')" by fastforce
  show ?case
  proof (cases "72 < p' \<and> cs \<noteq> []")
    case True
    then have "read_body (ascii_loop 17 cs @ [QUOTE, NL]) = Some cs" using 2(1) [OF o [symmetric]] by simp
    then show ?thesis using True by (simp add: o read_ascii_char [OF o])
  next
    case False
    then have "read_body (ascii_loop p' cs @ [QUOTE, NL]) = Some cs" using 2(2) [OF o [symmetric]] by simp
    then show ?thesis using False by (auto simp: o read_ascii_char [OF o])
  qed
qed simp

text \<open>C14. Every byte string survives \<open>output_ascii\<close>: the assembler reads back exactly the
  bytes that were written, whatever escapes they need and wherever the text is broken into
  several directives.\<close>

theorem output_ascii_read_back: "read_ascii (output_ascii s) = Some s"
  by (simp add: read_ascii_def output_ascii_def read_ascii_loop)

end
