(* ===== verification/Address.thy ===== *)
theory Address
  imports RtlSem
begin

text \<open>
  Addresses on the MicroBlaze, \<open>gcc/config/microblaze/microblaze.c\<close>: which registers may be
  a base (\<open>microblaze_regno_ok_for_base_p\<close>), the classification of an address
  (\<open>microblaze_classify_address\<close>), what the classification costs
  (\<open>microblaze_address_insns\<close>), and the rewriting of an address that is not legitimate
  (\<open>microblaze_legitimize_address\<close>).
\<close>

section \<open>Compiler state the back end reads\<close>

text \<open>The global switches and pass state: \<open>flag_pic\<close> (0, 1 or 2), \<open>optimize\<close>,
  \<open>optimize_size\<close>, the reload flags, \<open>reg_renumber\<close>, the target switches of
  \<open>microblaze.opt\<close> and \<open>-mcpu\<close>.\<close>

record cc_env =
  flag_pic :: nat
  optimize :: nat
  optimize_size :: bool
  reload_in_progress :: bool
  reload_completed :: bool
  reg_renumber :: "nat \<Rightarrow> int"
  target_soft_mul :: bool
  target_barrel_shift :: bool
  target_hard_float :: bool
  target_xlgp_opt :: bool
  select_cpu :: string
  user_label_prefix :: string

definition default_env :: cc_env where
  "default_env = \<lparr>flag_pic = 0, optimize = 2, optimize_size = False, reload_in_progress = False,
     reload_completed = False, reg_renumber = (\<lambda>_. -1), target_soft_mul = True,
     target_barrel_shift = False, target_hard_float = False, target_xlgp_opt = False,
     select_cpu = ''v4.00.a'', user_label_prefix = []\<rparr>"

text \<open>\<open>INVALID_REGNUM\<close> is \<open>~ (unsigned int) 0\<close>.\<close>

definition INVALID_REGNUM :: nat where "INVALID_REGNUM = 2 ^ 32 - 1"

definition PIC_OFFSET_TABLE_REGNUM :: "cc_env \<Rightarrow> nat" where
  "PIC_OFFSET_TABLE_REGNUM env =
     (if flag_pic env \<noteq> 0 then GP_REG_FIRST + MB_ABI_PIC_ADDR_REGNUM else INVALID_REGNUM)"

section \<open>Base and index registers\<close>

definition microblaze_regno_ok_for_base_p :: "cc_env \<Rightarrow> int \<Rightarrow> bool \<Rightarrow> bool" where
  "microblaze_regno_ok_for_base_p env regno strict =
    (if regno \<ge> int FIRST_PSEUDO_REGISTER \<and> \<not> strict then True
     else
       let regno = (if regno \<ge> int FIRST_PSEUDO_REGISTER then reg_renumber env (nat regno) else regno)
       in if regno = int ARG_POINTER_REGNUM \<or> regno = int FRAME_POINTER_REGNUM then True
          else GP_REG_P regno)"

fun SUBREG_REG :: "rtx \<Rightarrow> rtx" where
  "SUBREG_REG (Subreg m x b) = x"
| "SUBREG_REG x = x"

definition reg_ok :: "cc_env \<Rightarrow> bool \<Rightarrow> rtx \<Rightarrow> bool" where
  "reg_ok env strict x =
     (case x of Reg m r \<Rightarrow> microblaze_regno_ok_for_base_p env (int r) strict | _ \<Rightarrow> False)"

definition microblaze_valid_base_register_p :: "cc_env \<Rightarrow> rtx \<Rightarrow> machine_mode \<Rightarrow> bool \<Rightarrow> bool" where
  "microblaze_valid_base_register_p env x mode strict =
     (let x = (if \<not> strict \<and> GET_CODE x = SUBREG then SUBREG_REG x else x)
      in reg_ok env strict x)"

definition microblaze_valid_index_register_p :: "cc_env \<Rightarrow> rtx \<Rightarrow> machine_mode \<Rightarrow> bool \<Rightarrow> bool" where
  "microblaze_valid_index_register_p env x mode strict =
     (let x = (if \<not> strict \<and> GET_CODE x = SUBREG then SUBREG_REG x else x)
      in reg_ok env strict x)"

section \<open>Classification\<close>

datatype microblaze_address_type =
    ADDRESS_INVALID | ADDRESS_REG | ADDRESS_REG_INDEX | ADDRESS_CONST_INT
  | ADDRESS_SYMBOLIC | ADDRESS_GOTOFF | ADDRESS_PLT

datatype microblaze_symbol_type = SYMBOL_TYPE_INVALID | SYMBOL_TYPE_GENERAL

record microblaze_address_info =
  addr_type :: microblaze_address_type
  regA :: "rtx option"
  regB :: "rtx option"
  addr_offset :: "rtx option"
  addr_symbol :: "rtx option"
  symbol_type :: microblaze_symbol_type

definition no_address_info :: microblaze_address_info where
  "no_address_info = \<lparr>addr_type = ADDRESS_INVALID, regA = None, regB = None,
     addr_offset = None, addr_symbol = None, symbol_type = SYMBOL_TYPE_INVALID\<rparr>"

text \<open>A call to the classification returns its truth value and fills in the structure.
  \<open>XVECEXP (x, 0, 0)\<close> is the first operand of the unspec.\<close>

fun microblaze_classify_unspec ::
  "cc_env \<Rightarrow> microblaze_address_info \<Rightarrow> rtx \<Rightarrow> bool \<times> microblaze_address_info" where
  "microblaze_classify_unspec env info (Unspec m xs n) =
    (let info = info\<lparr>symbol_type := SYMBOL_TYPE_GENERAL, addr_symbol := Some (hd xs)\<rparr>
     in if n = UNSPEC_GOTOFF then
          (True, info\<lparr>regA := Some (Reg SImode (PIC_OFFSET_TABLE_REGNUM env)),
                      addr_type := ADDRESS_GOTOFF\<rparr>)
        else if n = UNSPEC_PLT then (True, info\<lparr>addr_type := ADDRESS_PLT\<rparr>)
        else (False, info))"
| "microblaze_classify_unspec env info _ = (False, info)"

definition get_base_reg :: "cc_env \<Rightarrow> rtx \<Rightarrow> nat" where
  "get_base_reg env x =
    (let base_reg = (if flag_pic env \<noteq> 0 then MB_ABI_PIC_ADDR_REGNUM else MB_ABI_BASE_REGNUM)
     in case x of
          SymbolRef s \<Rightarrow>
            if target_xlgp_opt env \<and> sym_small s then
              (case sym_decl s of
                 None \<Rightarrow> base_reg
               | Some readonly \<Rightarrow> if readonly then MB_ABI_GPRO_REGNUM else MB_ABI_GPRW_REGNUM)
            else base_reg
        | _ \<Rightarrow> base_reg)"

definition pic_address_needs_scratch :: "cc_env \<Rightarrow> rtx \<Rightarrow> bool" where
  "pic_address_needs_scratch env x =
    (case x of
       Const (Binary c m (SymbolRef s) (ConstInt i)) \<Rightarrow>
         c = PLUS \<and> (flag_pic env = 2 \<or> \<not> SMALL_INT i)
     | _ \<Rightarrow> False)"

text \<open>The symbolic branch under \<open>PLUS\<close> looks at \<open>XEXP (xplus1, 0)\<close>, which is an expression
  for \<open>CONST\<close> only; a symbol's or a label's operand is never an unspec.\<close>

definition classify_plus ::
  "cc_env \<Rightarrow> microblaze_address_info \<Rightarrow> rtx \<Rightarrow> machine_mode \<Rightarrow> bool \<Rightarrow>
   bool \<times> microblaze_address_info" where
  "classify_plus env info xplus1 mode strict =
    (case xplus1 of
       ConstInt i \<Rightarrow> (True, info\<lparr>addr_offset := Some xplus1\<rparr>)
     | Unspec m xs n \<Rightarrow> microblaze_classify_unspec env info xplus1
     | SymbolRef s \<Rightarrow>
         if flag_pic env = 2 then (False, info)
         else (True, info\<lparr>addr_type := ADDRESS_SYMBOLIC, addr_symbol := Some xplus1,
                          symbol_type := SYMBOL_TYPE_GENERAL\<rparr>)
     | LabelRef l \<Rightarrow>
         if flag_pic env = 2 then (False, info)
         else (True, info\<lparr>addr_type := ADDRESS_SYMBOLIC, addr_symbol := Some xplus1,
                          symbol_type := SYMBOL_TYPE_GENERAL\<rparr>)
     | Const y \<Rightarrow>
         if GET_CODE y = UNSPEC then microblaze_classify_unspec env info y
         else if flag_pic env = 2 then (False, info)
         else (True, info\<lparr>addr_type := ADDRESS_SYMBOLIC, addr_symbol := Some xplus1,
                          symbol_type := SYMBOL_TYPE_GENERAL\<rparr>)
     | Reg m r \<Rightarrow>
         if microblaze_valid_index_register_p env xplus1 mode strict
            \<and> GET_MODE_SIZE mode \<le> UNITS_PER_WORD
         then (True, info\<lparr>addr_type := ADDRESS_REG_INDEX, regB := Some xplus1\<rparr>)
         else (False, info)
     | _ \<Rightarrow> (False, info))"

definition classify_symbolic ::
  "cc_env \<Rightarrow> rtx \<Rightarrow> machine_mode \<Rightarrow> bool \<times> microblaze_address_info" where
  "classify_symbolic env x mode =
    (let info = no_address_info\<lparr>addr_type := ADDRESS_SYMBOLIC, symbol_type := SYMBOL_TYPE_GENERAL,
                  addr_symbol := Some x, regA := Some (Reg mode (get_base_reg env x))\<rparr>
     in if GET_CODE x = CONST_CODE then
          (\<not> (flag_pic env \<noteq> 0 \<and> pic_address_needs_scratch env x), info)
        else if flag_pic env = 2 then (False, info)
        else (True, info))"

definition microblaze_classify_address ::
  "cc_env \<Rightarrow> rtx \<Rightarrow> machine_mode \<Rightarrow> bool \<Rightarrow> bool \<times> microblaze_address_info" where
  "microblaze_classify_address env x mode strict =
    (let reg_info = no_address_info\<lparr>addr_type := ADDRESS_REG, regA := Some x,
                      addr_offset := Some const0_rtx\<rparr>
     in case x of
          Reg m r \<Rightarrow> (microblaze_valid_base_register_p env x mode strict, reg_info)
        | Subreg m y b \<Rightarrow> (microblaze_valid_base_register_p env x mode strict, reg_info)
        | Binary c m xplus0 xplus1 \<Rightarrow>
            if c = PLUS \<and> microblaze_valid_base_register_p env xplus0 mode strict then
              classify_plus env
                (no_address_info\<lparr>addr_type := ADDRESS_REG, regA := Some xplus0\<rparr>)
                xplus1 mode strict
            else (False, no_address_info)
        | ConstInt i \<Rightarrow>
            (True, no_address_info\<lparr>regA := Some (Reg mode 0), addr_type := ADDRESS_CONST_INT,
                                   addr_offset := Some x\<rparr>)
        | Const y \<Rightarrow> classify_symbolic env x mode
        | LabelRef l \<Rightarrow> classify_symbolic env x mode
        | SymbolRef s \<Rightarrow> classify_symbolic env x mode
        | Unspec m xs n \<Rightarrow> microblaze_classify_unspec env no_address_info x
        | _ \<Rightarrow> (False, no_address_info))"

text \<open>The one side effect of the classification: an unspec met during reload marks the
  offset-table register as live.\<close>

definition classify_address_live :: "cc_env \<Rightarrow> rtx \<Rightarrow> nat list" where
  "classify_address_live env x =
    (if GET_CODE x = UNSPEC \<and> reload_in_progress env then [PIC_OFFSET_TABLE_REGNUM env] else [])"

definition microblaze_legitimate_address_p ::
  "cc_env \<Rightarrow> machine_mode \<Rightarrow> rtx \<Rightarrow> bool \<Rightarrow> bool" where
  "microblaze_legitimate_address_p env mode x strict =
     fst (microblaze_classify_address env x mode strict)"

section \<open>Costs of an address\<close>

definition COSTS_N_INSNS :: "int \<Rightarrow> int" where "COSTS_N_INSNS n = n * 4"

definition offset_small :: "rtx option \<Rightarrow> bool" where
  "offset_small x = (case x of Some (ConstInt i) \<Rightarrow> SMALL_INT i | _ \<Rightarrow> False)"

definition microblaze_address_insns :: "cc_env \<Rightarrow> rtx \<Rightarrow> machine_mode \<Rightarrow> int" where
  "microblaze_address_insns env x mode =
    (case microblaze_classify_address env x mode False of
       (ok, addr) \<Rightarrow>
         if ok then
           (case addr_type addr of
              ADDRESS_REG \<Rightarrow> if offset_small (addr_offset addr) then 1 else 2
            | ADDRESS_CONST_INT \<Rightarrow> if offset_small (Some x) then 1 else 2
            | ADDRESS_REG_INDEX \<Rightarrow> 1
            | ADDRESS_SYMBOLIC \<Rightarrow> 1
            | ADDRESS_GOTOFF \<Rightarrow> 2
            | _ \<Rightarrow> 0)
         else 0)"

definition microblaze_address_cost :: "cc_env \<Rightarrow> rtx \<Rightarrow> int" where
  "microblaze_address_cost env addr =
     COSTS_N_INSNS (microblaze_address_insns env addr (GET_MODE addr))"

text \<open>\<open>simple_memory_operand\<close>: a memory operand that fits one instruction.\<close>

definition simple_memory_operand :: "rtx \<Rightarrow> bool" where
  "simple_memory_operand op =
    (case op of
       Mem mode addr \<Rightarrow>
         if GET_MODE_SIZE mode > UNITS_PER_WORD then False
         else
           (case addr of
              Reg m r \<Rightarrow> True
            | Binary c m plus0 plus1 \<Rightarrow>
                c = PLUS \<and>
                (if GET_CODE plus0 = REG \<and> GET_CODE plus1 = CONST_INT
                    \<and> offset_small (Some plus1) then True
                 else if GET_CODE plus1 = REG \<and> GET_CODE plus0 = CONST_INT then True
                 else if GET_CODE plus0 = REG \<and> GET_CODE plus1 = REG then True
                 else False)
            | _ \<Rightarrow> False)
     | _ \<Rightarrow> False)"

section \<open>Making an address legitimate\<close>

definition pic_offset_table_rtx :: "cc_env \<Rightarrow> rtx" where
  "pic_offset_table_rtx env = Reg Pmode (PIC_OFFSET_TABLE_REGNUM env)"

text \<open>\<open>expand_pic_symbol_ref\<close>: the memory word at the offset-table register plus the
  symbol's offset; the same four lines are repeated in \<open>microblaze_legitimize_address\<close>.\<close>

definition expand_pic_symbol_ref :: "cc_env \<Rightarrow> rtx \<Rightarrow> rtx" where
  "expand_pic_symbol_ref env op =
    (let result = Unspec Pmode [op] UNSPEC_GOTOFF;
         result = Const result;
         result = Plus (pic_offset_table_rtx env) result
     in Mem Pmode result)"

text \<open>The part for a sum (after the operands were swapped to put a register first):
  \<open>Some\<close> the rewritten address, or \<open>None\<close> to go on.\<close>

definition legitimize_plus ::
  "cc_env \<Rightarrow> rtx \<Rightarrow> rtx \<Rightarrow> emit_state \<Rightarrow> rtx option \<times> emit_state" where
  "legitimize_plus env xplus0 xplus1 st =
    (case (xplus0, xplus1) of
       (Reg m r, ConstInt i) \<Rightarrow>
         if microblaze_regno_ok_for_base_p env (int r) False \<and> \<not> SMALL_INT i then
           let (int_reg, st) = gen_reg_rtx Pmode st;
               (ptr_reg, st) = gen_reg_rtx Pmode st;
               st = emit_move_insn int_reg (ConstInt (i AND NOT 0x7fff)) st;
               st = emit_insn (SetX ptr_reg (Plus xplus0 int_reg)) st
           in (Some (Plus ptr_reg (ConstInt (i AND 0x7fff))), st)
         else (None, if microblaze_regno_ok_for_base_p env (int r) False \<and> flag_pic env = 2
                        \<and> reload_in_progress env
                     then mark_live (PIC_OFFSET_TABLE_REGNUM env) st else st)
     | (Reg m r, _) \<Rightarrow>
         if microblaze_regno_ok_for_base_p env (int r) False \<and> flag_pic env = 2 then
           let st = (if reload_in_progress env then mark_live (PIC_OFFSET_TABLE_REGNUM env) st else st);
               xplus1 = (case xplus1 of Const y \<Rightarrow> y | _ \<Rightarrow> xplus1)
           in if GET_CODE xplus1 = SYMBOL_REF then
                (Some (Plus xplus0 (expand_pic_symbol_ref env xplus1)), st)
              else (None, st)
         else (None, st)
     | _ \<Rightarrow> (None, st))"

text \<open>The last part: a bare symbol is fetched from the offset table.\<close>

definition legitimize_symbol :: "cc_env \<Rightarrow> rtx \<Rightarrow> emit_state \<Rightarrow> rtx option \<times> emit_state" where
  "legitimize_symbol env xinsn st =
    (if GET_CODE xinsn = SYMBOL_REF then
       (Some (expand_pic_symbol_ref env xinsn),
        if reload_in_progress env then mark_live (PIC_OFFSET_TABLE_REGNUM env) st else st)
     else (None, st))"

definition legitimize_sum :: "cc_env \<Rightarrow> rtx \<Rightarrow> emit_state \<Rightarrow> rtx option \<times> emit_state" where
  "legitimize_sum env xinsn st =
    (case xinsn of
       Binary c m x0 x1 \<Rightarrow>
         if c = PLUS then
           let (xplus0, xplus1) =
                 (if GET_CODE x0 \<noteq> REG \<and> GET_CODE x1 = REG then (x1, x0) else (x0, x1))
           in legitimize_plus env xplus0 xplus1 st
         else (None, st)
     | _ \<Rightarrow> legitimize_symbol env xinsn st)"

definition microblaze_legitimize_address ::
  "cc_env \<Rightarrow> rtx \<Rightarrow> emit_state \<Rightarrow> rtx option \<times> emit_state" where
  "microblaze_legitimize_address env x st =
    (case x of
       Const (Binary c m (SymbolRef s) (ConstInt i)) \<Rightarrow>
         if flag_pic env \<noteq> 0 \<and> pic_address_needs_scratch env x then
           let (ptr_reg, st) = gen_reg_rtx Pmode st;
               st = emit_move_insn ptr_reg (SymbolRef s) st;
               result = Plus ptr_reg (ConstInt i)
           in if SMALL_INT i then (Some result, st) else legitimize_sum env result st
         else (None, st)
     | _ \<Rightarrow> legitimize_sum env x st)"


section \<open>Shape of a classified address\<close>

text \<open>The table in the comment above \<open>microblaze_classify_address\<close>: which parts of the
  structure are filled in for each kind of address.\<close>

definition info_shape :: "microblaze_address_info \<Rightarrow> bool" where
  "info_shape a =
    (case addr_type a of
       ADDRESS_INVALID \<Rightarrow> False
     | ADDRESS_REG \<Rightarrow> regA a \<noteq> None \<and> regB a = None \<and> addr_symbol a = None
         \<and> (\<exists>i. addr_offset a = Some (ConstInt i))
     | ADDRESS_REG_INDEX \<Rightarrow> regA a \<noteq> None \<and> regB a \<noteq> None \<and> addr_offset a = None
         \<and> addr_symbol a = None
     | ADDRESS_CONST_INT \<Rightarrow> regA a \<noteq> None \<and> regB a = None \<and> addr_symbol a = None
         \<and> (\<exists>i. addr_offset a = Some (ConstInt i))
     | ADDRESS_SYMBOLIC \<Rightarrow> regA a \<noteq> None \<and> regB a = None \<and> addr_offset a = None
         \<and> addr_symbol a \<noteq> None \<and> symbol_type a = SYMBOL_TYPE_GENERAL
     | ADDRESS_GOTOFF \<Rightarrow> regA a \<noteq> None \<and> addr_symbol a \<noteq> None
     | ADDRESS_PLT \<Rightarrow> addr_symbol a \<noteq> None)"

lemma classify_unspec_shape:
  "microblaze_classify_unspec env info x = (True, a) \<Longrightarrow>
   info_shape a \<and> addr_type a \<in> {ADDRESS_GOTOFF, ADDRESS_PLT}"
  by (cases "(env, info, x)" rule: microblaze_classify_unspec.cases)
    (auto simp: microblaze_classify_unspec.simps info_shape_def Let_def split: if_splits)

declare microblaze_classify_unspec.simps [simp del]

lemma classify_plus_shape:
  assumes "classify_plus env (no_address_info\<lparr>addr_type := ADDRESS_REG, regA := Some b\<rparr>) y mode strict
             = (True, a)"
  shows "info_shape a"
  using assms
  by (auto simp: classify_plus_def info_shape_def no_address_info_def
      split: rtx.splits if_splits dest!: classify_unspec_shape)

lemma classify_symbolic_shape:
  "classify_symbolic env x mode = (ok, a) \<Longrightarrow> info_shape a \<and> addr_type a = ADDRESS_SYMBOLIC"
  by (auto simp: classify_symbolic_def info_shape_def no_address_info_def Let_def split: if_splits)

lemma classify_address_shape:
  assumes "microblaze_classify_address env x mode strict = (True, a)"
  shows "info_shape a"
proof (cases x)
  case (Binary c m p q)
  with assms show ?thesis
    by (auto simp: microblaze_classify_address_def Let_def split: if_splits dest: classify_plus_shape)
next
  case (Unspec m xs n)
  with assms show ?thesis
    by (auto simp: microblaze_classify_address_def Let_def
        dest: classify_unspec_shape)
qed (use assms in \<open>auto simp: microblaze_classify_address_def Let_def info_shape_def
       no_address_info_def dest: classify_symbolic_shape [unfolded info_shape_def]\<close>)

text \<open>Multiword values are never reached through two registers, because their words are
  addressed by adding to the offset.\<close>

lemma classify_reg_index:
  assumes "microblaze_classify_address env x mode strict = (True, a)"
    and "addr_type a = ADDRESS_REG_INDEX"
  shows "GET_MODE_SIZE mode \<le> UNITS_PER_WORD \<and>
    (\<exists>m p q. x = Binary PLUS m p q \<and> regA a = Some p \<and> regB a = Some q
       \<and> microblaze_valid_base_register_p env p mode strict
       \<and> microblaze_valid_index_register_p env q mode strict)"
proof (cases x)
  case (Binary c m p q)
  with assms show ?thesis
    by (auto simp: microblaze_classify_address_def classify_plus_def Let_def no_address_info_def
        split: if_splits rtx.splits dest!: classify_unspec_shape)
next
  case (Unspec m xs n)
  with assms show ?thesis
    by (auto simp: microblaze_classify_address_def Let_def
        dest: classify_unspec_shape)
qed (use assms in \<open>auto simp: microblaze_classify_address_def Let_def no_address_info_def
       dest: classify_symbolic_shape\<close>)

section \<open>Cost and legitimacy\<close>

lemma address_insns_range: "microblaze_address_insns env x mode \<in> {0, 1, 2}"
  by (auto simp: microblaze_address_insns_def split: prod.split microblaze_address_type.split)

lemma address_insns_zero:
  "microblaze_address_insns env x mode = 0 \<longleftrightarrow>
     \<not> microblaze_legitimate_address_p env mode x False
     \<or> addr_type (snd (microblaze_classify_address env x mode False)) = ADDRESS_PLT"
proof (cases "microblaze_classify_address env x mode False")
  case (Pair ok a)
  show ?thesis
  proof (cases ok)
    case True
    with Pair have "info_shape a" by (simp add: classify_address_shape)
    with Pair True show ?thesis
      by (auto simp: microblaze_address_insns_def microblaze_legitimate_address_p_def info_shape_def
          split: microblaze_address_type.splits)
  qed (use Pair in \<open>simp add: microblaze_address_insns_def microblaze_legitimate_address_p_def\<close>)
qed

section \<open>Legitimizing a large offset\<close>

lemma and_mask15: "(i :: int) AND 0x7fff = i mod 0x8000"
  using take_bit_eq_mask [of 15 i] by (simp add: take_bit_eq_mod mask_eq_exp_minus_1)

lemma split_low15: "(i AND NOT 0x7fff) + (i AND 0x7fff) = (i :: int)"
proof -
  have "(i AND NOT 0x7fff) + (i AND 0x7fff) = (i AND NOT 0x7fff) OR (i AND 0x7fff)"
    by (rule disjunctive_add) (auto simp: bit_simps)
  also have "\<dots> = i" by (rule bit_eqI) (auto simp: bit_simps)
  finally show ?thesis .
qed

lemma low15_small: "SMALL_INT (i AND 0x7fff)"
proof -
  have "0 \<le> i mod 0x8000" "i mod 0x8000 < 0x8000" by simp_all
  then have "- 0x8000 \<le> i mod 0x8000 \<and> in_hwi (i mod 0x8000)" unfolding in_hwi_def by (simp, presburger)
  then show ?thesis unfolding and_mask15 by (simp add: SMALL_INT_range)
qed

lemma legitimize_plus_large:
  assumes "microblaze_regno_ok_for_base_p env (int r) False" "\<not> SMALL_INT i"
  shows "legitimize_plus env (Reg m r) (ConstInt i) st =
    (let n = next_pseudo st; y = ConstInt (i AND NOT 0x7fff) in
     (Some (Plus (Reg Pmode (Suc n)) (ConstInt (i AND 0x7fff))),
      st\<lparr>next_pseudo := n + 2,
         emitted := emitted st @ [SetX (Reg Pmode n) y,
           SetX (Reg Pmode (Suc n)) (Plus (Reg m r) (Reg Pmode n))]\<rparr>))"
  using assms by (simp add: legitimize_plus_def emit_defs Let_def)

lemma pseudo_offset_legitimate:
  assumes "FIRST_PSEUDO_REGISTER \<le> n" "SMALL_INT i"
  shows "microblaze_legitimate_address_p env mode (Plus (Reg Pmode n) (ConstInt i)) False"
    and "microblaze_address_insns env (Plus (Reg Pmode n) (ConstInt i)) mode = 1"
  using assms
  by (simp_all add: microblaze_legitimate_address_p_def microblaze_classify_address_def Let_def
      microblaze_address_insns_def offset_small_def no_address_info_def
      microblaze_valid_base_register_p_def reg_ok_def microblaze_regno_ok_for_base_p_def
      classify_plus_def)

lemma legitimize_large_run:
  assumes "r < n"
  shows "\<exists>s'. rtl_run [SetX (Reg Pmode n) (ConstInt (i AND NOT 0x7fff)),
                   SetX (Reg Pmode (Suc n)) (Plus (Reg m r) (Reg Pmode n))] s = Some s'
     \<and> rtl_val s' (Plus (Reg Pmode (Suc n)) (ConstInt (i AND 0x7fff)))
         = rtl_val s (Plus (Reg m r) (ConstInt i))
     \<and> mem s' = mem s \<and> (\<forall>q < n. regs s' q = regs s q)"
proof -
  have "(word_of_int (i AND NOT 0x7fff) + word_of_int (i AND 0x7fff) :: 32 word) = word_of_int i"
    by (simp only: wi_hom_add split_low15)
  then show ?thesis using assms(1) by (simp add: add.assoc)
qed

section \<open>Properties\<close>

text \<open>The table in the comment above \<open>microblaze_classify_address\<close>, with the contents of each field, the
  conditions under which position-independent code accepts a symbol, and the two kinds of address the comment leaves out:
  a reference through the global offset table and one through the jump table, with or without a register.\<close>

definition symbol_or_label :: "rtx \<Rightarrow> bool" where
  "symbol_or_label y = (case y of SymbolRef s \<Rightarrow> True | LabelRef l \<Rightarrow> True | _ \<Rightarrow> False)"

inductive address_table ::
  "cc_env \<Rightarrow> machine_mode \<Rightarrow> bool \<Rightarrow> rtx \<Rightarrow> microblaze_address_info \<Rightarrow> bool" for env mode strict
where
  register: "microblaze_valid_base_register_p env b mode strict \<Longrightarrow>
    address_table env mode strict b
      \<lparr>addr_type = ADDRESS_REG, regA = Some b, regB = None, addr_offset = Some (ConstInt 0), addr_symbol = None, symbol_type = SYMBOL_TYPE_INVALID\<rparr>"
| displacement: "microblaze_valid_base_register_p env b mode strict \<Longrightarrow>
    address_table env mode strict (Binary PLUS m b (ConstInt i))
      \<lparr>addr_type = ADDRESS_REG, regA = Some b, regB = None, addr_offset = Some (ConstInt i), addr_symbol = None, symbol_type = SYMBOL_TYPE_INVALID\<rparr>"
| two_registers: "microblaze_valid_base_register_p env b mode strict \<Longrightarrow>
    microblaze_valid_index_register_p env (Reg n r) mode strict \<Longrightarrow> GET_MODE_SIZE mode \<le> UNITS_PER_WORD \<Longrightarrow>
    address_table env mode strict (Binary PLUS m b (Reg n r))
      \<lparr>addr_type = ADDRESS_REG_INDEX, regA = Some b, regB = Some (Reg n r), addr_offset = None, addr_symbol = None, symbol_type = SYMBOL_TYPE_INVALID\<rparr>"
| literal: "address_table env mode strict (ConstInt i)
      \<lparr>addr_type = ADDRESS_CONST_INT, regA = Some (Reg mode 0), regB = None, addr_offset = Some (ConstInt i), addr_symbol = None, symbol_type = SYMBOL_TYPE_INVALID\<rparr>"
| symbol: "symbol_or_label y \<and> flag_pic env \<noteq> 2
      \<or> (\<exists>z. y = Const z) \<and> \<not> (flag_pic env \<noteq> 0 \<and> pic_address_needs_scratch env y) \<Longrightarrow>
    address_table env mode strict y
      \<lparr>addr_type = ADDRESS_SYMBOLIC, regA = Some (Reg mode (get_base_reg env y)), regB = None, addr_offset = None, addr_symbol = Some y, symbol_type = SYMBOL_TYPE_GENERAL\<rparr>"
| register_symbol: "microblaze_valid_base_register_p env b mode strict \<Longrightarrow> flag_pic env \<noteq> 2 \<Longrightarrow>
    symbol_or_label y \<or> (\<exists>z. y = Const z \<and> GET_CODE z \<noteq> UNSPEC) \<Longrightarrow>
    address_table env mode strict (Binary PLUS m b y)
      \<lparr>addr_type = ADDRESS_SYMBOLIC, regA = Some b, regB = None, addr_offset = None, addr_symbol = Some y, symbol_type = SYMBOL_TYPE_GENERAL\<rparr>"
| offset_table: "x = Unspec m xs UNSPEC_GOTOFF
      \<or> (\<exists>n b. microblaze_valid_base_register_p env b mode strict
          \<and> (x = Binary PLUS n b (Unspec m xs UNSPEC_GOTOFF) \<or> x = Binary PLUS n b (Const (Unspec m xs UNSPEC_GOTOFF)))) \<Longrightarrow>
    address_table env mode strict x
      \<lparr>addr_type = ADDRESS_GOTOFF, regA = Some (Reg SImode (PIC_OFFSET_TABLE_REGNUM env)), regB = None, addr_offset = None, addr_symbol = Some (hd xs), symbol_type = SYMBOL_TYPE_GENERAL\<rparr>"
| jump_table: "address_table env mode strict (Unspec m xs UNSPEC_PLT)
      \<lparr>addr_type = ADDRESS_PLT, regA = None, regB = None, addr_offset = None, addr_symbol = Some (hd xs), symbol_type = SYMBOL_TYPE_GENERAL\<rparr>"
| register_jump_table: "microblaze_valid_base_register_p env b mode strict \<Longrightarrow>
    y = Unspec m xs UNSPEC_PLT \<or> y = Const (Unspec m xs UNSPEC_PLT) \<Longrightarrow>
    address_table env mode strict (Binary PLUS n b y)
      \<lparr>addr_type = ADDRESS_PLT, regA = Some b, regB = None, addr_offset = None, addr_symbol = Some (hd xs), symbol_type = SYMBOL_TYPE_GENERAL\<rparr>"

lemma classify_unspec_iff:
  "microblaze_classify_unspec env info y = (True, a) \<longleftrightarrow>
    (\<exists>m xs. y = Unspec m xs UNSPEC_GOTOFF \<and> a = info\<lparr>symbol_type := SYMBOL_TYPE_GENERAL, addr_symbol := Some (hd xs),
        regA := Some (Reg SImode (PIC_OFFSET_TABLE_REGNUM env)), addr_type := ADDRESS_GOTOFF\<rparr>)
    \<or> (\<exists>m xs. y = Unspec m xs UNSPEC_PLT \<and> a = info\<lparr>symbol_type := SYMBOL_TYPE_GENERAL, addr_symbol := Some (hd xs),
        addr_type := ADDRESS_PLT\<rparr>)"
  by (cases y) (auto simp: microblaze_classify_unspec.simps Let_def UNSPEC_GOTOFF_def UNSPEC_PLT_def)

lemma valid_base_shape:
  "microblaze_valid_base_register_p env b mode strict \<Longrightarrow> (\<exists>m r. b = Reg m r) \<or> (\<exists>m y k. b = Subreg m y k)"
  by (cases b) (auto simp: microblaze_valid_base_register_p_def reg_ok_def split: if_splits)

lemma table_classified:
  assumes "address_table env mode strict x a"
  shows "microblaze_classify_address env x mode strict = (True, a)"
  using assms
proof cases
  case register
  with valid_base_shape [OF register(2)] show ?thesis
    by (auto simp: microblaze_classify_address_def no_address_info_def)
next
  case symbol
  then show ?thesis
    by (cases x) (auto simp: microblaze_classify_address_def classify_symbolic_def symbol_or_label_def Let_def no_address_info_def)
next
  case register_symbol
  then show ?thesis
    by (auto simp: microblaze_classify_address_def classify_plus_def symbol_or_label_def Let_def no_address_info_def
        split: rtx.splits)
qed (auto simp: microblaze_classify_address_def classify_plus_def classify_unspec_iff Let_def no_address_info_def)

lemma classified_table:
  assumes "microblaze_classify_address env x mode strict = (True, a)"
  shows "address_table env mode strict x a"
proof (cases x)
  case (Binary c m b y)
  with assms have c: "c = PLUS" "microblaze_valid_base_register_p env b mode strict"
    and y: "classify_plus env (no_address_info\<lparr>addr_type := ADDRESS_REG, regA := Some b\<rparr>) y mode strict = (True, a)"
    by (auto simp: microblaze_classify_address_def Let_def split: if_splits)
  show ?thesis
    using y c unfolding Binary
    by (cases y) (auto simp: classify_plus_def classify_unspec_iff no_address_info_def symbol_or_label_def split: if_splits
        intro: displacement two_registers register_symbol offset_table register_jump_table)
qed (use assms in \<open>auto simp: microblaze_classify_address_def classify_symbolic_def classify_unspec_iff Let_def
       no_address_info_def symbol_or_label_def split: if_splits intro: register literal symbol offset_table jump_table\<close>)

text \<open>C4. The classification accepts exactly the addresses of the table, under its conditions on registers, on the size of
  the value and on position-independent code, and fills in exactly the fields the table gives for
  the kind, with the parts of the address they stand for: base and index register, offset and symbol.\<close>

theorem classify_address_fields:
  "microblaze_classify_address env x mode strict = (True, a) \<longleftrightarrow> address_table env mode strict x a"
  using table_classified classified_table by blast

text \<open>C5. \<open>microblaze_legitimize_address\<close> on a base register plus an offset too large for one
  instruction: the code it emits runs, the rewritten address denotes the same location as
  the original one, no register that existed before changes, and the rewritten address is
  legitimate in every mode and costs one instruction.\<close>

theorem legitimize_address_large_offset:
  assumes ok: "microblaze_regno_ok_for_base_p env (int r) False" and large: "\<not> SMALL_INT i"
    and fresh: "r < next_pseudo st" "FIRST_PSEUDO_REGISTER \<le> next_pseudo st"
  shows "\<exists>a is s'. microblaze_legitimize_address env (Plus (Reg Pmode r) (ConstInt i)) st
             = (Some a, st\<lparr>next_pseudo := next_pseudo st + 2, emitted := emitted st @ is\<rparr>)
     \<and> rtl_run is s = Some s'
     \<and> rtl_val s' a = rtl_val s (Plus (Reg Pmode r) (ConstInt i))
     \<and> mem s' = mem s \<and> (\<forall>q < next_pseudo st. regs s' q = regs s q)
     \<and> (\<forall>mode. microblaze_legitimate_address_p env mode a False
           \<and> microblaze_address_insns env a mode = 1)"
proof -
  have "FIRST_PSEUDO_REGISTER \<le> Suc (next_pseudo st)" using fresh(2) by simp
  note leg = pseudo_offset_legitimate [OF this low15_small [of i]]
  have eq: "microblaze_legitimize_address env (Plus (Reg Pmode r) (ConstInt i)) st
      = legitimize_plus env (Reg Pmode r) (ConstInt i) st"
    by (simp add: microblaze_legitimize_address_def legitimize_sum_def)
  show ?thesis
    using legitimize_large_run [OF fresh(1), of i Pmode s] leg
    unfolding eq legitimize_plus_large [OF ok large] Let_def by blast
qed

theorem legitimize_address_large_offset_witness:
  "\<exists>a is s'. microblaze_legitimize_address default_env (Plus (Reg Pmode 5) (ConstInt 0x12345))
       \<lparr>next_pseudo = 50, emitted = [], live_marks = []\<rparr>
     = (Some a, \<lparr>next_pseudo = 52, emitted = is, live_marks = []\<rparr>)
   \<and> rtl_run is \<lparr>regs = (\<lambda>_. 7), mem = (\<lambda>_. 0), got_base = 0\<rparr> = Some s'
   \<and> rtl_val s' a = Some 0x1234c"
proof -
  have ok: "microblaze_regno_ok_for_base_p default_env (int 5) False"
    by (simp add: microblaze_regno_ok_for_base_p_def GP_REG_P_def to_unsigned_def)
  have large: "\<not> SMALL_INT 0x12345" by (simp add: SMALL_INT_def to_unsigned_def)
  show ?thesis
    using legitimize_address_large_offset [OF ok large, of "\<lparr>next_pseudo = 50, emitted = [], live_marks = []\<rparr>"
        "\<lparr>regs = (\<lambda>_. 7), mem = (\<lambda>_. 0), got_base = 0\<rparr>"]
    by (auto simp del: rtl_run.simps)
qed

text \<open>The cost hook agrees with legitimacy: an address costs zero instructions exactly
  when it is not legitimate (or is a jump-table reference, which no load can use), and one
  or two instructions otherwise.\<close>

theorem address_insns_legitimate:
  "microblaze_address_insns env x mode \<in> {0, 1, 2}
   \<and> (0 < microblaze_address_insns env x mode \<longleftrightarrow>
        microblaze_legitimate_address_p env mode x False
        \<and> addr_type (snd (microblaze_classify_address env x mode False)) \<noteq> ADDRESS_PLT)"
  using address_insns_range [of env x mode] address_insns_zero [of env x mode] by auto

end
