(* ===== verification/Explow.thy ===== *)
theory Explow
  imports RtlSem
begin

text \<open>
  Sums of an expression and a constant, \<open>gcc/explow.c\<close>: \<open>trunc_int_for_mode\<close> and
  \<open>plus_constant\<close> with \<open>find_constant_term_loc\<close> of \<open>gcc/recog.c\<close>. The back end steps
  through memory with \<open>plus_constant\<close> (\<open>adjust_address\<close>). References into the constant
  pool, which \<open>plus_constant\<close> may replace by a new pool entry, do not occur among the
  memory operands of this model.
\<close>

definition trunc_int_for_mode :: "int \<Rightarrow> machine_mode \<Rightarrow> int" where
  "trunc_int_for_mode c mode =
    (let width = GET_MODE_SIZE mode * BITS_PER_UNIT in
     if mode = BImode then (if c AND 1 \<noteq> 0 then 1 else 0)
     else if width < HOST_BITS_PER_WIDE_INT then
       let sign = push_bit (width - 1) (1 :: int);
           c = c AND (push_bit 1 sign - 1);
           c = c XOR sign
       in c - sign
     else c)"

definition CONSTANT_P :: "rtx \<Rightarrow> bool" where
  "CONSTANT_P x \<longleftrightarrow> GET_CODE x \<in> {CONST_INT, CONST_DOUBLE, CONST_CODE, SYMBOL_REF, LABEL_REF}"

text \<open>\<open>immed_double_const\<close>: a \<open>CONST_INT\<close> where one host word is enough.\<close>

definition immed_double_const :: "int \<Rightarrow> rtx" where
  "immed_double_const v =
    (if in_hwi v then ConstInt v
     else ConstDouble VOIDmode (CInt (v div 2 ^ HOST_BITS_PER_WIDE_INT) (hwi v)))"

text \<open>The end of \<open>plus_constant\<close>: add what is left of \<open>c\<close>, wrap a wholly constant sum.\<close>

definition finish_sum :: "bool \<Rightarrow> machine_mode \<Rightarrow> rtx \<Rightarrow> int \<Rightarrow> rtx" where
  "finish_sum all_constant mode x c =
    (let x = (if c \<noteq> 0 then Binary PLUS mode x (ConstInt c) else x)
     in if GET_CODE x = SYMBOL_REF \<or> GET_CODE x = LABEL_REF then x
        else if all_constant then Const x else x)"

text \<open>\<open>plus_loop\<close> is the body from the label \<open>restart\<close> on, with the flag
  \<open>all_constant\<close>; \<open>add_to_term\<close> is \<open>find_constant_term_loc\<close> together with the update of
  the place it finds.\<close>

function (sequential) plus_loop :: "bool \<Rightarrow> rtx \<Rightarrow> int \<Rightarrow> rtx"
  and add_to_term :: "rtx \<Rightarrow> int \<Rightarrow> rtx option" where
  "plus_loop all_constant x c =
    (case x of
       ConstInt i \<Rightarrow> ConstInt (hwi (i + c))
     | ConstDouble m v \<Rightarrow>
         (case v of CInt h l \<Rightarrow> immed_double_const (h * 2 ^ HOST_BITS_PER_WIDE_INT + to_unsigned l + c)
          | _ \<Rightarrow> finish_sum all_constant m x c)
     | Const y \<Rightarrow> plus_loop True y c
     | SymbolRef s \<Rightarrow> finish_sum True (GET_MODE x) x c
     | LabelRef l \<Rightarrow> finish_sum True (GET_MODE x) x c
     | Binary op m a b \<Rightarrow>
         if op = PLUS then
           (case b of
              ConstInt i \<Rightarrow>
                plus_loop all_constant a
                  (let c = hwi (c + i) in if m \<noteq> VOIDmode then trunc_int_for_mode c m else c)
            | _ \<Rightarrow>
                if CONSTANT_P b then
                  finish_sum all_constant m
                    (Binary PLUS m a (if c = 0 then b else plus_loop False b c)) 0
                else
                  (case add_to_term a c of
                     Some a' \<Rightarrow> finish_sum all_constant m (Binary PLUS m a' b) 0
                   | None \<Rightarrow>
                       (case add_to_term b c of
                          Some b' \<Rightarrow> finish_sum all_constant m (Binary PLUS m a b') 0
                        | None \<Rightarrow> finish_sum all_constant m x c)))
         else finish_sum all_constant m x c
     | _ \<Rightarrow> finish_sum all_constant (GET_MODE x) x c)"
| "add_to_term x c =
    (if GET_CODE x \<in> {CONST_INT, SYMBOL_REF, LABEL_REF, CONST_CODE} then
       Some (if c = 0 then x else plus_loop False x c)
     else
       (case x of
          Binary op m a b \<Rightarrow>
            if op \<noteq> PLUS then None
            else if CONSTANT_P a \<and> CONSTANT_P b then
              Some (if c = 0 then x else plus_loop False x c)
            else
              (case add_to_term a c of
                 Some a' \<Rightarrow> Some (Binary PLUS m a' b)
               | None \<Rightarrow>
                   (case add_to_term b c of
                      Some b' \<Rightarrow> Some (Binary PLUS m a b')
                    | None \<Rightarrow> None))
        | _ \<Rightarrow> None))"
  by pat_completeness auto
termination
  by (relation "measure (\<lambda>p. case p of Inl (f, x, c) \<Rightarrow> 2 * size x | Inr (x, c) \<Rightarrow> 2 * size x + 1)") auto

declare plus_loop.simps [simp del] add_to_term.simps [simp del]

definition plus_constant :: "rtx \<Rightarrow> int \<Rightarrow> rtx" where
  "plus_constant x c = (if c = 0 then x else plus_loop False x c)"

section \<open>Truncation\<close>

lemma sign_extend_trick:
  "((c AND (push_bit 1 (push_bit n 1) - 1)) XOR push_bit n 1) - push_bit n 1
     = signed_take_bit n (c :: int)"
proof -
  let ?t = "take_bit (Suc n) c"
  have mask: "c AND (push_bit 1 (push_bit n 1) - 1) = ?t"
    by (simp add: take_bit_eq_mask mask_eq_exp_minus_1 push_bit_eq_mult mult.commute)
  have flip: "?t XOR push_bit n 1 = flip_bit n ?t"
    by (simp add: flip_bit_eq_xor)
  have "flip_bit n ?t = (if bit c n then ?t - 2 ^ n else ?t + 2 ^ n)"
    by (simp add: flip_bit_eq_if set_bit_eq unset_bit_eq bit_take_bit_iff)
  then show ?thesis
    by (simp only: mask flip) (simp add: signed_take_bit_eq_take_bit_minus push_bit_eq_mult)
qed

lemma trunc_int_for_mode_small:
  assumes "GET_MODE_SIZE mode \<in> {1, 2}" "mode \<noteq> BImode"
  shows "trunc_int_for_mode c mode = signed_take_bit (GET_MODE_SIZE mode * 8 - 1) c"
proof -
  have "0 < GET_MODE_SIZE mode * 8 \<and> GET_MODE_SIZE mode * 8 < 32" using assms(1) by auto
  then show ?thesis
    using assms(2) sign_extend_trick [of c "GET_MODE_SIZE mode * 8 - 1"]
    by (simp add: trunc_int_for_mode_def Let_def)
qed

lemma trunc_int_for_mode_wide:
  "4 \<le> GET_MODE_SIZE mode \<Longrightarrow> trunc_int_for_mode c mode = c"
  by (auto simp: trunc_int_for_mode_def Let_def)

section \<open>The value of a sum\<close>

text \<open>Sums of registers and constants in word mode, the addresses the target computes.\<close>

fun si_sum :: "rtx \<Rightarrow> bool" where
  "si_sum (Reg m r) = True"
| "si_sum (ConstInt i) = True"
| "si_sum (Mem m a) = si_sum a"
| "si_sum (Binary c m a b) = (c = PLUS \<and> m = SImode \<and> si_sum a \<and> si_sum b)"
| "si_sum _ = False"

lemma si_sum_val: "si_sum x \<Longrightarrow> \<exists>v. rtl_val s x = Some v"
  by (induction x) auto

lemma trunc_SImode [simp]: "trunc_int_for_mode c SImode = c"
  by (simp add: trunc_int_for_mode_wide)

lemma finish_sum_val:
  assumes "si_sum x" "rtl_val s x = Some v"
  shows "rtl_val s (finish_sum False m x c) = Some (v + word_of_int c)"
proof -
  have "GET_CODE x \<noteq> SYMBOL_REF \<and> GET_CODE x \<noteq> LABEL_REF" using assms(1) by (cases x) auto
  then show ?thesis using assms by (simp add: finish_sum_def Let_def)
qed

lemma finish_sum_plus:
  "rtl_val s (finish_sum False m (Binary PLUS n a b) 0) = rtl_val s (Binary PLUS n a b)"
  by (simp add: finish_sum_def Let_def)

text \<open>The equations of the two functions on sums.\<close>

lemma plus_loop_Reg: "plus_loop all (Reg m r) c = finish_sum all m (Reg m r) c"
  and plus_loop_Mem: "plus_loop all (Mem m a) c = finish_sum all m (Mem m a) c"
  and plus_loop_ConstInt: "plus_loop all (ConstInt i) c = ConstInt (hwi (i + c))"
  by (subst plus_loop.simps, simp)+

lemma plus_loop_sum_const:
  "plus_loop all (Binary PLUS SImode a (ConstInt i)) c = plus_loop all a (hwi (c + i))"
  by (subst plus_loop.simps) (simp add: Let_def)

lemma plus_loop_sum:
  assumes "si_sum b" "\<not> CONSTANT_P b"
  shows "plus_loop all (Binary PLUS m a b) c =
    (case add_to_term a c of
       Some a' \<Rightarrow> finish_sum all m (Binary PLUS m a' b) 0
     | None \<Rightarrow>
         (case add_to_term b c of
            Some b' \<Rightarrow> finish_sum all m (Binary PLUS m a b') 0
          | None \<Rightarrow> finish_sum all m (Binary PLUS m a b) c))"
  using assms by (subst plus_loop.simps) (cases b; auto simp: CONSTANT_P_def)

lemma add_to_term_leaf:
  "add_to_term (Reg m r) c = None" "add_to_term (Mem m a) c = None"
  "add_to_term (ConstInt i) c = Some (if c = 0 then ConstInt i else ConstInt (hwi (i + c)))"
  by (subst add_to_term.simps, simp add: plus_loop_ConstInt)+

lemma add_to_term_cases:
  assumes "si_sum x" "add_to_term x c = Some y"
  shows "y = plus_constant x c
    \<or> (\<exists>a b a'. x = Binary PLUS SImode a b \<and> add_to_term a c = Some a' \<and> y = Binary PLUS SImode a' b)
    \<or> (\<exists>a b b'. x = Binary PLUS SImode a b \<and> add_to_term b c = Some b' \<and> y = Binary PLUS SImode a b')"
  using assms unfolding add_to_term.simps [of x c]
  by (cases x) (auto simp: plus_constant_def split: if_splits option.splits)

lemmas sum_leaf_eqs = plus_loop_Reg plus_loop_Mem plus_loop_ConstInt add_to_term_leaf

lemma plus_loop_val:
  "si_sum x \<Longrightarrow> rtl_val s x = Some v \<Longrightarrow>
     rtl_val s (plus_loop False x c) = Some (v + word_of_int c)
     \<and> (\<forall>y. add_to_term x c = Some y \<longrightarrow> rtl_val s y = Some (v + word_of_int c))"
proof (induction x arbitrary: c v)
  case (Binary op m a b)
  from Binary.prems obtain va vb where ab: "si_sum a" "si_sum b" "op = PLUS" "m = SImode"
    "rtl_val s a = Some va" "rtl_val s b = Some vb" "v = va + vb"
    by (auto split: option.splits)
  have IHa: "rtl_val s (plus_loop False a c') = Some (va + word_of_int c')"
    "add_to_term a c' = Some y \<Longrightarrow> rtl_val s y = Some (va + word_of_int c')" for c' y
    using Binary.IH(1) [OF ab(1,5)] by blast+
  have IHb: "add_to_term b c' = Some y \<Longrightarrow> rtl_val s y = Some (vb + word_of_int c')" for c' y
    using Binary.IH(2) [OF ab(2,6)] by blast
  have loop: "rtl_val s (plus_loop False (Binary PLUS SImode a b) c) = Some (v + word_of_int c)"
  proof (cases "\<exists>i. b = ConstInt i")
    case True
    then show ?thesis
      using IHa(1) ab(6,7) by (auto simp: plus_loop_sum_const add_ac)
  next
    case False
    then have "\<not> CONSTANT_P b" using ab(2) by (cases b) (auto simp: CONSTANT_P_def)
    then show ?thesis
      using ab(1,2,5,6,7) finish_sum_val [of "Binary PLUS SImode a b" s v SImode c]
      by (auto simp: plus_loop_sum finish_sum_plus add_ac split: option.split dest: IHa(2) IHb)
  qed
  have "rtl_val s y = Some (v + word_of_int c)" if "add_to_term (Binary PLUS SImode a b) c = Some y" for y
    using add_to_term_cases [OF _ that] ab loop
    by (auto simp: plus_constant_def add_ac split: if_splits dest: IHa(2) IHb)
  with loop ab show ?case by blast
qed (auto simp: sum_leaf_eqs finish_sum_val add.commute)

lemma plus_constant_rtl:
  "si_sum x \<Longrightarrow> rtl_val s x = Some v \<Longrightarrow> rtl_val s (plus_constant x c) = Some (v + word_of_int c)"
  using plus_loop_val [of x s v c] by (auto simp: plus_constant_def)

text \<open>C8. \<open>plus_constant\<close> computes a sum: for every expression built from registers,
  constants, loads and word-mode sums, the result denotes the original value plus \<open>c\<close>,
  wherever in the expression the constant term it merges with is found.\<close>

theorem plus_constant_value:
  assumes "si_sum x"
  shows "rtl_val s (plus_constant x c) = map_option (\<lambda>v. v + word_of_int c) (rtl_val s x)"
  using si_sum_val [OF assms, of s] plus_constant_rtl [OF assms, of s _ c] by auto

theorem plus_constant_value_witness:
  "rtl_val \<lparr>regs = (\<lambda>r. of_nat r), mem = (\<lambda>_. 0), got_base = 0\<rparr>
     (plus_constant (Plus (Plus (Reg SImode 5) (ConstInt 8)) (Reg SImode 6)) 4) = Some 23"
  using plus_constant_value [of "Plus (Plus (Reg SImode 5) (ConstInt 8)) (Reg SImode 6)"
      "\<lparr>regs = (\<lambda>r. of_nat r), mem = (\<lambda>_. 0), got_base = 0\<rparr>" 4]
  by simp

section \<open>Splitting off the constant\<close>

text \<open>\<open>eliminate_constant_term\<close> returns the expression without its constant terms and the
  sum of those terms and \<open>*constptr\<close>. \<open>simplify_binary_operation (PLUS, mode, a, b)\<close> of two
  constants is a constant for the integer modes up to a word, the ones addresses have;
  what it does in other modes is left to a parameter.\<close>

definition add_constants ::
  "(machine_mode \<Rightarrow> int \<Rightarrow> int \<Rightarrow> int option) \<Rightarrow> machine_mode \<Rightarrow> int \<Rightarrow> int \<Rightarrow> int option" where
  "add_constants wide mode a b =
     (if GET_MODE_CLASS mode = MODE_INT \<and> GET_MODE_SIZE mode \<le> 4
      then Some (trunc_int_for_mode (hwi (a + b)) mode) else wide mode a b)"

fun eliminate_constant_term ::
  "(machine_mode \<Rightarrow> int \<Rightarrow> int \<Rightarrow> int option) \<Rightarrow> rtx \<Rightarrow> int \<Rightarrow> rtx \<times> int" where
  "eliminate_constant_term wide (Binary c m a b) constptr =
    (if c \<noteq> PLUS then (Binary c m a b, constptr)
     else
       case (case b of ConstInt i \<Rightarrow> add_constants wide m constptr i | _ \<Rightarrow> None) of
         Some tem \<Rightarrow> eliminate_constant_term wide a tem
       | None \<Rightarrow>
           (case eliminate_constant_term wide a 0 of
              (x0, tem) \<Rightarrow>
                (case eliminate_constant_term wide b tem of
                   (x1, tem) \<Rightarrow>
                     if x1 \<noteq> b \<or> x0 \<noteq> a then
                       (case add_constants wide m constptr tem of
                          Some tem \<Rightarrow> (Binary PLUS m x0 x1, tem)
                        | None \<Rightarrow> (Binary c m a b, constptr))
                     else (Binary c m a b, constptr))))"
| "eliminate_constant_term wide x constptr = (x, constptr)"

lemma add_constants_SImode [simp]: "add_constants wide SImode a b = Some (hwi (a + b))"
  by (simp add: add_constants_def)

lemma eliminate_value_gen:
  "si_sum x \<Longrightarrow> rtl_val s x = Some v \<Longrightarrow> eliminate_constant_term wide x c = (x', c') \<Longrightarrow>
     \<exists>v'. rtl_val s x' = Some v' \<and> v' + word_of_int c' = v + word_of_int c"
proof (induction x arbitrary: c v x' c')
  case (Binary op m a b)
  then obtain va vb where p: "op = PLUS" "m = SImode" "si_sum a" "si_sum b"
    "rtl_val s a = Some va" "rtl_val s b = Some vb" "v = va + vb"
    by (auto split: option.splits)
  show ?case
  proof (cases "\<exists>i. b = ConstInt i")
    case True
    then obtain i where i: "b = ConstInt i" by blast
    then have e: "eliminate_constant_term wide a (hwi (c + i)) = (x', c')"
      using Binary.prems p by simp
    obtain v' where "rtl_val s x' = Some v'" "v' + word_of_int c' = va + word_of_int (hwi (c + i))"
      using Binary.IH(1) [OF p(3,5) e] by blast
    then show ?thesis using p i by (auto simp: add_ac)
  next
    case False
    then have nc: "(case b of ConstInt i \<Rightarrow> add_constants wide m c i | _ \<Rightarrow> None) = None"
      by (cases b) auto
    obtain x0 t0 x1 t1 where e: "eliminate_constant_term wide a 0 = (x0, t0)"
      "eliminate_constant_term wide b t0 = (x1, t1)" by fastforce
    obtain w0 where w0: "rtl_val s x0 = Some w0" "w0 + word_of_int t0 = va"
      using Binary.IH(1) [OF p(3,5) e(1)] by auto
    obtain w1 where w1: "rtl_val s x1 = Some w1" "w1 + word_of_int t1 = vb + word_of_int t0"
      using Binary.IH(2) [OF p(4,6) e(2)] by auto
    show ?thesis
    proof (cases "x1 \<noteq> b \<or> x0 \<noteq> a")
      case True
      then have "x' = Binary PLUS m x0 x1" "c' = hwi (c + t1)"
        using Binary.prems(3) nc e p by auto
      moreover have "w0 + w1 + (word_of_int c + word_of_int t1) = va + vb + word_of_int c"
        using w0(2) w1(2) by (simp add: algebra_simps)
      ultimately show ?thesis using w0 w1 p by auto
    next
      case False
      then show ?thesis using Binary.prems nc e p by auto
    qed
  qed
qed auto

text \<open>C9. \<open>eliminate_constant_term\<close> moves constant terms out of a sum without changing its
  value: what it returns and the constant it accumulates add up to the original expression
  and the constant it was given.\<close>

theorem eliminate_constant_term_value:
  assumes "si_sum x" "eliminate_constant_term wide x c = (x', c')"
  shows "map_option (\<lambda>v. v + word_of_int c') (rtl_val s x') =
         map_option (\<lambda>v. v + word_of_int c) (rtl_val s x)"
  using si_sum_val [OF assms(1), of s] eliminate_value_gen [OF assms(1) _ assms(2), of s] by auto

lemma eliminate_constant_term_value_witness:
  "map_option (\<lambda>v. v + word_of_int 12)
     (rtl_val \<lparr>regs = (\<lambda>r. of_nat r), mem = (\<lambda>_. 0), got_base = 0\<rparr> (Plus (Reg SImode 5) (Reg SImode 6))) =
   Some 23"
  using eliminate_constant_term_value
    [of "Plus (Plus (Reg SImode 5) (ConstInt 8)) (Plus (Reg SImode 6) (ConstInt 4))" "\<lambda>_ _ _. None" 0
      "Plus (Reg SImode 5) (Reg SImode 6)" 12
      "\<lparr>regs = (\<lambda>r. of_nat r), mem = (\<lambda>_. 0), got_base = 0\<rparr>"]
  by (simp add: hwi_def)

end
