(* ===== verification/AsmOut.thy ===== *)
theory AsmOut
  imports Address Explow Printf
begin

text \<open>
  Operands as assembler text: \<open>print_operand\<close> and \<open>print_operand_address\<close> of
  \<open>gcc/config/microblaze/microblaze.c\<close>, over \<open>output_addr_const\<close> of \<open>gcc/final.c\<close> and
  \<open>assemble_name_raw\<close> of \<open>gcc/varasm.c\<close>. A routine yields the characters it writes to the
  stream, or the way it stops: a fatal error, an abort, or an error message with no output.
\<close>

datatype diag =
    FatalInsn string
  | Abort
  | ErrorMsg string
  | OutOfBounds
  | RealText

type_synonym text_result = "diag + string"

text \<open>\<open>RealText\<close> stands for output made by the decimal printer of \<open>gcc/real.c\<close>, which is
  not modelled; \<open>OutOfBounds\<close> for a read past \<open>reg_names\<close> and a shift past the word.\<close>

definition seqs :: "text_result \<Rightarrow> text_result \<Rightarrow> text_result" where
  "seqs a b = (case a of Inl e \<Rightarrow> Inl e | Inr s \<Rightarrow> (case b of Inl e \<Rightarrow> Inl e | Inr t \<Rightarrow> Inr (s @ t)))"

lemma seqs_simps [simp]:
  "seqs (Inl e) b = Inl e" "seqs (Inr s) (Inl e) = Inl e" "seqs (Inr s) (Inr t) = Inr (s @ t)"
  by (simp_all add: seqs_def)

lemma seqs_Inr: "seqs a b = Inr u \<longleftrightarrow> (\<exists>s t. a = Inr s \<and> b = Inr t \<and> u = s @ t)"
  by (auto simp: seqs_def split: sum.splits)

definition reg_name :: "nat \<Rightarrow> text_result" where
  "reg_name r = (if r < length reg_names then Inr (reg_names ! r) else Inl OutOfBounds)"

section \<open>Symbols and constants\<close>

text \<open>\<open>LOCAL_LABEL_PREFIX\<close> is a dollar sign; a generated label starts with a star, which
  \<open>assemble_name\<close> removes.\<close>

definition ASM_GENERATE_INTERNAL_LABEL :: "string \<Rightarrow> nat \<Rightarrow> string" where
  "ASM_GENERATE_INTERNAL_LABEL prefix num = ''*'' @ ''$'' @ prefix @ dec (int num)"

definition assemble_name_raw :: "cc_env \<Rightarrow> string \<Rightarrow> string" where
  "assemble_name_raw env name =
    (if name \<noteq> [] \<and> hd name = CHR ''*'' then tl name else user_label_prefix env @ name)"

definition print_hwi_hex :: "int \<Rightarrow> string" where
  "print_hwi_hex v = ''0x'' @ hex (nat (to_unsigned v))"

text \<open>The cases of \<open>output_addr_const\<close> for the expressions the back end hands to it:
  symbols, labels, integers, \<open>CONST\<close> and sums. An extension or subreg prints its operand.\<close>

fun output_addr_const :: "cc_env \<Rightarrow> rtx \<Rightarrow> text_result" where
  "output_addr_const env Pc = Inr ''.''"
| "output_addr_const env (SymbolRef s) = Inr (assemble_name_raw env (sym_name s))"
| "output_addr_const env (LabelRef l) =
     Inr (assemble_name_raw env (ASM_GENERATE_INTERNAL_LABEL ''L'' l))"
| "output_addr_const env (CodeLabel l) =
     Inr (assemble_name_raw env (ASM_GENERATE_INTERNAL_LABEL ''L'' l))"
| "output_addr_const env (ConstInt i) = Inr (dec i)"
| "output_addr_const env (Const x) = output_addr_const env x"
| "output_addr_const env (ConstDouble m v) =
     (case v of
        CInt h l \<Rightarrow>
          if m \<noteq> VOIDmode then Inl (ErrorMsg ''floating constant misused'')
          else if h \<noteq> 0 then
            Inr (''0x'' @ hex (nat (to_unsigned h)) @ zero_pad 8 (hex (nat (to_unsigned l))))
          else if l < 0 then Inr (print_hwi_hex l)
          else Inr (dec l)
      | _ \<Rightarrow> Inl (ErrorMsg ''floating constant misused''))"
| "output_addr_const env (Binary op m a b) =
     (if op = PLUS then
        (case a of
           ConstInt i \<Rightarrow>
             seqs (output_addr_const env b)
               (seqs (Inr (if i \<ge> 0 then ''+'' else [])) (output_addr_const env a))
         | _ \<Rightarrow>
             seqs (output_addr_const env a)
               (seqs (Inr (case b of ConstInt i \<Rightarrow> if i \<ge> 0 then ''+'' else [] | _ \<Rightarrow> ''+''))
                  (output_addr_const env b)))
      else Inl (ErrorMsg ''invalid expression as operand''))"
| "output_addr_const env (Unary op m x) =
     (if op \<in> {ZERO_EXTEND, SIGN_EXTEND} then output_addr_const env x
      else Inl (ErrorMsg ''invalid expression as operand''))"
| "output_addr_const env (Subreg m x b) = output_addr_const env x"
| "output_addr_const env _ = Inl (ErrorMsg ''invalid expression as operand'')"

section \<open>Addresses\<close>

text \<open>\<open>REGNO\<close> of an address component; the classification only ever puts registers there
  when it is strict.\<close>

definition reg_text :: "rtx option \<Rightarrow> text_result" where
  "reg_text x = (case x of Some (Reg m r) \<Rightarrow> reg_name r | _ \<Rightarrow> Inl OutOfBounds)"

definition is_r0 :: "rtx option \<Rightarrow> bool" where
  "is_r0 x = (case x of Some (Reg m r) \<Rightarrow> r = 0 | _ \<Rightarrow> False)"

definition const_text :: "cc_env \<Rightarrow> rtx option \<Rightarrow> text_result" where
  "const_text env x = (case x of Some y \<Rightarrow> output_addr_const env y | None \<Rightarrow> Inl OutOfBounds)"

definition print_operand_address :: "cc_env \<Rightarrow> rtx \<Rightarrow> text_result" where
  "print_operand_address env addr =
    (case microblaze_classify_address env addr (GET_MODE addr) True of
       (ok, info) \<Rightarrow>
         if \<not> ok then Inl (FatalInsn ''insn contains an invalid address !'')
         else
           (case addr_type info of
              ADDRESS_REG \<Rightarrow>
                seqs (seqs (reg_text (regA info)) (Inr '','')) (const_text env (addr_offset info))
            | ADDRESS_REG_INDEX \<Rightarrow>
                if is_r0 (regA info) then
                  seqs (seqs (reg_text (regB info)) (Inr '','')) (reg_text (regA info))
                else if \<not> is_r0 (regB info) then
                  seqs (seqs (reg_text (regB info)) (Inr '','')) (reg_text (regA info))
                else Inr []
            | ADDRESS_CONST_INT \<Rightarrow>
                seqs (seqs (reg_text (regA info)) (Inr '','')) (const_text env (addr_offset info))
            | ADDRESS_INVALID \<Rightarrow> Inl (FatalInsn ''invalid address'')
            | _ \<Rightarrow>
                seqs
                  (if regA info \<noteq> None then seqs (reg_text (regA info)) (Inr '','') else Inr [])
                  (seqs (const_text env (addr_symbol info))
                     (Inr (if addr_type info = ADDRESS_GOTOFF then ''@GOT''
                           else if addr_type info = ADDRESS_PLT then ''@PLT'' else [])))))"

section \<open>Operands\<close>

text \<open>The punctuation characters that \<open>override_options\<close> marks valid in
  \<open>microblaze_print_operand_punct\<close>; \<open>filled\<close> says that a delay slot is being filled
  (\<open>final_sequence\<close> is not null).\<close>

definition microblaze_print_operand_punct :: "char \<Rightarrow> bool" where
  "microblaze_print_operand_punct c \<longleftrightarrow> c \<in> set ''?#&!*@.()[]<>{}^$+''"

definition print_punctuation :: "bool \<Rightarrow> char \<Rightarrow> text_result" where
  "print_punctuation filled letter =
    (if letter = CHR ''?'' then Inr (if filled then ''d'' else [])
     else if letter = CHR ''#'' then
       Inr (if filled then [] else ''nop'' @ [CHR 0x09, CHR 0x09] @ ''# Unfilled delay slot'' @ [CHR 0x0A])
     else if letter = CHR ''@'' then reg_name (GP_REG_FIRST + MB_ABI_ASM_TEMP_REGNUM)
     else Inl (ErrorMsg ''PRINT_OPERAND: Unknown punctuation''))"

definition cond_text :: "rtx_code \<Rightarrow> text_result" where
  "cond_text code =
    (case code of
       EQ \<Rightarrow> Inr ''eq''
     | NE \<Rightarrow> Inr ''ne''
     | GT \<Rightarrow> Inr ''gt''
     | GE \<Rightarrow> Inr ''ge''
     | LT \<Rightarrow> Inr ''lt''
     | LE \<Rightarrow> Inr ''le''
     | GTU \<Rightarrow> Inr ''gtu''
     | GEU \<Rightarrow> Inr ''geu''
     | LTU \<Rightarrow> Inr ''ltu''
     | LEU \<Rightarrow> Inr ''leu''
     | _ \<Rightarrow> Inl (FatalInsn ''PRINT_OPERAND, invalid insn for %C''))"

definition inv_cond_text :: "rtx_code \<Rightarrow> text_result" where
  "inv_cond_text code =
    (case code of
       EQ \<Rightarrow> Inr ''ne''
     | NE \<Rightarrow> Inr ''eq''
     | GT \<Rightarrow> Inr ''le''
     | GE \<Rightarrow> Inr ''lt''
     | LT \<Rightarrow> Inr ''ge''
     | LE \<Rightarrow> Inr ''gt''
     | GTU \<Rightarrow> Inr ''leu''
     | GEU \<Rightarrow> Inr ''ltu''
     | LTU \<Rightarrow> Inr ''geu''
     | LEU \<Rightarrow> Inr ''gtu''
     | _ \<Rightarrow> Inl (FatalInsn ''PRINT_OPERAND, invalid insn for %N''))"

text \<open>\<open>true_regnum\<close> of \<open>gcc/jump.c\<close>. Where a subreg starts within its register
  (\<open>subreg_regno_offset\<close>, \<open>None\<close> when it is not representable) is a parameter.\<close>

fun true_regnum :: "cc_env \<Rightarrow> (rtx \<Rightarrow> int option) \<Rightarrow> rtx \<Rightarrow> int" where
  "true_regnum env subreg_regno_offset (Reg m r) =
     (if r \<ge> FIRST_PSEUDO_REGISTER \<and> reg_renumber env r \<ge> 0 then reg_renumber env r else int r)"
| "true_regnum env subreg_regno_offset (Subreg m x b) =
     (let base = true_regnum env subreg_regno_offset x in
      if base \<ge> 0 \<and> base < int FIRST_PSEUDO_REGISTER then
        (case subreg_regno_offset (Subreg m x b) of None \<Rightarrow> -1 | Some k \<Rightarrow> base + k)
      else -1)"
| "true_regnum env subreg_regno_offset _ = -1"

text \<open>A register operand: \<open>WORDS_BIG_ENDIAN\<close> is 1, so the low word is the second
  register.\<close>

definition print_register :: "int \<Rightarrow> char \<Rightarrow> text_result" where
  "print_register regnum letter =
    (let regnum = (if letter = CHR ''L'' \<or> letter = CHR ''D'' then regnum + 1 else regnum)
     in if regnum < 0 then Inl OutOfBounds else reg_name (nat regnum))"

definition print_immediate_flag :: "cc_env \<Rightarrow> rtx \<Rightarrow> text_result" where
  "print_immediate_flag env op =
    (case op of
       Mem m a \<Rightarrow>
         (case microblaze_classify_address env a m True of
            (ok, info) \<Rightarrow>
              if \<not> ok then Inl (FatalInsn ''insn contains an invalid address !'')
              else
                (case addr_type info of
                   ADDRESS_REG_INDEX \<Rightarrow> Inr []
                 | ADDRESS_INVALID \<Rightarrow> Inl (FatalInsn ''Invalid address'')
                 | ADDRESS_PLT \<Rightarrow> Inl (FatalInsn ''Invalid address'')
                 | _ \<Rightarrow> Inr ''i''))
     | _ \<Rightarrow> Inr [])"

definition print_const_double :: "machine_mode \<Rightarrow> const_value \<Rightarrow> char \<Rightarrow> text_result" where
  "print_const_double mode v letter =
    (let word_text = (\<lambda>w. Inr (''0x'' @ zero_pad 8 (hex w)))
     in if letter = CHR ''h'' \<or> letter = CHR ''j'' then
          (case v of
             CDouble w0 w1 \<Rightarrow>
               if mode = DFmode then word_text (unat (if letter = CHR ''h'' then w0 else w1))
               else Inl RealText
           | CInt h l \<Rightarrow> word_text (nat (to_unsigned (if letter = CHR ''h'' then h else l)))
           | CSingle w \<Rightarrow> Inl RealText)
        else if letter = CHR ''F'' then
          (case v of CSingle w \<Rightarrow> Inr (''0x'' @ hex (unat w)) | _ \<Rightarrow> Inl RealText)
        else Inl RealText)"

text \<open>The chain of letters for the remaining operands, in the order of the code.\<close>

definition print_by_letter :: "cc_env \<Rightarrow> rtx \<Rightarrow> char \<Rightarrow> text_result" where
  "print_by_letter env op letter =
    (if letter = CHR ''x'' \<and> GET_CODE op = CONST_INT then Inr (print_hwi_hex (0xffff AND INTVAL op))
     else if letter = CHR ''X'' \<and> GET_CODE op = CONST_INT then Inr (print_hwi_hex (INTVAL op))
     else if letter = CHR ''d'' \<and> GET_CODE op = CONST_INT then Inr (dec (INTVAL op))
     else if letter = CHR ''z'' \<and> GET_CODE op = CONST_INT \<and> INTVAL op = 0 then reg_name GP_REG_FIRST
     else if letter = CHR ''s'' \<and> GET_CODE op = CONST_INT then
       Inr (if INTVAL op < 0 then ''-1'' else ''0'')
     else if letter \<in> {CHR ''d'', CHR ''x'', CHR ''X'', CHR ''s''} then
       Inl (ErrorMsg ''PRINT_OPERAND: letter was found & insn was not CONST_INT'')
     else if letter = CHR ''B'' then Inr (if GET_CODE op = EQ then ''z'' else ''n'')
     else if letter = CHR ''b'' then Inr (if GET_CODE op = EQ then ''n'' else ''z'')
     else if letter = CHR ''T'' then Inr (if GET_CODE op = EQ then ''f'' else ''t'')
     else if letter = CHR ''t'' then Inr (if GET_CODE op = EQ then ''t'' else ''f'')
     else
       (case op of
          Const (Reg m r) \<Rightarrow> print_register (int r) letter
        | _ \<Rightarrow>
            if letter = CHR ''m'' then
              (if GET_CODE op = CONST_INT \<and> 0 \<le> INTVAL op
                  \<and> INTVAL op < int HOST_BITS_PER_WIDE_INT
               then Inr (dec (hwi (push_bit (nat (INTVAL op)) 1)))
               else Inl OutOfBounds)
            else output_addr_const env op))"

definition print_operand ::
  "cc_env \<Rightarrow> (rtx \<Rightarrow> int option) \<Rightarrow> bool \<Rightarrow> rtx option \<Rightarrow> char \<Rightarrow> text_result" where
  "print_operand env subreg_regno_offset filled op letter =
    (if microblaze_print_operand_punct letter then print_punctuation filled letter
     else
       (case op of
          None \<Rightarrow> Inl (ErrorMsg ''PRINT_OPERAND null pointer'')
        | Some op \<Rightarrow>
            let op = (case op of Unary c m x \<Rightarrow> if c = SIGN_EXTEND then x else op | _ \<Rightarrow> op);
                code = GET_CODE op
            in if letter = CHR ''C'' then cond_text code
               else if letter = CHR ''N'' then inv_cond_text code
               else if letter = CHR ''S'' then
                 (case op of
                    CodeLabel l \<Rightarrow>
                      Inr (assemble_name_raw env (ASM_GENERATE_INTERNAL_LABEL ''LS'' l))
                  | _ \<Rightarrow> Inl Abort)
               else if letter = CHR ''Z'' then
                 (case op of
                    Reg m r \<Rightarrow>
                      if \<not> ST_REG_P (int r) then Inl Abort
                      else if r \<noteq> ST_REG_FIRST then seqs (reg_name r) (Inr '','')
                      else Inr []
                  | _ \<Rightarrow> Inl Abort)
               else if letter = CHR ''i'' then print_immediate_flag env op
               else
                 (case op of
                    Reg m r \<Rightarrow> print_register (int r) letter
                  | Subreg m x b \<Rightarrow>
                      print_register (true_regnum env subreg_regno_offset op) letter
                  | Mem m a \<Rightarrow>
                      print_operand_address env (if letter = CHR ''o'' then plus_constant a 4 else a)
                  | ConstDouble m v \<Rightarrow> print_const_double m v letter
                  | Unspec m xs n \<Rightarrow> print_operand_address env op
                  | _ \<Rightarrow> print_by_letter env op letter)))"


section \<open>Reading an address operand back\<close>

text \<open>What the assembler makes of an address operand: a base register, a comma, and a
  register or an integer. Register \<open>r0\<close> reads as zero.\<close>

definition reg_index :: "string \<Rightarrow> nat option" where
  "reg_index t = map_of (zip reg_names [0 ..< length reg_names]) t"

definition asm_address :: "mstate \<Rightarrow> string \<Rightarrow> 32 word option" where
  "asm_address s t =
    (let base = takeWhile (\<lambda>c. c \<noteq> CHR '','') t;
         rest = tl (dropWhile (\<lambda>c. c \<noteq> CHR '','') t)
     in case reg_index base of
          None \<Rightarrow> None
        | Some r \<Rightarrow>
            (case reg_index rest of
               Some q \<Rightarrow> Some (regs s r + regs s q)
             | None \<Rightarrow> Some (regs s r + word_of_int (undec rest))))"

lemma length_reg_names [simp]: "length reg_names = 46"
  by (simp add: reg_names_def)

lemma distinct_reg_names: "distinct reg_names"
  by (simp add: reg_names_def)

lemma reg_names_heads: "n \<in> set reg_names \<Longrightarrow>
    n \<noteq> [] \<and> hd n \<in> {CHR ''r'', CHR ''h'', CHR ''l'', CHR ''a'', CHR ''$''} \<and> CHR '','' \<notin> set n"
  by (auto simp: reg_names_def)

lemma reg_name_Inr: "reg_name r = Inr t \<longleftrightarrow> r < 46 \<and> t = reg_names ! r"
  by (auto simp: reg_name_def)

lemma reg_index_name [simp]: "r < 46 \<Longrightarrow> reg_index (reg_names ! r) = Some r"
  using map_of_zip_nth [of reg_names "[0 ..< 46]" r] distinct_reg_names by (simp add: reg_index_def)

lemma hd_dec: "hd (dec i) = CHR ''-'' \<or> (\<exists>d < 10. hd (dec i) = digit_char d)"
proof -
  have "hd (digits 10 n) \<in> digit_char ` {..< 10}" for n
    using set_digits [of 10 n] hd_in_set [OF digits_nonempty [of 10 n]] by auto
  then show ?thesis by (auto simp: dec_def)
qed

lemma digit_char_cases: "d < 10 \<Longrightarrow>
    digit_char d \<notin> {CHR ''r'', CHR ''h'', CHR ''l'', CHR ''a'', CHR ''$''}"
proof
  assume "d < 10" "digit_char d \<in> {CHR ''r'', CHR ''h'', CHR ''l'', CHR ''a'', CHR ''$''}"
  then have "(of_char (digit_char d) :: nat) \<in> {114, 104, 108, 97, 36}" by auto
  with \<open>d < 10\<close> show False by (simp add: digit_char_def of_char_of)
qed

lemma reg_index_dec [simp]: "reg_index (dec i) = None"
proof -
  have "dec i \<notin> set reg_names"
  proof
    assume "dec i \<in> set reg_names"
    then have r: "hd (dec i) \<in> {CHR ''r'', CHR ''h'', CHR ''l'', CHR ''a'', CHR ''$''}"
      using reg_names_heads by blast
    then have "hd (dec i) \<noteq> CHR ''-''" by auto
    with hd_dec [of i] obtain d where "d < 10" "hd (dec i) = digit_char d" by blast
    with digit_char_cases [of d] r show False by (simp only:)
  qed
  then show ?thesis
    by (simp add: reg_index_def map_of_zip_is_None)
qed

lemma asm_address_text:
  assumes "r < 46"
  shows "asm_address s (reg_names ! r @ CHR '','' # rest) =
    (case reg_index rest of Some q \<Rightarrow> Some (regs s r + regs s q)
     | None \<Rightarrow> Some (regs s r + word_of_int (undec rest)))"
proof -
  have "CHR '','' \<notin> set (reg_names ! r)" using assms reg_names_heads by (metis length_reg_names nth_mem)
  then have "\<forall>c \<in> set (reg_names ! r). c \<noteq> CHR '',''" by blast
  with assms show ?thesis
    by (simp add: asm_address_def Let_def takeWhile_append2 dropWhile_append2)
qed

text \<open>The forms of address the target loads and stores through.\<close>

fun hw_address :: "rtx \<Rightarrow> bool" where
  "hw_address (Reg m r) = True"
| "hw_address (ConstInt i) = True"
| "hw_address (Binary c m (Reg n r) y) = (c = PLUS \<and> (case y of ConstInt i \<Rightarrow> True | Reg k q \<Rightarrow> True | _ \<Rightarrow> False))"
| "hw_address _ = False"

lemma print_address_Reg:
  "print_operand_address env (Reg m r) = Inr t \<Longrightarrow> r < 46 \<and> t = reg_names ! r @ '','' @ dec 0"
  by (auto simp: print_operand_address_def microblaze_classify_address_def Let_def seqs_Inr
      reg_text_def reg_name_Inr const_text_def no_address_info_def split: if_splits)

lemma print_address_ConstInt:
  "print_operand_address env (ConstInt i) = Inr t \<Longrightarrow> t = reg_names ! 0 @ '','' @ dec i"
  by (auto simp: print_operand_address_def microblaze_classify_address_def Let_def seqs_Inr
      reg_text_def reg_name_Inr const_text_def no_address_info_def)

lemma print_address_offset:
  "print_operand_address env (Binary PLUS m (Reg n r) (ConstInt i)) = Inr t \<Longrightarrow>
     r < 46 \<and> t = reg_names ! r @ '','' @ dec i"
  by (auto simp: print_operand_address_def microblaze_classify_address_def Let_def seqs_Inr
      classify_plus_def reg_text_def reg_name_Inr const_text_def no_address_info_def split: if_splits)

lemma print_address_index:
  "print_operand_address env (Binary PLUS m (Reg n r) (Reg k q)) = Inr t \<Longrightarrow>
     (if r = 0 \<or> q \<noteq> 0 then r < 46 \<and> q < 46 \<and> t = reg_names ! q @ '','' @ reg_names ! r
      else t = [])"
  by (auto simp: print_operand_address_def microblaze_classify_address_def Let_def seqs_Inr
      classify_plus_def reg_text_def reg_name_Inr is_r0_def no_address_info_def split: if_splits)

lemmas print_address_cases =
  print_address_Reg print_address_ConstInt print_address_offset print_address_index

section \<open>Properties\<close>

text \<open>C3. An address operand that \<open>print_operand_address\<close> writes denotes, when the
  assembler reads it back, the location of the expression it was printed from: for a
  register, a constant, a register with an offset and a sum of two registers, with the
  swap of the two registers included.\<close>

theorem print_operand_address_denotes:
  assumes "hw_address a" "print_operand_address env a = Inr t" "t \<noteq> []" "regs s 0 = 0"
  shows "asm_address s t = rtl_val s a"
  using assms
proof (cases a rule: hw_address.cases)
  case (3 c m n r y)
  with assms show ?thesis
    by (cases y) (auto dest!: print_address_cases simp: asm_address_text add.commute split: if_splits)
qed (use assms in \<open>auto dest!: print_address_cases simp: asm_address_text\<close>)

theorem print_operand_address_denotes_witness:
  "asm_address \<lparr>regs = (\<lambda>r. if r = 0 then 0 else 100), mem = (\<lambda>_. 0), got_base = 0\<rparr> ''r5,-8'' = Some 92"
proof -
  have p: "print_operand_address default_env (Plus (Reg SImode 5) (ConstInt (-8))) = Inr ''r5,-8''"
    by (simp add: print_operand_address_def microblaze_classify_address_def classify_plus_def
        microblaze_valid_base_register_p_def reg_ok_def microblaze_regno_ok_for_base_p_def
        GP_REG_P_def to_unsigned_def no_address_info_def reg_text_def reg_name_def reg_names_def
        const_text_def dec_def digits.simps)
  show ?thesis
    using print_operand_address_denotes [OF _ p, of "\<lparr>regs = (\<lambda>r. if r = 0 then 0 else 100), mem = (\<lambda>_. 0), got_base = 0\<rparr>"]
    by simp
qed

text \<open>C18. The exception to the previous property: a sum of two general registers is a legitimate address of every
  value of at most one word, and \<open>print_operand_address\<close> writes the second register, a comma and the first; but where the second
  is \<open>r0\<close> and the first is not, it writes nothing, although the comment above the function promises two registers.\<close>

theorem print_operand_address_r0_index:
  assumes "r < 32" "q < 32" "GET_MODE_SIZE m \<le> UNITS_PER_WORD"
  shows "microblaze_legitimate_address_p env m (Binary PLUS m (Reg m1 r) (Reg m2 q)) True
   \<and> print_operand_address env (Binary PLUS m (Reg m1 r) (Reg m2 q))
      = Inr (if q = 0 \<and> r \<noteq> 0 then [] else reg_names ! q @ '','' @ reg_names ! r)"
proof -
  have ok: "microblaze_regno_ok_for_base_p env (int n) True" if "n < 32" for n
    using that by (simp add: microblaze_regno_ok_for_base_p_def GP_REG_P_def to_unsigned_small)
  have a: "microblaze_classify_address env (Binary PLUS m (Reg m1 r) (Reg m2 q)) m True =
      (True, no_address_info\<lparr>addr_type := ADDRESS_REG_INDEX, regA := Some (Reg m1 r), regB := Some (Reg m2 q)\<rparr>)"
    using assms(3) ok [OF assms(1)] ok [OF assms(2)]
    by (simp add: microblaze_classify_address_def classify_plus_def microblaze_valid_base_register_p_def
        microblaze_valid_index_register_p_def reg_ok_def no_address_info_def)
  have n: "reg_text (Some (Reg m3 n)) = Inr (reg_names ! n)" if "n < 32" for n m3
    using that by (simp add: reg_text_def reg_name_def)
  show ?thesis
    using a n [OF assms(1)] n [OF assms(2)] n [of 0]
    by (simp add: print_operand_address_def microblaze_legitimate_address_p_def no_address_info_def is_r0_def)
qed

lemma print_operand_address_r0_index_witness:
  "print_operand_address default_env (Plus (Reg SImode 5) (Reg SImode 0)) = Inr []
    \<and> print_operand_address default_env (Plus (Reg SImode 5) (Reg SImode 6)) = Inr ''r6,r5''"
  using print_operand_address_r0_index [of 5 0 SImode default_env SImode SImode]
    print_operand_address_r0_index [of 5 6 SImode default_env SImode SImode]
  by (simp add: reg_names_def)

text \<open>The meaning of a comparison code on word values.\<close>

fun cond_holds :: "rtx_code \<Rightarrow> 32 word \<Rightarrow> 32 word \<Rightarrow> bool" where
  "cond_holds c a b =
    (case c of
       EQ \<Rightarrow> a = b | NE \<Rightarrow> a \<noteq> b
     | GT \<Rightarrow> sint a > sint b | GE \<Rightarrow> sint a \<ge> sint b
     | LT \<Rightarrow> sint a < sint b | LE \<Rightarrow> sint a \<le> sint b
     | GTU \<Rightarrow> a > b | GEU \<Rightarrow> a \<ge> b | LTU \<Rightarrow> a < b | LEU \<Rightarrow> a \<le> b
     | _ \<Rightarrow> False)"

text \<open>The letter \<open>N\<close> prints the opposite of what \<open>C\<close> prints: wherever \<open>C\<close> accepts a
  comparison code, \<open>N\<close> prints the suffix of a code that holds for exactly the operands for
  which the original does not; the two letters reject the same codes.\<close>

theorem inverted_condition:
  "(case cond_text code of
      Inl e \<Rightarrow> \<exists>e'. inv_cond_text code = Inl e'
    | Inr t \<Rightarrow> \<exists>code'. inv_cond_text code = cond_text code' \<and> inv_cond_text code' = Inr t
        \<and> (\<forall>a b. cond_holds code' a b \<longleftrightarrow> \<not> cond_holds code a b))"
proof (cases code)
  case EQ then show ?thesis by (auto simp: cond_text_def inv_cond_text_def intro!: exI [of _ NE])
next
  case NE then show ?thesis by (auto simp: cond_text_def inv_cond_text_def intro!: exI [of _ EQ])
next
  case GT then show ?thesis by (auto simp: cond_text_def inv_cond_text_def intro!: exI [of _ LE])
next
  case GE then show ?thesis by (auto simp: cond_text_def inv_cond_text_def intro!: exI [of _ LT])
next
  case LT then show ?thesis by (auto simp: cond_text_def inv_cond_text_def intro!: exI [of _ GE])
next
  case LE then show ?thesis by (auto simp: cond_text_def inv_cond_text_def intro!: exI [of _ GT])
next
  case GTU then show ?thesis by (auto simp: cond_text_def inv_cond_text_def intro!: exI [of _ LEU])
next
  case GEU then show ?thesis by (auto simp: cond_text_def inv_cond_text_def intro!: exI [of _ LTU])
next
  case LTU then show ?thesis by (auto simp: cond_text_def inv_cond_text_def intro!: exI [of _ GEU])
next
  case LEU then show ?thesis by (auto simp: cond_text_def inv_cond_text_def intro!: exI [of _ GTU])
qed (simp_all add: cond_text_def inv_cond_text_def)

end
