(* ===== verification/Options.thy ===== *)
theory Options
  imports AsmOut
begin

text \<open>
  Option processing, \<open>gcc/config/microblaze/microblaze.c\<close>: the \<open>-mcpu\<close> version
  (\<open>microblaze_version_to_int\<close>, \<open>microblaze_version_compare\<close>), \<open>microblaze_handle_option\<close>,
  and \<open>override_options\<close> with the tables it builds for the other parts of the back end.
  The limits of floating constants it computes with \<open>real_maxval\<close> (\<open>gcc/real.c\<close>) are not
  modelled.
\<close>

section \<open>Versions\<close>

text \<open>The loop of \<open>microblaze_version_to_int\<close> over the template and the version; a version that
  ends early presents its terminating zero, which no template character accepts.\<close>

definition c_digit :: "char \<Rightarrow> bool" where
  "c_digit c \<longleftrightarrow> (of_char c :: nat) \<ge> of_char (CHR ''0'') \<and> (of_char c :: nat) \<le> of_char (CHR ''9'')"

definition c_lower :: "char \<Rightarrow> bool" where
  "c_lower c \<longleftrightarrow> (of_char c :: nat) \<ge> of_char (CHR ''a'') \<and> (of_char c :: nat) \<le> of_char (CHR ''z'')"

fun version_loop :: "string \<Rightarrow> string \<Rightarrow> int \<Rightarrow> int" where
  "version_loop [] p iver = (if p \<noteq> [] then -1 else iver)"
| "version_loop (v # vs) [] iver = -1"
| "version_loop (v # vs) (p # ps) iver =
    (if v = CHR ''X'' then
       (if \<not> c_digit p then -1
        else version_loop vs ps ((iver + (of_char p - of_char (CHR ''0''))) * 10))
     else if v = CHR ''Y'' then
       (if \<not> c_digit p then -1
        else version_loop vs ps ((iver + (of_char p - of_char (CHR ''0''))) * 10))
     else if v = CHR ''Z'' then
       (if \<not> c_lower p then -1
        else version_loop vs ps (iver * 10 + (of_char p - of_char (CHR ''a''))))
     else if p \<noteq> v then -1
     else version_loop vs ps iver)"

definition microblaze_version_to_int :: "string \<Rightarrow> int" where
  "microblaze_version_to_int version = version_loop ''vX.YY.Z'' version 0"

definition microblaze_version_compare :: "string \<Rightarrow> string \<Rightarrow> int" where
  "microblaze_version_compare va vb = strcasecmp va vb"

section \<open>Options\<close>

datatype pipeline_type = MICROBLAZE_PIPE_3 | MICROBLAZE_PIPE_5

text \<open>The switches, the variables \<open>override_options\<close> sets, and the messages it gives.\<close>

record options =
  g_switch_set :: bool
  g_switch_value :: int
  opt_select_cpu :: "string option"
  flag_zero_initialized_in_bss :: bool
  multiply_high :: bool
  soft_mul :: bool
  pattern_compare :: bool
  section_threshold :: int
  select_flags :: "32 word"
  no_unsafe_delay :: bool
  microblaze_pipe :: pipeline_type
  sched_use_dfa :: bool
  abicalls :: bool
  opt_messages :: "string list"
  print_operand_punct :: "char \<Rightarrow> bool"
  char_to_class :: "char \<Rightarrow> reg_class"
  dbx_regno :: "int list"
  gpr_mode :: machine_mode
  hard_regno_mode_ok :: "(machine_mode \<times> nat) \<Rightarrow> bool"
  reg_alloc_order :: "nat list"

definition microblaze_handle_option :: "bool \<Rightarrow> options \<Rightarrow> bool \<times> options" where
  "microblaze_handle_option is_mno_clearbss opt =
     (True, if is_mno_clearbss then opt\<lparr>flag_zero_initialized_in_bss := False\<rparr> else opt)"

definition MICROBLAZE_DEFAULT_GVALUE :: int where "MICROBLAZE_DEFAULT_GVALUE = 8"
definition MICROBLAZE_DEFAULT_CPU :: string where "MICROBLAZE_DEFAULT_CPU = ''v4.00.a''"
definition MICROBLAZE_MASK_NO_UNSAFE_DELAY :: "32 word" where "MICROBLAZE_MASK_NO_UNSAFE_DELAY = 1"

definition report :: "string \<Rightarrow> options \<Rightarrow> options" where
  "report msg opt = opt\<lparr>opt_messages := opt_messages opt @ [msg]\<rparr>"

text \<open>The processor: its validity, the pipeline, and the consequences for other switches.\<close>

definition select_pipe :: "string \<Rightarrow> options \<Rightarrow> options" where
  "select_pipe cpu opt =
    (let ver = microblaze_version_compare cpu ''v3.00.a''
     in if ver < 0 then
          opt\<lparr>select_flags := select_flags opt AND NOT MICROBLAZE_MASK_NO_UNSAFE_DELAY,
            no_unsafe_delay := False, microblaze_pipe := MICROBLAZE_PIPE_3\<rparr>
        else if ver = 0 \<or> microblaze_version_compare cpu ''v4.00.b'' = 0 then
          opt\<lparr>select_flags := select_flags opt OR MICROBLAZE_MASK_NO_UNSAFE_DELAY,
            no_unsafe_delay := True, microblaze_pipe := MICROBLAZE_PIPE_3\<rparr>
        else
          let opt = opt\<lparr>select_flags := select_flags opt AND NOT MICROBLAZE_MASK_NO_UNSAFE_DELAY,
                    no_unsafe_delay := False, microblaze_pipe := MICROBLAZE_PIPE_5\<rparr>
          in if microblaze_version_compare cpu ''v5.00.a'' = 0
                \<or> microblaze_version_compare cpu ''v5.00.b'' = 0
                \<or> microblaze_version_compare cpu ''v5.00.c'' = 0
             then opt\<lparr>pattern_compare := True\<rparr> else opt)"

definition check_multiply :: "string \<Rightarrow> options \<Rightarrow> options" where
  "check_multiply cpu opt =
    (let opt = (if microblaze_version_compare cpu ''v6.00.a'' < 0 \<and> multiply_high opt
              then report ''-mxl-multiply-high can be used only with -mcpu=v6.00.a or greater'' opt else opt)
     in if multiply_high opt \<and> soft_mul opt
        then report ''-mxl-multiply-high requires -mno-xl-soft-mul'' opt else opt)"

definition override_cpu :: "options \<Rightarrow> options" where
  "override_cpu opt =
    (let opt = opt\<lparr>section_threshold := (if g_switch_set opt then g_switch_value opt else MICROBLAZE_DEFAULT_GVALUE)\<rparr>;
         cpu = (case opt_select_cpu opt of None \<Rightarrow> MICROBLAZE_DEFAULT_CPU | Some c \<Rightarrow> c);
         opt = opt\<lparr>opt_select_cpu := Some cpu\<rparr>;
         opt = (if microblaze_version_to_int cpu = -1
              then report (''('' @ cpu @ '') is an invalid argument to -mcpu='') opt else opt)
     in check_multiply cpu (select_pipe cpu opt))"

section \<open>The tables\<close>

definition mark_punct :: "(char \<Rightarrow> bool) \<Rightarrow> char \<Rightarrow> bool" where
  "mark_punct t = fold (\<lambda>c t. t(c := True)) ''?#&!*@.()[]<>{}^$+'' t"

text \<open>\<open>microblaze_char_to_class\<close> starts out as \<open>NO_REGS\<close> for all 256 characters.\<close>

definition initial_char_to_class :: "char \<Rightarrow> reg_class" where
  "initial_char_to_class c = replicate 256 NO_REGS ! of_char c"

definition set_char_to_class :: "(char \<Rightarrow> reg_class) \<Rightarrow> char \<Rightarrow> reg_class" where
  "set_char_to_class t =
     t(CHR ''d'' := GR_REGS, CHR ''f'' := NO_REGS, CHR ''h'' := HI_REG, CHR ''l'' := LO_REG,
       CHR ''a'' := HILO_REG, CHR ''x'' := MD_REGS, CHR ''b'' := ALL_REGS, CHR ''y'' := GR_REGS,
       CHR ''z'' := ST_REGS)"

definition GP_DBX_FIRST :: int where "GP_DBX_FIRST = 0"

definition set_dbx_regno :: "int list" where
  "set_dbx_regno =
    (let t = replicate FIRST_PSEUDO_REGISTER (-1);
         start = GP_DBX_FIRST - int GP_REG_FIRST
     in fold (\<lambda>i t. t[i := int i + start]) [GP_REG_FIRST..<Suc GP_REG_LAST] t)"

definition regno_mode_ok :: "machine_mode \<times> nat \<Rightarrow> bool" where
  "regno_mode_ok mr =
    (case mr of (mode, regno) \<Rightarrow>
       let bytes = GET_MODE_SIZE mode
       in if mode = CCmode then ST_REG_P (int regno) \<or> GP_REG_P (int regno)
          else if GP_REG_P (int regno) then regno AND 1 = 0 \<or> bytes \<le> UNITS_PER_WORD
          else False)"

definition override_options :: "options \<Rightarrow> options" where
  "override_options opt =
    (let opt = override_cpu opt
     in opt\<lparr>sched_use_dfa := True, abicalls := False,
          print_operand_punct := mark_punct (print_operand_punct opt),
          char_to_class := set_char_to_class (char_to_class opt),
          dbx_regno := set_dbx_regno, gpr_mode := SImode,
          hard_regno_mode_ok := fold (\<lambda>mr t. t(mr := regno_mode_ok mr))
            (List.product all_modes [0..<FIRST_PSEUDO_REGISTER]) (hard_regno_mode_ok opt)\<rparr>)"

definition microblaze_order_regs_for_local_alloc :: "options \<Rightarrow> options" where
  "microblaze_order_regs_for_local_alloc opt =
     opt\<lparr>reg_alloc_order := fold (\<lambda>i t. t[i := i]) [0..<FIRST_PSEUDO_REGISTER]
         (reg_alloc_order opt)\<rparr>"

definition MODES_TIEABLE_P :: "machine_mode \<Rightarrow> machine_mode \<Rightarrow> bool" where
  "MODES_TIEABLE_P m1 m2 \<longleftrightarrow>
     (GET_MODE_CLASS m1 = MODE_FLOAT \<or> GET_MODE_CLASS m1 = MODE_COMPLEX_FLOAT)
     = (GET_MODE_CLASS m2 = MODE_FLOAT \<or> GET_MODE_CLASS m2 = MODE_COMPLEX_FLOAT)"

section \<open>Versions as numbers\<close>

lemma version_loop_valid:
  assumes "microblaze_version_to_int s \<noteq> -1"
  obtains x y1 y2 z where "s = [CHR ''v'', x, CHR ''.'', y1, y2, CHR ''.'', z]"
    "c_digit x" "c_digit y1" "c_digit y2" "c_lower z"
proof -
  have "\<exists>x y1 y2 z. s = [CHR ''v'', x, CHR ''.'', y1, y2, CHR ''.'', z]
    \<and> c_digit x \<and> c_digit y1 \<and> c_digit y2 \<and> c_lower z"
  proof (cases "length s = 7")
    case True
    then obtain a b c d e f g where "s = [a, b, c, d, e, f, g]"
      by (auto simp: numeral_eq_Suc length_Suc_conv)
    then show ?thesis using assms by (auto simp: microblaze_version_to_int_def split: if_splits)
  next
    case False
    have len: "version_loop v p n = -1" if "length p \<noteq> length v" for v p n
      using that by (induction v p n rule: version_loop.induct) auto
    then show ?thesis using assms False by (simp add: microblaze_version_to_int_def)
  qed
  then show ?thesis using that by blast
qed

definition version_number :: "char \<Rightarrow> char \<Rightarrow> char \<Rightarrow> char \<Rightarrow> int" where
  "version_number x y1 y2 z = (of_char x - 48) * 10000 + (of_char y1 - 48) * 1000
     + (of_char y2 - 48) * 100 + (of_char z - 97)"

lemma version_to_int_number:
  assumes "c_digit x" "c_digit y1" "c_digit y2" "c_lower z"
  shows "microblaze_version_to_int [CHR ''v'', x, CHR ''.'', y1, y2, CHR ''.'', z] = version_number x y1 y2 z"
  using assms by (simp add: microblaze_version_to_int_def version_number_def)

lemma tolower_digit: "c_digit c \<Longrightarrow> tolower c = of_char c"
  and tolower_lower: "c_lower c \<Longrightarrow> tolower c = of_char c"
  by (auto simp: tolower_def c_digit_def c_lower_def Let_def)

lemma int_of_char: "(of_char c :: int) = int (of_char c)"
  by (simp add: of_nat_of_char)

lemma strcasecmp_version:
  assumes "c_digit x" "c_digit y1" "c_digit y2" "c_lower z" "c_digit x'" "c_digit y1'" "c_digit y2'" "c_lower z'"
  defines "d \<equiv> \<lambda>a b. int (of_char a) - int (of_char b)"
  shows "strcasecmp [CHR ''v'', x, CHR ''.'', y1, y2, CHR ''.'', z] [CHR ''v'', x', CHR ''.'', y1', y2', CHR ''.'', z']
    = (if d x x' \<noteq> 0 then d x x' else if d y1 y1' \<noteq> 0 then d y1 y1'
       else if d y2 y2' \<noteq> 0 then d y2 y2' else d z z')"
  using assms(1-8) by (simp add: d_def tolower_digit tolower_lower)

lemma version_number_diff:
  assumes "c_digit x" "c_digit y1" "c_digit y2" "c_lower z" "c_digit x'" "c_digit y1'" "c_digit y2'" "c_lower z'"
  defines "d \<equiv> \<lambda>a b. int (of_char a) - int (of_char b)"
  shows "sgn (version_number x y1 y2 z - version_number x' y1' y2' z') =
     sgn (if d x x' \<noteq> 0 then d x x' else if d y1 y1' \<noteq> 0 then d y1 y1'
       else if d y2 y2' \<noteq> 0 then d y2 y2' else d z z')"
proof -
  have digit: "48 \<le> int (of_char c) \<and> int (of_char c) \<le> 57" if "c_digit c" for c
    using that by (simp add: c_digit_def)
  have lower: "97 \<le> int (of_char c) \<and> int (of_char c) \<le> 122" if "c_lower c" for c
    using that by (simp add: c_lower_def)
  have b: "- 9 \<le> d x x'" "d x x' \<le> 9" "- 9 \<le> d y1 y1'" "d y1 y1' \<le> 9" "- 9 \<le> d y2 y2'" "d y2 y2' \<le> 9"
    "- 25 \<le> d z z'" "d z z' \<le> 25"
    using digit [OF assms(1)] digit [OF assms(2)] digit [OF assms(3)] lower [OF assms(4)]
      digit [OF assms(5)] digit [OF assms(6)] digit [OF assms(7)] lower [OF assms(8)]
    by (simp_all add: d_def)
  have "version_number x y1 y2 z - version_number x' y1' y2' z' =
      d x x' * 10000 + d y1 y1' * 1000 + d y2 y2' * 100 + d z z'"
    by (simp add: version_number_def d_def int_of_char)
  moreover have "sgn (a * 10000 + b * 1000 + c * 100 + e) =
      sgn (if a \<noteq> 0 then a else if b \<noteq> 0 then b else if c \<noteq> 0 then c else e)"
    if "- 9 \<le> a" "a \<le> 9" "- 9 \<le> b" "b \<le> 9" "- 9 \<le> c" "c \<le> 9" "- 25 \<le> e" "e \<le> 25" for a b c e :: int
    using that by (auto simp: sgn_if)
  ultimately show ?thesis using b by metis
qed

text \<open>C13. On the processor versions the back end accepts, the string comparison it decides
  with is the order of the numbers \<open>microblaze_version_to_int\<close> encodes them as: it is negative,
  zero or positive exactly when the first version is older, the same or newer.\<close>

theorem version_compare_order:
  assumes "microblaze_version_to_int a \<noteq> -1" "microblaze_version_to_int b \<noteq> -1"
  shows "sgn (microblaze_version_compare a b) =
    sgn (microblaze_version_to_int a - microblaze_version_to_int b)"
proof -
  obtain x y1 y2 z where a: "a = [CHR ''v'', x, CHR ''.'', y1, y2, CHR ''.'', z]"
    and va: "c_digit x" "c_digit y1" "c_digit y2" "c_lower z"
    using version_loop_valid [OF assms(1)] .
  obtain x' y1' y2' z' where b: "b = [CHR ''v'', x', CHR ''.'', y1', y2', CHR ''.'', z']"
    and vb: "c_digit x'" "c_digit y1'" "c_digit y2'" "c_lower z'"
    using version_loop_valid [OF assms(2)] .
  show ?thesis
    unfolding microblaze_version_compare_def a b version_to_int_number [OF va] version_to_int_number [OF vb]
      strcasecmp_version [OF va vb] version_number_diff [OF va vb] ..
qed

lemma version_compare_order_witness:
  "sgn (microblaze_version_compare ''v4.00.b'' ''v5.00.a'') = -1"
  using version_compare_order [of "''v4.00.b''" "''v5.00.a''"]
  by (simp add: microblaze_version_to_int_def c_digit_def c_lower_def)

section \<open>The processor's consequences\<close>

lemma compare_known:
  assumes "microblaze_version_to_int a \<noteq> -1" "microblaze_version_to_int b = n" "n \<noteq> -1"
  shows "microblaze_version_compare a b < 0 \<longleftrightarrow> microblaze_version_to_int a < n"
    and "microblaze_version_compare a b = 0 \<longleftrightarrow> microblaze_version_to_int a = n"
proof -
  have "sgn (microblaze_version_compare a b) = sgn (microblaze_version_to_int a - n)"
  proof -
    obtain x y1 y2 z where a: "a = [CHR ''v'', x, CHR ''.'', y1, y2, CHR ''.'', z]"
      and va: "c_digit x" "c_digit y1" "c_digit y2" "c_lower z"
      using version_loop_valid [OF assms(1)] .
    have "microblaze_version_to_int b \<noteq> -1" using assms(2,3) by simp
    then obtain x' y1' y2' z' where b: "b = [CHR ''v'', x', CHR ''.'', y1', y2', CHR ''.'', z']"
      and vb: "c_digit x'" "c_digit y1'" "c_digit y2'" "c_lower z'"
      by (rule version_loop_valid)
    show ?thesis
      unfolding assms(2) [symmetric] microblaze_version_compare_def a b version_to_int_number [OF va]
        version_to_int_number [OF vb] strcasecmp_version [OF va vb] version_number_diff [OF va vb] ..
  qed
  then show "microblaze_version_compare a b < 0 \<longleftrightarrow> microblaze_version_to_int a < n"
    "microblaze_version_compare a b = 0 \<longleftrightarrow> microblaze_version_to_int a = n"
    by (auto simp: sgn_if split: if_splits)
qed

lemma known_versions:
  "microblaze_version_to_int ''v3.00.a'' = 30000" "microblaze_version_to_int ''v4.00.b'' = 40001"
  "microblaze_version_to_int ''v5.00.a'' = 50000" "microblaze_version_to_int ''v5.00.b'' = 50001"
  "microblaze_version_to_int ''v5.00.c'' = 50002" "microblaze_version_to_int ''v6.00.a'' = 60000"
  by (simp_all add: microblaze_version_to_int_def c_digit_def c_lower_def)


definition default_options :: options where
  "default_options = \<lparr>g_switch_set = False, g_switch_value = 0, opt_select_cpu = None,
     flag_zero_initialized_in_bss = True, multiply_high = False, soft_mul = True,
     pattern_compare = False, section_threshold = -1, select_flags = 0, no_unsafe_delay = False,
     microblaze_pipe = MICROBLAZE_PIPE_5, sched_use_dfa = False, abicalls = False,
     opt_messages = [], print_operand_punct = (\<lambda>_. False), char_to_class = initial_char_to_class,
     dbx_regno = replicate 46 0, gpr_mode = VOIDmode, hard_regno_mode_ok = (\<lambda>_. False),
     reg_alloc_order = replicate 46 0\<rparr>"


section \<open>The tables' contents\<close>

lemma fold_upd_all: "fold (\<lambda>x t. t(x := f x)) xs t = (\<lambda>x. if x \<in> set xs then f x else t x)"
  by (induction xs arbitrary: t) (auto simp: fun_eq_iff)

lemma mode_table:
  "hard_regno_mode_ok (override_options opt) (m, r) =
     (if r < FIRST_PSEUDO_REGISTER then regno_mode_ok (m, r) else hard_regno_mode_ok (override_cpu opt) (m, r))"
  by (simp add: override_options_def Let_def fold_upd_all)

text \<open>C17. The register-mode table that \<open>override_options\<close> builds is safe for every mode up to
  a double word: where it accepts a mode in a general register, all the registers a value of
  that mode occupies are general registers, and two-word values start in an even one; no
  mode but the condition codes is accepted outside the general registers.\<close>

theorem hard_regno_mode_ok_safe:
  assumes "hard_regno_mode_ok (override_options opt) (m, r)" "r < FIRST_PSEUDO_REGISTER"
  shows "(GET_MODE_SIZE m \<le> 8 \<and> m \<noteq> CCmode \<longrightarrow> r + HARD_REGNO_NREGS r m \<le> 32)
    \<and> (GET_MODE_SIZE m > 4 \<longrightarrow> even r)
    \<and> (m \<noteq> CCmode \<longrightarrow> r < 32)"
proof -
  have ok: "regno_mode_ok (m, r)" using assms by (simp add: mode_table)
  have even: "r AND 1 = 0 \<longleftrightarrow> even r" by (simp add: and_one_eq even_iff_mod_2_eq_zero)
  consider "m = CCmode" | "m \<noteq> CCmode" "r < 32" "even r \<or> GET_MODE_SIZE m \<le> 4"
    using ok assms(2) even by (auto simp: regno_mode_ok_def Let_def split: if_splits)
  then show ?thesis
  proof cases
    case 2
    have "HARD_REGNO_NREGS r m \<le> 1" if "GET_MODE_SIZE m \<le> 4" using that by (simp add: HARD_REGNO_NREGS_def)
    moreover have "HARD_REGNO_NREGS r m \<le> 2" if "GET_MODE_SIZE m \<le> 8" using that by (simp add: HARD_REGNO_NREGS_def)
    moreover have "r \<noteq> 31" if "even r" using that by auto
    ultimately show ?thesis using 2 by (cases "GET_MODE_SIZE m \<le> 4") fastforce+
  qed simp
qed

lemma hard_regno_mode_ok_safe_witness:
  "30 + HARD_REGNO_NREGS 30 DImode \<le> 32"
proof -
  have "hard_regno_mode_ok (override_options default_options) (DImode, 30)"
    by (simp add: mode_table regno_mode_ok_def GP_REG_P_def to_unsigned_def)
  from hard_regno_mode_ok_safe [OF this] show ?thesis by simp
qed

text \<open>Wider modes are not safe in the table: a 16-byte value is accepted in \<open>r30\<close>, and it
  occupies the multiply registers \<open>hi\<close> and \<open>lo\<close> as well, which no 16-byte value may
  start in.\<close>

theorem hard_regno_mode_ok_wide:
  "hard_regno_mode_ok (override_options opt) (TImode, 30) \<and> 30 + HARD_REGNO_NREGS 30 TImode = 34
   \<and> \<not> hard_regno_mode_ok (override_options opt) (TImode, 32)
   \<and> \<not> hard_regno_mode_ok (override_options opt) (TImode, 33)"
  by (simp add: mode_table regno_mode_ok_def HARD_REGNO_NREGS_def GP_REG_P_def to_unsigned_def)

lemma fold_upd_list:
  "length t \<ge> n \<Longrightarrow> fold (\<lambda>i t. t[i := f i]) [0..<n] t = map f [0..<n] @ drop n t"
  by (induction n) (auto simp: list_update_append drop_update_swap Cons_nth_drop_Suc [symmetric])

text \<open>The other tables of \<open>override_options\<close>: \<open>print_operand\<close>'s punctuation is exactly the
  eighteen characters, every general register has its own number in the debugger and no other
  register has one, and the constraint letters name the register classes, with every letter
  that is not one of the nine left at \<open>NO_REGS\<close>.\<close>

theorem override_tables:
  "print_operand_punct (override_options default_options) = microblaze_print_operand_punct
   \<and> dbx_regno (override_options default_options) = map int [0..<32] @ replicate 14 (-1)
   \<and> char_to_class (override_options default_options) c =
       (if c \<in> set ''dy'' then GR_REGS else if c = CHR ''h'' then HI_REG else if c = CHR ''l'' then LO_REG
        else if c = CHR ''a'' then HILO_REG else if c = CHR ''x'' then MD_REGS
        else if c = CHR ''b'' then ALL_REGS else if c = CHR ''z'' then ST_REGS else NO_REGS)
   \<and> reg_alloc_order (microblaze_order_regs_for_local_alloc default_options) = [0..<46]"
proof -
  have s: "select_pipe c opt = opt\<lparr>select_flags := select_flags (select_pipe c opt),
      no_unsafe_delay := no_unsafe_delay (select_pipe c opt),
      microblaze_pipe := microblaze_pipe (select_pipe c opt),
      pattern_compare := pattern_compare (select_pipe c opt)\<rparr>" for c opt
    by (simp add: select_pipe_def Let_def)
  have cpu: "print_operand_punct (override_cpu opt) = print_operand_punct opt"
    "char_to_class (override_cpu opt) = char_to_class opt" for opt
    by (auto simp: override_cpu_def check_multiply_def report_def select_pipe_def Let_def)
  have p: "mark_punct (\<lambda>_. False) = microblaze_print_operand_punct"
    unfolding mark_punct_def by (rule ext) (simp add: microblaze_print_operand_punct_def)
  have init: "initial_char_to_class c = NO_REGS" for c
  proof -
    have "(of_char c :: nat) < 256" by (cases c) (simp add: of_char_def horner_sum_simps)
    then show ?thesis by (simp add: initial_char_to_class_def)
  qed
  have t: "char_to_class (override_options default_options) = set_char_to_class initial_char_to_class"
    "print_operand_punct (override_options default_options) = mark_punct (\<lambda>_. False)"
    "dbx_regno (override_options default_options) = set_dbx_regno"
    by (simp_all add: override_options_def Let_def cpu default_options_def)
  have d: "set_dbx_regno = map int [0..<32] @ replicate 14 (-1)"
    using fold_upd_list [of 32 "replicate 46 (-1)" int]
    by (simp add: set_dbx_regno_def GP_DBX_FIRST_def Let_def)
  have c: "set_char_to_class initial_char_to_class c =
       (if c \<in> set ''dy'' then GR_REGS else if c = CHR ''h'' then HI_REG else if c = CHR ''l'' then LO_REG
        else if c = CHR ''a'' then HILO_REG else if c = CHR ''x'' then MD_REGS
        else if c = CHR ''b'' then ALL_REGS else if c = CHR ''z'' then ST_REGS else NO_REGS)"
    by (simp add: set_char_to_class_def init)
  have r: "reg_alloc_order (microblaze_order_regs_for_local_alloc default_options) = [0..<46]"
    using fold_upd_list [of 46 "replicate 46 0" id]
    by (simp add: microblaze_order_regs_for_local_alloc_def default_options_def)
  from p d c r show ?thesis by (simp only: t)
qed

end
