(* ===== verification/Frame.thy ===== *)
theory Frame
  imports Address Args Attribs
begin

text \<open>
  The stack frame, \<open>gcc/config/microblaze/microblaze.c\<close>: which registers a function must
  save (\<open>microblaze_must_save_register\<close>), the frame's layout (\<open>compute_frame_size\<close>), the
  instructions that set it up and take it down (\<open>microblaze_expand_prologue\<close>,
  \<open>save_restore_insns\<close>, \<open>microblaze_expand_epilogue\<close>), and the offsets other passes ask
  for. The flags \<open>MEM_VOLATILE_P\<close> and \<open>RTX_FRAME_RELATED_P\<close> put on the instructions are
  hints for later passes and are not represented.
\<close>

section \<open>The function being compiled\<close>

text \<open>What the frame code reads: the declaration's attributes, results of earlier passes
  (\<open>get_frame_size ()\<close>, \<open>current_function_outgoing_args_size\<close>, \<open>frame_pointer_needed\<close>, the
  registers the data-flow pass found live), and the parameters. \<open>fn_struct_value\<close> is
  \<open>aggregate_value_p (DECL_RESULT) && !current_function_returns_pcc_struct\<close>.\<close>

record fn_env =
  fn_is_function :: bool
  fn_attributes :: "unit attribute list"
  fn_frame_size :: int
  fn_outgoing_args_size :: int
  fn_calls_alloca :: bool
  fn_is_leaf :: bool
  frame_pointer_needed :: bool
  profile_flag :: bool
  call_used_regs :: "nat \<Rightarrow> bool"
  fn_live :: "nat \<Rightarrow> bool"
  fn_arg_types :: "ctype list"
  fn_arguments :: "(ctype \<times> string option) list"
  fn_struct_value :: bool

record frame_info =
  total_size :: int
  var_size :: int
  args_size :: int
  link_debug_size :: int
  gp_reg_size :: int
  gp_offset :: int
  mask :: "32 word"
  initialized :: bool
  num_gp :: int
  insns_len :: int
  alloc_stack :: int

definition zero_frame_info :: frame_info where
  "zero_frame_info = \<lparr>total_size = 0, var_size = 0, args_size = 0, link_debug_size = 0,
     gp_reg_size = 0, gp_offset = 0, mask = 0, initialized = False, num_gp = 0, insns_len = 0,
     alloc_stack = 0\<rparr>"

text \<open>The file's static variables beside the emission context; \<open>reports\<close> collects the
  messages of \<open>error ()\<close>.\<close>

record fn_state = emit_state +
  interrupt_handler :: bool
  save_volatiles :: bool
  current_frame_info :: frame_info
  reports :: "string list"

definition df_regs_ever_live_p :: "fn_env \<Rightarrow> fn_state \<Rightarrow> nat \<Rightarrow> bool" where
  "df_regs_ever_live_p fn st r \<longleftrightarrow> fn_live fn r \<or> r \<in> set (live_marks st)"

section \<open>Which registers to save\<close>

definition has_attribute :: "string \<Rightarrow> fn_env \<Rightarrow> bool" where
  "has_attribute attr fn =
     (case lookup_attribute attr (fn_attributes fn) of Some (a # as) \<Rightarrow> True | _ \<Rightarrow> False)"

definition microblaze_interrupt_function_p :: "fn_env \<Rightarrow> bool" where
  "microblaze_interrupt_function_p fn =
     (if \<not> fn_is_function fn then False else has_attribute ''interrupt_handler'' fn)"

definition microblaze_save_volatiles :: "fn_env \<Rightarrow> bool" where
  "microblaze_save_volatiles fn =
     (if \<not> fn_is_function fn then False else has_attribute ''save_volatiles'' fn)"

definition microblaze_is_interrupt_handler :: "fn_state \<Rightarrow> bool" where
  "microblaze_is_interrupt_handler st = interrupt_handler st"

text \<open>\<open>pic_offset_table_rtx\<close> is non-null when there is a PIC register.\<close>

definition microblaze_must_save_register :: "cc_env \<Rightarrow> fn_env \<Rightarrow> fn_state \<Rightarrow> nat \<Rightarrow> bool" where
  "microblaze_must_save_register env fn st regno =
    (let live = df_regs_ever_live_p fn st regno
     in if PIC_OFFSET_TABLE_REGNUM env \<noteq> INVALID_REGNUM \<and> regno = MB_ABI_PIC_ADDR_REGNUM \<and> live
        then True
        else if live \<and> \<not> call_used_regs fn regno then True
        else if frame_pointer_needed fn \<and> regno = HARD_FRAME_POINTER_REGNUM then True
        else if \<not> fn_is_leaf fn \<and> regno = MB_ABI_SUB_RETURN_ADDR_REGNUM then True
        else if \<not> fn_is_leaf fn \<and> (interrupt_handler st \<or> save_volatiles st)
                \<and> regno \<ge> 3 \<and> regno \<le> 12 then True
        else if interrupt_handler st
                \<and> (live \<or> regno = MB_ABI_MSR_SAVE_REG \<or> regno = MB_ABI_ASM_TEMP_REGNUM
                   \<or> regno = MB_ABI_EXCEPTION_RETURN_ADDR_REGNUM) then True
        else if save_volatiles st
                \<and> (live \<or> regno = MB_ABI_ASM_TEMP_REGNUM
                   \<or> regno = MB_ABI_EXCEPTION_RETURN_ADDR_REGNUM) then True
        else False)"

section \<open>The layout\<close>

text \<open>The range of the loops \<open>for (regno = GP_REG_FIRST; regno <= GP_REG_LAST; regno++)\<close>.\<close>

definition gp_regs :: "nat list" where "gp_regs = [GP_REG_FIRST..<Suc GP_REG_LAST]"

definition NUM_OF_ARGS :: int where "NUM_OF_ARGS = 6"

text \<open>One round of the loop over the general registers: the bytes needed and the mask.\<close>

definition count_save :: "(nat \<Rightarrow> bool) \<Rightarrow> nat \<Rightarrow> int \<times> 32 word \<Rightarrow> int \<times> 32 word" where
  "count_save must regno acc =
    (case acc of (bytes, m) \<Rightarrow>
       if must regno then
         (if regno \<noteq> MB_ABI_SUB_RETURN_ADDR_REGNUM then bytes + int (GET_MODE_SIZE SImode) else bytes,
          m OR push_bit (regno - GP_REG_FIRST) 1)
       else (bytes, m))"

definition outgoing_args :: "fn_env \<Rightarrow> int" where
  "outgoing_args fn =
     (if fn_outgoing_args_size fn = 0 \<and> fn_calls_alloca fn then NUM_OF_ARGS * int UNITS_PER_WORD
      else fn_outgoing_args_size fn)"

text \<open>The state \<open>compute_frame_size\<close> starts from: the two attribute flags, and the PIC
  register live under \<open>-fPIC\<close>.\<close>

definition note_function :: "cc_env \<Rightarrow> fn_env \<Rightarrow> fn_state \<Rightarrow> fn_state" where
  "note_function env fn st =
    (let st = st\<lparr>interrupt_handler := microblaze_interrupt_function_p fn,
                 save_volatiles := microblaze_save_volatiles fn\<rparr>
     in if flag_pic env = 2 then mark_live MB_ABI_PIC_ADDR_REGNUM st else st)"

definition compute_frame_size :: "cc_env \<Rightarrow> fn_env \<Rightarrow> int \<Rightarrow> fn_state \<Rightarrow> int \<times> fn_state" where
  "compute_frame_size env fn bytes st0 =
    (let st = note_function env fn st0;
         tot = hwi (bytes + outgoing_args fn);
         (gp, m) = fold (count_save (microblaze_must_save_register env fn st))
                     gp_regs (0, 0);
         tot = hwi (tot + gp);
         tot = (if interrupt_handler st then hwi (tot + 4) else tot);
         link = (if tot = 0 \<and> fn_is_leaf fn then 0 else int UNITS_PER_WORD);
         tot = hwi (tot + link)
     in (tot,
         st\<lparr>current_frame_info := (current_frame_info st)\<lparr>
              total_size := tot, var_size := bytes, args_size := outgoing_args fn,
              gp_reg_size := gp, mask := m, initialized := reload_completed env,
              num_gp := gp div int UNITS_PER_WORD, link_debug_size := link,
              gp_offset := (if m \<noteq> 0 then tot - gp else 0)\<rparr>\<rparr>))"

section \<open>Saving and restoring registers\<close>

definition BITSET_P :: "32 word \<Rightarrow> nat \<Rightarrow> bool" where
  "BITSET_P v b \<longleftrightarrow> v AND push_bit b 1 \<noteq> 0"

definition frame_slot :: "int \<Rightarrow> rtx" where
  "frame_slot off = Mem SImode (Plus stack_pointer_rtx (ConstInt off))"

definition save_restore_reg :: "bool \<Rightarrow> 32 word \<Rightarrow> nat \<Rightarrow> int \<times> fn_state \<Rightarrow> int \<times> fn_state" where
  "save_restore_reg prologue m regno acc =
    (case acc of (off, st) \<Rightarrow>
       if BITSET_P m (regno - GP_REG_FIRST) then
         if regno = MB_ABI_SUB_RETURN_ADDR_REGNUM then (off, st)
         else
           let reg_rtx = Reg SImode regno;
               mem_rtx = frame_slot off
           in (off + int (GET_MODE_SIZE SImode),
               if prologue then emit_move_insn mem_rtx reg_rtx st
               else emit_move_insn reg_rtx mem_rtx st)
       else (off, st))"

text \<open>The status register of an interrupt handler: copied to \<open>r11\<close> and stored below the
  saved registers in the prologue, and back in the epilogue.\<close>

definition isr_reg_rtx :: rtx where "isr_reg_rtx = Reg SImode MB_ABI_MSR_SAVE_REG"
definition isr_msr_rtx :: rtx where "isr_msr_rtx = Reg SImode ST_REG_FIRST"

definition use_isr_regs :: "fn_state \<Rightarrow> fn_state" where
  "use_isr_regs st = emit_insn (Use isr_msr_rtx) (emit_insn (Use isr_reg_rtx) st)"

definition save_restore_insns :: "bool \<Rightarrow> fn_env \<Rightarrow> fn_state \<Rightarrow> fn_state option" where
  "save_restore_insns prologue fn st =
    (let info = current_frame_info st
     in if frame_pointer_needed fn \<and> \<not> BITSET_P (mask info) (HARD_FRAME_POINTER_REGNUM - GP_REG_FIRST)
        then None
        else if mask info = 0 then Some st
        else
          let st = (if gp_offset info \<le> 0
                    then st\<lparr>reports := reports st @ [''gp_offset is less than or equal to zero'']\<rparr>
                    else st);
              isr_mem_rtx = frame_slot (gp_offset info - int UNITS_PER_WORD);
              st = (if interrupt_handler st \<and> \<not> prologue
                    then use_isr_regs (emit_move_insn isr_msr_rtx isr_reg_rtx
                           (emit_move_insn isr_reg_rtx isr_mem_rtx st))
                    else st);
              (off, st) = fold (save_restore_reg prologue (mask info))
                            gp_regs (gp_offset info, st)
          in Some (if interrupt_handler st \<and> prologue
                   then use_isr_regs (emit_move_insn isr_mem_rtx isr_reg_rtx
                          (emit_move_insn isr_reg_rtx isr_msr_rtx st))
                   else st))"

section \<open>The prologue\<close>

text \<open>The scan of the parameters for the last register a named argument uses: the
  argument state, that register (\<open>r11\<close> when an argument is on the stack), and the name
  of the last parameter. \<open>None\<close> is an \<open>abort ()\<close> of the argument routines.\<close>

fun scan_arguments ::
  "CUMULATIVE_ARGS \<Rightarrow> int \<Rightarrow> (ctype \<times> string option) list
   \<Rightarrow> (CUMULATIVE_ARGS \<times> int \<times> string option) option" where
  "scan_arguments cum regno [] = Some (cum, regno, None)"
| "scan_arguments cum regno ((type, name) # next_arg) =
    (let passed_type = (if type_addressable type then build_pointer_type type else type);
         passed_mode = (if type_addressable type then Pmode else type_mode type)
     in case function_arg cum passed_mode of
          None \<Rightarrow> None
        | Some (cum, None) \<Rightarrow> Some (cum, int GP_ARG_LAST + 1, None)
        | Some (cum, Some (Reg m r)) \<Rightarrow>
            let words = (if m = BLKmode then (type_size passed_type + 3) div 4
                         else (int (GET_MODE_SIZE m) + 3) div 4);
                regno = int r + words - 1
            in (case function_arg_advance cum passed_mode (type_size passed_type) of
                  None \<Rightarrow> None
                | Some cum \<Rightarrow>
                    if next_arg = [] then Some (cum, regno, name)
                    else scan_arguments cum regno next_arg)
        | Some (cum, Some _) \<Rightarrow> None)"

definition varargs_function :: "fn_env \<Rightarrow> string option \<Rightarrow> bool" where
  "varargs_function fn arg_name \<longleftrightarrow>
     stdarg_types (fn_arg_types fn)
     \<or> (case arg_name of
          None \<Rightarrow> False
        | Some n \<Rightarrow> n = ''__builtin_va_alist'' \<or> n = ''va_alist'')"

text \<open>The homing loop: \<open>ptr\<close> keeps its previous value when the offset is zero.\<close>

fun home_arguments :: "nat list \<Rightarrow> int \<Rightarrow> rtx \<Rightarrow> fn_state \<Rightarrow> fn_state" where
  "home_arguments [] offset ptr st = st"
| "home_arguments (regno # rest) offset ptr st =
    (let ptr = (if offset \<noteq> 0 then Plus stack_pointer_rtx (ConstInt offset) else ptr)
     in home_arguments rest (offset + int (GET_MODE_SIZE SImode)) ptr
          (emit_move_insn (Mem SImode ptr) (Reg SImode regno) st))"

definition link_slot :: rtx where
  "link_slot = Mem SImode (Plus stack_pointer_rtx const0_rtx)"

definition link_reg :: rtx where
  "link_reg = Reg SImode MB_ABI_SUB_RETURN_ADDR_REGNUM"

text \<open>The adjustments of small structures, then the homing of a variable-argument
  function's registers.\<close>

definition prologue_arguments :: "cc_env \<Rightarrow> fn_env \<Rightarrow> fn_state \<Rightarrow> (int \<times> fn_state) option" where
  "prologue_arguments env fn st =
    (let fnargs = (if fn_struct_value fn then [(build_pointer_type void_type_node, None)] else [])
                  @ fn_arguments fn
     in case scan_arguments (init_cumulative_args (fn_arg_types fn)) (int GP_ARG_FIRST) fnargs of
          None \<Rightarrow> None
        | Some (args_so_far, regno, arg_name) \<Rightarrow>
            (case function_arg args_so_far VOIDmode of
               None \<Rightarrow> None
             | Some (_, next_arg_reg) \<Rightarrow>
                 let st = (case next_arg_reg of
                             Some (Parallel patterns) \<Rightarrow> fold emit_insn patterns st
                           | _ \<Rightarrow> st);
                     (fsiz, st) = compute_frame_size env fn (fn_frame_size fn) st
                 in Some (fsiz, if varargs_function fn arg_name
                          then home_arguments [nat regno..<Suc GP_ARG_LAST]
                                 ((regno - int GP_ARG_FIRST + 1) * int UNITS_PER_WORD)
                                 stack_pointer_rtx st
                          else st)))"

text \<open>The frame proper, for the size \<open>fsiz\<close> that \<open>compute_frame_size\<close> returned.\<close>

definition prologue_frame :: "fn_env \<Rightarrow> int \<Rightarrow> fn_state \<Rightarrow> fn_state option" where
  "prologue_frame fn fsiz st =
    (if fsiz > 0 then
       let st = emit_insn (SetX stack_pointer_rtx (Minus stack_pointer_rtx (ConstInt fsiz))) st;
           st = (if \<not> fn_is_leaf fn \<or> interrupt_handler st
                 then emit_move_insn link_slot link_reg st else st)
       in case save_restore_insns True fn st of
            None \<Rightarrow> None
          | Some st \<Rightarrow>
              Some (if frame_pointer_needed fn
                    then emit_insn (SetX hard_frame_pointer_rtx stack_pointer_rtx) st else st)
     else Some st)"

definition blockage :: rtx where
  "blockage = UnspecVolatile [const0_rtx] 0"

definition microblaze_expand_prologue :: "cc_env \<Rightarrow> fn_env \<Rightarrow> fn_state \<Rightarrow> fn_state option" where
  "microblaze_expand_prologue env fn st =
    (case prologue_arguments env fn st of
       None \<Rightarrow> None
     | Some (fsiz, st) \<Rightarrow>
         (case prologue_frame fn fsiz st of
            None \<Rightarrow> None
          | Some st \<Rightarrow>
              let st = (if flag_pic env = 2 \<and> df_regs_ever_live_p fn st MB_ABI_PIC_ADDR_REGNUM
                        then emit_insn (SetX (Reg SImode MB_ABI_PIC_ADDR_REGNUM)
                                          (Unspec SImode [const0_rtx] UNSPEC_SET_GOT)) st
                        else st)
              in Some (if profile_flag fn then emit_insn blockage st else st)))"

section \<open>The epilogue\<close>

definition microblaze_can_use_return_insn :: "cc_env \<Rightarrow> fn_env \<Rightarrow> fn_state \<Rightarrow> bool \<times> fn_state" where
  "microblaze_can_use_return_insn env fn st =
    (if \<not> reload_completed env then (False, st)
     else if df_regs_ever_live_p fn st MB_ABI_SUB_RETURN_ADDR_REGNUM \<or> profile_flag fn then (False, st)
     else if initialized (current_frame_info st) then (total_size (current_frame_info st) = 0, st)
     else case compute_frame_size env fn (fn_frame_size fn) st of (tot, st) \<Rightarrow> (tot = 0, st))"

definition return_internal :: rtx where
  "return_internal = Parallel [Use (Reg Pmode (GP_REG_FIRST + MB_ABI_SUB_RETURN_ADDR_REGNUM)), Return]"

definition microblaze_expand_epilogue :: "cc_env \<Rightarrow> fn_env \<Rightarrow> fn_state \<Rightarrow> fn_state option" where
  "microblaze_expand_epilogue env fn st =
    (let fsiz = total_size (current_frame_info st);
         (use_return, st) = microblaze_can_use_return_insn env fn st
     in if use_return then Some (emit_insn return_internal st)
        else if fsiz > 0 then
          let st = (if \<not> fn_is_leaf fn \<or> interrupt_handler st
                    then emit_move_insn link_reg link_slot st else st);
              st = (if frame_pointer_needed fn
                    then emit_insn (SetX stack_pointer_rtx hard_frame_pointer_rtx) st else st)
          in case save_restore_insns False fn st of
               None \<Rightarrow> None
             | Some st \<Rightarrow>
                 Some (emit_insn return_internal
                        (emit_insn (SetX stack_pointer_rtx (Plus stack_pointer_rtx (ConstInt fsiz)))
                          (emit_insn blockage st)))
        else Some (emit_insn return_internal st))"

end
