(* ===== verification/FrameSpec.thy ===== *)
theory FrameSpec
  imports Frame
begin

text \<open>
  What the stack frame promises: the areas of a frame do not overlap, and a prologue, any
  body that keeps the saved words, and the epilogue together preserve the stack pointer,
  the saved registers and the return address.
\<close>

section \<open>Storing registers to slots and loading them back\<close>

text \<open>A save area is a list of registers with the stack offsets of their slots. The
  interface asks that no register has two slots and that the slots ascend without
  overlapping; its clients are the save and restore sequences.\<close>

definition save_insn :: "bool \<Rightarrow> nat \<times> int \<Rightarrow> rtx" where
  "save_insn prologue x = (if prologue then SetX (frame_slot (snd x)) (Reg SImode (fst x))
                           else SetX (Reg SImode (fst x)) (frame_slot (snd x)))"

definition slot_ok :: "int \<Rightarrow> bool" where
  "slot_ok k \<longleftrightarrow> 0 \<le> k \<and> k + 4 \<le> 2 ^ 32"

definition slot_addr :: "32 word \<Rightarrow> int \<Rightarrow> 32 word" where
  "slot_addr sp k = sp + word_of_int k"

lemma slot_apart:
  assumes "slot_ok a" "slot_ok b" "a + 4 \<le> b \<or> b + 4 \<le> a"
  shows "apart (slot_addr sp a) (slot_addr sp b)"
proof -
  have "slot_addr sp x = sp + of_nat (nat x)" if "slot_ok x" for x
    using that by (simp add: slot_addr_def slot_ok_def)
  moreover have "apart (sp + of_nat (nat a)) (sp + of_nat (nat b))"
    using assms by (intro apart_offsets) (auto simp: slot_ok_def)
  ultimately show ?thesis using assms by simp
qed

lemma rtl_val_slot [rtl_simps]:
  "rtl_val s (frame_slot k) = Some (load32 (mem s) (slot_addr (regs s 1) k))"
  by (simp add: frame_slot_def stack_pointer_rtx_def slot_addr_def)

lemma rtl_exec_store [rtl_simps]:
  "rtl_exec (SetX (frame_slot k) (Reg m r)) s =
     Some (s\<lparr>mem := store32 (mem s) (slot_addr (regs s 1) k) (regs s r)\<rparr>)"
  by (simp add: frame_slot_def stack_pointer_rtx_def slot_addr_def)

lemma rtl_exec_load [rtl_simps]:
  "rtl_exec (SetX (Reg m r) (frame_slot k)) s =
     Some (s\<lparr>regs := (regs s)(r := load32 (mem s) (slot_addr (regs s 1) k))\<rparr>)"
  by (simp add: rtl_val_slot)

lemma run_stores_gen:
  assumes "sorted_wrt (\<lambda>a b. snd a + 4 \<le> snd b) sl" "\<forall>x \<in> set sl. slot_ok (snd x)"
  shows "\<exists>m'. rtl_run (map (save_insn True) sl) s = Some (s\<lparr>mem := m'\<rparr>)
    \<and> (\<forall>x \<in> set sl. load32 m' (slot_addr (regs s 1) (snd x)) = regs s (fst x))
    \<and> (\<forall>k. slot_ok k \<and> (\<forall>x \<in> set sl. k + 4 \<le> snd x \<or> snd x + 4 \<le> k)
          \<longrightarrow> load32 m' (slot_addr (regs s 1) k) = load32 (mem s) (slot_addr (regs s 1) k))"
  using assms
proof (induction sl arbitrary: s)
  case Nil
  show ?case by (intro exI [of _ "mem s"]) simp
next
  case (Cons x sl)
  define s1 where "s1 = s\<lparr>mem := store32 (mem s) (slot_addr (regs s 1) (snd x)) (regs s (fst x))\<rparr>"
  have r1: "regs s1 = regs s" by (simp add: s1_def)
  have up: "\<forall>y \<in> set sl. snd x + 4 \<le> snd y" and okx: "slot_ok (snd x)"
    using Cons.prems by auto
  obtain m' where m': "rtl_run (map (save_insn True) sl) s1 = Some (s1\<lparr>mem := m'\<rparr>)"
    "\<forall>y \<in> set sl. load32 m' (slot_addr (regs s 1) (snd y)) = regs s (fst y)"
    "\<forall>k. slot_ok k \<and> (\<forall>y \<in> set sl. k + 4 \<le> snd y \<or> snd y + 4 \<le> k)
          \<longrightarrow> load32 m' (slot_addr (regs s 1) k) = load32 (mem s1) (slot_addr (regs s 1) k)"
    using Cons.IH [of s1] Cons.prems unfolding r1 by auto
  have "rtl_run (map (save_insn True) (x # sl)) s = Some (s\<lparr>mem := m'\<rparr>)"
    using m'(1) by (simp add: save_insn_def rtl_exec_store s1_def)
  moreover have "load32 m' (slot_addr (regs s 1) (snd x)) = regs s (fst x)"
  proof -
    have "load32 m' (slot_addr (regs s 1) (snd x)) = load32 (mem s1) (slot_addr (regs s 1) (snd x))"
      using m'(3) okx up by blast
    then show ?thesis by (simp add: s1_def)
  qed
  moreover have "load32 m' (slot_addr (regs s 1) k) = load32 (mem s) (slot_addr (regs s 1) k)"
    if k: "slot_ok k" "\<forall>y \<in> set (x # sl). k + 4 \<le> snd y \<or> snd y + 4 \<le> k" for k
  proof -
    have "load32 m' (slot_addr (regs s 1) k) = load32 (mem s1) (slot_addr (regs s 1) k)"
      using m'(3) k by simp
    also have "\<dots> = load32 (mem s) (slot_addr (regs s 1) k)"
      using slot_apart [OF okx k(1), of "regs s 1"] k(2) by (auto simp: s1_def)
    finally show ?thesis .
  qed
  ultimately show ?case using m'(2) by (intro exI [of _ m']) auto
qed

lemma run_loads_gen:
  assumes "distinct (map fst sl)"
    and "\<forall>x \<in> set sl. fst x = 1 \<longrightarrow> load32 (mem s) (slot_addr (regs s 1) (snd x)) = regs s 1"
  shows "\<exists>f. rtl_run (map (save_insn False) sl) s = Some (s\<lparr>regs := f\<rparr>)
    \<and> (\<forall>x \<in> set sl. f (fst x) = load32 (mem s) (slot_addr (regs s 1) (snd x)))
    \<and> (\<forall>r. r \<notin> fst ` set sl \<longrightarrow> f r = regs s r)"
  using assms
proof (induction sl arbitrary: s)
  case Nil
  show ?case by (intro exI [of _ "regs s"]) simp
next
  case (Cons x sl)
  define s1 where
    "s1 = s\<lparr>regs := (regs s)(fst x := load32 (mem s) (slot_addr (regs s 1) (snd x)))\<rparr>"
  have r1: "regs s1 1 = regs s 1" "mem s1 = mem s" using Cons.prems by (auto simp: s1_def)
  obtain f where f: "rtl_run (map (save_insn False) sl) s1 = Some (s1\<lparr>regs := f\<rparr>)"
    "\<forall>y \<in> set sl. f (fst y) = load32 (mem s) (slot_addr (regs s 1) (snd y))"
    "\<forall>r. r \<notin> fst ` set sl \<longrightarrow> f r = regs s1 r"
    using Cons.IH [of s1] Cons.prems unfolding r1 by auto
  have "rtl_run (map (save_insn False) (x # sl)) s = Some (s\<lparr>regs := f\<rparr>)"
    using f(1) by (simp add: save_insn_def rtl_val_slot s1_def)
  moreover have "f (fst x) = load32 (mem s) (slot_addr (regs s 1) (snd x))"
    using f(3) Cons.prems by (simp add: s1_def)
  moreover have "f r = regs s r" if "r \<notin> fst ` set (x # sl)" for r
    using f(3) that by (simp add: s1_def)
  ultimately show ?case using f(2) by (intro exI [of _ f]) auto
qed

locale slot_area =
  fixes slots :: "(nat \<times> int) list"
  assumes distinct_regs: "distinct (map fst slots)"
    and ascending: "sorted_wrt (\<lambda>a b. snd a + 4 \<le> snd b) slots"
begin

lemma run_stores:
  assumes "\<forall>x \<in> set slots. slot_ok (snd x)"
  obtains m' where "rtl_run (map (save_insn True) slots) s = Some (s\<lparr>mem := m'\<rparr>)"
    "\<And>r k. (r, k) \<in> set slots \<Longrightarrow> load32 m' (slot_addr (regs s 1) k) = regs s r"
    "\<And>k. slot_ok k \<Longrightarrow> (\<And>x. x \<in> set slots \<Longrightarrow> k + 4 \<le> snd x \<or> snd x + 4 \<le> k)
        \<Longrightarrow> load32 m' (slot_addr (regs s 1) k) = load32 (mem s) (slot_addr (regs s 1) k)"
  using run_stores_gen [OF ascending assms, of s] by force

lemma run_loads:
  assumes "\<And>k. (1, k) \<in> set slots \<Longrightarrow> load32 (mem s) (slot_addr (regs s 1) k) = regs s 1"
  obtains f where "rtl_run (map (save_insn False) slots) s = Some (s\<lparr>regs := f\<rparr>)"
    "\<And>r k. (r, k) \<in> set slots \<Longrightarrow> f r = load32 (mem s) (slot_addr (regs s 1) k)"
    "\<And>r. r \<notin> fst ` set slots \<Longrightarrow> f r = regs s r"
proof -
  have *: "\<forall>x \<in> set slots. fst x = 1 \<longrightarrow> load32 (mem s) (slot_addr (regs s 1) (snd x)) = regs s 1"
    using assms by auto
  show ?thesis using run_loads_gen [OF distinct_regs *] that by force
qed

end

section \<open>The save area of a frame\<close>

fun gp_slots :: "32 word \<Rightarrow> int \<Rightarrow> nat list \<Rightarrow> (nat \<times> int) list" where
  "gp_slots m off [] = []"
| "gp_slots m off (r # rs) =
     (if BITSET_P m r \<and> r \<noteq> MB_ABI_SUB_RETURN_ADDR_REGNUM then (r, off) # gp_slots m (off + 4) rs
      else gp_slots m off rs)"

lemma gp_regs [simp]: "set gp_regs = {..<32}" "distinct gp_regs" "length gp_regs = 32"
  by (auto simp: gp_regs_def)

lemma gp_slots_fst: "map fst (gp_slots m off rs) = filter (\<lambda>r. BITSET_P m r \<and> r \<noteq> 15) rs"
  by (induction m off rs rule: gp_slots.induct) auto

lemma gp_slots_bounds:
  "x \<in> set (gp_slots m off rs) \<Longrightarrow> off \<le> snd x \<and> snd x + 4 \<le> off + 4 * int (length (gp_slots m off rs))"
  by (induction m off rs rule: gp_slots.induct) (auto split: if_splits)

lemma gp_slots_ascending: "sorted_wrt (\<lambda>a b. snd a + 4 \<le> snd b) (gp_slots m off rs)"
proof (induction m off rs rule: gp_slots.induct)
  case (2 m off r rs)
  then show ?case using gp_slots_bounds [of _ m "off + 4" rs] by auto
qed simp

interpretation gp: slot_area "gp_slots m off gp_regs" for m off
proof
  show "distinct (map fst (gp_slots m off gp_regs))" by (simp only: gp_slots_fst) (rule distinct_filter, rule gp_regs(2))
  show "sorted_wrt (\<lambda>a b. snd a + 4 \<le> snd b) (gp_slots m off gp_regs)" by (rule gp_slots_ascending)
qed

section \<open>What \<open>compute_frame_size\<close> computes\<close>

lemma BITSET_P_bit [frame_simps]: "r < 32 \<Longrightarrow> BITSET_P v r \<longleftrightarrow> bit v r"
  by (simp add: BITSET_P_def push_bit_of_1 and_exp_eq_0_iff_not_bit)

lemma bit_set_one: "r < 32 \<Longrightarrow> k < 32 \<Longrightarrow> bit (m OR push_bit r 1 :: 32 word) k \<longleftrightarrow> bit m k \<or> k = r"
  by (auto simp: bit_simps)

lemma fold_count_save:
  assumes "\<forall>r \<in> set rs. r < 32"
  shows "\<exists>M. fold (count_save must) rs (g, m) = (g + 4 * int (length (filter (\<lambda>r. must r \<and> r \<noteq> 15) rs)), M)
    \<and> (\<forall>k < 32. bit M k \<longleftrightarrow> bit m k \<or> k \<in> set rs \<and> must k)"
  using assms
proof (induction rs arbitrary: g m)
  case (Cons r rs)
  show ?case
  proof (cases "must r")
    case True
    define m1 where "m1 = m OR push_bit r 1"
    define g1 where "g1 = (if r \<noteq> 15 then g + 4 else g)"
    have step: "count_save must r (g, m) = (g1, m1)"
      using True by (simp add: count_save_def m1_def g1_def)
    have m1: "bit m1 k \<longleftrightarrow> bit m k \<or> k = r" if "k < 32" for k
      unfolding m1_def using that Cons.prems by (intro bit_set_one) auto
    obtain M where "fold (count_save must) rs (g1, m1) =
        (g1 + 4 * int (length (filter (\<lambda>r. must r \<and> r \<noteq> 15) rs)), M)"
      "\<forall>k < 32. bit M k \<longleftrightarrow> bit m1 k \<or> k \<in> set rs \<and> must k"
      using Cons.IH [of g1 m1] Cons.prems by auto
    then show ?thesis using True step m1 by (auto simp: g1_def)
  next
    case False
    then have "count_save must r (g, m) = (g, m)" by (simp add: count_save_def)
    moreover obtain M where "fold (count_save must) rs (g, m) =
        (g + 4 * int (length (filter (\<lambda>r. must r \<and> r \<noteq> 15) rs)), M)"
      "\<forall>k < 32. bit M k \<longleftrightarrow> bit m k \<or> k \<in> set rs \<and> must k"
      using Cons.IH [of g m] Cons.prems by auto
    ultimately show ?thesis using False by auto
  qed
qed simp

definition frame_fits :: "fn_env \<Rightarrow> bool" where
  "frame_fits fn \<longleftrightarrow> 0 \<le> fn_frame_size fn \<and> 0 \<le> fn_outgoing_args_size fn
     \<and> fn_frame_size fn + fn_outgoing_args_size fn + 160 < 2 ^ 31"

lemma outgoing_args_bounds:
  assumes "frame_fits fn"
  shows "fn_outgoing_args_size fn \<le> outgoing_args fn" "outgoing_args fn \<le> fn_outgoing_args_size fn + 24"
  using assms by (auto simp: outgoing_args_def NUM_OF_ARGS_def frame_fits_def)

lemma must_save_frame_info [simp]:
  "microblaze_must_save_register env fn (st\<lparr>current_frame_info := i\<rparr>) =
   microblaze_must_save_register env fn st"
proof -
  have "df_regs_ever_live_p fn (st\<lparr>current_frame_info := i\<rparr>) = df_regs_ever_live_p fn st"
    "interrupt_handler (st\<lparr>current_frame_info := i\<rparr>) = interrupt_handler st"
    "save_volatiles (st\<lparr>current_frame_info := i\<rparr>) = save_volatiles st"
    by (simp_all add: df_regs_ever_live_p_def fun_eq_iff)
  then show ?thesis by (intro ext) (simp only: microblaze_must_save_register_def)
qed

lemma gp_slots_length: "length (gp_slots m off rs) = length (filter (\<lambda>r. BITSET_P m r \<and> r \<noteq> 15) rs)"
  by (metis gp_slots_fst length_map)

lemma compute_frame_size_layout:
  assumes fits: "frame_fits fn"
    and c: "compute_frame_size env fn (fn_frame_size fn) st = (tot, st')"
  defines "info \<equiv> current_frame_info st'"
  defines "slots \<equiv> gp_slots (mask info) (gp_offset info) gp_regs"
  shows "st' = (note_function env fn st)\<lparr>current_frame_info := info\<rparr>"
    and "total_size info = tot"
    and "\<forall>r < 32. BITSET_P (mask info) r \<longleftrightarrow> microblaze_must_save_register env fn st' r"
    and "gp_reg_size info = 4 * int (length slots)"
    and "length slots \<le> 32"
    and "link_debug_size info =
      (if fn_frame_size fn + outgoing_args fn + gp_reg_size info = 0 \<and> \<not> interrupt_handler st' \<and> fn_is_leaf fn
       then 0 else 4)"
    and "tot = fn_frame_size fn + outgoing_args fn + gp_reg_size info
      + (if interrupt_handler st' then 4 else 0) + link_debug_size info"
    and "gp_offset info = (if mask info = 0 then 0 else tot - gp_reg_size info)"
    and "initialized info = reload_completed env"
    and "var_size info = fn_frame_size fn" "args_size info = outgoing_args fn"
proof -
  let ?st = "note_function env fn st"
  let ?must = "microblaze_must_save_register env fn ?st"
  obtain M where M: "fold (count_save ?must) gp_regs (0, 0) =
      (0 + 4 * int (length (filter (\<lambda>r. ?must r \<and> r \<noteq> 15) gp_regs)), M)"
    "\<forall>k < 32. bit M k \<longleftrightarrow> bit (0 :: 32 word) k \<or> k \<in> set gp_regs \<and> ?must k"
    using fold_count_save [of gp_regs ?must 0 0] by auto
  define g where "g = 4 * int (length (filter (\<lambda>r. ?must r \<and> r \<noteq> 15) gp_regs))"
  have bits: "\<forall>k < 32. BITSET_P M k \<longleftrightarrow> ?must k" using M(2) by (auto simp: BITSET_P_bit)
  have len: "length (gp_slots M off gp_regs) = length (filter (\<lambda>r. ?must r \<and> r \<noteq> 15) gp_regs)" for off
    unfolding gp_slots_length using bits by (intro arg_cong [of _ _ length] filter_cong) auto
  have le32: "length (filter (\<lambda>r. ?must r \<and> r \<noteq> 15) gp_regs) \<le> 32"
    using length_filter_le [of "\<lambda>r. ?must r \<and> r \<noteq> 15" gp_regs] by simp
  have g: "0 \<le> g" "g \<le> 128" using le32 by (auto simp: g_def)
  note ob = outgoing_args_bounds [OF fits]
  have ranges: "in_hwi (fn_frame_size fn + outgoing_args fn)"
     "in_hwi (fn_frame_size fn + outgoing_args fn + g)"
     "in_hwi (fn_frame_size fn + outgoing_args fn + g + 4)"
     "in_hwi (8 + (fn_frame_size fn + (outgoing_args fn + g)))"
    using fits ob g unfolding in_hwi_def frame_fits_def by auto
  note h = ranges [THEN hwi_small]
  have hwi0: "hwi 0 = 0" by simp
  let ?i = "interrupt_handler ?st"
  define l where "l = (if fn_frame_size fn + outgoing_args fn + g = 0 \<and> \<not> ?i \<and> fn_is_leaf fn then 0 else 4 :: int)"
  have pos: "0 \<le> fn_frame_size fn + outgoing_args fn" using fits ob by (simp add: frame_fits_def)
  have fold: "fold (count_save ?must) gp_regs (0, 0) = (g, M)" using M(1) by (simp add: g_def)
  let ?tot = "fn_frame_size fn + outgoing_args fn + g + (if ?i then 4 else 0) + l"
  have eq: "(tot, st') = (?tot,
      ?st\<lparr>current_frame_info := (current_frame_info ?st)\<lparr>
              total_size := ?tot, var_size := fn_frame_size fn, args_size := outgoing_args fn,
              gp_reg_size := g, mask := M, initialized := reload_completed env,
              num_gp := g div 4, link_debug_size := l,
              gp_offset := (if M \<noteq> 0 then ?tot - g else 0)\<rparr>\<rparr>)"
  proof (cases ?i)
    case True
    then have "fn_frame_size fn + outgoing_args fn + g + 4 \<noteq> 0" "l = 4" using pos g by (auto simp: l_def)
    then show ?thesis using c [symmetric] True
      by (simp add: compute_frame_size_def Let_def fold h)
  next
    case False
    show ?thesis
    proof (cases "fn_frame_size fn + outgoing_args fn + g = 0 \<and> fn_is_leaf fn")
      case True
      then show ?thesis using c [symmetric] False
        by (auto simp: compute_frame_size_def Let_def fold h l_def hwi0)
    next
      case l: False
      then have "l = 4" using False by (auto simp: l_def)
      then show ?thesis using c [symmetric] False l
        by (simp add: compute_frame_size_def Let_def fold h)
    qed
  qed
  then have st': "st' = ?st\<lparr>current_frame_info := info\<rparr>" by (simp add: info_def)
  have i: "total_size info = ?tot" "mask info = M" "gp_reg_size info = g" "link_debug_size info = l"
      "gp_offset info = (if M \<noteq> 0 then ?tot - g else 0)" "interrupt_handler st' = ?i" "tot = ?tot"
      "initialized info = reload_completed env" "var_size info = fn_frame_size fn"
      "args_size info = outgoing_args fn"
    using eq by (simp_all add: info_def)
  show "st' = ?st\<lparr>current_frame_info := info\<rparr>" by (rule st')
  show "total_size info = tot" using i by simp
  show "\<forall>r < 32. BITSET_P (mask info) r \<longleftrightarrow> microblaze_must_save_register env fn st' r"
    using bits by (simp add: i st')
  show "gp_reg_size info = 4 * int (length slots)" using len by (simp add: slots_def i g_def)
  show "length slots \<le> 32" using len le32 by (simp add: slots_def i)
  show "link_debug_size info =
      (if fn_frame_size fn + outgoing_args fn + gp_reg_size info = 0 \<and> \<not> interrupt_handler st' \<and> fn_is_leaf fn
       then 0 else 4)" by (simp add: i l_def)
  show "tot = fn_frame_size fn + outgoing_args fn + gp_reg_size info
      + (if interrupt_handler st' then 4 else 0) + link_debug_size info" by (simp add: i)
  show "gp_offset info = (if mask info = 0 then 0 else tot - gp_reg_size info)" by (simp add: i)
  show "initialized info = reload_completed env" "var_size info = fn_frame_size fn"
    "args_size info = outgoing_args fn" by (simp_all add: i)
qed

section \<open>The emitted sequences\<close>

definition msr_save :: "int \<Rightarrow> rtx list" where
  "msr_save off = [SetX isr_reg_rtx isr_msr_rtx, SetX (frame_slot (off - 4)) isr_reg_rtx,
     Use isr_reg_rtx, Use isr_msr_rtx]"

definition msr_restore :: "int \<Rightarrow> rtx list" where
  "msr_restore off = [SetX isr_reg_rtx (frame_slot (off - 4)), SetX isr_msr_rtx isr_reg_rtx,
     Use isr_reg_rtx, Use isr_msr_rtx]"

definition saved_slots :: "fn_state \<Rightarrow> (nat \<times> int) list" where
  "saved_slots st =
     gp_slots (mask (current_frame_info st)) (gp_offset (current_frame_info st)) gp_regs"

definition keeps_link :: "fn_env \<Rightarrow> fn_state \<Rightarrow> bool" where
  "keeps_link fn st \<longleftrightarrow> \<not> fn_is_leaf fn \<or> interrupt_handler st"

definition link_slots :: "fn_env \<Rightarrow> fn_state \<Rightarrow> (nat \<times> int) list" where
  "link_slots fn st = (if keeps_link fn st then [(MB_ABI_SUB_RETURN_ADDR_REGNUM, 0)] else [])"

text \<open>The facts about a computed frame that the prologue and the epilogue rest on.\<close>

definition frame_ok :: "fn_env \<Rightarrow> fn_state \<Rightarrow> bool" where
  "frame_ok fn st \<longleftrightarrow>
    (let info = current_frame_info st in
       0 \<le> total_size info \<and> total_size info < 2 ^ 31
     \<and> (total_size info = 0 \<longrightarrow> saved_slots st = [] \<and> \<not> keeps_link fn st \<and> \<not> frame_pointer_needed fn)
     \<and> (total_size info > 0 \<longrightarrow>
          (frame_pointer_needed fn \<longrightarrow> BITSET_P (mask info) 19)
        \<and> (mask info \<noteq> 0 \<longrightarrow> 4 \<le> gp_offset info
            \<and> gp_offset info + 4 * int (length (saved_slots st)) = total_size info)
        \<and> (interrupt_handler st \<longrightarrow> 8 \<le> gp_offset info \<and> BITSET_P (mask info) 11)))"

lemma fold_save_restore:
  "fold (save_restore_reg p m) rs (off, st) =
     (off + 4 * int (length (gp_slots m off rs)),
      st\<lparr>emitted := emitted st @ map (save_insn p) (gp_slots m off rs)\<rparr>)"
proof (induction rs arbitrary: off st)
  case (Cons r rs)
  show ?case
  proof (cases "BITSET_P m r \<and> r \<noteq> 15")
    case True
    then have "save_restore_reg p m r (off, st) =
        (off + 4, st\<lparr>emitted := emitted st @ [save_insn p (r, off)]\<rparr>)"
      by (simp add: save_restore_reg_def save_insn_def emit_defs Let_def)
    with True show ?thesis by (simp add: Cons.IH)
  next
    case False
    then have "save_restore_reg p m r (off, st) = (off, st)"
      by (auto simp: save_restore_reg_def)
    then show ?thesis using False Cons.IH by auto
  qed
qed simp

lemma BITSET_P_0 [simp]: "\<not> BITSET_P 0 r"
  by (simp add: BITSET_P_def)

lemma gp_slots_0 [simp]: "gp_slots 0 off rs = []"
  by (induction rs arbitrary: off) simp_all

lemma save_restore_insns_emits:
  assumes ok: "frame_ok fn st" and pos: "0 < total_size (current_frame_info st)"
  shows "save_restore_insns p fn st = Some (st\<lparr>emitted := emitted st @
      (if p then map (save_insn True) (saved_slots st)
                 @ (if interrupt_handler st then msr_save (gp_offset (current_frame_info st)) else [])
       else (if interrupt_handler st then msr_restore (gp_offset (current_frame_info st)) else [])
            @ map (save_insn False) (saved_slots st))\<rparr>)"
proof (cases "mask (current_frame_info st) = 0")
  case True
  then have "\<not> frame_pointer_needed fn" "\<not> interrupt_handler st" "saved_slots st = []"
    using ok pos by (auto simp: frame_ok_def Let_def saved_slots_def)
  then show ?thesis using True by (simp add: save_restore_insns_def)
next
  case False
  then have fp: "frame_pointer_needed fn \<longrightarrow> BITSET_P (mask (current_frame_info st)) 19"
    and g: "\<not> gp_offset (current_frame_info st) \<le> 0"
    using ok pos by (auto simp: frame_ok_def Let_def)
  show ?thesis
    using False fp g
    by (cases p; cases "interrupt_handler st")
      (simp_all add: save_restore_insns_def Let_def fold_save_restore saved_slots_def
        msr_save_def msr_restore_def use_isr_regs_def emit_defs)
qed

lemma must_save_isr:
  "interrupt_handler st \<Longrightarrow> microblaze_must_save_register env fn st 11"
  by (simp add: microblaze_must_save_register_def Let_def)

lemma compute_frame_size_ok:
  assumes fits: "frame_fits fn"
    and c: "compute_frame_size env fn (fn_frame_size fn) st = (tot, st')"
  shows "frame_ok fn st'"
proof -
  note L = compute_frame_size_layout [OF fits c]
  let ?info = "current_frame_info st'"
  note ob = outgoing_args_bounds [OF fits]
  have len: "length (saved_slots st') \<le> 32" "gp_reg_size ?info = 4 * int (length (saved_slots st'))"
    using L(4,5) by (simp_all add: saved_slots_def)
  have bounds: "0 \<le> fn_frame_size fn" "0 \<le> outgoing_args fn"
    "fn_frame_size fn + outgoing_args fn + 136 < 2 ^ 31"
    using fits ob by (auto simp: frame_fits_def)
  have t0: "0 \<le> total_size ?info" "total_size ?info < 2 ^ 31"
    using L(2,6,7) bounds len by (auto split: if_splits)
  have gp_nonneg: "0 \<le> gp_reg_size ?info" using len by simp
  have link_nonneg: "0 \<le> link_debug_size ?info" using L(6) by simp
  have zero: "gp_reg_size ?info = 0" "link_debug_size ?info = 0" if "total_size ?info = 0"
    using L(2,7) bounds gp_nonneg link_nonneg that by (cases "interrupt_handler st'"; simp)+
  have unlinked: "\<not> keeps_link fn st'" if "total_size ?info = 0"
    using zero [OF that] L(6) by (auto simp: keeps_link_def split: if_splits)
  have fp: "r \<in> fst ` set (saved_slots st')"
    if "microblaze_must_save_register env fn st' r" "r < 32" "r \<noteq> 15" for r
  proof -
    have "r \<in> set (map fst (saved_slots st'))"
      unfolding saved_slots_def gp_slots_fst using that L(3) by simp
    then show ?thesis by simp
  qed
  have fp19: "microblaze_must_save_register env fn st' 19" if "frame_pointer_needed fn"
    using that by (simp add: microblaze_must_save_register_def Let_def)
  note int11 = must_save_isr
  have empty: "saved_slots st' = []" if "total_size ?info = 0" using zero [OF that] len by simp
  have nofp: "\<not> frame_pointer_needed fn" if "total_size ?info = 0"
    using empty [OF that] fp [of 19] fp19 by auto
  have link: "link_debug_size ?info = 4" if "0 < total_size ?info"
    using L(2,6,7) that by (auto split: if_splits)
  have bit19: "frame_pointer_needed fn \<Longrightarrow> BITSET_P (mask ?info) 19" using L(3) fp19 by simp
  have bit11: "interrupt_handler st' \<Longrightarrow> BITSET_P (mask ?info) 11" using L(3) int11 by simp
  have nm: "interrupt_handler st' \<Longrightarrow> mask ?info \<noteq> 0" using bit11 by auto
  have gpo: "gp_offset ?info = total_size ?info - gp_reg_size ?info" if "mask ?info \<noteq> 0"
    using that L(2,8) by simp
  have base: "4 \<le> total_size ?info - gp_reg_size ?info"
    "interrupt_handler st' \<Longrightarrow> 8 \<le> total_size ?info - gp_reg_size ?info" if "0 < total_size ?info"
    using link [OF that] L(2,7) bounds by (auto split: if_splits)
  have pos: "0 < total_size ?info \<Longrightarrow> (frame_pointer_needed fn \<longrightarrow> BITSET_P (mask ?info) 19)
        \<and> (mask ?info \<noteq> 0 \<longrightarrow> 4 \<le> gp_offset ?info
            \<and> gp_offset ?info + 4 * int (length (saved_slots st')) = total_size ?info)
        \<and> (interrupt_handler st' \<longrightarrow> 8 \<le> gp_offset ?info \<and> BITSET_P (mask ?info) 11)"
    using bit19 bit11 gpo base len(2) nm by simp
  show ?thesis
    unfolding frame_ok_def Let_def using t0 unlinked empty nofp pos by blast
qed

section \<open>The areas of a frame\<close>

text \<open>Start and length of the link word, the outgoing arguments, the local variables
  (from \<open>STARTING_FRAME_OFFSET\<close>), the status register of an interrupt handler and the
  saved registers.\<close>

definition STARTING_FRAME_OFFSET :: "fn_env \<Rightarrow> int" where
  "STARTING_FRAME_OFFSET fn = fn_outgoing_args_size fn + int UNITS_PER_WORD"

definition frame_areas :: "fn_env \<Rightarrow> fn_state \<Rightarrow> (int \<times> int) list" where
  "frame_areas fn st =
    [(0, link_debug_size (current_frame_info st)), (4, fn_outgoing_args_size fn),
     (STARTING_FRAME_OFFSET fn, fn_frame_size fn)]
    @ (if interrupt_handler st then [(gp_offset (current_frame_info st) - 4, 4)] else [])
    @ map (\<lambda>(r, k). (k, 4)) (saved_slots st)"

lemma saved_slots_bounds:
  assumes "frame_ok fn st" "x \<in> set (saved_slots st)"
  shows "4 \<le> gp_offset (current_frame_info st)" "gp_offset (current_frame_info st) \<le> snd x"
    "snd x + 4 \<le> total_size (current_frame_info st)"
proof -
  have "mask (current_frame_info st) \<noteq> 0" "0 < total_size (current_frame_info st)"
    using assms by (auto simp: saved_slots_def frame_ok_def Let_def order.order_iff_strict)
  then show "4 \<le> gp_offset (current_frame_info st)" "gp_offset (current_frame_info st) \<le> snd x"
    "snd x + 4 \<le> total_size (current_frame_info st)"
    using assms gp_slots_bounds [of x "mask (current_frame_info st)" "gp_offset (current_frame_info st)" gp_regs]
    by (auto simp: frame_ok_def Let_def saved_slots_def)
qed

lemma saved_registers:
  assumes "frame_fits fn" "compute_frame_size env fn (fn_frame_size fn) st = (tot, st')"
  shows "fst ` set (saved_slots st') = {r. r < 32 \<and> r \<noteq> 15 \<and> microblaze_must_save_register env fn st' r}"
proof -
  have "fst ` set (saved_slots st') = set (map fst (saved_slots st'))" by simp
  also have "\<dots> = {r. r < 32 \<and> r \<noteq> 15 \<and> microblaze_must_save_register env fn st' r}"
    unfolding saved_slots_def gp_slots_fst using compute_frame_size_layout(3) [OF assms] by auto
  finally show ?thesis .
qed

text \<open>Where the areas of a computed frame are.\<close>

lemma frame_area_bounds:
  assumes "frame_fits fn" "compute_frame_size env fn (fn_frame_size fn) st = (tot, st')"
  defines "info \<equiv> current_frame_info st'"
  shows "0 \<le> link_debug_size info" "link_debug_size info \<le> 4" "link_debug_size info \<le> tot"
    and "0 < fn_frame_size fn + outgoing_args fn \<Longrightarrow> fn_frame_size fn + outgoing_args fn + 4 \<le> tot"
    and "interrupt_handler st' \<Longrightarrow>
      fn_frame_size fn + outgoing_args fn + 4 = gp_offset info - 4 \<and> gp_offset info \<le> tot"
    and "(r, k) \<in> set (saved_slots st') \<Longrightarrow>
      fn_frame_size fn + outgoing_args fn + 4 \<le> k \<and> gp_offset info \<le> k \<and> k + 4 \<le> tot"
proof -
  note L = compute_frame_size_layout [OF assms(1,2)]
  note ok = compute_frame_size_ok [OF assms(1,2)]
  note ob = outgoing_args_bounds [OF assms(1)]
  have fits: "0 \<le> fn_frame_size fn" "0 \<le> fn_outgoing_args_size fn"
    using assms(1) by (auto simp: frame_fits_def)
  show link_le: "0 \<le> link_debug_size info" "link_debug_size info \<le> 4"
    using L(6) by (auto simp: info_def)
  have off: "gp_offset info =
      fn_frame_size fn + outgoing_args fn + (if interrupt_handler st' then 4 else 0) + link_debug_size info"
    if "mask info \<noteq> 0" using that L(7,8) by (simp add: info_def)
  have int: "mask info \<noteq> 0" if "interrupt_handler st'"
    using that L(3) must_save_isr [of st' env fn] BITSET_P_0 [of 11]
    by (metis (full_types) info_def numeral_less_iff semiring_norm(76,78,80,81))
  have link: "link_debug_size info = 4" if "saved_slots st' \<noteq> [] \<or> interrupt_handler st'"
  proof -
    have "gp_reg_size info > 0 \<or> interrupt_handler st'"
      using that L(4) by (auto simp: saved_slots_def info_def)
    then show ?thesis using L(6) ob fits by (auto simp: info_def)
  qed
  show "link_debug_size info \<le> tot"
    "0 < fn_frame_size fn + outgoing_args fn \<Longrightarrow> fn_frame_size fn + outgoing_args fn + 4 \<le> tot"
    using L(4,6,7) ob fits by (auto simp: info_def split: if_splits)
  show "fn_frame_size fn + outgoing_args fn + 4 = gp_offset info - 4 \<and> gp_offset info \<le> tot"
    if "interrupt_handler st'"
    using off [OF int [OF that]] link that L(4,7) by (simp add: info_def)
  assume rk: "(r, k) \<in> set (saved_slots st')"
  then have "mask info \<noteq> 0" "saved_slots st' \<noteq> []" by (auto simp: saved_slots_def info_def)
  then show "fn_frame_size fn + outgoing_args fn + 4 \<le> k \<and> gp_offset info \<le> k \<and> k + 4 \<le> tot"
    using saved_slots_bounds [OF ok rk] L(2) off link by (auto simp: info_def split: if_splits)
qed

text \<open>C6. The areas of a computed frame lie one after another inside the frame: the link
  word, the arguments of the calls the function makes, its variables, the status register an
  interrupt handler saves and one word per saved register never overlap, and every
  register that must be saved, other than the return address in the link word, has its slot.\<close>

theorem frame_areas_disjoint:
  assumes "frame_fits fn" "compute_frame_size env fn (fn_frame_size fn) st = (tot, st')"
  shows "sorted_wrt (\<lambda>a b. fst a + snd a \<le> fst b) (frame_areas fn st')
    \<and> (\<forall>a \<in> set (frame_areas fn st'). 0 < snd a \<longrightarrow> 0 \<le> fst a \<and> fst a + snd a \<le> tot)
    \<and> set (map fst (saved_slots st')) =
        {r. r < 32 \<and> r \<noteq> 15 \<and> microblaze_must_save_register env fn st' r}"
proof -
  note B = frame_area_bounds [OF assms]
  note ob = outgoing_args_bounds [OF assms(1)]
  have fits: "0 \<le> fn_frame_size fn" "0 \<le> fn_outgoing_args_size fn"
    using assms(1) by (auto simp: frame_fits_def)
  have asc: "sorted_wrt (\<lambda>a b. fst a + snd a \<le> fst b) (map (\<lambda>(r, k). (k, 4)) (saved_slots st'))"
    using gp.ascending [of "mask (current_frame_info st')" "gp_offset (current_frame_info st')"]
    by (simp add: saved_slots_def sorted_wrt_map case_prod_beta)
  have slot: "link_debug_size (current_frame_info st') \<le> k" "4 + fn_outgoing_args_size fn \<le> k"
      "fn_outgoing_args_size fn + 4 + fn_frame_size fn \<le> k" "gp_offset (current_frame_info st') \<le> k"
      "0 \<le> k" "k + 4 \<le> tot"
    if "(r, k) \<in> set (saved_slots st')" for r k
    using B(6) [OF that] B(1,2) ob fits by auto
  have "sorted_wrt (\<lambda>a b. fst a + snd a \<le> fst b) (frame_areas fn st')"
    using asc B(1,2,5) ob fits slot
    by (auto simp: frame_areas_def sorted_wrt_append STARTING_FRAME_OFFSET_def)
  moreover have "\<forall>a \<in> set (frame_areas fn st'). 0 < snd a \<longrightarrow> 0 \<le> fst a \<and> fst a + snd a \<le> tot"
    using B(1-5) slot ob fits by (auto simp: frame_areas_def STARTING_FRAME_OFFSET_def)
  ultimately show ?thesis using saved_registers [OF assms] by simp
qed

end
