(* ===== verification/FrameRun.thy ===== *)
theory FrameRun
  imports FrameSpec
begin

text \<open>
  Running the prologue and the epilogue: the stack pointer, the saved registers, the return
  address and the machine status come back as they were, and the unnamed arguments of a
  variable-argument function are homed where the caller's stack arguments continue.
\<close>

section \<open>The frame sequences\<close>

definition frame_in :: "fn_env \<Rightarrow> fn_state \<Rightarrow> rtx list" where
  "frame_in fn st =
    SetX stack_pointer_rtx (Minus stack_pointer_rtx (ConstInt (total_size (current_frame_info st))))
    # map (save_insn True) (link_slots fn st) @ map (save_insn True) (saved_slots st)
    @ (if interrupt_handler st then msr_save (gp_offset (current_frame_info st)) else [])
    @ (if frame_pointer_needed fn then [SetX hard_frame_pointer_rtx stack_pointer_rtx] else [])"

definition frame_out :: "fn_env \<Rightarrow> fn_state \<Rightarrow> rtx list" where
  "frame_out fn st =
    map (save_insn False) (link_slots fn st)
    @ (if frame_pointer_needed fn then [SetX stack_pointer_rtx hard_frame_pointer_rtx] else [])
    @ (if interrupt_handler st then msr_restore (gp_offset (current_frame_info st)) else [])
    @ map (save_insn False) (saved_slots st)
    @ [blockage,
       SetX stack_pointer_rtx (Plus stack_pointer_rtx (ConstInt (total_size (current_frame_info st))))]"

lemma emitted_irrelevant [simp]:
  "frame_ok fn (st\<lparr>emitted := e\<rparr>) = frame_ok fn st"
  "saved_slots (st\<lparr>emitted := e\<rparr>) = saved_slots st"
  "link_slots fn (st\<lparr>emitted := e\<rparr>) = link_slots fn st"
  "keeps_link fn (st\<lparr>emitted := e\<rparr>) = keeps_link fn st"
  by (simp_all add: frame_ok_def saved_slots_def link_slots_def keeps_link_def)

lemma link_slot_eq: "link_slot = frame_slot 0" "link_reg = Reg SImode 15"
  by (simp_all add: link_slot_def frame_slot_def link_reg_def)

lemma prologue_frame_emits:
  assumes "frame_ok fn st" "0 < total_size (current_frame_info st)"
  shows "prologue_frame fn (total_size (current_frame_info st)) st =
     Some (st\<lparr>emitted := emitted st @ frame_in fn st\<rparr>)"
proof -
  let ?st = "\<lambda>e. st\<lparr>emitted := e\<rparr>"
  have "save_restore_insns True fn (?st e) =
      Some (?st (e @ map (save_insn True) (saved_slots st)
        @ (if interrupt_handler st then msr_save (gp_offset (current_frame_info st)) else [])))" for e
    using save_restore_insns_emits [of fn "?st e" True] assms by simp
  with assms show ?thesis
    by (auto simp: prologue_frame_def frame_in_def emit_defs link_slot_eq link_slots_def
        keeps_link_def save_insn_def Let_def)
qed

lemma epilogue_emits:
  assumes "frame_ok fn st" "0 < total_size (current_frame_info st)"
    and "initialized (current_frame_info st) = reload_completed env"
  shows "microblaze_expand_epilogue env fn st =
     Some (st\<lparr>emitted := emitted st @ frame_out fn st @ [return_internal]\<rparr>)"
proof -
  let ?st = "\<lambda>e. st\<lparr>emitted := e\<rparr>"
  have r: "save_restore_insns False fn (?st e) =
      Some (?st (e @ (if interrupt_handler st then msr_restore (gp_offset (current_frame_info st)) else [])
        @ map (save_insn False) (saved_slots st)))" for e
    using save_restore_insns_emits [of fn "?st e" False] assms by simp
  have r0: "save_restore_insns False fn st =
      Some (?st (emitted st @ (if interrupt_handler st then msr_restore (gp_offset (current_frame_info st)) else [])
        @ map (save_insn False) (saved_slots st)))"
    using r [of "emitted st"] by simp
  have "microblaze_can_use_return_insn env fn st = (False, st)"
    using assms by (simp add: microblaze_can_use_return_insn_def)
  with assms r r0 show ?thesis
    by (auto simp: microblaze_expand_epilogue_def frame_out_def emit_defs link_slot_eq link_slots_def
        keeps_link_def save_insn_def Let_def)
qed

lemma epilogue_empty_frame:
  assumes "total_size (current_frame_info st) = 0"
    and "initialized (current_frame_info st) = reload_completed env"
  shows "microblaze_expand_epilogue env fn st =
     Some (st\<lparr>emitted := emitted st @ [return_internal]\<rparr>)"
  using assms
  by (auto simp: microblaze_expand_epilogue_def microblaze_can_use_return_insn_def emit_defs Let_def)

section \<open>Running them\<close>

interpretation link: slot_area "link_slots fn st" for fn st
  by unfold_locales (simp_all add: link_slots_def)

lemma slot_addr_0 [simp]: "slot_addr sp 0 = sp"
  by (simp add: slot_addr_def)

lemma saved_slot_range:
  assumes "frame_ok fn st" "(r, k) \<in> set (saved_slots st)"
  shows "slot_ok k" "4 \<le> k" "gp_offset (current_frame_info st) \<le> k" "r < 32" "r \<noteq> 15"
proof -
  have "total_size (current_frame_info st) < 2 ^ 31" using assms(1) by (simp add: frame_ok_def Let_def)
  then show "slot_ok k" "4 \<le> k" "gp_offset (current_frame_info st) \<le> k"
    using saved_slots_bounds [OF assms] by (auto simp: slot_ok_def)
  have "r \<in> set (map fst (saved_slots st))" using assms(2) by force
  then show "r < 32" "r \<noteq> 15" unfolding saved_slots_def gp_slots_fst by auto
qed

lemma msr_slot_range:
  assumes "frame_ok fn st" "interrupt_handler st"
  shows "slot_ok (gp_offset (current_frame_info st) - 4)" "4 \<le> gp_offset (current_frame_info st) - 4"
    "0 < total_size (current_frame_info st)"
proof -
  have k: "keeps_link fn st" using assms(2) by (simp add: keeps_link_def)
  then show pos: "0 < total_size (current_frame_info st)"
    using assms(1) by (auto simp: frame_ok_def Let_def order.order_iff_strict)
  have g: "8 \<le> gp_offset (current_frame_info st)" "mask (current_frame_info st) \<noteq> 0"
    using assms pos by (auto simp: frame_ok_def Let_def)
  then have "gp_offset (current_frame_info st) \<le> total_size (current_frame_info st)"
    "total_size (current_frame_info st) < 2 ^ 31"
    using assms pos by (auto simp: frame_ok_def Let_def)
  then show "slot_ok (gp_offset (current_frame_info st) - 4)" "4 \<le> gp_offset (current_frame_info st) - 4"
    using g by (auto simp: slot_ok_def)
qed

lemma run_msr_save:
  "rtl_run (msr_save g) s =
     Some (s\<lparr>regs := (regs s)(11 := regs s 35),
            mem := store32 (mem s) (slot_addr (regs s 1) (g - 4)) (regs s 35)\<rparr>)"
  by (simp add: msr_save_def isr_reg_rtx_def isr_msr_rtx_def rtl_exec_store)

lemma run_msr_restore:
  "rtl_run (msr_restore g) s =
     Some (s\<lparr>regs := (regs s)(11 := load32 (mem s) (slot_addr (regs s 1) (g - 4)),
                             35 := load32 (mem s) (slot_addr (regs s 1) (g - 4)))\<rparr>)"
  by (simp add: msr_restore_def isr_reg_rtx_def isr_msr_rtx_def rtl_val_slot)

lemma frame_in_run:
  fixes s :: mstate
  assumes ok: "frame_ok fn st" and pos: "0 < total_size (current_frame_info st)"
  defines "sp1 \<equiv> regs s 1 - word_of_int (total_size (current_frame_info st))"
  shows "\<exists>s1. rtl_run (frame_in fn st) s = Some s1 \<and> regs s1 1 = sp1 \<and> got_base s1 = got_base s
    \<and> (keeps_link fn st \<longrightarrow> load32 (mem s1) sp1 = regs s 15)
    \<and> (\<forall>r k. (r, k) \<in> set (saved_slots st) \<longrightarrow>
         load32 (mem s1) (slot_addr sp1 k) = (if r = 1 then sp1 else regs s r))
    \<and> (interrupt_handler st \<longrightarrow>
         load32 (mem s1) (slot_addr sp1 (gp_offset (current_frame_info st) - 4)) = regs s 35)
    \<and> (frame_pointer_needed fn \<longrightarrow> regs s1 19 = sp1)"
proof -
  define sa where "sa = s\<lparr>regs := (regs s)(1 := sp1)\<rparr>"
  have sa: "regs sa 1 = sp1" "\<And>r. r \<noteq> 1 \<Longrightarrow> regs sa r = regs s r" by (simp_all add: sa_def)
  have okl: "\<forall>x \<in> set (link_slots fn st). slot_ok (snd x)" by (auto simp: link_slots_def slot_ok_def)
  obtain m1 where m1: "rtl_run (map (save_insn True) (link_slots fn st)) sa = Some (sa\<lparr>mem := m1\<rparr>)"
    "\<And>r k. (r, k) \<in> set (link_slots fn st) \<Longrightarrow> load32 m1 (slot_addr sp1 k) = regs sa r"
    using link.run_stores [OF okl, of sa thesis] sa(1) by auto
  define sb where "sb = sa\<lparr>mem := m1\<rparr>"
  have sb: "regs sb = regs sa" "mem sb = m1" by (simp_all add: sb_def)
  have okg: "\<forall>x \<in> set (saved_slots st). slot_ok (snd x)" using saved_slot_range(1) [OF ok] by auto
  obtain m2 where m2: "rtl_run (map (save_insn True) (saved_slots st)) sb = Some (sb\<lparr>mem := m2\<rparr>)"
    "\<And>r k. (r, k) \<in> set (saved_slots st) \<Longrightarrow> load32 m2 (slot_addr sp1 k) = regs sa r"
    "\<And>k. slot_ok k \<Longrightarrow> (\<And>x. x \<in> set (saved_slots st) \<Longrightarrow> k + 4 \<le> snd x \<or> snd x + 4 \<le> k)
        \<Longrightarrow> load32 m2 (slot_addr sp1 k) = load32 m1 (slot_addr sp1 k)"
    using gp.run_stores [of "mask (current_frame_info st)" "gp_offset (current_frame_info st)" sb thesis,
        folded saved_slots_def] okg sa(1) sb by auto
  have lk: "load32 m2 sp1 = regs s 15" if "keeps_link fn st"
  proof -
    have "load32 m2 (slot_addr sp1 0) = load32 m1 (slot_addr sp1 0)"
      using saved_slot_range(2) [OF ok] by (intro m2(3)) (auto simp: slot_ok_def)
    also have "\<dots> = regs sa 15" using that by (intro m1(2)) (simp add: link_slots_def)
    finally show ?thesis using sa by simp
  qed
  let ?g = "gp_offset (current_frame_info st)"
  define m3 where "m3 = (if interrupt_handler st then store32 m2 (slot_addr sp1 (?g - 4)) (regs s 35) else m2)"
  have m3: "load32 m3 (slot_addr sp1 k) = load32 m2 (slot_addr sp1 k)"
    if "slot_ok k" "interrupt_handler st \<Longrightarrow> k + 4 \<le> ?g - 4 \<or> ?g \<le> k" for k
    using that slot_apart [of "?g - 4" k sp1] msr_slot_range [OF ok] by (auto simp: m3_def)
  define r3 where "r3 = (if interrupt_handler st then (regs sa)(11 := regs s 35) else regs sa)"
  define s1 where "s1 = sa\<lparr>regs := (if frame_pointer_needed fn then r3(19 := sp1) else r3), mem := m3\<rparr>"
  have "rtl_run (frame_in fn st) s = Some s1"
  proof -
    have step: "rtl_run (SetX stack_pointer_rtx (Minus stack_pointer_rtx
         (ConstInt (total_size (current_frame_info st)))) # is) s = rtl_run is sa" for "is"
      by (simp add: stack_pointer_rtx_def sa_def sp1_def)
    show ?thesis
      using m2(1) sa(1) sa(2) [of 35]
      unfolding frame_in_def step
      by (simp add: rtl_run_append m1(1) sb_def run_msr_save s1_def r3_def m3_def
          hard_frame_pointer_rtx_def stack_pointer_rtx_def)
  qed
  moreover have "regs s1 1 = sp1" "got_base s1 = got_base s" "frame_pointer_needed fn \<longrightarrow> regs s1 19 = sp1"
    using sa by (simp_all add: s1_def r3_def sa_def)
  moreover have "keeps_link fn st \<longrightarrow> load32 (mem s1) sp1 = regs s 15"
    using m3 [of 0] lk msr_slot_range(2) [OF ok] by (auto simp: s1_def slot_ok_def)
  moreover have "load32 (mem s1) (slot_addr sp1 k) = (if r = 1 then sp1 else regs s r)"
    if "(r, k) \<in> set (saved_slots st)" for r k
  proof -
    have "load32 m3 (slot_addr sp1 k) = load32 m2 (slot_addr sp1 k)"
      using saved_slot_range [OF ok that] by (intro m3) auto
    then show ?thesis using m2(2) [OF that] sa by (simp add: s1_def)
  qed
  moreover have "interrupt_handler st \<longrightarrow> load32 (mem s1) (slot_addr sp1 (?g - 4)) = regs s 35"
    by (simp add: s1_def m3_def)
  ultimately show ?thesis by blast
qed

lemma frame_out_run:
  fixes s :: mstate
  assumes ok: "frame_ok fn st" and pos: "0 < total_size (current_frame_info st)"
    and sp: "if frame_pointer_needed fn then regs s 19 = sp1 else regs s 1 = sp1"
    and lk: "keeps_link fn st \<Longrightarrow> load32 (mem s) (regs s 1) = ra"
    and gp: "\<And>r k. (r, k) \<in> set (saved_slots st) \<Longrightarrow> load32 (mem s) (slot_addr sp1 k) = v r"
    and v1: "v 1 = sp1"
    and msr: "interrupt_handler st \<Longrightarrow>
      load32 (mem s) (slot_addr sp1 (gp_offset (current_frame_info st) - 4)) = w"
  shows "\<exists>s3. rtl_run (frame_out fn st) s = Some s3
    \<and> regs s3 1 = sp1 + word_of_int (total_size (current_frame_info st))
    \<and> regs s3 15 = (if keeps_link fn st then ra else regs s 15)
    \<and> (\<forall>r k. (r, k) \<in> set (saved_slots st) \<longrightarrow> r \<noteq> 1 \<longrightarrow> regs s3 r = v r)
    \<and> (interrupt_handler st \<longrightarrow> regs s3 35 = w)"
proof -
  have l1: "\<not> (1, k) \<in> set (link_slots fn st)" for k by (auto simp: link_slots_def)
  define f1 where "f1 = (if keeps_link fn st then (regs s)(15 := ra) else regs s)"
  define sa where "sa = s\<lparr>regs := f1\<rparr>"
  have run1: "rtl_run (map (save_insn False) (link_slots fn st)) s = Some sa"
    using lk by (simp add: link_slots_def sa_def f1_def save_insn_def rtl_val_slot)
  define sb where "sb = sa\<lparr>regs := f1(1 := sp1)\<rparr>"
  have run2: "rtl_run (if frame_pointer_needed fn then [SetX stack_pointer_rtx hard_frame_pointer_rtx] else []) sa
      = Some sb"
  proof (cases "frame_pointer_needed fn")
    case True
    then show ?thesis using sp
      by (simp add: stack_pointer_rtx_def hard_frame_pointer_rtx_def sa_def sb_def f1_def)
  next
    case False
    have "f1(1 := sp1) = f1" using sp False by (simp add: f1_def fun_upd_idem_iff)
    then show ?thesis using False by (simp add: sb_def sa_def)
  qed
  define sc where "sc = sb\<lparr>regs := (if interrupt_handler st then (regs sb)(11 := w, 35 := w) else regs sb)\<rparr>"
  have mem: "mem sb = mem s" "regs sb 1 = sp1" by (simp_all add: sb_def sa_def)
  have run3: "rtl_run (if interrupt_handler st then msr_restore (gp_offset (current_frame_info st)) else []) sb
      = Some sc"
    using msr mem by (simp add: run_msr_restore sc_def)
  have sc: "mem sc = mem s" "regs sc 1 = sp1" using mem by (simp_all add: sc_def)
  obtain f where f: "rtl_run (map (save_insn False) (saved_slots st)) sc = Some (sc\<lparr>regs := f\<rparr>)"
    "\<And>r k. (r, k) \<in> set (saved_slots st) \<Longrightarrow> f r = load32 (mem s) (slot_addr sp1 k)"
    "\<And>r. r \<notin> fst ` set (saved_slots st) \<Longrightarrow> f r = regs sc r"
    using gp.run_loads [of "mask (current_frame_info st)" "gp_offset (current_frame_info st)" sc thesis,
        folded saved_slots_def] gp v1 unfolding sc by auto
  have f1sp: "f 1 = sp1"
  proof (cases "1 \<in> fst ` set (saved_slots st)")
    case True
    then obtain k where "(1, k) \<in> set (saved_slots st)" by force
    then show ?thesis using f(2) gp v1 by simp
  next
    case False
    then show ?thesis using f(3) sc by simp
  qed
  have out: "x \<notin> fst ` set (saved_slots st)" if "x = 15 \<or> 32 \<le> x" for x
    using saved_slot_range(4,5) [OF ok] that by force
  define s3 where "s3 = sc\<lparr>regs := f(1 := sp1 + word_of_int (total_size (current_frame_info st)))\<rparr>"
  have "rtl_run (frame_out fn st) s = Some s3"
    unfolding frame_out_def
    by (simp only: rtl_run_append run1 option.case run2 run3 f(1))
      (simp add: blockage_def stack_pointer_rtx_def s3_def f1sp [simplified])
  moreover have "regs s3 15 = (if keeps_link fn st then ra else regs s 15)"
    using f(3) out [of 15] by (simp add: s3_def sc_def sb_def f1_def)
  moreover have "\<forall>r k. (r, k) \<in> set (saved_slots st) \<longrightarrow> r \<noteq> 1 \<longrightarrow> regs s3 r = v r"
    using f(2) gp by (simp add: s3_def)
  moreover have "interrupt_handler st \<longrightarrow> regs s3 35 = w"
    using f(3) out [of 35] by (simp add: s3_def sc_def)
  moreover have "regs s3 1 = sp1 + word_of_int (total_size (current_frame_info st))"
    by (simp add: s3_def)
  ultimately show ?thesis by blast
qed

section \<open>The parameters\<close>

fun home_code :: "nat list \<Rightarrow> int \<Rightarrow> rtx \<Rightarrow> rtx list" where
  "home_code [] offset ptr = []"
| "home_code (regno # rest) offset ptr =
    (let ptr = (if offset \<noteq> 0 then Plus stack_pointer_rtx (ConstInt offset) else ptr)
     in SetX (Mem SImode ptr) (Reg SImode regno) # home_code rest (offset + 4) ptr)"

lemma home_arguments_emits:
  "home_arguments rs off ptr st = st\<lparr>emitted := emitted st @ home_code rs off ptr\<rparr>"
  by (induction rs off ptr st rule: home_arguments.induct) (simp_all add: emit_defs Let_def)

lemma function_arg_adjust: "function_arg cum mode = Some (cum', r) \<Longrightarrow> adjust cum' = adjust cum"
  by (auto simp: function_arg_def Let_def split: if_splits)

lemma function_arg_advance_adjust:
  "function_arg_advance cum mode n = Some cum' \<Longrightarrow> adjust cum' = adjust cum"
  by (auto simp: function_arg_advance_def Let_def split: if_splits)

lemma scan_arguments_adjust:
  "scan_arguments cum regno args = Some (cum', r, n) \<Longrightarrow> adjust cum' = adjust cum"
proof (induction cum regno args rule: scan_arguments.induct)
  case (2 cum regno type name next_arg)
  let ?m = "if type_addressable type then Pmode else type_mode type"
  obtain c x where fa: "function_arg cum ?m = Some (c, x)"
    using "2.prems" by (auto simp: Let_def split: option.splits)
  note adj = function_arg_adjust [OF fa]
  show ?case
  proof (cases x)
    case None
    with "2.prems" fa adj show ?thesis by (auto simp: Let_def)
  next
    case (Some y)
    with "2.prems" fa obtain m k where y: "y = Reg m k" by (cases y) (auto simp: Let_def)
    let ?t = "if type_addressable type then build_pointer_type type else type"
    obtain c' where ad: "function_arg_advance c ?m (type_size ?t) = Some c'"
      using "2.prems" fa Some y by (auto simp: Let_def split: option.splits)
    note adj' = function_arg_advance_adjust [OF ad]
    show ?thesis
    proof (cases "next_arg = []")
      case True
      then show ?thesis using "2.prems" fa Some y ad adj adj' by (auto simp: Let_def)
    next
      case False
      then show ?thesis
        using "2.IH" [OF refl refl fa, of c "Some y" y m k] "2.prems" fa Some y ad adj adj'
        by (auto simp: Let_def)
    qed
  qed
qed auto

lemma init_adjust [simp]: "adjust (init_cumulative_args ts) = []"
proof -
  have "adjust (scan_params ts c) = adjust c" for c
    by (induction ts arbitrary: c) (simp_all add: Let_def)
  then show ?thesis by (simp add: init_cumulative_args_def zero_cum_def)
qed

text \<open>The parameters' part of the prologue: the frame is computed, and only homing stores
  are emitted.\<close>

definition homing :: "fn_env \<Rightarrow> int \<Rightarrow> string option \<Rightarrow> rtx list" where
  "homing fn regno arg_name =
    (if varargs_function fn arg_name
     then home_code [nat regno..<11] ((regno - 4) * 4) stack_pointer_rtx else [])"

definition fn_parameters :: "fn_env \<Rightarrow> (ctype \<times> string option) list" where
  "fn_parameters fn =
    (if fn_struct_value fn then [(build_pointer_type void_type_node, None)] else []) @ fn_arguments fn"

lemma prologue_arguments_emits:
  assumes "scan_arguments (init_cumulative_args (fn_arg_types fn)) 5 (fn_parameters fn) = Some (cum, regno, arg_name)"
    and "compute_frame_size env fn (fn_frame_size fn) st = (fsiz, st')"
  shows "prologue_arguments env fn st =
    Some (fsiz, st'\<lparr>emitted := emitted st' @ homing fn regno arg_name\<rparr>)"
proof -
  have "adjust cum = []" using scan_arguments_adjust [OF assms(1)] by simp
  then obtain c where fa: "function_arg cum VOIDmode = Some (c, if arg_words cum < 6 then Some (Reg VOIDmode (nat (5 + arg_words cum))) else None)"
    by (auto simp: function_arg_def passable_def Let_def)
  have "(case (if arg_words cum < 6 then Some (Reg VOIDmode (nat (5 + arg_words cum))) else None) of
          Some (Parallel patterns) \<Rightarrow> fold emit_insn patterns st | _ \<Rightarrow> st) = st"
    by simp
  then show ?thesis
    using assms fa
    by (simp add: prologue_arguments_def fn_parameters_def homing_def home_arguments_emits Let_def
        numeral_eq_Suc [of "num.One"] algebra_simps)
qed

lemma home_code_run:
  "(\<And>s. rtl_val s ptr \<noteq> None) \<Longrightarrow> \<exists>m. rtl_run (home_code rs off ptr) s = Some (s\<lparr>mem := m\<rparr>)"
proof (induction rs arbitrary: off ptr s)
  case Nil
  show ?case by (intro exI [of _ "mem s"]) simp
next
  case (Cons r rs)
  let ?p = "if off \<noteq> 0 then Plus stack_pointer_rtx (ConstInt off) else ptr"
  have p: "rtl_val s ?p \<noteq> None" for s using Cons.prems by (auto simp: stack_pointer_rtx_def)
  then obtain a where a: "rtl_val s ?p = Some a" by fastforce
  define s1 where "s1 = s\<lparr>mem := store32 (mem s) a (regs s r)\<rparr>"
  obtain m where "rtl_run (home_code rs (off + 4) ?p) s1 = Some (s1\<lparr>mem := m\<rparr>)"
    using Cons.IH [OF p] by blast
  then show ?case using a by (auto simp: Let_def s1_def split: if_splits)
qed

text \<open>What a body must keep of the frame the prologue set up: the register the epilogue
  finds the frame with, the return address at the current stack top, and the saved words.\<close>

definition body_keeps :: "fn_env \<Rightarrow> fn_state \<Rightarrow> mstate \<Rightarrow> mstate \<Rightarrow> bool" where
  "body_keeps fn st s1 s2 \<longleftrightarrow>
    (if frame_pointer_needed fn then regs s2 19 = regs s1 19 else regs s2 1 = regs s1 1)
    \<and> (keeps_link fn st \<longrightarrow> load32 (mem s2) (regs s2 1) = load32 (mem s1) (regs s1 1))
    \<and> (\<forall>(r, k) \<in> set (saved_slots st).
         load32 (mem s2) (slot_addr (regs s1 1) k) = load32 (mem s1) (slot_addr (regs s1 1) k))
    \<and> (interrupt_handler st \<longrightarrow>
         load32 (mem s2) (slot_addr (regs s1 1) (gp_offset (current_frame_info st) - 4)) =
         load32 (mem s1) (slot_addr (regs s1 1) (gp_offset (current_frame_info st) - 4)))"

text \<open>What the epilogue brings back, of the state \<open>s0\<close> before the prologue, after a body that ended in \<open>s2\<close>: the
  return address has a slot only in a function that calls others and in an interrupt handler, and is otherwise what
  the body left in \<open>r15\<close>.\<close>

definition restored :: "cc_env \<Rightarrow> fn_env \<Rightarrow> fn_state \<Rightarrow> mstate \<Rightarrow> mstate \<Rightarrow> mstate \<Rightarrow> bool" where
  "restored env fn st s0 s2 s3 \<longleftrightarrow>
    regs s3 1 = regs s0 1
    \<and> (\<forall>r < 32. microblaze_must_save_register env fn st r \<and> r \<noteq> 15 \<longrightarrow> regs s3 r = regs s0 r)
    \<and> regs s3 15 = (if \<not> fn_is_leaf fn \<or> interrupt_handler st then regs s0 15 else regs s2 15)
    \<and> (interrupt_handler st \<longrightarrow> regs s3 ST_REG_FIRST = regs s0 ST_REG_FIRST)"

lemma frame_round_trip:
  fixes s0 :: mstate
  assumes ok: "frame_ok fn st" and pos: "0 < total_size (current_frame_info st)"
    and saved: "fst ` set (saved_slots st) = {r. r < 32 \<and> r \<noteq> 15 \<and> microblaze_must_save_register env fn st r}"
  shows "\<exists>s1. rtl_run (frame_in fn st) s0 = Some s1
    \<and> (\<forall>s1' s2. regs s1' = (regs s1)(20 := regs s1' 20) \<and> mem s1' = mem s1 \<and> body_keeps fn st s1' s2 \<longrightarrow>
         (\<exists>s3. rtl_run (frame_out fn st) s2 = Some s3 \<and> restored env fn st s0 s2 s3))"
proof -
  let ?tot = "total_size (current_frame_info st)"
  define sp1 where "sp1 = regs s0 1 - word_of_int ?tot"
  obtain s1 where s1: "rtl_run (frame_in fn st) s0 = Some s1" "regs s1 1 = sp1"
    "keeps_link fn st \<longrightarrow> load32 (mem s1) sp1 = regs s0 15"
    "\<forall>r k. (r, k) \<in> set (saved_slots st) \<longrightarrow>
         load32 (mem s1) (slot_addr sp1 k) = (if r = 1 then sp1 else regs s0 r)"
    "interrupt_handler st \<longrightarrow>
         load32 (mem s1) (slot_addr sp1 (gp_offset (current_frame_info st) - 4)) = regs s0 35"
    "frame_pointer_needed fn \<longrightarrow> regs s1 19 = sp1"
    using frame_in_run [OF ok pos, of s0] unfolding sp1_def by blast
  have "\<exists>s3. rtl_run (frame_out fn st) s2 = Some s3 \<and> restored env fn st s0 s2 s3"
    if r20: "regs s1' = (regs s1)(20 := regs s1' 20)" and m: "mem s1' = mem s1"
      and b: "body_keeps fn st s1' s2" for s1' s2
  proof -
    have r1: "regs s1' 1 = sp1" "regs s1' 19 = regs s1 19"
      using s1(2) by (subst r20, simp)+
    have bk: "if frame_pointer_needed fn then regs s2 19 = sp1 else regs s2 1 = sp1"
      "keeps_link fn st \<Longrightarrow> load32 (mem s2) (regs s2 1) = regs s0 15"
      "\<And>r k. (r, k) \<in> set (saved_slots st) \<Longrightarrow>
         load32 (mem s2) (slot_addr sp1 k) = (if r = 1 then sp1 else regs s0 r)"
      "interrupt_handler st \<Longrightarrow>
         load32 (mem s2) (slot_addr sp1 (gp_offset (current_frame_info st) - 4)) = regs s0 35"
      using b s1 r1 m by (auto simp: body_keeps_def)
    define v where "v = (\<lambda>r :: nat. if r = 1 then sp1 else regs s0 r)"
    have "\<exists>s3. rtl_run (frame_out fn st) s2 = Some s3
      \<and> regs s3 1 = sp1 + word_of_int ?tot
      \<and> regs s3 15 = (if keeps_link fn st then regs s0 15 else regs s2 15)
      \<and> (\<forall>r k. (r, k) \<in> set (saved_slots st) \<longrightarrow> r \<noteq> 1 \<longrightarrow> regs s3 r = v r)
      \<and> (interrupt_handler st \<longrightarrow> regs s3 35 = regs s0 35)"
      by (rule frame_out_run [OF ok pos bk(1)]) (use bk in \<open>auto simp: v_def\<close>)
    then obtain s3 where s3: "rtl_run (frame_out fn st) s2 = Some s3" "regs s3 1 = sp1 + word_of_int ?tot"
      "regs s3 15 = (if keeps_link fn st then regs s0 15 else regs s2 15)"
      "\<forall>r k. (r, k) \<in> set (saved_slots st) \<longrightarrow> r \<noteq> 1 \<longrightarrow> regs s3 r = v r"
      "interrupt_handler st \<longrightarrow> regs s3 35 = regs s0 35" by blast
    have sp: "regs s3 1 = regs s0 1" using s3(2) by (simp add: sp1_def)
    have "regs s3 r = regs s0 r" if "r < 32" "microblaze_must_save_register env fn st r" "r \<noteq> 15" for r
    proof (cases "r = 1")
      case False
      have "r \<in> fst ` set (saved_slots st)" using that saved by simp
      then obtain k where "(r, k) \<in> set (saved_slots st)" by force
      then show ?thesis using s3(4) False by (auto simp: v_def)
    qed (use sp in simp)
    then show ?thesis using s3 sp by (auto simp: restored_def keeps_link_def)
  qed
  with s1(1) show ?thesis by blast
qed

lemma prologue_emits:
  assumes fits: "frame_fits fn"
    and scan: "scan_arguments (init_cumulative_args (fn_arg_types fn)) 5 (fn_parameters fn) = Some (cum, regno, arg_name)"
    and c: "compute_frame_size env fn (fn_frame_size fn) st = (fsiz, st')"
  shows "microblaze_expand_prologue env fn st = Some (st'\<lparr>emitted := emitted st' @ homing fn regno arg_name
     @ (if fsiz > 0 then frame_in fn st' else [])
     @ (if flag_pic env = 2
        then [SetX (Reg SImode 20) (Unspec SImode [const0_rtx] UNSPEC_SET_GOT)] else [])
     @ (if profile_flag fn then [blockage] else [])\<rparr>)"
proof -
  note L = compute_frame_size_layout [OF fits c]
  note ok = compute_frame_size_ok [OF fits c]
  define st1 where "st1 = st'\<lparr>emitted := emitted st' @ homing fn regno arg_name\<rparr>"
  have ok1: "frame_ok fn st1" using ok by (simp add: st1_def)
  have live: "flag_pic env = 2 \<Longrightarrow> df_regs_ever_live_p fn (st'\<lparr>emitted := e\<rparr>) 20" for e
    using arg_cong [OF L(1), of live_marks]
    by (simp add: df_regs_ever_live_p_def note_function_def mark_live_def Let_def)
  have fsiz: "fsiz = total_size (current_frame_info st1)" using L(2) by (simp add: st1_def)
  have fr: "prologue_frame fn fsiz st1 =
      Some (st1\<lparr>emitted := emitted st1 @ (if fsiz > 0 then frame_in fn st' else [])\<rparr>)"
  proof (cases "fsiz > 0")
    case True
    have "frame_in fn st1 = frame_in fn st'" by (simp add: st1_def frame_in_def)
    then show ?thesis using prologue_frame_emits [OF ok1] True fsiz by simp
  next
    case False
    then show ?thesis by (simp add: prologue_frame_def)
  qed
  show ?thesis
    using live
    by (simp add: microblaze_expand_prologue_def prologue_arguments_emits [OF scan c]
        fr [unfolded st1_def] Let_def emit_defs)
qed

lemma must_save_emitted [simp]:
  "microblaze_must_save_register env fn (st\<lparr>emitted := e\<rparr>) = microblaze_must_save_register env fn st"
proof -
  have "df_regs_ever_live_p fn (st\<lparr>emitted := e\<rparr>) = df_regs_ever_live_p fn st"
    "interrupt_handler (st\<lparr>emitted := e\<rparr>) = interrupt_handler st"
    "save_volatiles (st\<lparr>emitted := e\<rparr>) = save_volatiles st"
    by (simp_all add: df_regs_ever_live_p_def fun_eq_iff)
  then show ?thesis by (intro ext) (simp only: microblaze_must_save_register_def)
qed

lemma contract_emitted [simp]:
  "body_keeps fn (st\<lparr>emitted := e\<rparr>) = body_keeps fn st"
  "restored env fn (st\<lparr>emitted := e\<rparr>) = restored env fn st"
  by (simp_all add: body_keeps_def restored_def fun_eq_iff)

lemma homing_run: "\<exists>m. rtl_run (homing fn regno arg_name) s = Some (s\<lparr>mem := m\<rparr>)"
proof (cases "varargs_function fn arg_name")
  case True
  have "\<exists>m. rtl_run (home_code [nat regno..<11] ((regno - 4) * 4) stack_pointer_rtx) s = Some (s\<lparr>mem := m\<rparr>)"
    by (rule home_code_run) (simp add: stack_pointer_rtx_def)
  with True show ?thesis by (simp add: homing_def)
next
  case False
  then show ?thesis by (intro exI [of _ "mem s"]) (simp add: homing_def)
qed

text \<open>The end of the prologue: the table pointer under \<open>flag_pic = 2\<close>, the barrier under
  profiling.\<close>

definition pic_code :: "cc_env \<Rightarrow> fn_env \<Rightarrow> rtx list" where
  "pic_code env fn =
    (if flag_pic env = 2 then [SetX (Reg SImode 20) (Unspec SImode [const0_rtx] UNSPEC_SET_GOT)] else [])
     @ (if profile_flag fn then [blockage] else [])"

lemma pic_run:
  "\<exists>s1. rtl_run (pic_code env fn) s = Some s1 \<and> regs s1 = (regs s)(20 := regs s1 20) \<and> mem s1 = mem s"
  by (cases "flag_pic env = 2"; cases "profile_flag fn") (simp_all add: pic_code_def blockage_def)

lemma framed_restores:
  assumes "frame_fits fn" "compute_frame_size env fn (fn_frame_size fn) st = (fsiz, st')" "fsiz > 0"
  shows "\<exists>s1. rtl_run (frame_in fn st' @ pic_code env fn) s = Some s1
    \<and> (\<forall>s2. body_keeps fn st' s1 s2 \<longrightarrow>
        (\<exists>s3. rtl_run (frame_out fn st') s2 = Some s3 \<and> restored env fn st' s s2 s3))"
proof -
  note L = compute_frame_size_layout [OF assms(1,2)]
  note ok = compute_frame_size_ok [OF assms(1,2)]
  obtain sf where sf: "rtl_run (frame_in fn st') s = Some sf"
    "\<And>s1 s2. regs s1 = (regs sf)(20 := regs s1 20) \<Longrightarrow> mem s1 = mem sf \<Longrightarrow> body_keeps fn st' s1 s2 \<Longrightarrow>
       \<exists>s3. rtl_run (frame_out fn st') s2 = Some s3 \<and> restored env fn st' s s2 s3"
    using frame_round_trip [OF ok _ saved_registers [OF assms(1,2)], of s] assms(3) L(2) by blast
  obtain s1 where s1: "rtl_run (pic_code env fn) sf = Some s1" "regs s1 = (regs sf)(20 := regs s1 20)" "mem s1 = mem sf"
    using pic_run [of env fn sf] by blast
  have "rtl_run (frame_in fn st' @ pic_code env fn) s = Some s1"
    by (simp add: rtl_run_append sf(1) s1(1))
  with sf(2) [OF s1(2,3)] show ?thesis by blast
qed

lemma frameless_restores:
  assumes "frame_fits fn" "compute_frame_size env fn (fn_frame_size fn) st = (fsiz, st')" "\<not> fsiz > 0"
  shows "\<exists>s1. rtl_run (pic_code env fn) s = Some s1
    \<and> (\<forall>s2. body_keeps fn st' s1 s2 \<longrightarrow> restored env fn st' s s2 s2)"
proof -
  note L = compute_frame_size_layout [OF assms(1,2)]
  note ok = compute_frame_size_ok [OF assms(1,2)]
  have z: "saved_slots st' = []" "\<not> keeps_link fn st'" "\<not> frame_pointer_needed fn"
    using ok L(2) assms(3) by (auto simp: frame_ok_def Let_def)
  then have none: "r < 32 \<Longrightarrow> microblaze_must_save_register env fn st' r \<Longrightarrow> r = 15" for r
    using saved_registers [OF assms(1,2)] by auto
  obtain s1 where s1: "rtl_run (pic_code env fn) s = Some s1" "regs s1 = (regs s)(20 := regs s1 20)"
    using pic_run [of env fn s] by auto
  have "restored env fn st' s s2 s2" if "body_keeps fn st' s1 s2" for s2
  proof -
    have "regs s2 1 = regs s1 1" using that z by (simp add: body_keeps_def)
    also have "\<dots> = regs s 1" by (subst s1(2)) simp
    finally show ?thesis using z none by (auto simp: restored_def keeps_link_def)
  qed
  with s1(1) show ?thesis by blast
qed

text \<open>What the two expanders emit.\<close>

lemma expanders_emit:
  assumes "frame_fits fn" "emitted st = []" "microblaze_expand_prologue env fn st = Some st1"
    and c: "compute_frame_size env fn (fn_frame_size fn) st = (fsiz, st')"
  shows "\<exists>regno arg_name.
      st1 = st'\<lparr>emitted := homing fn regno arg_name @ (if fsiz > 0 then frame_in fn st' else []) @ pic_code env fn\<rparr>
    \<and> microblaze_expand_epilogue env fn (st1\<lparr>emitted := []\<rparr>) =
        Some (st'\<lparr>emitted := (if fsiz > 0 then frame_out fn st' else []) @ [return_internal]\<rparr>)"
proof -
  obtain cum regno arg_name where scan:
    "scan_arguments (init_cumulative_args (fn_arg_types fn)) 5 (fn_parameters fn) = Some (cum, regno, arg_name)"
    using assms(3)
    by (auto simp: microblaze_expand_prologue_def prologue_arguments_def fn_parameters_def Let_def
        split: option.splits)
  note L = compute_frame_size_layout [OF assms(1) c]
  note ok = compute_frame_size_ok [OF assms(1) c]
  have em: "emitted st' = []"
    using arg_cong [OF L(1), of emitted] assms(2)
    by (simp add: note_function_def mark_live_def Let_def split: if_splits)
  have st1: "st1 = st'\<lparr>emitted := homing fn regno arg_name @ (if fsiz > 0 then frame_in fn st' else []) @ pic_code env fn\<rparr>"
    using prologue_emits [OF assms(1) scan c] assms(3) em by (simp add: pic_code_def)
  have "microblaze_expand_epilogue env fn (st1\<lparr>emitted := []\<rparr>) =
      Some (st'\<lparr>emitted := (if fsiz > 0 then frame_out fn st' else []) @ [return_internal]\<rparr>)"
  proof (cases "fsiz > 0")
    case True
    then show ?thesis
      using epilogue_emits [of fn "st'\<lparr>emitted := []\<rparr>" env] ok L(2,9) by (simp add: st1 frame_out_def)
  next
    case False
    then show ?thesis
      using epilogue_empty_frame [of "st'\<lparr>emitted := []\<rparr>" env fn] ok L(2,9)
      by (simp add: st1 frame_ok_def Let_def)
  qed
  with st1 show ?thesis by blast
qed

section \<open>Properties\<close>

lemma prologue_body_epilogue:
  assumes "frame_fits fn" "emitted st = []"
    and "microblaze_expand_prologue env fn st = Some st1"
  shows "\<exists>st2 s1. microblaze_expand_epilogue env fn (st1\<lparr>emitted := []\<rparr>) = Some st2
    \<and> rtl_run (emitted st1) s0 = Some s1
    \<and> (\<forall>s2. body_keeps fn st1 s1 s2 \<longrightarrow>
         (\<exists>s3. rtl_run (emitted st2) s2 = Some s3 \<and> restored env fn st1 s0 s2 s3))"
proof -
  obtain fsiz st' where c: "compute_frame_size env fn (fn_frame_size fn) st = (fsiz, st')" by fastforce
  obtain regno arg_name where st1: "st1 = st'\<lparr>emitted := homing fn regno arg_name
      @ (if fsiz > 0 then frame_in fn st' else []) @ pic_code env fn\<rparr>"
    and epi: "microblaze_expand_epilogue env fn (st1\<lparr>emitted := []\<rparr>) =
      Some (st'\<lparr>emitted := (if fsiz > 0 then frame_out fn st' else []) @ [return_internal]\<rparr>)"
    using expanders_emit [OF assms c] by blast
  obtain m where home: "rtl_run (homing fn regno arg_name) s0 = Some (s0\<lparr>mem := m\<rparr>)"
    using homing_run by blast
  show ?thesis
  proof (cases "fsiz > 0")
    case True
    obtain s1 where s1: "rtl_run (frame_in fn st' @ pic_code env fn) (s0\<lparr>mem := m\<rparr>) = Some s1"
      "\<And>s2. body_keeps fn st' s1 s2 \<Longrightarrow>
        \<exists>s3. rtl_run (frame_out fn st') s2 = Some s3 \<and> restored env fn st' (s0\<lparr>mem := m\<rparr>) s2 s3"
      using framed_restores [OF assms(1) c True] by blast
    have "rtl_run (emitted st1) s0 = Some s1"
      using True s1(1) by (simp add: st1 rtl_run_append [of "homing fn regno arg_name"] home)
    moreover have "\<exists>s3. rtl_run (frame_out fn st' @ [return_internal]) s2 = Some s3 \<and> restored env fn st1 s0 s2 s3"
      if "body_keeps fn st1 s1 s2" for s2
      using s1(2) [of s2] that by (auto simp: st1 rtl_run_append return_internal_def restored_def)
    ultimately show ?thesis using epi True by simp
  next
    case False
    obtain s1 where s1: "rtl_run (pic_code env fn) (s0\<lparr>mem := m\<rparr>) = Some s1"
      "\<And>s2. body_keeps fn st' s1 s2 \<Longrightarrow> restored env fn st' (s0\<lparr>mem := m\<rparr>) s2 s2"
      using frameless_restores [OF assms(1) c False] by blast
    have "rtl_run (emitted st1) s0 = Some s1" using False s1(1) by (simp add: st1 rtl_run_append home)
    moreover have "\<exists>s3. rtl_run [return_internal] s2 = Some s3 \<and> restored env fn st1 s0 s2 s3"
      if "body_keeps fn st1 s1 s2" for s2
      using s1(2) [of s2] that by (auto simp: st1 return_internal_def restored_def)
    ultimately show ?thesis using epi False by simp
  qed
qed

text \<open>C1. Prologue, body and epilogue of a function: whatever registers the data-flow pass
  found live, whether the function is a leaf, an interrupt handler or has
  \<open>save_volatiles\<close>, uses a frame pointer (so that its body may move the stack pointer), takes
  variable arguments or is position independent, the prologue runs, and after any body that
  keeps the saved words the epilogue brings back the stack pointer, every register other than the return address that
  must be saved and, in an interrupt handler, the machine status. The return address comes back in a function
  that is not a leaf and in an interrupt handler; in every other leaf it is what the body left in \<open>r15\<close>, also where
  \<open>microblaze_must_save_register\<close> asks for \<open>r15\<close> to be saved.\<close>

theorem prologue_epilogue_restore:
  assumes "frame_fits fn" "emitted st = []"
    and "microblaze_expand_prologue env fn st = Some st1"
  shows "\<exists>st2 s1. microblaze_expand_epilogue env fn (st1\<lparr>emitted := []\<rparr>) = Some st2
    \<and> rtl_run (emitted st1) s0 = Some s1
    \<and> (\<forall>s2. body_keeps fn st1 s1 s2 \<longrightarrow>
         (\<exists>s3. rtl_run (emitted st2) s2 = Some s3 \<and> restored env fn st1 s0 s2 s3))"
  using prologue_body_epilogue [OF assms] .

text \<open>In a leaf with \<open>save_volatiles\<close> whose body uses \<open>r15\<close>, that register must be saved and is not: whatever a body
  leaves in it is what the caller finds.\<close>

theorem leaf_link_not_saved:
  assumes "frame_fits fn" "emitted st = []" "microblaze_expand_prologue env fn st = Some st1"
    and "fn_is_leaf fn" "\<not> interrupt_handler st1" "save_volatiles st1" "fn_live fn 15"
  shows "microblaze_must_save_register env fn st1 15
    \<and> (\<exists>st2 s1. microblaze_expand_epilogue env fn (st1\<lparr>emitted := []\<rparr>) = Some st2 \<and> rtl_run (emitted st1) s0 = Some s1
      \<and> (\<forall>s2. body_keeps fn st1 s1 s2 \<longrightarrow> (\<exists>s3. rtl_run (emitted st2) s2 = Some s3 \<and> regs s3 15 = regs s2 15)))"
proof
  show "microblaze_must_save_register env fn st1 15"
    using assms(4-7) by (simp add: microblaze_must_save_register_def df_regs_ever_live_p_def Let_def)
  obtain st2 s1 where e: "microblaze_expand_epilogue env fn (st1\<lparr>emitted := []\<rparr>) = Some st2" "rtl_run (emitted st1) s0 = Some s1"
    "\<And>s2. body_keeps fn st1 s1 s2 \<Longrightarrow> \<exists>s3. rtl_run (emitted st2) s2 = Some s3 \<and> restored env fn st1 s0 s2 s3"
    using prologue_body_epilogue [OF assms(1-3), of s0] by blast
  have "\<exists>s3. rtl_run (emitted st2) s2 = Some s3 \<and> regs s3 15 = regs s2 15" if "body_keeps fn st1 s1 s2" for s2
    using e(3) [OF that] assms(4,5) by (auto simp: restored_def)
  with e(1,2) show "\<exists>st2 s1. microblaze_expand_epilogue env fn (st1\<lparr>emitted := []\<rparr>) = Some st2 \<and> rtl_run (emitted st1) s0 = Some s1
      \<and> (\<forall>s2. body_keeps fn st1 s1 s2 \<longrightarrow> (\<exists>s3. rtl_run (emitted st2) s2 = Some s3 \<and> regs s3 15 = regs s2 15))" by blast
qed

text \<open>An interrupt handler with a frame pointer, two call-saved registers and calls of its own,
  for the concrete cases.\<close>

definition example_fn :: fn_env where
  "example_fn = \<lparr>fn_is_function = True, fn_attributes = [(''interrupt_handler'', ())],
     fn_frame_size = 16, fn_outgoing_args_size = 24, fn_calls_alloca = False, fn_is_leaf = False,
     frame_pointer_needed = True, profile_flag = False,
     call_used_regs = (\<lambda>r. CALL_USED_REGISTERS ! r), fn_live = (\<lambda>r. r = 22 \<or> r = 23),
     fn_arg_types = [void_type_node], fn_arguments = [], fn_struct_value = False\<rparr>"

definition example_st :: fn_state where
  "example_st = \<lparr>next_pseudo = 46, emitted = [], live_marks = [], interrupt_handler = False,
     save_volatiles = False, current_frame_info = zero_frame_info, reports = []\<rparr>"

text \<open>A leaf with \<open>save_volatiles\<close> that uses \<open>r15\<close>.\<close>

definition leaf_fn :: fn_env where
  "leaf_fn = example_fn\<lparr>fn_attributes := [(''save_volatiles'', ())], fn_is_leaf := True, frame_pointer_needed := False,
     fn_live := (\<lambda>r. r = 15)\<rparr>"

lemma example_scan:
  "scan_arguments (init_cumulative_args (fn_arg_types example_fn)) 5 (fn_parameters example_fn) =
   Some (init_cumulative_args [void_type_node], 5, None)"
  by (simp add: example_fn_def fn_parameters_def)

lemma prologue_epilogue_restore_witness:
  "\<exists>st1 st2 s1 s3. microblaze_expand_prologue default_env example_fn example_st = Some st1
     \<and> microblaze_expand_epilogue default_env example_fn (st1\<lparr>emitted := []\<rparr>) = Some st2
     \<and> rtl_run (emitted st1) \<lparr>regs = (\<lambda>r. of_nat (r * 16)), mem = (\<lambda>_. 0), got_base = 0\<rparr> = Some s1
     \<and> rtl_run (emitted st2) s1 = Some s3 \<and> regs s3 1 = 16 \<and> regs s3 15 = 240"
proof -
  let ?s0 = "\<lparr>regs = (\<lambda>r. of_nat (r * 16)), mem = (\<lambda>_. 0), got_base = 0\<rparr>"
  have fits: "frame_fits example_fn" by (simp add: frame_fits_def example_fn_def)
  obtain tot st' where c: "compute_frame_size default_env example_fn (fn_frame_size example_fn) example_st = (tot, st')"
    by fastforce
  obtain st1 where st1: "microblaze_expand_prologue default_env example_fn example_st = Some st1"
    using prologue_emits [OF fits example_scan c] by blast
  have e: "emitted example_st = []" by (simp add: example_st_def)
  have leaf: "\<not> fn_is_leaf example_fn" by (simp add: example_fn_def)
  obtain st2 s1 where st2: "microblaze_expand_epilogue default_env example_fn (st1\<lparr>emitted := []\<rparr>) = Some st2"
    and s1: "rtl_run (emitted st1) ?s0 = Some s1"
    and all: "\<And>s2. body_keeps example_fn st1 s1 s2 \<Longrightarrow>
         \<exists>s3. rtl_run (emitted st2) s2 = Some s3 \<and> restored default_env example_fn st1 ?s0 s2 s3"
    using prologue_epilogue_restore [OF fits e st1, of ?s0] by blast
  have "body_keeps example_fn st1 s1 s1" by (auto simp: body_keeps_def)
  from all [OF this] leaf st1 st2 s1 show ?thesis by (auto simp: restored_def)
qed

lemma leaf_link_not_saved_witness:
  "\<exists>st1 st2 s1. microblaze_expand_prologue default_env leaf_fn example_st = Some st1
     \<and> microblaze_must_save_register default_env leaf_fn st1 15
     \<and> microblaze_expand_epilogue default_env leaf_fn (st1\<lparr>emitted := []\<rparr>) = Some st2
     \<and> rtl_run (emitted st1) s = Some s1"
proof -
  have fits: "frame_fits leaf_fn" by (simp add: frame_fits_def leaf_fn_def example_fn_def)
  have scan: "\<exists>cum. scan_arguments (init_cumulative_args (fn_arg_types leaf_fn)) 5 (fn_parameters leaf_fn) = Some (cum, 5, None)"
    by (simp add: leaf_fn_def example_fn_def fn_parameters_def)
  obtain tot st' where c: "compute_frame_size default_env leaf_fn (fn_frame_size leaf_fn) example_st = (tot, st')"
    by fastforce
  obtain st1 where st1: "microblaze_expand_prologue default_env leaf_fn example_st = Some st1" "st1 = st'\<lparr>emitted := emitted st1\<rparr>"
    using scan prologue_emits [OF fits _ c] by fastforce
  have "\<not> microblaze_interrupt_function_p leaf_fn" "microblaze_save_volatiles leaf_fn" by code_simp+
  then have "interrupt_handler st' = False" "save_volatiles st' = True"
    using arg_cong [OF compute_frame_size_layout(1) [OF fits c], of interrupt_handler]
      arg_cong [OF compute_frame_size_layout(1) [OF fits c], of save_volatiles]
    by (simp_all add: note_function_def default_env_def Let_def)
  then have "\<not> interrupt_handler st1" "save_volatiles st1"
    using arg_cong [OF st1(2), of interrupt_handler] arg_cong [OF st1(2), of save_volatiles] by simp_all
  moreover have "emitted example_st = []" "fn_is_leaf leaf_fn" "fn_live leaf_fn 15"
    by (simp_all add: example_st_def leaf_fn_def)
  ultimately show ?thesis using leaf_link_not_saved [OF fits _ st1(1)] st1(1) by blast
qed

lemma frame_areas_disjoint_witness:
  "\<exists>tot st'. compute_frame_size default_env example_fn 16 example_st = (tot, st')
     \<and> set (map fst (saved_slots st')) =
        {r. r < 32 \<and> r \<noteq> 15 \<and> microblaze_must_save_register default_env example_fn st' r}"
proof -
  have fits: "frame_fits example_fn" by (simp add: frame_fits_def example_fn_def)
  obtain tot st' where c: "compute_frame_size default_env example_fn (fn_frame_size example_fn) example_st = (tot, st')"
    by fastforce
  from frame_areas_disjoint [OF fits c] c show ?thesis by (auto simp: example_fn_def)
qed

text \<open>The slots of the homing loop.\<close>

interpretation home: slot_area "map (\<lambda>r. (r, 4 * (int r - 4))) [n..<11]" for n
proof
  show "distinct (map fst (map (\<lambda>r. (r, 4 * (int r - 4))) [n..<11]))" by (simp add: comp_def)
  have "sorted_wrt (\<lambda>a b. snd a + 4 \<le> snd b) (map (\<lambda>r. (r, 4 * (int r - 4))) [m..<k])" for m k :: nat
    by (induction k) (auto simp: sorted_wrt_append)
  then show "sorted_wrt (\<lambda>a b. snd a + 4 \<le> snd b) (map (\<lambda>r. (r, 4 * (int r - 4))) [n..<11])" .
qed

lemma home_code_slots:
  "5 \<le> n \<Longrightarrow> home_code [n..<k] (4 * (int n - 4)) ptr =
     map (save_insn True) (map (\<lambda>r. (r, 4 * (int r - 4))) [n..<k])"
proof (induction "k - n" arbitrary: n ptr)
  case (Suc d)
  then have n: "n < k" "d = k - Suc n" by auto
  have "4 * (int n - 4) + 4 = 4 * (int (Suc n) - 4)" by simp
  with Suc(1) [OF n(2), of "Plus stack_pointer_rtx (ConstInt (4 * (int n - 4)))"] Suc(3)
  show ?case by (simp add: upt_conv_Cons [OF n(1)] Let_def save_insn_def frame_slot_def)
qed simp

lemma home_code_stores:
  assumes "5 \<le> n"
  shows "\<exists>m. rtl_run (home_code [n..<11] (4 * (int n - 4)) stack_pointer_rtx) s = Some (s\<lparr>mem := m\<rparr>)
    \<and> (\<forall>r. n \<le> r \<and> r < 11 \<longrightarrow> load32 m (slot_addr (regs s 1) (4 * (int r - 4))) = regs s r)
    \<and> (\<forall>k. slot_ok k \<and> (k + 4 \<le> 4 * (int n - 4) \<or> 28 \<le> k) \<longrightarrow>
         load32 m (slot_addr (regs s 1) k) = load32 (mem s) (slot_addr (regs s 1) k))"
proof -
  have ok: "\<forall>x \<in> set (map (\<lambda>r. (r, 4 * (int r - 4))) [n..<11]). slot_ok (snd x)"
    using assms by (auto simp: slot_ok_def)
  obtain m where m:
    "rtl_run (map (save_insn True) (map (\<lambda>r. (r, 4 * (int r - 4))) [n..<11])) s = Some (s\<lparr>mem := m\<rparr>)"
    "\<And>r k. (r, k) \<in> set (map (\<lambda>r. (r, 4 * (int r - 4))) [n..<11]) \<Longrightarrow> load32 m (slot_addr (regs s 1) k) = regs s r"
    "\<And>k. slot_ok k \<Longrightarrow> (\<And>x. x \<in> set (map (\<lambda>r. (r, 4 * (int r - 4))) [n..<11]) \<Longrightarrow> k + 4 \<le> snd x \<or> snd x + 4 \<le> k)
        \<Longrightarrow> load32 m (slot_addr (regs s 1) k) = load32 (mem s) (slot_addr (regs s 1) k)"
    using home.run_stores [OF ok, of s thesis] by blast
  have "load32 m (slot_addr (regs s 1) k) = load32 (mem s) (slot_addr (regs s 1) k)"
    if "slot_ok k" "k + 4 \<le> 4 * (int n - 4) \<or> 28 \<le> k" for k
    using that by (intro m(3)) auto
  with m(1,2) show ?thesis unfolding home_code_slots [OF assms] by auto
qed

lemma length_home_code [simp]: "length (home_code rs off ptr) = length rs"
  by (induction rs arbitrary: off ptr) (simp_all add: Let_def)

text \<open>How a parameter is passed, and the register that the scan of the parameters ends at: the last one of the last
  parameter, or the one behind the argument registers when that parameter is not in a register.\<close>

definition passed_as :: "ctype \<times> string option \<Rightarrow> machine_mode \<times> int" where
  "passed_as p = (if type_addressable (fst p) then (Pmode, 4) else (type_mode (fst p), type_size (fst p)))"

abbreviation words_passed :: "(ctype \<times> string option) list \<Rightarrow> int" where
  "words_passed ps \<equiv> sum_list (map (\<lambda>p. words_of (passed_as p)) ps)"

lemma words_passed_nonneg: "\<forall>p\<in>set ps. 1 \<le> words_of (passed_as p) \<Longrightarrow> 0 \<le> words_passed ps"
  by (induction ps) auto

lemma scan_parameters:
  assumes "ps \<noteq> []" "\<forall>p\<in>set ps. c_argument (passed_as p) \<and> 1 \<le> words_of (passed_as p)" "0 \<le> arg_words cum"
  shows "\<exists>cum' nm. scan_arguments cum regno ps =
    Some (cum', if arg_words cum + words_passed (butlast ps) < 6 then 4 + arg_words cum + words_passed ps else 11, nm)"
  using assms
proof (induction ps arbitrary: cum regno)
  case (Cons p ps)
  obtain t nm where p: "p = (t, nm)" by (cases p)
  let ?m = "fst (passed_as p)" and ?b = "snd (passed_as p)"
  have ca: "c_argument (?m, ?b)" "1 \<le> words_of (?m, ?b)" using Cons.prems(2) by simp_all
  have m: "(if type_addressable t then Pmode else type_mode t) = ?m" by (simp add: p passed_as_def)
  have b: "type_size (if type_addressable t then build_pointer_type t else t) = ?b"
    by (simp add: p passed_as_def build_pointer_type_def)
  have "passable ?m" "?m \<noteq> VOIDmode" using ca(1) by (cases "passed_as p"; simp add: c_argument_def)+
  note fa = function_arg_passable [OF this, of cum]
  have pos: "0 \<le> words_passed (butlast (p # ps))"
    using Cons.prems(2) by (intro words_passed_nonneg) (auto dest: in_set_butlastD)
  show ?case
  proof (cases "arg_words cum < 6")
    case False
    then show ?thesis using fa pos by (simp add: p [symmetric] m Let_def) (simp add: p m Let_def)
  next
    case True
    obtain c where c: "function_arg_advance (cum\<lparr>last_arg_fp := 0\<rparr>) ?m ?b = Some c" "arg_words c = arg_words cum + words_of (?m, ?b)"
      using advance_words [OF ca(1), of "cum\<lparr>last_arg_fp := 0\<rparr>"] by auto
    have w: "?m = BLKmode \<Longrightarrow> (?b + 3) div 4 = words_of (?m, ?b)"
      "?m \<noteq> BLKmode \<Longrightarrow> (int (GET_MODE_SIZE ?m) + 3) div 4 = words_of (?m, ?b)"
      by (simp_all add: words_of_def split_beta)
    have step: "scan_arguments cum regno (p # ps) =
        (if ps = [] then Some (c, 4 + arg_words cum + words_of (?m, ?b), nm)
         else scan_arguments c (4 + arg_words cum + words_of (?m, ?b)) ps)"
      using fa c(1) True Cons.prems(3) w unfolding p
      by (cases "fst (passed_as (t, nm)) = BLKmode") (simp_all add: m [unfolded p] b [unfolded p] Let_def add.assoc)
    show ?thesis
    proof (cases "ps = []")
      case False
      have "0 \<le> arg_words c" using c(2) ca(2) Cons.prems(3) by simp
      with Cons.IH [OF False _ this, of "4 + arg_words cum + words_of (?m, ?b)"] Cons.prems(2)
      have "\<exists>cum' nm. scan_arguments cum regno (p # ps) = Some (cum', if arg_words c + words_passed (butlast ps) < 6
          then 4 + arg_words c + words_passed ps else 11, nm)"
        using step False by simp
      then show ?thesis using False by (simp add: c(2) add.assoc cong: if_cong split del: if_split)
    qed (use step True in simp)
  qed
qed simp

text \<open>C11. The prologue of a function with variable arguments begins with stores that home argument registers: from the register of
  the last word of the last named parameter on, each up to \<open>r10\<close> at the word of the caller's argument area it stands
  for, \<open>r5\<close> at offset 4 and \<open>r10\<close> at offset 24, right below the arguments that were passed on the stack. No
  other word at or above the stack pointer is changed. Every parameter has at least a word here.\<close>

theorem varargs_homed:
  assumes "frame_fits fn" "emitted st = []" "microblaze_expand_prologue env fn st = Some st1"
    and "stdarg_types (fn_arg_types fn)" "fn_parameters fn \<noteq> []"
    and "\<forall>p\<in>set (fn_parameters fn). c_argument (passed_as p) \<and> 1 \<le> words_of (passed_as p)"
    and "w = words_passed (fn_parameters fn)"
  shows "\<exists>m. rtl_run (take (nat (7 - w)) (emitted st1)) s = Some (s\<lparr>mem := m\<rparr>)
    \<and> (\<forall>r. 4 + w \<le> int r \<and> r < 11 \<longrightarrow> load32 m (slot_addr (regs s 1) (4 * (int r - 4))) = regs s r)
    \<and> (\<forall>k. slot_ok k \<and> (k + 4 \<le> 4 * w \<or> 28 \<le> k) \<longrightarrow>
         load32 m (slot_addr (regs s 1) k) = load32 (mem s) (slot_addr (regs s 1) k))"
proof -
  have cum0: "arg_words (init_cumulative_args (fn_arg_types fn)) = 0"
    by (simp add: init_cumulative_args_def scan_params_words zero_cum_def)
  have w: "w = words_passed (butlast (fn_parameters fn)) + words_of (passed_as (last (fn_parameters fn)))"
    using append_butlast_last_id [OF assms(5)] assms(7)
    by (metis (no_types, lifting) list.simps(8,9) map_append sum_list.Cons sum_list.Nil sum_list.append add.right_neutral)
  have one: "1 \<le> words_of (passed_as (last (fn_parameters fn)))" using assms(5,6) by simp
  have pos: "0 \<le> words_passed (butlast (fn_parameters fn))"
    using assms(6) by (intro words_passed_nonneg) (auto dest: in_set_butlastD)
  define regno where "regno = (if words_passed (butlast (fn_parameters fn)) < 6 then 4 + w else 11)"
  obtain cum nm where scan:
    "scan_arguments (init_cumulative_args (fn_arg_types fn)) 5 (fn_parameters fn) = Some (cum, regno, nm)"
    using scan_parameters [OF assms(5,6), of "init_cumulative_args (fn_arg_types fn)" 5] cum0
    unfolding regno_def assms(7) by auto
  have n: "5 \<le> nat regno" "7 - w = 11 - regno \<or> 7 - w \<le> 0 \<and> 11 \<le> regno"
    using w one pos by (auto simp: regno_def)
  obtain fsiz st' where c: "compute_frame_size env fn (fn_frame_size fn) st = (fsiz, st')" by fastforce
  have "emitted st' = []"
    using arg_cong [OF compute_frame_size_layout(1) [OF assms(1) c], of emitted] assms(2)
    by (simp add: note_function_def mark_live_def Let_def split: if_splits)
  then have em: "\<exists>rest. emitted st1 = home_code [nat regno..<11] (4 * (int (nat regno) - 4)) stack_pointer_rtx @ rest"
    using prologue_emits [OF assms(1) scan c] assms(3,4) n(1)
    by (auto simp: homing_def varargs_function_def mult.commute)
  have len: "nat (7 - w) = length (home_code [nat regno..<11] (4 * (int (nat regno) - 4)) stack_pointer_rtx)"
    using n by auto
  have take: "take (nat (7 - w)) (emitted st1) = home_code [nat regno..<11] (4 * (int (nat regno) - 4)) stack_pointer_rtx"
    using em len by auto
  obtain m where m: "rtl_run (take (nat (7 - w)) (emitted st1)) s = Some (s\<lparr>mem := m\<rparr>)"
    "\<forall>r. nat regno \<le> r \<and> r < 11 \<longrightarrow> load32 m (slot_addr (regs s 1) (4 * (int r - 4))) = regs s r"
    "\<forall>k. slot_ok k \<and> (k + 4 \<le> 4 * (int (nat regno) - 4) \<or> 28 \<le> k) \<longrightarrow>
         load32 m (slot_addr (regs s 1) k) = load32 (mem s) (slot_addr (regs s 1) k)"
    using home_code_stores [OF n(1), of s] unfolding take by blast
  have "load32 m (slot_addr (regs s 1) (4 * (int r - 4))) = regs s r" if "4 + w \<le> int r" "r < 11" for r
    using m(2) that n by auto
  moreover have "load32 m (slot_addr (regs s 1) k) = load32 (mem s) (slot_addr (regs s 1) k)"
    if "slot_ok k" "k + 4 \<le> 4 * w \<or> 28 \<le> k" for k
  proof (cases "7 - w = 11 - regno")
    case False
    with n(2) have "nat (7 - w) = 0" by auto
    with m(1) have "s\<lparr>mem := m\<rparr> = s" by simp
    then have "m = mem s" by (metis mstate.select_convs(2) mstate.surjective mstate.update_convs(2))
    then show ?thesis by simp
  qed (use m(3) that n(1) in \<open>auto simp: slot_ok_def\<close>)
  ultimately show ?thesis using m(1) by blast
qed

text \<open>A function of a word and a double word, and of variable arguments.\<close>

definition varargs_fn :: fn_env where
  "varargs_fn = example_fn\<lparr>
     fn_arg_types := [\<lparr>type_mode = SImode, type_size = 4, type_addressable = False, type_void = False\<rparr>],
     fn_arguments := [(\<lparr>type_mode = SImode, type_size = 4, type_addressable = False, type_void = False\<rparr>, None),
       (\<lparr>type_mode = DImode, type_size = 8, type_addressable = False, type_void = False\<rparr>, None)]\<rparr>"

lemma varargs_fn_ok:
  "frame_fits varargs_fn" "stdarg_types (fn_arg_types varargs_fn)" "fn_parameters varargs_fn \<noteq> []"
  "\<forall>p\<in>set (fn_parameters varargs_fn). c_argument (passed_as p) \<and> 1 \<le> words_of (passed_as p)"
  "3 = words_passed (fn_parameters varargs_fn)"
proof -
  show "frame_fits varargs_fn" by (simp add: frame_fits_def varargs_fn_def example_fn_def)
  have ps: "fn_parameters varargs_fn = fn_arguments varargs_fn"
    by (simp add: fn_parameters_def varargs_fn_def example_fn_def)
  show "stdarg_types (fn_arg_types varargs_fn)" "fn_parameters varargs_fn \<noteq> []"
    "\<forall>p\<in>set (fn_parameters varargs_fn). c_argument (passed_as p) \<and> 1 \<le> words_of (passed_as p)"
    "3 = words_passed (fn_parameters varargs_fn)"
    unfolding ps
    by (simp_all add: varargs_fn_def stdarg_types_def passed_as_def c_argument_def words_of_def passable_def)
qed

lemma varargs_fn_prologue: "\<exists>st1. microblaze_expand_prologue default_env varargs_fn example_st = Some st1"
proof -
  note ok = varargs_fn_ok
  have "0 \<le> arg_words (init_cumulative_args (fn_arg_types varargs_fn))"
    by (simp add: init_cumulative_args_def scan_params_words zero_cum_def)
  from scan_parameters [OF ok(3,4) this, of 5] obtain cum regno nm where
    scan: "scan_arguments (init_cumulative_args (fn_arg_types varargs_fn)) 5 (fn_parameters varargs_fn) = Some (cum, regno, nm)" by blast
  obtain tot st' where c: "compute_frame_size default_env varargs_fn (fn_frame_size varargs_fn) example_st = (tot, st')"
    by fastforce
  show ?thesis using prologue_emits [OF ok(1) scan c] by blast
qed

lemma varargs_homed_witness:
  "\<exists>st1 m. microblaze_expand_prologue default_env varargs_fn example_st = Some st1
    \<and> rtl_run (take 4 (emitted st1)) \<lparr>regs = (\<lambda>r. of_nat r), mem = (\<lambda>_. 0), got_base = 0\<rparr> =
        Some \<lparr>regs = (\<lambda>r. of_nat r), mem = m, got_base = 0\<rparr>
    \<and> load32 m (slot_addr 1 12) = 7 \<and> load32 m (slot_addr 1 24) = 10"
proof -
  obtain st1 where st1: "microblaze_expand_prologue default_env varargs_fn example_st = Some st1"
    using varargs_fn_prologue by blast
  have e: "emitted example_st = []" by (simp add: example_st_def)
  let ?s = "\<lparr>regs = (\<lambda>r. of_nat r), mem = (\<lambda>_. 0), got_base = 0\<rparr>"
  from varargs_homed [OF varargs_fn_ok(1) e st1 varargs_fn_ok(2-5), of ?s] obtain m where
    m: "rtl_run (take 4 (emitted st1)) ?s = Some (?s\<lparr>mem := m\<rparr>)"
      "\<forall>r. 4 + 3 \<le> int r \<and> r < 11 \<longrightarrow> load32 m (slot_addr (regs ?s 1) (4 * (int r - 4))) = regs ?s r"
    by auto
  have "load32 m (slot_addr 1 12) = 7" "load32 m (slot_addr 1 24) = 10"
    using m(2) [rule_format, of 7] m(2) [rule_format, of 10] by simp_all
  with st1 m(1) show ?thesis by auto
qed

text \<open>A variable-argument function whose only named parameter is an empty structure.\<close>

definition empty_struct_fn :: fn_env where
  "empty_struct_fn = \<lparr>fn_is_function = True, fn_attributes = [], fn_frame_size = 0,
     fn_outgoing_args_size = 0, fn_calls_alloca = False, fn_is_leaf = True,
     frame_pointer_needed = False, profile_flag = False,
     call_used_regs = (\<lambda>r. CALL_USED_REGISTERS ! r), fn_live = (\<lambda>r. False),
     fn_arg_types = [\<lparr>type_mode = BLKmode, type_size = 0, type_addressable = False, type_void = False\<rparr>],
     fn_arguments = [(\<lparr>type_mode = BLKmode, type_size = 0, type_addressable = False, type_void = False\<rparr>, None)],
     fn_struct_value = False\<rparr>"

end
