(* ===== verification/FrameOffsets.thy ===== *)
theory FrameOffsets
  imports FrameRun Explow
begin

text \<open>
  The offsets the rest of the compiler asks the back end for: where an eliminated register
  points (\<open>microblaze_initial_elimination_offset\<close>, \<open>CAN_ELIMINATE\<close>), what the debugger is told
  (\<open>microblaze_debugger_offset\<close>), and where the return address is
  (\<open>microblaze_return_addr\<close>); and two places where the frame code departs from the layout.
\<close>

section \<open>The operations\<close>

definition MB_ABI_FRAME_POINTER_REGNUM :: nat where "MB_ABI_FRAME_POINTER_REGNUM = 19"

definition ELIMINABLE_REGS :: "(nat \<times> nat) list" where
  "ELIMINABLE_REGS =
    [(ARG_POINTER_REGNUM, STACK_POINTER_REGNUM),
     (ARG_POINTER_REGNUM, GP_REG_FIRST + MB_ABI_FRAME_POINTER_REGNUM),
     (RETURN_ADDRESS_POINTER_REGNUM, STACK_POINTER_REGNUM),
     (RETURN_ADDRESS_POINTER_REGNUM, GP_REG_FIRST + MB_ABI_FRAME_POINTER_REGNUM),
     (RETURN_ADDRESS_POINTER_REGNUM, GP_REG_FIRST + MB_ABI_SUB_RETURN_ADDR_REGNUM),
     (FRAME_POINTER_REGNUM, STACK_POINTER_REGNUM),
     (FRAME_POINTER_REGNUM, GP_REG_FIRST + MB_ABI_FRAME_POINTER_REGNUM)]"

text \<open>\<open>leaf_function_p ()\<close> is the leaf flag of the function here.\<close>

definition CAN_ELIMINATE :: "fn_env \<Rightarrow> nat \<Rightarrow> nat \<Rightarrow> bool" where
  "CAN_ELIMINATE fn from to \<longleftrightarrow>
    (from = RETURN_ADDRESS_POINTER_REGNUM
     \<and> (\<not> fn_is_leaf fn \<or> to = GP_REG_FIRST + MB_ABI_SUB_RETURN_ADDR_REGNUM \<and> fn_is_leaf fn))
    \<or> (from \<noteq> RETURN_ADDRESS_POINTER_REGNUM
       \<and> (to = HARD_FRAME_POINTER_REGNUM \<or> to = STACK_POINTER_REGNUM \<and> \<not> frame_pointer_needed fn))"

text \<open>\<open>None\<close> is an \<open>abort ()\<close>.\<close>

definition microblaze_initial_elimination_offset ::
  "cc_env \<Rightarrow> fn_env \<Rightarrow> fn_state \<Rightarrow> nat \<Rightarrow> nat \<Rightarrow> (int \<times> fn_state) option" where
  "microblaze_initial_elimination_offset env fn st from to =
    (if from = FRAME_POINTER_REGNUM then Some (0, st)
     else if from = ARG_POINTER_REGNUM then
       (if to = STACK_POINTER_REGNUM \<or> to = HARD_FRAME_POINTER_REGNUM
        then Some (compute_frame_size env fn (fn_frame_size fn) st) else None)
     else if from = RETURN_ADDRESS_POINTER_REGNUM then
       (if fn_is_leaf fn then Some (0, st)
        else Some (gp_offset (current_frame_info st)
                   + (int UNITS_PER_WORD - int (POINTER_SIZE div BITS_PER_UNIT)), st))
     else None)"

definition microblaze_debugger_offset ::
  "(machine_mode \<Rightarrow> int \<Rightarrow> int \<Rightarrow> int option) \<Rightarrow> cc_env \<Rightarrow> fn_env \<Rightarrow> fn_state \<Rightarrow> rtx \<Rightarrow> int
   \<Rightarrow> int \<times> fn_state" where
  "microblaze_debugger_offset wide env fn st addr offset =
    (let (reg, offset2) = eliminate_constant_term wide addr 0;
         offset = (if offset = 0 then offset2 else offset)
     in if reg = stack_pointer_rtx \<or> reg = frame_pointer_rtx \<or> reg = hard_frame_pointer_rtx then
          (case (if \<not> initialized (current_frame_info st)
                 then compute_frame_size env fn (fn_frame_size fn) st
                 else (total_size (current_frame_info st), st)) of
             (frame_size, st) \<Rightarrow> (hwi (offset - frame_size), st))
        else (offset, st))"

text \<open>\<open>get_hard_reg_initial_val\<close> gives a pseudo register that holds the value the hard
  register had on entry; the pseudo is a parameter.\<close>

definition microblaze_return_addr :: "(nat \<Rightarrow> rtx) \<Rightarrow> int \<Rightarrow> rtx option" where
  "microblaze_return_addr initial_val count =
    (if count \<noteq> 0 then None
     else Some (Plus (initial_val MB_ABI_SUB_RETURN_ADDR_REGNUM) (ConstInt 8)))"

section \<open>Properties\<close>

lemma frame_size_computed:
  assumes "frame_fits fn" "compute_frame_size env fn (fn_frame_size fn) st = (tot, st')"
  shows "tot = total_size (current_frame_info st')" "0 \<le> tot" "tot < 2 ^ 31"
  using compute_frame_size_layout(2) [OF assms] compute_frame_size_ok [OF assms]
  by (auto simp: frame_ok_def Let_def)

text \<open>The stack and frame pointer after the prologue.\<close>

lemma prologue_stack_pointer:
  assumes "frame_fits fn" "emitted st = []" "microblaze_expand_prologue env fn st = Some st1"
    and c: "compute_frame_size env fn (fn_frame_size fn) st = (fsiz, st')"
  shows "\<exists>s1. rtl_run (emitted st1) s0 = Some s1 \<and> regs s1 1 = regs s0 1 - word_of_int fsiz
    \<and> (frame_pointer_needed fn \<longrightarrow> regs s1 19 = regs s0 1 - word_of_int fsiz)"
proof -
  obtain regno arg_name where st1: "emitted st1 = homing fn regno arg_name
      @ (if fsiz > 0 then frame_in fn st' else []) @ pic_code env fn"
    using expanders_emit [OF assms] by auto
  obtain m where home: "rtl_run (homing fn regno arg_name) s0 = Some (s0\<lparr>mem := m\<rparr>)"
    using homing_run by blast
  note size = frame_size_computed [OF assms(1) c] and ok = compute_frame_size_ok [OF assms(1) c]
  have "\<exists>sf. rtl_run (if fsiz > 0 then frame_in fn st' else []) (s0\<lparr>mem := m\<rparr>) = Some sf
      \<and> regs sf 1 = regs s0 1 - word_of_int fsiz
      \<and> (frame_pointer_needed fn \<longrightarrow> regs sf 19 = regs s0 1 - word_of_int fsiz)"
  proof (cases "fsiz > 0")
    case True
    then show ?thesis using frame_in_run [OF ok, of "s0\<lparr>mem := m\<rparr>"] size(1) by auto
  next
    case False
    then have "fsiz = 0" "\<not> frame_pointer_needed fn"
      using size ok by (auto simp: frame_ok_def Let_def)
    then show ?thesis by simp
  qed
  then obtain sf where sf: "rtl_run (if fsiz > 0 then frame_in fn st' else []) (s0\<lparr>mem := m\<rparr>) = Some sf"
    "regs sf 1 = regs s0 1 - word_of_int fsiz"
    "frame_pointer_needed fn \<longrightarrow> regs sf 19 = regs s0 1 - word_of_int fsiz" by blast
  obtain s1 where s1: "rtl_run (pic_code env fn) sf = Some s1" "regs s1 = (regs sf)(20 := regs s1 20)"
    using pic_run [of env fn sf] by blast
  have "rtl_run (emitted st1) s0 = Some s1"
    by (simp only: st1 rtl_run_append home sf(1) s1(1) option.case)
  moreover have "regs s1 1 = regs sf 1" "regs s1 19 = regs sf 19" by (subst s1(2), simp)+
  ultimately show ?thesis using sf(2,3) by auto
qed

text \<open>C10. The argument pointer is eliminated to the incoming stack pointer: for every elimination of it that
  \<open>CAN_ELIMINATE\<close> allows, to a frame pointer only where the function needs one, the offset that
  \<open>microblaze_initial_elimination_offset\<close> returns, added to what the register holds after the code of the prologue
  has run, is the stack pointer the caller left.\<close>

theorem arg_pointer_elimination:
  assumes "frame_fits fn" "emitted st = []" "microblaze_expand_prologue env fn st = Some st1"
    and "(ARG_POINTER_REGNUM, to) \<in> set ELIMINABLE_REGS" "CAN_ELIMINATE fn ARG_POINTER_REGNUM to"
    and "to = HARD_FRAME_POINTER_REGNUM \<Longrightarrow> frame_pointer_needed fn"
  shows "\<exists>off st' s1. microblaze_initial_elimination_offset env fn st ARG_POINTER_REGNUM to = Some (off, st')
    \<and> rtl_run (emitted st1) s0 = Some s1
    \<and> rtl_val s1 (Plus (Reg Pmode to) (ConstInt off)) = Some (regs s0 1)"
proof -
  obtain off st' where c: "compute_frame_size env fn (fn_frame_size fn) st = (off, st')" by fastforce
  obtain s1 where s1: "rtl_run (emitted st1) s0 = Some s1" "regs s1 1 = regs s0 1 - word_of_int off"
    "frame_pointer_needed fn \<longrightarrow> regs s1 19 = regs s0 1 - word_of_int off"
    using prologue_stack_pointer [OF assms(1-3) c] by blast
  have "to = 1 \<or> to = 19 \<and> frame_pointer_needed fn"
    using assms(4,6) by (auto simp: ELIMINABLE_REGS_def MB_ABI_FRAME_POINTER_REGNUM_def)
  then show ?thesis using c s1 by (auto simp: microblaze_initial_elimination_offset_def)
qed

lemma arg_pointer_elimination_witness:
  "\<exists>st1 off st' s1. microblaze_expand_prologue default_env varargs_fn example_st = Some st1
     \<and> microblaze_initial_elimination_offset default_env varargs_fn example_st 43 19 = Some (off, st')
     \<and> rtl_run (emitted st1) \<lparr>regs = (\<lambda>r. 1000), mem = (\<lambda>_. 0), got_base = 0\<rparr> = Some s1
     \<and> rtl_val s1 (Plus (Reg Pmode 19) (ConstInt off)) = Some 1000"
proof -
  have np: "frame_pointer_needed varargs_fn" by (simp add: varargs_fn_def example_fn_def)
  have e: "emitted example_st = []" by (simp add: example_st_def)
  obtain st1 where st1: "microblaze_expand_prologue default_env varargs_fn example_st = Some st1"
    using varargs_fn_prologue by blast
  have el: "(ARG_POINTER_REGNUM, 19) \<in> set ELIMINABLE_REGS" "CAN_ELIMINATE varargs_fn ARG_POINTER_REGNUM 19"
    by (simp_all add: ELIMINABLE_REGS_def CAN_ELIMINATE_def MB_ABI_FRAME_POINTER_REGNUM_def)
  let ?s = "\<lparr>regs = (\<lambda>r. 1000), mem = (\<lambda>_. 0), got_base = 0\<rparr>"
  obtain off st' s1 where
    "microblaze_initial_elimination_offset default_env varargs_fn example_st ARG_POINTER_REGNUM 19 = Some (off, st')"
    "rtl_run (emitted st1) ?s = Some s1" "rtl_val s1 (Plus (Reg Pmode 19) (ConstInt off)) = Some (regs ?s 1)"
    using arg_pointer_elimination [OF varargs_fn_ok(1) e st1 el np, of ?s] by blast
  with st1 show ?thesis by (intro exI conjI) simp_all
qed

text \<open>The return-address pointer is eliminated to the first saved general register and
  not to the link word: in a function that is not a leaf and saves a register, the offset
  it is given is the offset of a slot that holds another register, and it is never the offset 0
  at which the prologue stores \<open>r15\<close>.\<close>

theorem return_address_pointer_misses_link:
  assumes "frame_fits fn" "\<not> fn_is_leaf fn"
    and "compute_frame_size env fn (fn_frame_size fn) st = (tot, st')"
    and "microblaze_must_save_register env fn st' r" "r < 32" "r \<noteq> 15"
  shows "\<exists>off r'. microblaze_initial_elimination_offset env fn st' RETURN_ADDRESS_POINTER_REGNUM STACK_POINTER_REGNUM
       = Some (off, st') \<and> (r', off) \<in> set (saved_slots st') \<and> r' \<noteq> 15 \<and> off \<noteq> 0
       \<and> link_slots fn st' = [(15, 0)]"
proof -
  let ?off = "gp_offset (current_frame_info st')"
  note ok = compute_frame_size_ok [OF assms(1,3)]
  have "r \<in> fst ` set (saved_slots st')" using saved_registers [OF assms(1,3)] assms by simp
  then obtain k where rk: "(r, k) \<in> set (saved_slots st')" by force
  have first: "gp_slots m off rs \<noteq> [] \<Longrightarrow> snd (hd (gp_slots m off rs)) = off" for m off rs
    by (induction m off rs rule: gp_slots.induct) auto
  have ne: "saved_slots st' \<noteq> []" using rk by auto
  then have "snd (hd (saved_slots st')) = ?off" using first by (simp add: saved_slots_def)
  with ne obtain r' where r': "(r', ?off) \<in> set (saved_slots st')"
    by (metis hd_in_set prod.collapse)
  have "4 \<le> ?off" "r' \<noteq> 15" using saved_slot_range(2,5) [OF ok r'] by auto
  with r' show ?thesis
    using assms(2) by (auto simp: microblaze_initial_elimination_offset_def link_slots_def keeps_link_def)
qed

lemma return_address_pointer_misses_link_witness:
  "\<exists>st' off r'. microblaze_initial_elimination_offset default_env example_fn st' 44 1 = Some (off, st')
     \<and> (r', off) \<in> set (saved_slots st') \<and> r' \<noteq> 15 \<and> off \<noteq> 0"
proof -
  have fits: "frame_fits example_fn" by (simp add: frame_fits_def example_fn_def)
  obtain tot st' where c: "compute_frame_size default_env example_fn (fn_frame_size example_fn) example_st = (tot, st')"
    by fastforce
  have "microblaze_must_save_register default_env example_fn st' 22"
    by (simp add: microblaze_must_save_register_def df_regs_ever_live_p_def example_fn_def
        CALL_USED_REGISTERS_def Let_def)
  from return_address_pointer_misses_link [OF fits _ c this] show ?thesis
    by (auto simp: example_fn_def)
qed

text \<open>The debugger is told entry-relative offsets: for a stack address, the offset
  reported for it, added to the stack pointer at entry (the virtual frame pointer), is the
  address that the code computes after the prologue has lowered the stack pointer.\<close>

theorem debugger_offset_entry_relative:
  assumes "si_sum addr" "eliminate_constant_term wide addr 0 = (stack_pointer_rtx, k)" "in_hwi k"
    and "microblaze_debugger_offset wide env fn st addr 0 = (off, st')"
    and "initialized (current_frame_info st)"
    and "regs s 1 = entry_sp - word_of_int (total_size (current_frame_info st))"
  shows "rtl_val s addr = Some (entry_sp + word_of_int off)"
proof -
  have off: "off = hwi (k - total_size (current_frame_info st))"
    using assms(2,4,5) by (auto simp: microblaze_debugger_offset_def Let_def)
  have "map_option (\<lambda>v. v + word_of_int 0) (rtl_val s addr) =
      map_option (\<lambda>v. v + word_of_int k) (rtl_val s stack_pointer_rtx)"
    using eliminate_value_gen [OF assms(1) _ assms(2)] si_sum_val [OF assms(1), of s] by fastforce
  then show ?thesis using assms(6) by (simp add: off stack_pointer_rtx_def)
qed

lemma debugger_offset_entry_relative_witness:
  "rtl_val \<lparr>regs = (\<lambda>_. 100 - 48), mem = (\<lambda>_. 0), got_base = 0\<rparr>
     (Plus (Plus stack_pointer_rtx (ConstInt 8)) (ConstInt 4)) = Some (100 + word_of_int (-36))"
proof -
  let ?st = "example_st\<lparr>current_frame_info := zero_frame_info\<lparr>total_size := 48, initialized := True\<rparr>\<rparr>"
  show ?thesis
    using debugger_offset_entry_relative
      [of "Plus (Plus stack_pointer_rtx (ConstInt 8)) (ConstInt 4)" "\<lambda>_ _ _. None" 12
        default_env example_fn ?st "-36" ?st "\<lparr>regs = (\<lambda>_. 100 - 48), mem = (\<lambda>_. 0), got_base = 0\<rparr>" 100]
    by (simp add: stack_pointer_rtx_def hwi_def in_hwi_def microblaze_debugger_offset_def)
qed

text \<open>A variable-argument function whose only parameter, hidden ones included, is a structure of size zero homes from
  \<open>r4\<close>: its prologue begins by storing \<open>r4\<close> at the incoming stack pointer, the word where the caller keeps its own
  return address.\<close>

theorem empty_struct_clobbers_link:
  assumes "frame_fits fn" "emitted st = []" "microblaze_expand_prologue env fn st = Some st1"
    and "stdarg_types (fn_arg_types fn)" "fn_parameters fn = [(t, nm)]"
    and "type_mode t = BLKmode" "type_size t = 0" "\<not> type_addressable t"
  shows "\<exists>s1. rtl_run (take 1 (emitted st1)) s = Some s1 \<and> load32 (mem s1) (regs s 1) = regs s 4"
proof -
  let ?cum = "init_cumulative_args (fn_arg_types fn)"
  have cum0: "arg_words ?cum = 0"
    by (simp add: init_cumulative_args_def scan_params_words zero_cum_def)
  have fa: "function_arg ?cum BLKmode = Some (?cum\<lparr>last_arg_fp := 0\<rparr>, Some (Reg BLKmode 5))"
    by (subst function_arg_passable) (simp_all add: passable_def cum0)
  have "\<exists>cum. function_arg_advance (?cum\<lparr>last_arg_fp := 0\<rparr>) BLKmode 0 = Some cum"
    by (simp add: function_arg_advance_def Let_def)
  then obtain cum where scan: "scan_arguments ?cum 5 (fn_parameters fn) = Some (cum, 4, nm)"
    using fa assms(5-8) by auto
  obtain tot st' where c: "compute_frame_size env fn (fn_frame_size fn) st = (tot, st')" by fastforce
  have em: "emitted st' = []"
    using arg_cong [OF compute_frame_size_layout(1) [OF assms(1) c], of emitted] assms(2)
    by (simp add: note_function_def mark_live_def Let_def split: if_splits)
  have "varargs_function fn nm" using assms(4) by (simp add: varargs_function_def)
  then have "\<exists>more. homing fn 4 nm = SetX (Mem SImode stack_pointer_rtx) (Reg SImode 4) # more"
    by (simp add: homing_def upt_conv_Cons)
  then obtain more where "emitted st1 = SetX (Mem SImode stack_pointer_rtx) (Reg SImode 4) # more"
    using prologue_emits [OF assms(1) scan c] assms(3) em by auto
  then show ?thesis by (simp add: stack_pointer_rtx_def)
qed

lemma empty_struct_clobbers_link_witness:
  "\<exists>st1 s1. microblaze_expand_prologue default_env empty_struct_fn example_st = Some st1
     \<and> rtl_run (take 1 (emitted st1)) s = Some s1 \<and> load32 (mem s1) (regs s 1) = regs s 4"
proof -
  let ?t = "\<lparr>type_mode = BLKmode, type_size = 0, type_addressable = False, type_void = False\<rparr>"
  have fits: "frame_fits empty_struct_fn" by (simp add: frame_fits_def empty_struct_fn_def)
  have e: "emitted example_st = []" by (simp add: example_st_def)
  obtain tot st' where c:
    "compute_frame_size default_env empty_struct_fn (fn_frame_size empty_struct_fn) example_st = (tot, st')"
    by fastforce
  have "\<exists>cum. scan_arguments (init_cumulative_args (fn_arg_types empty_struct_fn)) 5
      (fn_parameters empty_struct_fn) = Some (cum, 4, None)"
    by (simp add: empty_struct_fn_def fn_parameters_def init_cumulative_args_def zero_cum_def
        function_arg_def function_arg_advance_def passable_def Let_def)
  then obtain st1 where st1: "microblaze_expand_prologue default_env empty_struct_fn example_st = Some st1"
    using prologue_emits [OF fits _ c] by blast
  have "stdarg_types (fn_arg_types empty_struct_fn)" "fn_parameters empty_struct_fn = [(?t, None)]"
    by (simp_all add: stdarg_types_def fn_parameters_def empty_struct_fn_def)
  from empty_struct_clobbers_link [OF fits e st1 this, of s] st1 show ?thesis by simp
qed

end
