(* ===== verification/RtlStep.thy ===== *)
theory RtlStep
  imports AsmOut
begin

text \<open>
  Code with labels and conditional jumps: a step relation on a program counter and a machine
  state, for the sequences that contain a loop. Float comparisons are made by the
  floating-point unit, which is a parameter; word comparisons are \<open>cond_holds\<close>.
\<close>

section \<open>Jumps\<close>

fun REGNO :: "rtx \<Rightarrow> nat option" where
  "REGNO (Reg m r) = Some r"
| "REGNO _ = None"

definition compare_val ::
  "(rtx_code \<Rightarrow> 32 word \<Rightarrow> 32 word \<Rightarrow> bool) \<Rightarrow> mstate \<Rightarrow> rtx_code \<Rightarrow> rtx \<Rightarrow> rtx \<Rightarrow> bool option" where
  "compare_val fcmp s c a b =
    (case (rtl_val s a, rtl_val s b) of
       (Some v, Some w) \<Rightarrow> Some (if GET_MODE a = SFmode then fcmp c v w else cond_holds c v w)
     | _ \<Rightarrow> None)"

fun cond_part :: "rtx \<Rightarrow> (rtx_code \<times> rtx \<times> rtx) option" where
  "cond_part (Binary c m a b) = Some (c, a, b)"
| "cond_part _ = None"

fun label_part :: "rtx \<Rightarrow> nat option" where
  "label_part (LabelRef l) = Some l"
| "label_part _ = None"

fun branch_cond :: "rtx \<Rightarrow> (rtx_code \<times> rtx \<times> rtx \<times> nat) option" where
  "branch_cond (IfThenElse m c x y) =
     (if y = Pc then
        (case (cond_part c, label_part x) of (Some (c, a, b), Some l) \<Rightarrow> Some (c, a, b, l) | _ \<Rightarrow> None)
      else None)"
| "branch_cond _ = None"

text \<open>A jump, alone or with the clobber of the assembler's temporary.\<close>

fun jump_cond :: "rtx \<Rightarrow> (rtx_code \<times> rtx \<times> rtx \<times> nat) option" where
  "jump_cond (SetX d s) = (if d = Pc then branch_cond s else None)"
| "jump_cond (Parallel xs) =
     (case xs of x # y # zs \<Rightarrow> if GET_CODE y = CLOBBER \<and> zs = [] then jump_cond x else None | _ \<Rightarrow> None)"
| "jump_cond _ = None"

section \<open>Steps\<close>

definition label_pc :: "rtx list \<Rightarrow> nat \<Rightarrow> nat option" where
  "label_pc code l =
     (case filter (\<lambda>i. code ! i = CodeLabel l) [0..<length code] of [] \<Rightarrow> None | i # is \<Rightarrow> Some i)"

inductive rtl_step :: "(rtx_code \<Rightarrow> 32 word \<Rightarrow> 32 word \<Rightarrow> bool) \<Rightarrow> rtx list
    \<Rightarrow> nat \<times> mstate \<Rightarrow> nat \<times> mstate \<Rightarrow> bool"
  for fcmp code where
  plain: "pc < length code \<Longrightarrow> jump_cond (code ! pc) = None \<Longrightarrow> rtl_exec (code ! pc) s = Some s'
    \<Longrightarrow> rtl_step fcmp code (pc, s) (Suc pc, s')"
| label: "pc < length code \<Longrightarrow> code ! pc = CodeLabel l \<Longrightarrow> rtl_step fcmp code (pc, s) (Suc pc, s)"
| taken: "pc < length code \<Longrightarrow> jump_cond (code ! pc) = Some (c, a, b, l)
    \<Longrightarrow> compare_val fcmp s c a b = Some True \<Longrightarrow> label_pc code l = Some pc'
    \<Longrightarrow> rtl_step fcmp code (pc, s) (pc', s)"
| fall: "pc < length code \<Longrightarrow> jump_cond (code ! pc) = Some (c, a, b, l)
    \<Longrightarrow> compare_val fcmp s c a b = Some False \<Longrightarrow> rtl_step fcmp code (pc, s) (Suc pc, s)"

inductive_cases rtl_stepE: "rtl_step fcmp code (pc, s) c'"

abbreviation rtl_steps :: "(rtx_code \<Rightarrow> 32 word \<Rightarrow> 32 word \<Rightarrow> bool) \<Rightarrow> rtx list
    \<Rightarrow> nat \<times> mstate \<Rightarrow> nat \<times> mstate \<Rightarrow> bool" where
  "rtl_steps fcmp code \<equiv> (rtl_step fcmp code)\<^sup>*\<^sup>*"

text \<open>A machine does one thing at a time, so the result of a run is its only result.\<close>

lemma rtl_step_deterministic:
  "rtl_step fcmp code (pc, s) c1 \<Longrightarrow> rtl_step fcmp code (pc, s) c2 \<Longrightarrow> c1 = c2"
  by (erule rtl_stepE; erule rtl_stepE; force)

lemma rtl_stops_at_end: "\<not> rtl_step fcmp code (length code, s) c"
  by (auto elim: rtl_stepE)

lemma rtl_result_unique:
  assumes "rtl_steps fcmp code c (length code, s1)" "rtl_steps fcmp code c (length code, s2)"
  shows "s1 = s2"
  using assms
proof (induction rule: converse_rtranclp_induct)
  case base
  then show ?case by (auto elim: converse_rtranclpE simp: rtl_stops_at_end)
next
  case (step c c')
  obtain pc s where c: "c = (pc, s)" by fastforce
  from step.prems show ?case
  proof (cases rule: converse_rtranclpE)
    case base
    then show ?thesis using step.hyps(1) rtl_stops_at_end by metis
  next
    case (step c'')
    then have "c'' = c'" using \<open>rtl_step fcmp code c c'\<close> rtl_step_deterministic unfolding c by blast
    then show ?thesis using step.IH step by simp
  qed
qed

text \<open>Straight-line code runs from one end of its segment to the other.\<close>

definition straight :: "rtx list \<Rightarrow> bool" where
  "straight is \<longleftrightarrow> (\<forall>i \<in> set is. jump_cond i = None)"

lemma rtl_steps_straight:
  "code = pre @ is @ post \<Longrightarrow> straight is \<Longrightarrow> rtl_run is s = Some s'
    \<Longrightarrow> rtl_steps fcmp code (length pre, s) (length pre + length is, s')"
proof (induction "is" arbitrary: pre s)
  case (Cons i "is")
  obtain s1 where s1: "rtl_exec i s = Some s1" "rtl_run is s1 = Some s'"
    using Cons.prems(3) by (auto split: option.splits)
  have "rtl_step fcmp code (length pre, s) (Suc (length pre), s1)"
    using Cons.prems s1 by (intro rtl_step.plain) (auto simp: straight_def)
  moreover have "rtl_steps fcmp code (length (pre @ [i]), s1) (length (pre @ [i]) + length is, s')"
    using Cons.prems s1 by (intro Cons.IH) (auto simp: straight_def)
  ultimately show ?case by (auto intro: converse_rtranclp_into_rtranclp)
qed simp

end
