(* ===== verification/Costs.thy ===== *)
theory Costs
  imports Options RtlStep
begin

text \<open>
  Instruction selection hooks of \<open>gcc/config/microblaze/microblaze.c\<close>: the cost of an
  expression (\<open>microblaze_rtx_costs\<close>), shifts (\<open>microblaze_expand_shift\<close>), conditional
  branches (\<open>microblaze_gen_conditional_branch\<close>), moves (\<open>microblaze_expand_move\<close>), secondary
  reloads (\<open>microblaze_secondary_reload_class\<close>), and the cost and class macros of
  \<open>microblaze.h\<close>.
\<close>

section \<open>Costs\<close>

text \<open>The second operand of a binary expression, \<open>XEXP (x, 1)\<close>.\<close>

fun xexp1 :: "rtx \<Rightarrow> rtx" where
  "xexp1 (Binary c m a b) = b"
| "xexp1 x = x"

definition fast_cpu :: "cc_env \<Rightarrow> bool" where
  "fast_cpu env \<longleftrightarrow> microblaze_version_compare (select_cpu env) ''v5.00.a'' \<ge> 0"

text \<open>The three shift codes.\<close>

definition shift_costs :: "cc_env \<Rightarrow> rtx \<Rightarrow> int" where
  "shift_costs env x =
    (if target_barrel_shift env then
       (if fast_cpu env then COSTS_N_INSNS 1 else COSTS_N_INSNS 2)
     else if \<not> target_soft_mul env then COSTS_N_INSNS 1
     else if GET_CODE (xexp1 x) = CONST_INT then
       (let n = INTVAL (xexp1 x);
            tot = COSTS_N_INSNS n + 1;
            tot = (if optimize_size env \<and> n > 5 then tot - 2 else tot)
        in if \<not> optimize_size env \<and> n > 17 then tot - 2 else tot)
     else COSTS_N_INSNS (32 * 4))"

text \<open>The hook gets \<open>*total\<close> and returns its truth value with the new \<open>*total\<close>.\<close>

definition microblaze_rtx_costs :: "cc_env \<Rightarrow> rtx \<Rightarrow> rtx_code \<Rightarrow> int \<Rightarrow> bool \<times> int" where
  "microblaze_rtx_costs env x code tot =
    (let mode = GET_MODE x
     in if code = MEM then
          (let num_words = (if GET_MODE_SIZE mode > UNITS_PER_WORD then 2 else 1)
           in (True, if simple_memory_operand x then COSTS_N_INSNS (2 * num_words)
                     else COSTS_N_INSNS (2 * (2 * num_words))))
        else if code = NOT_CODE then
          (False, if mode = DImode then COSTS_N_INSNS 2 else COSTS_N_INSNS 1)
        else if code = AND_CODE \<or> code = IOR \<or> code = XOR_CODE then
          (False, if mode = DImode then COSTS_N_INSNS 2 else COSTS_N_INSNS 1)
        else if code = ASHIFT \<or> code = ASHIFTRT \<or> code = LSHIFTRT then
          (True, shift_costs env x)
        else if code = PLUS \<or> code = MINUS then
          (if mode = SFmode \<or> mode = DFmode then
             (True, if target_hard_float env then COSTS_N_INSNS 6 else tot)
           else if mode = DImode then (True, COSTS_N_INSNS 4)
           else (True, COSTS_N_INSNS 1))
        else if code = NEG then (False, if mode = DImode then COSTS_N_INSNS 4 else tot)
        else if code = MULT then
          (if mode = SFmode then (True, if target_hard_float env then COSTS_N_INSNS 6 else tot)
           else if \<not> target_soft_mul env then
             (True, if fast_cpu env then COSTS_N_INSNS 1 else COSTS_N_INSNS 3)
           else (True, COSTS_N_INSNS 10))
        else if code = DIV \<or> code = UDIV then
          (False, if mode = SFmode \<and> target_hard_float env then COSTS_N_INSNS 23 else tot)
        else if code = SIGN_EXTEND then (False, COSTS_N_INSNS 1)
        else if code = ZERO_EXTEND then (False, COSTS_N_INSNS 1)
        else (False, tot))"

definition GR_REG_CLASS_P :: "reg_class \<Rightarrow> bool" where "GR_REG_CLASS_P c \<longleftrightarrow> c = GR_REGS"

definition md_class :: "reg_class \<Rightarrow> bool" where
  "md_class c \<longleftrightarrow> c = HI_REG \<or> c = LO_REG \<or> c = MD_REGS \<or> c = HILO_REG"

definition REGISTER_MOVE_COST :: "reg_class \<Rightarrow> reg_class \<Rightarrow> int" where
  "REGISTER_MOVE_COST from to =
    (if GR_REG_CLASS_P from \<and> GR_REG_CLASS_P to then 2
     else if md_class from \<and> GR_REG_CLASS_P to then 6
     else if md_class to \<and> GR_REG_CLASS_P from then 6
     else if from = ST_REGS \<and> GR_REG_CLASS_P to then 4
     else 12)"

definition PREFERRED_RELOAD_CLASS :: "rtx \<Rightarrow> reg_class \<Rightarrow> reg_class" where
  "PREFERRED_RELOAD_CLASS x c =
    (if c \<noteq> ALL_REGS then c
     else if GET_MODE_CLASS (GET_MODE x) = MODE_FLOAT \<or> GET_MODE_CLASS (GET_MODE x) = MODE_COMPLEX_FLOAT
     then GR_REGS
     else if GET_MODE_CLASS (GET_MODE x) = MODE_INT \<or> GET_MODE x = VOIDmode then GR_REGS
     else c)"

section \<open>Shifts\<close>

definition reg_or_subreg :: "rtx \<Rightarrow> bool" where
  "reg_or_subreg x \<longleftrightarrow> GET_CODE x = REG \<or> GET_CODE x = SUBREG"

text \<open>\<open>None\<close> is a failed \<open>gcc_assert\<close>, or a \<open>REGNO\<close> read of an operand that is not a register;
  \<open>True\<close> says that the shift is done.\<close>

definition microblaze_expand_shift ::
  "cc_env \<Rightarrow> rtx \<Rightarrow> rtx \<Rightarrow> rtx \<Rightarrow> emit_state \<Rightarrow> (bool \<times> emit_state) option" where
  "microblaze_expand_shift env op0 op1 op2 st =
    (if \<not> (GET_CODE op2 = CONST_INT \<or> reg_or_subreg op2) then None
     else if GET_CODE op2 = CONST_INT \<and> INTVAL op2 = 1 then Some (False, st)
     else if target_barrel_shift env then Some (False, st)
     else if \<not> (reg_or_subreg op0 \<or> reg_or_subreg op1) then None
     else if GET_CODE op2 = CONST_INT \<and> INTVAL op2 = 0 then
       (case (REGNO op0, REGNO op1) of
          (Some r0, Some r1) \<Rightarrow> Some (True, if r0 \<noteq> r1 then emit_insn (SetX op0 op1) st else st)
        | _ \<Rightarrow> None)
     else Some (False, st))"

section \<open>Conditional branches\<close>

datatype cmp_type = CMP_SI | CMP_DI | CMP_SF | CMP_DF | CMP_MAX

text \<open>\<open>branch_type\<close>, \<open>branch_cmp\<close> and the label come from the comparison expanders; \<open>Inl\<close> is
  the \<open>fatal_insn\<close>.\<close>

definition emit_branch ::
  "machine_mode \<Rightarrow> nat \<Rightarrow> rtx_code \<Rightarrow> rtx \<Rightarrow> rtx \<Rightarrow> 'a emit_state_scheme \<Rightarrow> 'a emit_state_scheme" where
  "emit_branch mode label test_code cmp0 cmp1 st =
    (let jump = SetX Pc (IfThenElse VOIDmode (Binary test_code mode cmp0 cmp1) (LabelRef label) Pc)
     in if \<not> (GET_CODE cmp1 = CONST_INT \<and> INTVAL cmp1 = 0)
        then emit_insn (Parallel [jump, Clobber (Reg SImode MB_ABI_ASM_TEMP_REGNUM)]) st
        else emit_insn jump st)"

definition microblaze_gen_conditional_branch ::
  "cc_env \<Rightarrow> cmp_type \<Rightarrow> rtx \<Rightarrow> rtx \<Rightarrow> nat \<Rightarrow> rtx_code
   \<Rightarrow> 'a emit_state_scheme \<Rightarrow> diag + 'a emit_state_scheme" where
  "microblaze_gen_conditional_branch env type cmp0 cmp1 label test_code st =
    (case type of
       CMP_SI \<Rightarrow> Inr (emit_branch SImode label test_code cmp0 cmp1 st)
     | CMP_DI \<Rightarrow> Inr (emit_branch DImode label test_code cmp0 cmp1 st)
     | CMP_SF \<Rightarrow>
         if target_hard_float env then
           (case gen_reg_rtx SImode st of
              (reg0, st) \<Rightarrow>
                let st = emit_insn (SetX reg0
                           (Binary (if test_code = NE then EQ else test_code) SImode cmp0 cmp1)) st;
                    test_code = (if test_code = NE then EQ else NE)
                in Inr (emit_branch SImode label test_code reg0 const0_rtx st))
         else Inl (FatalInsn ''gen_conditional_branch:'')
     | _ \<Rightarrow> Inl (FatalInsn ''gen_conditional_branch:''))"

section \<open>Moves\<close>

definition force_reg :: "machine_mode \<Rightarrow> rtx \<Rightarrow> emit_state \<Rightarrow> rtx \<times> emit_state" where
  "force_reg mode x st =
    (if GET_CODE x = REG then (x, st)
     else case gen_reg_rtx mode st of (temp, st) \<Rightarrow> (temp, emit_move_insn temp x st))"

definition note_pic_reg :: "cc_env \<Rightarrow> emit_state \<Rightarrow> emit_state" where
  "note_pic_reg env st = (if reload_in_progress env then mark_live (PIC_OFFSET_TABLE_REGNUM env) st else st)"

text \<open>A store through a symbol under PIC goes through a register that holds its address; the
  result is the new destination.\<close>

definition pic_destination :: "cc_env \<Rightarrow> machine_mode \<Rightarrow> rtx \<Rightarrow> emit_state \<Rightarrow> rtx \<times> emit_state" where
  "pic_destination env mode op0 st =
    (case op0 of
       Mem m (SymbolRef s) \<Rightarrow>
         let st = note_pic_reg env st;
             addr = expand_pic_symbol_ref env (SymbolRef s);
             (ptr_reg, st) = gen_reg_rtx Pmode st;
             st = emit_move_insn ptr_reg addr st
         in (Mem mode ptr_reg, st)
     | _ \<Rightarrow> (op0, st))"

definition pic_source_symbol :: "cc_env \<Rightarrow> rtx \<Rightarrow> rtx \<Rightarrow> emit_state \<Rightarrow> emit_state" where
  "pic_source_symbol env op0 op1 st =
    (let st = note_pic_reg env st;
         result = expand_pic_symbol_ref env op1
     in if GET_CODE op0 \<noteq> REG then
          (case gen_reg_rtx Pmode st of
             (ptr_reg, st) \<Rightarrow> emit_move_insn op0 ptr_reg (emit_move_insn ptr_reg result st))
        else emit_move_insn op0 result st)"

text \<open>The expander returns whether it is done, the operands' destination as it left it, and
  the emission context. \<open>register_operand (x, SImode)\<close> is a word-mode register or a subreg of
  one.\<close>

definition register_operand_SI :: "rtx \<Rightarrow> bool" where
  "register_operand_SI x \<longleftrightarrow> GET_MODE x = SImode \<and>
     (GET_CODE x = REG \<or> GET_CODE x = SUBREG \<and> GET_CODE (SUBREG_REG x) = REG)"

definition pic_move :: "cc_env \<Rightarrow> machine_mode \<Rightarrow> rtx \<Rightarrow> rtx \<Rightarrow> emit_state \<Rightarrow> bool \<times> emit_state" where
  "pic_move env mode op0 op1 st =
    (if GET_CODE op1 = SYMBOL_REF \<or> GET_CODE op1 = LABEL_REF then (True, pic_source_symbol env op0 op1 st)
     else
       case op1 of
         Mem m (SymbolRef s) \<Rightarrow>
           let st = note_pic_reg env st;
               result = expand_pic_symbol_ref env (SymbolRef s);
               (ptr_reg, st) = gen_reg_rtx Pmode st;
               st = emit_move_insn ptr_reg result st
           in (True, emit_move_insn op0 (Mem mode ptr_reg) st)
       | Const (Binary c cm temp temp2) \<Rightarrow>
           if pic_address_needs_scratch env op1 then
             (let (temp, st) = force_reg SImode temp st;
                  st = note_pic_reg env st
              in (True, emit_move_insn op0 (Binary PLUS SImode temp temp2) st))
           else (False, st)
       | _ \<Rightarrow> (False, st))"

definition microblaze_expand_move ::
  "cc_env \<Rightarrow> machine_mode \<Rightarrow> rtx \<Rightarrow> rtx \<Rightarrow> emit_state \<Rightarrow> bool \<times> rtx \<times> emit_state" where
  "microblaze_expand_move env mode op0 op1 st =
    (let (op0, st) = (if flag_pic env \<noteq> 0 then pic_destination env mode op0 st else (op0, st));
         (finished, st) = (if flag_pic env \<noteq> 0 then pic_move env mode op0 op1 st else (False, st))
     in if finished then (True, op0, st)
        else if \<not> (reload_in_progress env \<or> reload_completed env)
          \<and> \<not> register_operand_SI op0 \<and> \<not> register_operand_SI op1
          \<and> (GET_CODE op1 \<noteq> CONST_INT \<or> INTVAL op1 \<noteq> 0)
        then (case force_reg SImode op1 st of (temp, st) \<Rightarrow> (True, op0, emit_move_insn op0 temp st))
        else (False, op0, st))"

section \<open>Secondary reloads\<close>

fun strip_subreg :: "rtx \<Rightarrow> rtx" where
  "strip_subreg (Subreg m x b) = strip_subreg x"
| "strip_subreg x = x"

text \<open>\<open>have_renumber\<close> says that \<open>reg_renumber\<close> is not null; \<open>subreg_offset\<close> is what
  \<open>true_regnum\<close> asks of a subreg.\<close>

definition reload_regno :: "cc_env \<Rightarrow> bool \<Rightarrow> (rtx \<Rightarrow> int option) \<Rightarrow> rtx \<Rightarrow> int" where
  "reload_regno env have_renumber subreg_offset x =
    (case x of
       Unary c m y \<Rightarrow>
         if c = SIGN_EXTEND then
           (if have_renumber then true_regnum env subreg_offset y else (case REGNO (strip_subreg y) of None \<Rightarrow> -1 | Some r \<Rightarrow> int r))
         else -1
     | Reg m r \<Rightarrow> true_regnum env subreg_offset x
     | Subreg m y b \<Rightarrow> true_regnum env subreg_offset x
     | _ \<Rightarrow> -1)"

definition microblaze_secondary_reload_class ::
  "cc_env \<Rightarrow> bool \<Rightarrow> (rtx \<Rightarrow> int option) \<Rightarrow> reg_class \<Rightarrow> rtx \<Rightarrow> reg_class" where
  "microblaze_secondary_reload_class env have_renumber subreg_offset c x =
    (let regno = reload_regno env have_renumber subreg_offset x
     in if MD_REG_P regno then (if c = GR_REGS then NO_REGS else GR_REGS)
        else if c = ST_REGS then (if GP_REG_P regno then NO_REGS else GR_REGS)
        else if ST_REG_P regno then (if c = GR_REGS then NO_REGS else GR_REGS)
        else NO_REGS)"

section \<open>Costs, properties\<close>

text \<open>The cost of a shift by a constant never falls as the amount grows, on any
  processor version and with any combination of barrel shifter, multiplier and size
  optimisation; and a shift by a register never costs less than a shift by a constant below
  the word size.\<close>

theorem shift_costs_monotone:
  assumes "0 \<le> m" "m \<le> n" "n < 32"
  shows "snd (microblaze_rtx_costs env (Binary ASHIFT SImode x (ConstInt m)) ASHIFT t)
      \<le> snd (microblaze_rtx_costs env (Binary ASHIFT SImode x (ConstInt n)) ASHIFT t)
    \<and> snd (microblaze_rtx_costs env (Binary ASHIFT SImode x (ConstInt n)) ASHIFT t)
      \<le> snd (microblaze_rtx_costs env (Binary ASHIFT SImode x (Reg SImode r)) ASHIFT t)"
  using assms by (auto simp: microblaze_rtx_costs_def shift_costs_def COSTS_N_INSNS_def Let_def)

lemma shift_costs_monotone_witness:
  "snd (microblaze_rtx_costs default_env (Binary ASHIFT SImode (Reg SImode 5) (ConstInt 17)) ASHIFT 0)
   \<le> snd (microblaze_rtx_costs default_env (Binary ASHIFT SImode (Reg SImode 5) (ConstInt 18)) ASHIFT 0)"
  using shift_costs_monotone [of 17 18 default_env "Reg SImode 5" 0] by simp

section \<open>Branches, properties\<close>

text \<open>Whether a branch sequence jumps: a comparison instruction puts 1 or 0 in a register, and
  the jump tests its condition.\<close>

fun compare_set :: "rtx \<Rightarrow> (nat \<times> rtx_code \<times> rtx \<times> rtx) option" where
  "compare_set (SetX d s) =
     (case (REGNO d, cond_part s) of (Some r, Some c) \<Rightarrow> Some (r, c) | _ \<Rightarrow> None)"
| "compare_set _ = None"

fun branch_jumps :: "(rtx_code \<Rightarrow> 32 word \<Rightarrow> 32 word \<Rightarrow> bool) \<Rightarrow> rtx list \<Rightarrow> mstate \<Rightarrow> bool option" where
  "branch_jumps fcmp [] s = Some False"
| "branch_jumps fcmp (i # is) s =
     (case jump_cond i of
        Some (c, a, b, l) \<Rightarrow> compare_val fcmp s c a b
      | None \<Rightarrow>
          (case compare_set i of
             None \<Rightarrow> None
           | Some (r, c, a, b) \<Rightarrow>
               (case compare_val fcmp s c a b of
                  None \<Rightarrow> None
                | Some t \<Rightarrow> branch_jumps fcmp is (s\<lparr>regs := (regs s)(r := of_bool t)\<rparr>))))"

text \<open>C15. A conditional branch is taken exactly when its comparison holds: for word compares,
  and for float compares, where the back end branches on the result of a comparison
  instruction and turns \<open>NE\<close> into a branch on the failure of \<open>EQ\<close> (so that an unordered
  comparison counts as not equal).\<close>

theorem conditional_branch_taken:
  assumes "microblaze_gen_conditional_branch env type cmp0 cmp1 label test_code st = Inr st'"
    and "type = CMP_SI \<and> GET_MODE cmp0 = SImode \<or> type = CMP_SF \<and> GET_MODE cmp0 = SFmode"
    and "rtl_val s cmp0 = Some v" "rtl_val s cmp1 = Some w"
    and "\<And>a b. fcmp NE a b \<longleftrightarrow> \<not> fcmp EQ a b"
  shows "branch_jumps fcmp (drop (length (emitted st)) (emitted st')) s =
    Some (if type = CMP_SF then fcmp test_code v w else cond_holds test_code v w)"
  using assms(2)
proof (elim disjE conjE)
  assume "type = CMP_SI" "GET_MODE cmp0 = SImode"
  then show ?thesis using assms(1,3,4)
    by (auto simp: microblaze_gen_conditional_branch_def emit_branch_def emit_defs compare_val_def Let_def
        split: if_splits)
next
  assume sf: "type = CMP_SF" "GET_MODE cmp0 = SFmode"
  then have hf: "target_hard_float env"
    using assms(1) by (auto simp: microblaze_gen_conditional_branch_def split: if_splits)
  have bool: "of_bool t = (0 :: 32 word) \<longleftrightarrow> \<not> t" for t by simp
  show ?thesis
  proof (cases "test_code = NE")
    case True
    then show ?thesis using sf hf assms(1,3,4,5)
      by (auto simp: microblaze_gen_conditional_branch_def emit_branch_def emit_defs compare_val_def Let_def)
  next
    case False
    then show ?thesis using sf hf assms(1,3,4)
      by (auto simp: microblaze_gen_conditional_branch_def emit_branch_def emit_defs compare_val_def Let_def)
  qed
qed

definition example_emit :: emit_state where
  "example_emit = \<lparr>next_pseudo = 46, emitted = [], live_marks = []\<rparr>"

lemma conditional_branch_taken_witness:
  "\<exists>st'. microblaze_gen_conditional_branch (default_env\<lparr>target_hard_float := True\<rparr>) CMP_SF
      (Reg SFmode 5) (Reg SFmode 6) 7 NE example_emit = Inr st'
    \<and> branch_jumps (\<lambda>c a b. if c = NE then a \<noteq> b else a = b) (emitted st')
        \<lparr>regs = (\<lambda>r. of_nat r), mem = (\<lambda>_. 0), got_base = 0\<rparr> = Some True"
proof -
  let ?env = "default_env\<lparr>target_hard_float := True\<rparr>"
  have "\<exists>st'. microblaze_gen_conditional_branch ?env CMP_SF (Reg SFmode 5) (Reg SFmode 6) 7 NE example_emit = Inr st'"
    by (simp add: microblaze_gen_conditional_branch_def gen_reg_rtx_def Let_def)
  then obtain st' where b:
    "microblaze_gen_conditional_branch ?env CMP_SF (Reg SFmode 5) (Reg SFmode 6) 7 NE example_emit = Inr st'"
    by blast
  show ?thesis
    using conditional_branch_taken [OF b, of "\<lparr>regs = (\<lambda>r. of_nat r), mem = (\<lambda>_. 0), got_base = 0\<rparr>" 5 6
        "\<lambda>c a b. if c = NE then a \<noteq> b else a = b"] b
    by (simp add: example_emit_def)
qed

text \<open>C16. A shift that \<open>microblaze_expand_shift\<close> completes itself is a shift by zero, and the
  code it emits leaves the operand's value in the destination.\<close>

theorem expand_shift_value:
  assumes "wf_rtx op2" "microblaze_expand_shift env (Reg m0 r0) (Reg m1 r1) op2 st = Some (True, st')"
  shows "op2 = ConstInt 0 \<and> (\<exists>s'. rtl_run (drop (length (emitted st)) (emitted st')) s = Some s'
    \<and> regs s' r0 = regs s r1 \<and> mem s' = mem s)"
  using assms
  by (cases op2) (auto simp: microblaze_expand_shift_def emit_defs unary_codes_def binary_codes_def
      reg_or_subreg_def split: if_splits)

lemma expand_shift_value_witness:
  "\<exists>s'. rtl_run [SetX (Reg SImode 5) (Reg SImode 6)]
      \<lparr>regs = (\<lambda>r. of_nat r), mem = (\<lambda>_. 0), got_base = 0\<rparr> = Some s' \<and> regs s' 5 = 6"
  using expand_shift_value [of "ConstInt 0" default_env SImode 5 SImode 6 example_emit
      "example_emit\<lparr>emitted := [SetX (Reg SImode 5) (Reg SImode 6)]\<rparr>"
      "\<lparr>regs = (\<lambda>r. of_nat r), mem = (\<lambda>_. 0), got_base = 0\<rparr>"]
  by (simp add: microblaze_expand_shift_def reg_or_subreg_def emit_defs example_emit_def default_env_def)

section \<open>Secondary reloads, properties\<close>

lemma unsigned_below: "- 100 \<le> v \<Longrightarrow> v < 0 \<Longrightarrow> 100 < to_unsigned v"
proof -
  assume v: "- 100 \<le> v" "v < 0"
  have "to_unsigned v = to_unsigned (v + 2 ^ 32)" by (simp add: to_unsigned_def)
  also have "\<dots> = v + 2 ^ 32" using v by (intro to_unsigned_small) auto
  finally show ?thesis using v by simp
qed

text \<open>A general register is always a sufficient intermediate: when a copy between a hard
  register and a class needs a secondary register, that register is a general one, the copy
  between the hard register and the general registers needs none, and neither does the copy
  between any general register and the class.\<close>

theorem secondary_reload_one_step:
  assumes "r < FIRST_PSEUDO_REGISTER" "g < 32"
  shows "microblaze_secondary_reload_class env b off c (Reg SImode r) \<in> {NO_REGS, GR_REGS}
    \<and> microblaze_secondary_reload_class env b off GR_REGS (Reg SImode r) = NO_REGS
    \<and> microblaze_secondary_reload_class env b off c (Reg SImode g) = NO_REGS"
proof -
  have g: "GP_REG_P (int g)" "\<not> MD_REG_P (int g)" "\<not> ST_REG_P (int g)"
    using assms(2) unsigned_below [of "int g - 32"] unsigned_below [of "int g - 35"]
    by (auto simp: GP_REG_P_def MD_REG_P_def ST_REG_P_def to_unsigned_small)
  show ?thesis
    using assms g by (simp add: microblaze_secondary_reload_class_def reload_regno_def Let_def)
qed

lemma secondary_reload_one_step_witness:
  "microblaze_secondary_reload_class default_env True (\<lambda>_. None) MD_REGS (Reg SImode 35) \<in> {NO_REGS, GR_REGS}"
  using secondary_reload_one_step [of 35 3 default_env True "\<lambda>_. None" MD_REGS] by simp

end
