(* ===== verification/BlockMove.thy ===== *)
theory BlockMove
  imports Explow Costs
begin

text \<open>
  Block moves: \<open>microblaze_expand_block_move\<close>, \<open>microblaze_block_move_straight\<close> and
  \<open>microblaze_block_move_loop\<close> of \<open>gcc/config/microblaze/microblaze.c\<close>, with the
  \<open>move_by_pieces\<close> of \<open>gcc/expr.c\<close> they end with, and what the code they emit does to
  memory.
\<close>

section \<open>Memory references\<close>

text \<open>A \<open>BLKmode\<close> reference by its address and its known alignment in bits.
  \<open>adjust_address\<close> adds to the address with \<open>plus_constant\<close>; the sums it is used on here are
  legitimate addresses, which \<open>memory_address\<close> leaves as they are.\<close>

record mem_ref =
  mr_addr :: rtx
  mr_align :: nat

definition adjust_address :: "mem_ref \<Rightarrow> machine_mode \<Rightarrow> int \<Rightarrow> rtx" where
  "adjust_address r mode offset = Mem mode (plus_constant (mr_addr r) offset)"

definition adjust_block :: "mem_ref \<Rightarrow> int \<Rightarrow> mem_ref" where
  "adjust_block r offset =
    \<lparr>mr_addr = plus_constant (mr_addr r) offset,
     mr_align = (if offset \<noteq> 0 then min (mr_align r) (nat (offset AND - offset) * BITS_PER_UNIT)
                 else mr_align r)\<rparr>"

record block_state = emit_state +
  next_label :: nat

definition gen_label_rtx :: "block_state \<Rightarrow> nat \<times> block_state" where
  "gen_label_rtx st = (next_label st, st\<lparr>next_label := Suc (next_label st)\<rparr>)"

definition copy_addr_to_reg :: "rtx \<Rightarrow> block_state \<Rightarrow> rtx \<times> block_state" where
  "copy_addr_to_reg x st =
     (case gen_reg_rtx Pmode st of (temp, st) \<Rightarrow> (temp, emit_move_insn temp x st))"

section \<open>Moving by pieces\<close>

text \<open>The alignment used, in bits: with \<open>STRICT_ALIGNMENT\<close>, the word's when the operands
  have it and otherwise theirs, at least a byte's.\<close>

definition pieces_align :: "nat \<Rightarrow> nat" where
  "pieces_align align = (if align \<ge> 32 then 32 else max align 8)"

text \<open>The modes of the \<open>while (max_size > 1)\<close> loops: the widest integer mode narrower than
  \<open>max_size\<close>, which starts at \<open>MOVE_MAX_PIECES + 1\<close>.\<close>

definition piece_modes :: "machine_mode list" where "piece_modes = [SImode, HImode, QImode]"

definition count_pieces :: "nat \<Rightarrow> machine_mode \<Rightarrow> nat \<times> nat \<Rightarrow> nat \<times> nat" where
  "count_pieces align mode acc =
    (case acc of (n, l) \<Rightarrow>
       if align \<ge> GET_MODE_SIZE mode * 8 then (n + l div GET_MODE_SIZE mode, l mod GET_MODE_SIZE mode)
       else (n, l))"

definition move_by_pieces_ninsns :: "nat \<Rightarrow> nat \<Rightarrow> nat" where
  "move_by_pieces_ninsns l align = fst (fold (count_pieces (pieces_align align)) piece_modes (0, l))"

text \<open>\<open>move_by_pieces_1\<close>: as many moves of one mode as fit. The counters are \<open>data.offset\<close>
  and \<open>data.len\<close>.\<close>

function move_by_pieces_1 ::
  "machine_mode \<Rightarrow> mem_ref \<Rightarrow> mem_ref \<Rightarrow> nat \<Rightarrow> nat \<Rightarrow> block_state \<Rightarrow> nat \<times> nat \<times> block_state" where
  "move_by_pieces_1 mode dest src offset len st =
    (if len \<ge> GET_MODE_SIZE mode \<and> GET_MODE_SIZE mode > 0 then
       move_by_pieces_1 mode dest src (offset + GET_MODE_SIZE mode) (len - GET_MODE_SIZE mode)
         (emit_insn (SetX (adjust_address dest mode (int offset)) (adjust_address src mode (int offset))) st)
     else (offset, len, st))"
  by pat_completeness auto
termination
  by (relation "measure (\<lambda>(mode, dest, src, offset, len, st). len)") auto

declare move_by_pieces_1.simps [simp del]

definition copy_constant_address :: "mem_ref \<Rightarrow> block_state \<Rightarrow> block_state" where
  "copy_constant_address r st = (if CONSTANT_P (mr_addr r) then snd (copy_addr_to_reg (mr_addr r) st) else st)"

definition move_piece_mode ::
  "nat \<Rightarrow> mem_ref \<Rightarrow> mem_ref \<Rightarrow> machine_mode \<Rightarrow> nat \<times> nat \<times> block_state \<Rightarrow> nat \<times> nat \<times> block_state" where
  "move_piece_mode align dest src mode acc =
    (case acc of (offset, len, st) \<Rightarrow>
       if align \<ge> GET_MODE_SIZE mode * 8 then move_by_pieces_1 mode dest src offset len st
       else (offset, len, st))"

text \<open>\<open>move_by_pieces\<close> for addresses without automatic increments, a destination, and
  \<open>endp = 0\<close>, the way the target calls it; the alignment argument gives way to the operands'.
  \<open>None\<close> is the final assertion that nothing is left.\<close>

definition move_by_pieces :: "mem_ref \<Rightarrow> mem_ref \<Rightarrow> nat \<Rightarrow> block_state \<Rightarrow> block_state option" where
  "move_by_pieces dest src len st =
    (let align = min (mr_align dest) (mr_align src);
         st = (if move_by_pieces_ninsns len align > 2
               then copy_constant_address dest (copy_constant_address src st) else st);
         (offset, left, st) = fold (move_piece_mode (pieces_align align) dest src) piece_modes (0, len, st)
     in if left = 0 then Some st else None)"

section \<open>Block moves\<close>

definition MAX_MOVE_REGS :: int where "MAX_MOVE_REGS = 8"
definition MAX_MOVE_BYTES :: int where "MAX_MOVE_BYTES = MAX_MOVE_REGS * int UNITS_PER_WORD"

text \<open>The two loops over word-sized chunks; both return the offset they stop at.\<close>

function load_chunks :: "mem_ref \<Rightarrow> int \<Rightarrow> int \<Rightarrow> block_state \<Rightarrow> rtx list \<times> int \<times> block_state" where
  "load_chunks src len offset st =
    (if offset + 4 \<le> len then
       (case gen_reg_rtx SImode st of
          (reg, st) \<Rightarrow>
            (case load_chunks src len (offset + 4)
                    (emit_move_insn reg (adjust_address src SImode offset) st) of
               (rs, offset, st) \<Rightarrow> (reg # rs, offset, st)))
     else ([], offset, st))"
  by pat_completeness auto
termination
  by (relation "measure (\<lambda>(src, len, offset, st). nat (len - offset))") auto

function store_chunks :: "mem_ref \<Rightarrow> int \<Rightarrow> int \<Rightarrow> rtx list \<Rightarrow> block_state \<Rightarrow> int \<times> block_state" where
  "store_chunks dest len offset rs st =
    (if offset + 4 \<le> len then
       store_chunks dest len (offset + 4) (tl rs)
         (emit_move_insn (adjust_address dest SImode offset) (hd rs) st)
     else (offset, st))"
  by pat_completeness auto
termination
  by (relation "measure (\<lambda>(dest, len, offset, rs, st). nat (len - offset))") auto

declare load_chunks.simps [simp del] store_chunks.simps [simp del]

definition microblaze_block_move_straight ::
  "mem_ref \<Rightarrow> mem_ref \<Rightarrow> int \<Rightarrow> block_state \<Rightarrow> block_state option" where
  "microblaze_block_move_straight dest src len st =
    (case load_chunks src len 0 st of
       (rs, _, st) \<Rightarrow>
         (case store_chunks dest len 0 rs st of
            (offset, st) \<Rightarrow>
              if offset < len then
                move_by_pieces (adjust_block dest offset) (adjust_block src offset) (nat (len - offset)) st
              else Some st))"

definition microblaze_adjust_block_mem ::
  "mem_ref \<Rightarrow> int \<Rightarrow> block_state \<Rightarrow> rtx \<times> mem_ref \<times> block_state" where
  "microblaze_adjust_block_mem m len st =
    (case copy_addr_to_reg (mr_addr m) st of
       (loop_reg, st) \<Rightarrow>
         (loop_reg, \<lparr>mr_addr = loop_reg, mr_align = min (mr_align m) (nat (len * int BITS_PER_UNIT))\<rparr>, st))"

definition expand_simple_plus :: "rtx \<Rightarrow> int \<Rightarrow> block_state \<Rightarrow> rtx \<times> block_state" where
  "expand_simple_plus x c st =
    (case gen_reg_rtx Pmode st of (target, st) \<Rightarrow> (target, emit_insn (SetX target (Plus x (ConstInt c))) st))"

definition microblaze_block_move_loop ::
  "cc_env \<Rightarrow> mem_ref \<Rightarrow> mem_ref \<Rightarrow> int \<Rightarrow> block_state \<Rightarrow> block_state option" where
  "microblaze_block_move_loop env dest src len0 st =
    (let leftover = len0 mod MAX_MOVE_BYTES;
         len = len0 - leftover;
         (src_reg, src, st) = microblaze_adjust_block_mem src MAX_MOVE_BYTES st;
         (dest_reg, dest, st) = microblaze_adjust_block_mem dest MAX_MOVE_BYTES st;
         (final_src, st) = expand_simple_plus src_reg len st;
         (label, st) = gen_label_rtx st;
         st = emit_insn (CodeLabel label) st
     in case microblaze_block_move_straight dest src MAX_MOVE_BYTES st of
          None \<Rightarrow> None
        | Some st \<Rightarrow>
            let st = emit_move_insn src_reg (plus_constant src_reg MAX_MOVE_BYTES) st;
                st = emit_move_insn dest_reg (plus_constant dest_reg MAX_MOVE_BYTES) st
            in case microblaze_gen_conditional_branch env CMP_SI src_reg final_src label NE st of
                 Inl e \<Rightarrow> None
               | Inr st \<Rightarrow>
                   if leftover \<noteq> 0 then microblaze_block_move_straight dest src leftover st else Some st)"

definition microblaze_expand_block_move ::
  "cc_env \<Rightarrow> mem_ref \<Rightarrow> mem_ref \<Rightarrow> rtx \<Rightarrow> rtx \<Rightarrow> block_state \<Rightarrow> (bool \<times> block_state) option" where
  "microblaze_expand_block_move env dest src len align_rtx st =
    (case len of
       ConstInt bytes \<Rightarrow>
         if INTVAL align_rtx < int UNITS_PER_WORD then
           (if bytes \<le> MAX_MOVE_BYTES
            then map_option (Pair True) (move_by_pieces dest src (nat bytes) st)
            else Some (False, st))
         else if bytes \<le> 2 * MAX_MOVE_BYTES then
           map_option (Pair True) (microblaze_block_move_straight dest src bytes st)
         else if optimize env \<noteq> 0 then
           map_option (Pair True) (microblaze_block_move_loop env dest src bytes st)
         else Some (False, st)
     | _ \<Rightarrow> Some (False, st))"

end
