(* ===== verification/BlockCopy.thy ===== *)
theory BlockCopy
  imports BlockMove
begin

text \<open>
  What block-move code does: it copies exactly the bytes asked for. The specification is
  \<open>copyto\<close>, one update of a range of memory; the straight-line sequences are run with
  \<open>rtl_run\<close>, the loop with the step relation.
\<close>

section \<open>Copies of memory ranges\<close>

definition copyto :: "memory \<Rightarrow> 32 word \<Rightarrow> 32 word \<Rightarrow> nat \<Rightarrow> memory \<Rightarrow> memory" where
  "copyto m0 a b n m = (\<lambda>p. if unat (p - b) < n then m0 (a + (p - b)) else m p)"

definition disjoint_blocks :: "32 word \<Rightarrow> 32 word \<Rightarrow> nat \<Rightarrow> bool" where
  "disjoint_blocks a b n \<longleftrightarrow> (\<forall>i < n. \<forall>j < n. a + of_nat i \<noteq> b + of_nat j)"

lemma copyto_0 [simp]: "copyto m0 a b 0 m = m"
  by (simp add: copyto_def)

lemma unat_minus_of_nat:
  assumes "k < 2 ^ 32"
  shows "unat (d - of_nat k :: 32 word) = (if k \<le> unat d then unat d - k else unat d + 2 ^ 32 - k)"
proof -
  have "unat (of_nat k :: 32 word) = k" using assms by (simp add: unat_of_nat)
  then show ?thesis by (simp add: unat_sub_if')
qed

lemma copyto_append:
  assumes "k + j \<le> 2 ^ 32" "0 < j"
  shows "copyto m0 (a + of_nat k) (b + of_nat k) j (copyto m0 a b k m) = copyto m0 a b (k + j) m"
proof (rule ext)
  fix p
  have k: "k < 2 ^ 32" using assms by simp
  have d: "p - (b + of_nat k) = (p - b) - of_nat k" by simp
  note u = unat_minus_of_nat [OF k, of "p - b"]
  have lt: "unat (p - b) < 2 ^ 32" using unsigned_less [of "p - b"] by simp
  show "copyto m0 (a + of_nat k) (b + of_nat k) j (copyto m0 a b k m) p = copyto m0 a b (k + j) m p"
    unfolding copyto_def d u using assms k lt by (auto split: if_splits)
qed

lemma small_offsets:
  fixes p b :: "32 word"
  shows "unat (p - b) < 1 \<longleftrightarrow> p = b"
    and "unat (p - b) < 2 \<longleftrightarrow> p = b \<or> p = b + 1"
    and "unat (p - b) < 4 \<longleftrightarrow> p = b \<or> p = b + 1 \<or> p = b + 2 \<or> p = b + 3"
proof -
  have e: "unat (p - b) = n \<longleftrightarrow> p = b + of_nat n" if "n < 2 ^ 32" for n
  proof
    assume "unat (p - b) = n"
    then have "of_nat (unat (p - b)) = (of_nat n :: 32 word)" by (rule arg_cong)
    then have "p - b = of_nat n" by simp
    then show "p = b + of_nat n" by (simp add: algebra_simps)
  next
    assume "p = b + of_nat n"
    then show "unat (p - b) = n" using that by (simp add: unat_of_nat)
  qed
  have "unat (p - b) < 1 \<longleftrightarrow> unat (p - b) = 0" "unat (p - b) < 2 \<longleftrightarrow> unat (p - b) = 0 \<or> unat (p - b) = 1"
    "unat (p - b) < 4 \<longleftrightarrow> unat (p - b) = 0 \<or> unat (p - b) = 1 \<or> unat (p - b) = 2 \<or> unat (p - b) = 3"
    by linarith+
  then show "unat (p - b) < 1 \<longleftrightarrow> p = b" "unat (p - b) < 2 \<longleftrightarrow> p = b \<or> p = b + 1"
    "unat (p - b) < 4 \<longleftrightarrow> p = b \<or> p = b + 1 \<or> p = b + 2 \<or> p = b + 3"
    using e [of 0] e [of 1] e [of 2] e [of 3] by simp_all
qed

lemma byte_of_load32:
  "byte_of 0 (load32 m a) = m a" "byte_of 1 (load32 m a) = m (a + 1)"
  "byte_of 2 (load32 m a) = m (a + 2)" "byte_of 3 (load32 m a) = m (a + 3)"
proof -
  show "byte_of 0 (load32 m a) = m a"
    by (rule bit_word_eqI) (auto simp: byte_of_def load32_def bit_simps dest: bit_imp_le_length)
  show "byte_of 1 (load32 m a) = m (a + 1)"
    by (rule bit_word_eqI) (auto simp: byte_of_def load32_def bit_simps dest: bit_imp_le_length)
  show "byte_of 2 (load32 m a) = m (a + 2)"
    by (rule bit_word_eqI) (auto simp: byte_of_def load32_def bit_simps dest: bit_imp_le_length)
  show "byte_of 3 (load32 m a) = m (a + 3)"
    by (rule bit_word_eqI) (auto simp: byte_of_def load32_def bit_simps dest: bit_imp_le_length)
qed

lemma byte_of_load16:
  "byte_of 2 (push_bit 8 (ucast (x :: 8 word)) OR ucast (y :: 8 word)) = x"
  "byte_of 3 (push_bit 8 (ucast (x :: 8 word)) OR ucast (y :: 8 word)) = y"
  "byte_of 3 (ucast x) = x"
proof -
  show "byte_of 2 (push_bit 8 (ucast x) OR ucast y) = x"
    by (rule bit_word_eqI) (auto simp: byte_of_def bit_simps dest: bit_imp_le_length)
  show "byte_of 3 (push_bit 8 (ucast x) OR ucast y) = y"
    by (rule bit_word_eqI) (auto simp: byte_of_def bit_simps dest: bit_imp_le_length)
  show "byte_of 3 (ucast x) = x"
    by (rule bit_word_eqI) (auto simp: byte_of_def bit_simps dest: bit_imp_le_length)
qed

lemma store_copy:
  assumes "mode \<in> set piece_modes"
  shows "store_mode mode m b (load_mode mode m0 a) = copyto m0 a b (GET_MODE_SIZE mode) m"
proof -
  from assms consider "mode = SImode" | "mode = HImode" | "mode = QImode" by (auto simp: piece_modes_def)
  then show ?thesis
  proof cases
    case 1
    then show ?thesis
      by (auto simp: fun_eq_iff copyto_def small_offsets store32_def byte_of_load32 byte_of_load32(2) [simplified])
  next
    case 2
    then show ?thesis
      by (auto simp: fun_eq_iff copyto_def small_offsets store_mode_def load_mode_def byte_of_load16)
  next
    case 3
    then show ?thesis
      by (auto simp: fun_eq_iff copyto_def small_offsets(1) [simplified] store_mode_def load_mode_def byte_of_load16)
  qed
qed

lemma load_mode_cong:
  assumes "mode \<in> set piece_modes" "\<And>i. i < GET_MODE_SIZE mode \<Longrightarrow> m (a + of_nat i) = m' (a + of_nat i)"
  shows "load_mode mode m a = load_mode mode m' a"
  using assms(1) assms(2) [of 0] assms(2) [of 1] assms(2) [of 2] assms(2) [of 3]
  by (auto simp: piece_modes_def load_mode_def load32_def)

lemma copyto_source:
  assumes "disjoint_blocks a b n" "k \<le> n" "i < n"
  shows "copyto m0 a b k m (a + of_nat i) = m (a + of_nat i)"
proof -
  have "\<not> unat (a + of_nat i - b) < k"
  proof
    assume lt: "unat (a + of_nat i - b) < k"
    let ?j = "unat (a + of_nat i - b)"
    have "b + of_nat ?j = a + of_nat i" by simp
    moreover have "?j < n" using lt assms(2) by simp
    ultimately show False using assms(1,3) unfolding disjoint_blocks_def by metis
  qed
  then show ?thesis by (simp add: copyto_def)
qed

text \<open>One more piece of a copy in progress: the source is still as it was.\<close>

lemma copy_piece:
  fixes m0 :: memory
  assumes "mode \<in> set piece_modes" "disjoint_blocks a b n" "k + GET_MODE_SIZE mode \<le> n" "n \<le> 2 ^ 32"
  defines "m \<equiv> copyto m0 a b k m0"
  shows "store_mode mode m (b + of_nat k) (load_mode mode m (a + of_nat k)) =
    copyto m0 a b (k + GET_MODE_SIZE mode) m0"
proof -
  have pos: "0 < GET_MODE_SIZE mode" using assms(1) by (auto simp: piece_modes_def)
  have "load_mode mode m (a + of_nat k) = load_mode mode m0 (a + of_nat k)"
  proof (rule load_mode_cong [OF assms(1)])
    fix i assume i: "i < GET_MODE_SIZE mode"
    have "m (a + of_nat (k + i)) = m0 (a + of_nat (k + i))"
      unfolding m_def using assms i by (intro copyto_source [of a b n]) auto
    then show "m (a + of_nat k + of_nat i) = m0 (a + of_nat k + of_nat i)" by (simp add: add.assoc)
  qed
  then show ?thesis
    using copyto_append [of k "GET_MODE_SIZE mode" m0 a b m0] assms(3,4) pos
    by (simp add: store_copy [OF assms(1)] m_def)
qed

section \<open>Addresses\<close>

text \<open>Addresses made of registers below \<open>n\<close> and constants: their value does not change when
  memory or a newer register does.\<close>

fun reg_sum :: "nat \<Rightarrow> rtx \<Rightarrow> bool" where
  "reg_sum n (Reg m r) = (m = SImode \<and> r < n)"
| "reg_sum n (ConstInt i) = True"
| "reg_sum n (Binary c m a b) = (c = PLUS \<and> m = SImode \<and> reg_sum n a \<and> reg_sum n b)"
| "reg_sum n _ = False"

lemma reg_sum_si: "reg_sum n x \<Longrightarrow> si_sum x"
  by (induction x) auto

lemma reg_sum_val:
  "reg_sum n x \<Longrightarrow> (\<And>r. r < n \<Longrightarrow> regs s r = regs s' r) \<Longrightarrow> rtl_val s x = rtl_val s' x"
  by (induction x) auto

lemma reg_sum_mono: "reg_sum n x \<Longrightarrow> n \<le> n' \<Longrightarrow> reg_sum n' x"
  by (induction x) auto

text \<open>A memory reference whose address is such a sum, with its value in a state.\<close>

definition points :: "nat \<Rightarrow> mstate \<Rightarrow> mem_ref \<Rightarrow> 32 word \<Rightarrow> bool" where
  "points n s r a \<longleftrightarrow> reg_sum n (mr_addr r) \<and> rtl_val s (mr_addr r) = Some a"

lemma points_address:
  assumes "points n s r a"
  shows "rtl_val s (plus_constant (mr_addr r) c) = Some (a + word_of_int c)"
  using assms plus_constant_rtl [OF reg_sum_si] by (auto simp: points_def)

lemma points_mem [simp]: "points n (s\<lparr>mem := m\<rparr>) r a = points n s r a"
  using reg_sum_val [of n "mr_addr r" s "s\<lparr>mem := m\<rparr>"] by (auto simp: points_def)

lemma points_regs:
  "points n s r a \<Longrightarrow> (\<And>x. x < n \<Longrightarrow> regs s' x = regs s x) \<Longrightarrow> points n s' r a"
  using reg_sum_val [of n "mr_addr r" s s'] by (auto simp: points_def)

lemma points_mono: "points n s r a \<Longrightarrow> n \<le> n' \<Longrightarrow> points n' s r a"
  using reg_sum_mono by (auto simp: points_def)

lemma finish_sum_reg_sum:
  "reg_sum n x \<Longrightarrow> reg_sum n (finish_sum False SImode x c)"
  by (cases x) (auto simp: finish_sum_def Let_def)

lemma plus_loop_reg_sum:
  "reg_sum n x \<Longrightarrow> reg_sum n (plus_loop False x c) \<and> (\<forall>y. add_to_term x c = Some y \<longrightarrow> reg_sum n y)"
proof (induction n x arbitrary: c rule: reg_sum.induct)
  case (3 n op m a b)
  from "3.prems" have ab: "reg_sum n a" "reg_sum n b" "op = PLUS" "m = SImode" by simp_all
  note si = reg_sum_si [OF ab(1)] reg_sum_si [OF ab(2)]
  have IHa: "reg_sum n (plus_loop False a c')" "add_to_term a c' = Some y \<Longrightarrow> reg_sum n y" for c' y
    using "3.IH"(1) [OF ab(1)] by blast+
  have IHb: "add_to_term b c' = Some y \<Longrightarrow> reg_sum n y" for c' y
    using "3.IH"(2) [OF ab(2)] by blast
  have loop: "reg_sum n (plus_loop False (Binary PLUS SImode a b) c)"
  proof (cases "\<exists>i. b = ConstInt i")
    case True
    then show ?thesis using IHa(1) by (auto simp: plus_loop_sum_const)
  next
    case False
    then have "\<not> CONSTANT_P b" using ab(2) by (cases b) (auto simp: CONSTANT_P_def)
    then show ?thesis using ab si
      by (auto simp: plus_loop_sum intro!: finish_sum_reg_sum split: option.split dest: IHa(2) IHb)
  qed
  have "reg_sum n y" if "add_to_term (Binary PLUS SImode a b) c = Some y" for y
    using add_to_term_cases [OF _ that] ab si loop
    by (auto simp: plus_constant_def split: if_splits dest: IHa(2) IHb)
  with loop ab show ?case by blast
next
  case (1 n m r)
  then show ?case using finish_sum_reg_sum [of n "Reg SImode r" c] by (simp add: sum_leaf_eqs)
qed (simp_all add: sum_leaf_eqs)

lemma points_adjust_block: "points n s r a \<Longrightarrow> points n s (adjust_block r c) (a + word_of_int c)"
  using points_address [of n s r a c] plus_loop_reg_sum [of n "mr_addr r" c]
  by (auto simp: points_def adjust_block_def plus_constant_def)

section \<open>Moving by pieces\<close>

definition piece_code :: "nat \<Rightarrow> mem_ref \<Rightarrow> mem_ref \<Rightarrow> nat \<Rightarrow> nat \<Rightarrow> rtx list \<Rightarrow> bool" where
  "piece_code N dest src k k' code \<longleftrightarrow> straight code \<and>
    (\<forall>s m0 a b n. points N s src a \<and> points N s dest b \<and> disjoint_blocks a b n \<and> k' \<le> n \<and> n \<le> 2 ^ 32
        \<and> mem s = copyto m0 a b k m0
      \<longrightarrow> rtl_run code s = Some (s\<lparr>mem := copyto m0 a b k' m0\<rparr>))"

lemma straight_simps [simp]: "straight []" "straight (xs @ ys) \<longleftrightarrow> straight xs \<and> straight ys"
  by (auto simp: straight_def)

lemma piece_code_Nil: "piece_code N dest src k k []"
  by (simp add: piece_code_def)

lemma piece_codeD:
  "piece_code N dest src k k' code \<Longrightarrow> points N s src a \<Longrightarrow> points N s dest b \<Longrightarrow> disjoint_blocks a b n
   \<Longrightarrow> k' \<le> n \<Longrightarrow> n \<le> 2 ^ 32 \<Longrightarrow> mem s = copyto m0 a b k m0
   \<Longrightarrow> rtl_run code s = Some (s\<lparr>mem := copyto m0 a b k' m0\<rparr>)"
  unfolding piece_code_def by blast

lemma piece_code_append:
  assumes c: "piece_code N dest src k k1 c1" "piece_code N dest src k1 k2 c2" and le: "k1 \<le> k2"
  shows "piece_code N dest src k k2 (c1 @ c2)"
proof -
  have "rtl_run (c1 @ c2) s = Some (s\<lparr>mem := copyto m0 a b k2 m0\<rparr>)"
    if h: "points N s src a" "points N s dest b" "disjoint_blocks a b n" "k2 \<le> n" "n \<le> 2 ^ 32"
      "mem s = copyto m0 a b k m0" for s m0 a b n
  proof -
    let ?s1 = "s\<lparr>mem := copyto m0 a b k1 m0\<rparr>"
    have "rtl_run c1 s = Some ?s1"
      using le h(4) by (intro piece_codeD [OF c(1) h(1,2,3) _ h(5,6)]) simp
    moreover have "rtl_run c2 ?s1 = Some (?s1\<lparr>mem := copyto m0 a b k2 m0\<rparr>)"
      using h(1,2) by (intro piece_codeD [OF c(2) _ _ h(3,4,5)]) simp_all
    ultimately show ?thesis by (simp add: rtl_run_append)
  qed
  moreover have "straight (c1 @ c2)" using c by (simp add: piece_code_def)
  ultimately show ?thesis unfolding piece_code_def by blast
qed

lemma piece_code_single:
  assumes "mode \<in> set piece_modes"
  shows "piece_code N dest src k (k + GET_MODE_SIZE mode)
    [SetX (adjust_address dest mode (int k)) (adjust_address src mode (int k))]"
proof -
  have "rtl_run [SetX (adjust_address dest mode (int k)) (adjust_address src mode (int k))] s =
      Some (s\<lparr>mem := copyto m0 a b (k + GET_MODE_SIZE mode) m0\<rparr>)"
    if h: "points N s src a" "points N s dest b" "disjoint_blocks a b n" "k + GET_MODE_SIZE mode \<le> n"
      "n \<le> 2 ^ 32" "mem s = copyto m0 a b k m0" for s m0 a b n
    using points_address [OF h(1), of "int k"] points_address [OF h(2), of "int k"]
      copy_piece [OF assms h(3,4,5), of m0] h(6)
    by (simp add: adjust_address_def)
  then show ?thesis by (auto simp: piece_code_def straight_def adjust_address_def)
qed

lemma move_by_pieces_1_code:
  "move_by_pieces_1 mode dest src off len st = (off', len', st') \<Longrightarrow> mode \<in> set piece_modes \<Longrightarrow>
     off' + len' = off + len \<and> len' < GET_MODE_SIZE mode \<and> off \<le> off'
     \<and> (\<exists>code. st' = st\<lparr>emitted := emitted st @ code\<rparr> \<and> piece_code N dest src off off' code)"
proof (induction mode dest src off len st rule: move_by_pieces_1.induct)
  case (1 mode dest src offset len st)
  show ?case
  proof (cases "len \<ge> GET_MODE_SIZE mode \<and> GET_MODE_SIZE mode > 0")
    case True
    let ?i = "SetX (adjust_address dest mode (int offset)) (adjust_address src mode (int offset))"
    have rec: "move_by_pieces_1 mode dest src (offset + GET_MODE_SIZE mode) (len - GET_MODE_SIZE mode)
        (emit_insn ?i st) = (off', len', st')"
      using "1.prems"(1) True by (subst (asm) move_by_pieces_1.simps) simp
    obtain code where IH: "off' + len' = offset + len" "len' < GET_MODE_SIZE mode"
      "offset + GET_MODE_SIZE mode \<le> off'"
      "st' = st\<lparr>emitted := (emitted st @ [?i]) @ code\<rparr>"
      "piece_code N dest src (offset + GET_MODE_SIZE mode) off' code"
      using "1.IH" [OF True rec "1.prems"(2)] True by (auto simp: emit_insn_def)
    have "piece_code N dest src offset off' ([?i] @ code)"
      using piece_code_append [OF piece_code_single [OF "1.prems"(2)] IH(5) IH(3)] .
    then show ?thesis using IH by (intro conjI exI [of _ "[?i] @ code"]) auto
  next
    case False
    have "0 < GET_MODE_SIZE mode" using "1.prems"(2) by (auto simp: piece_modes_def)
    then show ?thesis using "1.prems"(1) False
      by (subst (asm) move_by_pieces_1.simps) (auto intro!: exI [of _ "[]"] piece_code_Nil)
  qed
qed

lemma move_piece_mode_code:
  assumes "move_piece_mode align dest src mode (off, len, st) = (off', len', st')" "mode \<in> set piece_modes"
  shows "off' + len' = off + len \<and> off \<le> off' \<and> (GET_MODE_SIZE mode * 8 \<le> align \<longrightarrow> len' < GET_MODE_SIZE mode)
     \<and> (\<exists>code. st' = st\<lparr>emitted := emitted st @ code\<rparr> \<and> piece_code N dest src off off' code)"
proof (cases "GET_MODE_SIZE mode * 8 \<le> align")
  case True
  then have "move_by_pieces_1 mode dest src off len st = (off', len', st')"
    using assms(1) by (simp add: move_piece_mode_def)
  from move_by_pieces_1_code [OF this assms(2)] show ?thesis by blast
next
  case False
  then show ?thesis using assms(1)
    by (auto simp: move_piece_mode_def intro!: exI [of _ "[]"] piece_code_Nil)
qed

text \<open>The three modes one after another leave nothing over.\<close>

lemma all_pieces_code:
  assumes "8 \<le> align" "fold (move_piece_mode align dest src) piece_modes (0, len, st) = (off, left, st')"
  shows "off = len \<and> left = 0 \<and> (\<exists>code. st' = st\<lparr>emitted := emitted st @ code\<rparr> \<and> piece_code N dest src 0 len code)"
proof -
  obtain o1 l1 s1 where 1: "move_piece_mode align dest src SImode (0, len, st) = (o1, l1, s1)" by (metis prod_cases3)
  obtain o2 l2 s2 where 2: "move_piece_mode align dest src HImode (o1, l1, s1) = (o2, l2, s2)" by (metis prod_cases3)
  have 3: "move_piece_mode align dest src QImode (o2, l2, s2) = (off, left, st')"
    using assms(2) 1 2 by (simp add: piece_modes_def)
  obtain c1 where c1: "o1 + l1 = len" "s1 = st\<lparr>emitted := emitted st @ c1\<rparr>" "piece_code N dest src 0 o1 c1"
    using move_piece_mode_code [OF 1, of N] by (auto simp: piece_modes_def)
  obtain c2 where c2: "o2 + l2 = len" "o1 \<le> o2" "s2 = s1\<lparr>emitted := emitted s1 @ c2\<rparr>" "piece_code N dest src o1 o2 c2"
    using move_piece_mode_code [OF 2, of N] c1(1) by (auto simp: piece_modes_def)
  obtain c3 where c3: "off + left = len" "o2 \<le> off" "left < 1" "st' = s2\<lparr>emitted := emitted s2 @ c3\<rparr>"
    "piece_code N dest src o2 off c3"
    using move_piece_mode_code [OF 3, of N] c2(1) assms(1) by (auto simp: piece_modes_def)
  have "piece_code N dest src 0 off ((c1 @ c2) @ c3)"
    by (rule piece_code_append [OF piece_code_append [OF c1(3) c2(4,2)] c3(5,2)])
  then show ?thesis using c1 c2 c3 by (auto intro!: exI [of _ "(c1 @ c2) @ c3"])
qed

section \<open>Code that copies a block\<close>

text \<open>The contract of a copying sequence: run with the two references pointing to disjoint
  blocks, it copies \<open>n\<close> bytes and changes no register that existed before it.\<close>

definition copy_code :: "nat \<Rightarrow> mem_ref \<Rightarrow> mem_ref \<Rightarrow> nat \<Rightarrow> rtx list \<Rightarrow> bool" where
  "copy_code N dest src n code \<longleftrightarrow> straight code \<and>
    (\<forall>s a b. points N s src a \<and> points N s dest b \<and> disjoint_blocks a b n \<and> n \<le> 2 ^ 32 \<longrightarrow>
      (\<exists>s'. rtl_run code s = Some s' \<and> mem s' = copyto (mem s) a b n (mem s) \<and> (\<forall>r < N. regs s' r = regs s r)))"

lemma copy_codeE:
  assumes "copy_code N dest src n code" "points N s src a" "points N s dest b" "disjoint_blocks a b n" "n \<le> 2 ^ 32"
  obtains s' where "rtl_run code s = Some s'" "mem s' = copyto (mem s) a b n (mem s)" "\<And>r. r < N \<Longrightarrow> regs s' r = regs s r"
  using assms unfolding copy_code_def by blast

lemma copy_constant_address_code:
  assumes "reg_sum N (mr_addr r)" "N \<le> next_pseudo st"
  shows "\<exists>code. emitted (copy_constant_address r st) = emitted st @ code \<and> straight code
    \<and> next_pseudo st \<le> next_pseudo (copy_constant_address r st)
    \<and> next_label (copy_constant_address r st) = next_label st
    \<and> (\<forall>s. \<exists>s'. rtl_run code s = Some s' \<and> mem s' = mem s \<and> (\<forall>x < N. regs s' x = regs s x))"
proof (cases "CONSTANT_P (mr_addr r)")
  case True
  obtain i where i: "mr_addr r = ConstInt i"
    using assms(1) True by (cases "mr_addr r") (auto simp: CONSTANT_P_def)
  have "\<exists>s'. rtl_run [SetX (Reg Pmode (next_pseudo st)) (ConstInt i)] s = Some s' \<and> mem s' = mem s
      \<and> (\<forall>x < N. regs s' x = regs s x)" for s
    using assms(2) by auto
  then show ?thesis using True i
    by (intro exI [of _ "[SetX (Reg Pmode (next_pseudo st)) (ConstInt i)]"])
      (auto simp: copy_constant_address_def copy_addr_to_reg_def emit_defs straight_def)
next
  case False
  then show ?thesis by (intro exI [of _ "[]"]) (auto simp: copy_constant_address_def)
qed

lemma move_by_pieces_code:
  assumes "reg_sum N (mr_addr dest)" "reg_sum N (mr_addr src)" "N \<le> next_pseudo st"
  shows "\<exists>st' code. move_by_pieces dest src len st = Some st' \<and> emitted st' = emitted st @ code
    \<and> next_pseudo st \<le> next_pseudo st' \<and> next_label st' = next_label st \<and> copy_code N dest src len code"
proof -
  define st1 where "st1 = (if move_by_pieces_ninsns len (min (mr_align dest) (mr_align src)) > 2
      then copy_constant_address dest (copy_constant_address src st) else st)"
  have "\<exists>c0. emitted st1 = emitted st @ c0 \<and> straight c0 \<and> next_pseudo st \<le> next_pseudo st1
    \<and> next_label st1 = next_label st
    \<and> (\<forall>s. \<exists>s'. rtl_run c0 s = Some s' \<and> mem s' = mem s \<and> (\<forall>x < N. regs s' x = regs s x))"
  proof (cases "move_by_pieces_ninsns len (min (mr_align dest) (mr_align src)) > 2")
    case True
    let ?m = "copy_constant_address src st"
    obtain ca where ca: "emitted ?m = emitted st @ ca" "straight ca" "next_pseudo st \<le> next_pseudo ?m"
      "next_label ?m = next_label st"
      "\<forall>s. \<exists>s'. rtl_run ca s = Some s' \<and> mem s' = mem s \<and> (\<forall>x < N. regs s' x = regs s x)"
      using copy_constant_address_code [OF assms(2,3)] by blast
    have n: "N \<le> next_pseudo ?m" using assms(3) ca(3) by simp
    let ?m2 = "copy_constant_address dest ?m"
    obtain cb where cb: "emitted ?m2 = emitted ?m @ cb" "straight cb"
      "next_pseudo ?m \<le> next_pseudo ?m2" "next_label ?m2 = next_label ?m"
      "\<forall>s. \<exists>s'. rtl_run cb s = Some s' \<and> mem s' = mem s \<and> (\<forall>x < N. regs s' x = regs s x)"
      using copy_constant_address_code [OF assms(1) n] by blast
    have run: "\<exists>s'. rtl_run (ca @ cb) s = Some s' \<and> mem s' = mem s \<and> (\<forall>x < N. regs s' x = regs s x)" for s
    proof -
      obtain s1 where s1: "rtl_run ca s = Some s1" "mem s1 = mem s" "\<forall>x < N. regs s1 x = regs s x"
        using ca(5) by blast
      obtain s2 where "rtl_run cb s1 = Some s2" "mem s2 = mem s1" "\<forall>x < N. regs s2 x = regs s1 x"
        using cb(5) by blast
      with s1 show ?thesis by (simp add: rtl_run_append)
    qed
    show ?thesis using True ca cb run by (intro exI [of _ "ca @ cb"]) (simp add: st1_def)
  next
    case False
    then show ?thesis by (intro exI [of _ "[]"]) (simp add: st1_def)
  qed
  then obtain c0 where c0: "emitted st1 = emitted st @ c0" "straight c0" "next_pseudo st \<le> next_pseudo st1"
    "next_label st1 = next_label st"
    "\<And>s. \<exists>s'. rtl_run c0 s = Some s' \<and> mem s' = mem s \<and> (\<forall>x < N. regs s' x = regs s x)" by blast
  let ?al = "pieces_align (min (mr_align dest) (mr_align src))"
  obtain off left st' where f: "fold (move_piece_mode ?al dest src) piece_modes (0, len, st1) = (off, left, st')"
    by (metis prod_cases3)
  have "8 \<le> ?al" by (simp add: pieces_align_def)
  from all_pieces_code [OF this f, of N] obtain c1 where
    c1: "left = 0" "st' = st1\<lparr>emitted := emitted st1 @ c1\<rparr>" "piece_code N dest src 0 len c1" by blast
  have mv: "move_by_pieces dest src len st = Some st'"
    using f c1(1) by (simp add: move_by_pieces_def st1_def Let_def)
  have "copy_code N dest src len (c0 @ c1)"
    unfolding copy_code_def
  proof (intro conjI allI impI)
    show "straight (c0 @ c1)" using c0(2) c1(3) by (simp add: piece_code_def)
    fix s a b
    assume h: "points N s src a \<and> points N s dest b \<and> disjoint_blocks a b len \<and> len \<le> 2 ^ 32"
    obtain s1 where s1: "rtl_run c0 s = Some s1" "mem s1 = mem s" "\<forall>x < N. regs s1 x = regs s x"
      using c0(5) by blast
    have "points N s1 src a" "points N s1 dest b" using h s1(3) points_regs by blast+
    then have "rtl_run c1 s1 = Some (s1\<lparr>mem := copyto (mem s) a b len (mem s)\<rparr>)"
      using h s1(2) by (intro piece_codeD [OF c1(3)]) auto
    then show "\<exists>s'. rtl_run (c0 @ c1) s = Some s' \<and> mem s' = copyto (mem s) a b len (mem s)
        \<and> (\<forall>r < N. regs s' r = regs s r)"
      using s1 by (simp add: rtl_run_append)
  qed
  then show ?thesis using mv c0 c1(2) by (intro exI [of _ st'] exI [of _ "c0 @ c1"]) simp
qed

section \<open>Word-sized chunks\<close>

lemma load_chunks_eq:
  "load_chunks src len offset st =
    (map (\<lambda>i. Reg SImode (next_pseudo st + i)) [0..<nat ((len - offset) div 4)],
     offset + 4 * int (nat ((len - offset) div 4)),
     st\<lparr>next_pseudo := next_pseudo st + nat ((len - offset) div 4),
        emitted := emitted st @ map (\<lambda>i. SetX (Reg SImode (next_pseudo st + i))
            (adjust_address src SImode (offset + 4 * int i))) [0..<nat ((len - offset) div 4)]\<rparr>)"
proof (induction src len offset st rule: load_chunks.induct)
  case (1 src len offset st)
  show ?case
  proof (cases "offset + 4 \<le> len")
    case True
    define k where "k = nat ((len - (offset + 4)) div 4)"
    have "(len - offset) div 4 = (len - (offset + 4)) div 4 + 1" by simp
    moreover have "0 \<le> (len - (offset + 4)) div 4" using True by simp
    ultimately have k: "nat ((len - offset) div 4) = Suc k" by (simp add: k_def)
    have split: "[0..<Suc k] = 0 # map Suc [0..<k]" by (simp add: map_Suc_upt upt_conv_Cons del: upt_Suc)
    have "load_chunks src len offset st =
        (case load_chunks src len (offset + 4) (emit_move_insn (Reg SImode (next_pseudo st))
            (adjust_address src SImode offset) (st\<lparr>next_pseudo := Suc (next_pseudo st)\<rparr>)) of
           (rs, offset, st') \<Rightarrow> (Reg SImode (next_pseudo st) # rs, offset, st'))"
      using True by (subst load_chunks.simps) (simp add: gen_reg_rtx_def)
    also have "\<dots> = (Reg SImode (next_pseudo st) # map (\<lambda>i. Reg SImode (Suc (next_pseudo st) + i)) [0..<k],
        offset + 4 + 4 * int k,
        st\<lparr>next_pseudo := Suc (next_pseudo st) + k,
           emitted := emitted st @ SetX (Reg SImode (next_pseudo st)) (adjust_address src SImode offset)
             # map (\<lambda>i. SetX (Reg SImode (Suc (next_pseudo st) + i))
                 (adjust_address src SImode (offset + 4 + 4 * int i))) [0..<k]\<rparr>)"
      using "1.IH" [OF True, of "Reg SImode (next_pseudo st)" "st\<lparr>next_pseudo := Suc (next_pseudo st)\<rparr>"]
      by (simp add: gen_reg_rtx_def k_def [symmetric] emit_defs del: upt_Suc)
    finally show ?thesis
      unfolding k split by (simp add: comp_def algebra_simps)
  next
    case False
    then have "nat ((len - offset) div 4) = 0" by simp
    with False show ?thesis by (subst load_chunks.simps) simp
  qed
qed

lemma store_chunks_eq:
  "length rs = nat ((len - offset) div 4) \<Longrightarrow> store_chunks dest len offset rs st =
    (offset + 4 * int (length rs),
     st\<lparr>emitted := emitted st @ map (\<lambda>i. SetX (adjust_address dest SImode (offset + 4 * int i)) (rs ! i))
        [0..<length rs]\<rparr>)"
proof (induction dest len offset rs st rule: store_chunks.induct)
  case (1 dest len offset rs st)
  show ?case
  proof (cases "offset + 4 \<le> len")
    case True
    have "(len - offset) div 4 = (len - (offset + 4)) div 4 + 1" by simp
    moreover have "0 \<le> (len - (offset + 4)) div 4" using True by simp
    ultimately have "length rs = Suc (nat ((len - (offset + 4)) div 4))" using "1.prems" by simp
    then obtain r t where rs: "rs = r # t" and t: "length t = nat ((len - (offset + 4)) div 4)"
      by (auto simp: length_Suc_conv)
    have split: "[0..<Suc (length t)] = 0 # map Suc [0..<length t]"
      by (simp add: map_Suc_upt upt_conv_Cons del: upt_Suc)
    have "store_chunks dest len offset rs st =
        store_chunks dest len (offset + 4) t (emit_move_insn (adjust_address dest SImode offset) r st)"
      using True by (subst store_chunks.simps) (simp add: rs)
    also have "\<dots> = (offset + 4 + 4 * int (length t),
        st\<lparr>emitted := emitted st @ SetX (adjust_address dest SImode offset) r
          # map (\<lambda>i. SetX (adjust_address dest SImode (offset + 4 + 4 * int i)) (t ! i)) [0..<length t]\<rparr>)"
      using "1.IH" [OF True] t by (simp add: rs emit_defs)
    finally show ?thesis unfolding rs length_Cons split by (simp add: comp_def algebra_simps)
  next
    case False
    then have "nat ((len - offset) div 4) = 0" by simp
    with False "1.prems" show ?thesis by (subst store_chunks.simps) simp
  qed
qed

lemma disjoint_shift:
  assumes "disjoint_blocks a b n" "k + j \<le> n"
  shows "disjoint_blocks (a + of_nat k) (b + of_nat k) j"
  unfolding disjoint_blocks_def
proof (intro allI impI)
  fix i i' assume "i < j" "i' < j"
  then have "a + of_nat (k + i) \<noteq> b + of_nat (k + i')"
    using assms unfolding disjoint_blocks_def by simp
  then show "a + of_nat k + of_nat i \<noteq> b + of_nat k + of_nat i'" by (simp add: add.assoc)
qed

lemma copyto_chain:
  fixes m0 :: memory
  assumes "disjoint_blocks a b n" "k + j \<le> n" "n \<le> 2 ^ 32"
  defines "m \<equiv> copyto m0 a b k m0"
  shows "copyto m (a + of_nat k) (b + of_nat k) j m = copyto m0 a b (k + j) m0"
proof (cases "j = 0")
  case False
  have "copyto m (a + of_nat k) (b + of_nat k) j m p = copyto m0 (a + of_nat k) (b + of_nat k) j m p" for p
  proof (cases "unat (p - (b + of_nat k)) < j")
    case True
    let ?d = "unat (p - (b + of_nat k))"
    have "m (a + of_nat (k + ?d)) = m0 (a + of_nat (k + ?d))"
      unfolding m_def using assms(1,2) True by (intro copyto_source [of a b n]) auto
    moreover have "a + of_nat (k + ?d) = a + of_nat k + (p - (b + of_nat k))" by simp
    ultimately show ?thesis by (simp add: copyto_def)
  next
    case False
    then show ?thesis by (simp add: copyto_def)
  qed
  then have "copyto m (a + of_nat k) (b + of_nat k) j m = copyto m0 (a + of_nat k) (b + of_nat k) j m" by blast
  also have "\<dots> = copyto m0 a b (k + j) m0"
    unfolding m_def using assms(2,3) False by (intro copyto_append) auto
  finally show ?thesis .
qed (simp add: m_def)

lemma loads_run:
  assumes "points N s src a" "N \<le> p"
  shows "\<exists>s1. rtl_run (map (\<lambda>i. SetX (Reg SImode (p + i)) (adjust_address src SImode (4 * int i))) [0..<k]) s = Some s1
    \<and> mem s1 = mem s \<and> (\<forall>r < p. regs s1 r = regs s r)
    \<and> (\<forall>i < k. regs s1 (p + i) = load32 (mem s) (a + of_nat (4 * i)))"
proof (induction k)
  case (Suc k)
  then obtain s1 where s1:
    "rtl_run (map (\<lambda>i. SetX (Reg SImode (p + i)) (adjust_address src SImode (4 * int i))) [0..<k]) s = Some s1"
    "mem s1 = mem s" "\<forall>r < p. regs s1 r = regs s r"
    "\<forall>i < k. regs s1 (p + i) = load32 (mem s) (a + of_nat (4 * i))" by blast
  have "points N s1 src a" using assms s1(3) by (intro points_regs [OF assms(1)]) auto
  then have "rtl_val s1 (plus_constant (mr_addr src) (4 * int k)) = Some (a + of_nat (4 * k))"
    using points_address [of N s1 src a "4 * int k"] by simp
  then have "rtl_run [SetX (Reg SImode (p + k)) (adjust_address src SImode (4 * int k))] s1 =
      Some (s1\<lparr>regs := (regs s1)(p + k := load32 (mem s) (a + of_nat (4 * k)))\<rparr>)"
    using s1(2) by (simp add: adjust_address_def)
  with s1 show ?case by (auto simp: rtl_run_append less_Suc_eq)
qed simp

lemma stores_run:
  assumes "points N s dest b" "\<And>i. i < k \<Longrightarrow> regs s (p + i) = load32 (mem s) (a + of_nat (4 * i))"
    and "4 * k \<le> 2 ^ 32"
  shows "rtl_run (map (\<lambda>i. SetX (adjust_address dest SImode (4 * int i)) (Reg SImode (p + i))) [0..<k]) s =
    Some (s\<lparr>mem := copyto (mem s) a b (4 * k) (mem s)\<rparr>)"
  using assms(2,3)
proof (induction k)
  case (Suc k)
  let ?m = "copyto (mem s) a b (4 * k) (mem s)"
  let ?s = "s\<lparr>mem := ?m\<rparr>"
  have IH: "rtl_run (map (\<lambda>i. SetX (adjust_address dest SImode (4 * int i)) (Reg SImode (p + i))) [0..<k]) s = Some ?s"
    using Suc by simp
  have "rtl_val ?s (plus_constant (mr_addr dest) (4 * int k)) = Some (b + of_nat (4 * k))"
    using points_address [of N ?s dest b "4 * int k"] assms(1) by simp
  then have "rtl_run [SetX (adjust_address dest SImode (4 * int k)) (Reg SImode (p + k))] ?s =
      Some (?s\<lparr>mem := store32 ?m (b + of_nat (4 * k)) (load32 (mem s) (a + of_nat (4 * k)))\<rparr>)"
    using Suc.prems(1) [of k] by (simp add: adjust_address_def)
  moreover have "store32 ?m (b + of_nat (4 * k)) (load32 (mem s) (a + of_nat (4 * k))) =
      copyto (mem s) a b (4 * k + 4) (mem s)"
    using store_copy [of SImode ?m "b + of_nat (4 * k)" "mem s" "a + of_nat (4 * k)"]
      copyto_append [of "4 * k" 4 "mem s" a b "mem s"] Suc.prems(2)
    by (simp add: piece_modes_def)
  ultimately show ?case using IH by (simp add: rtl_run_append add.commute)
qed simp

lemma block_move_straight_code:
  assumes reg: "reg_sum N (mr_addr dest)" "reg_sum N (mr_addr src)" "N \<le> next_pseudo st"
  shows "\<exists>st' code. microblaze_block_move_straight dest src (int n) st = Some st' \<and> emitted st' = emitted st @ code
    \<and> next_pseudo st \<le> next_pseudo st' \<and> next_label st' = next_label st \<and> copy_code N dest src n code"
proof -
  define k where "k = n div 4"
  let ?p = "next_pseudo st"
  let ?loads = "map (\<lambda>i. SetX (Reg SImode (?p + i)) (adjust_address src SImode (4 * int i))) [0..<k]"
  let ?stores = "map (\<lambda>i. SetX (adjust_address dest SImode (4 * int i)) (Reg SImode (?p + i))) [0..<k]"
  define st2 where "st2 = st\<lparr>next_pseudo := ?p + k, emitted := (emitted st @ ?loads) @ ?stores\<rparr>"
  have nk: "nat ((int n - 0) div 4) = k" by (simp add: k_def nat_div_distrib)
  have dk: "int n div 4 = int k" by (simp add: k_def)
  have L: "load_chunks src (int n) 0 st = (map (\<lambda>i. Reg SImode (?p + i)) [0..<k], 4 * int k,
      st\<lparr>next_pseudo := ?p + k, emitted := emitted st @ ?loads\<rparr>)"
    using load_chunks_eq [of src "int n" 0 st] unfolding nk by simp
  have S: "store_chunks dest (int n) 0 (map (\<lambda>i. Reg SImode (?p + i)) [0..<k])
      (st\<lparr>next_pseudo := ?p + k, emitted := emitted st @ ?loads\<rparr>) = (4 * int k, st2)"
    using store_chunks_eq [of "map (\<lambda>i. Reg SImode (?p + i)) [0..<k]" "int n" 0 dest
        "st\<lparr>next_pseudo := ?p + k, emitted := emitted st @ ?loads\<rparr>"] nk
    by (simp add: st2_def dk cong: map_cong)
  have n: "4 * k \<le> n" "n - 4 * k < 4" by (simp_all add: k_def)
  have st2: "emitted st2 = emitted st @ ?loads @ ?stores" "next_pseudo st2 = ?p + k" "next_label st2 = next_label st"
    by (simp_all add: st2_def)
  have str: "straight (?loads @ ?stores)" by (auto simp: straight_def adjust_address_def)
  have run: "\<exists>s2. rtl_run (?loads @ ?stores) s = Some s2 \<and> mem s2 = copyto (mem s) a b (4 * k) (mem s)
      \<and> (\<forall>r < N. regs s2 r = regs s r)"
    if pt: "points N s src a" "points N s dest b" and k32: "4 * k \<le> 2 ^ 32" for s a b
  proof -
    obtain s1 where s1: "rtl_run ?loads s = Some s1" "mem s1 = mem s" "\<forall>r < ?p. regs s1 r = regs s r"
      "\<forall>i < k. regs s1 (?p + i) = load32 (mem s) (a + of_nat (4 * i))"
      using loads_run [OF pt(1) reg(3), of k] by blast
    have "points N s1 dest b" using s1(3) reg(3) by (intro points_regs [OF pt(2)]) auto
    then have "rtl_run ?stores s1 = Some (s1\<lparr>mem := copyto (mem s1) a b (4 * k) (mem s1)\<rparr>)"
      using s1 k32 by (intro stores_run) auto
    then show ?thesis using s1 reg(3) by (simp add: rtl_run_append)
  qed
  show ?thesis
  proof (cases "4 * int k < int n")
    case False
    then have "n = 4 * k" using n by linarith
    then have "microblaze_block_move_straight dest src (int n) st = Some st2"
      using L S by (simp add: microblaze_block_move_straight_def)
    moreover have "copy_code N dest src n (?loads @ ?stores)"
      unfolding copy_code_def using str run \<open>n = 4 * k\<close> by blast
    ultimately show ?thesis using st2 by (intro exI [of _ st2] exI [of _ "?loads @ ?stores"]) simp
  next
    case True
    let ?d = "adjust_block dest (4 * int k)" and ?s = "adjust_block src (4 * int k)"
    have rs: "reg_sum N (mr_addr ?d)" "reg_sum N (mr_addr ?s)" "N \<le> next_pseudo st2"
      using plus_loop_reg_sum [OF reg(1)] plus_loop_reg_sum [OF reg(2)] reg st2(2)
      by (auto simp: adjust_block_def plus_constant_def)
    obtain st' code where mv: "move_by_pieces ?d ?s (n - 4 * k) st2 = Some st'" "emitted st' = emitted st2 @ code"
      "next_pseudo st2 \<le> next_pseudo st'" "next_label st' = next_label st2" "copy_code N ?d ?s (n - 4 * k) code"
      using move_by_pieces_code [OF rs] by blast
    have "nat (int n - 4 * int k) = n - 4 * k" by simp
    then have "microblaze_block_move_straight dest src (int n) st = Some st'"
      using L S True mv(1) by (simp add: microblaze_block_move_straight_def)
    moreover have "copy_code N dest src n ((?loads @ ?stores) @ code)"
      unfolding copy_code_def
    proof (intro conjI allI impI)
      show "straight ((?loads @ ?stores) @ code)" using str mv(5) by (simp add: copy_code_def)
      fix s a b
      assume h: "points N s src a \<and> points N s dest b \<and> disjoint_blocks a b n \<and> n \<le> 2 ^ 32"
      then obtain s2 where s2: "rtl_run (?loads @ ?stores) s = Some s2"
        "mem s2 = copyto (mem s) a b (4 * k) (mem s)" "\<forall>r < N. regs s2 r = regs s r"
        using run [of s a b] n(1) by auto
      have "points N s2 src a" "points N s2 dest b" using h s2(3) points_regs by blast+
      then have pt: "points N s2 ?s (a + of_nat (4 * k))" "points N s2 ?d (b + of_nat (4 * k))"
        using points_adjust_block [of N s2 src a "4 * int k"] points_adjust_block [of N s2 dest b "4 * int k"]
        by simp_all
      have dj: "disjoint_blocks (a + of_nat (4 * k)) (b + of_nat (4 * k)) (n - 4 * k)"
        using h n(1) by (intro disjoint_shift [of a b n]) auto
      have le: "n - 4 * k \<le> 2 ^ 32" using h by linarith
      obtain s3 where s3: "rtl_run code s2 = Some s3"
        "mem s3 = copyto (mem s2) (a + of_nat (4 * k)) (b + of_nat (4 * k)) (n - 4 * k) (mem s2)"
        "\<And>r. r < N \<Longrightarrow> regs s3 r = regs s2 r"
        using copy_codeE [OF mv(5) pt dj le] by blast
      have "mem s3 = copyto (mem s) a b n (mem s)"
        unfolding s3(2) s2(2) using copyto_chain [of a b n "4 * k" "n - 4 * k" "mem s"] h n(1) by simp
      then show "\<exists>s'. rtl_run ((?loads @ ?stores) @ code) s = Some s' \<and> mem s' = copyto (mem s) a b n (mem s)
          \<and> (\<forall>r < N. regs s' r = regs s r)"
        using s2(3) s3(1,3)
        by (intro exI [of _ s3]) (simp only: rtl_run_append [of "?loads @ ?stores" code] s2(1) option.case, simp)
    qed
    ultimately show ?thesis using st2 mv by (intro exI [of _ st'] exI [of _ "(?loads @ ?stores) @ code"]) simp
  qed
qed

end
