(* ===== verification/BlockLoop.thy ===== *)
theory BlockLoop imports BlockCopy begin

text \<open>
  The loop of \<open>microblaze_block_move_loop\<close> (\<open>gcc/config/microblaze/microblaze.c\<close>): the shape of the code it
  emits, the invariant of its iterations as steps of the control-flow relation, and what
  \<open>microblaze_expand_block_move\<close> as a whole does to memory.
\<close>

section \<open>The loop\<close>

text \<open>The shape of the loop's code: three assignments, the label, the body with its two
  increments, the branch back, and the code for the bytes left over. The source and
  destination pointers are the registers \<open>p\<close> and \<open>p + 1\<close>, the final source \<open>p + 2\<close>.\<close>

definition loop_pre :: "nat \<Rightarrow> rtx \<Rightarrow> rtx \<Rightarrow> int \<Rightarrow> rtx list" where
  "loop_pre p sa da len =
    [SetX (Reg SImode p) sa, SetX (Reg SImode (p + 1)) da,
     SetX (Reg SImode (p + 2)) (Plus (Reg SImode p) (ConstInt len))]"

definition loop_incs :: "nat \<Rightarrow> rtx list" where
  "loop_incs p =
    [SetX (Reg SImode p) (plus_constant (Reg SImode p) 32),
     SetX (Reg SImode (p + 1)) (plus_constant (Reg SImode (p + 1)) 32)]"

definition loop_branch :: "nat \<Rightarrow> nat \<Rightarrow> rtx" where
  "loop_branch p l =
    Parallel [SetX Pc (IfThenElse VOIDmode (Binary NE SImode (Reg SImode p) (Reg SImode (p + 2))) (LabelRef l) Pc),
              Clobber (Reg SImode MB_ABI_ASM_TEMP_REGNUM)]"

definition loop_code :: "nat \<Rightarrow> nat \<Rightarrow> rtx \<Rightarrow> rtx \<Rightarrow> int \<Rightarrow> rtx list \<Rightarrow> rtx list \<Rightarrow> rtx list" where
  "loop_code p l sa da len body tail =
     loop_pre p sa da len @ [CodeLabel l] @ body @ loop_incs p @ [loop_branch p l] @ tail"

definition loop_ref :: "nat \<Rightarrow> nat \<Rightarrow> mem_ref" where
  "loop_ref r al = \<lparr>mr_addr = Reg SImode r, mr_align = al\<rparr>"

lemma jump_loop_branch: "jump_cond (loop_branch p l) = Some (NE, Reg SImode p, Reg SImode (p + 2), l)"
  by (simp add: loop_branch_def)

lemma label_pc_loop: "label_pc (loop_code p l sa da len body tail) l = Some 3"
proof -
  let ?code = "loop_code p l sa da len body tail"
  obtain m where m: "length ?code = Suc (Suc (Suc (Suc m)))"
    by (simp add: loop_code_def loop_pre_def)
  have "[0..<length ?code] = 0 # 1 # 2 # 3 # [4..<length ?code]"
    unfolding m by (simp add: upt_conv_Cons numeral_eq_Suc del: upt_Suc)
  moreover have "?code ! 0 \<noteq> CodeLabel l" "?code ! 1 \<noteq> CodeLabel l" "?code ! 2 \<noteq> CodeLabel l" "?code ! 3 = CodeLabel l"
    by (simp_all add: loop_code_def loop_pre_def)
  ultimately show ?thesis by (simp add: label_pc_def)
qed

definition loop_inv :: "nat \<Rightarrow> mstate \<Rightarrow> 32 word \<Rightarrow> 32 word \<Rightarrow> nat \<Rightarrow> nat \<Rightarrow> mstate \<Rightarrow> bool" where
  "loop_inv p s0 a b q t s \<longleftrightarrow>
    mem s = copyto (mem s0) a b (32 * t) (mem s0)
    \<and> regs s p = a + of_nat (32 * t) \<and> regs s (p + 1) = b + of_nat (32 * t)
    \<and> regs s (p + 2) = a + of_nat (32 * q) \<and> (\<forall>r < p. regs s r = regs s0 r)"

lemma plus_constant_reg: "plus_constant (Reg SImode r) 32 = Plus (Reg SImode r) (ConstInt 32)"
  by (simp add: plus_constant_def plus_loop_Reg finish_sum_def)

lemma loop_body_run:
  assumes body: "copy_code (p + 3) (loop_ref (p + 1) da) (loop_ref p sa) 32 body"
    and inv: "loop_inv p s0 a b q t s" and dj: "disjoint_blocks a b n" and n: "32 * t + 32 \<le> n" "n \<le> 2 ^ 32"
  shows "\<exists>s'. rtl_run (body @ loop_incs p) s = Some s' \<and> loop_inv p s0 a b q (Suc t) s'"
proof -
  have pt: "points (p + 3) s (loop_ref p sa) (a + of_nat (32 * t))"
    "points (p + 3) s (loop_ref (p + 1) da) (b + of_nat (32 * t))"
    using inv by (simp_all add: points_def loop_ref_def loop_inv_def)
  have dj32: "disjoint_blocks (a + of_nat (32 * t)) (b + of_nat (32 * t)) 32"
    using dj n by (intro disjoint_shift [of a b n]) auto
  have small: "(32::nat) \<le> 2 ^ 32" by simp
  obtain s1 where s1: "rtl_run body s = Some s1"
    "mem s1 = copyto (mem s) (a + of_nat (32 * t)) (b + of_nat (32 * t)) 32 (mem s)"
    "\<And>r. r < p + 3 \<Longrightarrow> regs s1 r = regs s r"
    using copy_codeE [OF body pt dj32 small] by blast
  have "mem s1 = copyto (mem s0) a b (32 * t + 32) (mem s0)"
    using copyto_chain [OF dj n, of "mem s0"] inv by (simp add: s1(2) loop_inv_def)
  moreover have "rtl_run (loop_incs p) s1 =
      Some (s1\<lparr>regs := (regs s1)(p := regs s1 p + 32, p + 1 := regs s1 (p + 1) + 32)\<rparr>)"
    by (simp add: loop_incs_def plus_constant_reg)
  ultimately show ?thesis
    using s1 inv by (auto simp: rtl_run_append loop_inv_def algebra_simps)
qed

lemma loop_iteration:
  fixes code :: "rtx list"
  assumes code: "code = loop_code p l sa da len body tail"
    and body: "copy_code (p + 3) (loop_ref (p + 1) x) (loop_ref p y) 32 body"
    and inv: "loop_inv p s0 a b q t s" and dj: "disjoint_blocks a b n" and n: "32 * q \<le> n" "n < 2 ^ 32" and t: "t < q"
  shows "\<exists>s'. loop_inv p s0 a b q (Suc t) s'
    \<and> rtl_steps fcmp code (3, s) (if Suc t < q then 3 else 7 + length body, s')"
proof -
  have le: "32 * t + 32 \<le> n" using n t by simp
  obtain s' where s': "rtl_run (body @ loop_incs p) s = Some s'" "loop_inv p s0 a b q (Suc t) s'"
    using loop_body_run [OF body inv dj le] n by auto
  let ?pre = "loop_pre p sa da len @ [CodeLabel l]"
  have split: "code = ?pre @ (body @ loop_incs p) @ ([loop_branch p l] @ tail)"
    by (simp add: code loop_code_def)
  have lpre: "length ?pre = 4" by (simp add: loop_pre_def)
  have label: "rtl_step fcmp code (3, s) (4, s)"
    using rtl_step.label [of 3 code l fcmp s] by (simp add: split loop_pre_def)
  have "straight (body @ loop_incs p)" using body by (simp add: copy_code_def straight_def loop_incs_def)
  from rtl_steps_straight [OF split this s'(1), of fcmp]
  have run: "rtl_steps fcmp code (4, s) (6 + length body, s')"
    unfolding lpre by (simp add: loop_incs_def add.commute)
  have at: "code ! (6 + length body) = loop_branch p l" "6 + length body < length code"
    by (simp_all add: code loop_code_def loop_pre_def loop_incs_def nth_append)
  have cmp: "compare_val fcmp s' NE (Reg SImode p) (Reg SImode (p + 2)) = Some (Suc t \<noteq> q)"
  proof -
    have "(a + of_nat (32 * Suc t) = a + of_nat (32 * q)) \<longleftrightarrow> Suc t = q"
    proof
      assume "a + of_nat (32 * Suc t) = a + of_nat (32 * q)"
      then have "(of_nat (32 * Suc t) :: 32 word) = of_nat (32 * q)" by (simp only: add_left_cancel)
      then have "unat (of_nat (32 * Suc t) :: 32 word) = unat (of_nat (32 * q) :: 32 word)" by (rule arg_cong)
      moreover have "32 * Suc t < 2 ^ LENGTH(32)" "32 * q < 2 ^ LENGTH(32)" using n t by simp_all
      ultimately have "32 * Suc t = 32 * q" by (simp only: unat_of_nat mod_less)
      then show "Suc t = q" by simp
    qed simp
    then show ?thesis using s'(2) by (simp add: compare_val_def loop_inv_def del: of_nat_mult of_nat_Suc mult_Suc_right)
  qed
  have "rtl_step fcmp code (6 + length body, s') (if Suc t < q then 3 else 7 + length body, s')"
  proof (cases "Suc t < q")
    case True
    have "label_pc code l = Some 3" unfolding code by (rule label_pc_loop)
    then show ?thesis
      using rtl_step.taken [OF at(2), of NE "Reg SImode p" "Reg SImode (p + 2)" l] True cmp
      by (simp add: at(1) jump_loop_branch)
  next
    case False
    then show ?thesis
      using rtl_step.fall [OF at(2), of NE "Reg SImode p" "Reg SImode (p + 2)" l] t cmp
      by (simp add: at(1) jump_loop_branch)
  qed
  with label run have "rtl_steps fcmp code (3, s) (if Suc t < q then 3 else 7 + length body, s')"
    by (meson converse_rtranclp_into_rtranclp rtranclp.rtrancl_into_rtrancl)
  with s'(2) show ?thesis by blast
qed

lemma loop_all:
  assumes "code = loop_code p l sa da len body tail"
    and "copy_code (p + 3) (loop_ref (p + 1) x) (loop_ref p y) 32 body"
    and "disjoint_blocks a b n" and "32 * q \<le> n" "n < 2 ^ 32"
  shows "loop_inv p s0 a b q t s \<Longrightarrow> t < q \<Longrightarrow>
    \<exists>s'. loop_inv p s0 a b q q s' \<and> rtl_steps fcmp code (3, s) (7 + length body, s')"
proof (induction "q - t" arbitrary: t s)
  case (Suc d)
  have d: "d = q - Suc t" using Suc.hyps(2) by simp
  obtain s1 where s1: "loop_inv p s0 a b q (Suc t) s1"
    "rtl_steps fcmp code (3, s) (if Suc t < q then 3 else 7 + length body, s1)"
    using loop_iteration [OF assms(1,2) Suc.prems(1) assms(3-5) Suc.prems(2)] by blast
  show ?case
  proof (cases "Suc t < q")
    case True
    obtain s2 where "loop_inv p s0 a b q q s2" "rtl_steps fcmp code (3, s1) (7 + length body, s2)"
      using Suc.hyps(1) [OF d s1(1) True] by blast
    then show ?thesis using s1(2) True by (auto intro: rtranclp_trans)
  next
    case False
    then have "Suc t = q" using Suc.prems by simp
    then show ?thesis using s1 by auto
  qed
qed simp

section \<open>The loop as a whole\<close>

text \<open>What a code sequence does when it may contain jumps: it runs to its end and has made
  the copy.\<close>

definition copies :: "nat \<Rightarrow> mem_ref \<Rightarrow> mem_ref \<Rightarrow> nat \<Rightarrow> rtx list \<Rightarrow> bool" where
  "copies N dest src n code \<longleftrightarrow>
    (\<forall>fcmp s a b. points N s src a \<and> points N s dest b \<and> disjoint_blocks a b n \<and> n < 2 ^ 32 \<longrightarrow>
      (\<exists>s'. rtl_steps fcmp code (0, s) (length code, s') \<and> mem s' = copyto (mem s) a b n (mem s)
        \<and> (\<forall>r < N. regs s' r = regs s r)))"

lemma copiesE:
  assumes "copies N dest src n code" "points N s src a" "points N s dest b" "disjoint_blocks a b n" "n < 2 ^ 32"
  obtains s' where "rtl_steps fcmp code (0, s) (length code, s')" "mem s' = copyto (mem s) a b n (mem s)"
    "\<And>r. r < N \<Longrightarrow> regs s' r = regs s r"
  using assms unfolding copies_def by blast

lemma copies_straight: "copy_code N dest src n code \<Longrightarrow> copies N dest src n code"
  unfolding copies_def
proof (intro allI impI)
  fix fcmp s a b
  assume c: "copy_code N dest src n code"
    and h: "points N s src a \<and> points N s dest b \<and> disjoint_blocks a b n \<and> n < 2 ^ 32"
  obtain s' where s': "rtl_run code s = Some s'" "mem s' = copyto (mem s) a b n (mem s)"
    "\<And>r. r < N \<Longrightarrow> regs s' r = regs s r"
    using copy_codeE [OF c, of s a b] h by (metis less_imp_le)
  have "rtl_steps fcmp code (0, s) (length code, s')"
    using rtl_steps_straight [of code "[]" code "[]" s s' fcmp] c s'(1) by (simp add: copy_code_def)
  with s' show "\<exists>s'. rtl_steps fcmp code (0, s) (length code, s') \<and> mem s' = copyto (mem s) a b n (mem s)
        \<and> (\<forall>r < N. regs s' r = regs s r)" by blast
qed

lemma loop_pre_run:
  assumes "points p s src a" "points p s dest b"
  shows "\<exists>s'. rtl_run (loop_pre p (mr_addr src) (mr_addr dest) (32 * int q)) s = Some s'
    \<and> loop_inv p s a b q 0 s'"
proof -
  let ?s1 = "s\<lparr>regs := (regs s)(p := a)\<rparr>"
  have v: "rtl_val s (mr_addr src) = Some a" using assms(1) by (simp add: points_def)
  have "points p ?s1 dest b" by (rule points_regs [OF assms(2)]) simp
  then have "rtl_val ?s1 (mr_addr dest) = Some b" by (simp add: points_def)
  with v show ?thesis by (simp add: loop_pre_def loop_inv_def)
qed

lemma loop_code_copies:
  assumes body: "copy_code (p + 3) (loop_ref (p + 1) x) (loop_ref p y) 32 body"
    and tail: "copy_code (p + 3) (loop_ref (p + 1) x) (loop_ref p y) (n - 32 * q) tail"
    and q: "0 < q" "32 * q \<le> n"
  shows "copies p dest src n (loop_code p l (mr_addr src) (mr_addr dest) (32 * int q) body tail)"
  unfolding copies_def
proof (intro allI impI)
  fix fcmp s a b
  let ?code = "loop_code p l (mr_addr src) (mr_addr dest) (32 * int q) body tail"
  let ?pre = "loop_pre p (mr_addr src) (mr_addr dest) (32 * int q)"
  assume h: "points p s src a \<and> points p s dest b \<and> disjoint_blocks a b n \<and> n < 2 ^ 32"
  then have dj: "disjoint_blocks a b n" and n: "n < 2 ^ 32" by simp_all
  obtain s1 where s1: "rtl_run ?pre s = Some s1" "loop_inv p s a b q 0 s1"
    using loop_pre_run [of p s src a dest b q] h by blast
  have "straight ?pre" by (simp add: straight_def loop_pre_def)
  from rtl_steps_straight [of ?code "[]", OF _ this s1(1), of "[CodeLabel l] @ body @ loop_incs p @ [loop_branch p l] @ tail" fcmp]
  have pre: "rtl_steps fcmp ?code (0, s) (3, s1)" by (simp add: loop_code_def loop_pre_def numeral_3_eq_3)
  obtain s2 where s2: "loop_inv p s a b q q s2" "rtl_steps fcmp ?code (3, s1) (7 + length body, s2)"
    using loop_all [OF refl body dj q(2) n s1(2) q(1)] by blast
  have pt: "points (p + 3) s2 (loop_ref p y) (a + of_nat (32 * q))"
    "points (p + 3) s2 (loop_ref (p + 1) x) (b + of_nat (32 * q))"
    using s2(1) by (simp_all add: points_def loop_ref_def loop_inv_def)
  have djq: "disjoint_blocks (a + of_nat (32 * q)) (b + of_nat (32 * q)) (n - 32 * q)"
    using dj q by (intro disjoint_shift [of a b n]) auto
  have le: "n - 32 * q \<le> 2 ^ 32" using n by simp
  obtain s3 where s3: "rtl_run tail s2 = Some s3"
    "mem s3 = copyto (mem s2) (a + of_nat (32 * q)) (b + of_nat (32 * q)) (n - 32 * q) (mem s2)"
    "\<And>r. r < p + 3 \<Longrightarrow> regs s3 r = regs s2 r"
    using copy_codeE [OF tail pt djq le] by blast
  have mem: "mem s3 = copyto (mem s) a b n (mem s)"
    using copyto_chain [OF dj, of "32 * q" "n - 32 * q" "mem s"] q n s2(1) by (simp add: s3(2) loop_inv_def)
  have regs: "\<forall>r < p. regs s3 r = regs s r" using s3(3) s2(1) by (simp add: loop_inv_def)
  have "straight tail" using tail by (simp add: copy_code_def)
  from rtl_steps_straight [of ?code "?pre @ [CodeLabel l] @ body @ loop_incs p @ [loop_branch p l]", OF _ this s3(1), of "[]" fcmp]
  have "rtl_steps fcmp ?code (7 + length body, s2) (length ?code, s3)"
    by (simp add: loop_code_def loop_pre_def loop_incs_def add_ac eval_nat_numeral)
  with pre s2(2) have "rtl_steps fcmp ?code (0, s) (length ?code, s3)" by (meson rtranclp_trans)
  with mem regs show "\<exists>s'. rtl_steps fcmp ?code (0, s) (length ?code, s') \<and> mem s' = copyto (mem s) a b n (mem s)
      \<and> (\<forall>r < p. regs s' r = regs s r)" by blast
qed

lemma copy_code_empty: "copy_code N dest src 0 []"
  by (simp add: copy_code_def straight_def)

section \<open>What the compiler emits\<close>

lemma loop_emitted:
  assumes reg: "reg_sum (next_pseudo st) (mr_addr dest)" "reg_sum (next_pseudo st) (mr_addr src)" and n: "32 \<le> n"
  shows "\<exists>st' code. microblaze_block_move_loop env dest src (int n) st = Some st'
    \<and> emitted st' = emitted st @ code \<and> copies (next_pseudo st) dest src n code"
proof -
  let ?p = "next_pseudo st" and ?l = "next_label st"
  define q where "q = n div 32"
  let ?rd = "loop_ref (?p + 1) (min (mr_align dest) 256)" and ?rs = "loop_ref ?p (min (mr_align src) 256)"
  let ?pre = "loop_pre ?p (mr_addr src) (mr_addr dest) (32 * int q)"
  define st1 where "st1 = st\<lparr>next_pseudo := ?p + 3, next_label := Suc ?l, emitted := emitted st @ ?pre @ [CodeLabel ?l]\<rparr>"
  have q: "0 < q" "32 * q \<le> n" using n by (simp_all add: q_def)
  have mb: "MAX_MOVE_BYTES = 32" by (simp add: MAX_MOVE_BYTES_def MAX_MOVE_REGS_def)
  have lo: "int n mod 32 = int (n - 32 * q)" "int n - int (n - 32 * q) = 32 * int q"
  proof -
    have m: "n - 32 * q = n mod 32" by (simp add: q_def minus_mult_div_eq_mod)
    then show "int n mod 32 = int (n - 32 * q)" by (simp add: zmod_int)
    show "int n - int (n - 32 * q) = 32 * int q" using q(2) by (simp add: of_nat_diff)
  qed
  have rr: "reg_sum (?p + 3) (mr_addr ?rd)" "reg_sum (?p + 3) (mr_addr ?rs)" "?p + 3 \<le> next_pseudo st1"
    by (simp_all add: loop_ref_def st1_def)
  obtain st2 body where B: "microblaze_block_move_straight ?rd ?rs 32 st1 = Some st2" "emitted st2 = emitted st1 @ body"
    "next_pseudo st1 \<le> next_pseudo st2" "copy_code (?p + 3) ?rd ?rs 32 body"
    using block_move_straight_code [OF rr, of 32] by auto
  define st3 where "st3 = st2\<lparr>emitted := emitted st2 @ loop_incs ?p @ [loop_branch ?p ?l]\<rparr>"
  have rr3: "?p + 3 \<le> next_pseudo st3" using B(3) rr(3) by (simp add: st3_def)
  obtain st4 tail where T: "(if int (n - 32 * q) \<noteq> 0 then microblaze_block_move_straight ?rd ?rs (int (n - 32 * q)) st3 else Some st3) = Some st4"
    "emitted st4 = emitted st3 @ tail" "copy_code (?p + 3) ?rd ?rs (n - 32 * q) tail"
  proof (cases "n - 32 * q = 0")
    case True
    then show ?thesis using that [of st3 "[]"] copy_code_empty by simp
  next
    case False
    then show ?thesis using that block_move_straight_code [OF rr(1,2) rr3, of "n - 32 * q"] by auto
  qed
  define stA where "stA = st\<lparr>next_pseudo := Suc ?p, emitted := emitted st @ [SetX (Reg SImode ?p) (mr_addr src)]\<rparr>"
  define stB where "stB = st\<lparr>next_pseudo := Suc (Suc ?p),
      emitted := emitted st @ [SetX (Reg SImode ?p) (mr_addr src), SetX (Reg SImode (Suc ?p)) (mr_addr dest)]\<rparr>"
  define stC where "stC = st\<lparr>next_pseudo := ?p + 3, emitted := emitted st @ ?pre\<rparr>"
  have pre: "microblaze_adjust_block_mem src 32 st = (Reg SImode ?p, ?rs, stA)"
    "microblaze_adjust_block_mem dest 32 stA = (Reg SImode (Suc ?p), ?rd, stB)"
    "expand_simple_plus (Reg SImode ?p) (32 * int q) stB = (Reg SImode (Suc (Suc ?p)), stC)"
    "gen_label_rtx stC = (?l, stC\<lparr>next_label := Suc ?l\<rparr>)"
    "emit_insn (CodeLabel ?l) (stC\<lparr>next_label := Suc ?l\<rparr>) = st1"
    by (simp_all add: microblaze_adjust_block_mem_def copy_addr_to_reg_def emit_defs loop_ref_def stA_def stB_def
        stC_def st1_def expand_simple_plus_def gen_label_rtx_def loop_pre_def)
  have st3: "emit_branch SImode ?l NE (Reg SImode ?p) (Reg SImode (Suc (Suc ?p)))
      (emit_move_insn (Reg SImode (Suc ?p)) (plus_constant (Reg SImode (Suc ?p)) 32)
        (emit_move_insn (Reg SImode ?p) (plus_constant (Reg SImode ?p) 32) st2)) = st3"
    by (simp add: emit_branch_def emit_defs st3_def loop_incs_def loop_branch_def)
  have "microblaze_block_move_loop env dest src (int n) st = Some st4"
    using T(1) [unfolded Suc_eq_plus1 [symmetric]]
    by (simp add: microblaze_block_move_loop_def mb lo Let_def pre B(1) [unfolded Suc_eq_plus1 [symmetric]] st3
        microblaze_gen_conditional_branch_def del: of_nat_diff of_nat_mult split: if_splits)
  moreover have "emitted st4 = emitted st @ loop_code ?p ?l (mr_addr src) (mr_addr dest) (32 * int q) body tail"
    by (simp add: T(2) B(2) st3_def st1_def loop_code_def)
  ultimately show ?thesis using loop_code_copies [OF B(4) T(3) q] by blast
qed

lemma expand_block_move_copies:
  assumes reg: "reg_sum (next_pseudo st) (mr_addr dest)" "reg_sum (next_pseudo st) (mr_addr src)"
    and exp: "microblaze_expand_block_move env dest src (ConstInt (int n)) align st = Some (True, st')"
  shows "\<exists>code. emitted st' = emitted st @ code \<and> copies (next_pseudo st) dest src n code"
proof -
  have cases: "move_by_pieces dest src n st = Some st' \<or> microblaze_block_move_straight dest src (int n) st = Some st'
      \<or> (32 \<le> n \<and> microblaze_block_move_loop env dest src (int n) st = Some st')"
    using exp by (auto simp: microblaze_expand_block_move_def MAX_MOVE_BYTES_def MAX_MOVE_REGS_def
        split: if_splits)
  then show ?thesis
    using move_by_pieces_code [OF reg order_refl, of n] block_move_straight_code [OF reg order_refl, of n]
      loop_emitted [OF reg, of n env] copies_straight
    by (metis option.inject)
qed

text \<open>C2. The code \<open>microblaze_expand_block_move\<close> emits when it says it expanded the move itself
  copies the block: run from any state in which the two addresses denote disjoint blocks of
  \<open>n\<close> bytes, it reaches its end, in exactly one state; there the destination holds the bytes the
  source held, every byte outside the destination is as it was, and so is every register that
  existed before (the clobber of the assembler's temporary that goes with a branch is not
  represented as a change). It holds for the three strategies: pieces, straight
  load-and-store groups, and the loop with its leftover bytes.\<close>

theorem block_move_copies:
  assumes "microblaze_expand_block_move env dest src (ConstInt (int n)) align st = Some (True, st')"
    and "reg_sum (next_pseudo st) (mr_addr dest)" "reg_sum (next_pseudo st) (mr_addr src)"
    and "rtl_val s (mr_addr src) = Some a" "rtl_val s (mr_addr dest) = Some b"
    and "disjoint_blocks a b n" "n < 2 ^ 32"
  shows "\<exists>code s'. emitted st' = emitted st @ code
    \<and> rtl_steps fcmp code (0, s) (length code, s')
    \<and> (\<forall>s''. rtl_steps fcmp code (0, s) (length code, s'') \<longrightarrow> s'' = s')
    \<and> (\<forall>i < n. mem s' (b + of_nat i) = mem s (a + of_nat i))
    \<and> (\<forall>p. unat (p - b) \<ge> n \<longrightarrow> mem s' p = mem s p)
    \<and> (\<forall>r < next_pseudo st. regs s' r = regs s r)"
proof -
  obtain code where code: "emitted st' = emitted st @ code" "copies (next_pseudo st) dest src n code"
    using expand_block_move_copies [OF assms(2,3,1)] by blast
  have pt: "points (next_pseudo st) s src a" "points (next_pseudo st) s dest b"
    using assms by (simp_all add: points_def)
  obtain s' where s': "rtl_steps fcmp code (0, s) (length code, s')" "mem s' = copyto (mem s) a b n (mem s)"
    "\<And>r. r < next_pseudo st \<Longrightarrow> regs s' r = regs s r"
    using copiesE [OF code(2) pt assms(6,7)] by blast
  have "mem s' (b + of_nat i) = mem s (a + of_nat i)" if "i < n" for i
    using that assms(7) by (simp add: s'(2) copyto_def unat_of_nat)
  moreover have "mem s' p = mem s p" if "unat (p - b) \<ge> n" for p
    using that by (simp add: s'(2) copyto_def)
  ultimately show ?thesis using code(1) s' rtl_result_unique by blast
qed

text \<open>A block of 70 bytes takes the loop twice over 32 bytes and then a word and a half-word.\<close>

definition example_block :: block_state where
  "example_block = \<lparr>next_pseudo = 50, emitted = [], live_marks = [], next_label = 1\<rparr>"

lemma block_move_copies_witness:
  "\<exists>st' code s'. microblaze_expand_block_move default_env (loop_ref 5 32) (loop_ref 6 32) (ConstInt 70) (ConstInt 4)
      example_block = Some (True, st') \<and> emitted st' = code
    \<and> rtl_steps (\<lambda>c v w. False) code (0, \<lparr>regs = (\<lambda>r. if r = 5 then 1000 else 2000), mem = ucast, got_base = 0\<rparr>)
        (length code, s') \<and> mem s' 1069 = ucast (2069 :: 32 word)"
proof -
  let ?st = example_block
  let ?s = "\<lparr>regs = (\<lambda>r. if r = 5 then 1000 else 2000), mem = ucast, got_base = 0\<rparr>"
  have reg: "reg_sum (next_pseudo ?st) (mr_addr (loop_ref 5 32))" "reg_sum (next_pseudo ?st) (mr_addr (loop_ref 6 32))"
    by (simp_all add: example_block_def loop_ref_def)
  obtain st' where m: "microblaze_expand_block_move default_env (loop_ref 5 32) (loop_ref 6 32) (ConstInt (int 70))
      (ConstInt 4) ?st = Some (True, st')"
    using loop_emitted [OF reg, of 70 default_env]
    by (auto simp: microblaze_expand_block_move_def MAX_MOVE_BYTES_def MAX_MOVE_REGS_def default_env_def)
  have dj: "disjoint_blocks (2000 :: 32 word) 1000 70"
    unfolding disjoint_blocks_def
  proof (intro allI impI)
    fix i j :: nat assume "i < 70" "j < 70"
    then have "unat (2000 + of_nat i :: 32 word) = 2000 + i" "unat (1000 + of_nat j :: 32 word) = 1000 + j"
      by (simp_all add: unat_word_ariths unat_of_nat)
    then have "unat (2000 + of_nat i :: 32 word) \<noteq> unat (1000 + of_nat j :: 32 word)"
      using \<open>j < 70\<close> by linarith
    then show "(2000 :: 32 word) + of_nat i \<noteq> 1000 + of_nat j" by metis
  qed
  obtain code s' where "emitted st' = emitted ?st @ code"
    "rtl_steps (\<lambda>c v w. False) code (0, ?s) (length code, s')"
    "\<forall>i < 70. mem s' (1000 + of_nat i) = mem ?s (2000 + of_nat i)"
    using block_move_copies [OF m reg, of ?s 2000 1000 "\<lambda>c v w. False"] dj by (auto simp: loop_ref_def)
  moreover from this(3) have "mem s' (1000 + of_nat 69) = mem ?s (2000 + of_nat 69)" by (meson numeral_less_iff semiring_norm)
  ultimately show ?thesis using m by (auto simp: example_block_def)
qed

end
