(* ===== verification/Sbitmap.thy ===== *)
theory Sbitmap
  imports Printf
begin

text \<open>
  The simple bitmaps of \<open>gcc/sbitmap.c\<close> and \<open>gcc/sbitmap.h\<close>, which the data-flow passes keep
  their sets of registers, blocks and expressions in. The element type
  \<open>SBITMAP_ELT_TYPE\<close> is as wide as the host's fast integers; its width is the length of the type
  variable \<open>'w\<close>, so everything here holds for every host. A structure is a record; a routine
  that updates its first argument returns the new structure. A failing \<open>gcc_assert\<close> and a
  read past the end of an operand's elements are \<open>None\<close>. All the loops work
  element by element and read an element of an operand before they write the element of the
  destination with the same index, so passing an operand's own value as the destination is
  what a call with equal pointers does.
\<close>

section \<open>Elements\<close>

text \<open>\<open>do_popcount\<close>, and the table version that compilers without the builtin use.\<close>

definition do_popcount :: "'w::len word \<Rightarrow> nat" where
  "do_popcount w = length (filter (bit w) [0..<LENGTH('w)])"

definition popcount_table :: "nat list" where
  "popcount_table =
    [0,1,1,2,1,2,2,3,1,2,2,3,2,3,3,4,1,2,2,3,2,3,3,4,2,3,3,4,3,4,4,5,
     1,2,2,3,2,3,3,4,2,3,3,4,3,4,4,5,2,3,3,4,3,4,4,5,3,4,4,5,4,5,5,6,
     1,2,2,3,2,3,3,4,2,3,3,4,3,4,4,5,2,3,3,4,3,4,4,5,3,4,4,5,4,5,5,6,
     2,3,3,4,3,4,4,5,3,4,4,5,4,5,5,6,3,4,4,5,4,5,5,6,4,5,5,6,5,6,6,7,
     1,2,2,3,2,3,3,4,2,3,3,4,3,4,4,5,2,3,3,4,3,4,4,5,3,4,4,5,4,5,5,6,
     2,3,3,4,3,4,4,5,3,4,4,5,4,5,5,6,3,4,4,5,4,5,5,6,4,5,5,6,5,6,6,7,
     2,3,3,4,3,4,4,5,3,4,4,5,4,5,5,6,3,4,4,5,4,5,5,6,4,5,5,6,5,6,6,7,
     3,4,4,5,4,5,5,6,4,5,5,6,5,6,6,7,4,5,5,6,5,6,6,7,5,6,6,7,6,7,7,8]"

function sbitmap_elt_popcount_from :: "'w::len word \<Rightarrow> nat \<Rightarrow> nat" where
  "sbitmap_elt_popcount_from a i =
    (if i < LENGTH('w)
     then popcount_table ! unat (drop_bit i a AND 0xff) + sbitmap_elt_popcount_from a (i + 8)
     else 0)"
  by pat_completeness auto
termination
  by (relation "measure (\<lambda>(a :: 'w::len word, i). LENGTH('w) - i)") auto

declare sbitmap_elt_popcount_from.simps [simp del]

definition sbitmap_elt_popcount :: "'w::len word \<Rightarrow> nat" where
  "sbitmap_elt_popcount a = (if a = 0 then 0 else sbitmap_elt_popcount_from a 0)"

text \<open>\<open>(SBITMAP_ELT_TYPE)-1 >> (SBITMAP_ELT_BITS - last_bit)\<close>, the lowest bits.\<close>

definition low_ones :: "nat \<Rightarrow> 'w::len word" where
  "low_ones last_bit = drop_bit (LENGTH('w) - last_bit) (- 1)"

section \<open>The structure\<close>

record (overloaded) 'w sbitmap =
  n_bits :: nat
  set_size :: nat
  popcounts :: "8 word list option"
  elms :: "'w word list"

text \<open>The sum in \<open>SBITMAP_SET_SIZE\<close> is an \<open>unsigned int\<close> and wraps.\<close>

definition SBITMAP_SET_SIZE :: "'w::len itself \<Rightarrow> nat \<Rightarrow> nat" where
  "SBITMAP_SET_SIZE t n = (n + LENGTH('w) - 1) mod 2 ^ 32 div LENGTH('w)"

text \<open>Memory from \<open>xmalloc\<close> and \<open>xrealloc\<close> has contents the code does not know: the parameters
  \<open>junk\<close> and \<open>pjunk\<close> are the elements and counts found there.\<close>

definition sbitmap_alloc :: "(nat \<Rightarrow> 'w word) \<Rightarrow> nat \<Rightarrow> 'w::len sbitmap" where
  "sbitmap_alloc junk n_elms =
    (let bytes = SBITMAP_SET_SIZE TYPE('w) n_elms
     in \<lparr>n_bits = n_elms, set_size = bytes, popcounts = None, elms = map junk [0..<bytes]\<rparr>)"

definition sbitmap_alloc_with_popcount ::
  "(nat \<Rightarrow> 'w word) \<Rightarrow> (nat \<Rightarrow> 8 word) \<Rightarrow> nat \<Rightarrow> 'w::len sbitmap" where
  "sbitmap_alloc_with_popcount junk pjunk n_elms =
    (let bmap = sbitmap_alloc junk n_elms
     in bmap\<lparr>popcounts := Some (map pjunk [0..<set_size bmap])\<rparr>)"

text \<open>The bytes of a whole vector of bitmaps are taken to fit the \<open>unsigned int\<close> they are added up in.\<close>

definition sbitmap_vector_alloc :: "(nat \<Rightarrow> nat \<Rightarrow> 'w word) \<Rightarrow> nat \<Rightarrow> nat \<Rightarrow> 'w::len sbitmap list" where
  "sbitmap_vector_alloc junk n_vecs n_elms = map (\<lambda>i. sbitmap_alloc (junk i) n_elms) [0..<n_vecs]"

text \<open>An array grown to a new length, its old elements kept.\<close>

definition grow :: "(nat \<Rightarrow> 'a) \<Rightarrow> nat \<Rightarrow> 'a list \<Rightarrow> 'a list" where
  "grow junk n xs = take n xs @ map junk [length xs..<n]"

definition sbitmap_resize ::
  "(nat \<Rightarrow> 8 word) \<Rightarrow> 'w::len sbitmap \<Rightarrow> nat \<Rightarrow> bool \<Rightarrow> 'w sbitmap" where
  "sbitmap_resize pjunk bmap n_elms def =
    (let bytes = SBITMAP_SET_SIZE TYPE('w) n_elms;
         last_bit = n_elms mod LENGTH('w);
         bmap =
          (if n_elms > n_bits bmap then
             (if def then
                let es = grow (\<lambda>i. - 1) bytes (elms bmap);
                    old_bit = n_bits bmap mod LENGTH('w);
                    es = (if old_bit \<noteq> 0
                          then es[set_size bmap - 1 := es ! (set_size bmap - 1) OR NOT (low_ones old_bit)] else es);
                    es = (if last_bit \<noteq> 0 then es[bytes - 1 := es ! (bytes - 1) AND low_ones last_bit] else es)
                in bmap\<lparr>elms := es, popcounts := map_option (grow pjunk bytes) (popcounts bmap)\<rparr>
              else
                bmap\<lparr>elms := grow (\<lambda>i. 0) bytes (elms bmap),
                     popcounts := map_option (grow (\<lambda>i. 0) bytes) (popcounts bmap)\<rparr>)
           else
             let es = take bytes (elms bmap);
                 pc = map_option (take bytes) (popcounts bmap)
             in if n_elms < n_bits bmap \<and> last_bit \<noteq> 0 then
                  let es = es[bytes - 1 := es ! (bytes - 1) AND low_ones last_bit]
                  in bmap\<lparr>elms := es,
                       popcounts := map_option (\<lambda>p. p[bytes - 1 := of_nat (do_popcount (es ! (bytes - 1)))]) pc\<rparr>
                else bmap\<lparr>elms := es, popcounts := pc\<rparr>)
     in bmap\<lparr>n_bits := n_elms, set_size := bytes\<rparr>)"

definition sbitmap_realloc :: "(nat \<Rightarrow> 'w word) \<Rightarrow> 'w::len sbitmap \<Rightarrow> nat \<Rightarrow> 'w sbitmap" where
  "sbitmap_realloc junk src n_elms =
    (let bytes = SBITMAP_SET_SIZE TYPE('w) n_elms
     in if set_size src \<ge> bytes then src\<lparr>n_bits := n_elms\<rparr>
        else src\<lparr>n_bits := n_elms, set_size := bytes, elms := grow junk bytes (elms src)\<rparr>)"

text \<open>The check of the cached counts in a debugging compiler; false is a failed assertion.\<close>

definition sbitmap_verify_popcount :: "'w::len sbitmap \<Rightarrow> bool" where
  "sbitmap_verify_popcount a =
    (case popcounts a of
       None \<Rightarrow> True
     | Some pc \<Rightarrow> list_all (\<lambda>ix. unat (pc ! ix) = do_popcount (elms a ! ix)) [0..<set_size a])"

section \<open>Single bits\<close>

definition TEST_BIT :: "'w::len sbitmap \<Rightarrow> nat \<Rightarrow> bool" where
  "TEST_BIT bitmap bitno = bit (elms bitmap ! (bitno div LENGTH('w))) (bitno mod LENGTH('w))"

text \<open>The operators \<open>++\<close> and \<open>--\<close> on an \<open>unsigned char\<close> of the population counts wrap.\<close>

definition bump :: "8 word \<Rightarrow> 'w::len itself \<Rightarrow> nat \<Rightarrow> 'w sbitmap \<Rightarrow> 8 word list option" where
  "bump d t bitno m = map_option (\<lambda>p. p[bitno div LENGTH('w) := p ! (bitno div LENGTH('w)) + d]) (popcounts m)"

definition SET_BIT :: "'w::len sbitmap \<Rightarrow> nat \<Rightarrow> 'w sbitmap" where
  "SET_BIT m bitno =
    (let w = bitno div LENGTH('w)
     in m\<lparr>popcounts := (if TEST_BIT m bitno then popcounts m else bump 1 TYPE('w) bitno m),
          elms := (elms m)[w := elms m ! w OR push_bit (bitno mod LENGTH('w)) 1]\<rparr>)"

definition RESET_BIT :: "'w::len sbitmap \<Rightarrow> nat \<Rightarrow> 'w sbitmap" where
  "RESET_BIT m bitno =
    (let w = bitno div LENGTH('w)
     in m\<lparr>popcounts := (if TEST_BIT m bitno then bump (- 1) TYPE('w) bitno m else popcounts m),
          elms := (elms m)[w := elms m ! w AND NOT (push_bit (bitno mod LENGTH('w)) 1)]\<rparr>)"

section \<open>Whole bitmaps\<close>

definition words_of_map :: "nat \<Rightarrow> 'w sbitmap \<Rightarrow> 'w::len word list option" where
  "words_of_map n m = (if n \<le> length (elms m) then Some (take n (elms m)) else None)"

text \<open>\<open>sbitmap_copy_n\<close> and \<open>sbitmap_copy\<close>; the destination must have room for \<open>n\<close> elements, and the
  source must have counts when the destination has.\<close>

definition sbitmap_copy_n :: "'w::len sbitmap \<Rightarrow> 'w sbitmap \<Rightarrow> nat \<Rightarrow> 'w sbitmap option" where
  "sbitmap_copy_n dst src n =
    (case words_of_map n src of
       None \<Rightarrow> None
     | Some ws \<Rightarrow>
         if length (elms dst) < n then None
         else
           let dst' = dst\<lparr>elms := ws @ drop n (elms dst)\<rparr>
           in case popcounts dst of
                None \<Rightarrow> Some dst'
              | Some p \<Rightarrow>
                  (case popcounts src of
                     Some q \<Rightarrow>
                       if n \<le> length q \<and> n \<le> length p
                       then Some (dst'\<lparr>popcounts := Some (take n q @ drop n p)\<rparr>) else None
                   | None \<Rightarrow> None))"

definition sbitmap_copy :: "'w::len sbitmap \<Rightarrow> 'w sbitmap \<Rightarrow> 'w sbitmap option" where
  "sbitmap_copy dst src = sbitmap_copy_n dst src (set_size dst)"

definition sbitmap_equal :: "'w::len sbitmap \<Rightarrow> 'w sbitmap \<Rightarrow> bool option" where
  "sbitmap_equal a b =
    (case (words_of_map (set_size a) a, words_of_map (set_size a) b) of
       (Some v, Some w) \<Rightarrow> Some (v = w) | _ \<Rightarrow> None)"

definition sbitmap_empty_p :: "'w::len sbitmap \<Rightarrow> bool" where
  "sbitmap_empty_p bmap = list_all (\<lambda>w. w = 0) (take (set_size bmap) (elms bmap))"

definition sbitmap_zero :: "'w::len sbitmap \<Rightarrow> 'w sbitmap" where
  "sbitmap_zero bmap =
    bmap\<lparr>elms := replicate (set_size bmap) 0,
         popcounts := map_option (\<lambda>p. replicate (set_size bmap) 0) (popcounts bmap)\<rparr>"

definition sbitmap_ones :: "'w::len sbitmap \<Rightarrow> 'w sbitmap" where
  "sbitmap_ones bmap =
    (let es = replicate (set_size bmap) (- 1);
         pc = map_option (\<lambda>p. replicate (set_size bmap) (- 1)) (popcounts bmap);
         last_bit = n_bits bmap mod LENGTH('w);
         top = set_size bmap - 1
     in if last_bit \<noteq> 0 then
          bmap\<lparr>elms := es[top := low_ones last_bit],
               popcounts := map_option (\<lambda>p. p[top := of_nat (do_popcount (low_ones last_bit :: 'w word))]) pc\<rparr>
        else bmap\<lparr>elms := es, popcounts := pc\<rparr>)"

definition sbitmap_vector_zero :: "'w::len sbitmap list \<Rightarrow> nat \<Rightarrow> 'w sbitmap list" where
  "sbitmap_vector_zero bmap n_vecs = map sbitmap_zero (take n_vecs bmap) @ drop n_vecs bmap"

definition sbitmap_vector_ones :: "'w::len sbitmap list \<Rightarrow> nat \<Rightarrow> 'w sbitmap list" where
  "sbitmap_vector_ones bmap n_vecs = map sbitmap_ones (take n_vecs bmap) @ drop n_vecs bmap"

section \<open>Operations on words\<close>

text \<open>The words the loops compute, from two or three operands.\<close>

definition combine2 ::
  "('w word \<Rightarrow> 'w word \<Rightarrow> 'w word) \<Rightarrow> nat \<Rightarrow> 'w::len sbitmap \<Rightarrow> 'w sbitmap \<Rightarrow> 'w word list option" where
  "combine2 f n a b =
    (case (words_of_map n a, words_of_map n b) of
       (Some v, Some w) \<Rightarrow> Some (map2 f v w) | _ \<Rightarrow> None)"

definition combine3 ::
  "('w word \<Rightarrow> 'w word \<Rightarrow> 'w word \<Rightarrow> 'w word) \<Rightarrow> nat \<Rightarrow> 'w::len sbitmap \<Rightarrow> 'w sbitmap \<Rightarrow> 'w sbitmap
   \<Rightarrow> 'w word list option" where
  "combine3 f n a b c =
    (case (words_of_map n a, words_of_map n b, words_of_map n c) of
       (Some v, Some w, Some x) \<Rightarrow> Some (map (\<lambda>(p, q, r). f p q r) (zip v (zip w x))) | _ \<Rightarrow> None)"

definition store :: "'w::len sbitmap \<Rightarrow> 'w word list \<Rightarrow> 'w sbitmap" where
  "store dst ws = dst\<lparr>elms := ws @ drop (length ws) (elms dst)\<rparr>"

text \<open>\<open>changed |= *dstp ^ tmp\<close> over the words.\<close>

fun any_change :: "'w::len word list \<Rightarrow> 'w word list \<Rightarrow> 'w word \<Rightarrow> 'w word" where
  "any_change (d # ds) (t # ts) changed = any_change ds ts (changed OR (d XOR t))"
| "any_change _ _ changed = changed"

definition store_cg :: "'w::len sbitmap \<Rightarrow> 'w word list \<Rightarrow> bool \<times> 'w sbitmap" where
  "store_cg dst ws = (any_change (elms dst) ws 0 \<noteq> 0, store dst ws)"

text \<open>The loops that keep the counts: a count is recomputed where a word changes.\<close>

definition recount :: "8 word list \<Rightarrow> 'w::len word list \<Rightarrow> 'w word list \<Rightarrow> 8 word list" where
  "recount pc old new =
    map (\<lambda>i. if i < length new \<and> old ! i XOR new ! i \<noteq> 0 then of_nat (do_popcount (new ! i)) else pc ! i)
      [0..<length pc]"

definition store_counted :: "'w::len sbitmap \<Rightarrow> 'w word list \<Rightarrow> 'w sbitmap" where
  "store_counted dst ws =
    (store dst ws)\<lparr>popcounts := map_option (\<lambda>pc. recount pc (elms dst) ws) (popcounts dst)\<rparr>"

definition no_popcount :: "'w sbitmap \<Rightarrow> bool" where "no_popcount m \<longleftrightarrow> popcounts m = None"

definition sbitmap_union_of_diff_cg ::
  "'w::len sbitmap \<Rightarrow> 'w sbitmap \<Rightarrow> 'w sbitmap \<Rightarrow> 'w sbitmap \<Rightarrow> (bool \<times> 'w sbitmap) option" where
  "sbitmap_union_of_diff_cg dst a b c =
    (if no_popcount dst
     then map_option (store_cg dst) (combine3 (\<lambda>x y z. x OR (y AND NOT z)) (set_size dst) a b c) else None)"

definition sbitmap_union_of_diff ::
  "'w::len sbitmap \<Rightarrow> 'w sbitmap \<Rightarrow> 'w sbitmap \<Rightarrow> 'w sbitmap \<Rightarrow> 'w sbitmap option" where
  "sbitmap_union_of_diff dst a b c =
    (if no_popcount dst \<and> no_popcount a \<and> no_popcount b \<and> no_popcount c
     then map_option (store dst) (combine3 (\<lambda>x y z. x OR (y AND NOT z)) (set_size dst) a b c) else None)"

definition sbitmap_not :: "'w::len sbitmap \<Rightarrow> 'w sbitmap \<Rightarrow> 'w sbitmap option" where
  "sbitmap_not dst src =
    (if no_popcount dst then
       (case words_of_map (set_size dst) src of
          None \<Rightarrow> None
        | Some ws \<Rightarrow>
            let es = map (\<lambda>w. NOT w) ws;
                last_bit = n_bits src mod LENGTH('w);
                top = set_size dst - 1
            in Some (store dst (if last_bit \<noteq> 0 then es[top := es ! top AND low_ones last_bit] else es)))
     else None)"

text \<open>The last parameter says that the destination and \<open>a\<close> are the same object.\<close>

definition sbitmap_difference ::
  "'w::len sbitmap \<Rightarrow> 'w sbitmap \<Rightarrow> 'w sbitmap \<Rightarrow> bool \<Rightarrow> 'w sbitmap option" where
  "sbitmap_difference dst a b same =
    (if no_popcount dst \<and> set_size a \<ge> set_size dst then
       let min_size = min (set_size dst) (set_size b)
       in case (combine2 (\<lambda>x y. x AND NOT y) min_size a b, words_of_map (set_size dst) a) of
            (Some ws, Some v) \<Rightarrow>
              Some (store dst (if \<not> same \<and> min_size \<noteq> set_size dst then ws @ drop min_size v else ws))
          | _ \<Rightarrow> None
     else None)"

definition sbitmap_any_common_bits :: "'w::len sbitmap \<Rightarrow> 'w sbitmap \<Rightarrow> bool option" where
  "sbitmap_any_common_bits a b =
    map_option (list_ex (\<lambda>w. w \<noteq> 0)) (combine2 (AND) (min (set_size a) (set_size b)) a b)"

definition sbitmap_a_and_b_cg :: "'w::len sbitmap \<Rightarrow> 'w sbitmap \<Rightarrow> 'w sbitmap \<Rightarrow> (bool \<times> 'w sbitmap) option" where
  "sbitmap_a_and_b_cg dst a b =
    (if no_popcount dst then map_option (store_cg dst) (combine2 (AND) (set_size dst) a b) else None)"

definition sbitmap_a_and_b :: "'w::len sbitmap \<Rightarrow> 'w sbitmap \<Rightarrow> 'w sbitmap \<Rightarrow> 'w sbitmap option" where
  "sbitmap_a_and_b dst a b = map_option (store_counted dst) (combine2 (AND) (set_size dst) a b)"

definition sbitmap_a_xor_b_cg :: "'w::len sbitmap \<Rightarrow> 'w sbitmap \<Rightarrow> 'w sbitmap \<Rightarrow> (bool \<times> 'w sbitmap) option" where
  "sbitmap_a_xor_b_cg dst a b =
    (if no_popcount dst then map_option (store_cg dst) (combine2 (XOR) (set_size dst) a b) else None)"

definition sbitmap_a_xor_b :: "'w::len sbitmap \<Rightarrow> 'w sbitmap \<Rightarrow> 'w sbitmap \<Rightarrow> 'w sbitmap option" where
  "sbitmap_a_xor_b dst a b = map_option (store_counted dst) (combine2 (XOR) (set_size dst) a b)"

definition sbitmap_a_or_b_cg :: "'w::len sbitmap \<Rightarrow> 'w sbitmap \<Rightarrow> 'w sbitmap \<Rightarrow> (bool \<times> 'w sbitmap) option" where
  "sbitmap_a_or_b_cg dst a b =
    (if no_popcount dst then map_option (store_cg dst) (combine2 (OR) (set_size dst) a b) else None)"

definition sbitmap_a_or_b :: "'w::len sbitmap \<Rightarrow> 'w sbitmap \<Rightarrow> 'w sbitmap \<Rightarrow> 'w sbitmap option" where
  "sbitmap_a_or_b dst a b = map_option (store_counted dst) (combine2 (OR) (set_size dst) a b)"

definition sbitmap_a_subset_b_p :: "'w::len sbitmap \<Rightarrow> 'w sbitmap \<Rightarrow> bool option" where
  "sbitmap_a_subset_b_p a b =
    (case (words_of_map (set_size a) a, words_of_map (set_size a) b) of
       (Some v, Some w) \<Rightarrow> Some (list_all2 (\<lambda>x y. x OR y = y) v w) | _ \<Rightarrow> None)"

definition sbitmap_a_or_b_and_c_cg ::
  "'w::len sbitmap \<Rightarrow> 'w sbitmap \<Rightarrow> 'w sbitmap \<Rightarrow> 'w sbitmap \<Rightarrow> (bool \<times> 'w sbitmap) option" where
  "sbitmap_a_or_b_and_c_cg dst a b c =
    (if no_popcount dst
     then map_option (store_cg dst) (combine3 (\<lambda>x y z. x OR (y AND z)) (set_size dst) a b c) else None)"

definition sbitmap_a_or_b_and_c ::
  "'w::len sbitmap \<Rightarrow> 'w sbitmap \<Rightarrow> 'w sbitmap \<Rightarrow> 'w sbitmap \<Rightarrow> 'w sbitmap option" where
  "sbitmap_a_or_b_and_c dst a b c =
    (if no_popcount dst
     then map_option (store dst) (combine3 (\<lambda>x y z. x OR (y AND z)) (set_size dst) a b c) else None)"

definition sbitmap_a_and_b_or_c_cg ::
  "'w::len sbitmap \<Rightarrow> 'w sbitmap \<Rightarrow> 'w sbitmap \<Rightarrow> 'w sbitmap \<Rightarrow> (bool \<times> 'w sbitmap) option" where
  "sbitmap_a_and_b_or_c_cg dst a b c =
    (if no_popcount dst
     then map_option (store_cg dst) (combine3 (\<lambda>x y z. x AND (y OR z)) (set_size dst) a b c) else None)"

definition sbitmap_a_and_b_or_c ::
  "'w::len sbitmap \<Rightarrow> 'w sbitmap \<Rightarrow> 'w sbitmap \<Rightarrow> 'w sbitmap \<Rightarrow> 'w sbitmap option" where
  "sbitmap_a_and_b_or_c dst a b c =
    map_option (store dst) (combine3 (\<lambda>x y z. x AND (y OR z)) (set_size dst) a b c)"

end
