(* ===== verification/SetSpec.thy ===== *)
theory SetSpec
  imports Prelude
begin

text \<open>
  The contract of a set of small numbers, which both set representations of the compiler
  (\<open>gcc/sbitmap.c\<close> and \<open>gcc/sparseset.c\<close>) promise: membership, insertion, deletion and
  clearing inside a universe of numbers below a bound, where \<open>None\<close> is a failed assertion or an
  access outside an array. Its clients rely on histories of operations, whose effect is proved
  here once.
\<close>

datatype set_op = Insert nat | Delete nat | Clear

fun op_elements :: "set_op \<Rightarrow> nat set" where
  "op_elements (Insert i) = {i}"
| "op_elements (Delete i) = {i}"
| "op_elements Clear = {}"

text \<open>What an operation does to a mathematical set.\<close>

fun set_op_spec :: "set_op \<Rightarrow> nat set \<Rightarrow> nat set" where
  "set_op_spec (Insert i) A = insert i A"
| "set_op_spec (Delete i) A = A - {i}"
| "set_op_spec Clear A = {}"

abbreviation run_spec :: "set_op list \<Rightarrow> nat set \<Rightarrow> nat set" where
  "run_spec ops \<equiv> fold set_op_spec ops"

text \<open>What it does to a representation.\<close>

fun do_op ::
  "('s \<Rightarrow> nat \<Rightarrow> 's option) \<Rightarrow> ('s \<Rightarrow> nat \<Rightarrow> 's option) \<Rightarrow> ('s \<Rightarrow> 's) \<Rightarrow> set_op \<Rightarrow> 's \<Rightarrow> 's option" where
  "do_op ins del clr (Insert i) s = ins s i"
| "do_op ins del clr (Delete i) s = del s i"
| "do_op ins del clr Clear s = Some (clr s)"

fun run_ops ::
  "('s \<Rightarrow> nat \<Rightarrow> 's option) \<Rightarrow> ('s \<Rightarrow> nat \<Rightarrow> 's option) \<Rightarrow> ('s \<Rightarrow> 's) \<Rightarrow> set_op list \<Rightarrow> 's \<Rightarrow> 's option" where
  "run_ops ins del clr [] s = Some s"
| "run_ops ins del clr (x # xs) s = Option.bind (do_op ins del clr x s) (run_ops ins del clr xs)"

locale number_set =
  fixes wf :: "'s \<Rightarrow> bool"
    and universe :: "'s \<Rightarrow> nat"
    and contents :: "'s \<Rightarrow> nat set"
    and test :: "'s \<Rightarrow> nat \<Rightarrow> bool option"
    and ins :: "'s \<Rightarrow> nat \<Rightarrow> 's option"
    and del :: "'s \<Rightarrow> nat \<Rightarrow> 's option"
    and clr :: "'s \<Rightarrow> 's"
  assumes contents_bound: "wf s \<Longrightarrow> contents s \<subseteq> {..<universe s}"
    and test: "wf s \<Longrightarrow> i < universe s \<Longrightarrow> test s i = Some (i \<in> contents s)"
    and ins: "wf s \<Longrightarrow> i < universe s \<Longrightarrow>
      \<exists>r. ins s i = Some r \<and> wf r \<and> universe r = universe s \<and> contents r = insert i (contents s)"
    and del: "wf s \<Longrightarrow> i < universe s \<Longrightarrow>
      \<exists>r. del s i = Some r \<and> wf r \<and> universe r = universe s \<and> contents r = contents s - {i}"
    and clr: "wf s \<Longrightarrow> wf (clr s) \<and> universe (clr s) = universe s \<and> contents (clr s) = {}"
begin

lemma finite_contents: "wf s \<Longrightarrow> finite (contents s)"
  using contents_bound finite_subset by blast

lemma card_contents: "wf s \<Longrightarrow> card (contents s) \<le> universe s"
  using card_mono [OF finite_lessThan contents_bound] by fastforce

lemma do_op_refines:
  assumes "wf s" "op_elements x \<subseteq> {..<universe s}"
  shows "\<exists>r. do_op ins del clr x s = Some r \<and> wf r \<and> universe r = universe s
    \<and> contents r = set_op_spec x (contents s)"
  using assms ins del clr by (cases x) auto

lemma history:
  "wf s \<Longrightarrow> \<Union> (op_elements ` set ops) \<subseteq> {..<universe s} \<Longrightarrow>
    \<exists>r. run_ops ins del clr ops s = Some r \<and> wf r \<and> universe r = universe s
      \<and> contents r = run_spec ops (contents s)"
proof (induction ops arbitrary: s)
  case (Cons x xs)
  then obtain r where "do_op ins del clr x s = Some r" "wf r" "universe r = universe s"
    "contents r = set_op_spec x (contents s)"
    using do_op_refines [of s x] by auto
  then show ?case using Cons.IH [of r] Cons.prems(2) by simp
qed simp

lemma history_test:
  assumes "wf s" "\<Union> (op_elements ` set ops) \<subseteq> {..<universe s}" "i < universe s"
  shows "Option.bind (run_ops ins del clr ops s) (\<lambda>r. test r i) = Some (i \<in> run_spec ops (contents s))"
  using history [OF assms(1,2)] test assms(3) by auto

end

end
