(* ===== verification/SbitmapSet.thy ===== *)
theory SbitmapSet
  imports Sbitmap SetSpec
begin

text \<open>
  Simple bitmaps as sets of bit numbers: the invariant of the structure, the set a bitmap
  stands for, and what the routines of \<open>gcc/sbitmap.c\<close> do to it.
\<close>

section \<open>Population counts\<close>

lemma do_popcount_card: "do_popcount (w :: 'w::len word) = card {i. bit w i}"
proof -
  have "{i. bit w i} = set (filter (bit w) [0..<LENGTH('w)])"
    using bit_imp_le_length by fastforce
  then show ?thesis by (simp add: do_popcount_def distinct_card [symmetric])
qed

lemma do_popcount_le: "do_popcount (w :: 'w::len word) \<le> LENGTH('w)"
  using length_filter_le [of "bit w" "[0..<LENGTH('w)]"] by (simp add: do_popcount_def)

lemma do_popcount_0 [simp]: "do_popcount 0 = 0"
  by (simp add: do_popcount_def)

text \<open>The table doubles: the entries of the upper half are those of the lower half plus one.\<close>

fun count_table :: "nat \<Rightarrow> nat list" where
  "count_table 0 = [0]"
| "count_table (Suc k) = count_table k @ map Suc (count_table k)"

lemma length_count_table [simp]: "length (count_table k) = 2 ^ k"
  by (induction k) simp_all

lemma nth_count_table: "v < 2 ^ k \<Longrightarrow> count_table k ! v = length (filter (bit v) [0..<k])"
proof (induction k arbitrary: v)
  case (Suc k)
  show ?case
  proof (cases "v < 2 ^ k")
    case True
    then show ?thesis using Suc.IH [OF True] by (simp add: nth_append bit_iff_odd)
  next
    case False
    define u where "u = v - 2 ^ k"
    have u: "u < 2 ^ k" "v = 2 ^ k + u" using False Suc.prems by (simp_all add: u_def)
    then have t: "take_bit k v = u" by (simp add: take_bit_eq_mod)
    have "filter (bit v) [0..<k] = filter (bit u) [0..<k]"
      by (intro filter_cong) (auto simp: t [symmetric] bit_take_bit_iff)
    moreover have "bit v k" using u by (simp add: bit_iff_odd div_add1_eq)
    ultimately show ?thesis using Suc.IH [OF u(1)] False u by (simp add: nth_append u_def [symmetric])
  qed
qed simp

lemma popcount_table: "popcount_table = count_table 8"
  by (simp add: popcount_table_def eval_nat_numeral)

lemma table_byte:
  fixes a :: "'w::len word"
  assumes "8 \<le> LENGTH('w)"
  shows "popcount_table ! unat (drop_bit i a AND 0xff) = length (filter (bit a) [i..<i + 8])"
proof -
  have m: "(0xff :: 'w word) = mask 8" by (simp add: mask_eq_exp_minus_1)
  have u: "unat (drop_bit i a AND 0xff) = take_bit 8 (unat (drop_bit i a))"
    unfolding m by (simp add: take_bit_eq_mask [symmetric] unsigned_take_bit_eq)
  have "take_bit 8 (unat (drop_bit i a)) < 2 ^ 8" by (rule take_bit_nat_less_exp)
  then have "popcount_table ! unat (drop_bit i a AND 0xff) =
      length (filter (bit (take_bit 8 (unat (drop_bit i a)))) [0..<8])"
    unfolding u popcount_table by (rule nth_count_table)
  also have "\<dots> = length (filter (\<lambda>k. bit a (i + k)) [0..<8])"
    by (intro arg_cong [of _ _ length] filter_cong) (auto simp: bit_take_bit_iff bit_unsigned_iff bit_drop_bit_eq possible_bit_def dest: bit_imp_le_length)
  also have "\<dots> = length (filter (bit a) (map ((+) i) [0..<8]))"
    by (simp add: filter_map comp_def)
  also have "map ((+) i) [0..<8] = [i..<i + 8]" by (rule nth_equalityI) auto
  finally show ?thesis .
qed

lemma elt_popcount_from:
  fixes a :: "'w::len word"
  assumes "8 dvd LENGTH('w)" "8 dvd i"
  shows "sbitmap_elt_popcount_from a i = length (filter (bit a) [i..<LENGTH('w)])"
  using assms
proof (induction a i rule: sbitmap_elt_popcount_from.induct)
  case (1 a i)
  show ?case
  proof (cases "i < LENGTH('w)")
    case True
    with "1.prems" have le: "i + 8 \<le> LENGTH('w)" by (auto elim!: dvdE)
    have "[i..<LENGTH('w)] = [i..<i + 8] @ [i + 8..<LENGTH('w)]"
      using le upt_add_eq_append [of i "i + 8" "LENGTH('w) - (i + 8)"] by simp
    then show ?thesis
      using "1.IH" [OF True] "1.prems" table_byte [of i a] le True
      by (subst sbitmap_elt_popcount_from.simps) simp
  next
    case False
    then show ?thesis by (simp add: sbitmap_elt_popcount_from.simps)
  qed
qed

section \<open>The set of a bitmap\<close>

definition sbitmap_contents :: "'w::len sbitmap \<Rightarrow> nat set" where
  "sbitmap_contents m = {i. i < set_size m * LENGTH('w) \<and> TEST_BIT m i}"

definition counts_ok :: "'w::len sbitmap \<Rightarrow> bool" where
  "counts_ok m \<longleftrightarrow>
    (case popcounts m of
       None \<Rightarrow> True
     | Some pc \<Rightarrow> pc = map (\<lambda>w. of_nat (do_popcount w)) (elms m))"

text \<open>The number of bits leaves room for the sum that rounds it up.\<close>

abbreviation bits_fit :: "'w::len itself \<Rightarrow> nat \<Rightarrow> bool" where
  "bits_fit t n \<equiv> n + LENGTH('w) < 2 ^ 32"

definition sbitmap_wf :: "'w::len sbitmap \<Rightarrow> bool" where
  "sbitmap_wf m \<longleftrightarrow> bits_fit TYPE('w) (n_bits m)
    \<and> length (elms m) = set_size m \<and> set_size m = SBITMAP_SET_SIZE TYPE('w) (n_bits m)
    \<and> sbitmap_contents m \<subseteq> {..<n_bits m} \<and> counts_ok m"

lemma set_size_ceil: "n + LENGTH('w) \<le> 2 ^ 32 \<Longrightarrow> SBITMAP_SET_SIZE TYPE('w::len) n = ceil_div n LENGTH('w)"
proof -
  assume "n + LENGTH('w) \<le> 2 ^ 32"
  then have "n + LENGTH('w) - 1 < 2 ^ 32" by simp
  then show ?thesis by (simp only: SBITMAP_SET_SIZE_def ceil_div_def mod_less)
qed

lemma set_size_bounds:
  assumes "bits_fit TYPE('w::len) n"
  shows "n \<le> SBITMAP_SET_SIZE TYPE('w) n * LENGTH('w)"
    and "SBITMAP_SET_SIZE TYPE('w) n * LENGTH('w) < n + LENGTH('w)"
  using ceil_div_bounds [of "LENGTH('w)" n] set_size_ceil [where 'w = 'w, of n] assms by simp_all

lemma set_size_last:
  assumes "bits_fit TYPE('w) n" "n mod LENGTH('w) \<noteq> 0"
  shows "SBITMAP_SET_SIZE TYPE('w::len) n = Suc (n div LENGTH('w))"
proof -
  have b: "n \<le> SBITMAP_SET_SIZE TYPE('w) n * LENGTH('w)" "SBITMAP_SET_SIZE TYPE('w) n * LENGTH('w) < n + LENGTH('w)"
    by (rule set_size_bounds [OF assms(1)])+
  have "n div LENGTH('w) * LENGTH('w) < n" using assms(2)
    using div_mult_mod_eq [of n "LENGTH('w)"] by linarith
  then have "n div LENGTH('w) * LENGTH('w) < SBITMAP_SET_SIZE TYPE('w) n * LENGTH('w)"
    using b(1) by (rule order_less_le_trans)
  then have "n div LENGTH('w) < SBITMAP_SET_SIZE TYPE('w) n" by simp
  moreover have "SBITMAP_SET_SIZE TYPE('w) n \<le> Suc (n div LENGTH('w))"
  proof (rule ccontr)
    assume "\<not> ?thesis"
    then have "Suc (Suc (n div LENGTH('w))) * LENGTH('w) \<le> SBITMAP_SET_SIZE TYPE('w) n * LENGTH('w)"
      by (intro mult_le_mono1) simp
    moreover have "n < Suc (n div LENGTH('w)) * LENGTH('w)"
      using dividend_less_div_times [of "LENGTH('w)" n] by simp
    ultimately show False using b(2) by simp
  qed
  ultimately show ?thesis by simp
qed

lemma word_index:
  assumes "i < n * LENGTH('w)"
  shows "i div LENGTH('w::len) < n" "i mod LENGTH('w) < LENGTH('w)"
  using assms by (simp_all add: less_mult_imp_div_less)

lemma bit_pos: "k < n \<Longrightarrow> j < LENGTH('w) \<Longrightarrow> k * LENGTH('w) + j < n * LENGTH('w::len)"
  using mult_le_mono1 [of "Suc k" n "LENGTH('w)"] by simp

lemma words_of_map: "length (elms m) = n \<Longrightarrow> words_of_map n m = Some (elms m)"
  by (simp add: words_of_map_def)

text \<open>Bits and contents determine each other.\<close>

lemma contents_bit:
  assumes "sbitmap_wf (m :: 'w::len sbitmap)" "k < set_size m" "j < LENGTH('w)"
  shows "bit (elms m ! k) j \<longleftrightarrow> k * LENGTH('w) + j \<in> sbitmap_contents m"
proof -
  have "(k * LENGTH('w) + j) div LENGTH('w) = k" "(k * LENGTH('w) + j) mod LENGTH('w) = j"
    using assms(3) by (simp_all add: div_mult_self3)
  then show ?thesis using bit_pos [OF assms(2,3)] by (simp only: sbitmap_contents_def TEST_BIT_def mem_Collect_eq simp_thms)
qed

lemma contents_inject:
  assumes "sbitmap_wf a" "sbitmap_wf b" "n_bits a = n_bits b" "sbitmap_contents a = sbitmap_contents (b :: 'w::len sbitmap)"
  shows "elms a = elms b"
proof (rule nth_equalityI)
  have la: "length (elms a) = set_size a" "set_size a = SBITMAP_SET_SIZE TYPE('w) (n_bits a)"
    using assms(1) by (simp_all add: sbitmap_wf_def)
  have lb: "length (elms b) = set_size b" "set_size b = SBITMAP_SET_SIZE TYPE('w) (n_bits b)"
    using assms(2) by (simp_all add: sbitmap_wf_def)
  show len: "length (elms a) = length (elms b)" by (simp only: la lb assms(3))
  fix k assume "k < length (elms a)"
  then have k: "k < set_size a" "k < set_size b" using la(1) lb(1) len by linarith+
  show "elms a ! k = elms b ! k"
    by (rule bit_word_eqI) (simp only: contents_bit [OF assms(1) k(1)] contents_bit [OF assms(2) k(2)] assms(4))
qed

text \<open>A bitmap whose elements are replaced by words with the bits of a set.\<close>

definition words_for :: "nat \<Rightarrow> nat set \<Rightarrow> 'w::len word list \<Rightarrow> bool" where
  "words_for n A ws \<longleftrightarrow> bits_fit TYPE('w) n
    \<and> length ws = SBITMAP_SET_SIZE TYPE('w) n \<and> A \<subseteq> {..<n}
    \<and> (\<forall>k < length ws. \<forall>j < LENGTH('w). bit (ws ! k) j \<longleftrightarrow> k * LENGTH('w) + j \<in> A)"

lemma words_for_elms:
  assumes "sbitmap_wf m"
  shows "words_for (n_bits m) (sbitmap_contents m) (elms m)"
proof -
  have len: "length (elms m) = set_size m" "set_size m = SBITMAP_SET_SIZE TYPE('a) (n_bits m)"
    "sbitmap_contents m \<subseteq> {..<n_bits m}" "bits_fit TYPE('a) (n_bits m)"
    using assms by (simp_all add: sbitmap_wf_def)
  show ?thesis unfolding words_for_def using len(3,4) contents_bit [OF assms] by (simp add: len(1,2))
qed

lemma words_for_wf:
  assumes "words_for (n_bits m) A (elms m)" "set_size m = length (elms m)" "counts_ok m"
  shows "sbitmap_wf m" "sbitmap_contents m = A"
proof -
  have "sbitmap_contents m = A"
  proof (rule set_eqI)
    fix i
    show "i \<in> sbitmap_contents m \<longleftrightarrow> i \<in> A"
    proof (cases "i < set_size m * LENGTH('a)")
      case True
      then show ?thesis
        using assms(1,2) word_index [OF True] by (simp add: words_for_def sbitmap_contents_def TEST_BIT_def)
    next
      case False
      then have "\<not> i < n_bits m"
        using set_size_bounds(1) [where 'w = 'a, of "n_bits m"] assms(1,2) by (simp add: words_for_def)
      then show ?thesis using False assms(1) by (auto simp: words_for_def sbitmap_contents_def)
    qed
  qed
  then show "sbitmap_contents m = A" "sbitmap_wf m"
    using assms by (auto simp: sbitmap_wf_def words_for_def)
qed

lemma store_words:
  assumes "sbitmap_wf dst" "words_for (n_bits dst) A ws"
  shows "elms (store dst ws) = ws" "n_bits (store dst ws) = n_bits dst" "set_size (store dst ws) = set_size dst"
    "popcounts (store dst ws) = popcounts dst" "length ws = set_size dst"
  using assms by (simp_all add: store_def sbitmap_wf_def words_for_def)

text \<open>What a routine promises: a well-formed bitmap of the same size with the given contents.\<close>

definition denotes :: "nat \<Rightarrow> nat set \<Rightarrow> 'w::len sbitmap \<Rightarrow> bool" where
  "denotes n A m \<longleftrightarrow> sbitmap_wf m \<and> n_bits m = n \<and> sbitmap_contents m = A"

lemma store_denotes:
  assumes "sbitmap_wf dst" "words_for (n_bits dst) A ws" "popcounts dst = None"
  shows "denotes (n_bits dst) A (store dst ws)"
  using store_words [OF assms(1,2)] words_for_wf [of "store dst ws" A] assms
  by (simp add: denotes_def counts_ok_def)

lemma xor_0_iff [simp]: "x XOR y = 0 \<longleftrightarrow> x = (y :: 'w::len word)"
  by (metis xor.assoc xor.left_neutral xor.right_neutral xor_self_eq)

lemma recount:
  assumes "length pc = length new" "length old = length new" "pc = map (\<lambda>w. of_nat (do_popcount w)) old"
  shows "recount pc old new = map (\<lambda>w. of_nat (do_popcount w)) new"
  using assms by (intro nth_equalityI) (auto simp: recount_def)

lemma store_counted_denotes:
  assumes "sbitmap_wf dst" "words_for (n_bits dst) A ws"
  shows "denotes (n_bits dst) A (store_counted dst ws)"
proof -
  note S = store_words [OF assms]
  have "counts_ok (store_counted dst ws)"
  proof (cases "popcounts dst")
    case (Some pc)
    then have "pc = map (\<lambda>w. of_nat (do_popcount w)) (elms dst)" "length (elms dst) = length ws"
      using assms(1) S(5) by (simp_all add: sbitmap_wf_def counts_ok_def)
    then show ?thesis using Some recount [of pc ws "elms dst"] S(1)
      by (simp add: counts_ok_def store_counted_def)
  qed (simp add: counts_ok_def store_counted_def)
  then show ?thesis
    using S words_for_wf [of "store_counted dst ws" A] assms(2)
    by (simp add: denotes_def store_counted_def)
qed

lemma any_change: "length ds = length ts \<Longrightarrow> any_change ds ts c = 0 \<longleftrightarrow> c = 0 \<and> ds = ts"
  by (induction ds ts c rule: any_change.induct) (auto simp: or_eq_0_iff)

lemma store_cg_denotes:
  assumes "sbitmap_wf dst" "words_for (n_bits dst) A ws" "popcounts dst = None"
  shows "fst (store_cg dst ws) \<longleftrightarrow> A \<noteq> sbitmap_contents dst" "denotes (n_bits dst) A (snd (store_cg dst ws))"
proof -
  show d: "denotes (n_bits dst) A (snd (store_cg dst ws))"
    using store_denotes [OF assms] by (simp add: store_cg_def)
  have "fst (store_cg dst ws) \<longleftrightarrow> elms dst \<noteq> ws"
    using any_change [of "elms dst" ws 0] assms(1) store_words(5) [OF assms(1,2)]
    by (simp add: store_cg_def sbitmap_wf_def)
  also have "\<dots> \<longleftrightarrow> A \<noteq> sbitmap_contents dst"
  proof
    assume "elms dst \<noteq> ws"
    then show "A \<noteq> sbitmap_contents dst"
      using contents_inject [OF assms(1), of "store dst ws"] store_words(1,2) [OF assms(1,2)]
        store_denotes [OF assms] by (auto simp: denotes_def)
  next
    assume ne: "A \<noteq> sbitmap_contents dst"
    have "store dst (elms dst) = dst" by (simp add: store_def)
    then show "elms dst \<noteq> ws" using ne store_denotes [OF assms] by (auto simp: denotes_def)
  qed
  finally show "fst (store_cg dst ws) \<longleftrightarrow> A \<noteq> sbitmap_contents dst" .
qed

section \<open>The loops\<close>

lemma wf_words:
  assumes "sbitmap_wf (a :: 'w::len sbitmap)" "n_bits a = n"
  shows "words_of_map (SBITMAP_SET_SIZE TYPE('w) n) a = Some (elms a)"
    and "length (elms a) = SBITMAP_SET_SIZE TYPE('w) n" "set_size a = SBITMAP_SET_SIZE TYPE('w) n"
    and "bits_fit TYPE('w) n"
  using assms by (auto simp: sbitmap_wf_def words_of_map_def)

lemma combine2_words:
  fixes a b :: "'w::len sbitmap"
  assumes a: "sbitmap_wf a" "n_bits a = n" and b: "sbitmap_wf b" "n_bits b = n"
    and f: "\<And>x y j. j < LENGTH('w) \<Longrightarrow> bit (f x y) j \<longleftrightarrow> g (bit x j) (bit y j)" and g: "\<not> g False False"
  shows "\<exists>ws. combine2 f (SBITMAP_SET_SIZE TYPE('w) n) a b = Some ws
    \<and> words_for n {i. g (i \<in> sbitmap_contents a) (i \<in> sbitmap_contents b)} ws"
proof -
  note wa = wf_words [OF a] and wb = wf_words [OF b]
  have "{i. g (i \<in> sbitmap_contents a) (i \<in> sbitmap_contents b)} \<subseteq> sbitmap_contents a \<union> sbitmap_contents b" (is "?L \<subseteq> _")
  proof
    fix i assume "i \<in> ?L"
    then show "i \<in> sbitmap_contents a \<union> sbitmap_contents b"
      using g by (cases "i \<in> sbitmap_contents a"; cases "i \<in> sbitmap_contents b") simp_all
  qed
  also have "\<dots> \<subseteq> {..<n}" using a b by (auto simp: sbitmap_wf_def)
  finally have "?L \<subseteq> {..<n}" .
  moreover have "bit (map2 f (elms a) (elms b) ! k) j \<longleftrightarrow>
      g (k * LENGTH('w) + j \<in> sbitmap_contents a) (k * LENGTH('w) + j \<in> sbitmap_contents b)"
    if "k < SBITMAP_SET_SIZE TYPE('w) n" "j < LENGTH('w)" for k j
    using that contents_bit [OF a(1), of k j] contents_bit [OF b(1), of k j] wa(2,3) wb(2,3) f [OF that(2)] by simp
  ultimately have "words_for n {i. g (i \<in> sbitmap_contents a) (i \<in> sbitmap_contents b)} (map2 f (elms a) (elms b))"
    unfolding words_for_def using wa(2,4) wb(2) by simp
  then show ?thesis using wa(1) wb(1) by (simp add: combine2_def)
qed

lemma combine3_words:
  fixes a b c :: "'w::len sbitmap"
  assumes a: "sbitmap_wf a" "n_bits a = n" and b: "sbitmap_wf b" "n_bits b = n" and c: "sbitmap_wf c" "n_bits c = n"
    and f: "\<And>x y z j. j < LENGTH('w) \<Longrightarrow> bit (f x y z) j \<longleftrightarrow> g (bit x j) (bit y j) (bit z j)"
    and g: "\<not> g False False False"
  shows "\<exists>ws. combine3 f (SBITMAP_SET_SIZE TYPE('w) n) a b c = Some ws
    \<and> words_for n {i. g (i \<in> sbitmap_contents a) (i \<in> sbitmap_contents b) (i \<in> sbitmap_contents c)} ws"
proof -
  note wa = wf_words [OF a] and wb = wf_words [OF b] and wc = wf_words [OF c]
  let ?A = "{i. g (i \<in> sbitmap_contents a) (i \<in> sbitmap_contents b) (i \<in> sbitmap_contents c)}"
  let ?ws = "map (\<lambda>(p, q, r). f p q r) (zip (elms a) (zip (elms b) (elms c)))"
  have "?A \<subseteq> sbitmap_contents a \<union> sbitmap_contents b \<union> sbitmap_contents c"
  proof
    fix i assume "i \<in> ?A"
    then show "i \<in> sbitmap_contents a \<union> sbitmap_contents b \<union> sbitmap_contents c"
      using g by (cases "i \<in> sbitmap_contents a"; cases "i \<in> sbitmap_contents b"; cases "i \<in> sbitmap_contents c") simp_all
  qed
  also have "\<dots> \<subseteq> {..<n}" using a b c by (auto simp: sbitmap_wf_def)
  finally have "?A \<subseteq> {..<n}" .
  moreover have "bit (?ws ! k) j \<longleftrightarrow> k * LENGTH('w) + j \<in> ?A"
    if "k < SBITMAP_SET_SIZE TYPE('w) n" "j < LENGTH('w)" for k j
    using that contents_bit [OF a(1), of k j] contents_bit [OF b(1), of k j] contents_bit [OF c(1), of k j]
      wa(2,3) wb(2,3) wc(2,3) f [OF that(2)] by simp
  ultimately have "words_for n ?A ?ws"
    unfolding words_for_def using wa(2,4) wb(2) wc(2) by simp
  then show ?thesis using wa(1) wb(1) wc(1) by (simp add: combine3_def)
qed

text \<open>The set operators behind the word operators.\<close>

definition operand :: "nat \<Rightarrow> 'w::len sbitmap \<Rightarrow> bool" where
  "operand n m \<longleftrightarrow> sbitmap_wf m \<and> n_bits m = n"

lemma operandD: "operand n m \<Longrightarrow> sbitmap_wf m" "operand n m \<Longrightarrow> n_bits m = n"
  by (simp_all add: operand_def)

lemma operand_size: "operand n (m :: 'w::len sbitmap) \<Longrightarrow> set_size m = SBITMAP_SET_SIZE TYPE('w) n"
  by (auto simp: operand_def sbitmap_wf_def)

lemma op_words:
  fixes a b :: "'w::len sbitmap"
  assumes "operand n a" "operand n b"
  shows "\<exists>ws. combine2 (AND) (SBITMAP_SET_SIZE TYPE('w) n) a b = Some ws
      \<and> words_for n (sbitmap_contents a \<inter> sbitmap_contents b) ws"
    and "\<exists>ws. combine2 (OR) (SBITMAP_SET_SIZE TYPE('w) n) a b = Some ws
      \<and> words_for n (sbitmap_contents a \<union> sbitmap_contents b) ws"
    and "\<exists>ws. combine2 (XOR) (SBITMAP_SET_SIZE TYPE('w) n) a b = Some ws
      \<and> words_for n {i. (i \<in> sbitmap_contents a) \<noteq> (i \<in> sbitmap_contents b)} ws"
    and "\<exists>ws. combine2 (\<lambda>x y. x AND NOT y) (SBITMAP_SET_SIZE TYPE('w) n) a b = Some ws
      \<and> words_for n (sbitmap_contents a - sbitmap_contents b) ws"
  using combine2_words [OF operandD [OF assms(1)] operandD [OF assms(2)], of "(AND)" "(\<and>)"]
    combine2_words [OF operandD [OF assms(1)] operandD [OF assms(2)], of "(OR)" "(\<or>)"]
    combine2_words [OF operandD [OF assms(1)] operandD [OF assms(2)], of "(XOR)" "(\<noteq>)"]
    combine2_words [OF operandD [OF assms(1)] operandD [OF assms(2)], of "\<lambda>x y. x AND NOT y" "\<lambda>x y. x \<and> \<not> y"]
  by (simp_all add: bit_simps Int_def Un_def set_diff_eq)

lemma op3_words:
  fixes a b c :: "'w::len sbitmap"
  assumes "operand n a" "operand n b" "operand n c"
  shows "\<exists>ws. combine3 (\<lambda>x y z. x OR (y AND NOT z)) (SBITMAP_SET_SIZE TYPE('w) n) a b c = Some ws
      \<and> words_for n (sbitmap_contents a \<union> (sbitmap_contents b - sbitmap_contents c)) ws"
    and "\<exists>ws. combine3 (\<lambda>x y z. x OR (y AND z)) (SBITMAP_SET_SIZE TYPE('w) n) a b c = Some ws
      \<and> words_for n (sbitmap_contents a \<union> (sbitmap_contents b \<inter> sbitmap_contents c)) ws"
    and "\<exists>ws. combine3 (\<lambda>x y z. x AND (y OR z)) (SBITMAP_SET_SIZE TYPE('w) n) a b c = Some ws
      \<and> words_for n (sbitmap_contents a \<inter> (sbitmap_contents b \<union> sbitmap_contents c)) ws"
  using combine3_words [OF operandD [OF assms(1)] operandD [OF assms(2)] operandD [OF assms(3)],
      of "\<lambda>x y z. x OR (y AND NOT z)" "\<lambda>x y z. x \<or> (y \<and> \<not> z)"]
    combine3_words [OF operandD [OF assms(1)] operandD [OF assms(2)] operandD [OF assms(3)],
      of "\<lambda>x y z. x OR (y AND z)" "\<lambda>x y z. x \<or> (y \<and> z)"]
    combine3_words [OF operandD [OF assms(1)] operandD [OF assms(2)] operandD [OF assms(3)],
      of "\<lambda>x y z. x AND (y OR z)" "\<lambda>x y z. x \<and> (y \<or> z)"]
  by (simp_all add: bit_simps Int_def Un_def set_diff_eq)

lemma stored_result:
  assumes "operand n dst" "\<exists>ws. e = Some ws \<and> words_for n A ws"
  shows "\<exists>r. map_option (store_counted dst) e = Some r \<and> denotes n A r"
    and "popcounts dst = None \<Longrightarrow> \<exists>r. map_option (store dst) e = Some r \<and> denotes n A r"
    and "popcounts dst = None \<Longrightarrow>
      \<exists>r. map_option (store_cg dst) e = Some (A \<noteq> sbitmap_contents dst, r) \<and> denotes n A r"
proof -
  obtain ws where ws: "e = Some ws" "words_for (n_bits dst) A ws" using assms by (auto simp: operand_def)
  have n: "n_bits dst = n" and w: "sbitmap_wf dst" using assms(1) by (simp_all add: operand_def)
  show "\<exists>r. map_option (store_counted dst) e = Some r \<and> denotes n A r"
    using store_counted_denotes [OF w ws(2)] n by (simp add: ws(1))
  assume p: "popcounts dst = None"
  show "\<exists>r. map_option (store dst) e = Some r \<and> denotes n A r"
    using store_denotes [OF w ws(2) p] n by (simp add: ws(1))
  obtain ch r where cr: "store_cg dst ws = (ch, r)" by fastforce
  show "\<exists>r. map_option (store_cg dst) e = Some (A \<noteq> sbitmap_contents dst, r) \<and> denotes n A r"
    using store_cg_denotes [OF w ws(2) p] n by (simp add: ws(1) cr)
qed

end
