(* ===== verification/SbitmapOps.thy ===== *)
theory SbitmapOps
  imports SbitmapSet
begin

text \<open>
  The routines of \<open>gcc/sbitmap.c\<close> that change a bitmap, as set operations: single bits, clearing
  and filling, copying, resizing, complement and difference, the boolean combinations.
\<close>

section \<open>Single bits\<close>

lemma push_bit_1_bit: "j < LENGTH('w) \<Longrightarrow> bit (push_bit j (1 :: 'w::len word)) k \<longleftrightarrow> k = j"
  by (auto simp: bit_exp_iff)

lemma do_popcount_set:
  fixes w :: "'w::len word"
  assumes "j < LENGTH('w)" "\<not> bit w j"
  shows "do_popcount (w OR push_bit j 1) = Suc (do_popcount w)"
proof -
  have "{i. bit (w OR push_bit j 1) i} = insert j {i. bit w i}"
    using push_bit_1_bit [OF assms(1)] by (auto simp: bit_or_iff)
  moreover have "finite {i. bit w i}" using finite_bit_word by auto
  ultimately show ?thesis using assms(2) by (simp add: do_popcount_card)
qed

lemma do_popcount_reset:
  fixes w :: "'w::len word"
  assumes "j < LENGTH('w)" "bit w j"
  shows "Suc (do_popcount (w AND NOT (push_bit j 1))) = do_popcount w"
proof -
  have "bit (w AND NOT (push_bit j 1)) i \<longleftrightarrow> i \<noteq> j \<and> bit w i" for i
    using push_bit_1_bit [OF assms(1)] by (auto simp: bit_and_iff bit_not_iff dest: bit_imp_le_length)
  then have "{i. bit (w AND NOT (push_bit j 1)) i} = {i. bit w i} - {j}"
    by auto
  moreover have "finite {i. bit w i}" using finite_bit_word by auto
  ultimately show ?thesis using assms(2) card_Suc_Diff1 [of "{i. bit w i}" j] by (simp add: do_popcount_card)
qed

lemma split_index: "j < (W :: nat) \<Longrightarrow> k * W + j = i \<longleftrightarrow> k = i div W \<and> j = i mod W"
  by (metis div_mult_mod_eq mod_mult_self3 mod_less div_mult_self3 add.commute div_less less_nat_zero_code
      add_0 mult.commute)

text \<open>One word of the elements changed.\<close>

lemma words_for_update:
  fixes ws :: "'w::len word list"
  assumes "words_for n A ws" "i < n" "B \<subseteq> {..<n}"
    and "\<And>k j. k \<noteq> i div LENGTH('w) \<Longrightarrow> j < LENGTH('w) \<Longrightarrow> k * LENGTH('w) + j \<in> B \<longleftrightarrow> k * LENGTH('w) + j \<in> A"
    and "\<And>j. j < LENGTH('w) \<Longrightarrow> bit x j \<longleftrightarrow> i div LENGTH('w) * LENGTH('w) + j \<in> B"
  shows "words_for n B (ws[i div LENGTH('w) := x])"
proof -
  have "bit (ws[i div LENGTH('w) := x] ! k) j \<longleftrightarrow> k * LENGTH('w) + j \<in> B"
    if "k < length ws" "j < LENGTH('w)" for k j
  proof (cases "k = i div LENGTH('w)")
    case True
    then show ?thesis using that assms(5) [OF that(2)] by simp
  next
    case False
    then show ?thesis using that assms(1) assms(4) [OF False that(2)] by (simp add: words_for_def)
  qed
  then show ?thesis using assms(1,3) by (simp add: words_for_def)
qed

lemma bit_index:
  assumes "words_for n A (ws :: 'w::len word list)" "i < n"
  shows "i div LENGTH('w) < length ws" "i mod LENGTH('w) < LENGTH('w)"
    "bit (ws ! (i div LENGTH('w))) (i mod LENGTH('w)) \<longleftrightarrow> i \<in> A"
proof -
  have "i < length ws * LENGTH('w)"
    using assms set_size_bounds(1) [where 'w = 'w, of n] by (simp add: words_for_def)
  then show k: "i div LENGTH('w) < length ws" by (simp add: less_mult_imp_div_less)
  show j: "i mod LENGTH('w) < LENGTH('w)" by simp
  have "i div LENGTH('w) * LENGTH('w) + i mod LENGTH('w) = i" by (rule div_mult_mod_eq)
  then show "bit (ws ! (i div LENGTH('w))) (i mod LENGTH('w)) \<longleftrightarrow> i \<in> A"
    using assms(1) k j unfolding words_for_def by metis
qed

lemma SET_BIT_denotes:
  fixes m :: "'w::len sbitmap"
  assumes "operand n m" "i < n"
  shows "denotes n (insert i (sbitmap_contents m)) (SET_BIT m i)"
proof -
  let ?k = "i div LENGTH('w)" and ?j = "i mod LENGTH('w)"
  let ?x = "elms m ! ?k OR push_bit ?j 1"
  have w: "sbitmap_wf m" and n: "n_bits m = n" using assms(1) by (simp_all add: operand_def)
  note W = words_for_elms [OF w, unfolded n]
  note I = bit_index [OF W assms(2)]
  have test: "TEST_BIT m i \<longleftrightarrow> i \<in> sbitmap_contents m" using I(3) by (simp add: TEST_BIT_def)
  have "words_for n (insert i (sbitmap_contents m)) ((elms m)[?k := ?x])"
  proof (rule words_for_update [OF W assms(2)])
    show "insert i (sbitmap_contents m) \<subseteq> {..<n}" using w n assms(2) by (auto simp: sbitmap_wf_def)
    show "\<And>k j. k \<noteq> ?k \<Longrightarrow> j < LENGTH('w) \<Longrightarrow>
        k * LENGTH('w) + j \<in> insert i (sbitmap_contents m) \<longleftrightarrow> k * LENGTH('w) + j \<in> sbitmap_contents m"
      using split_index [of _ "LENGTH('w)" _ i] by auto
    show "\<And>j. j < LENGTH('w) \<Longrightarrow> bit ?x j \<longleftrightarrow> ?k * LENGTH('w) + j \<in> insert i (sbitmap_contents m)"
      using W I(1,2) split_index [of _ "LENGTH('w)" ?k i] push_bit_1_bit [where 'w = 'w, of ?j]
      by (auto simp: words_for_def bit_or_iff)
  qed
  moreover have "counts_ok (SET_BIT m i)"
  proof (cases "popcounts m")
    case (Some pc)
    then have pc: "pc = map (\<lambda>w. of_nat (do_popcount w)) (elms m)"
      using w by (simp add: sbitmap_wf_def counts_ok_def)
    show ?thesis
    proof (cases "TEST_BIT m i")
      case True
      then have "?x = elms m ! ?k"
        using push_bit_1_bit [where 'w = 'w, of ?j] by (intro bit_word_eqI) (auto simp: TEST_BIT_def bit_or_iff)
      then show ?thesis using Some pc True by (simp add: counts_ok_def SET_BIT_def Let_def)
    next
      case False
      then show ?thesis
        using Some pc I(1) do_popcount_set [of ?j "elms m ! ?k"]
        by (simp add: counts_ok_def SET_BIT_def bump_def Let_def map_update TEST_BIT_def add.commute)
    qed
  qed (simp add: counts_ok_def SET_BIT_def bump_def Let_def)
  ultimately show ?thesis
    using words_for_wf [of "SET_BIT m i" "insert i (sbitmap_contents m)"] w n
    by (simp add: denotes_def SET_BIT_def Let_def sbitmap_wf_def)
qed

lemma RESET_BIT_denotes:
  fixes m :: "'w::len sbitmap"
  assumes "operand n m" "i < n"
  shows "denotes n (sbitmap_contents m - {i}) (RESET_BIT m i)"
proof -
  let ?k = "i div LENGTH('w)" and ?j = "i mod LENGTH('w)"
  let ?x = "elms m ! ?k AND NOT (push_bit ?j 1)"
  have w: "sbitmap_wf m" and n: "n_bits m = n" using assms(1) by (simp_all add: operand_def)
  note W = words_for_elms [OF w, unfolded n]
  note I = bit_index [OF W assms(2)]
  have x: "bit ?x j \<longleftrightarrow> bit (elms m ! ?k) j \<and> j \<noteq> ?j" for j
    using push_bit_1_bit [where 'w = 'w, of ?j] by (auto simp: bit_and_iff bit_not_iff dest: bit_imp_le_length)
  have "words_for n (sbitmap_contents m - {i}) ((elms m)[?k := ?x])"
  proof (rule words_for_update [OF W assms(2)])
    show "sbitmap_contents m - {i} \<subseteq> {..<n}" using w n by (auto simp: sbitmap_wf_def)
    show "\<And>k j. k \<noteq> ?k \<Longrightarrow> j < LENGTH('w) \<Longrightarrow>
        k * LENGTH('w) + j \<in> sbitmap_contents m - {i} \<longleftrightarrow> k * LENGTH('w) + j \<in> sbitmap_contents m"
      using split_index [of _ "LENGTH('w)" _ i] by auto
    show "\<And>j. j < LENGTH('w) \<Longrightarrow> bit ?x j \<longleftrightarrow> ?k * LENGTH('w) + j \<in> sbitmap_contents m - {i}"
      unfolding x using W I(1,2) split_index [of _ "LENGTH('w)" ?k i] by (auto simp: words_for_def)
  qed
  moreover have "counts_ok (RESET_BIT m i)"
  proof (cases "popcounts m")
    case (Some pc)
    then have pc: "pc = map (\<lambda>w. of_nat (do_popcount w)) (elms m)"
      using w by (simp add: sbitmap_wf_def counts_ok_def)
    show ?thesis
    proof (cases "TEST_BIT m i")
      case True
      then have "do_popcount (elms m ! ?k) = Suc (do_popcount ?x)"
        using do_popcount_reset [of ?j "elms m ! ?k"] by (simp add: TEST_BIT_def)
      then have "(of_nat (do_popcount (elms m ! ?k)) :: 8 word) + - 1 = of_nat (do_popcount ?x)"
        by (simp only: of_nat_Suc) simp
      then show ?thesis using Some pc True I(1)
        by (simp add: counts_ok_def RESET_BIT_def bump_def Let_def map_update)
    next
      case False
      then have "?x = elms m ! ?k" by (intro bit_word_eqI) (use x in \<open>auto simp: TEST_BIT_def\<close>)
      then show ?thesis using Some pc False by (simp add: counts_ok_def RESET_BIT_def Let_def)
    qed
  qed (simp add: counts_ok_def RESET_BIT_def bump_def Let_def)
  ultimately show ?thesis
    using words_for_wf [of "RESET_BIT m i" "sbitmap_contents m - {i}"] w n
    by (simp add: denotes_def RESET_BIT_def Let_def sbitmap_wf_def)
qed

section \<open>Filling\<close>

lemma bit_low_ones:
  "l \<le> LENGTH('w) \<Longrightarrow> bit (low_ones l :: 'w::len word) j \<longleftrightarrow> j < l"
  by (auto simp: low_ones_def bit_drop_bit_eq bit_minus_1_iff bit_mask_iff)

lemma last_word_index:
  assumes "j < LENGTH('w)"
  shows "k * LENGTH('w::len) + j < n \<longleftrightarrow>
    k < n div LENGTH('w) \<or> k = n div LENGTH('w) \<and> j < n mod LENGTH('w)"
proof -
  have q: "n div LENGTH('w) * LENGTH('w) \<le> n" "n < Suc (n div LENGTH('w)) * LENGTH('w)"
    using dividend_less_div_times [of "LENGTH('w)" n] by simp_all
  consider "k < n div LENGTH('w)" | "k = n div LENGTH('w)" | "k > n div LENGTH('w)" by linarith
  then show ?thesis
  proof cases
    case 1
    then have "Suc k * LENGTH('w) \<le> n div LENGTH('w) * LENGTH('w)" by (intro mult_le_mono1) simp
    moreover have "Suc k * LENGTH('w) = k * LENGTH('w) + LENGTH('w)" by simp
    ultimately have "k * LENGTH('w) + j < n" using q(1) assms by linarith
    then show ?thesis using 1 by simp
  next
    case 2
    then have "k * LENGTH('w) + n mod LENGTH('w) = n" by simp
    then have "k * LENGTH('w) + j < n \<longleftrightarrow> j < n mod LENGTH('w)" by linarith
    then show ?thesis using 2 by simp
  next
    case 3
    then have "Suc (n div LENGTH('w)) * LENGTH('w) \<le> k * LENGTH('w)" by (intro mult_le_mono1) simp
    then have "\<not> k * LENGTH('w) + j < n" using q(2) by linarith
    then show ?thesis using 3 by simp
  qed
qed

lemma set_size_exact:
  assumes "bits_fit TYPE('w::len) n" "n mod LENGTH('w) = 0"
  shows "SBITMAP_SET_SIZE TYPE('w) n = n div LENGTH('w)"
proof -
  have "n mod LENGTH('w) = 0" by (rule assms(2))
  then have n: "n = n div LENGTH('w) * LENGTH('w)" using div_mult_mod_eq [of n "LENGTH('w)"] by simp
  have "SBITMAP_SET_SIZE TYPE('w) n * LENGTH('w) < Suc (n div LENGTH('w)) * LENGTH('w)"
    using set_size_bounds(2) [OF assms(1)] n by simp
  moreover have "n div LENGTH('w) * LENGTH('w) \<le> SBITMAP_SET_SIZE TYPE('w) n * LENGTH('w)"
    using set_size_bounds(1) [OF assms(1)] n by simp
  ultimately show ?thesis by (metis less_Suc_eq_le le_antisym mult_le_cancel2 mult_less_cancel2 len_gt_0)
qed

text \<open>The mask of the last element cuts a list of words down to the first \<open>n\<close> bits.\<close>

definition cut_last :: "nat \<Rightarrow> 'w::len word list \<Rightarrow> 'w word list" where
  "cut_last n ws =
    (if n mod LENGTH('w) \<noteq> 0
     then ws[length ws - 1 := ws ! (length ws - 1) AND low_ones (n mod LENGTH('w))] else ws)"

lemma length_cut_last [simp]: "length (cut_last n ws) = length ws"
  by (simp add: cut_last_def)

lemma words_for_cut:
  fixes ws :: "'w::len word list"
  assumes len: "length ws = SBITMAP_SET_SIZE TYPE('w) n"
    and bits: "\<And>k j. k < length ws \<Longrightarrow> j < LENGTH('w) \<Longrightarrow> k * LENGTH('w) + j < n \<Longrightarrow>
      bit (ws ! k) j \<longleftrightarrow> k * LENGTH('w) + j \<in> A"
    and "A \<subseteq> {..<n}" and fits: "bits_fit TYPE('w) n"
  shows "words_for n A (cut_last n ws)"
proof -
  have "bit (cut_last n ws ! k) j \<longleftrightarrow> k * LENGTH('w) + j \<in> A"
    if kj: "k < length ws" "j < LENGTH('w)" for k j
  proof (cases "n mod LENGTH('w) = 0")
    case True
    then have "k * LENGTH('w) + j < n"
      using kj last_word_index [OF kj(2), of k n] set_size_exact [OF fits True] len by simp
    then show ?thesis using True bits [OF kj] by (simp add: cut_last_def)
  next
    case False
    then have top: "length ws - Suc 0 = n div LENGTH('w)" using len set_size_last [OF fits False] by simp
    have l: "bit (low_ones (n mod LENGTH('w)) :: 'w word) j \<longleftrightarrow> j < n mod LENGTH('w)"
      by (rule bit_low_ones) (simp add: less_imp_le)
    have nth: "cut_last n ws ! k = (if k = n div LENGTH('w) then ws ! k AND low_ones (n mod LENGTH('w)) else ws ! k)"
      using False kj(1) by (simp add: cut_last_def top nth_list_update)
    have "k \<le> n div LENGTH('w)" using kj(1) top by linarith
    then have "bit (cut_last n ws ! k) j \<longleftrightarrow> k * LENGTH('w) + j < n \<and> bit (ws ! k) j"
      unfolding nth using last_word_index [OF kj(2), of k n] l by (auto simp: bit_and_iff)
    then show ?thesis using bits [OF kj] assms(3) by auto
  qed
  then show ?thesis using len assms(3) fits unfolding words_for_def by simp
qed

lemma sbitmap_ones_denotes:
  fixes m :: "'w::len sbitmap"
  assumes "set_size m = SBITMAP_SET_SIZE TYPE('w) (n_bits m)" "popcounts m = None" "bits_fit TYPE('w) (n_bits m)"
  shows "denotes (n_bits m) {..<n_bits m} (sbitmap_ones m)"
proof -
  let ?ws = "replicate (set_size m) (- 1 :: 'w word)"
  have W: "words_for (n_bits m) {..<n_bits m} (cut_last (n_bits m) ?ws)"
    using assms(1,3) by (intro words_for_cut) auto
  have "n_bits m mod LENGTH('w) \<noteq> 0 \<Longrightarrow> 0 < set_size m"
    using set_size_last [OF assms(3)] assms(1) by simp
  then have "elms (sbitmap_ones m) = cut_last (n_bits m) ?ws"
    by (simp add: sbitmap_ones_def cut_last_def Let_def)
  then show ?thesis
    using words_for_wf [of "sbitmap_ones m" "{..<n_bits m}"] W assms
    by (simp add: denotes_def sbitmap_ones_def counts_ok_def Let_def words_for_def)
qed

lemma sbitmap_zero_denotes:
  fixes m :: "'w::len sbitmap"
  assumes "set_size m = SBITMAP_SET_SIZE TYPE('w) (n_bits m)" "bits_fit TYPE('w) (n_bits m)"
  shows "denotes (n_bits m) {} (sbitmap_zero m)"
proof -
  have "words_for (n_bits m) {} (elms (sbitmap_zero m))"
    using assms by (simp add: words_for_def sbitmap_zero_def)
  then show ?thesis
    using words_for_wf [of "sbitmap_zero m" "{}"]
    by (auto simp: denotes_def sbitmap_zero_def counts_ok_def split: option.splits)
qed

lemma alloc_zero_denotes:
  "bits_fit TYPE('w::len) n \<Longrightarrow> denotes n {} (sbitmap_zero (sbitmap_alloc junk n) :: 'w sbitmap)"
  using sbitmap_zero_denotes [of "sbitmap_alloc junk n :: 'w sbitmap"] by (simp add: sbitmap_alloc_def Let_def)

lemma alloc_counted_zero_denotes:
  "bits_fit TYPE('w::len) n \<Longrightarrow> denotes n {} (sbitmap_zero (sbitmap_alloc_with_popcount junk pjunk n) :: 'w sbitmap)"
  using sbitmap_zero_denotes [of "sbitmap_alloc_with_popcount junk pjunk n :: 'w sbitmap"]
  by (simp add: sbitmap_alloc_with_popcount_def sbitmap_alloc_def Let_def)

section \<open>Copying, complement, difference\<close>

lemma sbitmap_copy_denotes:
  fixes dst src :: "'w::len sbitmap"
  assumes "operand n dst" "operand n src" "popcounts dst \<noteq> None \<Longrightarrow> popcounts src \<noteq> None"
  shows "\<exists>r. sbitmap_copy dst src = Some r \<and> denotes n (sbitmap_contents src) r \<and> popcounts r = (if popcounts dst = None then None else popcounts src)"
proof -
  have d: "sbitmap_wf dst" "n_bits dst = n" and s: "sbitmap_wf src" "n_bits src = n"
    using assms(1,2) by (simp_all add: operand_def)
  note D = wf_words [OF d] and S = wf_words [OF s]
  let ?r = "dst\<lparr>elms := elms src, popcounts := (if popcounts dst = None then None else popcounts src)\<rparr>"
  have cs: "counts_ok src" "counts_ok dst" using s d by (simp_all add: sbitmap_wf_def)
  have "sbitmap_copy dst src = Some ?r"
    using D S cs assms(3)
    by (auto simp: sbitmap_copy_def sbitmap_copy_n_def words_of_map_def Let_def counts_ok_def
        split: option.splits)
  moreover have "denotes n (sbitmap_contents src) ?r"
    using words_for_wf [of ?r "sbitmap_contents src"] words_for_elms [OF s(1)] d s D S cs
    by (auto simp: denotes_def counts_ok_def split: option.splits)
  ultimately show ?thesis by simp
qed

lemma sbitmap_not_denotes:
  fixes dst src :: "'w::len sbitmap"
  assumes "operand n dst" "operand n src" "popcounts dst = None"
  shows "\<exists>r. sbitmap_not dst src = Some r \<and> denotes n ({..<n} - sbitmap_contents src) r"
proof -
  have d: "sbitmap_wf dst" "n_bits dst = n" and s: "sbitmap_wf src" "n_bits src = n"
    using assms(1,2) by (simp_all add: operand_def)
  note S = wf_words [OF s]
  have "bit (map (\<lambda>w. NOT w) (elms src) ! k) j \<longleftrightarrow> k * LENGTH('w) + j \<in> {..<n} - sbitmap_contents src"
    if "k < length (map (\<lambda>w. NOT w) (elms src))" "j < LENGTH('w)" "k * LENGTH('w) + j < n" for k j
    using that contents_bit [OF s(1), of k j] S by (simp add: bit_not_iff)
  then have W: "words_for n ({..<n} - sbitmap_contents src) (cut_last n (map (\<lambda>w. NOT w) (elms src)))"
    using S(2,4) by (intro words_for_cut) auto
  have "sbitmap_not dst src = Some (store dst (cut_last n (map (\<lambda>w. NOT w) (elms src))))"
    using S operand_size [OF assms(1)] assms(3) s(2)
    by (simp add: sbitmap_not_def no_popcount_def cut_last_def Let_def)
  then show ?thesis using store_denotes [OF d(1), of _ _] W assms(3) d(2) by simp
qed

lemma beyond_contents:
  assumes "set_size m \<le> k"
  shows "k * LENGTH('w) + j \<notin> sbitmap_contents (m :: 'w::len sbitmap)"
proof -
  have "set_size m * LENGTH('w) \<le> k * LENGTH('w)" using assms by (rule mult_le_mono1)
  then show ?thesis unfolding sbitmap_contents_def mem_Collect_eq by linarith
qed

text \<open>The subtrahend may be shorter or longer than the destination.\<close>

lemma sbitmap_difference_denotes:
  fixes dst a b :: "'w::len sbitmap"
  assumes "operand n dst" "operand n a" "sbitmap_wf b" "popcounts dst = None" "same \<Longrightarrow> dst = a"
  shows "\<exists>r. sbitmap_difference dst a b same = Some r \<and> denotes n (sbitmap_contents a - sbitmap_contents b) r"
proof -
  let ?N = "SBITMAP_SET_SIZE TYPE('w) n" and ?v = "elms a"
  let ?min = "min ?N (set_size b)"
  have a: "sbitmap_wf a" "n_bits a = n" and d: "sbitmap_wf dst" "n_bits dst = n"
    using assms by (simp_all add: operand_def)
  note wa = wf_words [OF a] and wd = wf_words [OF d]
  have lb: "length (elms b) = set_size b" using assms(3) by (simp add: sbitmap_wf_def)
  define ws where "ws = map2 (\<lambda>x y. x AND NOT y) (take ?min ?v) (take ?min (elms b))"
  have lws: "length ws = ?min" using wa(2) lb by (simp add: ws_def)
  have c: "combine2 (\<lambda>x y. x AND NOT y) ?min a b = Some ws"
    using wa(2) lb by (simp add: combine2_def words_of_map_def ws_def)
  let ?es = "ws @ drop ?min ?v"
  have "bit (?es ! k) j \<longleftrightarrow> k * LENGTH('w) + j \<in> sbitmap_contents a - sbitmap_contents b"
    if "k < ?N" "j < LENGTH('w)" for k j
  proof (cases "k < ?min")
    case True
    then show ?thesis
      using that contents_bit [OF a(1), of k j] contents_bit [OF assms(3), of k j] wa(2,3) lb lws
      by (simp add: nth_append ws_def bit_and_iff bit_not_iff)
  next
    case False
    then have "k * LENGTH('w) + j \<notin> sbitmap_contents b" using that(1) by (intro beyond_contents) linarith
    moreover have "?es ! k = ?v ! k" using False lws wa(2) that(1) by (simp add: nth_append)
    ultimately show ?thesis using that contents_bit [OF a(1), of k j] wa(3) by simp
  qed
  moreover have "sbitmap_contents a - sbitmap_contents b \<subseteq> {..<n}" using a by (auto simp: sbitmap_wf_def)
  ultimately have W: "words_for n (sbitmap_contents a - sbitmap_contents b) ?es"
    using lws wa(2,4) by (simp add: words_for_def)
  have "store dst (if \<not> same \<and> ?min \<noteq> ?N then ws @ drop ?min ?v else ws) = store dst ?es"
    using assms(5) lws wa(2) wd(2) by (cases same) (auto simp: store_def)
  then have "sbitmap_difference dst a b same = Some (store dst ?es)"
    using c wa wd(3) assms(4) by (simp add: sbitmap_difference_def no_popcount_def Let_def)
  then show ?thesis using store_denotes [OF d(1), of _ ?es] W assms(4) d(2) by simp
qed

section \<open>Tests\<close>

lemma words_for_zero:
  assumes "words_for n A (ws :: 'w::len word list)"
  shows "list_ex (\<lambda>w. w \<noteq> 0) ws \<longleftrightarrow> A \<noteq> {}"
proof -
  have "(\<forall>w \<in> set ws. w = 0) \<longleftrightarrow> A = {}"
  proof
    assume z: "\<forall>w \<in> set ws. w = 0"
    have "i \<notin> A" for i
    proof
      assume i: "i \<in> A"
      then have "i < n" using assms by (auto simp: words_for_def)
      from bit_index [OF assms this] have "ws ! (i div LENGTH('w)) \<in> set ws" "bit (ws ! (i div LENGTH('w))) (i mod LENGTH('w))"
        using i by simp_all
      with z show False by force
    qed
    then show "A = {}" by blast
  next
    assume "A = {}"
    then show "\<forall>w \<in> set ws. w = 0"
      using assms by (auto simp: words_for_def in_set_conv_nth intro!: bit_word_eqI)
  qed
  then show ?thesis by (auto simp: list_ex_iff)
qed

lemma sbitmap_tests:
  fixes a b :: "'w::len sbitmap"
  assumes "operand n a" "operand n b"
  shows "sbitmap_equal a b = Some (sbitmap_contents a = sbitmap_contents b)"
    and "sbitmap_a_subset_b_p a b = Some (sbitmap_contents a \<subseteq> sbitmap_contents b)"
    and "sbitmap_any_common_bits a b = Some (sbitmap_contents a \<inter> sbitmap_contents b \<noteq> {})"
proof -
  have a: "sbitmap_wf a" "n_bits a = n" and b: "sbitmap_wf b" "n_bits b = n"
    using assms by (simp_all add: operand_def)
  note A = wf_words [OF a] and B = wf_words [OF b]
  have "elms a = elms b \<longleftrightarrow> sbitmap_contents a = sbitmap_contents b"
    using contents_inject [OF a(1) b(1)] a(2) b(2) A(3) B(3)
    by (auto simp: sbitmap_contents_def TEST_BIT_def)
  then show "sbitmap_equal a b = Some (sbitmap_contents a = sbitmap_contents b)"
    using A B by (simp add: sbitmap_equal_def)
  obtain vs where vs: "combine2 (AND) (SBITMAP_SET_SIZE TYPE('w) n) a b = Some vs"
    "words_for n (sbitmap_contents a \<inter> sbitmap_contents b) vs"
    using op_words(1) [OF assms] by blast
  show "sbitmap_any_common_bits a b = Some (sbitmap_contents a \<inter> sbitmap_contents b \<noteq> {})"
    using vs(1) A(3) B(3) words_for_zero [OF vs(2)] by (simp add: sbitmap_any_common_bits_def)
  have orw: "x OR y = y \<longleftrightarrow> x AND NOT y = 0" for x y :: "'w word"
    by (auto simp: bit_eq_iff bit_simps)
  obtain ws where ws: "combine2 (\<lambda>x y. x AND NOT y) (SBITMAP_SET_SIZE TYPE('w) n) a b = Some ws"
    "words_for n (sbitmap_contents a - sbitmap_contents b) ws"
    using op_words(4) [OF assms] by blast
  have "list_all2 (\<lambda>x y. x OR y = y) (elms a) (elms b) \<longleftrightarrow> \<not> list_ex (\<lambda>w. w \<noteq> 0) ws"
    using ws(1) A B by (auto simp: combine2_def orw list_all2_iff list_ex_iff)
  then show "sbitmap_a_subset_b_p a b = Some (sbitmap_contents a \<subseteq> sbitmap_contents b)"
    using words_for_zero [OF ws(2)] A B by (auto simp: sbitmap_a_subset_b_p_def)
qed

section \<open>Resizing\<close>

lemma set_size_mono:
  "n \<le> n' \<Longrightarrow> bits_fit TYPE('w::len) n' \<Longrightarrow> SBITMAP_SET_SIZE TYPE('w) n \<le> SBITMAP_SET_SIZE TYPE('w) n'"
  by (simp add: set_size_ceil ceil_div_def div_le_mono)

lemma length_grow [simp]: "length xs \<le> n \<Longrightarrow> length (grow f n xs) = n"
  by (simp add: grow_def)

lemma nth_grow: "length xs \<le> n \<Longrightarrow> k < n \<Longrightarrow> grow f n xs ! k = (if k < length xs then xs ! k else f k)"
  by (auto simp: grow_def nth_append)

lemma map_grow: "length xs \<le> n \<Longrightarrow> map g (grow f n xs) = grow (g \<circ> f) n (map g xs)"
  by (simp add: grow_def)

lemma resize_clear:
  fixes m :: "'w::len sbitmap"
  assumes "operand n m" "n \<le> n'" "bits_fit TYPE('w) n'"
  shows "denotes n' (sbitmap_contents m) (sbitmap_resize pjunk m n' False)"
proof -
  have w: "sbitmap_wf m" and n: "n_bits m = n" using assms(1) by (simp_all add: operand_def)
  note W = wf_words [OF w n]
  let ?N = "SBITMAP_SET_SIZE TYPE('w) n'"
  have le: "length (elms m) \<le> ?N" using W(2) set_size_mono [OF assms(2,3)] by simp
  let ?r = "sbitmap_resize pjunk m n' False"
  have es: "elms ?r = grow (\<lambda>i. 0) ?N (elms m) \<and> n_bits ?r = n' \<and> set_size ?r = ?N
      \<and> popcounts ?r = map_option (grow (\<lambda>i. 0) ?N) (popcounts m)"
  proof (cases "n' = n")
    case True
    then show ?thesis using n W w
      by (cases "popcounts m") (auto simp: sbitmap_resize_def grow_def Let_def sbitmap_wf_def counts_ok_def)
  next
    case False
    then show ?thesis using n assms(2) by (simp add: sbitmap_resize_def Let_def)
  qed
  have "bit (grow (\<lambda>i. 0) ?N (elms m) ! k) j \<longleftrightarrow> k * LENGTH('w) + j \<in> sbitmap_contents m"
    if kj: "k < ?N" "j < LENGTH('w)" for k j
  proof (cases "k < length (elms m)")
    case True
    then show ?thesis using contents_bit [OF w _ kj(2), of k] W(2,3) kj(1) le by (simp add: nth_grow)
  next
    case False
    then have "k * LENGTH('w) + j \<notin> sbitmap_contents m" using W(2,3) by (intro beyond_contents) simp
    then show ?thesis using False kj(1) le by (simp add: nth_grow)
  qed
  then have "words_for n' (sbitmap_contents m) (elms ?r)"
    using es le w n assms(2,3) by (auto simp: words_for_def sbitmap_wf_def)
  moreover have "counts_ok ?r"
    using es w le map_grow [OF le, of "\<lambda>w. of_nat (do_popcount w) :: 8 word" "\<lambda>i. 0"]
    by (auto simp: counts_ok_def sbitmap_wf_def comp_def split: option.splits)
  ultimately show ?thesis
    using words_for_wf [of ?r "sbitmap_contents m"] es le by (simp add: denotes_def)
qed

lemma resize_set:
  fixes m :: "'w::len sbitmap"
  assumes "operand n m" "n < n'" "popcounts m = None" "bits_fit TYPE('w) n'"
  shows "denotes n' (sbitmap_contents m \<union> {n..<n'}) (sbitmap_resize pjunk m n' True)"
proof -
  have w: "sbitmap_wf m" and n: "n_bits m = n" using assms(1) by (simp_all add: operand_def)
  note W = wf_words [OF w n]
  let ?N = "SBITMAP_SET_SIZE TYPE('w) n'" and ?r = "sbitmap_resize pjunk m n' True"
  have le: "length (elms m) \<le> ?N" using W(2) set_size_mono [of n n', OF _ assms(4)] assms(2) by simp
  let ?es = "grow (\<lambda>i. - 1) ?N (elms m)"
  define es1 where "es1 = (if n mod LENGTH('w) \<noteq> 0
    then ?es[set_size m - 1 := ?es ! (set_size m - 1) OR NOT (low_ones (n mod LENGTH('w)))] else ?es)"
  have es: "elms ?r = cut_last n' es1 \<and> n_bits ?r = n' \<and> set_size ?r = ?N \<and> popcounts ?r = None"
    using n assms(2,3) le by (simp add: sbitmap_resize_def Let_def es1_def cut_last_def)
  have "bit (es1 ! k) j \<longleftrightarrow> k * LENGTH('w) + j \<in> sbitmap_contents m \<union> {n..<n'}"
    if kj: "k < ?N" "j < LENGTH('w)" "k * LENGTH('w) + j < n'" for k j
  proof (cases "k < set_size m")
    case False
    then have "n div LENGTH('w) < k \<or> n div LENGTH('w) = k \<and> n mod LENGTH('w) = 0"
      using W(3) set_size_last [OF W(4)] set_size_exact [OF W(4)] by (cases "n mod LENGTH('w) = 0") auto
    then have "\<not> k * LENGTH('w) + j < n" using last_word_index [OF kj(2), of k n] by auto
    moreover have "es1 ! k = - 1" using False kj(1) le W by (auto simp: es1_def nth_grow nth_list_update)
    ultimately show ?thesis using kj by simp
  next
    case True
    have old: "bit (elms m ! k) j \<longleftrightarrow> k * LENGTH('w) + j \<in> sbitmap_contents m"
      by (rule contents_bit [OF w True kj(2)])
    have b: "k * LENGTH('w) + j \<in> sbitmap_contents m \<Longrightarrow> k * LENGTH('w) + j < n"
      using w n by (auto simp: sbitmap_wf_def)
    have l: "bit (NOT (low_ones (n mod LENGTH('w))) :: 'w word) j \<longleftrightarrow> \<not> j < n mod LENGTH('w)"
      using kj(2) bit_low_ones [of "n mod LENGTH('w)" j, where 'w = 'w] by (simp add: bit_not_iff less_imp_le)
    show ?thesis
    proof (cases "n mod LENGTH('w) \<noteq> 0 \<and> k = set_size m - 1")
      case last: True
      then have "k = n div LENGTH('w)" using W(3) set_size_last [OF W(4)] by simp
      then have "k * LENGTH('w) + j < n \<longleftrightarrow> j < n mod LENGTH('w)"
        using last_word_index [OF kj(2), of k n] by simp
      moreover have "es1 ! k = elms m ! k OR NOT (low_ones (n mod LENGTH('w)))"
        using last True kj(1) W(2,3) le by (simp add: es1_def nth_grow)
      ultimately show ?thesis using old b l kj(3) by (auto simp: bit_or_iff)
    next
      case False
      then have "k < n div LENGTH('w)"
        using True W(3) set_size_last [OF W(4)] set_size_exact [OF W(4)] by (cases "n mod LENGTH('w) = 0") auto
      then have "k * LENGTH('w) + j < n" using last_word_index [OF kj(2), of k n] by simp
      moreover have "es1 ! k = elms m ! k"
        using False True kj(1) W(2,3) le by (auto simp: es1_def nth_grow nth_list_update)
      ultimately show ?thesis using old by simp
    qed
  qed
  moreover have "length es1 = ?N" using le by (simp add: es1_def)
  moreover have "sbitmap_contents m \<union> {n..<n'} \<subseteq> {..<n'}" using w n assms(2) by (auto simp: sbitmap_wf_def)
  ultimately have "words_for n' (sbitmap_contents m \<union> {n..<n'}) (elms ?r)"
    using es assms(4) by (simp only: words_for_cut)
  then show ?thesis
    using words_for_wf [of ?r "sbitmap_contents m \<union> {n..<n'}"] es \<open>length es1 = ?N\<close>
    by (simp add: denotes_def counts_ok_def)
qed

lemma resize_shrink:
  fixes m :: "'w::len sbitmap"
  assumes "operand n m" "n' \<le> n"
  shows "denotes n' (sbitmap_contents m \<inter> {..<n'}) (sbitmap_resize pjunk m n' def)"
proof -
  have w: "sbitmap_wf m" and n: "n_bits m = n" using assms(1) by (simp_all add: operand_def)
  note W = wf_words [OF w n]
  let ?N = "SBITMAP_SET_SIZE TYPE('w) n'" and ?r = "sbitmap_resize pjunk m n' def"
  let ?c = "\<lambda>w :: 'w word. of_nat (do_popcount w) :: 8 word"
  have le: "?N \<le> length (elms m)" using W(2) set_size_mono [OF assms(2) W(4)] by simp
  have fits: "bits_fit TYPE('w) n'" using assms(2) W(4) by simp
  have bits: "bit (take ?N (elms m) ! k) j \<longleftrightarrow> k * LENGTH('w) + j \<in> sbitmap_contents m"
    if "k < ?N" "j < LENGTH('w)" for k j
    using that contents_bit [OF w _ that(2), of k] W le by simp
  have es: "words_for n' (sbitmap_contents m \<inter> {..<n'}) (elms ?r) \<and> n_bits ?r = n' \<and> set_size ?r = ?N
    \<and> counts_ok ?r"
  proof (cases "n' < n")
    case True
    have "elms ?r = cut_last n' (take ?N (elms m))"
      using True n le by (simp add: sbitmap_resize_def Let_def cut_last_def)
    moreover have "words_for n' (sbitmap_contents m \<inter> {..<n'}) (cut_last n' (take ?N (elms m)))"
      using le bits fits by (intro words_for_cut) auto
    moreover have "0 < n' mod LENGTH('w) \<Longrightarrow> ?N - Suc 0 < ?N"
      using set_size_last [OF fits] by simp
    then have "counts_ok ?r"
      using True n w le
      by (auto simp: counts_ok_def sbitmap_wf_def sbitmap_resize_def Let_def take_map map_update split: option.splits)
    ultimately show ?thesis using True n by (simp add: sbitmap_resize_def Let_def)
  next
    case False
    then have "n' = n" using assms(2) by simp
    moreover have "sbitmap_contents m \<inter> {..<n} = sbitmap_contents m" using w n by (auto simp: sbitmap_wf_def)
    ultimately show ?thesis using n w W words_for_elms [OF w]
      by (cases "popcounts m") (auto simp: sbitmap_resize_def Let_def counts_ok_def sbitmap_wf_def)
  qed
  then show ?thesis
    using words_for_wf [of ?r "sbitmap_contents m \<inter> {..<n'}"] by (simp add: denotes_def words_for_def)
qed

end
