(* ===== verification/SbitmapIter.thy ===== *)
theory SbitmapIter
  imports SbitmapOps
begin

text \<open>
  Walking over a bitmap: the iterator of \<open>gcc/sbitmap.h\<close>, and the searches, counts and dumps of
  \<open>gcc/sbitmap.c\<close>.
\<close>

section \<open>The iterator\<close>

record (overloaded) 'w sbitmap_iterator =
  it_ptr :: "'w word list"
  it_size :: nat
  word_num :: nat
  bit_num :: nat
  it_word :: "'w word"

definition sbitmap_iter_init :: "'w::len sbitmap \<Rightarrow> nat \<Rightarrow> 'w sbitmap_iterator" where
  "sbitmap_iter_init bmp start =
    (let wn = start div LENGTH('w)
     in \<lparr>it_ptr = elms bmp, it_size = set_size bmp, word_num = wn, bit_num = start,
         it_word = (if wn \<ge> set_size bmp then 0 else drop_bit (start mod LENGTH('w)) (elms bmp ! wn))\<rparr>)"

text \<open>The loop that skips words that are zero; \<open>None\<close> is the end of the bitmap.\<close>

function skip_zero_words :: "'w::len sbitmap_iterator \<Rightarrow> 'w sbitmap_iterator option" where
  "skip_zero_words i =
    (if it_word i \<noteq> 0 then Some i
     else
       let wn = Suc (word_num i)
       in if wn \<ge> it_size i then None
          else skip_zero_words (i\<lparr>word_num := wn, bit_num := wn * LENGTH('w), it_word := it_ptr i ! wn\<rparr>))"
  by pat_completeness auto
termination
  by (relation "measure (\<lambda>i. it_size i - word_num i)") auto

lemma drop_bit_1_less: "(w :: 'w::len word) \<noteq> 0 \<Longrightarrow> unat (drop_bit 1 w) < unat w"
proof -
  assume "w \<noteq> 0"
  then have "0 < unat w" by (simp add: unat_gt_0)
  moreover have "unat (drop_bit 1 w) = drop_bit 1 (unat w)" by (rule unat_drop_bit_eq)
  then have "unat (drop_bit 1 w) = unat w div 2" by (simp only: drop_bit_eq_div power_one_right)
  ultimately show ?thesis by simp
qed

text \<open>The loop that skips bits that are zero; it is entered with a word that has a bit.\<close>

function skip_zero_bits :: "'w::len sbitmap_iterator \<Rightarrow> 'w sbitmap_iterator" where
  "skip_zero_bits i =
    (if it_word i = 0 \<or> bit (it_word i) 0 then i
     else skip_zero_bits (i\<lparr>it_word := drop_bit 1 (it_word i), bit_num := Suc (bit_num i)\<rparr>))"
  by pat_completeness auto
termination
  by (relation "measure (\<lambda>i. unat (it_word i))") (auto dest: drop_bit_1_less)

declare skip_zero_words.simps [simp del] skip_zero_bits.simps [simp del]

definition sbitmap_iter_cond :: "'w::len sbitmap_iterator \<Rightarrow> (nat \<times> 'w sbitmap_iterator) option" where
  "sbitmap_iter_cond i =
    (case skip_zero_words i of
       None \<Rightarrow> None
     | Some i \<Rightarrow> let i = skip_zero_bits i in Some (bit_num i, i))"

definition sbitmap_iter_next :: "'w::len sbitmap_iterator \<Rightarrow> 'w sbitmap_iterator" where
  "sbitmap_iter_next i = i\<lparr>it_word := drop_bit 1 (it_word i), bit_num := Suc (bit_num i)\<rparr>"

text \<open>What the loops leave: the later words, and a word that is not longer.\<close>

lemma skip_zero_words_rest:
  "skip_zero_words i = Some i' \<Longrightarrow>
    it_word i' \<noteq> 0 \<and> it_size i' = it_size i \<and> it_ptr i' = it_ptr i
    \<and> (i' = i \<or> it_word i = 0 \<and> word_num i < word_num i' \<and> word_num i' < it_size i)"
proof (induction i rule: skip_zero_words.induct)
  case (1 i)
  let ?i = "i\<lparr>word_num := Suc (word_num i), bit_num := Suc (word_num i) * LENGTH('a), it_word := it_ptr i ! Suc (word_num i)\<rparr>"
  show ?case
  proof (cases "it_word i = 0 \<and> Suc (word_num i) < it_size i")
    case True
    then have "skip_zero_words ?i = Some i'"
      using "1.prems" by (simp add: skip_zero_words.simps [of i] Let_def)
    then show ?thesis using "1.IH" [of "Suc (word_num i)"] True by auto
  next
    case False
    then show ?thesis using "1.prems" by (auto simp: skip_zero_words.simps [of i] Let_def split: if_splits)
  qed
qed

lemma skip_zero_bits_rest:
  "word_num (skip_zero_bits i) = word_num i \<and> it_size (skip_zero_bits i) = it_size i
   \<and> it_ptr (skip_zero_bits i) = it_ptr i \<and> unat (it_word (skip_zero_bits i)) \<le> unat (it_word i)
   \<and> (it_word i \<noteq> 0 \<longrightarrow> it_word (skip_zero_bits i) \<noteq> 0 \<and> bit (it_word (skip_zero_bits i)) 0)"
proof (induction i rule: skip_zero_bits.induct)
  case (1 i)
  show ?case
  proof (cases "it_word i = 0 \<or> bit (it_word i) 0")
    case True
    then show ?thesis by (auto simp: skip_zero_bits.simps [of i])
  next
    case False
    let ?i = "i\<lparr>it_word := drop_bit 1 (it_word i), bit_num := Suc (bit_num i)\<rparr>"
    have "drop_bit 1 (it_word i) \<noteq> 0"
    proof
      assume "drop_bit 1 (it_word i) = 0"
      then have "bit (it_word i) (Suc n) = False" for n
        by (metis bit_0_eq bit_drop_bit_eq bot_apply bot_bool_def comp_apply plus_1_eq_Suc)
      then have "it_word i = 0" using False by (intro bit_word_eqI) (metis bit_0_eq bot_apply bot_bool_def not0_implies_Suc)
      then show False using False by simp
    qed
    moreover have "unat (drop_bit 1 (it_word i)) < unat (it_word i)" using False by (intro drop_bit_1_less) simp
    ultimately show ?thesis using "1.IH" [OF False] False by (simp add: skip_zero_bits.simps [of i])
  qed
qed

text \<open>The \<open>EXECUTE_IF_SET_IN_SBITMAP\<close> loop: the numbers it gives to its body.\<close>

function bits_from :: "'w::len sbitmap_iterator \<Rightarrow> nat list" where
  "bits_from i =
    (case sbitmap_iter_cond i of
       None \<Rightarrow> []
     | Some (n, i') \<Rightarrow> n # bits_from (sbitmap_iter_next i'))"
  by pat_completeness auto

termination
proof (relation "measures [\<lambda>i. it_size i - word_num i, \<lambda>i. unat (it_word i)]")
  fix i :: "'w::len sbitmap_iterator" and x n i'
  assume "sbitmap_iter_cond i = Some x" "(n, i') = x"
  then obtain j where j: "skip_zero_words i = Some j" "i' = skip_zero_bits j"
    by (auto simp: sbitmap_iter_cond_def Let_def split: option.splits)
  note r = skip_zero_words_rest [OF j(1)] and b = skip_zero_bits_rest [of j]
  have "unat (drop_bit 1 (it_word i')) < unat (it_word j)"
    using drop_bit_1_less [of "it_word i'"] r b j(2) by simp
  then show "(sbitmap_iter_next i', i) \<in> measures [\<lambda>i. it_size i - word_num i, \<lambda>i. unat (it_word i)]"
    using r b j(2) by (auto simp: sbitmap_iter_next_def)
qed simp

declare bits_from.simps [simp del]

definition EXECUTE_IF_SET_IN_SBITMAP :: "'w::len sbitmap \<Rightarrow> nat \<Rightarrow> nat list" where
  "EXECUTE_IF_SET_IN_SBITMAP bmp start = bits_from (sbitmap_iter_init bmp start)"

text \<open>The invariant: the current word is what remains of the element the iterator is in. The
  numbers still to come are those from \<open>bit_num\<close> on.\<close>

definition iter_ok :: "'w::len sbitmap \<Rightarrow> 'w sbitmap_iterator \<Rightarrow> bool" where
  "iter_ok m i \<longleftrightarrow>
    it_ptr i = elms m \<and> it_size i = set_size m \<and> word_num i * LENGTH('w) \<le> bit_num i
    \<and> (if word_num i < set_size m then
         bit_num i \<le> Suc (word_num i) * LENGTH('w)
         \<and> it_word i = drop_bit (bit_num i - word_num i * LENGTH('w)) (elms m ! word_num i)
       else it_word i = 0)"

definition to_come :: "'w::len sbitmap \<Rightarrow> 'w sbitmap_iterator \<Rightarrow> nat set" where
  "to_come m i = {n \<in> sbitmap_contents m. bit_num i \<le> n}"

lemma iter_ok_init: "iter_ok (m :: 'w::len sbitmap) (sbitmap_iter_init m start)"
proof -
  have "start div LENGTH('w) * LENGTH('w) \<le> start" "start < Suc (start div LENGTH('w)) * LENGTH('w)"
    using dividend_less_div_times [of "LENGTH('w)" start] by simp_all
  moreover have "start - start div LENGTH('w) * LENGTH('w) = start mod LENGTH('w)"
    by (simp add: minus_div_mult_eq_mod)
  ultimately show ?thesis by (auto simp: iter_ok_def sbitmap_iter_init_def Let_def)
qed

text \<open>A bit of the current word is a number to come.\<close>

lemma iter_bit:
  assumes "sbitmap_wf m" "iter_ok m (i :: 'w::len sbitmap_iterator)" "word_num i < set_size m"
    and "bit_num i + j < Suc (word_num i) * LENGTH('w)"
  shows "bit (it_word i) j \<longleftrightarrow> bit_num i + j \<in> sbitmap_contents m"
proof -
  let ?d = "bit_num i - word_num i * LENGTH('w)"
  have le: "word_num i * LENGTH('w) \<le> bit_num i" using assms(2) by (simp add: iter_ok_def)
  have "it_word i = drop_bit ?d (elms m ! word_num i)" using assms(2,3) by (simp add: iter_ok_def)
  moreover have "?d + j < LENGTH('w)" using assms(4) le by simp
  moreover have "word_num i * LENGTH('w) + (?d + j) = bit_num i + j" using le by simp
  ultimately show ?thesis using contents_bit [OF assms(1,3), of "?d + j"] by (simp add: bit_drop_bit_eq)
qed

lemma iter_word_zero:
  assumes "sbitmap_wf m" "iter_ok m (i :: 'w::len sbitmap_iterator)" "it_word i = 0" "n \<in> to_come m i"
  shows "Suc (word_num i) * LENGTH('w) \<le> n" "word_num i < set_size m"
proof -
  have n: "n \<in> sbitmap_contents m" "bit_num i \<le> n" using assms(4) by (auto simp: to_come_def)
  have "n < set_size m * LENGTH('w)" using n(1) by (simp add: sbitmap_contents_def)
  moreover have "word_num i * LENGTH('w) \<le> n" using assms(2) n(2) by (simp add: iter_ok_def)
  ultimately have "word_num i * LENGTH('w) < set_size m * LENGTH('w)" by linarith
  then show w: "word_num i < set_size m" by simp
  show "Suc (word_num i) * LENGTH('w) \<le> n"
  proof (rule ccontr)
    assume "\<not> ?thesis"
    then have "bit_num i + (n - bit_num i) < Suc (word_num i) * LENGTH('w)" using n(2) by simp
    then show False using iter_bit [OF assms(1,2) w, of "n - bit_num i"] n assms(3) by simp
  qed
qed

lemma skip_zero_words_ok:
  fixes i :: "'w::len sbitmap_iterator"
  assumes "sbitmap_wf m" "iter_ok m i"
  shows "case skip_zero_words i of
      None \<Rightarrow> to_come m i = {}
    | Some i' \<Rightarrow> iter_ok m i' \<and> word_num i' < set_size m \<and> it_word i' \<noteq> 0 \<and> to_come m i' = to_come m i"
  using assms(2)
proof (induction i rule: skip_zero_words.induct)
  case (1 i)
  have size: "it_size i = set_size m" "it_ptr i = elms m" using "1.prems" by (simp_all add: iter_ok_def)
  show ?case
  proof (cases "it_word i = 0")
    case False
    then have "word_num i < set_size m" using "1.prems" by (auto simp: iter_ok_def split: if_splits)
    then show ?thesis using False "1.prems" by (simp add: skip_zero_words.simps [of i])
  next
    case True
    note Z = iter_word_zero [OF assms(1) "1.prems" True]
    show ?thesis
    proof (cases "Suc (word_num i) < set_size m")
      case False
      have "n \<notin> to_come m i" for n
      proof
        assume n: "n \<in> to_come m i"
        then have "n < set_size m * LENGTH('w)" by (simp add: to_come_def sbitmap_contents_def)
        moreover have "set_size m * LENGTH('w) \<le> Suc (word_num i) * LENGTH('w)" using False by (intro mult_le_mono1) simp
        ultimately show False using Z(1) [OF n] by linarith
      qed
      then show ?thesis using True False size by (simp add: skip_zero_words.simps [of i] Let_def set_eq_iff)
    next
      case more: True
      let ?i = "i\<lparr>word_num := Suc (word_num i), bit_num := Suc (word_num i) * LENGTH('w), it_word := it_ptr i ! Suc (word_num i)\<rparr>"
      have ok: "iter_ok m ?i" using more size by (simp add: iter_ok_def)
      have "bit_num i \<le> Suc (word_num i) * LENGTH('w)" using "1.prems" more by (auto simp: iter_ok_def split: if_splits)
      then have come: "to_come m ?i = to_come m i" using Z(1) by (auto simp: to_come_def)
      have "skip_zero_words i = skip_zero_words ?i"
        using True more size by (simp add: skip_zero_words.simps [of i] Let_def)
      moreover have "\<not> it_size i \<le> Suc (word_num i)" using more size by simp
      note "1.IH" [OF _ refl this ok]
      ultimately show ?thesis unfolding come using True by simp
    qed
  qed
qed

lemma iter_ok_advance:
  fixes i :: "'w::len sbitmap_iterator"
  assumes "iter_ok m i" "word_num i < set_size m" "it_word i \<noteq> 0"
  shows "iter_ok m (i\<lparr>it_word := drop_bit 1 (it_word i), bit_num := Suc (bit_num i)\<rparr>)"
    and "bit_num i < Suc (word_num i) * LENGTH('w)"
proof -
  let ?d = "bit_num i - word_num i * LENGTH('w)"
  have i: "word_num i * LENGTH('w) \<le> bit_num i" "bit_num i \<le> Suc (word_num i) * LENGTH('w)"
    "it_word i = drop_bit ?d (elms m ! word_num i)"
    using assms(1,2) by (auto simp: iter_ok_def)
  show lt: "bit_num i < Suc (word_num i) * LENGTH('w)"
  proof (rule ccontr)
    assume "\<not> ?thesis"
    then have "LENGTH('w) \<le> ?d" using i(2) by simp
    then have "it_word i = 0"
      unfolding i(3) by (intro bit_word_eqI) (auto simp: bit_drop_bit_eq dest: bit_imp_le_length)
    then show False using assms(3) by simp
  qed
  have "Suc (bit_num i) - word_num i * LENGTH('w) = Suc ?d" using i(1) by simp
  moreover have "drop_bit 1 (it_word i) = drop_bit (Suc ?d) (elms m ! word_num i)"
    unfolding i(3) by simp
  ultimately show "iter_ok m (i\<lparr>it_word := drop_bit 1 (it_word i), bit_num := Suc (bit_num i)\<rparr>)"
    using assms(1,2) lt i(1) by (simp add: iter_ok_def)
qed

lemma skip_zero_bits_ok:
  fixes i :: "'w::len sbitmap_iterator"
  assumes "sbitmap_wf m" "iter_ok m i" "word_num i < set_size m" "it_word i \<noteq> 0"
  shows "iter_ok m (skip_zero_bits i) \<and> to_come m (skip_zero_bits i) = to_come m i"
  using assms(2-4)
proof (induction i rule: skip_zero_bits.induct)
  case (1 i)
  show ?case
  proof (cases "bit (it_word i) 0")
    case True
    then show ?thesis using "1.prems" by (simp add: skip_zero_bits.simps [of i])
  next
    case False
    let ?i = "i\<lparr>it_word := drop_bit 1 (it_word i), bit_num := Suc (bit_num i)\<rparr>"
    note A = iter_ok_advance [OF "1.prems"]
    have "bit_num i \<notin> sbitmap_contents m"
      using iter_bit [OF assms(1) "1.prems"(1,2), of 0] A(2) False by simp
    then have "to_come m ?i = to_come m i" by (auto simp: to_come_def Suc_le_eq order_le_less)
    moreover have "skip_zero_bits i = skip_zero_bits ?i" using False "1.prems"(3) by (simp add: skip_zero_bits.simps [of i])
    moreover have "it_word ?i \<noteq> 0"
      using skip_zero_bits_rest [of i] "1.prems"(3) calculation(2)
      by (metis (no_types, lifting) bit_0_eq bot_apply bot_bool_def skip_zero_bits.simps)
    moreover have "word_num ?i < set_size m" using "1.prems"(2) by simp
    ultimately show ?thesis using "1.IH" [OF _ A(1)] False "1.prems"(3) by simp
  qed
qed

lemma iter_cond_ok:
  fixes i :: "'w::len sbitmap_iterator"
  assumes "sbitmap_wf m" "iter_ok m i"
  shows "case sbitmap_iter_cond i of
      None \<Rightarrow> to_come m i = {}
    | Some (n, i') \<Rightarrow> n \<in> to_come m i \<and> (\<forall>k \<in> to_come m i. n \<le> k)
        \<and> iter_ok m (sbitmap_iter_next i') \<and> to_come m (sbitmap_iter_next i') = to_come m i - {n}"
proof (cases "skip_zero_words i")
  case None
  then show ?thesis using skip_zero_words_ok [OF assms] by (simp add: sbitmap_iter_cond_def)
next
  case (Some j)
  then have j: "iter_ok m j" "word_num j < set_size m" "it_word j \<noteq> 0" "to_come m j = to_come m i"
    using skip_zero_words_ok [OF assms] by simp_all
  let ?k = "skip_zero_bits j"
  note B = skip_zero_bits_ok [OF assms(1) j(1-3)] and R = skip_zero_bits_rest [of j]
  have k: "iter_ok m ?k" "word_num ?k < set_size m" "it_word ?k \<noteq> 0" "bit (it_word ?k) 0" "to_come m ?k = to_come m i"
    using B R j by simp_all
  note A = iter_ok_advance [OF k(1-3)]
  have "bit_num ?k \<in> sbitmap_contents m" using iter_bit [OF assms(1) k(1,2), of 0] A(2) k(4) by simp
  then have "bit_num ?k \<in> to_come m ?k" by (simp add: to_come_def)
  moreover have "\<forall>n \<in> to_come m ?k. bit_num ?k \<le> n" by (simp add: to_come_def)
  moreover have "to_come m (sbitmap_iter_next ?k) = to_come m ?k - {bit_num ?k}"
    by (auto simp: to_come_def sbitmap_iter_next_def)
  ultimately show ?thesis using Some A(1) k(5) by (simp add: sbitmap_iter_cond_def Let_def sbitmap_iter_next_def)
qed

lemma finite_members: "finite (sbitmap_contents m)"
  by (rule finite_subset [of _ "{..<set_size m * LENGTH('a)}"]) (auto simp: sbitmap_contents_def)

lemma bits_from_sorted:
  fixes i :: "'w::len sbitmap_iterator"
  assumes "sbitmap_wf m" "iter_ok m i"
  shows "bits_from i = sorted_list_of_set (to_come m i)"
  using assms(2)
proof (induction i rule: bits_from.induct)
  case (1 i)
  show ?case
  proof (cases "sbitmap_iter_cond i")
    case None
    then show ?thesis using iter_cond_ok [OF assms(1) "1.prems"] by (simp add: bits_from.simps [of i])
  next
    case (Some a)
    obtain n j where a: "a = (n, j)" by fastforce
    note C = iter_cond_ok [OF assms(1) "1.prems", unfolded Some a option.case prod.case]
    have fin: "finite (to_come m i)" by (rule finite_subset [OF _ finite_members [of m]]) (auto simp: to_come_def)
    have "Min (to_come m i) = n" using C fin by (intro Min_eqI) auto
    then have "sorted_list_of_set (to_come m i) = n # sorted_list_of_set (to_come m i - {n})"
      using C fin sorted_list_of_set_nonempty [of "to_come m i"] by auto
    moreover have "bits_from (sbitmap_iter_next j) = sorted_list_of_set (to_come m (sbitmap_iter_next j))"
      using "1.IH" [OF Some] a C by simp
    ultimately show ?thesis using C Some a by (simp add: bits_from.simps [of i])
  qed
qed

section \<open>Searches\<close>

text \<open>Both searches return an \<open>unsigned int\<close> as an \<open>int\<close>, which has 32 bits like the
  \<open>HOST_WIDE_INT\<close> of the host.\<close>

definition int_of_unsigned :: "nat \<Rightarrow> int" where
  "int_of_unsigned n = hwi (int n)"

lemma int_of_unsigned: "n < 2 ^ 31 \<Longrightarrow> int_of_unsigned n = int n"
  by (simp add: int_of_unsigned_def hwi_small in_hwi_def)

definition sbitmap_first_set_bit :: "'w::len sbitmap \<Rightarrow> int" where
  "sbitmap_first_set_bit bmap =
    (case sbitmap_iter_cond (sbitmap_iter_init bmap 0) of None \<Rightarrow> - 1 | Some (n, _) \<Rightarrow> int_of_unsigned n)"

text \<open>The \<open>while (1)\<close> over the mask, which ends because the word has a bit.\<close>

function top_bit_loop :: "'w::len word \<Rightarrow> 'w word \<Rightarrow> nat \<Rightarrow> nat" where
  "top_bit_loop word msk index =
    (if word AND msk \<noteq> 0 \<or> msk = 0 then index else top_bit_loop word (drop_bit 1 msk) (index - 1))"
  by pat_completeness auto
termination
  by (relation "measure (\<lambda>(word, msk, index). unat msk)") (auto dest: drop_bit_1_less)

declare top_bit_loop.simps [simp del]

fun last_word_loop :: "'w::len sbitmap \<Rightarrow> nat \<Rightarrow> int" where
  "last_word_loop bmap 0 = - 1"
| "last_word_loop bmap (Suc i) =
    (let word = elms bmap ! i
     in if word \<noteq> 0
        then int_of_unsigned (top_bit_loop word (push_bit (LENGTH('w) - 1) 1) (Suc i * LENGTH('w) - 1))
        else last_word_loop bmap i)"

definition sbitmap_last_set_bit :: "'w::len sbitmap \<Rightarrow> int" where
  "sbitmap_last_set_bit bmap = last_word_loop bmap (set_size bmap)"

section \<open>Counting\<close>

definition sbitmap_popcount :: "'w::len sbitmap \<Rightarrow> nat \<Rightarrow> nat" where
  "sbitmap_popcount a maxbit =
    (if maxbit = 0 then 0
     else
       let maxbit = (if maxbit \<ge> n_bits a then n_bits a else maxbit);
           lastword = min (set_size a) (SBITMAP_SET_SIZE TYPE('w) (maxbit + 1) - 1);
           count = sum_list (map (\<lambda>ix. case popcounts a of Some pc \<Rightarrow> unat (pc ! ix)
                                           | None \<Rightarrow> do_popcount (elms a ! ix)) [0..<lastword])
       in if lastword < set_size a then
            let bitindex = maxbit mod LENGTH('w)
            in if bitindex \<noteq> 0 then count + do_popcount (elms a ! lastword AND low_ones bitindex) else count
          else count)"

section \<open>Dumps\<close>

definition dump_sbitmap :: "'w::len sbitmap \<Rightarrow> string" where
  "dump_sbitmap bmap =
    ''  '' @ concat (map (\<lambda>n. (if n \<noteq> 0 \<and> n mod 10 = 0 then '' '' else [])
       @ dec (of_bool (elms bmap ! (n div LENGTH('w)) AND push_bit (n mod LENGTH('w)) 1 \<noteq> 0)))
     [0..<min (n_bits bmap) (set_size bmap * LENGTH('w))]) @ [CHR 0x0A]"

text \<open>The line breaks of \<open>dump_sbitmap_file\<close>: the position after each number is an estimate.\<close>

fun dump_numbers :: "nat list \<Rightarrow> nat \<Rightarrow> string" where
  "dump_numbers [] pos = []"
| "dump_numbers (i # is) pos =
    (let brk = pos > 70;
         pos = (if brk then 0 else pos) + 2 + of_bool (i \<ge> 10) + of_bool (i \<ge> 100) + of_bool (i \<ge> 1000)
     in (if brk then [CHR 0x0A] @ ''  '' else []) @ dec (int i) @ '' '' @ dump_numbers is pos)"

definition dump_sbitmap_file :: "'w::len sbitmap \<Rightarrow> string" where
  "dump_sbitmap_file bmap =
    ''n_bits = '' @ dec (int (n_bits bmap)) @ '', set = {''
      @ dump_numbers (filter (TEST_BIT bmap) [0..<n_bits bmap]) 30 @ ''}'' @ [CHR 0x0A]"

definition dump_sbitmap_vector :: "string \<Rightarrow> string \<Rightarrow> 'w::len sbitmap list \<Rightarrow> string" where
  "dump_sbitmap_vector title subtitle bmaps =
    title @ [CHR 0x0A]
    @ concat (map (\<lambda>(bb, m). subtitle @ '' '' @ dec (int bb) @ [CHR 0x0A] @ dump_sbitmap m) (enumerate 0 bmaps))
    @ [CHR 0x0A]"

section \<open>What they compute\<close>

lemma bit_and_push: "j < LENGTH('w) \<Longrightarrow> (w :: 'w::len word) AND push_bit j 1 \<noteq> 0 \<longleftrightarrow> bit w j"
  by (metis and_exp_eq_0_iff_not_bit push_bit_of_1)

lemma top_bit_loop:
  assumes "\<exists>j \<le> k. bit (w :: 'w::len word) j" "k < LENGTH('w)"
  shows "\<exists>j \<le> k. bit w j \<and> (\<forall>l \<le> k. bit w l \<longrightarrow> l \<le> j) \<and> top_bit_loop w (push_bit k 1) (b + k) = b + j"
  using assms
proof (induction k)
  case 0
  then show ?case using bit_and_push [of 0 w] by (auto simp: top_bit_loop.simps [of w 1])
next
  case (Suc k)
  have step: "top_bit_loop w (push_bit (Suc k) 1) (b + Suc k) =
      (if bit w (Suc k) then b + Suc k else top_bit_loop w (push_bit k 1) (b + k))"
  proof -
    have "push_bit (Suc k) (1 :: 'w word) \<noteq> 0"
      using push_bit_1_bit [OF Suc.prems(2), of "Suc k"] by auto
    moreover have "drop_bit 1 (push_bit (Suc k) (1 :: 'w word)) = push_bit k 1"
    proof (rule bit_word_eqI)
      fix n
      show "bit (drop_bit 1 (push_bit (Suc k) (1 :: 'w word))) n \<longleftrightarrow> bit (push_bit k (1 :: 'w word)) n"
        unfolding bit_drop_bit_eq comp_def
        using push_bit_1_bit [OF Suc.prems(2)] push_bit_1_bit [where 'w = 'w, of k] Suc.prems(2)
        by (simp only: Suc_lessD) auto
    qed
    ultimately show ?thesis
      using bit_and_push [OF Suc.prems(2), of w]
      by (subst top_bit_loop.simps) (simp del: push_bit_of_1)
  qed
  show ?case
  proof (cases "bit w (Suc k)")
    case True
    then show ?thesis using step by auto
  next
    case False
    then have ex: "\<exists>j \<le> k. bit w j" using Suc.prems(1) le_Suc_eq by metis
    obtain j where j: "j \<le> k" "bit w j" "\<forall>l \<le> k. bit w l \<longrightarrow> l \<le> j"
      "top_bit_loop w (push_bit k 1) (b + k) = b + j"
      using Suc.IH [OF ex] Suc.prems(2) by auto
    then have "\<forall>l \<le> Suc k. bit w l \<longrightarrow> l \<le> j" using False le_Suc_eq by metis
    then show ?thesis using j step False by (intro exI [of _ j]) simp
  qed
qed

lemma last_word_loop:
  fixes m :: "'w::len sbitmap"
  assumes "sbitmap_wf m" "k \<le> set_size m"
  shows "last_word_loop m k =
    (if {n \<in> sbitmap_contents m. n < k * LENGTH('w)} = {} then - 1
     else int_of_unsigned (Max {n \<in> sbitmap_contents m. n < k * LENGTH('w)}))"
  using assms(2)
proof (induction k)
  case (Suc i)
  let ?S = "\<lambda>k. {n \<in> sbitmap_contents m. n < k * LENGTH('w)}"
  have bits: "bit (elms m ! i) j \<longleftrightarrow> i * LENGTH('w) + j \<in> sbitmap_contents m" if "j < LENGTH('w)" for j
    using contents_bit [OF assms(1) _ that, of i] Suc.prems by simp
  have split: "n \<in> ?S (Suc i) \<longleftrightarrow> n \<in> ?S i \<or> (\<exists>j < LENGTH('w). bit (elms m ! i) j \<and> n = i * LENGTH('w) + j)" for n
  proof -
    have "n < Suc i * LENGTH('w) \<and> \<not> n < i * LENGTH('w) \<longleftrightarrow> (\<exists>j < LENGTH('w). n = i * LENGTH('w) + j)"
      by (auto intro: exI [of _ "n - i * LENGTH('w)"])
    then show ?thesis using bits by fastforce
  qed
  show ?case
  proof (cases "elms m ! i = 0")
    case True
    then have S: "?S (Suc i) = ?S i" using split by auto
    have "last_word_loop m (Suc i) = last_word_loop m i" using True by (simp add: Let_def)
    then show ?thesis unfolding S using Suc.IH [OF Suc_leD [OF Suc.prems]] by (rule trans)
  next
    case False
    have ex: "\<exists>j \<le> LENGTH('w) - 1. bit (elms m ! i) j"
    proof (rule ccontr)
      assume "\<not> ?thesis"
      then have "\<not> bit (elms m ! i) j" if "j < LENGTH('w)" for j using that by auto
      then have "elms m ! i = 0" by (intro bit_word_eqI) simp
      then show False using False by simp
    qed
    have idx: "i * LENGTH('w) + (LENGTH('w) - 1) = Suc i * LENGTH('w) - 1"
      using len_gt_0 [where 'a = 'w] unfolding mult_Suc by linarith
    obtain j where j: "j \<le> LENGTH('w) - 1" "bit (elms m ! i) j" "\<forall>l \<le> LENGTH('w) - 1. bit (elms m ! i) l \<longrightarrow> l \<le> j"
      "top_bit_loop (elms m ! i) (push_bit (LENGTH('w) - 1) 1) (Suc i * LENGTH('w) - 1) = i * LENGTH('w) + j"
      using top_bit_loop [OF ex, of "i * LENGTH('w)"] unfolding idx by auto
    have "Max (?S (Suc i)) = i * LENGTH('w) + j"
    proof (rule Max_eqI)
      show "finite (?S (Suc i))" by simp
      show "i * LENGTH('w) + j \<in> ?S (Suc i)" using split j(1,2) by (metis One_nat_def Suc_pred le_imp_less_Suc len_gt_0)
      fix n assume "n \<in> ?S (Suc i)"
      then show "n \<le> i * LENGTH('w) + j" using split [of n] j(3) by auto
    qed
    moreover have "?S (Suc i) \<noteq> {}" using split j(1,2) by (metis One_nat_def Suc_pred empty_iff le_imp_less_Suc len_gt_0)
    moreover have "last_word_loop m (Suc i) = int_of_unsigned (i * LENGTH('w) + j)"
      using False j(4) by (simp only: last_word_loop.simps Let_def if_True simp_thms)
    ultimately show ?thesis by (simp only: if_False simp_thms)
  qed
qed simp

text \<open>The elements below a word boundary and some bits beyond it.\<close>

lemma card_segment:
  fixes m :: "'w::len sbitmap"
  assumes "sbitmap_wf m" "k < set_size m" "b \<le> LENGTH('w)"
  shows "card {i \<in> sbitmap_contents m. i < k * LENGTH('w) + b} =
    card {i \<in> sbitmap_contents m. i < k * LENGTH('w)} + do_popcount (elms m ! k AND low_ones b)"
proof -
  let ?B = "{j. bit (elms m ! k AND low_ones b) j}"
  let ?lo = "{i \<in> sbitmap_contents m. i < k * LENGTH('w)}" and ?hi = "(\<lambda>j. k * LENGTH('w) + j) ` ?B"
  have bit: "j \<in> ?B \<longleftrightarrow> j < b \<and> k * LENGTH('w) + j \<in> sbitmap_contents m" for j
  proof (cases "j < LENGTH('w)")
    case True
    then show ?thesis
      using contents_bit [OF assms(1,2) True] bit_low_ones [OF assms(3), of j] unfolding mem_Collect_eq bit_and_iff by blast
  next
    case False
    then have "\<not> bit (elms m ! k) j" by (auto dest: bit_imp_le_length)
    then show ?thesis using False assms(3) unfolding mem_Collect_eq bit_and_iff by linarith
  qed
  have "{i \<in> sbitmap_contents m. i < k * LENGTH('w) + b} = ?lo \<union> ?hi"
  proof (rule set_eqI)
    fix i
    have "i \<in> ?hi \<longleftrightarrow> k * LENGTH('w) \<le> i \<and> i - k * LENGTH('w) \<in> ?B"
      by (auto intro: image_eqI [of _ _ "i - k * LENGTH('w)"])
    then show "i \<in> {i \<in> sbitmap_contents m. i < k * LENGTH('w) + b} \<longleftrightarrow> i \<in> ?lo \<union> ?hi"
      using bit [of "i - k * LENGTH('w)"] by (cases "k * LENGTH('w) \<le> i") auto
  qed
  moreover have "finite ?lo" "finite ?hi" "?lo \<inter> ?hi = {}" using finite_bit_word by auto
  moreover have "card ?hi = card ?B" by (rule card_image) (simp add: inj_on_def)
  ultimately show ?thesis by (simp add: card_Un_disjoint do_popcount_card)
qed

lemma card_words:
  fixes m :: "'w::len sbitmap"
  assumes "sbitmap_wf m" "k \<le> set_size m"
  shows "card {i \<in> sbitmap_contents m. i < k * LENGTH('w)} = sum_list (map (\<lambda>ix. do_popcount (elms m ! ix)) [0..<k])"
  using assms(2)
proof (induction k)
  case (Suc k)
  have "(low_ones LENGTH('w) :: 'w word) = - 1" by (simp add: low_ones_def)
  then have "card {i \<in> sbitmap_contents m. i < k * LENGTH('w) + LENGTH('w)} =
      card {i \<in> sbitmap_contents m. i < k * LENGTH('w)} + do_popcount (elms m ! k)"
    using card_segment [OF assms(1), of k "LENGTH('w)"] Suc.prems by simp
  moreover have "k * LENGTH('w) + LENGTH('w) = Suc k * LENGTH('w)" by simp
  ultimately show ?case using Suc by (simp only: upt_Suc map_append sum_list_append) simp
qed simp

lemma count_word:
  fixes m :: "'w::len sbitmap"
  assumes "sbitmap_wf m" "LENGTH('w) < 256" "ix < set_size m"
  shows "(case popcounts m of Some pc \<Rightarrow> unat (pc ! ix) | None \<Rightarrow> do_popcount (elms m ! ix)) = do_popcount (elms m ! ix)"
proof (cases "popcounts m")
  case (Some pc)
  then have "pc = map (\<lambda>w. of_nat (do_popcount w)) (elms m)" "length (elms m) = set_size m"
    using assms(1) by (simp_all add: sbitmap_wf_def counts_ok_def)
  moreover have "do_popcount (elms m ! ix) < 256" using do_popcount_le [of "elms m ! ix"] assms(2) by linarith
  ultimately show ?thesis using Some assms(3) by (simp add: unat_of_nat)
qed simp

lemma popcount_card:
  fixes a :: "'w::len sbitmap"
  assumes wf: "sbitmap_wf a" and w: "LENGTH('w) < 256"
  shows "sbitmap_popcount a maxbit = card {i \<in> sbitmap_contents a. i < maxbit}"
proof (cases "maxbit = 0")
  case False
  define k where "k = (if maxbit \<ge> n_bits a then n_bits a else maxbit)"
  have sub: "sbitmap_contents a \<subseteq> {..<n_bits a}" and size: "set_size a = SBITMAP_SET_SIZE TYPE('w) (n_bits a)"
    using wf by (simp_all add: sbitmap_wf_def)
  have same: "{i \<in> sbitmap_contents a. i < maxbit} = {i \<in> sbitmap_contents a. i < k}"
    using sub by (auto simp: k_def)
  define q where "q = k div LENGTH('w)"
  have "k + 1 + LENGTH('w) \<le> 2 ^ 32" using wf by (auto simp: k_def sbitmap_wf_def)
  then have q: "SBITMAP_SET_SIZE TYPE('w) (k + 1) - 1 = q"
    by (simp add: set_size_ceil ceil_div_def q_def div_add_self2)
  have kq: "k = q * LENGTH('w) + k mod LENGTH('w)" by (simp add: q_def)
  define lw where "lw = min (set_size a) q"
  let ?count = "sum_list (map (\<lambda>ix. case popcounts a of Some pc \<Rightarrow> unat (pc ! ix) | None \<Rightarrow> do_popcount (elms a ! ix)) [0..<lw])"
  have count: "?count = card {i \<in> sbitmap_contents a. i < lw * LENGTH('w)}"
  proof -
    have "lw \<le> set_size a" by (simp add: lw_def)
    then show ?thesis unfolding card_words [OF wf \<open>lw \<le> set_size a\<close>]
      by (intro arg_cong [of _ _ sum_list] map_cong refl count_word [OF wf w]) simp
  qed
  have pc: "sbitmap_popcount a maxbit =
      (if lw < set_size a then
         if k mod LENGTH('w) \<noteq> 0 then ?count + do_popcount (elms a ! lw AND low_ones (k mod LENGTH('w))) else ?count
       else ?count)"
    using False unfolding sbitmap_popcount_def Let_def k_def [symmetric] q lw_def [symmetric] by (simp only: if_False)
  show ?thesis
  proof (cases "lw < set_size a")
    case True
    then have "lw = q" by (simp add: lw_def)
    then have "card {i \<in> sbitmap_contents a. i < k} =
        ?count + do_popcount (elms a ! lw AND low_ones (k mod LENGTH('w)))"
      using card_segment [OF wf True, of "k mod LENGTH('w)"] kq count by (simp add: less_imp_le)
    moreover have "do_popcount (elms a ! lw AND low_ones 0) = 0" by (simp add: low_ones_def)
    ultimately show ?thesis unfolding same pc using True by auto
  next
    case lwge: False
    then have "set_size a \<le> q" by (simp add: lw_def)
    then have "set_size a * LENGTH('w) \<le> q * LENGTH('w)" by (rule mult_le_mono1)
    then have "set_size a * LENGTH('w) \<le> k" using kq by linarith
    then have "{i \<in> sbitmap_contents a. i < k} = sbitmap_contents a" by (auto simp: sbitmap_contents_def)
    moreover have "{i \<in> sbitmap_contents a. i < lw * LENGTH('w)} = sbitmap_contents a"
      using lwge by (auto simp: lw_def sbitmap_contents_def)
    ultimately show ?thesis unfolding same pc using lwge count by simp
  qed
qed (simp add: sbitmap_popcount_def)

section \<open>Properties\<close>

text \<open>The table version of the population count agrees with the builtin one on elements of
  any width that is a multiple of eight: both are the number of bits of the element.\<close>

theorem elt_popcount_equivalent:
  assumes "8 dvd LENGTH('w::len)"
  shows "sbitmap_elt_popcount (a :: 'w word) = do_popcount a \<and> do_popcount a = card {i. bit a i}"
proof
  show "sbitmap_elt_popcount a = do_popcount a"
    using elt_popcount_from [OF assms, of 0 a]
    by (cases "a = 0") (simp_all add: sbitmap_elt_popcount_def do_popcount_def)
qed (rule do_popcount_card)

lemma elt_popcount_equivalent_witness: "sbitmap_elt_popcount (0xF00D :: 32 word) = 7"
proof -
  have "do_popcount (0xF00D :: 32 word) = 7"
    by (simp add: do_popcount_def upt_conv_Cons bit_numeral_rec)
  then show ?thesis using elt_popcount_equivalent [of "0xF00D :: 32 word"] by simp
qed

text \<open>C35. Walking a well-formed bitmap with \<open>EXECUTE_IF_SET_IN_SBITMAP\<close> ends and gives the loop's
  body every member from the starting number on, each once and in increasing order; the
  searches return the least and the greatest member, or -1 for an empty bitmap, when the bitmap has no more numbers
  than an \<open>int\<close> can return; and the population count up to a bound is the number of members below it, whether it
  is read from the cached counts or recomputed.\<close>

theorem sbitmap_walks:
  assumes "sbitmap_wf (m :: 'w::len sbitmap)" "LENGTH('w) < 256"
  shows "EXECUTE_IF_SET_IN_SBITMAP m start = sorted_list_of_set {i \<in> sbitmap_contents m. start \<le> i}
    \<and> (n_bits m \<le> 2 ^ 31 \<longrightarrow>
        sbitmap_first_set_bit m = (if sbitmap_contents m = {} then - 1 else int (Min (sbitmap_contents m)))
        \<and> sbitmap_last_set_bit m = (if sbitmap_contents m = {} then - 1 else int (Max (sbitmap_contents m))))
    \<and> sbitmap_popcount m maxbit = card {i \<in> sbitmap_contents m. i < maxbit}"
proof (intro conjI impI)
  have small: "int_of_unsigned i = int i" if "n_bits m \<le> 2 ^ 31" "i \<in> sbitmap_contents m" for i
  proof (rule int_of_unsigned)
    have "i < n_bits m" using assms(1) that(2) by (auto simp: sbitmap_wf_def)
    then show "i < 2 ^ 31" using that(1) by (rule order_less_le_trans)
  qed
  have come: "to_come m (sbitmap_iter_init m b) = {i \<in> sbitmap_contents m. b \<le> i}" for b
    by (simp add: to_come_def sbitmap_iter_init_def Let_def)
  show "EXECUTE_IF_SET_IN_SBITMAP m start = sorted_list_of_set {i \<in> sbitmap_contents m. start \<le> i}"
    using bits_from_sorted [OF assms(1) iter_ok_init, of start] by (simp add: EXECUTE_IF_SET_IN_SBITMAP_def come)
  show "sbitmap_first_set_bit m = (if sbitmap_contents m = {} then - 1 else int (Min (sbitmap_contents m)))"
    if bound: "n_bits m \<le> 2 ^ 31"
  proof (cases "sbitmap_iter_cond (sbitmap_iter_init m 0)")
    case (Some a)
    obtain n i where a: "a = (n, i)" by fastforce
    have "n \<in> sbitmap_contents m" "\<forall>k \<in> sbitmap_contents m. n \<le> k"
      using iter_cond_ok [OF assms(1) iter_ok_init, of 0] come [of 0] Some a by simp_all
    moreover from this have "Min (sbitmap_contents m) = n" by (intro Min_eqI finite_members) auto
    ultimately show ?thesis using Some a small [OF bound] by (auto simp: sbitmap_first_set_bit_def)
  qed (use iter_cond_ok [OF assms(1) iter_ok_init, of 0] come [of 0] in \<open>simp add: sbitmap_first_set_bit_def\<close>)
  have "{n \<in> sbitmap_contents m. n < set_size m * LENGTH('w)} = sbitmap_contents m"
    by (auto simp: sbitmap_contents_def)
  then show "sbitmap_last_set_bit m = (if sbitmap_contents m = {} then - 1 else int (Max (sbitmap_contents m)))"
    if bound: "n_bits m \<le> 2 ^ 31"
    using last_word_loop [OF assms(1) order_refl] small [OF bound, of "Max (sbitmap_contents m)"]
      Max_in [OF finite_members [of m]] by (simp add: sbitmap_last_set_bit_def)
  show "sbitmap_popcount m maxbit = card {i \<in> sbitmap_contents m. i < maxbit}"
    by (rule popcount_card [OF assms])
qed

text \<open>A bitmap of 40 bits on a 32-bit host, with the members 3 and 37 and their counts.\<close>

definition example_sbitmap :: "32 sbitmap" where
  "example_sbitmap =
    SET_BIT (SET_BIT (sbitmap_zero (sbitmap_alloc_with_popcount (\<lambda>i. 7) (\<lambda>i. 9) 40)) 37) 3"

lemma example_sbitmap: "denotes 40 {3, 37} example_sbitmap"
proof -
  have 0: "denotes 40 {} (sbitmap_zero (sbitmap_alloc_with_popcount (\<lambda>i. 7 :: 32 word) (\<lambda>i. 9) 40))"
    by (rule alloc_counted_zero_denotes) simp
  have 1: "denotes 40 {37} (SET_BIT (sbitmap_zero (sbitmap_alloc_with_popcount (\<lambda>i. 7 :: 32 word) (\<lambda>i. 9) 40)) 37)"
    using SET_BIT_denotes [of 40 _ 37] 0 by (auto simp: denotes_def operand_def)
  show ?thesis
    using SET_BIT_denotes [of 40 _ 3] 1 by (auto simp: denotes_def operand_def example_sbitmap_def)
qed

lemma sbitmap_walks_witness:
  "EXECUTE_IF_SET_IN_SBITMAP example_sbitmap 0 = [3, 37] \<and> sbitmap_last_set_bit example_sbitmap = 37
    \<and> sbitmap_popcount example_sbitmap 37 = 1"
proof -
  have wf: "sbitmap_wf example_sbitmap" and c: "sbitmap_contents example_sbitmap = {3, 37}"
    "n_bits example_sbitmap = 40"
    using example_sbitmap by (simp_all add: denotes_def)
  have "{i \<in> {3, 37 :: nat}. i < 37} = {3}" "{i \<in> {3, 37 :: nat}. 0 \<le> i} = {3, 37}" by auto
  then show ?thesis using sbitmap_walks [OF wf, of 0 37] by (simp add: c)
qed

end
