(* ===== verification/SbitmapProps.thy ===== *)
theory SbitmapProps
  imports SbitmapIter
begin

text \<open>
  What the routines of \<open>gcc/sbitmap.c\<close> promise: the boolean operations, the operations that
  report a change, resizing, and the routines that leave the cached population counts wrong.
\<close>

section \<open>Boolean operations\<close>


text \<open>Small bitmaps of 40 bits for the examples.\<close>

definition bits_40 :: "nat \<Rightarrow> 32 sbitmap" where
  "bits_40 i = SET_BIT (sbitmap_zero (sbitmap_alloc (\<lambda>_. 7) 40)) i"

lemma bits_40: "i < 40 \<Longrightarrow> operand 40 (bits_40 i)" "i < 40 \<Longrightarrow> sbitmap_contents (bits_40 i) = {i}"
  "popcounts (bits_40 i) = None"
proof -
  let ?z = "sbitmap_zero (sbitmap_alloc (\<lambda>_. 7) 40) :: 32 sbitmap"
  have z: "denotes 40 {} ?z" by (rule alloc_zero_denotes) simp
  then show "i < 40 \<Longrightarrow> operand 40 (bits_40 i)" "i < 40 \<Longrightarrow> sbitmap_contents (bits_40 i) = {i}"
    using SET_BIT_denotes [of 40 ?z i] by (simp_all add: denotes_def operand_def bits_40_def)
  show "popcounts (bits_40 i) = None"
    by (simp add: bits_40_def SET_BIT_def bump_def sbitmap_zero_def sbitmap_alloc_def Let_def)
qed


section \<open>Operations that report a change\<close>

text \<open>The iterative data-flow solvers stop when no set changes, which they read from the
  \<open>_cg\<close> operations: each of these stores the combination of its two or three operands and
  returns true exactly when the destination's set is a different one afterwards; without the
  report the same set is stored.\<close>

theorem sbitmap_changes_reported:
  fixes dst a b c :: "'w::len sbitmap"
  assumes "operand n dst" "operand n a" "operand n b" "operand n c" "popcounts dst = None"
  shows "(\<exists>r. sbitmap_a_and_b_cg dst a b = Some (sbitmap_contents r \<noteq> sbitmap_contents dst, r)
        \<and> denotes n (sbitmap_contents a \<inter> sbitmap_contents b) r)
    \<and> (\<exists>r. sbitmap_a_or_b_cg dst a b = Some (sbitmap_contents r \<noteq> sbitmap_contents dst, r)
        \<and> denotes n (sbitmap_contents a \<union> sbitmap_contents b) r)
    \<and> (\<exists>r. sbitmap_a_xor_b_cg dst a b = Some (sbitmap_contents r \<noteq> sbitmap_contents dst, r)
        \<and> denotes n {i. (i \<in> sbitmap_contents a) \<noteq> (i \<in> sbitmap_contents b)} r)
    \<and> (\<exists>r. sbitmap_union_of_diff_cg dst a b c = Some (sbitmap_contents r \<noteq> sbitmap_contents dst, r)
        \<and> denotes n (sbitmap_contents a \<union> (sbitmap_contents b - sbitmap_contents c)) r)
    \<and> (\<exists>r. sbitmap_a_or_b_and_c_cg dst a b c = Some (sbitmap_contents r \<noteq> sbitmap_contents dst, r)
        \<and> sbitmap_a_or_b_and_c dst a b c = Some r
        \<and> denotes n (sbitmap_contents a \<union> (sbitmap_contents b \<inter> sbitmap_contents c)) r)
    \<and> (\<exists>r. sbitmap_a_and_b_or_c_cg dst a b c = Some (sbitmap_contents r \<noteq> sbitmap_contents dst, r)
        \<and> sbitmap_a_and_b_or_c dst a b c = Some r
        \<and> denotes n (sbitmap_contents a \<inter> (sbitmap_contents b \<union> sbitmap_contents c)) r)"
proof -
  have cg: "\<exists>r. map_option (store_cg dst) e = Some (sbitmap_contents r \<noteq> sbitmap_contents dst, r)
      \<and> map_option (store dst) e = Some r \<and> denotes n A r"
    if e: "\<exists>ws. e = Some ws \<and> words_for n A ws" for e A
  proof -
    obtain r where r: "map_option (store_cg dst) e = Some (A \<noteq> sbitmap_contents dst, r)" "denotes n A r"
      using stored_result(3) [OF assms(1) e assms(5)] by blast
    moreover have "sbitmap_contents r = A" using r(2) by (simp add: denotes_def)
    moreover have "map_option (store dst) e = Some r" using r(1) by (auto simp: store_cg_def)
    ultimately show ?thesis by blast
  qed
  note two = op_words [OF assms(2,3), THEN cg] and three = op3_words [OF assms(2,3,4), THEN cg]
  show ?thesis
    using two three operand_size [OF assms(1)] assms(5)
    unfolding sbitmap_a_and_b_cg_def sbitmap_a_or_b_cg_def sbitmap_a_xor_b_cg_def sbitmap_union_of_diff_cg_def
      sbitmap_a_or_b_and_c_cg_def sbitmap_a_or_b_and_c_def sbitmap_a_and_b_or_c_cg_def sbitmap_a_and_b_or_c_def
      no_popcount_def
    by (intro conjI) (simp_all, blast+)
qed

lemma sbitmap_changes_reported_witness:
  "\<exists>r. sbitmap_union_of_diff_cg (bits_40 3) (bits_40 3) (bits_40 37) (bits_40 37) = Some (False, r)
    \<and> sbitmap_contents r = {3}"
proof -
  have "operand 40 (bits_40 3)" "operand 40 (bits_40 37)" "popcounts (bits_40 3) = None"
    "sbitmap_contents (bits_40 3) = {3}" "sbitmap_contents (bits_40 37) = {37}" by (simp_all add: bits_40)
  then show ?thesis
    using sbitmap_changes_reported [of 40 "bits_40 3" "bits_40 3" "bits_40 37" "bits_40 37"]
    by (auto simp: denotes_def)
qed

section \<open>Resizing\<close>

text \<open>Resizing keeps the members that still fit: growing adds either nothing or, when the
  caller asks for set bits, every number between the old size and the new one; shrinking drops
  the members at or above the new size. The bitmap stays well formed, counts included, except
  that growing with set bits is only stated for a bitmap without counts.\<close>

theorem sbitmap_resize_contents:
  fixes m :: "'w::len sbitmap"
  assumes "sbitmap_wf m" "popcounts m = None \<or> \<not> def \<or> n' \<le> n_bits m" "bits_fit TYPE('w) n'"
  shows "denotes n' (if n' \<le> n_bits m then sbitmap_contents m \<inter> {..<n'}
      else if def then sbitmap_contents m \<union> {n_bits m..<n'} else sbitmap_contents m)
    (sbitmap_resize pjunk m n' def)"
proof -
  have "operand (n_bits m) m" using assms(1) by (simp add: operand_def)
  then show ?thesis
    using resize_shrink [of "n_bits m" m n'] resize_set [of "n_bits m" m n'] resize_clear [of "n_bits m" m n'] assms(2,3)
    by (cases "n' \<le> n_bits m"; cases def) simp_all
qed

lemma sbitmap_resize_contents_witness:
  "denotes 70 ({37} \<union> {40..<70}) (sbitmap_resize (\<lambda>_. 1) (bits_40 37) 70 True)"
proof -
  have "sbitmap_wf (bits_40 37)" "n_bits (bits_40 37) = 40" using bits_40(1) [of 37] by (simp_all add: operand_def)
  then show ?thesis using sbitmap_resize_contents [of "bits_40 37" True 70 "\<lambda>_. 1"] by (simp add: bits_40)
qed

section \<open>Stale counts\<close>

text \<open>The debugging check accepts every well-formed bitmap.\<close>

lemma wf_verifies:
  assumes "sbitmap_wf (m :: 'w::len sbitmap)" "LENGTH('w) < 256"
  shows "sbitmap_verify_popcount m"
proof (cases "popcounts m")
  case (Some pc)
  then have pc: "pc = map (\<lambda>w. of_nat (do_popcount w)) (elms m)" "length (elms m) = set_size m"
    using assms(1) by (simp_all add: sbitmap_wf_def counts_ok_def)
  have "do_popcount w < 256" for w :: "'w word" using do_popcount_le [of w] assms(2) by simp
  then show ?thesis using Some pc
    by (auto simp: sbitmap_verify_popcount_def list_all_iff unat_of_nat)
qed (simp add: sbitmap_verify_popcount_def)

text \<open>Filling a bitmap that carries population counts breaks it as soon as it has one full
  element: \<open>sbitmap_ones\<close> fills the counts with the byte 255, and the true count is the width of an
  element. \<open>sbitmap_realloc\<close> to fewer bits keeps the old number of elements, which the
  routines that compare sizes do not expect.\<close>

theorem sbitmap_counts_broken:
  fixes m :: "'w::len sbitmap"
  assumes "sbitmap_wf m" "LENGTH('w) < 255"
  shows "(popcounts m \<noteq> None \<and> LENGTH('w) \<le> n_bits m \<longrightarrow> \<not> sbitmap_wf (sbitmap_ones m))
    \<and> (SBITMAP_SET_SIZE TYPE('w) n' < set_size m \<longrightarrow> \<not> sbitmap_wf (sbitmap_realloc junk m n'))"
proof (intro conjI impI)
  assume "popcounts m \<noteq> None \<and> LENGTH('w) \<le> n_bits m"
  then have p: "popcounts m \<noteq> None" and n: "LENGTH('w) \<le> n_bits m" by simp_all
  show "\<not> sbitmap_wf (sbitmap_ones m)"
  proof
    assume "sbitmap_wf (sbitmap_ones m)"
    have N: "set_size m = SBITMAP_SET_SIZE TYPE('w) (n_bits m)" and fits: "bits_fit TYPE('w) (n_bits m)"
      using assms(1) by (simp_all add: sbitmap_wf_def)
    then have "0 < set_size m" using set_size_bounds(1) [of "n_bits m", where 'w = 'w] fits n len_gt_0 [where 'a = 'w]
      by (cases "set_size m") simp_all
    moreover have "1 < set_size m" if "n_bits m mod LENGTH('w) \<noteq> 0"
      using set_size_last [OF fits that] N n by (simp add: div_greater_zero_iff)
    moreover have "do_popcount (- 1 :: 'w word) = LENGTH('w)" by (simp add: do_popcount_def cong: filter_cong)
    ultimately have "(- 1 :: 8 word) = of_nat LENGTH('w)"
      using \<open>sbitmap_wf (sbitmap_ones m)\<close> p
      by (auto simp: sbitmap_wf_def counts_ok_def sbitmap_ones_def Let_def list_eq_iff_nth_eq nth_list_update
          dest!: spec [of _ 0] split: if_splits)
    then have "unat (- 1 :: 8 word) = unat (of_nat LENGTH('w) :: 8 word)" by simp
    moreover have "unat (- 1 :: 8 word) = 255" by (simp add: unsigned_minus_1_eq_mask mask_eq_exp_minus_1)
    ultimately show False using assms(2) by (simp add: unat_of_nat)
  qed
next
  assume "SBITMAP_SET_SIZE TYPE('w) n' < set_size m"
  then show "\<not> sbitmap_wf (sbitmap_realloc junk m n')"
    by (simp add: sbitmap_realloc_def sbitmap_wf_def Let_def)
qed

lemma sbitmap_counts_broken_witness: "\<not> sbitmap_wf (sbitmap_ones example_sbitmap)"
proof -
  have "sbitmap_wf example_sbitmap" using example_sbitmap by (simp add: denotes_def)
  moreover have "popcounts example_sbitmap \<noteq> None" "n_bits example_sbitmap = 40"
    by (simp_all add: example_sbitmap_def SET_BIT_def bump_def sbitmap_zero_def sbitmap_alloc_with_popcount_def
        sbitmap_alloc_def Let_def)
  ultimately show ?thesis using sbitmap_counts_broken [of example_sbitmap 40] by simp
qed

end
