(* ===== verification/SbitmapFlow.thy ===== *)
theory SbitmapFlow
  imports SbitmapProps
begin

text \<open>
  The routines of \<open>gcc/sbitmap.c\<close> that combine the sets of a block's neighbours in the flow
  graph. A block's edges are the list of the blocks at their other end; \<open>None\<close> is the
  pseudo block, \<open>EXIT_BLOCK_PTR\<close> for successors and \<open>ENTRY_BLOCK_PTR\<close> for predecessors. The
  array \<open>src\<close> maps block numbers to bitmaps, none of which is the destination, as in all the
  calls of the data-flow solvers.
\<close>

section \<open>Combining the neighbours\<close>

record flow_graph =
  succs :: "nat \<Rightarrow> nat option list"
  preds :: "nat \<Rightarrow> nat option list"

text \<open>The loop over the edges after the first real one.\<close>

fun combine_edges ::
  "('w word \<Rightarrow> 'w word \<Rightarrow> 'w word) \<Rightarrow> (nat \<Rightarrow> 'w sbitmap) \<Rightarrow> nat option list \<Rightarrow> 'w::len sbitmap
   \<Rightarrow> 'w sbitmap option" where
  "combine_edges f src [] dst = Some dst"
| "combine_edges f src (None # es) dst = combine_edges f src es dst"
| "combine_edges f src (Some k # es) dst =
    (case combine2 f (set_size dst) dst (src k) of
       None \<Rightarrow> None
     | Some ws \<Rightarrow> combine_edges f src es (store dst ws))"

definition intersection_of_edges ::
  "'w::len sbitmap \<Rightarrow> (nat \<Rightarrow> 'w sbitmap) \<Rightarrow> nat option list \<Rightarrow> 'w sbitmap option" where
  "intersection_of_edges dst src es =
    (if no_popcount dst then
       (case dropWhile (\<lambda>e. e = None) es of
          Some k # rest \<Rightarrow>
            (case sbitmap_copy dst (src k) of
               None \<Rightarrow> None
             | Some dst \<Rightarrow> combine_edges (AND) src rest dst)
        | _ \<Rightarrow> Some (if es = [] then sbitmap_ones dst else dst))
     else None)"

definition union_of_edges ::
  "'w::len sbitmap \<Rightarrow> (nat \<Rightarrow> 'w sbitmap) \<Rightarrow> nat option list \<Rightarrow> 'w sbitmap option" where
  "union_of_edges dst src es =
    (if no_popcount dst then
       (case dropWhile (\<lambda>e. e = None) es of
          Some k # rest \<Rightarrow>
            (case sbitmap_copy dst (src k) of
               None \<Rightarrow> None
             | Some dst \<Rightarrow> combine_edges (OR) src rest dst)
        | _ \<Rightarrow> Some (sbitmap_zero dst))
     else None)"

definition sbitmap_intersection_of_succs ::
  "flow_graph \<Rightarrow> 'w::len sbitmap \<Rightarrow> (nat \<Rightarrow> 'w sbitmap) \<Rightarrow> nat \<Rightarrow> 'w sbitmap option" where
  "sbitmap_intersection_of_succs cfg dst src bb = intersection_of_edges dst src (succs cfg bb)"

definition sbitmap_intersection_of_preds ::
  "flow_graph \<Rightarrow> 'w::len sbitmap \<Rightarrow> (nat \<Rightarrow> 'w sbitmap) \<Rightarrow> nat \<Rightarrow> 'w sbitmap option" where
  "sbitmap_intersection_of_preds cfg dst src bb = intersection_of_edges dst src (preds cfg bb)"

definition sbitmap_union_of_succs ::
  "flow_graph \<Rightarrow> 'w::len sbitmap \<Rightarrow> (nat \<Rightarrow> 'w sbitmap) \<Rightarrow> nat \<Rightarrow> 'w sbitmap option" where
  "sbitmap_union_of_succs cfg dst src bb = union_of_edges dst src (succs cfg bb)"

definition sbitmap_union_of_preds ::
  "flow_graph \<Rightarrow> 'w::len sbitmap \<Rightarrow> (nat \<Rightarrow> 'w sbitmap) \<Rightarrow> nat \<Rightarrow> 'w sbitmap option" where
  "sbitmap_union_of_preds cfg dst src bb = union_of_edges dst src (preds cfg bb)"

section \<open>The sets computed\<close>

definition real_ends :: "nat option list \<Rightarrow> nat set" where
  "real_ends es = {k. Some k \<in> set es}"

lemma real_ends_simps [simp]:
  "real_ends [] = {}" "real_ends (None # es) = real_ends es" "real_ends (Some k # es) = insert k (real_ends es)"
  by (auto simp: real_ends_def)

lemma real_ends_skip:
  "real_ends es = real_ends (dropWhile (\<lambda>e. e = None) es)"
  "dropWhile (\<lambda>e. e = None) es = [] \<or> (\<exists>k rest. dropWhile (\<lambda>e. e = None) es = Some k # rest)"
  by (induction es) (auto split: option.splits)

text \<open>The loop over the rest of the edges folds the set operator that its word operator stands for.\<close>

definition fold_edges :: "(nat set \<Rightarrow> nat set \<Rightarrow> nat set) \<Rightarrow> (nat \<Rightarrow> 'w::len sbitmap) \<Rightarrow> nat option list \<Rightarrow> nat set \<Rightarrow> nat set" where
  "fold_edges F src = fold (\<lambda>e A. case e of None \<Rightarrow> A | Some k \<Rightarrow> F A (sbitmap_contents (src k)))"

lemma fold_edges_inter: "fold_edges (\<inter>) src es A = A \<inter> (\<Inter>k \<in> real_ends es. sbitmap_contents (src k))"
  by (induction es arbitrary: A) (auto simp: fold_edges_def split: option.splits)

lemma fold_edges_union: "fold_edges (\<union>) src es A = A \<union> (\<Union>k \<in> real_ends es. sbitmap_contents (src k))"
  by (induction es arbitrary: A) (auto simp: fold_edges_def split: option.splits)

lemma combine_edges_denotes:
  fixes dst :: "'w::len sbitmap"
  assumes law: "\<And>a b :: 'w sbitmap. operand n a \<Longrightarrow> operand n b \<Longrightarrow>
      \<exists>ws. combine2 f (SBITMAP_SET_SIZE TYPE('w) n) a b = Some ws
        \<and> words_for n (F (sbitmap_contents a) (sbitmap_contents b)) ws"
  shows "denotes n A dst \<Longrightarrow> popcounts dst = None \<Longrightarrow> \<forall>k \<in> real_ends es. operand n (src k) \<Longrightarrow>
    \<exists>r. combine_edges f src es dst = Some r \<and> denotes n (fold_edges F src es A) r"
proof (induction es arbitrary: dst A)
  case Nil
  then show ?case by (simp add: fold_edges_def)
next
  case (Cons e es)
  show ?case
  proof (cases e)
    case None
    then show ?thesis using Cons by (simp add: fold_edges_def)
  next
    case (Some k)
    have d: "operand n dst" "sbitmap_contents dst = A" using Cons.prems(1) by (simp_all add: denotes_def operand_def)
    have k: "operand n (src k)" using Cons.prems(3) Some by simp
    obtain ws where ws: "combine2 f (set_size dst) dst (src k) = Some ws"
      "words_for n (F A (sbitmap_contents (src k))) ws"
      using law [OF d(1) k] d operand_size [OF d(1)] by auto
    have "denotes n (F A (sbitmap_contents (src k))) (store dst ws)"
      using store_denotes [OF operandD(1) [OF d(1)], of _ ws] ws(2) Cons.prems(2) operandD(2) [OF d(1)] by simp
    moreover have "popcounts (store dst ws) = None" using Cons.prems(2) by (simp add: store_def)
    ultimately show ?thesis
      using Cons.IH [of _ "store dst ws"] Cons.prems(3) Some ws(1) by (simp add: fold_edges_def)
  qed
qed

lemma first_edge:
  assumes "operand n dst" "popcounts dst = None" "operand n (src k)"
  shows "\<exists>r. sbitmap_copy dst (src k) = Some r \<and> denotes n (sbitmap_contents (src k)) r \<and> popcounts r = None"
  using sbitmap_copy_denotes [OF assms(1,3)] assms(2) by auto

lemma union_of_edges_denotes:
  fixes dst :: "'w::len sbitmap"
  assumes "operand n dst" "popcounts dst = None" "\<forall>k \<in> real_ends es. operand n (src k)"
  shows "\<exists>r. union_of_edges dst src es = Some r \<and> denotes n (\<Union>k \<in> real_ends es. sbitmap_contents (src k)) r"
proof (cases "dropWhile (\<lambda>e. e = None) es")
  case Nil
  then have "real_ends es = {}" by (auto simp: real_ends_def dropWhile_eq_Nil_conv)
  then show ?thesis
    using Nil assms(2) sbitmap_zero_denotes [of dst] operand_size [OF assms(1)] operandD(2) [OF assms(1)]
      wf_words(4) [OF operandD [OF assms(1)]] by (simp add: union_of_edges_def no_popcount_def del: dropWhile_eq_Nil_conv)
next
  case (Cons e rest)
  then obtain k where e: "e = Some k" using real_ends_skip(2) [of es] by auto
  have R: "real_ends es = insert k (real_ends rest)" using real_ends_skip(1) [of es] Cons e by simp
  obtain d where d: "sbitmap_copy dst (src k) = Some d" "denotes n (sbitmap_contents (src k)) d" "popcounts d = None"
    using first_edge [OF assms(1,2), of src k] assms(3) R by auto
  show ?thesis
    using combine_edges_denotes [OF op_words(2) d(2,3), of rest src] assms(2,3) Cons e d(1) R
    by (simp add: union_of_edges_def no_popcount_def fold_edges_union)
qed

lemma intersection_of_edges_denotes:
  fixes dst :: "'w::len sbitmap"
  assumes "operand n dst" "popcounts dst = None" "\<forall>k \<in> real_ends es. operand n (src k)"
  shows "\<exists>r. intersection_of_edges dst src es = Some r
    \<and> denotes n (if real_ends es \<noteq> {} then \<Inter>k \<in> real_ends es. sbitmap_contents (src k)
        else if es = [] then {..<n} else sbitmap_contents dst) r"
proof (cases "dropWhile (\<lambda>e. e = None) es")
  case Nil
  then have "real_ends es = {}" by (auto simp: real_ends_def dropWhile_eq_Nil_conv)
  then show ?thesis
    using Nil assms(1,2) sbitmap_ones_denotes [of dst] operand_size [OF assms(1)] operandD(2) [OF assms(1)]
      wf_words(4) [OF operandD [OF assms(1)]] by (simp add: intersection_of_edges_def no_popcount_def denotes_def operand_def del: dropWhile_eq_Nil_conv)
next
  case (Cons e rest)
  then obtain k where e: "e = Some k" using real_ends_skip(2) [of es] by auto
  have R: "real_ends es = insert k (real_ends rest)" using real_ends_skip(1) [of es] Cons e by simp
  obtain d where d: "sbitmap_copy dst (src k) = Some d" "denotes n (sbitmap_contents (src k)) d" "popcounts d = None"
    using first_edge [OF assms(1,2), of src k] assms(3) R by auto
  show ?thesis
    using combine_edges_denotes [OF op_words(1) d(2,3), of rest src] assms(2,3) Cons e d(1) R
    by (simp add: intersection_of_edges_def no_popcount_def fold_edges_inter)
qed

section \<open>Properties\<close>

text \<open>At a block of the flow graph the union over the successors or predecessors is the union
  of the bitmaps of the real neighbours, empty when there is none; the intersection is the
  intersection of the real neighbours' bitmaps when there is one, and the full set when the
  block has no edge at all. When all the edges lead to the pseudo block, the intersection
  leaves the destination as it was.\<close>

theorem flow_combinations:
  fixes dst :: "'w::len sbitmap"
  assumes "operand n dst" "popcounts dst = None"
    and "\<forall>k \<in> real_ends (succs cfg bb) \<union> real_ends (preds cfg bb). operand n (src k)"
  shows "(\<exists>r. sbitmap_union_of_succs cfg dst src bb = Some r
        \<and> denotes n (\<Union>k \<in> real_ends (succs cfg bb). sbitmap_contents (src k)) r)
    \<and> (\<exists>r. sbitmap_union_of_preds cfg dst src bb = Some r
        \<and> denotes n (\<Union>k \<in> real_ends (preds cfg bb). sbitmap_contents (src k)) r)
    \<and> (\<exists>r. sbitmap_intersection_of_succs cfg dst src bb = Some r
        \<and> denotes n (if real_ends (succs cfg bb) \<noteq> {} then \<Inter>k \<in> real_ends (succs cfg bb). sbitmap_contents (src k)
            else if succs cfg bb = [] then {..<n} else sbitmap_contents dst) r)
    \<and> (\<exists>r. sbitmap_intersection_of_preds cfg dst src bb = Some r
        \<and> denotes n (if real_ends (preds cfg bb) \<noteq> {} then \<Inter>k \<in> real_ends (preds cfg bb). sbitmap_contents (src k)
            else if preds cfg bb = [] then {..<n} else sbitmap_contents dst) r)"
  unfolding sbitmap_union_of_succs_def sbitmap_union_of_preds_def
    sbitmap_intersection_of_succs_def sbitmap_intersection_of_preds_def
  using union_of_edges_denotes [OF assms(1,2)] intersection_of_edges_denotes [OF assms(1,2)] assms(3)
  by simp

text \<open>Block 1 goes to blocks 3 and 4 and to the exit; block 2 only to the exit.\<close>

definition example_cfg :: flow_graph where
  "example_cfg = \<lparr>succs = (\<lambda>b. if b = 1 then [None, Some 3, Some 4] else [None]), preds = (\<lambda>b. [])\<rparr>"

lemma flow_combinations_witness:
  "(\<exists>r. sbitmap_union_of_succs example_cfg (bits_40 9) bits_40 1 = Some r \<and> denotes 40 {3, 4} r)
    \<and> (\<exists>r. sbitmap_intersection_of_succs example_cfg (bits_40 9) bits_40 2 = Some r \<and> denotes 40 {9} r)"
proof -
  have "operand 40 (bits_40 9)" "\<forall>k \<in> {3, 4}. operand 40 (bits_40 k)" by (simp_all add: bits_40)
  then show ?thesis
    using flow_combinations [of 40 "bits_40 9" example_cfg 1 bits_40]
      flow_combinations [of 40 "bits_40 9" example_cfg 2 bits_40]
    by (simp add: example_cfg_def bits_40 insert_commute)
qed

end
