(* ===== verification/Sparseset.thy ===== *)
theory Sparseset
  imports SetSpec
begin

text \<open>
  The sparse sets of \<open>gcc/sparseset.c\<close> and \<open>gcc/sparseset.h\<close>: a dense array of the members in
  the order of insertion and a sparse array that maps a member to its place in it, both in the
  one array \<open>elms\<close> of the structure. Routines that receive several sets may receive the same
  one twice, so these work on a store from addresses to sets. A failed \<open>gcc_assert\<close> and a write
  outside an array are \<open>None\<close>, as are the accesses of a membership test to places the array does not have. The size
  in bytes that is allocated wraps like the \<open>unsigned int\<close> it is computed in, on a host with pointers of 32 bits.
\<close>

section \<open>The structure\<close>

record sparseset =
  sp_elms :: "nat list"
  members :: nat
  sp_size :: nat
  iter :: nat
  iter_inc :: nat
  iterating :: bool

text \<open>The pointers \<open>dense\<close> and \<open>sparse\<close> into the array.\<close>

definition dense :: "sparseset \<Rightarrow> nat \<Rightarrow> nat" where
  "dense s idx = sp_elms s ! idx"

definition sparse :: "sparseset \<Rightarrow> nat \<Rightarrow> nat" where
  "sparse s e = sp_elms s ! (sp_size s + e)"

definition sparseset_clear :: "sparseset \<Rightarrow> sparseset" where
  "sparseset_clear s = s\<lparr>members := 0, iterating := False\<rparr>"

text \<open>The structure takes 32 bytes, the last eight of them for the first two places of \<open>elms\<close>. The block that is
  allocated has room for the fields only from 24 bytes on; the rest of it holds the array.\<close>

definition sparseset_alloc :: "nat \<Rightarrow> sparseset option" where
  "sparseset_alloc n_elms =
    (let n_bytes = nat ((32 + (int n_elms - 1) * 2 * 4) mod 2 ^ 32)
     in if n_bytes < 24 then None
        else
          Some (sparseset_clear
            \<lparr>sp_elms = replicate ((n_bytes - 24) div 4) 0, members = 0, sp_size = n_elms,
             iter = 0, iter_inc = 0, iterating = False\<rparr>))"

definition sparseset_cardinality :: "sparseset \<Rightarrow> nat" where
  "sparseset_cardinality s = members s"

definition sparseset_size :: "sparseset \<Rightarrow> nat" where
  "sparseset_size s = sp_size s"

definition sparseset_bit_p :: "sparseset \<Rightarrow> nat \<Rightarrow> bool option" where
  "sparseset_bit_p s e =
    (if e < sp_size s \<and> sp_size s + e < length (sp_elms s)
     then
       let idx = sparse s e
       in if idx < members s then
            if idx < length (sp_elms s) then Some (dense s idx = e) else None
          else Some False
     else None)"

definition sparseset_insert_bit :: "sparseset \<Rightarrow> nat \<Rightarrow> nat \<Rightarrow> sparseset option" where
  "sparseset_insert_bit s e idx =
    (if e < sp_size s \<and> idx < sp_size s \<and> sp_size s + e < length (sp_elms s)
     then Some (s\<lparr>sp_elms := (sp_elms s)[sp_size s + e := idx, idx := e]\<rparr>)
     else None)"

definition sparseset_set_bit :: "sparseset \<Rightarrow> nat \<Rightarrow> sparseset option" where
  "sparseset_set_bit s e =
    (case sparseset_bit_p s e of
       None \<Rightarrow> None
     | Some True \<Rightarrow> Some s
     | Some False \<Rightarrow> sparseset_insert_bit (s\<lparr>members := members s + 1\<rparr>) e (members s))"

definition sparseset_pop :: "sparseset \<Rightarrow> (nat \<times> sparseset) option" where
  "sparseset_pop s =
    (let mem = members s
     in if mem \<noteq> 0 then let s = s\<lparr>members := mem - 1\<rparr> in Some (dense s mem, s) else None)"

definition sparseset_swap :: "sparseset \<Rightarrow> nat \<Rightarrow> nat \<Rightarrow> sparseset option" where
  "sparseset_swap s idx1 idx2 =
    (let tmp = dense s idx2
     in case sparseset_insert_bit s (dense s idx1) idx2 of
          None \<Rightarrow> None
        | Some s \<Rightarrow> sparseset_insert_bit s tmp idx1)"

definition sparseset_clear_bit :: "sparseset \<Rightarrow> nat \<Rightarrow> sparseset option" where
  "sparseset_clear_bit s e =
    (case sparseset_bit_p s e of
       None \<Rightarrow> None
     | Some False \<Rightarrow> Some s
     | Some True \<Rightarrow>
         let idx = sparse s e; it = iter s; mem = members s - 1
         in case (if iterating s \<and> idx \<le> it then
                    if idx < it then map_option (\<lambda>s. (s\<lparr>iter_inc := 0\<rparr>, it)) (sparseset_swap s idx it)
                    else Some (s\<lparr>iter_inc := 0\<rparr>, idx)
                  else Some (s, idx)) of
              None \<Rightarrow> None
            | Some (s, idx) \<Rightarrow>
                map_option (\<lambda>s. s\<lparr>members := mem\<rparr>) (sparseset_insert_bit s (dense s mem) idx))"

section \<open>Iteration\<close>

definition sparseset_iter_init :: "sparseset \<Rightarrow> sparseset" where
  "sparseset_iter_init s = s\<lparr>iter := 0, iter_inc := 1, iterating := True\<rparr>"

definition sparseset_iter_p :: "sparseset \<Rightarrow> bool \<times> sparseset" where
  "sparseset_iter_p s =
    (if iterating s \<and> iter s < members s then (True, s) else (False, s\<lparr>iterating := False\<rparr>))"

definition sparseset_iter_elm :: "sparseset \<Rightarrow> nat" where
  "sparseset_iter_elm s = dense s (iter s)"

definition sparseset_iter_next :: "sparseset \<Rightarrow> sparseset" where
  "sparseset_iter_next s = s\<lparr>iter := iter s + iter_inc s, iter_inc := 1\<rparr>"

text \<open>The loop of \<open>EXECUTE_IF_SET_IN_SPARSESET\<close> over the set at address \<open>p\<close>. Its body changes the
  store, and leaves the loop early with a result of type \<open>'r\<close> or goes on. Nothing ensures that
  the loop ends, so not returning is \<open>None\<close> like the other failures.\<close>

type_synonym sparsesets = "nat \<Rightarrow> sparseset"

partial_function (option) sparseset_loop ::
  "nat \<Rightarrow> (nat \<Rightarrow> sparsesets \<Rightarrow> ('r option \<times> sparsesets) option) \<Rightarrow> sparsesets
   \<Rightarrow> ('r option \<times> sparsesets) option" where
  [code]: "sparseset_loop p body \<sigma> =
    (case sparseset_iter_p (\<sigma> p) of
       (go, s) \<Rightarrow>
         if go
         then Option.bind (body (sparseset_iter_elm s) (\<sigma>(p := s)))
           (\<lambda>(r, \<sigma>). if r = None
              then sparseset_loop p body (\<sigma>(p := sparseset_iter_next (\<sigma> p)))
              else Some (r, \<sigma>))
         else Some (None, \<sigma>(p := s)))"

definition EXECUTE_IF_SET_IN_SPARSESET ::
  "nat \<Rightarrow> (nat \<Rightarrow> sparsesets \<Rightarrow> sparsesets option) \<Rightarrow> sparsesets \<Rightarrow> sparsesets option" where
  "EXECUTE_IF_SET_IN_SPARSESET p body \<sigma> =
    map_option snd
      (sparseset_loop p (\<lambda>e \<sigma>. map_option (\<lambda>\<sigma>. (None :: unit option, \<sigma>)) (body e \<sigma>))
        (\<sigma>(p := sparseset_iter_init (\<sigma> p))))"

text \<open>A body \<open>if (test) operation (d, e)\<close>.\<close>

definition if_bit :: "nat \<Rightarrow> bool \<Rightarrow> (nat \<Rightarrow> sparsesets \<Rightarrow> sparsesets option) \<Rightarrow> nat \<Rightarrow> sparsesets \<Rightarrow> sparsesets option" where
  "if_bit q wanted f e \<sigma> =
    (case sparseset_bit_p (\<sigma> q) e of
       None \<Rightarrow> None
     | Some b \<Rightarrow> if b = wanted then f e \<sigma> else Some \<sigma>)"

definition on_set :: "nat \<Rightarrow> (sparseset \<Rightarrow> nat \<Rightarrow> sparseset option) \<Rightarrow> nat \<Rightarrow> sparsesets \<Rightarrow> sparsesets option" where
  "on_set d f e \<sigma> = map_option (\<lambda>s. \<sigma>(d := s)) (f (\<sigma> d) e)"

section \<open>Whole sets\<close>

text \<open>The loop of \<open>sparseset_copy\<close>, from index \<open>i\<close> on.\<close>

function sparseset_copy_from :: "sparseset \<Rightarrow> nat \<Rightarrow> sparseset \<Rightarrow> sparseset option" where
  "sparseset_copy_from s i d =
    (if i < members s
     then Option.bind (sparseset_insert_bit d (dense s i) i) (sparseset_copy_from s (i + 1))
     else Some d)"
  by pat_completeness auto
termination by (relation "measure (\<lambda>(s, i, d). members s - i)") auto

declare sparseset_copy_from.simps [simp del]

definition sparseset_copy :: "nat \<Rightarrow> nat \<Rightarrow> sparsesets \<Rightarrow> sparsesets option" where
  "sparseset_copy d s \<sigma> =
    (if d = s then Some \<sigma>
     else map_option (\<lambda>r. \<sigma>(d := r\<lparr>members := members (\<sigma> s)\<rparr>))
            (sparseset_copy_from (\<sigma> s) 0 (sparseset_clear (\<sigma> d))))"

definition sparseset_and :: "nat \<Rightarrow> nat \<Rightarrow> nat \<Rightarrow> sparsesets \<Rightarrow> sparsesets option" where
  "sparseset_and d a b \<sigma> =
    (if a = b then if d \<noteq> a then sparseset_copy d a \<sigma> else Some \<sigma>
     else if d = a \<or> d = b then
       let s = (if d = a then b else a)
       in EXECUTE_IF_SET_IN_SPARSESET d (if_bit s False (on_set d sparseset_clear_bit)) \<sigma>
     else
       let (sml, lrg) = (if sparseset_cardinality (\<sigma> a) < sparseset_cardinality (\<sigma> b) then (a, b) else (b, a));
           \<sigma> = \<sigma>(d := sparseset_clear (\<sigma> d))
       in EXECUTE_IF_SET_IN_SPARSESET sml (if_bit lrg True (on_set d sparseset_set_bit)) \<sigma>)"

definition sparseset_and_compl :: "nat \<Rightarrow> nat \<Rightarrow> nat \<Rightarrow> sparsesets \<Rightarrow> sparsesets option" where
  "sparseset_and_compl d a b \<sigma> =
    (if a = b then Some (\<sigma>(d := sparseset_clear (\<sigma> d)))
     else if d = b then None
     else if d = a then
       if sparseset_cardinality (\<sigma> d) < sparseset_cardinality (\<sigma> b)
       then EXECUTE_IF_SET_IN_SPARSESET d (if_bit b True (on_set d sparseset_clear_bit)) \<sigma>
       else EXECUTE_IF_SET_IN_SPARSESET b (on_set d sparseset_clear_bit) \<sigma>
     else
       let \<sigma> = \<sigma>(d := sparseset_clear (\<sigma> d))
       in EXECUTE_IF_SET_IN_SPARSESET a (if_bit b False (on_set d sparseset_set_bit)) \<sigma>)"

definition sparseset_ior :: "nat \<Rightarrow> nat \<Rightarrow> nat \<Rightarrow> sparsesets \<Rightarrow> sparsesets option" where
  "sparseset_ior d a b \<sigma> =
    (if a = b then sparseset_copy d a \<sigma>
     else if d = b then EXECUTE_IF_SET_IN_SPARSESET a (on_set d sparseset_set_bit) \<sigma>
     else
       Option.bind (if d \<noteq> a then sparseset_copy d a \<sigma> else Some \<sigma>)
         (EXECUTE_IF_SET_IN_SPARSESET b (on_set d sparseset_set_bit)))"

definition sparseset_equal_p :: "nat \<Rightarrow> nat \<Rightarrow> sparsesets \<Rightarrow> (bool \<times> sparsesets) option" where
  "sparseset_equal_p a b \<sigma> =
    (if a = b then Some (True, \<sigma>)
     else if sparseset_cardinality (\<sigma> a) \<noteq> sparseset_cardinality (\<sigma> b) then Some (False, \<sigma>)
     else
       map_option (\<lambda>(r, \<sigma>). (case r of None \<Rightarrow> True | Some v \<Rightarrow> v, \<sigma>))
         (sparseset_loop a
           (\<lambda>e \<sigma>. map_option (\<lambda>m. (if m then None else Some False, \<sigma>)) (sparseset_bit_p (\<sigma> b) e))
           (\<sigma>(a := sparseset_iter_init (\<sigma> a)))))"

end
