(* ===== verification/SparsesetSet.thy ===== *)
theory SparsesetSet
  imports Sparseset
begin

text \<open>
  Sparse sets as sets: the invariant that ties the two arrays together, what a single
  insertion or deletion does to the set, and what a deletion does to an iteration that is
  under way.
\<close>

section \<open>The invariant\<close>

definition sp_ok :: "sparseset \<Rightarrow> bool" where
  "sp_ok s \<longleftrightarrow>
    length (sp_elms s) = 2 * sp_size s \<and> members s \<le> sp_size s
    \<and> (\<forall>i < members s. dense s i < sp_size s \<and> sparse s (dense s i) = i)"

definition sp_contents :: "sparseset \<Rightarrow> nat set" where
  "sp_contents s = dense s ` {..<members s}"

lemma sp_okD:
  assumes "sp_ok s" "i < members s"
  shows "dense s i < sp_size s" "sparse s (dense s i) = i" "i < sp_size s"
  using assms by (auto simp: sp_ok_def)

lemma dense_inj: "sp_ok s \<Longrightarrow> inj_on (dense s) {..<members s}"
  by (rule inj_on_inverseI [where g = "sparse s"]) (simp add: sp_okD)

lemma sp_contents_bound: "sp_ok s \<Longrightarrow> sp_contents s \<subseteq> {..<sp_size s}"
  by (auto simp: sp_contents_def sp_okD)

lemma card_sp_contents: "sp_ok s \<Longrightarrow> card (sp_contents s) = members s"
  using card_image [OF dense_inj] by (simp add: sp_contents_def)

lemma finite_sp_contents [simp]: "finite (sp_contents s)"
  by (simp add: sp_contents_def)

lemma member_place:
  assumes "sp_ok s" "e \<in> sp_contents s"
  shows "sparse s e < members s" "dense s (sparse s e) = e"
  using assms by (auto simp: sp_contents_def sp_okD)

lemma bit_p_contents:
  assumes "sp_ok s" "e < sp_size s"
  shows "sparseset_bit_p s e = Some (e \<in> sp_contents s)"
proof -
  have len: "length (sp_elms s) = 2 * sp_size s" and m: "members s \<le> sp_size s" using assms(1) by (simp_all add: sp_ok_def)
  have "e \<in> sp_contents s" if "sparse s e < members s" "dense s (sparse s e) = e"
    using that by (metis image_eqI lessThan_iff sp_contents_def)
  then show ?thesis using assms(2) len m member_place [OF assms(1), of e]
    by (auto simp: sparseset_bit_p_def Let_def)
qed

text \<open>Only the arrays and the number of members matter.\<close>

lemma sp_ok_iteration [simp]:
  "sp_ok (s\<lparr>iter := i\<rparr>) = sp_ok s" "sp_ok (s\<lparr>iter_inc := i\<rparr>) = sp_ok s" "sp_ok (s\<lparr>iterating := b\<rparr>) = sp_ok s"
  by (simp_all add: sp_ok_def dense_def sparse_def)

lemma dense_update [simp]:
  "dense (s\<lparr>iter := i\<rparr>) = dense s" "dense (s\<lparr>iter_inc := i\<rparr>) = dense s" "dense (s\<lparr>iterating := b\<rparr>) = dense s"
  "dense (s\<lparr>members := i\<rparr>) = dense s"
  by (simp_all add: dense_def fun_eq_iff)

lemma sparse_update [simp]:
  "sparse (s\<lparr>iter := i\<rparr>) = sparse s" "sparse (s\<lparr>iter_inc := i\<rparr>) = sparse s" "sparse (s\<lparr>iterating := b\<rparr>) = sparse s"
  "sparse (s\<lparr>members := i\<rparr>) = sparse s"
  by (simp_all add: sparse_def fun_eq_iff)

lemma sp_contents_iteration [simp]:
  "sp_contents (s\<lparr>iter := i\<rparr>) = sp_contents s" "sp_contents (s\<lparr>iter_inc := i\<rparr>) = sp_contents s"
  "sp_contents (s\<lparr>iterating := b\<rparr>) = sp_contents s"
  by (simp_all add: sp_contents_def)

text \<open>The two writes of \<open>sparseset_insert_bit\<close>.\<close>

lemma insert_bit_arrays:
  assumes "length (sp_elms s) = 2 * sp_size s" "e < sp_size s" "idx < sp_size s"
  shows "\<exists>r. sparseset_insert_bit s e idx = Some r \<and> r = s\<lparr>sp_elms := sp_elms r\<rparr>
    \<and> length (sp_elms r) = 2 * sp_size s
    \<and> (\<forall>i < sp_size s. dense r i = (if i = idx then e else dense s i))
    \<and> (\<forall>x < sp_size s. sparse r x = (if x = e then idx else sparse s x))"
proof (intro exI conjI allI impI)
  let ?r = "s\<lparr>sp_elms := (sp_elms s)[sp_size s + e := idx, idx := e]\<rparr>"
  show "sparseset_insert_bit s e idx = Some ?r" using assms by (simp add: sparseset_insert_bit_def)
  show "?r = s\<lparr>sp_elms := sp_elms ?r\<rparr>" "length (sp_elms ?r) = 2 * sp_size s" using assms by simp_all
  show "\<And>i. i < sp_size s \<Longrightarrow> dense ?r i = (if i = idx then e else dense s i)"
    using assms by (simp add: dense_def nth_list_update)
  show "\<And>x. x < sp_size s \<Longrightarrow> sparse ?r x = (if x = e then idx else sparse s x)"
    using assms by (simp add: sparse_def nth_list_update)
qed

lemma same_fields:
  assumes "r = s\<lparr>sp_elms := x\<rparr>"
  shows "members r = members s" "sp_size r = sp_size s" "iter r = iter s" "iter_inc r = iter_inc s" "iterating r = iterating s"
  using assms by simp_all

section \<open>Insertion\<close>

lemma clear_ok: "sp_ok s \<Longrightarrow> sp_ok (sparseset_clear s) \<and> sp_contents (sparseset_clear s) = {}"
  by (simp add: sp_ok_def sp_contents_def sparseset_clear_def)

text \<open>Below 2^29 - 3 numbers the size in bytes does not wrap.\<close>

lemma alloc_ok:
  assumes "8 * n + 24 < 2 ^ 32"
  obtains s where "sparseset_alloc n = Some s" "sp_ok s" "sp_contents s = {}" "sp_size s = n" "\<not> iterating s"
proof -
  have "(32 + (int n - 1) * 2 * 4) mod 2 ^ 32 = 8 * int n + 24"
    using assms by (simp add: mod_pos_pos_trivial)
  then have "sparseset_alloc n = Some (sparseset_clear \<lparr>sp_elms = replicate (2 * n) 0, members = 0, sp_size = n,
       iter = 0, iter_inc = 0, iterating = False\<rparr>)"
    by (simp add: sparseset_alloc_def Let_def nat_add_distrib nat_mult_distrib)
  then show thesis by (rule that) (simp_all add: sp_ok_def sp_contents_def sparseset_clear_def)
qed

text \<open>From there on it does: the block is too small for the structure, or its array for the two arrays in it.\<close>

theorem sparseset_alloc_wraps:
  "n < 2 ^ 32 \<Longrightarrow> 2 ^ 32 \<le> 8 * n + 24 \<Longrightarrow>
    case sparseset_alloc n of None \<Rightarrow> True | Some s \<Rightarrow> sp_size s = n \<and> length (sp_elms s) < 2 * n"
proof -
  assume n: "2 ^ 32 \<le> 8 * n + 24"
  define b where "b = nat ((32 + (int n - 1) * 2 * 4) mod 2 ^ 32)"
  have "(32 + (int n - 1) * 2 * 4) mod 2 ^ 32 < (2 ^ 32 :: int)" by simp
  then have "b < 2 ^ 32" by (simp add: b_def nat_less_iff)
  then have "(b - 24) div 4 < 2 * n" using n by simp
  then show ?thesis
    unfolding sparseset_alloc_def b_def [symmetric] Let_def by (simp add: sparseset_clear_def)
qed

text \<open>Writing a new element behind the last member.\<close>

lemma append_member:
  assumes ok: "sp_ok s" and e: "e < sp_size s" "e \<notin> sp_contents s"
  obtains r where "sparseset_insert_bit s e (members s) = Some r" "r = s\<lparr>sp_elms := sp_elms r\<rparr>"
    "sp_ok (r\<lparr>members := members s + 1\<rparr>)"
    "sp_contents (r\<lparr>members := members s + 1\<rparr>) = insert e (sp_contents s)"
proof -
  have m: "members s < sp_size s"
  proof -
    have "card (insert e (sp_contents s)) \<le> card {..<sp_size s}"
      using sp_contents_bound [OF ok] e(1) by (intro card_mono) auto
    then show ?thesis using e(2) card_sp_contents [OF ok] by simp
  qed
  have len: "length (sp_elms s) = 2 * sp_size s" using ok by (simp add: sp_ok_def)
  obtain r where r: "sparseset_insert_bit s e (members s) = Some r" "r = s\<lparr>sp_elms := sp_elms r\<rparr>"
    "length (sp_elms r) = 2 * sp_size s"
    "\<And>i. i < sp_size s \<Longrightarrow> dense r i = (if i = members s then e else dense s i)"
    "\<And>x. x < sp_size s \<Longrightarrow> sparse r x = (if x = e then members s else sparse s x)"
    using insert_bit_arrays [OF len e(1) m] by blast
  have d: "dense r i \<noteq> e" "dense r i = dense s i" if "i < members s" for i
    using that e(2) r(4) m by (auto simp: sp_contents_def)
  let ?t = "r\<lparr>members := members s + 1\<rparr>"
  have "sp_ok ?t"
    unfolding sp_ok_def using r(3) m same_fields [OF r(2)] r(4) [OF m] r(5) [OF e(1)] e(1) d r(5) sp_okD [OF ok]
    by (auto simp: less_Suc_eq)
  moreover have "sp_contents ?t = insert e (sp_contents s)"
  proof -
    have "dense r ` {..<members s} = sp_contents s" using d(2) by (simp add: sp_contents_def)
    then show ?thesis using r(4) m by (simp add: sp_contents_def lessThan_Suc)
  qed
  ultimately show ?thesis using that r(1,2) by blast
qed

lemma set_bit_ok:
  assumes "sp_ok s" "e < sp_size s"
  shows "\<exists>r. sparseset_set_bit s e = Some r \<and> sp_ok r \<and> sp_contents r = insert e (sp_contents s)
    \<and> sp_size r = sp_size s \<and> iter r = iter s \<and> iter_inc r = iter_inc s \<and> iterating r = iterating s"
proof (cases "e \<in> sp_contents s")
  case False
  obtain r where r: "sparseset_insert_bit s e (members s) = Some r" "r = s\<lparr>sp_elms := sp_elms r\<rparr>"
    "sp_ok (r\<lparr>members := members s + 1\<rparr>)"
    "sp_contents (r\<lparr>members := members s + 1\<rparr>) = insert e (sp_contents s)"
    by (rule append_member [OF assms False])
  have "sparseset_insert_bit (s\<lparr>members := members s + 1\<rparr>) e (members s) = Some (r\<lparr>members := members s + 1\<rparr>)"
    using r(1) by (auto simp: sparseset_insert_bit_def split: if_splits)
  then show ?thesis
    using False bit_p_contents [OF assms] r(3,4) same_fields [OF r(2)] by (simp add: sparseset_set_bit_def)
qed (use assms bit_p_contents [OF assms] in \<open>auto simp: sparseset_set_bit_def insert_absorb\<close>)

section \<open>Deletion\<close>

text \<open>Moving the last value of an injective sequence over another one.\<close>

lemma image_replace_last:
  assumes "inj_on f {..<Suc n}" "idx \<le> n" "k \<le> idx" "\<And>i. i < n \<Longrightarrow> g i = (if i = idx then f n else f i)"
  shows "g ` {k..<n} = f ` {k..<Suc n} - {f idx}"
proof -
  have "f ` {k..<Suc n} - {f idx} = f ` ({k..<Suc n} - {idx})"
    using assms(1-3) by (subst inj_on_image_set_diff [OF assms(1)]) auto
  also have "\<dots> = g ` {k..<n}"
  proof (intro set_eqI iffI)
    fix x assume "x \<in> f ` ({k..<Suc n} - {idx})"
    then obtain i where "x = f i" "i \<in> {k..<Suc n} - {idx}" by blast
    then have i: "x = f i" "k \<le> i" "i \<le> n" "i \<noteq> idx" by simp_all
    show "x \<in> g ` {k..<n}"
    proof (cases "i = n")
      case True
      then show ?thesis using i assms(2,3) assms(4) [of idx] by (intro image_eqI [of _ _ idx]) auto
    next
      case False
      then show ?thesis using i assms(4) [of i] by (intro image_eqI [of _ _ i]) auto
    qed
  next
    fix x assume "x \<in> g ` {k..<n}"
    then obtain i where "x = g i" "k \<le> i" "i < n" by auto
    then show "x \<in> f ` ({k..<Suc n} - {idx})"
      using assms(2,3) assms(4) [of i] by (cases "i = idx") auto
  qed
  finally show ?thesis by simp
qed

lemma drop_member:
  assumes ok: "sp_ok s" and idx: "idx < members s"
  shows "\<exists>r. sparseset_insert_bit s (dense s (members s - 1)) idx = Some r \<and> r = s\<lparr>sp_elms := sp_elms r\<rparr>
    \<and> sp_ok (r\<lparr>members := members s - 1\<rparr>)
    \<and> (\<forall>i < members s - 1. dense r i = (if i = idx then dense s (members s - 1) else dense s i))"
proof -
  let ?n = "members s - 1"
  have n: "?n < members s" "Suc ?n = members s" using idx by simp_all
  have len: "length (sp_elms s) = 2 * sp_size s" using ok by (simp add: sp_ok_def)
  obtain r where r: "sparseset_insert_bit s (dense s ?n) idx = Some r" "r = s\<lparr>sp_elms := sp_elms r\<rparr>"
    "length (sp_elms r) = 2 * sp_size s"
    "\<forall>i < sp_size s. dense r i = (if i = idx then dense s ?n else dense s i)"
    "\<forall>x < sp_size s. sparse r x = (if x = dense s ?n then idx else sparse s x)"
    using insert_bit_arrays [OF len sp_okD(1) [OF ok n(1)] sp_okD(3) [OF ok idx]] by blast
  have "dense r i < sp_size s \<and> sparse r (dense r i) = i" if i: "i < ?n" for i
  proof (cases "i = idx")
    case True
    then show ?thesis using r(4,5) sp_okD [OF ok idx] sp_okD [OF ok n(1)] by simp
  next
    case False
    have im: "i < members s" "i \<noteq> ?n" using i by simp_all
    have "dense s i \<noteq> dense s ?n" using sp_okD(2) [OF ok im(1)] sp_okD(2) [OF ok n(1)] im(2) by metis
    then show ?thesis using False r(4,5) sp_okD [OF ok im(1)] by simp
  qed
  then have "sp_ok (r\<lparr>members := ?n\<rparr>)"
    using ok same_fields [OF r(2)] r(3) by (simp add: sp_ok_def le_diff_conv)
  then show ?thesis using r(1,2,4) sp_okD(3) [OF ok] by auto
qed

lemma swap_ok:
  assumes ok: "sp_ok s" and i: "i < members s" and j: "j < members s" and "i \<noteq> j"
  shows "\<exists>r. sparseset_swap s i j = Some r \<and> r = s\<lparr>sp_elms := sp_elms r\<rparr> \<and> sp_ok r
    \<and> (\<forall>k < members s. dense r k = (if k = i then dense s j else if k = j then dense s i else dense s k))"
proof -
  note I = sp_okD [OF ok i] and J = sp_okD [OF ok j]
  have len: "length (sp_elms s) = 2 * sp_size s" using ok by (simp add: sp_ok_def)
  obtain t where t: "sparseset_insert_bit s (dense s i) j = Some t" "t = s\<lparr>sp_elms := sp_elms t\<rparr>"
    "length (sp_elms t) = 2 * sp_size s"
    "\<forall>k < sp_size s. dense t k = (if k = j then dense s i else dense s k)"
    "\<forall>x < sp_size s. sparse t x = (if x = dense s i then j else sparse s x)"
    using insert_bit_arrays [OF len I(1) J(3)] by blast
  note T = same_fields [OF t(2)]
  obtain r where r: "sparseset_insert_bit t (dense s j) i = Some r" "r = t\<lparr>sp_elms := sp_elms r\<rparr>"
    "length (sp_elms r) = 2 * sp_size s"
    "\<forall>k < sp_size s. dense r k = (if k = i then dense s j else dense t k)"
    "\<forall>x < sp_size s. sparse r x = (if x = dense s j then i else sparse t x)"
    using insert_bit_arrays [of t "dense s j" i] t(3) T J(1) I(3) by auto
  have d: "dense r k = (if k = i then dense s j else if k = j then dense s i else dense s k)"
    if "k < members s" for k
    using that r(4) t(4) sp_okD(3) [OF ok that] assms(4) by simp
  have "dense r k < sp_size s \<and> sparse r (dense r k) = k" if k: "k < members s" for k
  proof -
    have "dense s k = dense s i \<longleftrightarrow> k = i" "dense s k = dense s j \<longleftrightarrow> k = j" "dense s i \<noteq> dense s j"
      using sp_okD(2) [OF ok k] I(2) J(2) assms(4) by metis+
    then show ?thesis using d [OF k] r(5) t(5) sp_okD [OF ok k] I J
      by (cases "k = i"; cases "k = j") simp_all
  qed
  then have "sp_ok r" using ok same_fields [OF r(2)] T r(3) by (simp add: sp_ok_def)
  moreover have "sparseset_swap s i j = Some r" using t(1) r(1) by (simp add: sparseset_swap_def Let_def)
  moreover have "r = s\<lparr>sp_elms := sp_elms r\<rparr>" 
    using same_fields [OF r(2)] T by (intro sparseset.equality) simp_all
  ultimately show ?thesis using d by blast
qed

text \<open>The members still to come in an iteration, after the current one.\<close>

definition sp_pending :: "sparseset \<Rightarrow> nat set" where
  "sp_pending s = dense s ` {iter s + iter_inc s..<members s}"

lemma clear_bit_ok:
  assumes ok: "sp_ok s" and e: "e < sp_size s" and it: "iterating s \<Longrightarrow> iter s < members s"
  shows "\<exists>r. sparseset_clear_bit s e = Some r \<and> sp_ok r \<and> sp_contents r = sp_contents s - {e}
    \<and> sp_size r = sp_size s \<and> iter r = iter s \<and> iterating r = iterating s
    \<and> (iterating s \<and> iter_inc s = 1 \<longrightarrow> sp_pending r = sp_pending s - {e}
        \<and> iter_inc r = (if e \<in> sp_contents s \<and> sparse s e \<le> iter s then 0 else 1))"
proof (cases "e \<in> sp_contents s")
  case False
  then have "e \<notin> sp_pending s" by (auto simp: sp_pending_def sp_contents_def)
  then show ?thesis using False bit_p_contents [OF ok e] ok by (simp add: sparseset_clear_bit_def)
next
  case True
  define idx where "idx = sparse s e"
  have idx: "idx < members s" "dense s idx = e" using member_place [OF ok True] by (simp_all add: idx_def)
  have bp: "sparseset_bit_p s e = Some True" using bit_p_contents [OF ok e] True by simp
  note inj = dense_inj [OF ok]
  have S: "Suc (members s - 1) = members s" using idx(1) by simp
  define at where "at = (if iterating s \<and> idx \<le> iter s then iter s else idx)"
  have at: "at < members s" using it idx(1) by (auto simp: at_def)
  define i0 where "i0 = (if iterating s \<and> idx \<le> iter s then 0 else iter_inc s)"
  text \<open>First bring the element to the place \<open>at\<close>.\<close>
  obtain t where t: "(if iterating s \<and> idx \<le> iter s then
        if idx < iter s then map_option (\<lambda>s'. (s'\<lparr>iter_inc := 0\<rparr>, iter s)) (sparseset_swap s idx (iter s))
        else Some (s\<lparr>iter_inc := 0\<rparr>, idx)
      else Some (s, idx)) = Some (t, at)"
    "sp_ok t" "t = s\<lparr>sp_elms := sp_elms t, iter_inc := i0\<rparr>" "dense t at = e"
    "dense t ` {..<members s} = dense s ` {..<members s}" "\<forall>k. iter s < k \<and> k < members s \<longrightarrow> dense t k = dense s k"
  proof (cases "iterating s \<and> idx < iter s")
    case False
    then show ?thesis
      using that [of "if iterating s \<and> idx \<le> iter s then s\<lparr>iter_inc := 0\<rparr> else s"] ok idx
      by (auto simp: at_def i0_def)
  next
    case True
    then have il: "iter s < members s" "idx \<noteq> iter s" using it by auto
    obtain r where r: "sparseset_swap s idx (iter s) = Some r" "r = s\<lparr>sp_elms := sp_elms r\<rparr>" "sp_ok r"
      "\<forall>k < members s. dense r k = (if k = idx then dense s (iter s) else if k = iter s then dense s idx else dense s k)"
      using swap_ok [OF ok idx(1) il] by blast
    have m: "members r = members s" using same_fields [OF r(2)] by simp
    have "dense r ` {..<members s} \<subseteq> dense s ` {..<members s}" using r(4) idx(1) il(1) by auto
    moreover have "card (dense r ` {..<members s}) = card (dense s ` {..<members s})"
      using card_image [OF dense_inj [OF r(3)]] card_image [OF inj] m by simp
    ultimately have im: "dense r ` {..<members s} = dense s ` {..<members s}" by (intro card_subset_eq) auto
    show ?thesis
    proof (rule that [of "r\<lparr>iter_inc := 0\<rparr>"])
      show "r\<lparr>iter_inc := 0\<rparr> = s\<lparr>sp_elms := sp_elms (r\<lparr>iter_inc := 0\<rparr>), iter_inc := i0\<rparr>"
        using True by (subst r(2)) (simp add: i0_def)
      show "dense (r\<lparr>iter_inc := 0\<rparr>) ` {..<members s} = dense s ` {..<members s}" by (simp only: im dense_update)
    qed (use True r(1,3,4) idx il in \<open>simp_all add: at_def\<close>)
  qed
  have T: "members t = members s" "sp_size t = sp_size s" "iter t = iter s" "iter_inc t = i0" "iterating t = iterating s"
    using arg_cong [OF t(3), of members] arg_cong [OF t(3), of sp_size] arg_cong [OF t(3), of iter]
      arg_cong [OF t(3), of iter_inc] arg_cong [OF t(3), of iterating] by simp_all
  obtain r where r: "sparseset_insert_bit t (dense t (members s - 1)) at = Some r" "r = t\<lparr>sp_elms := sp_elms r\<rparr>"
    "sp_ok (r\<lparr>members := members s - 1\<rparr>)"
    "\<forall>i < members s - 1. dense r i = (if i = at then dense t (members s - 1) else dense t i)"
    using drop_member [OF t(2), of at] at T(1) by auto
  let ?r = "r\<lparr>members := members s - 1\<rparr>"
  have res: "sparseset_clear_bit s e = Some ?r"
    by (simp only: sparseset_clear_bit_def bp Let_def idx_def [symmetric] t(1) r(1) option.case bool.case prod.case option.map)
  have inj': "inj_on (dense t) {..<Suc (members s - 1)}" using dense_inj [OF t(2)] T(1) S by simp
  have moved: "dense r ` {k..<members s - 1} = dense t ` {k..<members s} - {e}" if "k \<le> at" for k
    using image_replace_last [OF inj' _ that, of "dense r"] at r(4) t(4) S by simp
  have c: "sp_contents ?r = sp_contents s - {e}"
    using moved [of 0] t(5) by (simp add: sp_contents_def atLeast0LessThan)
  have "sp_pending ?r = sp_pending s - {e}" if i: "iterating s" "iter_inc s = 1"
  proof -
    have after: "dense t ` {Suc (iter s)..<members s} = sp_pending s"
      using t(6) i(2) by (auto simp: sp_pending_def intro!: image_cong)
    show ?thesis
    proof (cases "idx \<le> iter s")
      case True
      then have a: "at = iter s" using i by (simp add: at_def)
      have "{iter s..<members s} = insert (iter s) {Suc (iter s)..<members s}" using at a by auto
      then show ?thesis
        using moved [of "iter s"] after a t(4) same_fields [OF r(2)] T True i by (auto simp: sp_pending_def i0_def)
    next
      case False
      then show ?thesis
        using moved [of "Suc (iter s)"] after same_fields [OF r(2)] T i by (simp add: sp_pending_def i0_def at_def)
    qed
  qed
  then show ?thesis
    using res r(3) c same_fields [OF r(2)] T True by (auto simp: i0_def idx_def)
qed

end
