(* ===== verification/SparsesetOps.thy ===== *)
theory SparsesetOps
  imports SparsesetSet
begin

text \<open>
  Iterations over sparse sets and the operations of \<open>gcc/sparseset.c\<close> that are built from them:
  copy, intersection, difference, union and equality, for every way their arguments may be the
  same set.
\<close>

section \<open>Loops\<close>

definition sp_good :: "sparseset \<Rightarrow> bool" where
  "sp_good s \<longleftrightarrow> sp_ok s \<and> \<not> iterating s"

text \<open>Only the fields of the iteration differ.\<close>

definition untouched :: "sparseset \<Rightarrow> sparseset \<Rightarrow> bool" where
  "untouched s s' \<longleftrightarrow>
    sp_elms s' = sp_elms s \<and> members s' = members s \<and> sp_size s' = sp_size s
    \<and> (\<not> iterating s \<longrightarrow> \<not> iterating s')"

lemma untouched_same:
  assumes "untouched s s'"
  shows "dense s' = dense s" "sparse s' = sparse s" "sp_ok s' = sp_ok s" "sp_contents s' = sp_contents s"
    "sp_size s' = sp_size s" "sp_good s \<Longrightarrow> sp_good s'"
proof -
  show d: "dense s' = dense s" "sparse s' = sparse s"
    using assms by (simp_all add: untouched_def dense_def sparse_def fun_eq_iff)
  show ok: "sp_ok s' = sp_ok s" and "sp_contents s' = sp_contents s" "sp_size s' = sp_size s"
    using assms d by (simp_all add: sp_ok_def sp_contents_def untouched_def)
  then show "sp_good s \<Longrightarrow> sp_good s'" using assms by (simp add: sp_good_def untouched_def)
qed

lemma untouched_refl [simp]: "untouched s s"
  by (simp add: untouched_def)

lemma untouched_trans: "untouched s t \<Longrightarrow> untouched t u \<Longrightarrow> untouched s u"
  by (simp add: untouched_def)

text \<open>An iteration with an invariant ends and reaches the invariant's exit.\<close>

lemma loop_rule:
  assumes step: "\<And>\<sigma>. I \<sigma> \<Longrightarrow> iter (\<sigma> p) < members (\<sigma> p) \<Longrightarrow>
      \<exists>\<sigma>'. body (sparseset_iter_elm (\<sigma> p)) \<sigma> = Some (None, \<sigma>')
        \<and> I (\<sigma>'(p := sparseset_iter_next (\<sigma>' p)))
        \<and> members (\<sigma>' p) - (iter (\<sigma>' p) + iter_inc (\<sigma>' p)) < members (\<sigma> p) - iter (\<sigma> p)"
    and it: "\<And>\<sigma>. I \<sigma> \<Longrightarrow> iterating (\<sigma> p)"
  shows "I \<sigma> \<Longrightarrow> \<exists>\<sigma>'. sparseset_loop p body \<sigma> = Some (None, \<sigma>'(p := (\<sigma>' p)\<lparr>iterating := False\<rparr>))
    \<and> I \<sigma>' \<and> members (\<sigma>' p) \<le> iter (\<sigma>' p)"
proof (induction "members (\<sigma> p) - iter (\<sigma> p)" arbitrary: \<sigma> rule: less_induct)
  case less
  show ?case
  proof (cases "iter (\<sigma> p) < members (\<sigma> p)")
    case True
    obtain \<sigma>' where s: "body (sparseset_iter_elm (\<sigma> p)) \<sigma> = Some (None, \<sigma>')"
      "I (\<sigma>'(p := sparseset_iter_next (\<sigma>' p)))"
      "members (\<sigma>' p) - (iter (\<sigma>' p) + iter_inc (\<sigma>' p)) < members (\<sigma> p) - iter (\<sigma> p)"
      using step [OF less.prems True] by blast
    have "sparseset_loop p body \<sigma> = sparseset_loop p body (\<sigma>'(p := sparseset_iter_next (\<sigma>' p)))"
      using it [OF less.prems] True s(1) by (subst sparseset_loop.simps) (simp add: sparseset_iter_p_def)
    then show ?thesis
      using less.hyps [OF _ s(2)] s(3) by (simp add: sparseset_iter_next_def)
  next
    case False
    then show ?thesis using less.prems
      by (subst sparseset_loop.simps) (auto simp: sparseset_iter_p_def)
  qed
qed

text \<open>A loop whose body changes another set and relates it to the members handled so far.\<close>

lemma loop_other:
  assumes "p \<noteq> d" "R {} (\<sigma> d)"
    and body: "\<And>X e \<sigma>'. e \<in> sp_contents (\<sigma> p) \<Longrightarrow> R X (\<sigma>' d) \<Longrightarrow> \<forall>q. q \<notin> {p, d} \<longrightarrow> \<sigma>' q = \<sigma> q \<Longrightarrow>
      \<exists>s. body e \<sigma>' = Some (\<sigma>'(d := s)) \<and> R (insert e X) s"
  shows "\<exists>\<sigma>'. EXECUTE_IF_SET_IN_SPARSESET p body \<sigma> = Some \<sigma>' \<and> R (sp_contents (\<sigma> p)) (\<sigma>' d)
    \<and> untouched (\<sigma> p) (\<sigma>' p) \<and> (\<forall>q. q \<notin> {p, d} \<longrightarrow> \<sigma>' q = \<sigma> q)"
proof -
  let ?at = "\<lambda>k. (\<sigma> p)\<lparr>iter := k, iter_inc := 1, iterating := True\<rparr>"
  let ?body = "\<lambda>e \<sigma>. map_option (\<lambda>\<sigma>. (None :: unit option, \<sigma>)) (body e \<sigma>)"
  define I where "I \<tau> \<longleftrightarrow> (\<exists>k \<le> members (\<sigma> p). \<tau> p = ?at k
    \<and> (\<forall>q. q \<notin> {p, d} \<longrightarrow> \<tau> q = \<sigma> q) \<and> R (dense (\<sigma> p) ` {..<k}) (\<tau> d))" for \<tau>
  have I0: "I (\<sigma>(p := sparseset_iter_init (\<sigma> p)))"
    using assms(1,2) unfolding I_def by (intro exI [of _ 0]) (simp add: sparseset_iter_init_def)
  have step: "\<exists>\<sigma>'. ?body (sparseset_iter_elm (\<tau> p)) \<tau> = Some (None, \<sigma>')
        \<and> I (\<sigma>'(p := sparseset_iter_next (\<sigma>' p)))
        \<and> members (\<sigma>' p) - (iter (\<sigma>' p) + iter_inc (\<sigma>' p)) < members (\<tau> p) - iter (\<tau> p)"
    if I: "I \<tau>" and lt: "iter (\<tau> p) < members (\<tau> p)" for \<tau>
  proof -
    obtain k where k: "\<tau> p = ?at k" "\<forall>q. q \<notin> {p, d} \<longrightarrow> \<tau> q = \<sigma> q" "R (dense (\<sigma> p) ` {..<k}) (\<tau> d)"
      using I by (auto simp: I_def)
    have km: "k < members (\<sigma> p)" using lt k(1) by simp
    have e: "sparseset_iter_elm (\<tau> p) = dense (\<sigma> p) k" by (simp add: k(1) sparseset_iter_elm_def)
    have "dense (\<sigma> p) k \<in> sp_contents (\<sigma> p)" using km by (simp add: sp_contents_def)
    then obtain s where s: "body (dense (\<sigma> p) k) \<tau> = Some (\<tau>(d := s))"
      "R (insert (dense (\<sigma> p) k) (dense (\<sigma> p) ` {..<k})) s"
      using body [OF _ k(3,2)] by blast
    have "I ((\<tau>(d := s))(p := sparseset_iter_next ((\<tau>(d := s)) p)))"
      unfolding I_def using k(1,2) km s(2) assms(1)
      by (intro exI [of _ "Suc k"]) (simp add: sparseset_iter_next_def lessThan_Suc)
    then show ?thesis using s(1) e k(1) km assms(1) by simp
  qed
  have it: "I \<tau> \<Longrightarrow> iterating (\<tau> p)" for \<tau> by (auto simp: I_def)
  have "\<exists>\<tau>. sparseset_loop p ?body (\<sigma>(p := sparseset_iter_init (\<sigma> p)))
      = Some (None, \<tau>(p := (\<tau> p)\<lparr>iterating := False\<rparr>)) \<and> I \<tau> \<and> members (\<tau> p) \<le> iter (\<tau> p)"
    by (rule loop_rule [of I]) (erule (1) step, erule it, rule I0)
  then obtain \<tau> where t: "sparseset_loop p ?body (\<sigma>(p := sparseset_iter_init (\<sigma> p)))
      = Some (None, \<tau>(p := (\<tau> p)\<lparr>iterating := False\<rparr>))" "I \<tau>" "members (\<tau> p) \<le> iter (\<tau> p)" by blast
  then obtain k where k: "\<tau> p = ?at k" "k = members (\<sigma> p)" "\<forall>q. q \<notin> {p, d} \<longrightarrow> \<tau> q = \<sigma> q"
    "R (dense (\<sigma> p) ` {..<k}) (\<tau> d)" by (auto simp: I_def)
  show ?thesis
    using t(1) k assms(1) by (auto simp: EXECUTE_IF_SET_IN_SPARSESET_def untouched_def sp_contents_def)
qed

text \<open>A loop that deletes members of the set it walks over.\<close>

lemma loop_delete:
  assumes ok: "sp_ok (\<sigma> d)" "sp_ok (\<sigma> q)" and qd: "q \<noteq> d" and sz: "sp_size (\<sigma> d) \<le> sp_size (\<sigma> q)"
  shows "\<exists>s. EXECUTE_IF_SET_IN_SPARSESET d (if_bit q wanted (on_set d sparseset_clear_bit)) \<sigma> = Some (\<sigma>(d := s))
    \<and> sp_good s \<and> sp_size s = sp_size (\<sigma> d)
    \<and> sp_contents s = {x \<in> sp_contents (\<sigma> d). (x \<in> sp_contents (\<sigma> q)) \<noteq> wanted}"
proof -
  let ?body = "\<lambda>e \<sigma>. map_option (\<lambda>\<sigma>. (None :: unit option, \<sigma>)) (if_bit q wanted (on_set d sparseset_clear_bit) e \<sigma>)"
  let ?A = "sp_contents (\<sigma> d)" and ?B = "sp_contents (\<sigma> q)"
  define todo where "todo s = dense s ` {iter s..<members s}" for s
  define J where "J s \<longleftrightarrow> sp_ok s \<and> sp_size s = sp_size (\<sigma> d) \<and> iterating s \<and> iter_inc s = 1
    \<and> sp_contents s = {x \<in> ?A. (x \<in> ?B) \<noteq> wanted \<or> x \<in> todo s}" for s
  define I where "I \<tau> \<longleftrightarrow> (\<exists>s. \<tau> = \<sigma>(d := s) \<and> J s)" for \<tau>
  have init: "J (sparseset_iter_init (\<sigma> d))"
    using ok(1) by (auto simp: J_def todo_def sparseset_iter_init_def sp_contents_def)
  have step: "\<exists>s'. ?body (sparseset_iter_elm s) (\<sigma>(d := s)) = Some (None, \<sigma>(d := s'))
      \<and> J (sparseset_iter_next s') \<and> members s' - (iter s' + iter_inc s') < members s - iter s"
    if J: "J s" and lt: "iter s < members s" for s
  proof -
    let ?e = "dense s (iter s)"
    have s: "sp_ok s" "sp_size s = sp_size (\<sigma> d)" "iterating s" "iter_inc s = 1" using J by (simp_all add: J_def)
    have e: "?e < sp_size s" "?e \<in> sp_contents s" "sparse s ?e = iter s"
      using sp_okD [OF s(1) lt] lt by (simp_all add: sp_contents_def)
    have "{iter s..<members s} = insert (iter s) {Suc (iter s)..<members s}" using lt by auto
    then have todo: "todo s = insert ?e (sp_pending s)" using s(4) by (simp add: todo_def sp_pending_def)
    have notin: "?e \<notin> sp_pending s"
    proof
      assume "?e \<in> sp_pending s"
      then obtain k where "dense s k = ?e" "iter s < k" "k < members s" using s(4) by (auto simp: sp_pending_def)
      then show False using sp_okD(2) [OF s(1), of k] e(3) by simp
    qed
    have next_todo: "todo (sparseset_iter_next s') = sp_pending s'" for s'
      by (simp add: todo_def sp_pending_def sparseset_iter_next_def dense_def)
    have next_ok: "J (sparseset_iter_next s') \<longleftrightarrow> sp_ok s' \<and> sp_size s' = sp_size (\<sigma> d) \<and> iterating s'
        \<and> sp_contents s' = {x \<in> ?A. (x \<in> ?B) \<noteq> wanted \<or> x \<in> sp_pending s'}" for s'
      unfolding J_def next_todo by (simp add: sparseset_iter_next_def)
    have bp: "sparseset_bit_p (\<sigma> q) ?e = Some (?e \<in> ?B)"
      using e(1) s(2) sz by (intro bit_p_contents [OF ok(2)]) simp
    have c: "sp_contents s = {x \<in> ?A. (x \<in> ?B) \<noteq> wanted \<or> x \<in> insert ?e (sp_pending s)}"
      using J todo by (simp add: J_def)
    show ?thesis
    proof (cases "(?e \<in> ?B) = wanted")
      case False
      then have "J (sparseset_iter_next s)" unfolding next_ok using s c by auto
      then show ?thesis
        using False bp qd lt s(4) by (intro exI [of _ s]) (simp add: if_bit_def sparseset_iter_elm_def)
    next
      case True
      obtain s' where s': "sparseset_clear_bit s ?e = Some s'" "sp_ok s'" "sp_contents s' = sp_contents s - {?e}"
        "sp_size s' = sp_size s" "iter s' = iter s" "iterating s' = iterating s" "sp_pending s' = sp_pending s" "iter_inc s' = 0"
        using clear_bit_ok [OF s(1) e(1)] lt s(3,4) e(2,3) notin by auto
      have m: "members s' < members s"
        using card_sp_contents [OF s'(2)] card_sp_contents [OF s(1)] s'(3) e(2) lt by simp
      have "J (sparseset_iter_next s')" unfolding next_ok using s s' c notin True by auto
      moreover have "?body (sparseset_iter_elm s) (\<sigma>(d := s)) = Some (None, \<sigma>(d := s'))"
        using True bp qd s'(1) by (simp add: if_bit_def on_set_def sparseset_iter_elm_def)
      ultimately show ?thesis using s'(5,8) m lt by (intro exI [of _ s']) simp
    qed
  qed
  have "\<exists>\<tau>. sparseset_loop d ?body (\<sigma>(d := sparseset_iter_init (\<sigma> d)))
      = Some (None, \<tau>(d := (\<tau> d)\<lparr>iterating := False\<rparr>)) \<and> I \<tau> \<and> members (\<tau> d) \<le> iter (\<tau> d)"
  proof (rule loop_rule [of I])
    show "I (\<sigma>(d := sparseset_iter_init (\<sigma> d)))" using init by (auto simp: I_def)
    show "I \<tau> \<Longrightarrow> iterating (\<tau> d)" for \<tau> by (auto simp: I_def J_def)
    fix \<tau> assume "I \<tau>" and lt: "iter (\<tau> d) < members (\<tau> d)"
    then obtain s where s: "\<tau> = \<sigma>(d := s)" "J s" by (auto simp: I_def)
    then obtain s' where s': "?body (sparseset_iter_elm s) (\<sigma>(d := s)) = Some (None, \<sigma>(d := s'))"
      "J (sparseset_iter_next s')" "members s' - (iter s' + iter_inc s') < members s - iter s"
      using step [OF s(2)] lt by auto
    then show "\<exists>\<sigma>'. ?body (sparseset_iter_elm (\<tau> d)) \<tau> = Some (None, \<sigma>')
        \<and> I (\<sigma>'(d := sparseset_iter_next (\<sigma>' d)))
        \<and> members (\<sigma>' d) - (iter (\<sigma>' d) + iter_inc (\<sigma>' d)) < members (\<tau> d) - iter (\<tau> d)"
      using s(1) by (intro exI [of _ "\<sigma>(d := s')"]) (auto simp: I_def)
  qed
  then obtain s where s: "sparseset_loop d ?body (\<sigma>(d := sparseset_iter_init (\<sigma> d)))
      = Some (None, \<sigma>(d := s\<lparr>iterating := False\<rparr>))" "J s" "members s \<le> iter s" by (auto simp: I_def)
  then have "todo s = {}" by (simp add: todo_def)
  then show ?thesis
    using s by (intro exI [of _ "s\<lparr>iterating := False\<rparr>"]) (auto simp: EXECUTE_IF_SET_IN_SPARSESET_def J_def sp_good_def)
qed

section \<open>The operations\<close>

text \<open>What an operation on the sets \<open>d\<close>, \<open>a\<close> and \<open>b\<close> promises about the store.\<close>

definition sp_result :: "nat \<Rightarrow> nat \<Rightarrow> nat \<Rightarrow> nat set \<Rightarrow> sparsesets \<Rightarrow> sparsesets option \<Rightarrow> bool" where
  "sp_result d a b A \<sigma> res \<longleftrightarrow>
    (\<exists>\<sigma>'. res = Some \<sigma>' \<and> sp_good (\<sigma>' d) \<and> sp_size (\<sigma>' d) = sp_size (\<sigma> d) \<and> sp_contents (\<sigma>' d) = A
      \<and> (\<forall>q. q \<noteq> d \<longrightarrow> untouched (\<sigma> q) (\<sigma>' q)) \<and> (\<forall>q. q \<notin> {d, a, b} \<longrightarrow> \<sigma>' q = \<sigma> q))"

lemma copy_from_ok:
  assumes ok: "sp_ok s"
  shows "i \<le> members s \<Longrightarrow> length (sp_elms d) = 2 * sp_size d \<Longrightarrow> members s \<le> sp_size d \<Longrightarrow>
    \<forall>k < members s. dense s k < sp_size d \<Longrightarrow> \<forall>k < i. dense d k = dense s k \<and> sparse d (dense s k) = k \<Longrightarrow>
    \<exists>r. sparseset_copy_from s i d = Some r \<and> r = d\<lparr>sp_elms := sp_elms r\<rparr> \<and> length (sp_elms r) = 2 * sp_size d
      \<and> (\<forall>k < members s. dense r k = dense s k \<and> sparse r (dense s k) = k)"
proof (induction "members s - i" arbitrary: i d)
  case 0
  then show ?case by (subst sparseset_copy_from.simps) simp
next
  case (Suc n)
  have i: "i < members s" "i < sp_size d" "dense s i < sp_size d" using Suc.hyps(2) Suc.prems by auto
  obtain t where t: "sparseset_insert_bit d (dense s i) i = Some t" "t = d\<lparr>sp_elms := sp_elms t\<rparr>"
    "length (sp_elms t) = 2 * sp_size d"
    "\<forall>k < sp_size d. dense t k = (if k = i then dense s i else dense d k)"
    "\<forall>x < sp_size d. sparse t x = (if x = dense s i then i else sparse d x)"
    using insert_bit_arrays [OF Suc.prems(2) i(3,2)] by blast
  have T: "sp_size t = sp_size d" using same_fields [OF t(2)] by simp
  have step: "dense t k = dense s k \<and> sparse t (dense s k) = k" if k: "k < Suc i" for k
  proof (cases "k = i")
    case True
    then show ?thesis using t(4,5) i by simp
  next
    case False
    then have ki: "k < i" "k < members s" "k < sp_size d" using k i by simp_all
    then have "dense s k \<noteq> dense s i" using sp_okD(2) [OF ok ki(2)] sp_okD(2) [OF ok i(1)] False by metis
    then show ?thesis using t(4,5) Suc.prems(4,5) ki False by simp
  qed
  obtain r where r: "sparseset_copy_from s (Suc i) t = Some r" "r = t\<lparr>sp_elms := sp_elms r\<rparr>"
    "length (sp_elms r) = 2 * sp_size d" "\<forall>k < members s. dense r k = dense s k \<and> sparse r (dense s k) = k"
  proof -
    have "n = members s - Suc i" using Suc.hyps(2) by simp
    from Suc.hyps(1) [OF this, of t] show ?thesis using that Suc.prems(3,4) i(1) t(3) T step by auto
  qed
  have "r = d\<lparr>sp_elms := sp_elms r\<rparr>"
    using same_fields [OF r(2)] same_fields [OF t(2)] by (intro sparseset.equality) simp_all
  moreover have "sparseset_copy_from s i d = Some r"
    using i(1) t(1) r(1) by (subst sparseset_copy_from.simps) simp
  ultimately show ?case using r(3,4) by blast
qed

lemma copy_ok:
  assumes "sp_good (\<sigma> d)" "sp_good (\<sigma> s)" "sp_size (\<sigma> s) = sp_size (\<sigma> d)"
  shows "\<exists>r. sparseset_copy d s \<sigma> = Some (\<sigma>(d := r)) \<and> sp_good r \<and> sp_size r = sp_size (\<sigma> d)
    \<and> sp_contents r = sp_contents (\<sigma> s)"
proof (cases "d = s")
  case True
  then show ?thesis using assms by (intro exI [of _ "\<sigma> s"]) (simp add: sparseset_copy_def)
next
  case False
  let ?s = "\<sigma> s" and ?c = "sparseset_clear (\<sigma> d)"
  have ok: "sp_ok ?s" "sp_ok (\<sigma> d)" using assms by (simp_all add: sp_good_def)
  have "length (sp_elms ?c) = 2 * sp_size ?c" "sp_size ?c = sp_size (\<sigma> d)" "members ?s \<le> sp_size ?c"
    "\<forall>k < members ?s. dense ?s k < sp_size ?c"
    using ok assms(3) by (simp_all add: sp_ok_def sparseset_clear_def)
  then obtain r where r: "sparseset_copy_from ?s 0 ?c = Some r" "r = ?c\<lparr>sp_elms := sp_elms r\<rparr>"
    "length (sp_elms r) = 2 * sp_size (\<sigma> d)" "\<forall>k < members ?s. dense r k = dense ?s k \<and> sparse r (dense ?s k) = k"
    using copy_from_ok [OF ok(1), of 0 ?c] by auto
  let ?r = "r\<lparr>members := members ?s\<rparr>"
  have f: "sp_size r = sp_size (\<sigma> d)" "iterating r = False"
    using same_fields [OF r(2)] by (simp_all add: sparseset_clear_def)
  have "sp_good ?r" using r(3,4) f ok(1) assms(3) by (simp add: sp_good_def sp_ok_def)
  moreover have "sp_contents ?r = sp_contents ?s" using r(4) by (simp add: sp_contents_def)
  ultimately show ?thesis using False r(1) f by (intro exI [of _ ?r]) (simp add: sparseset_copy_def)
qed

lemma insert_if_loop:
  assumes "p \<noteq> d" "q \<noteq> d" "p \<noteq> q" "sp_good (\<sigma> d)" "sp_good (\<sigma> p)" "sp_good (\<sigma> q)"
    "sp_size (\<sigma> p) = sp_size (\<sigma> d)" "sp_size (\<sigma> q) = sp_size (\<sigma> d)"
  shows "sp_result d p q (sp_contents (\<sigma> d) \<union> {x \<in> sp_contents (\<sigma> p). (x \<in> sp_contents (\<sigma> q)) = wanted}) \<sigma>
    (EXECUTE_IF_SET_IN_SPARSESET p (if_bit q wanted (on_set d sparseset_set_bit)) \<sigma>)"
proof -
  let ?R = "\<lambda>X s. sp_good s \<and> sp_size s = sp_size (\<sigma> d)
    \<and> sp_contents s = sp_contents (\<sigma> d) \<union> {x \<in> X. (x \<in> sp_contents (\<sigma> q)) = wanted}"
  have "\<exists>\<sigma>'. EXECUTE_IF_SET_IN_SPARSESET p (if_bit q wanted (on_set d sparseset_set_bit)) \<sigma> = Some \<sigma>'
    \<and> ?R (sp_contents (\<sigma> p)) (\<sigma>' d) \<and> untouched (\<sigma> p) (\<sigma>' p) \<and> (\<forall>r. r \<notin> {p, d} \<longrightarrow> \<sigma>' r = \<sigma> r)"
  proof (rule loop_other [OF assms(1)])
    show "?R {} (\<sigma> d)" using assms(4) by simp
    fix X e \<sigma>' assume e: "e \<in> sp_contents (\<sigma> p)" and R: "?R X (\<sigma>' d)" and q: "\<forall>q. q \<notin> {p, d} \<longrightarrow> \<sigma>' q = \<sigma> q"
    have es: "e < sp_size (\<sigma> d)" using sp_contents_bound [of "\<sigma> p"] assms(5,7) e by (auto simp: sp_good_def)
    have bp: "sparseset_bit_p (\<sigma>' q) e = Some (e \<in> sp_contents (\<sigma> q))"
      using bit_p_contents [of "\<sigma> q" e] q assms(2,3,6,8) es by (simp add: sp_good_def)
    show "\<exists>s. if_bit q wanted (on_set d sparseset_set_bit) e \<sigma>' = Some (\<sigma>'(d := s)) \<and> ?R (insert e X) s"
    proof (cases "(e \<in> sp_contents (\<sigma> q)) = wanted")
      case True
      then show ?thesis
        using set_bit_ok [of "\<sigma>' d" e] R es bp by (auto simp: if_bit_def on_set_def sp_good_def)
    next
      case False
      then show ?thesis using R bp by (intro exI [of _ "\<sigma>' d"]) (auto simp: if_bit_def)
    qed
  qed
  then show ?thesis using assms(1) by (fastforce simp: sp_result_def)
qed

lemma on_set_loop:
  assumes "p \<noteq> d" "sp_good (\<sigma> d)" "sp_good (\<sigma> p)" "sp_size (\<sigma> p) = sp_size (\<sigma> d)"
  shows "sp_result d p p (sp_contents (\<sigma> d) \<union> sp_contents (\<sigma> p)) \<sigma>
      (EXECUTE_IF_SET_IN_SPARSESET p (on_set d sparseset_set_bit) \<sigma>)"
    and "sp_result d p p (sp_contents (\<sigma> d) - sp_contents (\<sigma> p)) \<sigma>
      (EXECUTE_IF_SET_IN_SPARSESET p (on_set d sparseset_clear_bit) \<sigma>)"
proof -
  have es: "e < sp_size (\<sigma> d)" if "e \<in> sp_contents (\<sigma> p)" for e
    using sp_contents_bound [of "\<sigma> p"] assms(3,4) that by (auto simp: sp_good_def)
  let ?R = "\<lambda>C s. sp_good s \<and> sp_size s = sp_size (\<sigma> d) \<and> sp_contents s = C"
  have "\<exists>\<sigma>'. EXECUTE_IF_SET_IN_SPARSESET p (on_set d sparseset_set_bit) \<sigma> = Some \<sigma>'
    \<and> ?R (sp_contents (\<sigma> d) \<union> sp_contents (\<sigma> p)) (\<sigma>' d) \<and> untouched (\<sigma> p) (\<sigma>' p) \<and> (\<forall>r. r \<notin> {p, d} \<longrightarrow> \<sigma>' r = \<sigma> r)"
  proof (rule loop_other [OF assms(1)])
    show "?R (sp_contents (\<sigma> d) \<union> {}) (\<sigma> d)" using assms(2) by simp
    fix X e \<sigma>' assume "e \<in> sp_contents (\<sigma> p)" "?R (sp_contents (\<sigma> d) \<union> X) (\<sigma>' d)"
    then show "\<exists>s. on_set d sparseset_set_bit e \<sigma>' = Some (\<sigma>'(d := s)) \<and> ?R (sp_contents (\<sigma> d) \<union> insert e X) s"
      using set_bit_ok [of "\<sigma>' d" e] es [of e] by (auto simp: on_set_def sp_good_def)
  qed
  then show "sp_result d p p (sp_contents (\<sigma> d) \<union> sp_contents (\<sigma> p)) \<sigma>
      (EXECUTE_IF_SET_IN_SPARSESET p (on_set d sparseset_set_bit) \<sigma>)"
    using assms(1) by (fastforce simp: sp_result_def)
  have "\<exists>\<sigma>'. EXECUTE_IF_SET_IN_SPARSESET p (on_set d sparseset_clear_bit) \<sigma> = Some \<sigma>'
    \<and> ?R (sp_contents (\<sigma> d) - sp_contents (\<sigma> p)) (\<sigma>' d) \<and> untouched (\<sigma> p) (\<sigma>' p) \<and> (\<forall>r. r \<notin> {p, d} \<longrightarrow> \<sigma>' r = \<sigma> r)"
  proof (rule loop_other [OF assms(1)])
    show "?R (sp_contents (\<sigma> d) - {}) (\<sigma> d)" using assms(2) by simp
    fix X e \<sigma>' assume "e \<in> sp_contents (\<sigma> p)" "?R (sp_contents (\<sigma> d) - X) (\<sigma>' d)"
    then show "\<exists>s. on_set d sparseset_clear_bit e \<sigma>' = Some (\<sigma>'(d := s)) \<and> ?R (sp_contents (\<sigma> d) - insert e X) s"
      using clear_bit_ok [of "\<sigma>' d" e] es [of e] by (auto simp: on_set_def sp_good_def)
  qed
  then show "sp_result d p p (sp_contents (\<sigma> d) - sp_contents (\<sigma> p)) \<sigma>
      (EXECUTE_IF_SET_IN_SPARSESET p (on_set d sparseset_clear_bit) \<sigma>)"
    using assms(1) by (fastforce simp: sp_result_def)
qed

text \<open>Results of updating only \<open>d\<close>, and of a loop after \<open>d\<close> was prepared.\<close>

lemma sp_result_update:
  "sp_good r \<Longrightarrow> sp_size r = sp_size (\<sigma> d) \<Longrightarrow> sp_contents r = A \<Longrightarrow> sp_result d a b A \<sigma> (Some (\<sigma>(d := r)))"
  by (simp add: sp_result_def)

lemma sp_result_after:
  "sp_result d p q A (\<sigma>(d := s)) res \<Longrightarrow> sp_size s = sp_size (\<sigma> d) \<Longrightarrow> {p, q} \<subseteq> {a, b} \<Longrightarrow> sp_result d a b A \<sigma> res"
  by (auto simp: sp_result_def)

lemma sp_result_mono:
  "sp_result d p q A \<sigma> res \<Longrightarrow> {p, q} \<subseteq> {d, a, b} \<Longrightarrow> A = B \<Longrightarrow> sp_result d a b B \<sigma> res"
  by (auto simp: sp_result_def)

lemma delete_if_loop:
  assumes "q \<noteq> d" "sp_good (\<sigma> d)" "sp_good (\<sigma> q)" "sp_size (\<sigma> q) = sp_size (\<sigma> d)"
  shows "sp_result d d q {x \<in> sp_contents (\<sigma> d). (x \<in> sp_contents (\<sigma> q)) \<noteq> wanted} \<sigma>
    (EXECUTE_IF_SET_IN_SPARSESET d (if_bit q wanted (on_set d sparseset_clear_bit)) \<sigma>)"
proof -
  have "sp_ok (\<sigma> d)" "sp_ok (\<sigma> q)" "sp_size (\<sigma> d) \<le> sp_size (\<sigma> q)" using assms by (simp_all add: sp_good_def)
  then obtain s where "EXECUTE_IF_SET_IN_SPARSESET d (if_bit q wanted (on_set d sparseset_clear_bit)) \<sigma> = Some (\<sigma>(d := s))"
    "sp_good s" "sp_size s = sp_size (\<sigma> d)"
    "sp_contents s = {x \<in> sp_contents (\<sigma> d). (x \<in> sp_contents (\<sigma> q)) \<noteq> wanted}"
    using loop_delete [of \<sigma> d q wanted] assms(1) by blast
  then show ?thesis by (simp add: sp_result_update)
qed

lemma clear_good: "sp_ok s \<Longrightarrow> sp_good (sparseset_clear s) \<and> sp_size (sparseset_clear s) = sp_size s
    \<and> sp_contents (sparseset_clear s) = {}"
  using clear_ok [of s] by (simp add: sp_good_def sparseset_clear_def)

end
