(* ===== verification/SparsesetProps.thy ===== *)
theory SparsesetProps
  imports SparsesetOps
begin

text \<open>
  What the sparse sets of \<open>gcc/sparseset.c\<close> promise: the set operations under every aliasing of
  their arguments, deletion during an iteration, and two uses that break the structure.
\<close>

section \<open>Set operations\<close>

definition sp_operands :: "nat \<Rightarrow> nat set \<Rightarrow> sparsesets \<Rightarrow> bool" where
  "sp_operands n ps \<sigma> \<longleftrightarrow> (\<forall>p \<in> ps. sp_good (\<sigma> p) \<and> sp_size (\<sigma> p) = n)"

lemma sparseset_and_ok:
  assumes "sp_operands n {d, a, b} \<sigma>"
  shows "sp_result d a b (sp_contents (\<sigma> a) \<inter> sp_contents (\<sigma> b)) \<sigma> (sparseset_and d a b \<sigma>)"
proof -
  have good: "sp_good (\<sigma> d)" "sp_good (\<sigma> a)" "sp_good (\<sigma> b)" "sp_ok (\<sigma> d)" "sp_ok (\<sigma> a)" "sp_ok (\<sigma> b)"
    and sz: "sp_size (\<sigma> d) = n" "sp_size (\<sigma> a) = n" "sp_size (\<sigma> b) = n"
    using assms by (simp_all add: sp_operands_def sp_good_def)
  consider "a = b" | "a \<noteq> b" "d = a" | "a \<noteq> b" "d = b" | "a \<noteq> b" "d \<noteq> a" "d \<noteq> b" by blast
  then show ?thesis
  proof cases
    case 1
    obtain r where r: "sparseset_copy d a \<sigma> = Some (\<sigma>(d := r))" "sp_good r" "sp_size r = sp_size (\<sigma> d)"
      "sp_contents r = sp_contents (\<sigma> a)"
      using copy_ok [of \<sigma> d a] good sz by auto
    have "sparseset_and d a b \<sigma> = sparseset_copy d a \<sigma>" using 1 by (simp add: sparseset_and_def sparseset_copy_def)
    then show ?thesis using r 1 by (simp add: sp_result_update)
  next
    case 2
    show ?thesis
      using 2 good sz unfolding sparseset_and_def Let_def
      by (simp, intro sp_result_mono [OF delete_if_loop]) auto
  next
    case 3
    show ?thesis
      using 3 good sz unfolding sparseset_and_def Let_def
      by (simp, intro sp_result_mono [OF delete_if_loop]) auto
  next
    case 4
    let ?\<sigma> = "\<sigma>(d := sparseset_clear (\<sigma> d))"
    note c = clear_good [OF good(4)]
    have both: "{x \<in> sp_contents (\<sigma> a). (x \<in> sp_contents (\<sigma> b)) = True} = sp_contents (\<sigma> a) \<inter> sp_contents (\<sigma> b)"
      "{x \<in> sp_contents (\<sigma> b). (x \<in> sp_contents (\<sigma> a)) = True} = sp_contents (\<sigma> a) \<inter> sp_contents (\<sigma> b)"
      by auto
    have "sp_result d a b (sp_contents (\<sigma> a) \<inter> sp_contents (\<sigma> b)) \<sigma>
        (EXECUTE_IF_SET_IN_SPARSESET p (if_bit q True (on_set d sparseset_set_bit)) ?\<sigma>)"
      if "p = a \<and> q = b \<or> p = b \<and> q = a" for p q
      using that 4 insert_if_loop [of p d q ?\<sigma> True] c good sz both
      by (intro sp_result_after [of d p q _ \<sigma> "sparseset_clear (\<sigma> d)"]) auto
    then show ?thesis using 4 by (simp add: sparseset_and_def Let_def)
  qed
qed

lemma sparseset_and_compl_ok:
  assumes "sp_operands n {d, a, b} \<sigma>" "d \<noteq> b \<or> a = b"
  shows "sp_result d a b (sp_contents (\<sigma> a) - sp_contents (\<sigma> b)) \<sigma> (sparseset_and_compl d a b \<sigma>)"
proof -
  have good: "sp_good (\<sigma> d)" "sp_good (\<sigma> a)" "sp_good (\<sigma> b)" "sp_ok (\<sigma> d)" "sp_ok (\<sigma> a)" "sp_ok (\<sigma> b)"
    and sz: "sp_size (\<sigma> d) = n" "sp_size (\<sigma> a) = n" "sp_size (\<sigma> b) = n"
    using assms by (simp_all add: sp_operands_def sp_good_def)
  note c = clear_good [OF good(4)]
  consider "a = b" | "a \<noteq> b" "d = a" | "a \<noteq> b" "d \<noteq> a" "d \<noteq> b" using assms(2) by blast
  then show ?thesis
  proof cases
    case 1
    then show ?thesis using c by (auto simp: sparseset_and_compl_def intro: sp_result_update)
  next
    case 2
    have "sp_result d a b (sp_contents (\<sigma> a) - sp_contents (\<sigma> b)) \<sigma>
        (EXECUTE_IF_SET_IN_SPARSESET d (if_bit b True (on_set d sparseset_clear_bit)) \<sigma>)"
      using 2 good sz by (intro sp_result_mono [OF delete_if_loop]) auto
    moreover have "sp_result d a b (sp_contents (\<sigma> a) - sp_contents (\<sigma> b)) \<sigma>
        (EXECUTE_IF_SET_IN_SPARSESET b (on_set d sparseset_clear_bit) \<sigma>)"
      using 2 good sz by (intro sp_result_mono [OF on_set_loop(2)]) auto
    ultimately show ?thesis using 2 by (simp add: sparseset_and_compl_def)
  next
    case 3
    let ?\<sigma> = "\<sigma>(d := sparseset_clear (\<sigma> d))"
    have "{x \<in> sp_contents (\<sigma> a). (x \<in> sp_contents (\<sigma> b)) = False} = sp_contents (\<sigma> a) - sp_contents (\<sigma> b)" by auto
    then have "sp_result d a b (sp_contents (\<sigma> a) - sp_contents (\<sigma> b)) \<sigma>
        (EXECUTE_IF_SET_IN_SPARSESET a (if_bit b False (on_set d sparseset_set_bit)) ?\<sigma>)"
      using 3 insert_if_loop [of a d b ?\<sigma> False] c good sz
      by (intro sp_result_after [of d a b _ \<sigma> "sparseset_clear (\<sigma> d)"]) auto
    then show ?thesis using 3 by (simp add: sparseset_and_compl_def Let_def)
  qed
qed

lemma sparseset_ior_ok:
  assumes "sp_operands n {d, a, b} \<sigma>"
  shows "sp_result d a b (sp_contents (\<sigma> a) \<union> sp_contents (\<sigma> b)) \<sigma> (sparseset_ior d a b \<sigma>)"
proof -
  have good: "sp_good (\<sigma> d)" "sp_good (\<sigma> a)" "sp_good (\<sigma> b)" and sz: "sp_size (\<sigma> d) = n" "sp_size (\<sigma> a) = n" "sp_size (\<sigma> b) = n"
    using assms by (simp_all add: sp_operands_def)
  obtain r where r: "sparseset_copy d a \<sigma> = Some (\<sigma>(d := r))" "sp_good r" "sp_size r = n" "sp_contents r = sp_contents (\<sigma> a)"
    using copy_ok [of \<sigma> d a] good sz by auto
  consider "a = b" | "a \<noteq> b" "d = b" | "a \<noteq> b" "d \<noteq> b" by blast
  then show ?thesis
  proof cases
    case 1
    then show ?thesis using r sz by (simp add: sparseset_ior_def sp_result_update)
  next
    case 2
    then show ?thesis
      using good sz unfolding sparseset_ior_def by (simp, intro sp_result_mono [OF on_set_loop(1)]) auto
  next
    case 3
    have "sp_result d b b (sp_contents (\<sigma> a) \<union> sp_contents (\<sigma> b)) (\<sigma>(d := r))
        (EXECUTE_IF_SET_IN_SPARSESET b (on_set d sparseset_set_bit) (\<sigma>(d := r)))"
      using 3 on_set_loop(1) [of b d "\<sigma>(d := r)"] r good sz by simp
    then have "sp_result d a b (sp_contents (\<sigma> a) \<union> sp_contents (\<sigma> b)) \<sigma>
        (EXECUTE_IF_SET_IN_SPARSESET b (on_set d sparseset_set_bit) (\<sigma>(d := r)))"
      using r sz by (intro sp_result_after [of d b b _ \<sigma> r]) auto
    moreover have "d = a \<Longrightarrow> \<sigma>(d := r) = \<sigma>" using r(1) by (simp add: sparseset_copy_def fun_upd_idem_iff)
    ultimately show ?thesis using 3 r(1) by (cases "d = a") (simp_all add: sparseset_ior_def)
  qed
qed

text \<open>C37. Copy, intersection, difference and union of sparse sets of one size give exactly the
  set they are named for in the destination, for every way the three arguments may be the same
  object that the code allows (a difference whose destination is its subtrahend fails the
  assertion); the arrays stay consistent, no loop runs on, and no other set loses or gains a
  member.\<close>

theorem sparseset_operations:
  assumes "sp_operands n {d, a, b} \<sigma>"
  shows "sp_result d a a (sp_contents (\<sigma> a)) \<sigma> (sparseset_copy d a \<sigma>)
    \<and> sp_result d a b (sp_contents (\<sigma> a) \<inter> sp_contents (\<sigma> b)) \<sigma> (sparseset_and d a b \<sigma>)
    \<and> sp_result d a b (sp_contents (\<sigma> a) \<union> sp_contents (\<sigma> b)) \<sigma> (sparseset_ior d a b \<sigma>)
    \<and> (if d = b \<and> a \<noteq> b then sparseset_and_compl d a b \<sigma> = None
       else sp_result d a b (sp_contents (\<sigma> a) - sp_contents (\<sigma> b)) \<sigma> (sparseset_and_compl d a b \<sigma>))"
proof (intro conjI)
  show "sp_result d a a (sp_contents (\<sigma> a)) \<sigma> (sparseset_copy d a \<sigma>)"
  proof -
    obtain r where "sparseset_copy d a \<sigma> = Some (\<sigma>(d := r))" "sp_good r" "sp_size r = sp_size (\<sigma> d)"
      "sp_contents r = sp_contents (\<sigma> a)"
      using copy_ok [of \<sigma> d a] assms by (auto simp: sp_operands_def)
    then show ?thesis by (simp add: sp_result_update)
  qed
  show "if d = b \<and> a \<noteq> b then sparseset_and_compl d a b \<sigma> = None
      else sp_result d a b (sp_contents (\<sigma> a) - sp_contents (\<sigma> b)) \<sigma> (sparseset_and_compl d a b \<sigma>)"
    using sparseset_and_compl_ok [OF assms] by (auto simp: sparseset_and_compl_def)
qed (rule sparseset_and_ok [OF assms] sparseset_ior_ok [OF assms])+

text \<open>Two sets in a universe of eight numbers, at the addresses 1 and 2; the third is empty.\<close>

definition set_of_list :: "nat list \<Rightarrow> sparseset" where
  "set_of_list xs = fold (\<lambda>e s. case sparseset_set_bit s e of Some r \<Rightarrow> r | None \<Rightarrow> s) xs
    (the (sparseset_alloc 8))"

definition example_sets :: sparsesets where
  "example_sets = (\<lambda>p. set_of_list (if p = 1 then [0, 1, 2] else if p = 2 then [0, 1, 3] else []))"

lemma set_of_list: "set xs \<subseteq> {..<8} \<Longrightarrow> sp_good (set_of_list xs) \<and> sp_size (set_of_list xs) = 8 \<and> sp_contents (set_of_list xs) = set xs"
proof (induction xs rule: rev_induct)
  case Nil
  obtain s where "sparseset_alloc 8 = Some s" "sp_ok s" "sp_contents s = {}" "sp_size s = 8" "\<not> iterating s"
    by (rule alloc_ok [of 8]) simp_all
  then show ?case by (simp add: set_of_list_def sp_good_def)
next
  case (snoc x xs)
  then have "sp_good (set_of_list xs)" "sp_size (set_of_list xs) = 8" "sp_contents (set_of_list xs) = set xs" "x < 8" by auto
  moreover have "set_of_list (xs @ [x]) = (case sparseset_set_bit (set_of_list xs) x of Some r \<Rightarrow> r | None \<Rightarrow> set_of_list xs)"
    by (simp only: set_of_list_def fold_append fold.simps comp_def id_def)
  ultimately show ?case using set_bit_ok [of "set_of_list xs" x] by (auto simp: sp_good_def)
qed

lemma example_sets:
  "sp_operands 8 P example_sets"
  "sp_contents (example_sets p) = (if p = 1 then {0, 1, 2} else if p = 2 then {0, 1, 3} else {})"
  using set_of_list [of "[0, 1, 2]"] set_of_list [of "[0, 1, 3]"] set_of_list [of "[]"]
  by (simp_all add: sp_operands_def example_sets_def)

lemma sparseset_operations_witness:
  "sp_result 1 1 2 {2} example_sets (sparseset_and_compl 1 1 2 example_sets)
    \<and> sp_result 3 1 2 {0, 1} example_sets (sparseset_and 3 1 2 example_sets)"
proof -
  have "{0, 1, 2 :: nat} - {0, 1, 3} = {2}" "{0, 1, 2 :: nat} \<inter> {0, 1, 3} = {0, 1}" by auto
  then show ?thesis
    using sparseset_operations [of 8 1 1 2 example_sets] sparseset_operations [of 8 3 1 2 example_sets]
    by (simp add: example_sets)
qed

section \<open>Equality\<close>

lemma equal_loop:
  assumes ok: "sp_ok (\<sigma> a)" "sp_ok (\<sigma> b)" "sp_size (\<sigma> a) \<le> sp_size (\<sigma> b)" and ab: "a \<noteq> b"
  defines "body \<equiv> \<lambda>e \<sigma>. map_option (\<lambda>m. (if m then None else Some False, \<sigma>)) (sparseset_bit_p (\<sigma> b) e)"
  shows "\<forall>i < k. dense (\<sigma> a) i \<in> sp_contents (\<sigma> b) \<Longrightarrow> k \<le> members (\<sigma> a) \<Longrightarrow>
    \<exists>s r. sparseset_loop a body (\<sigma>(a := (\<sigma> a)\<lparr>iter := k, iter_inc := 1, iterating := True\<rparr>)) = Some (r, \<sigma>(a := s))
      \<and> r = (if sp_contents (\<sigma> a) \<subseteq> sp_contents (\<sigma> b) then None else Some False)
      \<and> sp_elms s = sp_elms (\<sigma> a) \<and> members s = members (\<sigma> a) \<and> sp_size s = sp_size (\<sigma> a)
      \<and> iterating s = (\<not> sp_contents (\<sigma> a) \<subseteq> sp_contents (\<sigma> b))"
proof (induction "members (\<sigma> a) - k" arbitrary: k)
  case 0
  then have "k = members (\<sigma> a)" by simp
  then have "sp_contents (\<sigma> a) \<subseteq> sp_contents (\<sigma> b)" using 0 by (auto simp: sp_contents_def)
  then show ?case using 0 by (subst sparseset_loop.simps) (auto simp: sparseset_iter_p_def)
next
  case (Suc n)
  let ?at = "\<lambda>k. (\<sigma> a)\<lparr>iter := k, iter_inc := 1, iterating := True\<rparr>"
  have k: "k < members (\<sigma> a)" using Suc.hyps(2) by simp
  have "dense (\<sigma> a) k < sp_size (\<sigma> b)" using sp_okD(1) [OF ok(1) k] ok(3) by simp
  then have bp: "sparseset_bit_p (\<sigma> b) (dense (\<sigma> a) k) = Some (dense (\<sigma> a) k \<in> sp_contents (\<sigma> b))"
    by (rule bit_p_contents [OF ok(2)])
  have e: "sparseset_iter_elm (?at k) = dense (\<sigma> a) k" by (simp add: sparseset_iter_elm_def)
  have nxt: "sparseset_iter_next (?at k) = ?at (Suc k)"
    by (rule sparseset.equality) (simp_all add: sparseset_iter_next_def)
  show ?case
  proof (cases "dense (\<sigma> a) k \<in> sp_contents (\<sigma> b)")
    case True
    then have "sparseset_loop a body (\<sigma>(a := ?at k)) = sparseset_loop a body (\<sigma>(a := ?at (Suc k)))"
      using k bp ab e nxt by (subst sparseset_loop.simps) (simp add: sparseset_iter_p_def body_def)
    moreover have "\<forall>i < Suc k. dense (\<sigma> a) i \<in> sp_contents (\<sigma> b)" using True Suc.prems(1) by (simp add: less_Suc_eq)
    ultimately show ?thesis using Suc.hyps(1) [of "Suc k"] Suc.hyps(2) k by simp
  next
    case False
    have "sparseset_loop a body (\<sigma>(a := ?at k)) = Some (Some False, \<sigma>(a := ?at k))"
      using False k bp ab e by (subst sparseset_loop.simps) (simp add: sparseset_iter_p_def body_def)
    moreover have "\<not> sp_contents (\<sigma> a) \<subseteq> sp_contents (\<sigma> b)" using False k by (auto simp: sp_contents_def)
    ultimately show ?thesis by (intro exI [of _ "?at k"]) simp
  qed
qed

text \<open>The comparison of two sparse sets returns whether they have the same members, and leaves
  the members of every set alone. Its answer \<open>false\<close> after a walk leaves the loop without ending
  the iteration: the first set stays marked as being iterated over.\<close>

theorem sparseset_equality:
  assumes "sp_operands n {a, b} \<sigma>"
  shows "\<exists>\<sigma>'. sparseset_equal_p a b \<sigma> = Some (sp_contents (\<sigma> a) = sp_contents (\<sigma> b), \<sigma>')
    \<and> (\<forall>q. q \<noteq> a \<longrightarrow> \<sigma>' q = \<sigma> q) \<and> sp_contents (\<sigma>' a) = sp_contents (\<sigma> a) \<and> sp_ok (\<sigma>' a)
    \<and> (iterating (\<sigma>' a) \<longleftrightarrow> members (\<sigma> a) = members (\<sigma> b) \<and> sp_contents (\<sigma> a) \<noteq> sp_contents (\<sigma> b))"
proof -
  have good: "sp_ok (\<sigma> a)" "sp_ok (\<sigma> b)" "\<not> iterating (\<sigma> a)" "sp_size (\<sigma> a) \<le> sp_size (\<sigma> b)"
    using assms by (simp_all add: sp_operands_def sp_good_def)
  note card = card_sp_contents [OF good(1)] card_sp_contents [OF good(2)]
  consider "a = b" | "members (\<sigma> a) \<noteq> members (\<sigma> b)" | "a \<noteq> b" "members (\<sigma> a) = members (\<sigma> b)" by blast
  then show ?thesis
  proof cases
    case 3
    then have sub: "sp_contents (\<sigma> a) \<subseteq> sp_contents (\<sigma> b) \<longleftrightarrow> sp_contents (\<sigma> a) = sp_contents (\<sigma> b)"
      using card card_subset_eq [of "sp_contents (\<sigma> b)" "sp_contents (\<sigma> a)"] by auto
    obtain s r where s: "sparseset_loop a (\<lambda>e \<sigma>. map_option (\<lambda>m. (if m then None else Some False, \<sigma>)) (sparseset_bit_p (\<sigma> b) e))
        (\<sigma>(a := (\<sigma> a)\<lparr>iter := 0, iter_inc := 1, iterating := True\<rparr>)) = Some (r, \<sigma>(a := s))"
      "r = (if sp_contents (\<sigma> a) = sp_contents (\<sigma> b) then None else Some False)"
      "sp_elms s = sp_elms (\<sigma> a)" "members s = members (\<sigma> a)" "sp_size s = sp_size (\<sigma> a)"
      "iterating s = (sp_contents (\<sigma> a) \<noteq> sp_contents (\<sigma> b))"
      using equal_loop [OF good(1,2,4) 3(1), of 0] sub by auto
    have "sp_ok s \<and> sp_contents s = sp_contents (\<sigma> a)"
      using s(3-5) good(1) by (simp add: sp_ok_def sp_contents_def dense_def sparse_def image_def)
    then show ?thesis
      using 3 s(1,2,6)
      by (auto simp: sparseset_equal_p_def sparseset_cardinality_def sparseset_iter_init_def)
  qed (use good card in \<open>auto simp: sparseset_equal_p_def sparseset_cardinality_def\<close>)
qed

lemma sparseset_equality_witness:
  "\<exists>\<sigma>'. sparseset_equal_p 1 2 example_sets = Some (False, \<sigma>') \<and> sp_contents (\<sigma>' 1) = {0, 1, 2}"
proof -
  have "(2 :: nat) \<in> {0, 1, 2}" "(2 :: nat) \<notin> {0, 1, 3}" by simp_all
  then have ne: "{0, 1, 2 :: nat} \<noteq> {0, 1, 3}" by metis
  obtain \<sigma>' where "sparseset_equal_p 1 2 example_sets = Some (sp_contents (example_sets 1) = sp_contents (example_sets 2), \<sigma>')"
    "sp_contents (\<sigma>' 1) = sp_contents (example_sets 1)"
    using sparseset_equality [of 8 1 2 example_sets, OF example_sets(1)] by blast
  then show ?thesis using ne by (simp add: example_sets)
qed

section \<open>Deleting during an iteration\<close>

text \<open>C38. Deleting one number from a set during a visit of its iteration, be it the number
  visited, one visited before, one still to come or none of the set, removes just that number and
  does not disturb the iteration: the numbers visited afterwards are those that were
  still to come, without the deleted one, each exactly once.\<close>

theorem sparseset_delete_while_iterating:
  assumes "sp_ok s" "e < sp_size s" "iterating s" "iter_inc s = 1" "iter s < members s"
  shows "\<exists>r. sparseset_clear_bit s e = Some r
    \<and> (let s' = sparseset_iter_next r
       in sp_ok s' \<and> sp_contents s' = sp_contents s - {e} \<and> iterating s' \<and> iter_inc s' = 1
          \<and> dense s' ` {iter s'..<members s'} = dense s ` {iter s + 1..<members s} - {e}
          \<and> inj_on (dense s') {iter s'..<members s'})"
proof -
  obtain r where r: "sparseset_clear_bit s e = Some r" "sp_ok r" "sp_contents r = sp_contents s - {e}"
    "iterating r" "sp_pending r = sp_pending s - {e}"
    using clear_bit_ok [OF assms(1,2)] assms(3,4,5) by auto
  have "inj_on (dense r) {iter r + iter_inc r..<members r}"
    by (rule inj_on_subset [OF dense_inj [OF r(2)]]) auto
  then show ?thesis using r assms(4) by (simp add: sparseset_iter_next_def sp_pending_def)
qed

lemma sparseset_delete_while_iterating_witness:
  "\<exists>r. sparseset_clear_bit (sparseset_iter_next (sparseset_iter_init (set_of_list [0, 1, 2]))) 0 = Some r
    \<and> sp_contents (sparseset_iter_next r) = {1, 2}"
proof -
  let ?s = "sparseset_iter_next (sparseset_iter_init (set_of_list [0, 1, 2]))"
  have g: "sp_ok (set_of_list [0, 1, 2])" "sp_size (set_of_list [0, 1, 2]) = 8" "sp_contents (set_of_list [0, 1, 2]) = {0, 1, 2}"
    using set_of_list [of "[0, 1, 2]"] by (simp_all add: sp_good_def)
  have m: "members (set_of_list [0, 1, 2]) = 3" using card_sp_contents [OF g(1)] g(3) by simp
  have "sp_ok ?s" "sp_size ?s = 8" "iterating ?s" "iter_inc ?s = 1" "iter ?s < members ?s" "sp_contents ?s = {0, 1, 2}"
    using g m by (simp_all add: sparseset_iter_init_def sparseset_iter_next_def)
  moreover have "{0, 1, 2 :: nat} - {0} = {1, 2}" by auto
  ultimately show ?thesis using sparseset_delete_while_iterating [of ?s 0] by (auto simp: Let_def)
qed

text \<open>A deletion trusts the mark of an iteration. After the comparison of \<open>{0, 1, 2}\<close> with
  \<open>{0, 1, 3}\<close>, whose walk stops at the third member, deleting 0 and then 2 leaves the set \<open>{0}\<close>
  where \<open>{1}\<close> is right: the deleted 0 is back and 1 is lost.\<close>

theorem sparseset_stale_iteration:
  "(case sparseset_equal_p 1 2 example_sets of
      Some (r, \<sigma>) \<Rightarrow>
        (r, sp_contents (\<sigma> 1), map_option sp_contents (Option.bind (sparseset_clear_bit (\<sigma> 1) 0) (\<lambda>s. sparseset_clear_bit s 2)))
    | None \<Rightarrow> (True, {}, None)) = (False, {0, 1, 2}, Some {0})"
  by code_simp

text \<open>\<open>sparseset_pop\<close> removes the last member and returns what lies behind it: popping from
  \<open>{5}\<close> gives 0.\<close>

lemma sparseset_pop_reads_past:
  "map_option (\<lambda>(e, s). (e, sp_contents s)) (sparseset_pop (set_of_list [5])) = Some (0, {})"
  by code_simp

end
