(* ===== verification/SetReps.thy ===== *)
theory SetReps
  imports SbitmapFlow SparsesetProps
begin

text \<open>
  Both set representations meet the contract of \<open>SetSpec\<close>, so both answer every membership test
  after every history of operations like a mathematical set, and like each other.
\<close>

interpretation sb: number_set sbitmap_wf n_bits sbitmap_contents "\<lambda>m i. Some (TEST_BIT m i)"
  "\<lambda>m i. Some (SET_BIT m i)" "\<lambda>m i. Some (RESET_BIT m i)" sbitmap_zero
proof unfold_locales
  fix s :: "'a::len sbitmap" and i
  assume wf: "sbitmap_wf s"
  then have op: "operand (n_bits s) s" by (simp add: operand_def)
  show "sbitmap_contents s \<subseteq> {..<n_bits s}" using wf by (simp add: sbitmap_wf_def)
  show "sbitmap_wf (sbitmap_zero s) \<and> n_bits (sbitmap_zero s) = n_bits s \<and> sbitmap_contents (sbitmap_zero s) = {}"
    using sbitmap_zero_denotes [of s] operand_size [OF op] wf by (simp add: denotes_def sbitmap_wf_def)
  assume i: "i < n_bits s"
  show "Some (TEST_BIT s i) = Some (i \<in> sbitmap_contents s)"
    using i set_size_bounds(1) [OF wf_words(4) [OF wf refl]] operand_size [OF op]
    by (simp add: sbitmap_contents_def)
  show "\<exists>r. Some (SET_BIT s i) = Some r \<and> sbitmap_wf r \<and> n_bits r = n_bits s \<and> sbitmap_contents r = insert i (sbitmap_contents s)"
    using SET_BIT_denotes [OF op i] by (simp add: denotes_def)
  show "\<exists>r. Some (RESET_BIT s i) = Some r \<and> sbitmap_wf r \<and> n_bits r = n_bits s \<and> sbitmap_contents r = sbitmap_contents s - {i}"
    using RESET_BIT_denotes [OF op i] by (simp add: denotes_def)
qed

interpretation sp: number_set sp_good sp_size sp_contents sparseset_bit_p sparseset_set_bit sparseset_clear_bit sparseset_clear
proof unfold_locales
  fix s i
  assume good: "sp_good s"
  then have ok: "sp_ok s" "\<not> iterating s" by (simp_all add: sp_good_def)
  show "sp_contents s \<subseteq> {..<sp_size s}" by (rule sp_contents_bound [OF ok(1)])
  show "sp_good (sparseset_clear s) \<and> sp_size (sparseset_clear s) = sp_size s \<and> sp_contents (sparseset_clear s) = {}"
    using clear_good [OF ok(1)] .
  assume i: "i < sp_size s"
  show "sparseset_bit_p s i = Some (i \<in> sp_contents s)" by (rule bit_p_contents [OF ok(1) i])
  show "\<exists>r. sparseset_set_bit s i = Some r \<and> sp_good r \<and> sp_size r = sp_size s \<and> sp_contents r = insert i (sp_contents s)"
    using set_bit_ok [OF ok(1) i] ok(2) by (auto simp: sp_good_def)
  show "\<exists>r. sparseset_clear_bit s i = Some r \<and> sp_good r \<and> sp_size r = sp_size s \<and> sp_contents r = sp_contents s - {i}"
    using clear_bit_ok [OF ok(1) i] ok(2) by (auto simp: sp_good_def)
qed

text \<open>C36. A new bitmap cleared of what its memory held and a new sparse set of the same size
  answer every membership test alike after every history of insertions, deletions and clearings
  of numbers below the size, namely like the set of numbers inserted and not deleted
  since; no operation of such a history fails. The size leaves room for the sums that round it up to elements and that
  compute the bytes of the sparse set, which is allocated.\<close>

theorem set_representations_agree:
  assumes "\<Union> (op_elements ` set ops) \<subseteq> {..<n}" "i < n" "8 * n + 24 < 2 ^ 32" "n + LENGTH('w::len) < 2 ^ 32"
  shows "Option.bind (run_ops (\<lambda>m i. Some (SET_BIT m i)) (\<lambda>m i. Some (RESET_BIT m i)) sbitmap_zero ops
        (sbitmap_zero (sbitmap_alloc junk n) :: 'w sbitmap)) (\<lambda>m. Some (TEST_BIT m i))
      = Some (i \<in> run_spec ops {})
    \<and> (\<exists>s. sparseset_alloc n = Some s
        \<and> Option.bind (run_ops sparseset_set_bit sparseset_clear_bit sparseset_clear ops s) (\<lambda>s. sparseset_bit_p s i)
          = Some (i \<in> run_spec ops {}))"
proof
  have "denotes n {} (sbitmap_zero (sbitmap_alloc junk n) :: 'w sbitmap)" by (rule alloc_zero_denotes [OF assms(4)])
  then show "Option.bind (run_ops (\<lambda>m i. Some (SET_BIT m i)) (\<lambda>m i. Some (RESET_BIT m i)) sbitmap_zero ops
        (sbitmap_zero (sbitmap_alloc junk n) :: 'w sbitmap)) (\<lambda>m. Some (TEST_BIT m i))
      = Some (i \<in> run_spec ops {})"
    using sb.history_test [of "sbitmap_zero (sbitmap_alloc junk n)" ops i] assms by (simp add: denotes_def)
  obtain s where "sparseset_alloc n = Some s" "sp_ok s" "sp_contents s = {}" "sp_size s = n" "\<not> iterating s"
    by (rule alloc_ok [OF assms(3)])
  then show "\<exists>s. sparseset_alloc n = Some s
        \<and> Option.bind (run_ops sparseset_set_bit sparseset_clear_bit sparseset_clear ops s) (\<lambda>s. sparseset_bit_p s i)
          = Some (i \<in> run_spec ops {})"
    using sp.history_test [of s ops i] assms by (simp add: sp_good_def)
qed

lemma set_representations_agree_witness:
  "\<exists>s. sparseset_alloc 40 = Some s
    \<and> Option.bind (run_ops sparseset_set_bit sparseset_clear_bit sparseset_clear
      [Insert 3, Insert 37, Delete 3] s) (\<lambda>s. sparseset_bit_p s 37) = Some True"
  using set_representations_agree [of "[Insert 3, Insert 37, Delete 3]" 40 37 "\<lambda>_. 0 :: 32 word"] by simp

text \<open>A bitmap of more bits than the sum can take is given no element at all.\<close>

theorem sbitmap_alloc_wraps:
  "n < 2 ^ 32 \<Longrightarrow> 2 ^ 32 < n + LENGTH('w) \<Longrightarrow> LENGTH('w) \<le> 2 ^ 32 \<Longrightarrow>
    n_bits (sbitmap_alloc junk n :: 'w::len sbitmap) = n \<and> elms (sbitmap_alloc junk n :: 'w sbitmap) = []"
proof -
  assume n: "n < 2 ^ 32" "2 ^ 32 < n + LENGTH('w)" "LENGTH('w) \<le> 2 ^ 32"
  then have "(n + LENGTH('w) - 1) mod 2 ^ 32 = n + LENGTH('w) - 1 - 2 ^ 32"
    by (subst mod_if) (auto simp: mod_less)
  moreover have "n + LENGTH('w) - 1 - 2 ^ 32 < LENGTH('w)" using n by simp
  ultimately have "SBITMAP_SET_SIZE TYPE('w) n = 0" by (simp only: SBITMAP_SET_SIZE_def div_less)
  then show ?thesis by (simp add: sbitmap_alloc_def Let_def)
qed

end
