(* ===== verification/AsmFile.thy ===== *)
theory AsmFile
  imports Frame AsmOut "HOL-Library.Char_ord" "HOL-Library.List_Lexorder"
begin

text \<open>
  The assembler file around the instructions, \<open>gcc/config/microblaze/microblaze.c\<close> and the
  \<open>ASM_OUTPUT\<close> macros of \<open>microblaze.h\<close>: the directives that open and close a function, file and
  line directives, tables of constructors, data objects and the sections they go to. A
  routine yields the items it writes, text or a switch to a section, and the new state of the
  file-wide variables. A string that does not fit its array is \<open>None\<close>.
\<close>

datatype asm_item = Txt string | Switch string

fun text_of :: "asm_item list \<Rightarrow> string" where
  "text_of [] = []"
| "text_of (Txt s # xs) = s @ text_of xs"
| "text_of (Switch s # xs) = text_of xs"

section \<open>Settings and state\<close>

record asm_env =
  ae_env :: cc_env
  flag_inhibit_size_directive :: bool
  microblaze_section_threshold :: int
  target_stack_check :: bool
  dbx_debug :: bool
  alias_target :: "string \<Rightarrow> string"

record file_state = fn_state +
  inside_function :: bool
  ignore_line_number :: bool
  dslots_load_total :: nat
  dslots_jump_total :: nat
  dslots_load_filled :: nat
  dslots_jump_filled :: nat
  num_refs :: "nat list"
  microblaze_load_reg :: "rtx option"
  microblaze_load_reg2 :: "rtx option"
  string_constants :: "string list"
  first_time :: bool
  current_function_file :: string
  num_source_filenames :: nat
  sym_lineno :: nat

definition tab :: string where "tab = [CHR 0x09]"
definition nl :: string where "nl = [CHR 0x0A]"

definition INTERRUPT_HANDLER_NAME :: string where
  "INTERRUPT_HANDLER_NAME = ''_interrupt_handler''"

text \<open>\<open>alias_target\<close> follows the transparent aliases of an identifier to their end; it is the
  identifier itself when there are none.\<close>

definition assemble_name :: "asm_env \<Rightarrow> string \<Rightarrow> string" where
  "assemble_name ae name = assemble_name_raw (ae_env ae) (alias_target ae name)"

definition ASM_OUTPUT_TYPE_DIRECTIVE :: "asm_env \<Rightarrow> string \<Rightarrow> string \<Rightarrow> string" where
  "ASM_OUTPUT_TYPE_DIRECTIVE ae name type =
    tab @ ''.type'' @ tab @ assemble_name ae name @ '', @'' @ type @ nl"

section \<open>Functions\<close>

definition microblaze_function_prologue ::
  "asm_env \<Rightarrow> fn_env \<Rightarrow> string \<Rightarrow> file_state \<Rightarrow> asm_item list \<times> file_state" where
  "microblaze_function_prologue ae fn fnname st =
    (let info = current_frame_info st;
         renamed = (interrupt_handler st \<and> INTERRUPT_HANDLER_NAME \<noteq> fnname);
         ent = (if flag_inhibit_size_directive ae then []
                else tab @ ''.ent'' @ tab
                     @ (if renamed then ''_interrupt_handler'' else assemble_name ae fnname) @ nl
                     @ (if interrupt_handler st then [] else ASM_OUTPUT_TYPE_DIRECTIVE ae fnname ''function''));
         labels = assemble_name ae fnname @ '':'' @ nl
                  @ (if renamed then ''_interrupt_handler:'' @ nl else []);
         frame = (if flag_inhibit_size_directive ae then []
                  else tab @ ''.frame'' @ tab
                       @ reg_names ! (if frame_pointer_needed fn then HARD_FRAME_POINTER_REGNUM else STACK_POINTER_REGNUM)
                       @ '','' @ dec (total_size info) @ '','' @ reg_names ! MB_ABI_SUB_RETURN_ADDR_REGNUM
                       @ tab @ tab @ ''# vars= '' @ dec (var_size info) @ '', regs= '' @ dec (num_gp info)
                       @ '', args= '' @ dec (fn_outgoing_args_size fn) @ nl
                       @ tab @ ''.mask'' @ tab @ ''0x'' @ zero_pad 8 (hex (unat (mask info))) @ nl)
     in ([Txt ent, Txt labels, Txt frame], st\<lparr>inside_function := True\<rparr>))"

definition microblaze_function_end_prologue :: "asm_env \<Rightarrow> asm_item list" where
  "microblaze_function_end_prologue ae =
    (if target_stack_check ae
     then [Txt (tab @ ''# Stack Check Stub -- Start.'' @ nl @ tab),
           Txt (''ori'' @ tab @ ''r18,r0,_stack_end'' @ nl @ tab),
           Txt (''cmpu'' @ tab @ ''r18,r1,r18'' @ nl @ tab),
           Txt (''bgei'' @ tab @ ''r18,_stack_overflow_exit'' @ nl @ tab),
           Txt (''# Stack Check Stub -- End.'' @ nl)]
     else [])"

definition microblaze_function_epilogue ::
  "asm_env \<Rightarrow> string \<Rightarrow> file_state \<Rightarrow> asm_item list \<times> file_state" where
  "microblaze_function_epilogue ae fnname st =
    ([Txt (if flag_inhibit_size_directive ae then []
           else tab @ ''.end'' @ tab
                @ (if interrupt_handler st then ''_interrupt_handler'' else assemble_name ae fnname) @ nl)],
     st\<lparr>inside_function := False, ignore_line_number := False,
        dslots_load_total := 0, dslots_jump_total := 0, dslots_load_filled := 0, dslots_jump_filled := 0,
        num_refs := [0, 0, 0], microblaze_load_reg := None, microblaze_load_reg2 := None,
        current_frame_info := zero_frame_info, string_constants := []\<rparr>)"

definition microblaze_globalize_label :: "asm_env \<Rightarrow> file_state \<Rightarrow> string \<Rightarrow> asm_item list" where
  "microblaze_globalize_label ae st name =
    [Txt (tab @ ''.globl'' @ tab
          @ (if interrupt_handler st \<and> name \<noteq> INTERRUPT_HANDLER_NAME
             then INTERRUPT_HANDLER_NAME @ nl @ tab @ ''.globl'' @ tab else [])
          @ assemble_name ae name @ nl)]"

definition microblaze_internal_label :: "string \<Rightarrow> nat \<Rightarrow> asm_item list" where
  "microblaze_internal_label prefix labelno = [Txt (''$'' @ prefix @ dec (int labelno) @ '':'' @ nl)]"

definition microblaze_valid_machine_decl_attribute :: "bool \<Rightarrow> string \<Rightarrow> bool \<Rightarrow> bool option" where
  "microblaze_valid_machine_decl_attribute is_function attr has_args =
    (if has_args then Some False
     else
       (case is_attribute_p ''interrupt_handler'' attr of
          None \<Rightarrow> None
        | Some True \<Rightarrow> Some is_function
        | Some False \<Rightarrow>
            (case is_attribute_p ''save_volatiles'' attr of
               None \<Rightarrow> None
             | Some b \<Rightarrow> Some (b \<and> is_function))))"

section \<open>Files and lines\<close>

definition is_print :: "char \<Rightarrow> bool" where
  "is_print c \<longleftrightarrow> 32 \<le> (of_char c :: nat) \<and> (of_char c :: nat) \<le> 126"

definition output_quoted_string :: "string \<Rightarrow> string" where
  "output_quoted_string s =
    [CHR 0x22] @ concat (map (\<lambda>c.
       if is_print c then (if c = CHR 0x22 \<or> c = CHR 0x5C then [CHR 0x5C, c] else [c])
       else CHR 0x5C # zero_pad 3 (digits 8 (of_char c))) s) @ [CHR 0x22]"

text \<open>\<open>N_SOL\<close> and \<open>N_SLINE\<close> are the stab codes 0x84 and 0x44.\<close>

definition microblaze_output_filename ::
  "asm_env \<Rightarrow> string \<Rightarrow> file_state \<Rightarrow> asm_item list \<times> file_state" where
  "microblaze_output_filename ae name st =
    (if first_time st then
       let st = st\<lparr>first_time := False, num_source_filenames := num_source_filenames st + 1,
                   current_function_file := name\<rparr>
       in ([Txt (tab @ ''.file'' @ tab @ dec (int (num_source_filenames st)) @ '' '' @ output_quoted_string name @ nl)], st)
     else if dbx_debug ae then
       ([Txt (''.stabs  '' @ output_quoted_string name @ '','' @ dec 0x84 @ '',0,0,'' @ tl (ASM_GENERATE_INTERNAL_LABEL ''Ltext'' 0) @ nl)], st)
     else if name \<noteq> current_function_file st then
       let st = st\<lparr>num_source_filenames := num_source_filenames st + 1, current_function_file := name\<rparr>
       in ([Txt (tab @ ''.file'' @ tab @ dec (int (num_source_filenames st)) @ output_quoted_string name)], st)
     else ([], st))"

definition microblaze_output_lineno ::
  "asm_env \<Rightarrow> string \<Rightarrow> int \<Rightarrow> file_state \<Rightarrow> asm_item list \<times> file_state" where
  "microblaze_output_lineno ae fnname line st =
    (if dbx_debug ae then
       let st = st\<lparr>sym_lineno := sym_lineno st + 1\<rparr>;
           label = ''$LM'' @ dec (int (sym_lineno st))
       in ([Txt (label @ '':'' @ nl @ tab @ ''.stabn  '' @ dec 0x44 @ '',0,'' @ dec line @ '','' @ label
                 @ ''-'' @ assemble_name ae fnname @ nl)], st)
     else
       ([Txt (nl @ tab @ (if ignore_line_number st then ''#'' else []) @ ''.loc'' @ tab
              @ dec (int (num_source_filenames st)) @ '' '' @ dec line @ nl)], st))"

section \<open>Constructors and destructors\<close>

definition MAX_INIT_PRIORITY :: int where "MAX_INIT_PRIORITY = 65535"
definition DEFAULT_INIT_PRIORITY :: int where "DEFAULT_INIT_PRIORITY = 65535"

text \<open>The section of an entry; the array for its name has 16 characters.\<close>

definition init_section :: "string \<Rightarrow> int \<Rightarrow> string option" where
  "init_section base priority =
    (if priority \<noteq> DEFAULT_INIT_PRIORITY then
       let buf = base @ ''.'' @ zero_pad 5 (digits 10 (nat (to_unsigned (MAX_INIT_PRIORITY - priority))))
       in if length buf < 16 then Some buf else None
     else Some base)"

definition init_entry :: "asm_env \<Rightarrow> string \<Rightarrow> rtx \<Rightarrow> int \<Rightarrow> (diag + asm_item list) option" where
  "init_entry ae base symbol priority =
    (case init_section base priority of
       None \<Rightarrow> None
     | Some section \<Rightarrow>
         Some (case output_addr_const (ae_env ae) symbol of
                 Inl e \<Rightarrow> Inl e
               | Inr t \<Rightarrow> Inr [Switch section, Txt (tab @ ''.word'' @ tab), Txt t, Txt nl]))"

definition microblaze_asm_constructor :: "asm_env \<Rightarrow> rtx \<Rightarrow> int \<Rightarrow> (diag + asm_item list) option" where
  "microblaze_asm_constructor ae symbol priority = init_entry ae ''.ctors'' symbol priority"

definition microblaze_asm_destructor :: "asm_env \<Rightarrow> rtx \<Rightarrow> int \<Rightarrow> (diag + asm_item list) option" where
  "microblaze_asm_destructor ae symbol priority = init_entry ae ''.dtors'' symbol priority"

section \<open>Data directives\<close>

definition data_directive :: "asm_env \<Rightarrow> string \<Rightarrow> rtx \<Rightarrow> text_result" where
  "data_directive ae directive x =
    (case output_addr_const (ae_env ae) x of
       Inl e \<Rightarrow> Inl e | Inr t \<Rightarrow> Inr (tab @ directive @ tab @ t @ nl))"

definition ASM_OUTPUT_INT :: "asm_env \<Rightarrow> rtx \<Rightarrow> text_result" where
  "ASM_OUTPUT_INT ae x = data_directive ae ''.data32'' x"

definition ASM_OUTPUT_SHORT :: "asm_env \<Rightarrow> rtx \<Rightarrow> text_result" where
  "ASM_OUTPUT_SHORT ae x = data_directive ae ''.data16'' x"

definition ASM_OUTPUT_CHAR :: "asm_env \<Rightarrow> rtx \<Rightarrow> text_result" where
  "ASM_OUTPUT_CHAR ae x = data_directive ae ''.data8'' x"

definition ASM_OUTPUT_BYTE :: "int \<Rightarrow> string" where
  "ASM_OUTPUT_BYTE v = tab @ ''.data8'' @ tab @ ''0x'' @ hex (nat (to_unsigned v)) @ nl"

definition ASM_OUTPUT_ADDR_VEC_ELT :: "int \<Rightarrow> string" where
  "ASM_OUTPUT_ADDR_VEC_ELT v = tab @ ''.gpword'' @ tab @ ''$L'' @ dec v @ nl"

definition ASM_OUTPUT_ADDR_DIFF_ELT :: "asm_env \<Rightarrow> int \<Rightarrow> string" where
  "ASM_OUTPUT_ADDR_DIFF_ELT ae v =
    tab @ ''.gpword'' @ tab @ ''$L'' @ dec v @ (if flag_pic (ae_env ae) = 2 then ''@GOTOFF'' else []) @ nl"

definition ASM_OUTPUT_CASE_LABEL :: "string \<Rightarrow> nat \<Rightarrow> asm_item list" where
  "ASM_OUTPUT_CASE_LABEL prefix num = microblaze_internal_label prefix num"

definition ASM_OUTPUT_ALIGN :: "int \<Rightarrow> string" where
  "ASM_OUTPUT_ALIGN log = tab @ ''.align'' @ tab @ dec log @ nl"

definition ASM_OUTPUT_SKIP :: "int \<Rightarrow> string" where
  "ASM_OUTPUT_SKIP n = tab @ ''.space'' @ tab @ dec (to_unsigned n) @ nl"

text \<open>The words of a floating-point constant in the target's format, and the decimal number of the
  comment, come from \<open>gcc/real.c\<close> and the C library.\<close>

definition microblaze_output_double :: "32 word \<Rightarrow> 32 word \<Rightarrow> string \<Rightarrow> string" where
  "microblaze_output_double w0 w1 decimal =
    tab @ ''.word'' @ tab @ ''0x'' @ zero_pad 8 (hex (unat w0)) @ tab @ tab @ ''# '' @ decimal @ nl
    @ tab @ ''.word'' @ tab @ ''0x'' @ zero_pad 8 (hex (unat w1)) @ nl"

definition microblaze_output_float :: "32 word \<Rightarrow> string \<Rightarrow> string" where
  "microblaze_output_float w decimal =
    tab @ ''.word'' @ tab @ ''0x'' @ zero_pad 8 (hex (unat w)) @ tab @ tab @ ''# '' @ decimal @ '' (float)'' @ nl"

text \<open>The third argument is the format's text around the size. \<open>TARGET_GP_OPT\<close> is zero.\<close>

definition microblaze_declare_object :: "asm_env \<Rightarrow> string \<Rightarrow> string \<Rightarrow> string \<Rightarrow> string" where
  "microblaze_declare_object ae name section formatted = section @ assemble_name ae name @ formatted"

text \<open>The size is \<open>None\<close> when the declaration has none. The flag \<open>size_directive_output\<close> is
  returned.\<close>

definition ASM_DECLARE_OBJECT_NAME :: "asm_env \<Rightarrow> string \<Rightarrow> int option \<Rightarrow> string \<times> bool" where
  "ASM_DECLARE_OBJECT_NAME ae name decl_size =
    (let type = tab @ ''.type'' @ tab @ assemble_name ae name @ '','' @ ''@object'' @ nl;
         label = microblaze_declare_object ae name [] ('':'' @ nl)
     in case decl_size of
          Some n \<Rightarrow>
            if \<not> flag_inhibit_size_directive ae
            then (type @ tab @ ''.size'' @ tab @ assemble_name ae name @ '','' @ dec n @ nl @ label, True)
            else (type @ label, False)
        | None \<Rightarrow> (type @ label, False))"

definition ASM_FINISH_DECLARE_OBJECT ::
  "asm_env \<Rightarrow> string \<Rightarrow> int option \<Rightarrow> bool \<Rightarrow> bool \<Rightarrow> bool \<Rightarrow> bool \<Rightarrow> string \<times> bool" where
  "ASM_FINISH_DECLARE_OBJECT ae name decl_size top_level at_end initial_error size_directive_output =
    (case decl_size of
       Some n \<Rightarrow>
         if \<not> flag_inhibit_size_directive ae \<and> \<not> at_end \<and> top_level \<and> initial_error \<and> \<not> size_directive_output
         then (tab @ ''.size'' @ tab @ assemble_name ae name @ '','' @ dec n @ nl, True)
         else ([], size_directive_output)
     | None \<Rightarrow> ([], size_directive_output))"

definition ASM_OUTPUT_DEF :: "asm_env \<Rightarrow> string \<Rightarrow> string \<Rightarrow> string" where
  "ASM_OUTPUT_DEF ae label1 label2 = tab @ assemble_name ae label1 @ '' = '' @ assemble_name ae label2 @ nl"

definition ASM_OUTPUT_WEAK_ALIAS :: "asm_env \<Rightarrow> string \<Rightarrow> string option \<Rightarrow> string" where
  "ASM_OUTPUT_WEAK_ALIAS ae name value =
    tab @ ''.weakext'' @ tab @ assemble_name ae name
    @ (case value of None \<Rightarrow> [] | Some v \<Rightarrow> '' '' @ assemble_name ae v) @ nl"

section \<open>Properties\<close>

text \<open>The directives that open and close a function's text name the same symbol, and the text
  between them defines it as a label; an interrupt handler gets the name the startup code
  looks for besides its own. After the function the file-wide state is that of a fresh function,
  except for what names files, lines and the kind of the last function.\<close>

theorem function_brackets:
  assumes "user_label_prefix (ae_env ae) = []" "alias_target ae INTERRUPT_HANDLER_NAME = INTERRUPT_HANDLER_NAME"
    and "\<not> flag_inhibit_size_directive ae" "interrupt_handler st' = interrupt_handler st"
  shows "\<exists>name before after.
    text_of (fst (microblaze_function_prologue ae fn fnname st)) = tab @ ''.ent'' @ tab @ name @ nl @ before @ name @ '':'' @ nl @ after
    \<and> text_of (fst (microblaze_function_epilogue ae fnname st')) = tab @ ''.end'' @ tab @ name @ nl
    \<and> (interrupt_handler st \<longrightarrow> name = INTERRUPT_HANDLER_NAME)
    \<and> inside_function (snd (microblaze_function_prologue ae fn fnname st))
    \<and> (let r = snd (microblaze_function_epilogue ae fnname st')
       in \<not> inside_function r \<and> current_frame_info r = zero_frame_info \<and> string_constants r = []
          \<and> num_refs r = [0, 0, 0] \<and> num_source_filenames r = num_source_filenames st')"
proof -
  let ?own = "assemble_name ae fnname" and ?ih = "''_interrupt_handler''"
  have same: "assemble_name ae INTERRUPT_HANDLER_NAME = ?ih"
    using assms(1,2) by (simp add: assemble_name_def assemble_name_raw_def INTERRUPT_HANDLER_NAME_def)
  define name where "name = (if interrupt_handler st then ?ih else ?own)"
  have end_text: "text_of (fst (microblaze_function_epilogue ae fnname st')) = tab @ ''.end'' @ tab @ name @ nl"
    using assms(3,4) by (simp add: microblaze_function_epilogue_def name_def)
  obtain frame where f: "microblaze_function_prologue ae fn fnname st =
    ([Txt (tab @ ''.ent'' @ tab @ (if interrupt_handler st \<and> INTERRUPT_HANDLER_NAME \<noteq> fnname then ?ih else ?own) @ nl
        @ (if interrupt_handler st then [] else ASM_OUTPUT_TYPE_DIRECTIVE ae fnname ''function'')),
      Txt (?own @ '':'' @ nl @ (if interrupt_handler st \<and> INTERRUPT_HANDLER_NAME \<noteq> fnname then ?ih @ '':'' @ nl else [])),
      Txt frame], st\<lparr>inside_function := True\<rparr>)"
    using assms(3) by (simp add: microblaze_function_prologue_def Let_def)
  have "\<exists>before after. text_of (fst (microblaze_function_prologue ae fn fnname st)) =
      tab @ ''.ent'' @ tab @ name @ nl @ before @ name @ '':'' @ nl @ after"
  proof (cases "interrupt_handler st \<and> INTERRUPT_HANDLER_NAME \<noteq> fnname")
    case True
    then show ?thesis
      by (intro exI [of _ "?own @ '':'' @ nl"] exI [of _ frame]) (simp add: f name_def)
  next
    case False
    then have "name = ?own" using same by (auto simp: name_def)
    then show ?thesis using False
      by (intro exI [of _ "if interrupt_handler st then [] else ASM_OUTPUT_TYPE_DIRECTIVE ae fnname ''function''"] exI [of _ frame])
        (auto simp: f)
  qed
  moreover have "interrupt_handler st \<longrightarrow> name = INTERRUPT_HANDLER_NAME" by (simp add: name_def INTERRUPT_HANDLER_NAME_def)
  moreover have "inside_function (snd (microblaze_function_prologue ae fn fnname st))" by (simp add: f)
  ultimately show ?thesis using end_text by (auto simp: microblaze_function_epilogue_def Let_def)
qed

definition example_asm_env :: asm_env where
  "example_asm_env =
    \<lparr>ae_env = default_env, flag_inhibit_size_directive = False, microblaze_section_threshold = 8,
     target_stack_check = False, dbx_debug = False, alias_target = (\<lambda>n. n)\<rparr>"

definition example_file_state :: file_state where
  "example_file_state =
    \<lparr>next_pseudo = 50, emitted = [], live_marks = [], interrupt_handler = True, save_volatiles = False,
     current_frame_info = zero_frame_info, reports = [], inside_function = False, ignore_line_number = False,
     dslots_load_total = 0, dslots_jump_total = 0, dslots_load_filled = 0, dslots_jump_filled = 0,
     num_refs = [1, 2, 3], microblaze_load_reg = None, microblaze_load_reg2 = None,
     string_constants = [''LC0''], first_time = False, current_function_file = ''a.c'',
     num_source_filenames = 1, sym_lineno = 0\<rparr>"

lemma function_brackets_witness:
  "text_of (fst (microblaze_function_epilogue example_asm_env ''uart_isr'' example_file_state))
    = tab @ ''.end'' @ tab @ INTERRUPT_HANDLER_NAME @ nl"
proof -
  have "user_label_prefix (ae_env example_asm_env) = []"
    "alias_target example_asm_env INTERRUPT_HANDLER_NAME = INTERRUPT_HANDLER_NAME"
    "\<not> flag_inhibit_size_directive example_asm_env" "interrupt_handler example_file_state"
    by (simp_all add: example_asm_env_def default_env_def example_file_state_def)
  then show ?thesis
    using function_brackets [of example_asm_env example_file_state example_file_state undefined "''uart_isr''"] by blast
qed

text \<open>Digit strings of one length compare like the numbers they stand for.\<close>

definition digit_string :: "string \<Rightarrow> bool" where
  "digit_string s \<longleftrightarrow> (\<forall>c \<in> set s. \<exists>d < 10. c = digit_char d)"

lemma undigits_Cons: "undigits b (c # s) = digit_val c * b ^ length s + undigits b s"
proof -
  have "foldl (\<lambda>v c. v * b + digit_val c) v s = v * b ^ length s + undigits b s" for v
  proof (induction s rule: rev_induct)
    case Nil
    then show ?case by (simp add: undigits_def)
  next
    case (snoc x xs)
    then show ?case by (simp add: undigits_append algebra_simps)
  qed
  from this [of "digit_val c"] show ?thesis by (simp add: undigits_def)
qed

lemma undigits_bound: "digit_string s \<Longrightarrow> undigits 10 s < 10 ^ length s"
proof (induction s)
  case (Cons c s)
  then obtain d where d: "d < 10" "c = digit_char d" by (auto simp: digit_string_def)
  moreover have "undigits 10 s < 10 ^ length s" using Cons by (simp add: digit_string_def)
  moreover have "d * 10 ^ length s \<le> 9 * 10 ^ length s" using d(1) by (intro mult_le_mono1) simp
  moreover have "undigits 10 (c # s) = d * 10 ^ length s + undigits 10 s" using d by (simp add: undigits_Cons)
  moreover have "(10 :: nat) ^ length (c # s) = 9 * 10 ^ length s + 10 ^ length s" by simp
  ultimately show ?case by linarith
qed (simp add: undigits_def)

lemma digit_char_less: "d < 10 \<Longrightarrow> e < 10 \<Longrightarrow> digit_char d < digit_char e \<longleftrightarrow> d < e"
  by (simp add: less_char_def digit_char_def of_char_of)

lemma digit_strings_compare:
  "digit_string s \<Longrightarrow> digit_string t \<Longrightarrow> length s = length t \<Longrightarrow> s < t \<longleftrightarrow> undigits 10 s < undigits 10 t"
proof (induction s t rule: list_induct2')
  case (4 c s d t)
  obtain i j where i: "i < 10" "c = digit_char i" and j: "j < 10" "d = digit_char j"
    using 4(2,3) by (auto simp: digit_string_def)
  have len: "length s = length t" and s: "digit_string s" "digit_string t" using 4 by (simp_all add: digit_string_def)
  have b: "undigits 10 s < 10 ^ length t" "undigits 10 t < 10 ^ length t" using undigits_bound s len by metis+
  have v: "undigits 10 (c # s) = i * 10 ^ length t + undigits 10 s" "undigits 10 (d # t) = j * 10 ^ length t + undigits 10 t"
    using i j len by (simp_all add: undigits_Cons)
  have "digit_val (digit_char i) = i" "digit_val (digit_char j) = j" using i(1) j(1) by simp_all
  then have eq: "c = d \<longleftrightarrow> i = j" using i(2) j(2) by metis
  have "(c # s) < (d # t) \<longleftrightarrow> i < j \<or> i = j \<and> undigits 10 s < undigits 10 t"
    using 4(1) s len i j eq digit_char_less by (simp add: Cons_less_Cons)
  also have "\<dots> \<longleftrightarrow> i * 10 ^ length t + undigits 10 s < j * 10 ^ length t + undigits 10 t"
  proof (cases i j rule: linorder_cases)
    case less
    then have "Suc i * 10 ^ length t \<le> j * 10 ^ length t" by (intro mult_le_mono1) simp
    then show ?thesis using less b by simp
  next
    case greater
    then have "Suc j * 10 ^ length t \<le> i * 10 ^ length t" by (intro mult_le_mono1) simp
    then show ?thesis using greater b by simp
  qed simp
  finally show ?case by (simp only: v)
qed auto

lemma five_digits:
  assumes "n < 100000"
  shows "digit_string (zero_pad 5 (digits 10 n))" "length (zero_pad 5 (digits 10 n)) = 5"
    "undigits 10 (zero_pad 5 (digits 10 n)) = n"
proof -
  show "digit_string (zero_pad 5 (digits 10 n))"
    unfolding digit_string_def
  proof
    fix c assume "c \<in> set (zero_pad 5 (digits 10 n))"
    then have "c \<in> digit_char ` {..<10} \<or> c = digit_char 0"
      using set_digits [of 10 n] by (auto simp: zero_pad_def)
    then show "\<exists>d < 10. c = digit_char d"
    proof
      assume "c = digit_char 0"
      then show ?thesis by (intro exI [of _ 0] conjI) simp_all
    qed blast
  qed
  show "length (zero_pad 5 (digits 10 n)) = 5" using length_digits_le [of 10 n 5] assms by simp
  show "undigits 10 (zero_pad 5 (digits 10 n)) = n" by (simp add: undigits_digits)
qed

text \<open>C32. Every constructor and destructor with a priority the language allows goes to a section
  whose name fits its array, and the names sort against the priorities: the linker, which sorts
  by name, puts a higher priority number first, so that reading the table from the end runs the lower
  numbers first. The default priority uses the plain section, which sorts before all of them.\<close>

theorem init_sections_sorted:
  assumes "0 \<le> p" "p < q" "q \<le> MAX_INIT_PRIORITY" "base = ''.ctors'' \<or> base = ''.dtors''"
  shows "\<exists>s t. init_section base p = Some s \<and> init_section base q = Some t \<and> t < s"
proof -
  let ?s = "\<lambda>p. zero_pad 5 (digits 10 (nat (MAX_INIT_PRIORITY - p)))"
  have sec: "init_section base x = Some (base @ ''.'' @ ?s x)" if "0 \<le> x" "x < MAX_INIT_PRIORITY" for x
  proof -
    have "to_unsigned (MAX_INIT_PRIORITY - x) = MAX_INIT_PRIORITY - x"
      using that by (intro to_unsigned_small) (simp_all add: MAX_INIT_PRIORITY_def)
    moreover have "length (?s x) = 5" using that by (intro five_digits(2)) (simp add: MAX_INIT_PRIORITY_def)
    ultimately show ?thesis using that assms(4)
      by (auto simp: init_section_def DEFAULT_INIT_PRIORITY_def MAX_INIT_PRIORITY_def Let_def)
  qed
  have less: "base @ a < base @ b \<longleftrightarrow> a < b" for a b by (induction base) (simp_all add: Cons_less_Cons)
  show ?thesis
  proof (cases "q = MAX_INIT_PRIORITY")
    case True
    then have "init_section base q = Some (base @ [])" by (simp add: init_section_def DEFAULT_INIT_PRIORITY_def MAX_INIT_PRIORITY_def)
    moreover have "base @ [] < base @ ''.'' @ ?s p" by (simp only: less) simp
    ultimately show ?thesis using sec [of p] assms(1,2) True by simp
  next
    case False
    have n: "nat (MAX_INIT_PRIORITY - p) < 100000" "nat (MAX_INIT_PRIORITY - q) < 100000"
      using assms(1,2) by (simp_all add: MAX_INIT_PRIORITY_def)
    have "?s q < ?s p"
      using digit_strings_compare [OF five_digits(1) [OF n(2)] five_digits(1) [OF n(1)]] n five_digits(2,3) assms(2,3) by simp
    then have "base @ ''.'' @ ?s q < base @ ''.'' @ ?s p" by (simp only: less) (simp add: Cons_less_Cons)
    then show ?thesis using sec [of p] sec [of q] assms(1-3) False by simp
  qed
qed

lemma init_sections_sorted_witness:
  "\<exists>s t. init_section ''.ctors'' 100 = Some s \<and> init_section ''.ctors'' 200 = Some t \<and> t < s"
  using init_sections_sorted [of 100 200 "''.ctors''"] by (simp add: MAX_INIT_PRIORITY_def)

end
