(* ===== verification/Sections.thy ===== *)
theory Sections
  imports AsmFile
begin

text \<open>
  Which section of the object file data goes to: the classification of \<open>gcc/varasm.c\<close> with the
  MicroBlaze's small data sections, \<open>microblaze_elf_in_small_data_p\<close>,
  \<open>microblaze_select_section\<close>, the flags of a section, and the macros of \<open>microblaze.h\<close> that
  place uninitialised objects.
\<close>

section \<open>Data\<close>

datatype data_code = Function_decl | String_cst | Var_decl | Constructor | Other_code

text \<open>\<open>DECL_INITIAL\<close>: missing, \<open>error_mark_node\<close> (an initialiser that is not kept), or an
  expression that is zero or not, constant or not, a string or not.\<close>

datatype initial = Null_initial | Error_mark | Initial (init_zerop: bool) (init_constant: bool) (init_string: bool)

record data_decl =
  dd_code :: data_code
  dd_initial :: initial
  tree_readonly :: bool
  tree_side_effects :: bool
  tree_constant :: bool
  thread_local :: bool
  section_name :: "string option"
  data_size :: int
  one_only :: bool

record section_env = asm_env +
  flag_mudflap :: bool
  flag_merge_constants :: nat
  flag_zero_initialized_in_bss :: bool

datatype section_category =
    SECCAT_TEXT | SECCAT_RODATA | SECCAT_RODATA_MERGE_STR | SECCAT_RODATA_MERGE_STR_INIT
  | SECCAT_RODATA_MERGE_CONST | SECCAT_SRODATA | SECCAT_DATA | SECCAT_DATA_REL | SECCAT_DATA_REL_LOCAL
  | SECCAT_DATA_REL_RO | SECCAT_DATA_REL_RO_LOCAL | SECCAT_SDATA | SECCAT_TDATA
  | SECCAT_BSS | SECCAT_SBSS | SECCAT_TBSS

datatype data_section =
    Readonly_data | Mergeable_string | Mergeable_constant | Data_section | Bss_section | Named string

definition bss_initializer_p :: "section_env \<Rightarrow> data_decl \<Rightarrow> bool" where
  "bss_initializer_p env decl \<longleftrightarrow>
    (case dd_initial decl of
       Null_initial \<Rightarrow> True
     | Error_mark \<Rightarrow> True
     | Initial z c s \<Rightarrow> flag_zero_initialized_in_bss env \<and> \<not> tree_readonly decl \<and> z)"

definition reloc_rw_mask :: "section_env \<Rightarrow> nat" where
  "reloc_rw_mask env = (if flag_pic (ae_env env) \<noteq> 0 then 3 else 0)"

definition microblaze_elf_in_small_data_p :: "section_env \<Rightarrow> data_decl \<Rightarrow> bool" where
  "microblaze_elf_in_small_data_p env decl =
    (if \<not> target_xlgp_opt (ae_env env) then False
     else if dd_code decl = String_cst then False
     else if dd_code decl = Function_decl then False
     else if dd_code decl = Var_decl
          \<and> (case section_name decl of
               None \<Rightarrow> False
             | Some s \<Rightarrow> s = ''.sdata'' \<or> s = ''.sdata2'' \<or> s = ''.sbss'' \<or> s = ''.sbss2'') then True
     else data_size decl > 0 \<and> data_size decl \<le> microblaze_section_threshold env)"

text \<open>A variable whose initialiser is missing never gets to the tests of its initialiser.\<close>

definition categorize_var :: "section_env \<Rightarrow> data_decl \<Rightarrow> nat \<Rightarrow> section_category" where
  "categorize_var env decl reloc =
    (let rw = reloc AND reloc_rw_mask env \<noteq> 0
     in if bss_initializer_p env decl then SECCAT_BSS
        else if \<not> tree_readonly decl \<or> tree_side_effects decl \<or> \<not> init_constant (dd_initial decl) then
          (if rw then (if reloc = 1 then SECCAT_DATA_REL_LOCAL else SECCAT_DATA_REL) else SECCAT_DATA)
        else if rw then (if reloc = 1 then SECCAT_DATA_REL_RO_LOCAL else SECCAT_DATA_REL_RO)
        else if reloc \<noteq> 0 \<or> flag_merge_constants env < 2 then SECCAT_RODATA
        else if init_string (dd_initial decl) then SECCAT_RODATA_MERGE_STR_INIT
        else SECCAT_RODATA_MERGE_CONST)"

definition categorize_decl_for_section :: "section_env \<Rightarrow> data_decl \<Rightarrow> nat \<Rightarrow> section_category" where
  "categorize_decl_for_section env decl reloc =
    (case dd_code decl of
       Function_decl \<Rightarrow> SECCAT_TEXT
     | String_cst \<Rightarrow> if flag_mudflap env then SECCAT_RODATA else SECCAT_RODATA_MERGE_STR
     | code \<Rightarrow>
         let ret = (case code of
                      Var_decl \<Rightarrow> categorize_var env decl reloc
                    | Constructor \<Rightarrow>
                        if reloc AND reloc_rw_mask env \<noteq> 0 \<or> tree_side_effects decl \<or> \<not> tree_constant decl
                        then SECCAT_DATA else SECCAT_RODATA
                    | _ \<Rightarrow> SECCAT_RODATA)
         in if code = Var_decl \<and> thread_local decl then
              (if ret = SECCAT_BSS \<or> (flag_zero_initialized_in_bss env \<and> init_zerop (dd_initial decl))
               then SECCAT_TBSS else SECCAT_TDATA)
            else if microblaze_elf_in_small_data_p env decl then
              (if ret = SECCAT_BSS then SECCAT_SBSS
               else if ret = SECCAT_RODATA then SECCAT_SRODATA
               else SECCAT_SDATA)
            else ret)"

definition readonly_category :: "section_category \<Rightarrow> bool" where
  "readonly_category c \<longleftrightarrow>
    c \<in> set [SECCAT_RODATA, SECCAT_RODATA_MERGE_STR, SECCAT_RODATA_MERGE_STR_INIT,
             SECCAT_RODATA_MERGE_CONST, SECCAT_SRODATA]"

definition decl_readonly_section :: "section_env \<Rightarrow> data_decl \<Rightarrow> nat \<Rightarrow> bool" where
  "decl_readonly_section env decl reloc = readonly_category (categorize_decl_for_section env decl reloc)"

fun default_elf_select :: "section_category \<Rightarrow> data_section option" where
  "default_elf_select SECCAT_TEXT = None"
| "default_elf_select SECCAT_RODATA = Some Readonly_data"
| "default_elf_select SECCAT_RODATA_MERGE_STR = Some Mergeable_string"
| "default_elf_select SECCAT_RODATA_MERGE_STR_INIT = Some Mergeable_string"
| "default_elf_select SECCAT_RODATA_MERGE_CONST = Some Mergeable_constant"
| "default_elf_select SECCAT_SRODATA = Some (Named ''.sdata2'')"
| "default_elf_select SECCAT_DATA = Some Data_section"
| "default_elf_select SECCAT_DATA_REL = Some (Named ''.data.rel'')"
| "default_elf_select SECCAT_DATA_REL_LOCAL = Some (Named ''.data.rel.local'')"
| "default_elf_select SECCAT_DATA_REL_RO = Some (Named ''.data.rel.ro'')"
| "default_elf_select SECCAT_DATA_REL_RO_LOCAL = Some (Named ''.data.rel.ro.local'')"
| "default_elf_select SECCAT_SDATA = Some (Named ''.sdata'')"
| "default_elf_select SECCAT_TDATA = Some (Named ''.tdata'')"
| "default_elf_select SECCAT_BSS = Some Bss_section"
| "default_elf_select SECCAT_SBSS = Some (Named ''.sbss'')"
| "default_elf_select SECCAT_TBSS = Some (Named ''.tbss'')"

definition default_elf_select_section :: "section_env \<Rightarrow> data_decl \<Rightarrow> nat \<Rightarrow> data_section option" where
  "default_elf_select_section env decl reloc = default_elf_select (categorize_decl_for_section env decl reloc)"

definition microblaze_select_section :: "section_env \<Rightarrow> data_decl \<Rightarrow> nat \<Rightarrow> data_section option" where
  "microblaze_select_section env decl reloc =
    (case categorize_decl_for_section env decl reloc of
       SECCAT_RODATA_MERGE_STR \<Rightarrow> Some Readonly_data
     | SECCAT_RODATA_MERGE_STR_INIT \<Rightarrow> Some Readonly_data
     | _ \<Rightarrow> default_elf_select_section env decl reloc)"

section \<open>Section flags\<close>

datatype section_flag =
    SECTION_CODE | SECTION_WRITE | SECTION_DEBUG | SECTION_LINKONCE | SECTION_SMALL | SECTION_BSS
  | SECTION_MERGE | SECTION_STRINGS | SECTION_TLS | SECTION_NOTYPE | SECTION_DECLARED

text \<open>The section of the current function's unlikely executed code, when there is a function.\<close>

definition has_prefix :: "string \<Rightarrow> string \<Rightarrow> bool" where
  "has_prefix p s \<longleftrightarrow> take (length p) s = p"

definition default_section_type_flags ::
  "section_env \<Rightarrow> string option option \<Rightarrow> data_decl option \<Rightarrow> string \<Rightarrow> nat \<Rightarrow> section_flag set" where
  "default_section_type_flags env current decl name reloc =
    (let base =
          (case decl of
             Some d \<Rightarrow>
               if dd_code d = Function_decl then {SECTION_CODE}
               else if decl_readonly_section env d reloc then {}
               else if current = Some (Some name) then {SECTION_CODE}
               else {SECTION_WRITE}
           | None \<Rightarrow>
               if current = Some (Some name) then {SECTION_CODE}
               else if current = None \<and> name = ''.text.unlikely'' then {SECTION_CODE}
               else {SECTION_WRITE});
         once = (case decl of Some d \<Rightarrow> if one_only d then {SECTION_LINKONCE} else {} | None \<Rightarrow> {});
         tls = (case decl of
                  Some d \<Rightarrow> if dd_code d = Var_decl \<and> thread_local d then {SECTION_TLS, SECTION_WRITE} else {}
                | None \<Rightarrow> {});
         bss = (if name = ''.bss'' \<or> has_prefix ''.bss.'' name \<or> has_prefix ''.gnu.linkonce.b.'' name
                   \<or> name = ''.sbss'' \<or> has_prefix ''.sbss.'' name \<or> has_prefix ''.gnu.linkonce.sb.'' name
                then {SECTION_BSS} else {});
         tdata = (if name = ''.tdata'' \<or> has_prefix ''.tdata.'' name \<or> has_prefix ''.gnu.linkonce.td.'' name
                  then {SECTION_TLS} else {});
         tbss = (if name = ''.tbss'' \<or> has_prefix ''.tbss.'' name \<or> has_prefix ''.gnu.linkonce.tb.'' name
                 then {SECTION_TLS, SECTION_BSS} else {});
         flags = base \<union> once \<union> tls \<union> bss \<union> tdata \<union> tbss
     in if flags \<inter> {SECTION_CODE, SECTION_BSS, SECTION_TLS} = {}
           \<and> (name = ''.init_array'' \<or> name = ''.fini_array'' \<or> name = ''.preinit_array'')
        then flags \<union> {SECTION_NOTYPE} else flags)"

text \<open>The directive that opens a section. The entity size of a mergeable section and the group of
  a section that is linked once are parameters.\<close>

definition default_elf_asm_named_section ::
  "bool \<Rightarrow> nat option \<Rightarrow> string \<Rightarrow> string \<Rightarrow> section_flag set \<Rightarrow> string" where
  "default_elf_asm_named_section have_comdat entsize comdat_group name flags =
    (let grouped = have_comdat \<and> SECTION_LINKONCE \<in> flags
     in if \<not> grouped \<and> SECTION_DECLARED \<in> flags then tab @ ''.section'' @ tab @ name @ nl
        else
          tab @ ''.section'' @ tab @ name @ '','' @ [CHR 0x22]
          @ (if SECTION_DEBUG \<in> flags then [] else ''a'')
          @ (if SECTION_WRITE \<in> flags then ''w'' else [])
          @ (if SECTION_CODE \<in> flags then ''x'' else [])
          @ (if SECTION_SMALL \<in> flags then ''s'' else [])
          @ (if SECTION_MERGE \<in> flags then ''M'' else [])
          @ (if SECTION_STRINGS \<in> flags then ''S'' else [])
          @ (if SECTION_TLS \<in> flags then ''T'' else [])
          @ (if grouped then ''G'' else []) @ [CHR 0x22]
          @ (if SECTION_NOTYPE \<in> flags then []
             else '',@'' @ (if SECTION_BSS \<in> flags then ''nobits'' else ''progbits'')
                  @ (case entsize of None \<Rightarrow> [] | Some n \<Rightarrow> '','' @ dec (int n))
                  @ (if grouped then '','' @ comdat_group @ '',comdat'' else []))
          @ nl)"

section \<open>Objects without initialiser, and identification strings\<close>

text \<open>\<open>ASM_OUTPUT_ALIGNED_COMMON\<close> and \<open>ASM_OUTPUT_ALIGNED_LOCAL\<close>; the alignment is in bits.\<close>

definition aligned_object :: "string \<Rightarrow> section_env \<Rightarrow> string \<Rightarrow> int \<Rightarrow> nat \<Rightarrow> asm_item list" where
  "aligned_object directive env name bytes align =
    [Switch (if bytes > 0 \<and> bytes \<le> microblaze_section_threshold env \<and> target_xlgp_opt (ae_env env)
             then ''.sbss'' else ''.bss''),
     Txt (tab @ directive @ tab),
     Txt (assemble_name (asm_env.truncate env) name),
     Txt ('','' @ dec (to_unsigned bytes) @ '','' @ dec (int (align div 8)) @ nl),
     Txt (ASM_OUTPUT_TYPE_DIRECTIVE (asm_env.truncate env) name ''object'')]"

definition ASM_OUTPUT_ALIGNED_COMMON :: "section_env \<Rightarrow> string \<Rightarrow> int \<Rightarrow> nat \<Rightarrow> asm_item list" where
  "ASM_OUTPUT_ALIGNED_COMMON env name bytes align = aligned_object ''.comm'' env name bytes align"

definition ASM_OUTPUT_ALIGNED_LOCAL :: "section_env \<Rightarrow> string \<Rightarrow> int \<Rightarrow> nat \<Rightarrow> asm_item list" where
  "ASM_OUTPUT_ALIGNED_LOCAL env name bytes align = aligned_object ''.lcomm'' env name bytes align"

text \<open>The section of the string of \<open>#ident\<close>; \<open>assemble_string\<close> then writes it.\<close>

definition microblaze_asm_output_ident :: "section_env \<Rightarrow> string \<Rightarrow> string" where
  "microblaze_asm_output_ident env s =
    (if int (length s + 1) \<le> microblaze_section_threshold env then ''.sdata2'' else ''.rodata'')"

section \<open>Properties\<close>

text \<open>Sections whose contents a program may write, and sections that hold no contents.\<close>

definition writable :: "data_section \<Rightarrow> bool" where
  "writable s \<longleftrightarrow> s \<notin> {Readonly_data, Mergeable_string, Mergeable_constant, Named ''.sdata2''}"

definition nobits :: "data_section \<Rightarrow> bool" where
  "nobits s \<longleftrightarrow> s \<in> {Bss_section, Named ''.sbss'', Named ''.tbss''}"

text \<open>C31. A variable without an explicit section that is not thread local gets a section, and
  one that suits it: a small data section (\<open>.sdata\<close>, \<open>.sdata2\<close>, \<open>.sbss\<close>) exactly when the
  instructions address it relative to the small data pointer, which is when the option is on and its
  size is positive and at most the threshold; a section without contents exactly when it
  has no initialiser to keep; and a writable one whenever the program may write to
  it or its initialiser is not constant.\<close>

theorem variable_sections:
  assumes "dd_code decl = Var_decl" "section_name decl = None" "\<not> thread_local decl"
  shows "\<exists>s. microblaze_select_section env decl reloc = Some s
    \<and> (microblaze_elf_in_small_data_p env decl \<longleftrightarrow> s \<in> Named ` {''.sdata'', ''.sdata2'', ''.sbss''})
    \<and> (microblaze_elf_in_small_data_p env decl \<longleftrightarrow>
         target_xlgp_opt (ae_env env) \<and> 0 < data_size decl \<and> data_size decl \<le> microblaze_section_threshold env)
    \<and> (nobits s \<longleftrightarrow> bss_initializer_p env decl)
    \<and> (\<not> tree_readonly decl \<or> tree_side_effects decl \<or> \<not> init_constant (dd_initial decl) \<longrightarrow> writable s)
    \<and> s \<notin> {Mergeable_string}"
  using assms
  by (auto simp: microblaze_select_section_def default_elf_select_section_def categorize_decl_for_section_def
      categorize_var_def writable_def nobits_def microblaze_elf_in_small_data_p_def Let_def)

text \<open>A writable variable of four bytes with the initial value 5.\<close>

definition example_section_env :: section_env where
  "example_section_env =
    \<lparr>ae_env = default_env\<lparr>target_xlgp_opt := True\<rparr>, flag_inhibit_size_directive = False,
     microblaze_section_threshold = 8, target_stack_check = False, dbx_debug = False,
     alias_target = (\<lambda>n. n), flag_mudflap = False, flag_merge_constants = 1,
     flag_zero_initialized_in_bss = True\<rparr>"

definition example_decl :: data_decl where
  "example_decl =
    \<lparr>dd_code = Var_decl, dd_initial = Initial False True False, tree_readonly = False,
     tree_side_effects = False, tree_constant = False, thread_local = False, section_name = None,
     data_size = 4, one_only = False\<rparr>"

lemma variable_sections_witness:
  "\<exists>s. microblaze_select_section example_section_env example_decl 0 = Some s
    \<and> s \<in> Named ` {''.sdata'', ''.sdata2'', ''.sbss''} \<and> \<not> nobits s \<and> writable s"
proof -
  have "microblaze_elf_in_small_data_p example_section_env example_decl"
    "\<not> bss_initializer_p example_section_env example_decl" "\<not> tree_readonly example_decl"
    by (simp_all add: microblaze_elf_in_small_data_p_def bss_initializer_p_def example_section_env_def example_decl_def)
  moreover have "dd_code example_decl = Var_decl" "section_name example_decl = None" "\<not> thread_local example_decl"
    by (simp_all add: example_decl_def)
  ultimately show ?thesis using variable_sections [of example_decl example_section_env 0] by blast
qed

end
