(* ===== verification/TreeIter.thy ===== *)
theory TreeIter
  imports Prelude
begin

text \<open>
  Statement lists and their iterators, \<open>gcc/tree-iterator.c\<close> and \<open>gcc/tree-iterator.h\<close>: doubly
  linked nodes with a head and a tail, changed through iterators that point at a node. The
  store has one function for every field of a node and of a list, as pointers never
  dangle under the garbage collector; reading through \<open>NULL\<close> and a failing \<open>gcc_assert\<close> are
  \<open>None\<close>.
\<close>

section \<open>The store\<close>

text \<open>A statement is itself a tree: a statement list, a pair of expressions, or a statement of another code.\<close>

datatype 'a tree = Statement_list nat | Compound_expr "'a tree" "'a tree" | Statement 'a

record 'a stmt_store =
  n_prev :: "nat \<Rightarrow> nat option"
  n_next :: "nat \<Rightarrow> nat option"
  n_stmt :: "nat \<Rightarrow> 'a tree"
  n_count :: nat
  STATEMENT_LIST_HEAD :: "nat \<Rightarrow> nat option"
  STATEMENT_LIST_TAIL :: "nat \<Rightarrow> nat option"
  TREE_SIDE_EFFECTS :: "nat \<Rightarrow> bool"
  TREE_CHAIN :: "nat \<Rightarrow> nat option"
  l_count :: nat
  stmt_list_cache :: "nat option"

record tree_stmt_iterator =
  ptr :: "nat option"
  container :: nat

datatype tsi_iterator_update =
    TSI_NEW_STMT | TSI_SAME_STMT | TSI_CHAIN_START | TSI_CHAIN_END | TSI_CONTINUE_LINKING

section \<open>Allocation of lists\<close>

text \<open>\<open>make_node\<close> yields a cleared node at a new address; \<open>memset\<close> clears what lists share with
  other trees, not the head and the tail.\<close>

definition alloc_stmt_list :: "'a stmt_store \<Rightarrow> (nat \<times> 'a stmt_store) option" where
  "alloc_stmt_list st =
    (case stmt_list_cache st of
       Some l \<Rightarrow>
         if TREE_CHAIN st l = Some l then None
         else Some (l, st\<lparr>stmt_list_cache := TREE_CHAIN st l, TREE_CHAIN := (TREE_CHAIN st)(l := None),
                        TREE_SIDE_EFFECTS := (TREE_SIDE_EFFECTS st)(l := False)\<rparr>)
     | None \<Rightarrow>
         let l = l_count st
         in Some (l, st\<lparr>l_count := l + 1,
                   STATEMENT_LIST_HEAD := (STATEMENT_LIST_HEAD st)(l := None),
                   STATEMENT_LIST_TAIL := (STATEMENT_LIST_TAIL st)(l := None),
                   TREE_CHAIN := (TREE_CHAIN st)(l := None),
                   TREE_SIDE_EFFECTS := (TREE_SIDE_EFFECTS st)(l := False)\<rparr>))"

definition free_stmt_list :: "'a stmt_store \<Rightarrow> nat \<Rightarrow> 'a stmt_store option" where
  "free_stmt_list st t =
    (if STATEMENT_LIST_HEAD st t \<noteq> None \<or> STATEMENT_LIST_TAIL st t \<noteq> None
        \<or> stmt_list_cache st = Some t then None
     else Some (st\<lparr>TREE_CHAIN := (TREE_CHAIN st)(t := stmt_list_cache st), stmt_list_cache := Some t\<rparr>))"

section \<open>Iterators\<close>

definition tsi_start :: "'a stmt_store \<Rightarrow> nat \<Rightarrow> tree_stmt_iterator" where
  "tsi_start st t = \<lparr>ptr = STATEMENT_LIST_HEAD st t, container = t\<rparr>"

definition tsi_last :: "'a stmt_store \<Rightarrow> nat \<Rightarrow> tree_stmt_iterator" where
  "tsi_last st t = \<lparr>ptr = STATEMENT_LIST_TAIL st t, container = t\<rparr>"

definition tsi_end_p :: "tree_stmt_iterator \<Rightarrow> bool" where
  "tsi_end_p i \<longleftrightarrow> ptr i = None"

definition tsi_one_before_end_p :: "'a stmt_store \<Rightarrow> tree_stmt_iterator \<Rightarrow> bool" where
  "tsi_one_before_end_p st i = (case ptr i of None \<Rightarrow> False | Some p \<Rightarrow> n_next st p = None)"

definition tsi_next :: "'a stmt_store \<Rightarrow> tree_stmt_iterator \<Rightarrow> tree_stmt_iterator option" where
  "tsi_next st i = map_option (\<lambda>p. i\<lparr>ptr := n_next st p\<rparr>) (ptr i)"

definition tsi_prev :: "'a stmt_store \<Rightarrow> tree_stmt_iterator \<Rightarrow> tree_stmt_iterator option" where
  "tsi_prev st i = map_option (\<lambda>p. i\<lparr>ptr := n_prev st p\<rparr>) (ptr i)"

definition tsi_stmt :: "'a stmt_store \<Rightarrow> tree_stmt_iterator \<Rightarrow> 'a tree option" where
  "tsi_stmt st i = map_option (n_stmt st) (ptr i)"

text \<open>The chain of nodes to link in: the nodes of a statement list, which is then empty and goes
  back to the cache, or one new node. Both \<open>tsi_link_before\<close> and \<open>tsi_link_after\<close> begin with it.
  \<open>None\<close> inside is the empty chain.\<close>

definition statement_chain :: "'a stmt_store \<Rightarrow> 'a tree \<Rightarrow> ((nat \<times> nat) option \<times> 'a stmt_store) option" where
  "statement_chain st t =
    (case t of
       Statement_list l \<Rightarrow>
         let head = STATEMENT_LIST_HEAD st l; tail = STATEMENT_LIST_TAIL st l;
             st = st\<lparr>STATEMENT_LIST_HEAD := (STATEMENT_LIST_HEAD st)(l := None),
                     STATEMENT_LIST_TAIL := (STATEMENT_LIST_TAIL st)(l := None)\<rparr>
         in (case free_stmt_list st l of
               None \<Rightarrow> None
             | Some st \<Rightarrow>
                 (case (head, tail) of
                    (Some h, Some e) \<Rightarrow> Some (Some (h, e), st)
                  | (None, None) \<Rightarrow> Some (None, st)
                  | _ \<Rightarrow> None))
     | _ \<Rightarrow>
         let h = n_count st
         in Some (Some (h, h),
              st\<lparr>n_count := h + 1, n_prev := (n_prev st)(h := None), n_next := (n_next st)(h := None),
                 n_stmt := (n_stmt st)(h := t)\<rparr>))"

definition tsi_link_before ::
  "'a stmt_store \<Rightarrow> tree_stmt_iterator \<Rightarrow> 'a tree \<Rightarrow> tsi_iterator_update
   \<Rightarrow> (tree_stmt_iterator \<times> 'a stmt_store) option" where
  "tsi_link_before st i t mode =
    (if t = Statement_list (container i) then None
     else
       (case statement_chain st t of
          None \<Rightarrow> None
        | Some (None, st) \<Rightarrow> Some (i, st)
        | Some (Some (head, tail), st) \<Rightarrow>
            let l = container i;
                st = st\<lparr>TREE_SIDE_EFFECTS := (TREE_SIDE_EFFECTS st)(l := True)\<rparr>;
                before = (case ptr i of Some cur \<Rightarrow> n_prev st cur | None \<Rightarrow> STATEMENT_LIST_TAIL st l);
                st = st\<lparr>n_prev := (n_prev st)(head := before)\<rparr>;
                st = (case before of
                        Some p \<Rightarrow> st\<lparr>n_next := (n_next st)(p := Some head)\<rparr>
                      | None \<Rightarrow> st\<lparr>STATEMENT_LIST_HEAD := (STATEMENT_LIST_HEAD st)(l := Some head)\<rparr>);
                st = (case ptr i of
                        Some cur \<Rightarrow> st\<lparr>n_next := (n_next st)(tail := Some cur), n_prev := (n_prev st)(cur := Some tail)\<rparr>
                      | None \<Rightarrow> st\<lparr>STATEMENT_LIST_TAIL := (STATEMENT_LIST_TAIL st)(l := Some tail)\<rparr>)
            in Some (case mode of
                       TSI_CHAIN_END \<Rightarrow> i\<lparr>ptr := Some tail\<rparr>
                     | TSI_SAME_STMT \<Rightarrow> i
                     | _ \<Rightarrow> i\<lparr>ptr := Some head\<rparr>, st)))"

definition tsi_link_after ::
  "'a stmt_store \<Rightarrow> tree_stmt_iterator \<Rightarrow> 'a tree \<Rightarrow> tsi_iterator_update
   \<Rightarrow> (tree_stmt_iterator \<times> 'a stmt_store) option" where
  "tsi_link_after st i t mode =
    (if t = Statement_list (container i) then None
     else
       (case statement_chain st t of
          None \<Rightarrow> None
        | Some (None, st) \<Rightarrow> Some (i, st)
        | Some (Some (head, tail), st) \<Rightarrow>
            let l = container i;
                st = st\<lparr>TREE_SIDE_EFFECTS := (TREE_SIDE_EFFECTS st)(l := True)\<rparr>
            in (case ptr i of
                  Some cur \<Rightarrow>
                    let follow = n_next st cur;
                        st = st\<lparr>n_next := (n_next st)(tail := follow)\<rparr>;
                        st = (case follow of
                                Some n \<Rightarrow> st\<lparr>n_prev := (n_prev st)(n := Some tail)\<rparr>
                              | None \<Rightarrow> st\<lparr>STATEMENT_LIST_TAIL := (STATEMENT_LIST_TAIL st)(l := Some tail)\<rparr>);
                        st = st\<lparr>n_prev := (n_prev st)(head := Some cur), n_next := (n_next st)(cur := Some head)\<rparr>
                    in Some (case mode of
                               TSI_NEW_STMT \<Rightarrow> i\<lparr>ptr := Some head\<rparr>
                             | TSI_CHAIN_START \<Rightarrow> i\<lparr>ptr := Some head\<rparr>
                             | TSI_SAME_STMT \<Rightarrow> i
                             | _ \<Rightarrow> i\<lparr>ptr := Some tail\<rparr>, st)
                | None \<Rightarrow>
                    if STATEMENT_LIST_TAIL st l \<noteq> None \<or> mode = TSI_SAME_STMT then None
                    else
                      Some (case mode of
                              TSI_NEW_STMT \<Rightarrow> i\<lparr>ptr := Some head\<rparr>
                            | TSI_CHAIN_START \<Rightarrow> i\<lparr>ptr := Some head\<rparr>
                            | _ \<Rightarrow> i\<lparr>ptr := Some tail\<rparr>,
                            st\<lparr>STATEMENT_LIST_HEAD := (STATEMENT_LIST_HEAD st)(l := Some head),
                               STATEMENT_LIST_TAIL := (STATEMENT_LIST_TAIL st)(l := Some tail)\<rparr>))))"

definition tsi_delink ::
  "'a stmt_store \<Rightarrow> tree_stmt_iterator \<Rightarrow> (tree_stmt_iterator \<times> 'a stmt_store) option" where
  "tsi_delink st i =
    (case ptr i of
       None \<Rightarrow> None
     | Some cur \<Rightarrow>
         let l = container i; follow = n_next st cur; before = n_prev st cur;
             st = (case before of
                     Some p \<Rightarrow> st\<lparr>n_next := (n_next st)(p := follow)\<rparr>
                   | None \<Rightarrow> st\<lparr>STATEMENT_LIST_HEAD := (STATEMENT_LIST_HEAD st)(l := follow)\<rparr>);
             st = (case follow of
                     Some n \<Rightarrow> st\<lparr>n_prev := (n_prev st)(n := before)\<rparr>
                   | None \<Rightarrow> st\<lparr>STATEMENT_LIST_TAIL := (STATEMENT_LIST_TAIL st)(l := before)\<rparr>);
             st = (if follow = None \<and> before = None
                   then st\<lparr>TREE_SIDE_EFFECTS := (TREE_SIDE_EFFECTS st)(l := False)\<rparr> else st)
         in Some (i\<lparr>ptr := follow\<rparr>, st))"

text \<open>The list after the iterator's statement becomes a list of its own. At the last statement the
  code writes through the \<open>NULL\<close> behind it.\<close>

definition tsi_split_statement_list_after ::
  "'a stmt_store \<Rightarrow> tree_stmt_iterator \<Rightarrow> (nat \<times> 'a stmt_store) option" where
  "tsi_split_statement_list_after st i =
    (case ptr i of
       None \<Rightarrow> None
     | Some cur \<Rightarrow>
         let follow = n_next st cur; old = container i
         in (case alloc_stmt_list st of
               None \<Rightarrow> None
             | Some (new, st) \<Rightarrow>
                 let st = st\<lparr>TREE_SIDE_EFFECTS := (TREE_SIDE_EFFECTS st)(new := True),
                            STATEMENT_LIST_HEAD := (STATEMENT_LIST_HEAD st)(new := follow),
                            STATEMENT_LIST_TAIL :=
                              (STATEMENT_LIST_TAIL st)(new := STATEMENT_LIST_TAIL st old, old := Some cur),
                            n_next := (n_next st)(cur := None)\<rparr>
                 in (case follow of
                       None \<Rightarrow> None
                     | Some n \<Rightarrow> Some (new, st\<lparr>n_prev := (n_prev st)(n := None)\<rparr>))))"

definition tsi_split_statement_list_before ::
  "'a stmt_store \<Rightarrow> tree_stmt_iterator \<Rightarrow> (nat \<times> tree_stmt_iterator \<times> 'a stmt_store) option" where
  "tsi_split_statement_list_before st i =
    (case ptr i of
       None \<Rightarrow> None
     | Some cur \<Rightarrow>
         let before = n_prev st cur; old = container i
         in (case alloc_stmt_list st of
               None \<Rightarrow> None
             | Some (new, st) \<Rightarrow>
                 let st = st\<lparr>TREE_SIDE_EFFECTS := (TREE_SIDE_EFFECTS st)(new := True),
                            STATEMENT_LIST_HEAD := (STATEMENT_LIST_HEAD st)(new := Some cur),
                            STATEMENT_LIST_TAIL :=
                              (STATEMENT_LIST_TAIL st)(new := STATEMENT_LIST_TAIL st old, old := before),
                            n_prev := (n_prev st)(cur := None)\<rparr>;
                     st = (case before of
                             Some p \<Rightarrow> st\<lparr>n_next := (n_next st)(p := None)\<rparr>
                           | None \<Rightarrow> st\<lparr>STATEMENT_LIST_HEAD := (STATEMENT_LIST_HEAD st)(old := None)\<rparr>)
                 in Some (new, i\<lparr>container := new\<rparr>, st)))"

text \<open>The first, the last and the only statement of an expression; \<open>None\<close> is \<open>NULL_TREE\<close>.\<close>

fun expr_first :: "'a stmt_store \<Rightarrow> 'a tree option \<Rightarrow> 'a tree option" where
  "expr_first st None = None"
| "expr_first st (Some (Statement_list l)) = map_option (n_stmt st) (STATEMENT_LIST_HEAD st l)"
| "expr_first st (Some (Compound_expr a b)) = expr_first st (Some a)"
| "expr_first st (Some (Statement s)) = Some (Statement s)"

fun expr_last :: "'a stmt_store \<Rightarrow> 'a tree option \<Rightarrow> 'a tree option" where
  "expr_last st None = None"
| "expr_last st (Some (Statement_list l)) = map_option (n_stmt st) (STATEMENT_LIST_TAIL st l)"
| "expr_last st (Some (Compound_expr a b)) = expr_last st (Some b)"
| "expr_last st (Some (Statement s)) = Some (Statement s)"

fun expr_only :: "'a stmt_store \<Rightarrow> 'a tree option \<Rightarrow> 'a tree option" where
  "expr_only st None = None"
| "expr_only st (Some (Statement_list l)) =
    (case STATEMENT_LIST_TAIL st l of
       Some n \<Rightarrow> if STATEMENT_LIST_HEAD st l = Some n then Some (n_stmt st n) else None
     | None \<Rightarrow> None)"
| "expr_only st (Some (Compound_expr a b)) = None"
| "expr_only st (Some (Statement s)) = Some (Statement s)"

end
