(* ===== verification/TreeIterSpec.thy ===== *)
theory TreeIterSpec
  imports TreeIter
begin

text \<open>
  Statement lists as lists: the nodes of a list, the invariant of the store, and what each routine of
  \<open>gcc/tree-iterator.c\<close> does to the statements before and after an iterator.
\<close>

section \<open>Linked segments\<close>

definition first :: "nat list \<Rightarrow> nat option \<Rightarrow> nat option" where
  "first as n = (case as of [] \<Rightarrow> n | a # _ \<Rightarrow> Some a)"

definition final :: "nat list \<Rightarrow> nat option \<Rightarrow> nat option" where
  "final as p = (if as = [] then p else Some (last as))"

lemma first_simps [simp]: "first [] n = n" "first (a # as) n = Some a"
  by (simp_all add: first_def)

lemma final_simps [simp]: "final [] p = p" "final (a # as) p = final as (Some a)" "final (as @ [a]) p = Some a"
  by (simp_all add: final_def)

lemma first_append: "first (as @ bs) n = first as (first bs n)"
  by (cases as) simp_all

lemma final_append: "final (as @ bs) p = final bs (final as p)"
  by (simp add: final_def)

lemma first_None [simp]: "first as None = None \<longleftrightarrow> as = []"
  by (cases as) simp_all

lemma final_None [simp]: "final as None = None \<longleftrightarrow> as = []"
  by (simp add: final_def)

fun linked :: "(nat \<Rightarrow> nat option) \<Rightarrow> (nat \<Rightarrow> nat option) \<Rightarrow> nat option \<Rightarrow> nat list \<Rightarrow> nat option \<Rightarrow> bool" where
  "linked pr nx p [] n \<longleftrightarrow> True"
| "linked pr nx p (a # as) n \<longleftrightarrow> pr a = p \<and> nx a = first as n \<and> linked pr nx (Some a) as n"

lemma linked_append:
  "linked pr nx p (as @ bs) n \<longleftrightarrow> linked pr nx p as (first bs n) \<and> linked pr nx (final as p) bs n"
  by (induction as arbitrary: p) (auto simp: first_append)

lemma linked_upd_prev [simp]: "a \<notin> set as \<Longrightarrow> linked (pr(a := v)) nx p as n = linked pr nx p as n"
  by (induction as arbitrary: p) auto

lemma linked_upd_next [simp]: "a \<notin> set as \<Longrightarrow> linked pr (nx(a := v)) p as n = linked pr nx p as n"
  by (induction as arbitrary: p) auto

text \<open>The end of a segment may be linked to something else.\<close>

lemma linked_prev:
  assumes "linked pr nx p (a # as) n" "distinct (a # as)"
  shows "linked (pr(a := q)) nx q (a # as) n"
  using assms by simp

lemma linked_next:
  assumes "linked pr nx p (as @ [a]) n" "distinct (as @ [a])"
  shows "linked pr (nx(a := m)) p (as @ [a]) m"
  using assms by (simp add: linked_append)

definition join_prev :: "nat list \<Rightarrow> nat option \<Rightarrow> (nat \<Rightarrow> nat option) \<Rightarrow> (nat \<Rightarrow> nat option)" where
  "join_prev qs v pr = (case qs of [] \<Rightarrow> pr | q # _ \<Rightarrow> pr(q := v))"

definition join_next :: "nat list \<Rightarrow> nat option \<Rightarrow> (nat \<Rightarrow> nat option) \<Rightarrow> (nat \<Rightarrow> nat option)" where
  "join_next ps v nx = (if ps = [] then nx else nx(last ps := v))"

lemma join_prev_other [simp]: "a \<notin> set qs \<Longrightarrow> join_prev qs v pr a = pr a"
  by (cases qs) (simp_all add: join_prev_def)

lemma join_next_other [simp]: "a \<notin> set ps \<Longrightarrow> join_next ps v nx a = nx a"
  by (cases ps rule: rev_cases) (simp_all add: join_next_def)

lemma join_simps [simp]:
  "join_prev [] v pr = pr" "join_prev (q # qs) v pr = pr(q := v)"
  "join_next [] v nx = nx" "join_next (ps @ [a]) v nx = nx(a := v)"
  by (simp_all add: join_prev_def join_next_def)

lemma linked_join:
  assumes "linked pr nx p ps x" "linked pr nx y qs n" "distinct (ps @ qs)"
  shows "linked (join_prev qs (final ps p) pr) (join_next ps (first qs n) nx) p (ps @ qs) n"
proof -
  have l: "linked (join_prev qs (final ps p) pr) (join_next ps (first qs n) nx) p ps (first qs n)"
  proof (cases ps rule: rev_cases)
    case (snoc ps' a)
    then have "linked pr (nx(a := first qs n)) p ps (first qs n)"
      using assms linked_next [of pr nx p ps' a x] by simp
    with snoc show ?thesis using assms(3) by (cases qs) (simp_all add: join_prev_def join_next_def)
  qed simp
  have r: "linked (join_prev qs (final ps p) pr) (join_next ps (first qs n) nx) (final ps p) qs n"
  proof (cases qs)
    case (Cons a qs')
    then have "linked (pr(a := final ps p)) nx (final ps p) qs n"
      using assms linked_prev [of pr nx y a qs' n] by simp
    with Cons show ?thesis using assms(3)
      by (cases ps rule: rev_cases) (simp_all add: join_prev_def join_next_def)
  qed simp
  from l r show ?thesis by (simp add: linked_append)
qed

section \<open>The nodes of a list\<close>

text \<open>The chain from an address on; a list has no more nodes than have been allocated.\<close>

fun chain_from :: "(nat \<Rightarrow> nat option) \<Rightarrow> nat \<Rightarrow> nat option \<Rightarrow> nat list" where
  "chain_from nx 0 p = []"
| "chain_from nx (Suc k) p = (case p of None \<Rightarrow> [] | Some a \<Rightarrow> a # chain_from nx k (nx a))"

definition nodes_of :: "'a stmt_store \<Rightarrow> nat \<Rightarrow> nat list" where
  "nodes_of st l = chain_from (n_next st) (n_count st) (STATEMENT_LIST_HEAD st l)"

definition contents :: "'a stmt_store \<Rightarrow> nat \<Rightarrow> 'a tree list" where
  "contents st l = map (n_stmt st) (nodes_of st l)"

definition list_ok :: "'a stmt_store \<Rightarrow> nat \<Rightarrow> nat list \<Rightarrow> bool" where
  "list_ok st l ps \<longleftrightarrow>
    STATEMENT_LIST_HEAD st l = first ps None \<and> STATEMENT_LIST_TAIL st l = final ps None
    \<and> linked (n_prev st) (n_next st) None ps None \<and> distinct ps \<and> (\<forall>p\<in>set ps. p < n_count st)"

lemma chain_from_linked:
  "linked pr nx p as None \<Longrightarrow> length as \<le> k \<Longrightarrow> chain_from nx k (first as None) = as"
proof (induction as arbitrary: p k)
  case (Cons a as)
  then show ?case by (cases k) auto
qed (case_tac k, simp_all)

lemma bounded_length:
  assumes "distinct ps" "\<forall>p\<in>set ps. p < (n::nat)"
  shows "length ps \<le> n"
proof -
  have "card (set ps) \<le> card {..<n}" using assms(2) by (intro card_mono) auto
  then show ?thesis by (simp add: distinct_card [OF assms(1)])
qed

lemma list_ok_nodes: "list_ok st l ps \<Longrightarrow> nodes_of st l = ps"
  unfolding list_ok_def nodes_of_def
  by (metis bounded_length chain_from_linked)

text \<open>The lists in the cache.\<close>

definition freed :: "'a stmt_store \<Rightarrow> nat list" where
  "freed st = chain_from (TREE_CHAIN st) (l_count st) (stmt_list_cache st)"

fun chained :: "(nat \<Rightarrow> nat option) \<Rightarrow> nat option \<Rightarrow> nat list \<Rightarrow> bool" where
  "chained ch p [] \<longleftrightarrow> p = None"
| "chained ch p (a # as) \<longleftrightarrow> p = Some a \<and> chained ch (ch a) as"

lemma chained_upd [simp]: "a \<notin> set as \<Longrightarrow> chained (ch(a := v)) p as = chained ch p as"
  by (induction as arbitrary: p) auto

lemma chain_from_chained: "chained ch p as \<Longrightarrow> length as \<le> k \<Longrightarrow> chain_from ch k p = as"
proof (induction as arbitrary: p k)
  case (Cons a as)
  then show ?case by (cases k) auto
qed (case_tac k, simp_all)

definition cache_ok :: "'a stmt_store \<Rightarrow> nat list \<Rightarrow> bool" where
  "cache_ok st fs \<longleftrightarrow> chained (TREE_CHAIN st) (stmt_list_cache st) fs \<and> distinct fs \<and> (\<forall>f\<in>set fs. f < l_count st)"

lemma cache_ok_freed: "cache_ok st fs \<Longrightarrow> freed st = fs"
  unfolding cache_ok_def freed_def by (metis bounded_length chain_from_chained)

text \<open>The invariant: every list is linked both ways from its head to its tail, no two lists
  share a node, and the lists in the cache are empty.\<close>

definition store_ok :: "'a stmt_store \<Rightarrow> bool" where
  "store_ok st \<longleftrightarrow>
    (\<forall>l<l_count st. list_ok st l (nodes_of st l))
    \<and> (\<forall>l<l_count st. \<forall>m<l_count st. l \<noteq> m \<longrightarrow> set (nodes_of st l) \<inter> set (nodes_of st m) = {})
    \<and> cache_ok st (freed st) \<and> (\<forall>f\<in>set (freed st). nodes_of st f = [])"

lemma store_okI:
  assumes "\<And>l. l < l_count st \<Longrightarrow> list_ok st l (A l)"
    and "\<And>l m. l < l_count st \<Longrightarrow> m < l_count st \<Longrightarrow> l \<noteq> m \<Longrightarrow> set (A l) \<inter> set (A m) = {}"
    and "cache_ok st fs" "\<And>f. f \<in> set fs \<Longrightarrow> A f = []"
  shows "store_ok st" "\<And>l. l < l_count st \<Longrightarrow> nodes_of st l = A l" "freed st = fs"
proof -
  show n: "nodes_of st l = A l" if "l < l_count st" for l
    using list_ok_nodes [OF assms(1)] that by blast
  show f: "freed st = fs" using cache_ok_freed assms(3) by blast
  have "f < l_count st" if "f \<in> set fs" for f using assms(3) that by (simp add: cache_ok_def)
  then show "store_ok st" unfolding store_ok_def f
    using n assms by simp
qed

section \<open>Iterators\<close>

definition live :: "'a stmt_store \<Rightarrow> nat \<Rightarrow> bool" where
  "live st l \<longleftrightarrow> l < l_count st \<and> l \<notin> set (freed st)"

definition tsi_ok :: "'a stmt_store \<Rightarrow> tree_stmt_iterator \<Rightarrow> bool" where
  "tsi_ok st i \<longleftrightarrow> live st (container i)
    \<and> (case ptr i of None \<Rightarrow> True | Some p \<Rightarrow> p \<in> set (nodes_of st (container i)))"

definition tsi_before :: "'a stmt_store \<Rightarrow> tree_stmt_iterator \<Rightarrow> 'a tree list" where
  "tsi_before st i = map (n_stmt st) (takeWhile (\<lambda>p. ptr i \<noteq> Some p) (nodes_of st (container i)))"

definition tsi_after :: "'a stmt_store \<Rightarrow> tree_stmt_iterator \<Rightarrow> 'a tree list" where
  "tsi_after st i = map (n_stmt st) (dropWhile (\<lambda>p. ptr i \<noteq> Some p) (nodes_of st (container i)))"

lemma tsi_contents: "tsi_before st i @ tsi_after st i = contents st (container i)"
  unfolding tsi_before_def tsi_after_def contents_def by (metis map_append takeWhile_dropWhile_id)

text \<open>An iterator cuts the nodes of its list in two.\<close>

lemma tsi_split:
  assumes "store_ok st" "tsi_ok st i"
  obtains ps qs where "nodes_of st (container i) = ps @ qs" "ptr i = first qs None"
    "tsi_before st i = map (n_stmt st) ps" "tsi_after st i = map (n_stmt st) qs"
proof -
  define ps where "ps = takeWhile (\<lambda>p. ptr i \<noteq> Some p) (nodes_of st (container i))"
  define qs where "qs = dropWhile (\<lambda>p. ptr i \<noteq> Some p) (nodes_of st (container i))"
  have n: "nodes_of st (container i) = ps @ qs" by (simp add: ps_def qs_def)
  have f: "ptr i = first qs None"
  proof (cases qs)
    case Nil
    then have "\<forall>p\<in>set (nodes_of st (container i)). ptr i \<noteq> Some p"
      by (simp add: qs_def)
    with assms(2) Nil show ?thesis by (cases "ptr i") (auto simp: tsi_ok_def)
  next
    case (Cons q qs')
    then have "ptr i = Some q" unfolding qs_def by (simp add: dropWhile_eq_Cons_conv)
    with Cons show ?thesis by simp
  qed
  show thesis
    by (rule that [OF n f]) (simp_all only: tsi_before_def tsi_after_def ps_def qs_def)
qed

lemma tsi_cut:
  assumes "nodes_of st (container i) = ps @ qs" "ptr i = first qs None" "distinct (ps @ qs)"
  shows "tsi_before st i = map (n_stmt st) ps" "tsi_after st i = map (n_stmt st) qs"
proof -
  have "takeWhile (\<lambda>p. ptr i \<noteq> Some p) (ps @ qs) = ps \<and> dropWhile (\<lambda>p. ptr i \<noteq> Some p) (ps @ qs) = qs"
  proof (cases qs)
    case Nil
    with assms show ?thesis by simp
  next
    case (Cons q qs')
    with assms have "\<forall>p\<in>set ps. ptr i \<noteq> Some p" "ptr i = Some q" by auto
    with Cons show ?thesis by (simp add: takeWhile_append2 dropWhile_append2)
  qed
  then show "tsi_before st i = map (n_stmt st) ps" "tsi_after st i = map (n_stmt st) qs"
    by (simp_all add: tsi_before_def tsi_after_def assms(1))
qed

section \<open>Frame lemmas\<close>

lemma linked_cong:
  assumes "\<And>a. a \<in> set as \<Longrightarrow> pr' a = pr a \<and> nx' a = nx a"
  shows "linked pr' nx' p as n = linked pr nx p as n"
  using assms by (induction as arbitrary: p) auto

lemma list_ok_frame:
  assumes "list_ok st l ps" "n_count st \<le> n_count st'"
    and "STATEMENT_LIST_HEAD st' l = STATEMENT_LIST_HEAD st l" "STATEMENT_LIST_TAIL st' l = STATEMENT_LIST_TAIL st l"
    and "\<And>a. a \<in> set ps \<Longrightarrow> n_prev st' a = n_prev st a \<and> n_next st' a = n_next st a"
  shows "list_ok st' l ps"
  using assms linked_cong [of ps "n_prev st'" "n_prev st" "n_next st'" "n_next st"]
  unfolding list_ok_def by (metis order_less_le_trans)

lemma linked_insert:
  assumes "linked pr nx None (ps @ qs) None" "linked pr nx None cs None" "distinct (ps @ cs @ qs)" "cs \<noteq> []"
  shows "linked (join_prev cs (final ps None) (join_prev qs (final cs None) pr))
    (join_next ps (first cs None) (join_next cs (first qs None) nx)) None (ps @ cs @ qs) None"
proof -
  let ?pr = "join_prev qs (final cs None) pr" and ?nx = "join_next cs (first qs None) nx"
  have c: "linked ?pr ?nx None (cs @ qs) None"
    using assms by (intro linked_join [where x = None and y = "final ps None"]) (simp_all add: linked_append)
  have "linked ?pr ?nx None ps (first qs None)"
    using assms by (subst linked_cong [where pr = pr and nx = nx])
      (auto simp: join_prev_def join_next_def linked_append split: list.splits)
  from linked_join [OF this c] assms(3,4) show ?thesis
    by (cases cs) (simp_all add: join_prev_def)
qed

text \<open>A detached chain: linked from \<open>NULL\<close> to \<open>NULL\<close>, its nodes in no list.\<close>

definition detached :: "'a stmt_store \<Rightarrow> nat list \<Rightarrow> bool" where
  "detached st cs \<longleftrightarrow> linked (n_prev st) (n_next st) None cs None \<and> distinct cs
    \<and> (\<forall>c\<in>set cs. c < n_count st) \<and> (\<forall>m<l_count st. set cs \<inter> set (nodes_of st m) = {})"

lemma store_okD:
  assumes "store_ok st"
  shows "l < l_count st \<Longrightarrow> list_ok st l (nodes_of st l)"
    and "l < l_count st \<Longrightarrow> m < l_count st \<Longrightarrow> l \<noteq> m \<Longrightarrow> set (nodes_of st l) \<inter> set (nodes_of st m) = {}"
    and "cache_ok st (freed st)" "f \<in> set (freed st) \<Longrightarrow> nodes_of st f = []"
  using assms by (auto simp: store_ok_def)

text \<open>A change of the lists in \<open>L\<close> to \<open>B\<close> that touches the links of no node of another list.\<close>

lemma store_frame:
  assumes ok: "store_ok st"
    and new: "\<And>m. m \<in> L \<Longrightarrow> m < l_count st' \<Longrightarrow> list_ok st' m (B m) \<and> set (B m) \<subseteq> X"
    and sep: "\<And>k m. k \<in> L \<Longrightarrow> m \<in> L \<Longrightarrow> k \<noteq> m \<Longrightarrow> set (B k) \<inter> set (B m) = {}"
    and old: "\<And>m. m < l_count st' \<Longrightarrow> m \<notin> L \<Longrightarrow> m < l_count st \<and> set (nodes_of st m) \<inter> X = {}
      \<and> STATEMENT_LIST_HEAD st' m = STATEMENT_LIST_HEAD st m \<and> STATEMENT_LIST_TAIL st' m = STATEMENT_LIST_TAIL st m"
    and links: "\<And>a. a \<notin> X \<Longrightarrow> n_prev st' a = n_prev st a \<and> n_next st' a = n_next st a"
    and count: "n_count st \<le> n_count st'"
    and cache: "cache_ok st' fs" "\<And>f. f \<in> set fs \<Longrightarrow> f \<in> L \<Longrightarrow> B f = []" "set fs \<subseteq> set (freed st) \<union> L"
  shows "store_ok st'" "m < l_count st' \<Longrightarrow> nodes_of st' m = (if m \<in> L then B m else nodes_of st m)"
    "freed st' = fs"
proof -
  let ?A = "\<lambda>m. if m \<in> L then B m else nodes_of st m"
  have lists: "list_ok st' m (?A m)" if m: "m < l_count st'" for m
  proof (cases "m \<in> L")
    case False
    note o = old [OF m False]
    have "list_ok st' m (nodes_of st m)"
      using o links store_okD(1) [OF ok, of m] by (intro list_ok_frame [OF _ count]) auto
    with False show ?thesis by simp
  qed (use new m in simp)
  have sep': "set (?A k) \<inter> set (?A m) = {}" if km: "k < l_count st'" "m < l_count st'" "k \<noteq> m" for k m
  proof -
    consider "k \<in> L" "m \<in> L" | "k \<in> L" "m \<notin> L" | "k \<notin> L" "m \<in> L" | "k \<notin> L" "m \<notin> L" by blast
    then show ?thesis
    proof cases
      case 1 with sep km show ?thesis by simp
    next
      case 2 with new [of k] old [of m] km show ?thesis by auto
    next
      case 3 with new [of m] old [of k] km show ?thesis by auto
    next
      case 4 with old [of k] old [of m] km store_okD(2) [OF ok, of k m] show ?thesis by simp
    qed
  qed
  have free: "?A f = []" if "f \<in> set fs" for f using that cache store_okD(4) [OF ok, of f] by auto
  note all = store_okI [where A = ?A, OF lists sep' cache(1) free]
  show "store_ok st'" by (rule all(1))
  show "nodes_of st' m = ?A m" if "m < l_count st'" using all(2) that by simp
  show "freed st' = fs" by (rule all(3))
qed

lemma cache_ok_same:
  assumes "store_ok st" "l_count st' = l_count st" "TREE_CHAIN st' = TREE_CHAIN st"
    "stmt_list_cache st' = stmt_list_cache st"
  shows "cache_ok st' (freed st)"
  using store_okD(3) [OF assms(1)] assms by (simp add: cache_ok_def)

text \<open>Linking a detached chain into a list.\<close>

lemma insert_chain:
  assumes ok: "store_ok st" "live st l" and nodes: "nodes_of st l = ps @ qs" and cs: "detached st cs" "cs \<noteq> []"
    and pr: "n_prev st' = join_prev cs (final ps None) (join_prev qs (final cs None) (n_prev st))"
    and nx: "n_next st' = join_next ps (first cs None) (join_next cs (first qs None) (n_next st))"
    and hd: "STATEMENT_LIST_HEAD st' = (STATEMENT_LIST_HEAD st)(l := first (ps @ cs @ qs) None)"
    and tl: "STATEMENT_LIST_TAIL st' = (STATEMENT_LIST_TAIL st)(l := final (ps @ cs @ qs) None)"
    and rest: "n_count st' = n_count st" "l_count st' = l_count st" "TREE_CHAIN st' = TREE_CHAIN st"
      "stmt_list_cache st' = stmt_list_cache st"
  shows "store_ok st'" "m < l_count st' \<Longrightarrow> nodes_of st' m = (if m = l then ps @ cs @ qs else nodes_of st m)"
    "freed st' = freed st"
proof -
  have l: "l < l_count st" "l \<notin> set (freed st)" using ok(2) by (simp_all add: live_def)
  have lok: "list_ok st l (ps @ qs)" using store_okD(1) [OF ok(1) l(1)] nodes by simp
  have disj: "set cs \<inter> set (ps @ qs) = {}" using cs(1) l(1) nodes unfolding detached_def by metis
  have dist: "distinct (ps @ cs @ qs)" using lok cs(1) disj by (auto simp: list_ok_def detached_def)
  have new: "list_ok st' l (ps @ cs @ qs)" unfolding list_ok_def
  proof (intro conjI)
    show "linked (n_prev st') (n_next st') None (ps @ cs @ qs) None" unfolding pr nx
      using lok cs dist by (intro linked_insert) (simp_all add: list_ok_def detached_def)
  qed (use lok cs dist in \<open>auto simp: hd tl rest list_ok_def detached_def\<close>)
  have old: "m < l_count st \<and> set (nodes_of st m) \<inter> set (ps @ cs @ qs) = {}
      \<and> STATEMENT_LIST_HEAD st' m = STATEMENT_LIST_HEAD st m \<and> STATEMENT_LIST_TAIL st' m = STATEMENT_LIST_TAIL st m"
    if "m < l_count st'" "m \<notin> {l}" for m
    using that store_okD(2) [OF ok(1), of m l] cs(1) l(1) rest nodes unfolding detached_def by (auto simp: hd tl)
  have links: "n_prev st' a = n_prev st a \<and> n_next st' a = n_next st a" if "a \<notin> set (ps @ cs @ qs)" for a
    using that by (simp add: pr nx)
  note frame = store_frame [OF ok(1), where L = "{l}" and B = "\<lambda>_. ps @ cs @ qs" and X = "set (ps @ cs @ qs)",
      OF _ _ old links _ cache_ok_same [OF ok(1) rest(2-4)]]
  show "store_ok st'" by (rule frame(1)) (use new l rest in auto)
  show "nodes_of st' m = (if m = l then ps @ cs @ qs else nodes_of st m)" if "m < l_count st'"
    by (subst frame(2)) (use that new l rest in auto)
  show "freed st' = freed st" by (rule frame(3)) (use new l rest in auto)
qed

text \<open>Taking one node out of a list.\<close>

lemma remove_node:
  assumes ok: "store_ok st" "live st l" and nodes: "nodes_of st l = ps @ c # qs"
    and pr: "n_prev st' = join_prev qs (final ps None) (n_prev st)"
    and nx: "n_next st' = join_next ps (first qs None) (n_next st)"
    and hd: "STATEMENT_LIST_HEAD st' = (STATEMENT_LIST_HEAD st)(l := first (ps @ qs) None)"
    and tl: "STATEMENT_LIST_TAIL st' = (STATEMENT_LIST_TAIL st)(l := final (ps @ qs) None)"
    and rest: "n_count st' = n_count st" "l_count st' = l_count st" "TREE_CHAIN st' = TREE_CHAIN st"
      "stmt_list_cache st' = stmt_list_cache st"
  shows "store_ok st'" "m < l_count st' \<Longrightarrow> nodes_of st' m = (if m = l then ps @ qs else nodes_of st m)"
    "freed st' = freed st"
proof -
  have l: "l < l_count st" "l \<notin> set (freed st)" using ok(2) by (simp_all add: live_def)
  have lok: "list_ok st l (ps @ c # qs)" using store_okD(1) [OF ok(1) l(1)] nodes by simp
  have new: "list_ok st' l (ps @ qs)" unfolding list_ok_def
  proof (intro conjI)
    show "linked (n_prev st') (n_next st') None (ps @ qs) None" unfolding pr nx
      using lok by (intro linked_join [where x = "Some c" and y = "Some c"]) (auto simp: list_ok_def linked_append)
  qed (use lok in \<open>auto simp: hd tl rest list_ok_def\<close>)
  have old: "m < l_count st \<and> set (nodes_of st m) \<inter> set (ps @ qs) = {}
      \<and> STATEMENT_LIST_HEAD st' m = STATEMENT_LIST_HEAD st m \<and> STATEMENT_LIST_TAIL st' m = STATEMENT_LIST_TAIL st m"
    if "m < l_count st'" "m \<notin> {l}" for m
    using that store_okD(2) [OF ok(1), of m l] l(1) rest nodes by (auto simp: hd tl)
  have links: "n_prev st' a = n_prev st a \<and> n_next st' a = n_next st a" if "a \<notin> set (ps @ qs)" for a
    using that by (simp add: pr nx)
  note frame = store_frame [OF ok(1), where L = "{l}" and B = "\<lambda>_. ps @ qs" and X = "set (ps @ qs)",
      OF _ _ old links _ cache_ok_same [OF ok(1) rest(2-4)]]
  show "store_ok st'" by (rule frame(1)) (use new l rest in auto)
  show "nodes_of st' m = (if m = l then ps @ qs else nodes_of st m)" if "m < l_count st'"
    by (subst frame(2)) (use that new l rest in auto)
  show "freed st' = freed st" by (rule frame(3)) (use new l rest in auto)
qed

end
