(* ===== verification/TreeIterProps.thy ===== *)
theory TreeIterProps
  imports TreeIterSpec
begin

text \<open>
  What the routines of \<open>gcc/tree-iterator.c\<close> promise: insertion before and after an iterator,
  removal and splitting of statement lists, with the iterators that stay valid.
\<close>

section \<open>The chain to link in\<close>

text \<open>The statements a tree contributes to a list, and the trees that may be linked into a list.\<close>

definition elems :: "'a stmt_store \<Rightarrow> 'a tree \<Rightarrow> 'a tree list" where
  "elems st t = (case t of Statement_list k \<Rightarrow> contents st k | _ \<Rightarrow> [t])"

definition linkable :: "'a stmt_store \<Rightarrow> nat \<Rightarrow> 'a tree \<Rightarrow> bool" where
  "linkable st l t \<longleftrightarrow> (case t of Statement_list k \<Rightarrow> live st k \<and> k \<noteq> l | _ \<Rightarrow> True)"

definition after_take :: "'a tree \<Rightarrow> nat list \<Rightarrow> nat list" where
  "after_take t fs = (case t of Statement_list k \<Rightarrow> k # fs | _ \<Rightarrow> fs)"

text \<open>What taking the chain leaves: the store without the taken list.\<close>

definition chain_taken :: "'a stmt_store \<Rightarrow> 'a tree \<Rightarrow> nat list \<Rightarrow> 'a stmt_store \<Rightarrow> bool" where
  "chain_taken st t cs st' \<longleftrightarrow> store_ok st' \<and> detached st' cs \<and> map (n_stmt st') cs = elems st t
    \<and> (\<forall>p<n_count st. n_stmt st' p = n_stmt st p) \<and> n_count st \<le> n_count st' \<and> l_count st' = l_count st
    \<and> (\<forall>m<l_count st. nodes_of st' m = (if t = Statement_list m then [] else nodes_of st m))
    \<and> freed st' = after_take t (freed st)"

lemma chain_of_list:
  assumes ok: "store_ok st" and k: "live st k"
  shows "\<exists>cs st'. statement_chain st (Statement_list k) = Some (if cs = [] then None else Some (hd cs, last cs), st')
    \<and> chain_taken st (Statement_list k) cs st'"
proof -
  let ?cs = "nodes_of st k"
  have kl: "k < l_count st" "k \<notin> set (freed st)" using k by (simp_all add: live_def)
  have lk: "list_ok st k ?cs" by (rule store_okD(1) [OF ok kl(1)])
  have cache: "cache_ok st (freed st)" by (rule store_okD(3) [OF ok])
  then have nc: "stmt_list_cache st \<noteq> Some k" using kl by (cases "freed st") (auto simp: cache_ok_def)
  define st' where "st' = st\<lparr>STATEMENT_LIST_HEAD := (STATEMENT_LIST_HEAD st)(k := None),
    STATEMENT_LIST_TAIL := (STATEMENT_LIST_TAIL st)(k := None),
    TREE_CHAIN := (TREE_CHAIN st)(k := stmt_list_cache st), stmt_list_cache := Some k\<rparr>"
  have run: "statement_chain st (Statement_list k) = Some (if ?cs = [] then None else Some (hd ?cs, last ?cs), st')"
    using lk nc by (cases ?cs) (simp_all add: statement_chain_def free_stmt_list_def list_ok_def st'_def final_def)
  have fields: "n_prev st' = n_prev st" "n_next st' = n_next st" "n_count st' = n_count st" "l_count st' = l_count st"
    "n_stmt st' = n_stmt st" by (simp_all add: st'_def)
  have cache': "cache_ok st' (k # freed st)" using cache kl by (simp add: cache_ok_def st'_def)
  have old: "m < l_count st \<and> set (nodes_of st m) \<inter> {} = {}
      \<and> STATEMENT_LIST_HEAD st' m = STATEMENT_LIST_HEAD st m \<and> STATEMENT_LIST_TAIL st' m = STATEMENT_LIST_TAIL st m"
    if "m < l_count st'" "m \<notin> {k}" for m using that by (simp add: st'_def)
  have links: "n_prev st' a = n_prev st a \<and> n_next st' a = n_next st a" if "a \<notin> {}" for a by (simp add: st'_def)
  have new: "list_ok st' k []" by (simp add: list_ok_def st'_def)
  note frame = store_frame [OF ok, where L = "{k}" and B = "\<lambda>_. []" and X = "{}", OF _ _ old links _ cache']
  have n: "nodes_of st' m = (if m \<in> {k} then [] else nodes_of st m)" if "m < l_count st'" for m
    by (subst frame(2)) (use that new fields in auto)
  have "detached st' ?cs" unfolding detached_def
  proof (intro conjI)
    show "\<forall>m<l_count st'. set ?cs \<inter> set (nodes_of st' m) = {}"
      using n store_okD(2) [OF ok kl(1)] fields by auto
  qed (use lk fields in \<open>simp_all add: list_ok_def\<close>)
  moreover have "store_ok st'" by (rule frame(1)) (use new fields in auto)
  moreover have "freed st' = k # freed st" by (rule frame(3)) (use new fields in auto)
  ultimately have "chain_taken st (Statement_list k) ?cs st'"
    using n fields by (auto simp: chain_taken_def elems_def contents_def after_take_def)
  with run show ?thesis by blast
qed

lemma chain_of_node:
  assumes ok: "store_ok st" and t: "\<forall>k. t \<noteq> Statement_list k"
  shows "\<exists>cs st'. statement_chain st t = Some (if cs = [] then None else Some (hd cs, last cs), st')
    \<and> chain_taken st t cs st' \<and> cs \<noteq> []"
proof -
  let ?h = "n_count st"
  define st' where "st' = st\<lparr>n_count := ?h + 1, n_prev := (n_prev st)(?h := None), n_next := (n_next st)(?h := None),
    n_stmt := (n_stmt st)(?h := t)\<rparr>"
  have run: "statement_chain st t = Some (Some (?h, ?h), st')"
    using t by (cases t) (simp_all add: statement_chain_def st'_def Let_def)
  have below: "set (nodes_of st m) \<inter> {?h} = {}" if "m < l_count st" for m
    using store_okD(1) [OF ok that] by (auto simp: list_ok_def)
  have fields: "n_count st \<le> n_count st'" "l_count st' = l_count st" "TREE_CHAIN st' = TREE_CHAIN st"
    "stmt_list_cache st' = stmt_list_cache st" by (simp_all add: st'_def)
  have old: "m < l_count st \<and> set (nodes_of st m) \<inter> {?h} = {}
      \<and> STATEMENT_LIST_HEAD st' m = STATEMENT_LIST_HEAD st m \<and> STATEMENT_LIST_TAIL st' m = STATEMENT_LIST_TAIL st m"
    if "m < l_count st'" "m \<notin> {}" for m using that below by (simp add: st'_def)
  have links: "n_prev st' a = n_prev st a \<and> n_next st' a = n_next st a" if "a \<notin> {?h}" for a
    using that by (simp add: st'_def)
  note frame = store_frame [OF ok, where L = "{}" and B = "\<lambda>_. []" and X = "{?h}",
      OF _ _ old links fields(1) cache_ok_same [OF ok fields(2-4)]]
  have n: "nodes_of st' m = nodes_of st m" if "m < l_count st'" for m
    by (subst frame(2)) (use that in auto)
  have "store_ok st'" by (rule frame(1)) auto
  moreover have "freed st' = freed st" by (rule frame(3)) auto
  moreover have "detached st' [?h]" using n below by (auto simp: detached_def st'_def)
  ultimately have "chain_taken st t [?h] st'"
    using n t by (cases t) (auto simp: chain_taken_def elems_def after_take_def st'_def)
  with run show ?thesis by (intro exI [of _ "[?h]"]) auto
qed

lemma statement_chain_taken:
  assumes "store_ok st" "linkable st l t"
  obtains cs st' where "statement_chain st t = Some (if cs = [] then None else Some (hd cs, last cs), st')"
    "chain_taken st t cs st'"
proof (cases t)
  case (Statement_list k)
  with assms chain_of_list [of st k] that show thesis by (auto simp: linkable_def)
qed (use chain_of_node [OF assms(1), of t] that in auto)

section \<open>Insertion\<close>

text \<open>The store after the chain \<open>cs\<close> of \<open>t\<close> has been linked into \<open>l\<close> between \<open>ps\<close> and \<open>qs\<close>.\<close>

definition spliced :: "'a stmt_store \<Rightarrow> 'a tree \<Rightarrow> nat \<Rightarrow> nat list \<Rightarrow> nat list \<Rightarrow> nat list \<Rightarrow> 'a stmt_store \<Rightarrow> bool" where
  "spliced st t l ps cs qs st' \<longleftrightarrow> store_ok st' \<and> l_count st' = l_count st \<and> nodes_of st' l = ps @ cs @ qs
    \<and> (\<forall>m<l_count st. m \<noteq> l \<longrightarrow> nodes_of st' m = (if t = Statement_list m then [] else nodes_of st m))
    \<and> map (n_stmt st') cs = elems st t \<and> (\<forall>p<n_count st. n_stmt st' p = n_stmt st p)
    \<and> freed st' = after_take t (freed st)"

lemma spliced_empty:
  assumes "chain_taken st t [] st'" "live st l" "linkable st l t" "nodes_of st l = ps @ qs"
  shows "spliced st t l ps [] qs st'"
  using assms by (auto simp: spliced_def chain_taken_def live_def linkable_def)

lemma spliced_insert:
  assumes "chain_taken st t cs st1" "live st l" "linkable st l t" "nodes_of st l = ps @ qs" "cs \<noteq> []"
    and pr: "n_prev st' = join_prev cs (final ps None) (join_prev qs (final cs None) (n_prev st1))"
    and nx: "n_next st' = join_next ps (first cs None) (join_next cs (first qs None) (n_next st1))"
    and hd: "STATEMENT_LIST_HEAD st' = (STATEMENT_LIST_HEAD st1)(l := first (ps @ cs @ qs) None)"
    and tl: "STATEMENT_LIST_TAIL st' = (STATEMENT_LIST_TAIL st1)(l := final (ps @ cs @ qs) None)"
    and rest: "n_count st' = n_count st1" "l_count st' = l_count st1" "TREE_CHAIN st' = TREE_CHAIN st1"
      "stmt_list_cache st' = stmt_list_cache st1" "n_stmt st' = n_stmt st1"
  shows "spliced st t l ps cs qs st'"
proof -
  have t: "store_ok st1" "detached st1 cs" "l_count st1 = l_count st" "freed st1 = after_take t (freed st)"
    "nodes_of st1 l = ps @ qs" "live st1 l"
    using assms(1-4) by (auto simp: chain_taken_def live_def linkable_def after_take_def split: tree.splits)
  note ins = insert_chain [OF t(1,6,5,2) assms(5) pr nx hd tl rest(1-4)]
  show ?thesis using assms(1-3) t ins rest
    by (auto simp: spliced_def chain_taken_def live_def)
qed

text \<open>What a splice means for contents and iterators.\<close>

lemma spliced_bounds:
  assumes "store_ok st" "l < l_count st" "nodes_of st l = ps @ qs"
  shows "map f (ps @ qs) = map g (ps @ qs) \<longleftrightarrow> (\<forall>p\<in>set (ps @ qs). f p = g p)"
    "\<forall>p\<in>set (ps @ qs). p < n_count st"
  using store_okD(1) [OF assms(1,2)] assms(3) by (auto simp: list_ok_def)

lemma spliced_stmts:
  assumes ok: "store_ok st" "live st l" "nodes_of st l = ps @ qs" and sp: "spliced st t l ps cs qs st'"
  shows "map (n_stmt st') ps = map (n_stmt st) ps" "map (n_stmt st') qs = map (n_stmt st) qs"
    "contents st' l = map (n_stmt st) ps @ elems st t @ map (n_stmt st) qs"
    "m < l_count st \<Longrightarrow> m \<noteq> l \<Longrightarrow> contents st' m = (if t = Statement_list m then [] else contents st m)"
proof -
  have b: "\<forall>p\<in>set (nodes_of st m). p < n_count st" if "m < l_count st" for m
    using store_okD(1) [OF ok(1) that] by (simp add: list_ok_def)
  have l: "l < l_count st" using ok(2) by (simp add: live_def)
  show 1: "map (n_stmt st') ps = map (n_stmt st) ps" "map (n_stmt st') qs = map (n_stmt st) qs"
    using b [OF l] sp ok(3) by (auto simp: spliced_def)
  show "contents st' l = map (n_stmt st) ps @ elems st t @ map (n_stmt st) qs"
    using sp 1 by (simp add: contents_def spliced_def)
  show "contents st' m = (if t = Statement_list m then [] else contents st m)" if "m < l_count st" "m \<noteq> l"
    using sp that b by (auto simp: contents_def spliced_def)
qed

lemma spliced_iter:
  assumes sp: "spliced st t l ps cs qs st'" and "live st' l" "container j = l"
    and "ps @ cs @ qs = xs @ ys" "ptr j = first ys None"
  shows "tsi_ok st' j" "tsi_before st' j = map (n_stmt st') xs" "tsi_after st' j = map (n_stmt st') ys"
proof -
  have n: "nodes_of st' (container j) = xs @ ys" using assms by (simp add: spliced_def)
  then show "tsi_ok st' j" using assms by (cases ys) (simp_all add: tsi_ok_def)
  have "list_ok st' (container j) (nodes_of st' (container j))"
    using sp assms(2,3) store_okD(1) [of st' l] by (simp add: spliced_def live_def)
  then have "distinct (xs @ ys)" unfolding n list_ok_def by blast
  from tsi_cut [OF n assms(5) this]
  show "tsi_before st' j = map (n_stmt st') xs" "tsi_after st' j = map (n_stmt st') ys" .
qed

lemma spliced_live:
  assumes "spliced st t l ps cs qs st'" "live st m" "t \<noteq> Statement_list m"
  shows "live st' m"
  using assms by (auto simp: spliced_def live_def after_take_def split: tree.splits)

lemma spliced_others:
  assumes ok: "store_ok st" "nodes_of st l = ps @ qs" and sp: "spliced st t l ps cs qs st'"
    and j: "tsi_ok st j" "t \<noteq> Statement_list (container j)"
  shows "tsi_ok st' j \<and> tsi_stmt st' j = tsi_stmt st j"
proof -
  have lj: "live st (container j)" using j(1) by (simp add: tsi_ok_def)
  have "p \<in> set (nodes_of st' (container j)) \<and> n_stmt st' p = n_stmt st p" if "ptr j = Some p" for p
  proof -
    have p: "p \<in> set (nodes_of st (container j))" using j(1) that by (simp add: tsi_ok_def)
    have "list_ok st (container j) (nodes_of st (container j))"
      using lj store_okD(1) [OF ok(1)] by (simp add: live_def)
    then have "p < n_count st" using p by (simp add: list_ok_def)
    with p j(2) lj sp ok(2) show ?thesis by (auto simp: spliced_def live_def)
  qed
  with spliced_live [OF sp lj j(2)] show ?thesis
    by (cases "ptr j") (simp_all add: tsi_ok_def tsi_stmt_def)
qed

section \<open>Linking a chain in\<close>

text \<open>The two ends of the chain and of the list it goes into.\<close>

lemma join_chain:
  assumes "cs \<noteq> []"
  shows "join_prev cs x pr = pr(hd cs := x)" "join_next cs x nx = nx(last cs := x)"
    "final cs x = Some (last cs)" "first (cs @ xs) x = Some (hd cs)" "first cs x = Some (hd cs)"
  using assms by (cases cs; simp add: join_next_def final_def)+

lemma detached_last:
  assumes "detached st cs" "cs \<noteq> []"
  shows "(n_next st)(last cs := None) = n_next st"
proof (rule fun_upd_idem)
  have "linked (n_prev st) (n_next st) None cs None" using assms(1) by (simp add: detached_def)
  then show "n_next st (last cs) = None" using assms(2)
    by (metis append_butlast_last_id first_simps(1) linked.simps(2) linked_append)
qed

lemma list_ends:
  assumes "list_ok st l (ps @ qs)"
  shows "ps = ps' @ [a] \<Longrightarrow> (STATEMENT_LIST_HEAD st)(l := first (ps' @ a # xs) None) = STATEMENT_LIST_HEAD st"
    "qs = q # qs' \<Longrightarrow> (STATEMENT_LIST_TAIL st)(l := final (xs @ q # qs') None) = STATEMENT_LIST_TAIL st"
    "qs = q # qs' \<Longrightarrow> n_prev st q = final ps None"
  using assms by (auto simp: list_ok_def linked_append first_append final_append intro!: fun_upd_idem)

lemma taken_list:
  assumes "chain_taken st t cs st1" "live st l" "linkable st l t" "nodes_of st l = ps @ qs"
  shows "list_ok st1 l (ps @ qs)" "detached st1 cs" "set cs \<inter> set (ps @ qs) = {}"
proof -
  have l: "l < l_count st1" "nodes_of st1 l = ps @ qs"
    using assms by (auto simp: chain_taken_def live_def linkable_def)
  show "detached st1 cs" using assms(1) by (simp add: chain_taken_def)
  with l show "set cs \<inter> set (ps @ qs) = {}" unfolding detached_def by metis
  show "list_ok st1 l (ps @ qs)" using store_okD(1) [of st1 l] l assms(1) by (simp add: chain_taken_def)
qed

text \<open>The store the linking routines end in.\<close>

definition link_in :: "'a stmt_store \<Rightarrow> nat \<Rightarrow> nat list \<Rightarrow> nat list \<Rightarrow> nat list \<Rightarrow> 'a stmt_store" where
  "link_in st l ps cs qs =
    st\<lparr>TREE_SIDE_EFFECTS := (TREE_SIDE_EFFECTS st)(l := True),
       n_prev := join_prev cs (final ps None) (join_prev qs (final cs None) (n_prev st)),
       n_next := join_next ps (first cs None) (join_next cs (first qs None) (n_next st)),
       STATEMENT_LIST_HEAD := (STATEMENT_LIST_HEAD st)(l := first (ps @ cs @ qs) None),
       STATEMENT_LIST_TAIL := (STATEMENT_LIST_TAIL st)(l := final (ps @ cs @ qs) None)\<rparr>"

lemma link_in_spliced:
  assumes "chain_taken st t cs st1" "live st l" "linkable st l t" "nodes_of st l = ps @ qs" "cs \<noteq> []"
  shows "spliced st t l ps cs qs (link_in st1 l ps cs qs)"
  by (rule spliced_insert [OF assms]) (simp_all add: link_in_def)

lemma link_before_run:
  assumes run: "statement_chain st t = Some (Some (hd cs, last cs), st1)" and nt: "t \<noteq> Statement_list (container i)"
    and ok: "list_ok st1 (container i) (ps @ qs)" "detached st1 cs" "set cs \<inter> set (ps @ qs) = {}" "cs \<noteq> []"
    and cut: "ptr i = first qs None"
  shows "\<exists>i'. tsi_link_before st i t mode = Some (i', link_in st1 (container i) ps cs qs) \<and> container i' = container i
    \<and> ptr i' = (case mode of TSI_SAME_STMT \<Rightarrow> ptr i | TSI_CHAIN_END \<Rightarrow> Some (last cs) | _ \<Rightarrow> Some (hd cs))"
proof -
  note join = join_chain [OF ok(4)]
  have c: "hd cs \<in> set cs" "last cs \<in> set cs" using ok(4) by simp_all
  show ?thesis
  proof (cases qs)
    case Nil
    have ends: "STATEMENT_LIST_TAIL st1 (container i) = final ps None" using ok(1) Nil by (simp add: list_ok_def)
    show ?thesis
    proof (cases ps rule: rev_cases)
      case empty: Nil
      show ?thesis using ends cut Nil empty
        by (simp add: tsi_link_before_def run nt Let_def link_in_def join detached_last [OF ok(2,4)]
            split: tsi_iterator_update.split)
    next
      case (snoc ps' a)
      show ?thesis using ends cut Nil snoc list_ends(1) [OF ok(1) snoc, of cs]
        by (simp add: tsi_link_before_def run nt Let_def link_in_def join detached_last [OF ok(2,4)]
            final_append split: tsi_iterator_update.split)
    qed
  next
    case (Cons q qs')
    have q: "n_prev st1 q = final ps None" "hd cs \<noteq> q" using list_ends(3) [OF ok(1) Cons] Cons c ok(3) by auto
    show ?thesis
    proof (cases ps rule: rev_cases)
      case Nil
      show ?thesis using cut Nil q list_ends(2) [OF ok(1) Cons, of cs] Cons
        by (simp add: tsi_link_before_def run nt Let_def link_in_def join
            fun_upd_twist [of "hd cs" q] split: tsi_iterator_update.split)
    next
      case (snoc ps' a)
      have a: "a \<noteq> last cs" using ok(3) snoc c by auto
      show ?thesis using cut snoc q a Cons list_ends(1) [OF ok(1) snoc, of "cs @ qs"]
          list_ends(2) [OF ok(1) Cons, of "ps @ cs"]
        by (simp add: tsi_link_before_def run nt Let_def link_in_def join
            fun_upd_twist [of "hd cs" q] fun_upd_twist [of a "last cs"] split: tsi_iterator_update.split)
    qed
  qed
qed

lemma link_before_spliced:
  assumes ok: "store_ok st" "live st (container i)" "linkable st (container i) t"
    and cut: "nodes_of st (container i) = ps @ qs" "ptr i = first qs None"
  shows "\<exists>cs i' st'. tsi_link_before st i t mode = Some (i', st')
    \<and> spliced st t (container i) ps cs qs st' \<and> container i' = container i
    \<and> ptr i' = (if cs = [] then ptr i else case mode of TSI_SAME_STMT \<Rightarrow> ptr i
                  | TSI_CHAIN_END \<Rightarrow> Some (last cs) | _ \<Rightarrow> Some (hd cs))"
proof -
  obtain cs st1 where run: "statement_chain st t = Some (if cs = [] then None else Some (hd cs, last cs), st1)"
    and taken: "chain_taken st t cs st1"
    using statement_chain_taken [OF ok(1,3)] by metis
  have nt: "t \<noteq> Statement_list (container i)" using ok(3) by (auto simp: linkable_def)
  show ?thesis
  proof (cases "cs = []")
    case True
    with run nt have "tsi_link_before st i t mode = Some (i, st1)" by (simp add: tsi_link_before_def)
    moreover have "spliced st t (container i) ps [] qs st1"
      using spliced_empty taken True ok(2,3) cut(1) by blast
    ultimately show ?thesis using True by (intro exI [of _ "[]"]) auto
  next
    case False
    note l1 = taken_list [OF taken ok(2,3) cut(1)]
    have run': "statement_chain st t = Some (Some (hd cs, last cs), st1)" using run False by simp
    from link_before_run [OF run' nt l1 False cut(2), of mode]
      link_in_spliced [OF taken ok(2,3) cut(1) False] False
    show ?thesis by auto
  qed
qed

lemma link_after_run:
  assumes run: "statement_chain st t = Some (Some (hd cs, last cs), st1)" and nt: "t \<noteq> Statement_list (container i)"
    and ok: "list_ok st1 (container i) ((ps @ [c]) @ qs)" "detached st1 cs" "set cs \<inter> set ((ps @ [c]) @ qs) = {}" "cs \<noteq> []"
    and cut: "ptr i = Some c"
  shows "\<exists>i'. tsi_link_after st i t mode = Some (i', link_in st1 (container i) (ps @ [c]) cs qs)
    \<and> container i' = container i
    \<and> ptr i' = (case mode of TSI_NEW_STMT \<Rightarrow> Some (hd cs) | TSI_CHAIN_START \<Rightarrow> Some (hd cs)
                  | TSI_SAME_STMT \<Rightarrow> ptr i | _ \<Rightarrow> Some (last cs))"
proof -
  note join = join_chain [OF ok(4)]
  have "linked (n_prev st1) (n_next st1) None ((ps @ [c]) @ qs) None" using ok(1) by (simp add: list_ok_def)
  then have follow: "n_next st1 c = first qs None" by (simp add: linked_append)
  have hd: "(STATEMENT_LIST_HEAD st1)(container i := first (ps @ c # xs) None) = STATEMENT_LIST_HEAD st1" for xs
    using list_ends(1) [OF ok(1) refl] .
  show ?thesis
  proof (cases qs)
    case Nil
    show ?thesis using cut Nil follow hd [of cs]
      by (simp add: tsi_link_after_def run nt Let_def link_in_def join final_append split: tsi_iterator_update.split)
  next
    case (Cons q qs')
    show ?thesis using cut follow Cons hd [of "cs @ qs"] list_ends(2) [OF ok(1) Cons, of "ps @ c # cs"]
      by (simp add: tsi_link_after_def run nt Let_def link_in_def join split: tsi_iterator_update.split)
  qed
qed

lemma link_after_spliced:
  assumes ok: "store_ok st" "live st (container i)" "linkable st (container i) t"
    and cut: "nodes_of st (container i) = (ps @ [c]) @ qs" "ptr i = Some c"
  shows "\<exists>cs i' st'. tsi_link_after st i t mode = Some (i', st')
    \<and> spliced st t (container i) (ps @ [c]) cs qs st' \<and> container i' = container i
    \<and> ptr i' = (if cs = [] then ptr i else case mode of TSI_NEW_STMT \<Rightarrow> Some (hd cs)
                  | TSI_CHAIN_START \<Rightarrow> Some (hd cs) | TSI_SAME_STMT \<Rightarrow> ptr i | _ \<Rightarrow> Some (last cs))"
proof -
  obtain cs st1 where run: "statement_chain st t = Some (if cs = [] then None else Some (hd cs, last cs), st1)"
    and taken: "chain_taken st t cs st1"
    using statement_chain_taken [OF ok(1,3)] by metis
  have nt: "t \<noteq> Statement_list (container i)" using ok(3) by (auto simp: linkable_def)
  show ?thesis
  proof (cases "cs = []")
    case True
    with run nt have "tsi_link_after st i t mode = Some (i, st1)" by (simp add: tsi_link_after_def)
    moreover have "spliced st t (container i) (ps @ [c]) [] qs st1"
      using spliced_empty [OF _ ok(2,3) cut(1)] taken True by blast
    ultimately show ?thesis using True by (intro exI [of _ "[]"]) auto
  next
    case False
    note l1 = taken_list [OF taken ok(2,3) cut(1)]
    have run': "statement_chain st t = Some (Some (hd cs, last cs), st1)" using run False by simp
    from link_after_run [OF run' nt l1 False cut(2), of mode]
      link_in_spliced [OF taken ok(2,3) cut(1) False] False
    show ?thesis by auto
  qed
qed

section \<open>Removal\<close>

lemma delink_removes:
  assumes ok: "store_ok st" "live st (container i)"
    and cut: "nodes_of st (container i) = ps @ c # qs" "ptr i = Some c"
  shows "\<exists>st'. tsi_delink st i = Some (i\<lparr>ptr := first qs None\<rparr>, st') \<and> store_ok st' \<and> l_count st' = l_count st
    \<and> (\<forall>m<l_count st. nodes_of st' m = (if m = container i then ps @ qs else nodes_of st m))
    \<and> n_stmt st' = n_stmt st \<and> n_count st' = n_count st \<and> freed st' = freed st"
proof -
  let ?l = "container i"
  define st' where "st' = st\<lparr>
      n_prev := join_prev qs (final ps None) (n_prev st), n_next := join_next ps (first qs None) (n_next st),
      STATEMENT_LIST_HEAD := (STATEMENT_LIST_HEAD st)(?l := first (ps @ qs) None),
      STATEMENT_LIST_TAIL := (STATEMENT_LIST_TAIL st)(?l := final (ps @ qs) None),
      TREE_SIDE_EFFECTS := (if ps @ qs = [] then (TREE_SIDE_EFFECTS st)(?l := False) else TREE_SIDE_EFFECTS st)\<rparr>"
  have l: "list_ok st ?l (ps @ c # qs)" using store_okD(1) [OF ok(1), of ?l] ok(2) cut(1) by (simp add: live_def)
  then have follow: "n_next st c = first qs None" and before: "n_prev st c = final ps None"
    by (simp_all add: list_ok_def linked_append)
  have run: "tsi_delink st i = Some (i\<lparr>ptr := first qs None\<rparr>, st')"
  proof (cases ps rule: rev_cases)
    case Nil
    then show ?thesis using follow before cut(2) l list_ends(2) [of st ?l "ps @ [c]" qs _ _ "[]"]
      by (cases qs) (simp_all add: tsi_delink_def st'_def Let_def)
  next
    case (snoc ps' a)
    then show ?thesis using follow before cut(2) l list_ends(1) [of st ?l ps "c # qs" ps' a qs]
        list_ends(2) [of st ?l "ps @ [c]" qs _ _ ps]
      by (cases qs) (simp_all add: tsi_delink_def st'_def Let_def)
  qed
  note rem = remove_node [OF ok cut(1), where st' = st']
  have "store_ok st'" by (rule rem(1)) (simp_all add: st'_def)
  moreover have "freed st' = freed st" by (rule rem(3)) (simp_all add: st'_def)
  moreover have "nodes_of st' m = (if m = ?l then ps @ qs else nodes_of st m)" if "m < l_count st" for m
    by (rule rem(2)) (use that in \<open>simp_all add: st'_def\<close>)
  ultimately show ?thesis using run by (auto simp: st'_def)
qed

section \<open>Splitting\<close>

lemma alloc_list:
  assumes ok: "store_ok st"
  shows "\<exists>l st'. alloc_stmt_list st = Some (l, st') \<and> store_ok st' \<and> live st' l \<and> nodes_of st' l = [] \<and> \<not> live st l
    \<and> (\<forall>m. live st m \<longrightarrow> live st' m \<and> nodes_of st' m = nodes_of st m)
    \<and> n_prev st' = n_prev st \<and> n_next st' = n_next st \<and> n_stmt st' = n_stmt st \<and> n_count st' = n_count st"
proof (cases "freed st")
  case Nil
  then have c: "stmt_list_cache st = None" using store_okD(3) [OF ok] by (simp add: cache_ok_def)
  let ?l = "l_count st"
  define st' where "st' = st\<lparr>l_count := ?l + 1,
    STATEMENT_LIST_HEAD := (STATEMENT_LIST_HEAD st)(?l := None), STATEMENT_LIST_TAIL := (STATEMENT_LIST_TAIL st)(?l := None),
    TREE_CHAIN := (TREE_CHAIN st)(?l := None), TREE_SIDE_EFFECTS := (TREE_SIDE_EFFECTS st)(?l := False)\<rparr>"
  have run: "alloc_stmt_list st = Some (?l, st')" using c by (simp add: alloc_stmt_list_def st'_def Let_def)
  have old: "m < l_count st \<and> set (nodes_of st m) \<inter> {} = {}
      \<and> STATEMENT_LIST_HEAD st' m = STATEMENT_LIST_HEAD st m \<and> STATEMENT_LIST_TAIL st' m = STATEMENT_LIST_TAIL st m"
    if "m < l_count st'" "m \<notin> {?l}" for m using that by (simp add: st'_def)
  have new: "list_ok st' ?l []" by (simp add: list_ok_def st'_def)
  have cache: "cache_ok st' []" using c by (simp add: cache_ok_def st'_def)
  note frame = store_frame [OF ok, where L = "{?l}" and B = "\<lambda>_. []" and X = "{}", OF _ _ old _ _ cache]
  have "store_ok st'" by (rule frame(1)) (use new in \<open>auto simp: st'_def\<close>)
  moreover have f: "freed st' = []" by (rule frame(3)) (use new in \<open>auto simp: st'_def\<close>)
  moreover have "nodes_of st' m = (if m \<in> {?l} then [] else nodes_of st m)" if "m < l_count st'" for m
    by (rule frame(2)) (use new that in \<open>auto simp: st'_def\<close>)
  ultimately show ?thesis using run Nil by (auto simp: live_def st'_def)
next
  case (Cons l fs)
  have ch: "cache_ok st (l # fs)" using store_okD(3) [OF ok] Cons by simp
  then have c: "stmt_list_cache st = Some l" "TREE_CHAIN st l \<noteq> Some l"
    by (cases fs; simp add: cache_ok_def)+
  define st' where "st' = st\<lparr>stmt_list_cache := TREE_CHAIN st l, TREE_CHAIN := (TREE_CHAIN st)(l := None),
    TREE_SIDE_EFFECTS := (TREE_SIDE_EFFECTS st)(l := False)\<rparr>"
  have run: "alloc_stmt_list st = Some (l, st')" using c by (simp add: alloc_stmt_list_def st'_def)
  have cache: "cache_ok st' fs" using ch by (simp add: cache_ok_def st'_def)
  have old: "m < l_count st \<and> set (nodes_of st m) \<inter> {} = {}
      \<and> STATEMENT_LIST_HEAD st' m = STATEMENT_LIST_HEAD st m \<and> STATEMENT_LIST_TAIL st' m = STATEMENT_LIST_TAIL st m"
    if "m < l_count st'" "m \<notin> {}" for m using that by (simp add: st'_def)
  note frame = store_frame [OF ok, where L = "{}" and B = "\<lambda>_. []" and X = "{}", OF _ _ old _ _ cache]
  have "store_ok st'" by (rule frame(1)) (use Cons in \<open>auto simp: st'_def\<close>)
  moreover have "freed st' = fs" by (rule frame(3)) (use Cons in \<open>auto simp: st'_def\<close>)
  moreover have "nodes_of st' m = nodes_of st m" if "m < l_count st'" for m
    by (subst frame(2)) (use that Cons in \<open>auto simp: st'_def\<close>)
  ultimately show ?thesis
    using run Cons ch store_okD(4) [OF ok, of l] by (auto simp: live_def st'_def cache_ok_def)
qed

lemma split_lists:
  assumes ok: "store_ok st" "live st old" "live st new" "old \<noteq> new" "nodes_of st new = []"
    and nodes: "nodes_of st old = xs @ ys"
    and pr: "n_prev st' = join_prev ys None (n_prev st)" and nx: "n_next st' = join_next xs None (n_next st)"
    and hd: "STATEMENT_LIST_HEAD st' = (STATEMENT_LIST_HEAD st)(old := first xs None, new := first ys None)"
    and tl: "STATEMENT_LIST_TAIL st' = (STATEMENT_LIST_TAIL st)(old := final xs None, new := final ys None)"
    and rest: "n_count st' = n_count st" "l_count st' = l_count st" "TREE_CHAIN st' = TREE_CHAIN st"
      "stmt_list_cache st' = stmt_list_cache st"
  shows "store_ok st'"
    "m < l_count st' \<Longrightarrow> nodes_of st' m = (if m = old then xs else if m = new then ys else nodes_of st m)"
    "freed st' = freed st"
proof -
  have l: "old < l_count st" "new < l_count st" "old \<notin> set (freed st)" "new \<notin> set (freed st)"
    using ok(2,3) by (simp_all add: live_def)
  have lok: "list_ok st old (xs @ ys)" using store_okD(1) [OF ok(1) l(1)] nodes by simp
  let ?B = "\<lambda>m. if m = old then xs else ys"
  have disj: "a \<in> set xs \<Longrightarrow> a \<notin> set ys" for a using lok by (auto simp: list_ok_def)
  have "linked (n_prev st') (n_next st') None xs None"
    using lok linked_join [of "n_prev st" "n_next st" None xs "first ys None" None "[]" None]
    by (subst linked_cong [where pr = "n_prev st" and nx = "n_next st'"])
      (simp_all add: pr nx disj list_ok_def linked_append)
  moreover have "a \<in> set ys \<Longrightarrow> a \<notin> set xs" for a using disj by blast
  then have "linked (n_prev st') (n_next st') None ys None"
    using lok linked_join [of "n_prev st" "n_next st" None "[]" "first ys None" "final xs None" ys None]
    by (subst linked_cong [where pr = "n_prev st'" and nx = "n_next st"])
      (simp_all add: pr nx list_ok_def linked_append)
  ultimately have new: "list_ok st' old xs" "list_ok st' new ys"
    using lok ok(4) by (auto simp: list_ok_def hd tl rest)
  have old: "m < l_count st \<and> set (nodes_of st m) \<inter> set (xs @ ys) = {}
      \<and> STATEMENT_LIST_HEAD st' m = STATEMENT_LIST_HEAD st m \<and> STATEMENT_LIST_TAIL st' m = STATEMENT_LIST_TAIL st m"
    if "m < l_count st'" "m \<notin> {old, new}" for m
    using that store_okD(2) [OF ok(1), of m old] l(1) rest nodes by (auto simp: hd tl)
  have links: "n_prev st' a = n_prev st a \<and> n_next st' a = n_next st a" if "a \<notin> set (xs @ ys)" for a
    using that by (simp add: pr nx)
  have sep: "set (?B k) \<inter> set (?B m) = {}" if "k \<in> {old, new}" "m \<in> {old, new}" "k \<noteq> m" for k m
    using lok that by (auto simp: list_ok_def)
  note frame = store_frame [OF ok(1), where L = "{old, new}" and B = ?B and X = "set (xs @ ys)",
      OF _ sep old links _ cache_ok_same [OF ok(1) rest(2-4)]]
  show "store_ok st'" by (rule frame(1)) (use new l rest in auto)
  show "nodes_of st' m = (if m = old then xs else if m = new then ys else nodes_of st m)" if "m < l_count st'"
    by (subst frame(2)) (use that new l rest in auto)
  show "freed st' = freed st" by (rule frame(3)) (use new l rest in auto)
qed

end
