(* ===== verification/TreeList.thy ===== *)
theory TreeList
  imports TreeIterProps
begin

text \<open>
  Iterators over statement lists as cursors: the statements before and after the cursor. The routines
  of \<open>gcc/tree-iterator.c\<close> keep the invariant of the store and do to the cursor what their comments say.
\<close>

definition zip_of :: "'a stmt_store \<Rightarrow> tree_stmt_iterator \<Rightarrow> 'a tree list \<times> 'a tree list" where
  "zip_of st i = (tsi_before st i, tsi_after st i)"

section \<open>A small store\<close>

text \<open>List 0 holds two statements, list 1 holds one, list 2 none.\<close>

definition three_lists :: "string stmt_store" where
  "three_lists =
    \<lparr>n_prev = (\<lambda>_. None)(1 := Some 0), n_next = (\<lambda>_. None)(0 := Some 1),
     n_stmt = (\<lambda>_. Statement ''c'')(0 := Statement ''a'', 1 := Statement ''b''), n_count = 3,
     STATEMENT_LIST_HEAD = (\<lambda>_. None)(0 := Some 0, 1 := Some 2),
     STATEMENT_LIST_TAIL = (\<lambda>_. None)(0 := Some 1, 1 := Some 2),
     TREE_SIDE_EFFECTS = (\<lambda>_. True), TREE_CHAIN = (\<lambda>_. None), l_count = 3, stmt_list_cache = None\<rparr>"

definition three_nodes :: "nat \<Rightarrow> nat list" where
  "three_nodes l = (if l = 0 then [0, 1] else if l = 1 then [2] else [])"

lemma three_lists:
  "store_ok three_lists" "l < 3 \<Longrightarrow> nodes_of three_lists l = three_nodes l" "freed three_lists = []"
proof -
  have ok: "list_ok three_lists l (three_nodes l)" if "l < l_count three_lists" for l
    using that by (auto simp: list_ok_def three_lists_def three_nodes_def final_def)
  have sep: "set (three_nodes l) \<inter> set (three_nodes m) = {}"
    if "l < l_count three_lists" "m < l_count three_lists" "l \<noteq> m" for l m
    using that by (auto simp: three_nodes_def split: if_splits)
  have cache: "cache_ok three_lists []" by (simp add: cache_ok_def three_lists_def)
  note all = store_okI [OF ok sep cache, simplified]
  show "store_ok three_lists" "l < 3 \<Longrightarrow> nodes_of three_lists l = three_nodes l" "freed three_lists = []"
    using all by (simp_all add: three_lists_def)
qed

lemma three_fields:
  "l_count three_lists = 3" "n_count three_lists = 3" "STATEMENT_LIST_HEAD three_lists 0 = Some 0"
  "n_stmt three_lists 0 = Statement ''a''" "n_stmt three_lists (Suc 0) = Statement ''b''"
  "n_stmt three_lists 2 = Statement ''c''"
  by (simp_all add: three_lists_def)

section \<open>Walking\<close>

lemma tsi_iter_facts:
  assumes "store_ok st" "tsi_ok st i"
  obtains ps qs where "nodes_of st (container i) = ps @ qs" "ptr i = first qs None" "distinct (ps @ qs)"
    "linked (n_prev st) (n_next st) None (ps @ qs) None"
    "zip_of st i = (map (n_stmt st) ps, map (n_stmt st) qs)"
proof -
  from tsi_split [OF assms] obtain ps qs where c: "nodes_of st (container i) = ps @ qs" "ptr i = first qs None"
    "tsi_before st i = map (n_stmt st) ps" "tsi_after st i = map (n_stmt st) qs" .
  have "list_ok st (container i) (ps @ qs)"
    using store_okD(1) [OF assms(1), of "container i"] assms(2) c(1) by (simp add: tsi_ok_def live_def)
  then show thesis using c by (intro that [of ps qs]) (simp_all add: list_ok_def zip_of_def)
qed

lemma zip_at:
  assumes "nodes_of st (container i) = ps @ qs" "ptr i = first qs None" "distinct (ps @ qs)"
  shows "zip_of st i = (map (n_stmt st) ps, map (n_stmt st) qs)"
    and "live st (container i) \<Longrightarrow> tsi_ok st i"
  using tsi_cut [OF assms] assms by (cases qs; auto simp: zip_of_def tsi_ok_def)+

text \<open>Walking over a statement list: an iterator starts before the first statement, is at the
  end exactly when no statement is left, yields the first statement that is left, and moving on
  takes it past that statement. Moving back takes it before the statement it passed last; from the
  first statement it falls off the list and is then at its end. At the end the three accesses fault.\<close>

lemma walk_step:
  assumes "store_ok st" "tsi_ok st i"
  shows "case zip_of st i of
         (xs, []) \<Rightarrow> tsi_end_p i \<and> tsi_stmt st i = None \<and> tsi_next st i = None \<and> tsi_prev st i = None
       | (xs, s # ys) \<Rightarrow>
           \<not> tsi_end_p i \<and> tsi_stmt st i = Some s
           \<and> (\<exists>j. tsi_next st i = Some j \<and> tsi_ok st j \<and> container j = container i \<and> zip_of st j = (xs @ [s], ys))
           \<and> (\<exists>j. tsi_prev st i = Some j \<and> tsi_ok st j \<and> container j = container i
               \<and> zip_of st j = (if xs = [] then (s # ys, []) else (butlast xs, last xs # s # ys)))"
proof -
  from tsi_iter_facts [OF assms] obtain ps qs where c: "nodes_of st (container i) = ps @ qs"
    "ptr i = first qs None" "distinct (ps @ qs)" "linked (n_prev st) (n_next st) None (ps @ qs) None"
    "zip_of st i = (map (n_stmt st) ps, map (n_stmt st) qs)" .
  have live: "live st (container i)" using assms(2) by (simp add: tsi_ok_def)
  show ?thesis
  proof (cases qs)
    case Nil
    with c show ?thesis by (simp add: tsi_end_p_def tsi_stmt_def tsi_next_def tsi_prev_def)
  next
    case (Cons q rs)
    have "n_next st q = first rs None" "n_prev st q = final ps None"
      using c(4) Cons by (simp_all add: linked_append)
    moreover have "zip_of st (i\<lparr>ptr := first rs None\<rparr>) = (map (n_stmt st) (ps @ [q]), map (n_stmt st) rs)"
      "tsi_ok st (i\<lparr>ptr := first rs None\<rparr>)"
      using zip_at [of st "i\<lparr>ptr := first rs None\<rparr>" "ps @ [q]" rs] c live Cons by simp_all
    moreover have "tsi_ok st (i\<lparr>ptr := final ps None\<rparr>) \<and> zip_of st (i\<lparr>ptr := final ps None\<rparr>)
      = (if map (n_stmt st) ps = [] then (map (n_stmt st) qs, [])
         else (butlast (map (n_stmt st) ps), last (map (n_stmt st) ps) # map (n_stmt st) qs))"
    proof (cases ps rule: rev_cases)
      case Nil
      with zip_at [of st "i\<lparr>ptr := None\<rparr>" qs "[]"] c live show ?thesis by simp
    next
      case (snoc ps' a)
      with zip_at [of st "i\<lparr>ptr := Some a\<rparr>" ps' "a # qs"] c live show ?thesis by (simp add: butlast_append)
    qed
    ultimately show ?thesis using c Cons
      by (simp add: tsi_end_p_def tsi_stmt_def tsi_next_def tsi_prev_def)
  qed
qed

lemma start_step:
  assumes "store_ok st" "live st l"
  shows "tsi_ok st (tsi_start st l) \<and> zip_of st (tsi_start st l) = ([], contents st l)"
proof -
  have "list_ok st l (nodes_of st l)" using store_okD(1) [OF assms(1), of l] assms(2) by (simp add: live_def)
  then have "ptr (tsi_start st l) = first (nodes_of st l) None" "distinct ([] @ nodes_of st l)"
    by (simp_all add: list_ok_def tsi_start_def)
  with zip_at [of st "tsi_start st l" "[]" "nodes_of st l"] assms(2) show ?thesis
    by (simp add: tsi_start_def contents_def)
qed

section \<open>Changing\<close>

text \<open>Linking a statement, or the statements of a list, before the cursor puts them between the
  statements before it and those after it, empties the list they came from and leaves every other list as
  it was. The cursor moves as the mode asks, and every other iterator that does not walk the emptied
  list still yields the same statement. The invariant of the store is kept.\<close>

lemma link_before_step:
  assumes ok: "store_ok st" "tsi_ok st i" "linkable st (container i) t"
  shows "\<exists>i' st'. tsi_link_before st i t mode = Some (i', st') \<and> store_ok st' \<and> tsi_ok st' i'
    \<and> (let (xs, ys) = zip_of st i; new = elems st t
       in contents st' (container i) = xs @ new @ ys \<and> container i' = container i
          \<and> snd (zip_of st' i') = (case mode of TSI_SAME_STMT \<Rightarrow> ys
              | TSI_CHAIN_END \<Rightarrow> drop (length new - 1) new @ ys | _ \<Rightarrow> new @ ys))
    \<and> (\<forall>m<l_count st. m \<noteq> container i \<longrightarrow> contents st' m = (if t = Statement_list m then [] else contents st m))
    \<and> (\<forall>j. tsi_ok st j \<and> t \<noteq> Statement_list (container j) \<longrightarrow> tsi_ok st' j \<and> tsi_stmt st' j = tsi_stmt st j)"
proof -
  let ?l = "container i"
  from tsi_iter_facts [OF ok(1,2)] obtain ps qs where c: "nodes_of st ?l = ps @ qs"
    "ptr i = first qs None" "zip_of st i = (map (n_stmt st) ps, map (n_stmt st) qs)" .
  have live: "live st ?l" using ok(2) by (simp add: tsi_ok_def)
  have nt: "t \<noteq> Statement_list ?l" using ok(3) by (auto simp: linkable_def)
  from link_before_spliced [OF ok(1) live ok(3) c(1,2), of mode] obtain cs i' st' where
    run: "tsi_link_before st i t mode = Some (i', st')" and sp: "spliced st t ?l ps cs qs st'"
    and i': "container i' = ?l" "ptr i' = (if cs = [] then ptr i else case mode of TSI_SAME_STMT \<Rightarrow> ptr i
                  | TSI_CHAIN_END \<Rightarrow> Some (last cs) | _ \<Rightarrow> Some (hd cs))" by blast
  have live': "live st' ?l" by (rule spliced_live [OF sp live nt])
  note stmts = spliced_stmts [OF ok(1) live c(1) sp]
  have new: "elems st t = map (n_stmt st') cs" using sp by (simp add: spliced_def)
  let ?ws = "case mode of TSI_SAME_STMT \<Rightarrow> qs | TSI_CHAIN_END \<Rightarrow> drop (length cs - 1) cs @ qs | _ \<Rightarrow> cs @ qs"
  have "\<exists>vs. ps @ cs @ qs = vs @ ?ws"
    by (cases mode) (auto intro: exI [of _ "ps @ cs"] exI [of _ "ps @ take (length cs - 1) cs"])
  then obtain vs where vs: "ps @ cs @ qs = vs @ ?ws" by blast
  have "ptr i' = first ?ws None"
  proof (cases cs rule: rev_cases)
    case (snoc cs' a)
    then show ?thesis using i'(2) c(2) by (cases mode; cases cs') auto
  qed (use i'(2) c(2) in \<open>simp split: tsi_iterator_update.split\<close>)
  from spliced_iter [OF sp live' i'(1) vs this]
  have it: "tsi_ok st' i'" "tsi_after st' i' = map (n_stmt st') ?ws" by blast+
  have "map (n_stmt st') ?ws = (case mode of TSI_SAME_STMT \<Rightarrow> map (n_stmt st) qs
              | TSI_CHAIN_END \<Rightarrow> drop (length (elems st t) - 1) (elems st t) @ map (n_stmt st) qs
              | _ \<Rightarrow> elems st t @ map (n_stmt st) qs)"
    by (cases mode) (simp_all add: new stmts(2) drop_map)
  then show ?thesis
    using run sp it i'(1) stmts(3,4) spliced_others [OF ok(1) c(1) sp] c(3)
    by (auto simp: spliced_def zip_of_def)
qed

text \<open>Linking after the cursor puts the new statements behind the statement the cursor is at. At the
  end of a list that has statements, and with the mode that would leave the cursor there, an assertion
  fails, unless there is nothing to link, which is as linking nothing before the cursor.\<close>

lemma link_after_nothing:
  assumes "store_ok st" "linkable st l t" "elems st t = []"
  shows "tsi_link_after st i t mode = tsi_link_before st i t mode"
proof -
  obtain cs st1 where "statement_chain st t = Some (if cs = [] then None else Some (hd cs, last cs), st1)"
    "chain_taken st t cs st1" using statement_chain_taken [OF assms(1,2)] by metis
  then show ?thesis using assms(3)
    by (simp add: tsi_link_after_def tsi_link_before_def chain_taken_def)
qed

lemma link_after_step:
  assumes ok: "store_ok st" "tsi_ok st i" "linkable st (container i) t"
  shows "case zip_of st i of
      (xs, s # ys) \<Rightarrow>
        \<exists>i' st'. tsi_link_after st i t mode = Some (i', st') \<and> store_ok st' \<and> tsi_ok st' i'
          \<and> contents st' (container i) = xs @ s # elems st t @ ys
          \<and> (\<forall>m<l_count st. m \<noteq> container i \<longrightarrow> contents st' m = (if t = Statement_list m then [] else contents st m))
          \<and> (mode = TSI_CONTINUE_LINKING \<longrightarrow> elems st t \<noteq> [] \<longrightarrow> snd (zip_of st' i') = last (elems st t) # ys)
          \<and> (mode = TSI_SAME_STMT \<longrightarrow> zip_of st' i' = (xs, s # elems st t @ ys))
          \<and> (\<forall>j. tsi_ok st j \<and> t \<noteq> Statement_list (container j) \<longrightarrow> tsi_ok st' j \<and> tsi_stmt st' j = tsi_stmt st j)
    | (xs, []) \<Rightarrow> (xs \<noteq> [] \<or> mode = TSI_SAME_STMT) \<and> elems st t \<noteq> [] \<longrightarrow> tsi_link_after st i t mode = None"
proof -
  let ?l = "container i"
  from tsi_iter_facts [OF ok(1,2)] obtain ps qs where c: "nodes_of st ?l = ps @ qs"
    "ptr i = first qs None" "zip_of st i = (map (n_stmt st) ps, map (n_stmt st) qs)" .
  have live: "live st ?l" using ok(2) by (simp add: tsi_ok_def)
  have nt: "t \<noteq> Statement_list ?l" using ok(3) by (auto simp: linkable_def)
  show ?thesis
  proof (cases qs)
    case Nil
    obtain cs st1 where run: "statement_chain st t = Some (if cs = [] then None else Some (hd cs, last cs), st1)"
      and taken: "chain_taken st t cs st1" using statement_chain_taken [OF ok(1,3)] by metis
    have "ps = [] \<or> STATEMENT_LIST_TAIL st1 ?l \<noteq> None"
      using taken_list(1) [OF taken live ok(3) c(1)] Nil by (auto simp: list_ok_def)
    with run nt Nil c taken show ?thesis
      by (auto simp: tsi_link_after_def chain_taken_def Let_def)
  next
    case (Cons q rs)
    have cut: "nodes_of st ?l = (ps @ [q]) @ rs" "ptr i = Some q" using c Cons by simp_all
    from link_after_spliced [OF ok(1) live ok(3) cut, of mode] obtain cs i' st' where
      run: "tsi_link_after st i t mode = Some (i', st')" and sp: "spliced st t ?l (ps @ [q]) cs rs st'"
      and i': "container i' = ?l" "ptr i' = (if cs = [] then ptr i else case mode of TSI_NEW_STMT \<Rightarrow> Some (hd cs)
                  | TSI_CHAIN_START \<Rightarrow> Some (hd cs) | TSI_SAME_STMT \<Rightarrow> ptr i | _ \<Rightarrow> Some (last cs))" by blast
    have live': "live st' ?l" by (rule spliced_live [OF sp live nt])
    note stmts = spliced_stmts [OF ok(1) live cut(1) sp]
    have new: "elems st t = map (n_stmt st') cs" using sp by (simp add: spliced_def)
    have "ptr i' \<in> Some ` set ((ps @ [q]) @ cs @ rs)"
      using i'(2) cut(2) by (cases mode; cases cs) auto
    then have it: "tsi_ok st' i'" using sp live' i'(1) by (auto simp: tsi_ok_def spliced_def)
    have "snd (zip_of st' i') = last (elems st t) # map (n_stmt st) rs"
      if m: "mode = TSI_CONTINUE_LINKING" "elems st t \<noteq> []"
    proof -
      have ne: "cs \<noteq> []" using m(2) new by simp
      then have "ptr i' = first (last cs # rs) None" "(ps @ [q]) @ cs @ rs = ((ps @ [q]) @ butlast cs) @ last cs # rs"
        using i'(2) m(1) by simp_all
      from spliced_iter(3) [OF sp live' i'(1) this(2,1)] show ?thesis
        using stmts(2) ne by (simp add: zip_of_def new last_map)
    qed
    moreover have "zip_of st' i' = (map (n_stmt st) ps, n_stmt st q # elems st t @ map (n_stmt st) rs)"
      if m: "mode = TSI_SAME_STMT"
    proof -
      have "ptr i' = first (q # cs @ rs) None" "(ps @ [q]) @ cs @ rs = ps @ q # cs @ rs"
        using i'(2) m cut(2) by simp_all
      from spliced_iter(2,3) [OF sp live' i'(1) this(2,1)] show ?thesis
        using stmts(1,2) by (simp add: zip_of_def new)
    qed
    moreover have "contents st' ?l = map (n_stmt st) ps @ n_stmt st q # elems st t @ map (n_stmt st) rs"
      using stmts(3) by simp
    ultimately show ?thesis
      using run sp it stmts(4) c(3) Cons spliced_others [OF ok(1) cut(1) sp] by (auto simp: spliced_def)
  qed
qed

text \<open>Delinking takes exactly the statement at the cursor out of its list and leaves the cursor at the
  statement behind it; other lists and the iterators at other statements are not touched, and
  the invariant is kept. At the end of a list there is nothing to delink, and the routine faults.\<close>

lemma delink_step:
  assumes ok: "store_ok st" "tsi_ok st i"
  shows "case zip_of st i of
      (xs, []) \<Rightarrow> tsi_delink st i = None
    | (xs, s # ys) \<Rightarrow>
        \<exists>i' st'. tsi_delink st i = Some (i', st') \<and> store_ok st' \<and> tsi_ok st' i' \<and> container i' = container i
          \<and> zip_of st' i' = (xs, ys) \<and> contents st' (container i) = xs @ ys
          \<and> (\<forall>m<l_count st. m \<noteq> container i \<longrightarrow> contents st' m = contents st m)
          \<and> (\<forall>j. tsi_ok st j \<and> ptr j \<noteq> ptr i \<longrightarrow> tsi_ok st' j \<and> tsi_stmt st' j = tsi_stmt st j)"
proof -
  let ?l = "container i"
  from tsi_iter_facts [OF ok] obtain ps qs where c: "nodes_of st ?l = ps @ qs"
    "ptr i = first qs None" "distinct (ps @ qs)" "zip_of st i = (map (n_stmt st) ps, map (n_stmt st) qs)" .
  have live: "live st ?l" using ok(2) by (simp add: tsi_ok_def)
  show ?thesis
  proof (cases qs)
    case Nil
    with c show ?thesis by (simp add: tsi_delink_def)
  next
    case (Cons q rs)
    have cut: "nodes_of st ?l = ps @ q # rs" "ptr i = Some q" using c Cons by simp_all
    from delink_removes [OF ok(1) live cut] obtain st' where
      run: "tsi_delink st i = Some (i\<lparr>ptr := first rs None\<rparr>, st')" and st': "store_ok st'" "l_count st' = l_count st"
        "\<And>m. m < l_count st \<Longrightarrow> nodes_of st' m = (if m = ?l then ps @ rs else nodes_of st m)"
        "n_stmt st' = n_stmt st" "freed st' = freed st" by blast
    have l: "?l < l_count st" "live st' ?l" using live st' by (simp_all add: live_def)
    have n: "nodes_of st' ?l = ps @ rs" using st'(3) [OF l(1)] by simp
    have "zip_of st' (i\<lparr>ptr := first rs None\<rparr>) = (map (n_stmt st) ps, map (n_stmt st) rs)"
      "tsi_ok st' (i\<lparr>ptr := first rs None\<rparr>)"
      using zip_at [of st' "i\<lparr>ptr := first rs None\<rparr>" ps rs] c(3) Cons l n st'(4) by simp_all
    moreover have "tsi_ok st' j \<and> tsi_stmt st' j = tsi_stmt st j" if "tsi_ok st j" "ptr j \<noteq> Some q" for j
      using that st'(2-5) l cut(1) by (cases "ptr j") (auto simp: tsi_ok_def tsi_stmt_def live_def)
    moreover have "contents st' ?l = map (n_stmt st) ps @ map (n_stmt st) rs"
      "\<forall>m<l_count st. m \<noteq> ?l \<longrightarrow> contents st' m = contents st m"
      using n st' by (auto simp: contents_def)
    moreover have "zip_of st i = (map (n_stmt st) ps, n_stmt st q # map (n_stmt st) rs)" using c(4) Cons by simp
    ultimately show ?thesis using run st'(1) cut(2) by auto
  qed
qed

lemma three_start:
  "tsi_ok three_lists (tsi_start three_lists 0)" "container (tsi_start three_lists 0) = 0"
  "zip_of three_lists (tsi_start three_lists 0) = ([], [Statement ''a'', Statement ''b''])"
  "ptr (tsi_start three_lists 0) = Some 0"
  by (simp_all add: tsi_ok_def live_def zip_of_def tsi_before_def tsi_after_def three_lists three_nodes_def
      tsi_start_def three_fields)

section \<open>Splitting\<close>

lemma split_result:
  assumes st1: "store_ok st1" "live st1 old" "live st1 new" "old \<noteq> new" "nodes_of st1 new = []"
      "nodes_of st1 old = xs @ ys"
    and pr: "n_prev st' = join_prev ys None (n_prev st1)" and nx: "n_next st' = join_next xs None (n_next st1)"
    and hd: "STATEMENT_LIST_HEAD st' = (STATEMENT_LIST_HEAD st1)(old := first xs None, new := first ys None)"
    and tl: "STATEMENT_LIST_TAIL st' = (STATEMENT_LIST_TAIL st1)(old := final xs None, new := final ys None)"
    and rest: "n_count st' = n_count st1" "l_count st' = l_count st1" "TREE_CHAIN st' = TREE_CHAIN st1"
      "stmt_list_cache st' = stmt_list_cache st1" "n_stmt st' = n_stmt st1"
  shows "store_ok st' \<and> live st' new \<and> contents st' old = map (n_stmt st1) xs \<and> contents st' new = map (n_stmt st1) ys
    \<and> nodes_of st' new = ys \<and> (\<forall>m. live st1 m \<longrightarrow> m \<noteq> old \<longrightarrow> m \<noteq> new \<longrightarrow> contents st' m = contents st1 m)"
proof -
  note sp = split_lists [OF st1 pr nx hd tl rest(1-4)]
  have l: "old < l_count st'" "new < l_count st'" using st1(2,3) rest by (simp_all add: live_def)
  show ?thesis using sp(1,3) sp(2) [OF l(1)] sp(2) [OF l(2)] sp(2) rest(2,5) st1(3,4)
    by (auto simp: contents_def live_def)
qed

text \<open>The nodes on both sides of the cut, and the store with the new, still empty, list.\<close>

lemma split_start:
  assumes ok: "store_ok st" "tsi_ok st i" and z: "zip_of st i = (xs, s # ys)"
  obtains ps q rs new st1 where
    "alloc_stmt_list st = Some (new, st1)" "store_ok st1" "live st1 new" "nodes_of st1 new = []" "\<not> live st new"
    "container i \<noteq> new" "live st1 (container i)" "nodes_of st1 (container i) = ps @ q # rs" "distinct (ps @ q # rs)"
    "STATEMENT_LIST_HEAD st1 (container i) = first (ps @ q # rs) None"
    "STATEMENT_LIST_TAIL st1 (container i) = final (q # rs) None"
    "ptr i = Some q" "n_next st q = first rs None" "n_prev st q = final ps None"
    "map (n_stmt st1) ps = xs" "n_stmt st1 q = s" "map (n_stmt st1) rs = ys"
    "\<And>m. live st m \<Longrightarrow> live st1 m \<and> m \<noteq> new \<and> contents st1 m = contents st m"
proof -
  let ?l = "container i"
  from tsi_iter_facts [OF ok] obtain ps qs where c: "nodes_of st ?l = ps @ qs"
    "ptr i = first qs None" "distinct (ps @ qs)" "linked (n_prev st) (n_next st) None (ps @ qs) None"
    "zip_of st i = (map (n_stmt st) ps, map (n_stmt st) qs)" .
  from z c(5) obtain q rs where qs: "qs = q # rs" by auto
  have live: "live st ?l" using ok(2) by (simp add: tsi_ok_def)
  from alloc_list [OF ok(1)] obtain new st1 where al: "alloc_stmt_list st = Some (new, st1)" "store_ok st1"
    "live st1 new" "nodes_of st1 new = []" "\<not> live st new"
    "\<And>m. live st m \<Longrightarrow> live st1 m \<and> nodes_of st1 m = nodes_of st m"
    "n_prev st1 = n_prev st" "n_next st1 = n_next st" "n_stmt st1 = n_stmt st" by blast
  have l1: "?l \<noteq> new" "live st1 ?l" "nodes_of st1 ?l = ps @ q # rs" using al(5) al(6) [OF live] live c(1) qs by auto
  have "list_ok st1 ?l (ps @ q # rs)" using store_okD(1) [OF al(2), of ?l] l1 by (simp add: live_def)
  then have ends: "STATEMENT_LIST_HEAD st1 ?l = first (ps @ q # rs) None" "STATEMENT_LIST_TAIL st1 ?l = final (q # rs) None"
    by (simp_all add: list_ok_def final_append)
  have same: "live st1 m \<and> m \<noteq> new \<and> contents st1 m = contents st m" if "live st m" for m
    using al(5) al(6) [OF that] al(9) that by (auto simp: contents_def)
  show thesis
    by (rule that [OF al(1-5) l1 _ ends _ _ _ _ _ _ same, simplified al(9)])
      (use c qs z in \<open>simp_all add: linked_append\<close>)
qed

lemma split_after:
  assumes ok: "store_ok st" "tsi_ok st i" and z: "zip_of st i = (xs, s # ys)" and ne: "ys \<noteq> []"
  shows "\<exists>new st'. tsi_split_statement_list_after st i = Some (new, st') \<and> store_ok st' \<and> \<not> live st new
    \<and> live st' new \<and> contents st' (container i) = xs @ [s] \<and> contents st' new = ys
    \<and> (\<forall>m. live st m \<and> m \<noteq> container i \<longrightarrow> contents st' m = contents st m)"
proof -
  let ?l = "container i"
  from split_start [OF ok z] obtain ps q rs new st1 where
    al: "alloc_stmt_list st = Some (new, st1)" "store_ok st1" "live st1 new" "nodes_of st1 new = []" "\<not> live st new"
    and l: "?l \<noteq> new" "live st1 ?l" "nodes_of st1 ?l = ps @ q # rs" "distinct (ps @ q # rs)"
      "STATEMENT_LIST_HEAD st1 ?l = first (ps @ q # rs) None" "STATEMENT_LIST_TAIL st1 ?l = final (q # rs) None"
      "ptr i = Some q" "n_next st q = first rs None"
    and m: "map (n_stmt st1) ps = xs" "n_stmt st1 q = s" "map (n_stmt st1) rs = ys"
    and same: "\<And>m. live st m \<Longrightarrow> live st1 m \<and> m \<noteq> new \<and> contents st1 m = contents st m" by metis
  obtain r rs' where rs: "rs = r # rs'" using m(3) ne by (cases rs) auto
  define st' where "st' = st1\<lparr>TREE_SIDE_EFFECTS := (TREE_SIDE_EFFECTS st1)(new := True),
    STATEMENT_LIST_HEAD := (STATEMENT_LIST_HEAD st1)(new := Some r),
    STATEMENT_LIST_TAIL := (STATEMENT_LIST_TAIL st1)(new := STATEMENT_LIST_TAIL st1 ?l, ?l := Some q),
    n_next := (n_next st1)(q := None), n_prev := (n_prev st1)(r := None)\<rparr>"
  have run: "tsi_split_statement_list_after st i = Some (new, st')"
    using al(1) l rs by (simp add: tsi_split_statement_list_after_def st'_def Let_def)
  have hd: "(STATEMENT_LIST_HEAD st1)(?l := first (ps @ [q]) None) = STATEMENT_LIST_HEAD st1"
    using l(5) by (intro fun_upd_idem) (simp add: first_append)
  have "store_ok st' \<and> live st' new \<and> contents st' ?l = map (n_stmt st1) (ps @ [q]) \<and> contents st' new = map (n_stmt st1) rs
    \<and> nodes_of st' new = rs \<and> (\<forall>m. live st1 m \<longrightarrow> m \<noteq> ?l \<longrightarrow> m \<noteq> new \<longrightarrow> contents st' m = contents st1 m)"
    by (rule split_result [OF al(2) l(2) al(3) l(1) al(4)])
      (use l rs in \<open>simp_all add: st'_def hd fun_upd_twist [OF l(1)]\<close>)
  with run al(5) m same show ?thesis by auto
qed

lemma split_before:
  assumes ok: "store_ok st" "tsi_ok st i" and z: "zip_of st i = (xs, s # ys)"
  shows "\<exists>new i' st'. tsi_split_statement_list_before st i = Some (new, i', st') \<and> store_ok st' \<and> \<not> live st new
    \<and> live st' new \<and> contents st' (container i) = xs \<and> contents st' new = s # ys
    \<and> container i' = new \<and> zip_of st' i' = ([], s # ys)
    \<and> (\<forall>m. live st m \<and> m \<noteq> container i \<longrightarrow> contents st' m = contents st m)"
proof -
  let ?l = "container i"
  from split_start [OF ok z] obtain ps q rs new st1 where
    al: "alloc_stmt_list st = Some (new, st1)" "store_ok st1" "live st1 new" "nodes_of st1 new = []" "\<not> live st new"
    and l: "?l \<noteq> new" "live st1 ?l" "nodes_of st1 ?l = ps @ q # rs" "distinct (ps @ q # rs)"
      "STATEMENT_LIST_HEAD st1 ?l = first (ps @ q # rs) None" "STATEMENT_LIST_TAIL st1 ?l = final (q # rs) None"
      "ptr i = Some q" "n_prev st q = final ps None"
    and m: "map (n_stmt st1) ps = xs" "n_stmt st1 q = s" "map (n_stmt st1) rs = ys"
    and same: "\<And>m. live st m \<Longrightarrow> live st1 m \<and> m \<noteq> new \<and> contents st1 m = contents st m" by metis
  define st' where "st' = st1\<lparr>TREE_SIDE_EFFECTS := (TREE_SIDE_EFFECTS st1)(new := True),
    STATEMENT_LIST_HEAD := (STATEMENT_LIST_HEAD st1)(?l := first ps None, new := Some q),
    STATEMENT_LIST_TAIL := (STATEMENT_LIST_TAIL st1)(?l := final ps None, new := STATEMENT_LIST_TAIL st1 ?l),
    n_next := join_next ps None (n_next st1), n_prev := (n_prev st1)(q := None)\<rparr>"
  have run: "tsi_split_statement_list_before st i = Some (new, i\<lparr>container := new\<rparr>, st')"
  proof (cases ps rule: rev_cases)
    case Nil
    then show ?thesis using al(1) l
      by (simp add: tsi_split_statement_list_before_def st'_def Let_def fun_upd_twist [OF l(1)])
  next
    case (snoc ps' a)
    have hd: "(STATEMENT_LIST_HEAD st1)(?l := first (ps' @ [a]) None) = STATEMENT_LIST_HEAD st1"
      using l(5) snoc by (intro fun_upd_idem) (simp add: first_append)
    show ?thesis using al(1) l snoc
      by (simp add: tsi_split_statement_list_before_def st'_def Let_def hd fun_upd_twist [OF l(1)])
  qed
  have res: "store_ok st' \<and> live st' new \<and> contents st' ?l = map (n_stmt st1) ps \<and> contents st' new = map (n_stmt st1) (q # rs)
    \<and> nodes_of st' new = q # rs \<and> (\<forall>m. live st1 m \<longrightarrow> m \<noteq> ?l \<longrightarrow> m \<noteq> new \<longrightarrow> contents st' m = contents st1 m)"
    by (rule split_result [OF al(2) l(2) al(3) l(1) al(4)]) (use l in \<open>simp_all add: st'_def\<close>)
  have "zip_of st' (i\<lparr>container := new\<rparr>) = ([], s # ys)"
    using zip_at(1) [of st' "i\<lparr>container := new\<rparr>" "[]" "q # rs"] res l m by (simp add: st'_def)
  with res run al(5) m same show ?thesis by auto
qed

text \<open>C28. Splitting a list at the cursor loses no statement and changes no other list: with the statement the
  cursor is at as the last of the old list, what follows becomes a new list; or, split before the cursor,
  that statement and what follows become the new list and the cursor goes with them (the comment at
  \<open>tsi_split_statement_list_before\<close> says that the statements before it move instead). When there is nothing
  behind the cursor, splitting after it faults.\<close>

theorem statement_list_split:
  assumes ok: "store_ok st" "tsi_ok st i"
  shows "case zip_of st i of
      (xs, []) \<Rightarrow> tsi_split_statement_list_after st i = None \<and> tsi_split_statement_list_before st i = None
    | (xs, s # ys) \<Rightarrow>
        (if ys = [] then tsi_split_statement_list_after st i = None
         else \<exists>new st'. tsi_split_statement_list_after st i = Some (new, st') \<and> store_ok st' \<and> \<not> live st new
           \<and> live st' new \<and> contents st' (container i) = xs @ [s] \<and> contents st' new = ys
           \<and> (\<forall>m. live st m \<and> m \<noteq> container i \<longrightarrow> contents st' m = contents st m))
        \<and> (\<exists>new i' st'. tsi_split_statement_list_before st i = Some (new, i', st') \<and> store_ok st' \<and> \<not> live st new
           \<and> live st' new \<and> contents st' (container i) = xs \<and> contents st' new = s # ys
           \<and> container i' = new \<and> zip_of st' i' = ([], s # ys)
           \<and> (\<forall>m. live st m \<and> m \<noteq> container i \<longrightarrow> contents st' m = contents st m))"
proof (cases "snd (zip_of st i)")
  case Nil
  from tsi_iter_facts [OF ok] obtain ps qs where c: "ptr i = first qs None"
    "zip_of st i = (map (n_stmt st) ps, map (n_stmt st) qs)" .
  with Nil have "ptr i = None" by simp
  with Nil show ?thesis
    by (cases "zip_of st i") (simp add: tsi_split_statement_list_after_def tsi_split_statement_list_before_def)
next
  case (Cons s ys)
  then obtain xs where z: "zip_of st i = (xs, s # ys)" by (cases "zip_of st i") auto
  have "tsi_split_statement_list_after st i = None" if e: "ys = []"
  proof -
    from split_start [OF ok z] obtain ps q rs new st1 where
      "alloc_stmt_list st = Some (new, st1)" "ptr i = Some q" "n_next st q = first rs None"
      "map (n_stmt st1) rs = ys" by metis
    with e show ?thesis by (simp add: tsi_split_statement_list_after_def Let_def)
  qed
  with split_after [OF ok z] split_before [OF ok z] show ?thesis unfolding z prod.case list.case by simp
qed

lemma statement_list_split_witness:
  "\<exists>new st'. tsi_split_statement_list_after three_lists (tsi_start three_lists 0) = Some (new, st')
    \<and> contents st' 0 = [Statement ''a''] \<and> contents st' new = [Statement ''b'']"
  using statement_list_split [OF three_lists(1) three_start(1)] by (auto simp: three_start)

end
