(* ===== verification/Cursor.thy ===== *)
theory Cursor
  imports TreeList
begin

text \<open>
  Iterators over statement lists as pairs of lists, for the passes that only walk over and change one list:
  the statements before the iterator and those from it on. \<open>NULL\<close> is the cursor with nothing behind it.
  Each operation is the one \<open>TreeList\<close> shows the routine of \<open>gcc/tree-iterator.c\<close> to perform.
\<close>

type_synonym 'a cursor = "'a list \<times> 'a list"

definition cursor_start :: "'a list \<Rightarrow> 'a cursor" where
  "cursor_start ss = ([], ss)"

definition cursor_list :: "'a cursor \<Rightarrow> 'a list" where
  "cursor_list z = fst z @ snd z"

fun cursor_stmt :: "'a cursor \<Rightarrow> 'a option" where
  "cursor_stmt (xs, []) = None"
| "cursor_stmt (xs, s # ys) = Some s"

fun cursor_next :: "'a cursor \<Rightarrow> 'a cursor option" where
  "cursor_next (xs, []) = None"
| "cursor_next (xs, s # ys) = Some (xs @ [s], ys)"

fun cursor_prev :: "'a cursor \<Rightarrow> 'a cursor option" where
  "cursor_prev (xs, []) = None"
| "cursor_prev (xs, s # ys) = Some (if xs = [] then (s # ys, []) else (butlast xs, last xs # s # ys))"

fun cursor_delink :: "'a cursor \<Rightarrow> 'a cursor option" where
  "cursor_delink (xs, []) = None"
| "cursor_delink (xs, s # ys) = Some (xs, ys)"

text \<open>Linking before the cursor with \<open>TSI_SAME_STMT\<close>.\<close>

definition cursor_link_before :: "'a list \<Rightarrow> 'a cursor \<Rightarrow> 'a cursor" where
  "cursor_link_before new z = (fst z @ new, snd z)"

text \<open>Linking behind the statement at the cursor with \<open>TSI_SAME_STMT\<close>; the cursor stays there. Behind the end
  only nothing can be linked.\<close>

fun cursor_link_after :: "'a list \<Rightarrow> 'a cursor \<Rightarrow> 'a cursor option" where
  "cursor_link_after new (xs, []) = (if new = [] then Some (xs, []) else None)"
| "cursor_link_after new (xs, s # ys) = Some (xs, s # new @ ys)"

text \<open>Replacing the statement at the cursor in place.\<close>

fun cursor_replace :: "'a \<Rightarrow> 'a cursor \<Rightarrow> 'a cursor" where
  "cursor_replace t (xs, []) = (xs, [])"
| "cursor_replace t (xs, s # ys) = (xs, t # ys)"

lemma prev_next: "cursor_prev (xs, ys) = Some z \<Longrightarrow> cursor_next z = Some z' \<Longrightarrow> snd z' = ys"
  by (cases ys) (auto split: if_splits)

lemma cursor_stmt_None [simp]: "cursor_stmt (xs, ys) = None \<longleftrightarrow> ys = []"
  by (cases ys) simp_all

lemma cursor_list_pair [simp]: "cursor_list (xs, ys) = xs @ ys"
  by (simp add: cursor_list_def)

text \<open>What linking leaves alone.\<close>

definition link_keeps ::
  "'a stmt_store \<Rightarrow> tree_stmt_iterator \<Rightarrow> 'a tree \<Rightarrow> tree_stmt_iterator \<Rightarrow> 'a stmt_store \<Rightarrow> bool" where
  "link_keeps st i t j st' \<longleftrightarrow> store_ok st' \<and> tsi_ok st' j
     \<and> (\<forall>m<l_count st. m \<noteq> container i \<longrightarrow> contents st' m = (if t = Statement_list m then [] else contents st m))
     \<and> (\<forall>k. tsi_ok st k \<and> t \<noteq> Statement_list (container k) \<longrightarrow> tsi_ok st' k \<and> tsi_stmt st' k = tsi_stmt st k)"

lemma link_before_cursor:
  assumes ok: "store_ok st" "tsi_ok st i" "linkable st (container i) t"
  shows "\<exists>j st'. tsi_link_before st i t TSI_SAME_STMT = Some (j, st')
    \<and> zip_of st' j = cursor_link_before (elems st t) (zip_of st i) \<and> link_keeps st i t j st'"
proof -
  obtain xs ys where z: "zip_of st i = (xs, ys)" by (cases "zip_of st i")
  from link_before_step [OF ok, of TSI_SAME_STMT] obtain j st' where
    r: "tsi_link_before st i t TSI_SAME_STMT = Some (j, st')" "store_ok st'" "tsi_ok st' j"
      "contents st' (container i) = xs @ elems st t @ ys" "container j = container i" "snd (zip_of st' j) = ys"
      "\<forall>m<l_count st. m \<noteq> container i \<longrightarrow> contents st' m = (if t = Statement_list m then [] else contents st m)"
      "\<forall>k. tsi_ok st k \<and> t \<noteq> Statement_list (container k) \<longrightarrow> tsi_ok st' k \<and> tsi_stmt st' k = tsi_stmt st k"
    by (auto simp: z)
  have "fst (zip_of st' j) @ snd (zip_of st' j) = contents st' (container i)"
    using tsi_contents [of st' j] r(5) by (simp add: zip_of_def)
  then have "zip_of st' j = cursor_link_before (elems st t) (zip_of st i)"
    using r(4,6) z by (simp add: cursor_link_before_def prod_eq_iff)
  with r show ?thesis unfolding link_keeps_def by blast
qed

lemma link_after_cursor:
  assumes ok: "store_ok st" "tsi_ok st i" "linkable st (container i) t"
  shows "case tsi_link_after st i t TSI_SAME_STMT of
      None \<Rightarrow> cursor_link_after (elems st t) (zip_of st i) = None
    | Some (j, st') \<Rightarrow> cursor_link_after (elems st t) (zip_of st i) = Some (zip_of st' j) \<and> link_keeps st i t j st'"
proof -
  obtain xs ys where z: "zip_of st i = (xs, ys)" by (cases "zip_of st i")
  show ?thesis
  proof (cases ys)
    case Nil
    show ?thesis
    proof (cases "elems st t = []")
      case True
      with link_before_cursor [OF ok] link_after_nothing [OF ok(1,3) True] show ?thesis
        by (auto simp: z Nil cursor_link_before_def)
    next
      case False
      with link_after_step [OF ok, of TSI_SAME_STMT] show ?thesis by (simp add: z Nil)
    qed
  next
    case (Cons s ys')
    from link_after_step [OF ok, of TSI_SAME_STMT] obtain j st' where
      "tsi_link_after st i t TSI_SAME_STMT = Some (j, st')" "store_ok st'" "tsi_ok st' j"
      "zip_of st' j = (xs, s # elems st t @ ys')"
      "\<forall>m<l_count st. m \<noteq> container i \<longrightarrow> contents st' m = (if t = Statement_list m then [] else contents st m)"
      "\<forall>k. tsi_ok st k \<and> t \<noteq> Statement_list (container k) \<longrightarrow> tsi_ok st' k \<and> tsi_stmt st' k = tsi_stmt st k"
      by (auto simp: z Cons)
    then show ?thesis by (simp add: z Cons link_keeps_def)
  qed
qed

text \<open>C27. The routines on the linked nodes do to an iterator what the operations on cursors say: they succeed
  exactly when these do and end in the cursor these give, for linking with \<open>TSI_SAME_STMT\<close> and a statement, or a live
  list other than the iterator's own; linking that one into itself fails. Delinking and linking keep the invariant of
  the store and the contents of every other list, but for the list that is linked in, which is emptied; iterators at
  other statements stay where they are, as do those over every other list than the emptied one when linking.\<close>

theorem iterators_are_cursors:
  assumes ok: "store_ok st" "tsi_ok st i"
  shows "tsi_stmt st i = cursor_stmt (zip_of st i)
    \<and> map_option (zip_of st) (tsi_next st i) = cursor_next (zip_of st i)
    \<and> map_option (zip_of st) (tsi_prev st i) = cursor_prev (zip_of st i)
    \<and> map_option (\<lambda>(j, st'). zip_of st' j) (tsi_delink st i) = cursor_delink (zip_of st i)
    \<and> (\<forall>j st'. tsi_delink st i = Some (j, st') \<longrightarrow> store_ok st' \<and> tsi_ok st' j
        \<and> (\<forall>m<l_count st. m \<noteq> container i \<longrightarrow> contents st' m = contents st m)
        \<and> (\<forall>k. tsi_ok st k \<and> ptr k \<noteq> ptr i \<longrightarrow> tsi_ok st' k \<and> tsi_stmt st' k = tsi_stmt st k))
    \<and> (t = Statement_list (container i) \<longrightarrow>
        tsi_link_before st i t TSI_SAME_STMT = None \<and> tsi_link_after st i t TSI_SAME_STMT = None)
    \<and> (linkable st (container i) t \<longrightarrow>
        map_option (\<lambda>(j, st'). zip_of st' j) (tsi_link_before st i t TSI_SAME_STMT)
          = Some (cursor_link_before (elems st t) (zip_of st i))
        \<and> map_option (\<lambda>(j, st'). zip_of st' j) (tsi_link_after st i t TSI_SAME_STMT)
          = cursor_link_after (elems st t) (zip_of st i)
        \<and> (\<forall>j st'. tsi_link_before st i t TSI_SAME_STMT = Some (j, st')
             \<or> tsi_link_after st i t TSI_SAME_STMT = Some (j, st') \<longrightarrow> link_keeps st i t j st'))"
proof -
  obtain xs ys where z: "zip_of st i = (xs, ys)" by (cases "zip_of st i")
  have walk: "tsi_stmt st i = cursor_stmt (zip_of st i)" "map_option (zip_of st) (tsi_next st i) = cursor_next (zip_of st i)"
    "map_option (zip_of st) (tsi_prev st i) = cursor_prev (zip_of st i)"
    using walk_step [OF ok] by (cases ys; auto simp: z)+
  have delink: "map_option (\<lambda>(j, st'). zip_of st' j) (tsi_delink st i) = cursor_delink (zip_of st i)"
    "\<forall>j st'. tsi_delink st i = Some (j, st') \<longrightarrow> store_ok st' \<and> tsi_ok st' j
        \<and> (\<forall>m<l_count st. m \<noteq> container i \<longrightarrow> contents st' m = contents st m)
        \<and> (\<forall>k. tsi_ok st k \<and> ptr k \<noteq> ptr i \<longrightarrow> tsi_ok st' k \<and> tsi_stmt st' k = tsi_stmt st k)"
    using delink_step [OF ok] by (cases ys; auto simp: z)+
  have self: "tsi_link_before st i t TSI_SAME_STMT = None \<and> tsi_link_after st i t TSI_SAME_STMT = None"
    if "t = Statement_list (container i)"
    using that by (simp add: tsi_link_before_def tsi_link_after_def)
  have link: "map_option (\<lambda>(j, st'). zip_of st' j) (tsi_link_before st i t TSI_SAME_STMT)
          = Some (cursor_link_before (elems st t) (zip_of st i))
        \<and> map_option (\<lambda>(j, st'). zip_of st' j) (tsi_link_after st i t TSI_SAME_STMT)
          = cursor_link_after (elems st t) (zip_of st i)
        \<and> (\<forall>j st'. tsi_link_before st i t TSI_SAME_STMT = Some (j, st')
             \<or> tsi_link_after st i t TSI_SAME_STMT = Some (j, st') \<longrightarrow> link_keeps st i t j st')"
    if "linkable st (container i) t"
    using link_before_cursor [OF ok that] link_after_cursor [OF ok that] by (auto split: option.splits)
  from walk delink self link show ?thesis by blast
qed

lemma iterators_are_cursors_witness:
  "map_option (\<lambda>(j, st'). zip_of st' j)
      (tsi_link_after three_lists (tsi_start three_lists 0) (Statement_list 1) TSI_SAME_STMT)
    = Some ([], [Statement ''a'', Statement ''c'', Statement ''b''])"
proof -
  have "linkable three_lists (container (tsi_start three_lists 0)) (Statement_list 1)"
    "elems three_lists (Statement_list 1) = [Statement ''c'']"
    by (simp_all add: linkable_def elems_def contents_def three_start three_lists three_nodes_def live_def three_fields)
  then show ?thesis
    using iterators_are_cursors [OF three_lists(1) three_start(1), of "Statement_list 1"] by (simp add: three_start)
qed

end
