(* ===== verification/Hartes.thy ===== *)
theory Hartes
  imports Attribs Printf
begin

text \<open>
  The hArtes part of \<open>gcc/config/microblaze/microblaze.c\<close>: \<open>#pragma map call_hw\<close>, which names the
  hardware component that the next function or variable lives on, and the attribute that
  carries it from the parser to the passes that replace calls. Character arrays have the
  sizes of the source, and a string that does not fit is \<open>None\<close>, like a failed assertion or a use
  of a null pointer.
\<close>

section \<open>The pragma\<close>

text \<open>A token of the pragma's line with its value. The end of the line is the end of the list.\<close>

datatype pragma_token = CPP_NAME string | CPP_NUMBER int | CPP_OTHER

text \<open>The static variables. \<open>call_hw_tree\<close> is the attribute's string; \<open>call_hw_comp\<close> is \<open>None\<close> when
  it is not an identifier.\<close>

record hartes_state =
  call_hw_tree :: "string option"
  call_hw_comp :: "string option"
  comp_name :: string
  comp_id :: int

text \<open>The names after the component's number are appended by printing the array into itself,
  \<open>sprintf (stringa, "%s,%s", stringa, name)\<close>, for which C defines no result. What the library
  leaves in the array is the parameter \<open>overlap\<close>.\<close>

definition fits :: "nat \<Rightarrow> string \<Rightarrow> bool" where
  "fits n s \<longleftrightarrow> length s < n"

fun append_names :: "(string \<Rightarrow> string \<Rightarrow> string) \<Rightarrow> pragma_token list \<Rightarrow> string \<Rightarrow> string option" where
  "append_names overlap [] stringa = Some stringa"
| "append_names overlap (CPP_NAME n # ts) stringa =
    (let s = overlap stringa n in if fits 256 s then append_names overlap ts s else None)"
| "append_names overlap (t # ts) stringa = append_names overlap ts stringa"

datatype pragma_warning = Malformed_pragma | Missing_component | Missing_id | Ignoring_pragma

definition microblaze_pragma_call_hw ::
  "(string \<Rightarrow> string \<Rightarrow> string) \<Rightarrow> pragma_token list \<Rightarrow> hartes_state
   \<Rightarrow> (pragma_warning list \<times> hartes_state) option" where
  "microblaze_pragma_call_hw overlap toks st =
    (case toks of
       CPP_NAME w # toks1 \<Rightarrow>
         if w \<noteq> ''call_hw'' then Some ([Malformed_pragma, Ignoring_pragma], st)
         else
           (case toks1 of
              CPP_NAME cname # toks2 \<Rightarrow>
                if fits 256 cname then
                  let st = st\<lparr>call_hw_comp := Some cname, comp_name := cname\<rparr>
                  in case toks2 of
                       CPP_NUMBER n # toks3 \<Rightarrow>
                         let st = st\<lparr>comp_id := n\<rparr>;
                             s0 = dec n @ '','' @ cname
                         in if fits 256 s0 then
                              (case append_names overlap toks3 s0 of
                                 None \<Rightarrow> None
                               | Some s \<Rightarrow>
                                   if call_hw_tree st = None
                                   then Some ([], st\<lparr>call_hw_tree := Some s\<rparr>) else None)
                            else None
                     | _ \<Rightarrow> Some ([Missing_id, Ignoring_pragma], st)
                else None
            | _ \<Rightarrow> Some ([Missing_component, Ignoring_pragma], st\<lparr>call_hw_comp := None\<rparr>))
     | _ \<Rightarrow> Some ([Malformed_pragma, Ignoring_pragma], st))"

text \<open>The parser's part: inside a function the pragma becomes the argument of a call of a dummy
  builtin in front of the statement that follows, and is no longer pending.\<close>

definition c_parser_pragma_call_hw ::
  "(string \<Rightarrow> string \<Rightarrow> string) \<Rightarrow> bool \<Rightarrow> pragma_token list \<Rightarrow> hartes_state
   \<Rightarrow> (pragma_warning list \<times> string option \<times> hartes_state) option" where
  "c_parser_pragma_call_hw overlap in_function toks st =
    (case microblaze_pragma_call_hw overlap toks st of
       None \<Rightarrow> None
     | Some (ws, st) \<Rightarrow>
         Some (ws, call_hw_tree st,
           if call_hw_tree st \<noteq> None \<and> in_function then st\<lparr>call_hw_tree := None\<rparr> else st))"

section \<open>Declarations\<close>

definition microblaze_check_dsp :: "string \<Rightarrow> bool" where
  "microblaze_check_dsp compname \<longleftrightarrow>
    compname = ''DSP'' \<or> compname = ''dsp'' \<or> compname = ''magic'' \<or> compname = ''MAGIC''"

definition microblaze_check_fpga :: "string \<Rightarrow> bool" where
  "microblaze_check_fpga compname \<longleftrightarrow> compname = ''VIRTEX4'' \<or> compname = ''virtex4''"

datatype tree_type = INTEGER_TYPE | POINTER_TYPE | REAL_TYPE | ARRAY_TYPE tree_type | OTHER_TYPE

datatype decl_code = FUNCTION_DECL | VAR_DECL | OTHER_DECL

record tree_decl =
  d_code :: decl_code
  d_name :: string
  d_type :: tree_type
  DECL_EXTERNAL :: bool
  TREE_PUBLIC :: bool

text \<open>The other name of a variable that a signal processor has, by the variable's type. For other
  types the code complains and uses the variable's own name.\<close>

definition magic_suffix :: "tree_type \<Rightarrow> string" where
  "magic_suffix type =
    (case type of
       INTEGER_TYPE \<Rightarrow> ''__magic_integer__''
     | POINTER_TYPE \<Rightarrow> ''__magic_integer__''
     | REAL_TYPE \<Rightarrow> ''__magic_float__''
     | ARRAY_TYPE t \<Rightarrow>
         (case t of
            REAL_TYPE \<Rightarrow> ''__magic_float__''
          | INTEGER_TYPE \<Rightarrow> ''__magic_integer__''
          | POINTER_TYPE \<Rightarrow> ''__magic_integer__''
          | _ \<Rightarrow> [])
     | OTHER_TYPE \<Rightarrow> [])"

definition get_magic_alias :: "tree_decl \<Rightarrow> string option" where
  "get_magic_alias decl =
    (let name = d_name decl @ magic_suffix (d_type decl) in if fits 512 name then Some name else None)"

text \<open>The file \<open>.dspconf\<close> lists the functions for the signal processor. \<open>fgets\<close> reads at most
  \<open>n - 1\<close> characters, through the end of a line.\<close>

definition fgets :: "nat \<Rightarrow> string \<Rightarrow> string \<times> string" where
  "fgets n s =
    (let l = takeWhile (\<lambda>c. c \<noteq> CHR 0x0A) (take (n - 1) s);
         k = (if length l < length (take (n - 1) s) then length l + 1 else length l)
     in (take k s, drop k s))"

lemma fgets_shorter:
  assumes "s \<noteq> []" "2 \<le> n"
  shows "length (snd (fgets n s)) < length s"
proof -
  have "length (takeWhile (\<lambda>c. c \<noteq> CHR 0x0A) (take (n - 1) s)) < length (take (n - 1) s) \<or>
      0 < length (takeWhile (\<lambda>c. c \<noteq> CHR 0x0A) (take (n - 1) s))"
    using assms by (cases s) (auto simp: le_less)
  then show ?thesis using assms by (auto simp: fgets_def Let_def)
qed

lemma fgets_rest: "(l, rest) = fgets 1024 s \<Longrightarrow> s \<noteq> [] \<Longrightarrow> length rest < length s"
  using fgets_shorter [of s 1024] by (cases "fgets 1024 s") simp

function has_line :: "string \<Rightarrow> string \<Rightarrow> bool" where
  "has_line outstr s =
    (if s = [] then False
     else let (str, rest) = fgets 1024 s in if str = outstr then True else has_line outstr rest)"
  by pat_completeness auto
termination
proof (relation "measure (\<lambda>(outstr, s). length s)", rule wf_measure)
  fix outstr s x l rest
  assume a: "s \<noteq> []" "x = fgets 1024 s" "(l, rest) = x"
  then have "(l, rest) = fgets 1024 s" by simp
  from fgets_rest [OF this a(1)] show "((outstr, rest), outstr, s) \<in> measure (\<lambda>(outstr, s). length s)" by simp
qed

declare has_line.simps [simp del]

definition include_line :: "string \<Rightarrow> string" where
  "include_line funcname = ''_include '' @ funcname @ [CHR 0x0A]"

text \<open>The file is \<open>None\<close> when it does not exist. In an empty file the code compares an array that
  nothing was read into.\<close>

definition microblaze_include_dspfunc :: "string \<Rightarrow> string option \<Rightarrow> string option option" where
  "microblaze_include_dspfunc funcname dspconf =
    (let outstr = include_line funcname
     in if \<not> fits 1024 outstr then None
        else
          (case dspconf of
             None \<Rightarrow> Some (Some outstr)
           | Some s \<Rightarrow>
               if s = [] then None
               else if has_line outstr s then Some (Some s) else Some (Some (s @ outstr))))"

text \<open>The hook that adds attributes to a new declaration. Its last result is the new contents of
  the file. \<open>optimize\<close> is the optimisation level. The call of \<open>IDENTIFIER_POINTER\<close> needs an
  identifier.\<close>

definition Optimization_warning :: string where
  "Optimization_warning = ''ignoring call_hw on optimization level less than O3''"

definition microblaze_insert_attributes ::
  "int \<Rightarrow> hartes_state \<Rightarrow> tree_decl \<Rightarrow> string attribute list \<Rightarrow> string option
   \<Rightarrow> (string list \<times> hartes_state \<times> tree_decl \<times> string attribute list \<times> string option) option" where
  "microblaze_insert_attributes optimize st decl attributes dspconf =
    (case d_code decl of
       VAR_DECL \<Rightarrow>
         (case call_hw_tree st of
            None \<Rightarrow> Some ([], st, decl, attributes, dspconf)
          | Some _ \<Rightarrow>
              (case call_hw_comp st of
                 None \<Rightarrow> None
               | Some cname \<Rightarrow>
                   let st = st\<lparr>call_hw_tree := None, call_hw_comp := None\<rparr>
                   in if microblaze_check_dsp cname then
                        (case get_magic_alias decl of
                           None \<Rightarrow> None
                         | Some vname \<Rightarrow>
                             Some ([], st, decl\<lparr>DECL_EXTERNAL := True, TREE_PUBLIC := False\<rparr>,
                                   (''weakref'', vname) # attributes, dspconf))
                      else Some ([], st, decl, attributes, dspconf)))
     | FUNCTION_DECL \<Rightarrow>
         (case call_hw_tree st of
            None \<Rightarrow> Some ([], st, decl, attributes, dspconf)
          | Some args \<Rightarrow>
              let warnings = (if optimize < 1 then [Optimization_warning] else []);
                  attributes = (if optimize < 1 then attributes else attributes @ [(''call_hw'', args)])
              in (case call_hw_comp st of
                    None \<Rightarrow> None
                  | Some cname \<Rightarrow>
                      let st = st\<lparr>call_hw_tree := None, call_hw_comp := None\<rparr>
                      in if microblaze_check_dsp cname then
                           let varname_dsp = d_name decl @ ''__magic_text__''
                           in if fits 512 varname_dsp then
                                (case microblaze_include_dspfunc (d_name decl) dspconf of
                                   None \<Rightarrow> None
                                 | Some dspconf \<Rightarrow>
                                     Some (warnings, st, decl\<lparr>DECL_EXTERNAL := True, TREE_PUBLIC := False\<rparr>,
                                           (''weakref'', varname_dsp) # attributes, dspconf))
                              else None
                         else Some (warnings, st, decl, attributes, dspconf)))
     | OTHER_DECL \<Rightarrow> Some ([], st, decl, attributes, dspconf))"

text \<open>The handler of the attribute: a warning and no attribute for other declarations.\<close>

definition microblaze_handle_call_hw_attribute :: "decl_code \<Rightarrow> bool \<times> bool" where
  "microblaze_handle_call_hw_attribute code =
    (let bad = code \<noteq> FUNCTION_DECL \<and> code \<noteq> VAR_DECL in (bad, bad))"

section \<open>Reading the attribute\<close>

text \<open>\<open>strtok\<close>: skip delimiters, take the characters up to the next one.\<close>

definition strtok :: "string \<Rightarrow> string \<Rightarrow> (string \<times> string) option" where
  "strtok delims s =
    (case dropWhile (\<lambda>c. c \<in> set delims) s of
       [] \<Rightarrow> None
     | t \<Rightarrow> Some (takeWhile (\<lambda>c. c \<notin> set delims) t, tl (dropWhile (\<lambda>c. c \<notin> set delims) t)))"

text \<open>\<open>strtoul\<close> with base 0 on a 32-bit host.\<close>

definition digit_in :: "nat \<Rightarrow> char \<Rightarrow> nat option" where
  "digit_in base c =
    (let n = of_char c :: nat;
         v = (if 48 \<le> n \<and> n \<le> 57 then n - 48
              else if 97 \<le> n \<and> n \<le> 122 then n - 87
              else if 65 \<le> n \<and> n \<le> 90 then n - 55 else 36)
     in if v < base then Some v else None)"

fun read_digits :: "nat \<Rightarrow> nat \<Rightarrow> string \<Rightarrow> nat" where
  "read_digits base v [] = v"
| "read_digits base v (c # cs) =
    (case digit_in base c of None \<Rightarrow> v | Some d \<Rightarrow> read_digits base (v * base + d) cs)"

definition c_space :: "char \<Rightarrow> bool" where
  "c_space c \<longleftrightarrow> c \<in> set [CHR 0x20, CHR 0x09, CHR 0x0A, CHR 0x0B, CHR 0x0C, CHR 0x0D]"

definition strtoul :: "string \<Rightarrow> 32 word" where
  "strtoul s =
    (let t = dropWhile c_space s;
         neg = (t \<noteq> [] \<and> hd t = CHR ''-'');
         u = (if t \<noteq> [] \<and> (hd t = CHR ''-'' \<or> hd t = CHR ''+'') then tl t else t);
         v = (if length u \<ge> 3 \<and> take 2 u \<in> {''0x'', ''0X''} \<and> digit_in 16 (u ! 2) \<noteq> None
              then read_digits 16 0 (drop 2 u)
              else if u \<noteq> [] \<and> hd u = CHR ''0'' then read_digits 8 0 u
              else read_digits 10 0 u)
     in if v \<ge> 2 ^ 32 then - 1 else if neg then - of_nat v else of_nat v)"

text \<open>The rest of the string as arguments; each call of \<open>strtok\<close> shortens it.\<close>

lemma strtok_shorter: "strtok delims s = Some (t, rest) \<Longrightarrow> length rest < length s"
proof -
  assume a: "strtok delims s = Some (t, rest)"
  let ?t = "dropWhile (\<lambda>c. c \<in> set delims) s"
  have "?t \<noteq> []" "rest = tl (dropWhile (\<lambda>c. c \<notin> set delims) ?t)"
    using a by (cases ?t; auto simp: strtok_def)+
  moreover have "length (dropWhile (\<lambda>c. c \<notin> set delims) ?t) \<le> length ?t" "length ?t \<le> length s"
    by (rule length_dropWhile_le)+
  ultimately show ?thesis by (cases s) auto
qed

function hartes_args :: "string \<Rightarrow> string list" where
  "hartes_args s =
    (case strtok [CHR '','', CHR 0x0A] s of None \<Rightarrow> [] | Some (t, rest) \<Rightarrow> t # hartes_args rest)"
  by pat_completeness auto
termination
  by (relation "measure length") (auto dest: strtok_shorter)

declare hartes_args.simps [simp del]

text \<open>The arguments \<open>id\<close> and \<open>compname\<close> keep what they held when the string has no such token. With
  \<open>args\<close> and \<open>cnt\<close> null the last result is not computed. The pointers that the code stores point
  into its own local array; the model returns the strings they point to when it returns.\<close>

definition hartes_call_hw_get_params ::
  "string option \<Rightarrow> 32 word \<Rightarrow> string option \<Rightarrow> (32 word \<times> string option \<times> string list) option" where
  "hartes_call_hw_get_params str ident compname =
    (case str of
       None \<Rightarrow> Some (ident, compname, [])
     | Some src \<Rightarrow>
         if \<not> fits 256 src then None
         else
           let (ident, rest) = (case strtok '','' src of None \<Rightarrow> (ident, []) | Some (t, r) \<Rightarrow> (strtoul t, r));
               (compname, rest) = (case strtok '','' rest of None \<Rightarrow> (compname, []) | Some (t, r) \<Rightarrow> (Some t, r))
           in Some (ident, compname, hartes_args rest))"

section \<open>The list of hardware functions\<close>

text \<open>The elements behind the head of the list, which \<open>hfunc_attr->next = 0\<close> cuts off, stay allocated
  but are not reachable. \<open>check_hfunc_attrs\<close> compares every element with the head.\<close>

record hfunc_attr =
  h_compname :: string
  h_id :: int
  argname :: "string option"
  h_size :: int
  h_type :: int

datatype hfunc_error = Mixed_PE | Mixed_implementation

definition check_hfunc_attrs :: "hfunc_attr list \<Rightarrow> hfunc_error list option" where
  "check_hfunc_attrs l =
    (case l of
       [] \<Rightarrow> None
     | h # _ \<Rightarrow>
         Some (concat (map (\<lambda>t.
           (if h_compname h \<noteq> h_compname t then [Mixed_PE] else [])
           @ (if h_id h \<noteq> h_id t then [Mixed_implementation] else [])) l)))"

definition add_hfunc_attr :: "hfunc_attr \<Rightarrow> hfunc_attr list \<Rightarrow> (hfunc_error list \<times> hfunc_attr list) option" where
  "add_hfunc_attr new l =
    (let l = (case l of [] \<Rightarrow> [new] | h # _ \<Rightarrow> [new, h])
     in map_option (\<lambda>es. (es, l)) (check_hfunc_attrs l))"

definition get_hfunc_attrs :: "hfunc_attr list \<Rightarrow> hfunc_attr list" where
  "get_hfunc_attrs l = l"

definition remove_hfunc_attrs :: "hfunc_attr list \<Rightarrow> hfunc_attr list" where
  "remove_hfunc_attrs l = []"

end
