(* ===== verification/Hxml.thy ===== *)
theory Hxml
  imports Hartes
begin

text \<open>
  The reader of the hArtes architecture description, \<open>gcc/hxml.c\<close>: the handlers that the XML parser
  calls for start tags, end tags and text, and the queries the passes make. The parser is not part of the
  repository; the events it delivers are the input. A component that is pointed at is a position
  in the table of its kind. \<open>exit\<close> is \<open>Inl (Exit e)\<close>, and a read through \<open>NULL\<close> or a write past an
  array is \<open>Inl Fault\<close>.
\<close>

section \<open>Tables\<close>

datatype functional_component_type = GPP | FPGA | DSP
datatype memory_name_type = XREG | OTHER

record functional_component =
  f_name :: "string option"
  f_type :: functional_component_type

record bus_component =
  b_name :: "string option"
  addr_bus_width :: int
  data_bus_width :: int
  read_cycles :: int
  b_functional :: "nat list"
  b_storage :: "nat list"

record implementation =
  impl_id :: int
  start_input_xr :: int
  start_output_xr :: int

record component =
  c_name :: "string option"
  c_functional :: "nat option"
  implementations :: "implementation list"

record operation =
  o_name :: "string option"
  components :: "component list"

datatype states =
    NONE | FUNCTIONAL_COMPONENT | STORAGE_COMPONENT | BUS_COMPONENT | VBUS_COMPONENT | FUNCTIONAL_COMPONENTS
  | STORAGE_COMPONENTS | OPERATIONS | OPERATION | COMPONENT | IMPLEMENTATION | HEADERS | DATA

datatype hxml_error =
    Unexpected string
  | Not_an_integer string
  | Unknown_component string
  | Bad_type string
  | No_implementation int
  | Many_buses
  | No_bus int
  | No_input_file

datatype hxml_stop = Exit hxml_error | Fault

text \<open>\<open>current_functional_component\<close>, \<open>current_bus_component\<close>, \<open>current_operation\<close> and the like are the
  elements added last, so the last of their tables; \<open>current_component\<close> and \<open>current_implementation\<close>
  keep the places of the component and the implementation added last. \<open>h_storage\<close> is the table of storage components by name. The strings of the
  messages that do not end the program are in \<open>h_messages\<close>.\<close>

record hxml_state =
  h_functional :: "functional_component list"
  h_storage :: "string option list"
  h_buses :: "bus_component list"
  h_operations :: "operation list"
  current_component :: "(nat \<times> nat) option"
  current_implementation :: "(nat \<times> nat \<times> nat) option"
  h_state :: states
  h_data :: "string option"
  temp_functional :: "nat list"
  temp_storage :: "nat list"
  h_messages :: "string list"

definition hxml_init :: hxml_state where
  "hxml_init =
    \<lparr>h_functional = [], h_storage = [], h_buses = [], h_operations = [], current_component = None, current_implementation = None,
     h_state = NONE, h_data = None, temp_functional = [], temp_storage = [], h_messages = []\<rparr>"

text \<open>The flag \<open>stop_on_error\<close> is set and never changed.\<close>

definition stop_on_error :: bool where "stop_on_error = True"

definition fail_or :: "hxml_error \<Rightarrow> 'a \<Rightarrow> hxml_stop + 'a" where
  "fail_or e x = (if stop_on_error then Inl (Exit e) else Inr x)"

section \<open>Adding elements\<close>

definition functional_component_add :: "hxml_state \<Rightarrow> hxml_state" where
  "functional_component_add st =
    st\<lparr>h_functional := h_functional st @ [\<lparr>f_name = None, f_type = GPP\<rparr>]\<rparr>"

definition storage_component_add :: "hxml_state \<Rightarrow> hxml_state" where
  "storage_component_add st = st\<lparr>h_storage := h_storage st @ [None]\<rparr>"

definition bus_component_add :: "hxml_state \<Rightarrow> hxml_state" where
  "bus_component_add st =
    st\<lparr>h_buses := h_buses st @ [\<lparr>b_name = None, addr_bus_width = 0, data_bus_width = 0, read_cycles = 0,
                                b_functional = [], b_storage = []\<rparr>]\<rparr>"

definition operation_add :: "hxml_state \<Rightarrow> hxml_state" where
  "operation_add st = st\<lparr>h_operations := h_operations st @ [\<lparr>o_name = None, components = []\<rparr>]\<rparr>"

text \<open>A change of the last element of a table; there is none in an empty table.\<close>

definition on_last :: "('a \<Rightarrow> 'a) \<Rightarrow> 'a list \<Rightarrow> 'a list option" where
  "on_last f xs = (if xs = [] then None else Some (butlast xs @ [f (last xs)]))"

definition component_add :: "hxml_state \<Rightarrow> hxml_state option" where
  "component_add st =
    map_option
      (\<lambda>ops. st\<lparr>h_operations := ops,
                 current_component :=
                   Some (length (h_operations st) - 1, length (components (last (h_operations st))))\<rparr>)
      (on_last (\<lambda>oper. oper\<lparr>components := components oper @ [\<lparr>c_name = None, c_functional = None, implementations = []\<rparr>]\<rparr>)
        (h_operations st))"

text \<open>The component, and the implementation, at a place.\<close>

definition component_at :: "operation list \<Rightarrow> nat \<times> nat \<Rightarrow> component" where
  "component_at ops place = components (ops ! fst place) ! snd place"

definition on_component :: "(component \<Rightarrow> component) \<Rightarrow> nat \<times> nat \<Rightarrow> operation list \<Rightarrow> operation list" where
  "on_component f place ops =
    (let (i, j) = place; oper = ops ! i
     in ops[i := oper\<lparr>components := (components oper)[j := f (components oper ! j)]\<rparr>])"

definition on_implementation ::
  "(implementation \<Rightarrow> implementation) \<Rightarrow> nat \<times> nat \<times> nat \<Rightarrow> operation list \<Rightarrow> operation list" where
  "on_implementation f place ops =
    (let (i, j, k) = place
     in on_component (\<lambda>c. c\<lparr>implementations := (implementations c)[k := f (implementations c ! k)]\<rparr>) (i, j) ops)"

definition implementation_add :: "hxml_state \<Rightarrow> hxml_state option" where
  "implementation_add st =
    (case current_component st of
       None \<Rightarrow> None
     | Some (i, j) \<Rightarrow>
         Some (st\<lparr>h_operations :=
                    on_component
                      (\<lambda>c. c\<lparr>implementations :=
                               implementations c @ [\<lparr>impl_id = 0, start_input_xr = 0, start_output_xr = 0\<rparr>]\<rparr>)
                      (i, j) (h_operations st),
                  current_implementation :=
                    Some (i, j, length (implementations (component_at (h_operations st) (i, j))))\<rparr>))"

text \<open>The search by name reads the names of the elements before the one it finds; reading a missing one
  faults.\<close>

fun find_name :: "string \<Rightarrow> nat \<Rightarrow> string option list \<Rightarrow> nat option option" where
  "find_name s i [] = Some None"
| "find_name s i (n # ns) =
    (case n of
       None \<Rightarrow> None
     | Some t \<Rightarrow> if t = s then Some (Some i) else find_name s (i + 1) ns)"

definition get_functional_component :: "hxml_state \<Rightarrow> string \<Rightarrow> nat option option" where
  "get_functional_component st s = find_name s 0 (map f_name (h_functional st))"

definition get_storage_component :: "hxml_state \<Rightarrow> string \<Rightarrow> nat option option" where
  "get_storage_component st s = find_name s 0 (h_storage st)"

section \<open>Integers\<close>

text \<open>\<open>strtol\<close> with base 0 for a \<open>long\<close> of 32 bits: the value, and what follows the number, which is all of
  the string when there is no digit.\<close>

definition strtol :: "string \<Rightarrow> int \<times> string" where
  "strtol s =
    (let t = dropWhile c_space s;
         neg = (t \<noteq> [] \<and> hd t = CHR ''-'');
         u = (if t \<noteq> [] \<and> (hd t = CHR ''-'' \<or> hd t = CHR ''+'') then tl t else t);
         (base, u) = (if length u \<ge> 3 \<and> take 2 u \<in> {''0x'', ''0X''} \<and> digit_in 16 (u ! 2) \<noteq> None then (16, drop 2 u)
                      else if u \<noteq> [] \<and> hd u = CHR ''0'' then (8, u) else (10, u));
         rest = dropWhile (\<lambda>c. digit_in base c \<noteq> None) u;
         v = int (read_digits base 0 u)
     in if rest = u then (0, s)
        else (if neg then max (- v) (- (2 ^ 31)) else min v (2 ^ 31 - 1), rest))"

text \<open>The value, and whether the string is no integer. The value is stored either way.\<close>

definition convert_to_int :: "string \<Rightarrow> int \<times> bool" where
  "convert_to_int s =
    (case strtol s of (v, rest) \<Rightarrow> (v, length rest = length s \<or> dropWhile c_space rest \<noteq> []))"

section \<open>Handlers\<close>

definition in_state :: "hxml_state \<Rightarrow> states \<Rightarrow> bool" where
  "in_state st s \<longleftrightarrow> h_state st = s"

definition or_fault :: "'a option \<Rightarrow> hxml_stop + 'a" where
  "or_fault x = (case x of None \<Rightarrow> Inl Fault | Some y \<Rightarrow> Inr y)"

definition set_state :: "states \<Rightarrow> hxml_state \<Rightarrow> hxml_state" where
  "set_state s st = st\<lparr>h_state := s\<rparr>"

definition start_tag :: "string \<Rightarrow> hxml_state \<Rightarrow> hxml_stop + hxml_state" where
  "start_tag name st =
    (if name = ''FUNCTIONAL_COMPONENT'' then Inr (set_state FUNCTIONAL_COMPONENT (functional_component_add st))
     else if name = ''STORAGE_COMPONENT'' then Inr (set_state STORAGE_COMPONENT (storage_component_add st))
     else if name = ''BUS_COMPONENT'' then Inr (set_state BUS_COMPONENT (bus_component_add st))
     else if name = ''VBUS_COMPONENT'' then Inr (set_state VBUS_COMPONENT st)
     else if name = ''FUNCTIONAL_COMPONENTS'' then
       (if in_state st BUS_COMPONENT then Inr (set_state FUNCTIONAL_COMPONENTS (st\<lparr>temp_functional := []\<rparr>))
        else fail_or (Unexpected name) st)
     else if name = ''STORAGE_COMPONENTS'' then
       (if in_state st BUS_COMPONENT then Inr (set_state STORAGE_COMPONENTS (st\<lparr>temp_storage := []\<rparr>))
        else fail_or (Unexpected name) st)
     else if name = ''OPERATIONS'' then Inr (set_state OPERATIONS st)
     else if name = ''OPERATION'' then
       (if in_state st OPERATIONS then Inr (set_state OPERATION (operation_add st))
        else Inl (Exit (Unexpected name)))
     else if name = ''COMPONENT'' then
       (if in_state st OPERATION then or_fault (map_option (set_state COMPONENT) (component_add st))
        else Inl (Exit (Unexpected name)))
     else if name = ''IMPLEMENTATION'' then
       (if in_state st COMPONENT then or_fault (map_option (set_state IMPLEMENTATION) (implementation_add st))
        else Inl (Exit (Unexpected name)))
     else if name = ''HEADERS'' then Inr (set_state HEADERS st)
     else if name = ''DATA'' then Inr (set_state DATA st)
     else Inr st)"

definition startElement :: "string \<Rightarrow> hxml_state \<Rightarrow> hxml_stop + hxml_state" where
  "startElement name st = map_sum (\<lambda>e. e) (\<lambda>st. st\<lparr>h_data := None\<rparr>) (start_tag name st)"

text \<open>A width of the bus added last.\<close>

definition bus_number ::
  "string \<Rightarrow> (int \<Rightarrow> bus_component \<Rightarrow> bus_component) \<Rightarrow> string \<Rightarrow> hxml_state \<Rightarrow> hxml_stop + hxml_state" where
  "bus_number name upd text st =
    (if in_state st BUS_COMPONENT then
       (if h_buses st = [] then Inr st
        else
          (case convert_to_int text of
             (v, bad) \<Rightarrow>
               let st = st\<lparr>h_buses := butlast (h_buses st) @ [upd v (last (h_buses st))]\<rparr>
               in if bad then fail_or (Not_an_integer name) st else Inr st))
     else Inl (Exit (Unexpected name)))"

text \<open>A number of the implementation added last.\<close>

definition implementation_number ::
  "string \<Rightarrow> (int \<Rightarrow> implementation \<Rightarrow> implementation) \<Rightarrow> string \<Rightarrow> hxml_state \<Rightarrow> hxml_stop + hxml_state" where
  "implementation_number name upd text st =
    (case current_implementation st of
       None \<Rightarrow> Inr st
     | Some place \<Rightarrow>
         (case convert_to_int text of
            (v, bad) \<Rightarrow>
              let st = st\<lparr>h_operations := on_implementation (upd v) place (h_operations st)\<rparr>
              in if bad then fail_or (Not_an_integer name) st else Inr st))"

text \<open>The arrays that collect the members of a bus have 100 places.\<close>

definition end_name :: "string \<Rightarrow> hxml_state \<Rightarrow> hxml_stop + hxml_state" where
  "end_name text st =
    (case h_state st of
       FUNCTIONAL_COMPONENT \<Rightarrow>
         or_fault (map_option (\<lambda>fs. st\<lparr>h_functional := fs\<rparr>) (on_last (\<lambda>f. f\<lparr>f_name := Some text\<rparr>) (h_functional st)))
     | STORAGE_COMPONENT \<Rightarrow>
         or_fault (map_option (\<lambda>fs. st\<lparr>h_storage := fs\<rparr>) (on_last (\<lambda>f. Some text) (h_storage st)))
     | BUS_COMPONENT \<Rightarrow>
         or_fault (map_option (\<lambda>bs. st\<lparr>h_buses := bs\<rparr>) (on_last (\<lambda>b. b\<lparr>b_name := Some text\<rparr>) (h_buses st)))
     | VBUS_COMPONENT \<Rightarrow> Inr st
     | FUNCTIONAL_COMPONENTS \<Rightarrow>
         (case get_functional_component st text of
            None \<Rightarrow> Inl Fault
          | Some found \<Rightarrow>
              if length (temp_functional st) \<ge> 100 then Inl Fault
              else
                (case found of
                   None \<Rightarrow> fail_or (Unknown_component text) st
                 | Some i \<Rightarrow> Inr (st\<lparr>temp_functional := temp_functional st @ [i]\<rparr>)))
     | STORAGE_COMPONENTS \<Rightarrow>
         (case get_storage_component st text of
            None \<Rightarrow> Inl Fault
          | Some found \<Rightarrow>
              if length (temp_storage st) \<ge> 100 then Inl Fault
              else
                (case found of
                   None \<Rightarrow> fail_or (Unknown_component text) st
                 | Some i \<Rightarrow> Inr (st\<lparr>temp_storage := temp_storage st @ [i]\<rparr>)))
     | OPERATION \<Rightarrow>
         or_fault (map_option (\<lambda>ops. st\<lparr>h_operations := ops\<rparr>) (on_last (\<lambda>oper. oper\<lparr>o_name := Some text\<rparr>) (h_operations st)))
     | COMPONENT \<Rightarrow>
         (case (current_component st, get_functional_component st text) of
            (Some place, Some found) \<Rightarrow>
              let st = st\<lparr>h_operations :=
                         on_component (\<lambda>c. c\<lparr>c_name := Some text, c_functional := found\<rparr>) place (h_operations st)\<rparr>
              in if found = None then fail_or (Unknown_component text) st else Inr st
          | _ \<Rightarrow> Inl Fault)
     | HEADERS \<Rightarrow> Inr st
     | DATA \<Rightarrow> Inr st
     | _ \<Rightarrow> Inr (st\<lparr>h_messages := h_messages st @ [''NAME'']\<rparr>))"

definition end_type :: "string \<Rightarrow> hxml_state \<Rightarrow> hxml_stop + hxml_state" where
  "end_type text st =
    (case h_state st of
       FUNCTIONAL_COMPONENT \<Rightarrow>
         (case (if text = ''GPP'' then Some GPP else if text = ''FPGA'' then Some FPGA
                else if text = ''DSP'' then Some DSP else None) of
            None \<Rightarrow> fail_or (Bad_type text) st
          | Some t \<Rightarrow>
              or_fault (map_option (\<lambda>fs. st\<lparr>h_functional := fs\<rparr>) (on_last (\<lambda>f. f\<lparr>f_type := t\<rparr>) (h_functional st))))
     | STORAGE_COMPONENT \<Rightarrow> Inr st
     | BUS_COMPONENT \<Rightarrow> Inr st
     | _ \<Rightarrow> Inr (st\<lparr>h_messages := h_messages st @ [''TYPE'']\<rparr>))"

definition end_tag :: "string \<Rightarrow> string \<Rightarrow> hxml_state \<Rightarrow> hxml_stop + hxml_state" where
  "end_tag name text st =
    (if name \<in> {''FUNCTIONAL_COMPONENT'', ''STORAGE_COMPONENT'', ''BUS_COMPONENT'', ''VBUS_COMPONENT''} then
       Inr (set_state NONE st)
     else if name = ''ADDR_BUS_WIDTH'' then bus_number name (\<lambda>v b. b\<lparr>addr_bus_width := v\<rparr>) text st
     else if name = ''DATA_BUS_WIDTH'' then bus_number name (\<lambda>v b. b\<lparr>data_bus_width := v\<rparr>) text st
     else if name = ''READ_CYCLES'' then bus_number name (\<lambda>v b. b\<lparr>read_cycles := v\<rparr>) text st
     else if name = ''FUNCTIONAL_COMPONENTS'' then
       or_fault (map_option (\<lambda>bs. set_state BUS_COMPONENT (st\<lparr>h_buses := bs, temp_functional := []\<rparr>))
         (on_last (\<lambda>b. b\<lparr>b_functional := temp_functional st\<rparr>) (h_buses st)))
     else if name = ''STORAGE_COMPONENTS'' then
       or_fault (map_option (\<lambda>bs. set_state BUS_COMPONENT (st\<lparr>h_buses := bs, temp_storage := []\<rparr>))
         (on_last (\<lambda>b. b\<lparr>b_storage := temp_storage st\<rparr>) (h_buses st)))
     else if name = ''NAME'' then end_name text st
     else if name = ''OPERATION'' then Inr (set_state OPERATIONS st)
     else if name = ''COMPONENT'' then Inr (set_state OPERATION st)
     else if name = ''IMPLEMENTATION'' then Inr (set_state COMPONENT st)
     else if name = ''HEADERS'' then Inr (set_state FUNCTIONAL_COMPONENT st)
     else if name = ''ID'' then
       (if in_state st IMPLEMENTATION then implementation_number name (\<lambda>v i. i\<lparr>impl_id := v\<rparr>) text st
        else Inl (Exit (Unexpected name)))
     else if name = ''TYPE'' then end_type text st
     else if name = ''START_INPUT_XR'' then implementation_number name (\<lambda>v i. i\<lparr>start_input_xr := v\<rparr>) text st
     else if name = ''START_OUTPUT_XR'' then implementation_number name (\<lambda>v i. i\<lparr>start_output_xr := v\<rparr>) text st
     else Inr st)"

definition endElement :: "string \<Rightarrow> hxml_state \<Rightarrow> hxml_stop + hxml_state" where
  "endElement name st =
    map_sum (\<lambda>e. e) (\<lambda>st. st\<lparr>h_data := None\<rparr>)
      (end_tag name (case h_data st of None \<Rightarrow> [] | Some d \<Rightarrow> d) st)"

definition charData :: "string \<Rightarrow> hxml_state \<Rightarrow> hxml_state" where
  "charData s st = st\<lparr>h_data := Some (case h_data st of None \<Rightarrow> s | Some d \<Rightarrow> d @ s)\<rparr>"

section \<open>Reading the file\<close>

text \<open>What the parser delivers: events, and whether the document was well formed. \<open>None\<close> is a file that cannot be
  opened. The file is read once.\<close>

datatype xml_event = Start string | End string | Text string

fun handle :: "xml_event \<Rightarrow> hxml_state \<Rightarrow> hxml_stop + hxml_state" where
  "handle (Start name) st = startElement name st"
| "handle (End name) st = endElement name st"
| "handle (Text s) st = Inr (charData s st)"

fun handle_all :: "xml_event list \<Rightarrow> hxml_state \<Rightarrow> hxml_stop + hxml_state" where
  "handle_all [] st = Inr st"
| "handle_all (e # es) st = (case handle e st of Inl x \<Rightarrow> Inl x | Inr st \<Rightarrow> handle_all es st)"

definition hxml_read_xml ::
  "(xml_event list \<times> bool) option \<Rightarrow> bool \<times> hxml_state \<Rightarrow> hxml_stop + int \<times> bool \<times> hxml_state" where
  "hxml_read_xml input ist =
    (case ist of
       (initialized, st) \<Rightarrow>
         if initialized then Inr (0, initialized, st)
         else
           (case input of
              None \<Rightarrow> Inl (Exit No_input_file)
            | Some (events, well_formed) \<Rightarrow>
                (case handle_all events st of
                   Inl x \<Rightarrow> Inl x
                 | Inr st \<Rightarrow> Inr (if well_formed then 0 else 1, True, st))))"

section \<open>Queries\<close>

text \<open>The searches take the first implementation with the number in the order of the tables.\<close>

definition all_components :: "hxml_state \<Rightarrow> component list" where
  "all_components st = concat (map components (h_operations st))"

definition get_functional_component_from_implementation :: "hxml_state \<Rightarrow> int \<Rightarrow> nat option" where
  "get_functional_component_from_implementation st ident =
    (case find (\<lambda>c. ident \<in> impl_id ` set (implementations c)) (all_components st) of
       None \<Rightarrow> None
     | Some c \<Rightarrow> c_functional c)"

definition hxml_get_functional_component_type :: "hxml_state \<Rightarrow> int \<Rightarrow> hxml_stop + functional_component_type" where
  "hxml_get_functional_component_type st ident =
    (case get_functional_component_from_implementation st ident of
       Some f \<Rightarrow> Inr (f_type (h_functional st ! f))
     | None \<Rightarrow> fail_or (No_implementation ident) GPP)"

definition get_implementation :: "hxml_state \<Rightarrow> int \<Rightarrow> implementation option" where
  "get_implementation st ident =
    find (\<lambda>i. impl_id i = ident) (concat (map implementations (all_components st)))"

definition hxml_get_start_input_xr :: "hxml_state \<Rightarrow> int \<Rightarrow> hxml_stop + int" where
  "hxml_get_start_input_xr st ident =
    (case get_implementation st ident of
       Some i \<Rightarrow> Inr (start_input_xr i)
     | None \<Rightarrow> fail_or (No_implementation ident) 0)"

definition hxml_get_start_output_xr :: "hxml_state \<Rightarrow> int \<Rightarrow> hxml_stop + int" where
  "hxml_get_start_output_xr st ident =
    (case get_implementation st ident of
       Some i \<Rightarrow> Inr (start_output_xr i)
     | None \<Rightarrow> fail_or (No_implementation ident) 0)"

text \<open>The buses of a functional component: the loop over the buses with \<open>normal\<close> and \<open>xreg\<close>. Names are read up
  to the first that matches.\<close>

fun names_member :: "string option \<Rightarrow> string option list \<Rightarrow> bool option" where
  "names_member s [] = Some False"
| "names_member s (n # ns) =
    (case (n, s) of
       (Some a, Some b) \<Rightarrow> if a = b then Some True else names_member s ns
     | _ \<Rightarrow> None)"

fun bus_loop ::
  "hxml_state \<Rightarrow> string option \<Rightarrow> bus_component list \<Rightarrow> bus_component option \<Rightarrow> bus_component option
   \<Rightarrow> hxml_stop + bus_component option \<times> bus_component option" where
  "bus_loop st name [] normal xreg = Inr (normal, xreg)"
| "bus_loop st name (b # bs) normal xreg =
    (case names_member name (map (\<lambda>i. f_name (h_functional st ! i)) (b_functional b)) of
       None \<Rightarrow> Inl Fault
     | Some False \<Rightarrow> bus_loop st name bs normal xreg
     | Some True \<Rightarrow>
         if normal \<noteq> None \<and> xreg \<noteq> None \<and> stop_on_error then Inl (Exit Many_buses)
         else
           (case names_member (Some ''XREG'') (map (\<lambda>i. h_storage st ! i) (b_storage b)) of
              None \<Rightarrow> Inl Fault
            | Some True \<Rightarrow> bus_loop st name bs normal (Some b)
            | Some False \<Rightarrow> bus_loop st name bs (Some b) xreg))"

definition get_bus :: "hxml_state \<Rightarrow> int \<Rightarrow> memory_name_type \<Rightarrow> hxml_stop + bus_component option" where
  "get_bus st ident m =
    (case get_functional_component_from_implementation st ident of
       None \<Rightarrow> Inr None
     | Some f \<Rightarrow>
         (case bus_loop st (f_name (h_functional st ! f)) (h_buses st) None None of
            Inl x \<Rightarrow> Inl x
          | Inr (normal, xreg) \<Rightarrow> Inr (case m of OTHER \<Rightarrow> normal | XREG \<Rightarrow> xreg)))"

definition bus_query ::
  "(bus_component \<Rightarrow> int) \<Rightarrow> (memory_name_type \<Rightarrow> int) \<Rightarrow> hxml_state \<Rightarrow> int \<Rightarrow> memory_name_type \<Rightarrow> hxml_stop + int" where
  "bus_query field dflt st ident m =
    (case get_bus st ident m of
       Inl x \<Rightarrow> Inl x
     | Inr (Some b) \<Rightarrow> Inr (field b)
     | Inr None \<Rightarrow> fail_or (No_bus ident) (dflt m))"

definition hxml_get_addr_bus_width :: "hxml_state \<Rightarrow> int \<Rightarrow> memory_name_type \<Rightarrow> hxml_stop + int" where
  "hxml_get_addr_bus_width = bus_query addr_bus_width (\<lambda>m. case m of XREG \<Rightarrow> 10 | OTHER \<Rightarrow> 18)"

definition hxml_get_data_bus_width :: "hxml_state \<Rightarrow> int \<Rightarrow> memory_name_type \<Rightarrow> hxml_stop + int" where
  "hxml_get_data_bus_width = bus_query data_bus_width (\<lambda>m. 4)"

definition hxml_get_read_cycles :: "hxml_state \<Rightarrow> int \<Rightarrow> memory_name_type \<Rightarrow> hxml_stop + int" where
  "hxml_get_read_cycles = bus_query read_cycles (\<lambda>m. case m of XREG \<Rightarrow> 3 | OTHER \<Rightarrow> 5)"

end
