(* ===== verification/HartesSpec.thy ===== *)
theory HartesSpec
  imports Hartes
begin

text \<open>
  What the hArtes part promises: the pragma's component, number and arguments reach the passes
  through the attribute of the next function, and only that one; the list of functions for the
  signal processor has every function once; functions of different components are reported.
\<close>

section \<open>Reading back what was printed\<close>

definition plain_name :: "string \<Rightarrow> bool" where
  "plain_name s \<longleftrightarrow> s \<noteq> [] \<and> CHR '','' \<notin> set s \<and> CHR 0x0A \<notin> set s"

lemma strtok_found:
  "dropWhile (\<lambda>c. c \<in> set delims) s = t \<Longrightarrow> t \<noteq> [] \<Longrightarrow>
    strtok delims s = Some (takeWhile (\<lambda>c. c \<notin> set delims) t, tl (dropWhile (\<lambda>c. c \<notin> set delims) t))"
  by (cases t) (simp_all add: strtok_def)

lemma strtok_last:
  assumes "s \<noteq> []" "\<forall>c \<in> set s. c \<notin> set delims"
  shows "strtok delims s = Some (s, [])"
proof -
  have "dropWhile (\<lambda>c. c \<in> set delims) s = s" using assms by (cases s) auto
  moreover have "takeWhile (\<lambda>c. c \<notin> set delims) s = s" "dropWhile (\<lambda>c. c \<notin> set delims) s = []"
    using assms(2) by (auto simp: takeWhile_eq_all_conv dropWhile_eq_Nil_conv)
  ultimately show ?thesis using assms(1) strtok_found [of delims s s]
    by (simp del: dropWhile_eq_Nil_conv takeWhile_eq_all_conv)
qed

lemma strtok_first:
  assumes "s \<noteq> []" "\<forall>c \<in> set s. c \<notin> set delims" "d \<in> set delims"
  shows "strtok delims (s @ d # r) = Some (s, r)"
proof -
  have "dropWhile (\<lambda>c. c \<in> set delims) (s @ d # r) = s @ d # r" using assms(1,2) by (cases s) auto
  moreover have "takeWhile (\<lambda>c. c \<notin> set delims) (s @ d # r) = s" "dropWhile (\<lambda>c. c \<notin> set delims) (s @ d # r) = d # r"
    using assms(2,3) by (auto simp: takeWhile_append2 dropWhile_append2)
  ultimately show ?thesis using strtok_found [of delims "s @ d # r" "s @ d # r"] by simp
qed

text \<open>The attribute's string: the number, the component and the arguments, separated by commas.\<close>

definition comma_list :: "string list \<Rightarrow> string" where
  "comma_list args = concat (map (\<lambda>a. '','' @ a) args)"

lemma strtok_skip: "d \<in> set delims \<Longrightarrow> strtok delims (d # s) = strtok delims s"
  by (simp add: strtok_def)

lemma args_skip: "hartes_args (drop 1 (comma_list args)) = hartes_args (comma_list args)"
proof (cases args)
  case (Cons a as)
  then show ?thesis
    using strtok_skip [of "CHR '',''" "[CHR '','', CHR 0x0A]" "a @ comma_list as"]
    by (simp add: comma_list_def hartes_args.simps [of "CHR '','' # _"] hartes_args.simps [of "a @ _"])
qed (simp add: comma_list_def)

lemma hartes_args_list:
  "\<forall>a \<in> set args. plain_name a \<Longrightarrow> hartes_args (comma_list args) = args"
proof (induction args)
  case Nil
  then show ?case by (subst hartes_args.simps) (simp add: comma_list_def strtok_def)
next
  case (Cons a args)
  then have a: "a \<noteq> []" "\<forall>c \<in> set a. c \<notin> set [CHR '','', CHR 0x0A]" by (auto simp: plain_name_def)
  have "strtok [CHR '','', CHR 0x0A] (comma_list (a # args)) = Some (a, drop 1 (comma_list args))"
  proof (cases args)
    case Nil
    then show ?thesis using strtok_last [OF a] by (simp add: comma_list_def strtok_skip)
  next
    case (Cons b bs)
    then show ?thesis using strtok_first [OF a, of "CHR '',''"] by (simp add: comma_list_def strtok_skip)
  qed
  then show ?case using Cons args_skip by (subst hartes_args.simps) simp
qed

lemma digit_in_char: "d < b \<Longrightarrow> b \<le> 36 \<Longrightarrow> digit_in b (digit_char d) = Some d"
  by (auto simp: digit_in_def digit_char_def of_char_of Let_def)

lemma read_digits_append:
  "\<forall>c \<in> set s. digit_in b c \<noteq> None \<Longrightarrow> read_digits b v (s @ t) = read_digits b (read_digits b v s) t"
  by (induction s arbitrary: v) auto

lemma digits_in: "2 \<le> b \<Longrightarrow> b \<le> 36 \<Longrightarrow> c \<in> set (digits b n) \<Longrightarrow> digit_in b c \<noteq> None"
proof -
  assume b: "2 \<le> b" "b \<le> 36" and "c \<in> set (digits b n)"
  then have "c \<in> digit_char ` {..<b}" using set_digits [OF b(1), of n] by blast
  then obtain d where "c = digit_char d" "d < b" by blast
  then show ?thesis using digit_in_char [OF _ b(2)] by simp
qed

lemma read_digits_digits:
  assumes "2 \<le> b" "b \<le> 36"
  shows "read_digits b 0 (digits b n) = n"
proof (induction n rule: less_induct)
  case (less n)
  show ?case
  proof (cases "n < b")
    case True
    then show ?thesis using assms digit_in_char [of n b] by (simp add: digits.simps [of b n])
  next
    case False
    then have "digits b n = digits b (n div b) @ [digit_char (n mod b)]"
      using assms by (subst digits.simps) simp
    then show ?thesis
      using less.IH [of "n div b"] False assms digits_in [OF assms] digit_in_char [of "n mod b" b]
      by (simp add: read_digits_append)
  qed
qed

lemma hd_digits:
  assumes "2 \<le> b" "b \<le> 36" "0 < n"
  shows "\<exists>d. 0 < d \<and> d < b \<and> hd (digits b n) = digit_char d"
  using assms(3)
proof (induction n rule: less_induct)
  case (less n)
  show ?case
  proof (cases "n < b")
    case True
    then show ?thesis using less.prems by (simp add: digits.simps [of b n]) blast
  next
    case False
    then have "digits b n = digits b (n div b) @ [digit_char (n mod b)]"
      using assms(1) by (subst digits.simps) simp
    moreover have "0 < n div b" "n div b < n" using False assms(1) by (simp_all add: div_greater_zero_iff)
    ultimately have "hd (digits b n) = hd (digits b (n div b))" "0 < n div b" "n div b < n" by simp_all
    then show ?thesis using less.IH [of "n div b"] by simp
  qed
qed

lemma digit_char_code: "d < 10 \<Longrightarrow> (of_char (digit_char d) :: nat) = 48 + d"
  by (simp add: digit_char_def of_char_of)

lemma digit_chars:
  assumes "c \<in> set (digits 10 n)"
  shows "\<not> c_space c" "c \<noteq> CHR ''-''" "c \<noteq> CHR ''+''" "c \<noteq> CHR '',''" "c \<noteq> CHR 0x0A" "c \<noteq> CHR ''x''" "c \<noteq> CHR ''X''"
proof -
  have "c \<in> digit_char ` {..<10}" using set_digits [of 10 n] assms by auto
  then obtain d where "c = digit_char d" "d < 10" by blast
  then have n: "48 \<le> (of_char c :: nat) \<and> (of_char c :: nat) < 58" using digit_char_code by simp
  have ne: "c \<noteq> k" if "(of_char k :: nat) < 48 \<or> 58 \<le> (of_char k :: nat)" for k using n that by auto
  show "\<not> c_space c" by (auto simp: c_space_def dest!: arg_cong [where f = "\<lambda>c. of_char c :: nat"]) (use n in auto)
  show "c \<noteq> CHR ''-''" "c \<noteq> CHR ''+''" "c \<noteq> CHR '',''" "c \<noteq> CHR 0x0A" "c \<noteq> CHR ''x''" "c \<noteq> CHR ''X''"
    by (rule ne, simp)+
qed

lemma digits_not_hex: "take 2 (digits 10 n) \<notin> {''0x'', ''0X''}"
proof
  let ?s = "digits 10 n"
  assume "take 2 ?s \<in> {''0x'', ''0X''}"
  then have "CHR ''x'' \<in> set (take 2 ?s) \<or> CHR ''X'' \<in> set (take 2 ?s)" by auto
  then have "CHR ''x'' \<in> set ?s \<or> CHR ''X'' \<in> set ?s" using set_take_subset [of 2 ?s] by blast
  then show False using digit_chars(6,7) by blast
qed

lemma digits_leading_zero: "hd (digits 10 n) = CHR ''0'' \<Longrightarrow> n = 0"
proof (rule ccontr)
  assume h: "hd (digits 10 n) = CHR ''0''" and "n \<noteq> 0"
  then obtain d where "0 < d" "d < 10" "hd (digits 10 n) = digit_char d" using hd_digits [of 10 n] by auto
  with h show False using digit_char_code [of d] by (auto dest: arg_cong [where f = "\<lambda>c. of_char c :: nat"])
qed

lemma strtoul_digits:
  assumes "n < 2 ^ 32" "pre = [] \<or> pre = ''-''"
  shows "strtoul (pre @ digits 10 n) = (if pre = [] then of_nat n else - of_nat n)"
proof -
  let ?s = "digits 10 n"
  have hd: "hd ?s \<in> set ?s" by simp
  have t: "dropWhile c_space (pre @ ?s) = pre @ ?s"
    using assms(2) digit_chars(1) [OF hd] by (cases ?s) (auto simp: c_space_def)
  have u: "(if pre @ ?s \<noteq> [] \<and> (hd (pre @ ?s) = CHR ''-'' \<or> hd (pre @ ?s) = CHR ''+'') then tl (pre @ ?s) else pre @ ?s) = ?s"
    using assms(2) digit_chars(2,3) [OF hd] by auto
  have neg: "(pre @ ?s \<noteq> [] \<and> hd (pre @ ?s) = CHR ''-'') = (pre \<noteq> [])"
    using assms(2) digit_chars(2) [OF hd] by auto
  have nx: "take 2 ?s \<notin> {''0x'', ''0X''}" by (rule digits_not_hex)
  have oct: "(if ?s \<noteq> [] \<and> hd ?s = CHR ''0'' then read_digits 8 0 ?s else read_digits 10 0 ?s) = n"
  proof (cases "n = 0")
    case True
    then show ?thesis by (simp add: digits.simps [of 10 0] digit_in_def)
  next
    case False
    then have "hd ?s \<noteq> CHR ''0''" using digits_leading_zero by blast
    then show ?thesis using read_digits_digits [of 10 n] by simp
  qed
  show ?thesis
    unfolding strtoul_def Let_def t u neg using nx oct assms(1) by simp
qed

lemma strtoul_dec:
  assumes "in_hwi n"
  shows "strtoul (dec n) = word_of_int n"
proof (cases "n < 0")
  case True
  then have "nat (- n) < 2 ^ 32" using assms by (simp add: in_hwi_def)
  then have "strtoul (dec n) = - of_nat (nat (- n))"
    using strtoul_digits [of "nat (- n)" "''-''"] True by (simp add: dec_def)
  moreover have "int (nat (- n)) = - n" using True by simp
  then have "(of_nat (nat (- n)) :: 32 word) = word_of_int (- n)" by (metis of_int_of_nat_eq)
  ultimately show ?thesis by simp
next
  case False
  then have "nat n < 2 ^ 32" using assms by (simp add: in_hwi_def)
  then have "strtoul (dec n) = of_nat (nat n)"
    using strtoul_digits [of "nat n" "[]"] False by (simp add: dec_def)
  then show ?thesis using False by simp
qed

lemma dec_plain: "plain_name (dec n)"
  using digit_chars(4,5) by (auto simp: plain_name_def dec_def)

lemma sint_of_hwi: "in_hwi n \<Longrightarrow> sint (word_of_int n :: 32 word) = n"
  by (simp add: in_hwi_def signed_take_bit_int_eq_self sint_sbintrunc')

lemma get_params_list:
  assumes "in_hwi n" "plain_name c" "\<forall>a \<in> set args. plain_name a"
    and "fits 256 (dec n @ comma_list (c # args))"
  shows "hartes_call_hw_get_params (Some (dec n @ comma_list (c # args))) ident0 cname0
    = Some (word_of_int n, Some c, args)"
proof -
  have d: "dec n \<noteq> []" "\<forall>x \<in> set (dec n). x \<notin> set '',''" using dec_plain [of n] by (auto simp: plain_name_def)
  have c: "c \<noteq> []" "\<forall>x \<in> set c. x \<notin> set '',''" using assms(2) by (auto simp: plain_name_def)
  have 1: "strtok '','' (dec n @ comma_list (c # args)) = Some (dec n, c @ comma_list args)"
    using strtok_first [OF d, of "CHR '',''" "c @ comma_list args"] by (simp add: comma_list_def)
  have 2: "strtok '','' (c @ comma_list args) = Some (c, drop 1 (comma_list args))"
    using strtok_first [OF c, of "CHR '',''"] strtok_last [OF c] by (cases args) (simp_all add: comma_list_def)
  have 3: "hartes_args (drop 1 (comma_list args)) = args"
    using args_skip [of args] hartes_args_list [OF assms(3)] by simp
  show ?thesis
    using assms(4) 1 2 3 strtoul_dec [OF assms(1)] by (simp add: hartes_call_hw_get_params_def)
qed

section \<open>From the pragma to the call\<close>

definition call_hw_tokens :: "string \<Rightarrow> int \<Rightarrow> string list \<Rightarrow> pragma_token list" where
  "call_hw_tokens c n args = [CPP_NAME ''call_hw'', CPP_NAME c, CPP_NUMBER n] @ map CPP_NAME args"

text \<open>Without arguments nothing is printed into the array it is read from.\<close>

lemma pragma_accepted:
  assumes "fits 256 (dec n @ comma_list [c])"
  shows "microblaze_pragma_call_hw overlap (call_hw_tokens c n []) st =
    (if call_hw_tree st = None
     then Some ([], st\<lparr>call_hw_comp := Some c, comp_name := c, comp_id := n, call_hw_tree := Some (dec n @ comma_list [c])\<rparr>)
     else None)"
proof -
  have "fits 256 c" using assms by (simp add: fits_def comma_list_def)
  then show ?thesis using assms
    by (simp add: microblaze_pragma_call_hw_def call_hw_tokens_def comma_list_def)
qed

lemma is_call_hw [simp]:
  "is_attribute_p ''call_hw'' ''call_hw'' = Some True" "is_attribute_p ''call_hw'' ''weakref'' = Some False"
  by code_simp+

lemma lookup_appended:
  "lookup_attribute ''call_hw'' attrs = Some [] \<Longrightarrow>
    lookup_attribute ''call_hw'' (attrs @ [(''call_hw'', s)]) = Some [(''call_hw'', s)]"
  by (induction attrs) (auto split: option.splits if_splits)

lemma include_some:
  assumes "length f < 1000" "dspconf \<noteq> Some []"
  shows "\<exists>r. microblaze_include_dspfunc f dspconf = Some r"
  using assms by (auto simp: microblaze_include_dspfunc_def include_line_def fits_def Let_def split: option.splits)

text \<open>An accepted \<open>#pragma map call_hw\<close> without arguments gives the next function declaration the attribute
  \<open>call_hw\<close>, with the number and the component. The function becomes an external,
  weak reference exactly when the component is the signal processor, and the pragma is spent.\<close>

lemma pragma_reaches_call:
  assumes "fits 256 (dec n @ comma_list [c])"
    and "call_hw_tree st = None" "d_code decl = FUNCTION_DECL" "1 \<le> optimize"
    and "lookup_attribute ''call_hw'' attrs = Some []" "length (d_name decl) < 400" "dspconf \<noteq> Some []"
  shows "\<exists>st1 st2 decl' attrs' dspconf'.
    microblaze_pragma_call_hw overlap (call_hw_tokens c n []) st = Some ([], st1)
    \<and> microblaze_insert_attributes optimize st1 decl attrs dspconf = Some ([], st2, decl', attrs', dspconf')
    \<and> lookup_attribute ''call_hw'' attrs' = Some [(''call_hw'', dec n @ comma_list [c])]
    \<and> (DECL_EXTERNAL decl' \<longleftrightarrow> DECL_EXTERNAL decl \<or> microblaze_check_dsp c)
    \<and> (\<forall>d a f. microblaze_insert_attributes optimize st2 d a f = Some ([], st2, d, a, f))"
proof -
  let ?s = "dec n @ comma_list [c]"
  let ?st1 = "st\<lparr>call_hw_comp := Some c, comp_name := c, comp_id := n, call_hw_tree := Some ?s\<rparr>"
  let ?st2 = "?st1\<lparr>call_hw_tree := None, call_hw_comp := None\<rparr>"
  have pragma: "microblaze_pragma_call_hw overlap (call_hw_tokens c n []) st = Some ([], ?st1)"
    using pragma_accepted [OF assms(1)] assms(2) by simp
  have spent: "microblaze_insert_attributes optimize ?st2 d a f = Some ([], ?st2, d, a, f)" for d a f
    by (cases "d_code d") (simp_all add: microblaze_insert_attributes_def)
  have found: "lookup_attribute ''call_hw'' (attrs @ [(''call_hw'', ?s)]) = Some [(''call_hw'', ?s)]"
    by (rule lookup_appended [OF assms(5)])
  obtain r where r: "microblaze_include_dspfunc (d_name decl) dspconf = Some r"
    using include_some [of "d_name decl" dspconf] assms(6,7) by auto
  have fit: "fits 512 (d_name decl @ ''__magic_text__'')" using assms(6) by (simp add: fits_def)
  show ?thesis
  proof (cases "microblaze_check_dsp c")
    case True
    then have "microblaze_insert_attributes optimize ?st1 decl attrs dspconf = Some ([], ?st2,
        decl\<lparr>DECL_EXTERNAL := True, TREE_PUBLIC := False\<rparr>,
        (''weakref'', d_name decl @ ''__magic_text__'') # attrs @ [(''call_hw'', ?s)], r)"
      using assms(3,4) r fit by (simp add: microblaze_insert_attributes_def Let_def)
    then show ?thesis using pragma spent found True by fastforce
  next
    case False
    then have "microblaze_insert_attributes optimize ?st1 decl attrs dspconf =
        Some ([], ?st2, decl, attrs @ [(''call_hw'', ?s)], dspconf)"
      using assms(3,4) by (simp add: microblaze_insert_attributes_def Let_def)
    then show ?thesis using pragma spent found False by blast
  qed
qed

text \<open>While one pragma is pending, a second one is fatal: a well-formed one fails the
  assertion, and one without a component is reported as ignored but takes the
  pending pragma's component away, so that the next function declaration uses a null identifier.\<close>

theorem second_pragma_breaks:
  assumes "call_hw_tree st = Some s"
  shows "(fits 256 (dec n @ comma_list [c]) \<longrightarrow> microblaze_pragma_call_hw overlap (call_hw_tokens c n []) st = None)
    \<and> (\<exists>st'. microblaze_pragma_call_hw overlap [CPP_NAME ''call_hw'', CPP_OTHER] st
          = Some ([Missing_component, Ignoring_pragma], st')
        \<and> microblaze_insert_attributes optimize st' (decl\<lparr>d_code := FUNCTION_DECL\<rparr>) attrs dspconf = None)"
  using assms pragma_accepted [of n c overlap st]
  by (auto simp: microblaze_pragma_call_hw_def microblaze_insert_attributes_def Let_def)

lemma second_pragma_breaks_witness:
  "microblaze_pragma_call_hw (\<lambda>s n. s @ '','' @ n) (call_hw_tokens ''DSP'' 1 [])
      \<lparr>call_hw_tree = Some ''2,DSP'', call_hw_comp = Some ''DSP'', comp_name = ''DSP'', comp_id = 2\<rparr> = None"
proof -
  have "fits 256 (dec 1 @ comma_list [''DSP''])" by code_simp
  then show ?thesis
    using second_pragma_breaks [of "\<lparr>call_hw_tree = Some ''2,DSP'', call_hw_comp = Some ''DSP'', comp_name = ''DSP'', comp_id = 2\<rparr>"
        "''2,DSP''" 1 "''DSP''" "\<lambda>s n. s @ '','' @ n"] by simp
qed

section \<open>The functions for the signal processor\<close>

definition dspconf_of :: "string list \<Rightarrow> string" where
  "dspconf_of fs = concat (map include_line fs)"

definition short_line :: "string \<Rightarrow> bool" where
  "short_line f \<longleftrightarrow> CHR 0x0A \<notin> set f \<and> length f < 1000"

lemma fgets_line:
  assumes "CHR 0x0A \<notin> set l" "length l + 1 < n"
  shows "fgets n (l @ CHR 0x0A # rest) = (l @ [CHR 0x0A], rest)"
proof -
  obtain k where k: "n = Suc (length l + Suc k)"
    using assms(2) by (intro that [of "n - 1 - Suc (length l)"]) simp
  have "take (n - 1) (l @ CHR 0x0A # rest) = l @ CHR 0x0A # take k rest" by (simp add: k)
  moreover have "takeWhile (\<lambda>c. c \<noteq> CHR 0x0A) (l @ CHR 0x0A # take k rest) = l"
    using assms(1) by (induction l) auto
  ultimately show ?thesis by (simp add: fgets_def)
qed

lemma fgets_include:
  assumes "short_line f"
  shows "fgets 1024 (include_line f @ rest) = (include_line f, rest)"
  using fgets_line [of "''_include '' @ f" 1024 rest] assms by (simp add: include_line_def short_line_def)

lemma include_line_inject [simp]: "include_line f = include_line g \<longleftrightarrow> f = g"
  by (simp add: include_line_def)

lemma has_line_list:
  "\<forall>g \<in> set fs. short_line g \<Longrightarrow> has_line (include_line f) (dspconf_of fs) \<longleftrightarrow> f \<in> set fs"
proof (induction fs)
  case Nil
  then show ?case by (subst has_line.simps) (simp add: dspconf_of_def)
next
  case (Cons g gs)
  have "dspconf_of (g # gs) = include_line g @ dspconf_of gs" "dspconf_of (g # gs) \<noteq> []"
    by (simp_all add: dspconf_of_def include_line_def)
  then show ?case
    using Cons fgets_include [of g "dspconf_of gs"] by (subst has_line.simps) auto
qed

text \<open>C33. The file for the signal processor's loader has one line for every function that was
  ever included, in the order they were first included: including a function again leaves the file
  alone, a new one is appended, and a missing file is created.\<close>

theorem dspconf_lists_functions:
  assumes "\<forall>g \<in> set fs. short_line g" "short_line f" "fs \<noteq> []"
  shows "microblaze_include_dspfunc f (Some (dspconf_of fs))
      = Some (Some (dspconf_of (if f \<in> set fs then fs else fs @ [f])))
    \<and> microblaze_include_dspfunc f None = Some (Some (dspconf_of [f]))"
proof -
  have "fits 1024 (include_line f)" using assms(2) by (simp add: fits_def include_line_def short_line_def)
  moreover have "dspconf_of fs \<noteq> []" using assms(3) by (cases fs) (simp_all add: dspconf_of_def include_line_def)
  moreover have "dspconf_of (fs @ [f]) = dspconf_of fs @ include_line f" by (simp add: dspconf_of_def)
  moreover have "dspconf_of [f] = include_line f" by (simp add: dspconf_of_def)
  ultimately show ?thesis
    using has_line_list [OF assms(1), of f] by (simp add: microblaze_include_dspfunc_def Let_def)
qed

lemma dspconf_lists_functions_witness:
  "microblaze_include_dspfunc ''fft'' (Some (dspconf_of [''fir'', ''fft''])) = Some (Some (dspconf_of [''fir'', ''fft'']))"
proof -
  have "\<forall>g \<in> set [''fir'', ''fft'']. short_line g" "short_line ''fft''" by (simp_all add: short_line_def)
  then show ?thesis using dspconf_lists_functions [of "[''fir'', ''fft'']" "''fft''"] by simp
qed

section \<open>Hardware functions\<close>

fun add_hfunc_attrs :: "hfunc_attr list \<Rightarrow> hfunc_attr list \<Rightarrow> (hfunc_error list \<times> hfunc_attr list) option" where
  "add_hfunc_attrs [] l = Some ([], l)"
| "add_hfunc_attrs (x # xs) l =
    (case add_hfunc_attr x l of
       None \<Rightarrow> None
     | Some (es, l) \<Rightarrow> map_option (\<lambda>(es', l). (es @ es', l)) (add_hfunc_attrs xs l))"

definition same_function :: "hfunc_attr \<Rightarrow> hfunc_attr \<Rightarrow> bool" where
  "same_function x y \<longleftrightarrow> h_compname x = h_compname y \<and> h_id x = h_id y"

lemma same_sym: "same_function x y \<longleftrightarrow> same_function y x"
  by (simp add: same_function_def eq_commute)

lemma same_step: "same_function x y \<Longrightarrow> same_function y z \<longleftrightarrow> same_function x z"
  by (simp add: same_function_def)

lemma add_after_head:
  "\<exists>es. add_hfunc_attrs xs (h # t) = Some (es, if xs = [] then h # t else take 2 (rev xs @ [h]))
    \<and> (es = [] \<longleftrightarrow> (\<forall>x \<in> set xs. same_function h x))"
proof (induction xs arbitrary: h t)
  case (Cons x xs)
  obtain es where es: "add_hfunc_attrs xs [x, h] = Some (es, if xs = [] then [x, h] else take 2 (rev xs @ [x]))"
    "es = [] \<longleftrightarrow> (\<forall>y \<in> set xs. same_function x y)"
    using Cons.IH [of x "[h]"] by auto
  have l: "(if xs = [] then [x, h] else take 2 (rev xs @ [x])) = take 2 (rev (x # xs) @ [h])"
    by (cases "rev xs") (auto simp: take_Cons')
  obtain es0 where a: "add_hfunc_attr x (h # t) = Some (es0, [x, h])" "es0 = [] \<longleftrightarrow> same_function x h"
    by (auto simp: add_hfunc_attr_def check_hfunc_attrs_def same_function_def Let_def)
  have "add_hfunc_attrs (x # xs) (h # t) = Some (es0 @ es, take 2 (rev (x # xs) @ [h]))"
    using es(1) a(1) l by simp
  moreover have "es0 @ es = [] \<longleftrightarrow> same_function h x \<and> (\<forall>y \<in> set xs. same_function x y)"
    using es(2) a(2) same_sym [of x h] by simp
  moreover have "same_function h x \<and> (\<forall>y \<in> set xs. same_function x y) \<longleftrightarrow> (\<forall>y \<in> set (x # xs). same_function h y)"
    using same_step [of h x] by auto
  ultimately show ?case by simp
qed simp

text \<open>However many functions with attributes are added, the list keeps only the last two; an
  error is still reported exactly when the functions added are not all for the same
  component with the same number, because each is compared with its predecessor.\<close>

theorem hfunc_mixing_reported:
  "\<exists>es. add_hfunc_attrs (x # xs) [] = Some (es, take 2 (rev (x # xs)))
    \<and> (es = [] \<longleftrightarrow> (\<forall>y \<in> set xs. same_function x y))"
proof -
  have a: "add_hfunc_attr x [] = Some ([], [x])"
    by (simp add: add_hfunc_attr_def check_hfunc_attrs_def)
  obtain es where "add_hfunc_attrs xs [x] = Some (es, if xs = [] then [x] else take 2 (rev xs @ [x]))"
    "es = [] \<longleftrightarrow> (\<forall>y \<in> set xs. same_function x y)"
    using add_after_head [of xs x "[]"] by auto
  then show ?thesis using a by simp
qed

lemma hfunc_mixing_reported_witness:
  "add_hfunc_attrs [\<lparr>h_compname = ''DSP'', h_id = 1, argname = None, h_size = 4, h_type = 0\<rparr>] []
    = Some ([], [\<lparr>h_compname = ''DSP'', h_id = 1, argname = None, h_size = 4, h_type = 0\<rparr>])"
  using hfunc_mixing_reported [of "\<lparr>h_compname = ''DSP'', h_id = 1, argname = None, h_size = 4, h_type = 0\<rparr>" "[]"] by simp

end
