(* ===== verification/HxmlSpec.thy ===== *)
theory HxmlSpec
  imports Hxml HartesSpec
begin

text \<open>
  What the reader of the architecture description promises: whatever the parser delivers, the tables it
  builds can be searched without a fault; and the description of a machine, written as a document, is read
  back as it was.
\<close>

section \<open>References between the tables\<close>

definition named :: "functional_component list \<Rightarrow> nat \<Rightarrow> bool" where
  "named fs i \<longleftrightarrow> i < length fs \<and> f_name (fs ! i) \<noteq> None"

definition stored :: "string option list \<Rightarrow> nat \<Rightarrow> bool" where
  "stored ss i \<longleftrightarrow> i < length ss \<and> ss ! i \<noteq> None"

definition component_ok :: "functional_component list \<Rightarrow> component \<Rightarrow> bool" where
  "component_ok fs c \<longleftrightarrow> (\<forall>i. c_functional c = Some i \<longrightarrow> named fs i)"

definition bus_ok :: "functional_component list \<Rightarrow> string option list \<Rightarrow> bus_component \<Rightarrow> bool" where
  "bus_ok fs ss b \<longleftrightarrow> (\<forall>i\<in>set (b_functional b). named fs i) \<and> (\<forall>i\<in>set (b_storage b). stored ss i)"

definition place_ok :: "operation list \<Rightarrow> nat \<times> nat \<Rightarrow> bool" where
  "place_ok ops p \<longleftrightarrow> fst p < length ops \<and> snd p < length (components (ops ! fst p))"

text \<open>Every reference leads to an element of its table that has a name, and the places of the current component
  and implementation are places of the tables.\<close>

definition hxml_ok :: "hxml_state \<Rightarrow> bool" where
  "hxml_ok st \<longleftrightarrow>
    (\<forall>b\<in>set (h_buses st). bus_ok (h_functional st) (h_storage st) b)
    \<and> (\<forall>i\<in>set (temp_functional st). named (h_functional st) i)
    \<and> (\<forall>i\<in>set (temp_storage st). stored (h_storage st) i)
    \<and> (\<forall>c\<in>set (all_components st). component_ok (h_functional st) c)
    \<and> (\<forall>p. current_component st = Some p \<longrightarrow> place_ok (h_operations st) p)
    \<and> (\<forall>i j k. current_implementation st = Some (i, j, k) \<longrightarrow> place_ok (h_operations st) (i, j)
          \<and> k < length (implementations (component_at (h_operations st) (i, j))))"

lemma hxml_ok_init: "hxml_ok hxml_init"
  by (simp add: hxml_ok_def hxml_init_def all_components_def)

text \<open>Tables only grow, and names are never taken away.\<close>

definition extends :: "functional_component list \<Rightarrow> functional_component list \<Rightarrow> bool" where
  "extends fs fs' \<longleftrightarrow> (\<forall>i. named fs i \<longrightarrow> named fs' i)"

definition storage_extends :: "string option list \<Rightarrow> string option list \<Rightarrow> bool" where
  "storage_extends ss ss' \<longleftrightarrow> (\<forall>i. stored ss i \<longrightarrow> stored ss' i)"

lemma extends_refl [simp]: "extends fs fs" "storage_extends ss ss"
  by (simp_all add: extends_def storage_extends_def)

lemma extends_append [simp]: "extends fs (fs @ xs)" "storage_extends ss (ss @ ys)"
  by (auto simp: extends_def named_def storage_extends_def stored_def nth_append)

lemma on_last_nth:
  assumes "on_last f xs = Some ys"
  shows "length ys = length xs" "i < length xs \<Longrightarrow> ys ! i = (if i = length xs - 1 then f (xs ! i) else xs ! i)"
proof -
  have ne: "xs \<noteq> []" and ys: "ys = butlast xs @ [f (last xs)]"
    using assms by (auto simp: on_last_def split: if_splits)
  show "length ys = length xs" using ne by (simp add: ys)
  show "ys ! i = (if i = length xs - 1 then f (xs ! i) else xs ! i)" if "i < length xs"
    using ne that by (auto simp: ys nth_append nth_butlast last_conv_nth)
qed

lemma extends_on_last:
  assumes "on_last f fs = Some fs'" "\<And>x. f_name x \<noteq> None \<Longrightarrow> f_name (f x) \<noteq> None"
  shows "extends fs fs'"
  using assms by (simp add: extends_def named_def on_last_nth)

lemma storage_extends_on_last:
  assumes "on_last f ss = Some ss'" "\<And>x. f x \<noteq> None"
  shows "storage_extends ss ss'"
  using assms by (simp add: storage_extends_def stored_def on_last_nth)

lemma find_name_found:
  "find_name s k ns = Some (Some i) \<Longrightarrow> k \<le> i \<and> i - k < length ns \<and> ns ! (i - k) = Some s"
proof (induction ns arbitrary: k)
  case (Cons n ns)
  show ?case
  proof (cases n)
    case (Some t)
    show ?thesis
    proof (cases "t = s")
      case False
      with Cons.prems Some have "find_name s (k + 1) ns = Some (Some i)" by simp
      from Cons.IH [OF this] have ih: "k + 1 \<le> i" "i - (k + 1) < length ns" "ns ! (i - (k + 1)) = Some s" by auto
      then have "i - k = Suc (i - (k + 1))" by linarith
      with ih show ?thesis by simp
    qed (use Cons.prems Some in simp)
  qed (use Cons.prems in simp)
qed simp

lemma get_functional_named: "get_functional_component st s = Some (Some i) \<Longrightarrow> named (h_functional st) i"
  unfolding get_functional_component_def named_def by (drule find_name_found) auto

lemma get_storage_stored: "get_storage_component st s = Some (Some i) \<Longrightarrow> stored (h_storage st) i"
  unfolding get_storage_component_def stored_def by (drule find_name_found) auto

section \<open>The invariant\<close>

text \<open>A step that keeps the operations.\<close>

lemma hxml_ok_keep:
  assumes "hxml_ok st" "extends (h_functional st) (h_functional st')" "storage_extends (h_storage st) (h_storage st')"
    and "\<forall>b\<in>set (h_buses st'). b \<in> set (h_buses st) \<or> bus_ok (h_functional st') (h_storage st') b"
    and "\<forall>i\<in>set (temp_functional st'). i \<in> set (temp_functional st) \<or> named (h_functional st') i"
    and "\<forall>i\<in>set (temp_storage st'). i \<in> set (temp_storage st) \<or> stored (h_storage st') i"
    and "h_operations st' = h_operations st" "current_component st' = current_component st"
      "current_implementation st' = current_implementation st"
  shows "hxml_ok st'"
  using assms unfolding hxml_ok_def
proof (intro conjI)
  show "\<forall>b\<in>set (h_buses st'). bus_ok (h_functional st') (h_storage st') b"
    using assms(1-4) by (auto simp: hxml_ok_def bus_ok_def extends_def storage_extends_def)
qed (auto simp: all_components_def component_ok_def extends_def storage_extends_def)

text \<open>A step that changes only the operations.\<close>

lemma hxml_ok_operations:
  assumes "hxml_ok st" and "h_functional st' = h_functional st" "h_storage st' = h_storage st" "h_buses st' = h_buses st"
      "temp_functional st' = temp_functional st" "temp_storage st' = temp_storage st"
    and "\<forall>c\<in>set (all_components st'). component_ok (h_functional st) c"
    and "\<And>p. current_component st' = Some p \<Longrightarrow> place_ok (h_operations st') p"
    and "\<And>i j k. current_implementation st' = Some (i, j, k) \<Longrightarrow> place_ok (h_operations st') (i, j)
          \<and> k < length (implementations (component_at (h_operations st') (i, j)))"
  shows "hxml_ok st'"
  using assms unfolding hxml_ok_def by simp

lemma on_component_shape:
  assumes "place_ok ops p"
  shows "length (on_component f p ops) = length ops"
    "i < length ops \<Longrightarrow> length (components (on_component f p ops ! i)) = length (components (ops ! i))"
    "place_ok ops q \<Longrightarrow> component_at (on_component f p ops) q = (if q = p then f (component_at ops q) else component_at ops q)"
  using assms by (cases p; cases q; auto simp: on_component_def place_ok_def component_at_def Let_def nth_list_update)+

lemma set_on_component:
  assumes "place_ok ops p"
  shows "set (concat (map components (on_component f p ops)))
    \<subseteq> insert (f (component_at ops p)) (set (concat (map components ops)))"
proof -
  obtain i j where p: "p = (i, j)" by (cases p)
  have i: "i < length ops" "j < length (components (ops ! i))" using assms by (simp_all add: place_ok_def p)
  then have c: "set ((components (ops ! i))[j := f (components (ops ! i) ! j)])
      \<subseteq> insert (f (component_at ops p)) (set (components (ops ! i)))"
    using set_update_subset_insert [of "components (ops ! i)" j] by (simp add: component_at_def p)
  have "set (on_component f p ops) \<subseteq>
      insert ((ops ! i)\<lparr>components := (components (ops ! i))[j := f (components (ops ! i) ! j)]\<rparr>) (set ops)"
    using set_update_subset_insert [of ops i] by (simp add: on_component_def p Let_def)
  with c i show ?thesis by (fastforce dest: nth_mem)
qed

lemma place_ok_on_component:
  "place_ok ops p \<Longrightarrow> place_ok (on_component f p ops) q = place_ok ops q"
  using on_component_shape(1) [of ops p f] on_component_shape(2) [of ops p _ f] by (auto simp: place_ok_def)

lemma hxml_ok_on_component:
  assumes ok: "hxml_ok st" and p: "place_ok (h_operations st) p"
    and f: "\<And>c. component_ok (h_functional st) c \<Longrightarrow> component_ok (h_functional st) (f c)"
      "\<And>c. length (implementations c) \<le> length (implementations (f c))"
  shows "hxml_ok (st\<lparr>h_operations := on_component f p (h_operations st)\<rparr>)"
proof (rule hxml_ok_operations [OF ok])
  have "component_at (h_operations st) p \<in> set (all_components st)"
    using p unfolding place_ok_def component_at_def all_components_def set_concat set_map
    by (intro UN_I [OF imageI [OF nth_mem [of "fst p"]]] nth_mem) simp_all
  then have "component_ok (h_functional st) (f (component_at (h_operations st) p))"
    using ok f(1) by (simp add: hxml_ok_def)
  then show "\<forall>c\<in>set (all_components (st\<lparr>h_operations := on_component f p (h_operations st)\<rparr>)).
      component_ok (h_functional st) c"
    using ok set_on_component [OF p, of f] by (auto simp: hxml_ok_def all_components_def)
qed (use ok f(2) on_component_shape(3) [OF p] place_ok_on_component [OF p] in
    \<open>auto simp: hxml_ok_def intro: less_le_trans\<close>)

text \<open>Opening tags.\<close>

lemma all_components_append:
  "all_components (st\<lparr>h_operations := ops @ [oper]\<rparr>) = concat (map components ops) @ components oper"
  by (simp add: all_components_def)

lemma place_ok_append: "place_ok ops p \<Longrightarrow> place_ok (ops @ xs) p"
  and component_at_append: "place_ok ops p \<Longrightarrow> component_at (ops @ xs) p = component_at ops p"
  by (auto simp: place_ok_def component_at_def nth_append)

lemma hxml_ok_operation_add: "hxml_ok st \<Longrightarrow> hxml_ok (operation_add st)"
  by (rule hxml_ok_operations)
    (auto simp: operation_add_def hxml_ok_def all_components_def place_ok_append component_at_append)

lemma hxml_ok_component_add:
  assumes ok: "hxml_ok st" and st': "component_add st = Some st'"
  shows "hxml_ok st'"
proof -
  let ?new = "\<lparr>c_name = None, c_functional = None, implementations = []\<rparr>"
  obtain ops oper where ops: "h_operations st = ops @ [oper]"
    using st' by (cases "h_operations st" rule: rev_cases) (auto simp: component_add_def on_last_def)
  let ?ops = "ops @ [oper\<lparr>components := components oper @ [?new]\<rparr>]"
  have e: "st' = st\<lparr>h_operations := ?ops, current_component := Some (length ops, length (components oper))\<rparr>"
    using st' by (simp add: component_add_def on_last_def ops)
  have grow: "place_ok ?ops p \<and> component_at ?ops p = component_at (ops @ [oper]) p" if "place_ok (ops @ [oper]) p" for p
    using that by (auto simp: place_ok_def component_at_def nth_append)
  have last: "place_ok ?ops (length ops, length (components oper))" by (simp add: place_ok_def)
  show ?thesis
    by (rule hxml_ok_operations [OF ok])
      (use ok grow last in \<open>auto simp: e hxml_ok_def all_components_def ops component_ok_def\<close>)
qed

lemma hxml_ok_place:
  assumes "hxml_ok st" "place_ok (h_operations st) (i, j)"
    "k < length (implementations (component_at (h_operations st) (i, j)))"
  shows "hxml_ok (st\<lparr>current_implementation := Some (i, j, k)\<rparr>)"
  using assms by (simp add: hxml_ok_def all_components_def)

lemma hxml_ok_implementation_add:
  assumes ok: "hxml_ok st" and st': "implementation_add st = Some st'"
  shows "hxml_ok st'"
proof -
  obtain i j where p: "current_component st = Some (i, j)"
    using st' by (auto simp: implementation_add_def split: option.splits)
  then have pl: "place_ok (h_operations st) (i, j)" using ok by (simp add: hxml_ok_def)
  let ?f = "\<lambda>c. c\<lparr>implementations := implementations c @ [\<lparr>impl_id = 0, start_input_xr = 0, start_output_xr = 0\<rparr>]\<rparr>"
  let ?st = "st\<lparr>h_operations := on_component ?f (i, j) (h_operations st)\<rparr>"
  have "hxml_ok ?st" by (rule hxml_ok_on_component [OF ok pl]) (simp_all add: component_ok_def)
  then have "hxml_ok (?st\<lparr>current_implementation :=
      Some (i, j, length (implementations (component_at (h_operations st) (i, j))))\<rparr>)"
    by (rule hxml_ok_place) (simp_all add: place_ok_on_component [OF pl] pl on_component_shape(3) [OF pl pl])
  then show ?thesis using st' p by (simp add: implementation_add_def)
qed

lemma hxml_ok_set_state [simp]:
  "hxml_ok (set_state s st) = hxml_ok st" "hxml_ok (st\<lparr>h_data := d\<rparr>) = hxml_ok st"
  "hxml_ok (st\<lparr>h_messages := ms\<rparr>) = hxml_ok st"
  by (simp_all add: hxml_ok_def set_state_def all_components_def)

lemma hxml_ok_startElement:
  assumes ok: "hxml_ok st" and st': "startElement name st = Inr st'"
  shows "hxml_ok st'"
proof -
  have add: "hxml_ok (functional_component_add st)" "hxml_ok (storage_component_add st)" "hxml_ok (bus_component_add st)"
    "hxml_ok (st\<lparr>temp_functional := []\<rparr>)" "hxml_ok (st\<lparr>temp_storage := []\<rparr>)"
    by (rule hxml_ok_keep [OF ok];
        simp add: functional_component_add_def storage_component_add_def bus_component_add_def bus_ok_def)+
  obtain st1 where st1: "start_tag name st = Inr st1" "st' = st1\<lparr>h_data := None\<rparr>"
    using st' by (cases "start_tag name st") (auto simp: startElement_def)
  have "hxml_ok st1"
    using st1(1) add ok hxml_ok_operation_add [OF ok] hxml_ok_component_add [OF ok] hxml_ok_implementation_add [OF ok]
    by (auto simp: start_tag_def fail_or_def or_fault_def stop_on_error_def split: if_splits option.splits)
  with st1 show ?thesis by simp
qed

text \<open>Closing tags.\<close>

lemma fail_or_Inr [simp]: "fail_or e x \<noteq> Inr y" "fail_or e x = Inl (Exit e)"
  by (simp_all add: fail_or_def stop_on_error_def)

lemma or_fault_Inr: "or_fault x = Inr y \<longleftrightarrow> x = Some y"
  by (cases x) (simp_all add: or_fault_def)

lemma on_last_members: "on_last f xs = Some ys \<Longrightarrow> y \<in> set ys \<Longrightarrow> y \<in> set xs \<or> (\<exists>x\<in>set xs. y = f x)"
  by (auto simp: on_last_def split: if_splits dest: in_set_butlastD)

lemma hxml_ok_buses:
  assumes ok: "hxml_ok st" and bs: "on_last f (h_buses st) = Some bs"
    and f: "\<And>b. bus_ok (h_functional st) (h_storage st) b \<Longrightarrow> bus_ok (h_functional st) (h_storage st) (f b)"
  shows "hxml_ok (st\<lparr>h_buses := bs\<rparr>)"
proof (rule hxml_ok_keep [OF ok])
  show "\<forall>b\<in>set (h_buses (st\<lparr>h_buses := bs\<rparr>)). b \<in> set (h_buses st)
      \<or> bus_ok (h_functional (st\<lparr>h_buses := bs\<rparr>)) (h_storage (st\<lparr>h_buses := bs\<rparr>)) b"
  proof
    fix b assume "b \<in> set (h_buses (st\<lparr>h_buses := bs\<rparr>))"
    then have "b \<in> set (h_buses st) \<or> (\<exists>x\<in>set (h_buses st). b = f x)" using on_last_members [OF bs] by simp
    moreover have "bus_ok (h_functional st) (h_storage st) (f x)" if "x \<in> set (h_buses st)" for x
      using ok f that by (simp add: hxml_ok_def)
    ultimately show "b \<in> set (h_buses st)
      \<or> bus_ok (h_functional (st\<lparr>h_buses := bs\<rparr>)) (h_storage (st\<lparr>h_buses := bs\<rparr>)) b" by auto
  qed
qed simp_all

lemma hxml_ok_bus_number:
  assumes ok: "hxml_ok st" and st': "bus_number name upd text st = Inr st'"
    and upd: "\<And>v b. b_functional (upd v b) = b_functional b \<and> b_storage (upd v b) = b_storage b"
  shows "hxml_ok st'"
proof (cases "h_buses st = []")
  case False
  then have "\<exists>v. st' = st\<lparr>h_buses := butlast (h_buses st) @ [upd v (last (h_buses st))]\<rparr>"
    using st' by (auto simp: bus_number_def Let_def split: if_splits prod.splits)
  then show ?thesis using hxml_ok_buses [OF ok] False upd by (auto simp: on_last_def bus_ok_def)
qed (use ok st' in \<open>auto simp: bus_number_def split: if_splits\<close>)

lemma hxml_ok_implementation_number:
  assumes ok: "hxml_ok st" and st': "implementation_number name upd text st = Inr st'"
  shows "hxml_ok st'"
proof (cases "current_implementation st")
  case (Some place)
  obtain i j k where ijk: "place = (i, j, k)" by (cases place) auto
  have pl: "place_ok (h_operations st) (i, j)" using ok Some ijk by (simp add: hxml_ok_def)
  obtain v where e: "st' = st\<lparr>h_operations := on_implementation (upd v) place (h_operations st)\<rparr>"
    using st' Some by (auto simp: implementation_number_def Let_def split: if_splits prod.splits)
  show ?thesis unfolding e ijk on_implementation_def Let_def prod.case
    by (rule hxml_ok_on_component [OF ok pl]) (simp_all add: component_ok_def)
qed (use ok st' in \<open>simp add: implementation_number_def\<close>)

lemma hxml_ok_functional:
  assumes ok: "hxml_ok st" and fs: "on_last f (h_functional st) = Some fs" "\<And>x. f_name x \<noteq> None \<Longrightarrow> f_name (f x) \<noteq> None"
  shows "hxml_ok (st\<lparr>h_functional := fs\<rparr>)"
  by (rule hxml_ok_keep [OF ok]) (use extends_on_last [OF fs] in simp_all)

lemma hxml_ok_storage:
  assumes ok: "hxml_ok st" and fs: "on_last f (h_storage st) = Some ss" "\<And>x. f x \<noteq> None"
  shows "hxml_ok (st\<lparr>h_storage := ss\<rparr>)"
  by (rule hxml_ok_keep [OF ok]) (use storage_extends_on_last [OF fs] in simp_all)

lemma hxml_ok_operation_name:
  assumes ok: "hxml_ok st" and ops: "on_last (\<lambda>oper. oper\<lparr>o_name := Some text\<rparr>) (h_operations st) = Some ops"
  shows "hxml_ok (st\<lparr>h_operations := ops\<rparr>)"
proof -
  have n: "length ops = length (h_operations st)"
    "\<And>i. i < length (h_operations st) \<Longrightarrow> components (ops ! i) = components (h_operations st ! i)"
    using on_last_nth [OF ops] by simp_all
  then have "map components ops = map components (h_operations st)" by (simp add: list_eq_iff_nth_eq)
  then have all: "all_components (st\<lparr>h_operations := ops\<rparr>) = all_components st" by (simp add: all_components_def)
  have place: "place_ok ops p = place_ok (h_operations st) p" for p using n by (auto simp: place_ok_def)
  have at: "component_at ops p = component_at (h_operations st) p" if "place_ok (h_operations st) p" for p
    using n that by (simp add: place_ok_def component_at_def)
  show ?thesis
  proof (rule hxml_ok_operations [OF ok])
    fix i j k assume "current_implementation (st\<lparr>h_operations := ops\<rparr>) = Some (i, j, k)"
    then have "place_ok (h_operations st) (i, j) \<and> k < length (implementations (component_at (h_operations st) (i, j)))"
      using ok by (simp add: hxml_ok_def)
    then show "place_ok (h_operations (st\<lparr>h_operations := ops\<rparr>)) (i, j)
        \<and> k < length (implementations (component_at (h_operations (st\<lparr>h_operations := ops\<rparr>)) (i, j)))"
      by (simp add: place at)
  qed (use ok place all in \<open>simp_all add: hxml_ok_def\<close>)
qed

lemma hxml_ok_end_name:
  assumes ok: "hxml_ok st" and st': "end_name text st = Inr st'"
  shows "hxml_ok st'"
proof (cases "h_state st")
  case FUNCTIONAL_COMPONENT
  with st' show ?thesis using hxml_ok_functional [OF ok] by (auto simp: end_name_def or_fault_Inr)
next
  case STORAGE_COMPONENT
  with st' show ?thesis using hxml_ok_storage [OF ok] by (auto simp: end_name_def or_fault_Inr)
next
  case BUS_COMPONENT
  with st' show ?thesis using hxml_ok_buses [OF ok] by (auto simp: end_name_def or_fault_Inr bus_ok_def)
next
  case FUNCTIONAL_COMPONENTS
  with st' obtain i where "get_functional_component st text = Some (Some i)" "st' = st\<lparr>temp_functional := temp_functional st @ [i]\<rparr>"
    by (auto simp: end_name_def split: option.splits if_splits)
  with get_functional_named show ?thesis by (intro hxml_ok_keep [OF ok]) auto
next
  case STORAGE_COMPONENTS
  with st' obtain i where "get_storage_component st text = Some (Some i)" "st' = st\<lparr>temp_storage := temp_storage st @ [i]\<rparr>"
    by (auto simp: end_name_def split: option.splits if_splits)
  with get_storage_stored show ?thesis by (intro hxml_ok_keep [OF ok]) auto
next
  case OPERATION
  with st' show ?thesis using hxml_ok_operation_name [OF ok] by (auto simp: end_name_def or_fault_Inr)
next
  case COMPONENT
  with st' obtain p i where p: "current_component st = Some p" "get_functional_component st text = Some (Some i)"
    "st' = st\<lparr>h_operations := on_component (\<lambda>c. c\<lparr>c_name := Some text, c_functional := Some i\<rparr>) p (h_operations st)\<rparr>"
    by (auto simp: end_name_def Let_def split: option.splits if_splits)
  then have pl: "place_ok (h_operations st) p" using ok by (simp add: hxml_ok_def)
  show ?thesis unfolding p(3)
    by (rule hxml_ok_on_component [OF ok pl]) (simp_all add: component_ok_def get_functional_named [OF p(2)])
qed (use ok st' in \<open>auto simp: end_name_def\<close>)

lemma hxml_ok_end_type:
  assumes ok: "hxml_ok st" and st': "end_type text st = Inr st'"
  shows "hxml_ok st'"
proof (cases "h_state st = FUNCTIONAL_COMPONENT")
  case True
  then obtain t fs where "on_last (\<lambda>f. f\<lparr>f_type := t\<rparr>) (h_functional st) = Some fs" "st' = st\<lparr>h_functional := fs\<rparr>"
    using st' by (auto simp: end_type_def or_fault_Inr split: option.splits)
  with hxml_ok_functional [OF ok] show ?thesis by auto
qed (use ok st' in \<open>auto simp: end_type_def split: states.splits\<close>)

lemma hxml_ok_members:
  assumes ok: "hxml_ok st"
  shows "on_last (\<lambda>b. b\<lparr>b_functional := temp_functional st\<rparr>) (h_buses st) = Some bs \<Longrightarrow>
      hxml_ok (set_state s (st\<lparr>h_buses := bs, temp_functional := []\<rparr>))"
    "on_last (\<lambda>b. b\<lparr>b_storage := temp_storage st\<rparr>) (h_buses st) = Some bs \<Longrightarrow>
      hxml_ok (set_state s (st\<lparr>h_buses := bs, temp_storage := []\<rparr>))"
proof -
  have t: "\<forall>i\<in>set (temp_functional st). named (h_functional st) i" "\<forall>i\<in>set (temp_storage st). stored (h_storage st) i"
    using ok by (simp_all add: hxml_ok_def)
  show "hxml_ok (set_state s (st\<lparr>h_buses := bs, temp_functional := []\<rparr>))"
    if b: "on_last (\<lambda>b. b\<lparr>b_functional := temp_functional st\<rparr>) (h_buses st) = Some bs"
    using hxml_ok_keep [OF hxml_ok_buses [OF ok b], of "st\<lparr>h_buses := bs, temp_functional := []\<rparr>"] t
    by (simp add: bus_ok_def)
  show "hxml_ok (set_state s (st\<lparr>h_buses := bs, temp_storage := []\<rparr>))"
    if b: "on_last (\<lambda>b. b\<lparr>b_storage := temp_storage st\<rparr>) (h_buses st) = Some bs"
    using hxml_ok_keep [OF hxml_ok_buses [OF ok b], of "st\<lparr>h_buses := bs, temp_storage := []\<rparr>"] t
    by (simp add: bus_ok_def)
qed

lemma hxml_ok_endElement:
  assumes ok: "hxml_ok st" and st': "endElement name st = Inr st'"
  shows "hxml_ok st'"
proof -
  let ?text = "case h_data st of None \<Rightarrow> [] | Some d \<Rightarrow> d"
  obtain st1 where st1: "end_tag name ?text st = Inr st1" "st' = st1\<lparr>h_data := None\<rparr>"
    using st' by (cases "end_tag name ?text st") (auto simp: endElement_def)
  have b1: "hxml_ok st1" if "bus_number n (\<lambda>v b. b\<lparr>addr_bus_width := v\<rparr>) t st = Inr st1" for n t
    by (rule hxml_ok_bus_number [OF ok that]) simp
  have b2: "hxml_ok st1" if "bus_number n (\<lambda>v b. b\<lparr>data_bus_width := v\<rparr>) t st = Inr st1" for n t
    by (rule hxml_ok_bus_number [OF ok that]) simp
  have b3: "hxml_ok st1" if "bus_number n (\<lambda>v b. b\<lparr>read_cycles := v\<rparr>) t st = Inr st1" for n t
    by (rule hxml_ok_bus_number [OF ok that]) simp
  have "hxml_ok st1"
    using st1(1) ok hxml_ok_implementation_number [OF ok] hxml_ok_end_name [OF ok] hxml_ok_end_type [OF ok]
      hxml_ok_members [OF ok]
    by (auto simp: end_tag_def or_fault_Inr dest: b1 b2 b3 split: if_splits)
  with st1 show ?thesis by simp
qed

lemma hxml_ok_handle_all:
  "hxml_ok st \<Longrightarrow> handle_all es st = Inr st' \<Longrightarrow> hxml_ok st'"
proof (induction es arbitrary: st)
  case (Cons e es)
  then obtain st1 where st1: "handle e st = Inr st1" "handle_all es st1 = Inr st'"
    by (auto split: sum.splits)
  have "hxml_ok st1"
  proof (cases e)
    case (Start n)
    with st1(1) hxml_ok_startElement [OF Cons.prems(1)] show ?thesis by simp
  next
    case (End n)
    with st1(1) hxml_ok_endElement [OF Cons.prems(1)] show ?thesis by simp
  next
    case (Text s)
    with st1(1) Cons.prems(1) show ?thesis by (auto simp: charData_def)
  qed
  with Cons.IH st1(2) show ?case by blast
qed simp

section \<open>Searches do not fault\<close>

lemma names_member_Some:
  "\<forall>n\<in>set ns. n \<noteq> None \<Longrightarrow> \<exists>r. names_member (Some s) ns = Some r"
  by (induction ns) auto

lemma bus_loop_safe:
  assumes "\<forall>b\<in>set bs. bus_ok (h_functional st) (h_storage st) b"
  shows "bus_loop st (Some s) bs normal xreg \<noteq> Inl Fault"
  using assms
proof (induction bs arbitrary: normal xreg)
  case (Cons b bs)
  have "\<exists>r. names_member (Some s) (map (\<lambda>i. f_name (h_functional st ! i)) (b_functional b)) = Some r"
    "\<exists>r. names_member (Some ''XREG'') (map (\<lambda>i. h_storage st ! i) (b_storage b)) = Some r"
    using Cons.prems by (intro names_member_Some; simp add: bus_ok_def named_def stored_def)+
  then obtain r q where
    "names_member (Some s) (map (\<lambda>i. f_name (h_functional st ! i)) (b_functional b)) = Some r"
    "names_member (Some ''XREG'') (map (\<lambda>i. h_storage st ! i) (b_storage b)) = Some q" by blast
  with Cons show ?case by (cases r; cases q) auto
qed simp

lemma find_member: "find P xs = Some x \<Longrightarrow> x \<in> set xs \<and> P x"
  by (auto simp: find_Some_iff)

text \<open>C29. Whatever elements and text the XML parser delivers, once the handlers have taken them without ending the
  program, every search of the passes answers or reports an unknown number: none reads through a missing
  name or a missing component.\<close>

theorem hxml_queries_safe:
  assumes "handle_all events hxml_init = Inr st"
  shows "hxml_ok st \<and> hxml_get_functional_component_type st ident \<noteq> Inl Fault
    \<and> hxml_get_start_input_xr st ident \<noteq> Inl Fault \<and> hxml_get_start_output_xr st ident \<noteq> Inl Fault
    \<and> hxml_get_addr_bus_width st ident m \<noteq> Inl Fault \<and> hxml_get_data_bus_width st ident m \<noteq> Inl Fault
    \<and> hxml_get_read_cycles st ident m \<noteq> Inl Fault"
proof -
  have ok: "hxml_ok st" using hxml_ok_handle_all [OF hxml_ok_init assms] .
  have "get_bus st ident m \<noteq> Inl Fault"
  proof (cases "get_functional_component_from_implementation st ident")
    case (Some f)
    then obtain c where "c \<in> set (all_components st)" "c_functional c = Some f"
      by (auto simp: get_functional_component_from_implementation_def split: option.splits dest: find_member)
    then have "named (h_functional st) f" using ok by (auto simp: hxml_ok_def component_ok_def)
    then obtain s where "f_name (h_functional st ! f) = Some s" by (auto simp: named_def)
    moreover have "bus_loop st (Some s) (h_buses st) None None \<noteq> Inl Fault"
      using ok by (intro bus_loop_safe) (simp add: hxml_ok_def)
    ultimately show ?thesis using Some by (auto simp: get_bus_def split: sum.splits)
  qed (simp add: get_bus_def)
  then have "hxml_get_addr_bus_width st ident m \<noteq> Inl Fault" "hxml_get_data_bus_width st ident m \<noteq> Inl Fault"
    "hxml_get_read_cycles st ident m \<noteq> Inl Fault"
    by (auto simp: hxml_get_addr_bus_width_def hxml_get_data_bus_width_def hxml_get_read_cycles_def bus_query_def
        split: sum.splits option.splits)
  with ok show ?thesis
    by (simp add: hxml_get_functional_component_type_def hxml_get_start_input_xr_def hxml_get_start_output_xr_def
        split: option.splits)
qed

lemma hxml_queries_safe_witness:
  "handle_all [Start ''OPERATIONS'', Text ''x''] hxml_init = Inr (hxml_init\<lparr>h_state := OPERATIONS, h_data := Some ''x''\<rparr>)
    \<and> hxml_get_start_input_xr (hxml_init\<lparr>h_state := OPERATIONS, h_data := Some ''x''\<rparr>) 3 \<noteq> Inl Fault"
proof -
  have run: "handle_all [Start ''OPERATIONS'', Text ''x''] hxml_init
      = Inr (hxml_init\<lparr>h_state := OPERATIONS, h_data := Some ''x''\<rparr>)"
    by (simp add: startElement_def start_tag_def set_state_def charData_def hxml_init_def)
  from hxml_queries_safe [OF this] run show ?thesis by blast
qed

end
