(* ===== verification/HxmlRead.thy ===== *)
theory HxmlRead
  imports HxmlSpec
begin

text \<open>
  Descriptions of machines written as documents and read back by the handlers of \<open>gcc/hxml.c\<close>.
\<close>

section \<open>Integers\<close>

lemma strtol_digits:
  assumes "pre = [] \<or> pre = ''-''" "n < 2 ^ 31"
  shows "strtol (pre @ digits 10 n) = (if pre = [] then int n else - int n, [])"
proof -
  let ?s = "digits 10 n"
  have hd: "hd ?s \<in> set ?s" by simp
  have t: "dropWhile c_space (pre @ ?s) = pre @ ?s"
    using assms(1) digit_chars(1) [OF hd] by (cases ?s) (auto simp: c_space_def)
  have u: "(if pre @ ?s \<noteq> [] \<and> (hd (pre @ ?s) = CHR ''-'' \<or> hd (pre @ ?s) = CHR ''+'') then tl (pre @ ?s) else pre @ ?s) = ?s"
    using assms(1) digit_chars(2,3) [OF hd] by auto
  have neg: "(pre @ ?s \<noteq> [] \<and> hd (pre @ ?s) = CHR ''-'') = (pre \<noteq> [])"
    using assms(1) digit_chars(2) [OF hd] by auto
  obtain b where b: "(if ?s \<noteq> [] \<and> hd ?s = CHR ''0'' then (8, ?s) else (10::nat, ?s)) = (b, ?s)"
    "read_digits b 0 ?s = n" "dropWhile (\<lambda>c. digit_in b c \<noteq> None) ?s = []"
  proof (cases "hd ?s = CHR ''0''")
    case True
    then have "n = 0" by (rule digits_leading_zero)
    then have "?s = ''0''" by (simp add: digits.simps [of 10 0])
    then show thesis using that [of 8] \<open>n = 0\<close> by (simp add: digit_in_def)
  next
    case False
    then show thesis using that [of 10] read_digits_digits [of 10 n] digits_in [of 10] by simp
  qed
  have "(dropWhile (\<lambda>c. digit_in b c \<noteq> None) ?s = ?s) = False" using b(3) digits_nonempty [of 10 n] by metis
  then show ?thesis unfolding strtol_def Let_def t u neg using digits_not_hex [of n] b assms
    by (simp del: not_None_eq dropWhile_eq_Nil_conv)
qed

lemma convert_dec:
  assumes "- (2 ^ 31) < v" "v < 2 ^ 31"
  shows "convert_to_int (dec v) = (v, False)"
proof (cases "v < 0")
  case True
  then show ?thesis using assms strtol_digits [of "''-''" "nat (- v)"] by (simp add: convert_to_int_def dec_def)
next
  case False
  then show ?thesis using assms strtol_digits [of "[]" "nat v"] by (simp add: convert_to_int_def dec_def)
qed

section \<open>Documents\<close>

record bus_description =
  bd_name :: string
  bd_addr :: int
  bd_data :: int
  bd_read :: int
  bd_functional :: "string list"
  bd_storage :: "string list"

record machine =
  m_functional :: "(string \<times> functional_component_type) list"
  m_storage :: "string list"
  m_buses :: "bus_description list"
  m_operations :: "(string \<times> (string \<times> implementation list) list) list"

text \<open>The parser may deliver a text in several pieces.\<close>

definition tag :: "string \<Rightarrow> xml_event list \<Rightarrow> xml_event list" where
  "tag n es = Start n # es @ [End n]"

definition leaf :: "(string \<Rightarrow> string list) \<Rightarrow> string \<Rightarrow> string \<Rightarrow> xml_event list" where
  "leaf pieces n s = tag n (map Text (pieces s))"

fun type_text :: "functional_component_type \<Rightarrow> string" where
  "type_text GPP = ''GPP''"
| "type_text FPGA = ''FPGA''"
| "type_text DSP = ''DSP''"

definition functional_xml :: "(string \<Rightarrow> string list) \<Rightarrow> string \<times> functional_component_type \<Rightarrow> xml_event list" where
  "functional_xml pieces f =
    tag ''FUNCTIONAL_COMPONENT'' (leaf pieces ''NAME'' (fst f) @ leaf pieces ''TYPE'' (type_text (snd f)))"

definition storage_xml :: "(string \<Rightarrow> string list) \<Rightarrow> string \<Rightarrow> xml_event list" where
  "storage_xml pieces s = tag ''STORAGE_COMPONENT'' (leaf pieces ''NAME'' s)"

definition bus_xml :: "(string \<Rightarrow> string list) \<Rightarrow> bus_description \<Rightarrow> xml_event list" where
  "bus_xml pieces b =
    tag ''BUS_COMPONENT''
      (leaf pieces ''NAME'' (bd_name b) @ leaf pieces ''ADDR_BUS_WIDTH'' (dec (bd_addr b))
       @ leaf pieces ''DATA_BUS_WIDTH'' (dec (bd_data b)) @ leaf pieces ''READ_CYCLES'' (dec (bd_read b))
       @ tag ''FUNCTIONAL_COMPONENTS'' (concat (map (leaf pieces ''NAME'') (bd_functional b)))
       @ tag ''STORAGE_COMPONENTS'' (concat (map (leaf pieces ''NAME'') (bd_storage b))))"

definition implementation_xml :: "(string \<Rightarrow> string list) \<Rightarrow> implementation \<Rightarrow> xml_event list" where
  "implementation_xml pieces i =
    tag ''IMPLEMENTATION''
      (leaf pieces ''ID'' (dec (impl_id i)) @ leaf pieces ''START_INPUT_XR'' (dec (start_input_xr i))
       @ leaf pieces ''START_OUTPUT_XR'' (dec (start_output_xr i)))"

definition component_xml :: "(string \<Rightarrow> string list) \<Rightarrow> string \<times> implementation list \<Rightarrow> xml_event list" where
  "component_xml pieces c =
    tag ''COMPONENT'' (leaf pieces ''NAME'' (fst c) @ concat (map (implementation_xml pieces) (snd c)))"

definition operation_xml ::
  "(string \<Rightarrow> string list) \<Rightarrow> string \<times> (string \<times> implementation list) list \<Rightarrow> xml_event list" where
  "operation_xml pieces oper =
    tag ''OPERATION'' (leaf pieces ''NAME'' (fst oper) @ concat (map (component_xml pieces) (snd oper)))"

definition machine_xml :: "(string \<Rightarrow> string list) \<Rightarrow> machine \<Rightarrow> xml_event list" where
  "machine_xml pieces m =
    tag ''ARCHITECTURE''
      (concat (map (functional_xml pieces) (m_functional m)) @ concat (map (storage_xml pieces) (m_storage m))
       @ concat (map (bus_xml pieces) (m_buses m))
       @ tag ''OPERATIONS'' (concat (map (operation_xml pieces) (m_operations m))))"

section \<open>The tables of a machine\<close>

text \<open>The first element with a name.\<close>

definition index_of :: "string list \<Rightarrow> string \<Rightarrow> nat" where
  "index_of ns n = length (takeWhile (\<lambda>m. m \<noteq> n) ns)"

definition functional_table :: "machine \<Rightarrow> functional_component list" where
  "functional_table m = map (\<lambda>f. \<lparr>f_name = Some (fst f), f_type = snd f\<rparr>) (m_functional m)"

definition bus_entry :: "string list \<Rightarrow> string list \<Rightarrow> bus_description \<Rightarrow> bus_component" where
  "bus_entry fs ss b =
    \<lparr>b_name = Some (bd_name b), addr_bus_width = bd_addr b, data_bus_width = bd_data b, read_cycles = bd_read b,
     b_functional = map (index_of fs) (bd_functional b), b_storage = map (index_of ss) (bd_storage b)\<rparr>"

definition component_entry :: "string list \<Rightarrow> string \<times> implementation list \<Rightarrow> component" where
  "component_entry fs c = \<lparr>c_name = Some (fst c), c_functional = Some (index_of fs (fst c)), implementations = snd c\<rparr>"

definition operation_entry :: "string list \<Rightarrow> string \<times> (string \<times> implementation list) list \<Rightarrow> operation" where
  "operation_entry fs oper = \<lparr>o_name = Some (fst oper), components = map (component_entry fs) (snd oper)\<rparr>"

definition fits_int :: "int \<Rightarrow> bool" where
  "fits_int v \<longleftrightarrow> - (2 ^ 31) < v \<and> v < 2 ^ 31"

definition impl_ok :: "implementation \<Rightarrow> bool" where
  "impl_ok i \<longleftrightarrow> fits_int (impl_id i) \<and> fits_int (start_input_xr i) \<and> fits_int (start_output_xr i)"

definition bus_valid :: "machine \<Rightarrow> bus_description \<Rightarrow> bool" where
  "bus_valid m b \<longleftrightarrow> fits_int (bd_addr b) \<and> fits_int (bd_data b) \<and> fits_int (bd_read b)
    \<and> set (bd_functional b) \<subseteq> fst ` set (m_functional m) \<and> set (bd_storage b) \<subseteq> set (m_storage m)
    \<and> length (bd_functional b) \<le> 100 \<and> length (bd_storage b) \<le> 100"

definition machine_valid :: "machine \<Rightarrow> bool" where
  "machine_valid m \<longleftrightarrow> (\<forall>b\<in>set (m_buses m). bus_valid m b)
    \<and> (\<forall>oper\<in>set (m_operations m). \<forall>c\<in>set (snd oper).
         fst c \<in> fst ` set (m_functional m) \<and> (\<forall>i\<in>set (snd c). impl_ok i))"

section \<open>Running the handlers\<close>

lemma handle_all_append:
  "handle_all (xs @ ys) st = (case handle_all xs st of Inl e \<Rightarrow> Inl e | Inr st' \<Rightarrow> handle_all ys st')"
  by (induction xs arbitrary: st) (auto split: sum.splits)

lemma handle_text:
  "handle_all (map Text ss) (st\<lparr>h_data := Some d\<rparr>) = Inr (st\<lparr>h_data := Some (d @ concat ss)\<rparr>)"
  by (induction ss arbitrary: d) (simp_all add: charData_def)

lemma handle_text_first:
  assumes "h_data st = None"
  shows "\<exists>d. handle_all (map Text ss) st = Inr (st\<lparr>h_data := d\<rparr>)
    \<and> (case d of None \<Rightarrow> [] | Some t \<Rightarrow> t) = concat ss"
proof (cases ss)
  case Nil
  with assms show ?thesis by (intro exI [of _ None]) simp
next
  case (Cons s ss')
  with assms handle_text [of ss' s st] show ?thesis
    by (intro exI [of _ "Some (s @ concat ss')"]) (simp add: charData_def)
qed

lemma start_tag_leaf:
  "start_tag ''NAME'' st = Inr st"
  "start_tag ''TYPE'' st = Inr st"
  "start_tag ''ID'' st = Inr st"
  "start_tag ''START_INPUT_XR'' st = Inr st"
  "start_tag ''START_OUTPUT_XR'' st = Inr st"
  "start_tag ''ADDR_BUS_WIDTH'' st = Inr st"
  "start_tag ''DATA_BUS_WIDTH'' st = Inr st"
  "start_tag ''READ_CYCLES'' st = Inr st"
  "start_tag ''ARCHITECTURE'' st = Inr st"
  by (simp_all add: start_tag_def)

lemma end_tags:
  "end_tag ''NAME'' t st = end_name t st" "end_tag ''TYPE'' t st = end_type t st"
  "end_tag ''ADDR_BUS_WIDTH'' t st = bus_number ''ADDR_BUS_WIDTH'' (\<lambda>v b. b\<lparr>addr_bus_width := v\<rparr>) t st"
  "end_tag ''DATA_BUS_WIDTH'' t st = bus_number ''DATA_BUS_WIDTH'' (\<lambda>v b. b\<lparr>data_bus_width := v\<rparr>) t st"
  "end_tag ''READ_CYCLES'' t st = bus_number ''READ_CYCLES'' (\<lambda>v b. b\<lparr>read_cycles := v\<rparr>) t st"
  "in_state st IMPLEMENTATION \<Longrightarrow>
    end_tag ''ID'' t st = implementation_number ''ID'' (\<lambda>v i. i\<lparr>impl_id := v\<rparr>) t st"
  "end_tag ''START_INPUT_XR'' t st = implementation_number ''START_INPUT_XR'' (\<lambda>v i. i\<lparr>start_input_xr := v\<rparr>) t st"
  "end_tag ''START_OUTPUT_XR'' t st = implementation_number ''START_OUTPUT_XR'' (\<lambda>v i. i\<lparr>start_output_xr := v\<rparr>) t st"
  by (simp_all add: end_tag_def)

text \<open>The steps do not look at the collected text other than through their argument.\<close>

definition quiet :: "(hxml_state \<Rightarrow> hxml_stop + hxml_state) \<Rightarrow> hxml_state \<Rightarrow> hxml_state \<Rightarrow> bool" where
  "quiet f st st' \<longleftrightarrow> (\<forall>d. f (st\<lparr>h_data := d\<rparr>) = Inr (st'\<lparr>h_data := d\<rparr>))"

text \<open>The events lead from one state to another, apart from collected text.\<close>

definition reads :: "xml_event list \<Rightarrow> hxml_state \<Rightarrow> hxml_state \<Rightarrow> bool" where
  "reads es st st' \<longleftrightarrow> handle_all es (st\<lparr>h_data := None\<rparr>) = Inr (st'\<lparr>h_data := None\<rparr>)"

lemma reads_append: "reads xs st1 st2 \<Longrightarrow> reads ys st2 st3 \<Longrightarrow> reads (xs @ ys) st1 st3"
  by (simp add: reads_def handle_all_append)

lemma reads_concat:
  assumes "\<And>ys x zs. xs = ys @ x # zs \<Longrightarrow> reads (f x) (s ys) (s (ys @ [x]))"
  shows "reads (concat (map f xs)) (s []) (s xs)"
  using assms
proof (induction xs rule: rev_induct)
  case (snoc x xs)
  have "reads (concat (map f xs)) (s []) (s xs)" by (rule snoc.IH) (use snoc.prems in simp)
  moreover have "reads (f x) (s xs) (s (xs @ [x]))" by (rule snoc.prems [of xs x "[]"]) simp
  ultimately show ?case using reads_append by simp
qed (simp add: reads_def)

lemma reads_tag:
  assumes "quiet (start_tag n) st st1" "reads es st1 st2" "quiet (end_tag n []) st2 st3"
  shows "reads (tag n es) st st3"
  using assms by (simp add: reads_def tag_def quiet_def handle_all_append startElement_def endElement_def)

definition splits :: "(string \<Rightarrow> string list) \<Rightarrow> bool" where
  "splits pieces \<longleftrightarrow> (\<forall>s. concat (pieces s) = s)"

lemma reads_leaf:
  assumes p: "splits pieces" and q: "quiet (start_tag n) st st" "quiet (end_tag n s) st st'"
  shows "reads (leaf pieces n s) st st'"
proof -
  let ?st = "st\<lparr>h_data := None\<rparr>"
  have s: "startElement n ?st = Inr ?st" using q(1) by (simp add: startElement_def quiet_def)
  from handle_text_first [of ?st "pieces s"] obtain d where
    d: "handle_all (map Text (pieces s)) ?st = Inr (st\<lparr>h_data := d\<rparr>)" "(case d of None \<Rightarrow> [] | Some t \<Rightarrow> t) = s"
    using p by (auto simp: splits_def)
  have "endElement n (st\<lparr>h_data := d\<rparr>) = Inr (st'\<lparr>h_data := None\<rparr>)"
    using q(2) d(2) by (simp add: endElement_def quiet_def)
  then show ?thesis using s d(1) by (simp add: reads_def leaf_def tag_def handle_all_append)
qed

lemma quiet_leaf:
  "quiet (start_tag ''NAME'') st st" "quiet (start_tag ''TYPE'') st st" "quiet (start_tag ''ID'') st st"
  "quiet (start_tag ''START_INPUT_XR'') st st" "quiet (start_tag ''START_OUTPUT_XR'') st st"
  "quiet (start_tag ''ADDR_BUS_WIDTH'') st st" "quiet (start_tag ''DATA_BUS_WIDTH'') st st"
  "quiet (start_tag ''READ_CYCLES'') st st" "quiet (start_tag ''ARCHITECTURE'') st st"
  by (simp_all add: quiet_def start_tag_leaf)

section \<open>Parts of a document\<close>

lemma on_last_snoc [simp]: "on_last f (xs @ [x]) = Some (xs @ [f x])"
  by (simp add: on_last_def)

lemma read_functional:
  assumes pieces: "splits pieces"
  shows "reads (functional_xml pieces f) st
    (st\<lparr>h_functional := h_functional st @ [\<lparr>f_name = Some (fst f), f_type = snd f\<rparr>], h_state := NONE\<rparr>)"
  unfolding functional_xml_def
proof (rule reads_tag [OF _ reads_append [OF reads_leaf [OF pieces quiet_leaf(1)] reads_leaf [OF pieces quiet_leaf(2)]]])
  let ?st = "\<lambda>n t. st\<lparr>h_functional := h_functional st @ [\<lparr>f_name = n, f_type = t\<rparr>], h_state := FUNCTIONAL_COMPONENT\<rparr>"
  show "quiet (start_tag ''FUNCTIONAL_COMPONENT'') st (?st None GPP)"
    by (simp add: quiet_def start_tag_def functional_component_add_def set_state_def)
  show "quiet (end_tag ''NAME'' (fst f)) (?st None GPP) (?st (Some (fst f)) GPP)"
    by (simp add: quiet_def end_tags end_name_def or_fault_def)
  show "quiet (end_tag ''TYPE'' (type_text (snd f))) (?st (Some (fst f)) GPP) (?st (Some (fst f)) (snd f))"
    by (cases "snd f") (simp_all add: quiet_def end_tags end_type_def or_fault_def)
  show "quiet (end_tag ''FUNCTIONAL_COMPONENT'' []) (?st (Some (fst f)) (snd f))
    (st\<lparr>h_functional := h_functional st @ [\<lparr>f_name = Some (fst f), f_type = snd f\<rparr>], h_state := NONE\<rparr>)"
    by (simp add: quiet_def end_tag_def set_state_def)
qed

lemma read_storage:
  assumes pieces: "splits pieces"
  shows "reads (storage_xml pieces s) st (st\<lparr>h_storage := h_storage st @ [Some s], h_state := NONE\<rparr>)"
  unfolding storage_xml_def
proof (rule reads_tag [OF _ reads_leaf [OF pieces quiet_leaf(1)]])
  let ?st = "\<lambda>n. st\<lparr>h_storage := h_storage st @ [n], h_state := STORAGE_COMPONENT\<rparr>"
  show "quiet (start_tag ''STORAGE_COMPONENT'') st (?st None)"
    by (simp add: quiet_def start_tag_def storage_component_add_def set_state_def)
  show "quiet (end_tag ''NAME'' s) (?st None) (?st (Some s))"
    by (simp add: quiet_def end_tags end_name_def or_fault_def)
  show "quiet (end_tag ''STORAGE_COMPONENT'' []) (?st (Some s)) (st\<lparr>h_storage := h_storage st @ [Some s], h_state := NONE\<rparr>)"
    by (simp add: quiet_def end_tag_def set_state_def)
qed

text \<open>The members of a bus.\<close>

lemma find_name_index:
  "s \<in> set ns \<Longrightarrow> find_name s k (map Some ns) = Some (Some (k + index_of ns s))"
  by (induction ns arbitrary: k) (auto simp: index_of_def)

lemma index_of_less: "s \<in> set ns \<Longrightarrow> index_of ns s < length ns"
  by (induction ns) (auto simp: index_of_def)

lemma read_functional_members:
  assumes pieces: "splits pieces" and bs: "h_buses st = bs @ [b]" "h_state st = BUS_COMPONENT"
    and fs: "map f_name (h_functional st) = map Some fs" "set ms \<subseteq> set fs" "length ms \<le> 100"
  shows "reads (tag ''FUNCTIONAL_COMPONENTS'' (concat (map (leaf pieces ''NAME'') ms))) st
    (st\<lparr>h_buses := bs @ [b\<lparr>b_functional := map (index_of fs) ms\<rparr>], temp_functional := []\<rparr>)"
proof (rule reads_tag)
  let ?st = "\<lambda>ms. st\<lparr>temp_functional := map (index_of fs) ms, h_state := FUNCTIONAL_COMPONENTS\<rparr>"
  show "quiet (start_tag ''FUNCTIONAL_COMPONENTS'') st (?st [])"
    using bs by (simp add: quiet_def start_tag_def in_state_def set_state_def)
  show "reads (concat (map (leaf pieces ''NAME'') ms)) (?st []) (?st ms)"
  proof (rule reads_concat)
    fix ys x zs assume ms: "ms = ys @ x # zs"
    have "get_functional_component st x = Some (Some (index_of fs x))"
      using fs ms find_name_index [of x fs 0] by (simp add: get_functional_component_def)
    moreover have "get_functional_component (st\<lparr>temp_functional := t, h_state := s, h_data := d\<rparr>) x
      = get_functional_component st x" for t s d by (simp add: get_functional_component_def)
    ultimately have "quiet (end_tag ''NAME'' x) (?st ys) (?st (ys @ [x]))"
      using fs(3) ms by (simp add: quiet_def end_tags end_name_def)
    then show "reads (leaf pieces ''NAME'' x) (?st ys) (?st (ys @ [x]))" by (rule reads_leaf [OF pieces quiet_leaf(1)])
  qed
  show "quiet (end_tag ''FUNCTIONAL_COMPONENTS'' []) (?st ms)
    (st\<lparr>h_buses := bs @ [b\<lparr>b_functional := map (index_of fs) ms\<rparr>], temp_functional := []\<rparr>)"
    using bs by (simp add: quiet_def end_tag_def or_fault_def set_state_def)
qed

lemma read_storage_members:
  assumes pieces: "splits pieces" and bs: "h_buses st = bs @ [b]" "h_state st = BUS_COMPONENT"
    and fs: "h_storage st = map Some fs" "set ms \<subseteq> set fs" "length ms \<le> 100"
  shows "reads (tag ''STORAGE_COMPONENTS'' (concat (map (leaf pieces ''NAME'') ms))) st
    (st\<lparr>h_buses := bs @ [b\<lparr>b_storage := map (index_of fs) ms\<rparr>], temp_storage := []\<rparr>)"
proof (rule reads_tag)
  let ?st = "\<lambda>ms. st\<lparr>temp_storage := map (index_of fs) ms, h_state := STORAGE_COMPONENTS\<rparr>"
  show "quiet (start_tag ''STORAGE_COMPONENTS'') st (?st [])"
    using bs by (simp add: quiet_def start_tag_def in_state_def set_state_def)
  show "reads (concat (map (leaf pieces ''NAME'') ms)) (?st []) (?st ms)"
  proof (rule reads_concat)
    fix ys x zs assume ms: "ms = ys @ x # zs"
    have "get_storage_component st x = Some (Some (index_of fs x))"
      using fs ms find_name_index [of x fs 0] by (simp add: get_storage_component_def)
    moreover have "get_storage_component (st\<lparr>temp_storage := t, h_state := s, h_data := d\<rparr>) x
      = get_storage_component st x" for t s d by (simp add: get_storage_component_def)
    ultimately have "quiet (end_tag ''NAME'' x) (?st ys) (?st (ys @ [x]))"
      using fs(3) ms by (simp add: quiet_def end_tags end_name_def)
    then show "reads (leaf pieces ''NAME'' x) (?st ys) (?st (ys @ [x]))" by (rule reads_leaf [OF pieces quiet_leaf(1)])
  qed
  show "quiet (end_tag ''STORAGE_COMPONENTS'' []) (?st ms)
    (st\<lparr>h_buses := bs @ [b\<lparr>b_storage := map (index_of fs) ms\<rparr>], temp_storage := []\<rparr>)"
    using bs by (simp add: quiet_def end_tag_def or_fault_def set_state_def)
qed

lemma read_bus_number:
  assumes pieces: "splits pieces" and bs: "h_buses st = bs @ [b]" "h_state st = BUS_COMPONENT" and v: "fits_int v"
    and n: "quiet (start_tag n) st st" "\<And>t st. end_tag n t st = bus_number n upd t st"
  shows "reads (leaf pieces n (dec v)) st (st\<lparr>h_buses := bs @ [upd v b]\<rparr>)"
proof (rule reads_leaf [OF pieces n(1)])
  show "quiet (end_tag n (dec v)) st (st\<lparr>h_buses := bs @ [upd v b]\<rparr>)"
    using bs v convert_dec [of v] by (simp add: quiet_def n(2) bus_number_def in_state_def fits_int_def)
qed

lemma read_bus:
  assumes pieces: "splits pieces" and v: "bus_valid m b"
    and fs: "map f_name (h_functional st) = map Some fs" "set fs = fst ` set (m_functional m)"
    and ss: "h_storage st = map Some (m_storage m)"
  shows "reads (bus_xml pieces b) st
    (st\<lparr>h_buses := h_buses st @ [bus_entry fs (m_storage m) b], temp_functional := [], temp_storage := [], h_state := NONE\<rparr>)"
proof -
  let ?b = "\<lambda>n x y z f s. \<lparr>b_name = n, addr_bus_width = x, data_bus_width = y, read_cycles = z,
    b_functional = f, b_storage = s\<rparr>"
  let ?n = "Some (bd_name b)" and ?f = "map (index_of fs) (bd_functional b)" and ?s = "map (index_of (m_storage m)) (bd_storage b)"
  let ?st = "\<lambda>c. st\<lparr>h_state := BUS_COMPONENT, h_buses := h_buses st @ [c]\<rparr>"
  have v': "fits_int (bd_addr b)" "fits_int (bd_data b)" "fits_int (bd_read b)" using v by (simp_all add: bus_valid_def)
  have 1: "quiet (start_tag ''BUS_COMPONENT'') st (?st (?b None 0 0 0 [] []))"
    by (simp add: quiet_def start_tag_def bus_component_add_def set_state_def)
  have 2: "reads (leaf pieces ''NAME'' (bd_name b)) (?st (?b None 0 0 0 [] [])) (?st (?b ?n 0 0 0 [] []))"
    by (rule reads_leaf [OF pieces quiet_leaf(1)]) (simp add: quiet_def end_tags end_name_def or_fault_def)
  have 3: "reads (leaf pieces ''ADDR_BUS_WIDTH'' (dec (bd_addr b))) (?st (?b ?n 0 0 0 [] []))
      (?st (?b ?n (bd_addr b) 0 0 [] []))"
    using read_bus_number [OF pieces, of "?st (?b ?n 0 0 0 [] [])", OF _ _ v'(1) quiet_leaf(6) end_tags(3)] by simp
  have 4: "reads (leaf pieces ''DATA_BUS_WIDTH'' (dec (bd_data b))) (?st (?b ?n (bd_addr b) 0 0 [] []))
      (?st (?b ?n (bd_addr b) (bd_data b) 0 [] []))"
    using read_bus_number [OF pieces, of "?st (?b ?n (bd_addr b) 0 0 [] [])", OF _ _ v'(2) quiet_leaf(7) end_tags(4)] by simp
  have 5: "reads (leaf pieces ''READ_CYCLES'' (dec (bd_read b))) (?st (?b ?n (bd_addr b) (bd_data b) 0 [] []))
      (?st (?b ?n (bd_addr b) (bd_data b) (bd_read b) [] []))"
    using read_bus_number [OF pieces, of "?st (?b ?n (bd_addr b) (bd_data b) 0 [] [])",
      OF _ _ v'(3) quiet_leaf(8) end_tags(5)] by simp
  let ?c = "?b ?n (bd_addr b) (bd_data b) (bd_read b)"
  have 6: "reads (tag ''FUNCTIONAL_COMPONENTS'' (concat (map (leaf pieces ''NAME'') (bd_functional b)))) (?st (?c [] []))
      ((?st (?c ?f []))\<lparr>temp_functional := []\<rparr>)"
    using read_functional_members [OF pieces, of "?st (?c [] [])" "h_buses st" "?c [] []" fs "bd_functional b"] v fs
    by (simp add: bus_valid_def)
  have 7: "reads (tag ''STORAGE_COMPONENTS'' (concat (map (leaf pieces ''NAME'') (bd_storage b))))
      ((?st (?c ?f []))\<lparr>temp_functional := []\<rparr>) (st\<lparr>h_state := BUS_COMPONENT, temp_functional := [], h_buses := h_buses st @ [?c ?f ?s], temp_storage := []\<rparr>)"
    using read_storage_members [OF pieces, of "(?st (?c ?f []))\<lparr>temp_functional := []\<rparr>" "h_buses st" "?c ?f []"
        "m_storage m" "bd_storage b"] v ss
    by (simp add: bus_valid_def)
  note body = reads_append [OF 2 reads_append [OF 3 reads_append [OF 4 reads_append [OF 5 reads_append [OF 6 7]]]]]
  have "quiet (end_tag ''BUS_COMPONENT'' []) (st\<lparr>h_state := BUS_COMPONENT, temp_functional := [], h_buses := h_buses st @ [?c ?f ?s], temp_storage := []\<rparr>)
    (st\<lparr>h_buses := h_buses st @ [bus_entry fs (m_storage m) b], temp_functional := [], temp_storage := [], h_state := NONE\<rparr>)"
    by (simp add: quiet_def end_tag_def set_state_def bus_entry_def)
  from reads_tag [OF 1 body this] show ?thesis by (simp add: bus_xml_def)
qed

text \<open>Operations: a state given by the operations, the current places and the parser state.\<close>

definition at_operations ::
  "hxml_state \<Rightarrow> operation list \<Rightarrow> (nat \<times> nat) option \<Rightarrow> (nat \<times> nat \<times> nat) option \<Rightarrow> states \<Rightarrow> hxml_state" where
  "at_operations st ops p q s =
    st\<lparr>h_operations := ops, current_component := p, current_implementation := q, h_state := s\<rparr>"

lemma at_operations_fields [simp]:
  "h_operations (at_operations st ops p q s) = ops" "current_component (at_operations st ops p q s) = p"
  "current_implementation (at_operations st ops p q s) = q" "h_state (at_operations st ops p q s) = s"
  "h_functional (at_operations st ops p q s) = h_functional st"
  "(at_operations st ops p q s)\<lparr>h_operations := ops'\<rparr> = at_operations st ops' p q s"
  "(at_operations st ops p q s)\<lparr>current_component := p'\<rparr> = at_operations st ops p' q s"
  "(at_operations st ops p q s)\<lparr>current_implementation := q'\<rparr> = at_operations st ops p q' s"
  "(at_operations st ops p q s)\<lparr>h_state := s'\<rparr> = at_operations st ops p q s'"
  "(at_operations st ops p q s)\<lparr>h_data := d\<rparr> = at_operations (st\<lparr>h_data := d\<rparr>) ops p q s"
  by (simp_all add: at_operations_def)

lemma on_component_last:
  "on_component f (length ops, length cs) (ops @ [\<lparr>o_name = n, components = cs @ [c]\<rparr>])
    = ops @ [\<lparr>o_name = n, components = cs @ [f c]\<rparr>]"
  "component_at (ops @ [\<lparr>o_name = n, components = cs @ [c]\<rparr>]) (length ops, length cs) = c"
  by (simp_all add: on_component_def component_at_def)

lemma on_implementation_last:
  "on_implementation f (length ops, length cs, length is)
      (ops @ [\<lparr>o_name = n, components = cs @ [\<lparr>c_name = m, c_functional = k, implementations = is @ [i]\<rparr>]\<rparr>])
    = ops @ [\<lparr>o_name = n, components = cs @ [\<lparr>c_name = m, c_functional = k, implementations = is @ [f i]\<rparr>]\<rparr>]"
  by (simp add: on_implementation_def on_component_last)

lemma read_implementation_number:
  assumes pieces: "splits pieces" and v: "fits_int v" and n: "\<And>st. quiet (start_tag n) st st"
    "\<And>t st. in_state st IMPLEMENTATION \<Longrightarrow> end_tag n t st = implementation_number n upd t st"
  shows "reads (leaf pieces n (dec v)) (at_operations st ops p (Some q) IMPLEMENTATION)
    (at_operations st (on_implementation (upd v) q ops) p (Some q) IMPLEMENTATION)"
proof (rule reads_leaf [OF pieces n(1)])
  show "quiet (end_tag n (dec v)) (at_operations st ops p (Some q) IMPLEMENTATION)
    (at_operations st (on_implementation (upd v) q ops) p (Some q) IMPLEMENTATION)"
    using v convert_dec [of v] by (simp add: quiet_def n(2) in_state_def implementation_number_def fits_int_def)
qed

lemma read_implementation:
  assumes pieces: "splits pieces" and i: "impl_ok i"
  shows "\<exists>q'. reads (implementation_xml pieces i)
    (at_operations st (ops @ [\<lparr>o_name = n, components = cs @ [\<lparr>c_name = m, c_functional = k, implementations = is\<rparr>]\<rparr>])
      (Some (length ops, length cs)) q COMPONENT)
    (at_operations st (ops @ [\<lparr>o_name = n, components = cs @ [\<lparr>c_name = m, c_functional = k, implementations = is @ [i]\<rparr>]\<rparr>])
      (Some (length ops, length cs)) q' COMPONENT)"
proof -
  let ?p = "Some (length ops, length cs)" and ?q = "(length ops, length cs, length is)"
  let ?ops = "\<lambda>a b c. ops @ [\<lparr>o_name = n, components = cs @ [\<lparr>c_name = m, c_functional = k,
    implementations = is @ [\<lparr>impl_id = a, start_input_xr = b, start_output_xr = c\<rparr>]\<rparr>]\<rparr>]"
  let ?st = "\<lambda>a b c. at_operations st (?ops a b c) ?p (Some ?q) IMPLEMENTATION"
  have f: "fits_int (impl_id i)" "fits_int (start_input_xr i)" "fits_int (start_output_xr i)"
    using i by (simp_all add: impl_ok_def)
  have 1: "quiet (start_tag ''IMPLEMENTATION'')
      (at_operations st (ops @ [\<lparr>o_name = n, components = cs @ [\<lparr>c_name = m, c_functional = k, implementations = is\<rparr>]\<rparr>])
        ?p q COMPONENT) (?st 0 0 0)"
    by (simp add: quiet_def start_tag_def in_state_def implementation_add_def on_component_last or_fault_def set_state_def)
  have 2: "reads (leaf pieces ''ID'' (dec (impl_id i))) (?st 0 0 0) (?st (impl_id i) 0 0)"
    using read_implementation_number [OF pieces f(1) quiet_leaf(3) end_tags(6), of st "?ops 0 0 0" ?p ?q]
    by (simp add: on_implementation_last)
  have 3: "reads (leaf pieces ''START_INPUT_XR'' (dec (start_input_xr i))) (?st (impl_id i) 0 0)
      (?st (impl_id i) (start_input_xr i) 0)"
    using read_implementation_number [OF pieces f(2) quiet_leaf(4) end_tags(7), of st "?ops (impl_id i) 0 0" ?p ?q]
    by (simp add: on_implementation_last)
  have 4: "reads (leaf pieces ''START_OUTPUT_XR'' (dec (start_output_xr i))) (?st (impl_id i) (start_input_xr i) 0)
      (?st (impl_id i) (start_input_xr i) (start_output_xr i))"
    using read_implementation_number [OF pieces f(3) quiet_leaf(5) end_tags(8),
      of st "?ops (impl_id i) (start_input_xr i) 0" ?p ?q]
    by (simp add: on_implementation_last)
  have 5: "quiet (end_tag ''IMPLEMENTATION'' []) (?st (impl_id i) (start_input_xr i) (start_output_xr i))
      (at_operations st (?ops (impl_id i) (start_input_xr i) (start_output_xr i)) ?p (Some ?q) COMPONENT)"
    by (simp add: quiet_def end_tag_def set_state_def)
  have "\<lparr>impl_id = impl_id i, start_input_xr = start_input_xr i, start_output_xr = start_output_xr i\<rparr> = i"
    by (cases i) simp
  with reads_tag [OF 1 reads_append [OF 2 reads_append [OF 3 4]] 5] show ?thesis
    by (auto simp: implementation_xml_def)
qed

lemma read_implementations:
  assumes pieces: "splits pieces" and i: "\<forall>i\<in>set is. impl_ok i"
  shows "\<exists>q'. reads (concat (map (implementation_xml pieces) is))
    (at_operations st (ops @ [\<lparr>o_name = n, components = cs @ [\<lparr>c_name = m, c_functional = k, implementations = js\<rparr>]\<rparr>])
      (Some (length ops, length cs)) q COMPONENT)
    (at_operations st (ops @ [\<lparr>o_name = n, components = cs @ [\<lparr>c_name = m, c_functional = k, implementations = js @ is\<rparr>]\<rparr>])
      (Some (length ops, length cs)) q' COMPONENT)"
  using i
proof (induction "is" arbitrary: js q)
  case Nil
  show ?case by (auto simp: reads_def)
next
  case (Cons i "is")
  from read_implementation [OF pieces, of i st ops n cs m k js q] Cons.prems obtain q1 where
    r: "reads (implementation_xml pieces i)
      (at_operations st (ops @ [\<lparr>o_name = n, components = cs @ [\<lparr>c_name = m, c_functional = k, implementations = js\<rparr>]\<rparr>])
        (Some (length ops, length cs)) q COMPONENT)
      (at_operations st (ops @ [\<lparr>o_name = n, components = cs @ [\<lparr>c_name = m, c_functional = k, implementations = js @ [i]\<rparr>]\<rparr>])
        (Some (length ops, length cs)) q1 COMPONENT)" by auto
  from Cons.IH [of "js @ [i]" q1] Cons.prems obtain q2 where
    "reads (concat (map (implementation_xml pieces) is))
      (at_operations st (ops @ [\<lparr>o_name = n, components = cs @ [\<lparr>c_name = m, c_functional = k, implementations = js @ [i]\<rparr>]\<rparr>])
        (Some (length ops, length cs)) q1 COMPONENT)
      (at_operations st (ops @ [\<lparr>o_name = n, components = cs @ [\<lparr>c_name = m, c_functional = k, implementations = js @ i # is\<rparr>]\<rparr>])
        (Some (length ops, length cs)) q2 COMPONENT)" by auto
  with reads_append [OF r] show ?case by auto
qed

lemma read_component:
  assumes pieces: "splits pieces" and c: "fst c \<in> set fs" "\<forall>i\<in>set (snd c). impl_ok i"
    and fs: "map f_name (h_functional st) = map Some fs"
  shows "\<exists>p' q'. reads (component_xml pieces c)
    (at_operations st (ops @ [\<lparr>o_name = n, components = cs\<rparr>]) p q OPERATION)
    (at_operations st (ops @ [\<lparr>o_name = n, components = cs @ [component_entry fs c]\<rparr>]) p' q' OPERATION)"
proof -
  let ?p = "Some (length ops, length cs)"
  let ?st = "\<lambda>m k is q. at_operations st
    (ops @ [\<lparr>o_name = n, components = cs @ [\<lparr>c_name = m, c_functional = k, implementations = is\<rparr>]\<rparr>]) ?p q COMPONENT"
  let ?k = "Some (index_of fs (fst c))"
  have 1: "quiet (start_tag ''COMPONENT'') (at_operations st (ops @ [\<lparr>o_name = n, components = cs\<rparr>]) p q OPERATION)
      (?st None None [] q)"
    by (simp add: quiet_def start_tag_def in_state_def component_add_def or_fault_def set_state_def)
  have "get_functional_component st' (fst c) = Some ?k" if "h_functional st' = h_functional st" for st'
    using fs c(1) find_name_index [of "fst c" fs 0] that by (simp add: get_functional_component_def)
  then have "quiet (end_tag ''NAME'' (fst c)) (?st None None [] q) (?st (Some (fst c)) ?k [] q)"
    by (simp add: quiet_def end_tags end_name_def on_component_last)
  then have 2: "reads (leaf pieces ''NAME'' (fst c)) (?st None None [] q) (?st (Some (fst c)) ?k [] q)"
    by (rule reads_leaf [OF pieces quiet_leaf(1)])
  from read_implementations [OF pieces c(2), of st ops n cs "Some (fst c)" ?k "[]" q] obtain q' where
    3: "reads (concat (map (implementation_xml pieces) (snd c))) (?st (Some (fst c)) ?k [] q)
      (?st (Some (fst c)) ?k (snd c) q')" by auto
  have 4: "quiet (end_tag ''COMPONENT'' []) (?st (Some (fst c)) ?k (snd c) q')
      (at_operations st (ops @ [\<lparr>o_name = n, components = cs @ [component_entry fs c]\<rparr>]) ?p q' OPERATION)"
    by (simp add: quiet_def end_tag_def set_state_def component_entry_def)
  from reads_tag [OF 1 reads_append [OF 2 3] 4] show ?thesis unfolding component_xml_def by blast
qed

lemma read_components:
  assumes pieces: "splits pieces" and c: "\<forall>c\<in>set ds. fst c \<in> set fs \<and> (\<forall>i\<in>set (snd c). impl_ok i)"
    and fs: "map f_name (h_functional st) = map Some fs"
  shows "\<exists>p' q'. reads (concat (map (component_xml pieces) ds))
    (at_operations st (ops @ [\<lparr>o_name = n, components = cs\<rparr>]) p q OPERATION)
    (at_operations st (ops @ [\<lparr>o_name = n, components = cs @ map (component_entry fs) ds\<rparr>]) p' q' OPERATION)"
  using c
proof (induction ds arbitrary: cs p q)
  case Nil
  show ?case by (auto simp: reads_def)
next
  case (Cons d ds)
  from read_component [OF pieces _ _ fs, of d] Cons.prems obtain p1 q1 where
    r: "reads (component_xml pieces d) (at_operations st (ops @ [\<lparr>o_name = n, components = cs\<rparr>]) p q OPERATION)
      (at_operations st (ops @ [\<lparr>o_name = n, components = cs @ [component_entry fs d]\<rparr>]) p1 q1 OPERATION)"
    by (metis list.set_intros(1))
  from Cons.IH [of "cs @ [component_entry fs d]" p1 q1] Cons.prems obtain p2 q2 where
    "reads (concat (map (component_xml pieces) ds))
      (at_operations st (ops @ [\<lparr>o_name = n, components = cs @ [component_entry fs d]\<rparr>]) p1 q1 OPERATION)
      (at_operations st (ops @ [\<lparr>o_name = n, components = cs @ component_entry fs d # map (component_entry fs) ds\<rparr>])
        p2 q2 OPERATION)" by auto
  with reads_append [OF r] show ?case by auto
qed

lemma read_operation:
  assumes pieces: "splits pieces" and c: "\<forall>c\<in>set (snd oper). fst c \<in> set fs \<and> (\<forall>i\<in>set (snd c). impl_ok i)"
    and fs: "map f_name (h_functional st) = map Some fs"
  shows "\<exists>p' q'. reads (operation_xml pieces oper) (at_operations st ops p q OPERATIONS)
    (at_operations st (ops @ [operation_entry fs oper]) p' q' OPERATIONS)"
proof -
  let ?st = "\<lambda>n cs p q. at_operations st (ops @ [\<lparr>o_name = n, components = cs\<rparr>]) p q OPERATION"
  have 1: "quiet (start_tag ''OPERATION'') (at_operations st ops p q OPERATIONS) (?st None [] p q)"
    by (simp add: quiet_def start_tag_def in_state_def operation_add_def set_state_def)
  have 2: "reads (leaf pieces ''NAME'' (fst oper)) (?st None [] p q) (?st (Some (fst oper)) [] p q)"
    by (rule reads_leaf [OF pieces quiet_leaf(1)]) (simp add: quiet_def end_tags end_name_def or_fault_def)
  from read_components [OF pieces c fs, of ops "Some (fst oper)" "[]" p q] obtain p' q' where
    3: "reads (concat (map (component_xml pieces) (snd oper))) (?st (Some (fst oper)) [] p q)
      (?st (Some (fst oper)) (map (component_entry fs) (snd oper)) p' q')" by auto
  have 4: "quiet (end_tag ''OPERATION'' []) (?st (Some (fst oper)) (map (component_entry fs) (snd oper)) p' q')
      (at_operations st (ops @ [operation_entry fs oper]) p' q' OPERATIONS)"
    by (simp add: quiet_def end_tag_def set_state_def operation_entry_def)
  from reads_tag [OF 1 reads_append [OF 2 3] 4] show ?thesis unfolding operation_xml_def by blast
qed

lemma read_operations:
  assumes pieces: "splits pieces"
    and c: "\<forall>oper\<in>set opers. \<forall>c\<in>set (snd oper). fst c \<in> set fs \<and> (\<forall>i\<in>set (snd c). impl_ok i)"
    and fs: "map f_name (h_functional st) = map Some fs"
  shows "\<exists>p' q'. reads (concat (map (operation_xml pieces) opers)) (at_operations st ops p q OPERATIONS)
    (at_operations st (ops @ map (operation_entry fs) opers) p' q' OPERATIONS)"
  using c
proof (induction opers arbitrary: ops p q)
  case Nil
  show ?case by (auto simp: reads_def)
next
  case (Cons oper opers)
  from read_operation [OF pieces _ fs, of oper ops p q] Cons.prems obtain p1 q1 where
    r: "reads (operation_xml pieces oper) (at_operations st ops p q OPERATIONS)
      (at_operations st (ops @ [operation_entry fs oper]) p1 q1 OPERATIONS)" by auto
  from Cons.IH [of "ops @ [operation_entry fs oper]" p1 q1] Cons.prems obtain p2 q2 where
    "reads (concat (map (operation_xml pieces) opers)) (at_operations st (ops @ [operation_entry fs oper]) p1 q1 OPERATIONS)
      (at_operations st (ops @ operation_entry fs oper # map (operation_entry fs) opers) p2 q2 OPERATIONS)" by auto
  with reads_append [OF r] show ?case by auto
qed

section \<open>Whole documents\<close>

text \<open>The functional component, the first of the given name, of an implementation.\<close>

definition type_of :: "machine \<Rightarrow> string \<Rightarrow> functional_component_type" where
  "type_of m n = snd (m_functional m ! index_of (map fst (m_functional m)) n)"

lemma read_machine:
  assumes pieces: "splits pieces" and m: "machine_valid m"
  shows "\<exists>st. handle_all (machine_xml pieces m) hxml_init = Inr st
    \<and> h_functional st = functional_table m \<and> h_storage st = map Some (m_storage m)
    \<and> h_buses st = map (bus_entry (map fst (m_functional m)) (m_storage m)) (m_buses m)
    \<and> h_operations st = map (operation_entry (map fst (m_functional m))) (m_operations m)"
proof -
  let ?fs = "map fst (m_functional m)" and ?ss = "m_storage m"
  let ?f = "\<lambda>f. \<lparr>f_name = Some (fst f), f_type = snd f\<rparr>"
  let ?st = "\<lambda>fs ss bs. \<lparr>h_functional = map ?f fs, h_storage = map Some ss, h_buses = map (bus_entry ?fs ?ss) bs,
    h_operations = [], current_component = None, current_implementation = None, h_state = NONE, h_data = None,
    temp_functional = [], temp_storage = [], h_messages = []\<rparr>"
  have init: "hxml_init = ?st [] [] []" by (simp add: hxml_init_def)
  have 1: "reads (concat (map (functional_xml pieces) (m_functional m))) (?st [] [] []) (?st (m_functional m) [] [])"
  proof (rule reads_concat [where s = "\<lambda>fs. ?st fs [] []"])
    fix ys x zs
    show "reads (functional_xml pieces x) (?st ys [] []) (?st (ys @ [x]) [] [])"
      using read_functional [OF pieces, of x "?st ys [] []"] by simp
  qed
  have 2: "reads (concat (map (storage_xml pieces) ?ss)) (?st (m_functional m) [] []) (?st (m_functional m) ?ss [])"
  proof (rule reads_concat [where s = "\<lambda>ss. ?st (m_functional m) ss []"])
    fix ys x zs
    show "reads (storage_xml pieces x) (?st (m_functional m) ys []) (?st (m_functional m) (ys @ [x]) [])"
      using read_storage [OF pieces, of x "?st (m_functional m) ys []"] by simp
  qed
  have 3: "reads (concat (map (bus_xml pieces) (m_buses m))) (?st (m_functional m) ?ss []) (?st (m_functional m) ?ss (m_buses m))"
  proof (rule reads_concat [where s = "\<lambda>bs. ?st (m_functional m) ?ss bs"])
    fix ys x zs assume "m_buses m = ys @ x # zs"
    then have "bus_valid m x" using m by (simp add: machine_valid_def)
    from read_bus [OF pieces this, of "?st (m_functional m) ?ss ys" ?fs]
    show "reads (bus_xml pieces x) (?st (m_functional m) ?ss ys) (?st (m_functional m) ?ss (ys @ [x]))"
      by (simp add: comp_def)
  qed
  let ?st3 = "?st (m_functional m) ?ss (m_buses m)"
  have 4: "quiet (start_tag ''OPERATIONS'') ?st3 (at_operations ?st3 [] None None OPERATIONS)"
    by (simp add: quiet_def start_tag_def set_state_def at_operations_def)
  have "\<exists>p q. reads (concat (map (operation_xml pieces) (m_operations m))) (at_operations ?st3 [] None None OPERATIONS)
      (at_operations ?st3 ([] @ map (operation_entry ?fs) (m_operations m)) p q OPERATIONS)"
    using m by (intro read_operations [OF pieces]) (auto simp: machine_valid_def comp_def)
  then obtain p q where
    5: "reads (concat (map (operation_xml pieces) (m_operations m))) (at_operations ?st3 [] None None OPERATIONS)
      (at_operations ?st3 (map (operation_entry ?fs) (m_operations m)) p q OPERATIONS)" by auto
  let ?fin = "at_operations ?st3 (map (operation_entry ?fs) (m_operations m)) p q OPERATIONS"
  have 6: "quiet (end_tag ''OPERATIONS'' []) ?fin ?fin" "quiet (end_tag ''ARCHITECTURE'' []) ?fin ?fin"
    by (simp_all add: quiet_def end_tag_def)
  have "reads (machine_xml pieces m) (?st [] [] []) ?fin" unfolding machine_xml_def
    by (rule reads_tag [OF quiet_leaf(9) reads_append [OF 1 reads_append [OF 2 reads_append [OF 3 reads_tag [OF 4 5 6(1)]]]] 6(2)])
  then show ?thesis by (simp add: reads_def init at_operations_def functional_table_def)
qed

lemma distinct_owner:
  "distinct (map f (concat (map snd cs))) \<Longrightarrow> c \<in> set cs \<Longrightarrow> d \<in> set cs \<Longrightarrow> x \<in> set (snd c) \<Longrightarrow> y \<in> set (snd d)
    \<Longrightarrow> f x = f y \<Longrightarrow> c = d \<and> x = y"
proof (induction cs)
  case (Cons b cs)
  have dist: "distinct (map f (snd b))" "distinct (map f (concat (map snd cs)))"
    "f ` set (snd b) \<inter> f ` (\<Union>e\<in>set cs. set (snd e)) = {}" using Cons.prems(1) by auto
  consider "c = b" "d = b" | "c = b" "d \<in> set cs" | "c \<in> set cs" "d = b" | "c \<in> set cs" "d \<in> set cs"
    using Cons.prems(2,3) by auto
  then show ?case
  proof cases
    case 1
    with Cons.prems dist(1) show ?thesis by (auto simp: distinct_map dest: inj_onD)
  next
    case 2
    have "f x \<in> f ` set (snd b)" "f y \<in> f ` (\<Union>e\<in>set cs. set (snd e))" using 2 Cons.prems by blast+
    with dist(3) Cons.prems(6) show ?thesis by auto
  next
    case 3
    have "f y \<in> f ` set (snd b)" "f x \<in> f ` (\<Union>e\<in>set cs. set (snd e))" using 3 Cons.prems by blast+
    with dist(3) Cons.prems(6) show ?thesis by auto
  next
    case 4
    with Cons.IH dist(2) Cons.prems(4-6) show ?thesis by blast
  qed
qed simp

lemma find_unique:
  assumes "x \<in> set xs" "P x" "\<And>y. y \<in> set xs \<Longrightarrow> P y \<Longrightarrow> y = x"
  shows "find P xs = Some x"
proof (cases "find P xs")
  case None
  with assms(1,2) show ?thesis by (simp add: find_None_iff)
next
  case (Some y)
  with assms(3) [of y] find_member [OF Some] show ?thesis by simp
qed

text \<open>C30. A valid description of a machine, written as a document and delivered by the parser in whatever pieces,
  is read completely: the tables hold its components, buses and operations, and, when no number is used
  twice, the queries give for the number of each implementation the type of the functional component it is
  listed under and its registers. The file is read at most once.\<close>

theorem architecture_read_back:
  assumes pieces: "splits pieces" and m: "machine_valid m"
    and ids: "distinct (map impl_id (concat (map snd (concat (map snd (m_operations m))))))"
  shows "\<exists>st. hxml_read_xml (Some (machine_xml pieces m, True)) (False, hxml_init) = Inr (0, True, st)
    \<and> hxml_read_xml other (True, st) = Inr (0, True, st)
    \<and> h_buses st = map (bus_entry (map fst (m_functional m)) (m_storage m)) (m_buses m)
    \<and> h_operations st = map (operation_entry (map fst (m_functional m))) (m_operations m)
    \<and> (\<forall>oper\<in>set (m_operations m). \<forall>c\<in>set (snd oper). \<forall>i\<in>set (snd c).
         hxml_get_functional_component_type st (impl_id i) = Inr (type_of m (fst c))
         \<and> hxml_get_start_input_xr st (impl_id i) = Inr (start_input_xr i)
         \<and> hxml_get_start_output_xr st (impl_id i) = Inr (start_output_xr i))"
proof -
  let ?fs = "map fst (m_functional m)" and ?cs = "concat (map snd (m_operations m))"
  from read_machine [OF pieces m] obtain st where
    st: "handle_all (machine_xml pieces m) hxml_init = Inr st" "h_functional st = functional_table m"
      "h_buses st = map (bus_entry ?fs (m_storage m)) (m_buses m)"
      "h_operations st = map (operation_entry ?fs) (m_operations m)" by blast
  have all: "all_components st = map (component_entry ?fs) ?cs"
    by (simp add: all_components_def st(4) operation_entry_def comp_def map_concat)
  have impls: "concat (map implementations (all_components st)) = concat (map snd ?cs)"
    by (simp add: all component_entry_def comp_def)
  have "hxml_get_functional_component_type st (impl_id i) = Inr (type_of m (fst c))
         \<and> hxml_get_start_input_xr st (impl_id i) = Inr (start_input_xr i)
         \<and> hxml_get_start_output_xr st (impl_id i) = Inr (start_output_xr i)"
    if "oper \<in> set (m_operations m)" "c \<in> set (snd oper)" "i \<in> set (snd c)" for oper c i
  proof -
    have c: "c \<in> set ?cs" using that by auto
    have "find (\<lambda>j. impl_id j = impl_id i) (concat (map snd ?cs)) = Some i"
    proof (rule find_unique)
      show "i \<in> set (concat (map snd ?cs))" using c that(3) by auto
      fix j assume "j \<in> set (concat (map snd ?cs))" and j: "impl_id j = impl_id i"
      then obtain d where "d \<in> set ?cs" "j \<in> set (snd d)" by auto
      from distinct_owner [OF ids this(1) c this(2) that(3) j] show "j = i" by blast
    qed simp
    then have "get_implementation st (impl_id i) = Some i" by (simp add: get_implementation_def impls)
    moreover have "find (\<lambda>d. impl_id i \<in> impl_id ` set (implementations d)) (all_components st)
      = Some (component_entry ?fs c)"
    proof (rule find_unique)
      show "component_entry ?fs c \<in> set (all_components st)" using c by (auto simp: all)
      show "impl_id i \<in> impl_id ` set (implementations (component_entry ?fs c))"
        using that(3) by (simp add: component_entry_def)
      fix e assume e: "e \<in> set (all_components st)" "impl_id i \<in> impl_id ` set (implementations e)"
      from e(1) obtain d where d: "d \<in> set ?cs" "e = component_entry ?fs d" unfolding all set_map by blast
      moreover from e(2) d(2) obtain j where "j \<in> set (snd d)" "impl_id i = impl_id j"
        by (auto simp: component_entry_def)
      ultimately show "e = component_entry ?fs c" using distinct_owner [OF ids] c that(3) by metis
    qed
    moreover have "fst c \<in> set ?fs" using m that by (auto simp: machine_valid_def)
    ultimately show ?thesis
      using index_of_less [of "fst c" ?fs]
      by (simp add: hxml_get_functional_component_type_def get_functional_component_from_implementation_def
          hxml_get_start_input_xr_def hxml_get_start_output_xr_def component_entry_def st(2) functional_table_def
          type_of_def)
  qed
  with st show ?thesis by (auto simp: hxml_read_xml_def)
qed

text \<open>A machine with a processor and an FPGA that has one implementation.\<close>

definition example_machine :: machine where
  "example_machine =
    \<lparr>m_functional = [(''Arm'', GPP), (''Virtex4'', FPGA)], m_storage = [''MEM'', ''XREG''],
     m_buses = [\<lparr>bd_name = ''xr'', bd_addr = 10, bd_data = 32, bd_read = 3, bd_functional = [''Virtex4''],
                 bd_storage = [''XREG'']\<rparr>],
     m_operations = [(''sad'', [(''Virtex4'', [\<lparr>impl_id = 7, start_input_xr = 3, start_output_xr = 2\<rparr>])])]\<rparr>"

lemma architecture_read_back_witness:
  "\<exists>st. hxml_read_xml (Some (machine_xml (\<lambda>s. [take 1 s, drop 1 s]) example_machine, True)) (False, hxml_init)
      = Inr (0, True, st)
    \<and> hxml_get_functional_component_type st 7 = Inr FPGA \<and> hxml_get_start_input_xr st 7 = Inr 3"
proof -
  have "splits (\<lambda>s. [take 1 s, drop 1 s])" by (simp add: splits_def)
  moreover have "machine_valid example_machine"
    by (simp add: machine_valid_def example_machine_def bus_valid_def fits_int_def impl_ok_def)
  moreover have "distinct (map impl_id (concat (map snd (concat (map snd (m_operations example_machine))))))"
    by (simp add: example_machine_def)
  ultimately show ?thesis
    using architecture_read_back [of "\<lambda>s. [take 1 s, drop 1 s]" example_machine]
    by (fastforce simp: example_machine_def type_of_def index_of_def)
qed

end
