(* ===== verification/Trees.thy ===== *)
theory Trees
  imports Attribs Hxml Cursor
begin

text \<open>
  The trees that the hArtes passes look at: types, arguments, calls and statements, and the builtins of
  \<open>builtins.def\<close> they insert. A statement list is a list of statements, for the iterators of \<open>Cursor\<close>.
\<close>

section \<open>Trees\<close>

text \<open>A type: its code, the low word of \<open>TYPE_SIZE_UNIT\<close> when that is a constant, \<open>TREE_TYPE\<close>, the read-only
  and volatile flags, the types of the fields, the name, whether it is one of the nodes for \<open>long\<close>, and the type a
  typedef name stands for.\<close>

datatype type_code =
    INTEGER_CODE | REAL_CODE | POINTER_CODE | ARRAY_CODE | VOID_CODE | ENUMERAL_CODE | COMPLEX_CODE | VECTOR_CODE | RECORD_CODE

datatype ty =
  Ty (type_code: type_code) (type_size_unit: "int option") (target_type: "ty option") (type_readonly: bool)
    (type_volatile: bool) (type_fields: "ty list") (type_name: "string option") (type_long: bool)
    (original_type: "ty option")

definition integer_type_node :: ty where "integer_type_node = Ty INTEGER_CODE (Some 4) None False False [] (Some ''int'') False None"
definition float_type_node :: ty where "float_type_node = Ty REAL_CODE (Some 4) None False False [] (Some ''float'') False None"
definition void_type_node :: ty where "void_type_node = Ty VOID_CODE None None False False [] (Some ''void'') False None"

definition pointer_to :: "ty \<Rightarrow> ty" where
  "pointer_to t = Ty POINTER_CODE (Some 4) (Some t) False False [] None False None"

text \<open>The object an address is taken of. \<open>op_attributes\<close> is what stands where a declaration has its
  attributes; \<open>op_index\<close> is the index of an array reference when it is a constant and \<open>op_array_type\<close> the type of the
  array; \<open>op_node\<close> tells the nodes of references apart.\<close>

datatype object_code = Var_object | Array_ref | Other_object

record addr_operand =
  op_code :: object_code
  op_name :: string
  op_type :: ty
  op_attributes :: "string attribute list"
  op_index :: "int option"
  op_array_type :: "ty option"
  op_node :: nat

datatype arg =
    Addr_expr ty addr_operand
  | Var_arg ty string
  | Parm_arg ty string
  | Ssa_arg ty string
  | Int_arg int
  | Real_arg string
  | String_arg string
  | Bit_and_arg arg int
  | Rshift_arg arg int
  | Other_arg ty string

datatype builtin =
    FPGA_SET | FPGA_MOVET | FPGA_MOVET_ADDR | FPGA_MOVEF | FPGA_MOVEF_ADDR | FPGA_EXECUTE | FPGA_BREAK
  | HARTES_STATS_BEGIN | HARTES_STATS_PARMIN | HARTES_STATS_EXEC | HARTES_STATS_PARMOUT | MOLEN_DUMMY
  | BUILT_IN_HARTES_RPC | BUILT_IN_HARTES_RPC_END
  | BUILT_IN_DSP_PARM_INT | BUILT_IN_DSP_PARM_LONG | BUILT_IN_DSP_PARM_FLOAT | BUILT_IN_DSP_PARM_CFLOAT
  | BUILT_IN_DSP_PARM_VFLOAT | BUILT_IN_DSP_PARM_CLONG | BUILT_IN_DSP_PARM_VLONG
  | BUILT_IN_DSP_POINTER_INT | BUILT_IN_DSP_POINTER_FLOAT | BUILT_IN_DSP_POINTER_DWORD
  | BUILT_IN_DSP_PARM_WRITE_INT | BUILT_IN_DSP_PARM_WRITE_LONG | BUILT_IN_DSP_PARM_WRITE_FLOAT
  | BUILT_IN_DSP_PARM_WRITE_CFLOAT | BUILT_IN_DSP_PARM_WRITE_VFLOAT | BUILT_IN_DSP_PARM_WRITE_CLONG
  | BUILT_IN_DSP_PARM_WRITE_VLONG
  | BUILT_IN_DSP_PRE_EXEC | BUILT_IN_DSP_EXEC | BUILT_IN_DSP_EXEC_NOWAIT
  | BUILT_IN_DSP_RETI | BUILT_IN_DSP_RETL | BUILT_IN_DSP_RETF | BUILT_IN_DSP_RETDF | BUILT_IN_DSP_RETDL

text \<open>A function declaration: a builtin, or a function of the program with its attributes and parameter types.\<close>

datatype fndecl =
    Builtin builtin
  | Function (fn_ident: string) (fn_attributes: "string attribute list") (fn_arg_types: "ty list")

definition builtin_name :: "builtin \<Rightarrow> string" where
  "builtin_name b =
    (case b of
       FPGA_SET \<Rightarrow> ''molen_SET'' | FPGA_MOVET \<Rightarrow> ''molen_MOVTXval'' | FPGA_MOVET_ADDR \<Rightarrow> ''molen_MOVTXaddr''
     | FPGA_MOVEF \<Rightarrow> ''molen_MOVFX'' | FPGA_MOVEF_ADDR \<Rightarrow> ''molen_MOVFXaddr'' | FPGA_EXECUTE \<Rightarrow> ''molen_EXECUTE''
     | FPGA_BREAK \<Rightarrow> ''molen_BREAK'' | HARTES_STATS_BEGIN \<Rightarrow> ''hartes_stats_begin''
     | HARTES_STATS_PARMIN \<Rightarrow> ''hartes_stats_parmin'' | HARTES_STATS_EXEC \<Rightarrow> ''hartes_stats_exec''
     | HARTES_STATS_PARMOUT \<Rightarrow> ''hartes_stats_parmout'' | MOLEN_DUMMY \<Rightarrow> ''molen_dummy''
     | BUILT_IN_HARTES_RPC \<Rightarrow> ''hartes_rpc'' | BUILT_IN_HARTES_RPC_END \<Rightarrow> ''hartes_rpc_end''
     | BUILT_IN_DSP_PARM_INT \<Rightarrow> ''dsp_parm_int'' | BUILT_IN_DSP_PARM_LONG \<Rightarrow> ''dsp_parm_long''
     | BUILT_IN_DSP_PARM_FLOAT \<Rightarrow> ''dsp_parm_float'' | BUILT_IN_DSP_PARM_CFLOAT \<Rightarrow> ''dsp_parm_cfloat''
     | BUILT_IN_DSP_PARM_VFLOAT \<Rightarrow> ''dsp_parm_vfloat'' | BUILT_IN_DSP_PARM_CLONG \<Rightarrow> ''dsp_parm_clong''
     | BUILT_IN_DSP_PARM_VLONG \<Rightarrow> ''dsp_parm_vlong'' | BUILT_IN_DSP_POINTER_INT \<Rightarrow> ''dsp_pointer_int''
     | BUILT_IN_DSP_POINTER_FLOAT \<Rightarrow> ''dsp_pointer_float'' | BUILT_IN_DSP_POINTER_DWORD \<Rightarrow> ''dsp_pointer_dword''
     | BUILT_IN_DSP_PARM_WRITE_INT \<Rightarrow> ''dsp_parm_write_int'' | BUILT_IN_DSP_PARM_WRITE_LONG \<Rightarrow> ''dsp_parm_write_long''
     | BUILT_IN_DSP_PARM_WRITE_FLOAT \<Rightarrow> ''dsp_parm_write_float''
     | BUILT_IN_DSP_PARM_WRITE_CFLOAT \<Rightarrow> ''dsp_parm_write_cfloat''
     | BUILT_IN_DSP_PARM_WRITE_VFLOAT \<Rightarrow> ''dsp_parm_write_vfloat''
     | BUILT_IN_DSP_PARM_WRITE_CLONG \<Rightarrow> ''dsp_parm_write_clong''
     | BUILT_IN_DSP_PARM_WRITE_VLONG \<Rightarrow> ''dsp_parm_write_vlong'' | BUILT_IN_DSP_PRE_EXEC \<Rightarrow> ''dsp_pre_exec''
     | BUILT_IN_DSP_EXEC \<Rightarrow> ''dsp_exec'' | BUILT_IN_DSP_EXEC_NOWAIT \<Rightarrow> ''dsp_exec_nowait''
     | BUILT_IN_DSP_RETI \<Rightarrow> ''dsp_reti'' | BUILT_IN_DSP_RETL \<Rightarrow> ''dsp_retl'' | BUILT_IN_DSP_RETF \<Rightarrow> ''dsp_retf''
     | BUILT_IN_DSP_RETDF \<Rightarrow> ''dsp_retdf'' | BUILT_IN_DSP_RETDL \<Rightarrow> ''dsp_retdl'')"

definition decl_name :: "fndecl \<Rightarrow> string" where
  "decl_name d = (case d of Builtin b \<Rightarrow> ''__builtin_'' @ builtin_name b | Function n _ _ \<Rightarrow> n)"

definition decl_attributes :: "fndecl \<Rightarrow> string attribute list" where
  "decl_attributes d = (case d of Builtin b \<Rightarrow> [] | Function _ a _ \<Rightarrow> a)"

definition decl_arg_types :: "fndecl \<Rightarrow> ty list" where
  "decl_arg_types d = (case d of Builtin b \<Rightarrow> [] | Function _ _ ts \<Rightarrow> ts)"

text \<open>A call: the function, when \<open>get_callee_fndecl\<close> knows it, its arguments and type, and its place in the source,
  whose file may be unknown.\<close>

record call_expr =
  callee :: "fndecl option"
  args :: "arg list"
  call_type :: ty
  location :: "string option \<times> int"

datatype rhs = Call_rhs call_expr | Sized_call_rhs call_expr | Nop_rhs arg | Value_rhs arg

datatype stmt =
    Null_tree
  | Call_stmt call_expr
  | Modify_stmt string rhs "string option \<times> int"
  | Try_stmt stmt stmt
  | Catch_stmt stmt
  | Bind_expr stmt
  | Stmt_list "stmt list"
  | Omp_parallel stmt
  | Omp_sections stmt
  | Omp_section stmt
  | Cond_expr stmt stmt
  | Label_expr string
  | Goto_expr string
  | Other_stmt string

text \<open>\<open>get_call_expr_in\<close> of \<open>tree-gimple.c\<close>, for statements that are not \<open>NULL\<close>.\<close>

fun get_call_expr_in :: "stmt \<Rightarrow> call_expr option" where
  "get_call_expr_in (Call_stmt c) = Some c"
| "get_call_expr_in (Modify_stmt lhs (Call_rhs c) loc) = Some c"
| "get_call_expr_in (Modify_stmt lhs (Sized_call_rhs c) loc) = Some c"
| "get_call_expr_in _ = None"

text \<open>The statements that a call is looked for in.\<close>

definition is_call_stmt :: "stmt \<Rightarrow> bool" where
  "is_call_stmt s \<longleftrightarrow> (case s of Call_stmt c \<Rightarrow> True | Modify_stmt l r loc \<Rightarrow> True | _ \<Rightarrow> False)"

definition build_call_expr :: "builtin \<Rightarrow> arg list \<Rightarrow> stmt" where
  "build_call_expr b as =
    Call_stmt \<lparr>callee = Some (Builtin b), args = as, call_type = void_type_node, location = (None, 0)\<rparr>"

text \<open>The address of a variable the pass has made.\<close>

definition build_fold_addr_expr :: "arg \<Rightarrow> arg" where
  "build_fold_addr_expr v =
    (case v of
       Var_arg t n \<Rightarrow>
         Addr_expr (pointer_to t) \<lparr>op_code = Var_object, op_name = n, op_type = t, op_attributes = [], op_index = None,
           op_array_type = None, op_node = 0\<rparr>
     | _ \<Rightarrow> v)"

definition stmt_location :: "stmt \<Rightarrow> string option \<times> int" where
  "stmt_location s = (case s of Call_stmt c \<Rightarrow> location c | Modify_stmt lhs r loc \<Rightarrow> loc | _ \<Rightarrow> (None, 0))"

text \<open>Parameters are expanded before the call and again behind it.\<close>

datatype io_type = IO_PROLOGUE | IO_EPILOGUE

fun strstr :: "string \<Rightarrow> string \<Rightarrow> bool" where
  "strstr [] p \<longleftrightarrow> p = []"
| "strstr (c # cs) p \<longleftrightarrow> take (length p) (c # cs) = p \<or> strstr cs p"

section \<open>The calls in a program\<close>

text \<open>A dummy call stands for a pragma in front of a statement.\<close>

definition is_dummy :: "call_expr \<Rightarrow> bool" where
  "is_dummy c \<longleftrightarrow> (case callee c of None \<Rightarrow> False | Some d \<Rightarrow> decl_name d = ''__builtin_molen_dummy'')"

text \<open>The calls that the passes reach.\<close>

fun tree_calls :: "stmt \<Rightarrow> call_expr list" and section_calls :: "stmt \<Rightarrow> call_expr list" where
  "tree_calls (Call_stmt c) = [c]"
| "tree_calls (Modify_stmt lhs (Call_rhs c) loc) = [c]"
| "tree_calls (Modify_stmt lhs (Sized_call_rhs c) loc) = [c]"
| "tree_calls (Try_stmt a b) = tree_calls a @ tree_calls b"
| "tree_calls (Catch_stmt a) = tree_calls a"
| "tree_calls (Bind_expr a) = tree_calls a"
| "tree_calls (Stmt_list ss) = concat (map tree_calls ss)"
| "tree_calls (Omp_parallel a) = tree_calls a"
| "tree_calls (Omp_sections (Stmt_list ss)) = concat (map section_calls ss)"
| "tree_calls (Cond_expr a b) = tree_calls a @ tree_calls b"
| "tree_calls s = []"
| "section_calls (Omp_section a) = tree_calls a"
| "section_calls s = []"

definition of_program :: "call_expr \<Rightarrow> bool" where
  "of_program c \<longleftrightarrow> (case callee c of Some (Builtin b) \<Rightarrow> False | _ \<Rightarrow> True)"

lemma tree_calls_get:
  "is_call_stmt s \<Longrightarrow> tree_calls s = (case get_call_expr_in s of None \<Rightarrow> [] | Some c \<Rightarrow> [c])"
proof (cases s)
  case (Modify_stmt lhs r loc)
  then show ?thesis by (cases r) simp_all
qed (simp_all add: is_call_stmt_def)

lemma get_call_is_call: "get_call_expr_in s = Some c \<Longrightarrow> is_call_stmt s"
  by (cases s) (simp_all add: is_call_stmt_def)

lemma builtin_dummy: "callee c = Some (Builtin b) \<Longrightarrow> is_dummy c \<longleftrightarrow> b = MOLEN_DUMMY"
  by (cases b) (simp_all add: is_dummy_def decl_name_def builtin_name_def)

lemma build_calls [simp]:
  "tree_calls (build_call_expr b as) =
    [\<lparr>callee = Some (Builtin b), args = as, call_type = void_type_node, location = (None, 0)\<rparr>]"
  by (simp add: build_call_expr_def)

end
