(* ===== verification/Fpga.thy ===== *)
theory Fpga
  imports Trees
begin

text \<open>
  The hArtes passes for the FPGA, \<open>gcc/fpga.c\<close>: calls of functions that a pragma has mapped to the FPGA are
  replaced by transfers to its exchange registers, its start and the wait for its end; and parallel sections are
  merged so that all accelerators are started before the first is waited for. Statement lists are
  changed through cursors. A call of \<open>exit\<close> is \<open>Inl\<close>, and \<open>Fpga_fault\<close> stands for a read through \<open>NULL\<close>, a
  failing assertion and a tree field that is read although the tree has none. Messages for debugging are left out.
  The count of transferred bytes \<open>trx_bytes\<close> is an \<open>int\<close> without a bound: its signed overflow is undefined in C.
\<close>

section \<open>Settings and state\<close>

text \<open>\<open>stale_return\<close> tells whether the variable \<open>fpga_return\<close>, which is tested before it is set, happens to hold
  \<open>NULL\<close>.\<close>

record fpga_env =
  fpga :: bool
  fpgastat :: bool
  fpga_call_generate_set :: bool
  hartes_configuration_xml :: bool
  configuration_file :: "(xml_event list \<times> bool) option"
  stale_return :: bool

datatype fpga_warning = Pointer_argument string | Pointer_result string | Call_fpga_ignored

record fpga_state =
  trx_bytes :: int
  fpga_id_dummy :: int
  tmp_var_id_num :: nat
  hxml_db :: "bool \<times> hxml_state"
  fpga_warnings :: "fpga_warning list"

definition fpga_init :: fpga_state where
  "fpga_init = \<lparr>trx_bytes = 0, fpga_id_dummy = -1, tmp_var_id_num = 0, hxml_db = (False, hxml_init), fpga_warnings = []\<rparr>"

datatype fpga_stop =
    Pointer_type_not_handled
  | Cannot_handle_argument nat
  | Two_dummies
  | Unsupported_return_type
  | Hxml_stop hxml_stop
  | Fpga_fault

text \<open>A new variable; its name carries a running number.\<close>

definition create_tmp_var :: "ty \<Rightarrow> string \<Rightarrow> fpga_state \<Rightarrow> arg \<times> fpga_state" where
  "create_tmp_var t prefix st =
    (Var_arg t (prefix @ ''.'' @ digits 10 (tmp_var_id_num st)), st\<lparr>tmp_var_id_num := tmp_var_id_num st + 1\<rparr>)"

section \<open>Parameters\<close>

text \<open>The first parameter of the list with the number \<open>arg\<close>; a typedef name is looked through once.\<close>

definition is_param_const :: "fndecl \<Rightarrow> nat \<Rightarrow> int" where
  "is_param_const decl n =
    (if n < length (decl_arg_types decl) then
       let parm = decl_arg_types decl ! n;
           parm = (case original_type parm of None \<Rightarrow> parm | Some t \<Rightarrow> t)
       in (case target_type parm of
             Some t \<Rightarrow> if type_code parm = POINTER_CODE \<and> type_readonly t then 1 else 0
           | None \<Rightarrow> 0)
     else 0)"

text \<open>The bytes to transfer for an address: for an array reference the code takes the size of the element it
  refers to, less the index.\<close>

definition transfer_size :: "nat \<Rightarrow> addr_operand \<Rightarrow> fpga_stop + int" where
  "transfer_size i opnd =
    (if op_code opnd = Array_ref then
       (case (op_index opnd, type_size_unit (op_type opnd)) of
          (Some offset, Some bytes) \<Rightarrow> Inr (bytes - offset)
        | _ \<Rightarrow> Inl Fpga_fault)
     else if type_code (op_type opnd) = ARRAY_CODE \<or> op_code opnd = Var_object then
       (case type_size_unit (op_type opnd) of Some bytes \<Rightarrow> Inr bytes | None \<Rightarrow> Inl Fpga_fault)
     else Inl (Cannot_handle_argument (i + 1)))"

text \<open>A transfer through the exchange register of argument \<open>i\<close>.\<close>

definition exchange :: "fpga_state \<Rightarrow> builtin \<Rightarrow> int \<Rightarrow> nat \<Rightarrow> arg list \<Rightarrow> fpga_stop + stmt list" where
  "exchange st b fpga_id i rest =
    (case hxml_get_start_input_xr (snd (hxml_db st)) fpga_id of
       Inl e \<Rightarrow> Inl (Hxml_stop e)
     | Inr start \<Rightarrow> Inr [build_call_expr b ([Int_arg fpga_id, Int_arg (int i + start)] @ rest)])"

definition with_state :: "fpga_state \<Rightarrow> fpga_stop + stmt list \<Rightarrow> fpga_stop + stmt list \<times> fpga_state" where
  "with_state st r = map_sum (\<lambda>e. e) (\<lambda>ms. (ms, st)) r"

text \<open>The statements for one argument, by its tree code. The value of an address that carries the section attribute
  of the accelerator's memory is passed without a copy.\<close>

definition expand_address ::
  "fndecl \<Rightarrow> io_type \<Rightarrow> int \<Rightarrow> nat \<Rightarrow> ty \<Rightarrow> addr_operand \<Rightarrow> fpga_state \<Rightarrow> fpga_stop + stmt list \<times> fpga_state" where
  "expand_address decl io fpga_id i t opnd st =
    (let arg = Addr_expr t opnd; const = is_param_const decl i
     in case lookup_attribute ''section'' (op_attributes opnd) of
          None \<Rightarrow> Inl Fpga_fault
        | Some attr \<Rightarrow>
            if attr \<noteq> [] \<and> strstr (snd (hd attr)) ''.hpp_ccu_ram'' then
              with_state st (if io = IO_PROLOGUE then exchange st FPGA_MOVET fpga_id i [arg] else Inr [])
            else
              (case target_type t of
                 None \<Rightarrow> Inl Fpga_fault
               | Some inner_type \<Rightarrow>
                   if type_code inner_type \<noteq> REAL_CODE \<and> type_code inner_type \<noteq> INTEGER_CODE
                   then Inl Pointer_type_not_handled
                   else
                     (case transfer_size i opnd of
                        Inl e \<Rightarrow> Inl e
                      | Inr arr_size \<Rightarrow>
                          let st = st\<lparr>trx_bytes := trx_bytes st + arr_size * 4\<rparr>
                          in with_state st
                              (case io of
                                 IO_PROLOGUE \<Rightarrow>
                                   exchange st FPGA_MOVET_ADDR fpga_id i [arg, Int_arg arr_size, Int_arg (1 - const)]
                               | IO_EPILOGUE \<Rightarrow>
                                   if const = 0 then exchange st FPGA_MOVEF_ADDR fpga_id i [arg, Int_arg arr_size]
                                   else Inr []))))"

definition expand_other ::
  "io_type \<Rightarrow> int \<Rightarrow> nat \<Rightarrow> arg \<Rightarrow> fpga_state \<Rightarrow> fpga_stop + stmt list \<times> fpga_state" where
  "expand_other io fpga_id i arg st =
    (case io of
       IO_PROLOGUE \<Rightarrow>
         let st = st\<lparr>trx_bytes := trx_bytes st + 4\<rparr> in with_state st (exchange st FPGA_MOVET fpga_id i [arg])
     | IO_EPILOGUE \<Rightarrow> Inr ([], st))"

text \<open>A variable that the function must not change falls through to the last case of the switch after the call.\<close>

definition expand_variable ::
  "fndecl \<Rightarrow> io_type \<Rightarrow> int \<Rightarrow> nat \<Rightarrow> ty \<Rightarrow> arg \<Rightarrow> fpga_state \<Rightarrow> fpga_stop + stmt list \<times> fpga_state" where
  "expand_variable decl io fpga_id i t arg st =
    (let const = is_param_const decl i;
         warned = st\<lparr>fpga_warnings := fpga_warnings st @ [Pointer_argument (decl_name decl)]\<rparr>
     in case io of
          IO_PROLOGUE \<Rightarrow>
            if type_code t = POINTER_CODE then
              with_state warned (exchange warned FPGA_MOVET_ADDR fpga_id i [arg, Int_arg 0, Int_arg (1 - const)])
            else expand_other io fpga_id i arg st
        | IO_EPILOGUE \<Rightarrow>
            if const = 0 then
              (if type_code t = POINTER_CODE
               then with_state warned (exchange warned FPGA_MOVEF_ADDR fpga_id i [arg, Int_arg 0])
               else Inr ([], st))
            else expand_other io fpga_id i arg st)"

definition expand_parameter ::
  "fndecl \<Rightarrow> io_type \<Rightarrow> int \<Rightarrow> nat \<Rightarrow> arg \<Rightarrow> fpga_state \<Rightarrow> fpga_stop + stmt list \<times> fpga_state" where
  "expand_parameter decl io fpga_id i arg st =
    (case arg of
       Addr_expr t opnd \<Rightarrow> expand_address decl io fpga_id i t opnd st
     | Var_arg t n \<Rightarrow> expand_variable decl io fpga_id i t arg st
     | Parm_arg t n \<Rightarrow> expand_variable decl io fpga_id i t arg st
     | Ssa_arg t n \<Rightarrow> expand_variable decl io fpga_id i t arg st
     | _ \<Rightarrow> expand_other io fpga_id i arg st)"

fun expand_from ::
  "fndecl \<Rightarrow> io_type \<Rightarrow> int \<Rightarrow> nat \<Rightarrow> arg list \<Rightarrow> fpga_state \<Rightarrow> fpga_stop + stmt list \<times> fpga_state" where
  "expand_from decl io fpga_id i [] st = Inr ([], st)"
| "expand_from decl io fpga_id i (arg # as) st =
    (case expand_parameter decl io fpga_id i arg st of
       Inl e \<Rightarrow> Inl e
     | Inr (ms, st) \<Rightarrow>
         (case expand_from decl io fpga_id (i + 1) as st of
            Inl e \<Rightarrow> Inl e
          | Inr (ms', st) \<Rightarrow> Inr (ms @ ms', st)))"

text \<open>The statements that are linked before the call.\<close>

definition expand_parameters ::
  "fndecl \<Rightarrow> call_expr \<Rightarrow> io_type \<Rightarrow> int \<Rightarrow> fpga_state \<Rightarrow> fpga_stop + stmt list \<times> fpga_state" where
  "expand_parameters decl call io fpga_id st = expand_from decl io fpga_id 0 (args call) st"

section \<open>Calls\<close>

text \<open>The number in the attribute or in the argument of the dummy call.\<close>

definition call_hw_id :: "string \<Rightarrow> int \<Rightarrow> int option" where
  "call_hw_id s fpga_id =
    map_option (\<lambda>r. sint (fst r)) (hartes_call_hw_get_params (Some s) (word_of_int fpga_id) None)"

definition attribute_id :: "fndecl \<Rightarrow> int option" where
  "attribute_id decl =
    (case lookup_attribute ''call_hw'' (decl_attributes decl) of
       None \<Rightarrow> None
     | Some [] \<Rightarrow> Some (-1)
     | Some (attr # _) \<Rightarrow> call_hw_id (snd attr) (-1))"

definition read_configuration :: "fpga_env \<Rightarrow> fpga_state \<Rightarrow> fpga_stop + fpga_state" where
  "read_configuration env st =
    (case hxml_read_xml (configuration_file env) (hxml_db st) of
       Inl e \<Rightarrow> Inl (Hxml_stop e)
     | Inr (_, db) \<Rightarrow> Inr (st\<lparr>hxml_db := db\<rparr>))"

text \<open>The call that stands for a pragma inside a function: it is removed, and its number is kept for the next call.\<close>

definition molen_dummy :: "fpga_env \<Rightarrow> call_expr \<Rightarrow> int \<Rightarrow> stmt cursor \<Rightarrow> fpga_state \<Rightarrow> fpga_stop + stmt cursor \<times> fpga_state" where
  "molen_dummy env call fpga_id tsi st =
    (case args call of
       String_arg s # _ \<Rightarrow>
         (case call_hw_id s fpga_id of
            None \<Rightarrow> Inl Fpga_fault
          | Some fpga_id \<Rightarrow>
              (case read_configuration env st of
                 Inl e \<Rightarrow> Inl e
               | Inr st \<Rightarrow>
                   (case hxml_get_functional_component_type (snd (hxml_db st)) fpga_id of
                      Inl e \<Rightarrow> Inl (Hxml_stop e)
                    | Inr type \<Rightarrow>
                        (case (if type = FPGA then Option.bind (cursor_delink tsi) cursor_prev else Some tsi) of
                           None \<Rightarrow> Inl Fpga_fault
                         | Some tsi \<Rightarrow>
                             if fpga_id_dummy st \<noteq> -1 then Inl Two_dummies
                             else Inr (tsi, st\<lparr>fpga_id_dummy := (if type = FPGA then fpga_id else -1)\<rparr>)))))
     | _ \<Rightarrow> Inl Fpga_fault)"

text \<open>The symbol the loader finds the accelerator's code by. The buffer has 1024 characters.\<close>

definition set_statement :: "string \<Rightarrow> int \<Rightarrow> stmt" where
  "set_statement func_name fpga_id =
    (let symbol_name = take 1023 (func_name @ ''_'' @ dec fpga_id @ ''__fpga_text__'')
     in build_call_expr FPGA_SET [build_fold_addr_expr (Var_arg (pointer_to void_type_node) symbol_name)])"

definition FPGADEV :: int where "FPGADEV = 2"

text \<open>The length of an unknown file's name cannot be taken.\<close>

definition stats_begin :: "string \<Rightarrow> stmt \<Rightarrow> fpga_stop + stmt list" where
  "stats_begin func_name stmt =
    (case stmt_location stmt of
       (None, lineno) \<Rightarrow> Inl Fpga_fault
     | (Some file_name, lineno) \<Rightarrow>
         Inr [build_call_expr HARTES_STATS_BEGIN [String_arg func_name, String_arg file_name, Int_arg lineno, Int_arg FPGADEV]])"

definition stats_bytes :: "fpga_env \<Rightarrow> builtin \<Rightarrow> fpga_state \<Rightarrow> stmt list" where
  "stats_bytes env b st =
    (if fpgastat env \<and> trx_bytes st \<noteq> 0 then [build_call_expr b [Int_arg (trx_bytes st)]] else [])"

text \<open>The variable for the result, by the type of the call.\<close>

definition return_variable :: "call_expr \<Rightarrow> fndecl \<Rightarrow> arg \<Rightarrow> arg \<Rightarrow> fpga_state \<Rightarrow> fpga_stop + arg \<times> fpga_state" where
  "return_variable call decl fpga_return_int fpga_return_float st =
    (case type_code (call_type call) of
       INTEGER_CODE \<Rightarrow> Inr (fpga_return_int, st)
     | REAL_CODE \<Rightarrow> Inr (fpga_return_float, st)
     | POINTER_CODE \<Rightarrow>
         Inr (fpga_return_int, st\<lparr>fpga_warnings := fpga_warnings st @ [Pointer_result (decl_name decl)]\<rparr>)
     | VOID_CODE \<Rightarrow> Inr (fpga_return_int, st)
     | _ \<Rightarrow> Inl Unsupported_return_type)"

text \<open>All that is linked before the call, with the variable that holds the result.\<close>

definition call_sequence ::
  "fpga_env \<Rightarrow> stmt \<Rightarrow> call_expr \<Rightarrow> fndecl \<Rightarrow> int \<Rightarrow> arg \<Rightarrow> arg \<Rightarrow> fpga_state \<Rightarrow> fpga_stop + stmt list \<times> arg \<times> fpga_state" where
  "call_sequence env stmt call decl fpga_id fpga_return_int fpga_return_float st =
    (case (if fpgastat env then stats_begin (decl_name decl) stmt else Inr []) of
       Inl e \<Rightarrow> Inl e
     | Inr begins \<Rightarrow>
     (case expand_parameters decl call IO_PROLOGUE fpga_id st of
       Inl e \<Rightarrow> Inl e
     | Inr (ins, st) \<Rightarrow>
         let parmin = stats_bytes env HARTES_STATS_PARMIN st
         in
     (case expand_parameters decl call IO_EPILOGUE fpga_id st of
       Inl e \<Rightarrow> Inl e
     | Inr (outs, st) \<Rightarrow>
         let parmout = stats_bytes env HARTES_STATS_PARMOUT st
         in
     (case return_variable call decl fpga_return_int fpga_return_float st of
       Inl e \<Rightarrow> Inl e
     | Inr (fpga_return, st) \<Rightarrow>
     (case hxml_get_start_output_xr (snd (hxml_db st)) fpga_id of
       Inl e \<Rightarrow> Inl (Hxml_stop e)
     | Inr xr \<Rightarrow>
         Inr ((if fpga_call_generate_set env then [set_statement (decl_name decl) fpga_id] else [])
              @ begins @ ins @ parmin
              @ [build_call_expr FPGA_EXECUTE [Int_arg fpga_id], build_call_expr FPGA_BREAK [Int_arg fpga_id]]
              @ (if fpgastat env then [build_call_expr HARTES_STATS_EXEC []] else [])
              @ outs @ parmout
              @ [build_call_expr FPGA_MOVEF [Int_arg fpga_id, Int_arg xr, build_fold_addr_expr fpga_return]],
              fpga_return, st))))))"

definition replace_mapped ::
  "fpga_env \<Rightarrow> stmt cursor \<Rightarrow> stmt \<Rightarrow> call_expr \<Rightarrow> fndecl \<Rightarrow> int \<Rightarrow> arg \<Rightarrow> arg \<Rightarrow> fpga_state
   \<Rightarrow> fpga_stop + stmt cursor \<times> fpga_state" where
  "replace_mapped env tsi stmt call decl fpga_id fpga_return_int fpga_return_float st =
    (case (if hartes_configuration_xml env then read_configuration env st else Inr st) of
       Inl e \<Rightarrow> Inl e
     | Inr st \<Rightarrow>
     (case hxml_get_functional_component_type (snd (hxml_db st)) fpga_id of
       Inl e \<Rightarrow> Inl (Hxml_stop e)
     | Inr type \<Rightarrow>
         if type \<noteq> FPGA then Inr (tsi, st)
         else
           let st = (if stale_return env then snd (create_tmp_var integer_type_node ''__fpga_return'' st) else st)
           in
     (case call_sequence env stmt call decl fpga_id fpga_return_int fpga_return_float st of
       Inl e \<Rightarrow> Inl e
     | Inr (new, fpga_return, st) \<Rightarrow>
         let tsi = cursor_link_before new tsi
         in (case stmt of
               Modify_stmt lhs r loc \<Rightarrow> Inr (cursor_replace (Modify_stmt lhs (Value_rhs fpga_return) loc) tsi, st)
             | Call_stmt c \<Rightarrow>
                 (case cursor_delink tsi of
                    None \<Rightarrow> Inl Fpga_fault
                  | Some tsi \<Rightarrow>
                      if cursor_stmt tsi = None then Inr (tsi, st)
                      else (case cursor_prev tsi of None \<Rightarrow> Inl Fpga_fault | Some tsi \<Rightarrow> Inr (tsi, st)))
             | _ \<Rightarrow> Inl Fpga_fault))))"

definition replace_call_tree_tsi :: "fpga_env \<Rightarrow> stmt cursor \<Rightarrow> fpga_state \<Rightarrow> fpga_stop + stmt cursor \<times> fpga_state" where
  "replace_call_tree_tsi env tsi st =
    (case create_tmp_var integer_type_node ''__fpga_return_int'' st of
       (fpga_return_int, st) \<Rightarrow>
     (case create_tmp_var float_type_node ''__fpga_return_float'' st of
       (fpga_return_float, st) \<Rightarrow>
     (case cursor_stmt tsi of
       None \<Rightarrow> Inl Fpga_fault
     | Some stmt \<Rightarrow>
     (case get_call_expr_in stmt of
       None \<Rightarrow> Inr (tsi, st)
     | Some call \<Rightarrow>
     (case callee call of
       None \<Rightarrow> Inr (tsi, st)
     | Some decl \<Rightarrow>
     (case attribute_id decl of
       None \<Rightarrow> Inl Fpga_fault
     | Some fpga_id \<Rightarrow>
         if decl_name decl = ''__builtin_molen_dummy'' then molen_dummy env call fpga_id tsi st
         else
           let (fpga_id, st) =
                 (if fpga_id_dummy st \<noteq> -1 then (fpga_id_dummy st, st\<lparr>fpga_id_dummy := -1\<rparr>) else (fpga_id, st))
           in if fpga_id \<noteq> -1
              then replace_mapped env tsi stmt call decl fpga_id fpga_return_int fpga_return_float st
              else
                (case lookup_attribute ''call_fpga'' (decl_attributes decl) of
                   None \<Rightarrow> Inl Fpga_fault
                 | Some attr \<Rightarrow>
                     Inr (tsi, if attr = [] then st
                               else st\<lparr>fpga_warnings := fpga_warnings st @ [Call_fpga_ignored]\<rparr>))))))))"

end
