(* ===== verification/FpgaWalk.thy ===== *)
theory FpgaWalk
  imports Fpga
begin

text \<open>
  The walk of \<open>gcc/fpga.c\<close> over the body of a function, \<open>do_fpga_replace_calls_tree\<close>. Each statement list
  is walked with an iterator that the replacement of a call may move.
\<close>

section \<open>The iterator after a replacement\<close>

text \<open>Whatever the replacement of a call does, stepping over the iterator it leaves gives the statements
  that followed the call.\<close>

lemma molen_dummy_rest:
  assumes "molen_dummy env call i (xs, s # ys) st = Inr (z, st')" "cursor_next z = Some z'"
  shows "snd z' = ys"
  using assms by (auto simp: molen_dummy_def bind_eq_Some_conv split: list.splits arg.splits option.splits sum.splits
      if_splits) (metis prev_next)+

lemma replace_mapped_rest:
  assumes "replace_mapped env (xs, s # ys) stmt call decl i a b st = Inr (z, st')" "cursor_next z = Some z'"
  shows "snd z' = ys"
  using assms by (auto simp: replace_mapped_def cursor_link_before_def Let_def
      split: sum.splits option.splits stmt.splits if_splits) (metis prev_next)+

lemma replace_call_rest:
  assumes "replace_call_tree_tsi env (xs, s # ys) st = Inr (z, st')" "cursor_next z = Some z'"
  shows "snd z' = ys"
  using assms
  by (auto simp: replace_call_tree_tsi_def Let_def split: option.splits prod.splits if_splits
      dest: molen_dummy_rest replace_mapped_rest)

section \<open>The walk\<close>

text \<open>\<open>replace_tree\<close> is the walk without an iterator of the caller; a call or an assignment needs one.
  The statements of a list that are neither are changed in place.\<close>

function (sequential) replace_tree :: "fpga_env \<Rightarrow> stmt \<Rightarrow> fpga_state \<Rightarrow> fpga_stop + stmt \<times> fpga_state"
  and replace_list :: "fpga_env \<Rightarrow> stmt cursor \<Rightarrow> fpga_state \<Rightarrow> fpga_stop + stmt list \<times> fpga_state"
  and replace_sections :: "fpga_env \<Rightarrow> stmt list \<Rightarrow> fpga_state \<Rightarrow> fpga_stop + stmt list \<times> fpga_state"
where
  "replace_tree env (Try_stmt a b) st =
    (case replace_tree env a st of
       Inl e \<Rightarrow> Inl e
     | Inr (a, st) \<Rightarrow>
         (case replace_tree env b st of Inl e \<Rightarrow> Inl e | Inr (b, st) \<Rightarrow> Inr (Try_stmt a b, st)))"
| "replace_tree env (Catch_stmt a) st =
    (case replace_tree env a st of Inl e \<Rightarrow> Inl e | Inr (a, st) \<Rightarrow> Inr (Catch_stmt a, st))"
| "replace_tree env (Bind_expr a) st =
    (case replace_tree env a st of Inl e \<Rightarrow> Inl e | Inr (a, st) \<Rightarrow> Inr (Bind_expr a, st))"
| "replace_tree env (Stmt_list ss) st =
    (case replace_list env (cursor_start ss) st of Inl e \<Rightarrow> Inl e | Inr (ss, st) \<Rightarrow> Inr (Stmt_list ss, st))"
| "replace_tree env (Omp_parallel a) st =
    (case replace_tree env a st of Inl e \<Rightarrow> Inl e | Inr (a, st) \<Rightarrow> Inr (Omp_parallel a, st))"
| "replace_tree env (Omp_sections (Stmt_list ss)) st =
    (case replace_sections env ss st of
       Inl e \<Rightarrow> Inl e
     | Inr (ss, st) \<Rightarrow> Inr (Omp_sections (Stmt_list ss), st))"
| "replace_tree env (Cond_expr a b) st =
    (case replace_tree env a st of
       Inl e \<Rightarrow> Inl e
     | Inr (a, st) \<Rightarrow>
         (case replace_tree env b st of Inl e \<Rightarrow> Inl e | Inr (b, st) \<Rightarrow> Inr (Cond_expr a b, st)))"
| "replace_tree env (Call_stmt c) st = Inl Fpga_fault"
| "replace_tree env (Modify_stmt lhs r loc) st = Inl Fpga_fault"
| "replace_tree env (Omp_sections s) st = Inl Fpga_fault"
| "replace_tree env Null_tree st = Inl Fpga_fault"
| "replace_tree env s st = Inr (s, st)"
| "replace_list env (xs, []) st = Inr (xs, st)"
| "replace_list env (xs, s # ys) st =
    (if is_call_stmt s then
       (case replace_call_tree_tsi env (xs, s # ys) st of
          Inl e \<Rightarrow> Inl e
        | Inr (tsi, st) \<Rightarrow>
            (case cursor_next tsi of
               None \<Rightarrow> Inr (cursor_list tsi, st)
             | Some tsi \<Rightarrow> replace_list env tsi st))
     else
       (case replace_tree env s st of
          Inl e \<Rightarrow> Inl e
        | Inr (s, st) \<Rightarrow> replace_list env (xs @ [s], ys) st))"
| "replace_sections env [] st = Inr ([], st)"
| "replace_sections env (Omp_section a # ss) st =
    (case replace_tree env a st of
       Inl e \<Rightarrow> Inl e
     | Inr (a, st) \<Rightarrow>
         (case replace_sections env ss st of Inl e \<Rightarrow> Inl e | Inr (ss, st) \<Rightarrow> Inr (Omp_section a # ss, st)))"
| "replace_sections env (s # ss) st =
    (case replace_sections env ss st of Inl e \<Rightarrow> Inl e | Inr (ss, st) \<Rightarrow> Inr (s # ss, st))"
  by pat_completeness auto
termination
proof (relation "measure (\<lambda>x. case x of Inl (env, s, st) \<Rightarrow> size s
    | Inr (Inl (env, z, st)) \<Rightarrow> size_list size (snd z) | Inr (Inr (env, ss, st)) \<Rightarrow> size_list size ss)", goal_cases)
qed (auto simp: cursor_start_def dest: replace_call_rest)

definition do_fpga_replace_calls_tree_execute :: "fpga_env \<Rightarrow> stmt \<Rightarrow> fpga_state \<Rightarrow> fpga_stop + stmt \<times> fpga_state" where
  "do_fpga_replace_calls_tree_execute env body st = (if \<not> fpga env then Inr (body, st) else replace_tree env body st)"

end
