(* ===== verification/FpgaSections.thy ===== *)
theory FpgaSections
  imports FpgaWalk
begin

text \<open>
  The second pass of \<open>gcc/fpga.c\<close>, \<open>do_fpga_parallel_opt_execute\<close>: the sections of a parallel region are
  merged into one list, first the statements of each section up to its last wait for an accelerator, then the
  rest of each. \<open>None\<close> is a statement list that is expected where there is none.
\<close>

section \<open>One group of sections\<close>

definition is_break :: "stmt \<Rightarrow> bool" where
  "is_break s \<longleftrightarrow>
    (case get_call_expr_in s of
       None \<Rightarrow> False
     | Some call_lb \<Rightarrow> callee call_lb = Some (Builtin FPGA_BREAK))"

definition is_jump :: "stmt \<Rightarrow> bool" where
  "is_jump s \<longleftrightarrow> (case s of Label_expr l \<Rightarrow> True | Goto_expr l \<Rightarrow> True | _ \<Rightarrow> False)"

text \<open>The loop over a section with \<open>cnt\<close> and \<open>last_break\<close>.\<close>

fun find_last_break :: "stmt list \<Rightarrow> nat \<Rightarrow> int \<Rightarrow> int" where
  "find_last_break [] cnt last_break = last_break"
| "find_last_break (s # ss) cnt last_break =
    (let last_break = (if is_break s then int cnt else last_break);
         last_break = (if is_jump s then -1 else last_break)
     in find_last_break ss (cnt + 1) last_break)"

text \<open>The loop that moves statements until \<open>cnt\<close> is \<open>last_break\<close>: the statements it has moved, and what
  is left of the section.\<close>

fun move_before :: "stmt list \<Rightarrow> nat \<Rightarrow> int \<Rightarrow> stmt list \<times> stmt list" where
  "move_before [] cnt last_break = ([], [])"
| "move_before (s # ss) cnt last_break =
    (if int cnt = last_break then ([], s # ss)
     else case move_before ss (cnt + 1) last_break of (moved, rest) \<Rightarrow> (s # moved, rest))"

text \<open>Linking a statement list links its statements.\<close>

definition linked :: "stmt \<Rightarrow> stmt list" where
  "linked s = (case s of Stmt_list ss \<Rightarrow> ss | _ \<Rightarrow> [s])"

text \<open>The sections of the body, and their statements. Other statements of the body are not looked at.\<close>

fun section_lists :: "stmt list \<Rightarrow> stmt list list option" where
  "section_lists [] = Some []"
| "section_lists (Omp_section (Stmt_list ss) # sections) = map_option ((#) ss) (section_lists sections)"
| "section_lists (Omp_section b # sections) = None"
| "section_lists (s # sections) = section_lists sections"

text \<open>Everything that is linked before the statement with the sections.\<close>

definition merge_sections :: "stmt list list \<Rightarrow> stmt list" where
  "merge_sections sections =
    (let parts = map (\<lambda>ss. move_before ss 0 (find_last_break ss 0 (-1))) sections
     in concat (map linked (concat (map fst parts))) @ concat (map linked (concat (map snd parts))))"

section \<open>The pass\<close>

text \<open>The walk over a list, with the statements before its iterator; a parallel region is replaced by its
  body. The body of a section is changed in place.\<close>

fun sections_opt :: "stmt \<Rightarrow> stmt option"
  and sections_opt_list :: "stmt list \<Rightarrow> stmt list \<Rightarrow> stmt list option"
  and sections_opt_body :: "stmt \<Rightarrow> stmt list option"
  and sections_opt_each :: "stmt list \<Rightarrow> stmt list option"
where
  "sections_opt (Bind_expr (Stmt_list ss)) = map_option (\<lambda>ss. Bind_expr (Stmt_list ss)) (sections_opt_list [] ss)"
| "sections_opt (Bind_expr Null_tree) = None"
| "sections_opt (Stmt_list ss) = map_option Stmt_list (sections_opt_list [] ss)"
| "sections_opt r = Some r"
| "sections_opt_list xs [] = Some xs"
| "sections_opt_list xs (st # ys) =
    (case st of
       Omp_sections b \<Rightarrow>
         (case sections_opt_body b of
            None \<Rightarrow> None
          | Some new \<Rightarrow> sections_opt_list (xs @ new) ys)
     | Omp_parallel b \<Rightarrow>
         (case sections_opt b of
            None \<Rightarrow> None
          | Some b \<Rightarrow> if b = Null_tree then None else sections_opt_list (xs @ linked b) ys)
     | Cond_expr a b \<Rightarrow>
         (case (sections_opt a, sections_opt b) of
            (Some a, Some b) \<Rightarrow> sections_opt_list (xs @ [Cond_expr a b]) ys
          | _ \<Rightarrow> None)
     | _ \<Rightarrow> sections_opt_list (xs @ [st]) ys)"
| "sections_opt_body (Stmt_list ss) =
    (case sections_opt_each ss of
       None \<Rightarrow> None
     | Some ss \<Rightarrow> map_option merge_sections (section_lists ss))"
| "sections_opt_body b = None"
| "sections_opt_each [] = Some []"
| "sections_opt_each (Omp_section b # ss) =
    (case (sections_opt b, sections_opt_each ss) of
       (Some b, Some ss) \<Rightarrow> Some (Omp_section b # ss)
     | _ \<Rightarrow> None)"
| "sections_opt_each (s # ss) = map_option ((#) s) (sections_opt_each ss)"

definition do_fpga_parallel_opt_execute :: "stmt \<Rightarrow> stmt option" where
  "do_fpga_parallel_opt_execute body = sections_opt body"

section \<open>Lemmas\<close>

lemma find_last_break_bounds:
  "find_last_break ss cnt b = b \<or> find_last_break ss cnt b = -1
    \<or> (\<exists>j<length ss. find_last_break ss cnt b = int (cnt + j) \<and> is_break (ss ! j))"
proof (induction ss arbitrary: cnt b)
  case (Cons s ss)
  let ?b = "if is_jump s then -1 else if is_break s then int cnt else b"
  have e: "find_last_break (s # ss) cnt b = find_last_break ss (cnt + 1) ?b" by (simp add: Let_def)
  from Cons.IH [of "cnt + 1" ?b] show ?case
  proof (elim disjE exE conjE)
    fix j assume "j < length ss" "find_last_break ss (cnt + 1) ?b = int (cnt + 1 + j)" "is_break (ss ! j)"
    then have "Suc j < length (s # ss) \<and> find_last_break (s # ss) cnt b = int (cnt + Suc j) \<and> is_break ((s # ss) ! Suc j)"
      using e by simp
    then show ?thesis by blast
  qed (use e in \<open>auto split: if_splits intro: exI [of _ 0]\<close>)
qed simp

text \<open>Without labels and jumps the loop finds the last wait.\<close>

lemma find_last_break_last:
  assumes "\<forall>s\<in>set ss. \<not> is_jump s"
  shows "find_last_break ss cnt b =
    (if \<exists>s\<in>set ss. is_break s then int (cnt + length (dropWhile (\<lambda>s. \<not> is_break s) (rev ss)) - 1) else b)"
  using assms
proof (induction ss arbitrary: cnt b)
  case (Cons s ss)
  have e: "find_last_break (s # ss) cnt b = find_last_break ss (cnt + 1) (if is_break s then int cnt else b)"
    using Cons.prems by (simp add: Let_def)
  show ?case
  proof (cases "\<exists>s\<in>set ss. is_break s")
    case True
    then have "dropWhile (\<lambda>s. \<not> is_break s) (rev ss @ [s]) = dropWhile (\<lambda>s. \<not> is_break s) (rev ss) @ [s]"
      by (auto intro: dropWhile_append1)
    with e Cons True show ?thesis by simp
  next
    case False
    then have "dropWhile (\<lambda>s. \<not> is_break s) (rev ss @ [s]) = (if is_break s then [s] else [])"
      by (subst dropWhile_append2) auto
    with e Cons False show ?thesis by auto
  qed
qed simp

lemma move_before_split:
  "move_before ss cnt b = (take k ss, drop k ss)"
  if "k = (if int cnt \<le> b \<and> b < int (cnt + length ss) then nat b - cnt else length ss)"
  using that
proof (induction ss arbitrary: cnt k)
  case (Cons s ss)
  show ?case
  proof (cases "int cnt = b")
    case True
    with Cons.prems show ?thesis by auto
  next
    case False
    let ?k = "if int (cnt + 1) \<le> b \<and> b < int (cnt + 1 + length ss) then nat b - (cnt + 1) else length ss"
    have "k = Suc ?k" using False Cons.prems by (auto simp: nat_diff_distrib Suc_diff_le)
    with Cons.IH [OF refl, of "cnt + 1"] False show ?thesis by simp
  qed
qed simp

end
