(* ===== verification/FpgaSpec.thy ===== *)
theory FpgaSpec
  imports FpgaWalk HxmlSpec
begin

text \<open>
  What the replacement of calls does to the body of a function: the walk with an iterator is a replacement of
  each statement by statements of its own, and of the calls of the program just those that are mapped to an
  FPGA are gone.
\<close>

section \<open>The walk as a replacement of single statements\<close>

text \<open>A dummy call removes itself and steps back; the other statements stay where they are or are replaced in
  place.\<close>

definition dummy_stmt :: "stmt \<Rightarrow> bool" where
  "dummy_stmt s \<longleftrightarrow> (case get_call_expr_in s of None \<Rightarrow> False | Some c \<Rightarrow> is_dummy c)"

text \<open>The iterator \<open>z\<close> stands behind \<open>new\<close>, which is in the place of the statement.\<close>

definition stands :: "stmt list \<Rightarrow> stmt list \<Rightarrow> stmt cursor \<Rightarrow> stmt list \<Rightarrow> bool" where
  "stands xs ys z new \<longleftrightarrow>
    (case cursor_next z of
       None \<Rightarrow> ys = [] \<and> cursor_list z = xs @ new
     | Some z' \<Rightarrow> z' = (xs @ new, ys))"

definition replacement :: "fpga_env \<Rightarrow> stmt \<Rightarrow> fpga_state \<Rightarrow> fpga_stop + stmt list \<times> fpga_state" where
  "replacement env s st =
    (case replace_call_tree_tsi env ([], [s]) st of Inl e \<Rightarrow> Inl e | Inr (z, st) \<Rightarrow> Inr (cursor_list z, st))"

lemma stands_end [simp]: "stands xs [] (xs @ new, []) new"
  by (simp add: stands_def)

lemma stands_replaced [simp]: "stands xs ys (xs @ new, t # ys) (new @ t # [])"
  by (simp add: stands_def)

lemma stands_kept [simp]: "stands xs ys (xs, t # ys) [t]"
  by (simp add: stands_def)

lemma call_sequence_last:
  "call_sequence env s call decl i a b st = Inr (new, r, st') \<Longrightarrow> \<exists>front l. new = front @ [l]"
  by (auto simp: call_sequence_def Let_def split: sum.splits prod.splits)

lemma stands_behind:
  assumes "new = front @ [l]" "cursor_prev (xs @ new, ys) = Some z" "ys \<noteq> []"
  shows "stands xs ys z new"
  using assms by (cases ys) (auto simp: stands_def simp flip: append_assoc)

lemma cursor_prev_defined: "ys \<noteq> [] \<Longrightarrow> \<exists>z. cursor_prev (xs, ys) = Some z"
  by (cases ys) auto

text \<open>The list of a cursor does not depend on where it stands.\<close>

lemma replace_mapped_local:
  assumes "get_call_expr_in s = Some call"
  shows "case replace_mapped env ([], [s]) s call decl i a b st of
      Inl e \<Rightarrow> replace_mapped env (xs, s # ys) s call decl i a b st = Inl e
    | Inr (z0, st') \<Rightarrow>
        \<exists>z. replace_mapped env (xs, s # ys) s call decl i a b st = Inr (z, st') \<and> stands xs ys z (cursor_list z0)"
proof -
  define conf where "conf = (if hartes_configuration_xml env then read_configuration env st else Inr st)"
  define made where "made = (\<lambda>st1. call_sequence env s call decl i a b
      (if stale_return env then snd (create_tmp_var integer_type_node ''__fpga_return'' st1) else st1))"
  have conf: "(if hartes_configuration_xml env then read_configuration env st else Inr st) = conf"
    and made: "\<And>st1. call_sequence env s call decl i a b
      (if stale_return env then snd (create_tmp_var integer_type_node ''__fpga_return'' st1) else st1) = made st1"
    by (simp_all add: conf_def made_def)
  consider (stop) e where "conf = Inl e"
    | (type) st1 e where "conf = Inr st1" "hxml_get_functional_component_type (snd (hxml_db st1)) i = Inl e"
    | (other) st1 t where "conf = Inr st1" "hxml_get_functional_component_type (snd (hxml_db st1)) i = Inr t" "t \<noteq> FPGA"
    | (fail) st1 e where "conf = Inr st1" "hxml_get_functional_component_type (snd (hxml_db st1)) i = Inr FPGA" "made st1 = Inl e"
    | (replaced) st1 new r st2 where "conf = Inr st1" "hxml_get_functional_component_type (snd (hxml_db st1)) i = Inr FPGA"
        "made st1 = Inr (new, r, st2)"
    by (metis sum.exhaust prod.exhaust)
  then show ?thesis
  proof cases
    case replaced
    then obtain front l where new: "new = front @ [l]"
      using call_sequence_last unfolding made_def by blast
    have s: "(\<exists>lhs rs loc. s = Modify_stmt lhs rs loc) \<or> s = Call_stmt call"
      using assms by (cases s) simp_all
    obtain z where z: "ys \<noteq> [] \<Longrightarrow> cursor_prev (xs @ new, ys) = Some z"
      using cursor_prev_defined by blast
    show ?thesis
      unfolding replace_mapped_def Let_def conf made
      using replaced s z stands_behind [OF new, of xs ys z]
      by (cases "ys = []") (auto simp: cursor_link_before_def)
  qed (unfold replace_mapped_def Let_def conf made, simp_all)
qed

lemma replace_call_local:
  assumes "\<not> dummy_stmt s"
  shows "case replacement env s st of
      Inl e \<Rightarrow> replace_call_tree_tsi env (xs, s # ys) st = Inl e
    | Inr (new, st') \<Rightarrow> \<exists>z. replace_call_tree_tsi env (xs, s # ys) st = Inr (z, st') \<and> stands xs ys z new"
proof -
  obtain a st1 where a: "create_tmp_var integer_type_node ''__fpga_return_int'' st = (a, st1)" by fastforce
  obtain b st2 where b: "create_tmp_var float_type_node ''__fpga_return_float'' st1 = (b, st2)" by fastforce
  note unf = replacement_def replace_call_tree_tsi_def a b prod.case
  show ?thesis
  proof (cases "get_call_expr_in s")
    case (Some call)
    show ?thesis
    proof (cases "callee call")
      case (Some decl)
      have nd: "decl_name decl \<noteq> ''__builtin_molen_dummy''"
        using assms \<open>get_call_expr_in s = Some call\<close> Some by (simp add: dummy_stmt_def is_dummy_def)
      show ?thesis
      proof (cases "attribute_id decl")
        case None
        then show ?thesis using \<open>get_call_expr_in s = Some call\<close> Some by (simp add: unf)
      next
        case at: (Some i)
        define p where "p = (if fpga_id_dummy st2 \<noteq> -1 then (fpga_id_dummy st2, st2\<lparr>fpga_id_dummy := -1\<rparr>) else (i, st2))"
        obtain j st3 where p: "p = (j, st3)" by fastforce
        show ?thesis
        proof (cases "j = -1")
          case True
          then show ?thesis
            using \<open>get_call_expr_in s = Some call\<close> Some at nd p
            by (cases "lookup_attribute ''call_fpga'' (decl_attributes decl)")
              (simp_all add: unf Let_def p_def [symmetric])
        next
          case False
          have m: "replace_call_tree_tsi env (us, s # vs) st = replace_mapped env (us, s # vs) s call decl j a b st3" for us vs
            using \<open>get_call_expr_in s = Some call\<close> Some at nd p False
            by (simp add: unf Let_def p_def [symmetric])
          show ?thesis
            using replace_mapped_local [OF \<open>get_call_expr_in s = Some call\<close>, where env = env and decl = decl and i = j and a = a and b = b
              and st = st3 and xs = xs and ys = ys]
            by (auto simp: replacement_def m split: sum.splits)
        qed
      qed
    qed (simp add: unf Some)
  qed (simp add: unf)
qed

text \<open>The replacement of one statement, and of all statements of a list, one after the other.\<close>

definition expand_one :: "fpga_env \<Rightarrow> stmt \<Rightarrow> fpga_state \<Rightarrow> fpga_stop + stmt list \<times> fpga_state" where
  "expand_one env s st =
    (if is_call_stmt s then replacement env s st
     else map_sum (\<lambda>e. e) (\<lambda>(t, st). ([t], st)) (replace_tree env s st))"

fun expand_all :: "fpga_env \<Rightarrow> stmt list \<Rightarrow> fpga_state \<Rightarrow> fpga_stop + stmt list \<times> fpga_state" where
  "expand_all env [] st = Inr ([], st)"
| "expand_all env (s # ss) st =
    (case expand_one env s st of
       Inl e \<Rightarrow> Inl e
     | Inr (new, st) \<Rightarrow>
         (case expand_all env ss st of Inl e \<Rightarrow> Inl e | Inr (rest, st) \<Rightarrow> Inr (new @ rest, st)))"

text \<open>On a list without dummy calls the walk with the iterator, which inserts, removes, steps back and steps on,
  replaces every statement by its own replacement.\<close>

lemma replace_list_flat:
  assumes "\<forall>s\<in>set ss. \<not> dummy_stmt s"
  shows "replace_list env (xs, ss) st =
    (case expand_all env ss st of Inl e \<Rightarrow> Inl e | Inr (new, st') \<Rightarrow> Inr (xs @ new, st'))"
  using assms
proof (induction ss arbitrary: xs st)
  case (Cons s ys)
  show ?case
  proof (cases "is_call_stmt s")
    case call: True
    show ?thesis
    proof (cases "replacement env s st")
      case (Inl e)
      with replace_call_local [where s = s and env = env and st = st and xs = xs and ys = ys] Cons.prems call show ?thesis by (simp add: expand_one_def)
    next
      case (Inr r)
      obtain new st' where r: "r = (new, st')" by fastforce
      from Inr r replace_call_local [where s = s and env = env and st = st and xs = xs and ys = ys] Cons.prems obtain z where
        z: "replace_call_tree_tsi env (xs, s # ys) st = Inr (z, st')" "stands xs ys z new" by auto
      show ?thesis
        using z Cons call Inr r
        by (auto simp: expand_one_def stands_def append_assoc split: option.splits sum.splits)
    qed
  next
    case False
    with Cons show ?thesis by (auto simp: expand_one_def split: sum.splits)
  qed
qed simp

end
