(* ===== verification/FpgaSafe.thy ===== *)
theory FpgaSafe
  imports FpgaSpec
begin

text \<open>
  Which calls are left after the replacement, and that a second run of the pass finds nothing to do.
\<close>

section \<open>The statements that are inserted\<close>

definition inserted :: "stmt \<Rightarrow> bool" where
  "inserted s \<longleftrightarrow> (\<exists>b as. b \<noteq> MOLEN_DUMMY \<and> s = build_call_expr b as)"

text \<open>The steps of the replacement keep the tables and the pending number.\<close>

definition same :: "fpga_state \<Rightarrow> fpga_state \<Rightarrow> bool" where
  "same st st' \<longleftrightarrow> hxml_db st' = hxml_db st \<and> fpga_id_dummy st' = fpga_id_dummy st"

lemma same_refl [simp]: "same st st"
  by (simp add: same_def)

lemma same_trans: "same a b \<Longrightarrow> same b c \<Longrightarrow> same a c"
  by (simp add: same_def)

lemma same_update [simp]:
  "same st (st\<lparr>trx_bytes := n\<rparr>)" "same st (st\<lparr>fpga_warnings := ws\<rparr>)" "same st (st\<lparr>tmp_var_id_num := k\<rparr>)"
  by (simp_all add: same_def)

lemma inserted_build: "b \<noteq> MOLEN_DUMMY \<Longrightarrow> inserted (build_call_expr b as)"
  by (auto simp: inserted_def)

lemma exchange_inserted:
  "exchange st b i k rest = Inr ms \<Longrightarrow> b \<noteq> MOLEN_DUMMY \<Longrightarrow> m \<in> set ms \<Longrightarrow> inserted m"
  by (auto simp: exchange_def inserted_build split: sum.splits)

lemma with_state_Inr: "with_state st r = Inr (ms, st') \<longleftrightarrow> r = Inr ms \<and> st' = st"
  by (cases r) (auto simp: with_state_def)

lemma expand_other_same:
  "expand_other io i k arg st = Inr (ms, st') \<Longrightarrow> same st st' \<and> (\<forall>m\<in>set ms. inserted m)"
  by (auto simp: expand_other_def with_state_Inr Let_def split: io_type.splits dest: exchange_inserted)

lemma expand_variable_same:
  "expand_variable decl io i k t arg st = Inr (ms, st') \<Longrightarrow> same st st' \<and> (\<forall>m\<in>set ms. inserted m)"
  by (auto simp: expand_variable_def with_state_Inr Let_def split: io_type.splits if_splits
      dest: exchange_inserted expand_other_same)

lemma expand_address_same:
  "expand_address decl io i k t opnd st = Inr (ms, st') \<Longrightarrow> same st st' \<and> (\<forall>m\<in>set ms. inserted m)"
  by (auto simp: expand_address_def with_state_Inr Let_def
      split: io_type.splits if_splits option.splits sum.splits dest: exchange_inserted)

lemma expand_parameter_same:
  "expand_parameter decl io i k arg st = Inr (ms, st') \<Longrightarrow> same st st' \<and> (\<forall>m\<in>set ms. inserted m)"
  unfolding expand_parameter_def
  by (cases arg) (simp_all add: expand_address_same expand_variable_same expand_other_same)

lemma expand_from_same:
  "expand_from decl io i k as st = Inr (ms, st') \<Longrightarrow> same st st' \<and> (\<forall>m\<in>set ms. inserted m)"
proof (induction as arbitrary: k st ms st')
  case (Cons a as)
  from Cons.prems obtain ms1 st1 ms2 where
    r: "expand_parameter decl io i k a st = Inr (ms1, st1)" "expand_from decl io i (k + 1) as st1 = Inr (ms2, st')"
      "ms = ms1 @ ms2" by (auto split: sum.splits)
  from expand_parameter_same [OF r(1)] Cons.IH [OF r(2)] r(3) show ?case by (auto intro: same_trans)
qed simp

lemma return_variable_same: "return_variable call decl a b st = Inr (r, st') \<Longrightarrow> same st st'"
  by (auto simp: return_variable_def split: type_code.splits)

lemma create_tmp_var_same: "create_tmp_var t p st = (v, st') \<Longrightarrow> same st st'"
  by (auto simp: create_tmp_var_def)

lemma stats_inserted:
  "stats_begin n s = Inr ms \<Longrightarrow> m \<in> set ms \<Longrightarrow> inserted m"
  "b \<noteq> MOLEN_DUMMY \<Longrightarrow> m \<in> set (stats_bytes env b st) \<Longrightarrow> inserted m"
  by (auto simp: stats_begin_def stats_bytes_def inserted_build split: prod.splits option.splits if_splits)

lemma set_inserted [simp]: "inserted (set_statement n i)"
  by (simp add: set_statement_def inserted_build Let_def)

lemma call_sequence_same:
  assumes "call_sequence env s call decl i a b st = Inr (new, r, st')"
  shows "same st st' \<and> (\<forall>m\<in>set new. inserted m)"
proof -
  from assms obtain begins ins st1 outs st2 xr where
    c: "(if fpgastat env then stats_begin (decl_name decl) s else Inr []) = Inr begins"
      "expand_parameters decl call IO_PROLOGUE i st = Inr (ins, st1)"
      "expand_parameters decl call IO_EPILOGUE i st1 = Inr (outs, st2)"
      "return_variable call decl a b st2 = Inr (r, st')"
    and new: "new = (if fpga_call_generate_set env then [set_statement (decl_name decl) i] else [])
        @ begins @ ins @ stats_bytes env HARTES_STATS_PARMIN st1
        @ [build_call_expr FPGA_EXECUTE [Int_arg i], build_call_expr FPGA_BREAK [Int_arg i]]
        @ (if fpgastat env then [build_call_expr HARTES_STATS_EXEC []] else [])
        @ outs @ stats_bytes env HARTES_STATS_PARMOUT st2
        @ [build_call_expr FPGA_MOVEF [Int_arg i, Int_arg xr, build_fold_addr_expr r]]"
    unfolding call_sequence_def Let_def by (auto split: sum.splits prod.splits)
  from c(2,3) expand_from_same have st: "same st st1" "same st1 st2" "\<forall>m\<in>set ins. inserted m" "\<forall>m\<in>set outs. inserted m"
    unfolding expand_parameters_def by blast+
  have "\<forall>m\<in>set begins. inserted m" using c(1) stats_inserted(1) by (auto split: if_splits)
  moreover have "\<forall>m\<in>set (stats_bytes env b st). inserted m" if "b \<noteq> MOLEN_DUMMY" for b st
    using that stats_inserted(2) by blast
  ultimately have "\<forall>m\<in>set new. inserted m" using st new by (auto simp: inserted_build split: if_splits)
  with st return_variable_same [OF c(4)] show ?thesis by (blast intro: same_trans)
qed

section \<open>Mapped calls\<close>

text \<open>Calls of functions that the pragma gives to an implementation on an FPGA.\<close>

definition mapped :: "hxml_state \<Rightarrow> call_expr \<Rightarrow> bool" where
  "mapped db c \<longleftrightarrow>
    (case callee c of
       None \<Rightarrow> False
     | Some d \<Rightarrow>
         (case attribute_id d of
            None \<Rightarrow> False
          | Some i \<Rightarrow> i \<noteq> -1 \<and> hxml_get_functional_component_type db i = Inr FPGA))"

lemma builtin_not_mapped [simp]: "callee c = Some (Builtin b) \<Longrightarrow> \<not> mapped db c"
  by (simp add: mapped_def attribute_id_def decl_attributes_def)

lemma read_configuration_again: "fst (hxml_db st) \<Longrightarrow> read_configuration env st = Inr st"
  by (cases "hxml_db st") (simp add: read_configuration_def hxml_read_xml_def)

text \<open>With the description read and no number pending: a mapped call becomes inserted statements, followed by the
  assignment of the result if there was one; everything else stays.\<close>

definition outcome :: "hxml_state \<Rightarrow> stmt \<Rightarrow> stmt list \<Rightarrow> bool" where
  "outcome db s new \<longleftrightarrow>
    (case get_call_expr_in s of
       None \<Rightarrow> new = [s]
     | Some c \<Rightarrow>
         if mapped db c then
           \<exists>front. (\<forall>m\<in>set front. inserted m)
             \<and> (new = front \<or> (\<exists>lhs r rs loc. s = Modify_stmt lhs rs loc \<and> new = front @ [Modify_stmt lhs (Value_rhs r) loc]))
         else new = [s])"

lemma outcome_none [simp]: "get_call_expr_in s = None \<Longrightarrow> outcome db s new \<longleftrightarrow> new = [s]"
  by (simp add: outcome_def)

lemma replace_mapped_outcome:
  assumes "replace_mapped env ([], [s]) s call decl i a b st = Inr (z, st')"
    and "get_call_expr_in s = Some call" "callee call = Some decl" "attribute_id decl = Some i" "i \<noteq> -1"
    and db: "fst (hxml_db st)"
  shows "same st st' \<and> outcome (snd (hxml_db st)) s (cursor_list z)"
proof (cases "hxml_get_functional_component_type (snd (hxml_db st)) i = Inr FPGA")
  case False
  then have "z = ([], [s])" "st' = st" "\<not> mapped (snd (hxml_db st)) call"
    using assms unfolding replace_mapped_def
    by (auto simp: read_configuration_again mapped_def Let_def split: sum.splits if_splits)
  with assms(2) show ?thesis by (simp add: outcome_def)
next
  case True
  then have m: "mapped (snd (hxml_db st)) call" using assms by (simp add: mapped_def)
  define tmp where
    "tmp = (\<lambda>st. if stale_return env then snd (create_tmp_var integer_type_node ''__fpga_return'' st) else st)"
  have tmp: "(if stale_return env then snd (create_tmp_var integer_type_node ''__fpga_return'' st) else st) = tmp st" for st
    by (simp add: tmp_def)
  have s1: "same st (tmp st)" by (auto simp: tmp_def create_tmp_var_def)
  have conf: "(if hartes_configuration_xml env then read_configuration env st else Inr st) = Inr st"
    using read_configuration_again [OF db] by simp
  from assms(1) True obtain new r where new: "call_sequence env s call decl i a b (tmp st) = Inr (new, r, st')"
    and z: "(\<exists>lhs rs loc. s = Modify_stmt lhs rs loc \<and> cursor_list z = new @ [Modify_stmt lhs (Value_rhs r) loc])
      \<or> cursor_list z = new"
    unfolding replace_mapped_def Let_def tmp conf
    by (cases s) (auto simp: cursor_link_before_def split: sum.splits prod.splits option.splits if_splits)
  from call_sequence_same [OF new] s1 z m assms(2) show ?thesis
    by (auto simp: outcome_def intro: same_trans)
qed

text \<open>The state in which the walk runs: the description is read and no number is pending.\<close>

definition ready :: "fpga_state \<Rightarrow> bool" where
  "ready st \<longleftrightarrow> fst (hxml_db st) \<and> fpga_id_dummy st = -1"

lemma ready_same: "same st st' \<Longrightarrow> ready st' = ready st"
  by (simp add: ready_def same_def)

text \<open>The replacement of a statement that is not a dummy call, after the two variables it makes first.\<close>

definition settle :: "fpga_env \<Rightarrow> stmt \<Rightarrow> arg \<Rightarrow> arg \<Rightarrow> fpga_state \<Rightarrow> fpga_stop + stmt cursor \<times> fpga_state" where
  "settle env s a b st =
    (case get_call_expr_in s of
       None \<Rightarrow> Inr (([], [s]), st)
     | Some call \<Rightarrow>
     (case callee call of
       None \<Rightarrow> Inr (([], [s]), st)
     | Some decl \<Rightarrow>
     (case attribute_id decl of
       None \<Rightarrow> Inl Fpga_fault
     | Some i \<Rightarrow>
         if i \<noteq> -1 then replace_mapped env ([], [s]) s call decl i a b st
         else
           (case lookup_attribute ''call_fpga'' (decl_attributes decl) of
              None \<Rightarrow> Inl Fpga_fault
            | Some attr \<Rightarrow>
                Inr (([], [s]), if attr = [] then st
                                else st\<lparr>fpga_warnings := fpga_warnings st @ [Call_fpga_ignored]\<rparr>)))))"

lemma replace_call_settle:
  assumes "\<not> dummy_stmt s" "ready st"
  shows "\<exists>a b st1. same st st1 \<and> replace_call_tree_tsi env ([], [s]) st = settle env s a b st1"
proof -
  obtain a st1 where a: "create_tmp_var integer_type_node ''__fpga_return_int'' st = (a, st1)" by fastforce
  obtain b st2 where b: "create_tmp_var float_type_node ''__fpga_return_float'' st1 = (b, st2)" by fastforce
  have s2: "same st st2" using create_tmp_var_same [OF a] create_tmp_var_same [OF b] by (rule same_trans)
  then have d: "fpga_id_dummy st2 = -1" using assms(2) by (simp add: ready_def same_def)
  have nd: "get_call_expr_in s = Some call \<Longrightarrow> callee call = Some decl \<Longrightarrow> decl_name decl \<noteq> ''__builtin_molen_dummy''"
    for call decl using assms(1) by (simp add: dummy_stmt_def is_dummy_def)
  have "replace_call_tree_tsi env ([], [s]) st = settle env s a b st2"
    unfolding replace_call_tree_tsi_def settle_def a b prod.case cursor_stmt.simps option.case Let_def
    by (intro option.case_cong refl) (simp add: d nd)
  with s2 show ?thesis by blast
qed

lemma settle_outcome:
  assumes "settle env s a b st = Inr (z, st')" "fst (hxml_db st)"
  shows "same st st' \<and> outcome (snd (hxml_db st)) s (cursor_list z)"
proof (cases "\<exists>call decl i. get_call_expr_in s = Some call \<and> callee call = Some decl \<and> attribute_id decl = Some i \<and> i \<noteq> -1")
  case True
  then obtain call decl i where c: "get_call_expr_in s = Some call" "callee call = Some decl" "attribute_id decl = Some i"
    "i \<noteq> -1" by blast
  with assms(1) have "replace_mapped env ([], [s]) s call decl i a b st = Inr (z, st')" by (simp add: settle_def)
  from replace_mapped_outcome [OF this c assms(2)] show ?thesis .
next
  case False
  then have "z = ([], [s]) \<and> same st st'"
    using assms(1) by (auto simp: settle_def split: option.splits if_splits)
  with False show ?thesis by (auto simp: outcome_def mapped_def split: option.splits)
qed

lemma replacement_outcome:
  assumes "\<not> dummy_stmt s" "ready st" "replacement env s st = Inr (new, st')"
  shows "same st st' \<and> outcome (snd (hxml_db st)) s new"
proof -
  obtain a b st1 where s1: "same st st1" "replace_call_tree_tsi env ([], [s]) st = settle env s a b st1"
    using replace_call_settle [OF assms(1,2)] by blast
  then obtain z where z: "settle env s a b st1 = Inr (z, st')" "new = cursor_list z"
    using assms(3) by (auto simp: replacement_def split: sum.splits prod.splits)
  have "fst (hxml_db st1)" "snd (hxml_db st1) = snd (hxml_db st)"
    using s1(1) assms(2) by (simp_all add: same_def ready_def)
  with settle_outcome [OF z(1)] s1(1) z(2) show ?thesis by (auto intro: same_trans)
qed

text \<open>A statement without a mapped call stays again.\<close>

lemma settle_again:
  assumes "settle env s a b st = Inr (z, st')" "same st st2" "fst (hxml_db st)"
    and "\<forall>c. get_call_expr_in s = Some c \<longrightarrow> \<not> mapped (snd (hxml_db st)) c"
  shows "\<exists>st2'. settle env s a2 b2 st2 = Inr (([], [s]), st2') \<and> same st2 st2'"
proof (cases "\<exists>call decl i. get_call_expr_in s = Some call \<and> callee call = Some decl \<and> attribute_id decl = Some i \<and> i \<noteq> -1")
  case True
  then obtain call decl i where c: "get_call_expr_in s = Some call" "callee call = Some decl" "attribute_id decl = Some i"
    "i \<noteq> -1" by blast
  have db: "fst (hxml_db st2)" "snd (hxml_db st2) = snd (hxml_db st)" using assms(2,3) by (simp_all add: same_def)
  have "replace_mapped env ([], [s]) s call decl i a b st = Inr (z, st')"
    using assms(1) c by (simp add: settle_def)
  then obtain t where "hxml_get_functional_component_type (snd (hxml_db st)) i = Inr t"
    using read_configuration_again [OF assms(3)]
    unfolding replace_mapped_def by (auto split: sum.splits if_splits)
  moreover have "hxml_get_functional_component_type (snd (hxml_db st)) i \<noteq> Inr FPGA"
    using assms(4) c by (simp add: mapped_def)
  ultimately have "replace_mapped env ([], [s]) s call decl i a2 b2 st2 = Inr (([], [s]), st2)"
    using read_configuration_again [OF db(1)] db(2) by (simp add: replace_mapped_def)
  with c show ?thesis by (simp add: settle_def)
next
  case False
  then show ?thesis using assms(1) by (auto simp: settle_def split: option.splits if_splits)
qed

lemma replacement_again:
  assumes "\<not> dummy_stmt s" "ready st" "replacement env s st = Inr (new, st')" "same st st2"
    and "\<forall>c. get_call_expr_in s = Some c \<longrightarrow> \<not> mapped (snd (hxml_db st)) c"
  shows "\<exists>st2'. replacement env s st2 = Inr ([s], st2') \<and> same st2 st2'"
proof -
  have r2: "ready st2" using assms(2,4) by (simp add: ready_same)
  obtain a b st1 where s1: "same st st1" "replace_call_tree_tsi env ([], [s]) st = settle env s a b st1"
    using replace_call_settle [OF assms(1,2)] by blast
  obtain a2 b2 st3 where s3: "same st2 st3" "replace_call_tree_tsi env ([], [s]) st2 = settle env s a2 b2 st3"
    using replace_call_settle [OF assms(1) r2] by blast
  obtain z where z: "settle env s a b st1 = Inr (z, st')"
    using s1(2) assms(3) by (auto simp: replacement_def split: sum.splits prod.splits)
  have "same st1 st3" "fst (hxml_db st1)" "snd (hxml_db st1) = snd (hxml_db st)"
    using s1(1) s3(1) assms(2,4) by (simp_all add: same_def ready_def)
  with settle_again [OF z, of st3 a2 b2] assms(5) obtain st2' where
    "settle env s a2 b2 st3 = Inr (([], [s]), st2')" "same st3 st2'" by auto
  with s3 show ?thesis by (auto simp: replacement_def intro: same_trans)
qed

end
