(* ===== verification/FpgaMapped.thy ===== *)
theory FpgaMapped
  imports FpgaSafe
begin

text \<open>
  The calls in the body of a function after the pass: those of functions mapped to an FPGA are gone, the others
  are there in their order, and a second run leaves the body as it is.
\<close>

section \<open>The calls the walk reaches\<close>

lemma dummy_stmt_calls: "dummy_stmt s \<longleftrightarrow> is_call_stmt s \<and> (\<exists>c\<in>set (tree_calls s). is_dummy c)"
proof (cases "is_call_stmt s")
  case True
  then show ?thesis by (simp add: dummy_stmt_def tree_calls_get split: option.split)
qed (auto simp: dummy_stmt_def split: option.splits dest: get_call_is_call)

lemma same_reverse: "same st st' \<Longrightarrow> same st' st"
  by (simp add: same_def)

section \<open>One list\<close>

text \<open>What the replacement of \<open>old\<close> by \<open>new\<close> means for the calls in them.\<close>

definition calls_replaced :: "hxml_state \<Rightarrow> call_expr list \<Rightarrow> call_expr list \<Rightarrow> bool" where
  "calls_replaced db old new \<longleftrightarrow>
    filter of_program new = filter (\<lambda>c. \<not> mapped db c) (filter of_program old) \<and> (\<forall>c\<in>set new. \<not> is_dummy c)"

lemma calls_replaced_append:
  "calls_replaced db a a' \<Longrightarrow> calls_replaced db b b' \<Longrightarrow> calls_replaced db (a @ b) (a' @ b')"
  by (auto simp: calls_replaced_def)

lemma calls_replaced_none [simp]: "calls_replaced db [] []"
  by (simp add: calls_replaced_def)

text \<open>A list that the walk leaves as it is.\<close>

definition settled :: "fpga_env \<Rightarrow> fpga_state \<Rightarrow> stmt list \<Rightarrow> bool" where
  "settled env st ss \<longleftrightarrow>
    (\<forall>s\<in>set ss. \<not> dummy_stmt s)
    \<and> (\<forall>st2. same st st2 \<longrightarrow> (\<exists>st2'. expand_all env ss st2 = Inr (ss, st2') \<and> same st2 st2'))"

lemma expand_all_append:
  "expand_all env xs st = Inr (xs', st1) \<Longrightarrow> expand_all env ys st1 = Inr (ys', st2)
    \<Longrightarrow> expand_all env (xs @ ys) st = Inr (xs' @ ys', st2)"
  by (induction xs arbitrary: st xs') (auto split: sum.splits)

lemma settled_append:
  assumes "settled env st xs" "settled env st ys"
  shows "settled env st (xs @ ys)"
  unfolding settled_def
proof (intro conjI allI impI)
  show "\<forall>s\<in>set (xs @ ys). \<not> dummy_stmt s" using assms by (auto simp: settled_def)
  fix st2 assume "same st st2"
  with assms(1) obtain st3 where 3: "expand_all env xs st2 = Inr (xs, st3)" "same st2 st3" by (auto simp: settled_def)
  with \<open>same st st2\<close> assms(2) obtain st4 where "expand_all env ys st3 = Inr (ys, st4)" "same st3 st4"
    unfolding settled_def by (blast intro: same_trans)
  with 3 show "\<exists>st2'. expand_all env (xs @ ys) st2 = Inr (xs @ ys, st2') \<and> same st2 st2'"
    by (blast intro: expand_all_append same_trans)
qed

lemma settled_nil [simp]: "settled env st []"
  by (simp add: settled_def)

lemma settled_list: "\<forall>s\<in>set ss. settled env st [s] \<Longrightarrow> settled env st ss"
proof (induction ss)
  case (Cons s ss)
  then show ?case using settled_append [of env st "[s]" ss] by simp
qed simp

lemma settled_same: "settled env st ss \<Longrightarrow> same st st' \<Longrightarrow> settled env st' ss"
  by (auto simp: settled_def intro: same_trans)

lemma settled_call:
  assumes "is_call_stmt s" "\<not> dummy_stmt s" "\<And>st2. same st st2 \<Longrightarrow> \<exists>st2'. replacement env s st2 = Inr ([s], st2') \<and> same st2 st2'"
  shows "settled env st [s]"
  using assms by (fastforce simp: settled_def expand_one_def)

lemma inserted_settled:
  assumes "inserted s" "ready st"
  shows "settled env st [s]" "\<not> dummy_stmt s" "filter of_program (tree_calls s) = []"
proof -
  obtain b as where s: "b \<noteq> MOLEN_DUMMY" "s = build_call_expr b as" using assms(1) by (auto simp: inserted_def)
  show nd: "\<not> dummy_stmt s"
    using s by (cases b) (simp_all add: dummy_stmt_def is_dummy_def build_call_expr_def decl_name_def builtin_name_def)
  show "filter of_program (tree_calls s) = []" using s by (simp add: build_call_expr_def of_program_def)
  show "settled env st [s]"
  proof (rule settled_call [OF _ nd])
    show "is_call_stmt s" using s by (simp add: build_call_expr_def is_call_stmt_def)
    fix st2 assume "same st st2"
    then have "ready st2" using assms(2) by (simp add: ready_same)
    from replace_call_settle [OF nd this] obtain a b' st3 where
      "same st2 st3" "replace_call_tree_tsi env ([], [s]) st2 = settle env s a b' st3" by blast
    moreover have "settle env s a b' st3 = Inr (([], [s]), st3)"
      using s by (simp add: settle_def build_call_expr_def attribute_id_def decl_attributes_def)
    ultimately show "\<exists>st2'. replacement env s st2 = Inr ([s], st2') \<and> same st2 st2'"
      by (auto simp: replacement_def)
  qed
qed

lemma value_settled:
  assumes "ready st"
  shows "settled env st [Modify_stmt lhs (Value_rhs r) loc]"
proof (rule settled_call)
  fix st2 assume "same st st2"
  then have "ready st2" using assms by (simp add: ready_same)
  moreover have nd: "\<not> dummy_stmt (Modify_stmt lhs (Value_rhs r) loc)" by (simp add: dummy_stmt_def)
  ultimately obtain a b st3 where
    "same st2 st3" "replace_call_tree_tsi env ([], [Modify_stmt lhs (Value_rhs r) loc]) st2
      = settle env (Modify_stmt lhs (Value_rhs r) loc) a b st3"
    using replace_call_settle by blast
  then show "\<exists>st2'. replacement env (Modify_stmt lhs (Value_rhs r) loc) st2 = Inr ([Modify_stmt lhs (Value_rhs r) loc], st2')
      \<and> same st2 st2'"
    by (auto simp: replacement_def settle_def)
qed (simp_all add: is_call_stmt_def dummy_stmt_def)

text \<open>One statement with a call.\<close>

lemma replacement_calls:
  assumes s: "is_call_stmt s" "\<not> dummy_stmt s" and st: "ready st" and r: "replacement env s st = Inr (new, st')"
  shows "same st st' \<and> calls_replaced (snd (hxml_db st)) (tree_calls s) (concat (map tree_calls new)) \<and> settled env st new"
proof -
  from replacement_outcome [OF s(2) st r] have o: "same st st'" "outcome (snd (hxml_db st)) s new" by simp_all
  show ?thesis
  proof (cases "\<exists>c. get_call_expr_in s = Some c \<and> mapped (snd (hxml_db st)) c")
    case True
    then obtain c where c: "get_call_expr_in s = Some c" "mapped (snd (hxml_db st)) c" by blast
    with o(2) obtain front where f: "\<forall>m\<in>set front. inserted m"
      and new: "new = front \<or> (\<exists>lhs r rs loc. new = front @ [Modify_stmt lhs (Value_rhs r) loc])"
      by (auto simp: outcome_def)
    have "settled env st front" using inserted_settled(1) f st by (blast intro: settled_list)
    then have "settled env st new" using new settled_append value_settled [OF st] by blast
    moreover have "filter of_program (concat (map tree_calls front)) = []"
      using inserted_settled(3) f st by (induction front) simp_all
    moreover have "\<forall>c\<in>set (concat (map tree_calls front)). \<not> is_dummy c"
      using f by (auto simp: inserted_def build_call_expr_def is_dummy_def decl_name_def builtin_name_def split: builtin.splits)
    ultimately show ?thesis
      using o(1) c new s(1) by (auto simp: calls_replaced_def tree_calls_get)
  next
    case False
    then have new: "new = [s]" using o(2) by (auto simp: outcome_def split: option.splits)
    have "settled env st [s]"
      using False replacement_again [OF s(2) st r] by (intro settled_call [OF s]) blast
    moreover have "calls_replaced (snd (hxml_db st)) (tree_calls s) (tree_calls s)"
      using False s by (auto simp: calls_replaced_def tree_calls_get dummy_stmt_def split: option.splits)
    ultimately show ?thesis using o(1) by (simp add: new)
  qed
qed

section \<open>The body of a function\<close>

definition tree_replaced :: "fpga_env \<Rightarrow> fpga_state \<Rightarrow> stmt \<Rightarrow> stmt \<Rightarrow> fpga_state \<Rightarrow> bool" where
  "tree_replaced env st r r' st' \<longleftrightarrow>
    same st st' \<and> calls_replaced (snd (hxml_db st)) (tree_calls r) (tree_calls r')
    \<and> (\<forall>st2. same st st2 \<longrightarrow> (\<exists>st2'. replace_tree env r' st2 = Inr (r', st2') \<and> same st2 st2'))
    \<and> is_call_stmt r' = is_call_stmt r"

definition list_replaced :: "fpga_env \<Rightarrow> fpga_state \<Rightarrow> stmt list \<Rightarrow> stmt list \<Rightarrow> fpga_state \<Rightarrow> bool" where
  "list_replaced env st ss new st' \<longleftrightarrow>
    same st st' \<and> calls_replaced (snd (hxml_db st)) (concat (map tree_calls ss)) (concat (map tree_calls new))
    \<and> settled env st new"

definition sections_replaced :: "fpga_env \<Rightarrow> fpga_state \<Rightarrow> stmt list \<Rightarrow> stmt list \<Rightarrow> fpga_state \<Rightarrow> bool" where
  "sections_replaced env st ss ss' st' \<longleftrightarrow>
    same st st' \<and> calls_replaced (snd (hxml_db st)) (concat (map section_calls ss)) (concat (map section_calls ss'))
    \<and> (\<forall>st2. same st st2 \<longrightarrow> (\<exists>st2'. replace_sections env ss' st2 = Inr (ss', st2') \<and> same st2 st2'))"

lemma tree_replaced_one:
  assumes "tree_replaced env st a a' st'"
  shows "tree_replaced env st (Catch_stmt a) (Catch_stmt a') st'" "tree_replaced env st (Bind_expr a) (Bind_expr a') st'"
    "tree_replaced env st (Omp_parallel a) (Omp_parallel a') st'"
    "sections_replaced env st [Omp_section a] [Omp_section a'] st'"
  using assms by (fastforce simp: tree_replaced_def sections_replaced_def is_call_stmt_def)+

lemma same_both: "same st st1 \<Longrightarrow> same st st2 \<Longrightarrow> same st1 st2" "same st st1 \<Longrightarrow> snd (hxml_db st1) = snd (hxml_db st)"
  by (simp_all add: same_def)

text \<open>Two runs one after the other.\<close>

lemma again_twice:
  assumes "same st st1" "same st st2"
    and "\<forall>st2. same st st2 \<longrightarrow> (\<exists>st2'. f st2 = Inr (a, st2') \<and> same st2 st2')"
    and "\<forall>st2. same st1 st2 \<longrightarrow> (\<exists>st2'. g st2 = Inr (b, st2') \<and> same st2 st2')"
  shows "\<exists>st3 st4. f st2 = Inr (a, st3) \<and> g st3 = Inr (b, st4) \<and> same st2 st4"
proof -
  from assms(2,3) obtain st3 where 3: "f st2 = Inr (a, st3)" "same st2 st3" by blast
  with assms(1,2) have "same st1 st3" by (auto simp: same_def)
  with assms(4) obtain st4 where "g st3 = Inr (b, st4)" "same st3 st4" by blast
  with 3 show ?thesis by (blast intro: same_trans)
qed

lemma tree_replaced_two:
  assumes "tree_replaced env st a a' st1" "tree_replaced env st1 b b' st'"
  shows "tree_replaced env st (Try_stmt a b) (Try_stmt a' b') st'" "tree_replaced env st (Cond_expr a b) (Cond_expr a' b') st'"
proof -
  have s: "same st st1" "same st1 st'" using assms by (simp_all add: tree_replaced_def)
  have c: "calls_replaced (snd (hxml_db st)) (tree_calls a @ tree_calls b) (tree_calls a' @ tree_calls b')"
    using assms same_both(2) [OF s(1)] by (intro calls_replaced_append) (simp_all add: tree_replaced_def)
  have r: "\<exists>st3 st4. replace_tree env a' st2 = Inr (a', st3) \<and> replace_tree env b' st3 = Inr (b', st4) \<and> same st2 st4"
    if "same st st2" for st2
    using again_twice [OF s(1) that, of "replace_tree env a'" a' "replace_tree env b'" b'] assms
    by (simp add: tree_replaced_def)
  show "tree_replaced env st (Try_stmt a b) (Try_stmt a' b') st'" "tree_replaced env st (Cond_expr a b) (Cond_expr a' b') st'"
    using s c r by (fastforce simp: tree_replaced_def is_call_stmt_def intro: same_trans)+
qed

lemma sections_replaced_Cons:
  assumes "tree_replaced env st a a' st1" "sections_replaced env st1 ss ss' st'"
  shows "sections_replaced env st (Omp_section a # ss) (Omp_section a' # ss') st'"
proof -
  have s: "same st st1" "same st1 st'" using assms by (simp_all add: tree_replaced_def sections_replaced_def)
  have c: "calls_replaced (snd (hxml_db st)) (tree_calls a @ concat (map section_calls ss))
      (tree_calls a' @ concat (map section_calls ss'))"
    using assms same_both(2) [OF s(1)] by (intro calls_replaced_append) (simp_all add: tree_replaced_def sections_replaced_def)
  have r: "\<exists>st3 st4. replace_tree env a' st2 = Inr (a', st3) \<and> replace_sections env ss' st3 = Inr (ss', st4) \<and> same st2 st4"
    if "same st st2" for st2
    using again_twice [OF s(1) that, of "replace_tree env a'" a' "replace_sections env ss'" ss'] assms
    by (simp add: tree_replaced_def sections_replaced_def)
  show ?thesis using s c r by (fastforce simp: sections_replaced_def intro: same_trans)
qed

lemma list_replaced_Cons:
  assumes "calls_replaced (snd (hxml_db st)) (tree_calls s) (concat (map tree_calls new))" "settled env st new" "same st st1"
    and "list_replaced env st1 ss rest st'"
  shows "list_replaced env st (s # ss) (new @ rest) st'"
  using assms same_both(2) [OF assms(3)] settled_same [of env st1 rest st] same_reverse [OF assms(3)]
  by (auto simp: list_replaced_def intro: calls_replaced_append settled_append same_trans)

lemma tree_replaced_settled:
  assumes "tree_replaced env st s s' st1" "\<not> is_call_stmt s"
  shows "settled env st [s']"
proof -
  have "\<not> dummy_stmt s'" "\<not> is_call_stmt s'" using assms by (simp_all add: tree_replaced_def dummy_stmt_calls)
  then show ?thesis using assms(1) by (fastforce simp: tree_replaced_def settled_def expand_one_def)
qed

lemma list_replaced_tree:
  assumes "list_replaced env st ss new st'"
  shows "tree_replaced env st (Stmt_list ss) (Stmt_list new) st'"
proof -
  have nd: "\<forall>s\<in>set new. \<not> dummy_stmt s" using assms by (simp add: list_replaced_def settled_def)
  have "\<exists>st2'. replace_tree env (Stmt_list new) st2 = Inr (Stmt_list new, st2') \<and> same st2 st2'" if "same st st2" for st2
    using assms that by (fastforce simp: list_replaced_def settled_def cursor_start_def replace_list_flat [OF nd])
  then show ?thesis using assms by (simp add: tree_replaced_def list_replaced_def is_call_stmt_def)
qed

lemma sections_replaced_tree:
  assumes "sections_replaced env st ss ss' st'"
  shows "tree_replaced env st (Omp_sections (Stmt_list ss)) (Omp_sections (Stmt_list ss')) st'"
  using assms by (fastforce simp: sections_replaced_def tree_replaced_def is_call_stmt_def)

text \<open>A statement the walk does not look into.\<close>

lemma tree_replaced_kept:
  assumes "tree_calls s = []" "\<forall>st. replace_tree env s st = Inr (s, st)"
  shows "tree_replaced env st s s st"
  using assms by (simp add: tree_replaced_def)

lemma section_kept:
  assumes "sections_replaced env st ss ss' st'" "section_calls s = []"
    "\<forall>ss st. replace_sections env (s # ss) st =
      (case replace_sections env ss st of Inl e \<Rightarrow> Inl e | Inr (ss, st) \<Rightarrow> Inr (s # ss, st))"
  shows "sections_replaced env st (s # ss) (s # ss') st'"
  using assms by (fastforce simp: sections_replaced_def)

text \<open>The steps of the walk over a list.\<close>

lemma replace_list_call:
  assumes "is_call_stmt s" "\<not> dummy_stmt s" "replace_list env (xs, s # ys) st = Inr (out, st')"
  obtains z new st1 where "replace_call_tree_tsi env (xs, s # ys) st = Inr (z, st1)" "replacement env s st = Inr (new, st1)"
    "cursor_next z = None \<and> ys = [] \<and> out = xs @ new \<and> st' = st1
      \<or> cursor_next z = Some (xs @ new, ys) \<and> replace_list env (xs @ new, ys) st1 = Inr (out, st')"
proof -
  from assms(1,3) obtain z st1 where z: "replace_call_tree_tsi env (xs, s # ys) st = Inr (z, st1)"
    by (auto split: sum.splits)
  with replace_call_local [OF assms(2), where env = env and st = st and xs = xs and ys = ys] obtain new where
    new: "replacement env s st = Inr (new, st1)" "stands xs ys z new"
    by (auto split: sum.splits)
  show ?thesis
    by (rule that [OF z new(1)], use assms(1,3) z new(2) in \<open>cases "cursor_next z"\<close>) (simp_all add: stands_def)
qed

lemma replaced_nil [simp]: "list_replaced env st [] [] st" "sections_replaced env st [] [] st"
  by (simp_all add: list_replaced_def sections_replaced_def)

lemma list_replaced_call:
  assumes "is_call_stmt s" "\<not> dummy_stmt s" "ready st" "replacement env s st = Inr (new, st1)"
    "list_replaced env st1 ys rest st'"
  shows "list_replaced env st (s # ys) (new @ rest) st'"
  using replacement_calls [OF assms(1-4)] assms(5) by (blast intro: list_replaced_Cons)

lemma list_replaced_other:
  assumes "\<not> is_call_stmt s" "tree_replaced env st s s' st1" "list_replaced env st1 ys rest st'"
  shows "list_replaced env st (s # ys) (s' # rest) st'"
  using list_replaced_Cons [of st s "[s']" env st1 ys rest st'] tree_replaced_settled [OF assms(2,1)] assms
  by (simp add: tree_replaced_def)

lemma tree_replaced_ready: "tree_replaced env st a a' st1 \<Longrightarrow> ready st \<Longrightarrow> ready st1"
  by (auto simp: tree_replaced_def ready_same)

lemma replace_calls_replaced:
  "ready st \<Longrightarrow> \<forall>c\<in>set (tree_calls r). \<not> is_dummy c \<Longrightarrow> replace_tree env r st = Inr (r', st') \<Longrightarrow> tree_replaced env st r r' st'"
  "ready st \<Longrightarrow> \<forall>c\<in>set (concat (map tree_calls (snd z))). \<not> is_dummy c \<Longrightarrow> replace_list env z st = Inr (out, st') \<Longrightarrow>
    \<exists>new. out = fst z @ new \<and> list_replaced env st (snd z) new st'"
  "ready st \<Longrightarrow> \<forall>c\<in>set (concat (map section_calls ss)). \<not> is_dummy c \<Longrightarrow> replace_sections env ss st = Inr (ss', st') \<Longrightarrow>
    sections_replaced env st ss ss' st'"
proof (induction env r st and env z st and env ss st arbitrary: r' st' and out st' and ss' st'
    rule: replace_tree_replace_list_replace_sections.induct)
  case (1 env a b st)
  then obtain a' st1 b' where r: "replace_tree env a st = Inr (a', st1)" "replace_tree env b st1 = Inr (b', st')"
    "r' = Try_stmt a' b'" by (auto split: sum.splits)
  with 1 have t: "tree_replaced env st a a' st1" by simp
  then have "ready st1" using 1(3) by (rule tree_replaced_ready)
  with 1 r have "tree_replaced env st1 b b' st'" by simp
  with t r show ?case by (simp add: tree_replaced_two)
next
  case (7 env a b st)
  then obtain a' st1 b' where r: "replace_tree env a st = Inr (a', st1)" "replace_tree env b st1 = Inr (b', st')"
    "r' = Cond_expr a' b'" by (auto split: sum.splits)
  with 7 have t: "tree_replaced env st a a' st1" by simp
  then have "ready st1" using 7(3) by (rule tree_replaced_ready)
  with 7 r have "tree_replaced env st1 b b' st'" by simp
  with t r show ?case by (simp add: tree_replaced_two)
next
  case (4 env ss st)
  then obtain new where "r' = Stmt_list new" "replace_list env (cursor_start ss) st = Inr (new, st')"
    by (auto split: sum.splits)
  with 4 show ?case by (auto simp: cursor_start_def intro: list_replaced_tree)
next
  case (14 env xs s ys st)
  have nd: "\<forall>c\<in>set (tree_calls s). \<not> is_dummy c" "\<forall>c\<in>set (concat (map tree_calls (snd (ts, ys)))). \<not> is_dummy c"
    for ts :: "stmt list" using 14(5) by auto
  show ?case
  proof (cases "is_call_stmt s")
    case call: True
    then have s: "\<not> dummy_stmt s" using nd(1) by (simp add: dummy_stmt_calls)
    from call s 14(6) obtain z new st1 where z: "replace_call_tree_tsi env (xs, s # ys) st = Inr (z, st1)"
      "replacement env s st = Inr (new, st1)"
      and c: "cursor_next z = None \<and> ys = [] \<and> out = xs @ new \<and> st' = st1
        \<or> cursor_next z = Some (xs @ new, ys) \<and> replace_list env (xs @ new, ys) st1 = Inr (out, st')"
      by (rule replace_list_call)
    have "ready st1" using replacement_outcome [OF s 14(4) z(2)] 14(4) by (auto simp: ready_same)
    with c have "\<exists>rest. out = (xs @ new) @ rest \<and> list_replaced env st1 ys rest st'"
      using 14(1) [OF call z(1) refl _ _ nd(2) [of "xs @ new"], of out st'] by auto
    with list_replaced_call [OF call s 14(4) z(2)] show ?thesis by fastforce
  next
    case False
    from 14(6) False obtain s' st1 where r: "replace_tree env s st = Inr (s', st1)"
      "replace_list env (xs @ [s'], ys) st1 = Inr (out, st')" by (auto split: sum.splits)
    from 14(2) [OF False 14(4) nd(1) r(1)] have t: "tree_replaced env st s s' st1" .
    from 14(3) [OF False r(1) refl tree_replaced_ready [OF t 14(4)] nd(2) r(2)] list_replaced_other [OF False t]
    show ?thesis by fastforce
  qed
next
  case (16 env a ss st)
  then obtain a' st1 ss1 where r: "replace_tree env a st = Inr (a', st1)" "replace_sections env ss st1 = Inr (ss1, st')"
    "ss' = Omp_section a' # ss1" by (auto split: sum.splits)
  with 16 have t: "tree_replaced env st a a' st1" by simp
  then have "ready st1" using 16(3) by (rule tree_replaced_ready)
  with 16 r have "sections_replaced env st1 ss ss1 st'" by simp
  with t r show ?case by (simp add: sections_replaced_Cons)
qed (auto split: sum.splits intro: tree_replaced_one sections_replaced_tree tree_replaced_kept section_kept)

section \<open>The property\<close>

text \<open>Let the description of the architecture be read, no number be pending from a dummy call, and the body
  hold no dummy call. If the pass for calls succeeds, the calls of the program in the body it leaves are those
  of the old body that are not mapped to an FPGA, each in its order, wherever they stand: in nested lists,
  branches, handlers and sections. Run once more, in whatever state of the counters, the pass succeeds and
  leaves the body as it is.\<close>

lemma mapped_calls_replaced:
  assumes "fst (hxml_db st)" "fpga_id_dummy st = -1" "\<forall>c\<in>set (tree_calls body). \<not> is_dummy c"
    and "replace_tree env body st = Inr (body', st')"
  shows "filter of_program (tree_calls body')
      = filter (\<lambda>c. \<not> mapped (snd (hxml_db st)) c) (filter of_program (tree_calls body))
    \<and> hxml_db st' = hxml_db st \<and> fpga_id_dummy st' = -1
    \<and> (\<forall>n k ws. \<exists>st2. replace_tree env body' (st'\<lparr>trx_bytes := n, tmp_var_id_num := k, fpga_warnings := ws\<rparr>) = Inr (body', st2))"
proof -
  have r: "ready st" using assms(1,2) by (simp add: ready_def)
  from replace_calls_replaced(1) [OF r assms(3,4)] have t: "same st st'"
    "calls_replaced (snd (hxml_db st)) (tree_calls body) (tree_calls body')"
    "\<And>st2. same st st2 \<Longrightarrow> \<exists>st2'. replace_tree env body' st2 = Inr (body', st2')"
    unfolding tree_replaced_def by blast+
  have "same st (st'\<lparr>trx_bytes := n, tmp_var_id_num := k, fpga_warnings := ws\<rparr>)" for n k ws
    using t(1) by (simp add: same_def)
  with t(2) t(3) t(1) assms(2) show ?thesis by (simp add: calls_replaced_def same_def)
qed

text \<open>A machine with one FPGA and the implementation 1, whose arguments start at register 4 and whose result is
  in register 9, and a signal processor with the implementation 2; a call of its function with a constant, and a call of another function.\<close>

definition demo_db :: hxml_state where
  "demo_db = hxml_init
    \<lparr>h_functional := [\<lparr>f_name = Some ''virtex'', f_type = FPGA\<rparr>, \<lparr>f_name = Some ''magic'', f_type = DSP\<rparr>],
     h_operations := [\<lparr>o_name = Some ''fir'', components =
       [\<lparr>c_name = Some ''virtex'', c_functional = Some 0,
         implementations = [\<lparr>impl_id = 1, start_input_xr = 4, start_output_xr = 9\<rparr>]\<rparr>]\<rparr>,
       \<lparr>o_name = Some ''fft'', components =
       [\<lparr>c_name = Some ''magic'', c_functional = Some 1,
         implementations = [\<lparr>impl_id = 2, start_input_xr = 0, start_output_xr = 0\<rparr>]\<rparr>]\<rparr>]\<rparr>"

definition demo_state :: fpga_state where
  "demo_state = fpga_init\<lparr>hxml_db := (True, demo_db)\<rparr>"

definition demo_env :: fpga_env where
  "demo_env = \<lparr>fpga = True, fpgastat = False, fpga_call_generate_set = False, hartes_configuration_xml = True,
    configuration_file = None, stale_return = False\<rparr>"

definition demo_call :: "call_expr" where
  "demo_call = \<lparr>callee = Some (Function ''fir'' [(''call_hw'', ''1,VIRTEX4'')] [integer_type_node]), args = [Int_arg 7],
    call_type = integer_type_node, location = (None, 0)\<rparr>"

definition demo_other :: "call_expr" where
  "demo_other = \<lparr>callee = Some (Function ''puts'' [] []), args = [], call_type = void_type_node, location = (None, 0)\<rparr>"

definition demo_body :: stmt where
  "demo_body = Bind_expr (Stmt_list [Call_stmt demo_other,
    Cond_expr (Stmt_list [Modify_stmt ''y'' (Call_rhs demo_call) (None, 0)]) (Stmt_list [])])"

definition demo_result :: "stmt \<times> fpga_state" where
  "demo_result =
    (Bind_expr (Stmt_list [Call_stmt demo_other,
       Cond_expr
         (Stmt_list
           [build_call_expr FPGA_MOVET [Int_arg 1, Int_arg 4, Int_arg 7],
            build_call_expr FPGA_EXECUTE [Int_arg 1],
            build_call_expr FPGA_BREAK [Int_arg 1],
            build_call_expr FPGA_MOVEF [Int_arg 1, Int_arg 9,
              build_fold_addr_expr (Var_arg integer_type_node ''__fpga_return_int.2'')],
            Modify_stmt ''y'' (Value_rhs (Var_arg integer_type_node ''__fpga_return_int.2'')) (None, 0)])
         (Stmt_list [])]),
     demo_state\<lparr>trx_bytes := 4, tmp_var_id_num := 4\<rparr>)"

lemma demo_queries:
  "hxml_get_functional_component_type demo_db 1 = Inr FPGA" "hxml_get_start_input_xr demo_db 1 = Inr 4"
  "hxml_get_start_output_xr demo_db 1 = Inr 9" "hxml_get_functional_component_type demo_db 2 = Inr DSP"
  by (simp_all add: demo_db_def hxml_get_functional_component_type_def get_functional_component_from_implementation_def
      all_components_def hxml_get_start_input_xr_def hxml_get_start_output_xr_def get_implementation_def)

lemma attribute_id_named:
  assumes "in_hwi n" "plain_name c" "\<forall>a\<in>set as. plain_name a" "fits 256 (dec n @ comma_list (c # as))"
    "lookup_attribute ''call_hw'' attrs = Some ((''call_hw'', dec n @ comma_list (c # as)) # rest)"
  shows "attribute_id (Function f attrs ts) = Some n"
proof -
  have "sint (word_of_int n :: 32 word) = n"
    using assms(1) by (simp add: in_hwi_def signed_take_bit_int_eq_self sint_sbintrunc')
  then show ?thesis
    using get_params_list [OF assms(1-4)] assms(5) by (simp add: attribute_id_def decl_attributes_def call_hw_id_def)
qed

lemma demo_attributes:
  "attribute_id (Function ''fir'' [(''call_hw'', ''1,VIRTEX4'')] [integer_type_node]) = Some 1"
  by (rule attribute_id_named [where c = "''VIRTEX4''" and as = "[]" and rest = "[]"])
    (simp_all add: in_hwi_def plain_name_def comma_list_def dec_def digits.simps [of 10 "Suc 0"] fits_def)

lemma no_attributes: "attribute_id (Function n [] ts) = Some (-1)"
  by (simp add: attribute_id_def decl_attributes_def)

lemma demo_digits: "digits 10 0 = ''0''" "digits 10 (Suc 0) = ''1''" "digits 10 2 = ''2''" "digits 10 3 = ''3''"
  "digits 10 (Suc (Suc 0)) = ''2''"
  by (simp_all add: digits.simps [of 10] numeral_2_eq_2 [symmetric])

lemma demo_types: "type_code integer_type_node = INTEGER_CODE"
  by (simp add: integer_type_node_def)

lemma demo_run: "replace_tree demo_env demo_body demo_state = Inr demo_result"
proof -
  note call = replace_call_tree_tsi_def create_tmp_var_def demo_digits demo_attributes no_attributes decl_name_def decl_attributes_def
    is_call_stmt_def cursor_start_def
  have st: "hxml_db demo_state = (True, demo_db)" "fpga_id_dummy demo_state = -1" "tmp_var_id_num demo_state = 0" "trx_bytes demo_state = 0"
    by (simp_all add: demo_state_def fpga_init_def)
  show ?thesis
    by (simp add: demo_body_def demo_other_def demo_call_def demo_result_def call st demo_env_def
        replace_mapped_def read_configuration_def hxml_read_xml_def demo_queries call_sequence_def expand_parameters_def
        expand_parameter_def expand_other_def exchange_def with_state_def return_variable_def stats_bytes_def
        demo_types cursor_link_before_def Let_def)
qed

end
