(* ===== verification/FpgaProtocol.thy ===== *)
theory FpgaProtocol
  imports FpgaMapped
begin

text \<open>
  What a mapped call becomes: the transfers, the start, the wait, and the transfers back; and what a pragma in
  front of a call and one in front of a declaration lead to.
\<close>

section \<open>Transfers\<close>

text \<open>An argument goes by its address when it is the address of an object outside the accelerator's memory or a
  variable that holds a pointer.\<close>

definition in_fpga_memory :: "addr_operand \<Rightarrow> bool" where
  "in_fpga_memory opnd \<longleftrightarrow>
    (case lookup_attribute ''section'' (op_attributes opnd) of
       Some (attr # _) \<Rightarrow> strstr (snd attr) ''.hpp_ccu_ram''
     | _ \<Rightarrow> False)"

definition by_address :: "arg \<Rightarrow> bool" where
  "by_address a \<longleftrightarrow>
    (case a of
       Addr_expr t opnd \<Rightarrow> \<not> in_fpga_memory opnd
     | Var_arg t n \<Rightarrow> type_code t = POINTER_CODE
     | Parm_arg t n \<Rightarrow> type_code t = POINTER_CODE
     | Ssa_arg t n \<Rightarrow> type_code t = POINTER_CODE
     | _ \<Rightarrow> False)"

text \<open>The length that goes with an address, which is 0 for a pointer.\<close>

definition transfer_length :: "arg \<Rightarrow> int" where
  "transfer_length a =
    (case a of
       Addr_expr t opnd \<Rightarrow> (case transfer_size 0 opnd of Inl e \<Rightarrow> 0 | Inr n \<Rightarrow> n)
     | _ \<Rightarrow> 0)"

definition sent :: "fndecl \<Rightarrow> int \<Rightarrow> int \<Rightarrow> nat \<Rightarrow> arg \<Rightarrow> stmt" where
  "sent decl i start k a =
    (if by_address a
     then build_call_expr FPGA_MOVET_ADDR
            [Int_arg i, Int_arg (int k + start), a, Int_arg (transfer_length a), Int_arg (1 - is_param_const decl k)]
     else build_call_expr FPGA_MOVET [Int_arg i, Int_arg (int k + start), a])"

definition returned :: "fndecl \<Rightarrow> int \<Rightarrow> int \<Rightarrow> nat \<Rightarrow> arg \<Rightarrow> stmt list" where
  "returned decl i start k a =
    (if by_address a \<and> is_param_const decl k = 0
     then [build_call_expr FPGA_MOVEF_ADDR [Int_arg i, Int_arg (int k + start), a, Int_arg (transfer_length a)]]
     else [])"

text \<open>What one expansion adds to the count of bytes.\<close>

definition counted :: "io_type \<Rightarrow> arg \<Rightarrow> int" where
  "counted io a =
    (case a of
       Addr_expr t opnd \<Rightarrow> if in_fpga_memory opnd then 0 else 4 * transfer_length a
     | _ \<Rightarrow> if io = IO_EPILOGUE \<or> by_address a then 0 else 4)"

lemma transfer_size_index: "transfer_size k opnd = Inr n \<Longrightarrow> transfer_size 0 opnd = Inr n"
  by (auto simp: transfer_size_def split: if_splits option.splits)

lemma is_param_const_01: "is_param_const decl k = 0 \<or> is_param_const decl k = 1"
  by (auto simp: is_param_const_def Let_def split: option.split)

definition expansion :: "fndecl \<Rightarrow> int \<Rightarrow> int \<Rightarrow> io_type \<Rightarrow> nat \<Rightarrow> arg \<Rightarrow> stmt list" where
  "expansion decl i start io k a =
    (case io of IO_PROLOGUE \<Rightarrow> [sent decl i start k a] | IO_EPILOGUE \<Rightarrow> returned decl i start k a)"

lemma exchange_Inr:
  "hxml_get_start_input_xr (snd (hxml_db st)) i = Inr start \<Longrightarrow>
    exchange st b i k rest = Inr [build_call_expr b ([Int_arg i, Int_arg (int k + start)] @ rest)]"
  by (simp add: exchange_def)

lemma expand_address_is:
  assumes "hxml_get_start_input_xr (snd (hxml_db st)) i = Inr start" "expand_address decl io i k t opnd st = Inr (ms, st')"
  shows "ms = expansion decl i start io k (Addr_expr t opnd) \<and> trx_bytes st' = trx_bytes st + counted io (Addr_expr t opnd)"
proof -
  obtain attr where attr: "lookup_attribute ''section'' (op_attributes opnd) = Some attr"
    using assms(2) by (auto simp: expand_address_def Let_def split: option.splits)
  have mem: "in_fpga_memory opnd \<longleftrightarrow> attr \<noteq> [] \<and> strstr (snd (hd attr)) ''.hpp_ccu_ram''"
    by (cases attr) (simp_all add: in_fpga_memory_def attr)
  show ?thesis
  proof (cases "in_fpga_memory opnd")
    case True
    then show ?thesis
      using assms attr mem
      by (cases io) (simp_all add: expand_address_def exchange_Inr with_state_def expansion_def sent_def
          returned_def by_address_def counted_def)
  next
    case False
    with assms(2) attr mem obtain n where n: "transfer_size k opnd = Inr n"
      and r: "with_state (st\<lparr>trx_bytes := trx_bytes st + n * 4\<rparr>)
        (case io of
           IO_PROLOGUE \<Rightarrow>
             exchange (st\<lparr>trx_bytes := trx_bytes st + n * 4\<rparr>) FPGA_MOVET_ADDR i k
               [Addr_expr t opnd, Int_arg n, Int_arg (1 - is_param_const decl k)]
         | IO_EPILOGUE \<Rightarrow>
             if is_param_const decl k = 0
             then exchange (st\<lparr>trx_bytes := trx_bytes st + n * 4\<rparr>) FPGA_MOVEF_ADDR i k [Addr_expr t opnd, Int_arg n]
             else Inr []) = Inr (ms, st')"
      by (auto simp: expand_address_def Let_def split: option.splits sum.splits if_splits)
    have len: "transfer_length (Addr_expr t opnd) = n" using transfer_size_index [OF n] by (simp add: transfer_length_def)
    show ?thesis
      using r False assms(1)
      by (cases io) (auto simp: exchange_Inr with_state_def expansion_def sent_def returned_def by_address_def
          counted_def len split: if_splits)
  qed
qed

lemma expand_other_is:
  assumes "hxml_get_start_input_xr (snd (hxml_db st)) i = Inr start" "expand_other io i k a st = Inr (ms, st')"
    "\<not> by_address a" "\<forall>t opnd. a \<noteq> Addr_expr t opnd"
  shows "ms = expansion decl i start io k a \<and> trx_bytes st' = trx_bytes st + counted io a"
  using assms
  by (cases io; cases a) (auto simp: expand_other_def exchange_Inr with_state_def expansion_def sent_def returned_def
      counted_def Let_def)

lemma expand_variable_is:
  assumes "hxml_get_start_input_xr (snd (hxml_db st)) i = Inr start" "expand_variable decl io i k t a st = Inr (ms, st')"
    "a = Var_arg t n \<or> a = Parm_arg t n \<or> a = Ssa_arg t n"
  shows "ms = expansion decl i start io k a \<and> trx_bytes st' = trx_bytes st + counted io a"
proof (cases "type_code t = POINTER_CODE")
  case True
  then have "by_address a" "transfer_length a = 0" "counted io a = 0"
    using assms(3) by (auto simp: by_address_def transfer_length_def counted_def)
  with True assms(1,2) is_param_const_01 [of decl k] show ?thesis
    by (cases io) (auto simp: expand_variable_def exchange_Inr with_state_def expansion_def sent_def returned_def
        expand_other_def Let_def)
next
  case False
  then have na: "\<not> by_address a" "\<forall>t opnd. a \<noteq> Addr_expr t opnd" using assms(3) by (auto simp: by_address_def)
  show ?thesis
  proof (cases "io = IO_EPILOGUE \<and> is_param_const decl k = 0")
    case True
    then have "ms = [] \<and> st' = st" using False assms(2) by (simp add: expand_variable_def)
    with True na assms(3) show ?thesis by (auto simp: expansion_def returned_def counted_def)
  next
    case other: False
    have "expand_other io i k a st = Inr (ms, st')"
      using assms(2) False other is_param_const_01 [of decl k] by (cases io) (auto simp: expand_variable_def Let_def)
    from expand_other_is [OF assms(1) this na] show ?thesis .
  qed
qed

lemma expand_parameter_is:
  assumes "hxml_get_start_input_xr (snd (hxml_db st)) i = Inr start" "expand_parameter decl io i k a st = Inr (ms, st')"
  shows "ms = expansion decl i start io k a \<and> trx_bytes st' = trx_bytes st + counted io a"
proof (cases a)
  case (Addr_expr t opnd)
  with assms show ?thesis by (simp add: expand_parameter_def expand_address_is)
next
  case (Var_arg t n)
  with assms show ?thesis by (intro expand_variable_is) (simp_all add: expand_parameter_def)
next
  case (Parm_arg t n)
  with assms show ?thesis by (intro expand_variable_is) (simp_all add: expand_parameter_def)
next
  case (Ssa_arg t n)
  with assms show ?thesis by (intro expand_variable_is) (simp_all add: expand_parameter_def)
next
  case (Int_arg n)
  with assms show ?thesis by (intro expand_other_is) (simp_all add: expand_parameter_def by_address_def)
next
  case (String_arg t)
  with assms show ?thesis by (intro expand_other_is) (simp_all add: expand_parameter_def by_address_def)
next
  case (Real_arg t)
  with assms show ?thesis by (intro expand_other_is) (simp_all add: expand_parameter_def by_address_def)
next
  case (Bit_and_arg t n)
  with assms show ?thesis by (intro expand_other_is) (simp_all add: expand_parameter_def by_address_def)
next
  case (Rshift_arg t n)
  with assms show ?thesis by (intro expand_other_is) (simp_all add: expand_parameter_def by_address_def)
next
  case (Other_arg t n)
  with assms show ?thesis by (intro expand_other_is) (simp_all add: expand_parameter_def by_address_def)
qed

text \<open>All arguments, with their numbers.\<close>

fun numbered :: "(nat \<Rightarrow> 'a \<Rightarrow> 'b) \<Rightarrow> nat \<Rightarrow> 'a list \<Rightarrow> 'b list" where
  "numbered f k [] = []"
| "numbered f k (x # xs) = f k x # numbered f (k + 1) xs"

lemma numbered_nth: "length (numbered f k xs) = length xs" "n < length xs \<Longrightarrow> numbered f k xs ! n = f (k + n) (xs ! n)"
  by (induction xs arbitrary: k n) (auto simp: nth_Cons split: nat.split)

lemma expand_from_is:
  assumes "hxml_get_start_input_xr (snd (hxml_db st)) i = Inr start" "expand_from decl io i k as st = Inr (ms, st')"
  shows "ms = concat (numbered (expansion decl i start io) k as)
    \<and> trx_bytes st' = trx_bytes st + sum_list (map (counted io) as)"
  using assms
proof (induction as arbitrary: k st ms)
  case (Cons a as)
  from Cons.prems(2) obtain ms1 st1 ms2 where
    r: "expand_parameter decl io i k a st = Inr (ms1, st1)" "expand_from decl io i (k + 1) as st1 = Inr (ms2, st')"
      "ms = ms1 @ ms2" by (auto split: sum.splits)
  have "hxml_get_start_input_xr (snd (hxml_db st1)) i = Inr start"
    using expand_parameter_same [OF r(1)] Cons.prems(1) by (simp add: same_def)
  from Cons.IH [OF this r(2)] expand_parameter_is [OF Cons.prems(1) r(1)] r(3) show ?case by simp
qed simp

text \<open>For a reference to an element of an array the length is the size of the element less the number of elements in
  front of it: bytes less elements, and not what is left of the array.\<close>

lemma element_length:
  assumes "op_code opnd = Array_ref" "op_index opnd = Some k" "type_size_unit (op_type opnd) = Some 4"
    "\<not> in_fpga_memory opnd"
  shows "transfer_length (Addr_expr t opnd) = 4 - k"
  using assms by (simp add: transfer_length_def transfer_size_def)

section \<open>One mapped call\<close>

text \<open>The statements that talk to the accelerator, without those for the statistics and the loader.\<close>

definition talks :: "stmt \<Rightarrow> bool" where
  "talks s \<longleftrightarrow>
    (case s of
       Call_stmt c \<Rightarrow>
         (case callee c of
            Some (Builtin b) \<Rightarrow>
              b \<in> {FPGA_MOVET, FPGA_MOVET_ADDR, FPGA_EXECUTE, FPGA_BREAK, FPGA_MOVEF, FPGA_MOVEF_ADDR}
          | _ \<Rightarrow> False)
     | _ \<Rightarrow> False)"

definition protocol :: "fndecl \<Rightarrow> int \<Rightarrow> int \<Rightarrow> int \<Rightarrow> arg \<Rightarrow> arg list \<Rightarrow> stmt list" where
  "protocol decl i sin sout r as =
    numbered (sent decl i sin) 0 as
    @ [build_call_expr FPGA_EXECUTE [Int_arg i], build_call_expr FPGA_BREAK [Int_arg i]]
    @ concat (numbered (returned decl i sin) 0 as)
    @ [build_call_expr FPGA_MOVEF [Int_arg i, Int_arg sout, build_fold_addr_expr r]]"

definition result_variable :: "call_expr \<Rightarrow> nat \<Rightarrow> arg" where
  "result_variable call n =
    (if type_code (call_type call) = REAL_CODE
     then Var_arg float_type_node (''__fpga_return_float.'' @ digits 10 (n + 1))
     else Var_arg integer_type_node (''__fpga_return_int.'' @ digits 10 n))"

lemma talks_build [simp]:
  "talks (build_call_expr b as) \<longleftrightarrow>
    b \<in> {FPGA_MOVET, FPGA_MOVET_ADDR, FPGA_EXECUTE, FPGA_BREAK, FPGA_MOVEF, FPGA_MOVEF_ADDR}"
  by (simp add: talks_def build_call_expr_def)

lemma numbered_sent:
  "concat (numbered (expansion decl i sin IO_PROLOGUE) k as) = numbered (sent decl i sin) k as"
  "concat (numbered (expansion decl i sin IO_EPILOGUE) k as) = concat (numbered (returned decl i sin) k as)"
  by (induction as arbitrary: k) (simp_all add: expansion_def)

lemma talks_numbered [simp]:
  "filter talks (numbered (sent decl i sin) k as) = numbered (sent decl i sin) k as"
  "filter talks (concat (numbered (returned decl i sin) k as)) = concat (numbered (returned decl i sin) k as)"
  by (induction as arbitrary: k) (simp_all add: sent_def returned_def)

lemma stats_silent:
  "stats_begin n s = Inr ms \<Longrightarrow> filter talks ms = []" "filter talks (stats_bytes env HARTES_STATS_PARMIN st) = []"
  "filter talks (stats_bytes env HARTES_STATS_PARMOUT st) = []"
  by (auto simp: stats_begin_def stats_bytes_def split: prod.splits option.splits)

lemma return_variable_is:
  assumes "return_variable call decl a b st = Inr (r, st')"
  shows "r = (if type_code (call_type call) = REAL_CODE then b else a)" "trx_bytes st' = trx_bytes st" "hxml_db st' = hxml_db st"
  using assms by (auto simp: return_variable_def split: type_code.splits)

lemma call_sequence_is:
  assumes seq: "call_sequence env s call decl i a b st = Inr (new, r, st')"
    and sin: "hxml_get_start_input_xr (snd (hxml_db st)) i = Inr sin"
    and sout: "hxml_get_start_output_xr (snd (hxml_db st)) i = Inr sout"
  shows "filter talks new = protocol decl i sin sout r (args call)
    \<and> (\<not> fpgastat env \<and> \<not> fpga_call_generate_set env \<longrightarrow> new = protocol decl i sin sout r (args call))
    \<and> r = (if type_code (call_type call) = REAL_CODE then b else a)
    \<and> trx_bytes st' = trx_bytes st + sum_list (map (counted IO_PROLOGUE) (args call)) + sum_list (map (counted IO_EPILOGUE) (args call))"
proof -
  from seq obtain begins ins st1 outs st2 xr where
    c: "(if fpgastat env then stats_begin (decl_name decl) s else Inr []) = Inr begins"
      "expand_parameters decl call IO_PROLOGUE i st = Inr (ins, st1)"
      "expand_parameters decl call IO_EPILOGUE i st1 = Inr (outs, st2)"
      "return_variable call decl a b st2 = Inr (r, st')" "hxml_get_start_output_xr (snd (hxml_db st')) i = Inr xr"
    and new: "new = (if fpga_call_generate_set env then [set_statement (decl_name decl) i] else [])
        @ begins @ ins @ stats_bytes env HARTES_STATS_PARMIN st1
        @ [build_call_expr FPGA_EXECUTE [Int_arg i], build_call_expr FPGA_BREAK [Int_arg i]]
        @ (if fpgastat env then [build_call_expr HARTES_STATS_EXEC []] else [])
        @ outs @ stats_bytes env HARTES_STATS_PARMOUT st2
        @ [build_call_expr FPGA_MOVEF [Int_arg i, Int_arg xr, build_fold_addr_expr r]]"
    unfolding call_sequence_def Let_def by (auto split: sum.splits prod.splits)
  have s1: "same st st1" "same st1 st2"
    using c(2,3) expand_from_same unfolding expand_parameters_def by blast+
  then have sin1: "hxml_get_start_input_xr (snd (hxml_db st1)) i = Inr sin" using sin by (simp add: same_def)
  have ins: "ins = numbered (sent decl i sin) 0 (args call)"
      "trx_bytes st1 = trx_bytes st + sum_list (map (counted IO_PROLOGUE) (args call))"
    using expand_from_is [OF sin, of decl IO_PROLOGUE 0 "args call" ins st1] c(2) by (simp_all add: expand_parameters_def numbered_sent)
  have outs: "outs = concat (numbered (returned decl i sin) 0 (args call))"
      "trx_bytes st2 = trx_bytes st1 + sum_list (map (counted IO_EPILOGUE) (args call))"
    using expand_from_is [OF sin1, of decl IO_EPILOGUE 0 "args call" outs st2] c(3) by (simp_all add: expand_parameters_def numbered_sent)
  have xr: "xr = sout" using c(5) sout s1 return_variable_is(3) [OF c(4)] by (simp add: same_def)
  have begins: "filter talks begins = []" "\<not> fpgastat env \<Longrightarrow> begins = []"
    using c(1) stats_silent(1) by (auto split: if_splits)
  have quiet: "\<not> fpgastat env \<Longrightarrow> stats_bytes env bt st0 = []" for bt st0 by (simp add: stats_bytes_def)
  have "filter talks new = protocol decl i sin sout r (args call)"
    by (simp add: new ins outs xr begins stats_silent protocol_def set_statement_def Let_def)
  moreover have "\<not> fpgastat env \<and> \<not> fpga_call_generate_set env \<longrightarrow> new = protocol decl i sin sout r (args call)"
    by (simp add: new ins outs xr begins quiet protocol_def)
  ultimately show ?thesis using ins outs return_variable_is [OF c(4)] by simp
qed

lemma stands_list: "stands xs ys z new \<Longrightarrow> cursor_list z = xs @ new @ ys"
proof (cases z)
  case (Pair us vs)
  then show "stands xs ys z new \<Longrightarrow> cursor_list z = xs @ new @ ys" by (cases vs) (auto simp: stands_def)
qed

text \<open>The number is the pending one of a dummy call, or else the attribute's.\<close>

lemma replace_call_mapped:
  assumes "get_call_expr_in s = Some call" "callee call = Some decl" "decl_name decl \<noteq> ''__builtin_molen_dummy''"
    "attribute_id decl = Some j" "i = (if fpga_id_dummy st = -1 then j else fpga_id_dummy st)" "i \<noteq> -1"
  shows "\<exists>st1. replace_call_tree_tsi env (xs, s # ys) st = replace_mapped env (xs, s # ys) s call decl i
      (Var_arg integer_type_node (''__fpga_return_int.'' @ digits 10 (tmp_var_id_num st)))
      (Var_arg float_type_node (''__fpga_return_float.'' @ digits 10 (tmp_var_id_num st + 1))) st1
    \<and> hxml_db st1 = hxml_db st \<and> trx_bytes st1 = trx_bytes st \<and> fpga_id_dummy st1 = -1"
  by (rule exI [of _ "let st1 = st\<lparr>tmp_var_id_num := tmp_var_id_num st + 1 + 1\<rparr>
        in if fpga_id_dummy st = -1 then st1 else st1\<lparr>fpga_id_dummy := -1\<rparr>"])
    (use assms in \<open>cases "fpga_id_dummy st = -1"; simp add: replace_call_tree_tsi_def create_tmp_var_def Let_def\<close>)

text \<open>What the mapped call becomes in the list.\<close>

definition assigned :: "stmt \<Rightarrow> arg \<Rightarrow> stmt list" where
  "assigned s r = (case s of Modify_stmt lhs rs loc \<Rightarrow> [Modify_stmt lhs (Value_rhs r) loc] | _ \<Rightarrow> [])"

lemma replace_mapped_list:
  assumes "replace_mapped env (xs, s # ys) s call decl i a b st = Inr (z, st')" "get_call_expr_in s = Some call"
    and "fst (hxml_db st)" "hxml_get_functional_component_type (snd (hxml_db st)) i = Inr FPGA"
  shows "\<exists>new r st1. cursor_list z = xs @ new @ assigned s r @ ys \<and> same st st1 \<and> trx_bytes st1 = trx_bytes st
    \<and> call_sequence env s call decl i a b st1 = Inr (new, r, st')"
proof -
  define tmp where
    "tmp = (\<lambda>st. if stale_return env then snd (create_tmp_var integer_type_node ''__fpga_return'' st) else st)"
  have tmp: "(if stale_return env then snd (create_tmp_var integer_type_node ''__fpga_return'' st) else st) = tmp st" for st
    by (simp add: tmp_def)
  have s1: "same st (tmp st)" "trx_bytes (tmp st) = trx_bytes st" by (auto simp: tmp_def create_tmp_var_def)
  have conf: "(if hartes_configuration_xml env then read_configuration env st else Inr st) = Inr st"
    using read_configuration_again [OF assms(3)] by simp
  from assms(1,4) obtain new r where new: "call_sequence env s call decl i a b (tmp st) = Inr (new, r, st')"
    unfolding replace_mapped_def Let_def tmp conf
    by (cases s) (auto simp: cursor_link_before_def split: sum.splits prod.splits option.splits if_splits)
  obtain front l where fl: "new = front @ [l]" using call_sequence_last [OF new] by blast
  have "cursor_list z = xs @ new @ assigned s r @ ys"
    using assms(1,2,4) new fl unfolding replace_mapped_def Let_def tmp conf
    by (cases s; cases ys) (auto simp: cursor_link_before_def assigned_def simp flip: append_assoc split: option.splits)
  with new s1 show ?thesis by blast
qed

text \<open>The statements \<open>out\<close> of a list in which the call of \<open>s\<close>, between \<open>xs\<close> and \<open>ys\<close>, was replaced.\<close>

definition carried_out ::
  "fpga_env \<Rightarrow> fndecl \<Rightarrow> int \<Rightarrow> int \<Rightarrow> int \<Rightarrow> call_expr \<Rightarrow> stmt \<Rightarrow> fpga_state \<Rightarrow> stmt list \<Rightarrow> stmt list \<Rightarrow> stmt list \<Rightarrow> fpga_state \<Rightarrow> bool"
where
  "carried_out env decl i sin sout call s st xs ys out st' \<longleftrightarrow>
    (\<exists>new. let r = result_variable call (tmp_var_id_num st)
    in out = xs @ new @ assigned s r @ ys
      \<and> filter talks new = protocol decl i sin sout r (args call)
      \<and> (\<not> fpgastat env \<and> \<not> fpga_call_generate_set env \<longrightarrow> new = protocol decl i sin sout r (args call))
      \<and> trx_bytes st' = trx_bytes st + sum_list (map (counted IO_PROLOGUE) (args call))
          + sum_list (map (counted IO_EPILOGUE) (args call))
      \<and> fpga_id_dummy st' = -1)"

lemma mapped_call_is:
  assumes db: "fst (hxml_db st)" "hxml_get_functional_component_type (snd (hxml_db st)) i = Inr FPGA"
      "hxml_get_start_input_xr (snd (hxml_db st)) i = Inr sin" "hxml_get_start_output_xr (snd (hxml_db st)) i = Inr sout"
    and call: "get_call_expr_in s = Some call" "callee call = Some decl" "decl_name decl \<noteq> ''__builtin_molen_dummy''"
      "attribute_id decl = Some j" "i = (if fpga_id_dummy st = -1 then j else fpga_id_dummy st)" "i \<noteq> -1"
    and run: "replace_call_tree_tsi env (xs, s # ys) st = Inr (z, st')"
  shows "carried_out env decl i sin sout call s st xs ys (cursor_list z) st'"
proof -
  from replace_call_mapped [OF call] run obtain st1 where
    m: "replace_mapped env (xs, s # ys) s call decl i
      (Var_arg integer_type_node (''__fpga_return_int.'' @ digits 10 (tmp_var_id_num st)))
      (Var_arg float_type_node (''__fpga_return_float.'' @ digits 10 (tmp_var_id_num st + 1))) st1 = Inr (z, st')"
    and st1: "hxml_db st1 = hxml_db st" "trx_bytes st1 = trx_bytes st" "fpga_id_dummy st1 = -1" by metis
  from replace_mapped_list [OF m call(1)] db st1 obtain new r st2 where
    l: "cursor_list z = xs @ new @ assigned s r @ ys" "same st1 st2" "trx_bytes st2 = trx_bytes st1"
    and seq: "call_sequence env s call decl i
      (Var_arg integer_type_node (''__fpga_return_int.'' @ digits 10 (tmp_var_id_num st)))
      (Var_arg float_type_node (''__fpga_return_float.'' @ digits 10 (tmp_var_id_num st + 1))) st2 = Inr (new, r, st')"
    by auto
  have s2: "hxml_get_start_input_xr (snd (hxml_db st2)) i = Inr sin" "hxml_get_start_output_xr (snd (hxml_db st2)) i = Inr sout"
    using l(2) st1(1) db by (simp_all add: same_def)
  from call_sequence_is [OF seq s2] have q: "filter talks new = protocol decl i sin sout r (args call)"
    "\<not> fpgastat env \<and> \<not> fpga_call_generate_set env \<longrightarrow> new = protocol decl i sin sout r (args call)"
    "r = result_variable call (tmp_var_id_num st)"
    "trx_bytes st' = trx_bytes st + sum_list (map (counted IO_PROLOGUE) (args call)) + sum_list (map (counted IO_EPILOGUE) (args call))"
    using l(3) st1(2) by (simp_all add: result_variable_def)
  moreover have "fpga_id_dummy st' = -1"
    using call_sequence_same [OF seq] l(2) st1(3) by (simp add: same_def)
  ultimately show ?thesis using l(1) unfolding carried_out_def by (auto simp: Let_def)
qed

section \<open>From the pragma to the accelerator\<close>

text \<open>C19. A well-formed \<open>#pragma map call_hw\<close> without arguments in front of the declaration of a function, with the
  number of an implementation on an FPGA, is spent by the declaration and becomes its attribute \<open>call_hw\<close>; and that
  attribute, also one with arguments, decides what each call of a function becomes for which the pass ends without an
  error: one transfer for every argument, in order, into consecutive exchange registers from the implementation's first,
  by value or, for addresses and pointers, with address, length and whether the function may change it; the start and
  the wait; a transfer back of just the objects the function may change; and the transfer of the result into a
  variable of the pass, of type \<open>float\<close> for a call of a real type and \<open>int\<close> for every other, which is then assigned.
  Without statistics and without loading symbols nothing else is inserted, and the count of bytes grows by four times the
  lengths, on the way in and again on the way out.\<close>

theorem pragma_drives_accelerator:
  assumes "in_hwi i" "plain_name c" "fits 256 (dec i @ comma_list [c])"
    and "call_hw_tree hst = None" "d_code decl = FUNCTION_DECL" "1 \<le> optimize"
    and "lookup_attribute ''call_hw'' attrs = Some []" "length (d_name decl) < 400" "dspconf \<noteq> Some []"
    and "i \<noteq> -1" "fst (hxml_db st)" "fpga_id_dummy st = -1"
    and "hxml_get_functional_component_type (snd (hxml_db st)) i = Inr FPGA"
    and "hxml_get_start_input_xr (snd (hxml_db st)) i = Inr sin" "hxml_get_start_output_xr (snd (hxml_db st)) i = Inr sout"
  shows "(\<exists>hst1 hst2 decl' attrs' dspconf'.
      microblaze_pragma_call_hw overlap (call_hw_tokens c i []) hst = Some ([], hst1)
      \<and> microblaze_insert_attributes optimize hst1 decl attrs dspconf = Some ([], hst2, decl', attrs', dspconf')
      \<and> (\<forall>d a f. microblaze_insert_attributes optimize hst2 d a f = Some ([], hst2, d, a, f))
      \<and> lookup_attribute ''call_hw'' attrs' = Some [(''call_hw'', dec i @ comma_list [c])])
    \<and> (\<forall>f attrs' as types s call xs ys z st'.
        lookup_attribute ''call_hw'' attrs' = Some [(''call_hw'', dec i @ comma_list (c # as))] \<longrightarrow>
        (\<forall>a\<in>set as. plain_name a) \<longrightarrow> fits 256 (dec i @ comma_list (c # as)) \<longrightarrow> f \<noteq> ''__builtin_molen_dummy'' \<longrightarrow>
        get_call_expr_in s = Some call \<longrightarrow> callee call = Some (Function f attrs' types) \<longrightarrow>
        replace_call_tree_tsi env (xs, s # ys) st = Inr (z, st') \<longrightarrow>
        carried_out env (Function f attrs' types) i sin sout call s st xs ys (cursor_list z) st')"
proof (intro conjI allI impI)
  show "\<exists>hst1 hst2 decl' attrs' dspconf'.
      microblaze_pragma_call_hw overlap (call_hw_tokens c i []) hst = Some ([], hst1)
      \<and> microblaze_insert_attributes optimize hst1 decl attrs dspconf = Some ([], hst2, decl', attrs', dspconf')
      \<and> (\<forall>d a f. microblaze_insert_attributes optimize hst2 d a f = Some ([], hst2, d, a, f))
      \<and> lookup_attribute ''call_hw'' attrs' = Some [(''call_hw'', dec i @ comma_list [c])]"
    using pragma_reaches_call [OF assms(3-9)] by blast
  fix f attrs' as types s call xs ys z st'
  assume w: "lookup_attribute ''call_hw'' attrs' = Some [(''call_hw'', dec i @ comma_list (c # as))]"
    and as: "\<forall>a\<in>set as. plain_name a" "fits 256 (dec i @ comma_list (c # as))" "f \<noteq> ''__builtin_molen_dummy''"
    and call: "get_call_expr_in s = Some call" "callee call = Some (Function f attrs' types)"
      "replace_call_tree_tsi env (xs, s # ys) st = Inr (z, st')"
  have j: "attribute_id (Function f attrs' types) = Some i"
    by (rule attribute_id_named [OF assms(1,2) as(1,2) w])
  have nd: "decl_name (Function f attrs' types) \<noteq> ''__builtin_molen_dummy''"
    using as(3) by (simp add: decl_name_def)
  have i: "i = (if fpga_id_dummy st = -1 then i else fpga_id_dummy st)" using assms(12) by simp
  from mapped_call_is [OF assms(11,13-15) call(1,2) nd j i assms(10) call(3)]
  show "carried_out env (Function f attrs' types) i sin sout call s st xs ys (cursor_list z) st'" .
qed

text \<open>\<open>y = fir(7)\<close>, after a pragma for the implementation 1.\<close>

lemma fir_run:
  "\<exists>z st'. replace_call_tree_tsi demo_env ([], [Modify_stmt ''y'' (Call_rhs demo_call) (None, 0)]) demo_state = Inr (z, st')
    \<and> cursor_list z =
      [build_call_expr FPGA_MOVET [Int_arg 1, Int_arg 4, Int_arg 7], build_call_expr FPGA_EXECUTE [Int_arg 1],
       build_call_expr FPGA_BREAK [Int_arg 1],
       build_call_expr FPGA_MOVEF [Int_arg 1, Int_arg 9,
         build_fold_addr_expr (Var_arg integer_type_node ''__fpga_return_int.0'')],
       Modify_stmt ''y'' (Value_rhs (Var_arg integer_type_node ''__fpga_return_int.0'')) (None, 0)]"
proof -
  note call = replace_call_tree_tsi_def create_tmp_var_def demo_digits demo_attributes decl_name_def decl_attributes_def
    is_call_stmt_def cursor_start_def
  have st: "hxml_db demo_state = (True, demo_db)" "fpga_id_dummy demo_state = -1" "tmp_var_id_num demo_state = 0" "trx_bytes demo_state = 0"
    by (simp_all add: demo_state_def fpga_init_def)
  show ?thesis
    by (simp add: demo_call_def call st demo_env_def
        replace_mapped_def read_configuration_def hxml_read_xml_def demo_queries call_sequence_def expand_parameters_def
        expand_parameter_def expand_other_def exchange_def with_state_def return_variable_def stats_bytes_def
        demo_types cursor_link_before_def Let_def)
qed

lemma pragma_drives_accelerator_witness:
  "(\<exists>hst1 hst2 decl' dspconf'.
    microblaze_pragma_call_hw (\<lambda>s n. []) (call_hw_tokens ''VIRTEX4'' 1 [])
      \<lparr>call_hw_tree = None, call_hw_comp = None, comp_name = [], comp_id = 0\<rparr> = Some ([], hst1)
    \<and> microblaze_insert_attributes 3 hst1
      \<lparr>d_code = FUNCTION_DECL, d_name = ''fir'', d_type = OTHER_TYPE, DECL_EXTERNAL = False, TREE_PUBLIC = True\<rparr> [] None
      = Some ([], hst2, decl'))
    \<and> (\<exists>z st'. replace_call_tree_tsi demo_env ([], [Modify_stmt ''y'' (Call_rhs demo_call) (None, 0)]) demo_state
          = Inr (z, st')
        \<and> cursor_list z =
          [build_call_expr FPGA_MOVET [Int_arg 1, Int_arg 4, Int_arg 7], build_call_expr FPGA_EXECUTE [Int_arg 1],
           build_call_expr FPGA_BREAK [Int_arg 1],
           build_call_expr FPGA_MOVEF [Int_arg 1, Int_arg 9,
             build_fold_addr_expr (Var_arg integer_type_node ''__fpga_return_int.0'')],
           Modify_stmt ''y'' (Value_rhs (Var_arg integer_type_node ''__fpga_return_int.0'')) (None, 0)]
        \<and> trx_bytes st' = 4)"
proof -
  let ?hst = "\<lparr>call_hw_tree = None, call_hw_comp = None, comp_name = [], comp_id = 0\<rparr>"
  let ?decl = "\<lparr>d_code = FUNCTION_DECL, d_name = ''fir'', d_type = OTHER_TYPE, DECL_EXTERNAL = False, TREE_PUBLIC = True\<rparr>"
  let ?s = "Modify_stmt ''y'' (Call_rhs demo_call) (None, 0)" and ?f = "Function ''fir'' [(''call_hw'', ''1,VIRTEX4'')] [integer_type_node]"
  have t: "dec 1 @ comma_list [''VIRTEX4''] = ''1,VIRTEX4''"
    by (simp add: comma_list_def dec_def digits.simps [of 10 "Suc 0"])
  have f: "fits 256 (dec 1 @ comma_list [''VIRTEX4''])" unfolding t by (simp add: fits_def)
  have n: "in_hwi 1" "plain_name ''VIRTEX4''" by (simp_all add: plain_name_def in_hwi_def)
  have h: "call_hw_tree ?hst = None" "d_code ?decl = FUNCTION_DECL" "1 \<le> (3::int)" "lookup_attribute ''call_hw'' [] = Some ([] :: string attribute list)"
    "length (d_name ?decl) < 400" "None \<noteq> Some ([] :: string)" "(1::int) \<noteq> -1"
    by simp_all
  have st: "fst (hxml_db demo_state)" "fpga_id_dummy demo_state = -1"
    "hxml_get_functional_component_type (snd (hxml_db demo_state)) 1 = Inr FPGA"
    "hxml_get_start_input_xr (snd (hxml_db demo_state)) 1 = Inr 4" "hxml_get_start_output_xr (snd (hxml_db demo_state)) 1 = Inr 9"
    by (simp_all add: demo_state_def fpga_init_def demo_queries)
  have t0: "tmp_var_id_num demo_state = 0" "trx_bytes demo_state = 0" by (simp_all add: demo_state_def fpga_init_def)
  note pd = pragma_drives_accelerator [where overlap = "\<lambda>s n. []" and env = demo_env, OF n f h st]
  from fir_run obtain z st' where z: "replace_call_tree_tsi demo_env ([], [?s]) demo_state = Inr (z, st')" by blast
  have l: "lookup_attribute ''call_hw'' [(''call_hw'', ''1,VIRTEX4'')] = Some [(''call_hw'', dec 1 @ comma_list (''VIRTEX4'' # []))]"
    unfolding t by simp
  have c: "get_call_expr_in ?s = Some demo_call" "callee demo_call = Some ?f" by (simp_all add: demo_call_def)
  have "carried_out demo_env ?f 1 4 9 demo_call ?s demo_state [] [] (cursor_list z) st'"
    by (rule conjunct2 [OF pd, rule_format, OF l _ f _ c z]) simp_all
  then have "cursor_list z =
          [build_call_expr FPGA_MOVET [Int_arg 1, Int_arg 4, Int_arg 7], build_call_expr FPGA_EXECUTE [Int_arg 1],
           build_call_expr FPGA_BREAK [Int_arg 1],
           build_call_expr FPGA_MOVEF [Int_arg 1, Int_arg 9,
             build_fold_addr_expr (Var_arg integer_type_node ''__fpga_return_int.0'')],
           Modify_stmt ''y'' (Value_rhs (Var_arg integer_type_node ''__fpga_return_int.0'')) (None, 0)]"
    "trx_bytes st' = 4"
    by (auto simp: carried_out_def result_variable_def t0 demo_digits demo_call_def demo_types demo_env_def assigned_def
        protocol_def sent_def returned_def by_address_def counted_def Let_def)
  with pd z show ?thesis by blast
qed

section \<open>A pragma in front of a call\<close>

text \<open>The call that the parser puts in front of the statement, with the string of the attribute.\<close>

definition dummy_call :: "string \<Rightarrow> string option \<times> int \<Rightarrow> stmt" where
  "dummy_call s loc =
    Call_stmt \<lparr>callee = Some (Builtin MOLEN_DUMMY), args = [String_arg s], call_type = void_type_node, location = loc\<rparr>"

lemma dummy_step:
  assumes "in_hwi i" "plain_name c" "\<forall>a\<in>set as. plain_name a" "fits 256 (dec i @ comma_list (c # as))"
    and "fst (hxml_db st)" "hxml_get_functional_component_type (snd (hxml_db st)) i = Inr FPGA"
  shows "replace_call_tree_tsi env (xs, dummy_call (dec i @ comma_list (c # as)) loc # ys) st =
    (case cursor_prev (xs, ys) of
       None \<Rightarrow> Inl Fpga_fault
     | Some z \<Rightarrow>
         if fpga_id_dummy st \<noteq> -1 then Inl Two_dummies
         else Inr (z, st\<lparr>tmp_var_id_num := tmp_var_id_num st + 2, fpga_id_dummy := i\<rparr>))"
proof -
  let ?st = "st\<lparr>tmp_var_id_num := tmp_var_id_num st + 2\<rparr>"
  have id: "call_hw_id (dec i @ comma_list (c # as)) k = Some i" for k
    using get_params_list [OF assms(1-4)] sint_of_hwi [OF assms(1)] by (simp add: call_hw_id_def)
  have read: "read_configuration env ?st = Inr ?st" using assms(5) by (intro read_configuration_again) simp
  have at: "attribute_id (Builtin b) = Some (-1)" for b by (simp add: attribute_id_def decl_attributes_def)
  have name: "decl_name (Builtin MOLEN_DUMMY) = ''__builtin_molen_dummy''" by (simp add: decl_name_def builtin_name_def)
  have step: "replace_call_tree_tsi env (xs, dummy_call (dec i @ comma_list (c # as)) loc # ys) st =
      molen_dummy env \<lparr>callee = Some (Builtin MOLEN_DUMMY), args = [String_arg (dec i @ comma_list (c # as))],
        call_type = void_type_node, location = loc\<rparr> (-1) (xs, dummy_call (dec i @ comma_list (c # as)) loc # ys) ?st"
    by (simp add: replace_call_tree_tsi_def create_tmp_var_def dummy_call_def at name)
  show ?thesis
    unfolding step by (simp add: molen_dummy_def id read [simplified] assms(6) split: option.split)
qed

text \<open>C24. A pragma in front of a statement of a function becomes a dummy call. In the middle of a list the walk
  removes it and the next call of a function of the program is carried out by the implementation with its number,
  whatever that function's own attribute says. But as the first statement of a list it ends the walk over the list: the
  statements behind it are left as they are, their mapped calls included, and the number stays pending for some call
  elsewhere. As the last statement it makes the walk read through \<open>NULL\<close>; and a second one while the first is pending is fatal.\<close>

theorem dummy_drives_next_call:
  assumes "in_hwi i" "i \<noteq> -1" "plain_name c" "\<forall>a\<in>set as. plain_name a" "fits 256 (dec i @ comma_list (c # as))"
    and "fst (hxml_db st)" "hxml_get_functional_component_type (snd (hxml_db st)) i = Inr FPGA"
    and "hxml_get_start_input_xr (snd (hxml_db st)) i = Inr sin" "hxml_get_start_output_xr (snd (hxml_db st)) i = Inr sout"
    and d: "d = dummy_call (dec i @ comma_list (c # as)) loc"
    and st1: "st1 = st\<lparr>tmp_var_id_num := tmp_var_id_num st + 2, fpga_id_dummy := i\<rparr>"
  shows "(fpga_id_dummy st = -1 \<longrightarrow> xs \<noteq> [] \<longrightarrow> ys \<noteq> [] \<longrightarrow> replace_list env (xs, d # ys) st = replace_list env (xs, ys) st1)
    \<and> (\<forall>s call decl j z st'. get_call_expr_in s = Some call \<longrightarrow> callee call = Some decl \<longrightarrow>
          decl_name decl \<noteq> ''__builtin_molen_dummy'' \<longrightarrow> attribute_id decl = Some j \<longrightarrow>
          replace_call_tree_tsi env (xs, s # ys) st1 = Inr (z, st') \<longrightarrow>
          carried_out env decl i sin sout call s st1 xs ys (cursor_list z) st')
    \<and> (fpga_id_dummy st = -1 \<longrightarrow> ys \<noteq> [] \<longrightarrow> replace_list env ([], d # ys) st = Inr (ys, st1))
    \<and> replace_list env (xs, [d]) st = Inl Fpga_fault
    \<and> (fpga_id_dummy st \<noteq> -1 \<longrightarrow> ys \<noteq> [] \<longrightarrow> replace_list env (xs, d # ys) st = Inl Two_dummies)"
proof -
  have call: "is_call_stmt d" by (simp add: d dummy_call_def is_call_stmt_def)
  note step = dummy_step [OF assms(1,3-7), of env _ loc, folded d]
  have r: "replace_list env (us, d # vs) st =
      (if vs = [] then Inl Fpga_fault else if fpga_id_dummy st \<noteq> -1 then Inl Two_dummies
       else if us = [] then Inr (vs, st1) else replace_list env (us, vs) st1)" for us vs
    using call by (cases vs) (simp_all add: step st1)
  have db: "fst (hxml_db st1)" "hxml_get_functional_component_type (snd (hxml_db st1)) i = Inr FPGA"
    "hxml_get_start_input_xr (snd (hxml_db st1)) i = Inr sin" "hxml_get_start_output_xr (snd (hxml_db st1)) i = Inr sout"
    using assms(6-9) by (simp_all add: st1)
  have next_call: "carried_out env decl i sin sout call s st1 xs ys (cursor_list z) st'"
    if c: "get_call_expr_in s = Some call" "callee call = Some decl" "decl_name decl \<noteq> ''__builtin_molen_dummy''"
      "attribute_id decl = Some j" and run: "replace_call_tree_tsi env (xs, s # ys) st1 = Inr (z, st')"
    for s call decl j z st'
    using assms(2) by (intro mapped_call_is [OF db c _ assms(2) run]) (simp add: st1)
  show ?thesis using r [of xs ys] r [of "[]" ys] r [of xs "[]"] next_call by auto
qed

lemma dummy_drives_next_call_witness:
  "replace_list demo_env ([], [dummy_call ''1,VIRTEX4'' (None, 0), Call_stmt demo_call]) demo_state
      = Inr ([Call_stmt demo_call], demo_state\<lparr>tmp_var_id_num := 2, fpga_id_dummy := 1\<rparr>)
    \<and> replace_list demo_env ([Call_stmt demo_other], [dummy_call ''1,VIRTEX4'' (None, 0)]) demo_state = Inl Fpga_fault"
proof -
  have s: "dec 1 @ comma_list (''VIRTEX4'' # []) = ''1,VIRTEX4''"
    by (simp add: comma_list_def dec_def digits.simps [of 10 "Suc 0"])
  have f: "fits 256 (dec 1 @ comma_list (''VIRTEX4'' # []))" unfolding s by (simp add: fits_def)
  have n: "in_hwi 1" "(1::int) \<noteq> -1" "plain_name ''VIRTEX4''" "\<forall>a\<in>set []. plain_name a"
    by (simp_all add: plain_name_def in_hwi_def)
  have st: "fst (hxml_db demo_state)" "hxml_get_functional_component_type (snd (hxml_db demo_state)) 1 = Inr FPGA"
    "hxml_get_start_input_xr (snd (hxml_db demo_state)) 1 = Inr 4" "hxml_get_start_output_xr (snd (hxml_db demo_state)) 1 = Inr 9"
    and t: "tmp_var_id_num demo_state = 0" "fpga_id_dummy demo_state = -1"
    by (simp_all add: demo_state_def fpga_init_def demo_queries)
  note d = dummy_drives_next_call [where env = demo_env and loc = "(None, 0)", OF n f st, unfolded s, OF refl refl, unfolded t]
  from d [where xs = "[]" and ys = "[Call_stmt demo_call]"] d [where xs = "[Call_stmt demo_other]" and ys = "[]"]
  show ?thesis by simp
qed

end
