(* ===== verification/FpgaMerge.thy ===== *)
theory FpgaMerge
  imports FpgaSections FpgaProtocol "HOL-Library.Sublist" "HOL-Library.Multiset"
begin

text \<open>
  What the merging of parallel sections promises: the statements of each section stay in order, the result is
  what the sections give one after the other when they do not depend on each other, and all accelerators are
  started before the first is waited for.
\<close>

section \<open>The split of a section\<close>

definition split_point :: "stmt list \<Rightarrow> nat" where
  "split_point ss =
    (let b = find_last_break ss 0 (-1) in if 0 \<le> b \<and> b < int (length ss) then nat b else length ss)"

lemma split_section: "move_before ss 0 (find_last_break ss 0 (-1)) = (take (split_point ss) ss, drop (split_point ss) ss)"
  by (rule move_before_split) (simp add: split_point_def Let_def)

lemma split_point_break: "split_point ss < length ss \<Longrightarrow> is_break (ss ! split_point ss)"
  using find_last_break_bounds [of ss 0 "-1"] by (auto simp: split_point_def Let_def split: if_splits)

text \<open>Without labels and jumps the split is at the last wait.\<close>

lemma split_point_last:
  assumes "\<forall>s\<in>set ss. \<not> is_jump s"
  shows "\<forall>s\<in>set (drop (Suc (split_point ss)) ss). \<not> is_break s"
    "split_point ss = length ss \<longrightarrow> (\<forall>s\<in>set ss. \<not> is_break s)"
proof -
  let ?p = "\<lambda>s. \<not> is_break s"
  let ?d = "dropWhile ?p (rev ss)" let ?t = "takeWhile ?p (rev ss)"
  have ss: "ss = rev ?d @ rev ?t" by (metis rev_append rev_rev_ident takeWhile_dropWhile_id)
  have len: "length ss = length ?d + length ?t" by (metis length_append length_rev ss)
  have t: "\<forall>s\<in>set ?t. ?p s" by (auto dest: set_takeWhileD)
  have d: "?d \<noteq> [] \<longleftrightarrow> (\<exists>s\<in>set ss. is_break s)" by (simp add: dropWhile_eq_Nil_conv)
  have f: "find_last_break ss 0 (-1) = (if ?d = [] then -1 else int (length ?d - 1))"
    using find_last_break_last [OF assms, of 0 "-1"] d by simp
  have k: "split_point ss = (if ?d = [] then length ss else length ?d - 1)"
  proof (cases "?d = []")
    case False
    then have "length ?d \<noteq> 0" by simp
    then have "int (length ?d - 1) < int (length ss)" using len by linarith
    with f False show ?thesis by (simp add: split_point_def Let_def)
  qed (simp add: split_point_def f)
  show "\<forall>s\<in>set (drop (Suc (split_point ss)) ss). \<not> is_break s"
  proof (cases "?d = []")
    case False
    then have "drop (Suc (split_point ss)) ss = rev ?t"
    proof -
      have "Suc (split_point ss) = length (rev ?d)" using k False by (cases ?d) simp_all
      then show ?thesis by (metis append_eq_conv_conj ss)
    qed
    then show ?thesis using t by simp
  qed (use d in \<open>auto simp: k\<close>)
  show "split_point ss = length ss \<longrightarrow> (\<forall>s\<in>set ss. \<not> is_break s)"
  proof (cases "?d = []")
    case False
    then have "length ?d \<noteq> 0" by simp
    then have "length ?d - 1 < length ss" using len by linarith
    with False k show ?thesis by simp
  qed (use d in simp)
qed

text \<open>Statements are not lists themselves.\<close>

definition flat :: "stmt list \<Rightarrow> bool" where
  "flat ss \<longleftrightarrow> (\<forall>s\<in>set ss. linked s = [s])"

lemma flat_linked: "flat ss \<Longrightarrow> concat (map linked ss) = ss"
  by (induction ss) (simp_all add: flat_def)

definition firsts :: "stmt list list \<Rightarrow> stmt list" where
  "firsts sections = concat (map (\<lambda>ss. take (split_point ss) ss) sections)"

definition lasts :: "stmt list list \<Rightarrow> stmt list" where
  "lasts sections = concat (map (\<lambda>ss. drop (split_point ss) ss) sections)"

lemma flat_parts:
  assumes "\<forall>ss\<in>set sections. flat ss"
  shows "flat (firsts sections)" "flat (lasts sections)"
  using assms by (auto simp: flat_def firsts_def lasts_def dest: in_set_takeD in_set_dropD)

lemma merge_sections_parts:
  assumes "\<forall>ss\<in>set sections. flat ss"
  shows "merge_sections sections = firsts sections @ lasts sections"
proof -
  let ?parts = "map (\<lambda>ss. (take (split_point ss) ss, drop (split_point ss) ss)) sections"
  have "concat (map fst ?parts) = firsts sections" "concat (map snd ?parts) = lasts sections"
    by (simp_all add: firsts_def lasts_def comp_def)
  then show ?thesis
    using flat_parts [OF assms] by (simp add: merge_sections_def split_section Let_def flat_linked)
qed

text \<open>A label or jump in front of the last wait does not stop the split: only those behind it do.\<close>

lemma jump_before_wait:
  assumes "is_break w" "\<not> is_jump w"
  shows "split_point (as @ [w]) = length as"
proof -
  have "find_last_break (as @ [w]) k b = int (k + length as)" for k b
    using assms by (induction as arbitrary: k b) (simp_all add: Let_def)
  then show ?thesis by (simp add: split_point_def Let_def)
qed

section \<open>Independent sections\<close>

text \<open>Two statements that may be exchanged.\<close>

definition commute :: "(stmt \<Rightarrow> 's \<Rightarrow> 's) \<Rightarrow> stmt \<Rightarrow> stmt \<Rightarrow> bool" where
  "commute exec s t \<longleftrightarrow> (\<forall>x. exec s (exec t x) = exec t (exec s x))"

lemma fold_commute_one:
  assumes "\<forall>t\<in>set ts. commute exec s t"
  shows "fold exec ts (exec s x) = exec s (fold exec ts x)"
  using assms
proof (induction ts arbitrary: x)
  case (Cons t ts)
  have "exec t (exec s x) = exec s (exec t x)" using Cons.prems by (simp add: commute_def)
  with Cons show ?case by simp
qed simp

lemma fold_commute:
  assumes "\<forall>s\<in>set ss. \<forall>t\<in>set ts. commute exec s t"
  shows "fold exec ts (fold exec ss x) = fold exec ss (fold exec ts x)"
  using assms by (induction ss arbitrary: x) (simp_all add: fold_commute_one)

lemma set_parts: "set (firsts sections) \<subseteq> (\<Union>ss\<in>set sections. set ss)" "set (lasts sections) \<subseteq> (\<Union>ss\<in>set sections. set ss)"
  by (auto simp: firsts_def lasts_def dest: in_set_takeD in_set_dropD)

lemma fold_parts:
  assumes "sorted_wrt (\<lambda>ss ts. \<forall>s\<in>set ss. \<forall>t\<in>set ts. commute exec s t) sections"
  shows "fold exec (firsts sections @ lasts sections) x = fold exec (concat sections) x"
  using assms
proof (induction sections arbitrary: x)
  case (Cons ss sections)
  let ?a = "take (split_point ss) ss" let ?b = "drop (split_point ss) ss"
  have c: "\<forall>s\<in>set ?b. \<forall>t\<in>set (firsts sections). commute exec s t"
  proof (intro ballI)
    fix s t assume s: "s \<in> set ?b" "t \<in> set (firsts sections)"
    then obtain ts where "ts \<in> set sections" "t \<in> set ts" using set_parts(1) by fastforce
    with Cons.prems in_set_dropD [OF s(1)] show "commute exec s t" by simp
  qed
  have "fold exec (firsts (ss # sections) @ lasts (ss # sections)) x
      = fold exec (lasts sections) (fold exec ?b (fold exec (firsts sections) (fold exec ?a x)))"
    by (simp add: firsts_def lasts_def)
  also have "\<dots> = fold exec (firsts sections @ lasts sections) (fold exec ?b (fold exec ?a x))"
    using fold_commute [OF c] by simp
  also have "\<dots> = fold exec (concat sections) (fold exec (?a @ ?b) x)"
    using Cons unfolding fold_append comp_apply by simp
  finally show ?case by simp
qed (simp add: firsts_def lasts_def)

section \<open>Starting together\<close>

definition is_execute :: "stmt \<Rightarrow> bool" where
  "is_execute s \<longleftrightarrow>
    (case get_call_expr_in s of
       None \<Rightarrow> False
     | Some call \<Rightarrow> callee call = Some (Builtin FPGA_EXECUTE))"

text \<open>A section with at most one wait, and no start after it.\<close>

definition one_wait :: "stmt list \<Rightarrow> bool" where
  "one_wait ss \<longleftrightarrow>
    length (filter is_break ss) \<le> 1 \<and> (\<forall>i<length ss. \<forall>j<length ss. is_break (ss ! i) \<longrightarrow> is_execute (ss ! j) \<longrightarrow> j < i)"

lemma one_wait_first:
  assumes "\<forall>s\<in>set ss. \<not> is_jump s" "one_wait ss"
  shows "\<forall>s\<in>set (take (split_point ss) ss). \<not> is_break s"
proof (cases "split_point ss < length ss")
  case True
  let ?k = "split_point ss"
  have "filter is_break ss = filter is_break (take ?k ss) @ filter is_break (drop ?k ss)"
    by (metis append_take_drop_id filter_append)
  moreover have "drop ?k ss = ss ! ?k # drop (Suc ?k) ss" using True by (rule Cons_nth_drop_Suc [symmetric])
  ultimately have "length (filter is_break (take ?k ss)) = 0"
    using assms(2) split_point_break [OF True] by (simp add: one_wait_def)
  then show ?thesis by (simp add: filter_empty_conv)
next
  case False
  moreover have "split_point ss \<le> length ss" by (auto simp: split_point_def Let_def)
  ultimately have "split_point ss = length ss" by simp
  with split_point_last(2) [OF assms(1)] show ?thesis by simp
qed

lemma one_wait_last:
  assumes "one_wait ss"
  shows "\<forall>s\<in>set (drop (split_point ss) ss). \<not> is_execute s"
proof
  fix s assume "s \<in> set (drop (split_point ss) ss)"
  then obtain j where j: "split_point ss + j < length ss" "s = ss ! (split_point ss + j)"
    by (auto simp: in_set_conv_nth less_diff_conv add.commute)
  then have "is_break (ss ! split_point ss)" "split_point ss < length ss" using split_point_break [of ss] by simp_all
  with j assms have "is_execute (ss ! (split_point ss + j)) \<longrightarrow> split_point ss + j < split_point ss"
    unfolding one_wait_def by blast
  with j(2) show "\<not> is_execute s" by simp
qed

lemma subseq_parts:
  assumes "ss \<in> set sections"
  shows "subseq ss (firsts sections @ lasts sections)"
proof -
  from assms obtain as bs where s: "sections = as @ ss # bs" by (blast dest: split_list)
  have "subseq (take (split_point ss) ss) (firsts sections)" "subseq (drop (split_point ss) ss) (lasts sections)"
    by (auto simp: s firsts_def lasts_def intro: list_emb_append2 list_emb_prefix)
  then have "subseq (take (split_point ss) ss @ drop (split_point ss) ss) (firsts sections @ lasts sections)"
    by (rule list_emb_append_mono)
  then show ?thesis by simp
qed

lemma mset_parts: "mset (firsts sections @ lasts sections) = mset (concat sections)"
proof (induction sections)
  case (Cons ss sections)
  have "mset ss = mset (take (split_point ss) ss) + mset (drop (split_point ss) ss)"
    by (metis append_take_drop_id mset_append)
  with Cons show ?case by (simp add: firsts_def lasts_def)
qed (simp add: firsts_def lasts_def)

section \<open>The pass\<close>

text \<open>Statements the pass leaves alone.\<close>

definition straight :: "stmt \<Rightarrow> bool" where
  "straight s \<longleftrightarrow>
    (case s of
       Stmt_list ss \<Rightarrow> False | Omp_sections b \<Rightarrow> False | Omp_parallel b \<Rightarrow> False | Cond_expr a b \<Rightarrow> False | _ \<Rightarrow> True)"

lemma straight_flat: "\<forall>s\<in>set ss. straight s \<Longrightarrow> flat ss"
  by (auto simp: flat_def linked_def straight_def split: stmt.splits)

lemma sections_opt_straight: "\<forall>s\<in>set ss. straight s \<Longrightarrow> sections_opt_list xs (ss @ ys) = sections_opt_list (xs @ ss) ys"
proof (induction ss arbitrary: xs)
  case (Cons s ss)
  then have "sections_opt_list xs ((s # ss) @ ys) = sections_opt_list (xs @ [s]) (ss @ ys)"
    by (auto simp: straight_def split: stmt.splits)
  with Cons show ?case by simp
qed simp

lemma sections_opt_straight_all: "\<forall>s\<in>set ss. straight s \<Longrightarrow> sections_opt_list xs ss = Some (xs @ ss)"
  using sections_opt_straight [of ss xs "[]"] by simp

definition sections_of :: "stmt list list \<Rightarrow> stmt" where
  "sections_of sections = Omp_sections (Stmt_list (map (\<lambda>ss. Omp_section (Stmt_list ss)) sections))"

lemma sections_opt_body_of:
  assumes "\<forall>ss\<in>set sections. \<forall>s\<in>set ss. straight s"
  shows "sections_opt_body (Stmt_list (map (\<lambda>ss. Omp_section (Stmt_list ss)) sections)) = Some (merge_sections sections)"
proof -
  have "sections_opt_each (map (\<lambda>ss. Omp_section (Stmt_list ss)) sections) = Some (map (\<lambda>ss. Omp_section (Stmt_list ss)) sections)"
    using assms by (induction sections) (simp_all add: sections_opt_straight_all)
  moreover have "section_lists (map (\<lambda>ss. Omp_section (Stmt_list ss)) sections) = Some sections"
    by (induction sections) simp_all
  ultimately show ?thesis by simp
qed

text \<open>What a mapped call becomes has one wait, and its start before it.\<close>

lemma execute_break_exclusive: "is_break s \<Longrightarrow> \<not> is_execute s"
  by (auto simp: is_break_def is_execute_def split: option.splits)

lemma one_wait_intro:
  assumes "\<forall>s\<in>set as. \<not> is_break s" "\<forall>s\<in>set bs. \<not> is_break s \<and> \<not> is_execute s" "is_break w"
  shows "one_wait (as @ w # bs)"
proof -
  have "filter is_break as = []" "filter is_break bs = []" using assms(1,2) by (simp_all add: filter_empty_conv)
  moreover have "j < i" if ij: "i < length (as @ w # bs)" "j < length (as @ w # bs)" "is_break ((as @ w # bs) ! i)"
    "is_execute ((as @ w # bs) ! j)" for i j
  proof -
    have "\<not> i < length as" using ij(3) assms(1) by (auto simp: nth_append)
    moreover have "\<not> length as \<le> j"
    proof
      assume "length as \<le> j"
      then have "(as @ w # bs) ! j = w \<or> (as @ w # bs) ! j \<in> set bs"
        using ij(2) by (cases "j - length as") (auto simp: nth_append)
      with ij(4) assms(2,3) execute_break_exclusive show False by metis
    qed
    ultimately show ?thesis by simp
  qed
  ultimately show ?thesis by (auto simp: one_wait_def)
qed

lemma build_break [simp]:
  "is_break (build_call_expr b as) \<longleftrightarrow> b = FPGA_BREAK" "is_execute (build_call_expr b as) \<longleftrightarrow> b = FPGA_EXECUTE"
  by (simp_all add: is_break_def is_execute_def build_call_expr_def)

lemma protocol_one_wait:
  assumes "\<forall>s\<in>set (before @ after). \<not> is_break s \<and> \<not> is_execute s"
  shows "one_wait (before @ protocol decl i sin sout r as @ after)"
proof -
  have sent: "\<forall>s\<in>set (numbered (sent decl i sin) k as). \<not> is_break s" for k
    by (induction as arbitrary: k) (simp_all add: sent_def)
  have outs: "\<forall>s\<in>set (concat (numbered (returned decl i sin) k as)). \<not> is_break s \<and> \<not> is_execute s" for k
    by (induction as arbitrary: k) (auto simp: returned_def)
  have "one_wait ((before @ numbered (sent decl i sin) 0 as @ [build_call_expr FPGA_EXECUTE [Int_arg i]])
      @ build_call_expr FPGA_BREAK [Int_arg i] # concat (numbered (returned decl i sin) 0 as)
        @ [build_call_expr FPGA_MOVEF [Int_arg i, Int_arg sout, build_fold_addr_expr r]] @ after)"
    using assms sent [of 0] outs [of 0]
    by (intro one_wait_intro) auto
  then show ?thesis by (simp add: protocol_def)
qed

text \<open>C23. A parallel region with sections of plain statements, each with at most one wait for an accelerator and no
  start after it, becomes one list in the place of the region. All accelerators are started in its first part and waited for in its
  second; it has just the statements of the sections, those of each section in their order; and it does
  what the sections do one after the other, whenever statements of different sections can be exchanged.\<close>

theorem sections_start_together:
  assumes "\<forall>ss\<in>set sections. (\<forall>s\<in>set ss. straight s \<and> \<not> is_jump s) \<and> one_wait ss"
    and "\<forall>s\<in>set (pre @ before @ after @ post). straight s"
  shows "\<exists>starts waits.
    do_fpga_parallel_opt_execute
      (Bind_expr (Stmt_list (pre @ [Omp_parallel (Stmt_list (before @ [sections_of sections] @ after))] @ post)))
      = Some (Bind_expr (Stmt_list (pre @ before @ starts @ waits @ after @ post)))
    \<and> (\<forall>s\<in>set starts. \<not> is_break s) \<and> (\<forall>s\<in>set waits. \<not> is_execute s)
    \<and> mset (starts @ waits) = mset (concat sections) \<and> (\<forall>ss\<in>set sections. subseq ss (starts @ waits))
    \<and> (sorted_wrt (\<lambda>ss ts. \<forall>s\<in>set ss. \<forall>t\<in>set ts. commute exec s t) sections
        \<longrightarrow> fold exec (starts @ waits) x = fold exec (concat sections) x)"
proof -
  have flat: "\<forall>ss\<in>set sections. flat ss" using assms(1) straight_flat by blast
  have st: "\<forall>s\<in>set (before @ firsts sections @ lasts sections @ after). straight s"
    using assms set_parts by fastforce
  have "sections_opt_list [] (before @ [sections_of sections] @ after) = Some (before @ firsts sections @ lasts sections @ after)"
    using assms sections_opt_body_of [of sections]
    by (simp add: sections_opt_straight sections_opt_straight_all sections_of_def merge_sections_parts [OF flat])
  then have run: "do_fpga_parallel_opt_execute
      (Bind_expr (Stmt_list (pre @ [Omp_parallel (Stmt_list (before @ [sections_of sections] @ after))] @ post)))
      = Some (Bind_expr (Stmt_list (pre @ before @ firsts sections @ lasts sections @ after @ post)))"
    using assms(2) by (simp add: do_fpga_parallel_opt_execute_def sections_opt_straight sections_opt_straight_all linked_def)
  have starts: "\<forall>s\<in>set (firsts sections). \<not> is_break s"
    using one_wait_first assms(1) unfolding firsts_def set_concat set_map by blast
  have waits: "\<forall>s\<in>set (lasts sections). \<not> is_execute s"
    using one_wait_last assms(1) unfolding lasts_def set_concat set_map by blast
  have order: "\<forall>ss\<in>set sections. subseq ss (firsts sections @ lasts sections)"
    using subseq_parts by blast
  show ?thesis
    by (rule exI [of _ "firsts sections"], rule exI [of _ "lasts sections"])
      (intro conjI run starts waits mset_parts order impI fold_parts)
qed

text \<open>Two sections with a call of the accelerator each.\<close>

definition demo_sections :: "stmt list list" where
  "demo_sections =
    map (\<lambda>i. [Other_stmt ''a''] @ protocol (Function ''fir'' [] [integer_type_node]) i 4 9 (Var_arg integer_type_node ''r'') [Int_arg i]
          @ [Other_stmt ''b'']) [1, 2]"

lemma sections_start_together_witness:
  "\<exists>starts waits.
    do_fpga_parallel_opt_execute (Bind_expr (Stmt_list [Omp_parallel (Stmt_list [sections_of demo_sections])]))
      = Some (Bind_expr (Stmt_list (starts @ waits)))
    \<and> (\<forall>s\<in>set starts. \<not> is_break s) \<and> (\<forall>s\<in>set waits. \<not> is_execute s)"
proof -
  have "\<forall>ss\<in>set demo_sections. one_wait ss"
    unfolding demo_sections_def by (auto intro!: protocol_one_wait [of "[_]", simplified] simp: is_break_def is_execute_def)
  moreover have "\<forall>ss\<in>set demo_sections. \<forall>s\<in>set ss. straight s \<and> \<not> is_jump s"
    by (auto simp: demo_sections_def protocol_def sent_def by_address_def returned_def straight_def is_jump_def build_call_expr_def)
  ultimately show ?thesis
    using sections_start_together [where sections = demo_sections and pre = "[]" and before = "[]" and after = "[]" and post = "[]"
        and exec = "\<lambda>s x. x" and x = "0::nat"]
    by (simp, blast)
qed

end
