(* ===== verification/Diopsis.thy ===== *)
theory Diopsis
  imports Trees
begin

text \<open>
  The hArtes pass for the signal processor, \<open>gcc/diopsis.c\<close>, first part: the state of the pass and the transfer of
  the arguments of a remote call, \<open>expand_parameters\<close> and \<open>insert_diopsis_api\<close>. A call of \<open>exit\<close> is \<open>Inl\<close>;
  \<open>Dsp_fault\<close> stands for a read through \<open>NULL\<close>, a failing assertion, a tree field that is read although the
  tree has none, a shift by the width of an \<open>int\<close> or more and a write behind an array. Messages for debugging and the
  places in messages are left out.
\<close>

section \<open>Settings and state\<close>

text \<open>\<open>stale_attr\<close> tells whether \<open>attr\<close>, which is tested although it was not set when a pragma stands in front of the
  call, happens to hold \<open>NULL\<close>; \<open>stale_compname\<close> is what \<open>compname\<close> of the walk, which is not set either when a
  pragma names no component, holds then.\<close>

record dsp_env =
  diopsis :: bool
  dspstat :: bool
  gppstat :: bool
  dspforce :: bool
  remwait :: bool
  dsp_configuration_xml :: bool
  dsp_configuration_file :: "(xml_event list \<times> bool) option"
  stale_attr :: bool
  stale_compname :: "string option"

datatype dsp_warning =
    Remote_returns_pointer string
  | Vector_pointer_argument string nat
  | Float_pointer_argument string nat
  | Other_pointer_argument string nat

text \<open>The tree an argument points to: a declaration, known by its name, or another node.\<close>

datatype tree_ref = Declaration string | Tree_node nat

record dsp_state =
  pointer_int_arg_advance :: int
  float_long_arg_advance :: int
  dsp_internal_memory_address :: int
  dsp_allocated_buffers :: "(tree_ref option \<times> int) list"
  dsp_trx_bytes :: int
  out_bytes :: int
  pointer_op :: nat
  int_pointer :: nat
  hartes_rpc_uid :: int
  dsp_tmp_var_id :: nat
  dsp_hxml_db :: "bool \<times> hxml_state"
  dsp_loader_file :: "string option"
  pragma_on_call :: bool
  pragma_on_call_magic :: "string option"
  dsp_warnings :: "dsp_warning list"

definition dsp_init :: dsp_state where
  "dsp_init =
    \<lparr>pointer_int_arg_advance = 0, float_long_arg_advance = 0, dsp_internal_memory_address = 0,
     dsp_allocated_buffers = replicate 128 (None, 0), dsp_trx_bytes = 0, out_bytes = 0, pointer_op = 0,
     int_pointer = 0, hartes_rpc_uid = 0, dsp_tmp_var_id = 0, dsp_hxml_db = (False, hxml_init),
     dsp_loader_file = None, pragma_on_call = False, pragma_on_call_magic = None, dsp_warnings = []\<rparr>"

datatype dsp_stop =
    Nowait_returns_value
  | Unsupported_remote_return_type
  | Vector_type_not_handled nat
  | Record_type_not_handled nat
  | Record_not_homogeneous nat
  | Complex_type_not_handled nat
  | Pointed_type_not_handled nat
  | Cannot_handle_arg nat
  | Array_too_big nat int
  | Integer_too_big nat int
  | Arg_type_not_handled nat
  | Dsp_hxml_stop hxml_stop
  | Dsp_fault

definition dsp_warn :: "dsp_warning \<Rightarrow> dsp_state \<Rightarrow> dsp_state" where
  "dsp_warn w st = st\<lparr>dsp_warnings := dsp_warnings st @ [w]\<rparr>"

section \<open>One transfer\<close>

datatype dsp_parm_type =
    DSP_PARM_INT | DSP_PARM_LONG | DSP_PARM_FLOAT | DSP_PARM_CFLOAT | DSP_PARM_VFLOAT | DSP_PARM_CLONG | DSP_PARM_VLONG
  | DSP_ALLOCATE_POINTER | DSP_POINTER_INT | DSP_POINTER_FLOAT | DSP_POINTER_DWORD
  | DSP_PARM_P_INT | DSP_PARM_P_LONG | DSP_PARM_P_FLOAT | DSP_PARM_P_CFLOAT | DSP_PARM_P_VFLOAT | DSP_PARM_P_CLONG
  | DSP_PARM_P_VLONG
  | DSP_INTERNAL_POINTER

definition POINTER_ALIAS :: int where "POINTER_ALIAS = 0x10000"
definition POINTER_READONLY :: int where "POINTER_READONLY = 0x20000"
definition POINTER_WRITEONLY :: int where "POINTER_WRITEONLY = 0x40000"

text \<open>The latest earlier argument with the same pointer.\<close>

fun check_pointer :: "(tree_ref option \<times> int) list \<Rightarrow> nat \<Rightarrow> tree_ref option \<Rightarrow> nat option" where
  "check_pointer buffers 0 pointer = None"
| "check_pointer buffers (Suc parm) pointer =
    (if pointer \<noteq> None \<and> fst (buffers ! parm) = pointer then Some parm else check_pointer buffers parm pointer)"

definition shares_pointer :: "dsp_parm_type \<Rightarrow> bool" where
  "shares_pointer typ \<longleftrightarrow>
    typ \<in> {DSP_POINTER_INT, DSP_POINTER_FLOAT, DSP_POINTER_DWORD, DSP_PARM_P_INT, DSP_PARM_P_LONG, DSP_PARM_P_FLOAT,
      DSP_PARM_P_CFLOAT, DSP_PARM_P_VFLOAT, DSP_PARM_P_CLONG, DSP_PARM_P_VLONG}"

definition pointer_flags :: "bool \<Rightarrow> bool \<Rightarrow> (tree_ref option \<times> int) list \<Rightarrow> nat \<Rightarrow> tree_ref option \<Rightarrow> dsp_parm_type \<Rightarrow> int" where
  "pointer_flags is_const is_wo buffers parm pointer typ =
    or (or (if is_const then POINTER_READONLY else 0) (if is_wo then POINTER_WRITEONLY else 0))
      (case (if shares_pointer typ then check_pointer buffers parm pointer else None) of
         None \<Rightarrow> 0
       | Some add \<Rightarrow> or POINTER_ALIAS (int add))"

definition set_buffer :: "nat \<Rightarrow> tree_ref option \<Rightarrow> int \<Rightarrow> dsp_state \<Rightarrow> dsp_state" where
  "set_buffer parm pointer addr st =
    st\<lparr>dsp_allocated_buffers := (dsp_allocated_buffers st)[parm := (pointer, addr)]\<rparr>"

definition allocate_buffer :: "nat \<Rightarrow> tree_ref option \<Rightarrow> int \<Rightarrow> dsp_state \<Rightarrow> dsp_state" where
  "allocate_buffer parm pointer len st =
    (let st = set_buffer parm pointer (dsp_internal_memory_address st) st
     in st\<lparr>dsp_internal_memory_address := dsp_internal_memory_address st + len\<rparr>)"

text \<open>A register for pointers and integers, and the two halves of one for floating point numbers and long integers. The
  result is the register and the state.\<close>

definition next_pointer_int :: "dsp_state \<Rightarrow> arg \<times> dsp_state" where
  "next_pointer_int st =
    (Int_arg (pointer_int_arg_advance st), st\<lparr>pointer_int_arg_advance := pointer_int_arg_advance st + 1\<rparr>)"

definition next_float_long :: "dsp_state \<Rightarrow> arg \<times> dsp_state" where
  "next_float_long st =
    (Int_arg (float_long_arg_advance st), st\<lparr>float_long_arg_advance := float_long_arg_advance st + 2\<rparr>)"

definition add_trx :: "int \<Rightarrow> dsp_state \<Rightarrow> dsp_state" where
  "add_trx n st = st\<lparr>dsp_trx_bytes := dsp_trx_bytes st + n\<rparr>"

definition add_out :: "bool \<Rightarrow> dsp_state \<Rightarrow> dsp_state" where
  "add_out is_const st = st\<lparr>out_bytes := out_bytes st + (if is_const then 0 else 4)\<rparr>"

text \<open>The cases of the switch: a value in a floating point register, a pointer that is passed as it is, and an object
  that is copied to the memory of the processor.\<close>

definition insert_value :: "builtin \<Rightarrow> int \<Rightarrow> arg \<Rightarrow> dsp_state \<Rightarrow> stmt list \<times> dsp_state" where
  "insert_value b bytes a st =
    (case next_float_long st of (reg, st) \<Rightarrow> ([build_call_expr b [reg, a]], add_trx bytes st))"

definition insert_pointer :: "builtin \<Rightarrow> int \<Rightarrow> arg \<Rightarrow> dsp_state \<Rightarrow> stmt list \<times> dsp_state" where
  "insert_pointer b flags a st =
    (case next_pointer_int st of
       (reg, st) \<Rightarrow>
         ([build_call_expr b [reg, Int_arg flags, a]], add_trx 4 (st\<lparr>pointer_op := pointer_op st + 1\<rparr>)))"

definition insert_object ::
  "builtin \<Rightarrow> bool \<Rightarrow> int \<Rightarrow> nat \<Rightarrow> tree_ref option \<Rightarrow> int \<Rightarrow> arg \<Rightarrow> dsp_state \<Rightarrow> stmt list \<times> dsp_state" where
  "insert_object b is_const flags parm pointer len a st =
    (case next_pointer_int st of
       (reg, st) \<Rightarrow>
         ([build_call_expr b [reg, Int_arg flags, a, Int_arg len]],
          allocate_buffer parm pointer len
            (add_out is_const (add_trx (4 + 4 * len) (st\<lparr>pointer_op := pointer_op st + 1\<rparr>)))))"

text \<open>The number that stands for an address in the processor's own memory.\<close>

definition magic_add :: "arg \<Rightarrow> arg" where
  "magic_add a = Rshift_arg (Bit_and_arg a 0x1ffff) 2"

text \<open>The statements that are linked before the call. With \<open>IO_EPILOGUE\<close> nothing is done for any of
  these types. The code for \<open>DSP_ALLOCATE_POINTER\<close> builds a transfer but links it only in an epilogue.\<close>

definition insert_diopsis_api ::
  "call_expr \<Rightarrow> tree_ref option \<Rightarrow> nat \<Rightarrow> dsp_parm_type \<Rightarrow> int \<Rightarrow> io_type \<Rightarrow> bool \<Rightarrow> bool \<Rightarrow> dsp_state
   \<Rightarrow> stmt list \<times> dsp_state" where
  "insert_diopsis_api call pointer parm typ len io is_const is_wo st =
    (if io = IO_EPILOGUE then ([], st)
     else
       let st = set_buffer parm pointer (-2) st;
           flags = pointer_flags is_const is_wo (dsp_allocated_buffers st) parm pointer typ;
           a = args call ! parm
       in (case typ of
             DSP_ALLOCATE_POINTER \<Rightarrow>
               (case next_pointer_int st of (reg, st) \<Rightarrow> ([], allocate_buffer parm pointer len (add_trx 4 st)))
           | DSP_INTERNAL_POINTER \<Rightarrow>
               (case next_pointer_int st of
                  (reg, st) \<Rightarrow>
                    ([build_call_expr BUILT_IN_DSP_PARM_INT [reg, magic_add a]],
                     add_trx 4 (st\<lparr>int_pointer := int_pointer st + 1\<rparr>)))
           | DSP_PARM_INT \<Rightarrow>
               (case next_pointer_int st of
                  (reg, st) \<Rightarrow>
                    ([build_call_expr BUILT_IN_DSP_PARM_INT [reg, a]],
                     add_trx 4 (st\<lparr>int_pointer := int_pointer st + 1\<rparr>)))
           | DSP_POINTER_INT \<Rightarrow> insert_pointer BUILT_IN_DSP_POINTER_INT flags a st
           | DSP_POINTER_FLOAT \<Rightarrow>
               (case insert_pointer BUILT_IN_DSP_POINTER_FLOAT flags a st of (ms, st) \<Rightarrow> (ms, add_out is_const st))
           | DSP_POINTER_DWORD \<Rightarrow>
               (case insert_pointer BUILT_IN_DSP_POINTER_DWORD flags a st of (ms, st) \<Rightarrow> (ms, add_out is_const st))
           | DSP_PARM_LONG \<Rightarrow> insert_value BUILT_IN_DSP_PARM_LONG 4 a st
           | DSP_PARM_FLOAT \<Rightarrow> insert_value BUILT_IN_DSP_PARM_FLOAT 4 a st
           | DSP_PARM_CFLOAT \<Rightarrow> insert_value BUILT_IN_DSP_PARM_CFLOAT 8 a st
           | DSP_PARM_VFLOAT \<Rightarrow> insert_value BUILT_IN_DSP_PARM_VFLOAT 8 a st
           | DSP_PARM_CLONG \<Rightarrow> insert_value BUILT_IN_DSP_PARM_CLONG 8 a st
           | DSP_PARM_VLONG \<Rightarrow> insert_value BUILT_IN_DSP_PARM_VLONG 8 a st
           | DSP_PARM_P_INT \<Rightarrow> insert_object BUILT_IN_DSP_PARM_WRITE_INT is_const flags parm pointer len a st
           | DSP_PARM_P_FLOAT \<Rightarrow> insert_object BUILT_IN_DSP_PARM_WRITE_FLOAT is_const flags parm pointer len a st
           | DSP_PARM_P_LONG \<Rightarrow> insert_object BUILT_IN_DSP_PARM_WRITE_LONG is_const flags parm pointer len a st
           | DSP_PARM_P_CFLOAT \<Rightarrow> insert_object BUILT_IN_DSP_PARM_WRITE_CFLOAT is_const flags parm pointer len a st
           | DSP_PARM_P_VFLOAT \<Rightarrow> insert_object BUILT_IN_DSP_PARM_WRITE_VFLOAT is_const flags parm pointer len a st
           | DSP_PARM_P_CLONG \<Rightarrow> insert_object BUILT_IN_DSP_PARM_WRITE_CLONG is_const flags parm pointer len a st
           | DSP_PARM_P_VLONG \<Rightarrow> insert_object BUILT_IN_DSP_PARM_WRITE_VLONG is_const flags parm pointer len a st))"

end
