(* ===== verification/DiopsisArgs.thy ===== *)
theory DiopsisArgs
  imports Diopsis
begin

text \<open>
  The hArtes pass for the signal processor, second part: how each argument of a remote call is passed,
  \<open>expand_parameters\<close> of \<open>gcc/diopsis.c\<close>.
\<close>

section \<open>What a pointer points to\<close>

definition operand_ref :: "addr_operand \<Rightarrow> tree_ref" where
  "operand_ref opnd = (if op_code opnd = Var_object then Declaration (op_name opnd) else Tree_node (op_node opnd))"

text \<open>The object behind a conversion of its address, with the number of words from there to its end.\<close>

definition converted_array :: "rhs \<Rightarrow> dsp_stop + int \<times> tree_ref option" where
  "converted_array r =
    (case r of
       Nop_rhs (Addr_expr t innerop) \<Rightarrow>
         (case op_code innerop of
            Var_object \<Rightarrow>
              if type_code (op_type innerop) = ARRAY_CODE then
                (case type_size_unit (op_type innerop) of
                   Some bytes \<Rightarrow> Inr (bytes div 4, Some (operand_ref innerop))
                 | None \<Rightarrow> Inl Dsp_fault)
              else Inr (0, None)
          | Array_ref \<Rightarrow>
              (case (op_index innerop, Option.bind (op_array_type innerop) type_size_unit) of
                 (Some off, Some bytes) \<Rightarrow> Inr (bytes div 4 - off, Some (operand_ref innerop))
               | _ \<Rightarrow> Inl Dsp_fault)
          | Other_object \<Rightarrow> Inr (0, None))
     | _ \<Rightarrow> Inr (0, None))"

text \<open>The scan from the call back to the start of the list, up to the first assignment to the variable.\<close>

fun trace_back :: "string \<Rightarrow> stmt list \<Rightarrow> dsp_stop + int \<times> tree_ref option" where
  "trace_back r [] = Inr (0, None)"
| "trace_back r (Modify_stmt lhs rs loc # before) = (if lhs = r then converted_array rs else trace_back r before)"
| "trace_back r (st # before) = trace_back r before"

definition trace_pointer :: "string \<Rightarrow> stmt cursor \<Rightarrow> dsp_stop + int \<times> tree_ref option" where
  "trace_pointer r it = (case it of (xs, []) \<Rightarrow> Inr (0, None) | (xs, s # ys) \<Rightarrow> trace_back r (s # rev xs))"

fun check_omogenous :: "ty list \<Rightarrow> type_code \<Rightarrow> nat \<Rightarrow> nat" where
  "check_omogenous [] code cnt = cnt"
| "check_omogenous (f # fs) code cnt = (if type_code f \<noteq> code then 0 else check_omogenous fs code (cnt + 1))"

section \<open>Addresses\<close>

text \<open>How an object is copied, by the type the address points to.\<close>

definition object_type :: "nat \<Rightarrow> ty \<Rightarrow> dsp_stop + dsp_parm_type" where
  "object_type parm inner_type =
    (case type_code inner_type of
       VECTOR_CODE \<Rightarrow>
         (case target_type inner_type of
            None \<Rightarrow> Inl Dsp_fault
          | Some e \<Rightarrow>
              if type_code e = REAL_CODE then Inr DSP_PARM_P_VFLOAT
              else if type_code e = INTEGER_CODE then Inr DSP_PARM_P_VLONG
              else Inl (Vector_type_not_handled (parm + 1)))
     | RECORD_CODE \<Rightarrow>
         (case type_fields inner_type of
            [] \<Rightarrow> Inl Dsp_fault
          | f # fs \<Rightarrow>
              if type_code f \<noteq> REAL_CODE \<and> type_code f \<noteq> INTEGER_CODE then Inl (Record_type_not_handled (parm + 1))
              else if check_omogenous (f # fs) (type_code f) 0 = 0 then Inl (Record_not_homogeneous (parm + 1))
              else Inr (if type_code f = REAL_CODE then DSP_PARM_P_FLOAT else DSP_PARM_P_INT))
     | COMPLEX_CODE \<Rightarrow>
         (case target_type inner_type of
            None \<Rightarrow> Inl Dsp_fault
          | Some e \<Rightarrow>
              if type_code e = REAL_CODE then Inr DSP_PARM_P_CFLOAT
              else if type_code e = INTEGER_CODE then Inr DSP_PARM_P_CLONG
              else Inl (Complex_type_not_handled (parm + 1)))
     | REAL_CODE \<Rightarrow> Inr DSP_PARM_P_FLOAT
     | INTEGER_CODE \<Rightarrow> Inr DSP_PARM_P_INT
     | _ \<Rightarrow> Inl (Pointed_type_not_handled (parm + 1)))"

text \<open>The words of the whole object, which are at most 16000, less the index of the element.\<close>

definition object_words :: "nat \<Rightarrow> addr_operand \<Rightarrow> dsp_stop + int" where
  "object_words parm opnd =
    (case (if op_code opnd = Array_ref then
             (case (op_index opnd, Option.bind (op_array_type opnd) type_size_unit) of
                (Some offset, Some bytes) \<Rightarrow> Inr (bytes, offset)
              | _ \<Rightarrow> Inl Dsp_fault)
           else if type_code (op_type opnd) = ARRAY_CODE \<or> op_code opnd = Var_object then
             (case type_size_unit (op_type opnd) of Some bytes \<Rightarrow> Inr (bytes, 0) | None \<Rightarrow> Inl Dsp_fault)
           else Inl (Cannot_handle_arg (parm + 1))) of
       Inl e \<Rightarrow> Inl e
     | Inr (bytes, offset) \<Rightarrow>
         if bytes div 4 > 16000 then Inl (Array_too_big (parm + 1) (bytes div 4))
         else Inr (bytes div 4 - offset))"

definition expand_object ::
  "call_expr \<Rightarrow> nat \<Rightarrow> ty \<Rightarrow> addr_operand \<Rightarrow> io_type \<Rightarrow> bool \<Rightarrow> bool \<Rightarrow> dsp_state \<Rightarrow> dsp_stop + stmt list \<times> dsp_state" where
  "expand_object call parm t opnd io is_const is_wo st =
    (case lookup_attribute ''section'' (op_attributes opnd) of
       None \<Rightarrow> Inl Dsp_fault
     | Some attr \<Rightarrow>
         if attr \<noteq> [] \<and> strstr (snd (hd attr)) ''dsp_'' then
           Inr (if io = IO_PROLOGUE
                then insert_diopsis_api call None parm DSP_INTERNAL_POINTER 0 IO_PROLOGUE is_const is_wo st
                else ([], st))
         else
           (case target_type t of
              None \<Rightarrow> Inl Dsp_fault
            | Some inner_type \<Rightarrow>
                (case object_type parm inner_type of
                   Inl e \<Rightarrow> Inl e
                 | Inr typ \<Rightarrow>
                     (case object_words parm opnd of
                        Inl e \<Rightarrow> Inl e
                      | Inr arr_size \<Rightarrow>
                          let op = Some (operand_ref opnd)
                          in Inr (if is_const then
                                    (if io = IO_PROLOGUE
                                     then insert_diopsis_api call op parm typ arr_size io is_const is_wo st
                                     else ([], st))
                                  else if is_wo then
                                    insert_diopsis_api call op parm
                                      (if io = IO_EPILOGUE then typ else DSP_ALLOCATE_POINTER) arr_size io is_const is_wo st
                                  else insert_diopsis_api call op parm typ arr_size io is_const is_wo st)))))"

section \<open>Variables\<close>

text \<open>A pointer that was assigned the address of an array is passed as the array.\<close>

definition expand_traced ::
  "call_expr \<Rightarrow> dsp_warning \<Rightarrow> nat \<Rightarrow> string \<Rightarrow> dsp_parm_type \<Rightarrow> stmt cursor \<Rightarrow> io_type \<Rightarrow> bool \<Rightarrow> bool \<Rightarrow> dsp_state
   \<Rightarrow> dsp_stop + stmt list \<times> dsp_state" where
  "expand_traced call w parm n typ it io is_const is_wo st =
    (case trace_pointer n it of
       Inl e \<Rightarrow> Inl e
     | Inr (len, vectret) \<Rightarrow>
         Inr (if len > 0 then
                insert_diopsis_api call vectret parm
                  (if typ = DSP_POINTER_FLOAT then DSP_PARM_P_FLOAT else DSP_PARM_P_INT) len io is_const is_wo st
              else
                insert_diopsis_api call (Some (Declaration n)) parm typ 0 io is_const is_wo (dsp_warn w st)))"

definition expand_pointer ::
  "fndecl \<Rightarrow> call_expr \<Rightarrow> nat \<Rightarrow> ty \<Rightarrow> string \<Rightarrow> stmt cursor \<Rightarrow> io_type \<Rightarrow> bool \<Rightarrow> bool \<Rightarrow> dsp_state
   \<Rightarrow> dsp_stop + stmt list \<times> dsp_state" where
  "expand_pointer decl call parm inner_type n it io is_const is_wo st =
    (if type_code inner_type = COMPLEX_CODE \<or> type_code inner_type = VECTOR_CODE then
       (case target_type inner_type of
          None \<Rightarrow> Inl Dsp_fault
        | Some e \<Rightarrow>
            expand_traced call (Vector_pointer_argument (decl_name decl) (parm + 1)) parm n
              (if type_code e = REAL_CODE then DSP_POINTER_FLOAT else DSP_POINTER_INT) it io is_const is_wo st)
     else if type_code inner_type = INTEGER_CODE then
       Inr (insert_diopsis_api call (Some (Declaration n)) parm DSP_POINTER_INT 0 io is_const is_wo st)
     else if type_code inner_type = REAL_CODE then
       expand_traced call (Float_pointer_argument (decl_name decl) (parm + 1)) parm n DSP_POINTER_FLOAT it io
         is_const is_wo st
     else
       Inr (insert_diopsis_api call (Some (Declaration n)) parm DSP_POINTER_DWORD 0 io is_const is_wo
              (dsp_warn (Other_pointer_argument (decl_name decl) (parm + 1)) st)))"

definition expand_scalar ::
  "fndecl \<Rightarrow> call_expr \<Rightarrow> nat \<Rightarrow> bool \<Rightarrow> ty \<Rightarrow> string \<Rightarrow> stmt cursor \<Rightarrow> io_type \<Rightarrow> bool \<Rightarrow> bool \<Rightarrow> dsp_state
   \<Rightarrow> dsp_stop + stmt list \<times> dsp_state" where
  "expand_scalar decl call parm is_long t n it io is_const is_wo st =
    (case type_code t of
       INTEGER_CODE \<Rightarrow>
         Inr (insert_diopsis_api call None parm (if is_long then DSP_PARM_LONG else DSP_PARM_INT) 0 io is_const is_wo st)
     | REAL_CODE \<Rightarrow> Inr (insert_diopsis_api call None parm DSP_PARM_FLOAT 0 io is_const is_wo st)
     | COMPLEX_CODE \<Rightarrow>
         (case target_type t of
            None \<Rightarrow> Inl Dsp_fault
          | Some e \<Rightarrow>
              if type_code e = REAL_CODE
              then Inr (insert_diopsis_api call None parm DSP_PARM_CFLOAT 0 io is_const is_wo st)
              else if type_code e = INTEGER_CODE
              then Inr (insert_diopsis_api call None parm DSP_PARM_CLONG 0 io is_const is_wo st)
              else Inl (Complex_type_not_handled (parm + 1)))
     | VECTOR_CODE \<Rightarrow>
         (case target_type t of
            None \<Rightarrow> Inl Dsp_fault
          | Some e \<Rightarrow>
              if type_code e = REAL_CODE
              then Inr (insert_diopsis_api call None parm DSP_PARM_VFLOAT 0 io is_const is_wo st)
              else if type_code e = INTEGER_CODE
              then Inr (insert_diopsis_api call None parm DSP_PARM_VLONG 0 io is_const is_wo st)
              else Inl (Vector_type_not_handled (parm + 1)))
     | POINTER_CODE \<Rightarrow>
         (case target_type t of
            None \<Rightarrow> Inl Dsp_fault
          | Some inner_type \<Rightarrow> expand_pointer decl call parm inner_type n it io is_const is_wo st)
     | _ \<Rightarrow> Inl (Arg_type_not_handled (parm + 1)))"

section \<open>All arguments\<close>

record parm_masks =
  parm_long_mask :: "32 word"
  read_only_parm :: "32 word"
  write_only_parm :: "32 word"

definition low_int :: "int \<Rightarrow> int" where
  "low_int n = sint (word_of_int n :: 32 word)"

definition dsp_expand_parameter ::
  "fndecl \<Rightarrow> call_expr \<Rightarrow> parm_masks \<Rightarrow> io_type \<Rightarrow> nat \<Rightarrow> arg \<Rightarrow> stmt cursor \<Rightarrow> dsp_state
   \<Rightarrow> dsp_stop + stmt list \<times> dsp_state" where
  "dsp_expand_parameter decl call masks io parm arg it st =
    (if parm \<ge> 32 then Inl Dsp_fault
     else
       let is_wo = bit (write_only_parm masks) parm;
           is_const = bit (read_only_parm masks) parm;
           is_long = bit (parm_long_mask masks) parm
       in (case arg of
             Addr_expr t opnd \<Rightarrow> expand_object call parm t opnd io is_const is_wo st
           | Int_arg n \<Rightarrow>
               if \<not> is_long \<and> \<bar>low_int n\<bar> > 0xffff then Inl (Integer_too_big (parm + 1) (low_int n))
               else
                 Inr (insert_diopsis_api call None parm (if is_long then DSP_PARM_LONG else DSP_PARM_INT) 0 io
                        is_const is_wo st)
           | Real_arg s \<Rightarrow> Inr (insert_diopsis_api call None parm DSP_PARM_FLOAT 0 io is_const is_wo st)
           | Var_arg t n \<Rightarrow> expand_scalar decl call parm is_long t n it io is_const is_wo st
           | Parm_arg t n \<Rightarrow> expand_scalar decl call parm is_long t n it io is_const is_wo st
           | Ssa_arg t n \<Rightarrow> expand_scalar decl call parm is_long t n it io is_const is_wo st
           | _ \<Rightarrow> Inl (Arg_type_not_handled (parm + 1))))"

text \<open>What is linked for an argument stands before the call when the next is looked at.\<close>

fun dsp_expand_from ::
  "fndecl \<Rightarrow> call_expr \<Rightarrow> parm_masks \<Rightarrow> io_type \<Rightarrow> nat \<Rightarrow> arg list \<Rightarrow> stmt cursor \<Rightarrow> dsp_state
   \<Rightarrow> dsp_stop + stmt list \<times> dsp_state" where
  "dsp_expand_from decl call masks io parm [] it st = Inr ([], st)"
| "dsp_expand_from decl call masks io parm (arg # as) it st =
    (case dsp_expand_parameter decl call masks io parm arg it st of
       Inl e \<Rightarrow> Inl e
     | Inr (ms, st) \<Rightarrow>
         (case dsp_expand_from decl call masks io (parm + 1) as (cursor_link_before ms it) st of
            Inl e \<Rightarrow> Inl e
          | Inr (ms', st) \<Rightarrow> Inr (ms @ ms', st)))"

definition dsp_expand_parameters ::
  "fndecl \<Rightarrow> call_expr \<Rightarrow> stmt cursor \<Rightarrow> parm_masks \<Rightarrow> io_type \<Rightarrow> dsp_state \<Rightarrow> dsp_stop + stmt list \<times> dsp_state" where
  "dsp_expand_parameters decl call it masks io st =
    dsp_expand_from decl call masks io 0 (args call) it (st\<lparr>dsp_trx_bytes := 0, out_bytes := 0\<rparr>)"

end
