(* ===== verification/DiopsisCall.thy ===== *)
theory DiopsisCall
  imports DiopsisArgs
begin

text \<open>
  The hArtes pass for the signal processor, third part: the replacement of one call,
  \<open>diopsis_replace_call_tree_tsi\<close> of \<open>gcc/diopsis.c\<close>.
\<close>

section \<open>The mapping of a call\<close>

definition NOWAIT_FUNC :: int where "NOWAIT_FUNC = 0x10000"
definition DSPDEV :: int where "DSPDEV = 0"
definition GPPDEV :: int where "GPPDEV = 1"

definition func_flags :: "bool \<Rightarrow> int" where
  "func_flags nowait = (if nowait then NOWAIT_FUNC else 0)"

definition asks_nowait :: "dsp_env \<Rightarrow> string list \<Rightarrow> bool" where
  "asks_nowait env arg \<longleftrightarrow> arg \<noteq> [] \<and> hd arg = ''nowait'' \<and> \<not> remwait env"

text \<open>The number of the function and whether the call is not waited for, from the pragma in front of the
  call or the attribute of the function; \<open>None\<close> is a call that is not mapped.\<close>

definition dsp_mapping :: "dsp_env \<Rightarrow> fndecl \<Rightarrow> string option \<Rightarrow> dsp_stop + (int \<times> bool) option" where
  "dsp_mapping env decl magic =
    (case (case magic of
             None \<Rightarrow> Some (0, None, [])
           | Some s \<Rightarrow> hartes_call_hw_get_params (Some s) 0 None) of
       None \<Rightarrow> Inl Dsp_fault
     | Some (hattr_id, compname, arg) \<Rightarrow>
         let nowait = asks_nowait env arg
         in if compname \<noteq> None then
              (if stale_attr env then Inr (Some (sint hattr_id, nowait)) else Inl Dsp_fault)
            else
              (case lookup_attribute ''call_hw'' (decl_attributes decl) of
                 None \<Rightarrow> Inl Dsp_fault
               | Some [] \<Rightarrow> Inr None
               | Some (attr # _) \<Rightarrow>
                   (case hartes_call_hw_get_params (Some (snd attr)) hattr_id None of
                      None \<Rightarrow> Inl Dsp_fault
                    | Some (diopsis_id, _, arg) \<Rightarrow> Inr (Some (sint diopsis_id, nowait \<or> asks_nowait env arg)))))"

text \<open>Whether the number belongs to the signal processor; the description of the architecture is read at the first
  question.\<close>

definition dsp_selected :: "dsp_env \<Rightarrow> int \<Rightarrow> dsp_state \<Rightarrow> dsp_stop + bool \<times> dsp_state" where
  "dsp_selected env diopsis_id st =
    (if dspforce env then Inr (True, st)
     else
       (case (if dsp_configuration_xml env then
                map_sum Dsp_hxml_stop (\<lambda>(_, db). st\<lparr>dsp_hxml_db := db\<rparr>)
                  (hxml_read_xml (dsp_configuration_file env) (dsp_hxml_db st))
              else Inr st) of
          Inl e \<Rightarrow> Inl e
        | Inr st \<Rightarrow>
            (case hxml_get_functional_component_type (snd (dsp_hxml_db st)) diopsis_id of
               Inl e \<Rightarrow> Inl (Dsp_hxml_stop e)
             | Inr type \<Rightarrow> Inr (type = DSP, st))))"

section \<open>Result and parameters\<close>

text \<open>The builtin that fetches the result, and the register the result takes.\<close>

definition return_builtin :: "call_expr \<Rightarrow> fndecl \<Rightarrow> dsp_state \<Rightarrow> dsp_stop + builtin option \<times> dsp_state" where
  "return_builtin call decl st =
    (let rt = call_type call;
         long = st\<lparr>float_long_arg_advance := float_long_arg_advance st + 2\<rparr>;
         int = st\<lparr>pointer_int_arg_advance := pointer_int_arg_advance st + 1\<rparr>
     in case type_code rt of
          INTEGER_CODE \<Rightarrow>
            (case type_name rt of
               None \<Rightarrow> Inl Dsp_fault
             | Some typname \<Rightarrow>
                 Inr (if type_long rt \<or> typname = ''add_t'' then (Some BUILT_IN_DSP_RETL, long)
                      else (Some BUILT_IN_DSP_RETI, int)))
        | REAL_CODE \<Rightarrow> Inr (Some BUILT_IN_DSP_RETF, long)
        | COMPLEX_CODE \<Rightarrow>
            (case target_type rt of
               None \<Rightarrow> Inl Dsp_fault
             | Some e \<Rightarrow> Inr (Some (if type_code e = REAL_CODE then BUILT_IN_DSP_RETDF else BUILT_IN_DSP_RETDL), long))
        | VECTOR_CODE \<Rightarrow>
            (case target_type rt of
               None \<Rightarrow> Inl Dsp_fault
             | Some e \<Rightarrow> Inr (Some (if type_code e = REAL_CODE then BUILT_IN_DSP_RETDF else BUILT_IN_DSP_RETDL), long))
        | POINTER_CODE \<Rightarrow> Inr (Some BUILT_IN_DSP_RETI, dsp_warn (Remote_returns_pointer (decl_name decl)) int)
        | ENUMERAL_CODE \<Rightarrow> Inr (Some BUILT_IN_DSP_RETI, int)
        | VOID_CODE \<Rightarrow> Inr (None, st)
        | _ \<Rightarrow> Inl Unsupported_remote_return_type)"

text \<open>The loop over the parameters of the function: long ones, and pointers to read-only and to volatile objects.\<close>

definition add_mask :: "bool \<Rightarrow> nat \<Rightarrow> 32 word \<Rightarrow> 32 word option" where
  "add_mask b cnt m = (if \<not> b then Some m else if cnt \<ge> 32 then None else Some (set_bit cnt m))"

definition parm_type :: "ty \<Rightarrow> ty" where
  "parm_type parm = (case original_type parm of None \<Rightarrow> parm | Some t \<Rightarrow> t)"

definition parm_mask :: "nat \<Rightarrow> ty \<Rightarrow> parm_masks \<Rightarrow> parm_masks option" where
  "parm_mask cnt parm m =
    (let parm = parm_type parm
     in case (if type_code parm = POINTER_CODE then map_option (\<lambda>t. (type_readonly t, type_volatile t)) (target_type parm)
              else Some (False, False)) of
          None \<Rightarrow> None
        | Some (ro, wo) \<Rightarrow>
            (case (add_mask (type_long parm) cnt (parm_long_mask m), add_mask ro cnt (read_only_parm m),
                   add_mask wo cnt (write_only_parm m)) of
               (Some l, Some r, Some w) \<Rightarrow> Some \<lparr>parm_long_mask = l, read_only_parm = r, write_only_parm = w\<rparr>
             | _ \<Rightarrow> None))"

fun parm_masks_from :: "nat \<Rightarrow> ty list \<Rightarrow> parm_masks \<Rightarrow> parm_masks option" where
  "parm_masks_from cnt [] m = Some m"
| "parm_masks_from cnt (parm # parmlist) m =
    (case parm_mask cnt parm m of None \<Rightarrow> None | Some m \<Rightarrow> parm_masks_from (cnt + 1) parmlist m)"

definition parm_masks_of :: "fndecl \<Rightarrow> parm_masks option" where
  "parm_masks_of decl =
    parm_masks_from 0 (decl_arg_types decl) \<lparr>parm_long_mask = 0, read_only_parm = 0, write_only_parm = 0\<rparr>"

section \<open>The remote call\<close>

definition dsp_stats_begin :: "string \<Rightarrow> string \<Rightarrow> int \<Rightarrow> int \<Rightarrow> stmt" where
  "dsp_stats_begin func_name file_name lineno dev =
    build_call_expr HARTES_STATS_BEGIN [String_arg func_name, String_arg file_name, Int_arg lineno, Int_arg dev]"

definition dsp_stats_bytes :: "dsp_env \<Rightarrow> builtin \<Rightarrow> int \<Rightarrow> stmt list" where
  "dsp_stats_bytes env b n = (if dspstat env \<and> n \<noteq> 0 then [build_call_expr b [Int_arg n]] else [])"

text \<open>The symbol of the function on the processor; the buffer for its name has 512 characters.\<close>

definition func_mangled :: "string \<Rightarrow> string" where
  "func_mangled func_name = func_name @ ''__magic_text__''"

definition dsp_addr :: "string \<Rightarrow> arg" where
  "dsp_addr func_name = Var_arg integer_type_node (func_mangled func_name)"

text \<open>What is linked before the call up to the start of the function, in this order.\<close>

definition dsp_start ::
  "dsp_env \<Rightarrow> stmt cursor \<Rightarrow> stmt \<Rightarrow> call_expr \<Rightarrow> fndecl \<Rightarrow> bool \<Rightarrow> parm_masks \<Rightarrow> dsp_state
   \<Rightarrow> dsp_stop + stmt list \<times> dsp_state" where
  "dsp_start env tsi stmt call decl nowait masks st =
    (case (if dspstat env then
             (case stmt_location stmt of
                (None, lineno) \<Rightarrow> None
              | (Some file_name, lineno) \<Rightarrow>
                  Some [dsp_stats_begin (decl_name decl) file_name lineno (or DSPDEV (func_flags nowait))])
           else Some []) of
       None \<Rightarrow> Inl Dsp_fault
     | Some begins \<Rightarrow>
         let rpc = build_call_expr BUILT_IN_HARTES_RPC [Int_arg (or (hartes_rpc_uid st) (func_flags nowait)), Int_arg DSPDEV]
         in (case dsp_expand_parameters decl call (cursor_link_before (begins @ [rpc]) tsi) masks IO_PROLOGUE st of
               Inl e \<Rightarrow> Inl e
             | Inr (ins, st) \<Rightarrow>
                 Inr (begins @ [rpc] @ ins
                      @ (if pointer_op st \<noteq> 0 \<or> int_pointer st \<noteq> 0 then [build_call_expr BUILT_IN_DSP_PRE_EXEC []] else [])
                      @ dsp_stats_bytes env HARTES_STATS_PARMIN (dsp_trx_bytes st)
                      @ [build_call_expr (if nowait then BUILT_IN_DSP_EXEC_NOWAIT else BUILT_IN_DSP_EXEC)
                           [build_fold_addr_expr (dsp_addr (decl_name decl))]]
                      @ (if dspstat env then [build_call_expr HARTES_STATS_EXEC []] else []),
                      st)))"

definition dsp_create_tmp_var :: "ty \<Rightarrow> string \<Rightarrow> dsp_state \<Rightarrow> arg \<times> dsp_state" where
  "dsp_create_tmp_var t prefix st =
    (Var_arg t (prefix @ ''.'' @ digits 10 (dsp_tmp_var_id st)), st\<lparr>dsp_tmp_var_id := dsp_tmp_var_id st + 1\<rparr>)"

text \<open>Removing the call; the iterator steps back unless it is behind the last statement.\<close>

definition remove_call :: "stmt cursor \<Rightarrow> stmt cursor option" where
  "remove_call tsi =
    (case cursor_delink tsi of
       None \<Rightarrow> None
     | Some tsi \<Rightarrow> if cursor_stmt tsi = None then Some tsi else cursor_prev tsi)"

definition dsp_finish ::
  "dsp_env \<Rightarrow> stmt cursor \<Rightarrow> stmt \<Rightarrow> call_expr \<Rightarrow> bool \<Rightarrow> builtin option \<Rightarrow> dsp_state \<Rightarrow> dsp_stop + stmt cursor \<times> dsp_state" where
  "dsp_finish env tsi stmt call nowait retb st =
    (if nowait then
       (case stmt of
          Call_stmt c \<Rightarrow> (case remove_call tsi of None \<Rightarrow> Inl Dsp_fault | Some tsi \<Rightarrow> Inr (tsi, st))
        | _ \<Rightarrow> Inl Nowait_returns_value)
     else
       let rpc_end = build_call_expr BUILT_IN_HARTES_RPC_END [Int_arg (hartes_rpc_uid st), Int_arg DSPDEV];
           st = st\<lparr>hartes_rpc_uid := hartes_rpc_uid st + 1\<rparr>;
           tsi = cursor_link_before (rpc_end # dsp_stats_bytes env HARTES_STATS_PARMOUT (out_bytes st)) tsi
       in (case stmt of
             Call_stmt c \<Rightarrow> (case remove_call tsi of None \<Rightarrow> Inl Dsp_fault | Some tsi \<Rightarrow> Inr (tsi, st))
           | Modify_stmt lhs r loc \<Rightarrow>
               (case dsp_create_tmp_var (call_type call) ''__dsp_return'' st of
                  (dsp_return, st) \<Rightarrow>
                    (case retb of
                       None \<Rightarrow> Inl Dsp_fault
                     | Some b \<Rightarrow>
                         Inr (cursor_replace (Modify_stmt lhs (Value_rhs dsp_return) loc)
                                (cursor_link_before [build_call_expr b [build_fold_addr_expr dsp_return]] tsi), st)))
           | _ \<Rightarrow> Inl Dsp_fault))"

definition replace_remote ::
  "dsp_env \<Rightarrow> stmt cursor \<Rightarrow> stmt \<Rightarrow> call_expr \<Rightarrow> fndecl \<Rightarrow> bool \<Rightarrow> dsp_state \<Rightarrow> dsp_stop + stmt cursor \<times> dsp_state" where
  "replace_remote env tsi stmt call decl nowait st =
    (case return_builtin call decl
            (st\<lparr>pointer_int_arg_advance := 0, float_long_arg_advance := 0, dsp_internal_memory_address := 0,
               pointer_op := 0, int_pointer := 0\<rparr>) of
       Inl e \<Rightarrow> Inl e
     | Inr (retb, st) \<Rightarrow>
     (case parm_masks_of decl of
       None \<Rightarrow> Inl Dsp_fault
     | Some masks \<Rightarrow>
     (case (if fits 512 (func_mangled (decl_name decl))
            then microblaze_include_dspfunc (decl_name decl) (dsp_loader_file st) else None) of
       None \<Rightarrow> Inl Dsp_fault
     | Some file \<Rightarrow>
     (case dsp_start env tsi stmt call decl nowait masks (st\<lparr>dsp_loader_file := file\<rparr>) of
       Inl e \<Rightarrow> Inl e
     | Inr (new, st) \<Rightarrow> dsp_finish env (cursor_link_before new tsi) stmt call nowait retb st))))"

section \<open>Calls that stay\<close>

text \<open>Statistics for a call on the general purpose processor; linking behind the call leaves the iterator at the call.\<close>

definition gpp_statistics :: "dsp_env \<Rightarrow> stmt cursor \<Rightarrow> stmt \<Rightarrow> fndecl \<Rightarrow> bool \<Rightarrow> stmt cursor option" where
  "gpp_statistics env tsi stmt decl in_pragma =
    (if gppstat env \<and> \<not> in_pragma then
       (case stmt_location stmt of
          (None, lineno) \<Rightarrow> Some tsi
        | (Some file_name, lineno) \<Rightarrow>
            if strstr (decl_name decl) ''__builtin'' then Some tsi
            else cursor_link_after [build_call_expr HARTES_STATS_EXEC []]
                   (cursor_link_before [dsp_stats_begin (decl_name decl) file_name lineno GPPDEV] tsi))
     else Some tsi)"

definition forget_pragma :: "fndecl \<Rightarrow> dsp_state \<Rightarrow> dsp_state" where
  "forget_pragma decl st = (if decl_name decl \<noteq> ''__builtin_molen_dummy'' then st\<lparr>pragma_on_call := False\<rparr> else st)"

text \<open>The early returns, for a number of another component and for a call that is not waited for, leave the pragma
  set.\<close>

definition diopsis_replace_call_tree_tsi :: "dsp_env \<Rightarrow> stmt cursor \<Rightarrow> dsp_state \<Rightarrow> dsp_stop + stmt cursor \<times> dsp_state" where
  "diopsis_replace_call_tree_tsi env tsi st =
    (case cursor_stmt tsi of
       None \<Rightarrow> Inl Dsp_fault
     | Some stmt \<Rightarrow>
     (case get_call_expr_in stmt of
       None \<Rightarrow> Inr (tsi, st)
     | Some call \<Rightarrow>
     (case callee call of
       None \<Rightarrow> Inr (tsi, st)
     | Some decl \<Rightarrow>
     (case dsp_mapping env decl (pragma_on_call_magic st) of
       Inl e \<Rightarrow> Inl e
     | Inr mapping \<Rightarrow>
         let st = st\<lparr>pragma_on_call_magic := None\<rparr>
         in (case mapping of
               None \<Rightarrow>
                 (case gpp_statistics env tsi stmt decl (pragma_on_call st) of
                    None \<Rightarrow> Inl Dsp_fault
                  | Some tsi \<Rightarrow> Inr (tsi, forget_pragma decl st))
             | Some (diopsis_id, nowait) \<Rightarrow>
                 (case dsp_selected env diopsis_id st of
                    Inl e \<Rightarrow> Inl e
                  | Inr (selected, st) \<Rightarrow>
                      if \<not> selected then Inr (tsi, st)
                      else
                        (case replace_remote env tsi stmt call decl nowait st of
                           Inl e \<Rightarrow> Inl e
                         | Inr (tsi, st) \<Rightarrow> Inr (tsi, if nowait then st else forget_pragma decl st))))))))"

end
