(* ===== verification/DiopsisWalk.thy ===== *)
theory DiopsisWalk
  imports DiopsisCall
begin

text \<open>
  The hArtes pass for the signal processor, fourth part: the walk over the body of a function,
  \<open>do_diopsis_replace_calls_tree\<close> of \<open>gcc/diopsis.c\<close>.
\<close>

section \<open>Pragmas in front of statements\<close>

text \<open>A dummy call with a component of the signal processor is removed, and its string is kept for the next
  call. The result is the statement that is walked next, the iterator at which a call in it is replaced, and the state.\<close>

definition pragma_call :: "stmt \<Rightarrow> call_expr option" where
  "pragma_call s =
    (case get_call_expr_in s of
       None \<Rightarrow> None
     | Some c \<Rightarrow>
         (case callee c of
            None \<Rightarrow> None
          | Some decl \<Rightarrow> if decl_name decl = ''__builtin_molen_dummy'' then Some c else None))"

definition pragma_statement :: "dsp_env \<Rightarrow> stmt cursor \<Rightarrow> stmt \<Rightarrow> dsp_state \<Rightarrow> dsp_stop + stmt cursor \<times> dsp_state" where
  "pragma_statement env tsi s st =
    (case pragma_call s of
       None \<Rightarrow> Inr (tsi, st)
     | Some call \<Rightarrow>
         (case args call of
            String_arg arg # _ \<Rightarrow>
              (case hartes_call_hw_get_params (Some arg) 0 (stale_compname env) of
                 None \<Rightarrow> Inl Dsp_fault
               | Some (_, compname, _) \<Rightarrow>
                   let st = st\<lparr>pragma_on_call := True\<rparr>
                   in if compname \<noteq> None \<and> microblaze_check_dsp (the compname) then
                        (case cursor_delink tsi of
                           None \<Rightarrow> Inl Dsp_fault
                         | Some tsi \<Rightarrow> Inr (tsi, st\<lparr>pragma_on_call_magic := Some arg\<rparr>))
                      else Inr (tsi, st))
          | _ \<Rightarrow> Inl Dsp_fault))"

section \<open>The iterator after a replacement\<close>

text \<open>The loop ends because each turn takes the statement at the iterator away: a replacement leaves behind it
  what followed the call, to which the statistics for other processors add a builtin, which is skipped in turn.\<close>

definition call_weight :: "stmt \<Rightarrow> nat" where
  "call_weight s =
    (case get_call_expr_in s of
       None \<Rightarrow> 1
     | Some c \<Rightarrow>
         (case callee c of None \<Rightarrow> 1 | Some decl \<Rightarrow> if strstr (decl_name decl) ''__builtin'' then 1 else 2))"

fun weight :: "stmt \<Rightarrow> nat" where
  "weight (Try_stmt a b) = weight a + weight b + 1"
| "weight (Catch_stmt a) = weight a + 1"
| "weight (Bind_expr a) = weight a + 1"
| "weight (Stmt_list ss) = sum_list (map weight ss) + 2"
| "weight (Omp_parallel a) = weight a + 1"
| "weight (Omp_sections a) = weight a + 1"
| "weight (Omp_section a) = weight a + 1"
| "weight (Cond_expr a b) = weight a + weight b + 1"
| "weight s = call_weight s"

definition weight_list :: "stmt list \<Rightarrow> nat" where
  "weight_list ss = sum_list (map weight ss)"

lemma weight_list_simps [simp]: "weight_list [] = 0" "weight_list (s # ss) = weight s + weight_list ss"
  by (simp_all add: weight_list_def)

lemma call_weight_pos [simp]: "0 < call_weight s"
  by (auto simp: call_weight_def split: option.splits)

lemma weight_pos [simp]: "0 < weight s"
  by (cases s) simp_all

lemma weight_call [simp]: "is_call_stmt s \<Longrightarrow> weight s = call_weight s"
  by (cases s) (auto simp: is_call_stmt_def)

lemma weight_build [simp]: "weight (build_call_expr b as) = 1"
proof -
  have "strstr (decl_name (Builtin b)) ''__builtin''" by (simp add: decl_name_def)
  then show ?thesis by (simp add: build_call_expr_def call_weight_def)
qed

lemma remove_call_rest:
  "remove_call (xs, s # ys) = Some z \<Longrightarrow> cursor_next z = Some z' \<Longrightarrow> snd z' = ys"
  by (auto simp: remove_call_def split: option.splits if_splits dest: prev_next)

lemma replace_remote_rest:
  assumes "replace_remote env (xs, s # ys) stmt call decl nowait st = Inr (z, st')" "cursor_next z = Some z'"
  shows "snd z' = ys"
  using assms
  by (auto simp: replace_remote_def dsp_finish_def cursor_link_before_def Let_def dest: remove_call_rest
      split: sum.splits option.splits prod.splits stmt.splits if_splits)

lemma gpp_statistics_rest:
  assumes "gpp_statistics env (xs, s # ys) s decl p = Some z" "cursor_next z = Some z'"
    "get_call_expr_in s = Some call" "callee call = Some decl"
  shows "weight_list (snd z') < weight s + weight_list ys"
proof -
  have "is_call_stmt s" using assms(3) by (cases s) (auto simp: is_call_stmt_def)
  then have "weight s = (if strstr (decl_name decl) ''__builtin'' then 1 else 2)"
    using assms(3,4) by (simp add: call_weight_def)
  with assms(1,2) show ?thesis
    by (auto simp: gpp_statistics_def cursor_link_before_def split: prod.splits option.splits if_splits)
qed

lemma dsp_call_rest:
  assumes "diopsis_replace_call_tree_tsi env (xs, s # ys) st = Inr (z, st')" "cursor_next z = Some z'"
  shows "weight_list (snd z') < weight s + weight_list ys"
  using assms
  by (auto simp: diopsis_replace_call_tree_tsi_def Let_def dest!: replace_remote_rest gpp_statistics_rest
      split: option.splits sum.splits prod.splits if_splits)

lemma pragma_statement_rest:
  assumes "pragma_statement env (xs, s # ys) s st = Inr (z, st')"
  shows "z = (xs, s # ys) \<or> z = (xs, ys) \<and> is_call_stmt s"
  using assms
  by (auto simp: pragma_statement_def pragma_call_def is_call_stmt_def Let_def split: option.splits list.splits arg.splits if_splits stmt.splits)

lemma step_rest:
  assumes "pragma_statement env (xs, s # ys) s st = Inr ((ps, qs), st1)" "qs \<noteq> []"
    "diopsis_replace_call_tree_tsi env (ps, qs) st1 = Inr (z, st2)" "cursor_next z = Some (ps', qs')"
  shows "weight_list qs' < weight s + weight_list ys"
  using pragma_statement_rest [OF assms(1)]
proof
  assume "(ps, qs) = (xs, s # ys)"
  with dsp_call_rest [of env xs s ys st1 z st2 "(ps', qs')"] assms show ?thesis by simp
next
  assume r: "(ps, qs) = (xs, ys) \<and> is_call_stmt s"
  with assms(2) obtain t ts where "ys = t # ts" by (cases ys) auto
  with r dsp_call_rest [of env xs t ts st1 z st2 "(ps', qs')"] assms show ?thesis by simp
qed

section \<open>The walk\<close>

text \<open>\<open>dsp_replace_tree\<close> is the walk without an iterator of the caller; a call or an assignment needs one.
  In a list, the statement behind a removed dummy call is replaced if it is a call, and is not walked otherwise.\<close>

function (sequential) dsp_replace_tree :: "dsp_env \<Rightarrow> stmt \<Rightarrow> dsp_state \<Rightarrow> dsp_stop + stmt \<times> dsp_state"
  and dsp_replace_list :: "dsp_env \<Rightarrow> stmt cursor \<Rightarrow> dsp_state \<Rightarrow> dsp_stop + stmt list \<times> dsp_state"
  and dsp_replace_sections :: "dsp_env \<Rightarrow> stmt list \<Rightarrow> dsp_state \<Rightarrow> dsp_stop + stmt list \<times> dsp_state"
where
  "dsp_replace_tree env (Try_stmt a b) st =
    (case dsp_replace_tree env a st of
       Inl e \<Rightarrow> Inl e
     | Inr (a, st) \<Rightarrow>
         (case dsp_replace_tree env b st of Inl e \<Rightarrow> Inl e | Inr (b, st) \<Rightarrow> Inr (Try_stmt a b, st)))"
| "dsp_replace_tree env (Catch_stmt a) st =
    (case dsp_replace_tree env a st of Inl e \<Rightarrow> Inl e | Inr (a, st) \<Rightarrow> Inr (Catch_stmt a, st))"
| "dsp_replace_tree env (Bind_expr a) st =
    (case dsp_replace_tree env a st of Inl e \<Rightarrow> Inl e | Inr (a, st) \<Rightarrow> Inr (Bind_expr a, st))"
| "dsp_replace_tree env (Stmt_list ss) st =
    (case dsp_replace_list env (cursor_start ss) st of Inl e \<Rightarrow> Inl e | Inr (ss, st) \<Rightarrow> Inr (Stmt_list ss, st))"
| "dsp_replace_tree env (Omp_parallel a) st =
    (case dsp_replace_tree env a st of Inl e \<Rightarrow> Inl e | Inr (a, st) \<Rightarrow> Inr (Omp_parallel a, st))"
| "dsp_replace_tree env (Omp_sections (Stmt_list ss)) st =
    (case dsp_replace_sections env ss st of
       Inl e \<Rightarrow> Inl e
     | Inr (ss, st) \<Rightarrow> Inr (Omp_sections (Stmt_list ss), st))"
| "dsp_replace_tree env (Cond_expr a b) st =
    (case dsp_replace_tree env a st of
       Inl e \<Rightarrow> Inl e
     | Inr (a, st) \<Rightarrow>
         (case dsp_replace_tree env b st of Inl e \<Rightarrow> Inl e | Inr (b, st) \<Rightarrow> Inr (Cond_expr a b, st)))"
| "dsp_replace_tree env (Call_stmt c) st = Inl Dsp_fault"
| "dsp_replace_tree env (Modify_stmt lhs r loc) st = Inl Dsp_fault"
| "dsp_replace_tree env (Omp_sections s) st = Inl Dsp_fault"
| "dsp_replace_tree env Null_tree st = Inl Dsp_fault"
| "dsp_replace_tree env s st = Inr (s, st)"
| "dsp_replace_list env (xs, []) st = Inr (xs, st)"
| "dsp_replace_list env (xs, s # ys) st =
    (case pragma_statement env (xs, s # ys) s st of
       Inl e \<Rightarrow> Inl e
     | Inr (tsi, st) \<Rightarrow>
         if cursor_stmt tsi = None then Inr (cursor_list tsi, st)
         else if is_call_stmt s then
           (case diopsis_replace_call_tree_tsi env tsi st of
              Inl e \<Rightarrow> Inl e
            | Inr (tsi, st) \<Rightarrow>
                (case cursor_next tsi of
                   None \<Rightarrow> Inr (cursor_list tsi, st)
                 | Some tsi \<Rightarrow> dsp_replace_list env tsi st))
         else
           (case dsp_replace_tree env s st of
              Inl e \<Rightarrow> Inl e
            | Inr (s, st) \<Rightarrow> dsp_replace_list env (xs @ [s], ys) st))"
| "dsp_replace_sections env [] st = Inr ([], st)"
| "dsp_replace_sections env (Omp_section a # ss) st =
    (case dsp_replace_tree env a st of
       Inl e \<Rightarrow> Inl e
     | Inr (a, st) \<Rightarrow>
         (case dsp_replace_sections env ss st of Inl e \<Rightarrow> Inl e | Inr (ss, st) \<Rightarrow> Inr (Omp_section a # ss, st)))"
| "dsp_replace_sections env (s # ss) st =
    (case dsp_replace_sections env ss st of Inl e \<Rightarrow> Inl e | Inr (ss, st) \<Rightarrow> Inr (s # ss, st))"
  by pat_completeness auto
termination
proof (relation "measure (\<lambda>x. case x of Inl (env, s, st) \<Rightarrow> weight s
    | Inr (Inl (env, z, st)) \<Rightarrow> weight_list (snd z) + 1 | Inr (Inr (env, ss, st)) \<Rightarrow> weight_list ss + 1)", goal_cases)
qed (auto simp: cursor_start_def weight_list_def [symmetric] dest: step_rest)

definition do_diopsis_replace_calls_tree_execute ::
  "dsp_env \<Rightarrow> stmt \<Rightarrow> dsp_state \<Rightarrow> dsp_stop + stmt \<times> dsp_state" where
  "do_diopsis_replace_calls_tree_execute env body st = (if \<not> diopsis env then Inr (body, st) else dsp_replace_tree env body st)"

end
