(* ===== verification/DiopsisSpec.thy ===== *)
theory DiopsisSpec
  imports DiopsisWalk
begin

text \<open>
  What the transfers of a remote call are: one statement for every argument, each of which names its register. The
  registers for integers and pointers and those for floating point numbers are counted separately.
\<close>

section \<open>What expanding the arguments leaves alone\<close>

definition kept :: "dsp_state \<Rightarrow> dsp_state \<Rightarrow> bool" where
  "kept st st' \<longleftrightarrow>
    hartes_rpc_uid st' = hartes_rpc_uid st \<and> dsp_tmp_var_id st' = dsp_tmp_var_id st \<and> dsp_hxml_db st' = dsp_hxml_db st
    \<and> dsp_loader_file st' = dsp_loader_file st \<and> pragma_on_call st' = pragma_on_call st
    \<and> pragma_on_call_magic st' = pragma_on_call_magic st"

lemma kept_refl [simp]: "kept st st"
  by (simp add: kept_def)

lemma kept_trans [trans]: "kept a b \<Longrightarrow> kept b c \<Longrightarrow> kept a c"
  by (simp add: kept_def)

named_theorems dsp_ops

lemmas [dsp_ops] = set_buffer_def allocate_buffer_def next_pointer_int_def next_float_long_def add_trx_def add_out_def
  insert_value_def insert_pointer_def insert_object_def dsp_warn_def

section \<open>Registers\<close>

datatype bank = Pointer_int | Float_long

text \<open>What a transfer carries: the bank and the number of the register, and the argument.\<close>

definition carries :: "stmt \<Rightarrow> (bank \<times> int \<times> arg) option" where
  "carries s =
    (case s of
       Call_stmt c \<Rightarrow>
         (case (callee c, args c) of
            (Some (Builtin b), [Int_arg r, a]) \<Rightarrow>
              if b = BUILT_IN_DSP_PARM_INT then Some (Pointer_int, r, a)
              else if b \<in> {BUILT_IN_DSP_PARM_LONG, BUILT_IN_DSP_PARM_FLOAT, BUILT_IN_DSP_PARM_CFLOAT,
                BUILT_IN_DSP_PARM_VFLOAT, BUILT_IN_DSP_PARM_CLONG, BUILT_IN_DSP_PARM_VLONG} then Some (Float_long, r, a)
              else None
          | (Some (Builtin b), [Int_arg r, f, a]) \<Rightarrow>
              if b \<in> {BUILT_IN_DSP_POINTER_INT, BUILT_IN_DSP_POINTER_FLOAT, BUILT_IN_DSP_POINTER_DWORD}
              then Some (Pointer_int, r, a) else None
          | (Some (Builtin b), [Int_arg r, f, a, n]) \<Rightarrow>
              if b \<in> {BUILT_IN_DSP_PARM_WRITE_INT, BUILT_IN_DSP_PARM_WRITE_LONG, BUILT_IN_DSP_PARM_WRITE_FLOAT,
                BUILT_IN_DSP_PARM_WRITE_CFLOAT, BUILT_IN_DSP_PARM_WRITE_VFLOAT, BUILT_IN_DSP_PARM_WRITE_CLONG,
                BUILT_IN_DSP_PARM_WRITE_VLONG} then Some (Pointer_int, r, a) else None
          | _ \<Rightarrow> None)
     | _ \<Rightarrow> None)"

lemma carries_build [simp]:
  "carries (build_call_expr b [Int_arg r, a]) =
    (if b = BUILT_IN_DSP_PARM_INT then Some (Pointer_int, r, a)
     else if b \<in> {BUILT_IN_DSP_PARM_LONG, BUILT_IN_DSP_PARM_FLOAT, BUILT_IN_DSP_PARM_CFLOAT,
       BUILT_IN_DSP_PARM_VFLOAT, BUILT_IN_DSP_PARM_CLONG, BUILT_IN_DSP_PARM_VLONG} then Some (Float_long, r, a)
     else None)"
  "carries (build_call_expr b [Int_arg r, f, a]) =
    (if b \<in> {BUILT_IN_DSP_POINTER_INT, BUILT_IN_DSP_POINTER_FLOAT, BUILT_IN_DSP_POINTER_DWORD}
     then Some (Pointer_int, r, a) else None)"
  "carries (build_call_expr b [Int_arg r, f, a, n]) =
    (if b \<in> {BUILT_IN_DSP_PARM_WRITE_INT, BUILT_IN_DSP_PARM_WRITE_LONG, BUILT_IN_DSP_PARM_WRITE_FLOAT,
       BUILT_IN_DSP_PARM_WRITE_CFLOAT, BUILT_IN_DSP_PARM_WRITE_VFLOAT, BUILT_IN_DSP_PARM_WRITE_CLONG,
       BUILT_IN_DSP_PARM_WRITE_VLONG} then Some (Pointer_int, r, a) else None)"
  by (simp_all add: carries_def build_call_expr_def)

definition dsp_bank :: "dsp_parm_type \<Rightarrow> bank" where
  "dsp_bank typ =
    (if typ \<in> {DSP_PARM_LONG, DSP_PARM_FLOAT, DSP_PARM_CFLOAT, DSP_PARM_VFLOAT, DSP_PARM_CLONG, DSP_PARM_VLONG}
     then Float_long else Pointer_int)"

definition advance :: "bank \<Rightarrow> dsp_state \<Rightarrow> int" where
  "advance bk st = (case bk of Pointer_int \<Rightarrow> pointer_int_arg_advance st | Float_long \<Rightarrow> float_long_arg_advance st)"

definition width :: "bank \<Rightarrow> int" where
  "width bk = (case bk of Pointer_int \<Rightarrow> 1 | Float_long \<Rightarrow> 2)"

lemma all_banks: "(\<forall>bk. P bk) \<longleftrightarrow> P Pointer_int \<and> P Float_long"
  by (metis bank.exhaust)

section \<open>Each argument\<close>

text \<open>The pointers and integers that were passed.\<close>

definition pointers :: "dsp_state \<Rightarrow> nat" where
  "pointers st = pointer_op st + int_pointer st"

definition passes :: "dsp_parm_type \<Rightarrow> arg \<Rightarrow> stmt list \<Rightarrow> dsp_state \<Rightarrow> dsp_state \<Rightarrow> bool" where
  "passes typ a ms st st' \<longleftrightarrow>
    kept st st'
    \<and> map carries ms =
        (if typ = DSP_ALLOCATE_POINTER then []
         else [Some (dsp_bank typ, advance (dsp_bank typ) st, if typ = DSP_INTERNAL_POINTER then magic_add a else a)])
    \<and> (\<forall>bk. advance bk st' = advance bk st + (if bk = dsp_bank typ then width bk else 0))
    \<and> pointers st' = pointers st + (if typ \<noteq> DSP_ALLOCATE_POINTER \<and> dsp_bank typ = Pointer_int then 1 else 0)"

text \<open>One transfer, into the next register of its bank. For \<open>DSP_ALLOCATE_POINTER\<close> the register is counted, but
  there is no transfer.\<close>

lemma insert_passes:
  assumes "insert_diopsis_api call pointer parm p len IO_PROLOGUE is_const is_wo st = (ms, st')"
  shows "passes p (args call ! parm) ms st st'"
  using assms
  by (cases p)
    (auto simp: insert_diopsis_api_def Let_def dsp_ops kept_def dsp_bank_def advance_def width_def passes_def all_banks
      pointers_def)

lemma passes_warn [simp]: "passes typ a ms (dsp_warn w st) st' \<longleftrightarrow> passes typ a ms st st'"
  by (simp add: passes_def kept_def dsp_warn_def advance_def pointers_def split: bank.split)

text \<open>An object in the memory of the processor is passed by the number of its place there. An object that the function
  only writes, outside that memory, is not passed at all.\<close>

definition in_dsp_memory :: "arg \<Rightarrow> bool" where
  "in_dsp_memory a \<longleftrightarrow>
    (case a of
       Addr_expr t opnd \<Rightarrow>
         (case lookup_attribute ''section'' (op_attributes opnd) of
            Some (attr # _) \<Rightarrow> strstr (snd attr) ''dsp_''
          | _ \<Rightarrow> False)
     | _ \<Rightarrow> False)"

definition only_written :: "parm_masks \<Rightarrow> nat \<Rightarrow> arg \<Rightarrow> bool" where
  "only_written masks k a \<longleftrightarrow>
    (case a of
       Addr_expr t opnd \<Rightarrow>
         \<not> in_dsp_memory a \<and> bit (write_only_parm masks) k \<and> \<not> bit (read_only_parm masks) k
     | _ \<Rightarrow> False)"

text \<open>The bank of an argument, by its type and whether the parameter is long.\<close>

definition type_bank :: "bool \<Rightarrow> ty \<Rightarrow> bank" where
  "type_bank is_long t =
    (case type_code t of
       INTEGER_CODE \<Rightarrow> if is_long then Float_long else Pointer_int
     | POINTER_CODE \<Rightarrow> Pointer_int
     | _ \<Rightarrow> Float_long)"

definition arg_bank :: "parm_masks \<Rightarrow> nat \<Rightarrow> arg \<Rightarrow> bank" where
  "arg_bank masks k a =
    (let is_long = bit (parm_long_mask masks) k
     in case a of
          Addr_expr t opnd \<Rightarrow> Pointer_int
        | Var_arg t n \<Rightarrow> type_bank is_long t
        | Parm_arg t n \<Rightarrow> type_bank is_long t
        | Ssa_arg t n \<Rightarrow> type_bank is_long t
        | Int_arg n \<Rightarrow> if is_long then Float_long else Pointer_int
        | _ \<Rightarrow> Float_long)"

definition passed_as :: "parm_masks \<Rightarrow> nat \<Rightarrow> arg \<Rightarrow> dsp_parm_type \<Rightarrow> bool" where
  "passed_as masks k a typ \<longleftrightarrow>
    (typ = DSP_ALLOCATE_POINTER \<longleftrightarrow> only_written masks k a) \<and> (typ = DSP_INTERNAL_POINTER \<longleftrightarrow> in_dsp_memory a)
    \<and> dsp_bank typ = arg_bank masks k a"

lemma object_type_plain:
  "object_type k t = Inr p \<Longrightarrow> p \<noteq> DSP_ALLOCATE_POINTER \<and> p \<noteq> DSP_INTERNAL_POINTER \<and> dsp_bank p = Pointer_int"
  by (auto simp: object_type_def dsp_bank_def split: type_code.splits option.splits list.splits if_splits)

lemma expand_object_passes:
  assumes "expand_object call k t opnd IO_PROLOGUE (bit (read_only_parm masks) k) (bit (write_only_parm masks) k) st = Inr (ms, st')"
    "args call ! k = Addr_expr t opnd"
  shows "\<exists>typ. passed_as masks k (Addr_expr t opnd) typ \<and> passes typ (Addr_expr t opnd) ms st st'"
proof -
  let ?a = "Addr_expr t opnd"
  obtain attr where attr: "lookup_attribute ''section'' (op_attributes opnd) = Some attr"
    using assms(1) by (auto simp: expand_object_def split: option.splits)
  have mem: "in_dsp_memory ?a \<longleftrightarrow> attr \<noteq> [] \<and> strstr (snd (hd attr)) ''dsp_''"
    by (cases attr) (simp_all add: in_dsp_memory_def attr)
  show ?thesis
  proof (cases "in_dsp_memory ?a")
    case True
    then have "insert_diopsis_api call None k DSP_INTERNAL_POINTER 0 IO_PROLOGUE (bit (read_only_parm masks) k)
        (bit (write_only_parm masks) k) st = (ms, st')"
      using assms(1) attr mem by (simp add: expand_object_def)
    from insert_passes [OF this] True assms(2) show ?thesis
      by (auto simp: passed_as_def only_written_def arg_bank_def dsp_bank_def intro!: exI [of _ DSP_INTERNAL_POINTER])
  next
    case False
    with assms(1) attr mem obtain inner p len where
      p: "object_type k inner = Inr p" and
      run: "insert_diopsis_api call (Some (operand_ref opnd)) k (if only_written masks k ?a then DSP_ALLOCATE_POINTER else p)
        len IO_PROLOGUE (bit (read_only_parm masks) k) (bit (write_only_parm masks) k) st = (ms, st')"
      by (auto simp: expand_object_def only_written_def Let_def split: option.splits sum.splits if_splits)
    from insert_passes [OF run] False assms(2) object_type_plain [OF p] show ?thesis
      by (auto simp: passed_as_def arg_bank_def dsp_bank_def intro!: exI [of _ "if only_written masks k ?a then DSP_ALLOCATE_POINTER else p"] split: if_splits)
  qed
qed

lemma passed_plain:
  "\<forall>t opnd. a \<noteq> Addr_expr t opnd \<Longrightarrow> passed_as masks k a p \<longleftrightarrow>
    p \<noteq> DSP_ALLOCATE_POINTER \<and> p \<noteq> DSP_INTERNAL_POINTER \<and> dsp_bank p = arg_bank masks k a"
  by (cases a) (auto simp: passed_as_def only_written_def in_dsp_memory_def)

definition plainly_passed :: "bank \<Rightarrow> arg \<Rightarrow> stmt list \<Rightarrow> dsp_state \<Rightarrow> dsp_state \<Rightarrow> bool" where
  "plainly_passed bk a ms st st' \<longleftrightarrow>
    (\<exists>p. p \<noteq> DSP_ALLOCATE_POINTER \<and> p \<noteq> DSP_INTERNAL_POINTER \<and> dsp_bank p = bk \<and> passes p a ms st st')"

lemma insert_plain:
  assumes "insert_diopsis_api call pointer k p len IO_PROLOGUE c w st = (ms, st')"
    "p \<noteq> DSP_ALLOCATE_POINTER" "p \<noteq> DSP_INTERNAL_POINTER" "args call ! k = a"
  shows "plainly_passed (dsp_bank p) a ms st st'"
  using insert_passes [OF assms(1)] assms(2-4) unfolding plainly_passed_def by blast

lemma plainly_warn [simp]: "plainly_passed bk a ms (dsp_warn w st) st' \<longleftrightarrow> plainly_passed bk a ms st st'"
  by (simp add: plainly_passed_def)

lemma dsp_banks [simp]:
  "dsp_bank DSP_PARM_INT = Pointer_int" "dsp_bank DSP_PARM_LONG = Float_long" "dsp_bank DSP_PARM_FLOAT = Float_long"
  "dsp_bank DSP_PARM_CFLOAT = Float_long" "dsp_bank DSP_PARM_VFLOAT = Float_long" "dsp_bank DSP_PARM_CLONG = Float_long"
  "dsp_bank DSP_PARM_VLONG = Float_long" "dsp_bank DSP_POINTER_INT = Pointer_int" "dsp_bank DSP_POINTER_FLOAT = Pointer_int"
  "dsp_bank DSP_POINTER_DWORD = Pointer_int" "dsp_bank DSP_PARM_P_INT = Pointer_int" "dsp_bank DSP_PARM_P_FLOAT = Pointer_int"
  by (simp_all add: dsp_bank_def)

lemma expand_traced_passes:
  assumes "expand_traced call w k n p it IO_PROLOGUE c wo st = Inr (ms, st')"
    "p = DSP_POINTER_FLOAT \<or> p = DSP_POINTER_INT" "args call ! k = a"
  shows "plainly_passed Pointer_int a ms st st'"
proof -
  from assms(1) obtain len v where "trace_pointer n it = Inr (len, v)"
    and r: "insert_diopsis_api call v k (if p = DSP_POINTER_FLOAT then DSP_PARM_P_FLOAT else DSP_PARM_P_INT) len
          IO_PROLOGUE c wo st = (ms, st')
      \<or> insert_diopsis_api call (Some (Declaration n)) k p 0 IO_PROLOGUE c wo (dsp_warn w st) = (ms, st')"
    by (auto simp: expand_traced_def split: sum.splits if_splits)
  from r show ?thesis
    using assms(2,3) by (auto dest: insert_plain)
qed

lemma expand_pointer_passes:
  assumes "expand_pointer decl call k t n it IO_PROLOGUE c w st = Inr (ms, st')" "args call ! k = a"
  shows "plainly_passed Pointer_int a ms st st'"
  using assms
  by (auto simp: expand_pointer_def dest: expand_traced_passes insert_plain split: option.splits if_splits)

lemma expand_scalar_passes:
  assumes "expand_scalar decl call k is_long t n it IO_PROLOGUE c w st = Inr (ms, st')" "args call ! k = a"
  shows "plainly_passed (type_bank is_long t) a ms st st'"
  using assms
  by (auto simp: expand_scalar_def type_bank_def dest: expand_pointer_passes insert_plain
      split: type_code.splits option.splits if_splits)

lemma expand_parameter_passes:
  assumes "dsp_expand_parameter decl call masks IO_PROLOGUE k a it st = Inr (ms, st')" "args call ! k = a"
  shows "\<exists>p. passed_as masks k a p \<and> passes p a ms st st'"
proof (cases "\<exists>t opnd. a = Addr_expr t opnd")
  case True
  then obtain t opnd where "a = Addr_expr t opnd" by blast
  with assms expand_object_passes [of call k t opnd masks st ms st'] show ?thesis
    by (simp add: dsp_expand_parameter_def Let_def split: if_splits)
next
  case False
  then have "plainly_passed (arg_bank masks k a) a ms st st'"
    using assms
    by (cases a) (auto simp: dsp_expand_parameter_def arg_bank_def Let_def
        dest: expand_scalar_passes insert_plain split: if_splits)
  with False show ?thesis by (auto simp: plainly_passed_def passed_plain)
qed

section \<open>All arguments\<close>

text \<open>How many of the first \<open>n\<close> arguments go to a bank, and what is passed for the argument \<open>k\<close>: the register behind
  those of the earlier arguments of its bank, and the value.\<close>

definition used_before :: "parm_masks \<Rightarrow> bank \<Rightarrow> arg list \<Rightarrow> nat \<Rightarrow> nat" where
  "used_before masks bk as n = length (filter (\<lambda>j. arg_bank masks j (as ! j) = bk) [0..<n])"

definition passed_value :: "arg \<Rightarrow> arg" where
  "passed_value a = (if in_dsp_memory a then magic_add a else a)"

definition register_of :: "parm_masks \<Rightarrow> (bank \<Rightarrow> int) \<Rightarrow> arg list \<Rightarrow> nat \<Rightarrow> bank \<times> int \<times> arg" where
  "register_of masks base as k =
    (let bk = arg_bank masks k (as ! k)
     in (bk, base bk + width bk * int (used_before masks bk as k), passed_value (as ! k)))"

lemma expand_from_registers:
  assumes "dsp_expand_from decl call masks IO_PROLOGUE k as it st = Inr (ms, st')" "drop k (args call) = as"
    "k \<le> length (args call)" "\<forall>bk. advance bk st = base bk + width bk * int (used_before masks bk (args call) k)"
  shows "kept st st' \<and> map carries ms = map (\<lambda>k. Some (register_of masks base (args call) k))
      (filter (\<lambda>k. \<not> only_written masks k (args call ! k)) [k..<length (args call)])
    \<and> (\<forall>bk. advance bk st' = base bk + width bk * int (used_before masks bk (args call) (length (args call))))
    \<and> pointers st' = pointers st
        + length (filter (\<lambda>k. \<not> only_written masks k (args call ! k) \<and> arg_bank masks k (args call ! k) = Pointer_int)
            [k..<length (args call)])"
  using assms
proof (induction as arbitrary: k it st ms)
  case Nil
  then show ?case by simp
next
  case (Cons a as)
  from Cons.prems(1) obtain ms1 st1 ms2 where
    r: "dsp_expand_parameter decl call masks IO_PROLOGUE k a it st = Inr (ms1, st1)"
      "dsp_expand_from decl call masks IO_PROLOGUE (k + 1) as (cursor_link_before ms1 it) st1 = Inr (ms2, st')"
      "ms = ms1 @ ms2" by (auto split: sum.splits)
  have k: "k < length (args call)" "args call ! k = a" "drop (k + 1) (args call) = as"
    using Cons.prems(2,3) by (cases "k < length (args call)"; simp add: Cons_nth_drop_Suc [symmetric])+
  from expand_parameter_passes [OF r(1) k(2)] obtain p where
    p: "passed_as masks k a p" "passes p a ms1 st st1" by blast
  have next_k: "used_before masks bk (args call) (k + 1)
      = used_before masks bk (args call) k + (if bk = dsp_bank p then 1 else 0)" for bk
    using p(1) k by (auto simp: used_before_def passed_as_def)
  have adv: "\<forall>bk. advance bk st1 = base bk + width bk * int (used_before masks bk (args call) (k + 1))"
    using p(2) Cons.prems(4) unfolding next_k passes_def by (auto simp: algebra_simps)
  have "map carries ms1 = (if only_written masks k a then [] else [Some (register_of masks base (args call) k)])"
    using p k Cons.prems(4) by (auto simp: passes_def passed_as_def register_of_def passed_value_def Let_def)
  moreover have "[k..<length (args call)] = k # [k + 1..<length (args call)]" using k(1) by (simp add: upt_conv_Cons)
  moreover have "pointers st1 = pointers st
      + (if \<not> only_written masks k a \<and> arg_bank masks k a = Pointer_int then 1 else 0)"
    using p by (simp add: passes_def passed_as_def)
  moreover note Cons.IH [OF r(2) k(3) _ adv]
  ultimately show ?case
    using r(3) k kept_trans [of st st1 st'] p(2) [unfolded passes_def, THEN conjunct1] by simp
qed

end
