(* ===== verification/DiopsisRpc.thy ===== *)
theory DiopsisRpc
  imports DiopsisSpec
begin

text \<open>
  What a remote call becomes, and the numbers of the remote calls of a program: each call that is waited for is
  opened and closed with a number of its own.
\<close>

section \<open>The statements of a remote call\<close>

definition reset_dsp :: "dsp_state \<Rightarrow> dsp_state" where
  "reset_dsp st =
    st\<lparr>pointer_int_arg_advance := 0, float_long_arg_advance := 0, dsp_internal_memory_address := 0, pointer_op := 0,
      int_pointer := 0\<rparr>"

definition rpc_stmt :: "bool \<Rightarrow> dsp_state \<Rightarrow> stmt" where
  "rpc_stmt nowait st = build_call_expr BUILT_IN_HARTES_RPC [Int_arg (or (hartes_rpc_uid st) (func_flags nowait)), Int_arg DSPDEV]"

definition rpc_end_stmt :: "dsp_state \<Rightarrow> stmt" where
  "rpc_end_stmt st = build_call_expr BUILT_IN_HARTES_RPC_END [Int_arg (hartes_rpc_uid st), Int_arg DSPDEV]"

definition exec_stmt :: "bool \<Rightarrow> fndecl \<Rightarrow> stmt" where
  "exec_stmt nowait decl =
    build_call_expr (if nowait then BUILT_IN_DSP_EXEC_NOWAIT else BUILT_IN_DSP_EXEC)
      [build_fold_addr_expr (dsp_addr (decl_name decl))]"

definition dsp_return_var :: "call_expr \<Rightarrow> dsp_state \<Rightarrow> arg" where
  "dsp_return_var call st = Var_arg (call_type call) (''__dsp_return.'' @ digits 10 (dsp_tmp_var_id st))"

text \<open>What follows the wait: the result is fetched into a variable, which is then assigned.\<close>

definition fetched :: "stmt \<Rightarrow> call_expr \<Rightarrow> builtin option \<Rightarrow> dsp_state \<Rightarrow> stmt list" where
  "fetched s call retb st =
    (case (s, retb) of
       (Modify_stmt lhs r loc, Some b) \<Rightarrow>
         [build_call_expr b [build_fold_addr_expr (dsp_return_var call st)],
          Modify_stmt lhs (Value_rhs (dsp_return_var call st)) loc]
     | _ \<Rightarrow> [])"

definition remote_tail ::
  "dsp_env \<Rightarrow> stmt \<Rightarrow> call_expr \<Rightarrow> bool \<Rightarrow> builtin option \<Rightarrow> dsp_state \<Rightarrow> stmt list" where
  "remote_tail env s call nowait retb st =
    (if nowait then []
     else rpc_end_stmt st # dsp_stats_bytes env HARTES_STATS_PARMOUT (out_bytes st) @ fetched s call retb st)"

definition remote_sequence ::
  "dsp_env \<Rightarrow> stmt list \<Rightarrow> stmt list \<Rightarrow> stmt \<Rightarrow> call_expr \<Rightarrow> fndecl \<Rightarrow> bool \<Rightarrow> dsp_state \<Rightarrow> stmt list \<Rightarrow> dsp_state \<Rightarrow> bool"
where
  "remote_sequence env xs ys s call decl nowait st mid st' \<longleftrightarrow>
    (\<exists>retb st1 masks file begins ins st2.
       return_builtin call decl (reset_dsp st) = Inr (retb, st1)
       \<and> parm_masks_of decl = Some masks
       \<and> microblaze_include_dspfunc (decl_name decl) (dsp_loader_file st1) = Some file
       \<and> (if dspstat env then \<exists>file_name lineno. begins = [dsp_stats_begin (decl_name decl) file_name lineno (func_flags nowait)]
          else begins = [])
       \<and> dsp_expand_parameters decl call (xs @ begins @ [rpc_stmt nowait st1], s # ys) masks IO_PROLOGUE
           (st1\<lparr>dsp_loader_file := file\<rparr>) = Inr (ins, st2)
       \<and> mid = begins @ rpc_stmt nowait st1 # ins
           @ (if pointer_op st2 \<noteq> 0 \<or> int_pointer st2 \<noteq> 0 then [build_call_expr BUILT_IN_DSP_PRE_EXEC []] else [])
           @ dsp_stats_bytes env HARTES_STATS_PARMIN (dsp_trx_bytes st2)
           @ exec_stmt nowait decl # (if dspstat env then [build_call_expr HARTES_STATS_EXEC []] else [])
           @ remote_tail env s call nowait retb st2
       \<and> (nowait \<longrightarrow> s = Call_stmt call) \<and> ((\<exists>lhs r loc. s = Modify_stmt lhs r loc) \<longrightarrow> retb \<noteq> None)
       \<and> st' = (if nowait then st2
                else st2\<lparr>hartes_rpc_uid := hartes_rpc_uid st2 + 1,
                       dsp_tmp_var_id := (if s = Call_stmt call then 0 else 1) + dsp_tmp_var_id st2\<rparr>))"

text \<open>The iterator \<open>z\<close> stands behind \<open>mid\<close>, which is in the place of a statement, and in front of
  \<open>behind\<close>.\<close>

definition moved :: "stmt list \<Rightarrow> stmt list \<Rightarrow> stmt cursor \<Rightarrow> stmt list \<Rightarrow> stmt list \<Rightarrow> bool" where
  "moved xs ys z mid behind \<longleftrightarrow>
    (case cursor_next z of
       None \<Rightarrow> behind @ ys = [] \<and> cursor_list z = xs @ mid
     | Some z' \<Rightarrow> z' = (xs @ mid, behind @ ys))"

lemma moved_at [simp]: "moved xs ys (xs @ new, t # ys) (new @ [t]) []" "moved xs ys (xs, t # ys) [t] []"
  by (simp_all add: moved_def)

lemma remove_call_moved:
  assumes "remove_call (xs @ new, s # ys) = Some z" "new \<noteq> []"
  shows "moved xs ys z new []"
  using assms by (cases ys; cases new rule: rev_cases) (auto simp: remove_call_def moved_def simp flip: append_assoc)

lemma dsp_start_is:
  assumes "dsp_start env (xs, s # ys) s call decl nowait masks st = Inr (new, st')"
  obtains begins ins where
    "if dspstat env then \<exists>file_name lineno. begins = [dsp_stats_begin (decl_name decl) file_name lineno (func_flags nowait)]
     else begins = []"
    "dsp_expand_parameters decl call (xs @ begins @ [rpc_stmt nowait st], s # ys) masks IO_PROLOGUE st = Inr (ins, st')"
    "new = begins @ rpc_stmt nowait st # ins
      @ (if pointer_op st' \<noteq> 0 \<or> int_pointer st' \<noteq> 0 then [build_call_expr BUILT_IN_DSP_PRE_EXEC []] else [])
      @ dsp_stats_bytes env HARTES_STATS_PARMIN (dsp_trx_bytes st')
      @ exec_stmt nowait decl # (if dspstat env then [build_call_expr HARTES_STATS_EXEC []] else [])"
proof -
  have dev: "or DSPDEV (func_flags nowait) = func_flags nowait" by (simp add: DSPDEV_def)
  from assms obtain begins ins where r: "(if dspstat env then
             (case stmt_location s of
                (None, lineno) \<Rightarrow> None
              | (Some file_name, lineno) \<Rightarrow>
                  Some [dsp_stats_begin (decl_name decl) file_name lineno (or DSPDEV (func_flags nowait))])
           else Some []) = Some begins"
      "dsp_expand_parameters decl call (cursor_link_before (begins @ [rpc_stmt nowait st]) (xs, s # ys)) masks IO_PROLOGUE st
        = Inr (ins, st')"
      "new = begins @ [rpc_stmt nowait st] @ ins
        @ (if pointer_op st' \<noteq> 0 \<or> int_pointer st' \<noteq> 0 then [build_call_expr BUILT_IN_DSP_PRE_EXEC []] else [])
        @ dsp_stats_bytes env HARTES_STATS_PARMIN (dsp_trx_bytes st')
        @ [exec_stmt nowait decl] @ (if dspstat env then [build_call_expr HARTES_STATS_EXEC []] else [])"
    unfolding dsp_start_def rpc_stmt_def [symmetric] exec_stmt_def [symmetric] Let_def
    by (auto split: option.splits sum.splits prod.splits simp del: append_assoc)
  from r(1) have "if dspstat env
      then \<exists>file_name lineno. begins = [dsp_stats_begin (decl_name decl) file_name lineno (func_flags nowait)] else begins = []"
    by (auto simp: dev split: prod.splits option.splits if_splits)
  with r(2,3) that show thesis by (simp add: cursor_link_before_def)
qed

lemma dsp_finish_is:
  assumes run: "dsp_finish env (xs @ new, s # ys) s call nowait retb st = Inr (z, st')"
    and call: "get_call_expr_in s = Some call" and new: "new \<noteq> []"
  shows "moved xs ys z (new @ remote_tail env s call nowait retb st) []
    \<and> (nowait \<longrightarrow> s = Call_stmt call) \<and> ((\<exists>lhs r loc. s = Modify_stmt lhs r loc) \<longrightarrow> retb \<noteq> None)
    \<and> st' = (if nowait then st
             else st\<lparr>hartes_rpc_uid := hartes_rpc_uid st + 1,
                    dsp_tmp_var_id := (if s = Call_stmt call then 0 else 1) + dsp_tmp_var_id st\<rparr>)"
proof (cases s)
  case (Call_stmt c)
  show ?thesis
  proof (cases nowait)
    case True
    with run Call_stmt call remove_call_moved [OF _ new] show ?thesis
      by (auto simp: dsp_finish_def remote_tail_def split: option.splits)
  next
    case False
    let ?tail = "rpc_end_stmt st # dsp_stats_bytes env HARTES_STATS_PARMOUT (out_bytes st)"
    have "remove_call (xs @ (new @ ?tail), Call_stmt call # ys) = Some z"
      and st': "st' = st\<lparr>hartes_rpc_uid := hartes_rpc_uid st + 1\<rparr>"
      using run Call_stmt call False
      by (auto simp: dsp_finish_def cursor_link_before_def rpc_end_stmt_def Let_def split: option.splits)
    from remove_call_moved [OF this(1)] False Call_stmt call st' show ?thesis
      by (simp add: remote_tail_def fetched_def)
  qed
next
  case (Modify_stmt lhs r loc)
  with run call show ?thesis
    by (auto simp: dsp_finish_def cursor_link_before_def dsp_create_tmp_var_def remote_tail_def fetched_def
        dsp_return_var_def rpc_end_stmt_def moved_def Let_def split: option.splits if_splits)
qed (use call in simp_all)

lemma replace_remote_is:
  assumes run: "replace_remote env (xs, s # ys) s call decl nowait st = Inr (z, st')" and call: "get_call_expr_in s = Some call"
  shows "\<exists>mid. moved xs ys z mid [] \<and> remote_sequence env xs ys s call decl nowait st mid st'"
proof -
  from run obtain retb st1 masks conf new st2 where
    r: "return_builtin call decl (reset_dsp st) = Inr (retb, st1)" "parm_masks_of decl = Some masks"
      "microblaze_include_dspfunc (decl_name decl) (dsp_loader_file st1) = Some conf"
      "dsp_start env (xs, s # ys) s call decl nowait masks (st1\<lparr>dsp_loader_file := conf\<rparr>) = Inr (new, st2)"
      "dsp_finish env (xs @ new, s # ys) s call nowait retb st2 = Inr (z, st')"
    unfolding replace_remote_def reset_dsp_def [symmetric] cursor_link_before_def
    by (auto split: sum.splits option.splits if_splits)
  have rpc: "rpc_stmt nowait (st1\<lparr>dsp_loader_file := conf\<rparr>) = rpc_stmt nowait st1" by (simp add: rpc_stmt_def)
  show ?thesis
  proof (rule dsp_start_is [OF r(4), unfolded rpc], goal_cases)
    case (1 begins ins)
    then have "new \<noteq> []" by simp
    note fin = dsp_finish_is [OF r(5) call this]
    have "remote_sequence env xs ys s call decl nowait st (new @ remote_tail env s call nowait retb st2) st'"
      unfolding remote_sequence_def
      by (rule exI [of _ retb], rule exI [of _ st1], rule exI [of _ masks], rule exI [of _ conf], rule exI [of _ begins],
          rule exI [of _ ins], rule exI [of _ st2]) (use r(1-3) 1 fin in simp)
    with fin show ?case by blast
  qed
qed

section \<open>What becomes of a call\<close>

text \<open>\<open>becomes env xs ys s st mid behind st'\<close>: between \<open>xs\<close> and \<open>ys\<close> the statement \<open>s\<close> is replaced by
  \<open>mid\<close>, which the walk has passed then, and \<open>behind\<close>, which it meets next.\<close>

inductive becomes ::
  "dsp_env \<Rightarrow> stmt list \<Rightarrow> stmt list \<Rightarrow> stmt \<Rightarrow> dsp_state \<Rightarrow> stmt list \<Rightarrow> stmt list \<Rightarrow> dsp_state \<Rightarrow> bool"
  for env xs ys s st
where
  unknown: "get_call_expr_in s = None \<or> callee (the (get_call_expr_in s)) = None \<Longrightarrow> becomes env xs ys s st [s] [] st"
| local: "get_call_expr_in s = Some call \<Longrightarrow> callee call = Some decl
    \<Longrightarrow> dsp_mapping env decl (pragma_on_call_magic st) = Inr None
    \<Longrightarrow> becomes env xs ys s st [s] [] (forget_pragma decl (st\<lparr>pragma_on_call_magic := None\<rparr>))"
| counted: "get_call_expr_in s = Some call \<Longrightarrow> callee call = Some decl
    \<Longrightarrow> dsp_mapping env decl (pragma_on_call_magic st) = Inr None \<Longrightarrow> gppstat env
    \<Longrightarrow> becomes env xs ys s st [dsp_stats_begin (decl_name decl) file_name lineno GPPDEV, s]
          [build_call_expr HARTES_STATS_EXEC []] (forget_pragma decl (st\<lparr>pragma_on_call_magic := None\<rparr>))"
| other: "get_call_expr_in s = Some call \<Longrightarrow> callee call = Some decl
    \<Longrightarrow> dsp_mapping env decl (pragma_on_call_magic st) = Inr (Some (diopsis_id, nowait))
    \<Longrightarrow> dsp_selected env diopsis_id (st\<lparr>pragma_on_call_magic := None\<rparr>) = Inr (False, st')
    \<Longrightarrow> becomes env xs ys s st [s] [] st'"
| remote: "get_call_expr_in s = Some call \<Longrightarrow> callee call = Some decl
    \<Longrightarrow> dsp_mapping env decl (pragma_on_call_magic st) = Inr (Some (diopsis_id, nowait))
    \<Longrightarrow> dsp_selected env diopsis_id (st\<lparr>pragma_on_call_magic := None\<rparr>) = Inr (True, st1)
    \<Longrightarrow> remote_sequence env xs ys s call decl nowait st1 mid st2
    \<Longrightarrow> becomes env xs ys s st mid [] (if nowait then st2 else forget_pragma decl st2)"

lemma gpp_statistics_is:
  assumes "gpp_statistics env (xs, s # ys) s decl p = Some z"
  shows "moved xs ys z [s] [] \<or> gppstat env \<and> (\<exists>file_name lineno.
      moved xs ys z [dsp_stats_begin (decl_name decl) file_name lineno GPPDEV, s] [build_call_expr HARTES_STATS_EXEC []])"
  using assms
  by (simp add: gpp_statistics_def cursor_link_before_def split: prod.splits option.splits if_splits; auto simp: moved_def; blast)

lemma replace_call_becomes:
  assumes run: "diopsis_replace_call_tree_tsi env (xs, s # ys) st = Inr (z, st')"
  shows "\<exists>mid behind. moved xs ys z mid behind \<and> becomes env xs ys s st mid behind st'"
proof (cases "get_call_expr_in s = None \<or> callee (the (get_call_expr_in s)) = None")
  case True
  then have "z = (xs, s # ys)" "st' = st"
    using run by (auto simp: diopsis_replace_call_tree_tsi_def split: option.splits)
  with unknown [OF True, of env xs ys st] moved_at(2) show ?thesis by blast
next
  case False
  then obtain call decl where c: "get_call_expr_in s = Some call" "callee call = Some decl" by auto
  obtain mapping where m: "dsp_mapping env decl (pragma_on_call_magic st) = Inr mapping"
    using run c by (auto simp: diopsis_replace_call_tree_tsi_def split: sum.splits)
  show ?thesis
  proof (cases mapping)
    case None
    with m have m: "dsp_mapping env decl (pragma_on_call_magic st) = Inr None" by simp
    from run c m have g: "gpp_statistics env (xs, s # ys) s decl (pragma_on_call st) = Some z"
      and st': "st' = forget_pragma decl (st\<lparr>pragma_on_call_magic := None\<rparr>)"
      by (auto simp: diopsis_replace_call_tree_tsi_def Let_def split: option.splits)
    from gpp_statistics_is [OF g] show ?thesis
      using local [OF c m, of xs ys] counted [OF c m, of xs ys] unfolding st' by blast
  next
    case (Some idn)
    obtain i nowait where m: "dsp_mapping env decl (pragma_on_call_magic st) = Inr (Some (i, nowait))"
      using m Some by (cases idn) auto
    obtain sel st1 where sel: "dsp_selected env i (st\<lparr>pragma_on_call_magic := None\<rparr>) = Inr (sel, st1)"
      using run c m by (auto simp: diopsis_replace_call_tree_tsi_def Let_def split: sum.splits)
    show ?thesis
    proof (cases sel)
      case False
      with run c m sel have "z = (xs, s # ys)" "st' = st1" by (auto simp: diopsis_replace_call_tree_tsi_def Let_def)
      moreover have "becomes env xs ys s st [s] [] st1" using other [OF c m, of st1 xs ys] sel False by simp
      ultimately show ?thesis using moved_at(2) by blast
    next
      case True
      with run c m sel obtain st2 where r: "replace_remote env (xs, s # ys) s call decl nowait st1 = Inr (z, st2)"
        and st': "st' = (if nowait then st2 else forget_pragma decl st2)"
        by (auto simp: diopsis_replace_call_tree_tsi_def Let_def split: sum.splits)
      from replace_remote_is [OF r c(1)] obtain mid where
        mid: "moved xs ys z mid []" "remote_sequence env xs ys s call decl nowait st1 mid st2" by blast
      have "becomes env xs ys s st mid [] st'" unfolding st' using remote [OF c m _ mid(2)] sel True by simp
      with mid(1) show ?thesis by blast
    qed
  qed
qed

section \<open>The numbers of remote calls\<close>

text \<open>The calls of the remote-procedure routines in a program, in the order of its text.\<close>

datatype rpc_event = Rpc_begin int | Rpc_end int

definition call_events :: "stmt \<Rightarrow> rpc_event list" where
  "call_events s =
    (case get_call_expr_in s of
       None \<Rightarrow> []
     | Some c \<Rightarrow>
         (case (callee c, args c) of
            (Some (Builtin b), Int_arg i # _) \<Rightarrow>
              if b = BUILT_IN_HARTES_RPC then [Rpc_begin i]
              else if b = BUILT_IN_HARTES_RPC_END then [Rpc_end i] else []
          | _ \<Rightarrow> []))"

fun rpc_events :: "stmt \<Rightarrow> rpc_event list" where
  "rpc_events (Try_stmt a b) = rpc_events a @ rpc_events b"
| "rpc_events (Catch_stmt a) = rpc_events a"
| "rpc_events (Bind_expr a) = rpc_events a"
| "rpc_events (Stmt_list ss) = concat (map rpc_events ss)"
| "rpc_events (Omp_parallel a) = rpc_events a"
| "rpc_events (Omp_sections a) = rpc_events a"
| "rpc_events (Omp_section a) = rpc_events a"
| "rpc_events (Cond_expr a b) = rpc_events a @ rpc_events b"
| "rpc_events s = call_events s"

text \<open>From the number \<open>u\<close> on: a call that is waited for is opened and closed with the number, which is used up then; a call
  that is not waited for is opened with the number and a mark.\<close>

inductive sessions :: "int \<Rightarrow> rpc_event list \<Rightarrow> int \<Rightarrow> bool" where
  none: "sessions u [] u"
| waited: "sessions (u + 1) es u' \<Longrightarrow> sessions u (Rpc_begin u # Rpc_end u # es) u'"
| not_waited: "sessions u es u' \<Longrightarrow> sessions u (Rpc_begin (or u NOWAIT_FUNC) # es) u'"

lemma sessions_append: "sessions u es u' \<Longrightarrow> sessions u' fs u'' \<Longrightarrow> sessions u (es @ fs) u''"
  by (induction rule: sessions.induct) (auto intro: sessions.intros)

fun closed :: "rpc_event list \<Rightarrow> int list" where
  "closed [] = []"
| "closed (Rpc_begin i # es) = closed es"
| "closed (Rpc_end i # es) = i # closed es"

lemma sessions_closed: "sessions u es u' \<Longrightarrow> u \<le> u' \<and> closed es = [u..u' - 1]"
proof (induction rule: sessions.induct)
  case (waited u es u')
  then show ?case by (simp add: upto_rec1)
qed simp_all

lemma sessions_opened:
  "sessions u es u' \<Longrightarrow> es = fs @ Rpc_begin i # gs \<Longrightarrow>
    (\<exists>hs. gs = Rpc_end i # hs) \<or> (\<exists>v. u \<le> v \<and> v \<le> u' \<and> i = or v NOWAIT_FUNC)"
proof (induction arbitrary: fs rule: sessions.induct)
  case (waited u es u')
  show ?case
  proof (cases "length fs < 2")
    case True
    with waited.prems show ?thesis by (cases fs; cases "tl fs") auto
  next
    case False
    then obtain a b fs' where "fs = a # b # fs'" by (cases fs; cases "tl fs") auto
    with waited.prems have "es = fs' @ Rpc_begin i # gs" by simp
    from waited.IH [OF this] show ?thesis by fastforce
  qed
next
  case (not_waited u es u')
  then show ?case by (cases fs) (auto dest: sessions_closed)
qed simp

definition list_events :: "stmt list \<Rightarrow> rpc_event list" where
  "list_events ss = concat (map rpc_events ss)"

lemma list_events_simps [simp]:
  "list_events [] = []" "list_events (s # ss) = rpc_events s @ list_events ss"
  "list_events (ss @ ts) = list_events ss @ list_events ts"
  by (simp_all add: list_events_def)

lemma build_events [simp]:
  "rpc_events (build_call_expr b as) =
    (case as of
       Int_arg i # _ \<Rightarrow>
         if b = BUILT_IN_HARTES_RPC then [Rpc_begin i] else if b = BUILT_IN_HARTES_RPC_END then [Rpc_end i] else []
     | _ \<Rightarrow> [])"
  by (simp add: build_call_expr_def call_events_def)

lemma carries_events: "carries m \<noteq> None \<Longrightarrow> rpc_events m = []"
  by (auto simp: carries_def call_events_def split: stmt.splits option.splits fndecl.splits list.splits arg.splits if_splits)

lemma transfers_carry:
  assumes "dsp_expand_parameters decl call it masks IO_PROLOGUE st = Inr (ms, st')"
  shows "\<forall>m\<in>set ms. carries m \<noteq> None" "kept st st'"
proof -
  let ?st = "st\<lparr>dsp_trx_bytes := 0, out_bytes := 0\<rparr>"
  have "\<forall>bk. advance bk ?st = advance bk st + width bk * int (used_before masks bk (args call) 0)"
    by (auto simp: advance_def used_before_def split: bank.split)
  from expand_from_registers [OF assms [unfolded dsp_expand_parameters_def] _ _ this]
  have r: "kept ?st st'" "map carries ms = map (\<lambda>k. Some (register_of masks (\<lambda>bk. advance bk st) (args call) k))
      (filter (\<lambda>k. \<not> only_written masks k (args call ! k)) [0..<length (args call)])" by auto
  from r(1) show "kept st st'" by (simp add: kept_def)
  show "\<forall>m\<in>set ms. carries m \<noteq> None"
  proof
    fix m
    assume "m \<in> set ms"
    then have "carries m \<in> set (map carries ms)" by simp
    then show "carries m \<noteq> None" unfolding r(2) by (auto simp del: not_None_eq)
  qed
qed

lemma transfers_events:
  assumes "dsp_expand_parameters decl call it masks IO_PROLOGUE st = Inr (ms, st')"
  shows "list_events ms = []" "kept st st'"
  using transfers_carry [OF assms] carries_events by (auto simp: list_events_def)

lemma return_builtin_kept: "return_builtin call decl st = Inr (b, st') \<Longrightarrow> kept st st'"
  by (auto simp: return_builtin_def dsp_warn_def kept_def Let_def split: type_code.splits option.splits if_splits)

lemma return_builtin_is:
  "return_builtin call decl st = Inr (Some b, st') \<Longrightarrow> b \<noteq> BUILT_IN_HARTES_RPC \<and> b \<noteq> BUILT_IN_HARTES_RPC_END"
  by (auto simp: return_builtin_def Let_def split: type_code.splits option.splits if_splits)

lemma stats_events [simp]:
  "rpc_events (dsp_stats_begin n f l d) = []" "list_events (dsp_stats_bytes env HARTES_STATS_PARMIN k) = []"
  "list_events (dsp_stats_bytes env HARTES_STATS_PARMOUT k) = []"
  by (simp_all add: dsp_stats_begin_def dsp_stats_bytes_def)

lemma remote_sequence_keeps:
  assumes "remote_sequence env xs ys s call decl nowait st mid st'"
  shows "hartes_rpc_uid st' = hartes_rpc_uid st + (if nowait then 0 else 1)
    \<and> dsp_hxml_db st' = dsp_hxml_db st \<and> pragma_on_call_magic st' = pragma_on_call_magic st"
proof -
  from assms obtain retb st1 masks conf begins ins st2 where
    r: "return_builtin call decl (reset_dsp st) = Inr (retb, st1)"
      "dsp_expand_parameters decl call (xs @ begins @ [rpc_stmt nowait st1], s # ys) masks IO_PROLOGUE
           (st1\<lparr>dsp_loader_file := conf\<rparr>) = Inr (ins, st2)"
      "hartes_rpc_uid st' = (if nowait then hartes_rpc_uid st2 else hartes_rpc_uid st2 + 1)"
      "dsp_hxml_db st' = dsp_hxml_db st2" "pragma_on_call_magic st' = pragma_on_call_magic st2"
    unfolding remote_sequence_def by (auto simp del: append_assoc)
  then show ?thesis
    using return_builtin_kept [OF r(1)] transfers_events(2) [OF r(2)] by (simp add: kept_def reset_dsp_def)
qed

lemma remote_sessions:
  assumes "remote_sequence env xs ys s call decl nowait st mid st'"
  shows "sessions (hartes_rpc_uid st) (list_events mid) (hartes_rpc_uid st')"
proof -
  from assms obtain retb st1 masks conf begins ins st2 where
    r: "return_builtin call decl (reset_dsp st) = Inr (retb, st1)"
      "if dspstat env then \<exists>file_name lineno. begins = [dsp_stats_begin (decl_name decl) file_name lineno (func_flags nowait)]
       else begins = []"
      "dsp_expand_parameters decl call (xs @ begins @ [rpc_stmt nowait st1], s # ys) masks IO_PROLOGUE
           (st1\<lparr>dsp_loader_file := conf\<rparr>) = Inr (ins, st2)"
      "mid = begins @ rpc_stmt nowait st1 # ins
           @ (if pointer_op st2 \<noteq> 0 \<or> int_pointer st2 \<noteq> 0 then [build_call_expr BUILT_IN_DSP_PRE_EXEC []] else [])
           @ dsp_stats_bytes env HARTES_STATS_PARMIN (dsp_trx_bytes st2)
           @ exec_stmt nowait decl # (if dspstat env then [build_call_expr HARTES_STATS_EXEC []] else [])
           @ remote_tail env s call nowait retb st2"
      "hartes_rpc_uid st' = (if nowait then hartes_rpc_uid st2 else hartes_rpc_uid st2 + 1)"
    unfolding remote_sequence_def by (auto simp del: append_assoc)
  have u: "hartes_rpc_uid st1 = hartes_rpc_uid st" "hartes_rpc_uid st2 = hartes_rpc_uid st"
    using return_builtin_kept [OF r(1)] transfers_events(2) [OF r(3)] by (simp_all add: kept_def reset_dsp_def)
  have "list_events begins = []" using r(2) by (auto split: if_splits)
  moreover have "list_events (fetched s call retb st2) = []"
    using r(1) return_builtin_is by (auto simp: fetched_def dsp_return_var_def build_fold_addr_expr_def call_events_def
        split: stmt.splits option.splits)
  ultimately have "list_events mid = Rpc_begin (or (hartes_rpc_uid st) (func_flags nowait))
      # (if nowait then [] else [Rpc_end (hartes_rpc_uid st)])"
    using r(4) transfers_events(1) [OF r(3)] u
    by (simp add: rpc_stmt_def exec_stmt_def remote_tail_def rpc_end_stmt_def build_fold_addr_expr_def dsp_addr_def)
  then show ?thesis
    using r(5) u sessions.intros by (cases nowait) (auto simp: func_flags_def intro: sessions.intros)
qed

lemma dsp_selected_kept:
  "dsp_selected env i st = Inr (b, st') \<Longrightarrow>
    hartes_rpc_uid st' = hartes_rpc_uid st \<and> dsp_tmp_var_id st' = dsp_tmp_var_id st"
  by (cases "hxml_read_xml (dsp_configuration_file env) (dsp_hxml_db st)")
    (auto simp: dsp_selected_def split: if_splits sum.splits)

lemma becomes_sessions:
  assumes "becomes env xs ys s st mid behind st'" "rpc_events s = []"
  shows "sessions (hartes_rpc_uid st) (list_events mid) (hartes_rpc_uid st') \<and> list_events behind = []"
  using assms
proof (cases rule: becomes.cases)
  case (remote call decl i nowait st1 st2)
  with remote_sessions [OF remote(7)] dsp_selected_kept [OF remote(6)] show ?thesis
    by (simp add: forget_pragma_def split: if_splits)
next
  case (other call decl i nowait)
  with dsp_selected_kept [OF other(6)] assms(2) show ?thesis by (simp add: sessions.none)
qed (auto simp: forget_pragma_def intro: sessions.none)

end
