(* ===== verification/DiopsisRun.thy ===== *)
theory DiopsisRun
  imports DiopsisRpc
begin

text \<open>
  The walk of \<open>gcc/diopsis.c\<close> as a relation between programs: what each statement of a list is replaced by, without
  iterators. It is followed by what holds of every program the pass has changed.
\<close>

section \<open>The walk as a relation\<close>

text \<open>\<open>walk env s st s' st'\<close> is the walk over one statement; \<open>walks env xs ss st ss' st'\<close> that over the statements \<open>ss\<close>
  of a list behind \<open>xs\<close>, and \<open>walk_sections\<close> that over parallel sections.\<close>

inductive walk :: "dsp_env \<Rightarrow> stmt \<Rightarrow> dsp_state \<Rightarrow> stmt \<Rightarrow> dsp_state \<Rightarrow> bool"
  and walks :: "dsp_env \<Rightarrow> stmt list \<Rightarrow> stmt list \<Rightarrow> dsp_state \<Rightarrow> stmt list \<Rightarrow> dsp_state \<Rightarrow> bool"
  and walk_sections :: "dsp_env \<Rightarrow> stmt list \<Rightarrow> dsp_state \<Rightarrow> stmt list \<Rightarrow> dsp_state \<Rightarrow> bool"
  for env
where
  w_try: "walk env a st a' st1 \<Longrightarrow> walk env b st1 b' st2 \<Longrightarrow> walk env (Try_stmt a b) st (Try_stmt a' b') st2"
| w_catch: "walk env a st a' st1 \<Longrightarrow> walk env (Catch_stmt a) st (Catch_stmt a') st1"
| w_bind: "walk env a st a' st1 \<Longrightarrow> walk env (Bind_expr a) st (Bind_expr a') st1"
| w_list: "walks env [] ss st ss' st1 \<Longrightarrow> walk env (Stmt_list ss) st (Stmt_list ss') st1"
| w_parallel: "walk env a st a' st1 \<Longrightarrow> walk env (Omp_parallel a) st (Omp_parallel a') st1"
| w_sections: "walk_sections env ss st ss' st1
    \<Longrightarrow> walk env (Omp_sections (Stmt_list ss)) st (Omp_sections (Stmt_list ss')) st1"
| w_cond: "walk env a st a' st1 \<Longrightarrow> walk env b st1 b' st2 \<Longrightarrow> walk env (Cond_expr a b) st (Cond_expr a' b') st2"
| w_plain: "s \<in> {Omp_section a, Label_expr l, Goto_expr l, Other_stmt l} \<Longrightarrow> walk env s st s st"
| w_nothing: "walks env xs [] st [] st"
| w_last_pragma: "is_call_stmt s \<Longrightarrow> pragma_statement env (xs, [s]) s st = Inr ((xs, []), st1) \<Longrightarrow> walks env xs [s] st [] st1"
| w_call: "is_call_stmt s \<Longrightarrow> pragma_statement env (xs, s # ys) s st = Inr ((xs, t # ts), st1)
    \<Longrightarrow> becomes env xs ts t st1 mid behind st2 \<Longrightarrow> walks env (xs @ mid) (behind @ ts) st2 rest st3
    \<Longrightarrow> walks env xs (s # ys) st (mid @ rest) st3"
| w_inner: "\<not> is_call_stmt s \<Longrightarrow> walk env s st s' st1 \<Longrightarrow> walks env (xs @ [s']) ys st1 rest st2
    \<Longrightarrow> walks env xs (s # ys) st (s' # rest) st2"
| w_no_section: "walk_sections env [] st [] st"
| w_section: "walk env a st a' st1 \<Longrightarrow> walk_sections env ss st1 ss' st2
    \<Longrightarrow> walk_sections env (Omp_section a # ss) st (Omp_section a' # ss') st2"
| w_no_body: "\<forall>a. s \<noteq> Omp_section a \<Longrightarrow> walk_sections env ss st ss' st1 \<Longrightarrow> walk_sections env (s # ss) st (s # ss') st1"

lemma pragma_no_call: "\<not> is_call_stmt s \<Longrightarrow> pragma_statement env z s st = Inr (z, st)"
  by (cases s) (auto simp: pragma_statement_def pragma_call_def is_call_stmt_def)

lemma walk_relation:
  "dsp_replace_tree env s st = Inr (s', st') \<Longrightarrow> walk env s st s' st'"
  "dsp_replace_list env z st = Inr (ss', st') \<Longrightarrow> \<exists>new. ss' = fst z @ new \<and> walks env (fst z) (snd z) st new st'"
  "dsp_replace_sections env ss st = Inr (ss', st') \<Longrightarrow> walk_sections env ss st ss' st'"
proof (induction env s st and env z st and env ss st arbitrary: s' st' and ss' st' and ss' st'
    rule: dsp_replace_tree_dsp_replace_list_dsp_replace_sections.induct)
  case (1 env a b st)
  then show ?case by (fastforce split: sum.splits intro: walk_walks_walk_sections.intros)
next
  case (4 env ss st)
  then show ?case by (fastforce simp: cursor_start_def split: sum.splits intro: walk_walks_walk_sections.intros)
next
  case (7 env a b st)
  then show ?case by (fastforce split: sum.splits intro: walk_walks_walk_sections.intros)
next
  case (14 env xs s ys st)
  obtain ps qs st1 where p: "pragma_statement env (xs, s # ys) s st = Inr ((ps, qs), st1)"
    using "14.prems" by (auto split: sum.splits)
  note pq = pragma_statement_rest [OF p]
  show ?case
  proof (cases qs)
    case Nil
    with pq have e: "ps = xs" "ys = []" "is_call_stmt s" by auto
    with p Nil w_last_pragma [of s env xs st st1] "14.prems" show ?thesis by auto
  next
    case (Cons t ts)
    with pq have ps: "ps = xs" by auto
    show ?thesis
    proof (cases "is_call_stmt s")
      case True
      obtain z st2 where r: "diopsis_replace_call_tree_tsi env (xs, t # ts) st1 = Inr (z, st2)"
        using "14.prems" p Cons ps True by (auto split: sum.splits)
      from replace_call_becomes [OF r] obtain mid behind where
        m: "moved xs ts z mid behind" "becomes env xs ts t st1 mid behind st2" by blast
      have p': "pragma_statement env (xs, s # ys) s st = Inr ((xs, t # ts), st1)" using p Cons ps by simp
      show ?thesis
      proof (cases "cursor_next z")
        case None
        with m(1) "14.prems" p' True r have "ss' = xs @ mid" "st' = st2" "behind @ ts = []" by (auto simp: moved_def)
        with w_call [OF True p' m(2), of "[]" st2] show ?thesis by (auto intro: w_nothing)
      next
        case (Some z')
        have z': "z' = (xs @ mid, behind @ ts)" using m(1) Some by (simp add: moved_def)
        have run: "dsp_replace_list env z' st2 = Inr (ss', st')" using "14.prems" p' True r Some by simp
        from "14.IH"(1) [OF p' refl _ True r refl Some run] obtain new where
          "ss' = fst z' @ new" "walks env (fst z') (snd z') st2 new st'" by auto
        with w_call [OF True p' m(2), of new st'] z' show ?thesis by auto
      qed
    next
      case False
      with p have st1: "(ps, qs) = (xs, s # ys)" "st1 = st" by (simp_all add: pragma_no_call)
      with p have p': "pragma_statement env (xs, s # ys) s st = Inr ((xs, s # ys), st)" by simp
      obtain s1 st2 where r: "dsp_replace_tree env s st = Inr (s1, st2)"
        "dsp_replace_list env (xs @ [s1], ys) st2 = Inr (ss', st')"
        using "14.prems" p' False by (auto split: sum.splits)
      from "14.IH"(2) [OF p' refl _ False r(1)] have w: "walk env s st s1 st2" by simp
      from "14.IH"(3) [OF p' refl _ False r(1) refl r(2)] obtain new where
        "ss' = (xs @ [s1]) @ new" "walks env (xs @ [s1]) ys st2 new st'" by auto
      with w_inner [OF False w] show ?thesis by auto
    qed
  qed
next
  case (16 env a ss st)
  then show ?case by (fastforce split: sum.splits intro: walk_walks_walk_sections.intros)
qed (auto split: sum.splits intro: walk_walks_walk_sections.intros)

section \<open>Remote calls are waited for\<close>

lemma pragma_uid: "pragma_statement env z s st = Inr (z', st') \<Longrightarrow> hartes_rpc_uid st' = hartes_rpc_uid st"
  by (auto simp: pragma_statement_def Let_def split: option.splits list.splits arg.splits if_splits)

lemma pragma_rest_events:
  assumes "pragma_statement env (xs, s # ys) s st = Inr ((xs, t # ts), st')" "list_events (s # ys) = []"
  shows "rpc_events t = [] \<and> list_events ts = []"
  using pragma_statement_rest [OF assms(1)] assms(2) by auto

lemma walk_sessions:
  "walk env s st s' st' \<Longrightarrow> rpc_events s = [] \<longrightarrow> sessions (hartes_rpc_uid st) (rpc_events s') (hartes_rpc_uid st')"
  "walks env xs ss st ss' st' \<Longrightarrow>
    list_events ss = [] \<longrightarrow> sessions (hartes_rpc_uid st) (list_events ss') (hartes_rpc_uid st')"
  "walk_sections env ss st ss' st' \<Longrightarrow>
    list_events ss = [] \<longrightarrow> sessions (hartes_rpc_uid st) (list_events ss') (hartes_rpc_uid st')"
proof (induction rule: walk_walks_walk_sections.inducts)
  case (w_last_pragma s xs st st1)
  then show ?case using pragma_uid [OF w_last_pragma(2)] by (simp add: sessions.none)
next
  case (w_call s xs ys st t ts st1 mid behind st2 rest st3)
  show ?case
  proof
    assume "list_events (s # ys) = []"
    with pragma_rest_events [OF w_call(2)] have "rpc_events t = []" "list_events ts = []" by blast+
    with becomes_sessions [OF w_call(3)] pragma_uid [OF w_call(2)] w_call.IH
    show "sessions (hartes_rpc_uid st) (list_events (mid @ rest)) (hartes_rpc_uid st3)"
      by (auto intro: sessions_append)
  qed
qed (auto simp: list_events_def intro: sessions.none sessions_append)

end
