(* ===== verification/DiopsisProtocol.thy ===== *)
theory DiopsisProtocol
  imports DiopsisRun HartesSpec
begin

text \<open>
  What a call of a function of the signal processor becomes, in closed form: the transfers with the registers they
  use, the start, the wait and the result; the arguments that are lost; and the statement behind a pragma.
\<close>

section \<open>The result\<close>

definition result_bank :: "ty \<Rightarrow> bank option" where
  "result_bank t =
    (case type_code t of
       INTEGER_CODE \<Rightarrow> Some (if type_long t \<or> type_name t = Some ''add_t'' then Float_long else Pointer_int)
     | POINTER_CODE \<Rightarrow> Some Pointer_int
     | ENUMERAL_CODE \<Rightarrow> Some Pointer_int
     | VOID_CODE \<Rightarrow> None
     | _ \<Rightarrow> Some Float_long)"

definition result_builtin :: "ty \<Rightarrow> builtin option" where
  "result_builtin t =
    (case result_bank t of
       None \<Rightarrow> None
     | Some Pointer_int \<Rightarrow> Some BUILT_IN_DSP_RETI
     | Some Float_long \<Rightarrow>
         Some (if type_code t = INTEGER_CODE then BUILT_IN_DSP_RETL
               else if type_code t = REAL_CODE then BUILT_IN_DSP_RETF
               else if map_option type_code (target_type t) = Some REAL_CODE then BUILT_IN_DSP_RETDF
               else BUILT_IN_DSP_RETDL))"

text \<open>The first register for arguments: the result has taken the first of its bank.\<close>

definition first_register :: "ty \<Rightarrow> bank \<Rightarrow> int" where
  "first_register t bk = (if result_bank t = Some bk then width bk else 0)"

lemma return_builtin_closed:
  assumes "return_builtin call decl (reset_dsp st) = Inr (retb, st')"
  shows "retb = result_builtin (call_type call) \<and> (\<forall>bk. advance bk st' = first_register (call_type call) bk) \<and> pointers st' = 0"
  using assms
  by (auto simp: return_builtin_def result_builtin_def result_bank_def first_register_def advance_def width_def
      pointers_def reset_dsp_def dsp_warn_def all_banks Let_def split: type_code.splits option.splits if_splits)

section \<open>One remote call\<close>

text \<open>The transfers for the arguments that are passed, in order; and whether one goes to a register for pointers and
  integers, for which the processor has to be prepared.\<close>

definition passed_args :: "parm_masks \<Rightarrow> arg list \<Rightarrow> nat list" where
  "passed_args masks as = filter (\<lambda>k. \<not> only_written masks k (as ! k)) [0..<length as]"

definition prepared :: "parm_masks \<Rightarrow> arg list \<Rightarrow> stmt list" where
  "prepared masks as =
    (if \<exists>k\<in>set (passed_args masks as). arg_bank masks k (as ! k) = Pointer_int
     then [build_call_expr BUILT_IN_DSP_PRE_EXEC []] else [])"

lemma fetched_cong:
  assumes "dsp_tmp_var_id st' = dsp_tmp_var_id st"
  shows "fetched s call b st' = fetched s call b st"
proof -
  have "dsp_return_var call st' = dsp_return_var call st" using assms by (simp add: dsp_return_var_def)
  then show ?thesis unfolding fetched_def by metis
qed

definition remote_protocol :: "parm_masks \<Rightarrow> fndecl \<Rightarrow> bool \<Rightarrow> stmt \<Rightarrow> call_expr \<Rightarrow> dsp_state \<Rightarrow> stmt list \<Rightarrow> bool" where
  "remote_protocol masks decl nowait s call st new \<longleftrightarrow>
    (\<exists>ts. new = rpc_stmt nowait st # ts @ prepared masks (args call) @ exec_stmt nowait decl
        # (if nowait then [] else rpc_end_stmt st # fetched s call (result_builtin (call_type call)) st)
      \<and> map carries ts
        = map (\<lambda>k. Some (register_of masks (first_register (call_type call)) (args call) k)) (passed_args masks (args call)))"

lemma remote_sequence_closed:
  assumes seq: "remote_sequence env xs ys s call decl nowait st mid st'" and quiet: "\<not> dspstat env"
    and masks: "parm_masks_of decl = Some masks"
  shows "remote_protocol masks decl nowait s call st mid"
proof -
  from seq quiet masks obtain retb st1 conf ins st2 where
    r: "return_builtin call decl (reset_dsp st) = Inr (retb, st1)"
      "dsp_expand_parameters decl call (xs @ [rpc_stmt nowait st1], s # ys) masks IO_PROLOGUE
           (st1\<lparr>dsp_loader_file := conf\<rparr>) = Inr (ins, st2)"
      "mid = rpc_stmt nowait st1 # ins
           @ (if pointer_op st2 \<noteq> 0 \<or> int_pointer st2 \<noteq> 0 then [build_call_expr BUILT_IN_DSP_PRE_EXEC []] else [])
           @ dsp_stats_bytes env HARTES_STATS_PARMIN (dsp_trx_bytes st2)
           @ exec_stmt nowait decl # remote_tail env s call nowait retb st2"
    unfolding remote_sequence_def by (auto simp del: append_assoc)
  note ret = return_builtin_closed [OF r(1)]
  have k: "kept st st1" using return_builtin_kept [OF r(1)] by (simp add: kept_def reset_dsp_def)
  let ?st = "st1\<lparr>dsp_loader_file := conf, dsp_trx_bytes := 0, out_bytes := 0\<rparr>"
  let ?base = "first_register (call_type call)"
  have adv: "\<forall>bk. advance bk ?st = ?base bk + width bk * int (used_before masks bk (args call) 0)"
    using ret by (auto simp: advance_def used_before_def split: bank.splits)
  have ptrs: "pointers ?st = 0" using ret by (simp add: pointers_def)
  from expand_from_registers [OF r(2) [unfolded dsp_expand_parameters_def] _ _ adv]
  have ins: "map carries ins = map (\<lambda>k. Some (register_of masks ?base (args call) k)) (passed_args masks (args call))"
    and p: "pointers st2 = length (filter
      (\<lambda>k. \<not> only_written masks k (args call ! k) \<and> arg_bank masks k (args call ! k) = Pointer_int) [0..<length (args call)])"
    using ptrs by (simp_all add: passed_args_def)
  have k2: "hartes_rpc_uid st2 = hartes_rpc_uid st" "dsp_tmp_var_id st2 = dsp_tmp_var_id st"
    using transfers_events(2) [OF r(2)] k by (simp_all add: kept_def)
  have "pointer_op st2 \<noteq> 0 \<or> int_pointer st2 \<noteq> 0 \<longleftrightarrow> pointers st2 \<noteq> 0" by (auto simp: pointers_def)
  also have "\<dots> \<longleftrightarrow> (\<exists>k\<in>set (passed_args masks (args call)). arg_bank masks k (args call ! k) = Pointer_int)"
    unfolding p passed_args_def by (auto simp: filter_empty_conv)
  finally have "(if pointer_op st2 \<noteq> 0 \<or> int_pointer st2 \<noteq> 0 then [build_call_expr BUILT_IN_DSP_PRE_EXEC []] else [])
      = prepared masks (args call)" by (simp add: prepared_def)
  moreover have "rpc_stmt nowait st1 = rpc_stmt nowait st" using k by (simp add: rpc_stmt_def kept_def)
  moreover have "remote_tail env s call nowait retb st2
      = (if nowait then [] else rpc_end_stmt st # fetched s call (result_builtin (call_type call)) st)"
    using ret k2 quiet by (simp add: remote_tail_def rpc_end_stmt_def dsp_stats_bytes_def fetched_cong [OF k2(2)])
  moreover have "dsp_stats_bytes env HARTES_STATS_PARMIN n = []" for n using quiet by (simp add: dsp_stats_bytes_def)
  ultimately show ?thesis unfolding remote_protocol_def using r(3) ins by auto
qed

lemma moved_list: "moved xs ys z mid behind \<Longrightarrow> cursor_list z = xs @ mid @ behind @ ys"
proof (cases z)
  case (Pair us vs)
  then show "moved xs ys z mid behind \<Longrightarrow> cursor_list z = xs @ mid @ behind @ ys"
    by (cases vs) (auto simp: moved_def)
qed

lemma remote_call_is:
  assumes run: "diopsis_replace_call_tree_tsi env (xs, s # ys) st = Inr (z, st')"
    and call: "get_call_expr_in s = Some call" "callee call = Some decl"
    and map: "dsp_mapping env decl (pragma_on_call_magic st) = Inr (Some (i, nowait))"
    and sel: "dsp_selected env i (st\<lparr>pragma_on_call_magic := None\<rparr>) = Inr (True, st1)"
    and quiet: "\<not> dspstat env" and masks: "parm_masks_of decl = Some masks"
  shows "\<exists>new. cursor_list z = xs @ new @ ys \<and> remote_protocol masks decl nowait s call st new
    \<and> hartes_rpc_uid st' = hartes_rpc_uid st + (if nowait then 0 else 1)"
proof -
  from run call map sel obtain st2 where r: "replace_remote env (xs, s # ys) s call decl nowait st1 = Inr (z, st2)"
    and st': "st' = (if nowait then st2 else forget_pragma decl st2)"
    by (auto simp: diopsis_replace_call_tree_tsi_def Let_def split: sum.splits)
  from replace_remote_is [OF r call(1)] obtain mid where
    mid: "moved xs ys z mid []" "remote_sequence env xs ys s call decl nowait st1 mid st2" by blast
  have same: "hartes_rpc_uid st1 = hartes_rpc_uid st" "dsp_tmp_var_id st1 = dsp_tmp_var_id st"
    using dsp_selected_kept [OF sel] by simp_all
  have e: "rpc_stmt nowait st1 = rpc_stmt nowait st" "rpc_end_stmt st1 = rpc_end_stmt st"
    "fetched s call b st1 = fetched s call b st" for b
    using same by (simp_all add: rpc_stmt_def rpc_end_stmt_def fetched_cong [OF same(2)])
  have "remote_protocol masks decl nowait s call st mid"
    using remote_sequence_closed [OF mid(2) quiet masks] unfolding remote_protocol_def e .
  moreover have "hartes_rpc_uid st2 = hartes_rpc_uid st1 + (if nowait then 0 else 1)"
    using remote_sequence_keeps [OF mid(2)] by blast
  ultimately show ?thesis using moved_list [OF mid(1)] same st' by (auto simp: forget_pragma_def)
qed

text \<open>Two arguments of one bank never share a register, and none has the register of the result.\<close>

lemma used_before_mono: "j < k \<Longrightarrow> used_before masks (arg_bank masks j (as ! j)) as j + 1 \<le> used_before masks (arg_bank masks j (as ! j)) as k"
proof -
  assume "j < k"
  then have "[0..<k] = [0..<j] @ j # [j + 1..<k]"
    using upt_add_eq_append [of 0 j "k - j"] by (simp add: upt_conv_Cons)
  then show ?thesis by (simp add: used_before_def)
qed

lemma registers_apart:
  assumes "j < k" "arg_bank masks j (as ! j) = bk" "arg_bank masks k (as ! k) = bk"
  shows "fst (snd (register_of masks base as j)) + width bk \<le> fst (snd (register_of masks base as k))
    \<and> base bk \<le> fst (snd (register_of masks base as j))"
proof -
  have "int (used_before masks bk as j) + 1 \<le> int (used_before masks bk as k)"
    using used_before_mono [OF assms(1), of masks as] assms(2) by simp
  moreover have "0 < width bk" by (simp add: width_def split: bank.split)
  ultimately have "width bk * (int (used_before masks bk as j) + 1) \<le> width bk * int (used_before masks bk as k)"
    by (intro mult_left_mono) simp_all
  then show ?thesis using assms \<open>0 < width bk\<close> by (simp add: register_of_def Let_def algebra_simps)
qed

section \<open>From the pragma to the processor\<close>

text \<open>The number belongs to the processor: by the command line or by the description that was read.\<close>

definition on_processor :: "dsp_env \<Rightarrow> dsp_state \<Rightarrow> int \<Rightarrow> bool" where
  "on_processor env st i \<longleftrightarrow>
    dspforce env \<or> fst (dsp_hxml_db st) \<and> hxml_get_functional_component_type (snd (dsp_hxml_db st)) i = Inr DSP"

lemma on_processor_selected: "on_processor env st i \<Longrightarrow> dsp_selected env i (st\<lparr>pragma_on_call_magic := m\<rparr>) = Inr (True, st\<lparr>pragma_on_call_magic := m\<rparr>)"
  by (cases "dsp_hxml_db st") (auto simp: on_processor_def dsp_selected_def hxml_read_xml_def)

lemma mapping_attribute:
  assumes "in_hwi i" "lookup_attribute ''call_hw'' attrs = Some ((''call_hw'', w) # rest)"
    "\<forall>ident. hartes_call_hw_get_params (Some w) ident None = Some (word_of_int i, Some c, as)"
  shows "dsp_mapping env (Function f attrs types) None = Inr (Some (i, asks_nowait env as))"
  using assms sint_of_hwi [OF assms(1)]
  by (simp add: dsp_mapping_def decl_attributes_def asks_nowait_def)

end
