(* ===== verification/DiopsisTotal.thy ===== *)
theory DiopsisTotal
  imports DiopsisProtocol
begin

text \<open>
  For which calls the replacement by a remote call succeeds: what each argument, the result, the place in the source
  and the name of the function must be. For all others the pass ends the compilation or faults.
\<close>

section \<open>Each argument\<close>

text \<open>An object that is copied has a number as its type, a vector or pair of numbers, or a structure whose fields are all
  of one kind of number; it is a variable, an array or an element with a constant index, of a known size of at most 16000
  words.\<close>

definition is_number :: "ty \<Rightarrow> bool" where
  "is_number t \<longleftrightarrow> type_code t = REAL_CODE \<or> type_code t = INTEGER_CODE"

definition has_number_elements :: "ty \<Rightarrow> bool" where
  "has_number_elements t \<longleftrightarrow> (case target_type t of None \<Rightarrow> False | Some e \<Rightarrow> is_number e)"

definition copied_type :: "ty \<Rightarrow> bool" where
  "copied_type t \<longleftrightarrow>
    (case type_code t of
       VECTOR_CODE \<Rightarrow> has_number_elements t
     | COMPLEX_CODE \<Rightarrow> has_number_elements t
     | RECORD_CODE \<Rightarrow>
         type_fields t \<noteq> []
         \<and> (list_all (\<lambda>f. type_code f = REAL_CODE) (type_fields t) \<or> list_all (\<lambda>f. type_code f = INTEGER_CODE) (type_fields t))
     | _ \<Rightarrow> is_number t)"

definition copied_size :: "addr_operand \<Rightarrow> bool" where
  "copied_size opnd \<longleftrightarrow>
    (case (if op_code opnd = Array_ref
           then (if op_index opnd = None then None else Option.bind (op_array_type opnd) type_size_unit)
           else if type_code (op_type opnd) = ARRAY_CODE \<or> op_code opnd = Var_object then type_size_unit (op_type opnd)
           else None) of
       None \<Rightarrow> False
     | Some bytes \<Rightarrow> bytes div 4 \<le> 16000)"

definition object_passable :: "ty \<Rightarrow> addr_operand \<Rightarrow> bool" where
  "object_passable t opnd \<longleftrightarrow>
    lookup_attribute ''section'' (op_attributes opnd) \<noteq> None
    \<and> (in_dsp_memory (Addr_expr t opnd)
       \<or> (case target_type t of None \<Rightarrow> False | Some inner \<Rightarrow> copied_type inner) \<and> copied_size opnd)"

text \<open>A pointer to floating point numbers is followed back to the assignment it comes from, which must not make the
  scan fault.\<close>

definition scalar_passable :: "ty \<Rightarrow> string \<Rightarrow> stmt cursor \<Rightarrow> bool" where
  "scalar_passable t n it \<longleftrightarrow>
    (case type_code t of
       COMPLEX_CODE \<Rightarrow> has_number_elements t
     | VECTOR_CODE \<Rightarrow> has_number_elements t
     | POINTER_CODE \<Rightarrow>
         (case target_type t of
            None \<Rightarrow> False
          | Some inner \<Rightarrow>
              (case type_code inner of
                 COMPLEX_CODE \<Rightarrow> target_type inner \<noteq> None \<and> \<not> isl (trace_pointer n it)
               | VECTOR_CODE \<Rightarrow> target_type inner \<noteq> None \<and> \<not> isl (trace_pointer n it)
               | REAL_CODE \<Rightarrow> \<not> isl (trace_pointer n it)
               | _ \<Rightarrow> True))
     | _ \<Rightarrow> is_number t)"

definition passable :: "parm_masks \<Rightarrow> stmt cursor \<Rightarrow> nat \<Rightarrow> arg \<Rightarrow> bool" where
  "passable masks it k a \<longleftrightarrow> k < 32 \<and>
    (case a of
       Addr_expr t opnd \<Rightarrow> object_passable t opnd
     | Int_arg n \<Rightarrow> bit (parm_long_mask masks) k \<or> \<bar>low_int n\<bar> \<le> 0xffff
     | Real_arg r \<Rightarrow> True
     | Var_arg t n \<Rightarrow> scalar_passable t n it
     | Parm_arg t n \<Rightarrow> scalar_passable t n it
     | Ssa_arg t n \<Rightarrow> scalar_passable t n it
     | _ \<Rightarrow> False)"

lemma check_omogenous_all: "check_omogenous fs c n = (if list_all (\<lambda>f. type_code f = c) fs then n + length fs else 0)"
  by (induction fs arbitrary: n) auto

lemma object_type_returns: "isl (object_type k t) \<longleftrightarrow> \<not> copied_type t"
  by (auto simp: object_type_def copied_type_def has_number_elements_def is_number_def check_omogenous_all
      split: type_code.split option.split list.split)

lemma object_words_returns: "isl (object_words k opnd) \<longleftrightarrow> \<not> copied_size opnd"
  by (auto simp: object_words_def copied_size_def split: option.split)

lemma expand_object_returns:
  "isl (expand_object call k t opnd io c w st) \<longleftrightarrow> \<not> object_passable t opnd"
proof (cases "lookup_attribute ''section'' (op_attributes opnd)")
  case (Some attr)
  have mem: "in_dsp_memory (Addr_expr t opnd) \<longleftrightarrow> attr \<noteq> [] \<and> strstr (snd (hd attr)) ''dsp_''"
    by (cases attr) (simp_all add: in_dsp_memory_def Some)
  show ?thesis
  proof (cases "target_type t")
    case (Some inner)
    with \<open>lookup_attribute _ _ = Some attr\<close> object_type_returns [of k inner] object_words_returns [of k opnd] show ?thesis
      by (auto simp: expand_object_def object_passable_def mem Let_def split: sum.split)
  qed (use Some in \<open>auto simp: expand_object_def object_passable_def mem\<close>)
qed (simp add: expand_object_def object_passable_def)

lemma expand_traced_returns: "isl (expand_traced call w k n p it io c wo st) \<longleftrightarrow> isl (trace_pointer n it)"
  by (auto simp: expand_traced_def split: sum.split)

lemma expand_scalar_returns: "isl (expand_scalar decl call k is_long t n it io c w st) \<longleftrightarrow> \<not> scalar_passable t n it"
  by (auto simp: expand_scalar_def scalar_passable_def expand_pointer_def expand_traced_returns has_number_elements_def is_number_def
      split: type_code.split option.split)

lemma expand_parameter_returns:
  "isl (dsp_expand_parameter decl call masks io k a it st) \<longleftrightarrow> \<not> passable masks it k a"
  by (cases a) (auto simp: dsp_expand_parameter_def passable_def expand_object_returns expand_scalar_returns Let_def)

section \<open>All arguments\<close>

text \<open>The scan steps over the transfers, which are calls.\<close>

definition is_call :: "stmt \<Rightarrow> bool" where
  "is_call s \<longleftrightarrow> (case s of Call_stmt c \<Rightarrow> True | _ \<Rightarrow> False)"

lemma is_call_build [simp]: "is_call (build_call_expr b as)"
  by (simp add: is_call_def build_call_expr_def)

lemma carries_call: "carries m = Some x \<Longrightarrow> is_call m"
  by (auto simp: carries_def is_call_def split: stmt.splits)

lemma trace_back_calls: "\<forall>m\<in>set ms. is_call m \<Longrightarrow> trace_back n (ms @ xs) = trace_back n xs"
proof (induction ms)
  case (Cons m ms)
  then show ?case by (cases m) (auto simp: is_call_def)
qed simp

lemma trace_pointer_calls:
  assumes "\<forall>m\<in>set ms. is_call m"
  shows "trace_pointer n (cursor_link_before ms it) = trace_pointer n it"
proof (cases it)
  case (Pair xs zs)
  have t: "trace_back n (rev ms @ rev xs) = trace_back n (rev xs)" using assms by (simp add: trace_back_calls)
  show ?thesis
  proof (cases zs)
    case (Cons s ys)
    with Pair t show ?thesis by (cases s) (simp_all add: trace_pointer_def cursor_link_before_def)
  qed (simp add: Pair trace_pointer_def cursor_link_before_def)
qed

lemma passable_calls:
  assumes "\<forall>m\<in>set ms. is_call m"
  shows "passable masks (cursor_link_before ms it) k a \<longleftrightarrow> passable masks it k a"
proof -
  have "scalar_passable t n (cursor_link_before ms it) = scalar_passable t n it" for t n
    unfolding scalar_passable_def trace_pointer_calls [OF assms] ..
  then show ?thesis by (cases a) (simp_all add: passable_def)
qed

lemma expand_from_returns:
  assumes "drop k (args call) = as"
  shows "isl (dsp_expand_from decl call masks IO_PROLOGUE k as it st)
    \<longleftrightarrow> \<not> (\<forall>j. k \<le> j \<and> j < length (args call) \<longrightarrow> passable masks it j (args call ! j))"
  using assms
proof (induction as arbitrary: k it st)
  case Nil
  then show ?case by auto
next
  case (Cons a as)
  have k: "k < length (args call)" "args call ! k = a" "drop (k + 1) (args call) = as"
    using Cons.prems by (cases "k < length (args call)"; simp add: Cons_nth_drop_Suc [symmetric])+
  have split: "(\<forall>j. k \<le> j \<and> j < length (args call) \<longrightarrow> P j)
      \<longleftrightarrow> P k \<and> (\<forall>j. k + 1 \<le> j \<and> j < length (args call) \<longrightarrow> P j)" for P
    using k(1) by (metis Suc_eq_plus1 le_Suc_eq Suc_le_eq order_le_less)
  show ?case
  proof (cases "dsp_expand_parameter decl call masks IO_PROLOGUE k a it st")
    case (Inl e)
    with expand_parameter_returns [of decl call masks IO_PROLOGUE k a it st] k show ?thesis by auto
  next
    case (Inr r)
    obtain ms st1 where r: "r = (ms, st1)" by (cases r)
    from expand_parameter_passes [OF Inr [unfolded r] k(2)] have "\<forall>m\<in>set ms. is_call m"
      by (auto simp: passes_def map_eq_Cons_conv carries_call split: if_splits)
    from passable_calls [OF this] Cons.IH [OF k(3), of "cursor_link_before ms it" st1]
      expand_parameter_returns [of decl call masks IO_PROLOGUE k a it st]
    show ?thesis using k Inr r by (simp add: split split: sum.split) auto
  qed
qed

section \<open>The call\<close>

definition result_supported :: "ty \<Rightarrow> bool" where
  "result_supported t \<longleftrightarrow>
    (case type_code t of
       INTEGER_CODE \<Rightarrow> type_name t \<noteq> None
     | COMPLEX_CODE \<Rightarrow> target_type t \<noteq> None
     | VECTOR_CODE \<Rightarrow> target_type t \<noteq> None
     | ARRAY_CODE \<Rightarrow> False
     | RECORD_CODE \<Rightarrow> False
     | _ \<Rightarrow> True)"

text \<open>The name fits the buffers, and the list of functions for the loader was not created empty. A result that is used
  is not \<open>void\<close>, and is not asked for when the call is not waited for.\<close>

definition remote_supported :: "dsp_env \<Rightarrow> stmt cursor \<Rightarrow> stmt \<Rightarrow> call_expr \<Rightarrow> fndecl \<Rightarrow> bool \<Rightarrow> parm_masks \<Rightarrow> dsp_state \<Rightarrow> bool"
where
  "remote_supported env it s call decl nowait masks st \<longleftrightarrow>
    result_supported (call_type call)
    \<and> (if s = Call_stmt call then True else \<not> nowait \<and> type_code (call_type call) \<noteq> VOID_CODE)
    \<and> (dspstat env \<longrightarrow> fst (stmt_location s) \<noteq> None)
    \<and> fits 512 (func_mangled (decl_name decl)) \<and> fits 1024 (include_line (decl_name decl)) \<and> dsp_loader_file st \<noteq> Some []
    \<and> list_all (\<lambda>k. passable masks it k (args call ! k)) [0..<length (args call)]"

lemma return_builtin_returns: "isl (return_builtin call decl st) \<longleftrightarrow> \<not> result_supported (call_type call)"
  by (auto simp: return_builtin_def result_supported_def Let_def split: type_code.split option.split)

lemma include_dspfunc_returns:
  "microblaze_include_dspfunc f file = None \<longleftrightarrow> \<not> (fits 1024 (include_line f) \<and> file \<noteq> Some [])"
  by (auto simp: microblaze_include_dspfunc_def Let_def split: option.split)

lemma expand_parameters_returns:
  "isl (dsp_expand_parameters decl call it masks IO_PROLOGUE st)
    \<longleftrightarrow> \<not> list_all (\<lambda>k. passable masks it k (args call ! k)) [0..<length (args call)]"
  by (auto simp: dsp_expand_parameters_def expand_from_returns list_all_iff)

lemma isl_run: "isl (case x of Inl e \<Rightarrow> Inl e | Inr (a, b) \<Rightarrow> Inr (g a b)) \<longleftrightarrow> isl x"
  by (auto split: sum.split)

lemma dsp_start_returns:
  "isl (dsp_start env it s call decl nowait masks st)
    \<longleftrightarrow> \<not> ((dspstat env \<longrightarrow> fst (stmt_location s) \<noteq> None)
          \<and> list_all (\<lambda>k. passable masks it k (args call ! k)) [0..<length (args call)])"
proof -
  have begins: "is_call (dsp_stats_begin f n l d)" for f n l d by (simp add: dsp_stats_begin_def)
  have run: "isl (dsp_expand_parameters decl call (cursor_link_before ms it) masks IO_PROLOGUE st)
      \<longleftrightarrow> \<not> list_all (\<lambda>k. passable masks it k (args call ! k)) [0..<length (args call)]"
    if "\<forall>m\<in>set ms. is_call m" for ms
    by (simp add: expand_parameters_returns passable_calls [OF that])
  show ?thesis
    by (cases "stmt_location s") (simp add: dsp_start_def Let_def isl_run run begins split: option.split)
qed

lemma remove_call_returns: "new \<noteq> [] \<Longrightarrow> \<exists>z. remove_call (xs @ new, s # ys) = Some z"
  by (cases ys) (simp_all add: remove_call_def)

lemma dsp_finish_returns:
  assumes "get_call_expr_in s = Some call" "new \<noteq> []" "retb = None \<longleftrightarrow> type_code (call_type call) = VOID_CODE"
  shows "isl (dsp_finish env (xs @ new, s # ys) s call nowait retb st)
    \<longleftrightarrow> \<not> (if s = Call_stmt call then True else \<not> nowait \<and> type_code (call_type call) \<noteq> VOID_CODE)"
proof (cases s)
  case (Call_stmt c)
  with assms(1) have s: "s = Call_stmt call" by simp
  have "\<exists>z. remove_call (xs @ new @ tail, s # ys) = Some z" for tail
    using remove_call_returns [of "new @ tail" xs s ys] assms(2) by simp
  from this [of "[]"] this [of "rpc_end_stmt st # dsp_stats_bytes env HARTES_STATS_PARMOUT (out_bytes st)"] show ?thesis
    unfolding s by (auto simp: dsp_finish_def cursor_link_before_def rpc_end_stmt_def Let_def)
next
  case (Modify_stmt lhs r loc)
  with assms(3) show ?thesis
    by (auto simp: dsp_finish_def cursor_link_before_def dsp_create_tmp_var_def Let_def split: option.split)
qed (use assms(1) in simp_all)

lemma return_builtin_void:
  "return_builtin call decl st = Inr (retb, st') \<Longrightarrow> retb = None \<longleftrightarrow> type_code (call_type call) = VOID_CODE"
  by (auto simp: return_builtin_def Let_def split: type_code.splits option.splits if_splits)

lemma dsp_start_not_empty: "dsp_start env it s call decl nowait masks st = Inr (new, st') \<Longrightarrow> new \<noteq> []"
  by (auto simp: dsp_start_def Let_def split: option.splits sum.splits prod.splits)

lemma replace_remote_returns:
  assumes "get_call_expr_in s = Some call" "parm_masks_of decl = Some masks"
  shows "isl (replace_remote env (xs, s # ys) s call decl nowait st)
    \<longleftrightarrow> \<not> remote_supported env (xs, s # ys) s call decl nowait masks st"
proof (cases "return_builtin call decl (reset_dsp st)")
  case (Inl e)
  with return_builtin_returns [of call decl "reset_dsp st"] show ?thesis
    unfolding replace_remote_def reset_dsp_def [symmetric] by (simp add: remote_supported_def)
next
  case (Inr r)
  then obtain retb st1 where r: "return_builtin call decl (reset_dsp st) = Inr (retb, st1)" by (cases r) auto
  have conf0: "dsp_loader_file st1 = dsp_loader_file st"
    using r by (auto simp: return_builtin_def reset_dsp_def dsp_warn_def Let_def split: type_code.splits option.splits if_splits)
  have res: "result_supported (call_type call)" using r return_builtin_returns [of call decl "reset_dsp st"] by simp
  show ?thesis
  proof (cases "fits 512 (func_mangled (decl_name decl)) \<and> microblaze_include_dspfunc (decl_name decl) (dsp_loader_file st) \<noteq> None")
    case True
    then obtain conf where conf: "microblaze_include_dspfunc (decl_name decl) (dsp_loader_file st) = Some conf" by blast
    let ?start = "dsp_start env (xs, s # ys) s call decl nowait masks (st1\<lparr>dsp_loader_file := conf\<rparr>)"
    note start = dsp_start_returns [of env "(xs, s # ys)" s call decl nowait masks "st1\<lparr>dsp_loader_file := conf\<rparr>"]
    have run: "replace_remote env (xs, s # ys) s call decl nowait st
        = (case ?start of
             Inl e \<Rightarrow> Inl e
           | Inr (new, st) \<Rightarrow> dsp_finish env (cursor_link_before new (xs, s # ys)) s call nowait retb st)"
      unfolding replace_remote_def reset_dsp_def [symmetric] using r assms(2) True conf0 conf by simp
    show ?thesis
    proof (cases ?start)
      case (Inl e)
      with start run show ?thesis by (auto simp: remote_supported_def)
    next
      case (Inr q)
      then obtain new st2 where q: "?start = Inr (new, st2)" by (cases q) auto
      note fin = dsp_finish_returns [OF assms(1) dsp_start_not_empty [OF q] return_builtin_void [OF r], of env xs ys nowait st2]
      from start run q fin res True show ?thesis
        by (auto simp: remote_supported_def cursor_link_before_def include_dspfunc_returns)
    qed
  next
    case False
    then have "isl (replace_remote env (xs, s # ys) s call decl nowait st)"
      unfolding replace_remote_def reset_dsp_def [symmetric] using r assms(2) conf0 by auto
    with False show ?thesis by (auto simp: remote_supported_def include_dspfunc_returns)
  qed
qed

text \<open>A call that is mapped to the processor is replaced exactly when it is supported.\<close>

lemma remote_call_returns:
  assumes call: "get_call_expr_in s = Some call" "callee call = Some decl"
    and map: "dsp_mapping env decl (pragma_on_call_magic st) = Inr (Some (i, nowait))"
    and proc: "on_processor env st i" and masks: "parm_masks_of decl = Some masks"
  shows "(\<exists>z st'. diopsis_replace_call_tree_tsi env (xs, s # ys) st = Inr (z, st'))
    \<longleftrightarrow> remote_supported env (xs, s # ys) s call decl nowait masks st"
proof -
  note sel = on_processor_selected [OF proc, of None]
  have same: "remote_supported env (xs, s # ys) s call decl nowait masks (st\<lparr>pragma_on_call_magic := None\<rparr>)
      \<longleftrightarrow> remote_supported env (xs, s # ys) s call decl nowait masks st" by (simp add: remote_supported_def)
  from replace_remote_returns [OF call(1) masks, of env xs ys nowait "st\<lparr>pragma_on_call_magic := None\<rparr>", unfolded same]
  show ?thesis
    using call map sel
    by (cases "replace_remote env (xs, s # ys) s call decl nowait (st\<lparr>pragma_on_call_magic := None\<rparr>)")
      (auto simp: diopsis_replace_call_tree_tsi_def Let_def)
qed

text \<open>For a supported call the replacement succeeds with the remote call; for any other it does not.\<close>

lemma remote_call_decided:
  assumes call: "get_call_expr_in s = Some call" "callee call = Some decl"
    and map: "dsp_mapping env decl (pragma_on_call_magic st) = Inr (Some (i, nowait))"
    and proc: "on_processor env st i" and masks: "parm_masks_of decl = Some masks" and quiet: "\<not> dspstat env"
  shows "if remote_supported env (xs, s # ys) s call decl nowait masks st
    then \<exists>z st' new. diopsis_replace_call_tree_tsi env (xs, s # ys) st = Inr (z, st')
      \<and> cursor_list z = xs @ new @ ys \<and> remote_protocol masks decl nowait s call st new
      \<and> hartes_rpc_uid st' = hartes_rpc_uid st + (if nowait then 0 else 1)
    else isl (diopsis_replace_call_tree_tsi env (xs, s # ys) st)"
proof (cases "diopsis_replace_call_tree_tsi env (xs, s # ys) st")
  case (Inl e)
  with remote_call_returns [OF call map proc masks, of xs ys] show ?thesis by simp
next
  case (Inr r)
  then obtain z st' where run: "diopsis_replace_call_tree_tsi env (xs, s # ys) st = Inr (z, st')" by (cases r) auto
  with remote_call_returns [OF call map proc masks, of xs ys]
    remote_call_is [OF run call map on_processor_selected [OF proc] quiet masks]
  show ?thesis by auto
qed

end
