(* ===== verification/DiopsisProps.thy ===== *)
theory DiopsisProps
  imports DiopsisTotal
begin

text \<open>
  The properties of the pass for the signal processor, each tried on an example: remote calls are waited for, what a
  pragma makes of a call, and where the pass does not do what the program asks for: objects that the function only
  writes, and the statement behind a pragma.
\<close>

section \<open>Examples\<close>

text \<open>All numbers belong to the processor. A function that only writes a buffer, and one with a constant.\<close>

definition force_env :: dsp_env where
  "force_env = \<lparr>diopsis = True, dspstat = False, gppstat = False, dspforce = True, remwait = False,
    dsp_configuration_xml = True, dsp_configuration_file = None, stale_attr = True, stale_compname = None\<rparr>"

definition volatile_int :: ty where
  "volatile_int = Ty INTEGER_CODE (Some 4) None False True [] (Some ''int'') False None"

definition demo_buffer :: arg where
  "demo_buffer = Addr_expr (pointer_to integer_type_node)
    \<lparr>op_code = Var_object, op_name = ''buf'', op_type = integer_type_node, op_attributes = [], op_index = None,
      op_array_type = None, op_node = 0\<rparr>"

definition fill_decl :: fndecl where
  "fill_decl = Function ''fill'' [(''call_hw'', ''2,DSP'')] [pointer_to volatile_int]"

definition fill_call :: "call_expr" where
  "fill_call = \<lparr>callee = Some fill_decl, args = [demo_buffer], call_type = void_type_node, location = (None, 0)\<rparr>"

definition fft_decl :: fndecl where
  "fft_decl = Function ''fft'' [(''call_hw'', ''2,DSP'')] [integer_type_node]"

definition fft_call :: "call_expr" where
  "fft_call = \<lparr>callee = Some fft_decl, args = [Int_arg 7], call_type = integer_type_node, location = (None, 0)\<rparr>"

lemma params_2_DSP: "hartes_call_hw_get_params (Some ''2,DSP'') ident compname = Some (word_of_int 2, Some ''DSP'', [])"
  using get_params_list [of 2 "''DSP''" "[]" ident compname]
  by (simp add: in_hwi_def plain_name_def comma_list_def dec_def digits.simps [of 10 2] fits_def)

lemma mapping_2_DSP: "dsp_mapping env (Function f [(''call_hw'', ''2,DSP'')] types) None = Inr (Some (2, False))"
  using mapping_attribute [of 2 "[(''call_hw'', ''2,DSP'')]" "''2,DSP''" "[]" "''DSP''" "[]" env f types] params_2_DSP
  by (simp add: in_hwi_def asks_nowait_def)

lemma mapping_none: "dsp_mapping env (Builtin b) None = Inr None" "dsp_mapping env (Function f [] types) None = Inr None"
  by (simp_all add: dsp_mapping_def decl_attributes_def)

lemma fill_masks:
  "parm_masks_of fill_decl = Some \<lparr>parm_long_mask = 0, read_only_parm = 0, write_only_parm = 1\<rparr>"
  by (simp add: parm_masks_of_def fill_decl_def decl_arg_types_def parm_mask_def parm_type_def pointer_to_def volatile_int_def
      add_mask_def Let_def)

lemma fft_masks:
  "parm_masks_of fft_decl = Some \<lparr>parm_long_mask = 0, read_only_parm = 0, write_only_parm = 0\<rparr>"
  by (simp add: parm_masks_of_def fft_decl_def decl_arg_types_def parm_mask_def parm_type_def integer_type_node_def
      add_mask_def Let_def)

lemma force_fields [simp]:
  "dspforce force_env" "\<not> dspstat force_env" "\<not> gppstat force_env" "stale_compname force_env = None"
  by (simp_all add: force_env_def)

lemma init_fields [simp]:
  "pragma_on_call_magic dsp_init = None" "hartes_rpc_uid dsp_init = 0" "dsp_tmp_var_id dsp_init = 0" "dsp_loader_file dsp_init = None"
  by (simp_all add: dsp_init_def)

lemma call_names [simp]:
  "fits 512 (func_mangled ''fill'')" "fits 512 (func_mangled ''fft'')"
  by (simp_all add: func_mangled_def fits_def)

lemma file_created:
  "fits 1024 (include_line f) \<Longrightarrow> microblaze_include_dspfunc f None = Some (Some (include_line f))"
  by (simp add: microblaze_include_dspfunc_def Let_def)

lemmas run_simps = diopsis_replace_call_tree_tsi_def mapping_2_DSP dsp_selected_def replace_remote_def return_builtin_def
  func_flags_def dsp_start_def dsp_finish_def dsp_expand_parameters_def dsp_expand_parameter_def decl_name_def
  remove_call_def cursor_link_before_def dsp_stats_bytes_def rpc_stmt_def exec_stmt_def rpc_end_stmt_def forget_pragma_def

lemma fill_run:
  "\<exists>st'. diopsis_replace_call_tree_tsi force_env ([], [Call_stmt fill_call]) dsp_init = Inr
    (([rpc_stmt False dsp_init, exec_stmt False fill_decl, rpc_end_stmt dsp_init], []), st')"
proof -
  have line: "fits 1024 (include_line ''fill'')" by (simp add: include_line_def fits_def)
  show ?thesis
    using fill_masks
    by (simp add: fill_call_def fill_decl_def run_simps void_type_node_def file_created [OF line] demo_buffer_def
        expand_object_def object_type_def object_words_def pointer_to_def integer_type_node_def insert_diopsis_api_def
        dsp_ops Let_def)
qed

text \<open>\<open>y = fft(7)\<close> in a list.\<close>

definition fft_return :: arg where
  "fft_return = Var_arg integer_type_node ''__dsp_return.0''"

definition fft_sequence :: "stmt list" where
  "fft_sequence =
    [rpc_stmt False dsp_init, build_call_expr BUILT_IN_DSP_PARM_INT [Int_arg 1, Int_arg 7],
     build_call_expr BUILT_IN_DSP_PRE_EXEC [], exec_stmt False fft_decl, rpc_end_stmt dsp_init,
     build_call_expr BUILT_IN_DSP_RETI [build_fold_addr_expr fft_return],
     Modify_stmt ''y'' (Value_rhs fft_return) (None, 0)]"

lemma fft_run:
  "\<exists>st'. do_diopsis_replace_calls_tree_execute force_env (Stmt_list [Modify_stmt ''y'' (Call_rhs fft_call) (None, 0)]) dsp_init
      = Inr (Stmt_list fft_sequence, st') \<and> hartes_rpc_uid st' = 1"
proof -
  have line: "fits 1024 (include_line ''fft'')" by (simp add: include_line_def fits_def)
  have d: "digits 10 0 = ''0''" by (simp add: digits.simps)
  show ?thesis
    using fft_masks
    by (simp add: do_diopsis_replace_calls_tree_execute_def cursor_start_def fft_sequence_def fft_return_def fft_call_def fft_decl_def
        run_simps file_created [OF line] integer_type_node_def low_int_def insert_diopsis_api_def pragma_statement_def
        pragma_call_def is_call_stmt_def dsp_create_tmp_var_def d dsp_ops Let_def)
      (simp add: force_env_def)
qed

section \<open>Remote calls are waited for\<close>

text \<open>C21. In the body that the pass leaves, every remote call that is opened without the mark for not waiting is closed, by the
  next event and under its own number: no two remote calls overlap, none is left open, and the numbers of the
  calls that are waited for are consecutive, from that the pass began with to that it ends with. This holds for whatever body, with
  pragmas in front of statements or of declarations, provided it called none of the routines itself.\<close>

theorem remote_calls_waited_for:
  assumes "do_diopsis_replace_calls_tree_execute env body st = Inr (body', st')" "rpc_events body = []"
  shows "sessions (hartes_rpc_uid st) (rpc_events body') (hartes_rpc_uid st')
    \<and> closed (rpc_events body') = [hartes_rpc_uid st..hartes_rpc_uid st' - 1]
    \<and> (\<forall>fs i gs. rpc_events body' = fs @ Rpc_begin i # gs \<longrightarrow>
        (\<exists>hs. gs = Rpc_end i # hs) \<or> (\<exists>v. hartes_rpc_uid st \<le> v \<and> v \<le> hartes_rpc_uid st' \<and> i = or v NOWAIT_FUNC))"
proof -
  have "sessions (hartes_rpc_uid st) (rpc_events body') (hartes_rpc_uid st')"
  proof (cases "diopsis env")
    case True
    with assms walk_relation(1) walk_sessions(1) show ?thesis
      by (fastforce simp: do_diopsis_replace_calls_tree_execute_def)
  next
    case False
    with assms show ?thesis by (simp add: do_diopsis_replace_calls_tree_execute_def sessions.none)
  qed
  with sessions_closed sessions_opened show ?thesis by blast
qed

lemma remote_calls_waited_for_witness: "closed (rpc_events (Stmt_list fft_sequence)) = [0]"
proof -
  from fft_run obtain st' where r: "do_diopsis_replace_calls_tree_execute force_env
      (Stmt_list [Modify_stmt ''y'' (Call_rhs fft_call) (None, 0)]) dsp_init = Inr (Stmt_list fft_sequence, st')"
    "hartes_rpc_uid st' = 1" by blast
  have "rpc_events (Stmt_list [Modify_stmt ''y'' (Call_rhs fft_call) (None, 0)]) = []"
    by (simp add: call_events_def fft_call_def fft_decl_def)
  from remote_calls_waited_for [OF r(1) this] r(2) show ?thesis by simp
qed

section \<open>From the pragma to the processor\<close>



section \<open>Arguments that are only written\<close>

lemma carries_single [simp]: "carries (build_call_expr b [a]) = None" "carries (build_call_expr b []) = None"
  by (simp_all add: carries_def build_call_expr_def split: arg.split)

lemma carries_other [simp]:
  "carries (rpc_stmt nowait st) = None" "carries (rpc_end_stmt st) = None" "carries (Modify_stmt lhs r loc) = None"
  by (simp_all add: rpc_stmt_def rpc_end_stmt_def, simp add: carries_def)

lemma protocol_carries:
  assumes p: "remote_protocol masks decl nowait s call st new" and k: "only_written masks k (args call ! k)" "k < length (args call)"
    and m: "m \<in> set new"
  shows "carries m \<noteq> Some (Pointer_int, fst (snd (register_of masks (first_register (call_type call)) (args call) k)), x)"
proof
  let ?r = "register_of masks (first_register (call_type call)) (args call)"
  assume c: "carries m = Some (Pointer_int, fst (snd (?r k)), x)"
  from p obtain ts where new: "new = rpc_stmt nowait st # ts @ prepared masks (args call) @ exec_stmt nowait decl
        # (if nowait then [] else rpc_end_stmt st # fetched s call (result_builtin (call_type call)) st)"
    and ts: "map carries ts = map (\<lambda>k. Some (?r k)) (passed_args masks (args call))"
    unfolding remote_protocol_def by blast
  have "m \<in> set ts"
    using m c unfolding new
    by (auto simp: prepared_def exec_stmt_def fetched_def split: if_splits stmt.splits option.splits)
  then have "carries m \<in> set (map carries ts)" by simp
  then obtain j where j: "j \<in> set (passed_args masks (args call))" "?r j = (Pointer_int, fst (snd (?r k)), x)"
    unfolding ts c by auto
  have bk: "arg_bank masks k (args call ! k) = Pointer_int" "arg_bank masks j (args call ! j) = Pointer_int"
    using k(1) j(2) by (auto simp: only_written_def arg_bank_def register_of_def Let_def split: arg.splits)
  have "j \<noteq> k" using j(1) k(1) by (auto simp: passed_args_def)
  then have "fst (snd (?r j)) \<noteq> fst (snd (?r k))"
    using registers_apart [of j k masks "args call" Pointer_int "first_register (call_type call)"]
      registers_apart [of k j masks "args call" Pointer_int "first_register (call_type call)"] bk
    by (cases "j < k") (auto simp: width_def)
  with j(2) show False by simp
qed

text \<open>C25. An object outside the processor's memory that the function only writes, a pointer to a volatile type that
  is not also read-only, is never passed: the transfer for it is built but not linked. In the code that
  takes the place of the call no transfer names the register the function expects the address in, which is
  nevertheless left out for the arguments behind it.\<close>

theorem write_only_argument_lost:
  assumes "diopsis_replace_call_tree_tsi env (xs, s # ys) st = Inr (z, st')"
    and "get_call_expr_in s = Some call" "callee call = Some decl"
    and "dsp_mapping env decl (pragma_on_call_magic st) = Inr (Some (i, nowait))" "on_processor env st i" "\<not> dspstat env"
    and "parm_masks_of decl = Some masks" "k < length (args call)" "only_written masks k (args call ! k)"
  shows "\<exists>new. cursor_list z = xs @ new @ ys
    \<and> (\<forall>m\<in>set new. \<forall>x. carries m
        \<noteq> Some (Pointer_int, fst (snd (register_of masks (first_register (call_type call)) (args call) k)), x))"
proof -
  from remote_call_is [OF assms(1-4) on_processor_selected [OF assms(5)] assms(6,7)] obtain new where
    new: "cursor_list z = xs @ new @ ys" "remote_protocol masks decl nowait s call st new" by blast
  with protocol_carries [OF new(2) assms(9,8)] show ?thesis by blast
qed

lemma write_only_argument_lost_witness:
  "list_all (\<lambda>m. \<forall>x. carries m \<noteq> Some (Pointer_int, 0, x))
    [rpc_stmt False dsp_init, exec_stmt False fill_decl, rpc_end_stmt dsp_init]"
proof -
  from fill_run obtain st' where r: "diopsis_replace_call_tree_tsi force_env ([], [Call_stmt fill_call]) dsp_init = Inr
    (([rpc_stmt False dsp_init, exec_stmt False fill_decl, rpc_end_stmt dsp_init], []), st')" by blast
  let ?masks = "\<lparr>parm_long_mask = 0, read_only_parm = 0, write_only_parm = 1\<rparr>"
  have m: "dsp_mapping force_env fill_decl (pragma_on_call_magic dsp_init) = Inr (Some (2, False))"
    by (simp add: fill_decl_def mapping_2_DSP)
  have p: "on_processor force_env dsp_init 2" by (simp add: on_processor_def)
  have w: "0 < length (args fill_call)" "only_written ?masks 0 (args fill_call ! 0)"
    by (simp_all add: fill_call_def only_written_def demo_buffer_def in_dsp_memory_def)
  have "fst (snd (register_of ?masks (first_register (call_type fill_call)) (args fill_call) 0)) = 0"
    by (simp add: register_of_def used_before_def fill_call_def demo_buffer_def arg_bank_def first_register_def
        result_bank_def void_type_node_def)
  with write_only_argument_lost [OF r _ _ m p force_fields(2) fill_masks w] show ?thesis by (simp add: fill_call_def list_all_iff)
qed

section \<open>The statement behind a pragma\<close>

text \<open>C26. A pragma for the signal processor in front of a statement that is not a call, such as a branch or a
  block: the dummy call is removed and the statement is stepped over, so that no call in it is replaced, and the
  pragma stays in force for whatever call the walk reaches next.\<close>

theorem statement_behind_pragma_skipped:
  assumes "callee c = Some d" "decl_name d = ''__builtin_molen_dummy''" "args c = String_arg p # as"
    and "hartes_call_hw_get_params (Some p) 0 (stale_compname env) = Some (i, Some cname, rest)" "microblaze_check_dsp cname"
    and "get_call_expr_in t = None"
  shows "dsp_replace_list env (xs, Call_stmt c # t # ys) st
    = dsp_replace_list env (xs @ [t], ys) (st\<lparr>pragma_on_call := True, pragma_on_call_magic := Some p\<rparr>)"
  using assms
  by (simp add: pragma_statement_def pragma_call_def diopsis_replace_call_tree_tsi_def is_call_stmt_def Let_def)

lemma statement_behind_pragma_skipped_witness:
  "dsp_replace_list force_env
      ([], [Call_stmt \<lparr>callee = Some (Builtin MOLEN_DUMMY), args = [String_arg ''2,DSP''], call_type = void_type_node,
              location = (None, 0)\<rparr>,
            Cond_expr (Stmt_list [Call_stmt fft_call]) (Stmt_list [])]) dsp_init
    = Inr ([Cond_expr (Stmt_list [Call_stmt fft_call]) (Stmt_list [])],
        dsp_init\<lparr>pragma_on_call := True, pragma_on_call_magic := Some ''2,DSP''\<rparr>)"
  by (subst statement_behind_pragma_skipped [where d = "Builtin MOLEN_DUMMY" and p = "''2,DSP''" and as = "[]"
        and i = "word_of_int 2" and cname = "''DSP''" and rest = "[]"])
    (simp_all add: decl_name_def builtin_name_def params_2_DSP microblaze_check_dsp_def)

end
