(* ===== verification/HartesPasses.thy ===== *)
theory HartesPasses
  imports DiopsisProps FpgaProtocol
begin

text \<open>
  The two passes of the compiler one after the other, in the order of \<open>gcc/passes.c\<close>: first the calls of
  the signal processor are replaced, then those of the FPGA. They share the description of the architecture, which
  is read once.
\<close>

section \<open>The calls after the first pass\<close>

definition remote_call :: "dsp_env \<Rightarrow> hxml_state \<Rightarrow> call_expr \<Rightarrow> bool" where
  "remote_call env db c \<longleftrightarrow>
    (case callee c of
       None \<Rightarrow> False
     | Some decl \<Rightarrow>
         (case dsp_mapping env decl None of
            Inr (Some (i, nowait)) \<Rightarrow> dspforce env \<or> hxml_get_functional_component_type db i = Inr DSP
          | _ \<Rightarrow> False))"

definition calls_left :: "dsp_env \<Rightarrow> hxml_state \<Rightarrow> call_expr list \<Rightarrow> call_expr list \<Rightarrow> bool" where
  "calls_left env db old new \<longleftrightarrow>
    filter of_program new = filter (\<lambda>c. \<not> remote_call env db c) (filter of_program old) \<and> (\<forall>c\<in>set new. \<not> is_dummy c)"

lemma calls_left_append:
  "calls_left env db a a' \<Longrightarrow> calls_left env db b b' \<Longrightarrow> calls_left env db (a @ b) (a' @ b')"
  by (auto simp: calls_left_def)

lemma calls_left_nil [simp]: "calls_left env db [] []"
  by (simp add: calls_left_def)

definition list_calls :: "stmt list \<Rightarrow> call_expr list" where
  "list_calls ss = concat (map tree_calls ss)"

lemma list_calls_simps [simp]:
  "list_calls [] = []" "list_calls (s # ss) = tree_calls s @ list_calls ss" "list_calls (ss @ ts) = list_calls ss @ list_calls ts"
  by (simp_all add: list_calls_def)

text \<open>What a remote call inserts holds no call of the program and no dummy call.\<close>

definition no_calls :: "call_expr list \<Rightarrow> bool" where
  "no_calls cs \<longleftrightarrow> filter of_program cs = [] \<and> (\<forall>c\<in>set cs. \<not> is_dummy c)"

lemma no_calls_simps [simp]:
  "no_calls []" "no_calls (a @ b) \<longleftrightarrow> no_calls a \<and> no_calls b"
  "no_calls (c # cs) \<longleftrightarrow> \<not> of_program c \<and> \<not> is_dummy c \<and> no_calls cs"
  by (auto simp: no_calls_def)

lemma builtin_call [simp]:
  "\<not> of_program \<lparr>callee = Some (Builtin b), args = as, call_type = t, location = l\<rparr>"
  "is_dummy \<lparr>callee = Some (Builtin b), args = as, call_type = t, location = l\<rparr> \<longleftrightarrow> b = MOLEN_DUMMY"
  by (simp_all add: of_program_def builtin_dummy)

lemma carries_no_calls: "carries m \<noteq> None \<Longrightarrow> no_calls (tree_calls m)"
proof -
  assume a: "carries m \<noteq> None"
  then obtain c b where c: "m = Call_stmt c" "callee c = Some (Builtin b)" "b \<noteq> MOLEN_DUMMY"
    by (auto simp: carries_def split: stmt.splits option.splits fndecl.splits list.splits arg.splits if_splits)
  then show ?thesis by (simp add: no_calls_def of_program_def builtin_dummy)
qed

lemma transfers_no_calls: "\<forall>m\<in>set ms. carries m \<noteq> None \<Longrightarrow> no_calls (list_calls ms)"
  by (induction ms) (auto simp: carries_no_calls)

lemma result_no_dummy: "return_builtin call decl st = Inr (Some b, st') \<Longrightarrow> b \<noteq> MOLEN_DUMMY"
  by (auto simp: return_builtin_def Let_def split: type_code.splits option.splits if_splits)

lemma stats_no_calls [simp]:
  "no_calls (tree_calls (dsp_stats_begin n f l d))"
  "b \<noteq> MOLEN_DUMMY \<Longrightarrow> no_calls (list_calls (dsp_stats_bytes env b k))"
  by (simp_all add: dsp_stats_begin_def dsp_stats_bytes_def)

lemma remote_sequence_no_calls:
  assumes "remote_sequence env xs ys s call decl nowait st mid st'"
  shows "no_calls (list_calls mid)"
proof -
  from assms obtain retb st1 masks conf begins ins st2 where
    r: "return_builtin call decl (reset_dsp st) = Inr (retb, st1)"
      "if dspstat env then \<exists>file_name lineno. begins = [dsp_stats_begin (decl_name decl) file_name lineno (func_flags nowait)]
       else begins = []"
      "dsp_expand_parameters decl call (xs @ begins @ [rpc_stmt nowait st1], s # ys) masks IO_PROLOGUE
           (st1\<lparr>dsp_loader_file := conf\<rparr>) = Inr (ins, st2)"
      "mid = begins @ rpc_stmt nowait st1 # ins
           @ (if pointer_op st2 \<noteq> 0 \<or> int_pointer st2 \<noteq> 0 then [build_call_expr BUILT_IN_DSP_PRE_EXEC []] else [])
           @ dsp_stats_bytes env HARTES_STATS_PARMIN (dsp_trx_bytes st2)
           @ exec_stmt nowait decl # (if dspstat env then [build_call_expr HARTES_STATS_EXEC []] else [])
           @ remote_tail env s call nowait retb st2"
    unfolding remote_sequence_def by (auto simp del: append_assoc)
  have "no_calls (list_calls begins)" using r(2) by (auto split: if_splits)
  moreover have "no_calls (list_calls ins)" using transfers_carry(1) [OF r(3)] by (rule transfers_no_calls)
  moreover have "no_calls (list_calls (fetched s call retb st2))"
    using r(1) by (auto simp: fetched_def dest: result_no_dummy split: stmt.splits option.splits)
  ultimately show ?thesis
    by (simp add: r(4) rpc_stmt_def exec_stmt_def remote_tail_def rpc_end_stmt_def)
qed

lemma selected_db:
  assumes "dsp_selected env i st = Inr (b, st')" "fst (dsp_hxml_db st)"
  shows "dsp_hxml_db st' = dsp_hxml_db st \<and> pragma_on_call_magic st' = pragma_on_call_magic st
    \<and> b = (dspforce env \<or> hxml_get_functional_component_type (snd (dsp_hxml_db st)) i = Inr DSP)"
proof -
  have "hxml_read_xml (dsp_configuration_file env) (dsp_hxml_db st) = Inr (0, dsp_hxml_db st)"
    using assms(2) by (cases "dsp_hxml_db st") (simp add: hxml_read_xml_def)
  with assms(1) show ?thesis by (auto simp: dsp_selected_def split: if_splits sum.splits)
qed

text \<open>The tables are read, and no pragma is pending.\<close>

definition waits :: "dsp_state \<Rightarrow> bool" where
  "waits st \<longleftrightarrow> fst (dsp_hxml_db st) \<and> pragma_on_call_magic st = None"

definition settled_at :: "dsp_state \<Rightarrow> dsp_state \<Rightarrow> bool" where
  "settled_at st st' \<longleftrightarrow> dsp_hxml_db st' = dsp_hxml_db st \<and> pragma_on_call_magic st' = None"

lemma calls_kept: "\<not> remote_call env db c \<Longrightarrow> \<not> is_dummy c \<Longrightarrow> calls_left env db [c] [c]"
  by (simp add: calls_left_def)

lemma calls_gone: "remote_call env db c \<Longrightarrow> no_calls cs \<Longrightarrow> calls_left env db [c] cs"
  by (simp add: calls_left_def no_calls_def)

lemma becomes_calls:
  assumes b: "becomes env xs ys s st mid behind st'" and w: "waits st"
    and s: "is_call_stmt s" "\<forall>c\<in>set (tree_calls s). \<not> is_dummy c"
  shows "settled_at st st' \<and> calls_left env (snd (dsp_hxml_db st)) (tree_calls s) (list_calls mid)
    \<and> no_calls (list_calls behind)"
proof -
  let ?db = "snd (dsp_hxml_db st)"
  have calls: "tree_calls s = [call]" "\<not> is_dummy call" if "get_call_expr_in s = Some call" for call
    using tree_calls_get [OF s(1)] s(2) that by simp_all
  have w': "fst (dsp_hxml_db st)" "pragma_on_call_magic st = None" using w by (simp_all add: waits_def)
  from b show ?thesis
  proof (cases rule: becomes.cases)
    case unknown
    have "tree_calls s = [] \<or> (\<exists>call. get_call_expr_in s = Some call)" using tree_calls_get [OF s(1)] by (auto split: option.splits)
    then have "calls_left env ?db (tree_calls s) (tree_calls s)"
      using unknown calls by (auto simp: remote_call_def intro!: calls_kept)
    with unknown w' show ?thesis by (simp add: settled_at_def)
  next
    case (local call decl)
    then have "\<not> remote_call env ?db call" using w' by (simp add: remote_call_def)
    with local calls [OF local(4)] w' show ?thesis by (simp add: settled_at_def forget_pragma_def calls_kept)
  next
    case (counted call decl f l)
    then have "\<not> remote_call env ?db call" using w' by (simp add: remote_call_def)
    with counted calls [OF counted(4)] w' show ?thesis
      by (simp add: settled_at_def forget_pragma_def calls_left_def dsp_stats_begin_def of_program_def builtin_dummy)
  next
    case (other call decl i nowait)
    from selected_db [OF other(6)] w' have "\<not> remote_call env ?db call" "settled_at st st'"
      using other w' by (auto simp: remote_call_def settled_at_def)
    with other calls [OF other(3)] show ?thesis by (simp add: calls_kept)
  next
    case (remote call decl i nowait st1 st2)
    from selected_db [OF remote(6)] w' have r: "remote_call env ?db call" "settled_at st st1"
      using remote w' by (auto simp: remote_call_def settled_at_def)
    have "dsp_hxml_db st2 = dsp_hxml_db st1" "pragma_on_call_magic st2 = pragma_on_call_magic st1"
      using remote_sequence_keeps [OF remote(7)] by simp_all
    with remote calls [OF remote(3)] r remote_sequence_no_calls [OF remote(7)] show ?thesis
      by (simp add: calls_gone settled_at_def forget_pragma_def)
  qed
qed

lemma pragma_none:
  assumes "\<forall>c\<in>set (tree_calls s). \<not> is_dummy c"
  shows "pragma_statement env z s st = Inr (z, st)"
proof (cases "get_call_expr_in s")
  case (Some c)
  with get_call_is_call have "tree_calls s = [c]" by (simp add: tree_calls_get)
  with assms Some have "pragma_call s = None" by (auto simp: pragma_call_def is_dummy_def split: option.split)
  then show ?thesis by (simp add: pragma_statement_def)
qed (simp add: pragma_statement_def pragma_call_def)

lemma settled_trans: "settled_at a b \<Longrightarrow> settled_at b c \<Longrightarrow> settled_at a c"
  by (simp add: settled_at_def)

lemma settled_waits: "settled_at a b \<Longrightarrow> waits a \<Longrightarrow> waits b \<and> snd (dsp_hxml_db b) = snd (dsp_hxml_db a)"
  by (simp add: settled_at_def waits_def)

lemma waits_settled: "waits a \<Longrightarrow> settled_at a a"
  by (simp add: settled_at_def waits_def)

definition walked :: "dsp_env \<Rightarrow> call_expr list \<Rightarrow> dsp_state \<Rightarrow> call_expr list \<Rightarrow> dsp_state \<Rightarrow> bool" where
  "walked env old st new st' \<longleftrightarrow>
    (waits st \<and> (\<forall>c\<in>set old. \<not> is_dummy c) \<longrightarrow>
      settled_at st st' \<and> calls_left env (snd (dsp_hxml_db st)) old new)"

lemma walked_append:
  assumes "walked env a st a' st1" "walked env b st1 b' st2"
  shows "walked env (a @ b) st (a' @ b') st2"
  using assms settled_waits [of st st1]
  by (auto simp: walked_def intro: settled_trans calls_left_append)

lemma walked_nil [simp]: "walked env [] st [] st"
  by (simp add: walked_def waits_settled)

lemma no_calls_before: "no_calls b \<Longrightarrow> calls_left env db (b @ old) new \<Longrightarrow> calls_left env db old new"
  by (simp add: calls_left_def no_calls_def)

lemma walk_calls:
  "walk env s st s' st' \<Longrightarrow> walked env (tree_calls s) st (tree_calls s') st'"
  "walks env xs ss st ss' st' \<Longrightarrow> walked env (list_calls ss) st (list_calls ss') st'"
  "walk_sections env ss st ss' st' \<Longrightarrow> walked env (concat (map section_calls ss)) st (concat (map section_calls ss')) st'"
proof (induction rule: walk_walks_walk_sections.inducts)
  case (w_last_pragma s xs st st1)
  show ?case
    unfolding walked_def
  proof
    assume a: "waits st \<and> (\<forall>c\<in>set (list_calls [s]). \<not> is_dummy c)"
    with pragma_none [of s env "(xs, [s])" st] w_last_pragma(2)
    show "settled_at st st1 \<and> calls_left env (snd (dsp_hxml_db st)) (list_calls [s]) (list_calls [])" by simp
  qed
next
  case (w_call s xs ys st t ts st1 mid behind st2 rest st3)
  show ?case
    unfolding walked_def
  proof
    assume a: "waits st \<and> (\<forall>c\<in>set (list_calls (s # ys)). \<not> is_dummy c)"
    with pragma_none [of s env "(xs, s # ys)" st] w_call(2) have same: "t = s" "ts = ys" "st1 = st" by simp_all
    from becomes_calls [OF w_call(3)] a w_call(1) have b: "settled_at st st2"
      "calls_left env (snd (dsp_hxml_db st)) (tree_calls s) (list_calls mid)" "no_calls (list_calls behind)"
      unfolding same by simp_all
    note r = settled_waits [OF b(1)]
    have "settled_at st2 st3 \<and> calls_left env (snd (dsp_hxml_db st2)) (list_calls (behind @ ys)) (list_calls rest)"
      using w_call.IH a b(3) r unfolding walked_def same by (auto simp: no_calls_def)
    then have "settled_at st2 st3" "calls_left env (snd (dsp_hxml_db st)) (list_calls ys) (list_calls rest)"
      using no_calls_before [OF b(3)] a r by simp_all
    with b show "settled_at st st3 \<and>
        calls_left env (snd (dsp_hxml_db st)) (list_calls (s # ys)) (list_calls (mid @ rest))"
      by (auto intro: settled_trans calls_left_append)
  qed
next
  case (w_no_body s ss st ss' st1)
  have "section_calls s = []" using w_no_body(1) by (cases s) auto
  with w_no_body.IH show ?case by simp
qed (auto simp: list_calls_def intro: walked_append)

section \<open>Both passes\<close>

text \<open>C20. Let the description of the architecture be read, no pragma be pending, and the body hold no dummy call. If
  the pass for the signal processor and then the pass for the FPGA succeed on the body, the calls of the program that
  are left are those of the old body that are mapped to neither, each in its order, wherever they stand: in nested
  lists, branches, handlers and sections. The second pass runs on the tables of the first, and a third run, of
  that pass again, finds nothing to do.\<close>

theorem passes_replace_mapped_calls:
  assumes "fst (dsp_hxml_db dst)" "pragma_on_call_magic dst = None" "\<forall>c\<in>set (tree_calls body). \<not> is_dummy c"
    and "dsp_replace_tree denv body dst = Inr (body1, dst1)"
    and "hxml_db st = dsp_hxml_db dst1" "fpga_id_dummy st = -1" "replace_tree fenv body1 st = Inr (body2, st1)"
  shows "filter of_program (tree_calls body2)
      = filter (\<lambda>c. \<not> remote_call denv (snd (dsp_hxml_db dst)) c \<and> \<not> mapped (snd (dsp_hxml_db dst)) c)
          (filter of_program (tree_calls body))
    \<and> hxml_db st1 = dsp_hxml_db dst
    \<and> (\<exists>st2. replace_tree fenv body2 st1 = Inr (body2, st2))"
proof -
  have "walked denv (tree_calls body) dst (tree_calls body1) dst1" using walk_calls(1) walk_relation(1) assms(4) by blast
  then have 1: "dsp_hxml_db dst1 = dsp_hxml_db dst"
      "filter of_program (tree_calls body1) = filter (\<lambda>c. \<not> remote_call denv (snd (dsp_hxml_db dst)) c) (filter of_program (tree_calls body))"
      "\<forall>c\<in>set (tree_calls body1). \<not> is_dummy c"
    using assms(1-3) by (simp_all add: walked_def waits_def settled_at_def calls_left_def)
  have db: "fst (hxml_db st)" using assms(1,5) 1(1) by simp
  note 2 = mapped_calls_replaced [OF db assms(6) 1(3) assms(7)]
  have "st1 = st1\<lparr>trx_bytes := trx_bytes st1, tmp_var_id_num := tmp_var_id_num st1, fpga_warnings := fpga_warnings st1\<rparr>" by simp
  with 2 have "\<exists>st2. replace_tree fenv body2 st1 = Inr (body2, st2)" by metis
  with 1 2 assms(5) show ?thesis by (simp add: conj_commute conj_left_commute)
qed

text \<open>On the machine of the examples a list with a call for each processor and one that stays.\<close>

definition both_env :: dsp_env where
  "both_env = force_env\<lparr>dspforce := False\<rparr>"

definition both_state :: dsp_state where
  "both_state = dsp_init\<lparr>dsp_hxml_db := (True, demo_db)\<rparr>"

definition both_body :: stmt where
  "both_body = Stmt_list [Modify_stmt ''y'' (Call_rhs fft_call) (None, 0), Modify_stmt ''x'' (Call_rhs demo_call) (None, 0),
    Call_stmt demo_other]"

definition first_body :: stmt where
  "first_body = Stmt_list (fft_sequence @ [Modify_stmt ''x'' (Call_rhs demo_call) (None, 0), Call_stmt demo_other])"

definition second_body :: stmt where
  "second_body = Stmt_list (fft_sequence
    @ [build_call_expr FPGA_MOVET [Int_arg 1, Int_arg 4, Int_arg 7],
       build_call_expr FPGA_EXECUTE [Int_arg 1], build_call_expr FPGA_BREAK [Int_arg 1],
       build_call_expr FPGA_MOVEF [Int_arg 1, Int_arg 9,
         build_fold_addr_expr (Var_arg integer_type_node ''__fpga_return_int.14'')],
       Modify_stmt ''x'' (Value_rhs (Var_arg integer_type_node ''__fpga_return_int.14'')) (None, 0), Call_stmt demo_other])"

lemma mapping_1_FPGA: "dsp_mapping env (Function ''fir'' [(''call_hw'', ''1,VIRTEX4'')] types) None = Inr (Some (1, False))"
proof -
  have s: "dec 1 @ comma_list (''VIRTEX4'' # []) = ''1,VIRTEX4''"
    by (simp add: comma_list_def dec_def digits.simps [of 10 "Suc 0"])
  have "hartes_call_hw_get_params (Some ''1,VIRTEX4'') ident None = Some (word_of_int 1, Some ''VIRTEX4'', [])" for ident
    using get_params_list [of 1 "''VIRTEX4''" "[]" ident None, unfolded s]
    by (simp add: in_hwi_def plain_name_def fits_def)
  from mapping_attribute [of 1 "[(''call_hw'', ''1,VIRTEX4'')]" "''1,VIRTEX4''" "[]" "''VIRTEX4''" "[]" env "''fir''" types] this
  show ?thesis by (simp add: in_hwi_def asks_nowait_def)
qed

lemma first_run: "\<exists>st'. dsp_replace_tree both_env both_body both_state = Inr (first_body, st') \<and> dsp_hxml_db st' = (True, demo_db)"
proof -
  have line: "fits 1024 (include_line ''fft'')" by (simp add: include_line_def fits_def)
  have d: "digits 10 0 = ''0''" by (simp add: digits.simps)
  have st: "pragma_on_call_magic both_state = None" "hartes_rpc_uid both_state = 0" "dsp_tmp_var_id both_state = 0"
    "dsp_loader_file both_state = None" "dsp_hxml_db both_state = (True, demo_db)"
    by (simp_all add: both_state_def)
  have env: "\<not> dspforce both_env" "\<not> dspstat both_env" "\<not> gppstat both_env" by (simp_all add: both_env_def)
  show ?thesis
    using fft_masks
    by (simp add: cursor_start_def both_body_def first_body_def fft_sequence_def fft_return_def fft_call_def fft_decl_def
        run_simps file_created [OF line] integer_type_node_def low_int_def insert_diopsis_api_def pragma_statement_def
        pragma_call_def is_call_stmt_def dsp_create_tmp_var_def d dsp_ops Let_def st env demo_call_def demo_other_def
        mapping_1_FPGA mapping_none hxml_read_xml_def demo_queries gpp_statistics_def)
qed

lemma builtin_attributes: "attribute_id (Builtin b) = Some (-1)"
  by (simp add: attribute_id_def decl_attributes_def)

lemma second_run: "\<exists>st'. replace_tree demo_env first_body demo_state = Inr (second_body, st')"
proof -
  note call = replace_call_tree_tsi_def create_tmp_var_def demo_attributes no_attributes builtin_attributes decl_name_def
    decl_attributes_def is_call_stmt_def cursor_start_def builtin_name_def
  have st: "hxml_db demo_state = (True, demo_db)" "fpga_id_dummy demo_state = -1" "tmp_var_id_num demo_state = 0" "trx_bytes demo_state = 0"
    by (simp_all add: demo_state_def fpga_init_def)
  have n: "Suc (Suc (Suc (Suc (Suc (Suc (Suc (Suc (Suc (Suc (Suc (Suc (Suc (Suc 0))))))))))))) = 14" by simp
  have d: "digits 10 (Suc (Suc (Suc (Suc (Suc (Suc (Suc (Suc (Suc (Suc (Suc (Suc (Suc (Suc 0)))))))))))))) = ''14''"
    unfolding n by (simp add: digits.simps [of 10 14] digits.simps [of 10 "Suc 0"])
  show ?thesis
    by (simp add: first_body_def second_body_def fft_sequence_def fft_decl_def build_call_expr_def rpc_stmt_def exec_stmt_def
        rpc_end_stmt_def demo_other_def demo_call_def call st demo_env_def d
        replace_mapped_def read_configuration_def hxml_read_xml_def demo_queries call_sequence_def expand_parameters_def
        expand_parameter_def expand_other_def exchange_def with_state_def return_variable_def stats_bytes_def
        demo_types cursor_link_before_def Let_def)
qed

lemma passes_replace_mapped_calls_witness:
  "filter of_program (tree_calls second_body) = [demo_other]"
proof -
  from first_run obtain dst1 where 1: "dsp_replace_tree both_env both_body both_state = Inr (first_body, dst1)"
    "dsp_hxml_db dst1 = (True, demo_db)" by blast
  from second_run obtain st1 where 2: "replace_tree demo_env first_body demo_state = Inr (second_body, st1)" by blast
  have st: "hxml_db demo_state = dsp_hxml_db dst1" "fpga_id_dummy demo_state = -1"
    using 1(2) by (simp_all add: demo_state_def fpga_init_def)
  have dst: "fst (dsp_hxml_db both_state)" "pragma_on_call_magic both_state = None" "snd (dsp_hxml_db both_state) = demo_db"
    by (simp_all add: both_state_def)
  have nd: "\<forall>c\<in>set (tree_calls both_body). \<not> is_dummy c"
    by (simp add: both_body_def fft_call_def fft_decl_def demo_call_def demo_other_def is_dummy_def decl_name_def)
  from passes_replace_mapped_calls [OF dst(1,2) nd 1(1) st 2]
  have "filter of_program (tree_calls second_body)
      = filter (\<lambda>c. \<not> remote_call both_env demo_db c \<and> \<not> mapped demo_db c) (filter of_program (tree_calls both_body))"
    unfolding dst(3) by blast
  also have "\<dots> = [demo_other]"
    by (simp add: both_body_def fft_call_def fft_decl_def demo_call_def demo_other_def of_program_def remote_call_def mapped_def
        mapping_2_DSP mapping_1_FPGA mapping_none demo_attributes no_attributes demo_queries)
  finally show ?thesis .
qed

end
