(* ===== verification/DoubleWord.thy ===== *)
theory DoubleWord
  imports Prelude "HOL-Library.Signed_Division"
begin

text \<open>
  The arithmetic of two-word integers that constant folding uses, the first part of \<open>gcc/fold-const.c\<close>: numbers of
  64 bits in two host words, with addition, negation and multiplication. A piece is a \<open>32 word\<close>, read
  with \<open>uint\<close> or \<open>sint\<close> where the code has it unsigned or signed; signed overflow, which C leaves undefined, wraps
  around. Digits of 16 bits stand in arrays of host integers, and are integers here.
\<close>

named_theorems two_word_simps "two-word integers as numbers"

section \<open>Pieces and digits\<close>

definition OVERFLOW_SUM_SIGN :: "32 word \<Rightarrow> 32 word \<Rightarrow> 32 word \<Rightarrow> bool" where
  "OVERFLOW_SUM_SIGN a b s \<longleftrightarrow> sint (NOT (a XOR b) AND (a XOR s)) < 0"

definition BASE :: int where "BASE = 2 ^ (HOST_BITS_PER_WIDE_INT div 2)"
definition LOWPART :: "int \<Rightarrow> int" where "LOWPART x = to_unsigned x mod BASE"
definition HIGHPART :: "int \<Rightarrow> int" where "HIGHPART x = to_unsigned x div BASE"

definition encode :: "32 word \<Rightarrow> 32 word \<Rightarrow> int list" where
  "encode low hi = [LOWPART (uint low), HIGHPART (uint low), LOWPART (sint hi), HIGHPART (sint hi)]"

definition decode :: "int list \<Rightarrow> 32 word \<times> 32 word" where
  "decode words = (word_of_int (words ! 0 + words ! 1 * BASE), word_of_int (words ! 2 + words ! 3 * BASE))"

section \<open>Addition, negation, multiplication\<close>

text \<open>The result is the low piece, the high piece and whether the operation overflows.\<close>

definition add_double_with_sign ::
  "32 word \<Rightarrow> 32 word \<Rightarrow> 32 word \<Rightarrow> 32 word \<Rightarrow> bool \<Rightarrow> 32 word \<times> 32 word \<times> bool" where
  "add_double_with_sign l1 h1 l2 h2 unsigned_p =
    (let l = l1 + l2;
         h = h1 + h2 + of_bool (l < l1)
     in (l, h, if unsigned_p then h < h1 else OVERFLOW_SUM_SIGN h1 h2 h))"

definition add_double :: "32 word \<Rightarrow> 32 word \<Rightarrow> 32 word \<Rightarrow> 32 word \<Rightarrow> 32 word \<times> 32 word \<times> bool" where
  "add_double l1 h1 l2 h2 = add_double_with_sign l1 h1 l2 h2 False"

definition neg_double :: "32 word \<Rightarrow> 32 word \<Rightarrow> 32 word \<times> 32 word \<times> bool" where
  "neg_double l1 h1 = (if l1 = 0 then (0, - h1, sint (- h1 AND h1) < 0) else (- l1, NOT h1, False))"

text \<open>Long multiplication: one digit, one row, all rows.\<close>

definition mul_digit :: "int list \<Rightarrow> int list \<Rightarrow> nat \<Rightarrow> nat \<Rightarrow> int \<times> int list \<Rightarrow> int \<times> int list" where
  "mul_digit arg1 arg2 i j s =
    (case s of
       (carry, prods) \<Rightarrow>
         let carry = to_unsigned (carry + arg1 ! i * arg2 ! j);
             carry = to_unsigned (carry + prods ! (i + j))
         in (HIGHPART carry, prods[i + j := LOWPART carry]))"

definition mul_row :: "int list \<Rightarrow> int list \<Rightarrow> nat \<Rightarrow> int list \<Rightarrow> int list" where
  "mul_row arg1 arg2 i prods = (case fold (mul_digit arg1 arg2 i) [0..<4] (0, prods) of (carry, prods) \<Rightarrow> prods[i + 4 := carry])"

definition mul_digits :: "int list \<Rightarrow> int list \<Rightarrow> int list" where
  "mul_digits arg1 arg2 = fold (mul_row arg1 arg2) [0..<4] (replicate 8 0)"

definition pieces :: "32 word \<times> 32 word \<times> bool \<Rightarrow> 32 word \<times> 32 word" where
  "pieces r = (case r of (l, h, overflow) \<Rightarrow> (l, h))"

text \<open>For a negative factor the other one is subtracted from the upper half of the product.\<close>

definition top_adjust :: "32 word \<Rightarrow> 32 word \<Rightarrow> 32 word \<Rightarrow> 32 word \<times> 32 word \<Rightarrow> 32 word \<times> 32 word" where
  "top_adjust h1 l2 h2 upper =
    (if sint h1 < 0 then
       (case neg_double l2 h2 of
          (neglow, neghigh, _) \<Rightarrow> pieces (add_double neglow neghigh (fst upper) (snd upper)))
     else upper)"

definition mul_double_with_sign ::
  "32 word \<Rightarrow> 32 word \<Rightarrow> 32 word \<Rightarrow> 32 word \<Rightarrow> bool \<Rightarrow> 32 word \<times> 32 word \<times> bool" where
  "mul_double_with_sign l1 h1 l2 h2 unsigned_p =
    (let prods = mul_digits (encode l1 h1) (encode l2 h2)
     in case decode prods of
          (lv, hv) \<Rightarrow>
            (lv, hv,
             if unsigned_p then (case decode (drop 4 prods) of (toplow, tophigh) \<Rightarrow> toplow OR tophigh \<noteq> 0)
             else
               (case top_adjust h2 l1 h1 (top_adjust h1 l2 h2 (decode (drop 4 prods))) of
                  (toplow, tophigh) \<Rightarrow>
                    (if sint hv < 0 then NOT (toplow AND tophigh) else toplow OR tophigh) \<noteq> 0)))"

definition mul_double :: "32 word \<Rightarrow> 32 word \<Rightarrow> 32 word \<Rightarrow> 32 word \<Rightarrow> 32 word \<times> 32 word \<times> bool" where
  "mul_double l1 h1 l2 h2 = mul_double_with_sign l1 h1 l2 h2 False"

section \<open>The number in two pieces\<close>

definition two_words :: "32 word \<Rightarrow> 32 word \<Rightarrow> 64 word" where
  "two_words l h = word_of_int (uint l + 2 ^ 32 * uint h)"

lemma word32_range: "0 \<le> uint (w :: 32 word)" "uint (w :: 32 word) < 2 ^ 32"
  using uint_lt2p [of w] by simp_all

lemma uint_word64: "0 \<le> k \<Longrightarrow> k < 2 ^ 64 \<Longrightarrow> uint (word_of_int k :: 64 word) = k"
  unfolding uint_word_of_int by (rule mod_pos_pos_trivial) simp_all

lemma uint_word32: "uint (word_of_int k :: 32 word) = k mod 2 ^ 32"
  unfolding uint_word_of_int by simp

lemma uint_two_words [two_word_simps]: "uint (two_words l h) = uint l + 2 ^ 32 * uint h"
  unfolding two_words_def
  by (rule uint_word64) (use word32_range [of l] word32_range [of h] in simp_all)

lemma wrap_around: "0 \<le> u \<Longrightarrow> u < 2 * b \<Longrightarrow> (u + b) mod (2 * b) - b = (if u < b then u else u - 2 * b)" for u b :: int
proof (cases "u < b")
  case False
  moreover assume "0 \<le> u" "u < 2 * b"
  ultimately have "u + b = u - b + 2 * b" "0 \<le> u - b" "u - b < 2 * b" by simp_all
  then have "(u + b) mod (2 * b) = u - b" by (simp only: mod_add_self2) (rule mod_pos_pos_trivial)
  with False show ?thesis by simp
qed (simp add: mod_pos_pos_trivial)

lemma sint_piece: "sint (w :: 32 word) = (if uint w < 2 ^ 31 then uint w else uint w - 2 ^ 32)"
  using word32_range [of w] wrap_around [of "uint w" "2 ^ 31"]
  by (simp add: sint_uint signed_take_bit_eq_take_bit_shift take_bit_eq_mod algebra_simps)

lemma sint_long: "sint (w :: 64 word) = (if uint w < 2 ^ 63 then uint w else uint w - 2 ^ 64)"
  using uint_lt2p [of w] wrap_around [of "uint w" "2 ^ 63"]
  by (simp add: sint_uint signed_take_bit_eq_take_bit_shift take_bit_eq_mod algebra_simps)

lemma sint_two_words [two_word_simps]: "sint (two_words l h) = uint l + 2 ^ 32 * sint h"
proof -
  have "uint l + 2 ^ 32 * uint h < 2 ^ 63 \<longleftrightarrow> uint h < 2 ^ 31"
  proof
    assume "uint l + 2 ^ 32 * uint h < 2 ^ 63"
    moreover have "0 \<le> uint l" by simp
    ultimately have "2 ^ 32 * uint h < 2 ^ 63" by linarith
    then show "uint h < 2 ^ 31" by simp
  next
    assume "uint h < 2 ^ 31"
    then have "2 ^ 32 * uint h \<le> 2 ^ 63 - 2 ^ 32" by simp
    with word32_range(2) [of l] show "uint l + 2 ^ 32 * uint h < 2 ^ 63" by linarith
  qed
  then show ?thesis unfolding sint_long uint_two_words sint_piece by auto
qed

lemma two_words_eq_iff [simp]: "two_words l h = two_words l' h' \<longleftrightarrow> l = l' \<and> h = h'"
proof
  assume "two_words l h = two_words l' h'"
  then have e: "uint l + 2 ^ 32 * uint h = uint l' + 2 ^ 32 * uint h'" by (metis uint_two_words)
  have "(uint l + 2 ^ 32 * uint h) div 2 ^ 32 = uint h" "(uint l' + 2 ^ 32 * uint h') div 2 ^ 32 = uint h'"
    using word32_range [of l] word32_range [of l'] by (simp_all add: div_pos_pos_trivial)
  with e have "uint h = uint h'" "uint l = uint l'" by simp_all
  then show "l = l' \<and> h = h'" by (simp add: word_uint_eq_iff)
qed simp

lemma two_words_exhaust: obtains l h where "w = two_words l h"
proof
  let ?l = "word_of_int (uint w) :: 32 word" and ?h = "word_of_int (uint w div 2 ^ 32) :: 32 word"
  have w: "0 \<le> uint w" "uint w < 2 ^ 64" using uint_lt2p [of w] by simp_all
  have "uint w div 2 ^ 32 < 2 ^ 32" using w by simp
  then have "uint ?h = uint w div 2 ^ 32" unfolding uint_word32 using w(1) by (intro mod_pos_pos_trivial) (simp_all add: pos_imp_zdiv_nonneg_iff)
  then have "uint (two_words ?l ?h) = uint w" unfolding uint_two_words uint_word32 by simp
  then show "w = two_words ?l ?h" by (simp only: word_uint_eq_iff)
qed

end
