(* ===== verification/DoubleDigits.thy ===== *)
theory DoubleDigits
  imports DoubleWord
begin

text \<open>
  Arrays of digits as numbers, and long multiplication: the eight digits that \<open>mul_double_with_sign\<close> computes are
  the product of the two numbers.
\<close>

section \<open>The number in a part of an array\<close>

definition digits_value :: "int list \<Rightarrow> nat \<Rightarrow> nat \<Rightarrow> int" where
  "digits_value xs a k = (\<Sum>j<k. xs ! (a + j) * BASE ^ j)"

definition are_digits :: "int list \<Rightarrow> bool" where
  "are_digits xs \<longleftrightarrow> (\<forall>x\<in>set xs. 0 \<le> x \<and> x < BASE)"

lemma digits_value_0 [simp]: "digits_value xs a 0 = 0"
  by (simp add: digits_value_def)

lemma digits_value_Suc [simp]: "digits_value xs a (Suc k) = digits_value xs a k + xs ! (a + k) * BASE ^ k"
  by (simp add: digits_value_def)

lemma digits_value_cong: "(\<And>j. j < k \<Longrightarrow> xs ! (a + j) = ys ! (b + j)) \<Longrightarrow> digits_value xs a k = digits_value ys b k"
  by (simp add: digits_value_def)

lemma digits_value_update:
  assumes "a \<le> i" "i < a + k" "i < length xs"
  shows "digits_value (xs[i := v]) a k = digits_value xs a k + (v - xs ! i) * BASE ^ (i - a)"
proof -
  have "(\<Sum>j<k. xs[i := v] ! (a + j) * BASE ^ j)
      = (\<Sum>j<k. xs ! (a + j) * BASE ^ j + (if j = i - a then (v - xs ! i) * BASE ^ j else 0))"
    using assms by (intro sum.cong) (auto simp: nth_list_update algebra_simps)
  also have "\<dots> = (\<Sum>j<k. xs ! (a + j) * BASE ^ j) + (v - xs ! i) * BASE ^ (i - a)"
    using assms by (simp add: sum.distrib less_diff_conv2)
  finally show ?thesis by (simp add: digits_value_def)
qed

lemma digits_value_update_outside [simp]: "i < a \<or> a + k \<le> i \<Longrightarrow> digits_value (xs[i := v]) a k = digits_value xs a k"
  by (rule digits_value_cong) auto

lemma digits_value_split: "digits_value xs a (k + m) = digits_value xs a k + digits_value xs (a + k) m * BASE ^ k"
  by (induction m) (simp_all add: algebra_simps power_add)

lemma BASE_pos [simp]: "0 < BASE" "1 < BASE" "BASE \<noteq> 0" "0 \<le> BASE" "1 \<le> BASE" "BASE \<noteq> 1"
  by (simp_all add: BASE_def)

lemma are_digits_nth: "are_digits xs \<Longrightarrow> i < length xs \<Longrightarrow> 0 \<le> xs ! i \<and> xs ! i < BASE"
  by (simp add: are_digits_def)

lemma are_digits_update: "are_digits xs \<Longrightarrow> 0 \<le> v \<Longrightarrow> v < BASE \<Longrightarrow> are_digits (xs[i := v])"
  using set_update_subset_insert [of xs i v] by (auto simp: are_digits_def)

lemma digits_value_bounds:
  assumes "are_digits xs" "a + k \<le> length xs"
  shows "0 \<le> digits_value xs a k \<and> digits_value xs a k < BASE ^ k"
  using assms(2)
proof (induction k)
  case (Suc k)
  have "0 \<le> xs ! (a + k) \<and> xs ! (a + k) < BASE" using are_digits_nth [OF assms(1)] Suc.prems by simp
  then have "xs ! (a + k) * BASE ^ k \<le> (BASE - 1) * BASE ^ k" "0 \<le> xs ! (a + k) * BASE ^ k"
    by (simp_all add: mult_right_mono)
  with Suc show ?case by (simp add: algebra_simps)
qed simp

text \<open>Splitting a number below \<open>BASE\<close> squared, which does not wrap around.\<close>

lemma parts:
  assumes "0 \<le> x" "x < BASE * BASE"
  shows "to_unsigned x = x" "LOWPART x + HIGHPART x * BASE = x" "0 \<le> LOWPART x" "LOWPART x < BASE"
    "0 \<le> HIGHPART x" "HIGHPART x < BASE" "HIGHPART x = x div BASE" "LOWPART x = x mod BASE"
proof -
  show u: "to_unsigned x = x" using assms by (intro to_unsigned_small) (simp_all add: BASE_def)
  then show "HIGHPART x = x div BASE" "LOWPART x = x mod BASE" by (simp_all add: HIGHPART_def LOWPART_def)
  then show "LOWPART x + HIGHPART x * BASE = x" by (metis add.commute div_mult_mod_eq)
  show "0 \<le> LOWPART x" "LOWPART x < BASE" "0 \<le> HIGHPART x"
    unfolding \<open>HIGHPART x = x div BASE\<close> \<open>LOWPART x = x mod BASE\<close> using assms(1)
    by (simp_all add: pos_imp_zdiv_nonneg_iff)
  have "x div BASE * BASE \<le> x" using div_mult_mod_eq [of x BASE] pos_mod_sign [OF BASE_pos(1), of x] by linarith
  moreover have "BASE * BASE \<le> x div BASE * BASE" if "BASE \<le> x div BASE" using that by (intro mult_right_mono) auto
  ultimately show "HIGHPART x < BASE" unfolding \<open>HIGHPART x = x div BASE\<close> using assms(2) by linarith
qed

lemma digit_product:
  assumes "0 \<le> a" "a < BASE" "0 \<le> b" "b < BASE"
  shows "0 \<le> a * b" "a * b \<le> (BASE - 1) * (BASE - 1)"
  using assms by (auto intro: mult_mono)

section \<open>Packing and unpacking\<close>

lemma encode_digits: "are_digits (encode l h)" "length (encode l h) = 4"
proof -
  have "0 \<le> LOWPART x \<and> LOWPART x < BASE \<and> 0 \<le> HIGHPART x \<and> HIGHPART x < BASE" for x
    using parts(3-6) [of "to_unsigned x"] by (simp add: LOWPART_def HIGHPART_def to_unsigned_def BASE_def)
  then show "are_digits (encode l h)" "length (encode l h) = 4" by (simp_all add: encode_def are_digits_def)
qed

lemma to_unsigned_piece: "to_unsigned (uint (w :: 32 word)) = uint w" "to_unsigned (sint w) = uint w"
  using word32_range [of w] by (simp_all add: to_unsigned_def sint_piece mod_pos_pos_trivial mod_diff_right_eq [symmetric])

lemma digits_value_4: "digits_value ws 0 4 = ws ! 0 + ws ! 1 * BASE + (ws ! 2 + ws ! 3 * BASE) * BASE ^ 2"
  by (simp add: eval_nat_numeral algebra_simps)

lemma encode_value: "digits_value (encode l h) 0 4 = uint (two_words l h)"
proof -
  have *: "u mod BASE + u div BASE * BASE = u" for u by (metis add.commute div_mult_mod_eq)
  have "digits_value (encode l h) 0 4
      = (uint l mod BASE + uint l div BASE * BASE) + (uint h mod BASE + uint h div BASE * BASE) * BASE ^ 2"
    by (simp add: digits_value_4 encode_def LOWPART_def HIGHPART_def to_unsigned_piece)
  then show ?thesis unfolding * uint_two_words by (simp add: BASE_def)
qed

lemma decode_value:
  assumes "are_digits ws" "4 \<le> length ws" "decode ws = (l, h)"
  shows "uint (two_words l h) = digits_value ws 0 4"
proof -
  have d: "0 \<le> ws ! k \<and> ws ! k < BASE" if "k < 4" for k using are_digits_nth [OF assms(1)] that assms(2) by simp
  have small: "uint (word_of_int (a + b * BASE) :: 32 word) = a + b * BASE"
    if "0 \<le> a \<and> a < BASE" "0 \<le> b \<and> b < BASE" for a b
    unfolding uint_word32 using that by (intro mod_pos_pos_trivial) (auto simp: BASE_def)
  have "uint l = ws ! 0 + ws ! 1 * BASE" "uint h = ws ! 2 + ws ! 3 * BASE"
    using assms(3) small d by (auto simp: decode_def)
  then show ?thesis unfolding uint_two_words digits_value_4 by (simp add: BASE_def)
qed

section \<open>Long multiplication\<close>

lemma mul_digit_value:
  assumes "are_digits x" "are_digits y" "are_digits prods" "length prods = 8" "i < length x" "j < length y" "i + j < 8"
    "0 \<le> carry" "carry < BASE" "mul_digit x y i j (carry, prods) = (carry', prods')"
  shows "0 \<le> carry' \<and> carry' < BASE \<and> are_digits prods' \<and> length prods' = 8
    \<and> digits_value prods' 0 8 + carry' * BASE ^ (i + j + 1)
        = digits_value prods 0 8 + carry * BASE ^ (i + j) + x ! i * y ! j * BASE ^ (i + j)
    \<and> (\<forall>k. k \<noteq> i + j \<longrightarrow> prods' ! k = prods ! k)"
proof -
  let ?p = "x ! i * y ! j" and ?d = "prods ! (i + j)"
  have a: "0 \<le> x ! i \<and> x ! i < BASE" "0 \<le> y ! j \<and> y ! j < BASE" "0 \<le> ?d \<and> ?d < BASE"
    using are_digits_nth assms by simp_all
  note p = digit_product [of "x ! i" "y ! j"]
  have w: "0 \<le> carry + ?p" "carry + ?p < BASE * BASE" "0 \<le> carry + ?p + ?d" "carry + ?p + ?d < BASE * BASE"
    using p a assms(8,9) by (auto simp: algebra_simps)
  note q = parts [OF w(3,4)]
  have r: "carry' = HIGHPART (carry + ?p + ?d)" "prods' = prods[i + j := LOWPART (carry + ?p + ?d)]"
    using assms(10) parts(1) [OF w(1,2)] q(1) by (simp_all add: mul_digit_def Let_def)
  have "LOWPART (carry + ?p + ?d) = carry + ?p + ?d - carry' * BASE" using q(2) r(1) by simp
  then have "digits_value prods' 0 8 = digits_value prods 0 8 + (carry + ?p - carry' * BASE) * BASE ^ (i + j)"
    unfolding r(2) using assms(4,7) by (simp add: digits_value_update)
  then show ?thesis
    using q are_digits_update [OF assms(3)] assms(4) r by (simp add: algebra_simps)
qed

lemma mul_row_value:
  assumes d: "are_digits x" "are_digits y" "length x = 4" "length y = 4" and p: "are_digits prods" "length prods = 8" "i < 4"
    and zero: "\<forall>k. i + 4 \<le> k \<and> k < 8 \<longrightarrow> prods ! k = 0"
  shows "are_digits (mul_row x y i prods) \<and> length (mul_row x y i prods) = 8
    \<and> digits_value (mul_row x y i prods) 0 8 = digits_value prods 0 8 + x ! i * BASE ^ i * digits_value y 0 4
    \<and> (\<forall>k. i + 5 \<le> k \<and> k < 8 \<longrightarrow> mul_row x y i prods ! k = 0)"
proof -
  have row: "0 \<le> carry \<and> carry < BASE \<and> are_digits ps \<and> length ps = 8
      \<and> digits_value ps 0 8 + carry * BASE ^ (i + n) = digits_value prods 0 8 + x ! i * BASE ^ i * digits_value y 0 n
      \<and> (\<forall>k. i + n \<le> k \<longrightarrow> ps ! k = prods ! k)"
    if "n \<le> 4" "fold (mul_digit x y i) [0..<n] (0, prods) = (carry, ps)" for n carry ps
    using that
  proof (induction n arbitrary: carry ps)
    case (Suc n)
    obtain c qs where c: "fold (mul_digit x y i) [0..<n] (0, prods) = (c, qs)" by (cases "fold (mul_digit x y i) [0..<n] (0, prods)")
    note IH = Suc.IH [OF _ c]
    have "mul_digit x y i n (c, qs) = (carry, ps)" using Suc.prems(2) c by simp
    with mul_digit_value [OF d(1,2) _ _ _ _ _ _ _ this] IH Suc.prems(1) d(3,4) p(3) show ?case
      by (auto simp: algebra_simps power_add)
  qed (use p in simp)
  obtain carry ps where c: "fold (mul_digit x y i) [0..<4] (0, prods) = (carry, ps)" by (cases "fold (mul_digit x y i) [0..<4] (0, prods)")
  note r = row [OF order_refl c]
  have m: "mul_row x y i prods = ps[i + 4 := carry]" by (simp add: mul_row_def c)
  have "ps ! (i + 4) = 0" using r zero p(3) by simp
  then have "digits_value (ps[i + 4 := carry]) 0 8 = digits_value ps 0 8 + carry * BASE ^ (i + 4)"
    using r p(3) by (simp add: digits_value_update)
  then show ?thesis using r zero p(3) are_digits_update [of ps carry] unfolding m by auto
qed

lemma mul_digits_value:
  assumes "are_digits x" "are_digits y" "length x = 4" "length y = 4"
  shows "are_digits (mul_digits x y) \<and> length (mul_digits x y) = 8
    \<and> digits_value (mul_digits x y) 0 8 = digits_value x 0 4 * digits_value y 0 4"
proof -
  have z: "digits_value (replicate 8 0) 0 8 = 0" by (simp add: digits_value_def)
  have rows: "are_digits ps \<and> length ps = 8 \<and> digits_value ps 0 8 = digits_value x 0 n * digits_value y 0 4
      \<and> (\<forall>k. n + 4 \<le> k \<and> k < 8 \<longrightarrow> ps ! k = 0)"
    if "n \<le> 4" "ps = fold (mul_row x y) [0..<n] (replicate 8 0)" for n ps
    using that
  proof (induction n arbitrary: ps)
    case 0
    then show ?case using z by (simp add: are_digits_def)
  next
    case (Suc n)
    let ?qs = "fold (mul_row x y) [0..<n] (replicate 8 0)"
    have IH: "are_digits ?qs \<and> length ?qs = 8 \<and> digits_value ?qs 0 8 = digits_value x 0 n * digits_value y 0 4
      \<and> (\<forall>k. n + 4 \<le> k \<and> k < 8 \<longrightarrow> ?qs ! k = 0)" using Suc.IH [of ?qs] Suc.prems(1) by simp
    have "ps = mul_row x y n ?qs" using Suc.prems(2) by simp
    then show ?case
      using mul_row_value [OF assms, of ?qs n] IH Suc.prems(1) by (simp add: algebra_simps)
  qed
  from rows [OF order_refl refl] show ?thesis by (simp add: mul_digits_def)
qed

end
