(* ===== verification/DoubleArith.thy ===== *)
theory DoubleArith
  imports DoubleDigits
begin

text \<open>
  Addition, negation and multiplication of two-word integers compute the number modulo two to the power 64, and
  when they report an overflow.
\<close>

section \<open>Values\<close>

lemma two_words_of_int: "(word_of_int (x + 2 ^ 32 * y) :: 64 word) = two_words (word_of_int x) (word_of_int (y + x div 2 ^ 32))"
proof -
  have "(x + 2 ^ 32 * y) mod (2 ^ 32 * 2 ^ 32)
      = 2 ^ 32 * (((x + 2 ^ 32 * y) div 2 ^ 32) mod 2 ^ 32) + (x + 2 ^ 32 * y) mod 2 ^ 32"
    by (rule zmod_zmult2_eq) simp
  also have "(x + 2 ^ 32 * y) div 2 ^ 32 = y + x div 2 ^ 32" by (simp add: div_mult_self2)
  also have "(x + 2 ^ 32 * y) mod 2 ^ 32 = x mod 2 ^ 32" by simp
  finally have "uint (word_of_int (x + 2 ^ 32 * y) :: 64 word)
      = uint (two_words (word_of_int x) (word_of_int (y + x div 2 ^ 32)))"
    unfolding uint_two_words uint_word32 uint_word_of_int [where 'a = 64] by (simp del: of_int_add of_int_mult)
  then show ?thesis by (simp only: word_uint_eq_iff)
qed

lemma two_words_word: "two_words l h = word_of_int (uint l + 2 ^ 32 * uint h)"
  by (simp only: two_words_def)

definition value_of :: "32 word \<times> 32 word \<times> bool \<Rightarrow> 64 word" where
  "value_of r = (case r of (l, h, overflow) \<Rightarrow> two_words l h)"

definition overflows :: "32 word \<times> 32 word \<times> bool \<Rightarrow> bool" where
  "overflows r = (case r of (l, h, overflow) \<Rightarrow> overflow)"

lemma value_of_simps [simp]: "value_of (l, h, b) = two_words l h" "overflows (l, h, b) = b"
  by (simp_all add: value_of_def overflows_def)

section \<open>Addition\<close>

lemma carry_out: "of_bool ((l1 + l2 :: 32 word) < l1) = (uint l1 + uint l2) div 2 ^ 32"
proof -
  have r: "0 \<le> uint l1" "uint l1 < 2 ^ 32" "0 \<le> uint l2" "uint l2 < 2 ^ 32" using word32_range by blast+
  have s: "uint (l1 + l2) = (uint l1 + uint l2) mod 2 ^ 32" by (simp add: uint_word_ariths)
  show ?thesis
  proof (cases "uint l1 + uint l2 < 2 ^ 32")
    case True
    with r s have "uint (l1 + l2) = uint l1 + uint l2" by (simp add: mod_pos_pos_trivial)
    with r have "\<not> uint (l1 + l2) < uint l1" by linarith
    with True r show ?thesis by (simp add: word_less_def div_pos_pos_trivial)
  next
    case False
    have "uint l1 + uint l2 = uint l1 + uint l2 - 2 ^ 32 + 2 ^ 32" by simp
    then have "uint (l1 + l2) = (uint l1 + uint l2 - 2 ^ 32) mod 2 ^ 32"
      "(uint l1 + uint l2) div 2 ^ 32 = (uint l1 + uint l2 - 2 ^ 32) div 2 ^ 32 + 1"
      using s by (metis mod_add_self2, simp add: div_add_self2 [of "2 ^ 32 :: int" "uint l1 + uint l2 - 2 ^ 32", symmetric])
    moreover have "0 \<le> uint l1 + uint l2 - 2 ^ 32" "uint l1 + uint l2 - 2 ^ 32 < 2 ^ 32" using False r by linarith+
    ultimately have "uint (l1 + l2) = uint l1 + uint l2 - 2 ^ 32" "(uint l1 + uint l2) div 2 ^ 32 = 1"
      by (simp_all only: mod_pos_pos_trivial div_pos_pos_trivial)
    moreover from this r have "uint (l1 + l2) < uint l1" by linarith
    ultimately show ?thesis by (simp add: word_less_def)
  qed
qed

lemma add_double_value: "value_of (add_double_with_sign l1 h1 l2 h2 u) = two_words l1 h1 + two_words l2 h2"
proof -
  let ?c = "of_bool (l1 + l2 < l1)"
  have "two_words l1 h1 + two_words l2 h2 = word_of_int ((uint l1 + uint l2) + 2 ^ 32 * (uint h1 + uint h2))"
    by (simp only: two_words_word wi_hom_add) (simp add: algebra_simps)
  also have "\<dots> = two_words (l1 + l2) (h1 + h2 + ?c)"
    unfolding two_words_of_int carry_out [symmetric] by (simp only: wi_hom_add [symmetric] word_of_int_uint) (simp add: of_bool_def)
  finally show ?thesis by (simp add: add_double_with_sign_def Let_def)
qed

lemma sign_bit: "sint (w :: 32 word) < 0 \<longleftrightarrow> bit w 31"
  using bit_last_iff [of w] by simp

lemma OVERFLOW_SUM_SIGN_iff: "OVERFLOW_SUM_SIGN a b s \<longleftrightarrow> (sint a < 0 \<longleftrightarrow> sint b < 0) \<and> (sint a < 0 \<longleftrightarrow> 0 \<le> sint s)"
  unfolding OVERFLOW_SUM_SIGN_def not_less [symmetric] sign_bit by (auto simp: bit_simps)

lemma sint_high: "sint (two_words l h) < 0 \<longleftrightarrow> sint h < 0"
proof -
  have l: "0 \<le> uint l" "uint l < 2 ^ 32" using word32_range by blast+
  show ?thesis
  proof
    assume "sint (two_words l h) < 0"
    with l have "2 ^ 32 * sint h < 0" unfolding sint_two_words by linarith
    then show "sint h < 0" by simp
  next
    assume "sint h < 0"
    then have "2 ^ 32 * sint h \<le> - (2 ^ 32)" by simp
    with l show "sint (two_words l h) < 0" unfolding sint_two_words by linarith
  qed
qed

lemma sint_range64: "- (2 ^ 63) \<le> sint (w :: 64 word)" "sint (w :: 64 word) < 2 ^ 63"
  using sint_ge [of w] sint_lt [of w] by simp_all

lemma sint_of_int: "\<exists>k. sint (word_of_int x :: 64 word) = x + k * 2 ^ 64"
proof -
  have "uint (word_of_int x :: 64 word) = x - x div 2 ^ 64 * 2 ^ 64" by (simp add: uint_word_of_int minus_div_mult_eq_mod)
  then have "sint (word_of_int x :: 64 word) = x + (- (x div 2 ^ 64)) * 2 ^ 64
    \<or> sint (word_of_int x :: 64 word) = x + (- (x div 2 ^ 64) - 1) * 2 ^ 64"
    unfolding sint_long by (simp add: algebra_simps)
  then show ?thesis by blast
qed

lemma signed_overflow: "sint (a + b) \<noteq> sint a + sint b \<longleftrightarrow> (sint a < 0 \<longleftrightarrow> sint b < 0) \<and> (sint a < 0 \<longleftrightarrow> 0 \<le> sint (a + b))"
  for a b :: "64 word"
proof -
  have "a + b = word_of_int (sint a + sint b)" by (simp add: wi_hom_add [symmetric])
  then obtain k where k: "sint (a + b) = sint a + sint b + k * 2 ^ 64" using sint_of_int by metis
  have r: "- (2 ^ 63) \<le> sint a" "sint a < 2 ^ 63" "- (2 ^ 63) \<le> sint b" "sint b < 2 ^ 63"
    "- (2 ^ 63) \<le> sint (a + b)" "sint (a + b) < 2 ^ 63" using sint_range64 by blast+
  with k have "k = 0 \<or> k = 1 \<or> k = - 1" by (auto; linarith)
  then show ?thesis using k r by auto
qed

lemma add_double_signed: "overflows (add_double_with_sign l1 h1 l2 h2 False)
    \<longleftrightarrow> sint (two_words l1 h1 + two_words l2 h2) \<noteq> sint (two_words l1 h1) + sint (two_words l2 h2)"
  unfolding signed_overflow
  unfolding add_double_value [symmetric, of l1 h1 l2 h2 False]
  by (simp add: add_double_with_sign_def Let_def OVERFLOW_SUM_SIGN_iff sint_high not_less [symmetric])

lemma carry_flag:
  fixes a b c n :: int
  assumes "0 \<le> a" "a < n" "0 \<le> b" "b < n" "c = 0 \<or> c = 1"
  shows "n \<le> a + b + c \<longleftrightarrow> (if a + b + c < n then a + b + c else a + b + c - n) < a \<or> (c = 1 \<and> b = n - 1)"
  using assms by auto

text \<open>The report for unsigned numbers misses one case: a carry into an upper piece that is all ones.\<close>

lemma add_double_unsigned: "2 ^ 64 \<le> uint (two_words l1 h1) + uint (two_words l2 h2)
    \<longleftrightarrow> overflows (add_double_with_sign l1 h1 l2 h2 True) \<or> (l1 + l2 < l1 \<and> h2 = - 1)"
proof -
  define c where "c = (uint l1 + uint l2) div 2 ^ 32"
  define s where "s = uint h1 + uint h2 + c"
  have r: "0 \<le> uint l1" "uint l1 < 2 ^ 32" "0 \<le> uint l2" "uint l2 < 2 ^ 32"
    "0 \<le> uint h1" "uint h1 < 2 ^ 32" "0 \<le> uint h2" "uint h2 < 2 ^ 32" using word32_range by blast+
  have c: "c = (if l1 + l2 < l1 then 1 else 0)" unfolding c_def carry_out [symmetric] by simp
  have l: "uint l1 + uint l2 = (uint l1 + uint l2) mod 2 ^ 32 + c * 2 ^ 32" unfolding c_def by simp
  have l_range: "0 \<le> (uint l1 + uint l2) mod 2 ^ 32" "(uint l1 + uint l2) mod 2 ^ 32 < 2 ^ 32" by simp_all
  have sum: "uint (two_words l1 h1) + uint (two_words l2 h2) = (uint l1 + uint l2) mod 2 ^ 32 + 2 ^ 32 * s"
    unfolding uint_two_words s_def using l by (simp add: algebra_simps)
  have over: "2 ^ 64 \<le> uint (two_words l1 h1) + uint (two_words l2 h2) \<longleftrightarrow> 2 ^ 32 \<le> s"
  proof
    assume "2 ^ 32 \<le> s"
    then have "2 ^ 64 \<le> 2 ^ 32 * s" by simp
    with l_range show "2 ^ 64 \<le> uint (two_words l1 h1) + uint (two_words l2 h2)" unfolding sum by linarith
  next
    assume "2 ^ 64 \<le> uint (two_words l1 h1) + uint (two_words l2 h2)"
    show "2 ^ 32 \<le> s"
    proof (rule ccontr)
      assume "\<not> 2 ^ 32 \<le> s"
      then have "2 ^ 32 * s \<le> 2 ^ 64 - 2 ^ 32" by simp
      with l_range \<open>2 ^ 64 \<le> _\<close> show False unfolding sum by linarith
    qed
  qed
  have h: "uint (h1 + h2 + of_bool (l1 + l2 < l1)) = s mod 2 ^ 32"
    unfolding s_def c by (simp add: uint_word_ariths mod_simps)
  have m1: "h2 = - 1 \<longleftrightarrow> uint h2 = 2 ^ 32 - 1" by (simp add: word_uint_eq_iff unsigned_minus_1_eq_mask mask_eq_exp_minus_1)
  have mod: "s mod 2 ^ 32 = (if s < 2 ^ 32 then s else s - 2 ^ 32)"
  proof (cases "s < 2 ^ 32")
    case True
    with r c show ?thesis by (simp add: mod_pos_pos_trivial s_def)
  next
    case False
    have "s = s - 2 ^ 32 + 2 ^ 32" by simp
    then have "s mod 2 ^ 32 = (s - 2 ^ 32) mod 2 ^ 32" by (metis mod_add_self2)
    moreover have "0 \<le> s - 2 ^ 32" "s - 2 ^ 32 < 2 ^ 32" using False r c unfolding s_def by (auto split: if_splits)
    ultimately show ?thesis using False by (simp only: mod_pos_pos_trivial) simp
  qed
  have flag: "overflows (add_double_with_sign l1 h1 l2 h2 True) \<longleftrightarrow> s mod 2 ^ 32 < uint h1"
    by (simp only: add_double_with_sign_def Let_def value_of_simps if_True
        word_less_def [of "h1 + h2 + of_bool (l1 + l2 < l1)" h1] h)
  show ?thesis
    using carry_flag [of "uint h1" "2 ^ 32" "uint h2" c] r c unfolding over flag mod m1 s_def [symmetric] by simp
qed

section \<open>Negation\<close>

lemma neg_double_value: "value_of (neg_double l h) = - two_words l h"
proof -
  have n: "uint (NOT h) = 2 ^ 32 - 1 - uint h"
  proof -
    have "NOT h = word_of_int (2 ^ 32 - 1 - uint h)" by (simp add: not_eq_complement)
    then have "uint (NOT h) = (2 ^ 32 - 1 - uint h) mod 2 ^ 32" by (simp only: uint_word32)
    also have "\<dots> = 2 ^ 32 - 1 - uint h" using word32_range [of h] by (intro mod_pos_pos_trivial) linarith+
    finally show ?thesis .
  qed
  have "- two_words l h = word_of_int (- uint l + 2 ^ 32 * (- uint h))" by (simp add: two_words_word algebra_simps)
  also have "\<dots> = two_words (- l) (word_of_int (- uint h + (- uint l) div 2 ^ 32))" unfolding two_words_of_int by simp
  also have "\<dots> = value_of (neg_double l h)"
  proof (cases "l = 0")
    case False
    then have "0 < uint l" "uint l < 2 ^ 32" using word32_range [of l] by (simp_all add: word_uint_eq_iff order_less_le)
    then have "(- uint l) div 2 ^ 32 = - 1"
      by (simp add: zdiv_zminus1_eq_if div_pos_pos_trivial mod_pos_pos_trivial)
    with False show ?thesis by (simp add: neg_double_def not_eq_complement)
  qed (simp add: neg_double_def)
  finally show ?thesis by simp
qed

lemma neg_double_overflows: "overflows (neg_double l h) \<longleftrightarrow> sint (two_words l h) = - (2 ^ 63)"
proof -
  have "sint (two_words 0 (- (2 ^ 31))) = - (2 ^ 63)" unfolding sint_two_words by simp
  then have eq: "sint (two_words l h) = - (2 ^ 63) \<longleftrightarrow> l = 0 \<and> h = - (2 ^ 31)"
    by (metis two_words_eq_iff word_eq_iff_signed)
  have bit31: "bit w 31 \<longleftrightarrow> 2 ^ 31 \<le> uint w" for w :: "32 word"
    using word32_range [of w] unfolding sign_bit [symmetric] sint_piece by auto
  have "sint (- h AND h) < 0 \<longleftrightarrow> h = - (2 ^ 31)"
  proof (cases "uint h = 0")
    case False
    then have "(- uint h) mod 2 ^ 32 = 2 ^ 32 - uint h"
      using word32_range [of h] by (simp add: zmod_zminus1_eq_if mod_pos_pos_trivial)
    then have "uint (- h) = 2 ^ 32 - uint h" by (simp add: uint_word_ariths)
    then have "sint (- h AND h) < 0 \<longleftrightarrow> uint h = 2 ^ 31"
      unfolding sign_bit bit_and_iff unfolding bit31 by auto
    also have "\<dots> \<longleftrightarrow> uint h = uint (- (2 ^ 31) :: 32 word)" by simp
    finally show ?thesis by (simp only: word_uint_eq_iff)
  next
    case True
    then have "h = 0" by (simp only: word_uint_eq_iff uint_0_eq)
    then show ?thesis by simp
  qed
  then show ?thesis unfolding eq by (auto simp: neg_double_def)
qed

section \<open>Multiplication\<close>

lemma mul_double_value: "value_of (mul_double_with_sign l1 h1 l2 h2 u) = two_words l1 h1 * two_words l2 h2"
  and mul_double_top: "decode (drop 4 (mul_digits (encode l1 h1) (encode l2 h2))) = (toplow, tophigh) \<Longrightarrow>
    uint (two_words l1 h1) * uint (two_words l2 h2)
      = uint (value_of (mul_double_with_sign l1 h1 l2 h2 u)) + uint (two_words toplow tophigh) * 2 ^ 64"
proof -
  let ?p = "mul_digits (encode l1 h1) (encode l2 h2)"
  note p = mul_digits_value [OF encode_digits(1) encode_digits(1) encode_digits(2) encode_digits(2), of l1 h1 l2 h2]
  have z: "(word_of_int (2 ^ 64) :: 64 word) = 0" by (simp only: word_uint_eq_iff uint_word_of_int) simp
  obtain lv hv where d: "decode ?p = (lv, hv)" by (cases "decode ?p")
  obtain tlo thi where t: "decode (drop 4 ?p) = (tlo, thi)" by (cases "decode (drop 4 ?p)")
  have v: "value_of (mul_double_with_sign l1 h1 l2 h2 u) = two_words lv hv"
    by (simp add: mul_double_with_sign_def Let_def d)
  have top_digits: "are_digits (drop 4 ?p)" using p set_drop_subset [of 4 ?p] by (auto simp: are_digits_def)
  have "digits_value (drop 4 ?p) 0 4 = digits_value ?p 4 4" using p by (intro digits_value_cong) simp
  then have "digits_value ?p 0 8 = uint (two_words lv hv) + uint (two_words tlo thi) * 2 ^ 64"
    using decode_value [OF _ _ d] decode_value [OF top_digits _ t] p digits_value_split [of ?p 0 4 4]
    by (simp add: BASE_def)
  then have m: "uint (two_words l1 h1) * uint (two_words l2 h2) = uint (two_words lv hv) + uint (two_words tlo thi) * 2 ^ 64"
    using p by (simp add: encode_value)
  have "two_words l1 h1 * two_words l2 h2 = word_of_int (uint (two_words l1 h1) * uint (two_words l2 h2))"
    by (simp add: wi_hom_mult [symmetric])
  also have "\<dots> = two_words lv hv"
    unfolding m by (simp only: wi_hom_add [symmetric] wi_hom_mult [symmetric] z mult_zero_right add_0_right word_of_int_uint)
  finally show "value_of (mul_double_with_sign l1 h1 l2 h2 u) = two_words l1 h1 * two_words l2 h2" using v by simp
  show "uint (two_words l1 h1) * uint (two_words l2 h2)
      = uint (value_of (mul_double_with_sign l1 h1 l2 h2 u)) + uint (two_words toplow tophigh) * 2 ^ 64"
    if "decode (drop 4 ?p) = (toplow, tophigh)" using that m t v by simp
qed

lemma two_words_0: "two_words 0 0 = 0" "two_words (- 1) (- 1) = - 1"
  by (simp_all only: word_uint_eq_iff uint_two_words) (simp_all add: unsigned_minus_1_eq_mask mask_eq_exp_minus_1)

lemma two_words_zero_iff: "l OR h = 0 \<longleftrightarrow> two_words l h = 0"
  unfolding two_words_0 [symmetric] by (simp add: or_eq_0_iff)

lemma two_words_ones_iff: "two_words (NOT l) (NOT h) = 0 \<longleftrightarrow> two_words l h = - 1"
proof -
  have "NOT x = 0 \<longleftrightarrow> x = - 1" for x :: "32 word" by (metis bit.double_compl bit.compl_zero)
  then show ?thesis unfolding two_words_0 [symmetric] by (simp only: two_words_eq_iff)
qed

lemma top_part:
  fixes a n t :: int
  assumes "0 \<le> a" "a < n" "0 \<le> t"
  shows "n \<le> a + t * n \<longleftrightarrow> \<not> t = 0"
proof (cases "t = 0")
  case False
  then have "1 * n \<le> t * n" using assms by (intro mult_right_mono) auto
  with assms False show ?thesis by linarith
qed (use assms in simp)

lemma mul_double_unsigned: "overflows (mul_double_with_sign l1 h1 l2 h2 True)
    \<longleftrightarrow> 2 ^ 64 \<le> uint (two_words l1 h1) * uint (two_words l2 h2)"
proof -
  obtain tlo thi where t: "decode (drop 4 (mul_digits (encode l1 h1) (encode l2 h2))) = (tlo, thi)"
    by (cases "decode (drop 4 (mul_digits (encode l1 h1) (encode l2 h2)))")
  let ?low = "value_of (mul_double_with_sign l1 h1 l2 h2 True)" and ?top = "uint (two_words tlo thi)"
  have flag: "overflows (mul_double_with_sign l1 h1 l2 h2 True) \<longleftrightarrow> \<not> ?top = 0"
    by (simp add: mul_double_with_sign_def Let_def t two_words_zero_iff unsigned_eq_0_iff split: prod.split)
  have "0 \<le> uint ?low" "uint ?low < 2 ^ 64" "0 \<le> ?top" using uint_lt2p [of ?low] by simp_all
  then show ?thesis unfolding flag mul_double_top [OF t, of True] by (rule top_part [symmetric])
qed

lemma top_adjust_value:
  assumes "top_adjust h l2 h2 (tlo, thi) = (tlo', thi')"
  shows "two_words tlo' thi' = (if sint h < 0 then two_words tlo thi - two_words l2 h2 else two_words tlo thi)"
proof (cases "sint h < 0")
  case True
  obtain nl nh b where n: "neg_double l2 h2 = (nl, nh, b)" by (cases "neg_double l2 h2")
  obtain l' h' b' where a: "add_double nl nh tlo thi = (l', h', b')" by (cases "add_double nl nh tlo thi")
  have "two_words nl nh = - two_words l2 h2" using neg_double_value [of l2 h2] n by simp
  then have "two_words l' h' = two_words tlo thi - two_words l2 h2"
    using add_double_value [of nl nh tlo thi False] a by (simp add: add_double_def)
  with assms n a True show ?thesis by (simp add: top_adjust_def pieces_def)
qed (use assms in \<open>simp add: top_adjust_def\<close>)

lemma product_range:
  fixes a b :: int
  assumes "- (2 ^ 63) \<le> a" "a < 2 ^ 63" "- (2 ^ 63) \<le> b" "b < 2 ^ 63"
  shows "- (2 ^ 126) \<le> a * b" "a * b \<le> 2 ^ 126"
proof -
  have "\<bar>a\<bar> * \<bar>b\<bar> \<le> 2 ^ 63 * 2 ^ 63" using assms by (intro mult_mono) auto
  then have "\<bar>a * b\<bar> \<le> 2 ^ 126" by (simp add: abs_mult)
  then show "- (2 ^ 126) \<le> a * b" "a * b \<le> 2 ^ 126" by linarith+
qed

lemma mul_double_signed: "overflows (mul_double_with_sign l1 h1 l2 h2 False)
    \<longleftrightarrow> sint (two_words l1 h1 * two_words l2 h2) \<noteq> sint (two_words l1 h1) * sint (two_words l2 h2)"
proof -
  let ?a = "two_words l1 h1" and ?b = "two_words l2 h2"
  obtain tlo thi where t: "decode (drop 4 (mul_digits (encode l1 h1) (encode l2 h2))) = (tlo, thi)"
    by (cases "decode (drop 4 (mul_digits (encode l1 h1) (encode l2 h2)))")
  obtain tl1 th1 where t1: "top_adjust h1 l2 h2 (tlo, thi) = (tl1, th1)" by (cases "top_adjust h1 l2 h2 (tlo, thi)")
  obtain tl2 th2 where t2: "top_adjust h2 l1 h1 (tl1, th1) = (tl2, th2)" by (cases "top_adjust h2 l1 h1 (tl1, th1)")
  let ?T = "two_words tl2 th2" and ?low = "?a * ?b"
  have flag: "overflows (mul_double_with_sign l1 h1 l2 h2 False)
      \<longleftrightarrow> (if sint ?low < 0 then ?T \<noteq> - 1 else ?T \<noteq> 0)"
    unfolding mul_double_value [symmetric, of l1 h1 l2 h2 False]
    by (simp add: mul_double_with_sign_def Let_def t t1 t2 two_words_zero_iff two_words_ones_iff sint_high split: prod.split)
  define u v where "u = (if sint ?a < 0 then 1 else 0 :: int)" and "v = (if sint ?b < 0 then 1 else 0 :: int)"
  have sa: "sint ?a = uint ?a - u * 2 ^ 64" and sb: "sint ?b = uint ?b - v * 2 ^ 64"
    using uint_lt2p [of ?a] uint_lt2p [of ?b] unfolding u_def v_def sint_long by auto
  let ?X = "uint (two_words tlo thi) - u * uint ?b - v * uint ?a + u * v * 2 ^ 64"
  have prod: "sint ?a * sint ?b = uint ?low + ?X * 2 ^ 64"
    unfolding sa sb using mul_double_top [OF t, of False] by (simp add: mul_double_value algebra_simps)
  have "?T = word_of_int ?X"
  proof -
    have z: "(word_of_int (u * v * 2 ^ 64) :: 64 word) = 0" by (simp only: word_uint_eq_iff uint_word_of_int) simp
    have "word_of_int ?X = two_words tlo thi - word_of_int u * ?b - word_of_int v * ?a"
      by (simp only: wi_hom_add [symmetric] wi_hom_sub [symmetric] z add_0_right) (simp add: wi_hom_mult [symmetric])
    then show ?thesis
      using top_adjust_value [OF t1] top_adjust_value [OF t2] by (simp add: u_def v_def sint_high)
  qed
  then obtain k where k: "sint ?T = ?X + k * 2 ^ 64" using sint_of_int by metis
  have r: "- (2 ^ 126) \<le> uint ?low + ?X * 2 ^ 64" "uint ?low + ?X * 2 ^ 64 \<le> 2 ^ 126"
    using product_range [of "sint ?a" "sint ?b"] sint_range64 unfolding prod by blast+
  have l: "0 \<le> uint ?low" "uint ?low < 2 ^ 64" using uint_lt2p [of ?low] by simp_all
  have "- (2 ^ 63) < ?X" "?X < 2 ^ 63" using r l by (simp_all, linarith+)
  with k sint_range64 [of ?T] have T: "sint ?T = ?X" by auto
  have "sint ?low = uint ?low - (if sint ?low < 0 then 2 ^ 64 else 0)" using l unfolding sint_long by auto
  then have "sint ?low = sint ?a * sint ?b \<longleftrightarrow> (if sint ?low < 0 then sint ?T = - 1 else sint ?T = 0)"
    unfolding prod T by (auto simp: algebra_simps)
  moreover have "?T = 0 \<longleftrightarrow> sint ?T = 0" "?T = - 1 \<longleftrightarrow> sint ?T = - 1"
    using word_eq_iff_signed [of ?T 0] word_eq_iff_signed [of ?T "- 1"] by simp_all
  ultimately show ?thesis unfolding flag by auto
qed

lemma sint_word64: "- (2 ^ 63) \<le> k \<Longrightarrow> k < 2 ^ 63 \<Longrightarrow> sint (word_of_int k :: 64 word) = k"
  by (simp add: sint_sbintrunc' signed_take_bit_int_eq_self)

lemma negation_overflows: "sint (- a) \<noteq> - sint a \<longleftrightarrow> sint a = - (2 ^ 63)" for a :: "64 word"
proof (cases "sint a = - (2 ^ 63)")
  case True
  then show ?thesis using sint_range64(2) [of "- a"] by linarith
next
  case False
  then have "- (2 ^ 63) \<le> - sint a" "- sint a < 2 ^ 63" using sint_range64 [of a] by linarith+
  then have "sint (word_of_int (- sint a) :: 64 word) = - sint a" by (rule sint_word64)
  with False show ?thesis by simp
qed

section \<open>Properties\<close>


end
