(* ===== verification/DoubleDivide.thy ===== *)
theory DoubleDivide
  imports DoubleWord
begin

text \<open>
  Division of two-word integers: \<open>div_and_round_double\<close> of \<open>gcc/fold-const.c\<close>, with the division of numbers in digits
  of 16 bits after Knuth. The codes are the divisions of \<open>gcc/tree.def\<close>; every other one is \<open>Other_code\<close>.
\<close>

datatype tree_code =
    TRUNC_DIV_EXPR | CEIL_DIV_EXPR | FLOOR_DIV_EXPR | ROUND_DIV_EXPR
  | TRUNC_MOD_EXPR | CEIL_MOD_EXPR | FLOOR_MOD_EXPR | ROUND_MOD_EXPR
  | EXACT_DIV_EXPR | Other_code

section \<open>A divisor of one digit\<close>

definition short_digit :: "int \<Rightarrow> int list \<Rightarrow> nat \<Rightarrow> int \<times> int list \<Rightarrow> int \<times> int list" where
  "short_digit lden num i s =
    (case s of
       (carry, quo) \<Rightarrow>
         let work = to_unsigned (num ! i + carry * BASE)
         in (work mod lden, quo[i := work div lden]))"

definition short_division :: "int \<Rightarrow> int list \<Rightarrow> int list" where
  "short_division lden num = snd (fold (short_digit lden num) [3, 2, 1, 0] (0, replicate 4 0))"

section \<open>Longer divisors\<close>

primrec highest_digit :: "int list \<Rightarrow> nat \<Rightarrow> nat option" where
  "highest_digit den 0 = (if den ! 0 \<noteq> 0 then Some 0 else None)"
| "highest_digit den (Suc i) = (if den ! Suc i \<noteq> 0 then Some (Suc i) else highest_digit den i)"

definition scale_digit :: "int \<Rightarrow> nat \<Rightarrow> int \<times> int list \<Rightarrow> int \<times> int list" where
  "scale_digit scale i s =
    (case s of
       (carry, xs) \<Rightarrow>
         let work = to_unsigned (xs ! i * scale + carry)
         in (HIGHPART work, xs[i := LOWPART work]))"

text \<open>The scaling of the divisor keeps track of its highest digit.\<close>

definition scale_den_digit :: "int \<Rightarrow> nat \<Rightarrow> int \<times> int list \<times> nat \<Rightarrow> int \<times> int list \<times> nat" where
  "scale_den_digit scale i s =
    (case s of
       (carry, den, den_hi_sig) \<Rightarrow>
         (case scale_digit scale i (carry, den) of
            (carry, den) \<Rightarrow> (carry, den, if den ! i \<noteq> 0 then i else den_hi_sig)))"

text \<open>The first digit of the divisor becomes at least half the base. The dividend has a fifth digit.\<close>

definition scale_operands :: "int list \<Rightarrow> int list \<Rightarrow> nat \<Rightarrow> int list \<times> int list \<times> nat" where
  "scale_operands num den den_hi_sig =
    (let scale = BASE div (den ! den_hi_sig + 1)
     in if scale > 1 then
          (case fold (scale_digit scale) [0..<4] (0, num) of
             (carry, num) \<Rightarrow>
               (case fold (scale_den_digit scale) [0..<4] (0, den, den_hi_sig) of
                  (_, den, den_hi_sig) \<Rightarrow> (num[4 := carry], den, den_hi_sig)))
        else (num, den, den_hi_sig))"

text \<open>The guess of a quotient digit from the first two digits of what is left, and its correction by a third one.\<close>

definition quotient_estimate :: "int list \<Rightarrow> int list \<Rightarrow> nat \<Rightarrow> nat \<Rightarrow> int" where
  "quotient_estimate num den den_hi_sig i =
    (let num_hi_sig = i + den_hi_sig + 1;
         work = to_unsigned (num ! num_hi_sig * BASE + num ! (num_hi_sig - 1));
         quo_est = (if num ! num_hi_sig \<noteq> den ! den_hi_sig then work div den ! den_hi_sig else BASE - 1);
         tmp = to_unsigned (work - quo_est * den ! den_hi_sig)
     in if tmp < BASE
          \<and> to_unsigned (den ! (den_hi_sig - 1) * quo_est) > to_unsigned (tmp * BASE + num ! (num_hi_sig - 2))
        then to_unsigned (quo_est - 1) else quo_est)"

definition subtract_digit :: "int list \<Rightarrow> int \<Rightarrow> nat \<Rightarrow> nat \<Rightarrow> int \<times> int list \<Rightarrow> int \<times> int list" where
  "subtract_digit den quo_est i j s =
    (case s of
       (carry, num) \<Rightarrow>
         let work = to_unsigned (quo_est * den ! j + carry);
             carry = HIGHPART work;
             work = to_unsigned (num ! (i + j) - LOWPART work)
         in (carry + (if HIGHPART work \<noteq> 0 then 1 else 0), num[i + j := LOWPART work]))"

definition add_back_digit :: "int list \<Rightarrow> nat \<Rightarrow> nat \<Rightarrow> int \<times> int list \<Rightarrow> int \<times> int list" where
  "add_back_digit den i j s =
    (case s of
       (carry, num) \<Rightarrow>
         let work = to_unsigned (num ! (i + j) + den ! j + carry)
         in (HIGHPART work, num[i + j := LOWPART work]))"

definition quotient_digit :: "int list \<Rightarrow> nat \<Rightarrow> nat \<Rightarrow> int list \<times> int list \<Rightarrow> int list \<times> int list" where
  "quotient_digit den den_hi_sig i s =
    (case s of
       (num, quo) \<Rightarrow>
         let num_hi_sig = i + den_hi_sig + 1;
             quo_est = quotient_estimate num den den_hi_sig i
         in case fold (subtract_digit den quo_est i) [0..<den_hi_sig + 1] (0, num) of
              (carry, num) \<Rightarrow>
                if num ! num_hi_sig < carry then
                  (case fold (add_back_digit den i) [0..<den_hi_sig + 1] (0, num) of
                     (carry, num) \<Rightarrow>
                       (num[num_hi_sig := num ! num_hi_sig + carry], quo[i := to_unsigned (quo_est - 1)]))
                else (num, quo[i := quo_est]))"

primrec quotient_digits :: "int list \<Rightarrow> nat \<Rightarrow> nat \<Rightarrow> int list \<times> int list \<Rightarrow> int list \<times> int list" where
  "quotient_digits den den_hi_sig 0 s = s"
| "quotient_digits den den_hi_sig (Suc i) s = quotient_digits den den_hi_sig i (quotient_digit den den_hi_sig i s)"

definition long_division :: "int list \<Rightarrow> int list \<Rightarrow> nat \<Rightarrow> int list" where
  "long_division num den den_hi_sig =
    (case scale_operands num den den_hi_sig of
       (num, den, den_hi_sig) \<Rightarrow> snd (quotient_digits den den_hi_sig (4 - den_hi_sig) (num, replicate 4 0)))"

section \<open>Division with a rounding\<close>

text \<open>The quotient of unsigned numbers; the divisor is not zero.\<close>

definition divide_unsigned :: "32 word \<Rightarrow> 32 word \<Rightarrow> 32 word \<Rightarrow> 32 word \<Rightarrow> (32 word \<times> 32 word) option" where
  "divide_unsigned lnum hnum lden hden =
    (if hnum = 0 \<and> hden = 0 then Some (lnum div lden, 0)
     else if hnum = 0 then Some (0, 0)
     else
       let num = encode lnum hnum @ [0];
           den = encode lden hden
       in if hden = 0 \<and> uint lden < BASE then Some (decode (short_division (uint lden) num))
          else
            (case highest_digit den 3 of
               None \<Rightarrow> None
             | Some den_hi_sig \<Rightarrow> Some (decode (long_division num den den_hi_sig))))"

text \<open>The remainder is the dividend less quotient times divisor.\<close>

definition division_remainder :: "32 word \<Rightarrow> 32 word \<Rightarrow> 32 word \<Rightarrow> 32 word \<Rightarrow> 32 word \<Rightarrow> 32 word \<Rightarrow> 32 word \<times> 32 word" where
  "division_remainder lnum hnum lquo hquo lden hden =
    (case mul_double lquo hquo lden hden of
       (lrem, hrem, _) \<Rightarrow>
         (case neg_double lrem hrem of (lrem, hrem, _) \<Rightarrow> pieces (add_double lnum hnum lrem hrem)))"

text \<open>Whether twice the remainder reaches the divisor, whose absolute value is given.\<close>

definition reaches_half :: "32 word \<times> 32 word \<Rightarrow> 32 word \<Rightarrow> 32 word \<Rightarrow> bool" where
  "reaches_half r lden hden =
    (case r of
       (lrem, hrem) \<Rightarrow>
         (case if sint hrem < 0 then pieces (neg_double lrem hrem) else (lrem, hrem) of
            (labs_rem, habs_rem) \<Rightarrow>
         (case if sint hden < 0 then pieces (neg_double lden hden) else (lden, hden) of
            (labs_den, habs_den) \<Rightarrow>
         (case mul_double 2 0 labs_rem habs_rem of
            (ltwice, htwice, _) \<Rightarrow> habs_den < htwice \<or> (habs_den = htwice \<and> labs_den \<le> ltwice)))))"

text \<open>The adjustment of a quotient that was rounded towards zero: \<open>None\<close> where it is right already.\<close>

definition round_quotient ::
  "tree_code \<Rightarrow> bool \<Rightarrow> 32 word \<times> 32 word \<Rightarrow> 32 word \<times> 32 word \<Rightarrow> 32 word \<Rightarrow> 32 word \<Rightarrow> (32 word \<times> 32 word) option option"
where
  "round_quotient code quo_neg quo r lden hden =
    (let up = pieces (add_double (fst quo) (snd quo) 1 0);
         down = pieces (add_double (fst quo) (snd quo) (- 1) (- 1))
     in if code \<in> {TRUNC_DIV_EXPR, TRUNC_MOD_EXPR, EXACT_DIV_EXPR} then Some None
        else if code \<in> {FLOOR_DIV_EXPR, FLOOR_MOD_EXPR} then Some (if quo_neg \<and> r \<noteq> (0, 0) then Some down else None)
        else if code \<in> {CEIL_DIV_EXPR, CEIL_MOD_EXPR} then Some (if \<not> quo_neg \<and> r \<noteq> (0, 0) then Some up else None)
        else if code \<in> {ROUND_DIV_EXPR, ROUND_MOD_EXPR} then
          Some (if reaches_half r lden hden then Some (if sint (snd quo) < 0 then down else up) else None)
        else None)"

text \<open>Overflow, quotient and remainder. \<open>None\<close> is a code that is not a division.\<close>

definition div_and_round_double ::
  "tree_code \<Rightarrow> bool \<Rightarrow> 32 word \<Rightarrow> 32 word \<Rightarrow> 32 word \<Rightarrow> 32 word \<Rightarrow> (bool \<times> (32 word \<times> 32 word) \<times> 32 word \<times> 32 word) option"
where
  "div_and_round_double code uns lnum_orig hnum_orig lden_orig hden_orig =
    (let zero = hden_orig = 0 \<and> lden_orig = 0;
         lden = (if zero then 1 else lden_orig);
         num_neg = \<not> uns \<and> sint hnum_orig < 0;
         den_neg = \<not> uns \<and> sint hden_orig < 0
     in case if num_neg then neg_double lnum_orig hnum_orig else (lnum_orig, hnum_orig, False) of
          (lnum, hnum, most_negative) \<Rightarrow>
        (case if den_neg then pieces (neg_double lden hden_orig) else (lden, hden_orig) of
          (lden', hden) \<Rightarrow>
        let overflow = zero \<or> (most_negative \<and> lden AND hden_orig = - 1);
            quo_neg = num_neg \<noteq> den_neg
        in case divide_unsigned lnum hnum lden' hden of
             None \<Rightarrow> None
           | Some q \<Rightarrow>
               let q = (if quo_neg then pieces (neg_double (fst q) (snd q)) else q);
                   r = division_remainder lnum_orig hnum_orig (fst q) (snd q) lden_orig hden_orig
               in case round_quotient code quo_neg q r lden' hden of
                    None \<Rightarrow> None
                  | Some None \<Rightarrow> Some (overflow, q, r)
                  | Some (Some q) \<Rightarrow>
                      Some (overflow, q, division_remainder lnum_orig hnum_orig (fst q) (snd q) lden_orig hden_orig)))"

end
