(* ===== verification/DoubleKnuth.thy ===== *)
theory DoubleKnuth
  imports DoubleDigits DoubleDivide
begin

text \<open>
  The division by digits computes the quotient. The guess of a digit is at most one too large after its correction, so
  that adding the divisor back once is enough.
\<close>

section \<open>The guess\<close>

text \<open>A number \<open>u\<close> with \<open>n + 2\<close> digits and a divisor \<open>v\<close> with \<open>n + 1\<close> digits, for \<open>n \<ge> 1\<close>: \<open>w\<close> are the first
  two digits of \<open>u\<close>, \<open>u2\<close> the third one and \<open>v1\<close>, \<open>v2\<close> the first two of \<open>v\<close>.\<close>

lemma guess_not_low:
  fixes b p u v v1 q g w :: int
  assumes "0 < p" "0 \<le> u" "u = w * p + ul" "ul < p" "v1 * p \<le> v" "q * v \<le> u" "0 < v1" "0 \<le> q" "g * v1 > w - v1"
  shows "q \<le> g"
proof -
  have "q * v1 * p \<le> q * v" using assms mult_left_mono [of "v1 * p" v q] by (simp add: algebra_simps)
  also have "\<dots> < (w + 1) * p" using assms by (simp add: algebra_simps)
  finally have "q * v1 < w + 1" using assms(1) by (simp add: mult_less_cancel_right)
  with assms have "q * v1 < (g + 1) * v1" by (simp add: algebra_simps)
  then have "q < g + 1" using assms(7) by (simp add: mult_less_cancel_right)
  then show ?thesis by simp
qed

lemma guess_not_high:
  fixes b p u v v1 q g w :: int
  assumes "0 < p" "u = w * p + ul" "0 \<le> ul" "v < (v1 + 1) * p" "u < (q + 1) * v" "g * v1 \<le> w" "g - 2 \<le> 2 * v1" "0 \<le> q" "0 < v1" "0 < v"
  shows "g \<le> q + 2"
proof (cases "2 \<le> g")
  case True
  have "(g - 2) * v \<le> (g - 2) * ((v1 + 1) * p)" using True assms by (intro mult_left_mono) auto
  also have "\<dots> = (g * v1 + (g - 2 - 2 * v1)) * p" by (simp add: algebra_simps)
  also have "\<dots> \<le> w * p" using assms by (intro mult_right_mono) auto
  also have "\<dots> \<le> u" using assms by simp
  finally have "(g - 2) * v < (q + 1) * v" using assms by linarith
  then have "g - 2 < q + 1" using assms(10) by (simp add: mult_less_cancel_right)
  then show ?thesis by simp
qed (use assms in simp)

text \<open>The test of the third digit: if the guess fails it, it is too large; if it passes, it is at most one too large.\<close>

lemma guess_tested:
  fixes b p u v v1 v2 q g w :: int
  assumes "0 < p" "u = (w * b + u2) * p + ul" "0 \<le> ul" "ul < p" "(v1 * b + v2) * p \<le> v" "v < (v1 * b + v2 + 1) * p"
    "q * v \<le> u" "u < (q + 1) * v" "0 \<le> g" "g < b" "0 < v1" "0 \<le> v2"
  shows "v2 * g > (w - g * v1) * b + u2 \<Longrightarrow> q < g" "\<not> v2 * g > (w - g * v1) * b + u2 \<Longrightarrow> g \<le> q + 1"
proof -
  assume "v2 * g > (w - g * v1) * b + u2"
  then have "w * b + u2 + 1 \<le> g * (v1 * b + v2)" by (simp add: algebra_simps)
  then have "(w * b + u2 + 1) * p \<le> g * (v1 * b + v2) * p" using assms by (intro mult_right_mono) auto
  also have "\<dots> \<le> g * v" using mult_left_mono [OF assms(5,9)] by (simp add: algebra_simps)
  finally have "u < g * v" using assms by (simp add: algebra_simps)
  then have "q * v < g * v" using assms by linarith
  moreover have "0 < v" using assms(7,8) by (simp add: algebra_simps)
  ultimately show "q < g" by (simp add: mult_less_cancel_right)
next
  assume "\<not> v2 * g > (w - g * v1) * b + u2"
  then have "g * (v1 * b + v2) \<le> w * b + u2" by (simp add: algebra_simps)
  then have "g * (v1 * b + v2) * p \<le> (w * b + u2) * p" using assms by (intro mult_right_mono) auto
  moreover have "g * v \<le> g * ((v1 * b + v2 + 1) * p)" using assms by (intro mult_left_mono) auto
  moreover have "g * p \<le> b * p" using assms by (intro mult_right_mono) auto
  moreover have "b * p \<le> v1 * b * p" using assms by (intro mult_right_mono) (auto simp: mult_le_cancel_right1)
  moreover have "(v1 * b + v2) * p = v1 * b * p + v2 * p" "0 \<le> v2 * p" using assms by (simp_all add: algebra_simps)
  then have "v1 * b * p \<le> v" using assms(5) by linarith
  ultimately have "g * v \<le> u + v" using assms(2,3) by (simp add: algebra_simps)
  then have "g * v < (q + 2) * v" using assms(8) by (simp add: algebra_simps)
  moreover have "0 < v" using assms(7,8) by (simp add: algebra_simps)
  ultimately show "g \<le> q + 1" by (simp add: mult_less_cancel_right)
qed

section \<open>One digit of the quotient\<close>

text \<open>The divisor has the digits up to \<open>n\<close>, the first of which is at least half the base.\<close>

definition normal_divisor :: "int list \<Rightarrow> nat \<Rightarrow> bool" where
  "normal_divisor den n \<longleftrightarrow> are_digits den \<and> length den = 4 \<and> 1 \<le> n \<and> n \<le> 3 \<and> BASE \<le> 2 * den ! n"

lemma normal_divisor_bounds:
  assumes "normal_divisor den n"
  shows "0 < den ! n" "den ! n < BASE" "0 \<le> den ! (n - 1)" "den ! (n - 1) < BASE"
    "digits_value den 0 (n + 1) = (den ! n * BASE + den ! (n - 1)) * BASE ^ (n - 1) + digits_value den 0 (n - 1)"
    "0 \<le> digits_value den 0 (n - 1)" "digits_value den 0 (n - 1) < BASE ^ (n - 1)"
    "den ! n * BASE ^ n \<le> digits_value den 0 (n + 1)" "digits_value den 0 (n + 1) < (den ! n + 1) * BASE ^ n"
    "0 < digits_value den 0 (n + 1)"
proof -
  have d: "are_digits den" "length den = 4" "n \<le> 3" "1 \<le> n" "BASE \<le> 2 * den ! n"
    using assms by (simp_all add: normal_divisor_def)
  show "0 < den ! n" using d(5) BASE_pos(1) by linarith
  show "den ! n < BASE" "0 \<le> den ! (n - 1)" "den ! (n - 1) < BASE" using are_digits_nth [OF d(1)] d by simp_all
  obtain m where m: "n = Suc m" using d(4) by (cases n) auto
  show "digits_value den 0 (n + 1) = (den ! n * BASE + den ! (n - 1)) * BASE ^ (n - 1) + digits_value den 0 (n - 1)"
    by (simp add: m algebra_simps)
  show "0 \<le> digits_value den 0 (n - 1)" "digits_value den 0 (n - 1) < BASE ^ (n - 1)"
    using digits_value_bounds [OF d(1), of 0 "n - 1"] d by simp_all
  have "digits_value den 0 (n + 1) = digits_value den 0 n + den ! n * BASE ^ n" by simp
  moreover have "0 \<le> digits_value den 0 n" "digits_value den 0 n < BASE ^ n"
    using digits_value_bounds [OF d(1), of 0 n] d by simp_all
  ultimately show "den ! n * BASE ^ n \<le> digits_value den 0 (n + 1)" "digits_value den 0 (n + 1) < (den ! n + 1) * BASE ^ n"
    by (simp_all add: algebra_simps)
  moreover have "0 < den ! n * BASE ^ n" using \<open>0 < den ! n\<close> by simp
  ultimately show "0 < digits_value den 0 (n + 1)" by linarith
qed

lemma window_bounds:
  assumes "are_digits num" "length num = 5" "normal_divisor den n" "i + n + 1 < 5"
    and small: "digits_value num (i + 1) (n + 1) < digits_value den 0 (n + 1)"
  shows "num ! (i + n + 1) \<le> den ! n" "digits_value num i (n + 2) < BASE * digits_value den 0 (n + 1)"
    "0 \<le> digits_value num i (n + 2)"
proof -
  note v = normal_divisor_bounds [OF assms(3)]
  have "num ! (i + n + 1) * BASE ^ n \<le> digits_value num (i + 1) (n + 1)"
    using digits_value_bounds [OF assms(1), of "i + 1" n] assms(2,4) by (simp add: add.commute add.left_commute)
  then have "num ! (i + n + 1) * BASE ^ n < (den ! n + 1) * BASE ^ n" using small v(9) by linarith
  then show "num ! (i + n + 1) \<le> den ! n" by (simp add: mult_less_cancel_right)
  have "digits_value num i (1 + (n + 1)) = num ! i + digits_value num (i + 1) (n + 1) * BASE"
    by (subst digits_value_split) simp
  moreover have "0 \<le> num ! i \<and> num ! i < BASE" using are_digits_nth [OF assms(1)] assms(2,4) by simp
  moreover have "digits_value num (i + 1) (n + 1) * BASE \<le> (digits_value den 0 (n + 1) - 1) * BASE"
    using small by (intro mult_right_mono) auto
  ultimately show "digits_value num i (n + 2) < BASE * digits_value den 0 (n + 1)" by (simp add: algebra_simps)
  show "0 \<le> digits_value num i (n + 2)" using digits_value_bounds [OF assms(1), of i "n + 2"] assms(2,4) by simp
qed

lemma quotient_estimate_close:
  assumes num: "are_digits num" "length num = 5" and den: "normal_divisor den n" and i: "i + n + 1 < 5"
    and small: "digits_value num (i + 1) (n + 1) < digits_value den 0 (n + 1)"
  defines "q \<equiv> digits_value num i (n + 2) div digits_value den 0 (n + 1)"
  shows "q \<le> quotient_estimate num den n i" "quotient_estimate num den n i \<le> q + 1"
    "0 \<le> quotient_estimate num den n i" "quotient_estimate num den n i < BASE" "0 \<le> q"
proof -
  let ?u = "digits_value num i (n + 2)" and ?v = "digits_value den 0 (n + 1)" and ?v1 = "den ! n" and ?v2 = "den ! (n - 1)"
  let ?w = "num ! (i + n + 1) * BASE + num ! (i + n)" and ?u2 = "num ! (i + n - 1)" and ?p = "BASE ^ (n - 1)"
  define g where "g = (if num ! (i + n + 1) \<noteq> ?v1 then ?w div ?v1 else BASE - 1)"
  note v = normal_divisor_bounds [OF den]
  note u = window_bounds [OF num den i small]
  have dg: "0 \<le> num ! (i + n + 1)" "num ! (i + n + 1) < BASE" "0 \<le> num ! (i + n)" "num ! (i + n) < BASE"
    "0 \<le> ?u2" "?u2 < BASE" using are_digits_nth [OF num(1)] num(2) i by simp_all
  have q: "q * ?v \<le> ?u" "?u < (q + 1) * ?v" "0 \<le> q"
    unfolding q_def using v(10) u(3) by (simp_all add: pos_imp_zdiv_nonneg_iff div_mult_mod_eq [of ?u ?v] mult.commute
      algebra_simps minus_mod_eq_mult_div [symmetric] pos_mod_bound)
  have "q * ?v < BASE * ?v" using q(1) u(2) by linarith
  then have qb: "q < BASE" using v(10) by (simp add: mult_less_cancel_right)
  have n: "n \<ge> 1" using den by (simp add: normal_divisor_def)
  obtain m where m: "n = Suc m" using n by (cases n) auto
  have uu: "?u = (?w * BASE + ?u2) * ?p + digits_value num i (n - 1)"
    by (simp add: m algebra_simps)
  have ul: "0 \<le> digits_value num i (n - 1)" "digits_value num i (n - 1) < ?p"
    using digits_value_bounds [OF num(1), of i "n - 1"] num(2) i by simp_all
  have pp: "0 < ?p" by simp
  have "num ! (i + n + 1) * BASE \<le> (BASE - 1) * BASE" using dg(2) by (intro mult_right_mono) auto
  then have w: "0 \<le> ?w" "?w < BASE * BASE" using dg by (simp_all add: algebra_simps)
  have uP: "?u = ?w * BASE ^ n + digits_value num i n" by (simp add: m algebra_simps)
  have ulP: "0 \<le> digits_value num i n" "digits_value num i n < BASE ^ n"
    using digits_value_bounds [OF num(1), of i n] num(2) i by simp_all
  have g: "g * ?v1 \<le> ?w \<and> 0 \<le> g \<and> g < BASE \<and> q \<le> g"
  proof (cases "num ! (i + n + 1) = ?v1")
    case True
    have "(BASE - 1) * ?v1 \<le> ?w" using True v(1) dg(3) by (simp add: algebra_simps)
    moreover have "g = BASE - 1" using True by (simp add: g_def)
    ultimately show ?thesis using qb BASE_pos(1) by auto
  next
    case False
    then have "num ! (i + n + 1) + 1 \<le> ?v1" using u(1) by simp
    then have "(num ! (i + n + 1) + 1) * BASE \<le> ?v1 * BASE" by (intro mult_right_mono) auto
    then have "?w < BASE * ?v1" using dg(4) by (simp add: algebra_simps)
    have gw: "g * ?v1 \<le> ?w" "?w < g * ?v1 + ?v1"
      using v(1) False div_mult_mod_eq [of ?w ?v1] pos_mod_bound [OF v(1), of ?w] pos_mod_sign [OF v(1), of ?w]
      unfolding g_def by auto
    with \<open>?w < BASE * ?v1\<close> have "g * ?v1 < BASE * ?v1" by linarith
    then have "g < BASE" using v(1) by (simp add: mult_less_cancel_right)
    moreover have "0 \<le> g" using w(1) v(1) False by (simp add: g_def pos_imp_zdiv_nonneg_iff)
    moreover have "q \<le> g" by (rule guess_not_low [OF _ u(3) uP ulP(2) v(8) q(1) v(1) q(3)]) (use gw in simp_all)
    ultimately show ?thesis using gw by simp
  qed
  have "g - 2 \<le> 2 * ?v1" using g den by (simp add: normal_divisor_def)
  then have high: "g \<le> q + 2" by (intro guess_not_high [OF _ uP ulP(1) v(9) q(2) _ _ q(3) v(1) v(10)]) (use g in simp_all)
  let ?t = "?w - g * ?v1"
  have "0 \<le> g * ?v1" using g v(1) by simp
  then have "0 \<le> ?t" "?t < BASE * BASE" using w g by linarith+
  then have t: "to_unsigned ?w = ?w" "to_unsigned ?t = ?t" using w by (simp_all only: parts(1))
  have tested: "?v2 * g > ?t * BASE + ?u2 \<Longrightarrow> q < g" "\<not> ?v2 * g > ?t * BASE + ?u2 \<Longrightarrow> g \<le> q + 1"
  proof -
    have "?v < (?v1 * BASE + ?v2 + 1) * ?p" "(?v1 * BASE + ?v2) * ?p \<le> ?v" using v(5-7) by (simp_all add: algebra_simps)
    then show "?v2 * g > ?t * BASE + ?u2 \<Longrightarrow> q < g" "\<not> ?v2 * g > ?t * BASE + ?u2 \<Longrightarrow> g \<le> q + 1"
      using guess_tested [OF pp uu ul _ _ q(1,2) _ _ v(1,3), of g] g by blast+
  qed
  have p2: "0 \<le> ?v2 * g" "?v2 * g < BASE * BASE"
    using digit_product [of ?v2 g] v(3,4) g by (auto simp: algebra_simps)
  have test: "?t < BASE \<and> to_unsigned (?v2 * g) > to_unsigned (?t * BASE + ?u2) \<longleftrightarrow> ?v2 * g > ?t * BASE + ?u2"
  proof (cases "?t < BASE")
    case True
    have "?t * BASE \<le> (BASE - 1) * BASE" using True by (intro mult_right_mono) auto
    then have "?t * BASE + ?u2 < BASE * BASE" using dg(6) by (simp add: algebra_simps)
    then have "to_unsigned (?t * BASE + ?u2) = ?t * BASE + ?u2" using dg(5) g by (intro parts(1)) auto
    with True parts(1) [OF p2] show ?thesis by simp
  next
    case False
    then have "BASE * BASE \<le> ?t * BASE" by (intro mult_right_mono) auto
    with p2 dg(5) have "\<not> ?v2 * g > ?t * BASE + ?u2" by linarith
    with False show ?thesis by simp
  qed
  have e: "quotient_estimate num den n i = (if ?v2 * g > ?t * BASE + ?u2 then to_unsigned (g - 1) else g)"
  proof -
    have idx: "i + n + 1 - 1 = i + n" "i + n + 1 - 2 = i + n - 1" by simp_all
    have "quotient_estimate num den n i =
        (if to_unsigned ?t < BASE \<and> to_unsigned (?v2 * g) > to_unsigned (to_unsigned ?t * BASE + ?u2) then to_unsigned (g - 1) else g)"
      by (simp only: quotient_estimate_def Let_def idx t(1) g_def)
    then show ?thesis unfolding t(2) test .
  qed
  have "to_unsigned (g - 1) = g - 1" if "q < g"
    using that q(3) g by (intro to_unsigned_small) (auto simp: BASE_def)
  then show "q \<le> quotient_estimate num den n i" "quotient_estimate num den n i \<le> q + 1"
    "0 \<le> quotient_estimate num den n i" "quotient_estimate num den n i < BASE" "0 \<le> q"
    unfolding e using tested high g q(3) by auto
qed

text \<open>Multiplying the divisor by the guess and subtracting: what is borrowed in the end is the difference in the next
  digit.\<close>

lemma wrapped_difference:
  assumes "- BASE < x" "x < BASE"
  shows "LOWPART (to_unsigned x) = (if x < 0 then x + BASE else x)" "HIGHPART (to_unsigned x) \<noteq> 0 \<longleftrightarrow> x < 0"
proof -
  have "LOWPART (to_unsigned x) = (if x < 0 then x + BASE else x) \<and> (HIGHPART (to_unsigned x) \<noteq> 0 \<longleftrightarrow> x < 0)"
  proof (cases "x < 0")
    case True
    let ?y = "x + BASE"
    have y: "0 < ?y" "?y < BASE" using True assms by simp_all
    have "to_unsigned x = (x + BASE * BASE) mod 2 ^ 32" by (simp add: to_unsigned_def BASE_def)
    also have "x + BASE * BASE = ?y + (BASE - 1) * BASE" by (simp add: algebra_simps)
    also have "(?y + (BASE - 1) * BASE) mod 2 ^ 32 = ?y + (BASE - 1) * BASE"
      using y by (intro mod_pos_pos_trivial) (simp_all add: BASE_def)
    finally have u: "to_unsigned x = ?y + (BASE - 1) * BASE" .
    moreover have "0 \<le> (BASE - 1) * BASE" "(BASE - 1) * BASE = BASE * BASE - BASE" by (simp_all add: algebra_simps)
    ultimately have b: "0 \<le> to_unsigned x" "to_unsigned x < BASE * BASE" using y by linarith+
    have "to_unsigned x mod BASE = ?y" "to_unsigned x div BASE = BASE - 1"
      unfolding u using y
      by (simp_all only: mod_mult_self1 div_mult_self1 [OF BASE_pos(3)] mod_pos_pos_trivial div_pos_pos_trivial order_less_imp_le)
    with True parts(7,8) [OF b] show ?thesis by simp
  next
    case False
    then have "to_unsigned x = x" using assms by (intro to_unsigned_small) (auto simp: BASE_def)
    with False assms show ?thesis
      by (simp add: LOWPART_def HIGHPART_def mod_pos_pos_trivial div_pos_pos_trivial)
  qed
  then show "LOWPART (to_unsigned x) = (if x < 0 then x + BASE else x)" "HIGHPART (to_unsigned x) \<noteq> 0 \<longleftrightarrow> x < 0"
    by blast+
qed

lemma subtract_value:
  assumes num: "are_digits num" "length num = 5" and den: "are_digits den" "length den = 4" and i: "i + k \<le> 5" "k \<le> 4"
    and g: "0 \<le> g" "g < BASE"
    and run: "fold (subtract_digit den g i) [0..<k] (0, num) = (carry, num')"
  shows "0 \<le> carry \<and> carry < BASE \<and> are_digits num' \<and> length num' = 5
    \<and> digits_value num' i k = digits_value num i k - g * digits_value den 0 k + carry * BASE ^ k
    \<and> (\<forall>j. j < i \<or> i + k \<le> j \<longrightarrow> num' ! j = num ! j)"
  using i run
proof (induction k arbitrary: carry num')
  case 0
  then show ?case using num by simp
next
  case (Suc k)
  obtain c xs where c: "fold (subtract_digit den g i) [0..<k] (0, num) = (c, xs)"
    by (cases "fold (subtract_digit den g i) [0..<k] (0, num)")
  note IH = Suc.IH [OF _ _ c]
  have xs: "0 \<le> c" "c < BASE" "are_digits xs" "length xs = 5"
    "digits_value xs i k = digits_value num i k - g * digits_value den 0 k + c * BASE ^ k"
    "\<forall>j. j < i \<or> i + k \<le> j \<longrightarrow> xs ! j = num ! j"
    using IH Suc.prems by simp_all
  let ?w = "g * den ! k + c" and ?d = "xs ! (i + k)"
  have d: "0 \<le> den ! k" "den ! k < BASE" "0 \<le> ?d" "?d < BASE"
    using are_digits_nth [OF den(1)] are_digits_nth [OF xs(3)] den(2) xs(4) Suc.prems by simp_all
  have w: "0 \<le> ?w" "?w \<le> (BASE - 1) * BASE" "?w < BASE * BASE"
    using digit_product [OF g d(1,2)] xs(1,2) by (auto simp: algebra_simps)
  note p = parts [OF w(1,3)]
  let ?l = "LOWPART ?w" and ?h = "HIGHPART ?w"
  define e where "e = (if ?d < ?l then 1 else 0 :: int)"
  have low: "LOWPART (to_unsigned (?d - ?l)) = ?d - ?l + e * BASE" "HIGHPART (to_unsigned (?d - ?l)) \<noteq> 0 \<longleftrightarrow> e = 1"
    using wrapped_difference [of "?d - ?l"] d(3,4) p(3,4) by (auto simp: e_def)
  have "subtract_digit den g i k (c, xs) = (carry, num')" using Suc.prems(3) c by simp
  then have r: "carry = ?h + e" "num' = xs[i + k := ?d - ?l + e * BASE]"
    using p(1) low by (auto simp: subtract_digit_def Let_def e_def)
  have new: "0 \<le> ?d - ?l + e * BASE" "?d - ?l + e * BASE < BASE" using d(3,4) p(3,4) by (auto simp: e_def)
  have ll: "?l = ?w - ?h * BASE" using p(2) by simp
  have "0 \<le> carry" using r(1) p(5) by (simp add: e_def)
  moreover have "carry < BASE"
  proof (cases "e = 1")
    case True
    then have "0 < ?l" using d(3) by (auto simp: e_def split: if_splits)
    then have "?h * BASE < (BASE - 1) * BASE" using ll w(2) by linarith
    then have "?h < BASE - 1" by (simp add: mult_less_cancel_right)
    with True r(1) show ?thesis by simp
  qed (use r(1) p(6) in \<open>auto simp: e_def\<close>)
  moreover have "digits_value num' i (Suc k) = digits_value xs i k + (?d - ?l + e * BASE) * BASE ^ k"
    using r(2) xs(4) Suc.prems(1) by simp
  then have "digits_value num' i (Suc k) = digits_value num i (Suc k) - g * digits_value den 0 (Suc k) + carry * BASE ^ Suc k"
    using xs(5,6) r(1) unfolding ll by (simp add: algebra_simps)
  moreover have "are_digits num' \<and> length num' = 5 \<and> (\<forall>j. j < i \<or> i + Suc k \<le> j \<longrightarrow> num' ! j = num ! j)"
    using r(2) xs(3,4,6) are_digits_update [OF xs(3) new] by simp
  ultimately show ?case by blast
qed

lemma add_back_value:
  assumes num: "are_digits num" "length num = 5" and den: "are_digits den" "length den = 4" and i: "i + k \<le> 5" "k \<le> 4"
    and run: "fold (add_back_digit den i) [0..<k] (0, num) = (carry, num')"
  shows "0 \<le> carry \<and> carry \<le> 1 \<and> are_digits num' \<and> length num' = 5
    \<and> digits_value num' i k + carry * BASE ^ k = digits_value num i k + digits_value den 0 k
    \<and> (\<forall>j. j < i \<or> i + k \<le> j \<longrightarrow> num' ! j = num ! j)"
  using i run
proof (induction k arbitrary: carry num')
  case 0
  then show ?case using num by simp
next
  case (Suc k)
  obtain c xs where c: "fold (add_back_digit den i) [0..<k] (0, num) = (c, xs)"
    by (cases "fold (add_back_digit den i) [0..<k] (0, num)")
  note IH = Suc.IH [OF _ _ c]
  have xs: "0 \<le> c" "c \<le> 1" "are_digits xs" "length xs = 5"
    "digits_value xs i k + c * BASE ^ k = digits_value num i k + digits_value den 0 k"
    "\<forall>j. j < i \<or> i + k \<le> j \<longrightarrow> xs ! j = num ! j"
    using IH Suc.prems by simp_all
  let ?w = "xs ! (i + k) + den ! k + c"
  have d: "0 \<le> den ! k" "den ! k < BASE" "0 \<le> xs ! (i + k)" "xs ! (i + k) < BASE"
    using are_digits_nth [OF den(1)] are_digits_nth [OF xs(3)] den(2) xs(4) Suc.prems by simp_all
  have w: "0 \<le> ?w" "?w < 2 * BASE" using d xs(1,2) by simp_all
  then have "?w < BASE * BASE" by (simp add: BASE_def)
  note p = parts [OF w(1) this]
  have "add_back_digit den i k (c, xs) = (carry, num')" using Suc.prems(3) c by simp
  then have r: "carry = HIGHPART ?w" "num' = xs[i + k := LOWPART ?w]"
    using p(1) by (auto simp: add_back_digit_def Let_def)
  have "carry * BASE < 2 * BASE" unfolding r(1) using p(2,3) w(2) by linarith
  then have "carry \<le> 1" by (simp add: mult_less_cancel_right)
  moreover have "LOWPART ?w = ?w - carry * BASE" using p(2) r(1) by simp
  then have "digits_value num' i (Suc k) = digits_value xs i k + (?w - carry * BASE) * BASE ^ k"
    using r(2) xs(4) Suc.prems(1) by simp
  then have "digits_value num' i (Suc k) + carry * BASE ^ Suc k = digits_value num i (Suc k) + digits_value den 0 (Suc k)"
    using xs(5,6) by (simp add: algebra_simps)
  ultimately show ?case
    using r xs(3,4,6) are_digits_update [OF xs(3) p(3,4)] p(5) by simp
qed

lemma one_period:
  fixes a b k r :: int
  assumes "0 \<le> a" "a < b" "0 \<le> r" "r < b" "a + k * b = r"
  shows "k = 0 \<and> a = r"
proof -
  have "k * b < 1 * b" "- 1 * b < k * b" using assms by linarith+
  then have "k < 1" "- 1 < k" using assms(1,2) by (simp_all only: mult_less_cancel_right)
  then have "k = 0" by simp
  with assms(5) show ?thesis by simp
qed

lemma quotient_digit_value:
  assumes num: "are_digits num" "length num = 5" and den: "normal_divisor den n" and i: "i + n + 1 < 5"
    and small: "digits_value num (i + 1) (n + 1) < digits_value den 0 (n + 1)"
    and quo: "length quo = 4" and run: "quotient_digit den n i (num, quo) = (num', quo')"
  defines "q \<equiv> digits_value num i (n + 2) div digits_value den 0 (n + 1)"
  shows "quo' = quo[i := q]" "0 \<le> q" "q < BASE" "length num' = 5" "\<forall>j. j < i \<longrightarrow> num' ! j = num ! j"
    "are_digits num'"
    "digits_value num' i (n + 1) = digits_value num i (n + 2) mod digits_value den 0 (n + 1)"
proof -
  let ?u = "digits_value num i (n + 2)" and ?v = "digits_value den 0 (n + 1)" and ?g = "quotient_estimate num den n i"
  let ?B = "BASE ^ (n + 1)"
  note g = quotient_estimate_close [OF num den i small, folded q_def]
  note v = normal_divisor_bounds [OF den]
  note u = window_bounds [OF num den i small]
  have d: "are_digits den" "length den = 4" "n \<le> 3" using den by (simp_all add: normal_divisor_def)
  obtain c xs where c: "fold (subtract_digit den ?g i) [0..<n + 1] (0, num) = (c, xs)"
    by (cases "fold (subtract_digit den ?g i) [0..<n + 1] (0, num)")
  note sub = subtract_value [OF num d(1,2) _ _ g(3,4) c]
  have xs: "are_digits xs" "length xs = 5" "digits_value xs i (n + 1) = digits_value num i (n + 1) - ?g * ?v + c * ?B"
    "\<forall>j. j < i \<or> i + n + 1 \<le> j \<longrightarrow> xs ! j = num ! j" using sub i d(3) by simp_all
  let ?t = "num ! (i + n + 1)"
  have uu: "?u = digits_value num i (n + 1) + ?t * ?B" by (simp add: add.assoc)
  have low: "0 \<le> digits_value xs i (n + 1)" "digits_value xs i (n + 1) < ?B"
    using digits_value_bounds [OF xs(1), of i "n + 1"] xs(2) i by simp_all
  have vb: "?v < ?B" using digits_value_bounds [OF d(1), of 0 "n + 1"] d by simp
  have mod: "?u mod ?v = ?u - q * ?v" "0 \<le> ?u mod ?v" "?u mod ?v < ?v"
    unfolding q_def using v(10) by (simp_all add: minus_div_mult_eq_mod pos_mod_bound)
  have diff: "?u - ?g * ?v = digits_value xs i (n + 1) + (?t - c) * ?B" using uu xs(3) by (simp add: algebra_simps)
  show "0 \<le> q" using g(5) .
  show "q < BASE" using g(1,4) by linarith
  have same: "to_unsigned q = q" using g(5) \<open>q < BASE\<close> by (intro to_unsigned_small) (simp_all add: BASE_def)
  have hi: "xs ! (i + n + 1) = ?t" using xs(4) by simp
  have "quo' = quo[i := q] \<and> length num' = 5 \<and> (\<forall>j. j < i \<longrightarrow> num' ! j = num ! j)
    \<and> are_digits num' \<and> digits_value num' i (n + 1) = ?u mod ?v"
  proof (cases "?g = q")
    case True
    then have "digits_value xs i (n + 1) + (?t - c) * ?B = ?u mod ?v" using diff mod(1) by simp
    from one_period [OF low mod(2) _ this] mod(3) vb have p: "?t = c" "digits_value xs i (n + 1) = ?u mod ?v" by simp_all
    then have "num' = xs" "quo' = quo[i := q]" using run c hi True by (simp_all add: quotient_digit_def Let_def)
    then show ?thesis using xs p(2) by auto
  next
    case False
    then have g1: "?g = q + 1" using g(1,2) by simp
    then have "digits_value xs i (n + 1) + (?t - c + 1) * ?B = ?u mod ?v - ?v + ?B"
      using diff mod(1) by (simp add: algebra_simps)
    from one_period [OF low _ _ this] mod(2,3) vb
    have p: "?t + 1 = c" "digits_value xs i (n + 1) = ?u mod ?v - ?v + ?B" by simp_all
    obtain c2 ys where ys: "fold (add_back_digit den i) [0..<n + 1] (0, xs) = (c2, ys)"
      by (cases "fold (add_back_digit den i) [0..<n + 1] (0, xs)")
    note ab = add_back_value [OF xs(1,2) d(1,2) _ _ ys]
    have y: "are_digits ys" "length ys = 5" "digits_value ys i (n + 1) + (c2 - 1) * ?B = ?u mod ?v"
      "\<forall>j. j < i \<or> i + n + 1 \<le> j \<longrightarrow> ys ! j = xs ! j"
      using ab i d(3) p(2) by (simp_all add: algebra_simps)
    have "0 \<le> digits_value ys i (n + 1)" "digits_value ys i (n + 1) < ?B"
      using digits_value_bounds [OF y(1), of i "n + 1"] y(2) i by simp_all
    from one_period [OF this mod(2) _ y(3)] mod(3) vb have ym: "c2 = 1" "digits_value ys i (n + 1) = ?u mod ?v" by simp_all
    moreover have "num' = ys[i + n + 1 := ys ! (i + n + 1) + c2]" "quo' = quo[i := q]"
      using run c hi p(1) ys g1 same by (simp_all add: quotient_digit_def Let_def)
    moreover have "are_digits (ys[i + n + 1 := ys ! (i + n + 1) + c2])"
      using are_digits_nth [OF num(1), of "i + n + 1"] num(2) i y(4) hi ym(1) p(1) sub d(3)
      by (intro are_digits_update [OF y(1)]) simp_all
    ultimately show ?thesis using y(2,4) xs(4) by auto
  qed
  then show "quo' = quo[i := q]" "length num' = 5" "\<forall>j. j < i \<longrightarrow> num' ! j = num ! j"
    "are_digits num'" "digits_value num' i (n + 1) = ?u mod ?v"
    by blast+
qed

section \<open>All digits\<close>

lemma quotient_digits_value:
  assumes "normal_divisor den n" "are_digits num" "length num = 5" "k + n < 5"
    "digits_value num k (n + 1) < digits_value den 0 (n + 1)" "are_digits quo" "length quo = 4"
    "quotient_digits den n k (num, quo) = (num', quo')"
  shows "digits_value quo' 0 k = digits_value num 0 (k + n + 1) div digits_value den 0 (n + 1)
    \<and> are_digits quo' \<and> length quo' = 4 \<and> (\<forall>j. k \<le> j \<longrightarrow> quo' ! j = quo ! j)"
  using assms(2-)
proof (induction k arbitrary: num quo)
  case 0
  have "0 \<le> digits_value num 0 (n + 1)" using digits_value_bounds [OF 0(1), of 0 "n + 1"] 0(2,3) by simp
  with 0 show ?case by (simp add: div_pos_pos_trivial)
next
  case (Suc k)
  let ?v = "digits_value den 0 (n + 1)" and ?q = "digits_value num k (n + 2) div digits_value den 0 (n + 1)"
  note v = normal_divisor_bounds [OF assms(1)]
  obtain num1 quo1 where s: "quotient_digit den n k (num, quo) = (num1, quo1)" by (cases "quotient_digit den n k (num, quo)")
  have i: "k + n + 1 < 5" "digits_value num (k + 1) (n + 1) < ?v" using Suc.prems(3,4) by simp_all
  note d = quotient_digit_value [OF Suc.prems(1,2) assms(1) i Suc.prems(6) s]
  have quo1: "are_digits quo1" "length quo1 = 4" using d(1-3) are_digits_update [OF Suc.prems(5)] Suc.prems(6) by simp_all
  have small: "digits_value num1 k (n + 1) < ?v" using d(7) v(10) by (simp add: pos_mod_bound)
  have rest: "quotient_digits den n k (num1, quo1) = (num', quo')" using Suc.prems(7) s by simp
  note IH = Suc.IH [OF d(6,4) _ small quo1 rest]
  have IH: "digits_value quo' 0 k = digits_value num1 0 (k + n + 1) div ?v" "are_digits quo'" "length quo' = 4"
    "\<forall>j. k \<le> j \<longrightarrow> quo' ! j = quo1 ! j"
    using IH i(1) by simp_all
  have "digits_value num 0 (k + (n + 2)) = digits_value num 0 k + digits_value num k (n + 2) * BASE ^ k"
    by (subst digits_value_split) simp
  also have "digits_value num k (n + 2) = digits_value num1 k (n + 1) + ?q * ?v" by (simp only: d(7) mod_div_mult_eq)
  also have "digits_value num 0 k = digits_value num1 0 k" using d(5) by (intro digits_value_cong) simp
  also have "digits_value num1 0 k + (digits_value num1 k (n + 1) + ?q * ?v) * BASE ^ k
      = digits_value num1 0 (k + (n + 1)) + (?q * BASE ^ k) * ?v"
    by (subst digits_value_split) (simp add: algebra_simps)
  finally have "digits_value num 0 (k + (n + 2)) div ?v = digits_value num1 0 (k + (n + 1)) div ?v + ?q * BASE ^ k"
    using v(10) by simp
  moreover have "quo' ! k = ?q" using IH(4) d(1) Suc.prems(3,6) by simp
  ultimately have "digits_value quo' 0 (Suc k) = digits_value num 0 (Suc k + n + 1) div ?v" using IH(1) by (simp add: add.assoc)
  then show ?case using IH d(1) by auto
qed

section \<open>Scaling\<close>

lemma half_base:
  fixes s v b :: int
  assumes "0 < s" "0 < v" "b < (s + 1) * (v + 1)" "s * (v + 1) \<le> b" "even b"
  shows "b \<le> 2 * (v * s)"
proof -
  obtain c where c: "b = 2 * c" using assms(5) by blast
  consider "s = 1" | "v = 1" | "1 \<le> s - 1" "1 \<le> v - 1" using assms(1,2) by linarith
  then show ?thesis
  proof cases
    case 1
    then have "2 * c < 2 * v + 2" using assms(3) c by (simp add: algebra_simps)
    with 1 show ?thesis using c by simp
  next
    case 2
    then have "2 * c < 2 * s + 2" using assms(3) c by (simp add: algebra_simps)
    with 2 show ?thesis using c by simp
  next
    case 3
    then have "1 * 1 \<le> (s - 1) * (v - 1)" by (intro mult_mono) auto
    with assms(3) show ?thesis by (simp add: algebra_simps)
  qed
qed

lemma scale_digits_value:
  assumes "are_digits xs" "4 \<le> length xs" "0 < scale" "scale < BASE" "k \<le> 4" "fold (scale_digit scale) [0..<k] (0, xs) = (c, ys)"
  shows "0 \<le> c \<and> c < scale \<and> are_digits ys \<and> length ys = length xs
    \<and> digits_value ys 0 k + c * BASE ^ k = scale * digits_value xs 0 k \<and> (\<forall>j. k \<le> j \<longrightarrow> ys ! j = xs ! j)"
  using assms(5,6)
proof (induction k arbitrary: c ys)
  case 0
  then show ?case using assms by simp
next
  case (Suc k)
  obtain c1 zs where z: "fold (scale_digit scale) [0..<k] (0, xs) = (c1, zs)" by (cases "fold (scale_digit scale) [0..<k] (0, xs)")
  have IH: "0 \<le> c1" "c1 < scale" "are_digits zs" "length zs = length xs"
    "digits_value zs 0 k + c1 * BASE ^ k = scale * digits_value xs 0 k" "\<forall>j. k \<le> j \<longrightarrow> zs ! j = xs ! j"
    using Suc.IH [OF _ z] Suc.prems(1) by simp_all
  let ?w = "zs ! k * scale + c1"
  have d: "0 \<le> zs ! k" "zs ! k < BASE" using are_digits_nth [OF IH(3)] IH(4) assms(2) Suc.prems(1) by simp_all
  have "zs ! k * scale \<le> (BASE - 1) * scale" using d assms(3) by (intro mult_right_mono) auto
  then have w: "0 \<le> ?w" "?w < BASE * scale" using d assms(3) IH(1,2) by (simp_all add: algebra_simps)
  moreover have "BASE * scale < BASE * BASE" using assms(4) by simp
  ultimately have "?w < BASE * BASE" by linarith
  note p = parts [OF w(1) this]
  have "scale_digit scale k (c1, zs) = (c, ys)" using Suc.prems(2) z by simp
  then have r: "c = HIGHPART ?w" "ys = zs[k := LOWPART ?w]" using p(1) by (auto simp: scale_digit_def Let_def)
  have "c * BASE < scale * BASE" unfolding r(1) mult.commute [of scale BASE] using p(2,3) w(2) by linarith
  then have "c < scale" by (simp add: mult_less_cancel_right)
  moreover have "LOWPART ?w = ?w - c * BASE" using p(2) r(1) by simp
  then have "digits_value ys 0 (Suc k) = digits_value zs 0 k + (?w - c * BASE) * BASE ^ k"
    using r(2) IH(4) assms(2) Suc.prems(1) by simp
  then have "digits_value ys 0 (Suc k) + c * BASE ^ Suc k = scale * digits_value xs 0 (Suc k)"
    using IH(5,6) by (simp add: algebra_simps)
  ultimately show ?case using r IH(3,4,6) are_digits_update [OF IH(3) p(3,4)] p(5) by simp
qed

text \<open>The highest digit, and that scaling leaves it where it is.\<close>

lemma highest_digit_is:
  "highest_digit den k = Some n \<Longrightarrow> n \<le> k \<and> den ! n \<noteq> 0 \<and> (\<forall>j. n < j \<and> j \<le> k \<longrightarrow> den ! j = 0)"
  by (induction k) (auto split: if_splits simp: le_Suc_eq)

lemma highest_digit_None: "highest_digit den k = None \<Longrightarrow> j \<le> k \<Longrightarrow> den ! j = 0"
  by (induction k) (auto split: if_splits simp: le_Suc_eq)

lemma digits_value_zeros: "\<forall>j. k \<le> j \<and> j < m \<longrightarrow> xs ! j = 0 \<Longrightarrow> k \<le> m \<Longrightarrow> digits_value xs 0 m = digits_value xs 0 k"
proof (induction m)
  case (Suc m)
  then show ?case by (cases "k = Suc m") auto
qed simp

lemma digits_above:
  assumes "are_digits xs" "j < m" "m \<le> length xs" "n \<le> j" "digits_value xs 0 m < BASE ^ n"
  shows "xs ! j = 0"
proof (rule ccontr)
  assume "xs ! j \<noteq> 0"
  then have "1 \<le> xs ! j" using are_digits_nth [OF assms(1), of j] assms(2,3) by simp
  then have "1 * BASE ^ j \<le> xs ! j * BASE ^ j" by (intro mult_right_mono) auto
  moreover have "BASE ^ n \<le> BASE ^ j" using assms(4) by (intro power_increasing) auto
  moreover have "0 \<le> digits_value xs 0 j" using digits_value_bounds [OF assms(1), of 0 j] assms(2,3) by simp
  moreover have "0 \<le> digits_value xs (Suc j) (m - Suc j) * BASE ^ Suc j"
    using digits_value_bounds [OF assms(1), of "Suc j" "m - Suc j"] assms(2,3) by (intro mult_nonneg_nonneg) auto
  moreover have "digits_value xs 0 m = digits_value xs 0 (Suc j) + digits_value xs (Suc j) (m - Suc j) * BASE ^ Suc j"
    using digits_value_split [of xs 0 "Suc j" "m - Suc j"] assms(2) by (simp only: add_0 le_add_diff_inverse Suc_leI)
  ultimately show False using assms(5) unfolding digits_value_Suc mult_1 add_0 by linarith
qed

lemma scale_den_digits:
  assumes "k \<le> length den" "fold (scale_den_digit scale) [0..<k] (0, den, sig) = (c, den', sig')"
  shows "fold (scale_digit scale) [0..<k] (0, den) = (c, den') \<and> length den' = length den
    \<and> (\<forall>n. n < k \<and> den' ! n \<noteq> 0 \<and> (\<forall>j. n < j \<and> j < k \<longrightarrow> den' ! j = 0) \<longrightarrow> sig' = n)"
  using assms
proof (induction k arbitrary: c den' sig')
  case (Suc k)
  obtain c1 xs s1 where x: "fold (scale_den_digit scale) [0..<k] (0, den, sig) = (c1, xs, s1)"
    by (cases "fold (scale_den_digit scale) [0..<k] (0, den, sig)")
  have IH: "fold (scale_digit scale) [0..<k] (0, den) = (c1, xs)" "length xs = length den"
    "\<And>n. n < k \<Longrightarrow> xs ! n \<noteq> 0 \<Longrightarrow> \<forall>j. n < j \<and> j < k \<longrightarrow> xs ! j = 0 \<Longrightarrow> s1 = n"
    using Suc.IH [OF _ x] Suc.prems(1) by simp_all
  obtain c2 ys where y: "scale_digit scale k (c1, xs) = (c2, ys)" by (cases "scale_digit scale k (c1, xs)")
  have "scale_den_digit scale k (c1, xs, s1) = (c, den', sig')" using Suc.prems(2) x by simp
  then have r: "c = c2" "den' = ys" "sig' = (if ys ! k \<noteq> 0 then k else s1)" using y by (auto simp: scale_den_digit_def)
  obtain l where l: "ys = xs[k := l]" using y by (auto simp: scale_digit_def Let_def)
  have "sig' = n" if n: "n < Suc k" "den' ! n \<noteq> 0" "\<forall>j. n < j \<and> j < Suc k \<longrightarrow> den' ! j = 0" for n
  proof (cases "n = k")
    case False
    then have "n < k" "ys ! k = 0" using n r(2) by simp_all
    moreover have "xs ! n \<noteq> 0" "\<forall>j. n < j \<and> j < k \<longrightarrow> xs ! j = 0" using n r(2) l False by (auto simp: nth_list_update split: if_splits)
    ultimately show ?thesis using IH(3) r(3) by simp
  qed (use n r in simp)
  then show ?case using IH(1,2) y r l by simp
qed simp

lemma scaled_window:
  assumes num: "are_digits num'" "length num' = 5" "digits_value num' 0 5 = scale * u" "u < BASE ^ 4"
    and v: "BASE ^ n \<le> v" "0 < scale" "n \<le> 3"
  shows "digits_value num' (4 - n) (n + 1) < scale * v"
proof -
  have "digits_value num' 0 (4 - n + (n + 1)) = digits_value num' 0 (4 - n) + digits_value num' (4 - n) (n + 1) * BASE ^ (4 - n)"
    using digits_value_split [of num' 0 "4 - n" "n + 1"] by simp
  moreover have "4 - n + (n + 1) = 5" using v(3) by simp
  moreover have "0 \<le> digits_value num' 0 (4 - n)" using digits_value_bounds [OF num(1), of 0 "4 - n"] num(2) by simp
  ultimately have "digits_value num' (4 - n) (n + 1) * BASE ^ (4 - n) \<le> scale * u" using num(3) by (simp only:)
  also have "\<dots> < scale * BASE ^ 4" using num(4) v(2) by simp
  also have "\<dots> = (scale * BASE ^ n) * BASE ^ (4 - n)" using v(3) by (simp flip: power_add)
  finally have "digits_value num' (4 - n) (n + 1) < scale * BASE ^ n" by (simp add: mult_less_cancel_right)
  also have "\<dots> \<le> scale * v" using v by simp
  finally show ?thesis .
qed

lemma scale_operands_value:
  assumes num: "are_digits num" "length num = 5" "num ! 4 = 0" and den: "are_digits den" "length den = 4"
    and n: "den ! n \<noteq> 0" "1 \<le> n" "n \<le> 3" "\<forall>j. n < j \<and> j \<le> 3 \<longrightarrow> den ! j = 0"
    and run: "scale_operands num den n = (num', den', n')"
  obtains scale where "0 < scale" "n' = n" "normal_divisor den' n" "are_digits num'" "length num' = 5"
    "digits_value num' 0 5 = scale * digits_value num 0 4" "digits_value den' 0 (n + 1) = scale * digits_value den 0 (n + 1)"
    "digits_value num' (4 - n) (n + 1) < digits_value den' 0 (n + 1)"
proof -
  let ?d = "den ! n" and ?v = "digits_value den 0 (n + 1)"
  define s where "s = BASE div (?d + 1)"
  have d: "1 \<le> ?d" "?d < BASE" using are_digits_nth [OF den(1), of n] n den(2) by simp_all
  have s1: "s * (?d + 1) \<le> BASE" "BASE < (s + 1) * (?d + 1)"
  proof -
    have "s * (?d + 1) + BASE mod (?d + 1) = BASE" unfolding s_def by (rule div_mult_mod_eq)
    moreover have "0 \<le> BASE mod (?d + 1)" "BASE mod (?d + 1) < ?d + 1"
      using d pos_mod_sign [of "?d + 1" BASE] pos_mod_bound [of "?d + 1" BASE] by linarith+
    moreover have "(s + 1) * (?d + 1) = s * (?d + 1) + (?d + 1)" by (simp add: algebra_simps)
    ultimately show "s * (?d + 1) \<le> BASE" "BASE < (s + 1) * (?d + 1)" by linarith+
  qed
  have s2: "1 \<le> s" using d unfolding s_def by (simp add: pos_imp_zdiv_pos_iff int_one_le_iff_zero_less)
  have half: "BASE \<le> 2 * (?d * s)" using half_base [of s ?d BASE] s1 s2 d by (simp add: BASE_def)
  have u: "digits_value num 0 4 < BASE ^ 4" using digits_value_bounds [OF num(1), of 0 4] num(2) by simp
  have v4: "digits_value den 0 4 = ?v" using n by (intro digits_value_zeros) auto
  have low: "0 \<le> digits_value den 0 n" "digits_value den 0 n < BASE ^ n"
    using digits_value_bounds [OF den(1), of 0 n] den(2) n(3) by simp_all
  have "1 * BASE ^ n \<le> ?d * BASE ^ n" using d by (intro mult_right_mono) auto
  moreover have vv: "?v = digits_value den 0 n + ?d * BASE ^ n" by simp
  ultimately have v: "?d * BASE ^ n \<le> ?v" "BASE ^ n \<le> ?v" using low unfolding vv by linarith+
  have v2: "?v < (?d + 1) * BASE ^ n" using low unfolding vv by (simp add: algebra_simps)
  note v = v(1) v2 v(2)
  show thesis
  proof (cases "s > 1")
    case False
    then have "s = 1" using s2 by simp
    have "num' = num" "den' = den" "n' = n" using run False by (simp_all add: scale_operands_def s_def Let_def)
    moreover have "normal_divisor den n" using den n half \<open>s = 1\<close> by (simp add: normal_divisor_def)
    moreover have "digits_value num 0 (Suc 4) = digits_value num 0 4" using num(3) by (simp only: digits_value_Suc) simp
    then have "digits_value num 0 5 = digits_value num 0 4" by simp
    moreover have "digits_value num (4 - n) (n + 1) < 1 * ?v"
      by (rule scaled_window [OF num(1,2) _ u v(3) _ n(3)]) (use \<open>digits_value num 0 5 = _\<close> in simp_all)
    ultimately show thesis using num den by (intro that [of 1]) simp_all
  next
    case True
    have "s * 2 \<le> s * (?d + 1)" using d s2 by (intro mult_left_mono) auto
    then have sB: "s < BASE" "0 < s" using s1(1) s2 by linarith+
    obtain c xs where x: "fold (scale_digit s) [0..<4] (0, num) = (c, xs)" by (cases "fold (scale_digit s) [0..<4] (0, num)")
    obtain c2 ys m where y: "fold (scale_den_digit s) [0..<4] (0, den, n) = (c2, ys, m)"
      by (cases "fold (scale_den_digit s) [0..<4] (0, den, n)")
    have r: "num' = xs[4 := c]" "den' = ys" "n' = m"
      using run True x y by (simp_all add: scale_operands_def s_def Let_def)
    have xv: "0 \<le> c" "c < s" "are_digits xs" "length xs = 5" "digits_value xs 0 4 + c * BASE ^ 4 = s * digits_value num 0 4"
      using scale_digits_value [OF num(1) _ sB(2,1) _ x] num(2) by simp_all
    note yf = scale_den_digits [OF _ y]
    have yv: "0 \<le> c2" "are_digits ys" "length ys = 4" "digits_value ys 0 4 + c2 * BASE ^ 4 = s * ?v"
      using scale_digits_value [OF den(1) _ sB(2,1) _ yf [THEN conjunct1]] den(2) v4 by simp_all
    have "s * ?v < s * ((?d + 1) * BASE ^ n)" using v(2) sB(2) by simp
    also have "\<dots> = s * (?d + 1) * BASE ^ n" by simp
    also have "\<dots> \<le> BASE * BASE ^ n" using s1(1) by (intro mult_right_mono) auto
    finally have sv: "s * ?v < BASE ^ (n + 1)" by simp
    have "BASE ^ (n + 1) \<le> BASE ^ 4" using n(3) by (intro power_increasing) auto
    moreover have "0 \<le> digits_value ys 0 4" using digits_value_bounds [OF yv(2), of 0 4] yv(3) by simp
    ultimately have "c2 * BASE ^ 4 < 1 * BASE ^ 4" using sv yv(4) unfolding mult_1 by linarith
    then have "c2 < 1" by (simp add: mult_less_cancel_right)
    then have c2: "c2 = 0" using yv(1) by simp
    have yz: "\<forall>j. n < j \<and> j < 4 \<longrightarrow> ys ! j = 0"
      using digits_above [OF yv(2), of _ 4 "n + 1"] yv(3,4) c2 sv by simp
    then have yn: "digits_value ys 0 4 = digits_value ys 0 (n + 1)" using n(3) by (intro digits_value_zeros) auto
    have ylow: "digits_value ys 0 n < BASE ^ n" using digits_value_bounds [OF yv(2), of 0 n] yv(3) n(3) by simp
    have "s * (?d * BASE ^ n) \<le> s * ?v" using v(1) sB(2) by simp
    then have "(s * ?d - 1) * BASE ^ n < ys ! n * BASE ^ n" using yv(4) c2 yn ylow by (simp add: algebra_simps)
    then have "s * ?d - 1 < ys ! n" by (simp add: mult_less_cancel_right)
    then have top: "BASE \<le> 2 * ys ! n" using half by (simp add: algebra_simps)
    then have "ys ! n \<noteq> 0" using BASE_pos(1) by linarith
    then have "m = n" using yf den(2) yz n(3) by simp
    moreover have "normal_divisor ys n" using yv(2,3) n top by (simp add: normal_divisor_def)
    moreover have numd: "are_digits (xs[4 := c])" using xv sB by (intro are_digits_update) simp_all
    moreover have "digits_value (xs[4 := c]) 0 (Suc 4) = s * digits_value num 0 4"
      unfolding digits_value_Suc using xv(4,5) by simp
    then have num5: "digits_value (xs[4 := c]) 0 5 = s * digits_value num 0 4" by simp
    moreover have "digits_value (xs[4 := c]) (4 - n) (n + 1) < s * ?v"
      by (rule scaled_window [OF numd _ num5 u v(3) sB(2) n(3)]) (simp add: xv(4))
    ultimately show thesis using yv(4) c2 yn xv(4) sB(2) by (intro that [of s]) (simp_all add: r)
  qed
qed

section \<open>The quotient\<close>

lemma long_division_value:
  assumes num: "are_digits num" "length num = 5" "num ! 4 = 0" and den: "are_digits den" "length den = 4"
    and n: "highest_digit den 3 = Some n" "BASE \<le> digits_value den 0 4"
  shows "are_digits (long_division num den n) \<and> length (long_division num den n) = 4
    \<and> digits_value (long_division num den n) 0 4 = digits_value num 0 4 div digits_value den 0 4"
proof -
  note h = highest_digit_is [OF n(1)]
  have v4: "digits_value den 0 4 = digits_value den 0 (n + 1)" using h by (intro digits_value_zeros) auto
  have n1: "1 \<le> n"
  proof (rule ccontr)
    assume "\<not> 1 \<le> n"
    then have "n = 0" by simp
    then have "digits_value den 0 4 = den ! 0" using v4 by simp
    with n(2) are_digits_nth [OF den(1), of 0] den(2) show False by simp
  qed
  obtain num' den' n' where s: "scale_operands num den n = (num', den', n')" by (cases "scale_operands num den n")
  from h have "den ! n \<noteq> 0" "n \<le> 3" "\<forall>j. n < j \<and> j \<le> 3 \<longrightarrow> den ! j = 0" by simp_all
  from scale_operands_value [OF num den this(1) n1 this(2,3) s] obtain scale where
    r: "0 < scale" "n' = n" "normal_divisor den' n" "are_digits num'" "length num' = 5"
      "digits_value num' 0 5 = scale * digits_value num 0 4" "digits_value den' 0 (n + 1) = scale * digits_value den 0 (n + 1)"
      "digits_value num' (4 - n) (n + 1) < digits_value den' 0 (n + 1)" by metis
  obtain xs quo where q: "quotient_digits den' n (4 - n) (num', replicate 4 0) = (xs, quo)"
    by (cases "quotient_digits den' n (4 - n) (num', replicate 4 0)")
  have z: "are_digits (replicate 4 0)" by (simp add: are_digits_def)
  note d = quotient_digits_value [OF r(3,4,5) _ r(8) z _ q]
  have d: "digits_value quo 0 (4 - n) = digits_value num' 0 5 div digits_value den' 0 (n + 1)" "are_digits quo" "length quo = 4"
    "\<forall>j. 4 - n \<le> j \<longrightarrow> quo ! j = replicate 4 0 ! j"
    using d h by simp_all
  have "digits_value quo 0 4 = digits_value quo 0 (4 - n)" using d(4) by (intro digits_value_zeros) auto
  also have "\<dots> = digits_value num 0 4 div digits_value den 0 4" unfolding d(1) r(6,7) v4 using r(1) by simp
  finally have "digits_value quo 0 4 = digits_value num 0 4 div digits_value den 0 4" .
  moreover have "long_division num den n = quo" using s q r(2) by (simp add: long_division_def)
  ultimately show ?thesis using d by simp
qed

lemma short_step:
  assumes "0 < d" "d < BASE" "0 \<le> x" "x < BASE" "0 \<le> r" "r < d"
  shows "to_unsigned (x + r * BASE) = x + r * BASE" "0 \<le> (x + r * BASE) div d" "(x + r * BASE) div d < BASE"
    "0 \<le> (x + r * BASE) mod d" "(x + r * BASE) mod d < d"
proof -
  have "r * BASE \<le> (d - 1) * BASE" using assms by (intro mult_right_mono) auto
  then have w: "0 \<le> x + r * BASE" "x + r * BASE < d * BASE" using assms by (simp_all add: algebra_simps)
  moreover have "d * BASE < BASE * BASE" using assms(2) by simp
  ultimately have "x + r * BASE < BASE * BASE" by linarith
  then show "to_unsigned (x + r * BASE) = x + r * BASE" using w(1) by (rule parts(1) [rotated])
  show "0 \<le> (x + r * BASE) div d" "0 \<le> (x + r * BASE) mod d" "(x + r * BASE) mod d < d"
    using w(1) assms(1) by (simp_all add: pos_imp_zdiv_nonneg_iff)
  have "(x + r * BASE) div d * d \<le> x + r * BASE"
    using div_mult_mod_eq [of "x + r * BASE" d] pos_mod_sign [OF assms(1), of "x + r * BASE"] by linarith
  then have "(x + r * BASE) div d * d < BASE * d" using w(2) by (simp add: mult.commute)
  then show "(x + r * BASE) div d < BASE" using assms(1) by (simp add: mult_less_cancel_right)
qed

lemma short_sum:
  fixes d b :: int
  assumes "n3 = d * q3 + r3" "n2 + r3 * b = d * q2 + r2" "n1 + r2 * b = d * q1 + r1" "n0 + r1 * b = d * q0 + r0"
  shows "n0 + n1 * b + (n2 + n3 * b) * b ^ 2 = d * (q0 + q1 * b + (q2 + q3 * b) * b ^ 2) + r0"
proof -
  have "n0 = d * q0 + r0 - r1 * b" "n1 = d * q1 + r1 - r2 * b" "n2 = d * q2 + r2 - r3 * b" using assms by linarith+
  then show ?thesis unfolding assms(1) by (simp only:) (simp add: algebra_simps power2_eq_square)
qed

lemma short_division_value:
  assumes num: "are_digits num" "4 \<le> length num" and d: "0 < d" "d < BASE"
  shows "are_digits (short_division d num) \<and> length (short_division d num) = 4
    \<and> digits_value (short_division d num) 0 4 = digits_value num 0 4 div d"
proof -
  have n: "0 \<le> num ! k \<and> num ! k < BASE" if "k < 4" for k using are_digits_nth [OF num(1)] that num(2) by simp
  let ?w3 = "num ! Suc (Suc (Suc 0))" let ?w2 = "num ! Suc (Suc 0) + ?w3 mod d * BASE"
  let ?w1 = "num ! Suc 0 + ?w2 mod d * BASE" let ?w0 = "num ! 0 + ?w1 mod d * BASE"
  have s3: "to_unsigned ?w3 = ?w3" "0 \<le> ?w3 div d" "?w3 div d < BASE" "0 \<le> ?w3 mod d" "?w3 mod d < d"
    using short_step [OF d, of ?w3 0] n d(1) by simp_all
  have s2: "to_unsigned ?w2 = ?w2" "0 \<le> ?w2 div d" "?w2 div d < BASE" "0 \<le> ?w2 mod d" "?w2 mod d < d"
    using short_step [OF d _ _ s3(4,5), of "num ! Suc (Suc 0)"] n by simp_all
  have s1: "to_unsigned ?w1 = ?w1" "0 \<le> ?w1 div d" "?w1 div d < BASE" "0 \<le> ?w1 mod d" "?w1 mod d < d"
    using short_step [OF d _ _ s2(4,5), of "num ! Suc 0"] n by simp_all
  have s0: "to_unsigned ?w0 = ?w0" "0 \<le> ?w0 div d" "?w0 div d < BASE" "0 \<le> ?w0 mod d" "?w0 mod d < d"
    using short_step [OF d _ _ s1(4,5), of "num ! 0"] n by simp_all
  have q: "short_division d num = [?w0 div d, ?w1 div d, ?w2 div d, ?w3 div d]"
    by (simp add: short_division_def short_digit_def s3(1) s2(1) s1(1) s0(1) Let_def eval_nat_numeral)
  have v: "digits_value xs 0 4 = xs ! 0 + xs ! Suc 0 * BASE + (xs ! Suc (Suc 0) + xs ! Suc (Suc (Suc 0)) * BASE) * BASE ^ 2" for xs
    by (simp add: eval_nat_numeral algebra_simps)
  have "digits_value num 0 4 = d * digits_value (short_division d num) 0 4 + ?w0 mod d"
    unfolding v q by (simp only: nth_Cons_0 nth_Cons_Suc) (rule short_sum; simp)
  then have "digits_value num 0 4 div d = digits_value (short_division d num) 0 4 + (?w0 mod d) div d" using d(1) by simp
  also have "(?w0 mod d) div d = 0" using s0(4,5) by (rule div_pos_pos_trivial)
  finally show ?thesis using s0 s1 s2 s3 by (simp add: q are_digits_def)
qed

lemma divide_unsigned_value:
  assumes "two_words lden hden \<noteq> 0"
  shows "\<exists>l h. divide_unsigned lnum hnum lden hden = Some (l, h)
    \<and> two_words l h = two_words lnum hnum div two_words lden hden"
proof -
  let ?num = "encode lnum hnum @ [0]" and ?den = "encode lden hden"
  have num: "are_digits ?num" "length ?num = 5" "?num ! 4 = 0" "digits_value ?num 0 4 = uint (two_words lnum hnum)"
  proof -
    have "digits_value ?num 0 4 = digits_value (encode lnum hnum) 0 4"
      by (rule digits_value_cong) (simp add: nth_append encode_digits)
    then show "digits_value ?num 0 4 = uint (two_words lnum hnum)" by (simp add: encode_value)
  qed (use encode_digits [of lnum hnum] in \<open>simp_all add: are_digits_def nth_append\<close>)
  note den = encode_digits [of lden hden] encode_value [of lden hden]
  have result: "\<exists>l h. Some (decode ws) = Some (l, h) \<and> two_words l h = two_words lnum hnum div two_words lden hden"
    if "are_digits ws \<and> length ws = 4 \<and> digits_value ws 0 4 = uint (two_words lnum hnum) div uint (two_words lden hden)" for ws
  proof -
    obtain l h where d: "decode ws = (l, h)" by (cases "decode ws")
    with decode_value [OF _ _ d] that have "uint (two_words l h) = uint (two_words lnum hnum div two_words lden hden)"
      by (simp add: uint_div_distrib)
    with d show ?thesis by (simp only: word_uint_eq_iff) blast
  qed
  consider "hnum = 0" "hden = 0" | "hnum = 0" "hden \<noteq> 0" | "hnum \<noteq> 0" "hden = 0" "uint lden < BASE"
    | "hnum \<noteq> 0" "\<not> (hden = 0 \<and> uint lden < BASE)" by blast
  then show ?thesis
  proof cases
    case 1
    have "uint (two_words (lnum div lden) 0) = uint (two_words lnum 0 div two_words lden 0)"
      by (simp add: uint_two_words uint_div_distrib)
    then have "two_words (lnum div lden) 0 = two_words lnum 0 div two_words lden 0" by (simp only: word_uint_eq_iff)
    with 1 show ?thesis by (simp add: divide_unsigned_def)
  next
    case 2
    then have "1 \<le> uint hden" using word32_range [of hden] by (simp add: word_uint_eq_iff int_one_le_iff_zero_less order_less_le)
    then have "2 ^ 32 \<le> 2 ^ 32 * uint hden" by simp
    then have "uint lnum < uint lden + 2 ^ 32 * uint hden" using word32_range(2) [of lnum] word32_range(1) [of lden] by linarith
    then have "uint (two_words lnum 0 div two_words lden hden) = uint (two_words 0 0)"
      unfolding uint_div_distrib uint_two_words by (simp add: div_pos_pos_trivial)
    then have "two_words 0 0 = two_words lnum 0 div two_words lden hden" by (simp only: word_uint_eq_iff)
    with 2 show ?thesis by (simp add: divide_unsigned_def)
  next
    case 3
    then have v: "uint (two_words lden hden) = uint lden" by (simp add: uint_two_words)
    then have "0 < uint lden" using assms word32_range [of lden] by (simp add: word_uint_eq_iff order_less_le)
    from short_division_value [OF num(1) _ this 3(3)] num(2,4) v
    have r: "are_digits (short_division (uint lden) ?num) \<and> length (short_division (uint lden) ?num) = 4
      \<and> digits_value (short_division (uint lden) ?num) 0 4 = uint (two_words lnum hnum) div uint (two_words lden hden)" by simp
    have "divide_unsigned lnum hnum lden hden = Some (decode (short_division (uint lden) ?num))"
      using 3 by (simp add: divide_unsigned_def)
    with result [OF r] show ?thesis by (simp only:)
  next
    case 4
    have big: "BASE \<le> digits_value ?den 0 4"
    proof (cases "hden = 0")
      case False
      then have "1 \<le> uint hden" using word32_range [of hden] by (simp add: word_uint_eq_iff int_one_le_iff_zero_less order_less_le)
      then have "2 ^ 32 \<le> 2 ^ 32 * uint hden" by simp
      moreover have "BASE \<le> 2 ^ 32" by (simp add: BASE_def)
      ultimately show ?thesis unfolding den(3) uint_two_words using word32_range(1) [of lden] by linarith
    next
      case True
      then have "BASE \<le> uint lden" using 4 by auto
      then show ?thesis unfolding den(3) uint_two_words using True by simp
    qed
    show ?thesis
    proof (cases "highest_digit ?den 3")
      case None
      then have "digits_value ?den 0 4 = 0"
        using highest_digit_None [OF None] by (simp add: digits_value_def)
      with big show ?thesis using BASE_pos(1) by linarith
    next
      case (Some n)
      from long_division_value [OF num(1-3) den(1,2) Some big] num(4) den(3)
      have r: "are_digits (long_division ?num ?den n) \<and> length (long_division ?num ?den n) = 4
        \<and> digits_value (long_division ?num ?den n) 0 4 = uint (two_words lnum hnum) div uint (two_words lden hden)" by simp
      have "divide_unsigned lnum hnum lden hden = Some (decode (long_division ?num ?den n))"
        unfolding divide_unsigned_def Let_def using 4 Some by (simp only: if_False simp_thms option.case)
      with result [OF r] show ?thesis by (simp only:)
    qed
  qed
qed

end
