(* ===== verification/DoubleDivSpec.thy ===== *)
theory DoubleDivSpec
  imports DoubleArith DoubleKnuth
begin

text \<open>
  What the division of two-word integers yields: the quotient rounded in each of the four ways, the remainder that goes
  with it, and the overflow. The long division below it is that of \<open>DoubleKnuth\<close>.
\<close>

section \<open>Words as signed and unsigned numbers\<close>

definition number :: "bool \<Rightarrow> 64 word \<Rightarrow> int" where
  "number uns w = (if uns then uint w else sint w)"

definition in_two_words :: "32 word \<times> 32 word \<Rightarrow> 64 word" where
  "in_two_words p = (case p of (l, h) \<Rightarrow> two_words l h)"

lemma in_two_words_simps [simp]:
  "in_two_words (l, h) = two_words l h"
  "in_two_words (pieces r) = value_of r"
  by (simp_all add: in_two_words_def pieces_def value_of_def split: prod.split)

lemma in_two_words_eq_iff: "in_two_words p = in_two_words q \<longleftrightarrow> p = q"
  by (cases p; cases q) simp

lemma number_word: "word_of_int (number uns w) = w"
  by (simp add: number_def)

lemma number_zero_iff: "number uns w = 0 \<longleftrightarrow> w = 0"
  by (simp add: number_def unsigned_eq_0_iff signed_eq_0_iff)

lemma number_range: "\<bar>number uns w\<bar> < 2 ^ 64" "\<not> uns \<Longrightarrow> \<bar>number uns w\<bar> \<le> 2 ^ 63"
  using uint_lt2p [of w] sint_range64 [of w] by (auto simp: number_def)

lemma uint_neg64: "w \<noteq> 0 \<Longrightarrow> uint (- w :: 64 word) = 2 ^ 64 - uint w"
proof -
  assume "w \<noteq> 0"
  then have "uint w \<noteq> 0" by (simp add: unsigned_eq_0_iff)
  with uint_lt2p [of w] have "0 < uint w" "uint w < 2 ^ 64" by (simp_all add: order_less_le)
  then have "(- uint w) mod 2 ^ 64 = 2 ^ 64 - uint w" by (simp add: zmod_zminus1_eq_if mod_pos_pos_trivial)
  moreover have "uint (- w) = (- uint w) mod 2 ^ 64"
  proof -
    have "uint (- w) = uint (word_of_int (- uint w) :: 64 word)" by simp
    also have "\<dots> = (- uint w) mod 2 ^ 64" unfolding uint_word_of_int by simp
    finally show ?thesis .
  qed
  ultimately show ?thesis by simp
qed

lemma uint_abs: "uint (if number uns w < 0 then - w else w) = \<bar>number uns w\<bar>"
proof (cases "number uns w < 0")
  case True
  then have s: "\<not> uns" "sint w < 0" by (auto simp: number_def not_less split: if_splits)
  then have "w \<noteq> 0" "uint w - 2 ^ 64 = sint w" by (auto simp: sint_long split: if_splits)
  with uint_neg64 [of w] s show ?thesis by (simp add: number_def)
next
  case False
  have "uint w < 2 ^ 64" using uint_lt2p [of w] by simp
  with False show ?thesis by (auto simp: number_def sint_long not_less split: if_splits)
qed

lemma word_small_zero_iff: "\<bar>k\<bar> < 2 ^ 64 \<Longrightarrow> (word_of_int k :: 64 word) = 0 \<longleftrightarrow> k = 0"
proof
  assume "\<bar>k\<bar> < 2 ^ 64" "(word_of_int k :: 64 word) = 0"
  then have "uint (word_of_int k :: 64 word) = 0" by simp
  then have "k mod 2 ^ 64 = 0" by (simp add: uint_word_of_int)
  then obtain j where "k = 2 ^ 64 * j" by (auto simp: mod_eq_0_iff_dvd)
  with \<open>\<bar>k\<bar> < 2 ^ 64\<close> show "k = 0" by (cases "j = 0") (auto simp: abs_mult)
qed simp

section \<open>The rounded quotients\<close>

definition is_division :: "tree_code \<Rightarrow> bool" where
  "is_division code \<longleftrightarrow> code \<in> {TRUNC_DIV_EXPR, TRUNC_MOD_EXPR, EXACT_DIV_EXPR, FLOOR_DIV_EXPR, FLOOR_MOD_EXPR,
     CEIL_DIV_EXPR, CEIL_MOD_EXPR, ROUND_DIV_EXPR, ROUND_MOD_EXPR}"

text \<open>Towards zero, down, up, or to the nearest integer with halves away from zero.\<close>

definition rounded_quotient :: "tree_code \<Rightarrow> int \<Rightarrow> int \<Rightarrow> int" where
  "rounded_quotient code n d =
    (if code \<in> {FLOOR_DIV_EXPR, FLOOR_MOD_EXPR} then n div d
     else if code \<in> {CEIL_DIV_EXPR, CEIL_MOD_EXPR} then - (- n div d)
     else if code \<in> {ROUND_DIV_EXPR, ROUND_MOD_EXPR} then sgn n * sgn d * ((2 * \<bar>n\<bar> + \<bar>d\<bar>) div (2 * \<bar>d\<bar>))
     else n sdiv d)"

lemma smod_less: "d \<noteq> 0 \<Longrightarrow> \<bar>n smod d\<bar> < \<bar>d\<bar>" for n d :: int
  by (simp add: signed_modulo_int_def abs_mult)

lemma smod_zero_iff: "n smod d = 0 \<longleftrightarrow> d dvd n" for n d :: int
  by (cases "n = 0") (simp_all add: signed_modulo_int_def mod_eq_0_iff_dvd sgn_0_0)

lemma sgn_differ: "d \<noteq> 0 \<Longrightarrow> \<not> d dvd n \<Longrightarrow> sgn n \<noteq> sgn d \<longleftrightarrow> (n < 0) \<noteq> (d < 0)" for n d :: int
  by (cases "n = 0") (simp_all add: sgn_if)

lemma floor_quotient: "d \<noteq> 0 \<Longrightarrow> n div d = n sdiv d - of_bool ((n < 0) \<noteq> (d < 0) \<and> n smod d \<noteq> 0)" for n d :: int
  unfolding divide_int_eq_signed_divide_int smod_zero_iff using sgn_differ [of d n] by (cases "d dvd n") auto

lemma ceiling_quotient: "d \<noteq> 0 \<Longrightarrow> - (- n div d) = n sdiv d + of_bool ((n < 0) = (d < 0) \<and> n smod d \<noteq> 0)" for n d :: int
proof -
  assume "d \<noteq> 0"
  have "- n sdiv d = - (n sdiv d)" by (simp add: signed_divide_int_def)
  moreover have "\<not> d dvd n \<Longrightarrow> sgn (- n) \<noteq> sgn d \<longleftrightarrow> (n < 0) = (d < 0)"
    using \<open>d \<noteq> 0\<close> sgn_differ [of d "- n"] by (cases "n = 0") auto
  ultimately show ?thesis unfolding divide_int_eq_signed_divide_int smod_zero_iff using \<open>d \<noteq> 0\<close> by auto
qed

lemma half_up: "0 \<le> n \<Longrightarrow> 0 < d \<Longrightarrow> (2 * n + d) div (2 * d) = n div d + of_bool (d \<le> 2 * (n mod d))" for n d :: int
proof -
  assume d: "0 \<le> n" "0 < d"
  have m: "0 \<le> n mod d" "n mod d < d" using d by simp_all
  have "n = n div d * d + n mod d" by simp
  then have "2 * n + d = (2 * (n mod d) + d) + n div d * (2 * d)" by (simp only: mult.assoc [symmetric] mult.commute [of 2])
  then have "(2 * n + d) div (2 * d) = ((2 * (n mod d) + d) + n div d * (2 * d)) div (2 * d)" by (rule arg_cong)
  also have "\<dots> = n div d + (2 * (n mod d) + d) div (2 * d)" by (rule div_mult_self1) (use d in simp)
  finally have "(2 * n + d) div (2 * d) = n div d + (2 * (n mod d) + d) div (2 * d)" .
  moreover have "(2 * (n mod d) + d) div (2 * d) = of_bool (d \<le> 2 * (n mod d))"
  proof (cases "d \<le> 2 * (n mod d)")
    case True
    have "(2 * (n mod d) + d) div (2 * d) = 1"
      by (rule int_div_pos_eq [of _ _ _ "2 * (n mod d) - d"]) (use True m in simp_all)
    with True show ?thesis by simp
  next
    case False
    with m d show ?thesis by (simp add: div_pos_pos_trivial)
  qed
  ultimately show ?thesis by simp
qed

lemma nearest_quotient:
  fixes n d :: int
  assumes "d \<noteq> 0" "\<not> (n sdiv d = 0 \<and> (n < 0) \<noteq> (d < 0) \<and> \<bar>d\<bar> \<le> 2 * \<bar>n\<bar>)"
  shows "sgn n * sgn d * ((2 * \<bar>n\<bar> + \<bar>d\<bar>) div (2 * \<bar>d\<bar>))
    = n sdiv d + (if \<bar>d\<bar> \<le> 2 * \<bar>n smod d\<bar> then (if n sdiv d < 0 then - 1 else 1) else 0)"
proof -
  let ?q = "\<bar>n\<bar> div \<bar>d\<bar>" and ?r = "\<bar>n\<bar> mod \<bar>d\<bar>"
  have r: "\<bar>n smod d\<bar> = ?r" using assms(1) by (cases "n = 0") (simp_all add: signed_modulo_int_def abs_mult abs_sgn_eq)
  have h: "(2 * \<bar>n\<bar> + \<bar>d\<bar>) div (2 * \<bar>d\<bar>) = ?q + of_bool (\<bar>d\<bar> \<le> 2 * ?r)" using assms(1) by (intro half_up) simp_all
  have s: "n sdiv d = sgn n * sgn d * ?q" by (simp add: signed_divide_int_def)
  show ?thesis
  proof (cases "\<bar>d\<bar> \<le> 2 * ?r")
    case True
    then have n: "n \<noteq> 0" using assms(1) by auto
    show ?thesis
    proof (cases "?q = 0")
      case q: True
      then have "?r = \<bar>n\<bar>" using div_mult_mod_eq [of "\<bar>n\<bar>" "\<bar>d\<bar>"] by simp
      with True q assms s have "(n < 0) = (d < 0)" by auto
      with n assms(1) have "sgn n * sgn d = 1" by (auto simp: sgn_if)
      with q True show ?thesis unfolding h s r by simp
    next
      case q: False
      moreover have "0 \<le> ?q" using assms(1) by (simp add: pos_imp_zdiv_nonneg_iff)
      ultimately have "0 < ?q" by simp
      have "sgn n * sgn d = 1 \<or> sgn n * sgn d = - 1" using n assms(1) by (auto simp: sgn_if)
      with True \<open>0 < ?q\<close> show ?thesis unfolding h s r by auto
    qed
  next
    case False
    then show ?thesis unfolding h s r by simp
  qed
qed

section \<open>The routine\<close>

lemma number_negative: "number uns (two_words l h) < 0 \<longleftrightarrow> \<not> uns \<and> sint h < 0"
  by (simp add: number_def sint_high not_less)

lemma pieces_neg: "in_two_words (if c then pieces (neg_double l h) else (l, h)) = (if c then - two_words l h else two_words l h)"
  by (simp add: neg_double_value)

lemma division_remainder_value:
  "in_two_words (division_remainder lnum hnum lquo hquo lden hden) = two_words lnum hnum - two_words lquo hquo * two_words lden hden"
proof -
  obtain l h b where m: "mul_double lquo hquo lden hden = (l, h, b)" by (cases "mul_double lquo hquo lden hden")
  obtain l' h' b' where n: "neg_double l h = (l', h', b')" by (cases "neg_double l h")
  have "two_words l h = two_words lquo hquo * two_words lden hden"
    using m mul_double_value [of lquo hquo lden hden False] by (simp add: mul_double_def)
  moreover have "two_words l' h' = - two_words l h" using n neg_double_value [of l h] by simp
  ultimately show ?thesis by (simp add: division_remainder_def m n add_double_def add_double_value)
qed

lemma two_words_le: "uint (two_words l h) \<le> uint (two_words l' h') \<longleftrightarrow> h < h' \<or> (h = h' \<and> l \<le> l')"
proof -
  have r: "0 \<le> uint l" "uint l < 2 ^ 32" "0 \<le> uint l'" "uint l' < 2 ^ 32" using word32_range by blast+
  consider "uint h + 1 \<le> uint h'" | "uint h = uint h'" | "uint h' + 1 \<le> uint h" by linarith
  then show ?thesis
  proof cases
    case 1
    then have "2 ^ 32 * (uint h + 1) \<le> 2 ^ 32 * uint h'" by (rule mult_left_mono) simp
    then have "2 ^ 32 * uint h + 2 ^ 32 \<le> 2 ^ 32 * uint h'" by (simp only: distrib_left mult_1_right)
    with r have "uint l + 2 ^ 32 * uint h \<le> uint l' + 2 ^ 32 * uint h'" by linarith
    with 1 show ?thesis by (simp add: uint_two_words word_less_def)
  next
    case 2
    then show ?thesis by (simp add: uint_two_words word_less_def word_le_def word_uint_eq_iff)
  next
    case 3
    then have "2 ^ 32 * (uint h' + 1) \<le> 2 ^ 32 * uint h" by (rule mult_left_mono) simp
    then have "2 ^ 32 * uint h' + 2 ^ 32 \<le> 2 ^ 32 * uint h" by (simp only: distrib_left mult_1_right)
    with r have "\<not> uint l + 2 ^ 32 * uint h \<le> uint l' + 2 ^ 32 * uint h'" by linarith
    with 3 show ?thesis by (auto simp: uint_two_words word_less_def word_uint_eq_iff)
  qed
qed

lemma reaches_half_value:
  assumes "\<bar>sint (in_two_words r)\<bar> < 2 ^ 63"
  shows "reaches_half r lden hden \<longleftrightarrow> \<bar>sint (two_words lden hden)\<bar> \<le> 2 * \<bar>sint (in_two_words r)\<bar>"
proof -
  obtain l h where r: "r = (l, h)" by (cases r)
  obtain lr hr where a: "(if sint h < 0 then pieces (neg_double l h) else (l, h)) = (lr, hr)"
    by (cases "if sint h < 0 then pieces (neg_double l h) else (l, h)")
  obtain ld hd where b: "(if sint hden < 0 then pieces (neg_double lden hden) else (lden, hden)) = (ld, hd)"
    by (cases "if sint hden < 0 then pieces (neg_double lden hden) else (lden, hden)")
  obtain lt ht c where t: "mul_double 2 0 lr hr = (lt, ht, c)" by (cases "mul_double 2 0 lr hr")
  have abs_of: "uint (two_words x y) = \<bar>sint (two_words l' h')\<bar>"
    if "(if sint h' < 0 then pieces (neg_double l' h') else (l', h')) = (x, y)" for x y l' h'
  proof -
    have "two_words x y = (if sint h' < 0 then - two_words l' h' else two_words l' h')"
      unfolding pieces_neg [symmetric] that by simp
    also have "\<dots> = (if number False (two_words l' h') < 0 then - two_words l' h' else two_words l' h')"
      by (simp add: number_negative)
    finally show ?thesis using uint_abs [of False "two_words l' h'"] by (simp add: number_def)
  qed
  have "two_words lt ht = two_words 2 0 * two_words lr hr"
    using t mul_double_value [of 2 0 lr hr False] by (simp add: mul_double_def)
  also have "two_words 2 0 = 2" by (simp add: two_words_def)
  finally have "uint (two_words lt ht) = (2 * uint (two_words lr hr)) mod 2 ^ 64" by (simp add: uint_word_ariths)
  then have "uint (two_words lt ht) = 2 * uint (two_words lr hr)"
    unfolding abs_of [OF a] using assms r by (simp add: mod_pos_pos_trivial)
  then show ?thesis
    unfolding r reaches_half_def by (simp add: a b t) (simp only: two_words_le [symmetric] abs_of [OF a] abs_of [OF b])
qed

text \<open>The quotient towards zero, from the division of the absolute values.\<close>

lemma lowest_numbers: "a AND b = - 1 \<longleftrightarrow> two_words a b = - 1" for a b :: "32 word"
  unfolding two_words_0(2) [symmetric] two_words_eq_iff by (rule and_eq_minus_1_iff)

lemma sint_minus_one: "sint w = - 1 \<longleftrightarrow> w = - 1" for w :: "64 word"
  by (auto intro: signed_word_eqI)

lemma truncated_quotient:
  assumes "two_words lden hden \<noteq> 0"
    and "uint (two_words lnum hnum) = \<bar>n\<bar>" "uint (two_words lden hden) = \<bar>d\<bar>"
  shows "\<exists>q. divide_unsigned lnum hnum lden hden = Some q
    \<and> in_two_words (if (n < 0) \<noteq> (d < 0) then pieces (neg_double (fst q) (snd q)) else q) = word_of_int (n sdiv d)"
proof -
  obtain l h where q: "divide_unsigned lnum hnum lden hden = Some (l, h)" "two_words l h = two_words lnum hnum div two_words lden hden"
    using divide_unsigned_value [OF assms(1)] by blast
  have "two_words l h = word_of_int (\<bar>n\<bar> div \<bar>d\<bar>)"
    unfolding q(2) word_div_def assms(2,3) ..
  moreover have "n sdiv d = (if (n < 0) \<noteq> (d < 0) then - (\<bar>n\<bar> div \<bar>d\<bar>) else \<bar>n\<bar> div \<bar>d\<bar>)"
    by (cases "n = 0"; cases "d = 0") (auto simp: signed_divide_int_def sgn_if)
  ultimately show ?thesis using q(1) by (auto simp: neg_double_value)
qed

lemma rounding_cases:
  "(case t of None \<Rightarrow> None | Some None \<Rightarrow> Some (ov, q, remainder q) | Some (Some q') \<Rightarrow> Some (ov, q', remainder q'))
    = (case t of None \<Rightarrow> None | Some t \<Rightarrow>
        Some (ov, (case t of None \<Rightarrow> q | Some q' \<Rightarrow> q'), remainder (case t of None \<Rightarrow> q | Some q' \<Rightarrow> q')))"
  by (simp split: option.split)

lemma div_and_round_steps:
  assumes nd: "n = number uns (two_words lnum hnum)" "d = number uns (two_words lden hden)" "d \<noteq> 0"
  shows "\<exists>q ld hd.
    in_two_words q = word_of_int (n sdiv d) \<and> uint (two_words ld hd) = \<bar>d\<bar> \<and>
    div_and_round_double code uns lnum hnum lden hden =
      (case round_quotient code ((n < 0) \<noteq> (d < 0)) q (division_remainder lnum hnum (fst q) (snd q) lden hden) ld hd of
         None \<Rightarrow> None
       | Some t \<Rightarrow>
           let q' = (case t of None \<Rightarrow> q | Some q' \<Rightarrow> q')
           in Some (\<not> uns \<and> n = - (2 ^ 63) \<and> d = - 1, q', division_remainder lnum hnum (fst q') (snd q') lden hden))"
proof -
  let ?N = "two_words lnum hnum" and ?D = "two_words lden hden"
  have neg: "n < 0 \<longleftrightarrow> \<not> uns \<and> sint hnum < 0" "d < 0 \<longleftrightarrow> \<not> uns \<and> sint hden < 0" by (simp_all add: nd number_negative)
  have D0: "?D \<noteq> 0" using nd by (simp add: number_zero_iff)
  then have zero: "\<not> (hden = 0 \<and> lden = 0)" by (auto simp: two_words_0)
  obtain ln hn mn where a: "(if n < 0 then neg_double lnum hnum else (lnum, hnum, False)) = (ln, hn, mn)"
    by (cases "if n < 0 then neg_double lnum hnum else (lnum, hnum, False)")
  obtain ld hd where b: "(if d < 0 then pieces (neg_double lden hden) else (lden, hden)) = (ld, hd)"
    by (cases "if d < 0 then pieces (neg_double lden hden) else (lden, hden)")
  have ln: "two_words ln hn = (if n < 0 then - ?N else ?N)"
    using arg_cong [OF a, of value_of] by (simp add: neg_double_value split: if_splits)
  have ld: "two_words ld hd = (if d < 0 then - ?D else ?D)"
    unfolding pieces_neg [symmetric] b by simp
  have un: "uint (two_words ln hn) = \<bar>n\<bar>" "uint (two_words ld hd) = \<bar>d\<bar>"
    unfolding ln ld using uint_abs [of uns ?N] uint_abs [of uns ?D] by (simp_all add: nd)
  have mn: "mn \<longleftrightarrow> \<not> uns \<and> n = - (2 ^ 63)"
    using arg_cong [OF a, of overflows] neg(1) by (auto simp: neg_double_overflows nd number_def split: if_splits)
  have ov: "mn \<and> lden AND hden = - 1 \<longleftrightarrow> \<not> uns \<and> n = - (2 ^ 63) \<and> d = - 1"
    unfolding mn lowest_numbers by (auto simp: nd number_def sint_minus_one)
  have "two_words ld hd \<noteq> 0" using D0 by (simp add: ld)
  from truncated_quotient [OF this un] obtain q where q: "divide_unsigned ln hn ld hd = Some q"
    "in_two_words (if (n < 0) \<noteq> (d < 0) then pieces (neg_double (fst q) (snd q)) else q) = word_of_int (n sdiv d)" by blast
  let ?q = "if (n < 0) \<noteq> (d < 0) then pieces (neg_double (fst q) (snd q)) else q"
  let ?r = "division_remainder lnum hnum (fst ?q) (snd ?q) lden hden"
  have "div_and_round_double code uns lnum hnum lden hden =
      (case round_quotient code ((n < 0) \<noteq> (d < 0)) ?q ?r ld hd of
         None \<Rightarrow> None
       | Some t \<Rightarrow>
           let q' = (case t of None \<Rightarrow> ?q | Some q' \<Rightarrow> q')
           in Some (\<not> uns \<and> n = - (2 ^ 63) \<and> d = - 1, q', division_remainder lnum hnum (fst q') (snd q') lden hden))"
    unfolding div_and_round_double_def Let_def neg [symmetric] if_not_P [OF zero]
    by (simp only: a b prod.case q(1) option.case zero simp_thms ov) (rule rounding_cases)
  with q(2) un(2) show ?thesis by blast
qed

text \<open>The adjustment. The nearest quotient is missed where a negative ratio has the quotient zero: its sign is lost there.\<close>

definition sign_lost :: "tree_code \<Rightarrow> int \<Rightarrow> int \<Rightarrow> bool" where
  "sign_lost code n d \<longleftrightarrow> code \<in> {ROUND_DIV_EXPR, ROUND_MOD_EXPR} \<and> \<bar>n\<bar> < \<bar>d\<bar> \<and> (n < 0) \<noteq> (d < 0) \<and> \<bar>d\<bar> \<le> 2 * \<bar>n\<bar>"

lemma half_quotient_range:
  fixes n d :: int
  assumes "\<bar>n\<bar> < 2 ^ 64" "n smod d \<noteq> 0" "d \<noteq> 0"
  shows "\<bar>n sdiv d\<bar> < 2 ^ 63"
proof -
  have "\<bar>d\<bar> \<noteq> 1" using assms(2) by (auto simp: signed_modulo_int_def abs_if split: if_splits)
  with assms(3) have "2 \<le> \<bar>d\<bar>" by linarith
  then have "\<bar>n\<bar> div \<bar>d\<bar> \<le> \<bar>n\<bar> div 2" by (rule zdiv_mono2 [rotated 2]) simp_all
  also have "\<dots> < 2 ^ 63" using assms(1) by simp
  finally have "\<bar>n\<bar> div \<bar>d\<bar> < 2 ^ 63" .
  moreover have "\<bar>n sdiv d\<bar> \<le> \<bar>n\<bar> div \<bar>d\<bar>"
    using assms(3) by (simp add: signed_divide_int_def abs_mult sgn_if pos_imp_zdiv_nonneg_iff)
  ultimately show ?thesis by linarith
qed

lemma up_down:
  "in_two_words q = word_of_int k \<Longrightarrow> in_two_words (pieces (add_double (fst q) (snd q) 1 0)) = word_of_int (k + 1)"
  "in_two_words q = word_of_int k \<Longrightarrow> in_two_words (pieces (add_double (fst q) (snd q) (- 1) (- 1))) = word_of_int (k - 1)"
proof -
  have "two_words 1 0 = 1" by (simp add: two_words_def)
  then show "in_two_words q = word_of_int k \<Longrightarrow> in_two_words (pieces (add_double (fst q) (snd q) 1 0)) = word_of_int (k + 1)"
    by (cases q) (simp add: add_double_def add_double_value)
  show "in_two_words q = word_of_int k \<Longrightarrow> in_two_words (pieces (add_double (fst q) (snd q) (- 1) (- 1))) = word_of_int (k - 1)"
    by (cases q) (simp add: add_double_def add_double_value two_words_0)
qed

lemma rounding_reached:
  assumes q: "in_two_words q = word_of_int (n sdiv d)" and r: "in_two_words r = word_of_int (n smod d)"
    and d: "uint (two_words dl dh) = \<bar>d\<bar>" "d \<noteq> 0" "\<bar>d\<bar> \<le> 2 ^ 63" and n: "\<bar>n\<bar> < 2 ^ 64"
  shows "reaches_half r dl dh \<longleftrightarrow> \<bar>d\<bar> \<le> 2 * \<bar>n smod d\<bar>"
    and "\<bar>d\<bar> \<le> 2 * \<bar>n smod d\<bar> \<Longrightarrow> sint (snd q) < 0 \<longleftrightarrow> n sdiv d < 0"
proof -
  have "\<bar>n smod d\<bar> < 2 ^ 63" using smod_less [OF d(2), of n] d(3) by linarith
  then have sr: "sint (in_two_words r) = n smod d" unfolding r by (intro sint_word64) linarith+
  have "two_words dl dh = word_of_int \<bar>d\<bar>" by (simp only: d(1) [symmetric] word_of_int_uint)
  have "\<bar>sint (two_words dl dh)\<bar> = \<bar>d\<bar>"
    unfolding sint_long d(1) using d(3) by (cases "\<bar>d\<bar> < 2 ^ 63") simp_all
  with reaches_half_value [of r dl dh] sr \<open>\<bar>n smod d\<bar> < 2 ^ 63\<close>
  show "reaches_half r dl dh \<longleftrightarrow> \<bar>d\<bar> \<le> 2 * \<bar>n smod d\<bar>" by simp
  assume "\<bar>d\<bar> \<le> 2 * \<bar>n smod d\<bar>"
  with d(2) have "n smod d \<noteq> 0" by auto
  from half_quotient_range [OF n this d(2)] have "sint (in_two_words q) = n sdiv d"
    unfolding q by (intro sint_word64) linarith+
  then show "sint (snd q) < 0 \<longleftrightarrow> n sdiv d < 0" by (cases q) (metis in_two_words_simps(1) sint_high snd_conv)
qed

lemma round_quotient_value:
  assumes q: "in_two_words q = word_of_int (n sdiv d)" and r: "in_two_words r = word_of_int (n smod d)"
    and d: "uint (two_words dl dh) = \<bar>d\<bar>" "d \<noteq> 0" "\<bar>d\<bar> < 2 ^ 64" and n: "\<bar>n\<bar> < 2 ^ 64"
    and code: "is_division code" "\<not> sign_lost code n d"
    and wide: "code \<in> {ROUND_DIV_EXPR, ROUND_MOD_EXPR} \<Longrightarrow> \<bar>d\<bar> \<le> 2 ^ 63"
  shows "\<exists>t. round_quotient code ((n < 0) \<noteq> (d < 0)) q r dl dh = Some t
    \<and> in_two_words (case t of None \<Rightarrow> q | Some q' \<Rightarrow> q') = word_of_int (rounded_quotient code n d)"
proof -
  have r0: "r \<noteq> (0, 0) \<longleftrightarrow> n smod d \<noteq> 0"
  proof -
    have "\<bar>n smod d\<bar> < 2 ^ 64" using smod_less [OF d(2), of n] d(3) by linarith
    then have "in_two_words r = 0 \<longleftrightarrow> n smod d = 0" unfolding r by (rule word_small_zero_iff)
    then show ?thesis using in_two_words_eq_iff [of r "(0, 0)"] by (simp add: two_words_0)
  qed
  note ud = up_down [OF q]
  consider (trunc) "code \<in> {TRUNC_DIV_EXPR, TRUNC_MOD_EXPR, EXACT_DIV_EXPR}"
    | (floor) "code \<in> {FLOOR_DIV_EXPR, FLOOR_MOD_EXPR}" | (ceil) "code \<in> {CEIL_DIV_EXPR, CEIL_MOD_EXPR}"
    | (round) "code \<in> {ROUND_DIV_EXPR, ROUND_MOD_EXPR}"
    using code(1) unfolding is_division_def by blast
  then show ?thesis
  proof cases
    case trunc
    then show ?thesis using q by (auto simp: round_quotient_def Let_def rounded_quotient_def)
  next
    case floor
    then show ?thesis using q ud(2) r0 floor_quotient [OF d(2), of n]
      by (auto simp: round_quotient_def Let_def rounded_quotient_def)
  next
    case ceil
    then show ?thesis using q ud(1) r0 ceiling_quotient [OF d(2), of n]
      by (auto simp: round_quotient_def Let_def rounded_quotient_def)
  next
    case round
    have sdiv0: "n sdiv d = 0 \<Longrightarrow> \<bar>n\<bar> < \<bar>d\<bar>"
      using smod_less [OF d(2), of n] sdiv_mult_smod_eq [of n d] by simp
    have "\<not> (n sdiv d = 0 \<and> (n < 0) \<noteq> (d < 0) \<and> \<bar>d\<bar> \<le> 2 * \<bar>n\<bar>)"
      using code(2) round sdiv0 by (auto simp: sign_lost_def)
    note Q = nearest_quotient [OF d(2) this]
    note R = rounding_reached [OF q r d(1,2) wide [OF round] n]
    from round show ?thesis using q ud Q R
      by (auto simp: round_quotient_def Let_def rounded_quotient_def)
  qed
qed

section \<open>Quotient, remainder, overflow\<close>

text \<open>The rounded quotient is at most one away from the truncated one, and only where the division leaves a rest.\<close>

lemma four_cases: "P x \<Longrightarrow> P y \<Longrightarrow> P z \<Longrightarrow> P w \<Longrightarrow> P (if a then x else if b then y else if c then z else w)"
  by simp

lemma one_more: "0 \<le> q \<Longrightarrow> (z \<Longrightarrow> \<not> c) \<Longrightarrow> \<bar>q + of_bool c\<bar> \<le> q + of_bool (\<not> z)" for q :: int
  by (cases z; cases c) simp_all

lemma quotient_close: "d \<noteq> 0 \<Longrightarrow> \<bar>rounded_quotient code n d\<bar> \<le> \<bar>n\<bar> div \<bar>d\<bar> + of_bool (n smod d \<noteq> 0)"
proof -
  assume d: "d \<noteq> 0"
  define bound where "bound = \<bar>n\<bar> div \<bar>d\<bar> + of_bool (n smod d \<noteq> 0)"
  have t: "\<bar>n sdiv d\<bar> \<le> \<bar>n\<bar> div \<bar>d\<bar>"
    using d by (simp add: signed_divide_int_def abs_mult sgn_if pos_imp_zdiv_nonneg_iff)
  have a: "\<bar>n sdiv d + e * of_bool (c \<and> n smod d \<noteq> 0)\<bar> \<le> bound" if "e = 1 \<or> e = - 1" for c e
    unfolding bound_def using t that by (cases c; cases "n smod d = 0") auto
  have 1: "\<bar>n div d\<bar> \<le> bound"
    unfolding floor_quotient [OF d, of n] using a [of "- 1" "(n < 0) \<noteq> (d < 0)"] by simp
  have 3: "\<bar>- (- n div d)\<bar> \<le> bound"
    unfolding ceiling_quotient [OF d, of n] using a [of 1 "(n < 0) = (d < 0)"] by simp
  have 2: "\<bar>sgn n * sgn d * ((2 * \<bar>n\<bar> + \<bar>d\<bar>) div (2 * \<bar>d\<bar>))\<bar> \<le> bound"
  proof -
    have h: "(2 * \<bar>n\<bar> + \<bar>d\<bar>) div (2 * \<bar>d\<bar>) = \<bar>n\<bar> div \<bar>d\<bar> + of_bool (\<bar>d\<bar> \<le> 2 * (\<bar>n\<bar> mod \<bar>d\<bar>))"
      using d by (intro half_up) simp_all
    have z: "n smod d = 0 \<Longrightarrow> \<not> \<bar>d\<bar> \<le> 2 * (\<bar>n\<bar> mod \<bar>d\<bar>)"
      using d by (auto simp: smod_zero_iff dvd_eq_mod_eq_0 [symmetric])
    have "0 \<le> \<bar>n\<bar> div \<bar>d\<bar>" using d by (simp add: pos_imp_zdiv_nonneg_iff)
    note one_more [OF this, of "n smod d = 0", OF z]
    moreover have "\<bar>sgn n * sgn d * k\<bar> \<le> \<bar>k\<bar>" for k by (simp add: abs_mult sgn_if)
    ultimately show ?thesis unfolding h bound_def by (rule order_trans [rotated])
  qed
  have "\<bar>n sdiv d\<bar> \<le> bound" using a [of 1 False] by simp
  from four_cases [where P = "\<lambda>v. \<bar>v\<bar> \<le> bound", OF 1 3 2 this]
  show ?thesis unfolding rounded_quotient_def bound_def .
qed

lemma quotient_unit: "rounded_quotient code n 1 = n" "rounded_quotient code n (- 1) = - n"
proof -
  have h: "(2 * \<bar>n\<bar> + 1) div 2 = \<bar>n\<bar>" by simp
  show "rounded_quotient code n 1 = n" by (simp add: rounded_quotient_def h sgn_mult_abs)
  show "rounded_quotient code n (- 1) = - n" by (simp add: rounded_quotient_def h sgn_mult_abs)
qed

lemma quotient_half: "2 \<le> \<bar>d\<bar> \<Longrightarrow> 2 * \<bar>rounded_quotient code n d\<bar> \<le> \<bar>n\<bar> + 1"
proof -
  assume d: "2 \<le> \<bar>d\<bar>"
  then have d0: "d \<noteq> 0" by auto
  have q0: "0 \<le> \<bar>n\<bar> div \<bar>d\<bar>" using d0 by (simp add: pos_imp_zdiv_nonneg_iff)
  have "\<bar>n\<bar> div \<bar>d\<bar> * 2 \<le> \<bar>n\<bar> div \<bar>d\<bar> * \<bar>d\<bar>" by (rule mult_left_mono [OF d q0])
  moreover have "\<bar>n\<bar> div \<bar>d\<bar> * \<bar>d\<bar> + \<bar>n\<bar> mod \<bar>d\<bar> = \<bar>n\<bar>" by simp
  moreover have "of_bool (n smod d \<noteq> 0) \<le> \<bar>n\<bar> mod \<bar>d\<bar>"
  proof (cases "n smod d = 0")
    case False
    then have "\<bar>n\<bar> mod \<bar>d\<bar> \<noteq> 0" by (simp add: smod_zero_iff dvd_eq_mod_eq_0 [symmetric])
    with d0 have "0 < \<bar>n\<bar> mod \<bar>d\<bar>" by (simp add: order_less_le)
    then show ?thesis by simp
  qed (use d0 in simp)
  moreover have "of_bool (n smod d \<noteq> 0) \<le> (1 :: int)" by simp
  ultimately show ?thesis using quotient_close [OF d0, of code n] by linarith
qed

lemma quotient_nonneg: "0 \<le> n \<Longrightarrow> 0 < d \<Longrightarrow> 0 \<le> rounded_quotient code n d"
proof -
  assume n: "0 \<le> n" "0 < d"
  have "0 \<le> sgn n * x" if "0 \<le> x" for x using n that by (simp add: sgn_if)
  moreover have "0 \<le> (2 * n + d) div (2 * d)" "0 \<le> n div d" using n by (simp_all add: pos_imp_zdiv_nonneg_iff)
  moreover have "- n div d \<le> 0" using n by (simp add: div_nonpos_pos_le0)
  ultimately show ?thesis using n by (simp add: rounded_quotient_def signed_divide_int_def)
qed

lemma quotient_fits:
  assumes "n = number uns N" "d = number uns D" "d \<noteq> 0" "\<not> (\<not> uns \<and> n = - (2 ^ 63) \<and> d = - 1)"
  shows "number uns (word_of_int (rounded_quotient code n d)) = rounded_quotient code n d"
proof (cases uns)
  case True
  then have r: "0 \<le> n" "n < 2 ^ 64" "0 < d" using assms uint_lt2p [of N] by (simp_all add: number_def order_less_le)
  have "rounded_quotient code n d < 2 ^ 64"
  proof (cases "d = 1")
    case False
    with r(3) have "2 \<le> \<bar>d\<bar>" by simp
    with quotient_half [OF this, of code n] r show ?thesis by linarith
  qed (use r in \<open>simp add: quotient_unit\<close>)
  with quotient_nonneg [OF r(1,3), of code] True show ?thesis
    by (simp only: number_def if_True uint_word64)
next
  case False
  then have r: "- (2 ^ 63) \<le> n" "n < 2 ^ 63" using assms(1) sint_range64 [of N] by (simp_all add: number_def)
  have "- (2 ^ 63) \<le> rounded_quotient code n d \<and> rounded_quotient code n d < 2 ^ 63"
  proof -
    consider "d = 1" | "d = - 1" | "2 \<le> \<bar>d\<bar>" using assms(3) by linarith
    then show ?thesis
    proof cases
      case 3
      have "2 * \<bar>rounded_quotient code n d\<bar> \<le> \<bar>n\<bar> + 1" by (rule quotient_half [OF 3])
      moreover have "\<bar>n\<bar> \<le> 2 ^ 63" using r by simp
      ultimately have "\<bar>rounded_quotient code n d\<bar> < 2 ^ 63" by simp
      then show ?thesis by (simp add: abs_less_iff)
    qed (use r assms(4) False in \<open>auto simp: quotient_unit\<close>)
  qed
  with sint_word64 False show ?thesis by (simp add: number_def)
qed

lemma division_rounded_aux:
  assumes nd: "n = number uns (two_words lnum hnum)" "d = number uns (two_words lden hden)" "d \<noteq> 0"
    and code: "is_division code" "\<not> sign_lost code n d"
    and wide: "code \<in> {ROUND_DIV_EXPR, ROUND_MOD_EXPR} \<Longrightarrow> \<bar>d\<bar> \<le> 2 ^ 63"
  shows "\<exists>q r. div_and_round_double code uns lnum hnum lden hden = Some (\<not> uns \<and> n = - (2 ^ 63) \<and> d = - 1, q, r)
    \<and> in_two_words q = word_of_int (rounded_quotient code n d)
    \<and> in_two_words r = word_of_int (n - rounded_quotient code n d * d)"
proof -
  from div_and_round_steps [OF nd, of code] obtain q dl dh where s:
    "in_two_words q = word_of_int (n sdiv d)" "uint (two_words dl dh) = \<bar>d\<bar>"
    "div_and_round_double code uns lnum hnum lden hden =
      (case round_quotient code ((n < 0) \<noteq> (d < 0)) q (division_remainder lnum hnum (fst q) (snd q) lden hden) dl dh of
         None \<Rightarrow> None
       | Some t \<Rightarrow>
           let q' = (case t of None \<Rightarrow> q | Some q' \<Rightarrow> q')
           in Some (\<not> uns \<and> n = - (2 ^ 63) \<and> d = - 1, q', division_remainder lnum hnum (fst q') (snd q') lden hden))"
    by blast
  have rest: "in_two_words (division_remainder lnum hnum (fst x) (snd x) lden hden) = word_of_int (n - k * d)"
    if "in_two_words x = word_of_int k" for x k
    using that unfolding division_remainder_value
    by (cases x) (simp add: nd number_word wi_hom_sub [symmetric] wi_hom_mult [symmetric])
  have "in_two_words (division_remainder lnum hnum (fst q) (snd q) lden hden) = word_of_int (n smod d)"
    unfolding rest [OF s(1)] by (simp add: minus_sdiv_mult_eq_smod)
  from round_quotient_value [OF s(1) this s(2) nd(3) _ _ code wide] number_range(1) nd obtain t where
    t: "round_quotient code ((n < 0) \<noteq> (d < 0)) q (division_remainder lnum hnum (fst q) (snd q) lden hden) dl dh = Some t"
    "in_two_words (case t of None \<Rightarrow> q | Some q' \<Rightarrow> q') = word_of_int (rounded_quotient code n d)" by blast
  from rest [OF t(2)] t(2) show ?thesis unfolding s(3) t(1) Let_def option.case by blast
qed

text \<open>The quotient that loses its sign is 1 where it should be -1.\<close>

lemma nearest_loses_sign:
  assumes nd: "n = sint (two_words lnum hnum)" "d = sint (two_words lden hden)" "sign_lost code n d"
  shows "\<exists>r. div_and_round_double code False lnum hnum lden hden = Some (False, (1, 0), r) \<and> rounded_quotient code n d = - 1"
proof -
  have nd': "n = number False (two_words lnum hnum)" "d = number False (two_words lden hden)"
    using nd(1,2) by (simp_all add: number_def)
  have c: "code \<in> {ROUND_DIV_EXPR, ROUND_MOD_EXPR}" and lost: "\<bar>n\<bar> < \<bar>d\<bar>" "(n < 0) \<noteq> (d < 0)" "\<bar>d\<bar> \<le> 2 * \<bar>n\<bar>"
    using nd(3) unfolding sign_lost_def by blast+
  have d0: "d \<noteq> 0" and n0: "n \<noteq> 0" using lost by auto
  have q0: "n sdiv d = 0" "n smod d = n" using lost(1) by (simp_all add: signed_divide_int_def signed_modulo_int_def sgn_mult_abs)
  from div_and_round_steps [OF nd' d0, of code] obtain q dl dh where s:
    "in_two_words q = word_of_int (n sdiv d)" "uint (two_words dl dh) = \<bar>d\<bar>"
    "div_and_round_double code False lnum hnum lden hden =
      (case round_quotient code ((n < 0) \<noteq> (d < 0)) q (division_remainder lnum hnum (fst q) (snd q) lden hden) dl dh of
         None \<Rightarrow> None
       | Some t \<Rightarrow>
           let q' = (case t of None \<Rightarrow> q | Some q' \<Rightarrow> q')
           in Some (\<not> False \<and> n = - (2 ^ 63) \<and> d = - 1, q', division_remainder lnum hnum (fst q') (snd q') lden hden))"
    by blast
  have q: "q = (0, 0)" using s(1) q0(1) in_two_words_eq_iff [of q "(0, 0)"] by (simp add: two_words_0)
  have "in_two_words (division_remainder lnum hnum (fst q) (snd q) lden hden) = word_of_int (n smod d)"
    unfolding division_remainder_value q q0(2) by (simp add: two_words_0 number_word nd'(1))
  moreover have "\<bar>d\<bar> \<le> 2 ^ 63" "\<bar>n\<bar> < 2 ^ 64" unfolding nd' using number_range [of False] by simp_all
  ultimately have reached: "reaches_half (division_remainder lnum hnum (fst q) (snd q) lden hden) dl dh"
    using rounding_reached(1) [OF s(1) _ s(2) d0] lost(3) q0(2) by simp
  have u: "pieces (add_double 0 0 1 0) = (1, 0)" by (simp add: add_double_def add_double_with_sign_def pieces_def Let_def)
  have "div_and_round_double code False lnum hnum lden hden = Some (False, (1, 0), division_remainder lnum hnum 1 0 lden hden)"
    using c reached lost(1,2) unfolding s(3) by (auto simp: round_quotient_def q Let_def u)
  moreover have "rounded_quotient code n d = - 1"
  proof -
    have "(2 * \<bar>n\<bar> + \<bar>d\<bar>) div (2 * \<bar>d\<bar>) = 1"
      using half_up [of "\<bar>n\<bar>" "\<bar>d\<bar>"] lost(1,3) d0 by simp
    moreover have "sgn n * sgn d = - 1" using lost(2) n0 d0 by (auto simp: sgn_if)
    ultimately show ?thesis using c by (auto simp: rounded_quotient_def)
  qed
  ultimately show ?thesis by blast
qed

lemma division_by_zero:
  assumes "is_division code"
  shows "\<exists>q r. div_and_round_double code uns lnum hnum 0 0 = Some (True, q, r)"
proof -
  have total: "round_quotient code neg q r dl dh \<noteq> None" for neg q r dl dh
    using assms unfolding is_division_def by (auto simp: round_quotient_def Let_def)
  obtain l h m where n: "(if \<not> uns \<and> sint hnum < 0 then neg_double lnum hnum else (lnum, hnum, False)) = (l, h, m)"
    by (cases "if \<not> uns \<and> sint hnum < 0 then neg_double lnum hnum else (lnum, hnum, False)")
  have "two_words 1 0 \<noteq> 0" by (simp add: two_words_def)
  from divide_unsigned_value [OF this] obtain a b where "divide_unsigned l h 1 0 = Some (a, b)" by blast
  with n show ?thesis
    unfolding div_and_round_double_def Let_def
    by (auto split: option.splits simp: total)
qed

section \<open>Properties\<close>

text \<open>C40. Division of two-word integers, signed or unsigned, with any of the four roundings: the quotient is the exact
  ratio rounded towards zero, down, up or to the nearest integer, the remainder is what the dividend has more than
  quotient times divisor, and an overflow is reported exactly for the least number by -1, where the quotient wraps
  around, and for the divisor zero. To the nearest integer this is so unless the ratio lies between -1 and
  -1/2, where the sign of the quotient is lost, or an unsigned divisor has its top bit.\<close>

theorem division_rounded:
  assumes "n = number uns (two_words lnum hnum)" "d = number uns (two_words lden hden)" "is_division code"
  shows "(d = 0 \<longrightarrow> (\<exists>q r. div_and_round_double code uns lnum hnum lden hden = Some (True, q, r)))
    \<and> (d \<noteq> 0 \<and> \<not> sign_lost code n d \<and> (code \<in> {ROUND_DIV_EXPR, ROUND_MOD_EXPR} \<longrightarrow> \<bar>d\<bar> \<le> 2 ^ 63) \<longrightarrow>
        (\<exists>overflow q r. div_and_round_double code uns lnum hnum lden hden = Some (overflow, q, r)
          \<and> (overflow \<longleftrightarrow> \<not> uns \<and> n = - (2 ^ 63) \<and> d = - 1)
          \<and> (\<not> overflow \<longrightarrow> number uns (in_two_words q) = rounded_quotient code n d)
          \<and> in_two_words q = word_of_int (rounded_quotient code n d)
          \<and> in_two_words r = word_of_int (n - rounded_quotient code n d * d)))"
proof (intro conjI impI)
  assume "d = 0"
  then have "two_words lden hden = two_words 0 0" using assms(2) number_zero_iff [of uns] by (simp add: two_words_0)
  then have "lden = 0" "hden = 0" by simp_all
  with division_by_zero [OF assms(3)] show "\<exists>q r. div_and_round_double code uns lnum hnum lden hden = Some (True, q, r)" by simp
next
  assume d: "d \<noteq> 0 \<and> \<not> sign_lost code n d \<and> (code \<in> {ROUND_DIV_EXPR, ROUND_MOD_EXPR} \<longrightarrow> \<bar>d\<bar> \<le> 2 ^ 63)"
  obtain q r where
    r: "div_and_round_double code uns lnum hnum lden hden = Some (\<not> uns \<and> n = - (2 ^ 63) \<and> d = - 1, q, r)"
      "in_two_words q = word_of_int (rounded_quotient code n d)"
      "in_two_words r = word_of_int (n - rounded_quotient code n d * d)"
    using division_rounded_aux [OF assms(1,2) _ assms(3)] d by blast
  moreover have "number uns (in_two_words q) = rounded_quotient code n d" if "\<not> (\<not> uns \<and> n = - (2 ^ 63) \<and> d = - 1)"
    unfolding r(2) using quotient_fits [OF assms(1,2) _ that] d by blast
  ultimately show "\<exists>overflow q r. div_and_round_double code uns lnum hnum lden hden = Some (overflow, q, r)
          \<and> (overflow \<longleftrightarrow> \<not> uns \<and> n = - (2 ^ 63) \<and> d = - 1)
          \<and> (\<not> overflow \<longrightarrow> number uns (in_two_words q) = rounded_quotient code n d)
          \<and> in_two_words q = word_of_int (rounded_quotient code n d)
          \<and> in_two_words r = word_of_int (n - rounded_quotient code n d * d)" by blast
qed

lemma division_rounded_witness:
  "\<exists>q r. div_and_round_double FLOOR_DIV_EXPR False (- 7) (- 1) 2 0 = Some (False, q, r) \<and> sint (in_two_words q) = - 4
    \<and> in_two_words r = 1"
proof -
  have "sint (two_words (- 7) (- 1)) = - 7" "sint (two_words 2 0) = 2" unfolding sint_two_words by simp_all
  with division_rounded [of "- 7" False "- 7" "- 1" 2 2 0 FLOOR_DIV_EXPR] show ?thesis
    by (auto simp: number_def is_division_def sign_lost_def rounded_quotient_def)
qed

end
