(* ===== verification/Spec2Isabelle.thy ===== *)
theory Spec2Isabelle
  imports Attribs Args Ascii Options FrameRun FrameOffsets BlockLoop Costs SetReps Sections Cursor HxmlRead FpgaMerge HartesPasses DoubleDivSpec
begin

text \<open>
  The repository is GCC 4.3.4 with the MicroBlaze back end and the hArtes extensions. The
  development models what the port itself contributes, \<open>gcc/config/microblaze/microblaze.c\<close> and
  \<open>microblaze.h\<close>, and the hArtes passes that give calls to a signal processor and to an FPGA, \<open>gcc/diopsis.c\<close> and
  \<open>gcc/fpga.c\<close>, with the description of the machine they read, \<open>gcc/hxml.c\<close>; together with the routines of the middle end they rest
  on, the two representations of sets of numbers that the passes share, and the arithmetic of two-word integers with
  which constants are folded.

  The parts and how they interact. The middle end hands the back end expressions of the register
  transfer language. Address hooks say which of them an instruction can address and rewrite the
  others; move, shift, branch and block-move hooks emit instructions; frame hooks lay out the stack
  frame once registers are assigned and emit the prologue and the epilogue; argument hooks tell
  callers and callees where arguments are; printing hooks write operands, strings, directives and
  sections as assembler text. The option hook fills in the tables the others read. The hArtes pragma
  records a component of the machine for the next function, as an attribute of its declaration, or for the
  next call, as a call of a dummy builtin in front of it. The passes walk over the statement lists of a function
  with iterators and look the component up in the description of the architecture. The first one replaces calls for
  the signal processor by the opening of a remote call, transfers to the registers of the processor, the start,
  and, unless the pragma says otherwise, the wait and the fetch of the result; the second one replaces calls for the FPGA by
  transfers to the exchange registers of the implementation, its start, the wait and the transfers back;
  parallel sections are then merged so that all accelerators run at the same time.

  Theories and the code they model.
  \<^item> \<open>Prelude\<close>: C integers (\<open>hwi\<close> is a HOST_WIDE_INT of 32 bits, the hosts the port supports),
    strings, and the rule collections. \<open>Machmode\<close>: the modes of \<open>machmode.def\<close> with size and class.
  \<^item> \<open>Rtl\<close>: expressions, the register file, register classes and constant ranges of
    \<open>microblaze.h\<close>; settings of a compilation are the record \<open>cc_env\<close>. \<open>RtlSem\<close> and \<open>RtlStep\<close>: what the
    emitted instructions do to 32-bit registers and a big-endian byte memory, straight-line code as a
    function and code with labels as a step relation; they are the specification side.
  \<^item> \<open>Address\<close>: \<open>microblaze_classify_address\<close>, \<open>microblaze_legitimate_address_p\<close>,
    \<open>microblaze_legitimize_address\<close>, \<open>microblaze_address_insns\<close>. \<open>Explow\<close>: \<open>plus_constant\<close>,
    \<open>eliminate_constant_term\<close>, \<open>trunc_int_for_mode\<close> (\<open>explow.c\<close>), \<open>immed_double_const\<close> (\<open>emit-rtl.c\<close>).
  \<^item> \<open>Args\<close>: \<open>init_cumulative_args\<close>, \<open>function_arg\<close>, \<open>function_arg_advance\<close>,
    \<open>function_arg_partial_bytes\<close> over the record \<open>CUMULATIVE_ARGS\<close>.
  \<^item> \<open>Frame\<close>: \<open>compute_frame_size\<close>, \<open>save_restore_insns\<close>, \<open>microblaze_expand_prologue\<close> and
    \<open>microblaze_expand_epilogue\<close> over the record \<open>fn_state\<close>; \<open>FrameSpec\<close> the areas of a frame and the locale
    \<open>slot_area\<close> of a list of saved registers with their slots; \<open>FrameRun\<close> what prologue and epilogue do
    when run; \<open>FrameOffsets\<close> the offsets of eliminated registers and of the debugger.
  \<^item> \<open>BlockMove\<close>: the three strategies of \<open>microblaze_expand_block_move\<close>; \<open>BlockCopy\<close> and \<open>BlockLoop\<close>
    run the code they emit.
  \<^item> \<open>Costs\<close>: costs of expressions, \<open>microblaze_expand_move\<close>, \<open>microblaze_expand_shift\<close>,
    \<open>microblaze_gen_conditional_branch\<close>, reload classes. \<open>Options\<close>: version strings, \<open>override_options\<close>.
  \<^item> \<open>Printf\<close>, \<open>AsmOut\<close>, \<open>Ascii\<close>, \<open>AsmFile\<close>, \<open>Sections\<close>: the assembler text, from printf conversions and
    operands to directives, tables of constructors and the choice of a section (\<open>varasm.c\<close>).
  \<^item> \<open>Attribs\<close>: attribute lists of \<open>tree.c\<close>. \<open>Hartes\<close> and \<open>HartesSpec\<close>: the pragma, the hook that turns
    it into an attribute, the reader of that attribute, the lists of functions.
  \<^item> \<open>SetSpec\<close>: the contract of a set of small numbers as the locale \<open>number_set\<close>. \<open>Sbitmap\<close>,
    \<open>SbitmapSet\<close>, \<open>SbitmapOps\<close>, \<open>SbitmapIter\<close>, \<open>SbitmapFlow\<close>, \<open>SbitmapProps\<close>: \<open>sbitmap.c\<close>. \<open>Sparseset\<close>,
    \<open>SparsesetSet\<close>, \<open>SparsesetOps\<close>, \<open>SparsesetProps\<close>: \<open>sparseset.c\<close> and \<open>sparseset.h\<close>. \<open>SetReps\<close> shows that both meet
    the contract and hence agree on every sequence of operations.
  \<^item> \<open>DoubleWord\<close>: addition, negation and multiplication of integers in two pieces, \<open>add_double_with_sign\<close>,
    \<open>neg_double\<close> and \<open>mul_double_with_sign\<close> of \<open>fold-const.c\<close>; \<open>DoubleDivide\<close>: \<open>div_and_round_double\<close>. A piece is a
    \<open>32 word\<close>, the arrays of digits of 16 bits are lists. \<open>DoubleDigits\<close> the value of a list of digits and the long
    multiplication; \<open>DoubleArith\<close> values and overflows of the first three operations; \<open>DoubleKnuth\<close> the long division, whose
    estimated digits are at most two too high; \<open>DoubleDivSpec\<close> quotients and remainders for each rounding.
  \<^item> \<open>TreeIter\<close>: \<open>tree-iterator.c\<close> and \<open>tree-iterator.h\<close> on a store of nodes with their links;
    \<open>TreeIterSpec\<close> and \<open>TreeIterProps\<close> the invariant of the store and what each routine does to the contents of
    the lists, \<open>TreeList\<close> the routines as steps and the splitting of a list. \<open>Cursor\<close>: an iterator as the
    statements before it and from it on, for the passes; the routines on nodes are shown to refine its operations.
  \<^item> \<open>Hxml\<close>: the handlers of the XML parser and the queries of \<open>hxml.c\<close> over the record \<open>hxml_state\<close>;
    \<open>HxmlSpec\<close> the invariant of the tables, \<open>HxmlRead\<close> the document of a machine and that it is read back.
  \<^item> \<open>Trees\<close>: types, arguments, calls, statements and builtins, as far as the hArtes passes look at them.
  \<^item> \<open>Diopsis\<close>: the variables of \<open>diopsis.c\<close> as the record \<open>dsp_state\<close>, and \<open>insert_diopsis_api\<close>; \<open>DiopsisArgs\<close>:
    \<open>expand_parameters\<close> with \<open>trace_pointer\<close>; \<open>DiopsisCall\<close>: \<open>diopsis_replace_call_tree_tsi\<close>; \<open>DiopsisWalk\<close>: the walk
    \<open>do_diopsis_replace_calls_tree\<close>. \<open>DiopsisSpec\<close> the banks of registers and which argument takes which register;
    \<open>DiopsisRpc\<close> what a statement becomes (the relation \<open>becomes\<close>) and the remote calls it opens and closes (the
    relation \<open>sessions\<close>); \<open>DiopsisRun\<close> the walk as a relation; \<open>DiopsisTotal\<close> the calls for which the replacement
    succeeds; \<open>DiopsisProtocol\<close> and \<open>DiopsisProps\<close> what a call of a function of the processor becomes, from the
    pragma on, and what is lost.
  \<^item> \<open>Fpga\<close>: \<open>expand_parameters\<close> and \<open>replace_call_tree_tsi\<close> of \<open>fpga.c\<close> over the record \<open>fpga_state\<close>;
    \<open>FpgaWalk\<close> the walk \<open>do_fpga_replace_calls_tree\<close>; \<open>FpgaSpec\<close>, \<open>FpgaSafe\<close> and \<open>FpgaMapped\<close> that the walk is a
    replacement of single statements and which calls it leaves; \<open>FpgaProtocol\<close> what a call becomes, from the pragma on.
    \<open>FpgaSections\<close>: \<open>fpga_omp_sections_opt\<close>; \<open>FpgaMerge\<close> that all accelerators are started before the first wait.
    \<open>HartesPasses\<close>: the passes one after the other, as \<open>passes.c\<close> schedules them, and which calls they leave.

  State and errors. State that the code keeps in globals is a record passed in and returned; a
  routine that writes text returns it. A failed assertion, an abort, a write past an array or a read
  of memory that is not there is \<open>None\<close> or \<open>Inl\<close> with the diagnostic; a claim that a routine returns is
  stated as such.

  Loops. Loops are recursions with a termination proof (the walk over a list ends because whatever a
  replacement does to the iterator, the next step goes on behind the call), except the iteration over a sparse
  set whose body may change the set: that one is a \<open>partial_function\<close>, and the claims about it say
  that it returns. The number of steps of a run of emitted code with a loop is not bounded in advance:
  the claims give a run to the end.

  Bounds. Sizes are those of the host's 32-bit \<open>unsigned int\<close>: a bitmap of \<open>n\<close> bits in words of \<open>w\<close> bits is sound while
  \<open>n + w\<close> is below 2^32, a sparse set for \<open>n\<close> numbers while \<open>8 * n + 24\<close> is, and the searches of a bitmap return an
  \<open>int\<close>, so that they are right up to 2^31 bits; where the sizes wrap around is modelled and shown. Two-word integers have
  64 bits; their signed overflow, which C leaves undefined, wraps around.

  What the groups of lemmas show. Each component has lemmas for the value of every operation on
  each branch; then what the emitted code computes when run (frames, block moves, addresses, branches,
  shifts), what is read back from the text (strings, operands), that the invariants of the sets hold after
  every operation, and where the code departs from what it means to do: those theorems state
  the behaviour of the code as it is, and the findings of the manifest name them.

  Parameters. Alignment and names of the tree nodes a hook looks at, the settings of the
  command line, the words of a floating-point constant (\<open>real.c\<close>), the contents of memory that has
  not been written, the target of an assembler alias, the events the XML parser delivers for the
  description of the architecture, what the variables \<open>fpga_return\<close> of \<open>fpga.c\<close> and \<open>attr\<close> and \<open>compname\<close> of
  \<open>diopsis.c\<close> hold where they are tested before they are set, and the result of the one \<open>sprintf\<close> whose arguments
  overlap, which C leaves undefined: it lists the arguments of a pragma. Claims about the text of a pragma are about
  pragmas that name no arguments; those about the call behind a pragma hold whatever text the arguments yield.

  Not modelled. The merging of parallel sections in \<open>diopsis.c\<close>, a pass that \<open>passes.c\<close> does not schedule; the reader of the old
  configuration file, whose queries nothing calls; the instruction patterns of \<open>microblaze.md\<close> (input of generators), the decimal
  output of floating-point constants, shifts of two-word integers and the folding of trees, the run-time routines in assembler, the rest of the
  middle end, the front ends and the other back ends, which come from upstream.
\<close>

end
